(* ===== verification/Prelude.thy ===== *)
theory Prelude
  imports Main "HOL-Library.Word" "HOL-Library.Monad_Syntax"
begin

text \<open>
  Shared vocabulary of the development: machine integers, panics, byte buffers and the
  little-endian accessors of \<^verbatim>\<open>crates/ods/src/lib.rs\<close>, with the generic facts on
  them that the component theories use.

  A Rust panic (an index or a slice bound out of range) is the value \<^verbatim>\<open>Panic\<close> of the
  type \<^verbatim>\<open>'a run\<close>; a function that returns a Rust Option and may also panic has type
  \<^verbatim>\<open>'a option run\<close>. Lengths, offsets and page sizes (usize) are natural numbers: they are
  indices into buffers that exist in memory, so they stay far below the 64-bit bound.
  Values stored in a page are words of their width.
\<close>

type_synonym byte = "8 word"
type_synonym u16 = "16 word"
type_synonym u32 = "32 word"
type_synonym u64 = "64 word"
type_synonym f32 = "32 word"
type_synonym f64 = "64 word"
type_synonym 'a run = "'a option"

abbreviation (input) Panic :: "'a run" where "Panic \<equiv> None"
abbreviation (input) Ret :: "'a \<Rightarrow> 'a run" where "Ret \<equiv> Some"

text \<open>\<^verbatim>\<open>byte_simps\<close>: equations on buffers that the component proofs add to the simplifier.\<close>

named_theorems byte_simps

subsection \<open>Buffers\<close>

text \<open>\<^verbatim>\<open>xs[i]\<close>: an index past the end panics. \<^verbatim>\<open>xs.get(a..b)\<close> answers None instead,
  and \<^verbatim>\<open>&xs[a..b]\<close> panics.\<close>

definition rs_index :: "'a list \<Rightarrow> nat \<Rightarrow> 'a run" where
  "rs_index xs i = (if i < length xs then Ret (xs ! i) else Panic)"

definition get_range :: "'a list \<Rightarrow> nat \<Rightarrow> nat \<Rightarrow> 'a list option" where
  "get_range xs a b = (if a \<le> b \<and> b \<le> length xs then Some (take (b - a) (drop a xs)) else None)"

definition rs_slice :: "'a list \<Rightarrow> nat \<Rightarrow> nat \<Rightarrow> 'a list run" where
  "rs_slice xs a b = get_range xs a b"

definition rs_slice_from :: "'a list \<Rightarrow> nat \<Rightarrow> 'a list run" where
  "rs_slice_from xs a = (if a \<le> length xs then Ret (drop a xs) else Panic)"

text \<open>\<^verbatim>\<open>xs[at..at + ys.len()].copy_from_slice(ys)\<close>, and \<^verbatim>\<open>Vec::resize\<close>.\<close>

definition splice :: "'a list \<Rightarrow> nat \<Rightarrow> 'a list \<Rightarrow> 'a list" where
  "splice xs at ys = take at xs @ ys @ drop (at + length ys) xs"

definition copy_at :: "'a list \<Rightarrow> nat \<Rightarrow> 'a list \<Rightarrow> 'a list run" where
  "copy_at xs at ys = (if at + length ys \<le> length xs then Ret (splice xs at ys) else Panic)"

definition vec_resize :: "'a list \<Rightarrow> nat \<Rightarrow> 'a \<Rightarrow> 'a list" where
  "vec_resize xs n d = (if n \<le> length xs then take n xs else xs @ replicate (n - length xs) d)"

lemma get_range_eq_Some [byte_simps]:
  "get_range xs a b = Some ys \<longleftrightarrow> a \<le> b \<and> b \<le> length xs \<and> ys = take (b - a) (drop a xs)"
  by (auto simp: get_range_def)

lemma get_range_eq_None [byte_simps]: "get_range xs a b = None \<longleftrightarrow> \<not> (a \<le> b \<and> b \<le> length xs)"
  by (simp add: get_range_def)

lemma length_splice [simp]: "at + length ys \<le> length xs \<Longrightarrow> length (splice xs at ys) = length xs"
  by (simp add: splice_def)

lemma length_vec_resize [simp]: "length (vec_resize xs n d) = n"
  by (simp add: vec_resize_def)

lemma nth_splice:
  "at + length ys \<le> length xs \<Longrightarrow> i < length xs \<Longrightarrow>
   splice xs at ys ! i = (if at \<le> i \<and> i < at + length ys then ys ! (i - at) else xs ! i)"
  by (auto simp: splice_def nth_append add.commute)

lemma splice_window [byte_simps]:
  "at + length ys \<le> length xs \<Longrightarrow> take (length ys) (drop at (splice xs at ys)) = ys"
  by (simp add: splice_def)

lemma splice_outside:
  assumes "at + length ys \<le> length xs" "a + n \<le> at \<or> at + length ys \<le> a"
  shows "take n (drop a (splice xs at ys)) = take n (drop a xs)"
proof (rule nth_equalityI)
  show "length (take n (drop a (splice xs at ys))) = length (take n (drop a xs))"
    using assms(1) by simp
  fix i assume i: "i < length (take n (drop a (splice xs at ys)))"
  then have "a + i < length xs" "i < n" using assms(1) by auto
  then show "take n (drop a (splice xs at ys)) ! i = take n (drop a xs) ! i"
    using assms i by (auto simp: nth_splice)
qed

lemma vec_resize_prefix [byte_simps]:
  "k \<le> n \<Longrightarrow> k \<le> length xs \<Longrightarrow> take k (vec_resize xs n d) = take k xs"
  by (simp add: vec_resize_def)

lemma replicate_numeral [byte_simps]:
  "replicate (numeral k) x = x # replicate (pred_numeral k) x"
  by (simp add: numeral_eq_Suc)

text \<open>\<^verbatim>\<open>iter.filter_map(f)\<close> for a closure that may panic.\<close>

fun filter_map_run :: "('a \<Rightarrow> 'b option run) \<Rightarrow> 'a list \<Rightarrow> 'b list run" where
  "filter_map_run f [] = Ret []"
| "filter_map_run f (x # xs) =
     do { r \<leftarrow> f x; rs \<leftarrow> filter_map_run f xs; Ret (case r of None \<Rightarrow> rs | Some y \<Rightarrow> y # rs) }"

text \<open>The first answer of a lazy scan: nothing after it is looked at.\<close>

fun first_run :: "('a \<Rightarrow> 'b option run) \<Rightarrow> 'a list \<Rightarrow> 'b option run" where
  "first_run f [] = Ret None"
| "first_run f (x # xs) = do { r \<leftarrow> f x; (case r of Some y \<Rightarrow> Ret (Some y) | None \<Rightarrow> first_run f xs) }"

text \<open>The \<^verbatim>\<open>?\<close> operator of a function that returns an option and may panic.\<close>

definition or_none :: "'a option run \<Rightarrow> ('a \<Rightarrow> 'b option run) \<Rightarrow> 'b option run" where
  "or_none r k = (case r of Panic \<Rightarrow> Panic | Ret None \<Rightarrow> Ret None | Ret (Some x) \<Rightarrow> k x)"

lemma or_none_simps [simp]:
  "or_none Panic k = Panic" "or_none (Ret None) k = Ret None" "or_none (Ret (Some x)) k = k x"
  by (simp_all add: or_none_def)

lemma or_none_Some: "or_none r k = Ret (Some y) \<longleftrightarrow> (\<exists>x. r = Ret (Some x) \<and> k x = Ret (Some y))"
  by (auto simp: or_none_def split: option.splits)

lemma filter_map_run_total:
  "\<forall>x \<in> set xs. f x \<noteq> Panic \<Longrightarrow> filter_map_run f xs = Ret (List.map_filter (\<lambda>x. the (f x)) xs)"
  by (induction xs) (auto simp: List.map_filter_simps split: option.splits)

subsection \<open>Vectors\<close>

text \<open>\<^verbatim>\<open>iter().position\<close>, \<^verbatim>\<open>iter().rposition\<close> and \<^verbatim>\<open>Vec::remove\<close>.\<close>

fun rs_position :: "('a \<Rightarrow> bool) \<Rightarrow> 'a list \<Rightarrow> nat option" where
  "rs_position P [] = None"
| "rs_position P (x # xs) = (if P x then Some 0 else map_option Suc (rs_position P xs))"

definition rs_rposition :: "('a \<Rightarrow> bool) \<Rightarrow> 'a list \<Rightarrow> nat option" where
  "rs_rposition P xs = map_option (\<lambda>i. length xs - 1 - i) (rs_position P (rev xs))"

definition vec_remove :: "nat \<Rightarrow> 'a list \<Rightarrow> 'a list" where
  "vec_remove i xs = take i xs @ drop (Suc i) xs"

lemma rs_position_Some:
  "rs_position P xs = Some i \<Longrightarrow> i < length xs \<and> P (xs ! i) \<and> (\<forall>j < i. \<not> P (xs ! j))"
proof (induction xs arbitrary: i)
  case (Cons x xs)
  then show ?case by (fastforce simp: nth_Cons split: if_splits nat.splits)
qed simp

lemma rs_position_None: "rs_position P xs = None \<longleftrightarrow> (\<forall>x \<in> set xs. \<not> P x)"
  by (induction xs) auto

lemma rs_rposition_snoc [simp]: "P x \<Longrightarrow> rs_rposition P (xs @ [x]) = Some (length xs)"
  by (simp add: rs_rposition_def)

lemma vec_remove_snoc [simp]: "vec_remove (length xs) (xs @ [x]) = xs"
  by (simp add: vec_remove_def)

lemma vec_remove_split:
  assumes "i < length xs"
  obtains us vs where "xs = us @ xs ! i # vs" "vec_remove i xs = us @ vs" "length us = i"
  using assms that [of "take i xs" "drop (Suc i) xs"]
  by (simp add: vec_remove_def flip: id_take_nth_drop)

lemma set_vec_remove: "set (vec_remove i xs) \<subseteq> set xs"
  by (auto simp: vec_remove_def dest: in_set_takeD in_set_dropD)

subsection \<open>Comparisons\<close>

text \<open>\<^verbatim>\<open>Ordering\<close> and \<^verbatim>\<open>Ord::cmp\<close> on a linear order.\<close>

datatype ordering = Less | Equal | Greater

definition word_cmp :: "'a::linorder \<Rightarrow> 'a \<Rightarrow> ordering" where
  "word_cmp a b = (if a < b then Less else if a = b then Equal else Greater)"

subsection \<open>Little-endian integers\<close>

fun le_nat :: "byte list \<Rightarrow> nat" where
  "le_nat [] = 0"
| "le_nat (b # bs) = unat b + 256 * le_nat bs"

fun le_bytes :: "nat \<Rightarrow> nat \<Rightarrow> byte list" where
  "le_bytes 0 v = []"
| "le_bytes (Suc n) v = of_nat (v mod 256) # le_bytes n (v div 256)"

text \<open>\<^verbatim>\<open>u16_at\<close>, \<^verbatim>\<open>u32_at\<close> and \<^verbatim>\<open>u64_at\<close> index their buffer, so each of them panics
  when the field does not lie inside it.\<close>

definition u16_at :: "byte list \<Rightarrow> nat \<Rightarrow> u16 run" where
  "u16_at buf off = map_option (\<lambda>bs. of_nat (le_nat bs)) (rs_slice buf off (off + 2))"

definition u32_at :: "byte list \<Rightarrow> nat \<Rightarrow> u32 run" where
  "u32_at buf off = map_option (\<lambda>bs. of_nat (le_nat bs)) (rs_slice buf off (off + 4))"

definition u64_at :: "byte list \<Rightarrow> nat \<Rightarrow> u64 run" where
  "u64_at buf off = map_option (\<lambda>bs. of_nat (le_nat bs)) (rs_slice buf off (off + 8))"

definition u16_bytes :: "u16 \<Rightarrow> byte list" where "u16_bytes v = le_bytes 2 (unat v)"
definition u32_bytes :: "u32 \<Rightarrow> byte list" where "u32_bytes v = le_bytes 4 (unat v)"
definition u64_bytes :: "u64 \<Rightarrow> byte list" where "u64_bytes v = le_bytes 8 (unat v)"

lemma unat_byte_lt [simp]: "unat (b :: byte) < 256"
proof -
  have "unat b < 2 ^ LENGTH(8)" by (rule unsigned_less)
  then show ?thesis by simp
qed

lemma byte_eq_iff: "(a :: byte) = b \<longleftrightarrow> (\<forall>n < 8. bit a n \<longleftrightarrow> bit b n)"
  by (simp add: bit_eq_iff [of a b])

lemma unat_word_mod [simp]:
  "unat (v :: u16) mod 65536 = unat v" "unat (w :: u32) mod 4294967296 = unat w"
  "unat (x :: u64) mod 18446744073709551616 = unat x"
proof -
  have "unat v < 2 ^ LENGTH(16)" "unat w < 2 ^ LENGTH(32)" "unat x < 2 ^ LENGTH(64)"
    by (rule unsigned_less)+
  then show "unat v mod 65536 = unat v" "unat w mod 4294967296 = unat w"
    "unat x mod 18446744073709551616 = unat x"
    by simp_all
qed

lemma length_le_bytes [simp]: "length (le_bytes n v) = n"
  by (induction n arbitrary: v) auto

lemma length_u_bytes [simp]:
  "length (u16_bytes a) = 2" "length (u32_bytes b) = 4" "length (u64_bytes c) = 8"
  by (simp_all add: u16_bytes_def u32_bytes_def u64_bytes_def)

lemma le_nat_le_bytes: "le_nat (le_bytes n v) = v mod 256 ^ n"
proof (induction n arbitrary: v)
  case (Suc n)
  have "v mod 256 ^ Suc n = v mod 256 + 256 * (v div 256 mod 256 ^ n)"
    by (simp add: mod_mult2_eq add.commute)
  then show ?case by (simp add: Suc unat_of_nat)
qed simp

lemma le_nat_bound: "le_nat bs < 256 ^ length bs"
proof (induction bs)
  case (Cons b bs)
  have "unat b \<le> 255" using unat_byte_lt [of b] by linarith
  then show ?case using Cons by simp
qed simp

lemma le_bytes_le_nat: "le_bytes (length bs) (le_nat bs) = bs"
proof (induction bs)
  case (Cons b bs)
  have "(unat b + 256 * le_nat bs) div 256 = le_nat bs" by simp
  moreover have "(unat b + 256 * le_nat bs) mod 256 = unat b" by simp
  ultimately show ?case by (simp add: Cons)
qed simp

lemma unat_u16_at: "u16_at buf off = Ret v \<Longrightarrow> unat v = le_nat (take 2 (drop off buf))"
  using le_nat_bound [of "take 2 (drop off buf)"]
  by (auto simp: u16_at_def rs_slice_def get_range_def unat_of_nat split: if_splits)

lemma unat_u32_at: "u32_at buf off = Ret v \<Longrightarrow> unat v = le_nat (take 4 (drop off buf))"
  using le_nat_bound [of "take 4 (drop off buf)"]
  by (auto simp: u32_at_def rs_slice_def get_range_def unat_of_nat split: if_splits)

lemma unat_u64_at: "u64_at buf off = Ret v \<Longrightarrow> unat v = le_nat (take 8 (drop off buf))"
  using le_nat_bound [of "take 8 (drop off buf)"]
  by (auto simp: u64_at_def rs_slice_def get_range_def unat_of_nat split: if_splits)

lemma u_at_inside [byte_simps]:
  "off + 2 \<le> length buf \<Longrightarrow> \<exists>v. u16_at buf off = Ret v"
  "off + 4 \<le> length buf \<Longrightarrow> \<exists>v. u32_at buf off = Ret v"
  "off + 8 \<le> length buf \<Longrightarrow> \<exists>v. u64_at buf off = Ret v"
  by (simp_all add: u16_at_def u32_at_def u64_at_def rs_slice_def get_range_def)

text \<open>Writing a value and reading it back, and reading beside a write.\<close>

lemma u16_at_splice [byte_simps]:
  "off + 2 \<le> length buf \<Longrightarrow> u16_at (splice buf off (u16_bytes v)) off = Ret v"
  using splice_window [of off "u16_bytes v" buf]
  by (simp add: u16_at_def rs_slice_def get_range_def u16_bytes_def le_nat_le_bytes)

lemma u32_at_splice [byte_simps]:
  "off + 4 \<le> length buf \<Longrightarrow> u32_at (splice buf off (u32_bytes v)) off = Ret v"
  by (simp add: u32_at_def rs_slice_def get_range_def splice_def u32_bytes_def le_nat_le_bytes)

lemma u64_at_splice [byte_simps]:
  "off + 8 \<le> length buf \<Longrightarrow> u64_at (splice buf off (u64_bytes v)) off = Ret v"
  by (simp add: u64_at_def rs_slice_def get_range_def splice_def u64_bytes_def le_nat_le_bytes)

lemma u_at_splice_other:
  assumes "at + length ys \<le> length buf"
  shows "off + 2 \<le> at \<or> at + length ys \<le> off \<Longrightarrow> u16_at (splice buf at ys) off = u16_at buf off"
    and "off + 4 \<le> at \<or> at + length ys \<le> off \<Longrightarrow> u32_at (splice buf at ys) off = u32_at buf off"
    and "off + 8 \<le> at \<or> at + length ys \<le> off \<Longrightarrow> u64_at (splice buf at ys) off = u64_at buf off"
  using assms
  by (simp_all add: u16_at_def u32_at_def u64_at_def rs_slice_def get_range_def splice_outside)

end
