(* ===== verification/Ordered_Map.thy ===== *)
theory Ordered_Map
  imports Prelude "HOL-Library.Product_Lexorder" "HOL-Library.List_Lexorder"
begin

text \<open>
  The ordered map of Rust's standard library (\<^verbatim>\<open>std::collections::BTreeMap\<close>) as the components
  use it: entry lookup, insertion, removal, and iteration in ascending key order. The
  representation is an association list sorted by key. The interface the components rely on is
  the locale \<^verbatim>\<open>ordered_map\<close>, interpreted here on the representation.
\<close>

type_synonym ('k, 'v) bt_map = "('k \<times> 'v) list"

abbreviation bt_get :: "('k, 'v) bt_map \<Rightarrow> 'k \<Rightarrow> 'v option" where
  "bt_get m \<equiv> map_of m"

fun bt_put :: "'k::linorder \<Rightarrow> 'v \<Rightarrow> ('k, 'v) bt_map \<Rightarrow> ('k, 'v) bt_map" where
  "bt_put k v [] = [(k, v)]"
| "bt_put k v ((k', v') # m) =
     (if k < k' then (k, v) # (k', v') # m
      else if k = k' then (k, v) # m
      else (k', v') # bt_put k v m)"

definition bt_del :: "'k \<Rightarrow> ('k, 'v) bt_map \<Rightarrow> ('k, 'v) bt_map" where
  "bt_del k m = filter (\<lambda>e. fst e \<noteq> k) m"

definition bt_keys :: "('k, 'v) bt_map \<Rightarrow> 'k list" where
  "bt_keys m = map fst m"

definition bt_wf :: "('k::linorder, 'v) bt_map \<Rightarrow> bool" where
  "bt_wf m \<longleftrightarrow> sorted_wrt (<) (map fst m)"

lemma bt_get_put [simp]: "bt_get (bt_put k v m) = (bt_get m)(k \<mapsto> v)"
  by (induction m) (auto simp: fun_eq_iff)

lemma bt_get_del [simp]: "bt_get (bt_del k m) = (bt_get m)(k := None)"
  by (induction m) (auto simp: bt_del_def fun_eq_iff)

lemma keys_bt_put: "set (map fst (bt_put k v m)) = insert k (set (map fst m))"
  by (simp flip: dom_map_of_conv_image_fst)

lemma bt_wf_Nil [simp]: "bt_wf []"
  by (simp add: bt_wf_def)

lemma bt_wf_put [simp]: "bt_wf m \<Longrightarrow> bt_wf (bt_put k v m)"
proof (induction m)
  case (Cons e m)
  then have "bt_wf (bt_put k v m)" by (simp add: bt_wf_def)
  with Cons.prems show ?case using keys_bt_put [of k v m]
    by (cases e) (auto simp: bt_wf_def)
qed (simp add: bt_wf_def)

lemma bt_wf_del [simp]: "bt_wf m \<Longrightarrow> bt_wf (bt_del k m)"
  by (simp add: bt_wf_def bt_del_def sorted_wrt_map sorted_wrt_filter)

lemma set_bt_keys [simp]: "set (bt_keys m) = dom (bt_get m)"
  by (simp add: bt_keys_def dom_map_of_conv_image_fst)

lemma bt_wf_distinct: "bt_wf m \<Longrightarrow> distinct (map fst m)"
  by (simp add: bt_wf_def strict_sorted_iff)

lemma bt_in_set: "bt_wf m \<Longrightarrow> (k, v) \<in> set m \<longleftrightarrow> bt_get m k = Some v"
  using bt_wf_distinct by fastforce

text \<open>Updating a value in place keeps the keys and their order: the model of an entry
  mutated through \<^verbatim>\<open>get_mut\<close>.\<close>

lemma bt_keys_put_same: "bt_wf m \<Longrightarrow> k \<in> dom (bt_get m) \<Longrightarrow> bt_keys (bt_put k v m) = bt_keys m"
proof (induction m)
  case (Cons e m)
  have low: "\<forall>x \<in> dom (bt_get m). fst e < x"
    using Cons.prems(1) by (simp add: bt_wf_def dom_map_of_conv_image_fst)
  show ?case
  proof (cases "k = fst e")
    case True
    then show ?thesis by (cases e) (simp add: bt_keys_def)
  next
    case False
    then have k: "k \<in> dom (bt_get m)" using Cons.prems(2) by (cases e) auto
    then have "fst e < k" using low by simp
    moreover have "bt_keys (bt_put k v m) = bt_keys m"
      using Cons.IH Cons.prems(1) k by (simp add: bt_wf_def)
    ultimately show ?thesis by (cases e) (auto simp: bt_keys_def)
  qed
qed simp

subsection \<open>The interface\<close>

locale ordered_map =
  fixes get :: "'m \<Rightarrow> 'k::linorder \<Rightarrow> 'v option"
    and put :: "'k \<Rightarrow> 'v \<Rightarrow> 'm \<Rightarrow> 'm"
    and del :: "'k \<Rightarrow> 'm \<Rightarrow> 'm"
    and keys :: "'m \<Rightarrow> 'k list"
    and wf :: "'m \<Rightarrow> bool"
  assumes get_put: "wf m \<Longrightarrow> get (put k v m) = (get m)(k \<mapsto> v)"
    and get_del: "wf m \<Longrightarrow> get (del k m) = (get m)(k := None)"
    and keys_dom: "wf m \<Longrightarrow> set (keys m) = dom (get m)"
    and keys_sorted: "wf m \<Longrightarrow> sorted_wrt (<) (keys m)"
    and wf_put: "wf m \<Longrightarrow> wf (put k v m)"
    and wf_del: "wf m \<Longrightarrow> wf (del k m)"
begin

text \<open>Iteration visits every key once, in ascending order: two maps with the same entries are
  iterated alike, whatever the history of insertions.\<close>

lemma om_keys_determined: "wf m \<Longrightarrow> wf m' \<Longrightarrow> dom (get m) = dom (get m') \<Longrightarrow> keys m = keys m'"
  using keys_sorted [of m] keys_sorted [of m'] keys_dom [of m] keys_dom [of m']
  by (metis strict_sorted_equal)

lemma om_keys_put: "wf m \<Longrightarrow> keys (put k v m) = sorted_list_of_set (insert k (dom (get m)))"
  using wf_put [of m k v] keys_dom [of m] keys_dom [of "put k v m"] keys_sorted [of "put k v m"]
  by (metis dom_fun_upd get_put option.distinct(1) sorted_list_of_set.idem_if_sorted_distinct strict_sorted_iff)

lemma om_keys_del: "wf m \<Longrightarrow> keys (del k m) = sorted_list_of_set (dom (get m) - {k})"
  using wf_del [of m k] keys_dom [of "del k m"] keys_sorted [of "del k m"]
  by (metis dom_fun_upd get_del sorted_list_of_set.idem_if_sorted_distinct strict_sorted_iff)

lemma om_finite: "wf m \<Longrightarrow> finite (dom (get m))"
  by (metis List.finite_set keys_dom)

end

interpretation bt: ordered_map "map_of :: ('k::linorder, 'v) bt_map \<Rightarrow> _" bt_put bt_del bt_keys bt_wf
  by unfold_locales (simp_all del: set_map, simp_all add: bt_keys_def bt_wf_def)

text \<open>Well-formed maps with the same entries are equal.\<close>

lemma bt_ext:
  assumes "bt_wf m" "bt_wf m'" "bt_get m = bt_get m'"
  shows "m = m'"
proof -
  have "map fst m = map fst m'"
    using bt.om_keys_determined [OF assms(1,2)] assms(3) by (simp add: bt_keys_def)
  moreover have "map (\<lambda>k. (k, the (bt_get m k))) (map fst m) = m" if "bt_wf m" for m :: "('a, 'b) bt_map"
    using bt_in_set [OF that] by (auto intro!: map_idI)
  ultimately show ?thesis using assms by metis
qed

end
