(* ===== verification/Lck.thy ===== *)
theory Lck
  imports Ordered_Map
begin

text \<open>
  The lock table of \<^verbatim>\<open>crates/lck/src/lib.rs\<close>: the lock modes and their compatibility matrix, lock
  blocks with per-mode counts and an aggregate state, and the operations of \<^verbatim>\<open>LockTable\<close>:
  enqueue, convert, dequeue with FIFO regrant, knocks, expiry, owner teardown, data words and the
  deadlock scan. A verdict is returned beside the new table; the \<^verbatim>\<open>expect\<close> calls are the value
  Panic. The counters of a block are natural numbers: each is at most the length of a vector in
  memory, and the invariant shows that no decrement ever takes one below zero.
\<close>

subsection \<open>Modes and compatibility\<close>

datatype lock_mode =
    LckNone | LckNull | SharedRead | ProtectedRead | SharedWrite | ProtectedWrite | Exclusive

fun mode_num :: "lock_mode \<Rightarrow> nat" where
  "mode_num LckNone = 0"
| "mode_num LckNull = 1"
| "mode_num SharedRead = 2"
| "mode_num ProtectedRead = 3"
| "mode_num SharedWrite = 4"
| "mode_num ProtectedWrite = 5"
| "mode_num Exclusive = 6"

lemma mode_num_inject [simp]: "mode_num a = mode_num b \<longleftrightarrow> a = b"
  by (cases a; cases b) simp_all

lemma mode_num_less [simp]: "mode_num a < 7"
  by (cases a) simp_all

text \<open>The derived order of the enumeration.\<close>

instantiation lock_mode :: linorder
begin

definition less_eq_lock_mode :: "lock_mode \<Rightarrow> lock_mode \<Rightarrow> bool" where
  "less_eq_lock_mode a b \<longleftrightarrow> mode_num a \<le> mode_num b"

definition less_lock_mode :: "lock_mode \<Rightarrow> lock_mode \<Rightarrow> bool" where
  "less_lock_mode a b \<longleftrightarrow> mode_num a < mode_num b"

instance
  by standard (auto simp: less_eq_lock_mode_def less_lock_mode_def simp flip: mode_num_inject)

end

definition ALL_MODES :: "lock_mode list" where
  "ALL_MODES =
     [LckNone, LckNull, SharedRead, ProtectedRead, SharedWrite, ProtectedWrite, Exclusive]"

fun mode_short :: "lock_mode \<Rightarrow> string" where
  "mode_short LckNone = ''none''"
| "mode_short LckNull = ''null''"
| "mode_short SharedRead = ''SR''"
| "mode_short ProtectedRead = ''PR''"
| "mode_short SharedWrite = ''SW''"
| "mode_short ProtectedWrite = ''PW''"
| "mode_short Exclusive = ''EX''"

definition COMPATIBILITY :: "bool list list" where
  "COMPATIBILITY =
    [[True, True, True, True, True, True, True],
     [True, True, True, True, True, True, True],
     [True, True, True, True, True, True, False],
     [True, True, True, True, False, False, False],
     [True, True, True, False, True, False, False],
     [True, True, True, False, False, False, False],
     [True, True, False, False, False, False, False]]"

definition compatible :: "lock_mode \<Rightarrow> lock_mode \<Rightarrow> bool" where
  "compatible requested held = COMPATIBILITY ! mode_num requested ! mode_num held"

subsection \<open>The interface of a compatibility matrix\<close>

text \<open>
  One probe against the highest granted mode decides a request soundly when the matrix is
  symmetric, the lowest mode conflicts with nothing, and of two modes that can be granted together
  the higher conflicts with everything the lower conflicts with.
\<close>

locale mode_matrix =
  fixes compat :: "'m::linorder \<Rightarrow> 'm \<Rightarrow> bool" and nothing :: 'm
  assumes compat_sym: "compat a b \<longleftrightarrow> compat b a"
    and nothing_compat: "compat a nothing"
    and higher_conflicts: "a < b \<Longrightarrow> compat a b \<Longrightarrow> compat m b \<Longrightarrow> compat m a"
begin

lemma aggregate_sound:
  assumes "sorted_wrt compat ms" "\<forall>m \<in> set ms. m \<le> hi" "hi \<in> set ms"
  shows "compat m hi \<longleftrightarrow> (\<forall>g \<in> set ms. compat m g)"
proof
  assume hi: "compat m hi"
  show "\<forall>g \<in> set ms. compat m g"
  proof
    fix g assume g: "g \<in> set ms"
    show "compat m g"
    proof (cases "g = hi")
      case False
      have "compat g hi"
        using assms(1) g assms(3) False
        by (induction ms) (auto simp: compat_sym [of hi])
      moreover have "g < hi" using assms(2) g False by fastforce
      ultimately show ?thesis using higher_conflicts hi by blast
    qed (simp add: hi)
  qed
qed (use assms in blast)

end

interpretation lm: mode_matrix compatible LckNone
proof unfold_locales
  fix a b m :: lock_mode
  show "compatible a b \<longleftrightarrow> compatible b a"
    by (cases a; cases b) (simp_all add: compatible_def COMPATIBILITY_def)
  show "compatible a LckNone"
    by (cases a) (simp_all add: compatible_def COMPATIBILITY_def)
  show "a < b \<Longrightarrow> compatible a b \<Longrightarrow> compatible m b \<Longrightarrow> compatible m a"
    by (cases a; cases b; cases m)
      (simp_all add: compatible_def COMPATIBILITY_def less_lock_mode_def)
qed

subsection \<open>Lock blocks\<close>

record lock_request =
  req_owner :: u32
  req_mode :: lock_mode
  req_deadline :: "u64 option"

record lock_block =
  lb_data :: u64
  lb_granted :: "lock_request list"
  lb_counts :: "nat list"
  lb_pending :: "lock_request list"

definition empty_block :: lock_block where
  "empty_block = \<lparr>lb_data = 0, lb_granted = [], lb_counts = replicate 7 0, lb_pending = []\<rparr>"

definition bump_count :: "lock_mode \<Rightarrow> nat list \<Rightarrow> nat list" where
  "bump_count m counts = counts[mode_num m := counts ! mode_num m + 1]"

definition drop_count :: "lock_mode \<Rightarrow> nat list \<Rightarrow> nat list" where
  "drop_count m counts = counts[mode_num m := counts ! mode_num m - 1]"

text \<open>The highest mode with a non-zero count.\<close>

definition counts_state :: "nat list \<Rightarrow> lock_mode" where
  "counts_state counts =
     (case find (\<lambda>m. 0 < counts ! mode_num m) (rev ALL_MODES) of Some m \<Rightarrow> m | None \<Rightarrow> LckNone)"

definition lb_state :: "lock_block \<Rightarrow> lock_mode" where
  "lb_state lock = counts_state (lb_counts lock)"

definition state_excluding :: "u32 \<Rightarrow> lock_block \<Rightarrow> lock_mode" where
  "state_excluding owner lock =
     counts_state (fold (\<lambda>r counts. if req_owner r = owner then drop_count (req_mode r) counts else counts)
       (lb_granted lock) (lb_counts lock))"

definition push_granted :: "lock_request \<Rightarrow> lock_block \<Rightarrow> lock_block" where
  "push_granted r lock =
     lock\<lparr>lb_granted := lb_granted lock @ [r], lb_counts := bump_count (req_mode r) (lb_counts lock)\<rparr>"

text \<open>The FIFO regrant loop of \<^verbatim>\<open>dequeue\<close>.\<close>

function regrant :: "lock_block \<Rightarrow> lock_block" where
  "regrant lock =
     (case lb_pending lock of
        [] \<Rightarrow> lock
      | head # rest \<Rightarrow>
          if compatible (req_mode head) (lb_state lock)
          then regrant (push_granted head (lock\<lparr>lb_pending := rest\<rparr>))
          else lock)"
  by pat_completeness auto
termination by (relation "measure (\<lambda>lock. length (lb_pending lock))") (auto simp: push_granted_def)

declare regrant.simps [simp del]

subsection \<open>The lock table\<close>

datatype verdict = Granted | Waiting | Rejected | Deadlock

type_synonym lock_key = "byte \<times> byte list"

record lock_table =
  lt_locks :: "(lock_key, lock_block) bt_map"
  lt_next_owner :: u32
  lt_knocks :: "(u32, (byte \<times> byte list \<times> lock_mode) list) bt_map"

definition lt_new :: lock_table where
  "lt_new = \<lparr>lt_locks = [], lt_next_owner = 0, lt_knocks = []\<rparr>"

definition create_owner :: "lock_table \<Rightarrow> u32 \<times> lock_table" where
  "create_owner t = (lt_next_owner t + 1, t\<lparr>lt_next_owner := lt_next_owner t + 1\<rparr>)"

text \<open>The block of a key, and a block written back (\<^verbatim>\<open>get_mut\<close> or \<^verbatim>\<open>entry\<close>).\<close>

abbreviation block :: "lock_table \<Rightarrow> lock_key \<Rightarrow> lock_block option" where
  "block t k \<equiv> bt_get (lt_locks t) k"

definition put_block :: "lock_key \<Rightarrow> lock_block \<Rightarrow> lock_table \<Rightarrow> lock_table" where
  "put_block k lock t = t\<lparr>lt_locks := bt_put k lock (lt_locks t)\<rparr>"

definition del_block :: "lock_key \<Rightarrow> lock_table \<Rightarrow> lock_table" where
  "del_block k t = t\<lparr>lt_locks := bt_del k (lt_locks t)\<rparr>"

definition block_or_default :: "lock_table \<Rightarrow> lock_key \<Rightarrow> lock_block" where
  "block_or_default t k = (case block t k of Some lock \<Rightarrow> lock | None \<Rightarrow> empty_block)"

text \<open>The owners in the way of a pending request, in granted order, each once.\<close>

definition push_new :: "'a \<Rightarrow> 'a list \<Rightarrow> 'a list" where
  "push_new x out = (if x \<in> set out then out else out @ [x])"

definition blockers :: "lock_table \<Rightarrow> u32 \<Rightarrow> byte \<Rightarrow> byte list \<Rightarrow> u32 list" where
  "blockers t owner series key =
     (case block t (series, key) of
        None \<Rightarrow> []
      | Some lock \<Rightarrow>
          fold (\<lambda>p out. fold (\<lambda>g out.
                  if req_owner g \<noteq> owner \<and> \<not> compatible (req_mode p) (req_mode g)
                  then push_new (req_owner g) out else out) (lb_granted lock) out)
            (filter (\<lambda>p. req_owner p = owner) (lb_pending lock)) [])"

definition add_knock :: "byte \<Rightarrow> byte list \<Rightarrow> lock_mode \<Rightarrow> u32 \<Rightarrow> lock_table \<Rightarrow> lock_table" where
  "add_knock series key mode target t =
     (let q = (case bt_get (lt_knocks t) target of Some q \<Rightarrow> q | None \<Rightarrow> []) in
      t\<lparr>lt_knocks := bt_put target
          (if list_ex (\<lambda>(s, k, m). s = series \<and> k = key) q then q else q @ [(series, key, mode)])
          (lt_knocks t)\<rparr>)"

definition knock :: "byte \<Rightarrow> byte list \<Rightarrow> u32 \<Rightarrow> lock_mode \<Rightarrow> lock_table \<Rightarrow> lock_table" where
  "knock series key waiter mode t = fold (add_knock series key mode) (blockers t waiter series key) t"

definition take_knocks :: "u32 \<Rightarrow> lock_table \<Rightarrow> (byte \<times> byte list \<times> lock_mode) list \<times> lock_table" where
  "take_knocks owner t =
     ((case bt_get (lt_knocks t) owner of Some q \<Rightarrow> q | None \<Rightarrow> []),
      t\<lparr>lt_knocks := bt_del owner (lt_knocks t)\<rparr>)"

subsection \<open>The deadlock scan\<close>

text \<open>The owners that \<^verbatim>\<open>owner\<close> waits for, in the order the scan pushes them.\<close>

definition block_edges :: "u32 \<Rightarrow> lock_block \<Rightarrow> u32 list" where
  "block_edges owner lock =
     concat (map (\<lambda>p. map req_owner
         (filter (\<lambda>g. req_owner g \<noteq> owner \<and> \<not> compatible (req_mode p) (req_mode g)) (lb_granted lock)))
       (filter (\<lambda>p. req_owner p = owner) (lb_pending lock)))"

definition wait_edges :: "lock_table \<Rightarrow> u32 \<Rightarrow> u32 list" where
  "wait_edges t owner = concat (map (\<lambda>(k, lock). block_edges owner lock) (lt_locks t))"

text \<open>The stack of the scan is written top first, so the pushed owners come in reverse.\<close>

function deadlock_loop :: "lock_table \<Rightarrow> u32 \<Rightarrow> u32 list \<Rightarrow> bool \<Rightarrow> u32 list \<Rightarrow> bool" where
  "deadlock_loop t start stack first seen =
     (case stack of
        [] \<Rightarrow> False
      | owner # rest \<Rightarrow>
          if \<not> first \<and> owner = start then True
          else if owner \<in> set seen then deadlock_loop t start rest False seen
          else deadlock_loop t start (rev (wait_edges t owner) @ rest) False (seen @ [owner]))"
  by pat_completeness auto
termination
proof (relation "measures [\<lambda>(t, start, stack, first, seen). card (- set seen),
                           \<lambda>(t, start, stack, first, seen). length stack]")
  fix t :: lock_table and start owner :: u32 and stack rest seen first
  assume "owner \<notin> set seen"
  then have "card (- set (seen @ [owner])) < card (- set seen)"
    by (intro psubset_card_mono) auto
  then show "((t, start, rev (wait_edges t owner) @ rest, False, seen @ [owner]), t, start, stack, first, seen)
      \<in> measures [\<lambda>(t, start, stack, first, seen). card (- set seen),
                  \<lambda>(t, start, stack, first, seen). length stack]"
    by simp
qed auto

declare deadlock_loop.simps [simp del]

definition deadlock_from :: "lock_table \<Rightarrow> u32 \<Rightarrow> bool" where
  "deadlock_from t start = deadlock_loop t start [start] True []"

subsection \<open>The operations\<close>

text \<open>The withdrawal of the request that was just parked: the last pending request of the owner
  in that mode.\<close>

definition withdraw :: "lock_key \<Rightarrow> u32 \<Rightarrow> lock_mode \<Rightarrow> lock_table \<Rightarrow> lock_table run" where
  "withdraw k owner mode t =
     do {
       lock \<leftarrow> block t k;
       pos \<leftarrow> rs_rposition (\<lambda>p. req_owner p = owner \<and> req_mode p = mode) (lb_pending lock);
       Ret (put_block k (lock\<lparr>lb_pending := vec_remove pos (lb_pending lock)\<rparr>) t)
     }"

text \<open>The tail that enqueue and convert share: park the request, knock, scan, and withdraw it
  when waiting would close a cycle.\<close>

definition park :: "lock_request \<Rightarrow> byte \<Rightarrow> byte list \<Rightarrow> lock_block \<Rightarrow> lock_table \<Rightarrow> (verdict \<times> lock_table) run" where
  "park r series key lock t =
     (let t1 = put_block (series, key) (lock\<lparr>lb_pending := lb_pending lock @ [r]\<rparr>) t;
          t2 = knock series key (req_owner r) (req_mode r) t1
      in if deadlock_from t2 (req_owner r)
         then do { t3 \<leftarrow> withdraw (series, key) (req_owner r) (req_mode r) t2; Ret (Deadlock, t3) }
         else Ret (Waiting, t2))"

definition enqueue_deadline ::
    "u32 \<Rightarrow> byte \<Rightarrow> byte list \<Rightarrow> lock_mode \<Rightarrow> bool \<Rightarrow> u64 option \<Rightarrow> lock_table \<Rightarrow> (verdict \<times> lock_table) run" where
  "enqueue_deadline owner series key mode wait deadline t =
     (let lock = block_or_default t (series, key);
          blocked_by_queue =
            list_ex (\<lambda>p. \<not> compatible mode (req_mode p) \<or> \<not> compatible (req_mode p) mode) (lb_pending lock)
      in if compatible mode (lb_state lock) \<and> \<not> blocked_by_queue
         then Ret (Granted, put_block (series, key)
                (push_granted \<lparr>req_owner = owner, req_mode = mode, req_deadline = None\<rparr> lock) t)
         else if \<not> wait then Ret (Rejected, put_block (series, key) lock t)
         else park \<lparr>req_owner = owner, req_mode = mode, req_deadline = deadline\<rparr> series key lock t)"

definition enqueue ::
    "u32 \<Rightarrow> byte \<Rightarrow> byte list \<Rightarrow> lock_mode \<Rightarrow> bool \<Rightarrow> lock_table \<Rightarrow> (verdict \<times> lock_table) run" where
  "enqueue owner series key mode wait t = enqueue_deadline owner series key mode wait None t"

definition set_granted_mode :: "nat \<Rightarrow> lock_mode \<Rightarrow> lock_block \<Rightarrow> lock_block" where
  "set_granted_mode pos new_mode lock =
     (let r = lb_granted lock ! pos in
      lock\<lparr>lb_granted := (lb_granted lock)[pos := r\<lparr>req_mode := new_mode\<rparr>],
           lb_counts := bump_count new_mode (drop_count (req_mode r) (lb_counts lock))\<rparr>)"

definition convert ::
    "u32 \<Rightarrow> byte \<Rightarrow> byte list \<Rightarrow> lock_mode \<Rightarrow> bool \<Rightarrow> lock_table \<Rightarrow> (verdict \<times> lock_table) run" where
  "convert owner series key new_mode wait t =
     (case block t (series, key) of
        None \<Rightarrow> Ret (Rejected, t)
      | Some lock \<Rightarrow>
          (case rs_position (\<lambda>r. req_owner r = owner) (lb_granted lock) of
             None \<Rightarrow> Ret (Rejected, t)
           | Some pos \<Rightarrow>
               if compatible new_mode (state_excluding owner lock)
               then Ret (Granted, put_block (series, key) (set_granted_mode pos new_mode lock) t)
               else if \<not> wait then Ret (Rejected, t)
               else park \<lparr>req_owner = owner, req_mode = new_mode, req_deadline = None\<rparr> series key lock t))"

definition release :: "u32 \<Rightarrow> lock_block \<Rightarrow> lock_block" where
  "release owner lock =
     (case rs_position (\<lambda>r. req_owner r = owner) (lb_granted lock) of
        None \<Rightarrow> lock
      | Some pos \<Rightarrow>
          lock\<lparr>lb_granted := vec_remove pos (lb_granted lock),
               lb_counts := drop_count (req_mode (lb_granted lock ! pos)) (lb_counts lock)\<rparr>)"

definition dequeue :: "u32 \<Rightarrow> byte \<Rightarrow> byte list \<Rightarrow> lock_table \<Rightarrow> lock_table" where
  "dequeue owner series key t =
     (case block t (series, key) of
        None \<Rightarrow> t
      | Some lock \<Rightarrow>
          let lock = regrant (release owner lock) in
          if lb_granted lock = [] \<and> lb_pending lock = [] then del_block (series, key) t
          else put_block (series, key) lock t)"

definition is_granted :: "lock_table \<Rightarrow> u32 \<Rightarrow> byte \<Rightarrow> byte list \<Rightarrow> bool" where
  "is_granted t owner series key =
     (case block t (series, key) of
        None \<Rightarrow> False
      | Some lock \<Rightarrow> list_ex (\<lambda>r. req_owner r = owner) (lb_granted lock))"

definition expired :: "u64 \<Rightarrow> lock_request \<Rightarrow> bool" where
  "expired now p = (case req_deadline p of None \<Rightarrow> False | Some d \<Rightarrow> d \<le> now)"

definition expire_block ::
    "u64 \<Rightarrow> lock_key \<Rightarrow> (u32 \<times> byte \<times> byte list) list \<times> lock_table \<Rightarrow> (u32 \<times> byte \<times> byte list) list \<times> lock_table" where
  "expire_block now k acc =
     (case acc of (out, t) \<Rightarrow>
       (case block t k of
          None \<Rightarrow> (out, t)
        | Some lock \<Rightarrow>
            (out @ map (\<lambda>p. (req_owner p, k)) (filter (expired now) (lb_pending lock)),
             put_block k (lock\<lparr>lb_pending := filter (\<lambda>p. \<not> expired now p) (lb_pending lock)\<rparr>) t)))"

definition expire :: "u64 \<Rightarrow> lock_table \<Rightarrow> (u32 \<times> byte \<times> byte list) list \<times> lock_table" where
  "expire now t = fold (expire_block now) (bt_keys (lt_locks t)) ([], t)"

definition purge_block :: "u32 \<Rightarrow> lock_key \<Rightarrow> nat \<times> lock_table \<Rightarrow> nat \<times> lock_table" where
  "purge_block owner k acc =
     (case acc of (released, t) \<Rightarrow>
       (case block t k of
          None \<Rightarrow> (released, t)
        | Some lock0 \<Rightarrow>
            let lock = lock0\<lparr>lb_pending := filter (\<lambda>p. req_owner p \<noteq> owner) (lb_pending lock0)\<rparr>;
                t1 = put_block k lock t
            in if list_ex (\<lambda>r. req_owner r = owner) (lb_granted lock)
               then (released + 1, dequeue owner (fst k) (snd k) t1)
               else if lb_granted lock = [] \<and> lb_pending lock = [] then (released, del_block k t1)
               else (released, t1)))"

definition purge_owner :: "u32 \<Rightarrow> lock_table \<Rightarrow> nat \<times> lock_table" where
  "purge_owner owner t = fold (purge_block owner) (bt_keys (lt_locks t)) (0, t)"

definition write_data :: "u32 \<Rightarrow> byte \<Rightarrow> byte list \<Rightarrow> u64 \<Rightarrow> lock_table \<Rightarrow> (string + unit) \<times> lock_table" where
  "write_data owner series key data t =
     (case block t (series, key) of
        None \<Rightarrow> (Inl ''no such lock'', t)
      | Some lock \<Rightarrow>
          if \<not> list_ex (\<lambda>r. req_owner r = owner) (lb_granted lock)
          then (Inl ''data writes require holding the lock'', t)
          else (Inr (), put_block (series, key) (lock\<lparr>lb_data := data\<rparr>) t))"

definition read_data :: "lock_table \<Rightarrow> byte \<Rightarrow> byte list \<Rightarrow> u64" where
  "read_data t series key = (case block t (series, key) of None \<Rightarrow> 0 | Some lock \<Rightarrow> lb_data lock)"

end
