(* ===== verification/Lck_Grants.thy ===== *)
theory Lck_Grants
  imports Lck "HOL-Library.Multiset"
begin

text \<open>
  The granted sets of the lock table: the counters of every block are exact, the granted modes
  are mutually compatible, so that the single probe against the aggregate decides what a probe
  against every holder would decide; every operation keeps this, and the FIFO regrant leaves a
  head that cannot be granted.
\<close>

subsection \<open>Exact counters and the aggregate\<close>

definition mode_count :: "lock_mode \<Rightarrow> lock_request list \<Rightarrow> nat" where
  "mode_count m gs = length (filter (\<lambda>r. req_mode r = m) gs)"

definition counts_exact :: "nat list \<Rightarrow> lock_request list \<Rightarrow> bool" where
  "counts_exact counts gs \<longleftrightarrow> length counts = 7 \<and> (\<forall>m. counts ! mode_num m = mode_count m gs)"

definition mutually_compatible :: "lock_request list \<Rightarrow> bool" where
  "mutually_compatible gs \<longleftrightarrow> sorted_wrt (\<lambda>a b. compatible (req_mode a) (req_mode b)) gs"

definition block_sound :: "lock_block \<Rightarrow> bool" where
  "block_sound lock \<longleftrightarrow> counts_exact (lb_counts lock) (lb_granted lock) \<and> mutually_compatible (lb_granted lock)"

lemma mode_count_simps [simp]:
  "mode_count m [] = 0"
  "mode_count m (r # gs) = (if req_mode r = m then Suc (mode_count m gs) else mode_count m gs)"
  "mode_count m (gs @ hs) = mode_count m gs + mode_count m hs"
  by (simp_all add: mode_count_def)

lemma mode_count_pos: "0 < mode_count m gs \<longleftrightarrow> (\<exists>g \<in> set gs. req_mode g = m)"
  by (auto simp: mode_count_def filter_empty_conv)

lemma counts_exact_bump: "counts_exact c gs \<Longrightarrow> counts_exact (bump_count (req_mode r) c) (gs @ [r])"
  by (auto simp: counts_exact_def bump_count_def nth_list_update)

lemma counts_exact_drop:
  "counts_exact c (us @ r # vs) \<Longrightarrow> counts_exact (drop_count (req_mode r) c) (us @ vs)"
  by (auto simp: counts_exact_def drop_count_def nth_list_update)

lemma mode_count_size: "mode_count m gs = size (filter_mset (\<lambda>r. req_mode r = m) (mset gs))"
  by (induction gs) simp_all

lemma mode_count_mset: "mset gs = mset hs \<Longrightarrow> mode_count m gs = mode_count m hs"
  by (simp add: mode_count_size)

lemma counts_exact_perm: "counts_exact c gs \<Longrightarrow> mset gs = mset hs \<Longrightarrow> counts_exact c hs"
  by (simp add: counts_exact_def mode_count_size)

lemma find_highest:
  "sorted_wrt (>) xs \<Longrightarrow> case find P xs of None \<Rightarrow> \<forall>m \<in> set xs. \<not> P m
     | Some s \<Rightarrow> P s \<and> (\<forall>m \<in> set xs. P m \<longrightarrow> m \<le> (s :: lock_mode))"
proof (induction xs)
  case (Cons x xs)
  have below: "\<forall>y \<in> set xs. y < x" and rest: "sorted_wrt (>) xs" using Cons.prems by simp_all
  show ?case
  proof (cases "P x")
    case True
    have "y \<le> x" if "y \<in> set (x # xs)" for y using that below by (cases "y = x") (auto intro: less_imp_le)
    then show ?thesis using True by simp
  next
    case False
    then show ?thesis using Cons.IH [OF rest] by (cases "find P xs") simp_all
  qed
qed simp

lemma all_modes: "set (rev ALL_MODES) = UNIV" "sorted_wrt (>) (rev ALL_MODES)"
proof -
  have "m \<in> set ALL_MODES" for m by (cases m) (simp_all add: ALL_MODES_def)
  then show "set (rev ALL_MODES) = UNIV" by auto
  show "sorted_wrt (>) (rev ALL_MODES)" by (simp add: ALL_MODES_def less_lock_mode_def)
qed

lemma find_top:
  "case find P (rev ALL_MODES) of None \<Rightarrow> \<forall>m. \<not> P m | Some s \<Rightarrow> P s \<and> (\<forall>m. P m \<longrightarrow> m \<le> s)"
  using find_highest [OF all_modes(2), of P] unfolding all_modes(1) by (cases "find P (rev ALL_MODES)") simp_all

lemma counts_state_cases:
  assumes "counts_exact c gs"
  shows "gs = [] \<and> counts_state c = LckNone \<or>
    (\<exists>g \<in> set gs. req_mode g = counts_state c) \<and> (\<forall>g \<in> set gs. req_mode g \<le> counts_state c)"
proof -
  have P: "0 < c ! mode_num m \<longleftrightarrow> (\<exists>g \<in> set gs. req_mode g = m)" for m
    using assms by (simp add: counts_exact_def mode_count_pos)
  have "case find (\<lambda>m. 0 < c ! mode_num m) (rev ALL_MODES) of
      None \<Rightarrow> \<forall>m. \<not> (0 < c ! mode_num m) | Some s \<Rightarrow> 0 < c ! mode_num s \<and> (\<forall>m. 0 < c ! mode_num m \<longrightarrow> m \<le> s)"
    by (rule find_top)
  then show ?thesis unfolding P counts_state_def
    by (cases gs) (auto split: option.splits)
qed

lemma probe_sound:
  assumes "counts_exact c gs" "mutually_compatible gs"
  shows "compatible m (counts_state c) \<longleftrightarrow> (\<forall>g \<in> set gs. compatible m (req_mode g))"
  using counts_state_cases [OF assms(1)]
proof
  assume "gs = [] \<and> counts_state c = LckNone"
  then show ?thesis by (simp add: lm.nothing_compat)
next
  assume "(\<exists>g \<in> set gs. req_mode g = counts_state c) \<and> (\<forall>g \<in> set gs. req_mode g \<le> counts_state c)"
  moreover have "sorted_wrt compatible (map req_mode gs)"
    using assms(2) by (simp add: mutually_compatible_def sorted_wrt_map)
  ultimately show ?thesis
    using lm.aggregate_sound [of "map req_mode gs" "counts_state c" m] by (simp add: image_iff) metis
qed

lemma probe_block:
  "block_sound lock \<Longrightarrow> compatible m (lb_state lock) \<longleftrightarrow> (\<forall>g \<in> set (lb_granted lock). compatible m (req_mode g))"
  by (simp add: block_sound_def lb_state_def probe_sound)

subsection \<open>Blocks\<close>

lemma sound_empty [simp]: "block_sound empty_block"
  by (simp add: block_sound_def empty_block_def counts_exact_def mutually_compatible_def)

lemma sound_pending [simp]: "block_sound (lock\<lparr>lb_pending := ps\<rparr>) \<longleftrightarrow> block_sound lock"
  "block_sound (lock\<lparr>lb_data := d\<rparr>) \<longleftrightarrow> block_sound lock"
  by (simp_all add: block_sound_def)

lemma lb_state_pending [simp]: "lb_state (lock\<lparr>lb_pending := ps\<rparr>) = lb_state lock"
  "lb_state (lock\<lparr>lb_data := d\<rparr>) = lb_state lock"
  by (simp_all add: lb_state_def)

lemma push_granted_sel [simp]:
  "lb_granted (push_granted r lock) = lb_granted lock @ [r]"
  "lb_pending (push_granted r lock) = lb_pending lock"
  "lb_data (push_granted r lock) = lb_data lock"
  by (simp_all add: push_granted_def)

lemma sound_push:
  assumes "block_sound lock" "compatible (req_mode r) (lb_state lock)"
  shows "block_sound (push_granted r lock)"
proof -
  have "\<forall>g \<in> set (lb_granted lock). compatible (req_mode g) (req_mode r)"
    using assms probe_block lm.compat_sym by blast
  then show ?thesis
    using assms(1)
    by (simp add: block_sound_def push_granted_def mutually_compatible_def sorted_wrt_append counts_exact_bump)
qed

lemma sound_release:
  assumes "block_sound lock"
  shows "block_sound (release owner lock)"
proof (cases "rs_position (\<lambda>r. req_owner r = owner) (lb_granted lock)")
  case (Some pos)
  then have "pos < length (lb_granted lock)" by (simp add: rs_position_Some)
  then obtain us vs where uv: "lb_granted lock = us @ lb_granted lock ! pos # vs"
    "vec_remove pos (lb_granted lock) = us @ vs"
    by (rule vec_remove_split)
  have "counts_exact (lb_counts lock) (us @ lb_granted lock ! pos # vs)"
    "mutually_compatible (us @ lb_granted lock ! pos # vs)"
    using assms by (simp_all add: block_sound_def flip: uv(1))
  then show ?thesis
    by (simp add: release_def Some block_sound_def uv(2) counts_exact_drop mutually_compatible_def sorted_wrt_append)
qed (simp add: release_def assms)

lemma release_pending [simp]: "lb_pending (release owner lock) = lb_pending lock"
  by (simp add: release_def split: option.splits)

text \<open>The regrant loop moves a prefix of the queue, in order, to the granted list, and stops at
  a head that cannot be granted.\<close>

lemma regrant_spec:
  "\<exists>ps. lb_pending lock = ps @ lb_pending (regrant lock) \<and> lb_granted (regrant lock) = lb_granted lock @ ps"
proof (induction lock rule: regrant.induct)
  case (1 lock)
  show ?case
  proof (cases "lb_pending lock")
    case Nil
    then show ?thesis by (simp add: regrant.simps [of lock])
  next
    case (Cons head rest)
    then show ?thesis
      using 1 [OF Cons] by (cases "compatible (req_mode head) (lb_state lock)") (auto simp: regrant.simps [of lock])
  qed
qed

lemma sound_regrant: "block_sound lock \<Longrightarrow> block_sound (regrant lock)"
proof (induction lock rule: regrant.induct)
  case (1 lock)
  show ?case
  proof (cases "lb_pending lock")
    case Nil
    then show ?thesis using 1(2) by (simp add: regrant.simps [of lock])
  next
    case (Cons head rest)
    then show ?thesis
      using 1 by (cases "compatible (req_mode head) (lb_state lock)")
        (simp_all add: regrant.simps [of lock] sound_push)
  qed
qed

text \<open>A block without a lost wake-up: its first pending request cannot be granted now.\<close>

definition head_blocked :: "lock_block \<Rightarrow> bool" where
  "head_blocked lock \<longleftrightarrow>
     (case lb_pending lock of [] \<Rightarrow> True | p # ps \<Rightarrow> \<not> compatible (req_mode p) (lb_state lock))"

lemma head_blocked_regrant: "head_blocked (regrant lock)"
proof (induction lock rule: regrant.induct)
  case (1 lock)
  show ?case
  proof (cases "lb_pending lock")
    case (Cons head rest)
    then show ?thesis
      using 1 by (cases "compatible (req_mode head) (lb_state lock)")
        (auto simp: regrant.simps [of lock] head_blocked_def)
  qed (simp add: regrant.simps [of lock] head_blocked_def)
qed

subsection \<open>The aggregate without one owner\<close>

definition others :: "u32 \<Rightarrow> lock_request list \<Rightarrow> lock_request list" where
  "others owner gs = filter (\<lambda>r. req_owner r \<noteq> owner) gs"

lemma drop_owner_counts:
  assumes "length c = 7"
  shows "fold (\<lambda>r c. if req_owner r = owner then drop_count (req_mode r) c else c) gs c ! mode_num m =
      c ! mode_num m - mode_count m (filter (\<lambda>r. req_owner r = owner) gs)"
    and "length (fold (\<lambda>r c. if req_owner r = owner then drop_count (req_mode r) c else c) gs c) = 7"
  using assms
proof (induction gs arbitrary: c)
  case (Cons r gs)
  { case 1 with Cons(1) [of "drop_count (req_mode r) c"] Cons(1) [of c] show ?case
      by (auto simp: drop_count_def nth_list_update) }
  { case 2 with Cons(2) show ?case by (simp add: drop_count_def) }
qed simp_all

lemma counts_excluding:
  assumes "counts_exact c gs"
  shows "counts_exact (fold (\<lambda>r c. if req_owner r = owner then drop_count (req_mode r) c else c) gs c) (others owner gs)"
proof -
  have "mode_count m gs = mode_count m (filter (\<lambda>r. req_owner r = owner) gs) + mode_count m (others owner gs)" for m
    by (induction gs) (auto simp: others_def)
  then show ?thesis using assms by (simp add: counts_exact_def drop_owner_counts)
qed

lemma probe_excluding:
  assumes "block_sound lock"
  shows "compatible m (state_excluding owner lock) \<longleftrightarrow>
    (\<forall>g \<in> set (lb_granted lock). req_owner g \<noteq> owner \<longrightarrow> compatible m (req_mode g))"
proof -
  have "mutually_compatible (others owner (lb_granted lock))"
    using assms by (simp add: block_sound_def mutually_compatible_def others_def sorted_wrt_filter)
  then show ?thesis
    unfolding state_excluding_def
    using probe_sound [OF counts_excluding] assms by (auto simp: block_sound_def others_def)
qed

lemma sound_convert:
  assumes sound: "block_sound lock" and pos: "pos < length (lb_granted lock)"
    and only: "\<forall>i < length (lb_granted lock). req_owner (lb_granted lock ! i) = owner \<longrightarrow> i = pos"
    and compat: "compatible m (state_excluding owner lock)"
  shows "block_sound (set_granted_mode pos m lock)"
proof -
  obtain us vs where uv: "lb_granted lock = us @ lb_granted lock ! pos # vs" "length us = pos"
    using pos by (rule vec_remove_split)
  let ?r = "lb_granted lock ! pos"
  have upd: "(lb_granted lock)[pos := ?r\<lparr>req_mode := m\<rparr>] = us @ ?r\<lparr>req_mode := m\<rparr> # vs"
    using uv by (metis list_update_length)
  have "req_owner g \<noteq> owner" if "g \<in> set us \<or> g \<in> set vs" for g
  proof -
    have "\<exists>i < length (lb_granted lock). i \<noteq> pos \<and> lb_granted lock ! i = g"
    proof (cases "g \<in> set us")
      case True
      then obtain i where "i < length us" "us ! i = g" by (auto simp: in_set_conv_nth)
      then show ?thesis using uv pos by (intro exI [of _ i]) (metis nth_append less_trans nat_neq_iff)
    next
      case False
      then have "g \<in> set vs" using that by blast
      then obtain i where i: "i < length vs" "vs ! i = g" by (auto simp: in_set_conv_nth)
      then have "(us @ ?r # vs) ! (Suc pos + i) = g" "Suc pos + i < length (us @ ?r # vs)"
        using uv(2) by (simp_all add: nth_append)
      then show ?thesis using uv(1) by (intro exI [of _ "Suc pos + i"]) simp
    qed
    then show ?thesis using only by blast
  qed
  moreover have "set us \<union> set vs \<subseteq> set (lb_granted lock)" by (subst uv(1)) auto
  ultimately have "\<forall>g \<in> set us \<union> set vs. compatible m (req_mode g)"
    using probe_excluding [OF sound] compat by blast
  moreover have "mutually_compatible (us @ ?r # vs)" "counts_exact (lb_counts lock) (us @ ?r # vs)"
    using sound by (simp_all add: block_sound_def flip: uv(1))
  moreover from this(2) have "counts_exact (bump_count m (drop_count (req_mode ?r) (lb_counts lock))) (us @ ?r\<lparr>req_mode := m\<rparr> # vs)"
    using counts_exact_perm [OF counts_exact_bump [OF counts_exact_drop, of _ _ _ _ "?r\<lparr>req_mode := m\<rparr>"], of "lb_counts lock" us ?r vs "us @ ?r\<lparr>req_mode := m\<rparr> # vs"]
    by simp
  ultimately show ?thesis
    by (simp add: block_sound_def set_granted_mode_def Let_def upd mutually_compatible_def sorted_wrt_append lm.compat_sym [of _ m])
qed

end
