(* ===== verification/Lck_Table.thy ===== *)
theory Lck_Table
  imports Lck_Grants
begin

text \<open>
  The lock table as a state machine: the invariant of its blocks, the wait-for relation the
  deadlock scan walks, and the steps of owners that do not act while they wait. Reachable tables
  have mutually compatible grants and an acyclic wait-for relation.
\<close>

declare split_paired_All [simp del] split_paired_Ex [simp del]

subsection \<open>Tables\<close>

definition table_ok :: "lock_table \<Rightarrow> bool" where
  "table_ok t \<longleftrightarrow> bt_wf (lt_locks t) \<and>
     (\<forall>k lock. block t k = Some lock \<longrightarrow> block_sound lock \<and> lb_granted lock \<noteq> [])"

lemma table_okD:
  assumes "table_ok t"
  shows "bt_wf (lt_locks t)" "block t k = Some lock \<Longrightarrow> block_sound lock"
    "block t k = Some lock \<Longrightarrow> lb_granted lock \<noteq> []"
  using assms unfolding table_ok_def by blast+

lemma lt_locks_put_block [simp]: "lt_locks (put_block k lock t) = bt_put k lock (lt_locks t)"
  by (simp add: put_block_def)

lemma lt_locks_del_block [simp]: "lt_locks (del_block k t) = bt_del k (lt_locks t)"
  by (simp add: del_block_def)

lemma lt_locks_knock [simp]: "lt_locks (knock s key w m t) = lt_locks t"
proof -
  have "lt_locks (fold (add_knock s key m) os t) = lt_locks t" for os
    by (induction os arbitrary: t) (simp_all add: add_knock_def Let_def)
  then show ?thesis by (simp add: knock_def)
qed

lemma bt_put_put [simp]: "bt_put k v (bt_put k w m) = bt_put k v m"
  by (induction m) auto

lemma table_ok_put:
  assumes "table_ok t" "block_sound lock" "lb_granted lock \<noteq> []" "lt_locks t' = bt_put k lock (lt_locks t)"
  shows "table_ok t'"
  using assms by (simp add: table_ok_def)

lemma table_ok_del: "table_ok t \<Longrightarrow> table_ok (del_block k t)"
  by (simp add: table_ok_def)

lemma block_or_default_sound: "table_ok t \<Longrightarrow> block_sound (block_or_default t k)"
  by (cases "block t k") (simp_all add: block_or_default_def table_okD)

text \<open>The two outcomes of parking a request: it never panics, and a withdrawn request leaves the
  block as it was.\<close>

lemma park_cases:
  obtains (waiting) t' where "park r s key lock t = Ret (Waiting, t')"
    "lt_locks t' = bt_put (s, key) (lock\<lparr>lb_pending := lb_pending lock @ [r]\<rparr>) (lt_locks t)"
    "\<not> deadlock_from t' (req_owner r)"
  | (deadlock) t' parked where "park r s key lock t = Ret (Deadlock, t')"
    "lt_locks t' = bt_put (s, key) lock (lt_locks t)"
    "lt_locks parked = bt_put (s, key) (lock\<lparr>lb_pending := lb_pending lock @ [r]\<rparr>) (lt_locks t)"
    "deadlock_from parked (req_owner r)"
proof -
  let ?lock = "lock\<lparr>lb_pending := lb_pending lock @ [r]\<rparr>"
  let ?t2 = "knock s key (req_owner r) (req_mode r) (put_block (s, key) ?lock t)"
  show ?thesis
  proof (cases "deadlock_from ?t2 (req_owner r)")
    case True
    have "withdraw (s, key) (req_owner r) (req_mode r) ?t2 = Ret (put_block (s, key) lock ?t2)"
      by (simp add: withdraw_def)
    then show ?thesis using True
      by (intro deadlock [of "put_block (s, key) lock ?t2" ?t2])
        (simp_all add: park_def Let_def bt_put_put [of "(s, key)"] del: bt_put.simps)
  next
    case False
    then show ?thesis by (intro waiting [of ?t2]) (simp_all add: park_def Let_def)
  qed
qed

subsection \<open>The wait-for relation\<close>

definition block_waits :: "lock_block \<Rightarrow> u32 \<Rightarrow> u32 \<Rightarrow> bool" where
  "block_waits lock a b \<longleftrightarrow> a \<noteq> b \<and>
     (\<exists>p \<in> set (lb_pending lock). \<exists>g \<in> set (lb_granted lock).
        req_owner p = a \<and> req_owner g = b \<and> \<not> compatible (req_mode p) (req_mode g))"

definition waits :: "lock_table \<Rightarrow> (u32 \<times> u32) set" where
  "waits t = {(a, b). \<exists>k lock. block t k = Some lock \<and> block_waits lock a b}"

lemma set_block_edges: "b \<in> set (block_edges a lock) \<longleftrightarrow> block_waits lock a b"
  by (auto simp: block_edges_def block_waits_def)

lemma set_wait_edges:
  assumes "bt_wf (lt_locks t)"
  shows "b \<in> set (wait_edges t a) \<longleftrightarrow> (a, b) \<in> waits t"
proof -
  have "b \<in> set (wait_edges t a) \<longleftrightarrow> (\<exists>k lock. (k, lock) \<in> set (lt_locks t) \<and> block_waits lock a b)"
    by (force simp: wait_edges_def set_block_edges)
  also have "\<dots> \<longleftrightarrow> (a, b) \<in> waits t"
    by (simp add: bt_in_set [OF assms] waits_def)
  finally show ?thesis .
qed

text \<open>The scan is a depth-first search. While the start has not been found again, every
  successor of a seen owner is seen itself (and is not the start) or still on the stack.\<close>

lemma search_from_seen:
  assumes "\<forall>v \<in> S. R `` {v} \<subseteq> (S - {s}) \<union> T" "(v, s) \<in> R\<^sup>+" "v \<in> S"
  shows "\<exists>w \<in> T. (w, s) \<in> R\<^sup>*"
  using assms(2,3)
proof (induction rule: converse_trancl_induct)
  case (base y)
  then show ?case using assms(1) by blast
next
  case (step y z)
  then show ?case using assms(1) by (meson DiffD1 ImageI UnE singletonI subsetD trancl_into_rtrancl)
qed

lemma deadlock_loop_correct:
  assumes "bt_wf (lt_locks t)"
    and "\<not> first" "\<forall>v \<in> set seen. waits t `` {v} \<subseteq> (set seen - {start}) \<union> set stack"
  shows "deadlock_loop t start stack first seen \<longleftrightarrow> (\<exists>v \<in> set stack. (v, start) \<in> (waits t)\<^sup>*)"
  using assms
proof (induction t start stack first seen rule: deadlock_loop.induct)
  case (1 t start stack first seen)
  show ?case
  proof (cases stack)
    case Nil
    then show ?thesis by (simp add: deadlock_loop.simps)
  next
    case (Cons v rest)
    consider "v = start" | "v \<noteq> start" "v \<in> set seen" | "v \<noteq> start" "v \<notin> set seen" by blast
    then show ?thesis
    proof cases
      case 1
      then show ?thesis using "1.prems"(2) Cons by (subst deadlock_loop.simps) auto
    next
      case 2
      have inv: "\<forall>u \<in> set seen. waits t `` {u} \<subseteq> (set seen - {start}) \<union> set rest"
        using "1.prems"(3) 2 Cons by auto
      have "(\<exists>u \<in> set stack. (u, start) \<in> (waits t)\<^sup>*) \<longleftrightarrow> (\<exists>u \<in> set rest. (u, start) \<in> (waits t)\<^sup>*)"
        using search_from_seen [OF inv, of v] 2 Cons by (auto simp: rtrancl_eq_or_trancl [of v])
      then show ?thesis
        using "1.IH"(1) [OF Cons] 2 inv "1.prems"(1) Cons by (subst deadlock_loop.simps) simp
    next
      case 3
      let ?stack = "rev (wait_edges t v) @ rest"
      have succ: "set (wait_edges t v) = waits t `` {v}"
        using set_wait_edges [OF "1.prems"(1)] by auto
      have inv: "\<forall>u \<in> set (seen @ [v]). waits t `` {u} \<subseteq> (set (seen @ [v]) - {start}) \<union> set ?stack"
        using "1.prems"(3) 3 Cons by (auto simp: succ)
      have "deadlock_loop t start stack first seen \<longleftrightarrow> deadlock_loop t start ?stack False (seen @ [v])"
        using 3 Cons by (subst deadlock_loop.simps) simp
      also have "\<dots> \<longleftrightarrow> (\<exists>u \<in> set ?stack. (u, start) \<in> (waits t)\<^sup>*)"
        using "1.IH"(2) [OF Cons] 3 inv "1.prems"(1) by simp
      also have "\<dots> \<longleftrightarrow> (\<exists>u \<in> set stack. (u, start) \<in> (waits t)\<^sup>*)"
        using 3(1) Cons by (auto simp: succ elim: converse_rtranclE intro: converse_rtrancl_into_rtrancl)
      finally show ?thesis .
    qed
  qed
qed

lemma deadlock_from_correct:
  assumes "bt_wf (lt_locks t)"
  shows "deadlock_from t start \<longleftrightarrow> (start, start) \<in> (waits t)\<^sup>+"
proof -
  let ?stack = "rev (wait_edges t start) @ []"
  have succ: "set (wait_edges t start) = waits t `` {start}"
    using set_wait_edges [OF assms] by auto
  have irrefl: "(start, start) \<notin> waits t" by (auto simp: waits_def block_waits_def)
  have "deadlock_from t start \<longleftrightarrow> deadlock_loop t start ?stack False [start]"
    by (simp add: deadlock_from_def deadlock_loop.simps [of t start "[start]"])
  also have "\<dots> \<longleftrightarrow> (\<exists>v \<in> set ?stack. (v, start) \<in> (waits t)\<^sup>*)"
    using irrefl by (intro deadlock_loop_correct [OF assms]) (auto simp: succ)
  also have "\<dots> \<longleftrightarrow> (start, start) \<in> (waits t)\<^sup>+"
    by (auto simp: succ trancl_unfold_left)
  finally show ?thesis .
qed

lemma waits_cong: "lt_locks t' = lt_locks t \<Longrightarrow> waits t' = waits t"
  by (simp add: waits_def)

subsection \<open>Keeping the wait-for relation acyclic\<close>

text \<open>Two ways an operation changes the relation: new edges into owners that wait for nobody, and
  new edges out of an owner that the scan has cleared.\<close>

lemma acyclic_into_idle:
  assumes "acyclic W" "\<And>a b. (a, b) \<in> W' \<Longrightarrow> (a, b) \<in> W \<or> b \<in> H" "\<And>h b. h \<in> H \<Longrightarrow> (h, b) \<notin> W'"
  shows "acyclic W'"
proof -
  have "b \<notin> H \<Longrightarrow> (a, b) \<in> W\<^sup>+" if "(a, b) \<in> W'\<^sup>+" for a b
    using that
  proof (induction rule: trancl_induct)
    case (base y)
    then show ?case using assms(2) by blast
  next
    case (step y z)
    then show ?case using assms(2,3) by (meson trancl_into_trancl)
  qed
  moreover have "x \<notin> H" if "(x, x) \<in> W'\<^sup>+" for x
    using that assms(3) by (meson tranclD)
  ultimately show ?thesis using assms(1) unfolding acyclic_def by blast
qed

lemma acyclic_out_of_cleared:
  assumes "acyclic W" "\<And>a b. (a, b) \<in> W' \<Longrightarrow> (a, b) \<in> W \<or> a = c" "(c, c) \<notin> W'\<^sup>+"
  shows "acyclic W'"
proof -
  have "(a, b) \<in> W\<^sup>+ \<or> (a, c) \<in> W'\<^sup>* \<and> (c, b) \<in> W'\<^sup>+" if "(a, b) \<in> W'\<^sup>+" for a b
    using that
  proof (induction rule: trancl_induct)
    case (base y)
    then show ?case using assms(2) by blast
  next
    case (step y z)
    show ?case
    proof (cases "y = c")
      case True
      then show ?thesis using step.hyps by (auto intro: trancl_into_rtrancl)
    next
      case False
      then have "(y, z) \<in> W" using assms(2) step.hyps(2) by blast
      then show ?thesis using step.IH step.hyps(2) by (auto intro: trancl_into_trancl)
    qed
  qed
  then show ?thesis using assms(1,3) unfolding acyclic_def by (meson rtrancl_trancl_trancl trancl_rtrancl_trancl)
qed

lemma waits_put:
  assumes "lt_locks t' = bt_put k lock (lt_locks t)" "(a, b) \<in> waits t'"
  shows "(a, b) \<in> waits t \<or> block_waits lock a b"
  using assms by (auto simp: waits_def split: if_splits)

lemma waits_block: "block t k = Some lock \<Longrightarrow> block_waits lock a b \<Longrightarrow> (a, b) \<in> waits t"
  by (auto simp: waits_def)

subsection \<open>Owners wait for one request at a time\<close>

definition waiting :: "lock_table \<Rightarrow> u32 \<Rightarrow> bool" where
  "waiting t a \<longleftrightarrow> (\<exists>k lock. block t k = Some lock \<and> a \<in> req_owner ` set (lb_pending lock))"

definition one_pending :: "lock_table \<Rightarrow> bool" where
  "one_pending t \<longleftrightarrow>
     (\<forall>k lock. block t k = Some lock \<longrightarrow> distinct (map req_owner (lb_pending lock)) \<and>
        (\<forall>k' lock'. block t k' = Some lock' \<longrightarrow> k' \<noteq> k \<longrightarrow>
           req_owner ` set (lb_pending lock) \<inter> req_owner ` set (lb_pending lock') = {}))"

definition lck_inv :: "lock_table \<Rightarrow> bool" where
  "lck_inv t \<longleftrightarrow> table_ok t \<and> one_pending t \<and> acyclic (waits t)"

lemma waits_waiting: "(a, b) \<in> waits t \<Longrightarrow> waiting t a"
  by (auto simp: waits_def waiting_def block_waits_def)

lemma one_pending_put:
  assumes one: "one_pending t" and put: "lt_locks t' = bt_put k lock (lt_locks t)"
    and dist: "distinct (map req_owner (lb_pending lock))"
    and old: "\<And>a. a \<in> req_owner ` set (lb_pending lock) \<Longrightarrow>
      (\<exists>lock0. block t k = Some lock0 \<and> a \<in> req_owner ` set (lb_pending lock0)) \<or> \<not> waiting t a"
  shows "one_pending t'"
proof -
  have apart: "req_owner ` set (lb_pending lock) \<inter> req_owner ` set (lb_pending l) = {}"
    if "block t k' = Some l" "k' \<noteq> k" for k' l
  proof (rule ccontr)
    assume "req_owner ` set (lb_pending lock) \<inter> req_owner ` set (lb_pending l) \<noteq> {}"
    then obtain a where a: "a \<in> req_owner ` set (lb_pending lock)" "a \<in> req_owner ` set (lb_pending l)" by blast
    then have "waiting t a" using that(1) by (auto simp: waiting_def)
    then obtain l0 where "block t k = Some l0" "a \<in> req_owner ` set (lb_pending l0)" using old [OF a(1)] by blast
    then show False using one that a(2) unfolding one_pending_def by blast
  qed
  show ?thesis unfolding one_pending_def put bt_get_put
  proof (intro allI impI conjI)
    fix k1 l1 assume l1: "((block t)(k \<mapsto> lock)) k1 = Some l1"
    show "distinct (map req_owner (lb_pending l1))"
      using l1 dist one by (auto simp: one_pending_def split: if_splits)
    fix k2 l2 assume l2: "((block t)(k \<mapsto> lock)) k2 = Some l2" and "k2 \<noteq> k1"
    show "req_owner ` set (lb_pending l1) \<inter> req_owner ` set (lb_pending l2) = {}"
    proof (cases "k1 = k \<or> k2 = k")
      case True
      then consider "k1 = k" "l1 = lock" "block t k2 = Some l2" "k2 \<noteq> k"
        | "k2 = k" "l2 = lock" "block t k1 = Some l1" "k1 \<noteq> k"
        using l1 l2 \<open>k2 \<noteq> k1\<close> by (cases "k1 = k") auto
      then show ?thesis using apart by cases blast+
    next
      case False
      then show ?thesis using l1 l2 \<open>k2 \<noteq> k1\<close> one unfolding one_pending_def by simp
    qed
  qed
qed

lemma pending_default:
  "p \<in> set (lb_pending (block_or_default t k)) \<Longrightarrow> \<exists>l. block t k = Some l \<and> p \<in> set (lb_pending l)"
  by (auto simp: block_or_default_def empty_block_def split: option.splits)

lemma waits_default: "block_waits (block_or_default t k) a b \<Longrightarrow> (a, b) \<in> waits t"
  using waits_block by (fastforce simp: block_or_default_def empty_block_def block_waits_def split: option.splits)

lemma block_or_default_Some [simp]: "block t k = Some lock \<Longrightarrow> block_or_default t k = lock"
  by (simp add: block_or_default_def)

lemma waiting_put:
  assumes "lt_locks t' = bt_put k lock (lt_locks t)"
    and "set (lb_pending lock) \<subseteq> set (lb_pending (block_or_default t k))" "waiting t' a"
  shows "waiting t a"
  using assms pending_default [of _ t k] unfolding waiting_def
  by (auto split: if_splits) blast

text \<open>A block whose queue only loses requests, whose holders are the old ones and owners that the
  new table keeps from waiting, and which stays sound.\<close>

lemma lck_inv_put:
  assumes inv: "lck_inv t" and old: "lock0 = block_or_default t k"
    and put: "lt_locks t' = bt_put k lock (lt_locks t)"
    and sound: "block_sound lock" "lb_granted lock \<noteq> []"
    and pend: "set (lb_pending lock) \<subseteq> set (lb_pending lock0)" "distinct (map req_owner (lb_pending lock))"
    and held: "\<And>g. g \<in> set (lb_granted lock) \<Longrightarrow> g \<in> set (lb_granted lock0) \<or> \<not> waiting t' (req_owner g)"
  shows "lck_inv t'"
proof -
  have "acyclic (waits t')"
  proof (rule acyclic_into_idle [of "waits t" _ "{h. \<not> waiting t' h}"])
    show "acyclic (waits t)" using inv by (simp add: lck_inv_def)
    show "(h, b) \<notin> waits t'" if "h \<in> {h. \<not> waiting t' h}" for h b using that waits_waiting by blast
    show "(a, b) \<in> waits t \<or> b \<in> {h. \<not> waiting t' h}" if "(a, b) \<in> waits t'" for a b
      using waits_put [OF put that]
    proof
      assume "block_waits lock a b"
      then show ?thesis using pend(1) held waits_default [of t k a b] old unfolding block_waits_def by blast
    qed blast
  qed
  moreover have "one_pending t'"
  proof (rule one_pending_put [OF _ put pend(2)])
    show "one_pending t" using inv by (simp add: lck_inv_def)
    show "(\<exists>l. block t k = Some l \<and> a \<in> req_owner ` set (lb_pending l)) \<or> \<not> waiting t a"
      if "a \<in> req_owner ` set (lb_pending lock)" for a
      using that pending_default [of _ t k] pend(1) old by blast
  qed
  moreover have "table_ok t'"
    using inv table_ok_put [OF _ sound put] by (simp add: lck_inv_def)
  ultimately show ?thesis by (simp add: lck_inv_def)
qed

lemma lck_inv_del:
  assumes "lck_inv t"
  shows "lck_inv (del_block k t)"
proof -
  have sub: "block (del_block k t) k' = Some l \<Longrightarrow> block t k' = Some l" for k' l
    by (simp split: if_splits)
  have "waits (del_block k t) \<subseteq> waits t" using sub unfolding waits_def by blast
  moreover have "one_pending (del_block k t)"
    using assms sub unfolding one_pending_def lck_inv_def by blast
  ultimately show ?thesis using assms by (auto simp: lck_inv_def table_ok_del acyclic_subset)
qed

subsection \<open>The operations keep the invariant\<close>

lemma lck_inv_same_locks: "lt_locks t' = lt_locks t \<Longrightarrow> lck_inv t' \<longleftrightarrow> lck_inv t"
  by (simp add: lck_inv_def table_ok_def one_pending_def waits_def)

lemma lck_invD:
  assumes "lck_inv t" "block t k = Some lock"
  shows "block_sound lock" "lb_granted lock \<noteq> []" "distinct (map req_owner (lb_pending lock))"
  using assms unfolding lck_inv_def table_ok_def one_pending_def by blast+

lemma lck_inv_park:
  assumes inv: "lck_inv t" and old: "block t (s, key) = Some lock" and idle: "\<not> waiting t (req_owner r)"
    and res: "park r s key lock t = Ret (v, t')"
  shows "lck_inv t'"
proof (cases rule: park_cases [of r s key lock t])
  case (waiting t1)
  then have t': "t1 = t'" using res by simp
  note put = waiting(2) [unfolded t'] and cleared = waiting(3) [unfolded t']
  let ?lock = "lock\<lparr>lb_pending := lb_pending lock @ [r]\<rparr>"
  have "table_ok t'"
    using inv old lck_invD [OF inv old] by (intro table_ok_put [OF _ _ _ put]) (simp_all add: lck_inv_def)
  moreover have "one_pending t'"
  proof (rule one_pending_put [OF _ put])
    show "one_pending t" using inv by (simp add: lck_inv_def)
    show "distinct (map req_owner (lb_pending ?lock))"
      using lck_invD(3) [OF inv old] idle old by (auto simp: waiting_def)
    show "(\<exists>l. block t (s, key) = Some l \<and> a \<in> req_owner ` set (lb_pending l)) \<or> \<not> waiting t a"
      if "a \<in> req_owner ` set (lb_pending ?lock)" for a
      using that old idle by auto
  qed
  moreover have "acyclic (waits t')"
  proof (rule acyclic_out_of_cleared [of "waits t" _ "req_owner r"])
    show "acyclic (waits t)" using inv by (simp add: lck_inv_def)
    show "(req_owner r, req_owner r) \<notin> (waits t')\<^sup>+"
      using cleared deadlock_from_correct [of t' "req_owner r"] table_okD(1) [OF \<open>table_ok t'\<close>] by simp
    show "(a, b) \<in> waits t \<or> a = req_owner r" if "(a, b) \<in> waits t'" for a b
      using waits_put [OF put that] waits_block [OF old, of a b] by (auto simp: block_waits_def)
  qed
  ultimately show ?thesis by (simp add: lck_inv_def)
next
  case (deadlock t1 parked)
  then show ?thesis
    using res lck_invD [OF inv old] old by (intro lck_inv_put [OF inv refl, of t' "(s, key)" lock]) simp_all
qed

lemma fresh_key_grants:
  assumes "block t k = None"
  shows "compatible m (lb_state (block_or_default t k))" "lb_pending (block_or_default t k) = []"
  using assms probe_block [of empty_block m] by (simp_all add: block_or_default_def) (simp_all add: empty_block_def)

lemma lck_inv_grant:
  assumes inv: "lck_inv t" and idle: "\<not> waiting t (req_owner r)"
    and compat: "compatible (req_mode r) (lb_state (block_or_default t k))"
  shows "lck_inv (put_block k (push_granted r (block_or_default t k)) t)"
proof (rule lck_inv_put [OF inv refl lt_locks_put_block])
  have ok: "table_ok t" using inv by (simp add: lck_inv_def)
  show "block_sound (push_granted r (block_or_default t k))"
    using compat block_or_default_sound [OF ok] by (rule sound_push [rotated])
  show "distinct (map req_owner (lb_pending (push_granted r (block_or_default t k))))"
    using lck_invD(3) [OF inv] by (cases "block t k") (simp_all add: fresh_key_grants)
  show "g \<in> set (lb_granted (block_or_default t k))
      \<or> \<not> waiting (put_block k (push_granted r (block_or_default t k)) t) (req_owner g)"
    if "g \<in> set (lb_granted (push_granted r (block_or_default t k)))" for g
    using that idle waiting_put [OF lt_locks_put_block, of "push_granted r (block_or_default t k)" t k] by auto
qed simp_all

text \<open>What an enqueue is to decide: every holder and every queued request is compatible.\<close>

definition grantable :: "lock_mode \<Rightarrow> lock_block \<Rightarrow> bool" where
  "grantable m lock \<longleftrightarrow>
     (\<forall>g \<in> set (lb_granted lock). compatible m (req_mode g)) \<and>
     (\<forall>p \<in> set (lb_pending lock). compatible m (req_mode p))"

lemma enqueue_eq:
  assumes "table_ok t" "lock = block_or_default t (series, key)"
  shows "enqueue_deadline owner series key mode wait deadline t =
    (if grantable mode lock
     then Ret (Granted, put_block (series, key)
            (push_granted \<lparr>req_owner = owner, req_mode = mode, req_deadline = None\<rparr> lock) t)
     else if wait then park \<lparr>req_owner = owner, req_mode = mode, req_deadline = deadline\<rparr> series key lock t
     else Ret (Rejected, put_block (series, key) lock t))"
proof -
  have "grantable mode lock \<longleftrightarrow> compatible mode (lb_state lock) \<and>
      \<not> list_ex (\<lambda>p. \<not> compatible mode (req_mode p) \<or> \<not> compatible (req_mode p) mode) (lb_pending lock)"
    using probe_block [OF block_or_default_sound [OF assms(1), of "(series, key)"], of mode] assms(2)
    by (auto simp: grantable_def list_ex_iff lm.compat_sym [of _ mode])
  then show ?thesis by (simp add: enqueue_deadline_def Let_def flip: assms(2))
qed

lemma fresh_key_grantable: "block t k = None \<Longrightarrow> grantable m (block_or_default t k)"
  by (simp add: grantable_def block_or_default_def empty_block_def)

lemma lck_inv_enqueue:
  assumes inv: "lck_inv t" and idle: "\<not> waiting t owner"
    and res: "enqueue_deadline owner series key mode wait deadline t = Ret (v, t')"
  shows "lck_inv t'"
proof -
  let ?k = "(series, key)"
  have ok: "table_ok t" using inv by (simp add: lck_inv_def)
  note eq = enqueue_eq [OF ok refl, of owner series key mode wait deadline]
  show ?thesis
  proof (cases "grantable mode (block_or_default t ?k)")
    case True
    then have "compatible mode (lb_state (block_or_default t ?k))"
      using probe_block [OF block_or_default_sound [OF ok]] by (simp add: grantable_def)
    then show ?thesis
      using res idle True lck_inv_grant [OF inv, of "\<lparr>req_owner = owner, req_mode = mode, req_deadline = None\<rparr>" ?k]
      by (simp add: eq)
  next
    case False
    then obtain lock where lock: "block t ?k = Some lock"
      using fresh_key_grantable [of t ?k mode] by (cases "block t ?k") auto
    show ?thesis
    proof (cases wait)
      case True
      then show ?thesis
        using res False lock idle
          lck_inv_park [OF inv lock, of "\<lparr>req_owner = owner, req_mode = mode, req_deadline = deadline\<rparr>" v t']
        unfolding eq by simp
    next
      case no: False
      then have "t' = put_block ?k lock t" using res False lock unfolding eq by simp
      then show ?thesis
        using lck_invD [OF inv lock] lock by (intro lck_inv_put [OF inv refl, of _ ?k lock]) simp_all
    qed
  qed
qed

text \<open>The owner holds the lock at most once, the assumption under which convert tests against
  the holders other than the owner.\<close>

definition single_grant :: "u32 \<Rightarrow> lock_block \<Rightarrow> bool" where
  "single_grant owner lock \<longleftrightarrow> length (filter (\<lambda>r. req_owner r = owner) (lb_granted lock)) \<le> 1"

lemma single_grant_pos:
  assumes "single_grant owner lock" "pos < length (lb_granted lock)" "req_owner (lb_granted lock ! pos) = owner"
    and "i < length (lb_granted lock)" "req_owner (lb_granted lock ! i) = owner"
  shows "i = pos"
proof (rule ccontr)
  assume "i \<noteq> pos"
  let ?I = "{j. j < length (lb_granted lock) \<and> req_owner (lb_granted lock ! j) = owner}"
  have "card {i, pos} \<le> card ?I" using assms by (intro card_mono) auto
  moreover have "card ?I \<le> 1" using assms(1) by (simp add: single_grant_def length_filter_conv_card)
  ultimately show False using \<open>i \<noteq> pos\<close> by simp
qed

lemma set_granted_sel [simp]:
  "lb_granted (set_granted_mode pos m lock) = (lb_granted lock)[pos := (lb_granted lock ! pos)\<lparr>req_mode := m\<rparr>]"
  "lb_pending (set_granted_mode pos m lock) = lb_pending lock"
  by (simp_all add: set_granted_mode_def Let_def)

lemma lck_inv_convert:
  assumes inv: "lck_inv t" and idle: "\<not> waiting t owner"
    and single: "\<forall>lock. block t (series, key) = Some lock \<longrightarrow> single_grant owner lock"
    and res: "convert owner series key new_mode wait t = Ret (v, t')"
  shows "lck_inv t'"
proof (cases "block t (series, key)")
  case None
  then show ?thesis using res inv by (simp add: convert_def)
next
  case (Some lock)
  show ?thesis
  proof (cases "rs_position (\<lambda>r. req_owner r = owner) (lb_granted lock)")
    case None
    then show ?thesis using res inv Some by (simp add: convert_def)
  next
    case pos: (Some pos)
    note p = rs_position_Some [OF pos]
    show ?thesis
    proof (cases "compatible new_mode (state_excluding owner lock)")
      case True
      then have t': "t' = put_block (series, key) (set_granted_mode pos new_mode lock) t"
        using res Some pos by (simp add: convert_def)
      show ?thesis
      proof (rule lck_inv_put [OF inv refl, of t' "(series, key)"])
        show "lt_locks t' = bt_put (series, key) (set_granted_mode pos new_mode lock) (lt_locks t)" by (simp add: t')
        show "block_sound (set_granted_mode pos new_mode lock)"
          using p True lck_invD(1) [OF inv Some] single Some single_grant_pos
          by (intro sound_convert [where owner = owner]) blast+
        show "lb_granted (set_granted_mode pos new_mode lock) \<noteq> []" using lck_invD(2) [OF inv Some] by simp
        show "distinct (map req_owner (lb_pending (set_granted_mode pos new_mode lock)))"
          using lck_invD(3) [OF inv Some] by simp
        show "set (lb_pending (set_granted_mode pos new_mode lock)) \<subseteq> set (lb_pending (block_or_default t (series, key)))"
          using Some by simp
        have "\<not> waiting t' owner"
          using idle waiting_put [of t' "(series, key)" "set_granted_mode pos new_mode lock" t owner] Some
          by (auto simp: t')
        then show "g \<in> set (lb_granted (block_or_default t (series, key))) \<or> \<not> waiting t' (req_owner g)"
          if "g \<in> set (lb_granted (set_granted_mode pos new_mode lock))" for g
          using that Some p by (auto dest!: set_update_subset_insert [THEN subsetD])
      qed
    next
      case False
      then show ?thesis
        using res Some pos inv idle
          lck_inv_park [OF inv Some, of "\<lparr>req_owner = owner, req_mode = new_mode, req_deadline = None\<rparr>" v t']
        by (cases wait) (simp_all add: convert_def)
    qed
  qed
qed

lemma dequeue_cases:
  assumes "block t (series, key) = Some lock0"
  obtains (gone) "dequeue owner series key t = del_block (series, key) t"
      "lb_granted (regrant (release owner lock0)) = []" "lb_pending (regrant (release owner lock0)) = []"
  | (kept) "dequeue owner series key t = put_block (series, key) (regrant (release owner lock0)) t"
      "lb_granted (regrant (release owner lock0)) \<noteq> [] \<or> lb_pending (regrant (release owner lock0)) \<noteq> []"
proof (cases "lb_granted (regrant (release owner lock0)) = [] \<and> lb_pending (regrant (release owner lock0)) = []")
  case True
  then show ?thesis using assms by (intro gone) (simp_all add: dequeue_def)
next
  case False
  then show ?thesis using assms by (intro kept) (auto simp: dequeue_def)
qed

lemma release_subset: "set (lb_granted (release owner lock)) \<subseteq> set (lb_granted lock)"
  using set_vec_remove by (fastforce simp: release_def split: option.splits)

lemma regrant_leaves_a_holder:
  assumes "block_sound lock" "lb_pending (regrant lock) \<noteq> []"
  shows "lb_granted (regrant lock) \<noteq> []"
proof -
  obtain p ps where "lb_pending (regrant lock) = p # ps" using assms(2) by (meson neq_Nil_conv)
  then have "\<not> compatible (req_mode p) (lb_state (regrant lock))"
    using head_blocked_regrant [of lock] by (simp add: head_blocked_def)
  then show ?thesis using probe_block [OF sound_regrant [OF assms(1)]] by fastforce
qed

lemma lck_inv_dequeue:
  assumes inv: "lck_inv t"
  shows "lck_inv (dequeue owner series key t)"
proof (cases "block t (series, key)")
  case None
  then show ?thesis using inv by (simp add: dequeue_def)
next
  case (Some lock0)
  let ?lock = "regrant (release owner lock0)"
  have sound: "block_sound (release owner lock0)" using lck_invD(1) [OF inv Some] by (rule sound_release)
  obtain ps where ps: "lb_pending lock0 = ps @ lb_pending ?lock"
    "lb_granted ?lock = lb_granted (release owner lock0) @ ps"
    using regrant_spec [of "release owner lock0"] by auto
  show ?thesis
  proof (rule dequeue_cases [OF Some, of owner], goal_cases gone kept)
    case gone
    then show ?thesis using lck_inv_del [OF inv] by simp
  next
    case kept
    show ?thesis
    proof (rule lck_inv_put [OF inv refl])
      show "lt_locks (dequeue owner series key t) = bt_put (series, key) ?lock (lt_locks t)" by (simp add: kept)
      show "block_sound ?lock" using sound by (rule sound_regrant)
      show "lb_granted ?lock \<noteq> []" using kept(2) regrant_leaves_a_holder [OF sound] by blast
      show "set (lb_pending ?lock) \<subseteq> set (lb_pending (block_or_default t (series, key)))"
        by (simp add: Some ps(1))
      show "distinct (map req_owner (lb_pending ?lock))" using lck_invD(3) [OF inv Some] by (simp add: ps(1))
      have idle: "\<not> waiting (put_block (series, key) ?lock t) (req_owner p)" if p: "p \<in> set ps" for p
      proof
        assume "waiting (put_block (series, key) ?lock t) (req_owner p)"
        then obtain k l where kl: "block (put_block (series, key) ?lock t) k = Some l"
          "req_owner p \<in> req_owner ` set (lb_pending l)" by (auto simp: waiting_def)
        have mine: "req_owner p \<in> req_owner ` set (lb_pending lock0)" using p by (simp add: ps(1))
        show False
        proof (cases "k = (series, key)")
          case True
          then have "req_owner p \<in> req_owner ` set (lb_pending ?lock)" using kl by simp
          then show False using lck_invD(3) [OF inv Some] p by (auto simp: ps(1))
        next
          case False
          then have "block t k = Some l" using kl(1) by simp
          then show False using inv Some False kl(2) mine unfolding lck_inv_def one_pending_def by blast
        qed
      qed
      show "g \<in> set (lb_granted (block_or_default t (series, key)))
          \<or> \<not> waiting (dequeue owner series key t) (req_owner g)" if "g \<in> set (lb_granted ?lock)" for g
        using that idle release_subset [of owner lock0] Some by (auto simp: ps(2) kept(1))
    qed
  qed
qed

lemma lck_inv_filter_pending:
  assumes inv: "lck_inv t" and lock: "block t k = Some lock"
  shows "lck_inv (put_block k (lock\<lparr>lb_pending := filter P (lb_pending lock)\<rparr>) t)"
  using lck_invD [OF inv lock] lock
  by (intro lck_inv_put [OF inv refl lt_locks_put_block]) (auto simp: distinct_map_filter)

lemma lck_inv_expire: "lck_inv t \<Longrightarrow> lck_inv (snd (expire now t))"
  unfolding expire_def
proof (rule fold_invariant [where P = "\<lambda>acc. lck_inv (snd acc)" and Q = "\<lambda>_. True"])
  fix k and acc :: "(u32 \<times> byte \<times> byte list) list \<times> lock_table"
  assume "lck_inv (snd acc)"
  then show "lck_inv (snd (expire_block now k acc))"
    by (auto simp: expire_block_def lck_inv_filter_pending split: prod.splits option.splits)
qed simp_all

lemma lck_inv_purge: "lck_inv t \<Longrightarrow> lck_inv (snd (purge_owner owner t))"
  unfolding purge_owner_def
proof (rule fold_invariant [where P = "\<lambda>acc. lck_inv (snd acc)" and Q = "\<lambda>_. True"])
  fix k and acc :: "nat \<times> lock_table"
  assume inv: "lck_inv (snd acc)"
  then show "lck_inv (snd (purge_block owner k acc))"
  proof (cases acc)
    case (Pair n t0)
    show ?thesis
    proof (cases "block t0 k")
      case None
      then show ?thesis using inv by (simp add: Pair purge_block_def)
    next
      case (Some lock)
      define t1 where "t1 = put_block k (lock\<lparr>lb_pending := filter (\<lambda>p. req_owner p \<noteq> owner) (lb_pending lock)\<rparr>) t0"
      have "snd (purge_block owner k acc) \<in> {dequeue owner (fst k) (snd k) t1, del_block k t1, t1}"
        by (simp add: Pair purge_block_def Some Let_def t1_def)
      moreover have "lck_inv t1"
        using inv lck_inv_filter_pending [OF _ Some] by (simp add: Pair t1_def)
      ultimately show ?thesis using lck_inv_dequeue [of t1] lck_inv_del [of t1 k] by auto
    qed
  qed
qed simp_all

lemma lck_inv_write_data:
  assumes "lck_inv t"
  shows "lck_inv (snd (write_data owner series key data t))"
proof -
  have "lck_inv (put_block (series, key) (lock\<lparr>lb_data := data\<rparr>) t)" if "block t (series, key) = Some lock" for lock
    using lck_invD [OF assms that] that
    by (intro lck_inv_put [OF assms refl lt_locks_put_block]) auto
  then show ?thesis using assms by (simp add: write_data_def split: option.split)
qed

subsection \<open>The lock manager as a state machine\<close>

text \<open>
  One call of the table's interface. An owner is a thread of control: while a request of it is
  parked it does not enqueue or convert. A convert is made by an owner that holds the lock once.
\<close>

inductive lck_step :: "lock_table \<Rightarrow> lock_table \<Rightarrow> bool" where
  step_create_owner: "lck_step t (snd (create_owner t))"
| step_enqueue: "\<not> waiting t owner \<Longrightarrow>
    enqueue_deadline owner series key mode wait deadline t = Ret (v, t') \<Longrightarrow> lck_step t t'"
| step_convert: "\<not> waiting t owner \<Longrightarrow>
    \<forall>lock. block t (series, key) = Some lock \<longrightarrow> single_grant owner lock \<Longrightarrow>
    convert owner series key mode wait t = Ret (v, t') \<Longrightarrow> lck_step t t'"
| step_dequeue: "lck_step t (dequeue owner series key t)"
| step_take_knocks: "lck_step t (snd (take_knocks owner t))"
| step_expire: "lck_step t (snd (expire now t))"
| step_purge: "lck_step t (snd (purge_owner owner t))"
| step_write_data: "lck_step t (snd (write_data owner series key data t))"

inductive lck_reachable :: "lock_table \<Rightarrow> bool" where
  reach_new: "lck_reachable lt_new"
| reach_step: "lck_reachable t \<Longrightarrow> lck_step t t' \<Longrightarrow> lck_reachable t'"

lemma lck_inv_step:
  assumes "lck_step t t'" "lck_inv t"
  shows "lck_inv t'"
  using assms(1)
proof cases
  case step_create_owner
  then show ?thesis using assms(2) lck_inv_same_locks [of t' t] by (simp add: create_owner_def)
next
  case step_take_knocks
  then show ?thesis using assms(2) lck_inv_same_locks [of t' t] by (simp add: take_knocks_def)
next
  case (step_convert owner series key mode wait v)
  then show ?thesis using assms(2) lck_inv_convert by blast
next
  case (step_enqueue owner series key mode wait deadline v)
  then show ?thesis using assms(2) lck_inv_enqueue by blast
qed (simp_all add: assms(2) lck_inv_dequeue lck_inv_expire lck_inv_purge lck_inv_write_data)

lemma lck_inv_reachable: "lck_reachable t \<Longrightarrow> lck_inv t"
proof (induction rule: lck_reachable.induct)
  case reach_new
  show ?case
    by (simp add: lt_new_def lck_inv_def table_ok_def one_pending_def waits_def acyclic_def)
next
  case (reach_step t t')
  then show ?case using lck_inv_step by blast
qed

end
