(* ===== verification/Lck_Properties.thy ===== *)
theory Lck_Properties
  imports Lck_Table
begin

text \<open>
  What the lock table promises: the verdict of every request, the release path without lost
  wake-ups, exact deadlock detection over the wait-for relation, mutual compatibility of grants
  and freedom from wait cycles in every reachable table. The last section pins the behaviours
  that fall short of the promises: they are recorded as findings.
\<close>

subsection \<open>Verdicts\<close>

text \<open>C5: An enqueue always returns, and its verdict is the one the mode matrix prescribes: it is
  granted exactly when the mode is compatible with every holder and every queued request; a
  refused or deadlocked request leaves every lock block as it was; it waits only if waiting
  closes no cycle, and deadlock is answered only if waiting would close one through the owner.\<close>

theorem enqueue_verdict:
  fixes owner series key mode wait deadline t
  defines "k \<equiv> (series, key)"
    and "r \<equiv> \<lparr>req_owner = owner, req_mode = mode, req_deadline = deadline\<rparr>"
  assumes ok: "table_ok t"
  shows "\<exists>v t'. enqueue_deadline owner series key mode wait deadline t = Ret (v, t') \<and>
    (let lock = block_or_default t k; parked = lock\<lparr>lb_pending := lb_pending lock @ [r]\<rparr> in
     case v of
       Granted \<Rightarrow> grantable mode lock \<and> block t' = (block t)(k \<mapsto> push_granted (r\<lparr>req_deadline := None\<rparr>) lock)
     | Rejected \<Rightarrow> \<not> grantable mode lock \<and> \<not> wait \<and> block t' = block t
     | Waiting \<Rightarrow> \<not> grantable mode lock \<and> wait \<and> block t' = (block t)(k \<mapsto> parked) \<and> (owner, owner) \<notin> (waits t')\<^sup>+
     | Deadlock \<Rightarrow> \<not> grantable mode lock \<and> wait \<and> block t' = block t \<and>
         (owner, owner) \<in> (waits (put_block k parked t))\<^sup>+)"
proof (cases "grantable mode (block_or_default t k)")
  case True
  then show ?thesis unfolding enqueue_eq [OF ok refl] by (simp add: k_def r_def Let_def)
next
  case no: False
  then obtain lock where lock: "block t k = Some lock"
    using fresh_key_grantable by (cases "block t k") auto
  have same: "block t = (block t)(k \<mapsto> lock)" using lock by (simp add: fun_upd_idem)
  have wf: "bt_wf (lt_locks t)" using ok by (rule table_okD)
  show ?thesis
  proof (cases wait)
    case False
    then show ?thesis using no same lock unfolding enqueue_eq [OF ok refl] by (simp add: k_def)
  next
    case True
    show ?thesis
    proof (cases rule: park_cases [of r series key lock t])
      case (waiting t')
      then show ?thesis
        using True no lock deadlock_from_correct [of t' owner] wf
        unfolding enqueue_eq [OF ok refl] by (simp add: k_def r_def Let_def)
    next
      case (deadlock t' p)
      have "waits p = waits (put_block k (lock\<lparr>lb_pending := lb_pending lock @ [r]\<rparr>) t)"
        using deadlock(3) by (intro waits_cong) (simp add: k_def)
      then show ?thesis
        using True no lock same deadlock deadlock_from_correct [of p owner] wf
        unfolding enqueue_eq [OF ok refl] by (simp add: k_def r_def Let_def)
    qed
  qed
qed

text \<open>Two owners on one table name: a protected writer and a reader that rides beside it.\<close>

definition demo_key :: "byte list" where "demo_key = [84]"

definition demo_table :: lock_table where
  "demo_table = \<lparr>lt_locks = [((3, demo_key), \<lparr>lb_data = 0,
       lb_granted = [\<lparr>req_owner = 1, req_mode = ProtectedWrite, req_deadline = None\<rparr>],
       lb_counts = [0, 0, 0, 0, 0, 1, 0], lb_pending = []\<rparr>)], lt_next_owner = 2, lt_knocks = []\<rparr>"

lemma demo_table_ok: "table_ok demo_table"
proof -
  have "([0, 0, 0, 0, 0, 1, 0] :: nat list) ! mode_num m = (if ProtectedWrite = m then Suc 0 else 0)" for m
    by (cases m) simp_all
  then show ?thesis
    by (simp add: demo_table_def table_ok_def block_sound_def counts_exact_def mutually_compatible_def bt_wf_def)
qed

theorem enqueue_verdict_witness:
  "\<exists>t'. enqueue_deadline 2 3 demo_key SharedWrite False None demo_table = Ret (Rejected, t')
     \<and> block t' = block demo_table"
proof -
  have "\<not> grantable SharedWrite (block_or_default demo_table (3, demo_key))"
    by (simp add: grantable_def block_or_default_def demo_table_def compatible_def COMPATIBILITY_def)
  then show ?thesis
    using enqueue_verdict [OF demo_table_ok, of 2 3 demo_key SharedWrite False None]
    apply (elim exE conjE)
    subgoal for v t' by (cases v) (simp_all add: Let_def)
    done
qed

text \<open>A convert tests the new mode against the other owners' grants only: for an owner that
  holds the lock once it is granted at once exactly when the mode is compatible with every grant
  of another owner, and then only that grant changes; a refused convert leaves the table as it
  was.\<close>

lemma convert_verdict:
  assumes ok: "table_ok t" and lock: "block t (series, key) = Some lock" and one: "single_grant owner lock"
    and held: "is_granted t owner series key"
  shows "\<exists>v t'. convert owner series key m wait t = Ret (v, t') \<and>
    (v = Granted \<longleftrightarrow> (\<forall>g \<in> set (lb_granted lock). req_owner g \<noteq> owner \<longrightarrow> compatible m (req_mode g))) \<and>
    (v = Granted \<longrightarrow> table_ok t' \<and> block t' = (block t)((series, key) \<mapsto> set_granted_mode
        (the (rs_position (\<lambda>r. req_owner r = owner) (lb_granted lock))) m lock)) \<and>
    (v = Rejected \<longrightarrow> \<not> wait \<and> t' = t) \<and> (v = Deadlock \<longrightarrow> wait \<and> block t' = block t)"
proof -
  have "rs_position (\<lambda>r. req_owner r = owner) (lb_granted lock) \<noteq> None"
    using held lock by (auto simp: is_granted_def list_ex_iff rs_position_None)
  then obtain pos where pos: "rs_position (\<lambda>r. req_owner r = owner) (lb_granted lock) = Some pos" by blast
  note p = rs_position_Some [OF pos] and probe = probe_excluding [OF table_okD(2) [OF ok lock], of m owner]
  show ?thesis
  proof (cases "compatible m (state_excluding owner lock)")
    case True
    have "block_sound (set_granted_mode pos m lock)"
      using p True table_okD(2) [OF ok lock] one single_grant_pos
      by (intro sound_convert [where owner = owner]) blast+
    then have "table_ok (put_block (series, key) (set_granted_mode pos m lock) t)"
      using table_okD(3) [OF ok lock] by (intro table_ok_put [OF ok]) simp_all
    then show ?thesis using True probe lock pos by (simp add: convert_def)
  next
    case no: False
    define Q where "Q \<longleftrightarrow> (\<forall>g \<in> set (lb_granted lock). req_owner g \<noteq> owner \<longrightarrow> compatible m (req_mode g))"
    have same: "block t = (block t)((series, key) \<mapsto> lock)" using lock by (simp add: fun_upd_idem)
    have "\<not> Q" using no probe by (simp add: Q_def)
    then show ?thesis
      unfolding Q_def [symmetric] using no lock pos same
      by (cases wait; cases rule: park_cases [of "\<lparr>req_owner = owner, req_mode = m, req_deadline = None\<rparr>" series key lock t])
        (simp_all add: convert_def)
  qed
qed

subsection \<open>Release\<close>

text \<open>C6: A release never loses a wake-up: after \<^verbatim>\<open>dequeue\<close> the holders are the old ones without
  the owner's first grant followed by the longest prefix of the pending queue that can be granted in
  arrival order: each request granted is compatible with every holder before it, the head of the
  unchanged rest of the queue conflicts with a holder, and the block is gone exactly when nobody holds
  it.\<close>

theorem dequeue_no_lost_wakeup:
  assumes ok: "table_ok t" and lock: "block t (series, key) = Some lock"
  shows "\<exists>ps rest. lb_pending lock = ps @ rest \<and>
    (let holders = lb_granted (release owner lock) @ ps in
     (\<forall>i < length ps. \<forall>g \<in> set (lb_granted (release owner lock) @ take i ps). compatible (req_mode (ps ! i)) (req_mode g)) \<and>
     (case block (dequeue owner series key t) (series, key) of
        None \<Rightarrow> holders = [] \<and> rest = []
      | Some lock' \<Rightarrow> lb_granted lock' = holders \<and> lb_pending lock' = rest \<and> holders \<noteq> [] \<and>
          (rest = [] \<or> (\<exists>g \<in> set holders. \<not> compatible (req_mode (hd rest)) (req_mode g)))))"
proof -
  let ?lock = "regrant (release owner lock)"
  have sound: "block_sound (release owner lock)" using table_okD(2) [OF ok lock] by (rule sound_release)
  obtain ps where ps: "lb_pending lock = ps @ lb_pending ?lock"
    "lb_granted ?lock = lb_granted (release owner lock) @ ps"
    using regrant_spec [of "release owner lock"] by auto
  have head: "lb_pending ?lock = [] \<or> (\<exists>g \<in> set (lb_granted ?lock). \<not> compatible (req_mode (hd (lb_pending ?lock))) (req_mode g))"
    using head_blocked_regrant [of "release owner lock"] probe_block [OF sound_regrant [OF sound]]
    by (auto simp: head_blocked_def split: list.splits)
  have fits: "\<forall>i < length ps. \<forall>g \<in> set (lb_granted (release owner lock) @ take i ps). compatible (req_mode (ps ! i)) (req_mode g)"
  proof (intro allI impI ballI)
    fix i g assume i: "i < length ps" and g: "g \<in> set (lb_granted (release owner lock) @ take i ps)"
    have "mutually_compatible ((lb_granted (release owner lock) @ take i ps) @ ps ! i # drop (Suc i) ps)"
      using sound_regrant [OF sound] id_take_nth_drop [OF i] by (simp add: block_sound_def ps(2))
    then have "compatible (req_mode g) (req_mode (ps ! i))"
      using g unfolding mutually_compatible_def sorted_wrt_append by auto
    then show "compatible (req_mode (ps ! i)) (req_mode g)" using lm.compat_sym by blast
  qed
  show ?thesis
  proof (rule dequeue_cases [OF lock, of owner], goal_cases gone kept)
    case gone
    then show ?thesis using ps fits by (intro exI [of _ ps] exI [of _ "[]"]) simp
  next
    case kept
    then show ?thesis
      using ps head fits regrant_leaves_a_holder [OF sound]
      by (intro exI [of _ ps] exI [of _ "lb_pending ?lock"]) auto
  qed
qed

definition queued_table :: lock_table where
  "queued_table = snd (the (enqueue 2 3 demo_key SharedWrite True demo_table))"

lemma queued_table_block: "block queued_table (3, demo_key) = Some \<lparr>lb_data = 0,
    lb_granted = [\<lparr>req_owner = 1, req_mode = ProtectedWrite, req_deadline = None\<rparr>],
    lb_counts = [0, 0, 0, 0, 0, 1, 0],
    lb_pending = [\<lparr>req_owner = 2, req_mode = SharedWrite, req_deadline = None\<rparr>]\<rparr>"
  by (simp add: queued_table_def) code_simp

lemma demo_reachable: "lck_reachable demo_table"
proof -
  let ?t1 = "snd (create_owner lt_new)" and ?t2 = "snd (create_owner (snd (create_owner lt_new)))"
  have "lck_reachable ?t2" by (intro reach_step [OF _ step_create_owner] reach_new)
  moreover have "enqueue_deadline 1 3 demo_key ProtectedWrite False None ?t2 = Ret (Granted, demo_table)"
    unfolding demo_table_def demo_key_def by code_simp
  moreover have "\<not> waiting ?t2 1" by (simp add: waiting_def create_owner_def lt_new_def)
  ultimately show ?thesis by (blast intro: reach_step step_enqueue)
qed

lemma queued_reachable: "lck_reachable queued_table"
proof -
  have "\<not> waiting demo_table 2" by (auto simp: waiting_def demo_table_def)
  moreover have "enqueue 2 3 demo_key SharedWrite True demo_table = Ret (Waiting, queued_table)"
    unfolding queued_table_def demo_table_def demo_key_def by code_simp
  ultimately show ?thesis
    using demo_reachable by (auto simp: enqueue_def intro: reach_step step_enqueue)
qed

theorem dequeue_no_lost_wakeup_witness:
  "is_granted (dequeue 1 3 demo_key queued_table) 2 3 demo_key"
proof -
  have "table_ok queued_table" using lck_inv_reachable [OF queued_reachable] by (simp add: lck_inv_def)
  from dequeue_no_lost_wakeup [OF this queued_table_block, of 1]
  obtain ps rest where split: "[\<lparr>req_owner = 2, req_mode = SharedWrite, req_deadline = None\<rparr>] = ps @ rest"
    and after: "case block (dequeue 1 3 demo_key queued_table) (3, demo_key) of
        None \<Rightarrow> ps = [] \<and> rest = []
      | Some lock' \<Rightarrow> lb_granted lock' = ps \<and> lb_pending lock' = rest \<and> ps \<noteq> []"
    by (auto simp: release_def vec_remove_def Let_def split: option.splits)
  show ?thesis
  proof (cases ps)
    case Nil
    then show ?thesis using split after by (simp split: option.splits)
  next
    case (Cons p ps')
    then show ?thesis using split after by (auto simp: is_granted_def split: option.splits)
  qed
qed

subsection \<open>Deadlock\<close>

text \<open>C4: The deadlock scan is exact and always ends: it answers yes for an owner if and only if
  the owner lies on a cycle of the wait-for relation, in which an owner with a pending request
  waits for every other owner holding the same lock in an incompatible mode.\<close>

theorem deadlock_scan_exact:
  assumes "table_ok t"
  shows "deadlock_from t owner \<longleftrightarrow> (owner, owner) \<in> {(a, b). \<exists>k lock p g. block t k = Some lock \<and>
    p \<in> set (lb_pending lock) \<and> g \<in> set (lb_granted lock) \<and> req_owner p = a \<and> req_owner g = b \<and>
    a \<noteq> b \<and> \<not> compatible (req_mode p) (req_mode g)}\<^sup>+"
proof -
  have "waits t = {(a, b). \<exists>k lock p g. block t k = Some lock \<and>
    p \<in> set (lb_pending lock) \<and> g \<in> set (lb_granted lock) \<and> req_owner p = a \<and> req_owner g = b \<and>
    a \<noteq> b \<and> \<not> compatible (req_mode p) (req_mode g)}"
    by (auto simp: waits_def block_waits_def)
  then show ?thesis using deadlock_from_correct [OF table_okD(1) [OF assms]] by simp
qed

theorem deadlock_scan_exact_witness: "\<not> deadlock_from demo_table 1"
proof -
  have none: "{(a, b). \<exists>k lock p g. block demo_table k = Some lock \<and>
    p \<in> set (lb_pending lock) \<and> g \<in> set (lb_granted lock) \<and> req_owner p = a \<and> req_owner g = b \<and>
    a \<noteq> b \<and> \<not> compatible (req_mode p) (req_mode g)} = {}"
    by (auto simp: demo_table_def split: if_splits)
  show ?thesis using deadlock_scan_exact [OF demo_table_ok, of 1] unfolding none by simp
qed

text \<open>C1: In every table reachable by owners that do not act while they wait, and that convert
  only locks they hold once, every lock has a holder, its holders are pairwise compatible, its
  counters are exact, no owner waits for two requests, and nobody waits on a wait-for cycle.\<close>

theorem lck_reachable_safe:
  assumes "lck_reachable t"
  shows "(\<forall>k lock. block t k = Some lock \<longrightarrow>
      lb_granted lock \<noteq> [] \<and>
      (\<forall>j < length (lb_granted lock). \<forall>i < j.
        compatible (req_mode (lb_granted lock ! i)) (req_mode (lb_granted lock ! j))) \<and>
      (\<forall>m. lb_counts lock ! mode_num m = mode_count m (lb_granted lock)) \<and>
      distinct (map req_owner (lb_pending lock)))
    \<and> acyclic (waits t)"
proof -
  have inv: "lck_inv t" using assms by (rule lck_inv_reachable)
  show ?thesis
  proof (intro conjI allI impI)
    fix k lock assume lock: "block t k = Some lock"
    show "lb_granted lock \<noteq> []" "distinct (map req_owner (lb_pending lock))"
      using lck_invD [OF inv lock] by simp_all
    show "lb_counts lock ! mode_num m = mode_count m (lb_granted lock)" for m
      using lck_invD(1) [OF inv lock] by (simp add: block_sound_def counts_exact_def)
    show "compatible (req_mode (lb_granted lock ! i)) (req_mode (lb_granted lock ! j))"
      if "j < length (lb_granted lock)" "i < j" for i j
      using lck_invD(1) [OF inv lock] that
      by (simp add: block_sound_def mutually_compatible_def sorted_wrt_iff_nth_less)
  qed (use inv in \<open>simp add: lck_inv_def\<close>)
qed

theorem lck_reachable_safe_witness:
  "acyclic (waits queued_table) \<and> lb_granted (the (block queued_table (3, demo_key))) \<noteq> []"
  using lck_reachable_safe [OF queued_reachable] queued_table_block by simp

subsection \<open>Where the table falls short\<close>

text \<open>The verdicts of a sequence of calls.\<close>

datatype lck_call = Enqueue u32 byte "byte list" lock_mode bool "u64 option"
  | Convert u32 byte "byte list" lock_mode bool
  | Dequeue u32 byte "byte list" | Expire u64 | Purge u32

fun run_call :: "lck_call \<Rightarrow> lock_table \<Rightarrow> (verdict option \<times> lock_table) run" where
  "run_call (Enqueue owner s key m wait d) t = map_option (map_prod Some id) (enqueue_deadline owner s key m wait d t)"
| "run_call (Convert owner s key m wait) t = map_option (map_prod Some id) (convert owner s key m wait t)"
| "run_call (Dequeue owner s key) t = Ret (None, dequeue owner s key t)"
| "run_call (Expire now) t = Ret (None, snd (expire now t))"
| "run_call (Purge owner) t = Ret (None, snd (purge_owner owner t))"

fun lck_run :: "lck_call list \<Rightarrow> lock_table \<Rightarrow> (verdict option list \<times> lock_table) run" where
  "lck_run [] t = Ret ([], t)"
| "lck_run (c # cs) t =
     do { (v, t1) \<leftarrow> run_call c t; (vs, t2) \<leftarrow> lck_run cs t1; Ret (v # vs, t2) }"

text \<open>A request parked only behind the queue has no wait-for edge: owners 1, 2 and 3 end up all
  waiting, 1 for 3, 3 behind 2 in the queue, and 2 for 1, and every verdict was Waiting.\<close>

lemma queue_deadlock_is_missed:
  "map_option fst (lck_run
     [Enqueue 1 3 [65] ProtectedRead True None, Enqueue 3 3 [66] Exclusive True None,
      Enqueue 2 3 [65] SharedWrite True None, Enqueue 3 3 [65] ProtectedRead True None,
      Enqueue 1 3 [66] Exclusive True None] lt_new)
   = Ret [Some Granted, Some Granted, Some Waiting, Some Waiting, Some Waiting]"
  by code_simp

text \<open>A convert that waits keeps its old grant, and the regrant loop tests the converted mode
  against that very grant: the exclusive convert of owner 1 is not granted although owner 2, the
  only other holder, has released.\<close>

lemma waiting_convert_blocks_itself:
  "map_option (\<lambda>(vs, t). (vs, map (req_mode) (lb_granted (block_or_default t (3, [65]))),
       map req_mode (lb_pending (block_or_default t (3, [65])))))
     (lck_run [Enqueue 1 3 [65] SharedRead True None, Enqueue 2 3 [65] SharedRead True None,
               Convert 1 3 [65] Exclusive True, Dequeue 2 3 [65]] lt_new)
   = Ret ([Some Granted, Some Granted, Some Waiting, None], [SharedRead], [Exclusive])"
  by code_simp

text \<open>Expiry and owner teardown do not regrant a queue they take a request from, unless the owner
  held the lock: a compatible request behind the removed one stays parked.\<close>

lemma expired_head_leaves_queue_parked:
  "map_option (\<lambda>(vs, t). map (\<lambda>p. (req_owner p, compatible (req_mode p) (lb_state (block_or_default t (3, [65])))))
       (lb_pending (block_or_default t (3, [65]))))
     (lck_run [Enqueue 1 3 [65] SharedRead True None, Enqueue 2 3 [65] Exclusive True (Some 10),
               Enqueue 3 3 [65] SharedRead True None, Expire 10] lt_new)
   = Ret [(3, True)]"
  by code_simp

lemma purged_waiter_leaves_queue_parked:
  "map_option (\<lambda>(vs, t). map (\<lambda>p. (req_owner p, compatible (req_mode p) (lb_state (block_or_default t (3, [65])))))
       (lb_pending (block_or_default t (3, [65]))))
     (lck_run [Enqueue 1 3 [65] SharedRead True None, Enqueue 2 3 [65] Exclusive True None,
               Enqueue 3 3 [65] SharedRead True None, Purge 2] lt_new)
   = Ret [(3, True)]"
  by code_simp

text \<open>A regranted request keeps the deadline it was parked with.\<close>

lemma regranted_request_keeps_its_deadline:
  "map_option (\<lambda>(vs, t). map req_deadline (lb_granted (block_or_default t (3, [65]))))
     (lck_run [Enqueue 1 3 [65] Exclusive True None, Enqueue 2 3 [65] Exclusive True (Some 10),
               Dequeue 1 3 [65]] lt_new)
   = Ret [Some 10]"
  by code_simp

end
