(* ===== verification/Image.thy ===== *)
theory Image
  imports Prelude "HOL-Library.Multiset"
begin

text \<open>
  The database image addressed by page, \<^verbatim>\<open>crates/ods/src/lib.rs\<close>. Two models of one type.

  The record \<^verbatim>\<open>image\<close> is what a reader sees: the pages' bytes, the page size and the DDL
  bookkeeping. \<^verbatim>\<open>arc_image\<close> is the representation: a list of reference-counted pages over a
  heap of cells (\<^verbatim>\<open>Vec<Arc<[u8]>>\<close>), so that sharing, copy-on-write and the identity test of
  \<^verbatim>\<open>changed_pages\<close> are there as in the code. The abstraction \<^verbatim>\<open>arc_abs\<close> reads the
  bytes off the cells; the refinement theorem says that a write through \<^verbatim>\<open>page_mut\<close> is the
  write of one page for its image and no change for every other image that shares pages with it.
\<close>

subsection \<open>The image as its readers see it\<close>

datatype ddl_residue =
    SysPagesRow u32 u16
  | ResiduePage u32
  | CreatedRelation u16
  | IndexTree u32 u16 nat

datatype ddl_deferred =
    DropRelation u16
  | DropIndexSlot u32 nat
  | FreeBlob u16 u64
  | PurgeRowChain u16 u32 u16
  | CreateRelationStorage string
  | CreateIndexStorage string
  | RefreshRuntime string
  | FieldChanged string
  | GrantPrivileges string int
  | StoreDependencies int string
  | CheckDependents string int

record image =
  img_pages :: "byte list list"
  img_page_size :: nat
  ddl_tx :: "u64 option"
  img_residue :: "ddl_residue list"
  img_deferred :: "ddl_deferred list"

text \<open>\<^verbatim>\<open>slice::chunks\<close>: pieces of \<^verbatim>\<open>n\<close> elements, the last one shorter when the length is not a
  multiple of \<^verbatim>\<open>n\<close>.\<close>

function chunks :: "nat \<Rightarrow> 'a list \<Rightarrow> 'a list list" where
  "chunks n xs = (if xs = [] \<or> n = 0 then [] else take n xs # chunks n (drop n xs))"
  by pat_completeness auto
termination
  by (relation "measure (\<lambda>(n, xs). length xs)") auto

declare chunks.simps [simp del]

definition from_bytes :: "byte list \<Rightarrow> nat \<Rightarrow> image" where
  "from_bytes bytes page_size =
     \<lparr>img_pages = (if page_size = 0 then [] else chunks page_size bytes),
      img_page_size = page_size, ddl_tx = None, img_residue = [], img_deferred = []\<rparr>"

definition to_bytes :: "image \<Rightarrow> byte list" where
  "to_bytes im = concat (img_pages im)"

definition num_pages :: "image \<Rightarrow> nat" where
  "num_pages im = length (img_pages im)"

definition byte_len :: "image \<Rightarrow> nat" where
  "byte_len im = sum_list (map length (img_pages im))"

definition img_page :: "image \<Rightarrow> u32 \<Rightarrow> byte list option" where
  "img_page im p = (if unat p < length (img_pages im) then Some (img_pages im ! unat p) else None)"

text \<open>\<^verbatim>\<open>page_mut\<close> hands out a page's bytes for writing; storing new bytes \<^verbatim>\<open>bs\<close> (of the same
  length, as a slice keeps its length) in page \<^verbatim>\<open>p\<close> is \<^verbatim>\<open>set_page\<close>.\<close>

definition set_page :: "u32 \<Rightarrow> byte list \<Rightarrow> image \<Rightarrow> image" where
  "set_page p bs im = im\<lparr>img_pages := (img_pages im)[unat p := bs]\<rparr>"

text \<open>\<^verbatim>\<open>pages()\<close> iterates the whole pages and skips a short last one.\<close>

definition whole_pages :: "image \<Rightarrow> byte list list" where
  "whole_pages im = filter (\<lambda>p. length p = img_page_size im) (img_pages im)"

definition grow :: "nat \<Rightarrow> image \<Rightarrow> image" where
  "grow bytes im =
     (if img_page_size im = 0 then im
      else
        let want = (bytes + img_page_size im - 1) div img_page_size im in
        im\<lparr>img_pages := img_pages im @
             replicate (want - length (img_pages im)) (replicate (img_page_size im) 0)\<rparr>)"

definition page_at :: "image \<Rightarrow> nat \<Rightarrow> u32 \<Rightarrow> byte list option" where
  "page_at file page_size p = img_page file p"

lemma concat_chunks: "0 < n \<Longrightarrow> concat (chunks n xs) = xs"
proof (induction n xs rule: chunks.induct)
  case (1 n xs)
  then show ?case by (subst chunks.simps) auto
qed

lemma page_set_page:
  "img_page (set_page p bs im) q =
    (if p = q \<and> img_page im p \<noteq> None then Some bs else img_page im q)"
proof -
  have "unat p = unat q \<longleftrightarrow> p = q" by (simp add: word_unat_eq_iff)
  then show ?thesis by (simp add: img_page_def set_page_def nth_list_update)
qed

lemma img_page_size_set_page [simp]: "img_page_size (set_page p bs im) = img_page_size im"
  by (simp add: set_page_def)

lemma num_pages_set_page [simp]: "num_pages (set_page p bs im) = num_pages im"
  by (simp add: set_page_def num_pages_def)

lemma page_Some_less: "img_page im p = Some bs \<Longrightarrow> unat p < num_pages im"
  by (simp add: img_page_def num_pages_def split: if_splits)

lemma byte_len_set_page:
  assumes "img_page im p = Some old" "length bs = length old"
  shows "byte_len (set_page p bs im) = byte_len im"
proof -
  have "map length ((img_pages im)[unat p := bs]) = map length (img_pages im)"
    using assms by (auto simp: img_page_def map_update list_update_same_conv split: if_splits)
  then show ?thesis by (simp add: byte_len_def set_page_def)
qed

subsection \<open>The interface of a paged store\<close>

text \<open>What the components that write pages rely on: a write to a page is read back, and every
  other page is left alone.\<close>

locale page_store =
  fixes read_page :: "'s \<Rightarrow> u32 \<Rightarrow> byte list option"
    and write_page :: "u32 \<Rightarrow> byte list \<Rightarrow> 's \<Rightarrow> 's"
    and ok :: "'s \<Rightarrow> bool"
  assumes read_write: "ok s \<Longrightarrow> read_page s p \<noteq> None \<Longrightarrow>
      read_page (write_page p bs s) = (read_page s)(p \<mapsto> bs)"
    and ok_write: "ok s \<Longrightarrow> read_page s p \<noteq> None \<Longrightarrow> ok (write_page p bs s)"
begin

lemma ps_read_same: "ok s \<Longrightarrow> read_page s p \<noteq> None \<Longrightarrow> read_page (write_page p bs s) p = Some bs"
  by (simp add: read_write)

lemma ps_read_other:
  "ok s \<Longrightarrow> read_page s p \<noteq> None \<Longrightarrow> p \<noteq> q \<Longrightarrow> read_page (write_page p bs s) q = read_page s q"
  by (simp add: read_write)

text \<open>A list of page writes: the last write of each page wins, and the pages that are not
  written keep their bytes.\<close>

lemma ps_write_many:
  assumes "ok s" "\<forall>(p, bs) \<in> set ws. read_page s p \<noteq> None"
  shows "ok (fold (\<lambda>(p, bs). write_page p bs) ws s) \<and>
    read_page (fold (\<lambda>(p, bs). write_page p bs) ws s) = read_page s ++ map_of (rev ws)"
  using assms
proof (induction ws arbitrary: s)
  case (Cons w ws)
  obtain p bs where w: "w = (p, bs)" by fastforce
  from Cons.prems have p: "read_page s p \<noteq> None" by (simp add: w)
  let ?s = "write_page p bs s"
  have "\<forall>(q, bs') \<in> set ws. read_page ?s q \<noteq> None"
    using Cons.prems p by (auto simp: read_write)
  with Cons.IH [of ?s] Cons.prems p show ?case
    by (auto simp: w ok_write read_write map_add_def fun_eq_iff split: option.splits)
qed simp

end

interpretation flat: page_store img_page set_page "\<lambda>_. True"
  by unfold_locales (auto simp: page_set_page fun_eq_iff)

subsection \<open>The representation: reference-counted pages\<close>

record arc_cell =
  cell_bytes :: "byte list"
  cell_refs :: nat

type_synonym arc_heap = "arc_cell list"

record arc_image =
  arc_pages :: "nat list"
  arc_page_size :: nat

definition arc_new :: "byte list \<Rightarrow> arc_heap \<Rightarrow> nat \<times> arc_heap" where
  "arc_new bs h = (length h, h @ [\<lparr>cell_bytes = bs, cell_refs = 1\<rparr>])"

definition arc_retain :: "nat \<Rightarrow> arc_heap \<Rightarrow> arc_heap" where
  "arc_retain a h = h[a := (h ! a)\<lparr>cell_refs := cell_refs (h ! a) + 1\<rparr>]"

definition arc_release :: "nat \<Rightarrow> arc_heap \<Rightarrow> arc_heap" where
  "arc_release a h = h[a := (h ! a)\<lparr>cell_refs := cell_refs (h ! a) - 1\<rparr>]"

text \<open>\<^verbatim>\<open>Arc::get_mut\<close> succeeds on the only reference. \<^verbatim>\<open>arc_page_mut\<close> answers the heap and the
  image after a possible copy, and the cell the writer may now write; \<^verbatim>\<open>arc_store\<close> is the write
  through the slice it got.\<close>

definition arc_get_mut :: "nat \<Rightarrow> arc_heap \<Rightarrow> bool" where
  "arc_get_mut a h \<longleftrightarrow> cell_refs (h ! a) = 1"

definition arc_page_mut :: "u32 \<Rightarrow> arc_heap \<Rightarrow> arc_image \<Rightarrow> (arc_heap \<times> arc_image \<times> nat) option" where
  "arc_page_mut p h im =
     (if unat p < length (arc_pages im) then
        let a = arc_pages im ! unat p;
            (h', im', a') =
              (if \<not> arc_get_mut a h then
                 let (owned, h1) = arc_new (cell_bytes (h ! a)) h in
                 (arc_release a h1, im\<lparr>arc_pages := (arc_pages im)[unat p := owned]\<rparr>, owned)
               else (h, im, a))
        in if arc_get_mut a' h' then Some (h', im', a') else None
      else None)"

definition arc_store :: "nat \<Rightarrow> byte list \<Rightarrow> arc_heap \<Rightarrow> arc_heap" where
  "arc_store a bs h = h[a := (h ! a)\<lparr>cell_bytes := bs\<rparr>]"

definition arc_clone :: "arc_heap \<Rightarrow> arc_image \<Rightarrow> arc_heap \<times> arc_image" where
  "arc_clone h im = (fold arc_retain (arc_pages im) h, im)"

definition arc_changed_pages :: "arc_image \<Rightarrow> arc_image \<Rightarrow> nat list" where
  "arc_changed_pages im base =
     (let n = max (length (arc_pages im)) (length (arc_pages base)) in
      filter (\<lambda>i.
        if i < length (arc_pages im) \<and> i < length (arc_pages base)
        then arc_pages im ! i \<noteq> arc_pages base ! i
        else (i < length (arc_pages im)) \<noteq> (i < length (arc_pages base))) [0..<n])"

text \<open>The bytes an image shows, and the invariant of a heap with its live images: every
  cell's count is the number of references to it.\<close>

definition arc_abs :: "arc_heap \<Rightarrow> arc_image \<Rightarrow> image" where
  "arc_abs h im =
     \<lparr>img_pages = map (\<lambda>a. cell_bytes (h ! a)) (arc_pages im), img_page_size = arc_page_size im,
      ddl_tx = None, img_residue = [], img_deferred = []\<rparr>"

definition arc_refs :: "arc_image list \<Rightarrow> nat \<Rightarrow> nat" where
  "arc_refs ims a = sum_list (map (\<lambda>im. count (mset (arc_pages im)) a) ims)"

definition arc_ok :: "arc_heap \<Rightarrow> arc_image list \<Rightarrow> bool" where
  "arc_ok h ims \<longleftrightarrow>
     (\<forall>im \<in> set ims. \<forall>a \<in> set (arc_pages im). a < length h) \<and>
     (\<forall>a < length h. cell_refs (h ! a) = arc_refs ims a)"

lemma arc_refs_Cons: "arc_refs (im # ims) a = count (mset (arc_pages im)) a + arc_refs ims a"
  by (simp add: arc_refs_def)

lemma arc_refs_zero: "arc_refs ims a = 0 \<longleftrightarrow> (\<forall>im \<in> set ims. a \<notin> set (arc_pages im))"
  by (auto simp: arc_refs_def)

text \<open>A write of page \<^verbatim>\<open>p\<close>: take the page for writing, then store.\<close>

fun arc_write_page :: "u32 \<Rightarrow> byte list \<Rightarrow> arc_heap \<times> arc_image \<times> arc_image list \<Rightarrow> arc_heap \<times> arc_image \<times> arc_image list" where
  "arc_write_page p bs (h, im, others) =
     (case arc_page_mut p h im of
        None \<Rightarrow> (h, im, others)
      | Some (h', im', a) \<Rightarrow> (arc_store a bs h', im', others))"

lemma count_mset_card: "count (mset xs) x = card {j. j < length xs \<and> xs ! j = x}"
  by (simp add: count_mset count_list_eq_length_filter length_filter_conv_card eq_commute [of x])

lemma arc_page_mut_cases:
  assumes ok: "arc_ok h (im # others)" and p: "unat p < length (arc_pages im)"
  obtains (alone) "arc_page_mut p h im = Some (h, im, arc_pages im ! unat p)"
      "cell_refs (h ! (arc_pages im ! unat p)) = 1"
  | (shared) "cell_refs (h ! (arc_pages im ! unat p)) > 1"
      "arc_page_mut p h im =
        Some (arc_release (arc_pages im ! unat p) (h @ [\<lparr>cell_bytes = cell_bytes (h ! (arc_pages im ! unat p)), cell_refs = 1\<rparr>]),
          im\<lparr>arc_pages := (arc_pages im)[unat p := length h]\<rparr>, length h)"
proof -
  let ?a = "arc_pages im ! unat p"
  have a: "?a \<in> set (arc_pages im)" "?a < length h" using ok p by (auto simp: arc_ok_def)
  have "cell_refs (h ! ?a) = arc_refs (im # others) ?a" using ok a by (auto simp: arc_ok_def)
  moreover have "count (mset (arc_pages im)) ?a > 0" using a(1) by simp
  ultimately have "cell_refs (h ! ?a) > 0" by (simp add: arc_refs_Cons)
  then show thesis using alone shared a(2) p
    by (cases "cell_refs (h ! ?a) = 1")
      (auto simp: arc_page_mut_def arc_get_mut_def arc_new_def arc_release_def nth_append Let_def)
qed

lemma arc_ok_write:
  assumes ok: "arc_ok h (im # others)" and p: "unat p < length (arc_pages im)"
    and w: "arc_write_page p bs (h, im, others) = (h', im', others')"
  shows "arc_ok h' (im' # others') \<and> others' = others \<and> arc_page_size im' = arc_page_size im \<and>
    length (arc_pages im') = length (arc_pages im) \<and>
    (\<forall>i < length (arc_pages im). cell_bytes (h' ! (arc_pages im' ! i)) =
       (if i = unat p then bs else cell_bytes (h ! (arc_pages im ! i)))) \<and>
    (\<forall>b < length h. b \<noteq> arc_pages im ! unat p \<or> arc_refs others b > 0 \<longrightarrow>
       cell_bytes (h' ! b) = cell_bytes (h ! b))"
proof -
  let ?a = "arc_pages im ! unat p"
  have a: "?a \<in> set (arc_pages im)" "?a < length h" using ok p by (auto simp: arc_ok_def)
  have inh: "\<And>i. i < length (arc_pages im) \<Longrightarrow> arc_pages im ! i < length h"
    using ok by (auto simp: arc_ok_def)
  have refs: "cell_refs (h ! ?a) = count (mset (arc_pages im)) ?a + arc_refs others ?a"
    using ok a by (auto simp: arc_ok_def arc_refs_Cons)
  show ?thesis
    using ok p
  proof (cases rule: arc_page_mut_cases)
    case alone
    have one: "count (mset (arc_pages im)) ?a = 1" "arc_refs others ?a = 0"
      using refs alone(2) a(1) count_greater_zero_iff [of "mset (arc_pages im)" ?a]
      by (auto simp del: count_greater_zero_iff)
    have unique: "i = unat p" if "i < length (arc_pages im)" "arc_pages im ! i = ?a" for i
    proof (rule ccontr)
      assume "i \<noteq> unat p"
      then have "card {j. j < length (arc_pages im) \<and> arc_pages im ! j = ?a} \<ge> card {i, unat p}"
        using that p by (intro card_mono) auto
      then show False using one(1) \<open>i \<noteq> unat p\<close>
        by (simp add: count_mset_card)
    qed
    have "h' = arc_store ?a bs h" "im' = im" "others' = others" using w alone(1) by auto
    then show ?thesis using ok a unique one inh
      by (auto simp: arc_ok_def arc_store_def nth_list_update)
  next
    case shared
    let ?im = "im\<lparr>arc_pages := (arc_pages im)[unat p := length h]\<rparr>"
    have h': "h' = arc_store (length h) bs (arc_release ?a (h @ [\<lparr>cell_bytes = cell_bytes (h ! ?a), cell_refs = 1\<rparr>]))"
      and im': "im' = ?im" and others': "others' = others"
      using w shared(2) by auto
    have fresh: "arc_refs (im # others) (length h) = 0"
      using ok unfolding arc_refs_zero arc_ok_def by auto
    have cnt: "count (mset (arc_pages ?im)) b =
        count (mset (arc_pages im)) b + (if b = length h then 1 else 0) - (if b = ?a then 1 else 0)" for b
      using p a by (auto simp: mset_update)
    obtain k where k: "count (mset (arc_pages im)) ?a = Suc k"
      using a(1) by (metis count_mset_0_iff not0_implies_Suc)
    have "cell_refs (h' ! b) = arc_refs (?im # others) b" if "b < length h'" for b
      using that ok fresh a(2) cnt [of b] shared(1) refs k
      by (auto simp: h' arc_store_def arc_release_def nth_append nth_list_update arc_ok_def arc_refs_Cons)
    moreover have "\<forall>x \<in> set (?im # others). \<forall>b \<in> set (arc_pages x). b < length h'"
      using ok set_update_subset_insert [of "arc_pages im" "unat p" "length h"]
      by (fastforce simp: h' arc_store_def arc_release_def arc_ok_def)
    ultimately have "arc_ok h' (im' # others')" by (simp add: arc_ok_def im' others')
    moreover have "cell_bytes (h' ! b) = (if b = length h then bs else cell_bytes (h ! b))" if "b \<le> length h" for b
      using that a(2) by (auto simp: h' arc_store_def arc_release_def nth_append nth_list_update)
    moreover have "arc_pages im ! i \<noteq> length h" if "i < length (arc_pages im)" for i
      using inh [OF that] by simp
    ultimately show ?thesis using inh p less_imp_le [OF inh]
      by (auto simp: im' others' nth_list_update)
  qed
qed

text \<open>The representation is a paged store too: the whole of \<^verbatim>\<open>page_mut\<close>'s contract.\<close>

fun arc_read_page :: "arc_heap \<times> arc_image \<times> arc_image list \<Rightarrow> u32 \<Rightarrow> byte list option" where
  "arc_read_page (h, im, others) p = img_page (arc_abs h im) p"

fun arc_state_ok :: "arc_heap \<times> arc_image \<times> arc_image list \<Rightarrow> bool" where
  "arc_state_ok (h, im, others) \<longleftrightarrow> arc_ok h (im # others)"

lemma arc_abs_pages: "img_page (arc_abs h im) p =
    (if unat p < length (arc_pages im) then Some (cell_bytes (h ! (arc_pages im ! unat p))) else None)"
  by (simp add: img_page_def arc_abs_def)

lemma arc_abs_write:
  assumes ok: "arc_ok h (im # others)" and p: "unat p < length (arc_pages im)"
    and w: "arc_write_page p bs (h, im, others) = (h', im', others')"
  shows "arc_abs h' im' = set_page p bs (arc_abs h im)"
proof -
  from arc_ok_write [OF ok p w] p show ?thesis
    by (auto simp: arc_abs_def set_page_def nth_list_update intro!: nth_equalityI)
qed

interpretation arc: page_store arc_read_page arc_write_page arc_state_ok
proof unfold_locales
  fix s p bs assume s: "arc_state_ok s" "arc_read_page s p \<noteq> None"
  obtain h im others where st: "s = (h, im, others)" by (cases s) auto
  obtain h' im' others' where w: "arc_write_page p bs s = (h', im', others')"
    by (cases "arc_write_page p bs s") auto
  from s have ok: "arc_ok h (im # others)" and p: "unat p < length (arc_pages im)"
    by (auto simp: st arc_abs_pages split: if_splits)
  note w' = w [unfolded st]
  show "arc_state_ok (arc_write_page p bs s)"
    using arc_ok_write [OF ok p w'] by (metis arc_state_ok.simps w)
  show "arc_read_page (arc_write_page p bs s) = (arc_read_page s)(p \<mapsto> bs)"
    unfolding w unfolding st arc_read_page.simps arc_abs_write [OF ok p w']
    using p by (auto simp: page_set_page arc_abs_pages fun_eq_iff)
qed

text \<open>The two models of an image agree through \<^verbatim>\<open>arc_abs\<close>, and no write through one image is
  seen by another: the pages of every other live image are what they were.\<close>

lemma arc_others_unchanged:
  assumes ok: "arc_ok h (im # others)" and w: "arc_write_page p bs (h, im, others) = (h', im', others')"
    and o: "x \<in> set others"
  shows "arc_abs h' x = arc_abs h x"
proof (cases "unat p < length (arc_pages im)")
  case True
  have "cell_bytes (h' ! b) = cell_bytes (h ! b)" if "b \<in> set (arc_pages x)" for b
  proof -
    have "b < length h" using ok o that by (auto simp: arc_ok_def)
    moreover have "arc_refs others b > 0" using arc_refs_zero [of others b] o that by auto
    ultimately show ?thesis using arc_ok_write [OF ok True w] by blast
  qed
  then show ?thesis by (simp add: arc_abs_def)
next
  case False
  then show ?thesis using w by (simp add: arc_page_mut_def)
qed

text \<open>C3: A write through \<^verbatim>\<open>page_mut\<close> refines the write of one page: the writer's image reads as
  the old image with that page replaced, every other live image reads exactly as before (a
  reader's snapshot is never disturbed), and the reference counts stay exact.\<close>

theorem page_mut_refines:
  assumes "arc_ok h (im # others)" and "img_page (arc_abs h im) p \<noteq> None"
    and "arc_write_page p bs (h, im, others) = (h', im', others')"
  shows "arc_abs h' im' = set_page p bs (arc_abs h im) \<and>
    others' = others \<and> (\<forall>x \<in> set others. arc_abs h' x = arc_abs h x) \<and> arc_ok h' (im' # others)"
proof -
  from assms(2) have p: "unat p < length (arc_pages im)" by (auto simp: arc_abs_pages split: if_splits)
  from arc_ok_write [OF assms(1) p assms(3)] arc_abs_write [OF assms(1) p assms(3)]
    arc_others_unchanged [OF assms(1,3)]
  show ?thesis by auto
qed

definition cow_heap :: arc_heap where
  "cow_heap = [\<lparr>cell_bytes = [1, 1], cell_refs = 2\<rparr>, \<lparr>cell_bytes = [2, 2], cell_refs = 1\<rparr>]"

theorem page_mut_refines_witness:
  "arc_ok cow_heap [\<lparr>arc_pages = [0, 1], arc_page_size = 2\<rparr>, \<lparr>arc_pages = [0], arc_page_size = 2\<rparr>] \<and>
   (\<exists>h' im'. arc_write_page 0 [9, 9] (cow_heap, \<lparr>arc_pages = [0, 1], arc_page_size = 2\<rparr>, [\<lparr>arc_pages = [0], arc_page_size = 2\<rparr>])
      = (h', im', [\<lparr>arc_pages = [0], arc_page_size = 2\<rparr>]) \<and>
     to_bytes (arc_abs h' im') = [9, 9, 2, 2] \<and>
     to_bytes (arc_abs h' \<lparr>arc_pages = [0], arc_page_size = 2\<rparr>) = [1, 1])"
proof -
  let ?w = "\<lparr>arc_pages = [0, 1], arc_page_size = 2\<rparr>" and ?r = "\<lparr>arc_pages = [0], arc_page_size = 2\<rparr>"
  have ok: "arc_ok cow_heap [?w, ?r]"
    by (auto simp: arc_ok_def cow_heap_def arc_refs_def nth_Cons less_Suc_eq split: nat.splits)
  have p: "img_page (arc_abs cow_heap ?w) 0 \<noteq> None" by (simp add: arc_abs_pages)
  obtain h' im' others' where w: "arc_write_page 0 [9, 9] (cow_heap, ?w, [?r]) = (h', im', others')"
    by (cases "arc_write_page 0 [9, 9] (cow_heap, ?w, [?r])") auto
  from page_mut_refines [OF ok p w] have "to_bytes (arc_abs h' im') = [9, 9, 2, 2]"
      "to_bytes (arc_abs h' ?r) = [1, 1]" "others' = [?r]"
    by (auto simp: arc_abs_def set_page_def to_bytes_def cow_heap_def)
  with ok w show ?thesis by blast
qed

subsection \<open>The pages a flush writes\<close>

declare arc_write_page.simps [simp del]

lemma arc_write_many:
  assumes "arc_ok h (im # others)"
    and "fold (\<lambda>(p, bs). arc_write_page p bs) ws (h, im, others) = (h', im', others')"
  shows "arc_ok h' (im' # others) \<and> others' = others \<and> (\<forall>x \<in> set others. arc_abs h' x = arc_abs h x)"
  using assms
proof (induction ws arbitrary: h im)
  case (Cons w ws)
  obtain p bs where w: "w = (p, bs)" by fastforce
  obtain h1 im1 others1 where s: "arc_write_page p bs (h, im, others) = (h1, im1, others1)"
    by (cases "arc_write_page p bs (h, im, others)") auto
  have step: "arc_ok h1 (im1 # others) \<and> others1 = others"
  proof (cases "unat p < length (arc_pages im)")
    case True
    from arc_ok_write [OF Cons.prems(1) True s] show ?thesis by metis
  next
    case False
    then show ?thesis using s Cons.prems(1) by (simp add: arc_page_mut_def arc_write_page.simps)
  qed
  have "fold (\<lambda>(p, bs). arc_write_page p bs) ws (h1, im1, others) = (h', im', others')"
    using Cons.prems(2) s step by (simp add: w)
  with Cons.IH [of h1 im1] step arc_others_unchanged [OF Cons.prems(1) s] show ?case by auto
qed auto

text \<open>C7: The identity test of \<^verbatim>\<open>changed_pages\<close> misses nothing: after any sequence of writes to a
  work image, every page whose bytes differ from a base image that was alive all along is in the
  changed set, although no bytes are compared; and the base still reads as it did.\<close>

theorem changed_pages_complete:
  assumes "arc_ok h (im # others)" and "base \<in> set others"
    and "fold (\<lambda>(p, bs). arc_write_page p bs) ws (h, im, others) = (h', im', others')"
    and "img_page (arc_abs h' im') q \<noteq> img_page (arc_abs h base) q"
  shows "unat q \<in> set (arc_changed_pages im' base) \<and> arc_abs h' base = arc_abs h base"
proof -
  have keep: "arc_abs h' base = arc_abs h base" using arc_write_many [OF assms(1,3)] assms(2) by blast
  then have "img_page (arc_abs h' im') q \<noteq> img_page (arc_abs h' base) q" using assms(4) by simp
  then have "unat q \<in> set (arc_changed_pages im' base)"
    by (auto simp: arc_abs_pages arc_changed_pages_def Let_def split: if_splits)
  with keep show ?thesis by simp
qed

theorem changed_pages_complete_witness:
  "\<exists>h' im'. fold (\<lambda>(p, bs). arc_write_page p bs) [(0, [9, 9])]
       (cow_heap, \<lparr>arc_pages = [0, 1], arc_page_size = 2\<rparr>, [\<lparr>arc_pages = [0], arc_page_size = 2\<rparr>])
       = (h', im', [\<lparr>arc_pages = [0], arc_page_size = 2\<rparr>]) \<and>
     0 \<in> set (arc_changed_pages im' \<lparr>arc_pages = [0], arc_page_size = 2\<rparr>)"
proof -
  let ?w = "\<lparr>arc_pages = [0, 1], arc_page_size = 2\<rparr>" and ?r = "\<lparr>arc_pages = [0], arc_page_size = 2\<rparr>"
  have ok: "arc_ok cow_heap [?w, ?r]"
    by (auto simp: arc_ok_def cow_heap_def arc_refs_def nth_Cons less_Suc_eq split: nat.splits)
  obtain h' im' others' where w: "fold (\<lambda>(p, bs). arc_write_page p bs) [(0, [9, 9])] (cow_heap, ?w, [?r]) = (h', im', others')"
    by (cases "fold (\<lambda>(p, bs). arc_write_page p bs) [(0, [9, 9])] (cow_heap, ?w, [?r])") auto
  have p: "img_page (arc_abs cow_heap ?w) 0 \<noteq> None" by (simp add: arc_abs_pages)
  have w1: "arc_write_page 0 [9, 9] (cow_heap, ?w, [?r]) = (h', im', others')" using w by simp
  have "arc_abs h' im' = set_page 0 [9, 9] (arc_abs cow_heap ?w)" "others' = [?r]"
    using arc_abs_write [OF ok _ w1] arc_write_many [OF ok w] by auto
  moreover from this have "img_page (arc_abs h' im') 0 \<noteq> img_page (arc_abs cow_heap ?r) 0"
    by (simp add: page_set_page arc_abs_pages cow_heap_def)
  ultimately have "unat (0 :: u32) \<in> set (arc_changed_pages im' ?r)" "others' = [?r]"
    using changed_pages_complete [OF ok _ w, of ?r 0] by simp_all
  with w \<open>others' = [?r]\<close> show ?thesis by auto
qed

subsection \<open>The flat file and its pages\<close>

lemma less_length_chunks: "0 < n \<Longrightarrow> i < length (chunks n xs) \<longleftrightarrow> i * n < length xs"
proof (induction n xs arbitrary: i rule: chunks.induct)
  case (1 n xs)
  show ?case
  proof (cases i)
    case 0
    with 1(2) show ?thesis by (subst chunks.simps) auto
  next
    case (Suc j)
    have "xs \<noteq> [] \<Longrightarrow> j < length (chunks n (drop n xs)) \<longleftrightarrow> j * n < length xs - n"
      using 1 by simp
    with Suc 1(2) show ?thesis by (subst chunks.simps) auto
  qed
qed

lemma nth_chunks: "0 < n \<Longrightarrow> i < length (chunks n xs) \<Longrightarrow> chunks n xs ! i = take n (drop (i * n) xs)"
proof (induction n xs arbitrary: i rule: chunks.induct)
  case (1 n xs)
  then have ne: "xs \<noteq> []" by (auto simp: chunks.simps [of n xs])
  show ?case
  proof (cases i)
    case 0
    with 1 ne show ?thesis by (simp add: chunks.simps [of n xs])
  next
    case (Suc j)
    have "j < length (chunks n (drop n xs))"
      using 1(2,3) ne Suc by (simp add: chunks.simps [of n xs])
    then show ?thesis using 1(1) [of j] 1(2) ne Suc
      by (simp add: chunks.simps [of n xs] add.commute)
  qed
qed

text \<open>Splitting a file into pages loses nothing: for every page size the pages put together
  are the file, a trailing partial page included, and page \<^verbatim>\<open>p\<close> holds the bytes from
  \<^verbatim>\<open>p * page_size\<close> on.\<close>

lemma from_bytes_roundtrip:
  assumes "0 < ps"
  shows "to_bytes (from_bytes bytes ps) = bytes \<and>
    byte_len (from_bytes bytes ps) = length bytes \<and>
    (\<forall>p. img_page (from_bytes bytes ps) p =
       (if unat p * ps < length bytes then Some (take ps (drop (unat p * ps) bytes)) else None))"
proof -
  have "concat (chunks ps bytes) = bytes" using assms by (rule concat_chunks)
  moreover from this have "sum_list (map length (chunks ps bytes)) = length bytes"
    by (metis length_concat)
  ultimately show ?thesis
    using assms nth_chunks [OF assms, of _ bytes] less_length_chunks [OF assms, of _ bytes]
    by (auto simp: from_bytes_def to_bytes_def byte_len_def img_page_def)
qed

end
