(* ===== verification/Cch.thy ===== *)
theory Cch
  imports Ordered_Map Image
begin

text \<open>
  The page cache of \<^verbatim>\<open>crates/cch/src/lib.rs\<close>: buffers over a file image, the careful-write
  precedence graph over the dirty buffers, the recursive drain of \<^verbatim>\<open>write_buffer\<close>, the flush, and
  the careful-write plan of a file transition. A recursion of the code that might not end is a
  \<^verbatim>\<open>partial_function\<close>, so that None is a run that does not return; the panics of \<^verbatim>\<open>mark\<close> and of
  slices out of range are None too.
\<close>

subsection \<open>Ordered sets\<close>

text \<open>\<^verbatim>\<open>BTreeSet<u32>\<close> as an ascending list.\<close>

type_synonym u32_set = "u32 list"

fun bs_insert :: "u32 \<Rightarrow> u32_set \<Rightarrow> u32_set" where
  "bs_insert x [] = [x]"
| "bs_insert x (y # ys) = (if x < y then x # y # ys else if x = y then y # ys else y # bs_insert x ys)"

lemma set_bs_insert [simp]: "set (bs_insert x s) = insert x (set s)"
  by (induction s) auto

lemma sorted_bs_insert: "sorted_wrt (<) s \<Longrightarrow> sorted_wrt (<) (bs_insert x s)"
  by (induction s) auto

lemma length_bs_insert: "length (bs_insert x s) \<le> Suc (length s)"
  by (induction s) auto

subsection \<open>The cache\<close>

definition RELATED_LIMIT :: nat where "RELATED_LIMIT = 1000"

record buffer =
  buf_data :: "byte list"
  buf_dirty :: bool

record cache =
  cch_page_size :: nat
  cch_image :: "byte list"
  cch_buffers :: "(u32, buffer) bt_map"
  cch_higher :: "(u32, u32_set) bt_map"
  cch_lower :: "(u32, u32_set) bt_map"
  cch_writes :: "u32 list"

definition cch_attach :: "byte list \<Rightarrow> nat \<Rightarrow> cache" where
  "cch_attach img page_size = \<lparr>cch_page_size = page_size, cch_image = img, cch_buffers = [],
     cch_higher = [], cch_lower = [], cch_writes = []\<rparr>"

definition fetch :: "u32 \<Rightarrow> cache \<Rightarrow> byte list \<times> cache" where
  "fetch page c =
     (case bt_get (cch_buffers c) page of
        Some b \<Rightarrow> (buf_data b, c)
      | None \<Rightarrow>
          let ps = cch_page_size c; start = unat page * ps;
              src = take ps (drop start (cch_image c));
              data = splice (replicate ps 0) 0 src
          in (data, c\<lparr>cch_buffers := bt_put page \<lparr>buf_data = data, buf_dirty = False\<rparr> (cch_buffers c)\<rparr>))"

definition mark :: "u32 \<Rightarrow> byte list \<Rightarrow> cache \<Rightarrow> cache run" where
  "mark page bytes c =
     (if length bytes \<noteq> cch_page_size c then Panic
      else let c1 = snd (fetch page c) in
        Ret (c1\<lparr>cch_buffers := bt_put page \<lparr>buf_data = bytes, buf_dirty = True\<rparr> (cch_buffers c1)\<rparr>))"

definition is_dirty :: "cache \<Rightarrow> u32 \<Rightarrow> bool" where
  "is_dirty c page = (case bt_get (cch_buffers c) page of None \<Rightarrow> False | Some b \<Rightarrow> buf_dirty b)"

definition adjacent :: "(u32, u32_set) bt_map \<Rightarrow> u32 \<Rightarrow> u32_set" where
  "adjacent g page = (case bt_get g page of None \<Rightarrow> [] | Some s \<Rightarrow> s)"

definition higher_of :: "cache \<Rightarrow> u32 \<Rightarrow> u32_set" where
  "higher_of c page = adjacent (cch_higher c) page"

definition lower_of :: "cache \<Rightarrow> u32 \<Rightarrow> u32_set" where
  "lower_of c page = adjacent (cch_lower c) page"

text \<open>The bounded search of \<^verbatim>\<open>related\<close>; the stack is written top first.\<close>

fun related_loop :: "cache \<Rightarrow> u32 \<Rightarrow> nat \<Rightarrow> u32 list \<Rightarrow> u32 list \<Rightarrow> bool" where
  "related_loop c target budget [] seen = False"
| "related_loop c target 0 (p # stack) seen = True"
| "related_loop c target (Suc budget) (p # stack) seen =
     (if p = target then True
      else if p \<in> set seen then related_loop c target budget stack seen
      else related_loop c target budget (rev (higher_of c p) @ stack) (bs_insert p seen))"

definition related :: "cache \<Rightarrow> u32 \<Rightarrow> u32 \<Rightarrow> nat \<Rightarrow> bool" where
  "related c start target budget = related_loop c target budget [start] []"

text \<open>\<^verbatim>\<open>clear_precedence\<close> and the physical write of a buffer.\<close>

definition drop_higher :: "u32 \<Rightarrow> u32 \<Rightarrow> (u32, u32_set) bt_map \<Rightarrow> (u32, u32_set) bt_map" where
  "drop_higher page low higher =
     (case bt_get higher low of
        None \<Rightarrow> higher
      | Some s \<Rightarrow>
          let s' = filter (\<lambda>x. x \<noteq> page) s in
          if s' = [] then bt_del low higher else bt_put low s' higher)"

definition clear_precedence :: "u32 \<Rightarrow> cache \<Rightarrow> cache" where
  "clear_precedence page c =
     (case bt_get (cch_lower c) page of
        None \<Rightarrow> c
      | Some lows \<Rightarrow> c\<lparr>cch_lower := bt_del page (cch_lower c),
                       cch_higher := fold (drop_higher page) lows (cch_higher c)\<rparr>)"

definition write_image :: "nat \<Rightarrow> u32 \<Rightarrow> byte list \<Rightarrow> byte list \<Rightarrow> byte list" where
  "write_image ps page data img =
     (let start = unat page * ps;
          img1 = (if length img < start + ps then vec_resize img (start + ps) 0 else img)
      in splice img1 start data)"

definition write_page :: "u32 \<Rightarrow> buffer \<Rightarrow> cache \<Rightarrow> cache" where
  "write_page page b c =
     clear_precedence page
       (c\<lparr>cch_image := write_image (cch_page_size c) page (buf_data b) (cch_image c),
          cch_buffers := bt_put page (b\<lparr>buf_dirty := False\<rparr>) (cch_buffers c),
          cch_writes := cch_writes c @ [page]\<rparr>)"

text \<open>
  \<^verbatim>\<open>write_buffer\<close>: while a page must go first, write the lowest one; then write the page if it is
  dirty. The loop body followed by the rest of the loop is the function itself.
\<close>

partial_function (option) write_buffer :: "u32 \<Rightarrow> cache \<Rightarrow> cache option" where
  "write_buffer page c =
     (case higher_of c page of
        first # _ \<Rightarrow> Option.bind (write_buffer first c) (write_buffer page)
      | [] \<Rightarrow>
          (case bt_get (cch_buffers c) page of
             Some b \<Rightarrow> Some (if buf_dirty b then write_page page b c else c)
           | None \<Rightarrow> Some c))"

definition precedence :: "u32 \<Rightarrow> u32 \<Rightarrow> cache \<Rightarrow> cache option" where
  "precedence window first c =
     (if window = first then Some c
      else if \<not> is_dirty c first then Some c
      else if first \<in> set (higher_of c window) then Some c
      else if related c first window RELATED_LIMIT then write_buffer window c
      else Some (c\<lparr>cch_higher := bt_put window (bs_insert first (higher_of c window)) (cch_higher c),
                   cch_lower := bt_put first (bs_insert window (lower_of c first)) (cch_lower c)\<rparr>))"

fun fold_opt :: "('a \<Rightarrow> 's \<Rightarrow> 's option) \<Rightarrow> 'a list \<Rightarrow> 's \<Rightarrow> 's option" where
  "fold_opt f [] s = Some s"
| "fold_opt f (x # xs) s = Option.bind (f x s) (fold_opt f xs)"

definition flush :: "cache \<Rightarrow> cache option" where
  "flush c = fold_opt write_buffer (filter (is_dirty c) (bt_keys (cch_buffers c))) c"

subsection \<open>The careful-write plan\<close>

definition cch_changed_pages :: "byte list \<Rightarrow> byte list \<Rightarrow> nat \<Rightarrow> u32 list" where
  "cch_changed_pages before after page_size =
     map of_nat (filter (\<lambda>p.
        let start = p * page_size;
            a = (case get_range after start (min (start + page_size) (length after)) of None \<Rightarrow> [] | Some x \<Rightarrow> x);
            b = (case get_range before start (min (start + page_size) (length before)) of None \<Rightarrow> [] | Some x \<Rightarrow> x);
            same = (length a = length b \<and> a = b) \<or> (b = [] \<and> (\<forall>x \<in> set a. x = 0))
        in \<not> same) [0..<(length after + page_size - 1) div page_size])"

definition image_page_type :: "byte list \<Rightarrow> nat \<Rightarrow> u32 \<Rightarrow> byte" where
  "image_page_type img page_size page =
     (if unat page * page_size < length img then img ! (unat page * page_size) else 0)"

definition mark_typed ::
    "nat \<Rightarrow> (u32 \<Rightarrow> byte) \<Rightarrow> (u32 \<Rightarrow> byte list) \<Rightarrow> u32 \<Rightarrow> cache \<times> (byte, u32 list) bt_map
      \<Rightarrow> (cache \<times> (byte, u32 list) bt_map) option" where
  "mark_typed page_size type_of page_bytes p acc =
     (case acc of (c, by_type) \<Rightarrow>
        do {
          c' \<leftarrow> mark p (vec_resize (page_bytes p) page_size 0) c;
          Ret (c', bt_put (type_of p)
                 ((case bt_get by_type (type_of p) of None \<Rightarrow> [] | Some ps \<Rightarrow> ps) @ [p]) by_type)
        })"

text \<open>The edges of the plan, in the order the loops establish them.\<close>

definition plan_edges :: "(u32 \<Rightarrow> byte) \<Rightarrow> (byte, u32 list) bt_map \<Rightarrow> u32 list \<Rightarrow> (u32 \<times> u32) list" where
  "plan_edges type_of by_type changed =
     (let of_type = (\<lambda>t. case bt_get by_type t of None \<Rightarrow> [] | Some ps \<Rightarrow> ps);
          header = of_type 1; pip = of_type 2; tip = of_type 3; pointer = of_type 4;
          data = of_type 5; root = of_type 6; btree = of_type 7; blob = of_type 8
      in List.product pointer data @ List.product root btree @ List.product btree data @
         List.product data blob @ List.product pip data @ List.product pointer pip @
         concat (map (\<lambda>h. map (\<lambda>p. (p, h)) (filter (\<lambda>p. type_of p \<noteq> 1) changed)) header) @
         concat (map (\<lambda>t. map (\<lambda>p. (t, p)) (filter (\<lambda>p. type_of p \<noteq> 3) changed)) tip))"

definition build_plan ::
    "cache \<Rightarrow> u32 list \<Rightarrow> nat \<Rightarrow> (u32 \<Rightarrow> byte) \<Rightarrow> (u32 \<Rightarrow> byte list) \<Rightarrow> cache option" where
  "build_plan c changed page_size type_of page_bytes =
     do {
       (c1, by_type) \<leftarrow> fold_opt (mark_typed page_size type_of page_bytes) changed (c, []);
       c2 \<leftarrow> fold_opt (\<lambda>(window, first). precedence window first) (plan_edges type_of by_type changed) c1;
       flush c2
     }"

definition careful_plan :: "byte list \<Rightarrow> byte list \<Rightarrow> nat \<Rightarrow> cache option" where
  "careful_plan before after page_size =
     build_plan (cch_attach before page_size) (cch_changed_pages before after page_size) page_size
       (image_page_type after page_size)
       (\<lambda>p. let start = unat p * page_size in
          (case get_range after start (min (start + page_size) (length after)) of None \<Rightarrow> [] | Some x \<Rightarrow> x))"

definition careful_plan_paged :: "image \<Rightarrow> u32 list \<Rightarrow> cache option" where
  "careful_plan_paged after changed =
     build_plan (cch_attach [] (img_page_size after)) changed (img_page_size after)
       (\<lambda>p. case img_page after p of Some (b # _) \<Rightarrow> b | _ \<Rightarrow> 0)
       (\<lambda>p. case img_page after p of Some b \<Rightarrow> b | None \<Rightarrow> [])"

text \<open>The file after the first k writes.\<close>

definition prefix_write :: "byte list \<Rightarrow> nat \<Rightarrow> u32 \<Rightarrow> byte list \<Rightarrow> byte list run" where
  "prefix_write after page_size p out =
     (let start = unat p * page_size;
          out1 = (if length out < start + page_size then vec_resize out (start + page_size) 0 else out)
      in do {
        src \<leftarrow> rs_slice after start (min (start + page_size) (length after));
        Ret (splice out1 start (src @ replicate (page_size - length src) 0))
      })"

definition crash_prefix :: "byte list \<Rightarrow> byte list \<Rightarrow> nat \<Rightarrow> u32 list \<Rightarrow> nat \<Rightarrow> byte list run" where
  "crash_prefix before after page_size order k =
     (if k \<le> length order then fold_opt (prefix_write after page_size) (take k order) before else Panic)"

end
