(* ===== verification/Cch_Flush.thy ===== *)
theory Cch_Flush
  imports Cch
begin

text \<open>
  The precedence graph is load-bearing: while its edges lead to dirty pages and form no cycle,
  \<^verbatim>\<open>write_buffer\<close> and \<^verbatim>\<open>flush\<close> return, write every page they owe exactly once, and write no page
  before the pages its edges name. The operations of the cache keep the graph in that shape.
\<close>

subsection \<open>The graph and its invariant\<close>

definition edges :: "cache \<Rightarrow> (u32 \<times> u32) set" where
  "edges c = {(w, f). f \<in> set (higher_of c w)}"

definition dirty :: "cache \<Rightarrow> u32 set" where
  "dirty c = {p. is_dirty c p}"

definition page_data :: "cache \<Rightarrow> u32 \<Rightarrow> byte list" where
  "page_data c p = (case bt_get (cch_buffers c) p of None \<Rightarrow> [] | Some b \<Rightarrow> buf_data b)"

definition cache_inv :: "cache \<Rightarrow> bool" where
  "cache_inv c \<longleftrightarrow>
     (\<forall>w f. w \<in> set (lower_of c f) \<longleftrightarrow> (w, f) \<in> edges c) \<and>
     (\<forall>w f. (w, f) \<in> edges c \<longrightarrow> f \<in> dirty c) \<and> acyclic (edges c)"

text \<open>A sequence of writes that a drain performs: each page once, none before its predecessors,
  exactly the edges into written pages come down, and the image receives the buffers' bytes.\<close>

definition in_order :: "(u32 \<times> u32) set \<Rightarrow> u32 list \<Rightarrow> bool" where
  "in_order E ws \<longleftrightarrow> (\<forall>i < length ws. \<forall>f. (ws ! i, f) \<in> E \<longrightarrow> f \<in> set (take i ws))"

definition drained :: "cache \<Rightarrow> u32 list \<Rightarrow> cache \<Rightarrow> bool" where
  "drained c ws c' \<longleftrightarrow>
     cch_writes c' = cch_writes c @ ws \<and> distinct ws \<and> set ws \<subseteq> dirty c \<and>
     dirty c' = dirty c - set ws \<and> edges c' = {(w, f). (w, f) \<in> edges c \<and> f \<notin> set ws} \<and>
     in_order (edges c) ws \<and> cch_page_size c' = cch_page_size c \<and> page_data c' = page_data c \<and>
     cch_image c' = fold (\<lambda>p. write_image (cch_page_size c) p (page_data c p)) ws (cch_image c)"

lemma drained_nil [simp]: "drained c [] c"
  by (auto simp: drained_def in_order_def)

lemma in_order_append:
  assumes "in_order E us" "in_order {(w, f). (w, f) \<in> E \<and> f \<notin> set us} vs"
  shows "in_order E (us @ vs)"
  unfolding in_order_def
proof (intro allI impI)
  fix i f assume i: "i < length (us @ vs)" and e: "((us @ vs) ! i, f) \<in> E"
  show "f \<in> set (take i (us @ vs))"
  proof (cases "i < length us")
    case True
    then show ?thesis using assms(1) e by (auto simp: in_order_def nth_append)
  next
    case False
    then have "i = length us + (i - length us)" "i - length us < length vs" using i by auto
    then obtain j where j: "i = length us + j" "j < length vs" by blast
    then show ?thesis using assms(2) e by (cases "f \<in> set us") (auto simp: in_order_def nth_append)
  qed
qed

lemma drained_trans:
  assumes "drained c us c1" "drained c1 vs c2"
  shows "drained c (us @ vs) c2"
  using assms in_order_append [of "edges c" us vs] unfolding drained_def by auto

subsection \<open>One physical write\<close>

lemma adjacent_drop_higher:
  "set (adjacent (drop_higher page low h) w) = set (adjacent h w) - (if w = low then {page} else {})"
  by (auto simp: adjacent_def drop_higher_def Let_def filter_empty_conv split: option.splits)

lemma adjacent_fold_drop:
  "set (adjacent (fold (drop_higher page) lows h) w) = set (adjacent h w) - (if w \<in> set lows then {page} else {})"
  by (induction lows arbitrary: h) (simp_all add: adjacent_drop_higher)

lemma higher_of_empty: "higher_of c p = [] \<longleftrightarrow> (\<forall>f. (p, f) \<notin> edges c)"
  by (auto simp: edges_def)

lemma clear_precedence_graph:
  assumes "\<forall>w f. w \<in> set (lower_of c f) \<longleftrightarrow> (w, f) \<in> edges c"
  shows "edges (clear_precedence page c) = {(w, f). (w, f) \<in> edges c \<and> f \<noteq> page}"
    and "lower_of (clear_precedence page c) f = (if f = page then [] else lower_of c f)"
proof -
  show "lower_of (clear_precedence page c) f = (if f = page then [] else lower_of c f)"
    by (simp add: clear_precedence_def lower_of_def adjacent_def split: option.split)
  show "edges (clear_precedence page c) = {(w, f). (w, f) \<in> edges c \<and> f \<noteq> page}"
  proof (cases "bt_get (cch_lower c) page")
    case None
    then have "lower_of c page = []" by (simp add: lower_of_def adjacent_def)
    then have "(w, page) \<notin> edges c" for w using assms by (metis empty_iff list.set(1))
    then show ?thesis using None by (auto simp: clear_precedence_def)
  next
    case (Some lows)
    then have "lower_of c page = lows" by (simp add: lower_of_def adjacent_def)
    then have "w \<in> set lows \<longleftrightarrow> (w, page) \<in> edges c" for w using assms by blast
    then have "set (higher_of (clear_precedence page c) w) = set (higher_of c w) - {page}" for w
      using Some by (auto simp: clear_precedence_def higher_of_def adjacent_fold_drop edges_def)
    then show ?thesis by (auto simp: edges_def)
  qed
qed

lemma clear_precedence_sel [simp]:
  "cch_writes (clear_precedence p c) = cch_writes c" "cch_buffers (clear_precedence p c) = cch_buffers c"
  "cch_image (clear_precedence p c) = cch_image c" "cch_page_size (clear_precedence p c) = cch_page_size c"
  by (simp_all add: clear_precedence_def split: option.split)

lemma write_page_drained:
  assumes inv: "cache_inv c" and b: "bt_get (cch_buffers c) page = Some b" "buf_dirty b"
    and free: "higher_of c page = []"
  shows "drained c [page] (write_page page b c)" "cache_inv (write_page page b c)"
proof -
  let ?c0 = "c\<lparr>cch_image := write_image (cch_page_size c) page (buf_data b) (cch_image c),
          cch_buffers := bt_put page (b\<lparr>buf_dirty := False\<rparr>) (cch_buffers c), cch_writes := cch_writes c @ [page]\<rparr>"
  have same: "edges ?c0 = edges c" "lower_of ?c0 = lower_of c"
    by (simp_all add: edges_def higher_of_def lower_of_def fun_eq_iff)
  have conv: "\<forall>w f. w \<in> set (lower_of ?c0 f) \<longleftrightarrow> (w, f) \<in> edges ?c0"
    using inv by (simp add: cache_inv_def same)
  note graph = clear_precedence_graph [OF conv, of page, unfolded same, folded write_page_def]
  have d: "dirty (write_page page b c) = dirty c - {page}"
    by (auto simp: dirty_def is_dirty_def write_page_def)
  have "page \<in> dirty c" using b by (simp add: dirty_def is_dirty_def)
  moreover have "(page, f) \<notin> edges c" for f using free by (simp add: edges_def)
  moreover have "page_data (write_page page b c) = page_data c"
    using b(1) by (auto simp: page_data_def write_page_def fun_eq_iff)
  moreover have "page_data c page = buf_data b" using b(1) by (simp add: page_data_def)
  ultimately show "drained c [page] (write_page page b c)"
    using d graph(1) by (simp add: drained_def in_order_def) (simp add: write_page_def)
  show "cache_inv (write_page page b c)"
    using inv graph d unfolding cache_inv_def by (auto intro: acyclic_subset)
qed

subsection \<open>The recursive drain\<close>

lemma write_buffer_spec:
  "cache_inv c \<Longrightarrow> \<exists>ws c'. write_buffer page c = Some c' \<and> drained c ws c' \<and> cache_inv c'
     \<and> page \<notin> dirty c' \<and> higher_of c' page = []"
proof (induction "card (dirty c)" arbitrary: c page rule: less_induct)
  case less
  note fewer = less.hyps
  have "wf ((edges c)\<inverse>)"
    using less.prems finite_acyclic_wf_converse [of "edges c"] by (simp add: cache_inv_def)
  then show ?case
  proof (induction page rule: wf_induct_rule)
    case (less page)
    show ?case
    proof (cases "higher_of c page")
      case Nil
      show ?thesis
      proof (cases "bt_get (cch_buffers c) page")
        case None
        then show ?thesis
          using Nil \<open>cache_inv c\<close>
          by (intro exI [of _ "[]"] exI [of _ c]) (simp add: write_buffer.simps dirty_def is_dirty_def)
      next
        case (Some b)
        show ?thesis
        proof (cases "buf_dirty b")
          case False
          then show ?thesis
            using Nil Some \<open>cache_inv c\<close>
            by (intro exI [of _ "[]"] exI [of _ c]) (simp add: write_buffer.simps dirty_def is_dirty_def)
        next
          case True
          note w = write_page_drained [OF \<open>cache_inv c\<close> Some True Nil]
          have "higher_of (write_page page b c) page = []"
            using w(1) Nil by (simp add: higher_of_empty drained_def)
          moreover have "page \<notin> dirty (write_page page b c)" using w(1) by (simp add: drained_def)
          ultimately show ?thesis
            using Nil Some True w
            by (intro exI [of _ "[page]"] exI [of _ "write_page page b c"]) (simp add: write_buffer.simps)
        qed
      qed
    next
      case (Cons first rest)
      then have e: "(page, first) \<in> edges c" by (simp add: edges_def)
      then obtain us c1 where 1: "write_buffer first c = Some c1" "drained c us c1" "cache_inv c1" "first \<notin> dirty c1"
        using less.IH by blast
      have "first \<in> dirty c" using e \<open>cache_inv c\<close> by (simp add: cache_inv_def)
      then have "dirty c1 \<subset> dirty c" using 1(2,4) by (auto simp: drained_def)
      then have "card (dirty c1) < card (dirty c)" by (intro psubset_card_mono) simp_all
      then obtain vs c2 where 2: "write_buffer page c1 = Some c2" "drained c1 vs c2" "cache_inv c2"
        "page \<notin> dirty c2" "higher_of c2 page = []"
        using fewer 1(3) by blast
      have "write_buffer page c = Some c2" using Cons 1(1) 2(1) by (subst write_buffer.simps) simp
      then show ?thesis using drained_trans [OF 1(2) 2(2)] 2 by blast
    qed
  qed
qed

lemma write_buffers_spec:
  "cache_inv c \<Longrightarrow> \<exists>ws c'. fold_opt write_buffer ps c = Some c' \<and> drained c ws c' \<and> cache_inv c'
     \<and> set ps \<inter> dirty c' = {}"
proof (induction ps arbitrary: c)
  case Nil
  then show ?case by (intro exI [of _ "[]"] exI [of _ c]) simp
next
  case (Cons p ps)
  obtain us c1 where 1: "write_buffer p c = Some c1" "drained c us c1" "cache_inv c1" "p \<notin> dirty c1"
    using write_buffer_spec [OF Cons.prems] by blast
  obtain vs c2 where 2: "fold_opt write_buffer ps c1 = Some c2" "drained c1 vs c2" "cache_inv c2" "set ps \<inter> dirty c2 = {}"
    using Cons.IH [OF 1(3)] by blast
  have "p \<notin> dirty c2" using 1(4) 2(2) by (auto simp: drained_def)
  then show ?case using 1 2 drained_trans [OF 1(2) 2(2)] by (intro exI [of _ "us @ vs"] exI [of _ c2]) simp
qed

lemma flush_spec:
  assumes "cache_inv c"
  shows "\<exists>ws c'. flush c = Some c' \<and> drained c ws c' \<and> cache_inv c' \<and> set ws = dirty c \<and> dirty c' = {} \<and> edges c' = {}"
proof -
  let ?ps = "filter (is_dirty c) (bt_keys (cch_buffers c))"
  have all: "set ?ps = dirty c"
    by (auto simp: dirty_def is_dirty_def split: option.splits)
  obtain ws c' where w: "fold_opt write_buffer ?ps c = Some c'" "drained c ws c'" "cache_inv c'" "set ?ps \<inter> dirty c' = {}"
    using write_buffers_spec [OF assms] by blast
  then have "set ws = dirty c" "dirty c' = {}" unfolding all drained_def by auto
  moreover have "edges c' = {}" using w(3) \<open>dirty c' = {}\<close> by (auto simp: cache_inv_def)
  ultimately show ?thesis using w by (auto simp: flush_def)
qed

end
