(* ===== verification/Cch_Plan.thy ===== *)
theory Cch_Plan
  imports Cch_Flush
begin

text \<open>
  The bounded reachability test, precedence edges, the caches a client can reach, and the
  careful-write plan: within the search bound the plan writes every changed page once, content
  before reference and the commit flip last.
\<close>

subsection \<open>The bounded search\<close>

text \<open>A negative answer is always right.\<close>

lemma related_loop_no:
  assumes "\<not> related_loop c target budget stack seen"
    and "\<forall>v \<in> set seen. edges c `` {v} \<subseteq> set seen \<union> set stack" "target \<notin> set seen"
  shows "\<forall>v \<in> set seen \<union> set stack. (v, target) \<notin> (edges c)\<^sup>*"
  using assms
proof (induction c target budget stack seen rule: related_loop.induct)
  case (1 c target budget seen)
  have "y \<in> set seen" if "(v, y) \<in> (edges c)\<^sup>*" "v \<in> set seen" for v y
    using that by (induction rule: rtrancl_induct) (use 1(2) in auto)
  then show ?case using 1(3) by auto
next
  case (2 c target p stack seen)
  then show ?case by simp
next
  case (3 c target budget p stack seen)
  have "p \<noteq> target" using 3(3) by (auto split: if_splits)
  show ?case
  proof (cases "p \<in> set seen")
    case True
    then have "\<forall>v \<in> set seen \<union> set stack. (v, target) \<notin> (edges c)\<^sup>*"
      using 3(1) [OF \<open>p \<noteq> target\<close> True] 3(3-5) \<open>p \<noteq> target\<close> by auto
    then show ?thesis using True by auto
  next
    case False
    have "edges c `` {p} = set (higher_of c p)" by (auto simp: edges_def)
    then have "\<forall>v \<in> set (bs_insert p seen) \<union> set (rev (higher_of c p) @ stack). (v, target) \<notin> (edges c)\<^sup>*"
      using 3(3-5) \<open>p \<noteq> target\<close> False by (intro 3(2)) auto
    then show ?thesis by auto
  qed
qed

lemma related_no: "\<not> related c start target budget \<Longrightarrow> (start, target) \<notin> (edges c)\<^sup>*"
  using related_loop_no [of c target budget "[start]" "[]"] by (simp add: related_def)

text \<open>A positive answer is right when the budget covers the stack and the unexpanded edges.\<close>

definition edge_load :: "cache \<Rightarrow> u32 set \<Rightarrow> nat" where
  "edge_load c S = (\<Sum>v \<in> S. length (higher_of c v))"

lemma related_loop_yes:
  assumes "related_loop c target budget stack seen" "length stack + edge_load c (- set seen) \<le> budget"
  shows "\<exists>v \<in> set stack. (v, target) \<in> (edges c)\<^sup>*"
  using assms
proof (induction c target budget stack seen rule: related_loop.induct)
  case (3 c target budget p stack seen)
  show ?case
  proof (cases "p = target")
    case False
    note p = False
    show ?thesis
    proof (cases "p \<in> set seen")
      case True
      then have "\<exists>v \<in> set stack. (v, target) \<in> (edges c)\<^sup>*"
        using 3(1) [OF p True] 3(3,4) p by simp
      then show ?thesis by auto
    next
      case False
      have "- set seen = insert p (- set (bs_insert p seen))" using False by auto
      then have "edge_load c (- set seen) = length (higher_of c p) + edge_load c (- set (bs_insert p seen))"
        by (simp add: edge_load_def)
      then have "\<exists>v \<in> set (rev (higher_of c p) @ stack). (v, target) \<in> (edges c)\<^sup>*"
        using 3(3,4) p False by (intro 3(2)) simp_all
      then show ?thesis by (auto simp: edges_def intro: converse_rtrancl_into_rtrancl)
    qed
  qed simp
qed simp_all

lemma related_exact:
  assumes "edge_load c UNIV < budget"
  shows "related c start target budget \<longleftrightarrow> (start, target) \<in> (edges c)\<^sup>*"
  using related_no [of c start target budget] related_loop_yes [of c target budget "[start]" "[]"] assms
  by (auto simp: related_def)

text \<open>An exhausted budget answers yes.\<close>

lemma related_loop_exhausted: "budget < length stack \<Longrightarrow> related_loop c target budget stack seen"
proof (induction c target budget stack seen rule: related_loop.induct)
  case (3 c target budget p stack seen)
  then show ?case by (cases "p = target"; cases "p \<in> set seen") simp_all
qed simp_all

subsection \<open>Precedence edges\<close>

lemma precedence_edge_inv:
  assumes inv: "cache_inv c" and "is_dirty c first" "(first, window) \<notin> (edges c)\<^sup>*"
    and c': "c' = c\<lparr>cch_higher := bt_put window (bs_insert first (higher_of c window)) (cch_higher c),
                    cch_lower := bt_put first (bs_insert window (lower_of c first)) (cch_lower c)\<rparr>"
  shows "cache_inv c'" "edges c' = insert (window, first) (edges c)" "dirty c' = dirty c"
proof -
  have h: "higher_of c' w = (if w = window then bs_insert first (higher_of c window) else higher_of c w)" for w
    by (simp add: c' higher_of_def adjacent_def)
  have l: "lower_of c' f = (if f = first then bs_insert window (lower_of c first) else lower_of c f)" for f
    by (simp add: c' lower_of_def adjacent_def)
  show e: "edges c' = insert (window, first) (edges c)"
    by (auto simp: edges_def h split: if_splits)
  show d: "dirty c' = dirty c" by (simp add: dirty_def is_dirty_def c')
  have "w \<in> set (lower_of c' f) \<longleftrightarrow> (w, f) \<in> edges c'" for w f
    using inv by (auto simp: cache_inv_def e l)
  moreover have "acyclic (edges c')" using inv assms(3) by (simp add: e acyclic_insert cache_inv_def)
  ultimately show "cache_inv c'"
    using inv assms(2) unfolding cache_inv_def e d by (auto simp: dirty_def)
qed

lemma precedence_spec:
  assumes "cache_inv c"
  shows "\<exists>c'. precedence window first c = Some c' \<and> cache_inv c' \<and>
    (drained c [] c' \<or> (\<exists>ws. drained c ws c' \<and> window \<notin> dirty c') \<or>
     edges c' = insert (window, first) (edges c) \<and> dirty c' = dirty c \<and> cch_writes c' = cch_writes c)"
proof (cases "window = first \<or> \<not> is_dirty c first \<or> first \<in> set (higher_of c window)")
  case True
  then have "precedence window first c = Some c" by (auto simp: precedence_def)
  then show ?thesis using assms by simp
next
  case False
  show ?thesis
  proof (cases "related c first window RELATED_LIMIT")
    case True
    then show ?thesis
      using False write_buffer_spec [OF assms, of window] by (auto simp: precedence_def)
  next
    case no: False
    note e = precedence_edge_inv [OF assms _ related_no [OF no] refl]
    show ?thesis using False no e by (auto simp: precedence_def)
  qed
qed

subsection \<open>The caches a client can reach\<close>

inductive cch_reachable :: "cache \<Rightarrow> bool" where
  cch_attach: "cch_reachable (cch_attach img ps)"
| cch_fetch: "cch_reachable c \<Longrightarrow> cch_reachable (snd (fetch p c))"
| cch_mark: "cch_reachable c \<Longrightarrow> mark p bytes c = Ret c' \<Longrightarrow> cch_reachable c'"
| cch_precedence: "cch_reachable c \<Longrightarrow> precedence w f c = Some c' \<Longrightarrow> cch_reachable c'"
| cch_write: "cch_reachable c \<Longrightarrow> write_buffer p c = Some c' \<Longrightarrow> cch_reachable c'"
| cch_flush: "cch_reachable c \<Longrightarrow> flush c = Some c' \<Longrightarrow> cch_reachable c'"

lemma fetch_graph [simp]:
  "cch_higher (snd (fetch p c)) = cch_higher c" "cch_lower (snd (fetch p c)) = cch_lower c"
  by (simp_all add: fetch_def Let_def split: option.split)

lemma fetch_sel [simp]:
  "higher_of (snd (fetch p c)) = higher_of c" "lower_of (snd (fetch p c)) = lower_of c"
  "edges (snd (fetch p c)) = edges c" "dirty (snd (fetch p c)) = dirty c"
  "cch_writes (snd (fetch p c)) = cch_writes c" "cch_page_size (snd (fetch p c)) = cch_page_size c"
  "cch_image (snd (fetch p c)) = cch_image c"
proof -
  have d: "is_dirty (snd (fetch p c)) q = is_dirty c q" for q
    by (auto simp: fetch_def Let_def is_dirty_def split: option.split)
  show "higher_of (snd (fetch p c)) = higher_of c" "lower_of (snd (fetch p c)) = lower_of c"
    "edges (snd (fetch p c)) = edges c" "dirty (snd (fetch p c)) = dirty c"
    by (simp_all add: d higher_of_def lower_of_def edges_def dirty_def fun_eq_iff)
  show "cch_writes (snd (fetch p c)) = cch_writes c" "cch_page_size (snd (fetch p c)) = cch_page_size c"
    "cch_image (snd (fetch p c)) = cch_image c"
    by (simp_all add: fetch_def Let_def split: option.split)
qed

lemma mark_spec:
  assumes "length bytes = cch_page_size c"
  obtains c' where "mark p bytes c = Ret c'" "edges c' = edges c" "lower_of c' = lower_of c"
    "higher_of c' = higher_of c" "dirty c' = insert p (dirty c)" "cch_writes c' = cch_writes c"
    "cch_page_size c' = cch_page_size c" "cch_image c' = cch_image c"
proof -
  let ?c1 = "snd (fetch p c)"
  let ?c' = "?c1\<lparr>cch_buffers := bt_put p \<lparr>buf_data = bytes, buf_dirty = True\<rparr> (cch_buffers ?c1)\<rparr>"
  have "higher_of ?c' = higher_of ?c1" "lower_of ?c' = lower_of ?c1" "edges ?c' = edges ?c1"
    by (simp_all add: higher_of_def lower_of_def edges_def fun_eq_iff)
  moreover have "dirty ?c' = insert p (dirty ?c1)" by (auto simp: dirty_def is_dirty_def)
  ultimately show ?thesis using assms by (intro that [of ?c']) (simp_all add: mark_def Let_def)
qed

lemma mark_inv:
  assumes "cache_inv c" "mark p bytes c = Ret c'"
  shows "cache_inv c'"
proof -
  have "length bytes = cch_page_size c" using assms(2) by (auto simp: mark_def split: if_splits)
  then show ?thesis
    using assms by (elim mark_spec [where p = p]) (auto simp: cache_inv_def)
qed

lemma cch_reachable_inv: "cch_reachable c \<Longrightarrow> cache_inv c"
proof (induction rule: cch_reachable.induct)
  case (cch_attach img ps)
  show ?case
    by (simp add: cache_inv_def cch_attach_def edges_def higher_of_def lower_of_def adjacent_def acyclic_def)
next
  case (cch_fetch c p)
  then show ?case by (simp add: cache_inv_def)
next
  case (cch_mark c p bytes c')
  then show ?case using mark_inv by blast
next
  case (cch_precedence c w f c')
  then show ?case using precedence_spec [of c w f] by auto
next
  case (cch_write c p c')
  then show ?case using write_buffer_spec [of c p] by auto
next
  case (cch_flush c c')
  then show ?case using flush_spec [of c] by auto
qed

subsection \<open>The careful-write plan\<close>

text \<open>
  The ordering rules of the plan by page type: a page of type \<^verbatim>\<open>a\<close> goes out only after the pages
  of type \<^verbatim>\<open>b\<close>. Pointer pages after the data and allocation pages, index roots after B-tree
  pages, B-tree and allocation pages after data pages, data after blobs, everything after the
  header, and the transaction inventory after everything.
\<close>

definition content_first :: "byte \<Rightarrow> byte \<Rightarrow> bool" where
  "content_first a b \<longleftrightarrow>
     a = 4 \<and> b = 5 \<or> a = 6 \<and> b = 7 \<or> a = 7 \<and> b = 5 \<or> a = 5 \<and> b = 8 \<or> a = 2 \<and> b = 5 \<or>
     a = 4 \<and> b = 2 \<or> a \<noteq> 1 \<and> b = 1 \<or> a = 3 \<and> b \<noteq> 3"

definition layer :: "byte \<Rightarrow> nat" where
  "layer t = (if t = 1 then 0 else if t = 8 then 1 else if t = 5 then 2 else if t = 4 \<or> t = 6 then 4
              else if t = 3 then 5 else 3)"

lemma content_first_layer: "content_first a b \<Longrightarrow> layer b < layer a"
  unfolding content_first_def by (elim disjE conjE) (simp_all add: layer_def)

definition of_type :: "(byte, u32 list) bt_map \<Rightarrow> byte \<Rightarrow> u32 list" where
  "of_type m t = (case bt_get m t of None \<Rightarrow> [] | Some ps \<Rightarrow> ps)"

definition plan_rel :: "(u32 \<Rightarrow> byte) \<Rightarrow> u32 list \<Rightarrow> (u32 \<times> u32) set" where
  "plan_rel type_of changed =
     {(w, f). w \<in> set changed \<and> f \<in> set changed \<and> content_first (type_of w) (type_of f)}"

lemma mark_phase:
  assumes "cch_page_size c = ps"
  shows "\<exists>c' m'. fold_opt (mark_typed ps type_of page_bytes) changed (c, m) = Some (c', m') \<and>
    edges c' = edges c \<and> lower_of c' = lower_of c \<and> higher_of c' = higher_of c \<and>
    dirty c' = dirty c \<union> set changed \<and> cch_writes c' = cch_writes c \<and> cch_image c' = cch_image c \<and>
    (\<forall>t. of_type m' t = of_type m t @ filter (\<lambda>p. type_of p = t) changed)"
  using assms
proof (induction changed arbitrary: c m)
  case (Cons p changed)
  have "length (vec_resize (page_bytes p) ps 0) = cch_page_size c" using Cons.prems by simp
  then obtain c1 where c1: "mark p (vec_resize (page_bytes p) ps 0) c = Ret c1" "edges c1 = edges c"
    "lower_of c1 = lower_of c" "higher_of c1 = higher_of c" "dirty c1 = insert p (dirty c)"
    "cch_writes c1 = cch_writes c" "cch_page_size c1 = cch_page_size c" "cch_image c1 = cch_image c"
    by (rule mark_spec)
  let ?m1 = "bt_put (type_of p) (of_type m (type_of p) @ [p]) m"
  have "mark_typed ps type_of page_bytes p (c, m) = Some (c1, ?m1)"
    by (simp add: mark_typed_def c1(1) of_type_def)
  moreover have "of_type ?m1 t = of_type m t @ (if type_of p = t then [p] else [])" for t
    by (simp add: of_type_def)
  ultimately show ?case
    using Cons.IH [of c1 ?m1] Cons.prems c1(2-) by auto
qed simp

lemma plan_edges_rel:
  assumes "\<forall>t. of_type m t = filter (\<lambda>p. type_of p = t) changed"
  shows "set (plan_edges type_of m changed) = plan_rel type_of changed"
proof -
  have "(w, f) \<in> set (plan_edges type_of m changed) \<longleftrightarrow> (w, f) \<in> plan_rel type_of changed" for w f
    unfolding plan_edges_def of_type_def [symmetric] Let_def plan_rel_def content_first_def
    by (simp add: assms image_iff) blast
  then show ?thesis by auto
qed

lemma plan_rel_finite [simp]: "finite (plan_rel type_of changed)"
  by (rule finite_subset [of _ "set changed \<times> set changed"]) (auto simp: plan_rel_def)

text \<open>At most 45 pages: the pairs to order are fewer than the bound of the search.\<close>

lemma plan_rel_card:
  assumes "length changed \<le> 45"
  shows "card (plan_rel type_of changed) < RELATED_LIMIT"
proof -
  let ?E = "plan_rel type_of changed" and ?C = "set changed"
  have le: "card ?C \<le> 45" using card_length [of changed] assms by simp
  have lay: "layer (type_of f) < layer (type_of w)" if "(w, f) \<in> ?E" for w f
    using that content_first_layer by (simp add: plan_rel_def)
  have "(f, w) \<notin> ?E" if "(w, f) \<in> ?E" for w f
    using lay [OF that] lay [of f w] by auto
  then have "?E \<inter> ?E\<inverse> = {}" by auto
  then have "card ?E + card (?E\<inverse>) = card (?E \<union> ?E\<inverse>)" by (subst card_Un_disjoint) simp_all
  also have "\<dots> \<le> card (?C \<times> ?C - Id_on ?C)"
  proof (rule card_mono)
    have "w \<noteq> f" if "(w, f) \<in> ?E" for w f using lay [OF that] by auto
    then show "?E \<union> ?E\<inverse> \<subseteq> ?C \<times> ?C - Id_on ?C" by (auto simp: plan_rel_def)
  qed simp
  also have "\<dots> = card ?C * card ?C - card ?C"
  proof -
    have "Id_on ?C = (\<lambda>x. (x, x)) ` ?C" by auto
    then have "card (Id_on ?C) = card ?C" by (simp add: card_image inj_on_def)
    moreover have "Id_on ?C \<subseteq> ?C \<times> ?C" by auto
    ultimately show ?thesis by (subst card_Diff_subset) (simp_all add: card_cartesian_product finite_subset)
  qed
  also have "\<dots> = card ?C * (card ?C - 1)" by (simp add: diff_mult_distrib2)
  also have "\<dots> \<le> 45 * 44" using le by (intro mult_le_mono) auto
  finally show ?thesis by (simp add: RELATED_LIMIT_def)
qed

lemma edge_load_card:
  assumes "\<forall>w. sorted_wrt (<) (higher_of c w)"
  shows "edge_load c UNIV = card (edges c)"
proof -
  have "edges c = (SIGMA w:UNIV. set (higher_of c w))" by (auto simp: edges_def)
  moreover have "length (higher_of c w) = card (set (higher_of c w))" for w
    using assms by (simp add: distinct_card strict_sorted_iff)
  ultimately show ?thesis by (simp add: edge_load_def card_SigmaI)
qed

lemma path_layer:
  assumes "(a, b) \<in> (edges c)\<^sup>*" "edges c \<subseteq> plan_rel type_of changed"
  shows "layer (type_of b) \<le> layer (type_of a)"
  using assms(1)
proof (induction rule: rtrancl_induct)
  case (step y z)
  then have "content_first (type_of y) (type_of z)" using assms(2) by (auto simp: plan_rel_def)
  then show ?case using step.IH content_first_layer by fastforce
qed simp

lemma edge_phase:
  assumes "cache_inv c" "edges c \<subseteq> plan_rel type_of changed" "set es \<subseteq> plan_rel type_of changed"
    and "dirty c = set changed" "\<forall>w. sorted_wrt (<) (higher_of c w)" "card (plan_rel type_of changed) < RELATED_LIMIT"
  shows "\<exists>c'. fold_opt (\<lambda>(window, first). precedence window first) es c = Some c' \<and> cache_inv c' \<and>
    edges c' = edges c \<union> set es \<and> dirty c' = dirty c \<and> cch_writes c' = cch_writes c"
  using assms(1-5)
proof (induction es arbitrary: c)
  case (Cons e es)
  obtain w f where e: "e = (w, f)" by (cases e)
  then have rel: "w \<in> set changed" "f \<in> set changed" "content_first (type_of w) (type_of f)"
    using Cons.prems(3) by (auto simp: plan_rel_def)
  then have lay: "layer (type_of f) < layer (type_of w)" and "w \<noteq> f" using content_first_layer by auto
  have dirty: "is_dirty c f" using rel(2) Cons.prems(4) by (auto simp: dirty_def)
  have "(f, w) \<notin> (edges c)\<^sup>*" using path_layer [OF _ Cons.prems(2), of f w] lay by auto
  moreover have "edge_load c UNIV < RELATED_LIMIT"
    using edge_load_card [OF Cons.prems(5)] card_mono [OF plan_rel_finite Cons.prems(2)] assms(6)
    by simp
  ultimately have no: "\<not> related c f w RELATED_LIMIT" by (simp add: related_exact)
  let ?c1 = "c\<lparr>cch_higher := bt_put w (bs_insert f (higher_of c w)) (cch_higher c),
               cch_lower := bt_put f (bs_insert w (lower_of c f)) (cch_lower c)\<rparr>"
  obtain c1 where c1: "precedence w f c = Some c1" "cache_inv c1" "edges c1 = insert (w, f) (edges c)"
    "dirty c1 = dirty c" "cch_writes c1 = cch_writes c" "\<forall>v. sorted_wrt (<) (higher_of c1 v)"
  proof (cases "f \<in> set (higher_of c w)")
    case True
    then show ?thesis
      using that [of c] Cons.prems dirty \<open>w \<noteq> f\<close> by (auto simp: precedence_def edges_def)
  next
    case False
    note inv = precedence_edge_inv [OF Cons.prems(1) dirty related_no [OF no] refl]
    have "precedence w f c = Some ?c1" using False no dirty \<open>w \<noteq> f\<close> by (simp add: precedence_def)
    moreover have "\<forall>v. sorted_wrt (<) (higher_of ?c1 v)"
      using Cons.prems(5) by (simp add: higher_of_def adjacent_def sorted_bs_insert)
    ultimately show ?thesis using that [of ?c1] inv by simp
  qed
  have "edges c1 \<subseteq> plan_rel type_of changed" using c1(3) Cons.prems(2,3) e by auto
  then show ?case
    using Cons.IH [of c1] c1 Cons.prems(3,4) e by auto
qed simp

text \<open>Beyond the bound of the search an order may be given up, but no page is lost or written twice.\<close>

definition accounted :: "u32 set \<Rightarrow> cache \<Rightarrow> bool" where
  "accounted S c \<longleftrightarrow> distinct (cch_writes c) \<and> set (cch_writes c) \<inter> dirty c = {} \<and> set (cch_writes c) \<union> dirty c = S"

lemma accounted_drained: "accounted S c \<Longrightarrow> drained c ws c' \<Longrightarrow> accounted S c'"
  by (auto simp: accounted_def drained_def)

lemma edges_accounted:
  "cache_inv c \<Longrightarrow> accounted S c \<Longrightarrow>
    \<exists>c'. fold_opt (\<lambda>(window, first). precedence window first) es c = Some c' \<and> cache_inv c' \<and> accounted S c'"
proof (induction es arbitrary: c)
  case (Cons e es)
  obtain w f where e: "e = (w, f)" by (cases e)
  obtain c1 where c1: "precedence w f c = Some c1" "cache_inv c1"
    "drained c [] c1 \<or> (\<exists>ws. drained c ws c1 \<and> w \<notin> dirty c1) \<or>
      edges c1 = insert (w, f) (edges c) \<and> dirty c1 = dirty c \<and> cch_writes c1 = cch_writes c"
    using precedence_spec [OF Cons.prems(1), of w f] by (elim exE conjE)
  have "accounted S c1"
  proof (cases "\<exists>ws. drained c ws c1")
    case True
    then show ?thesis using accounted_drained [OF Cons.prems(2)] by blast
  next
    case False
    then have "dirty c1 = dirty c" "cch_writes c1 = cch_writes c" using c1(3) by blast+
    then show ?thesis using Cons.prems(2) by (simp add: accounted_def)
  qed
  then show ?case using Cons.IH [OF c1(2)] c1(1) e by auto
qed simp

lemma build_plan_order:
  "\<exists>c'. build_plan (cch_attach img ps) changed ps type_of page_bytes = Some c' \<and>
    set (cch_writes c') = set changed \<and> distinct (cch_writes c') \<and>
    (card (plan_rel type_of changed) < RELATED_LIMIT \<longrightarrow> in_order (plan_rel type_of changed) (cch_writes c'))"
proof -
  let ?c = "cch_attach img ps"
  have empty: "edges ?c = {}" "dirty ?c = {}" "cch_writes ?c = []" "\<And>w. higher_of ?c w = []" "\<And>w. lower_of ?c w = []"
    by (auto simp: cch_attach_def edges_def higher_of_def lower_of_def adjacent_def dirty_def is_dirty_def)
  have "cch_page_size ?c = ps" by (simp add: cch_attach_def)
  from mark_phase [OF this, of type_of page_bytes changed "[]"]
  obtain c1 m where c1: "fold_opt (mark_typed ps type_of page_bytes) changed (?c, []) = Some (c1, m)"
    "edges c1 = {}" "lower_of c1 = lower_of ?c" "higher_of c1 = higher_of ?c" "dirty c1 = set changed" "cch_writes c1 = []"
    "\<forall>t. of_type m t = filter (\<lambda>p. type_of p = t) changed"
    unfolding empty by (auto simp: of_type_def)
  have inv: "cache_inv c1" using c1(2-5) empty by (simp add: cache_inv_def acyclic_def)
  let ?lay = "fold_opt (\<lambda>(window, first). precedence window first) (plan_edges type_of m changed) c1"
  have "accounted (set changed) c1" using c1(5,6) by (simp add: accounted_def)
  from edges_accounted [OF inv this] obtain c2 where c2: "?lay = Some c2" "cache_inv c2" "accounted (set changed) c2" by blast
  obtain ws c3 where c3: "flush c2 = Some c3" "drained c2 ws c3" "set ws = dirty c2" "dirty c3 = {}"
    using flush_spec [OF c2(2)] by blast
  have "set (cch_writes c3) = set changed" "distinct (cch_writes c3)"
    using accounted_drained [OF c2(3) c3(2)] c3(4) by (simp_all add: accounted_def)
  moreover have "in_order (plan_rel type_of changed) (cch_writes c3)" if "card (plan_rel type_of changed) < RELATED_LIMIT"
  proof -
    have "edges c2 = plan_rel type_of changed" "cch_writes c2 = []"
      using edge_phase [of c1 type_of changed "plan_edges type_of m changed"] that inv c1 empty plan_edges_rel [OF c1(7)] c2(1)
      by auto
    then show ?thesis using c3(2) by (simp add: drained_def)
  qed
  ultimately show ?thesis using c1(1) c2(1) c3(1) by (auto simp: build_plan_def)
qed

end
