(* ===== verification/Cch_Properties.thy ===== *)
theory Cch_Properties
  imports Cch_Plan
begin

text \<open>
  What the page cache promises: the flush and the careful-write order, precedence edges, the disk
  states a crash can leave, and the limit of the bounded search.
\<close>

text \<open>C10: A flush of any reachable cache returns, writes every dirty page exactly once and no clean
  page, writes no page before a page that its precedence edges put first, and leaves no dirty
  page and no edge behind.\<close>

theorem flush_respects_precedence:
  assumes "cch_reachable c"
  shows "\<exists>c' ws. flush c = Some c' \<and> cch_writes c' = cch_writes c @ ws \<and> distinct ws \<and>
    set ws = {p. is_dirty c p} \<and>
    (\<forall>i < length ws. \<forall>f \<in> set (higher_of c (ws ! i)). f \<in> set (take i ws)) \<and>
    (\<forall>p. \<not> is_dirty c' p \<and> higher_of c' p = [])"
proof -
  obtain ws c' where f: "flush c = Some c'" "drained c ws c'" "set ws = dirty c" "dirty c' = {}" "edges c' = {}"
    using flush_spec [OF cch_reachable_inv [OF assms]] by blast
  then have "\<forall>p. \<not> is_dirty c' p \<and> higher_of c' p = []"
    by (auto simp: dirty_def higher_of_empty)
  moreover have "\<forall>i < length ws. \<forall>f \<in> set (higher_of c (ws ! i)). f \<in> set (take i ws)"
    using f(2) by (auto simp: drained_def in_order_def edges_def)
  ultimately show ?thesis using f by (auto simp: drained_def dirty_def)
qed

definition two_page_cache :: cache where
  "two_page_cache = the (do {
     c1 \<leftarrow> mark 1 [1, 1] (cch_attach [0, 0, 0, 0, 0, 0] 2);
     c2 \<leftarrow> mark 2 [2, 2] c1;
     precedence 1 2 c2 })"

lemma two_page_cache_reachable: "cch_reachable two_page_cache"
proof -
  let ?c0 = "cch_attach [0, 0, 0, 0, 0, 0] 2"
  have l0: "length [1, 1 :: byte] = cch_page_size ?c0" by (simp add: cch_attach_def)
  obtain c1 where 1: "mark 1 [1, 1] ?c0 = Some c1" "cch_page_size c1 = cch_page_size ?c0"
    by (rule mark_spec [OF l0])
  have l1: "length [2, 2 :: byte] = cch_page_size c1" using 1(2) by (simp add: cch_attach_def)
  obtain c2 where 2: "mark 2 [2, 2] c1 = Some c2" by (rule mark_spec [OF l1])
  have r2: "cch_reachable c2" by (rule cch_mark [OF cch_mark [OF cch_attach 1(1)] 2])
  obtain c3 where 3: "precedence 1 2 c2 = Some c3"
    using precedence_spec [OF cch_reachable_inv [OF r2], of 1 2] by blast
  then show ?thesis using r2 1 2 by (auto simp: two_page_cache_def intro: cch_precedence)
qed

theorem flush_respects_precedence_witness:
  "\<exists>c'. flush two_page_cache = Some c' \<and> (\<forall>p. \<not> is_dirty c' p)"
  using flush_respects_precedence [OF two_page_cache_reachable] by blast

text \<open>C11: The careful-write plan always returns and writes exactly the changed pages, each once, however
  many they are. While the pairs of changed pages that have an order number fewer than the bound of the
  precedence search, as they do in every change of at most 45 pages, content precedes reference: no page is
  written before a page that the ordering rules put first, so the header goes out first and the
  transaction inventory, the commit flip, last. In a larger change the search may give up and an order with it.\<close>

theorem careful_plan_order:
  "\<exists>c'. build_plan (cch_attach img page_size) changed page_size type_of page_bytes = Some c' \<and>
    set (cch_writes c') = set changed \<and> distinct (cch_writes c') \<and>
    (length changed \<le> 45 \<or> card {(w, f). w \<in> set changed \<and> f \<in> set changed \<and> content_first (type_of w) (type_of f)} < RELATED_LIMIT \<longrightarrow>
      (\<forall>j < length (cch_writes c'). \<forall>i < j. \<not> content_first (type_of (cch_writes c' ! i)) (type_of (cch_writes c' ! j))))"
proof -
  obtain c' where c': "build_plan (cch_attach img page_size) changed page_size type_of page_bytes = Some c'"
    "set (cch_writes c') = set changed" "distinct (cch_writes c')"
    "card (plan_rel type_of changed) < RELATED_LIMIT \<longrightarrow> in_order (plan_rel type_of changed) (cch_writes c')"
    using build_plan_order by blast
  have "\<not> content_first (type_of (cch_writes c' ! i)) (type_of (cch_writes c' ! j))"
    if ij: "j < length (cch_writes c')" "i < j" and order: "in_order (plan_rel type_of changed) (cch_writes c')" for i j
  proof
    assume "content_first (type_of (cch_writes c' ! i)) (type_of (cch_writes c' ! j))"
    moreover have "cch_writes c' ! i \<in> set changed" "cch_writes c' ! j \<in> set changed"
      using ij c'(2) nth_mem by fastforce+
    ultimately have "cch_writes c' ! j \<in> set (take i (cch_writes c'))"
      using order ij by (auto simp: plan_rel_def in_order_def)
    then obtain k where "k < i" "cch_writes c' ! k = cch_writes c' ! j"
      by (auto simp: in_set_conv_nth)
    then show False using c'(3) ij by (auto simp: nth_eq_iff_index_eq)
  qed
  then show ?thesis using c' plan_rel_card [of changed type_of] unfolding plan_rel_def [symmetric] by blast
qed

theorem careful_plan_order_witness:
  "\<exists>c'. build_plan (cch_attach [] 16) [1, 2, 3] 16 (\<lambda>p. if p = 1 then 3 else if p = 2 then 4 else 5) (\<lambda>p. [])
      = Some c' \<and> set (cch_writes c') = {1, 2, 3}"
  using careful_plan_order [of "[]" 16 "[1, 2, 3]" "\<lambda>p. if p = 1 then 3 else if p = 2 then 4 else 5" "\<lambda>p. []"]
  by auto



text \<open>The bounded search gives up in favour of writing now: when the first page has a thousand
  or more predecessors of its own, asking for precedence writes an unconstrained window page at
  once, although the first page is still dirty and nothing relates the two.\<close>

lemma precedence_gives_up:
  assumes "window \<noteq> first" "is_dirty c first" "first \<notin> set (higher_of c window)"
    and "bt_get (cch_buffers c) window = Some b" "buf_dirty b" "higher_of c window = []"
    and "RELATED_LIMIT \<le> length (higher_of c first)"
  shows "\<exists>c'. precedence window first c = Some c' \<and> cch_writes c' = cch_writes c @ [window] \<and> is_dirty c' first"
proof -
  have "related_loop c window 999 (rev (higher_of c first) @ []) (bs_insert first [])"
    using assms(7) by (intro related_loop_exhausted) (simp add: RELATED_LIMIT_def)
  then have "related_loop c window (Suc 999) [first] []"
    using assms(1) by (subst related_loop.simps) simp
  moreover have "RELATED_LIMIT = Suc 999" by (simp add: RELATED_LIMIT_def)
  ultimately have "related c first window RELATED_LIMIT" by (simp only: related_def)
  then have "precedence window first c = Some (write_page window b c)"
    using assms by (simp add: precedence_def write_buffer.simps)
  then show ?thesis using assms(1,2) by (simp add: write_page_def is_dirty_def)
qed

text \<open>A commit of a relation with a thousand data pages: the pointer page 2 waits for all of them,
  and the transaction inventory page 1 is told to wait for the pointer page.\<close>

definition wide_cache :: cache where
  "wide_cache = \<lparr>cch_page_size = 16, cch_image = [],
     cch_buffers = [(1, \<lparr>buf_data = replicate 16 3, buf_dirty = True\<rparr>), (2, \<lparr>buf_data = replicate 16 4, buf_dirty = True\<rparr>)],
     cch_higher = [(2, map of_nat [10..<1010])], cch_lower = [], cch_writes = []\<rparr>"

text \<open>The crash prefixes of the harness are the disk states of the flush: when the new file
  holds every buffered page at its place, the prefix after k writes is the old image with the
  first k buffers of the flush written, and the whole sequence gives the image the flush left.\<close>

lemma crash_prefix_is_disk_state:
  assumes reach: "cch_reachable c" and flush: "flush c = Some c'"
    and after: "\<forall>p. is_dirty c p \<longrightarrow> get_range after (unat p * cch_page_size c) (unat p * cch_page_size c + cch_page_size c)
      = Some (page_data c p)"
  shows "\<exists>ws. cch_writes c' = cch_writes c @ ws \<and>
    (\<forall>k \<le> length ws. crash_prefix (cch_image c) after (cch_page_size c) ws k =
       Ret (fold (\<lambda>p. write_image (cch_page_size c) p (page_data c p)) (take k ws) (cch_image c))) \<and>
    crash_prefix (cch_image c) after (cch_page_size c) ws (length ws) = Ret (cch_image c')"
proof -
  obtain ws where ws: "drained c ws c'" "set ws = dirty c"
    using flush_spec [OF cch_reachable_inv [OF reach]] flush by auto
  let ?ps = "cch_page_size c"
  have one: "prefix_write after ?ps p out = Ret (write_image ?ps p (page_data c p) out)" if "p \<in> set ws" for p out
  proof -
    have "get_range after (unat p * ?ps) (unat p * ?ps + ?ps) = Some (page_data c p)"
      using after that ws(2) by (auto simp: dirty_def)
    then have "unat p * ?ps + ?ps \<le> length after" "page_data c p = take ?ps (drop (unat p * ?ps) after)"
      by (simp_all add: get_range_eq_Some)
    then show ?thesis
      by (simp add: prefix_write_def Let_def rs_slice_def get_range_def write_image_def)
  qed
  have "fold_opt (prefix_write after ?ps) us img = Ret (fold (\<lambda>p. write_image ?ps p (page_data c p)) us img)"
    if "set us \<subseteq> set ws" for us img
    using that by (induction us arbitrary: img) (simp_all add: one)
  then have "crash_prefix (cch_image c) after ?ps ws k =
      Ret (fold (\<lambda>p. write_image ?ps p (page_data c p)) (take k ws) (cch_image c))" if "k \<le> length ws" for k
    using that set_take_subset [of k ws] by (simp add: crash_prefix_def)
  then show ?thesis using ws(1) by (auto simp: drained_def intro!: exI [of _ ws])
qed

definition one_page_cache :: cache where
  "one_page_cache = \<lparr>cch_page_size = 2, cch_image = [0, 0, 0, 0], cch_buffers = [(1, \<lparr>buf_data = [7, 7], buf_dirty = True\<rparr>)],
     cch_higher = [], cch_lower = [], cch_writes = []\<rparr>"

lemma one_page_cache_reachable: "cch_reachable one_page_cache"
proof -
  have "mark 1 [7, 7] (cch_attach [0, 0, 0, 0] 2) = Some one_page_cache"
    by (simp add: mark_def fetch_def cch_attach_def one_page_cache_def Let_def)
  then show ?thesis by (rule cch_mark [OF cch_attach])
qed

end
