(* ===== verification/Evt.thy ===== *)
theory Evt
  imports Ordered_Map "HOL-Library.Char_ord" "HOL-Library.Multiset"
begin

text \<open>
  The event manager of \<^verbatim>\<open>crates/evt/src/lib.rs\<close>: counters by event name, the interests of client
  sessions with the count each has seen, and the posts each open transaction has buffered.
  Counters (i64) are integers: they grow by one per post, so they stay far below the 64-bit bound.
  The properties say when a post counts, who is told, and that no registered interest is ever
  left behind by a counter.
\<close>

subsection \<open>The event table\<close>

record interest =
  int_session :: u32
  int_name :: string
  int_threshold :: int

record delivery =
  dlv_session :: u32
  dlv_name :: string
  dlv_count :: int

definition DELIVERED_OFFSET :: int where "DELIVERED_OFFSET = 1"

record event_table =
  evt_counts :: "(string, int) bt_map"
  evt_interests :: "interest list"
  evt_pending :: "(u64, (string, int) bt_map) bt_map"
  evt_next_session :: u32

definition evt_new :: event_table where
  "evt_new = \<lparr>evt_counts = [], evt_interests = [], evt_pending = [], evt_next_session = 0\<rparr>"

definition create_session :: "event_table \<Rightarrow> u32 \<times> event_table" where
  "create_session t = (evt_next_session t + 1, t\<lparr>evt_next_session := evt_next_session t + 1\<rparr>)"

definition evt_count :: "event_table \<Rightarrow> string \<Rightarrow> int" where
  "evt_count t name = (case bt_get (evt_counts t) name of None \<Rightarrow> 0 | Some c \<Rightarrow> c)"

definition evt_queue :: "u32 \<Rightarrow> string \<Rightarrow> int \<Rightarrow> event_table \<Rightarrow> delivery list \<times> event_table" where
  "evt_queue session name seen t =
     (let now = evt_count t name;
          t1 = t\<lparr>evt_counts := bt_put name now (evt_counts t)\<rparr>
      in if seen \<le> now
         then ([\<lparr>dlv_session = session, dlv_name = name, dlv_count = now + DELIVERED_OFFSET\<rparr>], t1)
         else ([], t1\<lparr>evt_interests := evt_interests t1 @
                 [\<lparr>int_session = session, int_name = name, int_threshold = seen\<rparr>]\<rparr>))"

definition evt_cancel :: "u32 \<Rightarrow> event_table \<Rightarrow> event_table" where
  "evt_cancel session t = t\<lparr>evt_interests := filter (\<lambda>i. int_session i \<noteq> session) (evt_interests t)\<rparr>"

definition evt_buffer :: "event_table \<Rightarrow> u64 \<Rightarrow> (string, int) bt_map" where
  "evt_buffer t tx = (case bt_get (evt_pending t) tx of None \<Rightarrow> [] | Some posts \<Rightarrow> posts)"

definition evt_post :: "u64 \<Rightarrow> string \<Rightarrow> event_table \<Rightarrow> event_table" where
  "evt_post tx name t =
     (let posts = evt_buffer t tx;
          n = (case bt_get posts name of None \<Rightarrow> 0 | Some n \<Rightarrow> n)
      in t\<lparr>evt_pending := bt_put tx (bt_put name (n + 1) posts) (evt_pending t)\<rparr>)"

definition fires :: "string \<Rightarrow> int \<Rightarrow> interest \<Rightarrow> bool" where
  "fires name now i \<longleftrightarrow> int_name i = name \<and> int_threshold i \<le> now"

text \<open>One name of a committed buffer.\<close>

definition commit_name :: "string \<times> int \<Rightarrow> delivery list \<times> event_table \<Rightarrow> delivery list \<times> event_table" where
  "commit_name post acc =
     (case post of (name, posted) \<Rightarrow> case acc of (out, t) \<Rightarrow>
       (case bt_get (evt_counts t) name of
          None \<Rightarrow> (out, t)
        | Some c \<Rightarrow>
            let now = c + posted in
            (out @ map (\<lambda>i. \<lparr>dlv_session = int_session i, dlv_name = name, dlv_count = now + DELIVERED_OFFSET\<rparr>)
                     (filter (fires name now) (evt_interests t)),
             t\<lparr>evt_counts := bt_put name now (evt_counts t),
               evt_interests := filter (\<lambda>i. \<not> fires name now i) (evt_interests t)\<rparr>)))"

definition evt_commit :: "u64 \<Rightarrow> event_table \<Rightarrow> delivery list \<times> event_table" where
  "evt_commit tx t =
     (case bt_get (evt_pending t) tx of
        None \<Rightarrow> ([], t)
      | Some posts \<Rightarrow> fold commit_name posts ([], t\<lparr>evt_pending := bt_del tx (evt_pending t)\<rparr>))"

definition evt_rollback :: "u64 \<Rightarrow> event_table \<Rightarrow> event_table" where
  "evt_rollback tx t = t\<lparr>evt_pending := bt_del tx (evt_pending t)\<rparr>"

subsection \<open>What a commit does\<close>

text \<open>The counters after a buffer has been counted: a name with an event block moves by its posts,
  a name without one is dropped.\<close>

definition counted :: "(string, int) bt_map \<Rightarrow> (string \<Rightarrow> int option) \<Rightarrow> string \<Rightarrow> int option" where
  "counted posts counts name =
     (case counts name of None \<Rightarrow> None
      | Some c \<Rightarrow> Some (c + (case bt_get posts name of None \<Rightarrow> 0 | Some n \<Rightarrow> n)))"

text \<open>The interests a commit fires: their name was posted and its new counter reaches them.\<close>

definition reached :: "(string, int) bt_map \<Rightarrow> (string \<Rightarrow> int option) \<Rightarrow> interest \<Rightarrow> bool" where
  "reached posts counts i \<longleftrightarrow>
     bt_get posts (int_name i) \<noteq> None \<and>
     (case counted posts counts (int_name i) of None \<Rightarrow> False | Some now \<Rightarrow> int_threshold i \<le> now)"

definition deliver :: "(string, int) bt_map \<Rightarrow> (string \<Rightarrow> int option) \<Rightarrow> interest \<Rightarrow> delivery" where
  "deliver posts counts i = \<lparr>dlv_session = int_session i, dlv_name = int_name i,
     dlv_count = the (counted posts counts (int_name i)) + DELIVERED_OFFSET\<rparr>"

text \<open>The deliveries in their order: name by name, and for a name in the order of the interests.\<close>

definition told :: "(string, int) bt_map \<Rightarrow> (string \<Rightarrow> int option) \<Rightarrow> interest list \<Rightarrow> string list \<Rightarrow> delivery list" where
  "told posts counts is names =
     concat (map (\<lambda>name. map (deliver posts counts) (filter (\<lambda>i. int_name i = name \<and> reached posts counts i) is)) names)"

lemma commit_names:
  assumes "distinct (map fst posts)"
  shows "\<exists>new cs. fold commit_name posts (out, t) =
      (out @ new, t\<lparr>evt_counts := cs,
                    evt_interests := filter (\<lambda>i. \<not> reached posts (bt_get (evt_counts t)) i) (evt_interests t)\<rparr>) \<and>
    bt_get cs = counted posts (bt_get (evt_counts t)) \<and>
    mset new = image_mset (deliver posts (bt_get (evt_counts t)))
      (filter_mset (reached posts (bt_get (evt_counts t))) (mset (evt_interests t))) \<and>
    new = told posts (bt_get (evt_counts t)) (evt_interests t) (map fst posts)"
  using assms
proof (induction posts arbitrary: out t)
  case Nil
  have "counted [] m = m" for m by (auto simp: counted_def fun_eq_iff split: option.split)
  then show ?case by (intro exI [of _ "[]"] exI [of _ "evt_counts t"]) (simp add: reached_def told_def)
next
  case (Cons post posts)
  obtain name posted where post: "post = (name, posted)" by (cases post)
  have fresh: "bt_get posts name = None" and dist: "distinct (map fst posts)"
    using Cons.prems by (simp_all add: post map_of_eq_None_iff)
  show ?case
  proof (cases "bt_get (evt_counts t) name")
    case None
    then have step: "commit_name post (out, t) = (out, t)" by (simp add: commit_name_def post)
    have cnt: "counted (post # posts) (bt_get (evt_counts t)) = counted posts (bt_get (evt_counts t))"
      using None by (auto simp: counted_def post fun_eq_iff split: option.split)
    from this have hit: "reached (post # posts) (bt_get (evt_counts t)) = reached posts (bt_get (evt_counts t))"
      using None fresh by (auto simp: reached_def post fun_eq_iff counted_def split: option.splits)
    have "filter (\<lambda>i. int_name i = name \<and> reached posts (bt_get (evt_counts t)) i) is = []" for "is"
      using fresh by (auto simp: reached_def filter_empty_conv)
    note no = this
    have same: "counted (post # posts) (bt_get (evt_counts t)) = counted posts (bt_get (evt_counts t))"
      "reached (post # posts) (bt_get (evt_counts t)) = reached posts (bt_get (evt_counts t))"
      "deliver (post # posts) (bt_get (evt_counts t)) = deliver posts (bt_get (evt_counts t))"
      by (simp_all only: cnt hit) (simp add: deliver_def fun_eq_iff cnt)
    have "told (post # posts) (bt_get (evt_counts t)) is (map fst (post # posts)) = told posts (bt_get (evt_counts t)) is (map fst posts)"
      for "is" unfolding told_def same using no by (simp add: post)
    then show ?thesis using Cons.IH [OF dist, of out t] unfolding same by (simp add: step)
  next
    case (Some c)
    let ?now = "c + posted"
    let ?t1 = "t\<lparr>evt_counts := bt_put name ?now (evt_counts t),
                 evt_interests := filter (\<lambda>i. \<not> fires name ?now i) (evt_interests t)\<rparr>"
    let ?new = "map (\<lambda>i. \<lparr>dlv_session = int_session i, dlv_name = name, dlv_count = ?now + DELIVERED_OFFSET\<rparr>)
                     (filter (fires name ?now) (evt_interests t))"
    define m m1 where "m = bt_get (evt_counts t)" and "m1 = m(name \<mapsto> ?now)"
    have m: "m name = Some c" "m1 name = Some ?now" "\<And>x. x \<noteq> name \<Longrightarrow> m1 x = m x"
      using Some by (simp_all add: m_def m1_def)
    have step: "commit_name post (out, t) = (out @ ?new, ?t1)"
      by (simp add: commit_name_def post Some Let_def)
    have cnt: "counted posts m1 = counted (post # posts) m"
      using m fresh by (auto simp: counted_def post fun_eq_iff split: option.split)
    have split: "reached (post # posts) m i \<longleftrightarrow> fires name ?now i \<or> reached posts m1 i \<and> int_name i \<noteq> name" for i
      using m fresh by (cases "int_name i = name") (auto simp: reached_def fires_def post cnt counted_def)
    have mine: "reached posts m1 i \<Longrightarrow> int_name i \<noteq> name" for i
      using fresh by (auto simp: reached_def)
    have keep: "filter (\<lambda>i. \<not> reached posts m1 i) (filter (\<lambda>i. \<not> fires name ?now i) is)
        = filter (\<lambda>i. \<not> reached (post # posts) m i) is" for "is"
      using mine by (auto simp: split intro: filter_cong)
    have fired: "image_mset (deliver (post # posts) m) (filter_mset (reached (post # posts) m) (mset is)) =
        mset (map (\<lambda>i. \<lparr>dlv_session = int_session i, dlv_name = name, dlv_count = ?now + DELIVERED_OFFSET\<rparr>)
           (filter (fires name ?now) is))
        + image_mset (deliver posts m1) (filter_mset (reached posts m1) (mset (filter (\<lambda>i. \<not> fires name ?now i) is)))" for "is"
    proof (induction "is")
      case (Cons i is')
      have "fires name ?now i \<Longrightarrow> deliver (post # posts) m i =
          \<lparr>dlv_session = int_session i, dlv_name = name, dlv_count = ?now + DELIVERED_OFFSET\<rparr>"
        using m by (auto simp: deliver_def fires_def counted_def post)
      moreover have "deliver posts m1 i = deliver (post # posts) m i" by (simp add: deliver_def cnt)
      ultimately show ?case using Cons mine [of i] by (auto simp: split)
    qed simp
    have mine_told: "map (deliver (post # posts) m) (filter (\<lambda>i. int_name i = name \<and> reached (post # posts) m i) is) =
        map (\<lambda>i. \<lparr>dlv_session = int_session i, dlv_name = name, dlv_count = ?now + DELIVERED_OFFSET\<rparr>)
          (filter (fires name ?now) is)" for "is"
    proof (induction "is")
      case (Cons i is')
      have "fires name ?now i \<Longrightarrow> deliver (post # posts) m i =
          \<lparr>dlv_session = int_session i, dlv_name = name, dlv_count = ?now + DELIVERED_OFFSET\<rparr>"
        using m by (auto simp: deliver_def fires_def counted_def post)
      then show ?case using Cons split [of i] by (auto simp: fires_def)
    qed simp
    have rest_told: "map (deliver posts m1) (filter (\<lambda>i. int_name i = x \<and> reached posts m1 i) (filter (\<lambda>i. \<not> fires name ?now i) is)) =
        map (deliver (post # posts) m) (filter (\<lambda>i. int_name i = x \<and> reached (post # posts) m i) is)"
      if x: "x \<in> fst ` set posts" for x "is"
    proof -
      have "x \<noteq> name" using fresh x by (auto simp: map_of_eq_None_iff)
      then have "filter (\<lambda>i. int_name i = x \<and> reached posts m1 i) (filter (\<lambda>i. \<not> fires name ?now i) is) =
          filter (\<lambda>i. int_name i = x \<and> reached (post # posts) m i) is"
        by (auto simp: split fires_def intro: filter_cong)
      moreover have "deliver posts m1 i = deliver (post # posts) m i" for i by (simp add: deliver_def cnt)
      ultimately show ?thesis by simp
    qed
    have c1: "bt_get (evt_counts ?t1) = m1" by (simp add: m_def m1_def)
    have i1: "evt_interests ?t1 = filter (\<lambda>i. \<not> fires name ?now i) (evt_interests t)" by simp
    obtain new cs where new: "fold commit_name posts (out @ ?new, ?t1) = ((out @ ?new) @ new,
        ?t1\<lparr>evt_counts := cs,
            evt_interests := filter (\<lambda>i. \<not> reached posts m1 i) (evt_interests ?t1)\<rparr>)"
      "bt_get cs = counted posts m1"
      "mset new = image_mset (deliver posts m1) (filter_mset (reached posts m1) (mset (evt_interests ?t1)))"
      "new = told posts m1 (evt_interests ?t1) (map fst posts)"
      using Cons.IH [OF dist, of "out @ ?new" ?t1] unfolding c1 by (elim exE conjE)
    have all: "?new @ new = told (post # posts) m (evt_interests t) (map fst (post # posts))"
    proof -
      have "new = told (post # posts) m (evt_interests t) (map fst posts)"
        unfolding new(4) told_def i1 by (rule arg_cong [where f = concat], rule map_cong [OF refl], rule rest_told) simp
      then show ?thesis using mine_told [of "evt_interests t"] by (simp add: told_def post)
    qed
    show ?thesis
      unfolding m_def [symmetric]
      by (intro exI [of _ "?new @ new"] exI [of _ cs] conjI all) (use cnt keep fired new(1-3) in \<open>simp_all add: step\<close>)
  qed
qed

subsection \<open>Histories of calls\<close>

datatype evt_call = EvtSession | EvtQueue u32 string int | EvtCancel u32 | EvtPost u64 string
  | EvtCommit u64 | EvtRollback u64

fun evt_call_step :: "evt_call \<Rightarrow> event_table \<Rightarrow> event_table" where
  "evt_call_step EvtSession t = snd (create_session t)"
| "evt_call_step (EvtQueue session name seen) t = snd (evt_queue session name seen t)"
| "evt_call_step (EvtCancel session) t = evt_cancel session t"
| "evt_call_step (EvtPost tx name) t = evt_post tx name t"
| "evt_call_step (EvtCommit tx) t = snd (evt_commit tx t)"
| "evt_call_step (EvtRollback tx) t = evt_rollback tx t"

text \<open>The table after a history of calls, latest first.\<close>

fun evt_history :: "evt_call list \<Rightarrow> event_table" where
  "evt_history [] = evt_new"
| "evt_history (call # before) = evt_call_step call (evt_history before)"

definition evt_ok :: "event_table \<Rightarrow> bool" where
  "evt_ok t \<longleftrightarrow>
     (\<forall>tx posts. bt_get (evt_pending t) tx = Some posts \<longrightarrow> bt_wf posts) \<and>
     (\<forall>i \<in> set (evt_interests t). \<exists>c. bt_get (evt_counts t) (int_name i) = Some c \<and> c < int_threshold i)"

lemma evt_commit_eq:
  assumes "evt_ok t"
  shows "\<exists>new t'. evt_commit tx t = (new, t') \<and>
    bt_get (evt_counts t') = counted (evt_buffer t tx) (bt_get (evt_counts t)) \<and>
    evt_interests t' = filter (\<lambda>i. \<not> reached (evt_buffer t tx) (bt_get (evt_counts t)) i) (evt_interests t) \<and>
    bt_get (evt_pending t') = (bt_get (evt_pending t))(tx := None) \<and> evt_next_session t' = evt_next_session t \<and>
    mset new = image_mset (deliver (evt_buffer t tx) (bt_get (evt_counts t)))
      (filter_mset (reached (evt_buffer t tx) (bt_get (evt_counts t))) (mset (evt_interests t))) \<and>
    new = told (evt_buffer t tx) (bt_get (evt_counts t)) (evt_interests t) (bt_keys (evt_buffer t tx)) \<and> bt_wf (evt_buffer t tx)"
proof (cases "bt_get (evt_pending t) tx")
  case None
  then have "evt_buffer t tx = []" by (simp add: evt_buffer_def)
  moreover have "counted [] m = m" for m by (auto simp: counted_def fun_eq_iff split: option.split)
  ultimately show ?thesis
    using None by (simp add: evt_commit_def reached_def fun_upd_idem told_def bt_keys_def bt_wf_def)
next
  case (Some posts)
  then have b: "evt_buffer t tx = posts" "bt_wf posts"
    using assms by (auto simp: evt_buffer_def evt_ok_def)
  let ?t = "t\<lparr>evt_pending := bt_del tx (evt_pending t)\<rparr>"
  obtain new cs where fold: "fold commit_name posts ([], ?t) = ([] @ new,
      ?t\<lparr>evt_counts := cs,
         evt_interests := filter (\<lambda>i. \<not> reached posts (bt_get (evt_counts ?t)) i) (evt_interests ?t)\<rparr>)"
    "bt_get cs = counted posts (bt_get (evt_counts ?t))"
    "mset new = image_mset (deliver posts (bt_get (evt_counts ?t)))
      (filter_mset (reached posts (bt_get (evt_counts ?t))) (mset (evt_interests ?t)))"
    "new = told posts (bt_get (evt_counts ?t)) (evt_interests ?t) (map fst posts)"
    using commit_names [OF bt_wf_distinct [OF b(2)], of "[]" ?t] by (elim exE conjE)
  have run: "evt_commit tx t = fold commit_name posts ([], ?t)" by (simp add: evt_commit_def Some)
  have told: "new = told posts (bt_get (evt_counts t)) (evt_interests t) (bt_keys posts)"
    using fold(4) by (simp add: bt_keys_def)
  show ?thesis unfolding b(1) run fold(1)
    by (intro exI [of _ new] exI [of _ "?t\<lparr>evt_counts := cs, evt_interests :=
        filter (\<lambda>i. \<not> reached posts (bt_get (evt_counts ?t)) i) (evt_interests ?t)\<rparr>"] conjI told b(2))
      (simp_all add: fold(2,3))
qed

lemma evt_ok_history: "evt_ok (evt_history calls)"
proof (induction calls)
  case Nil
  show ?case by (simp add: evt_ok_def evt_new_def)
next
  case (Cons call calls)
  let ?t = "evt_history calls"
  show ?case
  proof (cases call)
    case EvtSession
    then show ?thesis using Cons by (simp add: evt_ok_def create_session_def)
  next
    case (EvtQueue session name seen)
    have old: "\<exists>c. bt_get (evt_counts ?t) (int_name i) = Some c \<and> c < int_threshold i" if "i \<in> set (evt_interests ?t)" for i
      using Cons that by (simp add: evt_ok_def)
    have "(\<exists>c. ((bt_get (evt_counts ?t))(name \<mapsto> evt_count ?t name)) (int_name i) = Some c \<and> c < int_threshold i)"
      if "i \<in> set (evt_interests ?t)" for i
      using old [OF that] by (auto simp: evt_count_def)
    then show ?thesis
      using Cons EvtQueue by (auto simp: evt_ok_def evt_queue_def Let_def simp del: fun_upd_apply) (simp add: evt_count_def)
  next
    case (EvtCancel session)
    then show ?thesis using Cons by (simp add: evt_ok_def evt_cancel_def)
  next
    case (EvtPost tx name)
    have "bt_wf (evt_buffer ?t tx)" using Cons by (auto simp: evt_ok_def evt_buffer_def split: option.splits)
    then show ?thesis using EvtPost Cons by (auto simp: evt_ok_def evt_post_def Let_def)
  next
    case (EvtCommit tx)
    obtain new t' where t': "evt_commit tx ?t = (new, t')"
      "bt_get (evt_counts t') = counted (evt_buffer ?t tx) (bt_get (evt_counts ?t))"
      "evt_interests t' = filter (\<lambda>i. \<not> reached (evt_buffer ?t tx) (bt_get (evt_counts ?t)) i) (evt_interests ?t)"
      "bt_get (evt_pending t') = (bt_get (evt_pending ?t))(tx := None)"
      using evt_commit_eq [OF Cons, of tx] by (elim exE conjE)
    have "\<exists>c. counted (evt_buffer ?t tx) (bt_get (evt_counts ?t)) (int_name i) = Some c \<and> c < int_threshold i"
      if i: "i \<in> set (evt_interests ?t)" "\<not> reached (evt_buffer ?t tx) (bt_get (evt_counts ?t)) i" for i
    proof -
      obtain c where c: "bt_get (evt_counts ?t) (int_name i) = Some c" "c < int_threshold i"
        using Cons i(1) by (auto simp: evt_ok_def)
      show ?thesis using i(2) c by (cases "bt_get (evt_buffer ?t tx) (int_name i)") (auto simp: reached_def counted_def)
    qed
    then show ?thesis using t' EvtCommit Cons by (auto simp: evt_ok_def)
  next
    case (EvtRollback tx)
    then show ?thesis using Cons by (auto simp: evt_ok_def evt_rollback_def)
  qed
qed

text \<open>The reference semantics of a history: the posts a transaction has open, and the counter of a
  name, which exists once a session has listened for the name.\<close>

fun open_posts :: "evt_call list \<Rightarrow> u64 \<Rightarrow> string \<Rightarrow> nat" where
  "open_posts [] tx name = 0"
| "open_posts (EvtPost tx' name' # before) tx name =
     open_posts before tx name + (if tx' = tx \<and> name' = name then 1 else 0)"
| "open_posts (EvtCommit tx' # before) tx name = (if tx' = tx then 0 else open_posts before tx name)"
| "open_posts (EvtRollback tx' # before) tx name = (if tx' = tx then 0 else open_posts before tx name)"
| "open_posts (_ # before) tx name = open_posts before tx name"

fun event_counter :: "evt_call list \<Rightarrow> string \<Rightarrow> nat option" where
  "event_counter [] name = None"
| "event_counter (EvtQueue session name' seen # before) name =
     (if name' = name \<and> event_counter before name = None then Some 0 else event_counter before name)"
| "event_counter (EvtCommit tx # before) name = map_option (\<lambda>c. c + open_posts before tx name) (event_counter before name)"
| "event_counter (_ # before) name = event_counter before name"

lemma buffered_posts:
  "bt_get (evt_buffer (evt_history calls) tx) name =
    (if open_posts calls tx name = 0 then None else Some (int (open_posts calls tx name)))"
proof (induction calls)
  case Nil
  show ?case by (simp add: evt_buffer_def evt_new_def)
next
  case (Cons call calls)
  show ?case
  proof (cases call)
    case (EvtCommit tx')
    obtain new t' where "evt_commit tx' (evt_history calls) = (new, t')"
      "bt_get (evt_pending t') = (bt_get (evt_pending (evt_history calls)))(tx' := None)"
      using evt_commit_eq [OF evt_ok_history, of tx' calls] by (elim exE conjE)
    then show ?thesis using EvtCommit Cons by (auto simp: evt_buffer_def)
  next
    case (EvtPost tx' name')
    have "evt_buffer (evt_history (call # calls)) tx =
        (if tx' = tx then bt_put name' ((case bt_get (evt_buffer (evt_history calls) tx) name' of None \<Rightarrow> 0 | Some n \<Rightarrow> n) + 1)
           (evt_buffer (evt_history calls) tx) else evt_buffer (evt_history calls) tx)"
      by (auto simp: EvtPost evt_post_def evt_buffer_def Let_def)
    then show ?thesis using Cons EvtPost by auto
  qed (use Cons in \<open>simp_all add: create_session_def evt_queue_def evt_cancel_def evt_rollback_def evt_buffer_def Let_def\<close>)
qed

lemma history_counter:
  "bt_get (evt_counts (evt_history calls)) name = map_option int (event_counter calls name)"
proof (induction calls)
  case Nil
  show ?case by (simp add: evt_new_def)
next
  case (Cons call calls)
  show ?case
  proof (cases call)
    case (EvtCommit tx)
    obtain new t' where "evt_commit tx (evt_history calls) = (new, t')"
      "bt_get (evt_counts t') = counted (evt_buffer (evt_history calls) tx) (bt_get (evt_counts (evt_history calls)))"
      using evt_commit_eq [OF evt_ok_history, of tx calls] by (elim exE conjE)
    then show ?thesis using EvtCommit Cons by (cases "event_counter calls name") (simp_all add: counted_def buffered_posts)
  next
    case (EvtQueue session name' seen)
    then show ?thesis using Cons by (auto simp: evt_queue_def evt_count_def Let_def split: option.splits)
  qed (use Cons in \<open>simp_all add: create_session_def evt_post_def evt_cancel_def evt_rollback_def Let_def\<close>)
qed

subsection \<open>Properties\<close>

text \<open>After any history of calls the counter of a name is the number of posts that committed
  transactions made of it since the first session listened for the name: open and rolled-back
  posts do not count, and neither do posts that committed before anyone listened.\<close>

lemma counter_counts_committed_posts:
  "bt_get (evt_counts (evt_history calls)) name = map_option int (event_counter calls name) \<and>
   evt_count (evt_history calls) name = int (case event_counter calls name of None \<Rightarrow> 0 | Some c \<Rightarrow> c)"
  by (simp add: history_counter evt_count_def split: option.split)

text \<open>C13: A commit tells exactly the sessions whose interest the new counters reach, each once and
  with the new counter plus one, in the order of the names posted and, for a name, in the order the interests
  were registered; it takes exactly those interests down, moves every listened-for counter by its
  posts, and empties the transaction's buffer.\<close>

theorem commit_delivers_exactly:
  fixes calls tx
  defines "t \<equiv> evt_history calls"
  shows "\<exists>new t' names. evt_commit tx t = (new, t') \<and>
    sorted_wrt (<) names \<and> set names = {name. 0 < open_posts calls tx name} \<and>
    new = concat (map (\<lambda>name. map (\<lambda>i. \<lparr>dlv_session = int_session i, dlv_name = name, dlv_count = evt_count t' name + 1\<rparr>)
      (filter (\<lambda>i. int_name i = name \<and> int_threshold i \<le> evt_count t' name) (evt_interests t))) names) \<and>
    mset new = image_mset (\<lambda>i. \<lparr>dlv_session = int_session i, dlv_name = int_name i,
        dlv_count = evt_count t' (int_name i) + 1\<rparr>)
      (filter_mset (\<lambda>i. 0 < open_posts calls tx (int_name i) \<and> int_threshold i \<le> evt_count t' (int_name i))
        (mset (evt_interests t))) \<and>
    evt_interests t' = filter (\<lambda>i. \<not> (0 < open_posts calls tx (int_name i) \<and> int_threshold i \<le> evt_count t' (int_name i)))
      (evt_interests t) \<and>
    (\<forall>name. bt_get (evt_counts t') name = map_option (\<lambda>c. c + int (open_posts calls tx name)) (bt_get (evt_counts t) name)) \<and>
    bt_get (evt_pending t') = (bt_get (evt_pending t))(tx := None)"
proof -
  have ok: "evt_ok t" unfolding t_def by (rule evt_ok_history)
  obtain new t' where c: "evt_commit tx t = (new, t')"
    "bt_get (evt_counts t') = counted (evt_buffer t tx) (bt_get (evt_counts t))"
    "evt_interests t' = filter (\<lambda>i. \<not> reached (evt_buffer t tx) (bt_get (evt_counts t)) i) (evt_interests t)"
    "bt_get (evt_pending t') = (bt_get (evt_pending t))(tx := None)"
    "mset new = image_mset (deliver (evt_buffer t tx) (bt_get (evt_counts t)))
      (filter_mset (reached (evt_buffer t tx) (bt_get (evt_counts t))) (mset (evt_interests t)))"
    "new = told (evt_buffer t tx) (bt_get (evt_counts t)) (evt_interests t) (bt_keys (evt_buffer t tx))" "bt_wf (evt_buffer t tx)"
    using evt_commit_eq [OF ok, of tx] by (elim exE conjE)
  have cnt: "bt_get (evt_counts t') name = map_option (\<lambda>c. c + int (open_posts calls tx name)) (bt_get (evt_counts t) name)" for name
    by (cases "bt_get (evt_counts t) name") (simp_all add: c(2) counted_def t_def buffered_posts)
  have hit: "reached (evt_buffer t tx) (bt_get (evt_counts t)) i \<longleftrightarrow>
      0 < open_posts calls tx (int_name i) \<and> int_threshold i \<le> evt_count t' (int_name i)" if i: "i \<in> set (evt_interests t)" for i
  proof -
    obtain x where "bt_get (evt_counts t) (int_name i) = Some x" using ok i by (auto simp: evt_ok_def)
    then show ?thesis
      using cnt [of "int_name i"]
      by (simp add: reached_def evt_count_def flip: c(2)) (simp add: t_def buffered_posts)
  qed
  have msg: "deliver (evt_buffer t tx) (bt_get (evt_counts t)) i =
      \<lparr>dlv_session = int_session i, dlv_name = int_name i, dlv_count = evt_count t' (int_name i) + 1\<rparr>"
    if i: "i \<in> set (evt_interests t)" for i
  proof -
    obtain x where "bt_get (evt_counts t) (int_name i) = Some x" using ok i by (auto simp: evt_ok_def)
    then show ?thesis by (simp add: deliver_def DELIVERED_OFFSET_def evt_count_def cnt flip: c(2))
  qed
  have "mset new = image_mset (\<lambda>i. \<lparr>dlv_session = int_session i, dlv_name = int_name i,
        dlv_count = evt_count t' (int_name i) + 1\<rparr>)
      (filter_mset (\<lambda>i. 0 < open_posts calls tx (int_name i) \<and> int_threshold i \<le> evt_count t' (int_name i))
        (mset (evt_interests t)))"
  proof -
    have "filter_mset (reached (evt_buffer t tx) (bt_get (evt_counts t))) (mset (evt_interests t)) =
        filter_mset (\<lambda>i. 0 < open_posts calls tx (int_name i) \<and> int_threshold i \<le> evt_count t' (int_name i))
          (mset (evt_interests t))"
      by (intro filter_mset_cong) (simp_all add: hit)
    then show ?thesis unfolding c(5) by (simp only:) (intro image_mset_cong, simp add: msg)
  qed
  moreover have "evt_interests t' = filter (\<lambda>i. \<not> (0 < open_posts calls tx (int_name i) \<and>
      int_threshold i \<le> evt_count t' (int_name i))) (evt_interests t)"
    unfolding c(3) by (intro filter_cong) (auto simp: hit)
  moreover define names where "names = bt_keys (evt_buffer t tx)"
  have "sorted_wrt (<) names" using c(7) by (simp add: names_def bt_wf_def bt_keys_def)
  moreover have posted: "set names = {name. 0 < open_posts calls tx name}"
    by (auto simp: names_def t_def buffered_posts dom_def)
  moreover have "new = concat (map (\<lambda>name. map (\<lambda>i. \<lparr>dlv_session = int_session i, dlv_name = name, dlv_count = evt_count t' name + 1\<rparr>)
      (filter (\<lambda>i. int_name i = name \<and> int_threshold i \<le> evt_count t' name) (evt_interests t))) names)"
    unfolding c(6) told_def names_def [symmetric]
  proof (rule arg_cong [where f = concat], rule map_cong [OF refl])
    fix name assume "name \<in> set names"
    then have "filter (\<lambda>i. int_name i = name \<and> reached (evt_buffer t tx) (bt_get (evt_counts t)) i) (evt_interests t) =
        filter (\<lambda>i. int_name i = name \<and> int_threshold i \<le> evt_count t' name) (evt_interests t)"
      using posted hit by (intro filter_cong) auto
    then show "map (deliver (evt_buffer t tx) (bt_get (evt_counts t)))
        (filter (\<lambda>i. int_name i = name \<and> reached (evt_buffer t tx) (bt_get (evt_counts t)) i) (evt_interests t)) =
      map (\<lambda>i. \<lparr>dlv_session = int_session i, dlv_name = name, dlv_count = evt_count t' name + 1\<rparr>)
        (filter (\<lambda>i. int_name i = name \<and> int_threshold i \<le> evt_count t' name) (evt_interests t))"
      using msg by (auto intro!: map_cong)
  qed
  ultimately show ?thesis using c(1,4) cnt by blast
qed

text \<open>No registered interest is left behind: in every table, an interest waits on a name that
  has a counter, and that counter has not reached the interest's threshold.\<close>

lemma no_interest_left_behind:
  assumes "i \<in> set (evt_interests (evt_history calls))"
  shows "event_counter calls (int_name i) \<noteq> None \<and> evt_count (evt_history calls) (int_name i) < int_threshold i"
proof -
  obtain c where "bt_get (evt_counts (evt_history calls)) (int_name i) = Some c" "c < int_threshold i"
    using assms evt_ok_history [of calls] by (auto simp: evt_ok_def)
  then show ?thesis using history_counter [of calls "int_name i"] by (auto simp: evt_count_def)
qed

end
