(* ===== verification/Pages.thy ===== *)
theory Pages
  imports Image
begin

text \<open>
  The generic page header and the page-type census (\<^verbatim>\<open>crates/ods/src/pages.rs\<close>), and the
  typed views of the inventory pages: page inventory pages (\<^verbatim>\<open>pip.rs\<close>), transaction inventory
  pages (\<^verbatim>\<open>tip.rs\<close>) and pointer pages (\<^verbatim>\<open>pointer.rs\<close>). A decoder answers None for a page of
  another type; the fields it then reads by index panic on a page too short to hold them.
\<close>

subsection \<open>Page types and the page header\<close>

datatype page_type =
    Undefined | Header | PageInventory | TransactionInventory | Pointer | Data
  | IndexRoot | Index | Blob | Generators | ScnInventory

fun page_type_byte :: "page_type \<Rightarrow> byte" where
  "page_type_byte Undefined = 0"
| "page_type_byte Header = 1"
| "page_type_byte PageInventory = 2"
| "page_type_byte TransactionInventory = 3"
| "page_type_byte Pointer = 4"
| "page_type_byte Data = 5"
| "page_type_byte IndexRoot = 6"
| "page_type_byte Index = 7"
| "page_type_byte Blob = 8"
| "page_type_byte Generators = 9"
| "page_type_byte ScnInventory = 10"

definition from_byte :: "byte \<Rightarrow> page_type option" where
  "from_byte b =
     (if b = 0 then Some Undefined else if b = 1 then Some Header else if b = 2 then Some PageInventory
      else if b = 3 then Some TransactionInventory else if b = 4 then Some Pointer
      else if b = 5 then Some Data else if b = 6 then Some IndexRoot else if b = 7 then Some Index
      else if b = 8 then Some Blob else if b = 9 then Some Generators
      else if b = 10 then Some ScnInventory else None)"

fun page_type_name :: "page_type \<Rightarrow> string" where
  "page_type_name Undefined = ''undefined''"
| "page_type_name Header = ''header''"
| "page_type_name PageInventory = ''page inventory (PIP)''"
| "page_type_name TransactionInventory = ''transaction inventory (TIP)''"
| "page_type_name Pointer = ''pointer''"
| "page_type_name Data = ''data''"
| "page_type_name IndexRoot = ''index root''"
| "page_type_name Index = ''b-tree''"
| "page_type_name Blob = ''blob''"
| "page_type_name Generators = ''generators''"
| "page_type_name ScnInventory = ''SCN inventory''"

lemma from_byte_page_type [simp]: "from_byte (page_type_byte t) = Some t"
  by (cases t) (simp_all add: from_byte_def)

lemma page_type_byte_inject [simp]: "page_type_byte s = page_type_byte t \<longleftrightarrow> s = t"
  by (metis from_byte_page_type option.inject)

lemma from_byte_Some: "from_byte b = Some t \<longleftrightarrow> b = page_type_byte t"
  by (cases t) (auto simp: from_byte_def)

record page_header =
  pag_type :: byte
  pag_flags :: byte
  pag_generation :: u32
  pag_scn :: u32
  pag_pageno :: u32

definition PAGE_HEADER_SIZE :: nat where "PAGE_HEADER_SIZE = 16"

definition decode_page_header :: "byte list \<Rightarrow> page_header option run" where
  "decode_page_header page =
     (if length page < PAGE_HEADER_SIZE then Ret None
      else do {
        t \<leftarrow> rs_index page 0;
        f \<leftarrow> rs_index page 1;
        g \<leftarrow> u32_at page 4;
        scn \<leftarrow> u32_at page 8;
        no \<leftarrow> u32_at page 12;
        Ret (Some \<lparr>pag_type = t, pag_flags = f, pag_generation = g, pag_scn = scn, pag_pageno = no\<rparr>)
      })"

lemma decode_page_header_total: "\<exists>r. decode_page_header page = Ret r"
  using u_at_inside(2) [of 4 page] u_at_inside(2) [of 8 page] u_at_inside(2) [of 12 page]
  by (auto simp: decode_page_header_def PAGE_HEADER_SIZE_def rs_index_def)

subsection \<open>The census\<close>

record census_counts =
  census_page_size :: nat
  total_pages :: nat
  counts :: "page_type \<Rightarrow> nat"
  unknown :: nat

definition is_power_of_two :: "nat \<Rightarrow> bool" where
  "is_power_of_two n \<longleftrightarrow> n \<in> (\<lambda>k. 2 ^ k) ` {..<64}"

fun census_loop :: "byte list list \<Rightarrow> census_counts \<Rightarrow> census_counts run" where
  "census_loop [] c = Ret c"
| "census_loop (chunk # rest) c =
     do {
       b \<leftarrow> rs_index chunk 0;
       let c = c\<lparr>total_pages := total_pages c + 1\<rparr>;
       census_loop rest
         (case from_byte b of
            Some t \<Rightarrow> c\<lparr>counts := (counts c)(t := counts c t + 1)\<rparr>
          | None \<Rightarrow> c\<lparr>unknown := unknown c + 1\<rparr>)
     }"

definition census :: "image \<Rightarrow> census_counts option run" where
  "census file =
     (let page_size = img_page_size file in
      if page_size = 0 \<or> \<not> is_power_of_two page_size \<or> byte_len file < page_size then Ret None
      else map_option Some (census_loop (whole_pages file)
        \<lparr>census_page_size = page_size, total_pages = 0, counts = (\<lambda>_. 0), unknown = 0\<rparr>))"

lemma census_loop_counts:
  assumes "\<forall>p \<in> set ps. p \<noteq> []"
  shows "\<exists>c'. census_loop ps c = Ret c' \<and> total_pages c' = total_pages c + length ps \<and>
    census_page_size c' = census_page_size c \<and>
    (\<forall>t. counts c' t = counts c t + length (filter (\<lambda>p. hd p = page_type_byte t) ps)) \<and>
    unknown c' = unknown c + length (filter (\<lambda>p. from_byte (hd p) = None) ps)"
  using assms
proof (induction ps arbitrary: c)
  case (Cons p ps)
  define c1 where "c1 = c\<lparr>total_pages := total_pages c + 1\<rparr>"
  define c2 where "c2 = (case from_byte (hd p) of
      Some t \<Rightarrow> c1\<lparr>counts := (counts c1)(t := counts c1 t + 1)\<rparr>
    | None \<Rightarrow> c1\<lparr>unknown := unknown c1 + 1\<rparr>)"
  have "rs_index p 0 = Ret (hd p)" using Cons.prems by (simp add: rs_index_def hd_conv_nth)
  then have step: "census_loop (p # ps) c = census_loop ps c2"
    by (cases "from_byte (hd p)") (simp_all add: c1_def c2_def)
  have "\<forall>q \<in> set ps. q \<noteq> []" using Cons.prems by simp
  from Cons.IH [OF this, of c2] show ?case
    unfolding step
    by (cases "from_byte (hd p)") (auto simp: c1_def c2_def from_byte_Some split: if_splits)
qed simp

text \<open>The census counts every whole page exactly once: the totals per page type and the
  unrecognised pages are the numbers of pages with those type bytes, and they add up to the number
  of whole pages of the file.\<close>

lemma census_counts_pages:
  assumes "census file = Ret (Some c)"
  shows "total_pages c = length (whole_pages file) \<and>
    (\<forall>t. counts c t = length (filter (\<lambda>p. hd p = page_type_byte t) (whole_pages file))) \<and>
    unknown c = length (filter (\<lambda>p. from_byte (hd p) = None) (whole_pages file))"
proof -
  have ne: "\<forall>p \<in> set (whole_pages file). p \<noteq> []"
    using assms by (auto simp: census_def whole_pages_def Let_def split: if_splits)
  have "census_loop (whole_pages file)
      \<lparr>census_page_size = img_page_size file, total_pages = 0, counts = (\<lambda>_. 0), unknown = 0\<rparr> = Ret c"
    using assms by (auto simp: census_def Let_def split: if_splits)
  with census_loop_counts [OF ne, of "\<lparr>census_page_size = img_page_size file, total_pages = 0, counts = (\<lambda>_. 0), unknown = 0\<rparr>"]
  show ?thesis by auto
qed

lemma is_power_of_two_code [code]: "is_power_of_two n = list_ex (\<lambda>k. n = 2 ^ k) [0..<64]"
  by (auto simp: is_power_of_two_def list_ex_iff)

end
