(* ===== verification/Gen.thy ===== *)
theory Gen
  imports Pages
begin

text \<open>
  The generator vector of \<^verbatim>\<open>crates/ods/src/gen.rs\<close>: signed 64-bit values spread over the
  generator pages of an image. A value of type i64 is a 64-bit word, read with \<^verbatim>\<open>sint\<close>; the
  addition of \<^verbatim>\<open>bump\<close> wraps as the word addition does.
\<close>

type_synonym i64 = "64 word"

definition gens_per_page :: "nat \<Rightarrow> nat" where
  "gens_per_page page_size = (page_size - 24) div 8"

text \<open>The scan for the generator page of a sequence number.\<close>

fun find_generator_page :: "image \<Rightarrow> nat \<Rightarrow> u32 \<Rightarrow> nat list \<Rightarrow> u32 option run" where
  "find_generator_page im page_size sequence [] = Ret None"
| "find_generator_page im page_size sequence (pno # rest) =
     (case page_at im page_size (of_nat pno) of
        None \<Rightarrow> Ret None
      | Some page \<Rightarrow>
          do {
            t \<leftarrow> rs_index page 0;
            if t \<noteq> page_type_byte Generators then find_generator_page im page_size sequence rest
            else do {
              sq \<leftarrow> u32_at page 16;
              if sq = sequence then Ret (Some (of_nat pno))
              else find_generator_page im page_size sequence rest
            }
          })"

definition slot_offset :: "image \<Rightarrow> nat \<Rightarrow> i64 \<Rightarrow> (u32 \<times> nat) option run" where
  "slot_offset im page_size gid =
     (if sint gid < 0 then Ret None
      else let i = unat gid; per = gens_per_page page_size in
        if per = 0 then Ret None
        else do {
          found \<leftarrow> find_generator_page im page_size (of_nat (i div per))
                    [0..<unat (of_nat (byte_len im div page_size) :: u32)];
          Ret (map_option (\<lambda>pno. (pno, 24 + (i mod per) * 8)) found)
        })"

definition gen_read :: "image \<Rightarrow> nat \<Rightarrow> i64 \<Rightarrow> i64 run" where
  "gen_read im page_size gid =
     do {
       slot \<leftarrow> slot_offset im page_size gid;
       Ret (case slot of
              None \<Rightarrow> 0
            | Some (pno, at) \<Rightarrow>
                (case Option.bind (page_at im page_size pno) (\<lambda>p. get_range p at (at + 8)) of
                   Some raw \<Rightarrow> of_nat (le_nat raw)
                 | None \<Rightarrow> 0))
     }"

definition gen_write :: "image \<Rightarrow> nat \<Rightarrow> i64 \<Rightarrow> i64 \<Rightarrow> (string + image) run" where
  "gen_write im page_size gid v =
     do {
       slot \<leftarrow> slot_offset im page_size gid;
       (case slot of
          None \<Rightarrow> Ret (Inl ''generator page not allocated'')
        | Some (pno, at) \<Rightarrow>
            (case page_at im page_size pno of
               None \<Rightarrow> Ret (Inl ''generator page out of range'')
             | Some page \<Rightarrow>
                 do { page' \<leftarrow> copy_at page at (u64_bytes v); Ret (Inr (set_page pno page' im)) }))
     }"

definition gen_bump :: "image \<Rightarrow> nat \<Rightarrow> i64 \<Rightarrow> i64 \<Rightarrow> (string + i64 \<times> image) run" where
  "gen_bump im page_size gid step =
     do {
       old \<leftarrow> gen_read im page_size gid;
       r \<leftarrow> gen_write im page_size gid (old + step);
       Ret (case r of Inl e \<Rightarrow> Inl e | Inr im' \<Rightarrow> Inr (old + step, im'))
     }"

definition GEN_MASTER :: i64 where "GEN_MASTER = 0"
definition GEN_SECURITY_CLASS :: i64 where "GEN_SECURITY_CLASS = 1"

subsection \<open>A write leaves the vector's shape alone\<close>

lemma find_generator_page_found:
  assumes "find_generator_page im ps sq pnos = Ret (Some pno)"
  shows "\<exists>page. page_at im ps pno = Some page \<and> u32_at page 16 = Ret sq"
  using assms
proof (induction pnos)
  case (Cons p pnos)
  then show ?case by (auto split: option.splits if_splits Option.bind_splits)
qed simp

text \<open>Bytes from offset 24 on do not matter for the scan.\<close>

lemma find_generator_page_cong:
  assumes "page_at im ps pno = Some page" "24 \<le> at" "at + 8 \<le> length page"
  shows "find_generator_page (set_page pno (splice page at (u64_bytes v)) im) ps sq pnos
    = find_generator_page im ps sq pnos"
proof (induction pnos)
  case (Cons p pnos)
  have "u32_at (splice page at (u64_bytes v)) 16 = u32_at page 16"
    using assms by (intro u_at_splice_other) simp_all
  moreover have "rs_index (splice page at (u64_bytes v)) 0 = rs_index page 0"
    using assms by (simp add: rs_index_def nth_splice)
  ultimately show ?case
    using Cons assms by (auto simp: page_at_def page_set_page cong: if_cong split: option.splits)
qed simp

lemma slot_offset_cong:
  assumes "page_at im ps pno = Some page" "24 \<le> at" "at + 8 \<le> length page"
  shows "slot_offset (set_page pno (splice page at (u64_bytes v)) im) ps gid = slot_offset im ps gid"
proof -
  have "byte_len (set_page pno (splice page at (u64_bytes v)) im) = byte_len im"
    using assms by (intro byte_len_set_page [of _ _ page]) (simp_all add: page_at_def)
  then show ?thesis
    using find_generator_page_cong [OF assms] by (simp add: slot_offset_def Let_def)
qed

lemma gen_write_ok:
  assumes "gen_write im ps gid v = Ret (Inr im')"
  obtains pno at page where "slot_offset im ps gid = Ret (Some (pno, at))" "page_at im ps pno = Some page"
    "24 \<le> at" "at + 8 \<le> length page" "im' = set_page pno (splice page at (u64_bytes v)) im"
  using assms
  by (auto simp: gen_write_def copy_at_def slot_offset_def Let_def
      split: option.splits if_splits Option.bind_splits)

text \<open>The slots of two generators whose ids lie in the 32-bit range of page sequences.\<close>

lemma slot_offset_Some:
  assumes "slot_offset im ps gid = Ret (Some (pno, at))"
  shows "0 \<le> sint gid" "0 < gens_per_page ps" "at = 24 + unat gid mod gens_per_page ps * 8"
    "\<exists>page. page_at im ps pno = Some page \<and> u32_at page 16 = Ret (of_nat (unat gid div gens_per_page ps))"
  using assms find_generator_page_found
  by (auto simp: slot_offset_def Let_def split: option.splits if_splits Option.bind_splits)

lemma u_bytes_value: "of_nat (le_nat (u64_bytes v)) = (v :: u64)"
  by (simp add: u64_bytes_def le_nat_le_bytes)

text \<open>A write is read back, keeps the image's size, and leaves every other generator alone, even
  one on the same page, for ids whose page sequence number fits in 32 bits.\<close>

lemma gen_read_after_write:
  assumes wrote: "gen_write im ps gid v = Ret (Inr im')"
    and range: "unat gid div gens_per_page ps < 2 ^ 32" "unat other div gens_per_page ps < 2 ^ 32"
  shows "gen_read im' ps gid = Ret v" "byte_len im' = byte_len im"
    "other \<noteq> gid \<Longrightarrow> gen_read im' ps other = gen_read im ps other"
proof -
  obtain pno at page where w: "slot_offset im ps gid = Ret (Some (pno, at))" "page_at im ps pno = Some page"
    "24 \<le> at" "at + 8 \<le> length page" and im': "im' = set_page pno (splice page at (u64_bytes v)) im"
    using wrote by (rule gen_write_ok)
  note cong = slot_offset_cong [OF w(2-4), of v, folded im']
  have read: "page_at im' ps q = (if q = pno then Some (splice page at (u64_bytes v)) else page_at im ps q)" for q
    using w(2) by (simp add: im' page_at_def page_set_page)
  have "get_range (splice page at (u64_bytes v)) at (at + 8) = Some (u64_bytes v)"
    using w(4) splice_window [of at "u64_bytes v" page] by (simp add: get_range_def)
  then show "gen_read im' ps gid = Ret v"
    by (simp add: gen_read_def cong w(1) read u_bytes_value)
  show "byte_len im' = byte_len im"
    unfolding im' using w by (intro byte_len_set_page [of _ _ page]) (simp_all add: page_at_def)
  assume "other \<noteq> gid"
  have same: "Option.bind (page_at im' ps pno') (\<lambda>p. get_range p at' (at' + 8))
      = Option.bind (page_at im ps pno') (\<lambda>p. get_range p at' (at' + 8))"
    if so: "slot_offset im ps other = Ret (Some (pno', at'))" for pno' at'
  proof (cases "pno' = pno")
    case True
    note a = slot_offset_Some [OF w(1)] and b = slot_offset_Some [OF so]
    have "(of_nat (unat gid div gens_per_page ps) :: u32) = of_nat (unat other div gens_per_page ps)"
      using a(4) b(4) True by auto
    then have "unat (of_nat (unat gid div gens_per_page ps) :: u32) = unat (of_nat (unat other div gens_per_page ps) :: u32)"
      by simp
    then have "unat gid div gens_per_page ps = unat other div gens_per_page ps"
      using range by (simp only: unat_of_nat) simp
    moreover have "unat other \<noteq> unat gid" using \<open>other \<noteq> gid\<close> by (simp add: word_unat_eq_iff)
    ultimately have "unat gid mod gens_per_page ps \<noteq> unat other mod gens_per_page ps"
      by (metis div_mult_mod_eq)
    then have "at' + 8 \<le> at \<or> at + 8 \<le> at'" unfolding a(3) b(3) by (auto simp: neq_iff)
    then show ?thesis
      using w(2,4) splice_outside [of at "u64_bytes v" page at' 8] True
      by (simp add: read get_range_def)
  qed (simp add: read)
  show "gen_read im' ps other = gen_read im ps other"
    using same by (auto simp: gen_read_def cong split: option.split intro!: Option.bind_cong)
qed

text \<open>\<^verbatim>\<open>GEN_ID\<close> is a read-modify-write of one slot: a successful bump answers the old value plus
  the step (wrapping at 64 bits), the generator then reads as the answer, the image keeps its
  size, and every other generator reads as before, even one on the same page.\<close>

lemma gen_bump_adds:
  assumes bump: "gen_bump im ps gid step = Ret (Inr (v, im'))"
    and range: "unat gid div gens_per_page ps < 2 ^ 32" "unat other div gens_per_page ps < 2 ^ 32"
  shows "\<exists>old. gen_read im ps gid = Ret old \<and> v = old + step \<and> gen_read im' ps gid = Ret v \<and>
    byte_len im' = byte_len im \<and> (other \<noteq> gid \<longrightarrow> gen_read im' ps other = gen_read im ps other)"
proof -
  obtain old where old: "gen_read im ps gid = Ret old" "v = old + step" "gen_write im ps gid v = Ret (Inr im')"
    using bump by (auto simp: gen_bump_def split: Option.bind_splits sum.splits)
  then show ?thesis using gen_read_after_write [OF old(3) range] by blast
qed

definition gen_demo :: image where
  "gen_demo = from_bytes (9 # replicate 23 0 @ [5, 0, 0, 0, 0, 0, 0, 0] @ [7, 0, 0, 0, 0, 0, 0, 0]) 40"

end
