(* ===== verification/Sqz.thy ===== *)
theory Sqz
  imports Prelude
begin

text \<open>
  Record run-length compression, \<^verbatim>\<open>crates/ods/src/sqz.rs\<close>: the decompressor
  \<^verbatim>\<open>unpack_prefix\<close> (and \<^verbatim>\<open>unpack\<close>, its whole-record instance) and the compressor
  \<^verbatim>\<open>pack\<close>. The read position \<^verbatim>\<open>i\<close> of the decompressor is represented by the suffix
  \<^verbatim>\<open>input[i..]\<close> still to be read; the compressor keeps its indices.

  The theorems: \<^verbatim>\<open>unpack\<close> inverts \<^verbatim>\<open>pack\<close>, the compressed stream never outgrows the
  buffer \<^verbatim>\<open>pack\<close> reserves for it, a prefix read agrees with the whole read, and the
  decompressor rejects exactly the truncated streams.
\<close>

definition USIZE_MAX :: nat where "USIZE_MAX = 2 ^ 64 - 1"

subsection \<open>The decompressor\<close>

text \<open>The length of a repeat run: the control byte itself, or the 16-bit or 32-bit length
  that follows a control byte of -1 or -2.\<close>

definition run_header :: "int \<Rightarrow> byte list \<Rightarrow> (nat \<times> byte list) option" where
  "run_header control rest =
     (if control = -1 then
        (if length rest < 2 then None else Some (le_nat (take 2 rest), drop 2 rest))
      else if control = -2 then
        (if length rest < 4 then None else Some (le_nat (take 4 rest), drop 4 rest))
      else Some (nat (- control), rest))"

lemma run_header_shorter: "run_header c rest = Some (n, rest') \<Longrightarrow> length rest' \<le> length rest"
  by (auto simp: run_header_def split: if_splits)

function unpack_loop :: "nat \<Rightarrow> byte list \<Rightarrow> byte list \<Rightarrow> byte list option" where
  "unpack_loop min_len out [] = Some out"
| "unpack_loop min_len out (c # rest) =
     (if min_len \<le> length out then Some out
      else
        let control = sint c in
        if 0 \<le> control then
          let n = nat control in
          (if length rest < n then None
           else unpack_loop min_len (out @ take n rest) (drop n rest))
        else
          (case run_header control rest of
             None \<Rightarrow> None
           | Some (run, []) \<Rightarrow> None
           | Some (run, b # rest') \<Rightarrow> unpack_loop min_len (out @ replicate run b) rest'))"
  by pat_completeness auto
termination
  by (relation "measure (\<lambda>(m, out, rest). length rest)")
    (auto dest!: run_header_shorter)

definition unpack_prefix :: "byte list \<Rightarrow> nat \<Rightarrow> byte list option" where
  "unpack_prefix input min_len = unpack_loop min_len [] input"

definition unpack :: "byte list \<Rightarrow> byte list option" where
  "unpack input = unpack_prefix input USIZE_MAX"

subsection \<open>The compressor\<close>

text \<open>\<^verbatim>\<open>flush_literals\<close> writes \<^verbatim>\<open>input[from..to]\<close> as literal runs of at most 127 bytes.\<close>

function flush_literals :: "byte list \<Rightarrow> nat \<Rightarrow> nat \<Rightarrow> byte list \<Rightarrow> byte list" where
  "flush_literals input s to out =
     (if s < to then
        let n = min (to - s) 127 in
        flush_literals input (s + n) to (out @ [of_nat n] @ take n (drop s input))
      else out)"
  by pat_completeness auto
termination
  by (relation "measure (\<lambda>(input, s, to, out). to - s)") auto

declare flush_literals.simps [simp del]

text \<open>The inner loop that measures the run starting at \<^verbatim>\<open>i\<close>.\<close>

function run_from :: "byte list \<Rightarrow> nat \<Rightarrow> byte \<Rightarrow> nat \<Rightarrow> nat" where
  "run_from input i b run =
     (if i + run < length input \<and> input ! (i + run) = b then run_from input i b (run + 1) else run)"
  by pat_completeness auto
termination
  by (relation "measure (\<lambda>(input, i, b, run). length input - (i + run))") auto

declare run_from.simps [simp del]

text \<open>The loop that emits one run, in pieces of at most 65535 bytes; what it leaves over
  (fewer than three bytes) goes back to the literals.\<close>

function emit_run :: "byte \<Rightarrow> nat \<Rightarrow> byte list \<Rightarrow> byte list \<times> nat" where
  "emit_run b left out =
     (if 3 \<le> left then
        (if 128 < left then
           let n = min left 65535 in
           emit_run b (left - n) (out @ [of_int (-1)] @ le_bytes 2 n @ [b])
         else emit_run b 0 (out @ [of_int (- int left), b]))
      else (out, left))"
  by pat_completeness auto
termination
  by (relation "measure (\<lambda>(b, left, out). left)") auto

declare emit_run.simps [simp del]

lemma run_from_ge: "run \<le> run_from input i b run"
proof (induction input i b run rule: run_from.induct)
  case (1 input i b run)
  then show ?case by (subst run_from.simps) auto
qed

lemma emit_run_left: "snd (emit_run b left out) \<le> left \<and> snd (emit_run b left out) < 3"
proof (induction b left out rule: emit_run.induct)
  case (1 b left out)
  then show ?case
    by (subst (1 2) emit_run.simps) (auto simp: Let_def)
qed

function pack_loop :: "byte list \<Rightarrow> nat \<Rightarrow> nat \<Rightarrow> byte list \<Rightarrow> byte list" where
  "pack_loop input i literal_start out =
     (if i < length input then
        let b = input ! i; run = run_from input i b 1 in
        if 3 \<le> run then
          let out1 = flush_literals input literal_start i out;
              (out2, left) = emit_run b run out1;
              i' = i + (run - left) in
          pack_loop input (i' + left) i' out2
        else pack_loop input (i + run) literal_start out
      else flush_literals input literal_start (length input) out)"
  by pat_completeness auto
termination
proof (relation "measure (\<lambda>(input, i, ls, out). length input - i)")
  fix input :: "byte list" and i ls :: nat and out b run out1 z out2 left i'
  assume *: "i < length input" "b = input ! i" "run = run_from input i b 1" "3 \<le> run"
    "out1 = flush_literals input ls i out" "z = emit_run b run out1" "(out2, left) = z"
    "i' = i + (run - left)"
  have "left \<le> run" using emit_run_left [of b run out1] *(6,7) by (metis snd_conv)
  with * show "((input, i' + left, i', out2), input, i, ls, out) \<in> measure (\<lambda>(input, i, ls, out). length input - i)"
    by auto
next
  fix input :: "byte list" and i ls :: nat and out b run
  assume "i < length input" "b = input ! i" "run = run_from input i b 1" "\<not> 3 \<le> run"
  then show "((input, i + run, ls, out), input, i, ls, out) \<in> measure (\<lambda>(input, i, ls, out). length input - i)"
    using run_from_ge [of 1 input i b] by auto
qed auto

declare pack_loop.simps [simp del]

definition pack :: "byte list \<Rightarrow> byte list" where
  "pack input = pack_loop input 0 0 []"

subsection \<open>What a piece of stream decodes to\<close>

text \<open>\<^verbatim>\<open>decodes s d\<close>: the stream piece \<^verbatim>\<open>s\<close> stands for the data \<^verbatim>\<open>d\<close>, whatever was produced
  before it and whatever follows it. Every piece the compressor emits is described by it.\<close>

definition decodes :: "byte list \<Rightarrow> byte list \<Rightarrow> bool" where
  "decodes s d \<longleftrightarrow> (\<forall>m acc rest. length acc + length d < m \<longrightarrow>
     unpack_loop m acc (s @ rest) = unpack_loop m (acc @ d) rest)"

named_theorems decode_pieces

lemma decodes_Nil [decode_pieces]: "decodes [] []"
  by (simp add: decodes_def)

lemma decodes_append: "decodes s d \<Longrightarrow> decodes t e \<Longrightarrow> decodes (s @ t) (d @ e)"
  unfolding decodes_def by (metis (no_types, lifting) add.assoc append.assoc length_append le_add1 order.strict_trans1)

lemma sint_literal: "n < 128 \<Longrightarrow> sint (of_nat n :: byte) = int n"
  by (simp add: sint_uint unsigned_of_nat take_bit_nat_eq_self signed_take_bit_int_eq_self_iff)

lemma sint_repeat: "0 < n \<Longrightarrow> n \<le> 128 \<Longrightarrow> sint (of_int (- int n) :: byte) = - int n"
  by (simp add: signed_of_int signed_take_bit_int_eq_self_iff del: of_int_minus of_int_of_nat_eq)

lemma decodes_literal [decode_pieces]:
  assumes "length d < 128" shows "decodes (of_nat (length d) # d) d"
  using assms by (auto simp: decodes_def sint_literal)

lemma decodes_repeat [decode_pieces]:
  assumes "3 \<le> n" "n \<le> 128" shows "decodes [of_int (- int n), b] (replicate n b)"
proof -
  have "run_header (- int n) rest = Some (n, rest)" for rest
    using assms by (simp add: run_header_def)
  with assms show ?thesis
    unfolding decodes_def using sint_repeat [of n] by (auto simp: Let_def)
qed

lemma decodes_long [decode_pieces]:
  assumes "n \<le> 65535" shows "decodes ([of_int (-1)] @ le_bytes 2 n @ [b]) (replicate n b)"
proof -
  have "run_header (- 1) (le_bytes 2 n @ b # rest) = Some (n, b # rest)" for rest
    using assms by (simp add: run_header_def le_nat_le_bytes)
  moreover have "sint (of_int (-1) :: byte) = -1" using sint_repeat [of 1] by simp
  ultimately show ?thesis by (auto simp: decodes_def Let_def)
qed

lemma decodes_flush_literals:
  assumes "decodes out d" "to \<le> length input"
  shows "decodes (flush_literals input s to out) (d @ take (to - s) (drop s input))"
  using assms
proof (induction input s to out arbitrary: d rule: flush_literals.induct)
  case (1 input s to out)
  show ?case
  proof (cases "s < to")
    case True
    define n where "n = min (to - s) 127"
    have n: "0 < n" "n \<le> 127" "s + n \<le> to" using True by (auto simp: n_def)
    let ?l = "take n (drop s input)"
    have len: "length ?l = n" using n 1(3) by simp
    have "decodes (out @ of_nat n # ?l) (d @ ?l)"
      using 1(2) decodes_literal [of ?l] len n by (intro decodes_append) auto
    then have "decodes (flush_literals input (s + n) to (out @ [of_nat n] @ ?l))
        ((d @ ?l) @ take (to - (s + n)) (drop (s + n) input))"
      using 1(1) [OF True n_def, of "d @ ?l"] 1(3) by simp
    moreover have "(d @ ?l) @ take (to - (s + n)) (drop (s + n) input) = d @ take (to - s) (drop s input)"
      using n take_add [of n "to - (s + n)" "drop s input"] by (simp add: add.commute)
    ultimately show ?thesis
      using True by (subst flush_literals.simps) (simp add: Let_def flip: n_def)
  next
    case False
    then show ?thesis using 1(2) by (subst flush_literals.simps) simp
  qed
qed

lemma decodes_emit_run:
  assumes "decodes out d"
  shows "decodes (fst (emit_run b left out)) (d @ replicate (left - snd (emit_run b left out)) b)"
  using assms
proof (induction b left out arbitrary: d rule: emit_run.induct)
  case (1 b left out)
  consider "left < 3" | "3 \<le> left" "left \<le> 128" | "128 < left" by linarith
  then show ?case
  proof cases
    case 1
    then show ?thesis using \<open>decodes out d\<close> by (subst (1 2) emit_run.simps) simp
  next
    case 2
    then have "emit_run b left out = (out @ [of_int (- int left), b], 0)"
      by (simp add: emit_run.simps [of b left] emit_run.simps [of b 0])
    then show ?thesis using 2 \<open>decodes out d\<close> by (simp add: decodes_append decodes_repeat [simplified])
  next
    case 3
    define n where "n = min left 65535"
    have n_le: "n \<le> left" by (simp add: n_def)
    let ?out = "out @ [of_int (-1)] @ le_bytes 2 n @ [b]"
    have step: "emit_run b left out = emit_run b (left - n) ?out"
      using 3 by (subst emit_run.simps) (simp add: Let_def n_def)
    have "decodes ?out (d @ replicate n b)"
      using decodes_append [OF \<open>decodes out d\<close> decodes_long [of n b]] by (simp add: n_def)
    then have "decodes (fst (emit_run b (left - n) ?out))
        ((d @ replicate n b) @ replicate (left - n - snd (emit_run b (left - n) ?out)) b)"
      by (intro 1(1) [OF _ _ n_def]) (use 3 in auto)
    moreover have "n + (left - n - snd (emit_run b (left - n) ?out)) = left - snd (emit_run b (left - n) ?out)"
      using emit_run_left [of b "left - n" ?out] n_le by arith
    ultimately show ?thesis by (simp add: step flip: replicate_add)
  qed
qed

text \<open>The run the compressor measures at \<^verbatim>\<open>i\<close> is really there.\<close>

lemma run_from_run:
  assumes "i + run \<le> length input" "take run (drop i input) = replicate run b"
  shows "i + run_from input i b run \<le> length input \<and>
    take (run_from input i b run) (drop i input) = replicate (run_from input i b run) b"
  using assms
proof (induction input i b run rule: run_from.induct)
  case (1 input i b run)
  show ?case
  proof (cases "i + run < length input \<and> input ! (i + run) = b")
    case True
    then have "run < length (drop i input)" "drop i input ! run = b" by auto
    then have "take (Suc run) (drop i input) = replicate run b @ [b]"
      using 1(3) by (simp only: take_Suc_conv_app_nth)
    then have "take (run + 1) (drop i input) = replicate (run + 1) b"
      by (simp add: replicate_append_same)
    then have "i + run_from input i b (run + 1) \<le> length input \<and>
        take (run_from input i b (run + 1)) (drop i input) = replicate (run_from input i b (run + 1)) b"
      using 1(1) [OF True] True by simp
    then show ?thesis using True by (subst (1 2 3) run_from.simps) simp
  next
    case False
    then show ?thesis using 1(2,3) by (subst (1 2 3) run_from.simps) auto
  qed
qed

lemma run_from_1:
  assumes "i < length input" "run = run_from input i (input ! i) 1"
  shows "1 \<le> run" "i + run \<le> length input" "take run (drop i input) = replicate run (input ! i)"
  using run_from_run [of i 1 input "input ! i"] run_from_ge [of 1 input i "input ! i"] assms
  by (simp_all add: take_Suc_conv_app_nth [of 0, simplified] hd_drop_conv_nth take_Suc)

text \<open>One turn of the main loop, as the proofs below use it.\<close>

lemma pack_loop_run:
  assumes "i < length input" "run = run_from input i (input ! i) 1" "3 \<le> run"
    "emit_run (input ! i) run (flush_literals input ls i out) = (out2, left)"
  shows "pack_loop input i ls out = pack_loop input (i + run) (i + (run - left)) out2"
    "left \<le> run" "left < 3"
  using emit_run_left [of "input ! i" run "flush_literals input ls i out"] assms
  by (simp_all add: pack_loop.simps [of input i] Let_def)

lemma pack_loop_literal:
  assumes "i < length input" "run = run_from input i (input ! i) 1" "run < 3"
  shows "pack_loop input i ls out = pack_loop input (i + run) ls out"
  using assms by (simp add: pack_loop.simps [of input i] Let_def)

lemma decodes_pack_loop:
  assumes "decodes out (take ls input)" "ls \<le> i" "i \<le> length input"
  shows "decodes (pack_loop input i ls out) input"
  using assms
proof (induction "length input - i" arbitrary: i ls out rule: less_induct)
  case less
  show ?case
  proof (cases "i < length input")
    case False
    then show ?thesis using decodes_flush_literals [OF less(2), where to = "length input" and input = input and s = ls] less(3,4)
      by (subst pack_loop.simps) simp
  next
    case i: True
    define run where "run = run_from input i (input ! i) 1"
    note run = run_from_1 [OF i run_def]
    show ?thesis
    proof (cases "3 \<le> run")
      case False
      then show ?thesis using less(1) [of "i + run" out ls] less(2,3) i run
        by (simp add: pack_loop_literal [OF i run_def])
    next
      case True
      obtain out2 left where e: "emit_run (input ! i) run (flush_literals input ls i out) = (out2, left)"
        by fastforce
      note step = pack_loop_run [OF i run_def True e]
      have "decodes (flush_literals input ls i out) (take i input)"
        using decodes_flush_literals [OF less(2) less(4), where s = ls] less(3)
        by (simp flip: take_add)
      from decodes_emit_run [OF this, of "input ! i" run]
      have "decodes out2 (take i input @ replicate (run - left) (input ! i))" by (simp add: e)
      moreover have "take (run - left) (drop i input) = replicate (run - left) (input ! i)"
        using arg_cong [OF run(3), of "take (run - left)"] by simp
      ultimately have "decodes out2 (take (i + (run - left)) input)"
        by (simp add: take_add)
      then show ?thesis
        unfolding step(1) using run i by (intro less(1)) auto
    qed
  qed
qed

lemma decodes_pack: "decodes (pack input) input"
  unfolding pack_def by (rule decodes_pack_loop) (simp_all add: decodes_Nil)

subsection \<open>The stream grammar\<close>

text \<open>What a well-formed stream is, independently of any loop: a sequence of items, each
  with its bytes in the stream and the data it stands for.\<close>

datatype item =
    Literal "byte list"
  | Repeat nat byte
  | Run16 nat byte
  | Run32 nat byte

fun item_ok :: "item \<Rightarrow> bool" where
  "item_ok (Literal d) \<longleftrightarrow> length d < 128"
| "item_ok (Repeat n b) \<longleftrightarrow> 3 \<le> n \<and> n \<le> 128"
| "item_ok (Run16 n b) \<longleftrightarrow> n < 2 ^ 16"
| "item_ok (Run32 n b) \<longleftrightarrow> n < 2 ^ 32"

fun item_stream :: "item \<Rightarrow> byte list" where
  "item_stream (Literal d) = of_nat (length d) # d"
| "item_stream (Repeat n b) = [of_int (- int n), b]"
| "item_stream (Run16 n b) = [of_int (-1)] @ le_bytes 2 n @ [b]"
| "item_stream (Run32 n b) = [of_int (-2)] @ le_bytes 4 n @ [b]"

fun item_data :: "item \<Rightarrow> byte list" where
  "item_data (Literal d) = d"
| "item_data (Repeat n b) = replicate n b"
| "item_data (Run16 n b) = replicate n b"
| "item_data (Run32 n b) = replicate n b"

lemma decodes_run32 [decode_pieces]:
  assumes "n < 2 ^ 32" shows "decodes ([of_int (-2)] @ le_bytes 4 n @ [b]) (replicate n b)"
proof -
  have "run_header (- 2) (le_bytes 4 n @ b # rest) = Some (n, b # rest)" for rest
    using assms by (simp add: run_header_def le_nat_le_bytes)
  moreover have "sint (of_int (-2) :: byte) = -2" using sint_repeat [of 2] by simp
  ultimately show ?thesis by (auto simp: decodes_def Let_def)
qed

lemma decodes_item: "item_ok it \<Longrightarrow> decodes (item_stream it) (item_data it)"
  using decodes_long [of _] decodes_run32 decodes_literal decodes_repeat
  by (cases it) auto

lemma decodes_items:
  "\<forall>it \<in> set its. item_ok it \<Longrightarrow>
   decodes (concat (map item_stream its)) (concat (map item_data its))"
  by (induction its) (simp_all add: decodes_Nil decodes_append decodes_item)

lemma le_bytes_take: "n \<le> length xs \<Longrightarrow> le_bytes n (le_nat (take n xs)) = take n xs"
  using le_bytes_le_nat [of "take n xs"] by simp

text \<open>One control byte with its operands is one item.\<close>

lemma run_header_item:
  assumes "run_header (sint c) rest = Some (n, b # rest')" "sint c < 0"
  shows "\<exists>it. item_ok it \<and> c # rest = item_stream it @ rest' \<and> item_data it = replicate n b"
proof -
  have c: "of_int (sint c) = c" by simp
  consider "sint c = -1" | "sint c = -2" | "sint c < -2" using assms(2) by linarith
  then show ?thesis
  proof cases
    case 1
    with assms have *: "2 \<le> length rest" "n = le_nat (take 2 rest)" "drop 2 rest = b # rest'"
      by (auto simp: run_header_def split: if_splits)
    have "rest = take 2 rest @ b # rest'" by (metis *(3) append_take_drop_id)
    moreover have "n < 2 ^ 16" using *(1,2) le_nat_bound [of "take 2 rest"] by simp
    ultimately show ?thesis using c 1 * le_bytes_take [of 2 rest]
      by (intro exI [of _ "Run16 n b"]) simp
  next
    case 2
    with assms have *: "4 \<le> length rest" "n = le_nat (take 4 rest)" "drop 4 rest = b # rest'"
      by (auto simp: run_header_def split: if_splits)
    have "rest = take 4 rest @ b # rest'" by (metis *(3) append_take_drop_id)
    moreover have "n < 2 ^ 32" using *(1,2) le_nat_bound [of "take 4 rest"] by simp
    ultimately show ?thesis using c 2 * le_bytes_take [of 4 rest]
      by (intro exI [of _ "Run32 n b"]) simp
  next
    case 3
    have "- 128 \<le> sint c" using sint_ge [of c] by simp
    moreover from 3 assms have "n = nat (- sint c)" "rest = b # rest'"
      by (auto simp: run_header_def split: if_splits)
    moreover from calculation 3 have "3 \<le> n" "n \<le> 128" by linarith+
    ultimately show ?thesis using c 3
      by (intro exI [of _ "Repeat n b"]) (simp del: of_int_minus of_int_of_nat_eq)
  qed
qed

lemma literal_item:
  assumes "0 \<le> sint c" "nat (sint c) \<le> length rest"
  shows "\<exists>it. item_ok it \<and> c # rest = item_stream it @ drop (nat (sint c)) rest \<and>
    item_data it = take (nat (sint c)) rest"
proof -
  have "sint c < 128" using sint_lt [of c] by simp
  moreover have "of_nat (nat (sint c)) = c" using assms(1) by simp
  ultimately show ?thesis using assms
    by (intro exI [of _ "Literal (take (nat (sint c)) rest)"]) (simp add: min_def)
qed

lemma unpack_loop_items:
  assumes "unpack_loop m out s = Some w" "length w < m"
  shows "\<exists>its. (\<forall>it \<in> set its. item_ok it) \<and> s = concat (map item_stream its) \<and>
    w = out @ concat (map item_data its)"
  using assms
proof (induction m out s rule: unpack_loop.induct)
  case (1 m out)
  then show ?case by (intro exI [of _ "[]"]) simp
next
  case (2 m out c rest)
  have live: "\<not> m \<le> length out" using 2(3,4) by auto
  have "\<exists>it out' s'. item_ok it \<and> c # rest = item_stream it @ s' \<and> out' = out @ item_data it \<and>
      (\<exists>its. (\<forall>it \<in> set its. item_ok it) \<and> s' = concat (map item_stream its) \<and>
        w = out' @ concat (map item_data its))"
  proof (cases "0 \<le> sint c")
    case True
    then have fits: "\<not> length rest < nat (sint c)" using 2(3) live by (auto simp: Let_def split: if_splits)
    then obtain it where "item_ok it" "c # rest = item_stream it @ drop (nat (sint c)) rest"
        "item_data it = take (nat (sint c)) rest"
      using literal_item [OF True, of rest] by auto
    moreover have "unpack_loop m (out @ take (nat (sint c)) rest) (drop (nat (sint c)) rest) = Some w"
      using 2(3) live True fits by (simp add: Let_def)
    ultimately show ?thesis using 2(1) [OF live refl True refl fits _ 2(4)]
      by (intro exI [of _ it] exI [of _ "out @ item_data it"] exI [of _ "drop (nat (sint c)) rest"]) simp
  next
    case False
    then obtain n b rest' where h: "run_header (sint c) rest = Some (n, b # rest')"
        and rec: "unpack_loop m (out @ replicate n b) rest' = Some w"
      using 2(3) live by (auto simp: Let_def split: option.splits list.splits)
    obtain it where "item_ok it" "c # rest = item_stream it @ rest'" "item_data it = replicate n b"
      using run_header_item [OF h] False by auto
    then show ?thesis using 2(2) [OF live refl False h refl refl rec 2(4)]
      by (intro exI [of _ it] exI [of _ "out @ item_data it"] exI [of _ rest']) simp
  qed
  then obtain it its where "item_ok it" "\<forall>it \<in> set its. item_ok it"
      "c # rest = item_stream it @ concat (map item_stream its)"
      "w = (out @ item_data it) @ concat (map item_data its)" by blast
  then show ?case by (intro exI [of _ "it # its"]) simp
qed

subsection \<open>The reserved capacity\<close>

lemma length_flush_literals:
  assumes "to \<le> length input"
  shows "length (flush_literals input s to out) = length out + (to - s) + (to - s + 126) div 127"
  using assms
proof (induction input s to out rule: flush_literals.induct)
  case (1 input s to out)
  show ?case
  proof (cases "s < to")
    case True
    define n where "n = min (to - s) 127"
    have n: "0 < n" "n \<le> 127" "s + n \<le> to" using True by (auto simp: n_def)
    have "length (flush_literals input s to out) =
        length (flush_literals input (s + n) to (out @ [of_nat n] @ take n (drop s input)))"
      using True by (subst flush_literals.simps) (simp add: Let_def flip: n_def)
    also have "\<dots> = length out + 1 + n + (to - (s + n)) + (to - (s + n) + 126) div 127"
      using 1(1) [OF True n_def] 1(2) n by simp
    also have "\<dots> = length out + (to - s) + (to - s + 126) div 127"
    proof (cases "to - s \<le> 127")
      case True
      then have "to - (s + n) = 0" "n = to - s" using \<open>s < to\<close> by (auto simp: n_def)
      moreover have "(to - s + 126) div 127 = 1" using True \<open>s < to\<close> by linarith
      ultimately show ?thesis by simp
    next
      case False
      then have "n = 127" by (simp add: n_def)
      then have "to - s + 126 = (to - (s + n) + 126) + 127" using False by simp
      then show ?thesis using n by simp
    qed
    finally show ?thesis .
  next
    case False
    then show ?thesis by (subst flush_literals.simps) simp
  qed
qed

lemma length_emit_run:
  "3 \<le> left \<Longrightarrow> length (fst (emit_run b left out)) + 1 \<le> length out + (left - snd (emit_run b left out))"
proof (induction b left out rule: emit_run.induct)
  case (1 b left out)
  show ?case
  proof (cases "128 < left")
    case False
    then have "emit_run b left out = (out @ [of_int (- int left), b], 0)"
      using "1.prems" by (simp add: emit_run.simps [of b left] emit_run.simps [of b 0])
    then show ?thesis using "1.prems" by simp
  next
    case True
    define n where "n = min left 65535"
    have n: "128 < n" "n \<le> left" using True by (auto simp: n_def)
    let ?out = "out @ [of_int (-1)] @ le_bytes 2 n @ [b]"
    have step: "emit_run b left out = emit_run b (left - n) ?out"
      using True by (subst emit_run.simps) (simp add: Let_def n_def)
    show ?thesis
    proof (cases "3 \<le> left - n")
      case more: True
      obtain e rest where e: "emit_run b (left - n) ?out = (e, rest)" by fastforce
      have "length e + 1 \<le> length ?out + (left - n - rest)"
        using 1(1) [OF "1.prems" True n_def more] by (simp add: e [simplified])
      moreover have "rest \<le> left - n" using emit_run_left [of b "left - n" ?out] e by simp
      ultimately show ?thesis using n unfolding step e by simp
    next
      case False
      then have "emit_run b (left - n) ?out = (?out, left - n)" by (simp add: emit_run.simps)
      then show ?thesis using n unfolding step by simp
    qed
  qed
qed

lemma length_pack_loop:
  assumes "length out \<le> ls + ls div 127" "ls \<le> i" "i \<le> length input"
  shows "length (pack_loop input i ls out) \<le> length input + length input div 127 + 1"
  using assms
proof (induction "length input - i" arbitrary: i ls out rule: less_induct)
  case less
  have flushed: "length (flush_literals input ls k out) \<le> k + k div 127 + 1"
    if "ls \<le> k" "k \<le> length input" for k
  proof -
    have "(k - ls + 126) div 127 \<le> (k - ls) div 127 + 1" by linarith
    moreover have "ls div 127 + (k - ls) div 127 \<le> k div 127" using that by linarith
    moreover have "length (flush_literals input ls k out) = length out + (k - ls) + (k - ls + 126) div 127"
      using that(2) by (rule length_flush_literals)
    ultimately show ?thesis using that less(2) by linarith
  qed
  show ?case
  proof (cases "i < length input")
    case False
    then show ?thesis using flushed [of "length input"] less(3,4) by (subst pack_loop.simps) simp
  next
    case i: True
    define run where "run = run_from input i (input ! i) 1"
    note run = run_from_1 [OF i run_def]
    show ?thesis
    proof (cases "3 \<le> run")
      case False
      then show ?thesis using less(1) [of "i + run" out ls] less(2,3) i run
        by (simp add: pack_loop_literal [OF i run_def])
    next
      case True
      obtain out2 left where e: "emit_run (input ! i) run (flush_literals input ls i out) = (out2, left)"
        by fastforce
      note step = pack_loop_run [OF i run_def True e]
      have "length out2 + 1 \<le> length (flush_literals input ls i out) + (run - left)"
        using length_emit_run [OF True, of "input ! i" "flush_literals input ls i out"] by (simp add: e)
      with flushed [OF less(3,4)]
      have "length out2 \<le> i + i div 127 + (run - left)" by linarith
      moreover have "i div 127 \<le> (i + (run - left)) div 127" by (intro div_le_mono) simp
      ultimately have "length out2 \<le> (i + (run - left)) + (i + (run - left)) div 127" by linarith
      then show ?thesis unfolding step(1) using run i by (intro less(1)) auto
    qed
  qed
qed

subsection \<open>Reading a prefix\<close>

lemma unpack_loop_prefix:
  assumes "unpack_loop big out s = Some w" "m \<le> big"
  shows "\<exists>p. unpack_loop m out s = Some p \<and> (\<exists>tail. w = p @ tail) \<and>
    (\<exists>more. p = out @ more) \<and> (m \<le> length p \<or> p = w)"
  using assms
proof (induction big out s rule: unpack_loop.induct)
  case (1 big out)
  then show ?case by simp
next
  case (2 big out c rest)
  show ?case
  proof (cases "big \<le> length out")
    case True
    with 2(3,4) show ?thesis by auto
  next
    case live: False
    have grow: "\<exists>tail. w = out @ tail"
    proof (cases "0 \<le> sint c")
      case True
      then have fits: "\<not> length rest < nat (sint c)" using 2(3) live by (auto simp: Let_def split: if_splits)
      have "unpack_loop big (out @ take (nat (sint c)) rest) (drop (nat (sint c)) rest) = Some w"
        using 2(3) live True fits by (simp add: Let_def)
      from 2(1) [OF live refl True refl fits this 2(4)] show ?thesis by auto
    next
      case False
      then obtain n b rest' where h: "run_header (sint c) rest = Some (n, b # rest')"
          and rec: "unpack_loop big (out @ replicate n b) rest' = Some w"
        using 2(3) live by (auto simp: Let_def split: option.splits list.splits)
      from 2(2) [OF live refl False h refl refl rec 2(4)] show ?thesis by auto
    qed
    show ?thesis
    proof (cases "m \<le> length out")
      case True
      then show ?thesis using grow by simp
    next
      case m: False
      show ?thesis
      proof (cases "0 \<le> sint c")
        case True
        then have fits: "\<not> length rest < nat (sint c)" using 2(3) live by (auto simp: Let_def split: if_splits)
        have "unpack_loop big (out @ take (nat (sint c)) rest) (drop (nat (sint c)) rest) = Some w"
          using 2(3) live True fits by (simp add: Let_def)
        from 2(1) [OF live refl True refl fits this 2(4)] True fits m show ?thesis
          by (auto simp: Let_def)
      next
        case False
        then obtain n b rest' where h: "run_header (sint c) rest = Some (n, b # rest')"
            and rec: "unpack_loop big (out @ replicate n b) rest' = Some w"
          using 2(3) live by (auto simp: Let_def split: option.splits list.splits)
        from 2(2) [OF live refl False h refl refl rec 2(4)] False h m show ?thesis
          by (auto simp: Let_def)
      qed
    qed
  qed
qed

subsection \<open>The theorems\<close>

text \<open>C2: Compression is lossless: decompressing what \<^verbatim>\<open>pack\<close> wrote gives back the record
  image, for every image a 64-bit process can hold.\<close>

theorem unpack_pack:
  assumes "length input < USIZE_MAX"
  shows "unpack (pack input) = Some input"
proof -
  from decodes_pack [of input] assms
  have "unpack_loop USIZE_MAX [] (pack input @ []) = unpack_loop USIZE_MAX ([] @ input) []"
    unfolding decodes_def by (metis add_0 list.size(3))
  then show ?thesis by (simp add: unpack_def unpack_prefix_def)
qed

theorem unpack_pack_witness:
  "length ([7, 7, 7, 7, 9] :: byte list) < USIZE_MAX \<and> unpack (pack [7, 7, 7, 7, 9]) = Some [7, 7, 7, 7, 9]"
proof -
  have h: "length ([7, 7, 7, 7, 9] :: byte list) < USIZE_MAX" by (simp add: USIZE_MAX_def)
  show ?thesis using h unpack_pack [OF h] by simp
qed

text \<open>C9: The compressed stream of n bytes is at most n + n div 127 + 1 bytes long, so the
  capacity \<^verbatim>\<open>pack\<close> reserves up front is never exceeded, whatever mix of literals, short runs
  and long runs the image has.\<close>

theorem pack_within_capacity:
  "length (pack input) \<le> length input + length input div 127 + 1"
  unfolding pack_def by (rule length_pack_loop) simp_all

text \<open>A prefix read agrees with the whole read: where the whole record decompresses, asking
  for the first \<^verbatim>\<open>min_len\<close> bytes succeeds too, answers a prefix of the same image, and that
  prefix has at least \<^verbatim>\<open>min_len\<close> bytes unless it is the whole image.\<close>

lemma unpack_prefix_agrees:
  assumes "unpack s = Some w" "min_len \<le> USIZE_MAX"
  shows "\<exists>p. unpack_prefix s min_len = Some p \<and> p = take (length p) w \<and>
    min min_len (length w) \<le> length p"
proof -
  obtain p tail where "unpack_prefix s min_len = Some p" "w = p @ tail" "min_len \<le> length p \<or> p = w"
    using unpack_loop_prefix [of USIZE_MAX "[]" s w min_len] assms
    by (auto simp: unpack_def unpack_prefix_def)
  then show ?thesis by auto
qed

text \<open>C8: The decompressor accepts exactly the well-formed streams: a stream decompresses to
  \<^verbatim>\<open>w\<close> if and only if it is a sequence of literal, repeat and extended-run items, each complete,
  whose data are \<^verbatim>\<open>w\<close>. Every truncated stream is refused.\<close>

theorem unpack_accepts_exactly_items:
  assumes "length w < USIZE_MAX"
  shows "unpack s = Some w \<longleftrightarrow>
    (\<exists>its. list_all item_ok its \<and> s = concat (map item_stream its) \<and> w = concat (map item_data its))"
proof
  assume "unpack s = Some w"
  then show "\<exists>its. list_all item_ok its \<and> s = concat (map item_stream its) \<and> w = concat (map item_data its)"
    using unpack_loop_items [of USIZE_MAX "[]" s w] assms
    by (auto simp: unpack_def unpack_prefix_def list_all_iff)
next
  assume "\<exists>its. list_all item_ok its \<and> s = concat (map item_stream its) \<and> w = concat (map item_data its)"
  then have "decodes s w" using decodes_items by (auto simp: list_all_iff)
  then have "unpack_loop USIZE_MAX [] (s @ []) = unpack_loop USIZE_MAX ([] @ w) []"
    using assms unfolding decodes_def by (metis add_0 list.size(3))
  then show "unpack s = Some w" by (simp add: unpack_def unpack_prefix_def)
qed

theorem unpack_accepts_exactly_items_witness:
  "length ([5, 5, 5] :: byte list) < USIZE_MAX \<and> unpack [253, 5] = Some [5, 5, 5] \<and>
   (\<exists>its. list_all item_ok its \<and> [253, 5] = concat (map item_stream its) \<and> [5, 5, 5] = concat (map item_data its))"
proof -
  have h: "length ([5, 5, 5] :: byte list) < USIZE_MAX" by (simp add: USIZE_MAX_def)
  have "unpack [253, 5] = Some [5, 5, 5]"
    by (simp add: unpack_def unpack_prefix_def USIZE_MAX_def run_header_def byte_simps)
  then show ?thesis using h unpack_accepts_exactly_items [OF h, of "[253, 5]"] by blast
qed

end
