(* ===== verification/Data.thy ===== *)
theory Data
  imports Sqz Pages
begin

unbundle bit_operations_syntax

text \<open>
  Data pages and record headers (\<^verbatim>\<open>crates/ods/src/data.rs\<close>): the slot directory, the three record
  header layouts, and the record image, whole or a prefix, assembled along the fragment chain.
  \<^verbatim>\<open>catalog_image\<close> consults a thread-local reader view and is not modelled.
\<close>

subsection \<open>Record flags and layouts\<close>

definition REC_DELETED :: u16 where "REC_DELETED = 1"
definition REC_CHAIN :: u16 where "REC_CHAIN = 2"
definition REC_FRAGMENT :: u16 where "REC_FRAGMENT = 4"
definition REC_INCOMPLETE :: u16 where "REC_INCOMPLETE = 8"
definition REC_BLOB :: u16 where "REC_BLOB = 16"
definition REC_DELTA :: u16 where "REC_DELTA = 32"
definition REC_LONG_TRANUM :: u16 where "REC_LONG_TRANUM = 1024"
definition REC_NOT_PACKED :: u16 where "REC_NOT_PACKED = 2048"

lemmas rec_flags = REC_DELETED_def REC_CHAIN_def REC_FRAGMENT_def REC_INCOMPLETE_def REC_BLOB_def
  REC_DELTA_def REC_LONG_TRANUM_def REC_NOT_PACKED_def

definition DPG_RPT_OFFSET :: nat where "DPG_RPT_OFFSET = 24"
definition RHD_DATA_OFFSET :: nat where "RHD_DATA_OFFSET = 13"
definition RHDE_DATA_OFFSET :: nat where "RHDE_DATA_OFFSET = 16"
definition RHDF_DATA_OFFSET :: nat where "RHDF_DATA_OFFSET = 22"
definition RHDF_F_PAGE_OFFSET :: nat where "RHDF_F_PAGE_OFFSET = 16"
definition RHDF_F_LINE_OFFSET :: nat where "RHDF_F_LINE_OFFSET = 20"

lemmas rec_offsets = DPG_RPT_OFFSET_def RHD_DATA_OFFSET_def RHDE_DATA_OFFSET_def RHDF_DATA_OFFSET_def
  RHDF_F_PAGE_OFFSET_def RHDF_F_LINE_OFFSET_def

record data_pg =
  dp_pag :: page_header
  dp_sequence :: u32
  dp_relation :: u16
  dp_count :: u16
  dp_page :: "byte list"

record record_header =
  rh_slot :: u16
  rh_transaction :: u64
  rh_back_page :: u32
  rh_back_line :: u16
  rh_flags :: u16
  rh_format :: byte
  rh_packed :: "byte list"
  rh_frag :: "(u32 \<times> u16) option"

definition has_flag :: "u16 \<Rightarrow> u16 \<Rightarrow> bool" where
  "has_flag fl m \<longleftrightarrow> fl AND m \<noteq> 0"

definition is_primary_record :: "record_header \<Rightarrow> bool" where
  "is_primary_record r \<longleftrightarrow> rh_flags r AND (REC_CHAIN OR REC_FRAGMENT OR REC_BLOB OR REC_DELETED) = 0"

text \<open>The image of a record that is not continued elsewhere, decompressed far enough to cover
  \<^verbatim>\<open>min_len\<close> bytes.\<close>

definition image_prefix :: "record_header \<Rightarrow> nat \<Rightarrow> byte list option" where
  "image_prefix r min_len =
     (if has_flag (rh_flags r) REC_INCOMPLETE then None
      else if has_flag (rh_flags r) REC_NOT_PACKED then Some (take (min min_len (length (rh_packed r))) (rh_packed r))
      else unpack_prefix (rh_packed r) min_len)"

definition record_image :: "record_header \<Rightarrow> byte list option" where
  "record_image r = image_prefix r USIZE_MAX"

subsection \<open>Data pages\<close>

definition decode_data :: "byte list \<Rightarrow> data_pg option run" where
  "decode_data page =
     do {
       h \<leftarrow> decode_page_header page;
       (case h of None \<Rightarrow> Ret None
        | Some pag \<Rightarrow>
            if pag_type pag \<noteq> page_type_byte Data then Ret None
            else do {
              sq \<leftarrow> u32_at page 16;
              rel \<leftarrow> u16_at page 20;
              cnt \<leftarrow> u16_at page 22;
              Ret (Some \<lparr>dp_pag = pag, dp_sequence = sq, dp_relation = rel, dp_count = cnt, dp_page = page\<rparr>)
            })
     }"

definition dp_slot :: "data_pg \<Rightarrow> u16 \<Rightarrow> (u16 \<times> u16) option run" where
  "dp_slot dp i =
     (if dp_count dp \<le> i then Ret None
      else let at = DPG_RPT_OFFSET + unat i * 4 in
        do { off \<leftarrow> u16_at (dp_page dp) at; len \<leftarrow> u16_at (dp_page dp) (at + 2); Ret (Some (off, len)) })"

definition slot_bytes :: "data_pg \<Rightarrow> u16 \<Rightarrow> byte list option run" where
  "slot_bytes dp i =
     do {
       s \<leftarrow> dp_slot dp i;
       (case s of None \<Rightarrow> Ret None
        | Some (offset, len) \<Rightarrow>
            if len = 0 then Ret None
            else let start = unat offset; stop = start + unat len in
              if start < DPG_RPT_OFFSET \<or> length (dp_page dp) < stop then Ret None
              else map_option Some (rs_slice (dp_page dp) start stop))
     }"

definition blob_header :: "u16 \<Rightarrow> u16 \<Rightarrow> record_header" where
  "blob_header i fl = \<lparr>rh_slot = i, rh_transaction = 0, rh_back_page = 0, rh_back_line = 0, rh_flags = fl,
     rh_format = 0, rh_packed = [], rh_frag = None\<rparr>"

text \<open>The transaction number and the offset of the payload, by header layout.\<close>

definition tranum :: "byte list \<Rightarrow> u16 \<Rightarrow> (u64 \<times> nat) run" where
  "tranum r fl =
     (if has_flag fl REC_INCOMPLETE then
        do {
          low \<leftarrow> u32_at r 0;
          high \<leftarrow> (if has_flag fl REC_LONG_TRANUM then map_option ucast (u16_at r 14) else Ret 0);
          Ret (push_bit 32 high OR ucast low, RHDF_DATA_OFFSET)
        }
      else if has_flag fl REC_LONG_TRANUM then
        do {
          low \<leftarrow> u32_at r 0;
          high \<leftarrow> u16_at r 14;
          Ret (push_bit 32 (ucast high) OR ucast low, RHDE_DATA_OFFSET)
        }
      else do { low \<leftarrow> u32_at r 0; Ret (ucast low, RHD_DATA_OFFSET) })"

definition dp_record :: "data_pg \<Rightarrow> u16 \<Rightarrow> record_header option run" where
  "dp_record dp i =
     do {
       s \<leftarrow> slot_bytes dp i;
       (case s of None \<Rightarrow> Ret None
        | Some r \<Rightarrow>
            if length r < RHD_DATA_OFFSET then Ret None
            else do {
              fl \<leftarrow> u16_at r 10;
              if has_flag fl REC_BLOB then Ret (Some (blob_header i fl))
              else do {
                (transaction, data_at) \<leftarrow> tranum r fl;
                if length r < data_at then Ret None
                else do {
                  back_page \<leftarrow> u32_at r 4;
                  back_line \<leftarrow> u16_at r 8;
                  format \<leftarrow> rs_index r 12;
                  packed \<leftarrow> rs_slice_from r data_at;
                  frag \<leftarrow> (if has_flag fl REC_INCOMPLETE
                          then do { p \<leftarrow> u32_at r RHDF_F_PAGE_OFFSET; l \<leftarrow> u16_at r RHDF_F_LINE_OFFSET;
                                    Ret (Some (p, l)) }
                          else Ret None);
                  Ret (Some \<lparr>rh_slot = i, rh_transaction = transaction, rh_back_page = back_page,
                             rh_back_line = back_line, rh_flags = fl, rh_format = format,
                             rh_packed = packed, rh_frag = frag\<rparr>)
                }
              }
            })
     }"

definition dp_records :: "data_pg \<Rightarrow> record_header list run" where
  "dp_records dp = filter_map_run (dp_record dp) (map of_nat [0..<unat (dp_count dp)])"

subsection \<open>The assembled image\<close>

text \<open>A record by page and line: \<^verbatim>\<open>page_at(file, ps, no).and_then(DataPage::decode)\<close> and the slot.\<close>

definition fetch_record :: "image \<Rightarrow> nat \<Rightarrow> u32 \<Rightarrow> u16 \<Rightarrow> record_header option run" where
  "fetch_record file page_size pno line =
     (case page_at file page_size pno of
        None \<Rightarrow> Ret None
      | Some page \<Rightarrow>
          do { d \<leftarrow> decode_data page;
               (case d of None \<Rightarrow> Ret None | Some dp \<Rightarrow> dp_record dp line) })"

text \<open>One piece of a fragmented record, by its own flags.\<close>

definition piece :: "u16 \<Rightarrow> byte list \<Rightarrow> byte list option" where
  "piece fl bytes = (if has_flag fl REC_NOT_PACKED then Some bytes else unpack bytes)"

text \<open>The loop over the fragments; \<^verbatim>\<open>hops_left\<close> is \<^verbatim>\<open>max_hops - hops\<close>.\<close>

fun assemble_loop ::
    "image \<Rightarrow> nat \<Rightarrow> nat \<Rightarrow> (u32 \<times> u16) option \<Rightarrow> byte list \<Rightarrow> byte list option run" where
  "assemble_loop file page_size hops_left None out = Ret (Some out)"
| "assemble_loop file page_size 0 (Some (pno, line)) out = Ret None"
| "assemble_loop file page_size (Suc hops_left) (Some (pno, line)) out =
     (if pno = 0 then Ret None
      else do {
        f \<leftarrow> fetch_record file page_size pno line;
        (case f of None \<Rightarrow> Ret None
         | Some frag \<Rightarrow>
             if \<not> has_flag (rh_flags frag) REC_FRAGMENT then Ret None
             else (case piece (rh_flags frag) (rh_packed frag) of
                     None \<Rightarrow> Ret None
                   | Some bytes \<Rightarrow> assemble_loop file page_size hops_left (rh_frag frag) (out @ bytes)))
      })"

definition assembled_image_prefix :: "image \<Rightarrow> nat \<Rightarrow> record_header \<Rightarrow> nat \<Rightarrow> byte list option run" where
  "assembled_image_prefix file page_size head min_len =
     (if \<not> has_flag (rh_flags head) REC_INCOMPLETE then Ret (image_prefix head min_len)
      else (case piece (rh_flags head) (rh_packed head) of
              None \<Rightarrow> Ret None
            | Some out \<Rightarrow>
                assemble_loop file page_size (max (byte_len file div max page_size 1) 1) (rh_frag head) out))"

definition assembled_image :: "image \<Rightarrow> nat \<Rightarrow> record_header \<Rightarrow> byte list option run" where
  "assembled_image file page_size head = assembled_image_prefix file page_size head USIZE_MAX"

subsection \<open>When decoding panics\<close>

lemma u16_at_Panic: "u16_at buf off = Panic \<longleftrightarrow> length buf < off + 2"
  by (auto simp: u16_at_def rs_slice_def get_range_def)

lemma u32_at_Panic: "u32_at buf off = Panic \<longleftrightarrow> length buf < off + 4"
  by (auto simp: u32_at_def rs_slice_def get_range_def)

lemma dp_slot_Panic:
  "dp_slot dp i = Panic \<longleftrightarrow> i < dp_count dp \<and> length (dp_page dp) < DPG_RPT_OFFSET + unat i * 4 + 4"
  by (auto simp: dp_slot_def Let_def u16_at_Panic bind_eq_None_conv not_le)

lemma slot_bytes_Panic: "slot_bytes dp i = Panic \<longleftrightarrow> dp_slot dp i = Panic"
  by (auto simp: slot_bytes_def Let_def rs_slice_def get_range_def split: option.splits Option.bind_splits if_splits)

lemma tranum_Panic:
  assumes "13 \<le> length r"
  shows "tranum r fl = Panic \<longleftrightarrow> has_flag fl REC_LONG_TRANUM \<and> length r < 16"
  using assms
  by (auto simp: tranum_def u16_at_Panic u32_at_Panic bind_eq_None_conv)

lemma tranum_offset: "tranum r fl = Ret (tx, at) \<Longrightarrow> 13 \<le> at \<and> (has_flag fl REC_INCOMPLETE \<longrightarrow> at = 22)"
  by (auto simp: tranum_def rec_offsets split: Option.bind_splits if_splits)

lemma dp_record_Panic:
  "dp_record dp i = Panic \<longleftrightarrow> dp_slot dp i = Panic \<or>
    (\<exists>r fl. slot_bytes dp i = Ret (Some r) \<and> 13 \<le> length r \<and> length r < 16 \<and> u16_at r 10 = Ret fl \<and>
      \<not> has_flag fl REC_BLOB \<and> has_flag fl REC_LONG_TRANUM)"
proof (cases "slot_bytes dp i")
  case None
  then show ?thesis using slot_bytes_Panic [of dp i] by (simp add: dp_record_def)
next
  case (Some s)
  then have alive: "dp_slot dp i \<noteq> Panic" using slot_bytes_Panic [of dp i] by simp
  show ?thesis
  proof (cases s)
    case None
    then show ?thesis using Some alive by (simp add: dp_record_def)
  next
    case r: (Some r)
    show ?thesis
    proof (cases "length r < 13")
      case True
      then show ?thesis using Some r alive by (simp add: dp_record_def rec_offsets)
    next
      case False
      then obtain fl where fl: "u16_at r 10 = Ret fl" using u_at_inside(1) [of 10 r] by auto
      show ?thesis
      proof (cases "tranum r fl")
        case None
        then show ?thesis
          using Some r alive False fl tranum_Panic [of r fl] by (auto simp: dp_record_def rec_offsets)
      next
        case t: (Some tx)
        obtain tx' at where tx: "tx = (tx', at)" by (cases tx)
        have at: "13 \<le> at" "has_flag fl REC_INCOMPLETE \<Longrightarrow> at = 22"
          using tranum_offset [of r fl tx' at] t tx by auto
        have no: "\<not> (has_flag fl REC_LONG_TRANUM \<and> length r < 16)" using t tranum_Panic [of r fl] False by auto
        have "dp_record dp i \<noteq> Panic"
        proof (cases "has_flag fl REC_BLOB \<or> length r < at")
          case True
          then show ?thesis using Some r False fl t tx by (auto simp: dp_record_def rec_offsets)
        next
          case inside: False
          have "u32_at r 4 \<noteq> Panic" "u16_at r 8 \<noteq> Panic" "rs_index r 12 \<noteq> Panic" "rs_slice_from r at \<noteq> Panic"
            "has_flag fl REC_INCOMPLETE \<Longrightarrow> u32_at r 16 \<noteq> Panic"
            "has_flag fl REC_INCOMPLETE \<Longrightarrow> u16_at r 20 \<noteq> Panic"
            using inside False at by (auto simp: u16_at_Panic u32_at_Panic rs_index_def rs_slice_from_def)
          then show ?thesis
            using Some r False fl t tx inside by (auto simp: dp_record_def rec_offsets)
        qed
        then show ?thesis using Some r alive fl no by auto
      qed
    qed
  qed
qed

text \<open>Decoding a record slot panics in exactly two cases: a directory entry that lies past the
  end of the page, or a slot of 13, 14 or 15 bytes whose flags announce a 64-bit transaction number
  (and no blob), where the high half is read before the length is checked.\<close>

lemma record_panics_exactly:
  "dp_record dp i = Panic \<longleftrightarrow>
    (i < dp_count dp \<and> length (dp_page dp) < 24 + unat i * 4 + 4) \<or>
    (\<exists>r fl. slot_bytes dp i = Ret (Some r) \<and> length r \<in> {13, 14, 15} \<and> u16_at r 10 = Ret fl \<and>
      \<not> has_flag fl REC_BLOB \<and> has_flag fl REC_LONG_TRANUM)"
proof -
  have "(13 \<le> n \<and> n < 16) \<longleftrightarrow> n \<in> {13, 14, 15}" for n :: nat by auto
  then show ?thesis unfolding dp_record_Panic dp_slot_Panic by (simp add: DPG_RPT_OFFSET_def) blast
qed

subsection \<open>Prefixes of images\<close>

definition prefix_of_image :: "nat \<Rightarrow> byte list \<Rightarrow> byte list \<Rightarrow> bool" where
  "prefix_of_image min_len p w \<longleftrightarrow> (\<exists>rest. w = p @ rest) \<and> min min_len (length w) \<le> length p"

lemma image_prefix_agrees:
  assumes "record_image r = Some w" "min_len \<le> USIZE_MAX"
  shows "\<exists>p. image_prefix r min_len = Some p \<and> prefix_of_image min_len p w"
proof (cases "has_flag (rh_flags r) REC_NOT_PACKED")
  case True
  then have "w = take (min USIZE_MAX (length (rh_packed r))) (rh_packed r)" "\<not> has_flag (rh_flags r) REC_INCOMPLETE"
    using assms(1) by (auto simp: record_image_def image_prefix_def split: if_splits)
  moreover have "take a xs = take b xs @ drop b (take a xs)" if "b \<le> a" for a b and xs :: "byte list"
    using that by (metis append_take_drop_id min.absorb1 take_take)
  ultimately show ?thesis
    using assms(2) True
    by (intro exI [of _ "take (min min_len (length (rh_packed r))) (rh_packed r)"])
      (auto simp: image_prefix_def prefix_of_image_def intro!: exI [of _ "drop (min min_len (length (rh_packed r))) w"])
next
  case False
  then have "unpack_loop USIZE_MAX [] (rh_packed r) = Some w" "\<not> has_flag (rh_flags r) REC_INCOMPLETE"
    using assms(1) by (auto simp: record_image_def image_prefix_def unpack_prefix_def split: if_splits)
  then show ?thesis
    using unpack_loop_prefix [of USIZE_MAX "[]" "rh_packed r" w min_len] assms(2) False
    by (auto simp: image_prefix_def unpack_prefix_def prefix_of_image_def)
qed

lemma assembled_prefix_agrees:
  assumes "assembled_image file ps r = Ret (Some w)" "min_len \<le> USIZE_MAX"
  shows "\<exists>p. assembled_image_prefix file ps r min_len = Ret (Some p) \<and> prefix_of_image min_len p w"
  using assms image_prefix_agrees [of r w min_len]
  by (auto simp: assembled_image_def assembled_image_prefix_def record_image_def prefix_of_image_def split: if_splits)

end
