(* ===== verification/Inventory.thy ===== *)
theory Inventory
  imports Pages
begin

unbundle bit_operations_syntax

text \<open>
  The typed views of the inventory pages: page inventory pages (\<^verbatim>\<open>crates/ods/src/pip.rs\<close>),
  transaction inventory pages (\<^verbatim>\<open>tip.rs\<close>) and pointer pages (\<^verbatim>\<open>pointer.rs\<close>), with the bit
  arithmetic they share with the writers. Each \<^verbatim>\<open>decode\<close> answers None for a page of another
  type, and panics when a page of its type is too short for the fields it reads by index.
\<close>

subsection \<open>Page inventory pages\<close>

record pip_page =
  pip_pag :: page_header
  pip_min :: u32
  pip_extent :: u32
  pip_used :: u32
  pip_bits :: "byte list"

definition PIP_BITS_OFFSET :: nat where "PIP_BITS_OFFSET = 28"

definition decode_pip :: "byte list \<Rightarrow> pip_page option run" where
  "decode_pip page =
     do {
       h \<leftarrow> decode_page_header page;
       (case h of None \<Rightarrow> Ret None
        | Some pag \<Rightarrow>
            if pag_type pag \<noteq> page_type_byte PageInventory then Ret None
            else do {
              mn \<leftarrow> u32_at page 16;
              ext \<leftarrow> u32_at page 20;
              used \<leftarrow> u32_at page 24;
              bits \<leftarrow> rs_slice_from page PIP_BITS_OFFSET;
              Ret (Some \<lparr>pip_pag = pag, pip_min = mn, pip_extent = ext, pip_used = used, pip_bits = bits\<rparr>)
            })
     }"

text \<open>\<^verbatim>\<open>(page_size - 28) * 8\<close> on usize: smaller pages panic on the subtraction (a release build
  would wrap); a page size is at least 1024.\<close>

definition pages_per_pip :: "nat \<Rightarrow> nat" where
  "pages_per_pip page_size = (page_size - PIP_BITS_OFFSET) * 8"

definition bit_set :: "byte \<Rightarrow> nat \<Rightarrow> bool" where
  "bit_set b i \<longleftrightarrow> b AND push_bit i 1 \<noteq> 0"

definition is_free :: "pip_page \<Rightarrow> nat \<Rightarrow> bool option" where
  "is_free pip index =
     (if index div 8 < length (pip_bits pip) then Some (bit_set (pip_bits pip ! (index div 8)) (index mod 8))
      else None)"

definition free_count :: "pip_page \<Rightarrow> nat \<Rightarrow> nat" where
  "free_count pip n = length (filter (\<lambda>i. is_free pip i = Some True) [0..<n])"

lemma bit_set_bit: "i < 8 \<Longrightarrow> bit_set b i \<longleftrightarrow> bit b i"
  by (auto simp: bit_set_def byte_eq_iff bit_simps)

subsection \<open>Transaction inventory pages\<close>

datatype tx_state = Active | Limbo | Dead | Committed

fun tx_state_bits :: "tx_state \<Rightarrow> byte" where
  "tx_state_bits Active = 0"
| "tx_state_bits Limbo = 1"
| "tx_state_bits Dead = 2"
| "tx_state_bits Committed = 3"

fun tx_state_name :: "tx_state \<Rightarrow> string" where
  "tx_state_name Active = ''active''"
| "tx_state_name Limbo = ''limbo''"
| "tx_state_name Dead = ''dead''"
| "tx_state_name Committed = ''committed''"

record tip_page =
  tip_pag :: page_header
  tip_next :: u32
  tip_bits :: "byte list"

definition TIP_TRANSACTIONS_OFFSET :: nat where "TIP_TRANSACTIONS_OFFSET = 20"

definition decode_tip :: "byte list \<Rightarrow> tip_page option run" where
  "decode_tip page =
     do {
       h \<leftarrow> decode_page_header page;
       (case h of None \<Rightarrow> Ret None
        | Some pag \<Rightarrow>
            if pag_type pag \<noteq> page_type_byte TransactionInventory then Ret None
            else do {
              nxt \<leftarrow> u32_at page 16;
              bits \<leftarrow> rs_slice_from page TIP_TRANSACTIONS_OFFSET;
              Ret (Some \<lparr>tip_pag = pag, tip_next = nxt, tip_bits = bits\<rparr>)
            })
     }"

definition transactions_per_page :: "nat \<Rightarrow> nat" where
  "transactions_per_page page_size = (page_size - TIP_TRANSACTIONS_OFFSET) * 4"

definition state_of_bits :: "byte \<Rightarrow> tx_state" where
  "state_of_bits b =
     (if b = 0 then Active else if b = 1 then Limbo else if b = 2 then Dead else Committed)"

definition tip_state :: "tip_page \<Rightarrow> nat \<Rightarrow> tx_state option" where
  "tip_state tip index =
     (if index div 4 < length (tip_bits tip) then
        Some (state_of_bits (drop_bit ((index mod 4) * 2) (tip_bits tip ! (index div 4)) AND 3))
      else None)"

lemma state_of_tx_state_bits [simp]: "state_of_bits (tx_state_bits s) = s"
  by (cases s) (simp_all add: state_of_bits_def)

text \<open>Two bits of a byte replaced, the arithmetic of \<^verbatim>\<open>set_tx_state\<close>:
  \<^verbatim>\<open>(b & !(0b11 << shift)) | (state << shift)\<close>.\<close>

definition put_state_bits :: "byte \<Rightarrow> nat \<Rightarrow> tx_state \<Rightarrow> byte" where
  "put_state_bits b shift s = (b AND NOT (push_bit shift 3)) OR push_bit shift (tx_state_bits s)"

lemma two_bits_eq: "(x :: byte) AND 3 = y AND 3 \<longleftrightarrow> (bit x 0 = bit y 0 \<and> bit x 1 = bit y 1)"
proof -
  have three: "(3 :: byte) = mask 2" by (simp add: mask_eq_exp_minus_1)
  show ?thesis unfolding three byte_eq_iff
    by (auto simp: bit_simps less_2_cases_iff dest: spec [of _ 0] spec [of _ "Suc 0"])
qed

lemma tx_state_bits_small: "tx_state_bits s AND 3 = tx_state_bits s"
  by (cases s) simp_all

lemma bit_put_state:
  assumes "n < 8"
  shows "bit (put_state_bits b shift s) n \<longleftrightarrow>
    (if n = shift \<or> n = shift + 1 then bit (tx_state_bits s) (n - shift) else bit b n)"
proof -
  have three: "(3 :: byte) = mask 2" by (simp add: mask_eq_exp_minus_1)
  have "bit (tx_state_bits s) k \<Longrightarrow> k < 2" for k
    using tx_state_bits_small [of s] unfolding three by (metis bit_and_iff bit_mask_iff)
  then have "bit (tx_state_bits s) (n - shift) \<Longrightarrow> shift \<le> n \<Longrightarrow> n = shift \<or> n = shift + 1"
    by fastforce
  then show ?thesis using assms unfolding put_state_bits_def three
    by (auto simp: bit_simps)
qed

lemma put_state_same:
  assumes "shift = 2 * k" "k < 4"
  shows "drop_bit shift (put_state_bits b shift s) AND 3 = tx_state_bits s"
proof -
  have "drop_bit shift (put_state_bits b shift s) AND 3 = tx_state_bits s AND 3"
    unfolding two_bits_eq using assms by (simp add: bit_drop_bit_eq bit_put_state)
  then show ?thesis by (simp add: tx_state_bits_small)
qed

lemma put_state_other:
  assumes "shift = 2 * k" "k < 4" "other = 2 * j" "j < 4" "j \<noteq> k"
  shows "drop_bit other (put_state_bits b shift s) AND 3 = drop_bit other b AND 3"
proof -
  have "other \<noteq> shift" "other \<noteq> shift + 1" "other + 1 \<noteq> shift" "other + 1 < 8" "other < 8"
    using assms by arith+
  then show ?thesis unfolding two_bits_eq by (simp add: bit_drop_bit_eq bit_put_state)
qed

subsection \<open>Pointer pages\<close>

record pointer_page =
  ppg_pag :: page_header
  ppg_sequence :: u32
  ppg_next :: u32
  ppg_count :: u16
  ppg_relation :: u16
  ppg_min_space :: u16
  ppg_slots :: "byte list"

definition PPG_PAGE_OFFSET :: nat where "PPG_PAGE_OFFSET = 32"

definition decode_pointer :: "byte list \<Rightarrow> pointer_page option run" where
  "decode_pointer page =
     do {
       h \<leftarrow> decode_page_header page;
       (case h of None \<Rightarrow> Ret None
        | Some pag \<Rightarrow>
            if pag_type pag \<noteq> page_type_byte Pointer then Ret None
            else do {
              sq \<leftarrow> u32_at page 16;
              nxt \<leftarrow> u32_at page 20;
              cnt \<leftarrow> u16_at page 24;
              rel \<leftarrow> u16_at page 26;
              mn \<leftarrow> u16_at page 28;
              slots \<leftarrow> rs_slice_from page PPG_PAGE_OFFSET;
              Ret (Some \<lparr>ppg_pag = pag, ppg_sequence = sq, ppg_next = nxt, ppg_count = cnt,
                         ppg_relation = rel, ppg_min_space = mn, ppg_slots = slots\<rparr>)
            })
     }"

text \<open>The slot vector is indexed, so a count that runs past the page panics.\<close>

definition data_page :: "pointer_page \<Rightarrow> nat \<Rightarrow> u32 option run" where
  "data_page pp i =
     (if unat (ppg_count pp) \<le> i then Ret None else map_option Some (u32_at (ppg_slots pp) (i * 4)))"

definition data_pages :: "pointer_page \<Rightarrow> u32 list run" where
  "data_pages pp =
     filter_map_run (\<lambda>i. do { p \<leftarrow> data_page pp i;
                              Ret (case p of None \<Rightarrow> None | Some p \<Rightarrow> if p \<noteq> 0 then Some p else None) })
       [0..<unat (ppg_count pp)]"

text \<open>\<^verbatim>\<open>relation_data_pages\<close>: the pointer pages of the relation, sorted (stably) by sequence,
  and the data pages they name.\<close>

definition pointer_pages_of :: "image \<Rightarrow> u16 \<Rightarrow> pointer_page list run" where
  "pointer_pages_of file relation =
     do {
       tagged \<leftarrow> filter_map_run (\<lambda>p. do { t \<leftarrow> rs_index p 0;
           if t = page_type_byte Pointer then decode_pointer p else Ret None }) (whole_pages file);
       Ret (filter (\<lambda>pp. ppg_relation pp = relation) tagged)
     }"

definition relation_data_pages :: "image \<Rightarrow> nat \<Rightarrow> u16 \<Rightarrow> u32 list run" where
  "relation_data_pages file page_size relation =
     do {
       pps \<leftarrow> pointer_pages_of file relation;
       lists \<leftarrow> filter_map_run (\<lambda>pp. map_option Some (data_pages pp)) (sort_key ppg_sequence pps);
       Ret (concat lists)
     }"

end
