(* ===== verification/Tra.thy ===== *)
theory Tra
  imports Data Inventory
begin

text \<open>
  The durable half of the transaction system (\<^verbatim>\<open>crates/ods/src/tra.rs\<close>): transaction states across
  the chained inventory pages, delta back versions, snapshots, and the visibility walk along the
  back-version chain, for rows (\<^verbatim>\<open>visible_version\<close>) and for counting (\<^verbatim>\<open>visible_exists\<close>). The walks
  are loops of the code that end only if the chain does, so they are partial functions: None is a
  walk that panics or never returns. The thread-local reader view is not modelled.
\<close>

subsection \<open>The inventory chain\<close>

record tip_chain =
  tc_pages :: "tip_page list"
  tc_per_page :: nat

text \<open>\<^verbatim>\<open>Vec::swap_remove\<close>: the last element takes the place of the removed one.\<close>

definition swap_remove :: "nat \<Rightarrow> 'a list \<Rightarrow> 'a list" where
  "swap_remove i xs = (if Suc i = length xs then butlast xs else (butlast xs)[i := last xs])"

lemma length_swap_remove [simp]: "length (swap_remove i xs) = length xs - 1"
  by (simp add: swap_remove_def)

function order_tips :: "tip_page list \<Rightarrow> u32 \<Rightarrow> tip_page list option" where
  "order_tips tips cur =
     (if cur = 0 then Some []
      else (case rs_position (\<lambda>t. pag_pageno (tip_pag t) = cur) tips of
              None \<Rightarrow> None
            | Some pos \<Rightarrow>
                map_option ((#) (tips ! pos)) (order_tips (swap_remove pos tips) (tip_next (tips ! pos)))))"
  by pat_completeness auto
termination
  by (relation "measure (\<lambda>(tips, cur). length tips)") (auto dest: rs_position_Some)

declare order_tips.simps [simp del]

definition tip_pages_of :: "image \<Rightarrow> tip_page list run" where
  "tip_pages_of file =
     filter_map_run (\<lambda>p. do { t \<leftarrow> rs_index p 0;
        if t = page_type_byte TransactionInventory then decode_tip p else Ret None }) (whole_pages file)"

definition tip_chain_of :: "tip_page list \<Rightarrow> nat \<Rightarrow> tip_chain option" where
  "tip_chain_of tips page_size =
     do {
       head \<leftarrow> find (\<lambda>no. \<not> list_ex (\<lambda>t. tip_next t = no) tips) (map (\<lambda>t. pag_pageno (tip_pag t)) tips);
       ordered \<leftarrow> order_tips tips head;
       Some \<lparr>tc_pages = ordered, tc_per_page = transactions_per_page page_size\<rparr>
     }"

definition tip_chain_read :: "image \<Rightarrow> nat \<Rightarrow> tip_chain option run" where
  "tip_chain_read file page_size =
     do {
       tips \<leftarrow> tip_pages_of file;
       Ret (if tips = [] then None else tip_chain_of tips page_size)
     }"

definition tip_chain_state :: "tip_chain \<Rightarrow> u64 \<Rightarrow> tx_state option run" where
  "tip_chain_state tc tx =
     (if tc_per_page tc = 0 then Panic
      else let q = unat tx div tc_per_page tc in
        Ret (if q < length (tc_pages tc) then tip_state (tc_pages tc ! q) (unat tx mod tc_per_page tc) else None))"

definition page_count :: "tip_chain \<Rightarrow> nat" where
  "page_count tc = length (tc_pages tc)"

subsection \<open>Differences\<close>

function apply_diff_loop :: "byte list \<Rightarrow> byte list \<Rightarrow> nat \<Rightarrow> nat \<Rightarrow> (byte list \<times> nat \<times> nat) option" where
  "apply_diff_loop diff out p d =
     (if d < length diff \<and> p < length out then
        let l = sint (diff ! d); d1 = d + 1 in
        if 0 < l then
          let n = nat l in
          if length out < p + n \<or> length diff < d1 + n then None
          else apply_diff_loop diff (splice out p (take n (drop d1 diff))) (p + n) (d1 + n)
        else apply_diff_loop diff out (p + nat (- l)) d1
      else Some (out, p, d))"
  by pat_completeness auto
termination by (relation "measure (\<lambda>(diff, out, p, d). length diff - d)") auto

declare apply_diff_loop.simps [simp del]

definition apply_differences :: "byte list \<Rightarrow> byte list \<Rightarrow> byte list option" where
  "apply_differences diff newer =
     (case apply_diff_loop diff newer 0 0 of
        None \<Rightarrow> None
      | Some (out, p, d) \<Rightarrow>
          if list_ex (\<lambda>b. b \<noteq> 0) (drop d diff) then None
          else Some (take (min p (length out)) out))"

subsection \<open>Readers\<close>

record own_tx =
  own_ids :: "u64 list"
  own_any_active :: bool

definition own_none :: own_tx where "own_none = \<lparr>own_ids = [], own_any_active = False\<rparr>"
definition own_one :: "u64 \<Rightarrow> own_tx" where "own_one tx = \<lparr>own_ids = [tx], own_any_active = False\<rparr>"
definition own_of :: "u64 list \<Rightarrow> own_tx" where "own_of txs = \<lparr>own_ids = txs, own_any_active = False\<rparr>"
definition own_catalog :: own_tx where "own_catalog = \<lparr>own_ids = [], own_any_active = True\<rparr>"
definition own_owner :: "u64 list \<Rightarrow> own_tx" where "own_owner txs = \<lparr>own_ids = txs, own_any_active = False\<rparr>"

definition own_contains :: "own_tx \<Rightarrow> u64 \<Rightarrow> bool" where
  "own_contains own tx \<longleftrightarrow> tx \<in> set (own_ids own)"

definition own_push :: "u64 \<Rightarrow> own_tx \<Rightarrow> own_tx" where
  "own_push tx own = (if own_contains own tx then own else own\<lparr>own_ids := own_ids own @ [tx]\<rparr>)"

definition own_from :: "u64 option \<Rightarrow> own_tx" where
  "own_from tx = (case tx of Some tx \<Rightarrow> own_one tx | None \<Rightarrow> own_none)"

record snapshot =
  snap_limit :: u64
  snap_active :: "u64 list"
  snap_committed_own :: "u64 list"

text \<open>The header's next-transaction field, when page 0 is long enough to hold it.\<close>

definition header_next :: "image \<Rightarrow> nat \<Rightarrow> u64 option" where
  "header_next file page_size =
     map_option (\<lambda>b. of_nat (le_nat b)) (Option.bind (page_at file page_size 0) (\<lambda>hdr. get_range hdr 40 48))"

definition capture_active :: "tip_chain \<Rightarrow> u64 \<Rightarrow> u64 list run" where
  "capture_active tips limit =
     filter_map_run (\<lambda>tx. do { s \<leftarrow> tip_chain_state tips tx;
         Ret (if s = Some Active \<or> s = Some Limbo then Some tx else None) })
       (map of_nat [1..<unat limit])"

definition capture :: "image \<Rightarrow> nat \<Rightarrow> snapshot run" where
  "capture file page_size =
     (let limit = (case header_next file page_size of Some n \<Rightarrow> n + 1 | None \<Rightarrow> 0) in
      do {
        tips \<leftarrow> tip_chain_read file page_size;
        active \<leftarrow> (case tips of None \<Rightarrow> Ret [] | Some tips \<Rightarrow> capture_active tips limit);
        Ret \<lparr>snap_limit = limit, snap_active = active, snap_committed_own = []\<rparr>
      })"

definition sees :: "snapshot \<Rightarrow> u64 \<Rightarrow> bool" where
  "sees s tx \<longleftrightarrow> tx < snap_limit s \<and> tx \<notin> set (snap_active s) \<or> tx \<in> set (snap_committed_own s)"

text \<open>Does the reader count the versions of a transaction?\<close>

definition tx_counts :: "tip_chain \<Rightarrow> own_tx \<Rightarrow> snapshot option \<Rightarrow> u64 \<Rightarrow> bool run" where
  "tx_counts tips own snap tx =
     (if own_contains own tx \<or> tx = 0 then Ret True
      else do {
        s \<leftarrow> tip_chain_state tips tx;
        Ret (s = Some Committed \<and> (case snap of None \<Rightarrow> True | Some sn \<Rightarrow> sees sn tx)
             \<or> own_any_active own \<and> s = Some Active)
      })"

definition tx_limbo :: "tip_chain \<Rightarrow> u64 \<Rightarrow> bool run" where
  "tx_limbo tips tx = map_option (\<lambda>s. s = Some Limbo) (tip_chain_state tips tx)"

subsection \<open>The visibility walk\<close>

record visible_version =
  vv_image :: "byte list"
  vv_format :: byte
  vv_walked :: u32
  vv_deltas :: u32
  vv_txn :: u64

definition found_version :: "record_header \<Rightarrow> byte list option \<Rightarrow> u32 \<Rightarrow> u32 \<Rightarrow> visible_version option" where
  "found_version current img walked deltas =
     (if has_flag (rh_flags current) REC_DELETED then None
      else map_option (\<lambda>i. \<lparr>vv_image = i, vv_format = rh_format current, vv_walked = walked,
             vv_deltas = deltas, vv_txn = rh_transaction current\<rparr>) img)"

text \<open>The image of the version behind \<^verbatim>\<open>current\<close>: stored whole, or as differences against the
  image of \<^verbatim>\<open>current\<close>.\<close>

definition step_image :: "record_header \<Rightarrow> byte list option \<Rightarrow> byte list \<Rightarrow> byte list option" where
  "step_image current img back_data =
     (if has_flag (rh_flags current) REC_DELTA
      then Option.bind img (apply_differences back_data) else Some back_data)"

partial_function (option) version_loop ::
    "image \<Rightarrow> nat \<Rightarrow> tip_chain \<Rightarrow> own_tx \<Rightarrow> bool \<Rightarrow> snapshot option \<Rightarrow>
     record_header \<Rightarrow> byte list option \<Rightarrow> bool \<Rightarrow> u32 \<Rightarrow> u32 \<Rightarrow> (u64 + visible_version option) option" where
  "version_loop file page_size tips own strict snap current img prefixed walked deltas =
     do {
       counts \<leftarrow> tx_counts tips own snap (rh_transaction current);
       (if counts then Ret (Inr (found_version current img walked deltas))
        else do {
          limbo \<leftarrow> (if strict \<and> \<not> own_contains own (rh_transaction current)
                   then tx_limbo tips (rh_transaction current) else Ret False);
          (if limbo then Ret (Inl (rh_transaction current))
           else if rh_back_page current = 0 then Ret (Inr None)
           else do {
             img1 \<leftarrow> (if prefixed \<and> has_flag (rh_flags current) REC_DELTA \<and>
                         \<not> has_flag (rh_flags current) REC_DELETED
                     then assembled_image file page_size current else Ret img);
             b \<leftarrow> fetch_record file page_size (rh_back_page current) (rh_back_line current);
             (case b of
                None \<Rightarrow> Ret (Inr None)
              | Some back \<Rightarrow>
                  do {
                    bd \<leftarrow> assembled_image file page_size back;
                    (case bd of
                       None \<Rightarrow> Ret (Inr None)
                     | Some back_data \<Rightarrow>
                         (case step_image current img1 back_data of
                            None \<Rightarrow> Ret (Inr None)
                          | Some img2 \<Rightarrow>
                              version_loop file page_size tips own strict snap back (Some img2) False (walked + 1)
                                (if has_flag (rh_flags current) REC_DELTA then deltas + 1 else deltas)))
                  })
           })
        })
     }"

definition visible_version_2pc_prefix ::
    "image \<Rightarrow> nat \<Rightarrow> record_header \<Rightarrow> tip_chain \<Rightarrow> own_tx \<Rightarrow> bool \<Rightarrow> snapshot option \<Rightarrow> nat \<Rightarrow>
     (u64 + visible_version option) option" where
  "visible_version_2pc_prefix file page_size head tips own strict snap min_len =
     do {
       img \<leftarrow> (if has_flag (rh_flags head) REC_DELETED then Ret None
              else assembled_image_prefix file page_size head min_len);
       version_loop file page_size tips own strict snap head img (min_len \<noteq> USIZE_MAX) 0 0
     }"

definition visible_version_2pc ::
    "image \<Rightarrow> nat \<Rightarrow> record_header \<Rightarrow> tip_chain \<Rightarrow> own_tx \<Rightarrow> bool \<Rightarrow> snapshot option \<Rightarrow>
     (u64 + visible_version option) option" where
  "visible_version_2pc file page_size head tips own strict snap =
     visible_version_2pc_prefix file page_size head tips own strict snap USIZE_MAX"

definition visible_version ::
    "image \<Rightarrow> nat \<Rightarrow> record_header \<Rightarrow> tip_chain \<Rightarrow> own_tx \<Rightarrow> visible_version option option" where
  "visible_version file page_size head tips own =
     map_option (\<lambda>r. case r of Inl _ \<Rightarrow> None | Inr v \<Rightarrow> v)
       (visible_version_2pc file page_size head tips own False None)"

partial_function (option) exists_loop ::
    "image \<Rightarrow> nat \<Rightarrow> tip_chain \<Rightarrow> own_tx \<Rightarrow> bool \<Rightarrow> snapshot option \<Rightarrow> record_header \<Rightarrow> (u64 + bool) option" where
  "exists_loop file page_size tips own strict snap current =
     do {
       counts \<leftarrow> tx_counts tips own snap (rh_transaction current);
       (if counts then Ret (Inr (\<not> has_flag (rh_flags current) REC_DELETED))
        else do {
          limbo \<leftarrow> (if strict then tx_limbo tips (rh_transaction current) else Ret False);
          (if limbo then Ret (Inl (rh_transaction current))
           else if rh_back_page current = 0 then Ret (Inr False)
           else do {
             b \<leftarrow> fetch_record file page_size (rh_back_page current) (rh_back_line current);
             (case b of
                None \<Rightarrow> Ret (Inr False)
              | Some back \<Rightarrow> exists_loop file page_size tips own strict snap back)
           })
        })
     }"

definition visible_exists_2pc ::
    "image \<Rightarrow> nat \<Rightarrow> record_header \<Rightarrow> tip_chain \<Rightarrow> own_tx \<Rightarrow> bool \<Rightarrow> snapshot option \<Rightarrow> (u64 + bool) option" where
  "visible_exists_2pc file page_size head tips own strict snap =
     (if has_flag (rh_flags head) (REC_CHAIN OR REC_FRAGMENT OR REC_BLOB) then Ret (Inr False)
      else exists_loop file page_size tips own strict snap head)"

definition visible_exists :: "image \<Rightarrow> nat \<Rightarrow> record_header \<Rightarrow> tip_chain \<Rightarrow> own_tx \<Rightarrow> bool option" where
  "visible_exists file page_size head tips own =
     map_option (\<lambda>r. case r of Inl _ \<Rightarrow> False | Inr b \<Rightarrow> b)
       (visible_exists_2pc file page_size head tips own False None)"

definition limbo_ids :: "image \<Rightarrow> nat \<Rightarrow> u64 list run" where
  "limbo_ids file page_size =
     do {
       tips \<leftarrow> tip_chain_read file page_size;
       (case tips of
          None \<Rightarrow> Ret []
        | Some tips \<Rightarrow>
            let next = (case header_next file page_size of Some n \<Rightarrow> n | None \<Rightarrow> 0) in
            filter_map_run (\<lambda>tx. do { l \<leftarrow> tx_limbo tips tx; Ret (if l then Some tx else None) })
              (map of_nat [1..<Suc (unat next)]))
     }"

definition page_size_of :: "byte list \<Rightarrow> nat option" where
  "page_size_of file = (if length file < 18 then None else map_option unat (u16_at file 16))"

end
