(* ===== verification/Tra_Visibility.thy ===== *)
theory Tra_Visibility
  imports Tra
begin

text \<open>
  What the visibility walks answer: the newest version on the back-version chain that the reader
  counts, with its image rebuilt from the versions before it; counting agrees with reading; a
  prefix read agrees with a whole read; the walks return on every chain that ends, and on no
  cyclic chain without a version that decides them.
\<close>

subsection \<open>The chain of versions\<close>

inductive version_at :: "image \<Rightarrow> nat \<Rightarrow> record_header \<Rightarrow> nat \<Rightarrow> record_header \<Rightarrow> bool"
  for f ps head where
  version_head: "version_at f ps head 0 head"
| version_back: "version_at f ps head k v \<Longrightarrow> rh_back_page v \<noteq> 0 \<Longrightarrow>
    fetch_record f ps (rh_back_page v) (rh_back_line v) = Ret (Some b) \<Longrightarrow>
    version_at f ps head (Suc k) b"

inductive_cases version_at_SucE: "version_at f ps head (Suc k) v"
inductive_cases version_at_0E: "version_at f ps head 0 v"

lemma version_at_unique: "version_at f ps h k v \<Longrightarrow> version_at f ps h k u \<Longrightarrow> u = v"
proof (induction k arbitrary: u v)
  case 0
  then show ?case by (auto elim: version_at_0E)
next
  case (Suc k)
  from Suc.prems(1) obtain a where a: "version_at f ps h k a"
    "fetch_record f ps (rh_back_page a) (rh_back_line a) = Ret (Some v)" by (rule version_at_SucE)
  from Suc.prems(2) obtain b where b: "version_at f ps h k b"
    "fetch_record f ps (rh_back_page b) (rh_back_line b) = Ret (Some u)" by (rule version_at_SucE)
  show ?case using a b Suc.IH [OF a(1) b(1)] by simp
qed

lemma version_at_step:
  assumes "rh_back_page h \<noteq> 0" "fetch_record f ps (rh_back_page h) (rh_back_line h) = Ret (Some b)"
  shows "version_at f ps b k v \<Longrightarrow> version_at f ps h (Suc k) v"
proof (induction rule: version_at.induct)
  case version_head
  show ?case using version_back [OF version_at.version_head assms] .
next
  case (version_back k v b')
  then show ?case by (blast intro: version_at.version_back)
qed

text \<open>How a version decides the walk.\<close>

definition counted_version :: "tip_chain \<Rightarrow> own_tx \<Rightarrow> snapshot option \<Rightarrow> record_header \<Rightarrow> bool" where
  "counted_version tips own snap v \<longleftrightarrow> tx_counts tips own snap (rh_transaction v) = Ret True"

definition passed_version :: "tip_chain \<Rightarrow> own_tx \<Rightarrow> bool \<Rightarrow> snapshot option \<Rightarrow> record_header \<Rightarrow> bool" where
  "passed_version tips own strict snap v \<longleftrightarrow>
     tx_counts tips own snap (rh_transaction v) = Ret False \<and>
     (strict \<longrightarrow> tx_limbo tips (rh_transaction v) = Ret False)"

definition limbo_version :: "tip_chain \<Rightarrow> own_tx \<Rightarrow> bool \<Rightarrow> snapshot option \<Rightarrow> record_header \<Rightarrow> bool" where
  "limbo_version tips own strict snap v \<longleftrightarrow> strict \<and>
     tx_counts tips own snap (rh_transaction v) = Ret False \<and> tx_limbo tips (rh_transaction v) = Ret True"

lemma own_counts: "own_contains own tx \<Longrightarrow> tx_counts tips own snap tx = Ret True"
  by (simp add: tx_counts_def)

lemma limbo_guard:
  assumes "tx_counts tips own snap tx = Ret False"
  shows "\<not> own_contains own tx"
  using assms by (auto simp: tx_counts_def)

subsection \<open>Counting\<close>

lemma exists_loop_counted:
  "counted_version tips own snap v \<Longrightarrow>
    exists_loop f ps tips own strict snap v = Ret (Inr (\<not> has_flag (rh_flags v) REC_DELETED))"
  by (subst exists_loop.simps) (simp add: counted_version_def)

lemma exists_loop_limbo:
  "limbo_version tips own strict snap v \<Longrightarrow> exists_loop f ps tips own strict snap v = Ret (Inl (rh_transaction v))"
  by (subst exists_loop.simps) (simp add: limbo_version_def)

lemma exists_loop_passed:
  "passed_version tips own strict snap v \<Longrightarrow>
    exists_loop f ps tips own strict snap v =
      (if rh_back_page v = 0 then Ret (Inr False)
       else do { b \<leftarrow> fetch_record f ps (rh_back_page v) (rh_back_line v);
                 (case b of None \<Rightarrow> Ret (Inr False) | Some back \<Rightarrow> exists_loop f ps tips own strict snap back) })"
  by (subst exists_loop.simps) (simp add: passed_version_def)

text \<open>Where the walk stops: the k-th version decides, or the chain ends behind it.\<close>

inductive walk_stops ::
    "image \<Rightarrow> nat \<Rightarrow> tip_chain \<Rightarrow> own_tx \<Rightarrow> bool \<Rightarrow> snapshot option \<Rightarrow> record_header \<Rightarrow> nat \<Rightarrow> (u64 + bool) \<Rightarrow> bool"
  for f ps tips own strict snap where
  stop_counted: "counted_version tips own snap v \<Longrightarrow>
    walk_stops f ps tips own strict snap v 0 (Inr (\<not> has_flag (rh_flags v) REC_DELETED))"
| stop_limbo: "limbo_version tips own strict snap v \<Longrightarrow> walk_stops f ps tips own strict snap v 0 (Inl (rh_transaction v))"
| stop_end: "passed_version tips own strict snap v \<Longrightarrow>
    rh_back_page v = 0 \<or> fetch_record f ps (rh_back_page v) (rh_back_line v) = Ret None \<Longrightarrow>
    walk_stops f ps tips own strict snap v 0 (Inr False)"
| stop_back: "passed_version tips own strict snap v \<Longrightarrow> rh_back_page v \<noteq> 0 \<Longrightarrow>
    fetch_record f ps (rh_back_page v) (rh_back_line v) = Ret (Some b) \<Longrightarrow>
    walk_stops f ps tips own strict snap b k r \<Longrightarrow> walk_stops f ps tips own strict snap v (Suc k) r"

lemma walk_stops_exists: "walk_stops f ps tips own strict snap v k r \<Longrightarrow> exists_loop f ps tips own strict snap v = Ret r"
proof (induction rule: walk_stops.induct)
  case (stop_counted v)
  then show ?case by (rule exists_loop_counted)
next
  case (stop_limbo v)
  then show ?case by (rule exists_loop_limbo)
next
  case (stop_end v)
  then show ?case by (auto simp: exists_loop_passed)
next
  case (stop_back v b k r)
  then show ?case by (simp add: exists_loop_passed)
qed

lemma exists_walk_stops: "exists_loop f ps tips own strict snap v = Ret r \<Longrightarrow> \<exists>k. walk_stops f ps tips own strict snap v k r"
proof (induction rule: exists_loop.raw_induct [rotated 1, consumes 1, case_names step])
  case (step loop f ps tips own strict snap v r)
  obtain counts where c: "tx_counts tips own snap (rh_transaction v) = Ret counts"
    using step(2) by (cases "tx_counts tips own snap (rh_transaction v)") auto
  show ?case
  proof (cases counts)
    case True
    then show ?thesis using step(2) c by (auto simp: counted_version_def intro!: exI [of _ 0] stop_counted)
  next
    case no: False
    obtain limbo where l: "(if strict then tx_limbo tips (rh_transaction v) else Ret False) = Ret limbo"
      using step(2) c no by (cases "if strict then tx_limbo tips (rh_transaction v) else Ret False") auto
    show ?thesis
    proof (cases limbo)
      case True
      then show ?thesis using step(2) c no l by (auto simp: limbo_version_def intro!: exI [of _ 0] stop_limbo split: if_splits)
    next
      case False
      then have p: "passed_version tips own strict snap v" using c no l by (auto simp: passed_version_def)
      show ?thesis
      proof (cases "rh_back_page v = 0 \<or> fetch_record f ps (rh_back_page v) (rh_back_line v) = Ret None")
        case True
        then show ?thesis using step(2) c no l False p by (auto intro!: exI [of _ 0] stop_end split: if_splits)
      next
        case live: False
        then obtain b where "fetch_record f ps (rh_back_page v) (rh_back_line v) = Ret (Some b)"
          "loop f ps tips own strict snap b = Ret r"
          using step(2) c no l False by (auto split: Option.bind_splits option.splits)
        then show ?thesis using step(1) p live by (blast intro: stop_back)
      qed
    qed
  qed
qed

lemma exists_loop_stops:
  "exists_loop f ps tips own strict snap v = Ret r \<longleftrightarrow> (\<exists>k. walk_stops f ps tips own strict snap v k r)"
  using walk_stops_exists exists_walk_stops by blast

text \<open>A walk of k steps looks at the versions 0 to k of the chain: it passes the first k.\<close>

lemma walk_stops_chain:
  assumes "walk_stops f ps tips own strict snap h k r"
  shows "\<exists>v. version_at f ps h k v \<and> walk_stops f ps tips own strict snap v 0 r \<and>
    (\<forall>j < k. \<exists>u. version_at f ps h j u \<and> passed_version tips own strict snap u)"
  using assms
proof (induction rule: walk_stops.induct)
  case (stop_back h b k r)
  obtain v where v: "version_at f ps b k v" "walk_stops f ps tips own strict snap v 0 r"
    "\<forall>j < k. \<exists>u. version_at f ps b j u \<and> passed_version tips own strict snap u"
    using stop_back.IH by blast
  note step = version_at_step [OF stop_back.hyps(2,3)]
  have "\<exists>u. version_at f ps h j u \<and> passed_version tips own strict snap u" if "j < Suc k" for j
  proof (cases j)
    case 0
    then show ?thesis using stop_back.hyps(1) version_head by blast
  next
    case (Suc i)
    then show ?thesis using that v(3) step by blast
  qed
  then show ?case using v(2) step [OF v(1)] by blast
qed (auto intro: version_head walk_stops.intros)

lemma chain_walk_stops:
  assumes "version_at f ps h k v" "walk_stops f ps tips own strict snap v j r"
    "\<forall>j < k. \<exists>u. version_at f ps h j u \<and> passed_version tips own strict snap u"
  shows "walk_stops f ps tips own strict snap h (k + j) r"
  using assms
proof (induction arbitrary: j rule: version_at.induct)
  case version_head
  then show ?case by simp
next
  case (version_back k v b)
  have "passed_version tips own strict snap v"
    using version_back.prems(2) version_at_unique [OF version_back.hyps(1)] by blast
  then have "walk_stops f ps tips own strict snap v (Suc j) r"
    using stop_back version_back.hyps(2,3) version_back.prems(1) by blast
  then show ?case using version_back.IH [of "Suc j"] version_back.prems(2) by simp
qed

subsection \<open>Reading\<close>

text \<open>The image of the k-th version as the walk rebuilds it.\<close>

inductive version_image :: "image \<Rightarrow> nat \<Rightarrow> record_header \<Rightarrow> nat \<Rightarrow> record_header \<Rightarrow> byte list option \<Rightarrow> bool"
  for f ps h where
  image_head: "(if has_flag (rh_flags h) REC_DELETED then Ret None else assembled_image f ps h) = Ret img \<Longrightarrow>
    version_image f ps h 0 h img"
| image_back: "version_image f ps h k v img \<Longrightarrow> rh_back_page v \<noteq> 0 \<Longrightarrow>
    fetch_record f ps (rh_back_page v) (rh_back_line v) = Ret (Some b) \<Longrightarrow>
    assembled_image f ps b = Ret (Some back_data) \<Longrightarrow> step_image v img back_data = Some img' \<Longrightarrow>
    version_image f ps h (Suc k) b (Some img')"

lemma version_image_at: "version_image f ps h k v img \<Longrightarrow> version_at f ps h k v"
  by (induction rule: version_image.induct) (auto intro: version_at.intros)

text \<open>What a run of the loop from the k-th version has to establish.\<close>

definition reads_version ::
    "image \<Rightarrow> nat \<Rightarrow> tip_chain \<Rightarrow> own_tx \<Rightarrow> bool \<Rightarrow> snapshot option \<Rightarrow> record_header \<Rightarrow> nat \<Rightarrow> visible_version \<Rightarrow> bool" where
  "reads_version f ps tips own strict snap h k vv \<longleftrightarrow>
     (\<exists>v. version_image f ps h k v (Some (vv_image vv)) \<and> counted_version tips own snap v \<and>
        \<not> has_flag (rh_flags v) REC_DELETED \<and> vv_txn vv = rh_transaction v \<and> vv_format vv = rh_format v \<and>
        vv_walked vv = of_nat k \<and>
        (\<forall>j < k. \<exists>u. version_at f ps h j u \<and> passed_version tips own strict snap u))"

lemma version_loop_reads:
  assumes "version_loop f ps tips own strict snap v img False walked deltas = Ret (Inr (Some vv))"
    and "version_image f ps h k v img" "walked = of_nat k"
    and "\<forall>j < k. \<exists>u. version_at f ps h j u \<and> passed_version tips own strict snap u"
  shows "\<exists>n. reads_version f ps tips own strict snap h n vv"
proof -
  have "\<forall>k. y = Inr (Some vv) \<and> \<not> prefixed \<and> version_image f ps h k v img \<and> walked = of_nat k \<and>
      (\<forall>j < k. \<exists>u. version_at f ps h j u \<and> passed_version tips own strict snap u) \<longrightarrow>
      (\<exists>n. reads_version f ps tips own strict snap h n vv)"
    if "version_loop f ps tips own strict snap v img prefixed walked deltas = Ret y" for v img prefixed walked deltas y
    using that
  proof (induction rule: version_loop.raw_induct [rotated 1, consumes 1, case_names step])
    case (step loop f ps tips own strict snap v img prefixed walked deltas y)
    show ?case
    proof (intro allI impI, elim conjE)
      fix k assume y: "y = Inr (Some vv)" and full: "\<not> prefixed" and at: "version_image f ps h k v img"
        and w: "walked = of_nat k" and passed: "\<forall>j < k. \<exists>u. version_at f ps h j u \<and> passed_version tips own strict snap u"
      obtain counts where c: "tx_counts tips own snap (rh_transaction v) = Ret counts"
        using step(2) by (cases "tx_counts tips own snap (rh_transaction v)") auto
      show "\<exists>n. reads_version f ps tips own strict snap h n vv"
      proof (cases counts)
        case True
        then have "found_version v img walked deltas = Some vv" using step(2) c y by simp
        then have "reads_version f ps tips own strict snap h k vv"
          using at c True w passed by (auto simp: reads_version_def found_version_def counted_version_def split: if_splits)
        then show ?thesis by blast
      next
        case no: False
        have own: "\<not> own_contains own (rh_transaction v)" using c no by (simp add: limbo_guard)
        obtain limbo where l: "(if strict then tx_limbo tips (rh_transaction v) else Ret False) = Ret limbo"
          using step(2) c no own by (cases "if strict then tx_limbo tips (rh_transaction v) else Ret False") auto
        have "\<not> limbo" using step(2) c no own l y by auto
        then have p: "passed_version tips own strict snap v" using c no l by (auto simp: passed_version_def)
        obtain b where b: "rh_back_page v \<noteq> 0" "fetch_record f ps (rh_back_page v) (rh_back_line v) = Ret (Some b)"
          using step(2) c no own l \<open>\<not> limbo\<close> y full
          by (auto split: Option.bind_splits option.splits if_splits)
        obtain bd img2 where i: "assembled_image f ps b = Ret (Some bd)" "step_image v img bd = Some img2"
          "loop f ps tips own strict snap b (Some img2) False (walked + 1)
             (if has_flag (rh_flags v) REC_DELTA then deltas + 1 else deltas) = Ret y"
          using step(2) c no own l \<open>\<not> limbo\<close> y full b
          by (auto split: Option.bind_splits option.splits if_splits)
        have "\<forall>j < Suc k. \<exists>u. version_at f ps h j u \<and> passed_version tips own strict snap u"
          using passed p version_image_at [OF at] less_Suc_eq by auto
        moreover have "version_image f ps h (Suc k) b (Some img2)" by (rule image_back [OF at b i(1,2)])
        ultimately show ?thesis using step(1) [OF i(3)] y w by (metis of_nat_Suc add.commute)
      qed
    qed
  qed
  then show ?thesis using assms by blast
qed

text \<open>The walk of a whole read arrives at every version that its predecessors let through.\<close>

lemma walk_arrives:
  assumes "version_image f ps h k v img"
    and "\<forall>j < k. \<exists>u. version_at f ps h j u \<and> passed_version tips own strict snap u"
  shows "\<exists>deltas. visible_version_2pc f ps h tips own strict snap =
    version_loop f ps tips own strict snap v img False (of_nat k) deltas"
  using assms
proof (induction rule: version_image.induct)
  case (image_head img)
  then show ?case by (auto simp: visible_version_2pc_def visible_version_2pc_prefix_def assembled_image_def)
next
  case (image_back k v img b back_data img')
  obtain deltas where d: "visible_version_2pc f ps h tips own strict snap =
      version_loop f ps tips own strict snap v img False (of_nat k) deltas"
    using image_back.IH image_back.prems by auto
  have p: "passed_version tips own strict snap v"
    using image_back.prems version_at_unique [OF version_image_at [OF image_back.hyps(1)]] by blast
  then have "\<not> own_contains own (rh_transaction v)"
    using limbo_guard [of tips own snap "rh_transaction v"] by (simp add: passed_version_def)
  then have "version_loop f ps tips own strict snap v img False (of_nat k) deltas =
      version_loop f ps tips own strict snap b (Some img') False (of_nat k + 1)
        (if has_flag (rh_flags v) REC_DELTA then deltas + 1 else deltas)"
    using p image_back.hyps(2-5) by (subst version_loop.simps) (auto simp: passed_version_def)
  then show ?case using d by (auto simp: add.commute)
qed

lemma visible_version_reads:
  assumes "visible_version_2pc f ps h tips own strict snap = Ret (Inr (Some vv))"
  shows "\<exists>k. reads_version f ps tips own strict snap h k vv"
proof -
  obtain img where img: "(if has_flag (rh_flags h) REC_DELETED then Ret None else assembled_image f ps h) = Ret img"
    "version_loop f ps tips own strict snap h img False 0 0 = Ret (Inr (Some vv))"
    using assms by (auto simp: visible_version_2pc_def visible_version_2pc_prefix_def assembled_image_def
        split: Option.bind_splits if_splits)
  show ?thesis using version_loop_reads [OF img(2) image_head [OF img(1)]] by simp
qed

lemma reads_visible_version:
  assumes "reads_version f ps tips own strict snap h k vv"
  shows "\<exists>deltas. visible_version_2pc f ps h tips own strict snap = Ret (Inr (Some (vv\<lparr>vv_deltas := deltas\<rparr>)))"
proof -
  obtain v where v: "version_image f ps h k v (Some (vv_image vv))" "counted_version tips own snap v"
    "\<not> has_flag (rh_flags v) REC_DELETED" "vv_txn vv = rh_transaction v" "vv_format vv = rh_format v"
    "vv_walked vv = of_nat k" "\<forall>j < k. \<exists>u. version_at f ps h j u \<and> passed_version tips own strict snap u"
    using assms by (auto simp: reads_version_def)
  obtain deltas where "visible_version_2pc f ps h tips own strict snap =
      version_loop f ps tips own strict snap v (Some (vv_image vv)) False (of_nat k) deltas"
    using walk_arrives [OF v(1,7)] by blast
  also have "\<dots> = Ret (Inr (found_version v (Some (vv_image vv)) (of_nat k) deltas))"
    using v(2) by (subst version_loop.simps) (simp add: counted_version_def)
  also have "found_version v (Some (vv_image vv)) (of_nat k) deltas = Some (vv\<lparr>vv_deltas := deltas\<rparr>)"
    using v by (simp add: found_version_def)
  finally show ?thesis by blast
qed

text \<open>An error of the reading walk is one of the counting walk.\<close>

lemma version_loop_limbo:
  assumes "version_loop f ps tips own strict snap v img prefixed walked deltas = Ret (Inl tx)"
  shows "\<exists>k. walk_stops f ps tips own strict snap v k (Inl tx)"
proof -
  have "y = Inl tx \<longrightarrow> (\<exists>k. walk_stops f ps tips own strict snap v k (Inl tx))"
    if "version_loop f ps tips own strict snap v img prefixed walked deltas = Ret y" for y
    using that
  proof (induction rule: version_loop.raw_induct [rotated 1, consumes 1, case_names step])
    case (step loop f ps tips own strict snap v img prefixed walked deltas y)
    show ?case
    proof
      assume y: "y = Inl tx"
      obtain counts where c: "tx_counts tips own snap (rh_transaction v) = Ret counts"
        using step(2) by (cases "tx_counts tips own snap (rh_transaction v)") auto
      have no: "\<not> counts" using step(2) c y by auto
      have own: "\<not> own_contains own (rh_transaction v)" using c no by (simp add: limbo_guard)
      obtain limbo where l: "(if strict then tx_limbo tips (rh_transaction v) else Ret False) = Ret limbo"
        using step(2) c no own by (cases "if strict then tx_limbo tips (rh_transaction v) else Ret False") auto
      show "\<exists>k. walk_stops f ps tips own strict snap v k (Inl tx)"
      proof (cases limbo)
        case True
        then have "tx = rh_transaction v" using step(2) c no own l y by auto
        then show ?thesis
          using c no l True by (auto simp: limbo_version_def intro!: exI [of _ 0] stop_limbo split: if_splits)
      next
        case False
        then have p: "passed_version tips own strict snap v" using c no l by (auto simp: passed_version_def)
        obtain b where b: "rh_back_page v \<noteq> 0" "fetch_record f ps (rh_back_page v) (rh_back_line v) = Ret (Some b)"
          "\<exists>img p w d. loop f ps tips own strict snap b img p w d = Ret y"
          using step(2) c no own l False y by (auto split: Option.bind_splits option.splits if_splits)
        then show ?thesis using step(1) y stop_back [OF p b(1,2)] by blast
      qed
    qed
  qed
  then show ?thesis using assms by blast
qed

lemma stops_counted_image:
  assumes "reads_version f ps tips own strict snap h k vv"
  shows "walk_stops f ps tips own strict snap h k (Inr True)"
proof -
  obtain v where v: "version_image f ps h k v (Some (vv_image vv))" "counted_version tips own snap v"
    "\<not> has_flag (rh_flags v) REC_DELETED" "\<forall>j < k. \<exists>u. version_at f ps h j u \<and> passed_version tips own strict snap u"
    using assms by (auto simp: reads_version_def)
  have "walk_stops f ps tips own strict snap v 0 (Inr True)"
    using stop_counted [OF v(2)] v(3) by auto
  then show ?thesis using chain_walk_stops [OF version_image_at [OF v(1)] _ v(4)] by fastforce
qed

text \<open>Where reading finds no row: a version of the chain has no image although it is no deleted stub, or the
  counting walk finds none either.\<close>

lemma version_image_unique: "version_image f ps h k v img \<Longrightarrow> version_image f ps h k u img' \<Longrightarrow> u = v \<and> img' = img"
proof (induction arbitrary: u img' rule: version_image.induct)
  case (image_head img)
  from image_head(2,1) show ?case by cases auto
next
  case (image_back k v img b back_data img1)
  from image_back.prems obtain v' img'' back_data' where "version_image f ps h k v' img''"
    "fetch_record f ps (rh_back_page v') (rh_back_line v') = Ret (Some u)" "assembled_image f ps u = Ret (Some back_data')"
    "\<exists>i. step_image v' img'' back_data' = Some i \<and> img' = Some i"
    by cases auto
  with image_back.IH image_back.hyps show ?case by fastforce
qed

definition broken_version :: "image \<Rightarrow> nat \<Rightarrow> record_header \<Rightarrow> nat \<Rightarrow> record_header \<Rightarrow> bool" where
  "broken_version f ps h k v \<longleftrightarrow> version_at f ps h k v \<and>
     \<not> (\<exists>img. version_image f ps h k v img \<and> (img = None \<longrightarrow> has_flag (rh_flags v) REC_DELETED))"

lemma broken_back:
  assumes at: "version_image f ps h k v img" and b: "rh_back_page v \<noteq> 0" "fetch_record f ps (rh_back_page v) (rh_back_line v) = Ret (Some b)"
    and no: "assembled_image f ps b = Ret None \<or> (\<exists>bd. assembled_image f ps b = Ret (Some bd) \<and> step_image v img bd = None)"
  shows "broken_version f ps h (Suc k) b"
proof -
  have "\<not> version_image f ps h (Suc k) b i" for i
  proof
    assume "version_image f ps h (Suc k) b i"
    then obtain v' img' bd where "version_image f ps h k v' img'" "assembled_image f ps b = Ret (Some bd)"
      "step_image v' img' bd \<noteq> None" by cases auto
    then show False using version_image_unique [OF at] no by auto
  qed
  then show ?thesis using version_at.version_back [OF version_image_at [OF at] b] by (auto simp: broken_version_def)
qed

lemma version_loop_none:
  assumes "version_loop f ps tips own strict snap v img False walked deltas = Ret (Inr None)" "version_image f ps h k v img"
  shows "(\<exists>n. walk_stops f ps tips own strict snap v n (Inr False)) \<or> (\<exists>n u. broken_version f ps h n u)"
proof -
  have "\<forall>k. y = Inr None \<and> \<not> prefixed \<and> version_image f ps h k v img \<longrightarrow>
      (\<exists>n. walk_stops f ps tips own strict snap v n (Inr False)) \<or> (\<exists>n u. broken_version f ps h n u)"
    if "version_loop f ps tips own strict snap v img prefixed walked deltas = Ret y" for v img prefixed walked deltas y
    using that
  proof (induction rule: version_loop.raw_induct [rotated 1, consumes 1, case_names step])
    case (step loop f ps tips own strict snap v img prefixed walked deltas y)
    show ?case
    proof (intro allI impI, elim conjE)
      fix k assume y: "y = Inr None" and full: "\<not> prefixed" and at: "version_image f ps h k v img"
      let ?ends = "(\<exists>n. walk_stops f ps tips own strict snap v n (Inr False)) \<or> (\<exists>n u. broken_version f ps h n u)"
      obtain counts where c: "tx_counts tips own snap (rh_transaction v) = Ret counts"
        using step(2) by (cases "tx_counts tips own snap (rh_transaction v)") auto
      show ?ends
      proof (cases counts)
        case True
        then have found: "found_version v img walked deltas = None" using step(2) c y by simp
        show ?thesis
        proof (cases "has_flag (rh_flags v) REC_DELETED")
          case True
          then show ?thesis using stop_counted [of tips own snap v f ps strict] c \<open>counts\<close> by (auto simp: counted_version_def)
        next
          case False
          then have "img = None" using found by (auto simp: found_version_def)
          then have "i = None" if "version_image f ps h k v i" for i
            using version_image_unique [OF at that] by simp
          then have "broken_version f ps h k v"
            using False version_image_at [OF at] unfolding broken_version_def by blast
          then show ?thesis by blast
        qed
      next
        case no: False
        have own: "\<not> own_contains own (rh_transaction v)" using c no by (simp add: limbo_guard)
        obtain limbo where l: "(if strict then tx_limbo tips (rh_transaction v) else Ret False) = Ret limbo"
          using step(2) c no own by (cases "if strict then tx_limbo tips (rh_transaction v) else Ret False") auto
        have "\<not> limbo" using step(2) c no own l y by auto
        then have p: "passed_version tips own strict snap v" using c no l by (auto simp: passed_version_def)
        show ?thesis
        proof (cases "rh_back_page v = 0 \<or> fetch_record f ps (rh_back_page v) (rh_back_line v) = Ret None")
          case True
          then show ?thesis using stop_end [OF p] by blast
        next
          case False
          then obtain b where b: "rh_back_page v \<noteq> 0" "fetch_record f ps (rh_back_page v) (rh_back_line v) = Ret (Some b)"
            using step(2) c no own l \<open>\<not> limbo\<close> y full by (auto split: Option.bind_splits option.splits if_splits)
          then obtain bd where bd: "assembled_image f ps b = Ret bd"
            using step(2) c no own l \<open>\<not> limbo\<close> y full by (auto split: Option.bind_splits option.splits if_splits)
          show ?thesis
          proof (cases "bd = None \<or> step_image v img (the bd) = None")
            case True
            then have "broken_version f ps h (Suc k) b" using bd by (intro broken_back [OF at b]) (cases bd, auto)
            then show ?thesis by blast
          next
            case False
            then obtain d img2 where i: "assembled_image f ps b = Ret (Some d)" "step_image v img d = Some img2" using bd by auto
            then have "loop f ps tips own strict snap b (Some img2) False (walked + 1)
                (if has_flag (rh_flags v) REC_DELTA then deltas + 1 else deltas) = Ret y"
              using step(2) c no own l \<open>\<not> limbo\<close> y full b by auto
            from step(1) [OF this] show ?thesis using y image_back [OF at b i] stop_back [OF p b] by blast
          qed
        qed
      qed
    qed
  qed
  then show ?thesis using assms by blast
qed

subsection \<open>Chains that end, and chains that do not\<close>

lemma version_at_down: "version_at f ps h k v \<Longrightarrow> j \<le> k \<Longrightarrow> \<exists>u. version_at f ps h j u"
proof (induction rule: version_at.induct)
  case (version_back k v b)
  then show ?case using version_at.version_back [OF version_back.hyps] le_Suc_eq by metis
qed (auto intro: version_head)

lemma version_at_trans: "version_at f ps h k v \<Longrightarrow> version_at f ps v j u \<Longrightarrow> version_at f ps h (k + j) u"
proof (induction k arbitrary: h)
  case 0
  then show ?case by (auto elim: version_at_0E)
next
  case (Suc k)
  show ?case using Suc.prems(2,1)
  proof (induction rule: version_at.induct)
    case version_head
    then show ?case by simp
  next
    case (version_back j u b)
    then show ?case using version_at.version_back [of f ps h "Suc k + j" u b] by simp
  qed
qed

lemma exists_loop_returns:
  assumes "\<not> (\<exists>v. version_at f ps h n v)" "0 < tc_per_page tips"
    and "\<forall>k v. version_at f ps h k v \<longrightarrow> fetch_record f ps (rh_back_page v) (rh_back_line v) \<noteq> Panic"
  shows "\<exists>k r. k < n \<and> walk_stops f ps tips own strict snap h k r"
  using assms(1,3)
proof (induction n arbitrary: h)
  case 0
  then show ?case by (auto intro: version_head)
next
  case (Suc n)
  obtain s where s: "tip_chain_state tips (rh_transaction h) = Ret s"
    using assms(2) by (auto simp: tip_chain_state_def Let_def)
  then obtain counts where c: "tx_counts tips own snap (rh_transaction h) = Ret counts"
    by (cases "own_contains own (rh_transaction h) \<or> rh_transaction h = 0") (auto simp: tx_counts_def)
  obtain limbo where l: "tx_limbo tips (rh_transaction h) = Ret limbo" using s by (simp add: tx_limbo_def)
  obtain b where b: "fetch_record f ps (rh_back_page h) (rh_back_line h) = Ret b"
    using Suc.prems(2) version_head by (metis option.exhaust)
  consider "counts" | "\<not> counts" "strict" "limbo" | "passed_version tips own strict snap h"
    using c l by (auto simp: passed_version_def)
  then show ?case
  proof cases
    case 1
    then have "walk_stops f ps tips own strict snap h 0 (Inr (\<not> has_flag (rh_flags h) REC_DELETED))"
      using c by (intro stop_counted) (simp add: counted_version_def)
    then show ?thesis by blast
  next
    case 2
    then have "walk_stops f ps tips own strict snap h 0 (Inl (rh_transaction h))"
      using c l by (intro stop_limbo) (simp add: limbo_version_def)
    then show ?thesis by blast
  next
    case 3
    show ?thesis
    proof (cases "rh_back_page h = 0 \<or> b = None")
      case True
      then have "walk_stops f ps tips own strict snap h 0 (Inr False)"
        using b by (intro stop_end [OF 3]) auto
      then show ?thesis by blast
    next
      case False
      then obtain back_rec where r: "b = Some back_rec" by blast
      note step = version_at_step [OF _ b [unfolded r], of ]
      have "\<not> (\<exists>v. version_at f ps back_rec n v)" using Suc.prems(1) step False by blast
      moreover have "\<forall>k v. version_at f ps back_rec k v \<longrightarrow> fetch_record f ps (rh_back_page v) (rh_back_line v) \<noteq> Panic"
        using Suc.prems(2) step False by blast
      ultimately obtain k r' where "k < n" "walk_stops f ps tips own strict snap back_rec k r'"
        using Suc.IH by blast
      then show ?thesis using stop_back [OF 3 _ b [unfolded r]] False Suc_mono by blast
    qed
  qed
qed

lemma endless_chain_never_stops:
  assumes "\<forall>k. \<exists>v. version_at f ps h k v \<and> passed_version tips own strict snap v"
  shows "exists_loop f ps tips own strict snap h = None"
proof (rule ccontr)
  assume "exists_loop f ps tips own strict snap h \<noteq> None"
  then obtain r where "exists_loop f ps tips own strict snap h = Ret r" by blast
  then obtain k where "walk_stops f ps tips own strict snap h k r" using exists_walk_stops by blast
  then obtain v where v: "version_at f ps h k v" "walk_stops f ps tips own strict snap v 0 r"
    using walk_stops_chain by blast
  have p: "passed_version tips own strict snap v" using assms v(1) version_at_unique by blast
  obtain u where "version_at f ps h (Suc k) u" using assms by blast
  then obtain w where "version_at f ps h k w" "rh_back_page w \<noteq> 0"
    "fetch_record f ps (rh_back_page w) (rh_back_line w) = Ret (Some u)" by (rule version_at_SucE)
  then have next_v: "rh_back_page v \<noteq> 0" "fetch_record f ps (rh_back_page v) (rh_back_line v) = Ret (Some u)"
    using version_at_unique v(1) by blast+
  from v(2) show False
    by cases (use p next_v in \<open>auto simp: passed_version_def counted_version_def limbo_version_def\<close>)
qed

end
