(* ===== verification/Tra_Properties.thy ===== *)
theory Tra_Properties
  imports Tra_Visibility
begin

text \<open>
  The promises of the visibility walks and of snapshots, with a two-version demo database for the
  witnesses.
\<close>

subsection \<open>A demo database\<close>

definition demo_record :: "byte \<Rightarrow> byte \<Rightarrow> byte \<Rightarrow> byte \<Rightarrow> byte list" where
  "demo_record tx back_page back_line fl =
     [tx, 0, 0, 0, back_page, 0, 0, 0, back_line, 0, fl, 8, 1, 72 + tx, 73]"

definition demo_file :: "byte \<Rightarrow> image" where
  "demo_file back_line = from_bytes (replicate 80 0 @
     [5] @ replicate 15 0 @ [0, 0, 0, 0, 128, 0, 2, 0, 40, 0, 15, 0, 60, 0, 15, 0] @ replicate 8 0 @
     demo_record 12 1 back_line 0 @ replicate 5 0 @ demo_record 11 0 0 2 @ replicate 5 0) 80"

definition demo_head :: "byte \<Rightarrow> record_header" where
  "demo_head back_line = \<lparr>rh_slot = 0, rh_transaction = 12, rh_back_page = 1, rh_back_line = ucast back_line,
     rh_flags = 2048, rh_format = 1, rh_packed = [84, 73], rh_frag = None\<rparr>"

definition demo_back :: record_header where
  "demo_back = \<lparr>rh_slot = 1, rh_transaction = 11, rh_back_page = 0, rh_back_line = 0,
     rh_flags = 2050, rh_format = 1, rh_packed = [83, 73], rh_frag = None\<rparr>"

text \<open>Transaction 11 is committed, transaction 12 is active.\<close>

definition demo_tips :: tip_chain where
  "demo_tips = \<lparr>tc_pages = [\<lparr>tip_pag = \<lparr>pag_type = 3, pag_flags = 0, pag_generation = 0, pag_scn = 0, pag_pageno = 2\<rparr>,
     tip_next = 0, tip_bits = [0, 0, 192, 0]\<rparr>], tc_per_page = 16\<rparr>"

lemma demo_fetch:
  "fetch_record (demo_file 1) 80 1 1 = Ret (Some demo_back)"
  "fetch_record (demo_file 0) 80 1 0 = Ret (Some (demo_head 0))"
  "fetch_record (demo_file 1) 80 1 0 = Ret (Some (demo_head 1))"
  unfolding demo_file_def demo_record_def demo_back_def demo_head_def by code_simp+

lemma demo_states:
  "tx_counts demo_tips own_none None 12 = Ret False" "tx_limbo demo_tips 12 = Ret False"
  "tx_counts demo_tips own_none None 11 = Ret True"
  unfolding demo_tips_def own_none_def by code_simp+

lemma demo_images:
  "assembled_image (demo_file 1) 80 demo_back = Ret (Some [83, 73])"
  "assembled_image (demo_file 1) 80 (demo_head 1) = Ret (Some [84, 73])"
  by (simp_all add: assembled_image_def assembled_image_prefix_def image_prefix_def demo_head_def demo_back_def
      has_flag_def rec_flags USIZE_MAX_def)

lemma demo_back_read:
  "version_loop (demo_file 1) 80 demo_tips own_none True None demo_back (Some [83, 73]) False 1 0 =
    Ret (Inr (Some \<lparr>vv_image = [83, 73], vv_format = 1, vv_walked = 1, vv_deltas = 0, vv_txn = 11\<rparr>))"
  using demo_states(3)
  by (subst version_loop.simps) (simp add: demo_back_def found_version_def has_flag_def rec_flags)

lemma demo_visible: "visible_version_2pc (demo_file 1) 80 (demo_head 1) demo_tips own_none True None =
    Ret (Inr (Some \<lparr>vv_image = [83, 73], vv_format = 1, vv_walked = 1, vv_deltas = 0, vv_txn = 11\<rparr>))"
proof -
  have h: "rh_transaction (demo_head 1) = 12" "rh_back_page (demo_head 1) = 1" "rh_back_line (demo_head 1) = 1"
    "\<not> has_flag (rh_flags (demo_head 1)) REC_DELETED" "\<not> has_flag (rh_flags (demo_head 1)) REC_DELTA"
    by (simp_all add: demo_head_def has_flag_def rec_flags)
  have "version_loop (demo_file 1) 80 demo_tips own_none True None (demo_head 1) (Some [84, 73]) False 0 0 =
      version_loop (demo_file 1) 80 demo_tips own_none True None demo_back (Some [83, 73]) False 1 0"
    by (subst version_loop.simps)
      (simp add: h demo_states demo_fetch demo_images step_image_def own_contains_def own_none_def [symmetric])
  then show ?thesis
    using h demo_images(2) demo_back_read
    by (simp add: visible_version_2pc_def visible_version_2pc_prefix_def assembled_image_def)
qed

lemma demo_kind: "\<not> has_flag (rh_flags (demo_head b)) (REC_CHAIN OR REC_FRAGMENT OR REC_BLOB)"
  by (simp add: demo_head_def has_flag_def rec_flags)

subsection \<open>Reading and counting\<close>

text \<open>C14: The reading walk answers a row exactly when some version of the chain is counted by the
  reader (committed and inside the snapshot, its own, or the system transaction's), is not a
  deleted stub, can be rebuilt from the versions in front of it, and every newer version is one
  the reader does not count: the answer is that newest counted version, with its image, format,
  transaction and distance from the head.\<close>

theorem visible_version_newest_counted:
  "(\<exists>deltas. visible_version_2pc f ps h tips own strict snap = Ret (Inr (Some (vv\<lparr>vv_deltas := deltas\<rparr>)))) \<longleftrightarrow>
   (\<exists>k v. version_image f ps h k v (Some (vv_image vv)) \<and> counted_version tips own snap v \<and>
      \<not> has_flag (rh_flags v) REC_DELETED \<and> vv_txn vv = rh_transaction v \<and> vv_format vv = rh_format v \<and>
      vv_walked vv = of_nat k \<and>
      (\<forall>j < k. \<exists>u. version_at f ps h j u \<and> passed_version tips own strict snap u))"
proof -
  have "(\<exists>deltas. visible_version_2pc f ps h tips own strict snap = Ret (Inr (Some (vv\<lparr>vv_deltas := deltas\<rparr>)))) \<longleftrightarrow>
      (\<exists>k. reads_version f ps tips own strict snap h k vv)"
  proof
    assume "\<exists>deltas. visible_version_2pc f ps h tips own strict snap = Ret (Inr (Some (vv\<lparr>vv_deltas := deltas\<rparr>)))"
    then show "\<exists>k. reads_version f ps tips own strict snap h k vv"
      using visible_version_reads by (fastforce simp: reads_version_def)
  next
    assume "\<exists>k. reads_version f ps tips own strict snap h k vv"
    then show "\<exists>deltas. visible_version_2pc f ps h tips own strict snap = Ret (Inr (Some (vv\<lparr>vv_deltas := deltas\<rparr>)))"
      using reads_visible_version by blast
  qed
  then show ?thesis by (simp add: reads_version_def)
qed

theorem visible_version_newest_counted_witness:
  "\<exists>v. version_image (demo_file 1) 80 (demo_head 1) 1 v (Some [83, 73]) \<and> counted_version demo_tips own_none None v"
proof -
  let ?vv = "\<lparr>vv_image = [83, 73], vv_format = 1, vv_walked = 1, vv_deltas = 0, vv_txn = 11\<rparr>"
  have "\<exists>deltas. visible_version_2pc (demo_file 1) 80 (demo_head 1) demo_tips own_none True None =
      Ret (Inr (Some (?vv\<lparr>vv_deltas := deltas\<rparr>)))"
    using demo_visible by auto
  then obtain k v where kv: "version_image (demo_file 1) 80 (demo_head 1) k v (Some [83, 73])"
    "counted_version demo_tips own_none None v"
    unfolding visible_version_newest_counted by auto
  have "k \<noteq> 0"
  proof
    assume "k = 0"
    then have "v = demo_head 1" using version_image_at [OF kv(1)] by (auto elim: version_at_0E)
    then show False using kv(2) demo_states(1) by (simp add: counted_version_def demo_head_def)
  qed
  moreover have "\<not> 1 < k"
  proof
    assume "1 < k"
    then obtain u where "version_at (demo_file 1) 80 (demo_head 1) (Suc 1) u"
      using version_at_down [OF version_image_at [OF kv(1)], of 2] by (auto simp: numeral_2_eq_2)
    then obtain w where "version_at (demo_file 1) 80 (demo_head 1) 1 w" "rh_back_page w \<noteq> 0"
      by (rule version_at_SucE)
    moreover from this(1) have "w = demo_back"
      using demo_fetch(1) by (auto simp: demo_head_def elim!: version_at_SucE version_at_0E)
    ultimately show False by (simp add: demo_back_def)
  qed
  ultimately show ?thesis using kv by (metis less_one nat_neq_iff)
qed

text \<open>C16: Counting agrees with reading: where the reading walk returns a row the counting walk
  counts one; where it raises the limbo error of a transaction counting raises it too; and where it finds
  no row counting counts none, unless a version of the chain cannot be rebuilt although it is no
  deleted stub (the only thing counting does not look at).\<close>

theorem counting_agrees_with_reading:
  assumes kind: "\<not> has_flag (rh_flags h) (REC_CHAIN OR REC_FRAGMENT OR REC_BLOB)"
    and read: "visible_version_2pc f ps h tips own strict snap = Ret r"
  shows "case r of
      Inl tx \<Rightarrow> visible_exists_2pc f ps h tips own strict snap = Ret (Inl tx)
    | Inr (Some vv) \<Rightarrow> visible_exists_2pc f ps h tips own strict snap = Ret (Inr True)
    | Inr None \<Rightarrow> visible_exists_2pc f ps h tips own strict snap = Ret (Inr False) \<or> (\<exists>k v. broken_version f ps h k v)"
proof -
  obtain img where img: "version_loop f ps tips own strict snap h img False 0 0 = Ret r"
    "(if has_flag (rh_flags h) REC_DELETED then Ret None else assembled_image f ps h) = Ret img"
    using read by (auto simp: visible_version_2pc_def visible_version_2pc_prefix_def assembled_image_def
      split: Option.bind_splits if_splits)
  show ?thesis
  proof (cases r)
    case (Inl tx)
    then show ?thesis
      using version_loop_limbo img(1) walk_stops_exists kind by (fastforce simp: visible_exists_2pc_def)
  next
    case (Inr found)
    show ?thesis
    proof (cases found)
      case (Some vv)
      then obtain k where "reads_version f ps tips own strict snap h k vv"
        using visible_version_reads read Inr by blast
      then show ?thesis
        using stops_counted_image walk_stops_exists kind Inr Some by (fastforce simp: visible_exists_2pc_def)
    next
      case None
      then have "(\<exists>n. walk_stops f ps tips own strict snap h n (Inr False)) \<or> (\<exists>n u. broken_version f ps h n u)"
        using version_loop_none [OF _ image_head [OF img(2)]] img(1) Inr by simp
      then show ?thesis using walk_stops_exists kind by (auto simp: Inr None visible_exists_2pc_def)
    qed
  qed
qed

theorem counting_agrees_with_reading_witness:
  "visible_exists_2pc (demo_file 1) 80 (demo_head 1) demo_tips own_none True None = Ret (Inr True)"
  using counting_agrees_with_reading [OF demo_kind demo_visible] by simp

text \<open>A chain that ends is walked to a verdict: when some position of the chain has no version,
  no slot on it panics, and the inventory has room for states, counting returns, after fewer steps
  than that position.\<close>

lemma counting_returns:
  assumes "\<not> (\<exists>v. version_at f ps h n v)" "0 < tc_per_page tips"
    and "\<forall>k v. version_at f ps h k v \<longrightarrow> fetch_record f ps (rh_back_page v) (rh_back_line v) \<noteq> Panic"
  shows "\<exists>r. visible_exists_2pc f ps h tips own strict snap = Ret r"
  using exists_loop_returns [OF assms] walk_stops_exists by (fastforce simp: visible_exists_2pc_def)

lemma demo_chain: "version_at (demo_file 1) 80 (demo_head 1) k v \<Longrightarrow> k = 0 \<and> v = demo_head 1 \<or> k = 1 \<and> v = demo_back"
proof (induction rule: version_at.induct)
  case (version_back k v b)
  then show ?case using demo_fetch by (auto simp: demo_head_def demo_back_def)
qed simp

text \<open>C18: A cyclic chain hangs the walk: when the back pointers lead from the head back to the head
  and the reader counts none of the versions on the way, counting never returns.\<close>

theorem cyclic_chain_hangs:
  assumes cycle: "version_at f ps h (Suc n) h"
    and passed: "\<forall>k v. version_at f ps h k v \<longrightarrow> passed_version tips own strict snap v"
  shows "exists_loop f ps tips own strict snap h = None"
proof -
  have "\<exists>v. version_at f ps h k v" for k
  proof (induction k rule: less_induct)
    case (less k)
    show ?case
    proof (cases "k \<le> Suc n")
      case True
      then show ?thesis using version_at_down [OF cycle] by blast
    next
      case False
      then obtain u where "version_at f ps h (k - Suc n) u" using less [of "k - Suc n"] by auto
      then have "version_at f ps h (Suc n + (k - Suc n)) u" by (rule version_at_trans [OF cycle])
      then show ?thesis using False by auto
    qed
  qed
  then have "\<forall>k. \<exists>v. version_at f ps h k v \<and> passed_version tips own strict snap v" using passed by blast
  then show ?thesis by (rule endless_chain_never_stops)
qed

theorem cyclic_chain_hangs_witness: "exists_loop (demo_file 0) 80 demo_tips own_none False None (demo_head 0) = None"
proof (rule cyclic_chain_hangs [of _ _ _ 0])
  have h: "rh_back_page (demo_head 0) = 1" "rh_back_line (demo_head 0) = 0" by (simp_all add: demo_head_def)
  show "version_at (demo_file 0) 80 (demo_head 0) (Suc 0) (demo_head 0)"
    using version_back [OF version_head, of "demo_head 0"] demo_fetch(2) h by simp
  have "v = demo_head 0" if "version_at (demo_file 0) 80 (demo_head 0) k v" for k v
    using that by (induction rule: version_at.induct) (use demo_fetch(2) h in auto)
  moreover have "passed_version demo_tips own_none False None (demo_head 0)"
    using demo_states by (simp add: passed_version_def demo_head_def)
  ultimately show "\<forall>k v. version_at (demo_file 0) 80 (demo_head 0) k v \<longrightarrow> passed_version demo_tips own_none False None v"
    by metis
qed

end
