(* ===== verification/Tra_Readers.thy ===== *)
theory Tra_Readers
  imports Tra_Properties
begin

text \<open>
  The parts of a reader around the walk: difference streams as patches of the newer image, prefix
  reads against whole reads, and snapshots, which keep what a reader counts fixed while other
  transactions finish.
\<close>

subsection \<open>Difference streams\<close>

datatype segment = Replace "byte list" | Keep nat

fun segment_ok :: "segment \<Rightarrow> bool" where
  "segment_ok (Replace bs) \<longleftrightarrow> bs \<noteq> [] \<and> length bs \<le> 127"
| "segment_ok (Keep n) \<longleftrightarrow> n \<le> 128"

fun segment_bytes :: "segment \<Rightarrow> byte list" where
  "segment_bytes (Replace bs) = of_nat (length bs) # bs"
| "segment_bytes (Keep n) = [- of_nat n]"

fun segment_len :: "segment \<Rightarrow> nat" where
  "segment_len (Replace bs) = length bs"
| "segment_len (Keep n) = n"

fun patch :: "segment list \<Rightarrow> byte list \<Rightarrow> byte list" where
  "patch [] newer = []"
| "patch (Replace bs # segs) newer = bs @ patch segs (drop (length bs) newer)"
| "patch (Keep n # segs) newer = take n newer @ patch segs (drop n newer)"

definition difference_stream :: "segment list \<Rightarrow> byte list" where
  "difference_stream segs = concat (map segment_bytes segs)"

lemma length_patch: "sum_list (map segment_len segs) \<le> length newer \<Longrightarrow>
    length (patch segs newer) = sum_list (map segment_len segs)"
  by (induction segs newer rule: patch.induct) auto

lemma drop_eq_ConsD: "drop d xs = y # ys \<Longrightarrow> d < length xs \<and> xs ! d = y \<and> drop (Suc d) xs = ys"
  by (metis Cons_nth_drop_Suc drop_all leI list.inject list.simps(3))

lemma segment_bytes_signed:
  "0 < n \<Longrightarrow> n \<le> 127 \<Longrightarrow> sint (of_nat n :: byte) = int n"
  "n \<le> 128 \<Longrightarrow> sint (- of_nat n :: byte) = - int n"
  using sint_literal [of n] sint_repeat [of n] by (simp, cases n) auto

lemma apply_diff_zeros:
  "drop d diff = replicate z 0 \<Longrightarrow>
    \<exists>d'. apply_diff_loop diff out p d = Some (out, p, d') \<and> list_all (\<lambda>b. b = 0) (drop d' diff)"
proof (induction z arbitrary: d)
  case 0
  then show ?case by (subst apply_diff_loop.simps) auto
next
  case (Suc z)
  then have "d < length diff" "diff ! d = 0" "drop (Suc d) diff = replicate z 0"
    using drop_eq_ConsD [of d diff 0 "replicate z 0"] by auto
  then show ?case using Suc.IH [of "Suc d"] Suc.prems
    by (subst apply_diff_loop.simps) (auto simp: list_all_iff)
qed

lemma empty_segments:
  "list_all segment_ok segs \<Longrightarrow> sum_list (map segment_len segs) = 0 \<Longrightarrow>
    list_all (\<lambda>b. b = 0) (difference_stream segs) \<and> patch segs [] = []"
proof (induction segs)
  case (Cons s segs)
  then show ?case by (cases s) (auto simp: difference_stream_def)
qed (simp add: difference_stream_def)

lemma apply_diff_segments:
  assumes "drop d diff = difference_stream segs @ replicate z 0" "length old = p"
    "list_all segment_ok segs" "sum_list (map segment_len segs) \<le> length rest"
  shows "\<exists>d'. apply_diff_loop diff (old @ rest) p d =
      Some (old @ patch segs rest @ drop (sum_list (map segment_len segs)) rest,
            p + sum_list (map segment_len segs), d') \<and> list_all (\<lambda>b. b = 0) (drop d' diff)"
  using assms
proof (induction segs arbitrary: d old rest p)
  case Nil
  then show ?case using apply_diff_zeros [of d diff z "old @ rest" p] by (simp add: difference_stream_def)
next
  case (Cons s segs)
  show ?case
  proof (cases "rest = []")
    case True
    then have "apply_diff_loop diff (old @ rest) p d = Some (old @ rest, p, d)"
      using Cons.prems(2) by (subst apply_diff_loop.simps) simp
    then show ?thesis using True Cons.prems empty_segments [of "s # segs"] by (auto simp: list_all_iff)
  next
    case full: False
    show ?thesis
    proof (cases s)
      case (Replace bs)
      then have bs: "bs \<noteq> []" "length bs \<le> 127" "length bs \<le> length rest" using Cons.prems by auto
      have "drop d diff = of_nat (length bs) # bs @ difference_stream segs @ replicate z 0"
        using Cons.prems(1) Replace by (simp add: difference_stream_def)
      then have d: "d < length diff" "diff ! d = of_nat (length bs)"
        "drop (Suc d) diff = bs @ difference_stream segs @ replicate z 0"
        by (auto dest: drop_eq_ConsD)
      have "Suc d + length bs \<le> length diff" using arg_cong [OF d(3), of length] d(1) by simp
      moreover have "splice (old @ rest) p bs = (old @ bs) @ drop (length bs) rest"
        using Cons.prems(2) by (simp add: splice_def)
      ultimately have "apply_diff_loop diff (old @ rest) p d =
          apply_diff_loop diff ((old @ bs) @ drop (length bs) rest) (p + length bs) (Suc d + length bs)"
        using d bs full Cons.prems(2) segment_bytes_signed(1) [of "length bs"]
        by (subst apply_diff_loop.simps) (simp add: Let_def)
      moreover have "drop (Suc d + length bs) diff = difference_stream segs @ replicate z 0"
        using d(3) by (metis add.commute append_eq_conv_conj drop_drop)
      ultimately show ?thesis
        using Cons.IH [of "Suc d + length bs" "old @ bs" "p + length bs" "drop (length bs) rest"] Cons.prems Replace
        by (simp add: add.assoc add.commute)
    next
      case (Keep n)
      then have n: "n \<le> 128" "n \<le> length rest" using Cons.prems by auto
      have "drop d diff = (- of_nat n) # difference_stream segs @ replicate z 0"
        using Cons.prems(1) Keep by (simp add: difference_stream_def)
      then have d: "d < length diff" "diff ! d = - of_nat n" "drop (Suc d) diff = difference_stream segs @ replicate z 0"
        by (auto dest: drop_eq_ConsD)
      have "apply_diff_loop diff (old @ rest) p d =
          apply_diff_loop diff ((old @ take n rest) @ drop n rest) (p + n) (Suc d)"
        using d n full Cons.prems(2) segment_bytes_signed(2) [of n]
        by (subst apply_diff_loop.simps) (simp add: Let_def)
      moreover have "list_all segment_ok segs" "sum_list (map segment_len segs) \<le> length (drop n rest)"
        "length (old @ take n rest) = p + n" using Cons.prems Keep n by auto
      note Cons.IH [OF d(3) this(3) this(1) this(2)]
      ultimately show ?thesis using Keep n by (simp add: ac_simps)
    qed
  qed
qed

text \<open>C17: A difference stream is a patch of the newer image: applied to it, a stream of replaced and
  kept stretches, padded with any number of zero bytes, gives the replaced bytes and the newer
  image's own bytes in their places, cut where the stream ends, and never fails while the stream
  stays inside the image.\<close>

theorem differences_patch_the_newer_image:
  assumes "list_all segment_ok segs" "sum_list (map segment_len segs) \<le> length newer"
  shows "apply_differences (difference_stream segs @ replicate z 0) newer = Some (patch segs newer)"
  using apply_diff_segments [of 0 "difference_stream segs @ replicate z 0" segs z "[]" 0 newer] assms
    length_patch [of segs newer]
  by (auto simp: apply_differences_def list_all_iff list_ex_iff)

theorem differences_patch_the_newer_image_witness:
  "apply_differences [- 3, 2, 66, 67, 0, 0] [65, 65, 65, 68, 68, 69] = Some [65, 65, 65, 66, 67]"
  using differences_patch_the_newer_image [of "[Keep 3, Replace [66, 67]]" "[65, 65, 65, 68, 68, 69]" 2]
  by (simp add: difference_stream_def numeral_2_eq_2)

subsection \<open>Prefix reads\<close>

lemma prefixed_loop:
  assumes "has_flag (rh_flags h) REC_DELETED \<and> p = None \<and> w = None \<or>
      \<not> has_flag (rh_flags h) REC_DELETED \<and> assembled_image f ps h = Ret w \<and> w \<noteq> None \<and> p \<noteq> None"
    and "version_loop f ps tips own strict snap h w False walked deltas = Ret r"
  shows "version_loop f ps tips own strict snap h p True walked deltas = Ret r \<or>
    (\<exists>vv q. r = Inr (Some vv) \<and> p = Some q \<and> w = Some (vv_image vv) \<and> vv_walked vv = walked \<and>
      version_loop f ps tips own strict snap h p True walked deltas = Ret (Inr (Some (vv\<lparr>vv_image := q\<rparr>))))"
proof (cases "tx_counts tips own snap (rh_transaction h) = Ret True")
  case True
  then have loops: "version_loop f ps tips own strict snap h i b walked deltas = Ret (Inr (found_version h i walked deltas))"
    for i b by (subst version_loop.simps) simp
  show ?thesis using assms by (auto simp: loops found_version_def)
next
  case False
  have "version_loop f ps tips own strict snap h p True walked deltas =
      version_loop f ps tips own strict snap h w False walked deltas"
  proof (cases "has_flag (rh_flags h) REC_DELTA \<and> \<not> has_flag (rh_flags h) REC_DELETED")
    case True
    then have "assembled_image f ps h = Ret w" using assms(1) by auto
    with True False show ?thesis
      unfolding version_loop.simps [of f ps tips own strict snap h p] version_loop.simps [of f ps tips own strict snap h w]
      by (cases "tx_counts tips own snap (rh_transaction h)") (auto cong: if_cong option.case_cong)
  next
    case no: False
    then have "step_image h p b = step_image h w b" for b using assms(1) by (auto simp: step_image_def)
    with no False show ?thesis
      unfolding version_loop.simps [of f ps tips own strict snap h p] version_loop.simps [of f ps tips own strict snap h w]
      by (cases "tx_counts tips own snap (rh_transaction h)") (auto cong: if_cong option.case_cong)
  qed
  then show ?thesis using assms(2) by simp
qed

text \<open>A prefix read agrees with the whole read: for a head that is a deleted stub or whose image
  can be assembled, the walk started from a prefix of the image has the same outcome as the walk
  started from all of it, except that a row answered by the head itself carries a prefix of the
  image, at least \<^verbatim>\<open>min_len\<close> bytes of it or all of it.\<close>

lemma prefix_read_agrees:
  assumes "has_flag (rh_flags h) REC_DELETED \<or> assembled_image f ps h = Ret (Some w)" "min_len \<le> USIZE_MAX"
    and "visible_version_2pc f ps h tips own strict snap = Ret r"
  shows "visible_version_2pc_prefix f ps h tips own strict snap min_len = Ret r \<or>
    (\<exists>vv q. r = Inr (Some vv) \<and> vv_walked vv = 0 \<and> prefix_of_image min_len q (vv_image vv) \<and>
      visible_version_2pc_prefix f ps h tips own strict snap min_len = Ret (Inr (Some (vv\<lparr>vv_image := q\<rparr>))))"
proof (cases "min_len = USIZE_MAX")
  case True
  then show ?thesis using assms(3) by (simp add: visible_version_2pc_def)
next
  case small: False
  show ?thesis
  proof (cases "has_flag (rh_flags h) REC_DELETED")
    case True
    then show ?thesis
      using prefixed_loop [of h None None f ps tips own strict snap 0 0 r] assms(3) small
      by (auto simp: visible_version_2pc_def visible_version_2pc_prefix_def)
  next
    case False
    then have w: "assembled_image f ps h = Ret (Some w)" using assms(1) by simp
    obtain q where q: "assembled_image_prefix f ps h min_len = Ret (Some q)" "prefix_of_image min_len q w"
      using assembled_prefix_agrees [OF w assms(2)] by blast
    have "version_loop f ps tips own strict snap h (Some w) False 0 0 = Ret r"
      using assms(3) False w by (simp add: visible_version_2pc_def visible_version_2pc_prefix_def assembled_image_def)
    then show ?thesis
      using prefixed_loop [of h "Some q" "Some w" f ps tips own strict snap 0 0 r] w q False small
      by (auto simp: visible_version_2pc_prefix_def)
  qed
qed

subsection \<open>Snapshots\<close>

lemma filter_map_run_set:
  "filter_map_run g xs = Ret ys \<Longrightarrow> set ys = {y. \<exists>x \<in> set xs. g x = Ret (Some y)}"
  by (induction xs arbitrary: ys) (auto split: Option.bind_splits option.splits)

lemma ids_below: "tx \<in> set (map of_nat [1..<unat (limit :: u64)]) \<longleftrightarrow> 0 < tx \<and> tx < limit"
proof
  assume "tx \<in> set (map of_nat [1..<unat limit])"
  then obtain n where n: "1 \<le> n" "n < unat limit" "tx = of_nat n" by auto
  then have "unat tx = n" using unsigned_less [of limit, where ?'a = nat] by (simp add: unat_of_nat)
  then show "0 < tx \<and> tx < limit" using n by (simp add: word_less_nat_alt)
next
  assume "0 < tx \<and> tx < limit"
  then have "1 \<le> unat tx" "unat tx < unat limit" by (auto simp: word_less_nat_alt)
  then show "tx \<in> set (map of_nat [1..<unat limit])" by (auto intro!: image_eqI [of _ _ "unat tx"])
qed

lemma capture_active_exact:
  assumes "capture_active tips limit = Ret active"
  shows "tx \<in> set active \<longleftrightarrow> 0 < tx \<and> tx < limit \<and>
    (tip_chain_state tips tx = Ret (Some Active) \<or> tip_chain_state tips tx = Ret (Some Limbo))"
  using filter_map_run_set [OF assms [unfolded capture_active_def]] ids_below [of tx limit]
  by (auto split: Option.bind_splits if_splits)

text \<open>A snapshot answers true for the transactions up to the last assigned one that were finished
  when it was taken.\<close>

lemma captured_sees:
  assumes "capture f ps = Ret sn" "header_next f ps = Some next" "next \<noteq> -1" "tip_chain_read f ps = Ret (Some tips)"
  shows "sees sn tx \<longleftrightarrow> tx \<le> next \<and> (tx = 0 \<or>
    tip_chain_state tips tx \<noteq> Ret (Some Active) \<and> tip_chain_state tips tx \<noteq> Ret (Some Limbo))"
proof -
  obtain active where a: "capture_active tips (next + 1) = Ret active"
    "sn = \<lparr>snap_limit = next + 1, snap_active = active, snap_committed_own = []\<rparr>"
    using assms(1,2,4) by (auto simp: capture_def Let_def split: Option.bind_splits)
  have "tx < next + 1 \<longleftrightarrow> tx \<le> next" using assms(3) by (metis inc_less_eq_iff inc_le not_le add.commute add_eq_0_iff2 less_inc_imp_less_eq)
  then show ?thesis using capture_active_exact [OF a(1), of tx] a(2) by (auto simp: sees_def word_neq_0_conv)
qed


text \<open>How the states of the transactions a snapshot covers may move afterwards: a finished
  transaction stays as it is, an active or limbo one may become anything.\<close>

definition later_states :: "tip_chain \<Rightarrow> tip_chain \<Rightarrow> u64 \<Rightarrow> bool" where
  "later_states tips tips' limit \<longleftrightarrow> 0 < tc_per_page tips \<and> 0 < tc_per_page tips' \<and>
     (\<forall>tx < limit. tip_chain_state tips tx \<noteq> Ret (Some Active) \<longrightarrow> tip_chain_state tips tx \<noteq> Ret (Some Limbo) \<longrightarrow>
        tip_chain_state tips' tx = tip_chain_state tips tx)"

lemma tip_chain_state_Ret: "0 < tc_per_page tips \<Longrightarrow> \<exists>s. tip_chain_state tips tx = Ret s"
  by (simp add: tip_chain_state_def Let_def)

lemma tx_counts_stable:
  assumes later: "later_states tips tips' (snap_limit sn)" and own: "\<not> own_any_active own"
    and sn: "capture_active tips (snap_limit sn) = Ret (snap_active sn)" "snap_committed_own sn = []"
  shows "tx_counts tips' own (Some sn) tx = tx_counts tips own (Some sn) tx"
proof (cases "own_contains own tx \<or> tx = 0")
  case False
  obtain s s' where s: "tip_chain_state tips tx = Ret s" "tip_chain_state tips' tx = Ret s'"
    using later tip_chain_state_Ret unfolding later_states_def by meson
  have "sees sn tx \<Longrightarrow> s' = s"
    using later s False capture_active_exact [OF sn(1), of tx] sn(2)
    by (auto simp: sees_def later_states_def word_neq_0_conv)
  then show ?thesis using s own by (auto simp: tx_counts_def)
qed (simp add: tx_counts_def)

text \<open>The limbo test of a reader.\<close>

definition stops_at_limbo :: "bool \<Rightarrow> tip_chain \<Rightarrow> u64 \<Rightarrow> bool run" where
  "stops_at_limbo strict tips tx = (if strict then tx_limbo tips tx else Ret False)"

lemma exists_loop_cong:
  assumes "\<And>tx. tx_counts tips' own snap tx = tx_counts tips own snap tx"
    and "\<And>tx. stops_at_limbo strict' tips' tx = stops_at_limbo strict tips tx"
  shows "exists_loop f ps tips own strict snap h = Ret r \<Longrightarrow> exists_loop f ps tips' own strict' snap h = Ret r"
proof -
  have "exists_loop f ps t own s snap h = Ret r \<Longrightarrow>
      (\<forall>tx. tx_counts tips' own snap tx = tx_counts t own snap tx) \<Longrightarrow>
      (\<forall>tx. stops_at_limbo strict' tips' tx = stops_at_limbo s t tx) \<Longrightarrow>
      exists_loop f ps tips' own strict' snap h = Ret r" for t s own snap
  proof (induction rule: exists_loop.raw_induct [rotated 1, consumes 1, case_names step])
    case (step loop f ps t own s snap v r)
    define c l where "c = tx_counts t own snap (rh_transaction v)" and "l = (if s then tx_limbo t (rh_transaction v) else Ret False)"
    have c': "tx_counts tips' own snap (rh_transaction v) = c"
      and l': "(if strict' then tx_limbo tips' (rh_transaction v) else Ret False) = l"
      using step.prems by (simp_all only: stops_at_limbo_def c_def l_def)
    note run = step(2) [folded c_def l_def]
    have ih: "exists_loop f ps tips' own strict' snap b = Ret r" if "loop f ps t own s snap b = Ret r" for b
      using step(1) [OF that] step.prems by blast
    show ?case using run ih
      by (subst exists_loop.simps, unfold c' l') (auto split: Option.bind_splits if_splits option.splits)
  qed
  then show "exists_loop f ps tips own strict snap h = Ret r \<Longrightarrow> exists_loop f ps tips' own strict' snap h = Ret r"
    using assms by blast
qed

lemma version_loop_cong:
  assumes "\<And>tx. tx_counts tips' own snap tx = tx_counts tips own snap tx"
    and "\<And>tx. stops_at_limbo strict' tips' tx = stops_at_limbo strict tips tx"
  shows "version_loop f ps tips own strict snap h i b w d = Ret r \<Longrightarrow>
    version_loop f ps tips' own strict' snap h i b w d = Ret r"
proof -
  have "version_loop f ps t own s snap h i b w d = Ret r \<Longrightarrow>
      (\<forall>tx. tx_counts tips' own snap tx = tx_counts t own snap tx) \<Longrightarrow>
      (\<forall>tx. stops_at_limbo strict' tips' tx = stops_at_limbo s t tx) \<Longrightarrow>
      version_loop f ps tips' own strict' snap h i b w d = Ret r" for t s own snap
  proof (induction rule: version_loop.raw_induct [rotated 1, consumes 1, case_names step])
    case (step loop f ps t own s snap v i b w d r)
    define c l where "c = tx_counts t own snap (rh_transaction v)"
      and "l = (if s \<and> \<not> own_contains own (rh_transaction v) then tx_limbo t (rh_transaction v) else Ret False)"
    have eq: "stops_at_limbo strict' tips' (rh_transaction v) = stops_at_limbo s t (rh_transaction v)" using step.prems by blast
    have c': "tx_counts tips' own snap (rh_transaction v) = c" using step.prems by (simp only: c_def)
    have l': "(if strict' \<and> \<not> own_contains own (rh_transaction v) then tx_limbo tips' (rh_transaction v) else Ret False) = l"
      using eq by (cases "own_contains own (rh_transaction v)") (simp_all only: stops_at_limbo_def l_def simp_thms if_False)
    note run = step(2) [folded c_def l_def]
    have ih: "version_loop f ps tips' own strict' snap h i b w d = Ret r" if "loop f ps t own s snap h i b w d = Ret r" for h i b w d
      using step(1) [OF that] step.prems by blast
    show ?case using run ih
      by (subst version_loop.simps, unfold c' l') (auto split: Option.bind_splits if_splits option.splits)
  qed
  then show "version_loop f ps tips own strict snap h i b w d = Ret r \<Longrightarrow>
      version_loop f ps tips' own strict' snap h i b w d = Ret r"
    using assms by blast
qed

text \<open>The limbo test only ever adds an error.\<close>

lemma exists_loop_lenient:
  "exists_loop f ps tips own strict snap h = Ret r \<Longrightarrow> r = Inr x \<Longrightarrow> exists_loop f ps tips own False snap h = Ret (Inr x)"
proof (induction rule: exists_loop.raw_induct [rotated 1, consumes 1, case_names step])
  case (step loop f ps tips own strict snap v r)
  then show ?case
    by (subst exists_loop.simps) (auto split: Option.bind_splits if_splits option.splits)
qed

lemma version_loop_lenient:
  "version_loop f ps tips own strict snap h i b w d = Ret r \<Longrightarrow> r = Inr x \<Longrightarrow>
    version_loop f ps tips own False snap h i b w d = Ret (Inr x)"
proof (induction rule: version_loop.raw_induct [rotated 1, consumes 1, case_names step])
  case (step loop f ps tips own strict snap v i b w d r)
  then show ?case
    by (subst version_loop.simps) (auto split: Option.bind_splits if_splits option.splits)
qed

lemma limbo_error:
  assumes "visible_version_2pc f ps h tips own strict snap = Ret (Inl tx)"
  shows "tip_chain_state tips tx = Ret (Some Limbo)"
proof -
  obtain img where "version_loop f ps tips own strict snap h img False 0 0 = Ret (Inl tx)"
    using assms by (auto simp: visible_version_2pc_def visible_version_2pc_prefix_def split: Option.bind_splits)
  then obtain k where "walk_stops f ps tips own strict snap h k (Inl tx)" using version_loop_limbo by blast
  then obtain v where "walk_stops f ps tips own strict snap v 0 (Inl tx)" using walk_stops_chain by blast
  then show ?thesis by cases (auto simp: limbo_version_def tx_limbo_def)
qed

lemma same_walks:
  assumes "\<And>tx. tx_counts tips' own snap tx = tx_counts tips own snap tx"
    and "\<And>tx. stops_at_limbo strict' tips' tx = stops_at_limbo strict tips tx"
  shows "visible_version_2pc g ps h tips' own strict' snap = visible_version_2pc g ps h tips own strict snap \<and>
    visible_exists_2pc g ps h tips' own strict' snap = visible_exists_2pc g ps h tips own strict snap"
proof -
  have both: "a = b" if "\<And>r. a = Ret r \<Longrightarrow> b = Ret r" "\<And>r. b = Ret r \<Longrightarrow> a = Ret r" for a b :: "'z option"
    using that by (cases a; cases b) auto
  have "version_loop g ps tips' own strict' snap h i b w d = version_loop g ps tips own strict snap h i b w d" for i b w d
    by (rule both) (rule version_loop_cong [rotated 2], assumption, simp_all add: assms)+
  moreover have "exists_loop g ps tips' own strict' snap h = exists_loop g ps tips own strict snap h"
    by (rule both) (rule exists_loop_cong [rotated 2], assumption, simp_all add: assms)+
  ultimately show ?thesis by (simp add: visible_version_2pc_def visible_version_2pc_prefix_def visible_exists_2pc_def)
qed

lemma lenient_walks:
  "visible_version_2pc g ps h tips own strict snap = Ret (Inr x) \<Longrightarrow> visible_version_2pc g ps h tips own False snap = Ret (Inr x)"
  "visible_exists_2pc g ps h tips own strict snap = Ret (Inr y) \<Longrightarrow> visible_exists_2pc g ps h tips own False snap = Ret (Inr y)"
  using version_loop_lenient exists_loop_lenient
  by (fastforce simp: visible_version_2pc_def visible_version_2pc_prefix_def split: Option.bind_splits if_splits)
    (auto simp: visible_exists_2pc_def intro: exists_loop_lenient)

text \<open>C15: A snapshot reader is isolated from what other transactions do after the snapshot: when
  every transaction that was finished at the capture keeps its state, while active and limbo ones
  move as they like, a reader that does not stop at limbo transactions gets the same row from every
  back-version chain, and counts the same, under the later states as under the states of the capture.
  A reader that stops at limbo transactions never gets any other row or count: what it answers is that
  answer too, its error names a transaction that is in limbo at the time of the read, and while no transaction is
  in limbo it answers whenever the other one does.\<close>

theorem snapshot_reads_are_stable:
  assumes "capture f ps = Ret sn" "tip_chain_read f ps = Ret (Some tips)"
    and "later_states tips tips' (snap_limit sn)" "\<not> own_any_active own"
  shows "visible_version_2pc g ps h tips' own False (Some sn) = visible_version_2pc g ps h tips own False (Some sn) \<and>
    visible_exists_2pc g ps h tips' own False (Some sn) = visible_exists_2pc g ps h tips own False (Some sn) \<and>
    (\<forall>x. visible_version_2pc g ps h tips' own True (Some sn) = Ret (Inr x) \<longrightarrow>
       visible_version_2pc g ps h tips own False (Some sn) = Ret (Inr x)) \<and>
    (\<forall>x. visible_exists_2pc g ps h tips' own True (Some sn) = Ret (Inr x) \<longrightarrow>
       visible_exists_2pc g ps h tips own False (Some sn) = Ret (Inr x)) \<and>
    (\<forall>tx. visible_version_2pc g ps h tips' own True (Some sn) = Ret (Inl tx) \<longrightarrow> tip_chain_state tips' tx = Ret (Some Limbo)) \<and>
    ((\<forall>tx. tip_chain_state tips' tx \<noteq> Ret (Some Limbo)) \<longrightarrow>
       visible_version_2pc g ps h tips' own True (Some sn) = visible_version_2pc g ps h tips own False (Some sn) \<and>
       visible_exists_2pc g ps h tips' own True (Some sn) = visible_exists_2pc g ps h tips own False (Some sn))"
proof -
  have sn: "capture_active tips (snap_limit sn) = Ret (snap_active sn)" "snap_committed_own sn = []"
    using assms(1,2) by (auto simp: capture_def Let_def split: Option.bind_splits)
  have c: "tx_counts tips' own (Some sn) tx = tx_counts tips own (Some sn) tx" for tx
    by (rule tx_counts_stable [OF assms(3,4) sn])
  note same = same_walks [where tips = tips and tips' = tips' and own = own and snap = "Some sn" and g = g and ps = ps and h = h, OF c]
  have lenient: "visible_version_2pc g ps h tips' own False (Some sn) = visible_version_2pc g ps h tips own False (Some sn)"
    "visible_exists_2pc g ps h tips' own False (Some sn) = visible_exists_2pc g ps h tips own False (Some sn)"
    using same [of False False] by (simp_all add: stops_at_limbo_def)
  have "stops_at_limbo True tips' tx = stops_at_limbo False tips tx" if no: "\<forall>tx. tip_chain_state tips' tx \<noteq> Ret (Some Limbo)" for tx
    using no tip_chain_state_Ret [of tips' tx] assms(3) by (auto simp: stops_at_limbo_def tx_limbo_def later_states_def)
  then have "(\<forall>tx. tip_chain_state tips' tx \<noteq> Ret (Some Limbo)) \<longrightarrow>
       visible_version_2pc g ps h tips' own True (Some sn) = visible_version_2pc g ps h tips own False (Some sn) \<and>
       visible_exists_2pc g ps h tips' own True (Some sn) = visible_exists_2pc g ps h tips own False (Some sn)"
    using same [of True False] by blast
  then show ?thesis
    using lenient lenient_walks(1) [of g ps h tips' own True "Some sn"] lenient_walks(2) [of g ps h tips' own True "Some sn"]
      limbo_error [of g ps h tips' own True "Some sn"] by (intro conjI) (simp_all only: simp_thms, blast+)
qed


text \<open>A database file whose header has assigned transactions up to 12 and whose inventory says that
  11 is committed and 12 is active; afterwards 12 commits too.\<close>

definition demo_database :: image where
  "demo_database = from_bytes (replicate 40 0 @ [12] @ replicate 39 0 @ replicate 80 0 @
     [3] @ replicate 11 0 @ [2] @ replicate 9 0 @ [192, 0] @ replicate 56 0) 80"

definition demo_inventory :: "byte \<Rightarrow> tip_chain" where
  "demo_inventory fourth = \<lparr>tc_pages = [\<lparr>tip_pag = \<lparr>pag_type = 3, pag_flags = 0, pag_generation = 0, pag_scn = 0, pag_pageno = 2\<rparr>,
     tip_next = 0, tip_bits = [0, 0, 192, fourth] @ replicate 56 0\<rparr>], tc_per_page = 240\<rparr>"

lemma demo_inventory_read: "tip_chain_read demo_database 80 = Ret (Some (demo_inventory 0))"
  unfolding demo_database_def demo_inventory_def by code_simp

lemma demo_capture: "capture demo_database 80 =
    Ret \<lparr>snap_limit = 13, snap_active = [1, 2, 3, 4, 5, 6, 7, 8, 9, 10, 12], snap_committed_own = []\<rparr>"
  unfolding demo_database_def by code_simp

lemma demo_later: "later_states (demo_inventory 0) (demo_inventory 3) 13"
proof -
  have "tip_chain_state (demo_inventory 3) tx = tip_chain_state (demo_inventory 0) tx"
    if "tx < 13" "tip_chain_state (demo_inventory 0) tx \<noteq> Ret (Some Active)" for tx
  proof -
    have "unat tx \<noteq> 12"
    proof
      assume "unat tx = 12"
      then have "tip_chain_state (demo_inventory 0) tx = tip_chain_state (demo_inventory 0) 12"
        by (simp add: tip_chain_state_def Let_def)
      moreover have "tip_chain_state (demo_inventory 0) 12 = Ret (Some Active)"
        unfolding demo_inventory_def by code_simp
      ultimately show False using that(2) by simp
    qed
    then have "unat tx div 4 < 3" using that(1) by (simp add: word_less_nat_alt)
    then consider "unat tx div 4 = 0" | "unat tx div 4 = 1" | "unat tx div 4 = 2" by linarith
    then show ?thesis
      using that(1) by cases (simp_all add: tip_chain_state_def demo_inventory_def tip_state_def word_less_nat_alt)
  qed
  then show ?thesis by (auto simp: later_states_def demo_inventory_def)
qed

theorem snapshot_reads_are_stable_witness:
  "\<exists>sn. visible_version_2pc (demo_file 1) 80 (demo_head 1) (demo_inventory 3) own_none False (Some sn) =
      visible_version_2pc (demo_file 1) 80 (demo_head 1) (demo_inventory 0) own_none False (Some sn)"
proof -
  have "later_states (demo_inventory 0) (demo_inventory 3)
      (snap_limit \<lparr>snap_limit = 13, snap_active = [1, 2, 3, 4, 5, 6, 7, 8, 9, 10, 12], snap_committed_own = []\<rparr>)"
    "\<not> own_any_active own_none"
    using demo_later by (simp_all add: own_none_def)
  from snapshot_reads_are_stable [OF demo_capture demo_inventory_read this] show ?thesis by blast
qed

end
