(* ===== verification/Dml_Tx.thy ===== *)
theory Dml_Tx
  imports Tra
begin

unbundle bit_operations_syntax

text \<open>
  Page allocation and transaction bookkeeping of the writer (\<^verbatim>\<open>crates/ods/src/dml.rs\<close>): pages from
  the page inventory, the two state bits of a transaction, a new inventory page for the first
  transaction of its range, the header's next and oldest fields, and the start of a transaction.
  The row of RDB$PAGES that names a new inventory page is written by \<^verbatim>\<open>ddl::sys_insert\<close>, which is not
  modelled: the definitions that need it take it as their first argument.
\<close>

subsection \<open>Errors and fields\<close>

text \<open>The messages of the code; the formatted ones keep their arguments.\<close>

datatype dml_error =
    Msg string
  | TipDepth nat u64 nat
  | PipOutside nat u32
  | NotAPip u32
  | NoRoom u32 nat nat
  | Catalogue string
  | DuplicateRecord u64

definition put_u32 :: "nat \<Rightarrow> u32 \<Rightarrow> byte list \<Rightarrow> byte list run" where
  "put_u32 at v buf = copy_at buf at (u32_bytes v)"

definition put_u64 :: "nat \<Rightarrow> u64 \<Rightarrow> byte list \<Rightarrow> byte list run" where
  "put_u64 at v buf = copy_at buf at (u64_bytes v)"

text \<open>\<^verbatim>\<open>page_mut(file, page_size, p).ok_or(e)\<close> followed by an edit of the page's bytes.\<close>

definition edit_page :: "u32 \<Rightarrow> dml_error \<Rightarrow> (byte list \<Rightarrow> byte list run) \<Rightarrow> image \<Rightarrow> (dml_error + image) run" where
  "edit_page p e f file =
     (case img_page file p of
        None \<Rightarrow> Ret (Inl e)
      | Some page \<Rightarrow> map_option (\<lambda>page'. Inr (set_page p page' file)) (f page))"

text \<open>The \<^verbatim>\<open>?\<close> operator.\<close>

definition attempt :: "('e + 'a) run \<Rightarrow> ('a \<Rightarrow> ('e + 'b) run) \<Rightarrow> ('e + 'b) run" where
  "attempt r k = (case r of Panic \<Rightarrow> Panic | Ret (Inl e) \<Rightarrow> Ret (Inl e) | Ret (Inr x) \<Rightarrow> k x)"

lemma attempt_simps [simp]: "attempt Panic k = Panic" "attempt (Ret (Inl e)) k = Ret (Inl e)" "attempt (Ret (Inr x)) k = k x"
  by (simp_all add: attempt_def)

lemma attempt_Inr: "attempt r k = Ret (Inr y) \<longleftrightarrow> (\<exists>x. r = Ret (Inr x) \<and> k x = Ret (Inr y))"
  by (auto simp: attempt_def split: option.splits sum.splits)

lemma edit_page_Inr: "edit_page p e f file = Ret (Inr file') \<longleftrightarrow>
    (\<exists>page page'. img_page file p = Some page \<and> f page = Ret page' \<and> file' = set_page p page' file)"
  by (auto simp: edit_page_def split: option.splits)

subsection \<open>Pages from the inventory\<close>

definition pages_per_scn :: "nat \<Rightarrow> nat" where
  "pages_per_scn page_size = pages_per_pip page_size div 32"

definition pip_page_no :: "nat \<Rightarrow> nat \<Rightarrow> u32" where
  "pip_page_no page_size sq = (if sq = 0 then 1 else of_nat (sq * pages_per_pip page_size - 1))"

definition scn_page_no :: "nat \<Rightarrow> nat \<Rightarrow> u32" where
  "scn_page_no page_size sq = (if sq = 0 then 2 else of_nat (sq * pages_per_scn page_size))"

definition free_bit :: "byte list \<Rightarrow> nat \<Rightarrow> bool" where
  "free_bit pip_bytes i \<longleftrightarrow> PIP_BITS_OFFSET + i div 8 < length pip_bytes \<and>
     bit_set (pip_bytes ! (PIP_BITS_OFFSET + i div 8)) (i mod 8)"

definition find_free :: "byte list \<Rightarrow> nat \<Rightarrow> nat \<Rightarrow> nat option" where
  "find_free pip_bytes per_pip mn =
     (let start = min mn per_pip in find (free_bit pip_bytes) ([start..<per_pip] @ [0..<start]))"

text \<open>The bit cleared, the high-water mark raised, the hint moved past the bit.\<close>

definition take_bit_of :: "nat \<Rightarrow> byte list \<Rightarrow> byte list run" where
  "take_bit_of i pip =
     do {
       b \<leftarrow> rs_index pip (PIP_BITS_OFFSET + i div 8);
       let pip1 = pip[PIP_BITS_OFFSET + i div 8 := b AND NOT (push_bit (i mod 8) 1)];
       used \<leftarrow> u32_at pip1 24;
       pip2 \<leftarrow> (if used < of_nat i + 1 then put_u32 24 (of_nat i + 1) pip1 else Ret pip1);
       put_u32 16 (of_nat i + 1) pip2
     }"

definition format_page :: "page_type \<Rightarrow> u32 \<Rightarrow> byte list \<Rightarrow> byte list run" where
  "format_page t page_no page =
     do {
       _ \<leftarrow> rs_index page 0;
       put_u32 12 page_no ((replicate (length page) 0)[0 := page_type_byte t])
     }"

definition format_scn :: "u32 \<Rightarrow> u32 \<Rightarrow> byte list \<Rightarrow> byte list run" where
  "format_scn page_no scn_seq page = Option.bind (format_page ScnInventory page_no page) (put_u32 16 scn_seq)"

definition format_pip :: "u32 \<Rightarrow> byte list \<Rightarrow> byte list run" where
  "format_pip page_no page =
     do {
       page' \<leftarrow> format_page PageInventory page_no page;
       if PIP_BITS_OFFSET \<le> length page'
       then Ret (take PIP_BITS_OFFSET page' @ replicate (length page' - PIP_BITS_OFFSET) 255)
       else Panic
     }"

text \<open>One turn of the loop: a page handed out, or another turn.\<close>

datatype alloc_turn = Allocated u32 image | Again image nat

definition alloc_turn :: "nat \<Rightarrow> image \<Rightarrow> nat \<Rightarrow> (dml_error + alloc_turn) run" where
  "alloc_turn page_size file sq =
     (let per_pip = pages_per_pip page_size; per_scn = pages_per_scn page_size; pip_no = pip_page_no page_size sq in
      case page_at file page_size pip_no of
        None \<Rightarrow> Ret (Inl (PipOutside sq pip_no))
      | Some pip_bytes \<Rightarrow>
          do {
            d \<leftarrow> decode_pip pip_bytes;
            (case d of
               None \<Rightarrow> Ret (Inl (NotAPip pip_no))
             | Some pip \<Rightarrow>
                 (case find_free pip_bytes per_pip (unat (pip_min pip)) of
                    None \<Rightarrow> if 2 ^ 20 < sq + 1 then Ret (Inl (Msg ''PIP chain has no free page''))
                            else Ret (Inr (Again file (sq + 1)))
                  | Some i \<Rightarrow>
                      let page_no = of_nat (sq * per_pip + i) in
                      attempt (edit_page pip_no (Msg ''no PIP page'') (take_bit_of i) file) (\<lambda>file1.
                      let need = (unat page_no + 1) * page_size;
                          file2 = (if byte_len file1 < need then grow need file1 else file1) in
                      if page_no \<noteq> 0 \<and> per_scn = 0 then Panic
                      else if page_no \<noteq> 0 \<and> unat page_no mod per_scn = 0 then
                        attempt (edit_page page_no (Msg ''SCN page out of range'')
                               (format_scn page_no (of_nat (unat page_no div per_scn))) file2)
                          (\<lambda>file3. Ret (Inr (Again file3 sq)))
                      else if i = per_pip - 1 then
                        attempt (edit_page page_no (Msg ''PIP page out of range'') (format_pip page_no) file2)
                          (\<lambda>file3. Ret (Inr (Again file3 (sq + 1))))
                      else Ret (Inr (Allocated page_no file2)))))
          })"

partial_function (option) alloc_loop :: "nat \<Rightarrow> image \<Rightarrow> nat \<Rightarrow> (dml_error + u32 \<times> image) option" where
  "alloc_loop page_size file sq =
     do {
       r \<leftarrow> alloc_turn page_size file sq;
       (case r of
          Inl e \<Rightarrow> Ret (Inl e)
        | Inr (Allocated p file') \<Rightarrow> Ret (Inr (p, file'))
        | Inr (Again file' sq') \<Rightarrow> alloc_loop page_size file' sq')
     }"

definition allocate_page :: "nat \<Rightarrow> image \<Rightarrow> (dml_error + u32 \<times> image) option" where
  "allocate_page page_size file = alloc_loop page_size file 0"

definition release_bits :: "nat \<Rightarrow> byte list \<Rightarrow> byte list run" where
  "release_bits rel_bit pip =
     do {
       let at = PIP_BITS_OFFSET + rel_bit div 8;
       b \<leftarrow> rs_index pip at;
       if bit_set b (rel_bit mod 8) then Ret pip
       else do {
         let b' = b OR push_bit (rel_bit mod 8) 1;
         let pip1 = pip[at := b'];
         let ext = of_nat (rel_bit - rel_bit mod 8);
         pip2 \<leftarrow> (if b' = 255 then do { x \<leftarrow> u32_at pip1 20; if ext < x then put_u32 20 ext pip1 else Ret pip1 }
                 else Ret pip1);
         mn \<leftarrow> u32_at pip2 16;
         if of_nat rel_bit < mn then put_u32 16 (of_nat rel_bit) pip2 else Ret pip2
       }
     }"

definition release_page :: "nat \<Rightarrow> u32 \<Rightarrow> image \<Rightarrow> (dml_error + image) run" where
  "release_page page_size page_no file =
     (let per_pip = pages_per_pip page_size in
      if per_pip = 0 then Panic
      else let sq = unat page_no div per_pip; pip_no = pip_page_no page_size sq in
        edit_page pip_no (PipOutside sq pip_no) (release_bits (unat page_no mod per_pip)) file)"

subsection \<open>The state bits of a transaction\<close>

partial_function (option) chain_pages_loop :: "(u32 \<times> u32) list \<Rightarrow> u32 \<Rightarrow> u32 list \<Rightarrow> (dml_error + u32 list) option" where
  "chain_pages_loop tips cur ordered =
     (if cur = 0 then Ret (Inr ordered)
      else (case find (\<lambda>(no, _). no = cur) tips of
              None \<Rightarrow> Ret (Inl (Msg ''broken TIP chain''))
            | Some (_, nxt) \<Rightarrow> chain_pages_loop tips nxt (ordered @ [cur])))"

definition tip_chain_pages :: "image \<Rightarrow> (dml_error + u32 list) option" where
  "tip_chain_pages file =
     do {
       ts \<leftarrow> tip_pages_of file;
       let tips = map (\<lambda>t. (pag_pageno (tip_pag t), tip_next t)) ts;
       if tips = [] then Ret (Inl (Msg ''no transaction inventory pages''))
       else (case find (\<lambda>no. \<not> list_ex (\<lambda>(_, nxt). nxt = no) tips) (map fst tips) of
               None \<Rightarrow> Ret (Inl (Msg ''TIP chain has no head''))
             | Some cur \<Rightarrow> chain_pages_loop tips cur [])
     }"

definition tip_bits_at :: "nat \<Rightarrow> u64 \<Rightarrow> image \<Rightarrow> (dml_error + u32 \<times> nat \<times> nat) option" where
  "tip_bits_at page_size tx file =
     attempt (tip_chain_pages file) (\<lambda>ordered.
       let per_page = transactions_per_page page_size in
       if per_page = 0 then Panic
       else if unat tx div per_page < length ordered then
         let within = unat tx mod per_page in
         Ret (Inr (ordered ! (unat tx div per_page), TIP_TRANSACTIONS_OFFSET + within div 4, 2 * (within mod 4)))
       else Ret (Inl (Msg ''transaction id beyond the TIP chain'')))"

definition set_tx_state :: "nat \<Rightarrow> u64 \<Rightarrow> tx_state \<Rightarrow> image \<Rightarrow> (dml_error + image) option" where
  "set_tx_state page_size tx state file =
     attempt (tip_bits_at page_size tx file) (\<lambda>(tip_page, at, shift).
       (case img_page file tip_page of
          None \<Rightarrow> Ret (Inl (Msg ''TIP page outside the file''))
        | Some page \<Rightarrow>
            if at < length page
            then Ret (Inr (set_page tip_page (page[at := put_state_bits (page ! at) shift state]) file))
            else Ret (Inl (Msg ''TIP byte outside the page''))))"

text \<open>The catalogue row: relation name, flags, and the column values of \<^verbatim>\<open>SysVal::I\<close>.\<close>

type_synonym sys_insert =
  "nat \<Rightarrow> string \<Rightarrow> nat \<Rightarrow> (string \<times> int) list \<Rightarrow> image \<Rightarrow> (string + image) run"

definition ensure_tip_for :: "sys_insert \<Rightarrow> nat \<Rightarrow> u64 \<Rightarrow> image \<Rightarrow> (dml_error + image) option" where
  "ensure_tip_for insert_row page_size tx file =
     (let per_page = transactions_per_page page_size in
      if per_page = 0 then Panic
      else if unat tx mod per_page \<noteq> 0 then Ret (Inr file)
      else let sq = unat tx div per_page in
        attempt (tip_chain_pages file) (\<lambda>chain.
          if sq < length chain then Ret (Inr file)
          else if length chain \<noteq> sq then Ret (Inl (TipDepth (length chain) tx sq))
          else
            attempt (allocate_page page_size file) (\<lambda>(new_tip, file1).
            attempt (edit_page new_tip (Msg ''new TIP page out of range'') (format_page TransactionInventory new_tip) file1) (\<lambda>file2.
            if sq = 0 then Panic
            else attempt (edit_page (chain ! (sq - 1)) (Msg ''prior TIP page out of range'') (put_u32 16 new_tip) file2) (\<lambda>file3.
            (case insert_row page_size ''RDB$PAGES'' 0
                  [(''RDB$RELATION_ID'', 0), (''RDB$PAGE_NUMBER'', uint new_tip), (''RDB$PAGE_SEQUENCE'', int sq),
                   (''RDB$PAGE_TYPE'', 3)] file3 of
               Panic \<Rightarrow> Panic
             | Ret (Inl m) \<Rightarrow> Ret (Inl (Catalogue m))
             | Ret (Inr file4) \<Rightarrow> Ret (Inr file4)))))))"

subsection \<open>The oldest transactions\<close>

lemma unat_Suc_no_overflow: "(tx :: u64) \<noteq> - 1 \<Longrightarrow> unat (tx + 1) = Suc (unat tx)"
  by (metis Suc_eq_plus1 add.commute add_eq_0_iff2 unat_1 unatSuc)

lemma unat_u64_lt: "unat (tx :: u64) < 2 ^ 64"
  using unsigned_less [of tx, where ?'a = nat] by simp

text \<open>\<^verbatim>\<open>while id <= final && keep(chain.state(id)) { id += 1 }\<close>; the increment overflows at the final
  id of 64 bits.\<close>

function scan_states :: "(tx_state option \<Rightarrow> bool) \<Rightarrow> tip_chain \<Rightarrow> u64 \<Rightarrow> u64 \<Rightarrow> u64 run" where
  "scan_states keep chain final tx =
     (if final < tx then Ret tx
      else (case tip_chain_state chain tx of
              Panic \<Rightarrow> Panic
            | Ret s \<Rightarrow> if \<not> keep s then Ret tx
                       else if tx = - 1 then Panic else scan_states keep chain final (tx + 1)))"
  by pat_completeness auto

termination
proof (relation "measure (\<lambda>(keep, chain, final, tx). 2 ^ 64 - unat tx)", goal_cases)
  case (2 keep chain final tx s)
  then show ?case using unat_u64_lt [of tx] by (simp add: unat_Suc_no_overflow)
qed simp

declare scan_states.simps [simp del]

definition update_oldest :: "nat \<Rightarrow> bool \<Rightarrow> image \<Rightarrow> (dml_error + image) option" where
  "update_oldest page_size include_oit file =
     (case page_at file page_size 0 of
        None \<Rightarrow> Ret (Inl (Msg ''no header page''))
      | Some hdr \<Rightarrow>
          do {
            final \<leftarrow> u64_at hdr 40;
            o48 \<leftarrow> u64_at hdr 48;
            o56 \<leftarrow> u64_at hdr 56;
            let stored_oit = max o48 1;
            chain \<leftarrow> tip_chain_read file page_size;
            (case chain of
               None \<Rightarrow> Ret (Inl (Msg ''no TIP chain''))
             | Some chain \<Rightarrow>
                 do {
                   oit \<leftarrow> (if include_oit
                          then map_option (\<lambda>first. max (if first = 0 then 0 else first - 1) stored_oit)
                                 (scan_states (\<lambda>s. s = Some Committed) chain final stored_oit)
                          else Ret stored_oit);
                   oat \<leftarrow> scan_states (\<lambda>s. s \<noteq> Some Active) chain final (max o56 1);
                   let cap = max final 1;
                   edit_page 0 (Msg ''no header page'')
                     (\<lambda>hdr. do {
                        hdr1 \<leftarrow> (if include_oit then put_u64 48 (min oit cap) hdr else Ret hdr);
                        hdr2 \<leftarrow> put_u64 56 (min oat cap) hdr1;
                        put_u64 64 (min oat cap) hdr2 }) file
                 })
          })"

subsection \<open>Starting a transaction\<close>

text \<open>\<^verbatim>\<open>u64_at(header, 40) + 1\<close>, which overflows at the final id.\<close>

definition next_tx :: "nat \<Rightarrow> image \<Rightarrow> (dml_error + u64) run" where
  "next_tx page_size file =
     (case page_at file page_size 0 of
        None \<Rightarrow> Ret (Inl (Msg ''no header page''))
      | Some hdr \<Rightarrow> do { n \<leftarrow> u64_at hdr 40; if n = - 1 then Panic else Ret (Inr (n + 1)) })"

definition assign_tx :: "sys_insert \<Rightarrow> nat \<Rightarrow> tx_state \<Rightarrow> bool \<Rightarrow> image \<Rightarrow> (dml_error + u64 \<times> image) option" where
  "assign_tx insert_row page_size state include_oit file =
     attempt (next_tx page_size file) (\<lambda>tx.
     attempt (ensure_tip_for insert_row page_size tx file) (\<lambda>file1.
     attempt (set_tx_state page_size tx state file1) (\<lambda>file2.
     attempt (edit_page 0 (Msg ''no header page'') (put_u64 40 tx) file2) (\<lambda>file3.
     attempt (update_oldest page_size include_oit file3) (\<lambda>file4.
     Ret (Inr (tx, file4)))))))"

definition begin_active_tx :: "sys_insert \<Rightarrow> nat \<Rightarrow> image \<Rightarrow> (dml_error + u64 \<times> image) option" where
  "begin_active_tx insert_row page_size file = assign_tx insert_row page_size Active True file"

definition allocate_committed_tx :: "sys_insert \<Rightarrow> nat \<Rightarrow> image \<Rightarrow> (dml_error + u64 \<times> image) option" where
  "allocate_committed_tx insert_row page_size file =
     (case ddl_tx file of
        Some tx \<Rightarrow> Ret (Inr (tx, file))
      | None \<Rightarrow> assign_tx insert_row page_size Committed False file)"

end
