(* ===== verification/Dml_Chain.thy ===== *)
theory Dml_Chain
  imports Dml_Tx Tra_Readers "HOL-Library.Multiset"
begin

unbundle bit_operations_syntax

text \<open>
  The inventory chain under writes: the chain the writer walks is the chain the reader walks, a
  page edit changes exactly the inventory page it touches, and the state of a transaction reads
  back after it is set.
\<close>

subsection \<open>Scans of the pages\<close>

lemma filter_map_run_append:
  "filter_map_run f (xs @ ys) = do { a \<leftarrow> filter_map_run f xs; b \<leftarrow> filter_map_run f ys; Ret (a @ b) }"
proof (induction xs)
  case Nil
  then show ?case by (cases "filter_map_run f ys") auto
next
  case (Cons x xs)
  then show ?case by (auto split: Option.bind_splits option.splits)
qed

lemma filter_map_run_filter:
  "filter_map_run f (filter P xs) = filter_map_run (\<lambda>x. if P x then f x else Ret None) xs"
  by (induction xs) (auto split: Option.bind_splits)

lemma filter_map_run_update:
  assumes "filter_map_run f xs = Ret ts" "i < length xs" "f (xs ! i) = Ret r" "f y = Ret r'"
  obtains us vs where "ts = us @ (case r of None \<Rightarrow> [] | Some t \<Rightarrow> [t]) @ vs"
    "filter_map_run f (xs[i := y]) = Ret (us @ (case r' of None \<Rightarrow> [] | Some t \<Rightarrow> [t]) @ vs)"
proof -
  have xs: "xs = take i xs @ xs ! i # drop (Suc i) xs" using assms(2) by (rule id_take_nth_drop)
  have ys: "xs[i := y] = take i xs @ y # drop (Suc i) xs" using assms(2) by (rule upd_conv_take_nth_drop)
  obtain us where us: "filter_map_run f (take i xs) = Ret us"
    using assms(1) xs by (metis filter_map_run_append Option.bind_eq_None_conv not_Some_eq option.distinct(1))
  obtain vs where vs: "filter_map_run f (drop (Suc i) xs) = Ret vs"
  proof -
    have "filter_map_run f (xs ! i # drop (Suc i) xs) \<noteq> Panic"
      using assms(1) us by (subst (asm) xs) (auto simp: filter_map_run_append split: Option.bind_splits)
    then show ?thesis using that by (auto split: Option.bind_splits)
  qed
  show ?thesis
  proof (rule that)
    show "ts = us @ (case r of None \<Rightarrow> [] | Some t \<Rightarrow> [t]) @ vs"
      using assms(1,3) us vs by (subst (asm) xs) (auto simp: filter_map_run_append split: option.splits)
    show "filter_map_run f (xs[i := y]) = Ret (us @ (case r' of None \<Rightarrow> [] | Some t \<Rightarrow> [t]) @ vs)"
      using assms(4) us vs unfolding ys by (auto simp: filter_map_run_append split: option.splits)
  qed
qed

lemma filter_map_run_keys:
  assumes "filter_map_run f xs = Ret ys" "n + length xs \<le> 2 ^ 32"
    "\<forall>i < length xs. \<forall>y. f (xs ! i) = Ret (Some y) \<longrightarrow> key y = (of_nat (n + i) :: u32)"
  shows "distinct (map key ys) \<and> key ` set ys \<subseteq> of_nat ` {n..<n + length xs}"
  using assms
proof (induction xs arbitrary: ys n)
  case (Cons x xs)
  obtain r rest where r: "f x = Ret r" "filter_map_run f xs = Ret rest"
    "ys = (case r of None \<Rightarrow> rest | Some y \<Rightarrow> y # rest)"
    using Cons.prems(1) by (auto split: Option.bind_splits)
  have keys: "\<forall>i < length xs. \<forall>y. f (xs ! i) = Ret (Some y) \<longrightarrow> key y = of_nat (Suc n + i)"
  proof (intro allI impI)
    fix i y assume "i < length xs" "f (xs ! i) = Ret (Some y)"
    then have "Suc i < length (x # xs)" "f ((x # xs) ! Suc i) = Ret (Some y)" by simp_all
    then have "key y = of_nat (n + Suc i)" using Cons.prems(3) by blast
    then show "key y = of_nat (Suc n + i)" by simp
  qed
  have IH: "distinct (map key rest) \<and> key ` set rest \<subseteq> of_nat ` {Suc n..<Suc n + length xs}"
    using Cons.prems(2) by (intro Cons.IH r(2) keys) simp
  have into: "of_nat ` {Suc n..<Suc n + length xs} \<subseteq> (of_nat :: nat \<Rightarrow> u32) ` {n..<n + length (x # xs)}"
    by (intro image_mono) auto
  show ?case
  proof (cases r)
    case None
    then show ?thesis using r(3) IH into by auto
  next
    case (Some y)
    then have y: "key y = of_nat n" using Cons.prems(3) r(1) by fastforce
    have "of_nat n \<notin> (of_nat :: nat \<Rightarrow> u32) ` {Suc n..<Suc n + length xs}"
    proof
      assume "of_nat n \<in> (of_nat :: nat \<Rightarrow> u32) ` {Suc n..<Suc n + length xs}"
      then obtain m where m: "(of_nat n :: u32) = of_nat m" "n < m" "m < n + length (x # xs)" by auto
      have "unat (of_nat n :: u32) = n" "unat (of_nat m :: u32) = m"
        using Cons.prems(2) m(2,3) by (simp_all add: unat_of_nat)
      then show False using m(1,2) by (metis less_irrefl)
    qed
    then show ?thesis using r(3) Some IH into y by auto
  qed
qed simp


subsection \<open>Inventory pages of a file\<close>

definition scan_tip :: "nat \<Rightarrow> byte list \<Rightarrow> tip_page option run" where
  "scan_tip ps p =
     (if length p = ps then do { t \<leftarrow> rs_index p 0; if t = page_type_byte TransactionInventory then decode_tip p else Ret None }
      else Ret None)"

lemma tip_pages_of_scan: "tip_pages_of file = filter_map_run (scan_tip (img_page_size file)) (img_pages file)"
  unfolding tip_pages_of_def whole_pages_def filter_map_run_filter scan_tip_def by (rule refl)

text \<open>Every inventory page carries its own page number, and page numbers fit 32 bits.\<close>

definition tips_numbered :: "image \<Rightarrow> bool" where
  "tips_numbered file \<longleftrightarrow> length (img_pages file) \<le> 2 ^ 32 \<and>
     (\<forall>i < length (img_pages file). \<forall>t. scan_tip (img_page_size file) (img_pages file ! i) = Ret (Some t) \<longrightarrow>
        pag_pageno (tip_pag t) = of_nat i)"

abbreviation tip_no :: "tip_page \<Rightarrow> u32" where "tip_no t \<equiv> pag_pageno (tip_pag t)"

lemma tips_distinct:
  assumes "tips_numbered file" "tip_pages_of file = Ret ts"
  shows "distinct (map tip_no ts)"
  using filter_map_run_keys [of "scan_tip (img_page_size file)" "img_pages file" ts 0 tip_no] assms
  by (auto simp: tip_pages_of_scan tips_numbered_def)

text \<open>The page of a scanned inventory page, found under its number.\<close>

lemma tip_member:
  assumes "tips_numbered file" "tip_pages_of file = Ret ts" "t \<in> set ts"
  obtains page where "img_page file (tip_no t) = Some page" "length page = img_page_size file"
    "page ! 0 = page_type_byte TransactionInventory" "decode_tip page = Ret (Some t)"
    "scan_tip (img_page_size file) page = Ret (Some t)" "page \<noteq> []"
proof -
  obtain page where page: "page \<in> set (img_pages file)" "scan_tip (img_page_size file) page = Ret (Some t)"
    using filter_map_run_set [OF assms(2) [unfolded tip_pages_of_scan]] assms(3) by auto
  then obtain i where i: "i < length (img_pages file)" "img_pages file ! i = page" by (auto simp: in_set_conv_nth)
  then have "tip_no t = of_nat i" using assms(1) page(2) by (auto simp: tips_numbered_def)
  moreover have "unat (of_nat i :: u32) = i"
    using i(1) assms(1) by (simp add: tips_numbered_def unat_of_nat)
  ultimately have "img_page file (tip_no t) = Some page" using i by (simp add: img_page_def)
  moreover have "length page = img_page_size file" "page \<noteq> []" "page ! 0 = page_type_byte TransactionInventory"
    "decode_tip page = Ret (Some t)"
    using page(2) by (auto simp: scan_tip_def rs_index_def split: if_splits Option.bind_splits)
  ultimately show thesis using that page(2) by blast
qed

text \<open>A page edit and the scan: an inventory page that stays one is replaced in its place, and a
  page that is none before and after does not show.\<close>

lemma tip_pages_of_edit:
  assumes num: "tips_numbered file" and ts: "tip_pages_of file = Ret ts"
    and p: "img_page file p = Some page" "scan_tip (img_page_size file) page = Ret (Some t)"
    and p': "scan_tip (img_page_size file) page' = Ret (Some t')" "tip_no t' = tip_no t"
  shows "tip_pages_of (set_page p page' file) = Ret (map (\<lambda>u. if tip_no u = p then t' else u) ts) \<and>
    tip_no t = p \<and> tips_numbered (set_page p page' file)"
proof -
  let ?f = "scan_tip (img_page_size file)"
  have at: "unat p < length (img_pages file)" "img_pages file ! unat p = page"
    using p(1) by (auto simp: img_page_def split: if_splits)
  have no: "tip_no t = p" using num at p(2) unfolding tips_numbered_def by fastforce
  obtain us vs where uv: "ts = us @ [t] @ vs" "filter_map_run ?f ((img_pages file)[unat p := page']) = Ret (us @ [t'] @ vs)"
    using filter_map_run_update [OF ts [unfolded tip_pages_of_scan] at(1), of "Some t" page' "Some t'"] at(2) p(2) p'(1) by auto
  have d: "distinct (map tip_no ts)" by (rule tips_distinct [OF num ts])
  have "map (\<lambda>u. if tip_no u = p then t' else u) us = us" "map (\<lambda>u. if tip_no u = p then t' else u) vs = vs"
    using d no uv(1) by (auto simp: image_iff intro!: map_idI)
  then have "tip_pages_of (set_page p page' file) = Ret (map (\<lambda>u. if tip_no u = p then t' else u) ts)"
    using uv no by (simp add: tip_pages_of_scan) (simp add: set_page_def)
  moreover have "tips_numbered (set_page p page' file)"
    using num p'(1,2) no at(1) unfolding tips_numbered_def
    by (auto simp: set_page_def nth_list_update)
  ultimately show ?thesis using no by blast
qed

lemma tip_pages_of_edit_other:
  assumes num: "tips_numbered file" and ts: "tip_pages_of file = Ret ts"
    and p: "img_page file p = Some page" "scan_tip (img_page_size file) page = Ret None"
    and p': "scan_tip (img_page_size file) page' = Ret None"
  shows "tip_pages_of (set_page p page' file) = Ret ts \<and> tips_numbered (set_page p page' file)"
proof -
  let ?f = "scan_tip (img_page_size file)"
  have at: "unat p < length (img_pages file)" "img_pages file ! unat p = page"
    using p(1) by (auto simp: img_page_def split: if_splits)
  obtain us vs where uv: "ts = us @ vs" "filter_map_run ?f ((img_pages file)[unat p := page']) = Ret (us @ vs)"
    using filter_map_run_update [OF ts [unfolded tip_pages_of_scan] at(1), of None page' None] at(2) p(2) p' by auto
  then have "tip_pages_of (set_page p page' file) = Ret ts"
    by (simp add: tip_pages_of_scan) (simp add: set_page_def)
  moreover have "tips_numbered (set_page p page' file)"
    using num p' at(1) unfolding tips_numbered_def by (auto simp: set_page_def nth_list_update)
  ultimately show ?thesis by blast
qed


subsection \<open>The chain\<close>

lemma length_swap [simp]: "length (swap_remove i xs) = length xs - 1"
  by (rule length_swap_remove)

lemma swap_remove_map: "i < length xs \<Longrightarrow> swap_remove i (map f xs) = map f (swap_remove i xs)"
  by (cases xs rule: rev_cases) (auto simp: swap_remove_def map_update map_butlast last_map)

lemma mset_swap_remove: "i < length xs \<Longrightarrow> mset (swap_remove i xs) = mset xs - {#xs ! i#}"
proof (cases xs rule: rev_cases)
  case (snoc ys y)
  assume i: "i < length xs"
  show ?thesis
  proof (cases "Suc i = length xs")
    case True
    then show ?thesis using snoc by (simp add: swap_remove_def nth_append)
  next
    case False
    then have "i < length ys" using i snoc by simp
    then show ?thesis using snoc False
      by (simp add: swap_remove_def mset_update nth_append add_mset_commute)
  qed
qed simp

lemma rs_position_map: "rs_position P (map f xs) = rs_position (\<lambda>x. P (f x)) xs"
  by (induction xs) auto

lemma order_tips_map:
  assumes "\<And>t. tip_no (f t) = tip_no t" "\<And>t. tip_next (f t) = tip_next t"
  shows "order_tips (map f tips) cur = map_option (map f) (order_tips tips cur)"
proof (induction tips cur rule: order_tips.induct)
  case (1 tips cur)
  show ?case
  proof (cases "cur = 0")
    case True
    then show ?thesis by (simp add: order_tips.simps)
  next
    case False
    show ?thesis
    proof (cases "rs_position (\<lambda>t. tip_no t = cur) tips")
      case None
      then show ?thesis using False by (simp add: order_tips.simps [of _ cur] rs_position_map assms)
    next
      case (Some pos)
      then have pos: "pos < length tips" using rs_position_Some by blast
      have "order_tips (map f tips) cur =
          map_option ((#) (f (tips ! pos))) (order_tips (map f (swap_remove pos tips)) (tip_next (tips ! pos)))"
        using False Some pos by (subst order_tips.simps) (simp add: rs_position_map assms swap_remove_map)
      moreover have "order_tips tips cur = map_option ((#) (tips ! pos)) (order_tips (swap_remove pos tips) (tip_next (tips ! pos)))"
        using False Some by (subst order_tips.simps) simp
      ultimately show ?thesis using 1 [OF False Some]
        by (cases "order_tips (swap_remove pos tips) (tip_next (tips ! pos))") auto
    qed
  qed
qed

lemma order_tips_step:
  assumes "order_tips tips cur = Some l" "cur \<noteq> 0"
  obtains pos l' where "pos < length tips" "tip_no (tips ! pos) = cur" "l = tips ! pos # l'"
    "order_tips (swap_remove pos tips) (tip_next (tips ! pos)) = Some l'"
proof -
  from assms obtain pos where pos: "rs_position (\<lambda>t. tip_no t = cur) tips = Some pos"
    by (subst (asm) order_tips.simps) (auto split: option.splits)
  then have "pos < length tips \<and> tip_no (tips ! pos) = cur" using rs_position_Some by blast
  moreover obtain l' where "l = tips ! pos # l'" "order_tips (swap_remove pos tips) (tip_next (tips ! pos)) = Some l'"
    using assms pos by (subst (asm) order_tips.simps) auto
  ultimately show thesis using that by blast
qed

lemma order_tips_mset: "order_tips tips cur = Some l \<Longrightarrow> mset l \<subseteq># mset tips"
proof (induction tips cur arbitrary: l rule: order_tips.induct)
  case (1 tips cur)
  show ?case
  proof (cases "cur = 0")
    case True
    then show ?thesis using "1.prems" by (simp add: order_tips.simps)
  next
    case False
    obtain pos where pos: "rs_position (\<lambda>t. tip_no t = cur) tips = Some pos"
      using "1.prems" False by (subst (asm) order_tips.simps) (auto split: option.splits)
    then have le: "pos < length tips" using rs_position_Some by blast
    obtain l' where l': "l = tips ! pos # l'" "order_tips (swap_remove pos tips) (tip_next (tips ! pos)) = Some l'"
      using "1.prems" False pos by (subst (asm) order_tips.simps) auto
    have "mset l' \<subseteq># mset tips - {#tips ! pos#}"
      using "1.IH" [OF False pos l'(2)] mset_swap_remove [OF le] by simp
    then show ?thesis using l'(1) le by (simp add: insert_subset_eq_iff)
  qed
qed

text \<open>The writer's walk over the page numbers is the reader's walk over the pages.\<close>

lemma chain_pages_loop_order:
  assumes "distinct (map tip_no T)"
  shows "order_tips R cur = Some l \<Longrightarrow> set R \<subseteq> set T \<Longrightarrow>
    chain_pages_loop (map (\<lambda>t. (tip_no t, tip_next t)) T) cur acc = Ret (Inr (acc @ map tip_no l))"
proof (induction R cur arbitrary: l acc rule: order_tips.induct)
  case (1 R cur)
  show ?case
  proof (cases "cur = 0")
    case True
    then show ?thesis using "1.prems"(1) by (subst chain_pages_loop.simps) (simp add: order_tips.simps)
  next
    case False
    obtain pos where pos: "rs_position (\<lambda>t. tip_no t = cur) R = Some pos"
      using "1.prems"(1) False by (subst (asm) order_tips.simps) (auto split: option.splits)
    then have at: "pos < length R" "tip_no (R ! pos) = cur" using rs_position_Some by blast+
    obtain l' where l': "l = R ! pos # l'" "order_tips (swap_remove pos R) (tip_next (R ! pos)) = Some l'"
      using "1.prems"(1) False pos by (subst (asm) order_tips.simps) auto
    have in_T: "R ! pos \<in> set T" using at(1) "1.prems"(2) nth_mem by blast
    have "find (\<lambda>(no, _). no = cur) (map (\<lambda>t. (tip_no t, tip_next t)) T) = Some (cur, tip_next (R ! pos))"
      using assms in_T at(2) by (induction T) (auto simp: image_iff)
    moreover have "set (swap_remove pos R) \<subseteq> set T"
    proof -
      have "set_mset (mset (swap_remove pos R)) \<subseteq> set_mset (mset R)"
        unfolding mset_swap_remove [OF at(1)] by (rule set_mset_mono) simp
      then show ?thesis using "1.prems"(2) by simp
    qed
    ultimately show ?thesis
      using "1.IH" [OF False pos l'(2), of "acc @ [cur]"] False l'(1) at(2)
      by (subst chain_pages_loop.simps) simp
  qed
qed

lemma distinct_submset:
  assumes "distinct ys" "mset xs \<subseteq># mset ys"
  shows "distinct xs"
proof -
  have "count (mset ys) a \<le> 1" for a using assms(1) by (simp add: distinct_count_atmost_1)
  then have "count (mset xs) a \<le> 1" for a using mset_subset_eq_count [OF assms(2), of a] le_trans by blast
  moreover have "a \<in> set xs \<Longrightarrow> count (mset xs) a \<ge> 1" for a
    using count_greater_zero_iff [of "mset xs" a] by simp
  ultimately have "count (mset xs) a = (if a \<in> set xs then 1 else 0)" for a
    by (cases "a \<in> set xs") (auto simp: count_eq_zero_iff intro: antisym)
  then show ?thesis by (simp add: distinct_count_atmost_1)
qed

lemma tip_chain_pages_read:
  assumes "tip_chain_read file ps = Ret (Some tc)" "tips_numbered file"
  shows "tip_chain_pages file = Ret (Inr (map tip_no (tc_pages tc))) \<and> distinct (map tip_no (tc_pages tc)) \<and>
    tc_per_page tc = transactions_per_page ps"
proof -
  obtain ts where ts: "tip_pages_of file = Ret ts" "ts \<noteq> []" "tip_chain_of ts ps = Some tc"
    using assms(1) by (auto simp: tip_chain_read_def split: Option.bind_splits if_splits)
  obtain head ordered where h: "find (\<lambda>no. \<not> list_ex (\<lambda>t. tip_next t = no) ts) (map tip_no ts) = Some head"
    "order_tips ts head = Some ordered" "tc = \<lparr>tc_pages = ordered, tc_per_page = transactions_per_page ps\<rparr>"
    using ts(3) by (auto simp: tip_chain_of_def split: Option.bind_splits)
  note d = tips_distinct [OF assms(2) ts(1)]
  have "mset (map tip_no ordered) \<subseteq># mset (map tip_no ts)"
    using image_mset_subseteq_mono [OF order_tips_mset [OF h(2)], of tip_no] by simp
  then have "distinct (map tip_no ordered)" by (rule distinct_submset [OF d])
  moreover have "tip_chain_pages file = Ret (Inr (map tip_no ordered))"
    using chain_pages_loop_order [OF d h(2), of "[]"] ts(1,2) h(1)
    by (simp add: tip_chain_pages_def Let_def comp_def list_ex_iff)
  ultimately show ?thesis using h(3) by simp
qed


subsection \<open>Setting a state\<close>

lemma u_at_update:
  "off + 2 \<le> at \<Longrightarrow> u16_at (xs[at := b]) off = u16_at xs off"
  "off + 4 \<le> at \<Longrightarrow> u32_at (xs[at := b]) off = u32_at xs off"
  "off + 8 \<le> at \<Longrightarrow> u64_at (xs[at := b]) off = u64_at xs off"
  by (simp_all add: u16_at_def u32_at_def u64_at_def rs_slice_def get_range_def drop_update_swap)

lemma scan_tip_update:
  assumes "scan_tip ps page = Ret (Some t)" "TIP_TRANSACTIONS_OFFSET \<le> at"
  shows "scan_tip ps (page[at := b]) =
    Ret (Some (t\<lparr>tip_bits := (tip_bits t)[at - TIP_TRANSACTIONS_OFFSET := b]\<rparr>))"
proof -
  have at: "20 \<le> at" using assms(2) by (simp add: TIP_TRANSACTIONS_OFFSET_def)
  have i: "rs_index (page[at := b]) j = rs_index page j" if "j < at" for j
    using that by (simp add: rs_index_def)
  have h: "decode_page_header (page[at := b]) = decode_page_header page"
    using at by (simp add: decode_page_header_def i u_at_update)
  have "rs_slice_from (page[at := b]) 20 = map_option (\<lambda>x. x[at - 20 := b]) (rs_slice_from page 20)"
    using at by (simp add: rs_slice_from_def drop_update_swap)
  then show ?thesis
    using assms(1) at unfolding scan_tip_def decode_tip_def TIP_TRANSACTIONS_OFFSET_def
    by (auto simp: i h u_at_update split: Option.bind_splits if_splits option.splits)
qed

text \<open>The bits of one transaction within a page.\<close>

lemma tip_state_put:
  assumes "w div 4 < length (tip_bits t)"
  shows "tip_state (t\<lparr>tip_bits := (tip_bits t)[w div 4 := put_state_bits (tip_bits t ! (w div 4)) (2 * (w mod 4)) s]\<rparr>) n =
    (if n = w then Some s else tip_state t n)"
proof (cases "n div 4 = w div 4 \<and> n div 4 < length (tip_bits t)")
  case True
  show ?thesis
  proof (cases "n mod 4 = w mod 4")
    case same: True
    then have "n = w" using True by (metis div_mult_mod_eq)
    then show ?thesis using True put_state_same [of "2 * (n mod 4)" "n mod 4"]
      by (simp add: tip_state_def mult.commute)
  next
    case False
    then show ?thesis using True put_state_other [of "2 * (w mod 4)" "w mod 4" "2 * (n mod 4)" "n mod 4"]
      by (auto simp: tip_state_def mult.commute)
  qed
next
  case False
  then show ?thesis using assms by (auto simp: tip_state_def)
qed

text \<open>The effect of \<^verbatim>\<open>set_tx_state\<close> on what the reader finds.\<close>

lemma set_tx_state_read:
  assumes set_: "set_tx_state ps tx s file = Ret (Inr file')"
    and tc: "tip_chain_read file ps = Ret (Some tc)" and num: "tips_numbered file"
  shows "\<exists>tc' p page page'. tip_chain_read file' ps = Ret (Some tc') \<and> tips_numbered file' \<and>
    file' = set_page p page' file \<and> img_page file p = Some page \<and> length page' = length page \<and>
    page ! 0 = page_type_byte TransactionInventory \<and>
    (\<forall>tx'. tip_chain_state tc' tx' = (if tx' = tx then Ret (Some s) else tip_chain_state tc tx'))"
proof -
  note walk = tip_chain_pages_read [OF tc num]
  define per where "per = transactions_per_page ps"
  define q where "q = unat tx div per"
  define w where "w = unat tx mod per"
  obtain p at shift where bits: "tip_bits_at ps tx file = Ret (Inr (p, at, shift))"
    using set_ by (auto simp: set_tx_state_def attempt_Inr)
  have per: "0 < per" and q: "q < length (tc_pages tc)"
    and p: "p = tip_no (tc_pages tc ! q)" "at = TIP_TRANSACTIONS_OFFSET + w div 4" "shift = 2 * (w mod 4)"
    using bits walk unfolding tip_bits_at_def Let_def
    by (auto simp: attempt_def per_def q_def w_def split: if_splits)
  obtain page where page: "img_page file p = Some page" "at < length page"
    and file': "file' = set_page p (page[at := put_state_bits (page ! at) shift s]) file"
    using set_ bits by (auto simp: set_tx_state_def split: option.splits if_splits)
  let ?t = "tc_pages tc ! q"
  obtain ts where ts: "tip_pages_of file = Ret ts" "ts \<noteq> []" "tip_chain_of ts ps = Some tc"
    using tc by (auto simp: tip_chain_read_def split: Option.bind_splits if_splits)
  obtain head where h: "find (\<lambda>no. \<not> list_ex (\<lambda>t. tip_next t = no) ts) (map tip_no ts) = Some head"
    "order_tips ts head = Some (tc_pages tc)" "tc_per_page tc = per"
    using ts(3) by (auto simp: tip_chain_of_def per_def split: Option.bind_splits)
  have in_ts: "?t \<in> set ts"
    using mset_subset_eqD [OF order_tips_mset [OF h(2)]] q by (metis nth_mem set_mset_mset)
  obtain pg where pg: "img_page file (tip_no ?t) = Some pg" "pg ! 0 = page_type_byte TransactionInventory"
    "decode_tip pg = Ret (Some ?t)" "scan_tip (img_page_size file) pg = Ret (Some ?t)"
    by (rule tip_member [OF num ts(1) in_ts])
  have scan: "page = pg" using page(1) pg(1) p(1) by simp
  have tb: "tip_bits ?t = drop TIP_TRANSACTIONS_OFFSET page"
    using pg(3) scan by (auto simp: decode_tip_def rs_slice_from_def split: Option.bind_splits option.splits if_splits)
      (metis tip_page.select_convs(3))
  have inb: "w div 4 < length (tip_bits ?t)" "page ! at = tip_bits ?t ! (w div 4)"
    using page(2) p(2) tb by auto
  define t' where "t' = ?t\<lparr>tip_bits := (tip_bits ?t)[w div 4 := put_state_bits (tip_bits ?t ! (w div 4)) (2 * (w mod 4)) s]\<rparr>"
  have scan': "scan_tip (img_page_size file) (page[at := put_state_bits (page ! at) shift s]) = Ret (Some t')"
    using scan_tip_update [of "img_page_size file" page ?t at] pg(4) scan p(2,3) inb(2) by (simp add: t'_def)
  have no': "tip_no t' = tip_no ?t" "tip_next t' = tip_next ?t" by (simp_all add: t'_def)
  define f where "f = (\<lambda>u. if tip_no u = p then t' else u)"
  have new: "tip_pages_of file' = Ret (map f ts)" "tips_numbered file'"
    using tip_pages_of_edit [OF num ts(1) page(1) _ scan' no'(1)] pg(4) scan file' by (auto simp: f_def)
  have d: "distinct (map tip_no ts)" by (rule tips_distinct [OF num ts(1)])
  have fts: "tip_no (f u) = tip_no u" "u \<in> set ts \<Longrightarrow> tip_next (f u) = tip_next u" for u
    using d in_ts p(1) no' by (auto simp: f_def distinct_map inj_on_def)
  define g where "g = (\<lambda>u. if u = ?t then t' else u)"
  have fg: "map f ts = map g ts"
    using d in_ts p(1) by (auto simp: f_def g_def distinct_map inj_on_def)
  have gno: "tip_no (g u) = tip_no u" "tip_next (g u) = tip_next u" for u using no' by (auto simp: g_def)
  define tc' where "tc' = \<lparr>tc_pages = map g (tc_pages tc), tc_per_page = per\<rparr>"
  have "tip_chain_of (map g ts) ps = Some tc'"
    using h order_tips_map [of g ts head] gno
    by (simp add: tip_chain_of_def list_ex_iff comp_def tc'_def per_def)
  then have read: "tip_chain_read file' ps = Ret (Some tc')"
    using new(1) fg ts(2) by (simp add: tip_chain_read_def)
  have "tip_chain_state tc' tx' = (if tx' = tx then Ret (Some s) else tip_chain_state tc tx')" for tx'
  proof -
    have same: "g (tc_pages tc ! k) = (if k = q then t' else tc_pages tc ! k)" if "k < length (tc_pages tc)" for k
      using walk q that by (auto simp: g_def distinct_map nth_eq_iff_index_eq)
    have st: "tip_state t' n = (if n = w then Some s else tip_state ?t n)" for n
      using tip_state_put [of w ?t s n] inb(1) by (simp add: t'_def)
    have tx: "tx' = tx \<longleftrightarrow> unat tx' div per = q \<and> unat tx' mod per = w"
      unfolding q_def w_def by (metis div_mult_mod_eq word_unat_eq_iff)
    show ?thesis
      using per q same st tx h(3) by (auto simp: tip_chain_state_def tc'_def Let_def q_def [symmetric] w_def [symmetric])
  qed
  moreover have "page ! 0 = page_type_byte TransactionInventory" using pg(2) scan by simp
  ultimately show ?thesis using read new(2) file' page(1) by (metis length_list_update)
qed

end
