(* ===== verification/Dml_Properties.thy ===== *)
theory Dml_Properties
  imports Dml_Chain
begin

unbundle bit_operations_syntax

text \<open>
  What the writer's transaction bookkeeping promises: a state set is the state read, the oldest
  fields of the header pass no active transaction, and a begun transaction is active under a fresh
  number.
\<close>

subsection \<open>Setting a state\<close>

lemma set_tx_state_returns:
  assumes tc: "tip_chain_read file ps = Ret (Some tc)" and num: "tips_numbered file"
    and known: "tip_chain_state tc tx = Ret (Some s0)"
  shows "\<exists>file'. set_tx_state ps tx s file = Ret (Inr file')"
proof -
  note walk = tip_chain_pages_read [OF tc num]
  define per where "per = transactions_per_page ps"
  define q where "q = unat tx div per"
  define w where "w = unat tx mod per"
  let ?t = "tc_pages tc ! q"
  have k: "0 < per" "q < length (tc_pages tc)" "w div 4 < length (tip_bits ?t)"
    using known walk by (auto simp: tip_chain_state_def tip_state_def Let_def per_def q_def w_def split: if_splits)
  obtain ts where ts: "tip_pages_of file = Ret ts" "tip_chain_of ts ps = Some tc"
    using tc by (auto simp: tip_chain_read_def split: Option.bind_splits if_splits)
  obtain head where h: "order_tips ts head = Some (tc_pages tc)"
    using ts(2) by (auto simp: tip_chain_of_def split: Option.bind_splits)
  have in_ts: "?t \<in> set ts"
    using mset_subset_eqD [OF order_tips_mset [OF h]] k(2) by (metis nth_mem set_mset_mset)
  obtain page where page: "img_page file (tip_no ?t) = Some page" "decode_tip page = Ret (Some ?t)"
    by (rule tip_member [OF num ts(1) in_ts])
  have tb: "tip_bits ?t = drop TIP_TRANSACTIONS_OFFSET page"
    using page(2) by (auto simp: decode_tip_def rs_slice_from_def split: Option.bind_splits option.splits if_splits)
      (metis tip_page.select_convs(3))
  have "tip_bits_at ps tx file = Ret (Inr (tip_no ?t, TIP_TRANSACTIONS_OFFSET + w div 4, 2 * (w mod 4)))"
    using walk k(1,2) by (simp add: tip_bits_at_def Let_def per_def q_def w_def)
  moreover have "TIP_TRANSACTIONS_OFFSET + w div 4 < length page" using k(3) tb by simp
  ultimately show ?thesis using page(1) by (simp add: set_tx_state_def)
qed

text \<open>C19: Setting the state of a transaction that lies inside the inventory chain always succeeds,
  a reader of the new file finds exactly that state for the transaction and the old state for every
  other one, and no page is changed that was not an inventory page.\<close>

theorem state_set_is_state_read:
  assumes "tip_chain_read file ps = Ret (Some tc)" "tips_numbered file"
    and "tip_chain_state tc tx = Ret (Some s0)"
  shows "\<exists>file' tc'. set_tx_state ps tx s file = Ret (Inr file') \<and> tip_chain_read file' ps = Ret (Some tc') \<and>
    (\<forall>tx'. tip_chain_state tc' tx' = (if tx' = tx then Ret (Some s) else tip_chain_state tc tx')) \<and>
    (\<forall>p. img_page file' p \<noteq> img_page file p \<longrightarrow>
       (\<exists>page. img_page file p = Some page \<and> page ! 0 = page_type_byte TransactionInventory))"
proof -
  obtain file' where file': "set_tx_state ps tx s file = Ret (Inr file')"
    using set_tx_state_returns [OF assms] by blast
  obtain tc' p page page' where "tip_chain_read file' ps = Ret (Some tc')" "file' = set_page p page' file"
    "img_page file p = Some page" "page ! 0 = page_type_byte TransactionInventory"
    "\<forall>tx'. tip_chain_state tc' tx' = (if tx' = tx then Ret (Some s) else tip_chain_state tc tx')"
    using set_tx_state_read [OF file' assms(1,2)] by blast
  then show ?thesis using file' by (auto simp: page_set_page)
qed

lemma tips_numbered_code [code]:
  "tips_numbered file \<longleftrightarrow> length (img_pages file) \<le> 2 ^ 32 \<and>
     list_all (\<lambda>i. case scan_tip (img_page_size file) (img_pages file ! i) of
         Some (Some t) \<Rightarrow> pag_pageno (tip_pag t) = of_nat i | _ \<Rightarrow> True) [0..<length (img_pages file)]"
  by (auto simp: tips_numbered_def list_all_iff split: option.splits)

lemma demo_numbered: "tips_numbered demo_database"
proof -
  have "length (img_pages demo_database) = 3" unfolding demo_database_def by code_simp
  moreover have "list_all (\<lambda>i. case scan_tip (img_page_size demo_database) (img_pages demo_database ! i) of
      Some (Some t) \<Rightarrow> pag_pageno (tip_pag t) = of_nat i | _ \<Rightarrow> True) [0..<length (img_pages demo_database)]"
    unfolding demo_database_def by code_simp
  ultimately show ?thesis by (simp only: tips_numbered_code) simp
qed

theorem state_set_is_state_read_witness:
  "\<exists>file' tc'. set_tx_state 80 12 Committed demo_database = Ret (Inr file') \<and>
    tip_chain_read file' 80 = Ret (Some tc') \<and> tip_chain_state tc' 12 = Ret (Some Committed)"
proof -
  have "tip_chain_state (demo_inventory 0) 12 = Ret (Some Active)" unfolding demo_inventory_def by code_simp
  from state_set_is_state_read [OF demo_inventory_read demo_numbered this, of Committed] show ?thesis by auto
qed

subsection \<open>The oldest transactions\<close>

lemma scan_states_spec:
  assumes "scan_states keep chain final tx = Ret r"
  shows "tx \<le> r \<and> (\<forall>j. tx \<le> j \<and> j < r \<longrightarrow> (\<exists>s. tip_chain_state chain j = Ret s \<and> keep s)) \<and>
    (final < r \<or> (\<exists>s. tip_chain_state chain r = Ret s \<and> \<not> keep s))"
  using assms
proof (induction keep chain final tx rule: scan_states.induct)
  case (1 keep chain final tx)
  show ?case
  proof (cases "final < tx")
    case True
    then show ?thesis using "1.prems" by (auto simp: scan_states.simps [of _ _ _ tx])
  next
    case False
    then obtain s where s: "tip_chain_state chain tx = Ret s"
      using "1.prems" by (cases "tip_chain_state chain tx") (simp_all add: scan_states.simps [of _ _ _ tx])
    show ?thesis
    proof (cases "keep s")
      case no: False
      then show ?thesis using "1.prems" False s by (auto simp: scan_states.simps [of _ _ _ tx])
    next
      case True
      then have tx: "tx \<noteq> - 1" "scan_states keep chain final (tx + 1) = Ret r"
        using "1.prems" False s by (simp_all add: scan_states.simps [of _ _ _ tx] split: if_splits)
      then have IH: "tx + 1 \<le> r"
        "\<forall>j. tx + 1 \<le> j \<and> j < r \<longrightarrow> (\<exists>s. tip_chain_state chain j = Ret s \<and> keep s)"
        "final < r \<or> (\<exists>s. tip_chain_state chain r = Ret s \<and> \<not> keep s)"
        using "1.IH" [OF False s] True by blast+
      have "tx < r" using IH(1) tx(1) inc_less_eq_iff by blast
      moreover have "j = tx \<or> tx + 1 \<le> j" if "tx \<le> j" for j using that by (auto simp: order_le_less dest: inc_le)
      ultimately show ?thesis using IH s True by (metis order_less_imp_le)
    qed
  qed
qed

lemma scan_states_total:
  assumes "0 < tc_per_page chain" "final \<noteq> - 1"
  shows "\<exists>r. scan_states keep chain final tx = Ret r"
  using assms
proof (induction keep chain final tx rule: scan_states.induct)
  case (1 keep chain final tx)
  obtain s where s: "tip_chain_state chain tx = Ret s" using tip_chain_state_Ret [OF "1.prems"(1)] by blast
  have "tx \<noteq> - 1" if "\<not> final < tx" using that "1.prems"(2) by (metis not_less word_order.extremum_uniqueI)
  then show ?case using "1.IH" [OF _ s] "1.prems" s by (auto simp: scan_states.simps [of _ _ _ tx])
qed

lemma u_at_splices:
  assumes "56 + 8 \<le> length hdr" "put_u64 56 v hdr = Ret a" "put_u64 64 w a = Ret b"
  shows "u64_at b 56 = Ret v" "u64_at b 64 = Ret w" "\<And>off. off + 8 \<le> 56 \<Longrightarrow> u64_at b off = u64_at hdr off"
    "length b = length hdr" "\<And>i. i < 56 \<Longrightarrow> i < length hdr \<Longrightarrow> b ! i = hdr ! i"
proof -
  have ab: "a = splice hdr 56 (u64_bytes v)" "b = splice a 64 (u64_bytes w)" "72 \<le> length a" "length a = length hdr"
    using assms by (auto simp: put_u64_def copy_at_def split: if_splits)
  show "u64_at b 56 = Ret v"
    using ab assms(1) by (simp add: u_at_splice_other u64_at_splice)
  show "u64_at b 64 = Ret w" using ab by (simp add: u64_at_splice)
  show "u64_at b off = u64_at hdr off" if "off + 8 \<le> 56" for off
    using ab that by (simp add: u_at_splice_other)
  show "length b = length hdr" using ab by simp
  show "b ! i = hdr ! i" if "i < 56" "i < length hdr" for i using ab that by (simp add: nth_splice)
qed

text \<open>One below the first id that is not committed, but never below the field as it stands.\<close>

lemma oldest_interesting_first:
  fixes first :: u64
  assumes f: "scan_states (\<lambda>s. s = Some Committed) tc final (max old 1) = Ret first"
    and o1: "o1 = max (if first = 0 then 0 else first - 1) (max old 1)"
  shows "max old 1 \<le> o1"
    "min o1 (max final 1) = max final 1 \<or> min o1 (max final 1) = max old 1 \<or>
       tip_chain_state tc (min o1 (max final 1) + 1) \<noteq> Ret (Some Committed)"
proof -
  show le: "max old 1 \<le> o1" by (simp add: o1)
  have ge: "max old 1 \<le> first" and stop: "final < first \<or> tip_chain_state tc first \<noteq> Ret (Some Committed)"
    using scan_states_spec [OF f] by auto
  have "(1 :: u64) \<le> first" using ge by (rule order_trans [rotated]) simp
  then have pos: "first \<noteq> 0" by auto
  show "min o1 (max final 1) = max final 1 \<or> min o1 (max final 1) = max old 1 \<or>
       tip_chain_state tc (min o1 (max final 1) + 1) \<noteq> Ret (Some Committed)"
  proof (cases "final < first")
    case True
    then have "final \<le> first - 1" using pos by (metis less_eq_dec_iff order_less_le_trans order_refl word_gt_0)
    moreover have "(1 :: u64) \<le> o1" using le by (rule order_trans [rotated]) simp
    ultimately have "max final 1 \<le> o1" using pos by (auto simp: o1 le_max_iff_disj)
    then show ?thesis by (simp add: min_absorb2)
  next
    case False
    then have "tip_chain_state tc first \<noteq> Ret (Some Committed)" using stop by blast
    moreover have "o1 = max old 1 \<or> o1 + 1 = first" using pos by (auto simp: o1 max_def)
    ultimately show ?thesis by (auto simp: min_def)
  qed
qed

lemma update_oldest_spec:
  assumes upd: "update_oldest ps oit file = Ret (Inr file')"
    and tc: "tip_chain_read file ps = Ret (Some tc)" and hdr: "img_page file 0 = Some hdr"
    and fields: "u64_at hdr 40 = Ret final" "u64_at hdr 48 = Ret old_oit" "u64_at hdr 56 = Ret old_oat"
  obtains hdr' new_oat new_oit where "file' = set_page 0 hdr' file" "length hdr' = length hdr"
    "\<And>i. i < 48 \<Longrightarrow> i < length hdr \<Longrightarrow> hdr' ! i = hdr ! i" "u64_at hdr' 40 = Ret final"
    "u64_at hdr' 56 = Ret new_oat" "u64_at hdr' 64 = Ret new_oat" "u64_at hdr' 48 = Ret new_oit"
    "\<And>id. max old_oat 1 \<le> id \<Longrightarrow> id \<le> final \<Longrightarrow> tip_chain_state tc id = Ret (Some Active) \<Longrightarrow> new_oat \<le> id"
    "\<And>id. max old_oit 1 \<le> id \<Longrightarrow> id < new_oit \<Longrightarrow> oit \<Longrightarrow> tip_chain_state tc id = Ret (Some Committed)"
    "\<not> oit \<Longrightarrow> new_oit = old_oit"
    "min (max old_oat 1) (max final 1) \<le> new_oat" "new_oat \<le> max final 1"
    "new_oat = max final 1 \<or> max old_oat 1 \<le> new_oat \<and> tip_chain_state tc new_oat = Ret (Some Active)"
    "oit \<Longrightarrow> min (max old_oit 1) (max final 1) \<le> new_oit \<and> new_oit \<le> max final 1"
    "oit \<Longrightarrow> new_oit = max final 1 \<or> new_oit = max old_oit 1 \<or> tip_chain_state tc (new_oit + 1) \<noteq> Ret (Some Committed)"
proof -
  let ?stored = "max old_oit 1"
  obtain o1 oat where o: "(if oit then map_option (\<lambda>first. max (if first = 0 then 0 else first - 1) ?stored)
        (scan_states (\<lambda>s. s = Some Committed) tc final ?stored) else Ret ?stored) = Ret o1"
    "scan_states (\<lambda>s. s \<noteq> Some Active) tc final (max old_oat 1) = Ret oat"
    "edit_page 0 (Msg ''no header page'') (\<lambda>hdr. do {
        hdr1 \<leftarrow> (if oit then put_u64 48 (min o1 (max final 1)) hdr else Ret hdr);
        hdr2 \<leftarrow> put_u64 56 (min oat (max final 1)) hdr1;
        put_u64 64 (min oat (max final 1)) hdr2 }) file = Ret (Inr file')"
    using upd tc hdr fields by (auto simp: update_oldest_def page_at_def Let_def split: Option.bind_splits)
  then obtain hdr1 hdr2 hdr' where h: "(if oit then put_u64 48 (min o1 (max final 1)) hdr else Ret hdr) = Ret hdr1"
    "put_u64 56 (min oat (max final 1)) hdr1 = Ret hdr2" "put_u64 64 (min oat (max final 1)) hdr2 = Ret hdr'"
    "file' = set_page 0 hdr' file"
    using hdr by (auto simp: edit_page_Inr split: Option.bind_splits)
  have len: "72 \<le> length hdr1" "length hdr1 = length hdr"
    using h(1,2,3) by (auto simp: put_u64_def copy_at_def split: if_splits)
  have h1: "u64_at hdr1 40 = Ret final" "u64_at hdr1 48 = Ret (if oit then min o1 (max final 1) else old_oit)"
    "\<And>i. i < 48 \<Longrightarrow> i < length hdr \<Longrightarrow> hdr1 ! i = hdr ! i"
  proof -
    have "u64_at hdr1 40 = Ret final \<and> u64_at hdr1 48 = Ret (if oit then min o1 (max final 1) else old_oit) \<and>
        (\<forall>i. i < 48 \<longrightarrow> i < length hdr \<longrightarrow> hdr1 ! i = hdr ! i)"
    proof (cases oit)
      case True
      then have "hdr1 = splice hdr 48 (u64_bytes (min o1 (max final 1)))" "48 + length (u64_bytes (min o1 (max final 1))) \<le> length hdr"
        using h(1) by (simp_all add: put_u64_def copy_at_def split: if_splits)
      then show ?thesis using True fields(1) by (simp add: u64_at_splice u_at_splice_other nth_splice)
    next
      case False
      then show ?thesis using h(1) fields by simp
    qed
    then show "u64_at hdr1 40 = Ret final" "u64_at hdr1 48 = Ret (if oit then min o1 (max final 1) else old_oit)"
      "\<And>i. i < 48 \<Longrightarrow> i < length hdr \<Longrightarrow> hdr1 ! i = hdr ! i" by blast+
  qed
  have lim: "56 + 8 \<le> length hdr1" using len(1) by simp
  note s = u_at_splices [OF lim h(2,3)]
  show thesis
  proof (rule that [OF h(4), of "min oat (max final 1)" "if oit then min o1 (max final 1) else old_oit"])
    show "length hdr' = length hdr" using s(4) len(2) by simp
    show "hdr' ! i = hdr ! i" if "i < 48" "i < length hdr" for i using s(5) h1(3) len that by simp
    show "u64_at hdr' 40 = Ret final" using s(3) [of 40] h1(1) by simp
    show "u64_at hdr' 56 = Ret (min oat (max final 1))" "u64_at hdr' 64 = Ret (min oat (max final 1))" by (rule s)+
    show "u64_at hdr' 48 = Ret (if oit then min o1 (max final 1) else old_oit)" using s(3) [of 48] h1(2) by simp
    show "min oat (max final 1) \<le> id"
      if "max old_oat 1 \<le> id" "id \<le> final" "tip_chain_state tc id = Ret (Some Active)" for id
    proof -
      have "\<not> id < oat" using scan_states_spec [OF o(2)] that(1,3) by auto
      then show ?thesis by (simp add: min.coboundedI1)
    qed
    show "tip_chain_state tc id = Ret (Some Committed)"
      if id: "max old_oit 1 \<le> id" "id < (if oit then min o1 (max final 1) else old_oit)" oit for id
    proof -
      obtain first where f: "scan_states (\<lambda>s. s = Some Committed) tc final ?stored = Ret first"
        "o1 = max (if first = 0 then 0 else first - 1) ?stored"
        using o(1) id(3) by auto
      have "id < o1" using id(2,3) by simp
      then have "first \<noteq> 0" "id < first - 1" using f(2) id(1) by (auto simp: max_def split: if_splits)
      then have "id < first" by (metis dec_less_imp_less_eq less_eq_dec_iff order_less_imp_le order_le_less word_gt_0)
      then show ?thesis using scan_states_spec [OF f(1)] id(1) by blast
    qed
    show "\<not> oit \<Longrightarrow> (if oit then min o1 (max final 1) else old_oit) = old_oit" by simp
    note scan = scan_states_spec [OF o(2)]
    show "min (max old_oat 1) (max final 1) \<le> min oat (max final 1)" using scan by (meson min.mono order_refl)
    show "min oat (max final 1) \<le> max final 1" by simp
    have "min oat (max final 1) = max final 1 \<or> min oat (max final 1) = oat" "max final 1 \<le> oat \<Longrightarrow> min oat (max final 1) = max final 1"
      by (simp add: min_def, rule min_absorb2)
    moreover have "max final 1 \<le> oat" if "final < oat" using that scan by auto
    ultimately show "min oat (max final 1) = max final 1 \<or>
        max old_oat 1 \<le> min oat (max final 1) \<and> tip_chain_state tc (min oat (max final 1)) = Ret (Some Active)"
      using scan by metis
    assume oit
    then obtain first where f: "scan_states (\<lambda>s. s = Some Committed) tc final ?stored = Ret first"
      "o1 = max (if first = 0 then 0 else first - 1) ?stored"
      using o(1) by auto
    note first = oldest_interesting_first [OF f]
    show "min ?stored (max final 1) \<le> (if oit then min o1 (max final 1) else old_oit) \<and>
        (if oit then min o1 (max final 1) else old_oit) \<le> max final 1"
      using \<open>oit\<close> min.mono [OF first(1) order_refl] by simp
    show "(if oit then min o1 (max final 1) else old_oit) = max final 1 \<or> (if oit then min o1 (max final 1) else old_oit) = ?stored \<or>
        tip_chain_state tc ((if oit then min o1 (max final 1) else old_oit) + 1) \<noteq> Ret (Some Committed)"
      using \<open>oit\<close> first(2) by simp
  qed
qed


lemma update_oldest_returns:
  assumes "tip_chain_read file ps = Ret (Some tc)" "0 < tc_per_page tc"
    and hdr: "img_page file 0 = Some hdr" "72 \<le> length hdr" "u64_at hdr 40 = Ret final" "final \<noteq> - 1"
  shows "\<exists>file'. update_oldest ps oit file = Ret (Inr file')"
proof -
  obtain a b where ab: "u64_at hdr 48 = Ret a" "u64_at hdr 56 = Ret b"
    using u_at_inside(3) [of 48 hdr] u_at_inside(3) [of 56 hdr] hdr(2) by auto
  note scan = scan_states_total [OF assms(2) hdr(4)]
  obtain o1 where o1: "(if oit then map_option (\<lambda>first. max (if first = 0 then 0 else first - 1) (max a 1))
      (scan_states (\<lambda>s. s = Some Committed) tc final (max a 1)) else Ret (max a 1)) = Ret o1"
    using scan by (cases oit) (auto, metis option.simps(9))
  obtain oat where oat: "scan_states (\<lambda>s. s \<noteq> Some Active) tc final (max b 1) = Ret oat" using scan by blast
  have "\<exists>h. (do { hdr1 \<leftarrow> (if oit then put_u64 48 (min o1 (max final 1)) hdr else Ret hdr);
        hdr2 \<leftarrow> put_u64 56 (min oat (max final 1)) hdr1; put_u64 64 (min oat (max final 1)) hdr2 }) = Ret h"
    using hdr(2) by (simp add: put_u64_def copy_at_def)
  then show ?thesis using assms(1) hdr(1,3) ab o1 oat
    by (auto simp: update_oldest_def page_at_def Let_def edit_page_def)
qed


lemma demo_header:
  "img_page demo_database 0 = Some (replicate 40 0 @ [12] @ replicate 39 0)"
  unfolding demo_database_def by code_simp

lemma demo_header_fields:
  "u64_at (replicate 40 0 @ [12] @ replicate 39 0) 40 = Ret 12" "u64_at (replicate 40 0 @ [12] @ replicate 39 0) 48 = Ret 0"
  "u64_at (replicate 40 0 @ [12] @ replicate 39 0) 56 = Ret 0"
  by code_simp+


subsection \<open>Starting a transaction\<close>

lemma header_edit_keeps_chain:
  assumes "tips_numbered file" "tip_chain_read file ps = Ret (Some tc)"
    and hdr: "img_page file 0 = Some hdr" "hdr \<noteq> []" "hdr ! 0 \<noteq> page_type_byte TransactionInventory"
    and hdr': "length hdr' = length hdr" "hdr' ! 0 = hdr ! 0"
  shows "tip_chain_read (set_page 0 hdr' file) ps = Ret (Some tc) \<and> tips_numbered (set_page 0 hdr' file)"
proof -
  obtain ts where ts: "tip_pages_of file = Ret ts"
    using assms(2) by (auto simp: tip_chain_read_def split: Option.bind_splits)
  have "hdr' \<noteq> []" using hdr(2) hdr'(1) by auto
  then have none: "scan_tip (img_page_size file) hdr = Ret None" "scan_tip (img_page_size file) hdr' = Ret None"
    using hdr(2,3) hdr' by (auto simp: scan_tip_def rs_index_def)
  show ?thesis using tip_pages_of_edit_other [OF assms(1) ts hdr(1) none] assms(2) ts by (simp add: tip_chain_read_def)
qed

lemma assign_tx_spec:
  assumes tc: "tip_chain_read file ps = Ret (Some tc)" and num: "tips_numbered file"
    and hdr: "img_page file 0 = Some hdr" "72 \<le> length hdr" "hdr ! 0 \<noteq> page_type_byte TransactionInventory"
    and nxt: "u64_at hdr 40 = Ret next" "next + 1 \<noteq> 0" "next + 1 \<noteq> - 1"
    and known: "tip_chain_state tc (next + 1) = Ret (Some s0)"
    and oat: "u64_at hdr 56 = Ret old_oat"
  shows "\<exists>file' tc' hdr' oat. assign_tx insert_row ps s oit file = Ret (Inr (next + 1, file')) \<and>
    tip_chain_read file' ps = Ret (Some tc') \<and>
    (\<forall>tx'. tip_chain_state tc' tx' = (if tx' = next + 1 then Ret (Some s) else tip_chain_state tc tx')) \<and>
    img_page file' 0 = Some hdr' \<and> u64_at hdr' 40 = Ret (next + 1) \<and> u64_at hdr' 56 = Ret oat \<and>
    (\<forall>id. max old_oat 1 \<le> id \<and> id \<le> next + 1 \<and> tip_chain_state tc' id = Ret (Some Active) \<longrightarrow> oat \<le> id)"
proof -
  let ?tx = "next + 1"
  note walk = tip_chain_pages_read [OF tc num]
  have per: "0 < tc_per_page tc" and q: "unat ?tx div tc_per_page tc < length (tc_pages tc)"
    using known by (auto simp: tip_chain_state_def Let_def split: if_splits)
  have 1: "next_tx ps file = Ret (Inr ?tx)"
    using hdr(1) nxt by (auto simp: next_tx_def page_at_def add_eq_0_iff2)
  have 2: "ensure_tip_for insert_row ps ?tx file = Ret (Inr file)"
    using walk per q by (simp add: ensure_tip_for_def Let_def)
  obtain file2 where 3: "set_tx_state ps ?tx s file = Ret (Inr file2)"
    using set_tx_state_returns [OF tc num known] by blast
  obtain tc' p page page' where s3: "tip_chain_read file2 ps = Ret (Some tc')" "tips_numbered file2"
    "file2 = set_page p page' file" "img_page file p = Some page" "page ! 0 = page_type_byte TransactionInventory"
    "\<forall>tx'. tip_chain_state tc' tx' = (if tx' = ?tx then Ret (Some s) else tip_chain_state tc tx')"
    using set_tx_state_read [OF 3 tc num] by blast
  have hdr2: "img_page file2 0 = Some hdr" using s3(3-5) hdr(1,3) by (auto simp: page_set_page)
  let ?hdr3 = "splice hdr 40 (u64_bytes ?tx)"
  let ?file3 = "set_page 0 ?hdr3 file2"
  have 4: "edit_page 0 (Msg ''no header page'') (put_u64 40 ?tx) file2 = Ret (Inr ?file3)"
    using hdr2 hdr(2) by (simp add: edit_page_def put_u64_def copy_at_def)
  have ne: "hdr \<noteq> []" using hdr(2) by auto
  have h3: "length ?hdr3 = length hdr" "?hdr3 ! 0 = hdr ! 0" "u64_at ?hdr3 40 = Ret ?tx" "u64_at ?hdr3 56 = Ret old_oat"
    using hdr(2) oat ne by (simp_all add: nth_splice u64_at_splice u_at_splice_other)
  have c3: "tip_chain_read ?file3 ps = Ret (Some tc')" "tips_numbered ?file3"
    using header_edit_keeps_chain [OF s3(2,1) hdr2 ne hdr(3) h3(1,2)] by auto
  have p3: "img_page ?file3 0 = Some ?hdr3" using hdr2 by (simp add: page_set_page)
  have per': "0 < tc_per_page tc'" using walk tip_chain_pages_read [OF s3(1,2)] per by simp
  have l3: "72 \<le> length ?hdr3" using h3(1) hdr(2) by simp
  obtain oo where oo: "u64_at ?hdr3 48 = Ret oo" using u_at_inside(3) [of 48 ?hdr3] l3 by auto
  obtain file4 where 5: "update_oldest ps oit ?file3 = Ret (Inr file4)"
    using update_oldest_returns [OF c3(1) per' p3 l3 h3(3) nxt(3)] by blast
  obtain hdr4 oat4 where h4: "file4 = set_page 0 hdr4 ?file3" "length hdr4 = length ?hdr3"
    "\<And>i. i < 48 \<Longrightarrow> i < length ?hdr3 \<Longrightarrow> hdr4 ! i = ?hdr3 ! i" "u64_at hdr4 40 = Ret ?tx" "u64_at hdr4 56 = Ret oat4"
    "\<And>id. max old_oat 1 \<le> id \<Longrightarrow> id \<le> ?tx \<Longrightarrow> tip_chain_state tc' id = Ret (Some Active) \<Longrightarrow> oat4 \<le> id"
    by (rule update_oldest_spec [OF 5 c3(1) p3 h3(3) oo h3(4)]) blast
  have "?hdr3 \<noteq> []" using l3 by fastforce
  then have "hdr4 ! 0 = ?hdr3 ! 0" "?hdr3 \<noteq> []" "?hdr3 ! 0 \<noteq> page_type_byte TransactionInventory"
    using h4(3) [of 0] l3 h3(2) hdr(3) by auto
  then have "tip_chain_read file4 ps = Ret (Some tc')"
    using header_edit_keeps_chain [OF c3(2,1) p3] h4(1,2) by blast
  moreover have "img_page file4 0 = Some hdr4" using h4(1) p3 by (simp add: page_set_page)
  moreover have "assign_tx insert_row ps s oit file = Ret (Inr (?tx, file4))"
    using 1 2 3 4 5 by (simp add: assign_tx_def)
  ultimately show ?thesis using s3(6) h4(4-6) by blast
qed

text \<open>C21: A begun transaction is active under a fresh number: when the chain reaches the next id,
  \<^verbatim>\<open>begin_active_tx\<close> succeeds and answers the id after the header's, the header names it, a reader finds
  it active and every other transaction in its old state, and the oldest-active field passes no
  active transaction, the new one included.\<close>

theorem begun_transaction_is_active:
  assumes "tip_chain_read file ps = Ret (Some tc)" "tips_numbered file"
    and "img_page file 0 = Some hdr" "72 \<le> length hdr" "hdr ! 0 \<noteq> page_type_byte TransactionInventory"
    and "u64_at hdr 40 = Ret next" "next + 1 \<noteq> 0" "next + 1 \<noteq> - 1"
    and "tip_chain_state tc (next + 1) = Ret (Some s0)" "u64_at hdr 56 = Ret old_oat"
  shows "\<exists>file' tc' hdr' oat. begin_active_tx insert_row ps file = Ret (Inr (next + 1, file')) \<and>
    tip_chain_read file' ps = Ret (Some tc') \<and>
    (\<forall>tx'. tip_chain_state tc' tx' = (if tx' = next + 1 then Ret (Some Active) else tip_chain_state tc tx')) \<and>
    img_page file' 0 = Some hdr' \<and> u64_at hdr' 40 = Ret (next + 1) \<and> u64_at hdr' 56 = Ret oat \<and>
    (\<forall>id. max old_oat 1 \<le> id \<and> id \<le> next + 1 \<and> tip_chain_state tc' id = Ret (Some Active) \<longrightarrow> oat \<le> id)"
  unfolding begin_active_tx_def by (rule assign_tx_spec [OF assms])

theorem begun_transaction_is_active_witness:
  "\<exists>file' tc'. begin_active_tx (\<lambda>_ _ _ _ f. Ret (Inr f)) 80 demo_database = Ret (Inr (13, file')) \<and>
    tip_chain_read file' 80 = Ret (Some tc') \<and> tip_chain_state tc' 13 = Ret (Some Active)"
proof -
  have st: "tip_chain_state (demo_inventory 0) (12 + 1) = Ret (Some Active)" unfolding demo_inventory_def by code_simp
  have len: "72 \<le> length (replicate 40 (0 :: byte) @ [12] @ replicate 39 0)"
    "(replicate 40 (0 :: byte) @ [12] @ replicate 39 0) ! 0 \<noteq> page_type_byte TransactionInventory"
    by (simp_all add: nth_append)
  from begun_transaction_is_active [OF demo_inventory_read demo_numbered demo_header len demo_header_fields(1) _ _ st demo_header_fields(3)]
  show ?thesis by fastforce
qed

end
