(* ===== verification/Dml_Store.thy ===== *)
theory Dml_Store
  imports Dml_Tx
begin

unbundle bit_operations_syntax

text \<open>
  Writing records (\<^verbatim>\<open>crates/ods/src/dml.rs\<close>): room on a data page, a record laid down at a spot, the
  record headers, a relation grown by a page, and the operations on them - insert, whole or in
  fragments, the back version an update or delete pushes, the primary slot rewritten in place, and
  the patch of a fragmented head. Where the code calls \<^verbatim>\<open>expect\<close> or indexes, a failure is a panic.
  Overflow of a counter is a panic, as in a build with overflow checks. As in \<^verbatim>\<open>Dml_Tx\<close>,
  \<^verbatim>\<open>ddl::sys_insert\<close> is a parameter.
\<close>

subsection \<open>Records as bytes\<close>

definition put_u16 :: "nat \<Rightarrow> u16 \<Rightarrow> byte list \<Rightarrow> byte list run" where
  "put_u16 at v buf = copy_at buf at (u16_bytes v)"

definition rhd_bytes :: "u32 \<Rightarrow> u32 \<Rightarrow> u16 \<Rightarrow> u16 \<Rightarrow> byte \<Rightarrow> byte list \<Rightarrow> byte list" where
  "rhd_bytes tx b_page b_line rflags format data =
     u32_bytes tx @ u32_bytes b_page @ u16_bytes b_line @ u16_bytes rflags @ [format] @ data"

definition rhdf_bytes :: "u32 \<Rightarrow> u32 \<Rightarrow> u16 \<Rightarrow> u16 \<Rightarrow> byte \<Rightarrow> u32 \<Rightarrow> u16 \<Rightarrow> byte list \<Rightarrow> byte list" where
  "rhdf_bytes tx b_page b_line rflags format f_page f_line data =
     u32_bytes tx @ u32_bytes b_page @ u16_bytes b_line @ u16_bytes rflags @ [format] @ replicate 3 0 @
     u32_bytes f_page @ u16_bytes f_line @ data"

definition packed_piece :: "byte list \<Rightarrow> u16 \<times> byte list" where
  "packed_piece pc = (let packed = pack pc in if length packed < length pc then (0, packed) else (REC_NOT_PACKED, pc))"

definition fill_to_rhdf :: "byte list \<Rightarrow> byte list" where
  "fill_to_rhdf rc = (if length rc < RHDF_DATA_OFFSET then vec_resize rc RHDF_DATA_OFFSET 0 else rc)"

definition trim_fill_tail :: "byte list \<Rightarrow> nat \<Rightarrow> byte list" where
  "trim_fill_tail im fmt_len =
     (if fmt_len \<noteq> 0 \<and> fmt_len < length im \<and> list_all (\<lambda>b. b = 0) (drop fmt_len im) then take fmt_len im else im)"

definition packed_rhd :: "u32 \<Rightarrow> u32 \<Rightarrow> u16 \<Rightarrow> byte \<Rightarrow> byte list \<Rightarrow> byte list" where
  "packed_rhd tx b_page b_line format_no im =
     (let (pf, pdata) = packed_piece im in fill_to_rhdf (rhd_bytes tx b_page b_line pf format_no pdata))"

subsection \<open>Room on a page\<close>

record spot =
  spot_page :: u32
  spot_slot :: u16
  spot_append :: bool
  spot_offset :: nat

text \<open>\<^verbatim>\<open>(n + 3) & !3\<close> and \<^verbatim>\<open>n & !3\<close>.\<close>

definition align_down :: "nat \<Rightarrow> nat" where "align_down n = n div 4 * 4"

definition align_up :: "nat \<Rightarrow> nat" where "align_up n = align_down (n + 3)"

text \<open>The directory entry of a slot.\<close>

definition dir_entry :: "byte list \<Rightarrow> nat \<Rightarrow> (nat \<times> nat) run" where
  "dir_entry page i =
     (let at = DPG_RPT_OFFSET + i * 4 in
      do { off \<leftarrow> u16_at page at; len \<leftarrow> u16_at page (at + 2); Ret (unat off, unat len) })"

text \<open>The lowest used offset and the first empty slot.\<close>

fun scan_slots :: "byte list \<Rightarrow> nat list \<Rightarrow> nat \<times> nat option \<Rightarrow> (nat \<times> nat option) run" where
  "scan_slots page [] acc = Ret acc"
| "scan_slots page (i # is) (bottom, reuse) =
     do {
       (off, len) \<leftarrow> dir_entry page i;
       scan_slots page is
         (if len = 0 then (bottom, if reuse = None then Some i else reuse)
          else (if off < bottom then off else bottom, reuse))
     }"

definition spot_on :: "nat \<Rightarrow> nat \<Rightarrow> image \<Rightarrow> u32 \<Rightarrow> spot option run" where
  "spot_on page_size aligned file dp_no =
     (case page_at file page_size dp_no of
        None \<Rightarrow> Ret None
      | Some page \<Rightarrow>
          do {
            d \<leftarrow> decode_data page;
            (case d of
               None \<Rightarrow> Ret None
             | Some dp \<Rightarrow>
                 do {
                   let cnt = dp_count dp;
                   (bottom, reuse) \<leftarrow> scan_slots page [0..<unat cnt] (page_size, None);
                   let (slot, append) = (case reuse of Some i \<Rightarrow> (of_nat i, False) | None \<Rightarrow> (cnt, True));
                   let dir_top = DPG_RPT_OFFSET + (unat cnt + (if append then 1 else 0)) * 4;
                   Ret (if dir_top + aligned \<le> bottom
                        then Some \<lparr>spot_page = dp_no, spot_slot = slot, spot_append = append,
                                   spot_offset = align_down (bottom - aligned)\<rparr>
                        else None)
                 })
          })"

definition find_space :: "nat \<Rightarrow> u16 \<Rightarrow> nat \<Rightarrow> image \<Rightarrow> spot option run" where
  "find_space page_size rel rec_len file =
     do {
       dps \<leftarrow> relation_data_pages file page_size rel;
       first_run (spot_on page_size (align_up rec_len) file) dps
     }"

subsection \<open>A record laid down\<close>

definition data_pages_per_pp :: "nat \<Rightarrow> nat" where
  "data_pages_per_pp page_size = (page_size - 32) * 8 div (32 + 8) div 8 * 8"

text \<open>\<^verbatim>\<open>file.pages().enumerate()\<close> filtered by type and relation: the whole pages come first.\<close>

definition pointer_numbers :: "image \<Rightarrow> u16 \<Rightarrow> nat list run" where
  "pointer_numbers file rel =
     filter_map_run (\<lambda>(i, p). do {
         t \<leftarrow> rs_index p 0;
         if t = page_type_byte Pointer then do { r \<leftarrow> u16_at p 26; Ret (if r = rel then Some i else None) }
         else Ret None })
       (enumerate 0 (whole_pages file))"

text \<open>The slot of the page on a pointer page, and its fill bits cleared.\<close>

fun clear_on :: "nat \<Rightarrow> u32 \<Rightarrow> byte \<Rightarrow> nat list \<Rightarrow> byte list \<Rightarrow> byte list option run" where
  "clear_on capacity page_no bits [] page = Ret None"
| "clear_on capacity page_no bits (slot # slots) page =
     do {
       n \<leftarrow> u32_at page (32 + slot * 4);
       if n = page_no then
         do { b \<leftarrow> rs_index page (32 + capacity * 4 + slot);
              Ret (Some (page[32 + capacity * 4 + slot := b AND NOT bits])) }
       else clear_on capacity page_no bits slots page
     }"

fun clear_in :: "nat \<Rightarrow> u32 \<Rightarrow> byte \<Rightarrow> nat list \<Rightarrow> image \<Rightarrow> image run" where
  "clear_in capacity page_no bits [] file = Ret file"
| "clear_in capacity page_no bits (pp # pps) file =
     do {
       page \<leftarrow> img_page file (of_nat pp);
       r \<leftarrow> clear_on capacity page_no bits [0..<capacity] page;
       (case r of Some page' \<Rightarrow> Ret (set_page (of_nat pp) page' file) | None \<Rightarrow> clear_in capacity page_no bits pps file)
     }"

definition clear_fill_bits :: "nat \<Rightarrow> u32 \<Rightarrow> byte \<Rightarrow> image \<Rightarrow> image run" where
  "clear_fill_bits page_size page_no bits file =
     do {
       page \<leftarrow> page_at file page_size page_no;
       rel \<leftarrow> u16_at page 20;
       if page_size < 32 then Panic else do {
       pps \<leftarrow> pointer_numbers file rel;
       clear_in (data_pages_per_pp page_size) page_no bits pps file }
     }"

text \<open>The edits of the spot's own page: body, directory entry, and the count of an appended slot.\<close>

definition lay_down :: "spot \<Rightarrow> byte list \<Rightarrow> byte list \<Rightarrow> byte list run" where
  "lay_down sp rc page =
     do {
       page1 \<leftarrow> copy_at page (spot_offset sp) rc;
       let dir = DPG_RPT_OFFSET + unat (spot_slot sp) * 4;
       page2 \<leftarrow> put_u16 dir (of_nat (spot_offset sp)) page1;
       page3 \<leftarrow> put_u16 (dir + 2) (of_nat (length rc)) page2;
       if spot_append sp
       then do { c \<leftarrow> u16_at page3 22; if c = - 1 then Panic else put_u16 22 (c + 1) page3 }
       else Ret page3
     }"

definition write_at_spot :: "nat \<Rightarrow> spot \<Rightarrow> byte list \<Rightarrow> image \<Rightarrow> image run" where
  "write_at_spot page_size sp rc file =
     do {
       page \<leftarrow> img_page file (spot_page sp);
       page' \<leftarrow> lay_down sp rc page;
       clear_fill_bits page_size (spot_page sp) 0x10 (set_page (spot_page sp) page' file)
     }"

subsection \<open>A relation grown by a page\<close>

text \<open>The pointer page with the highest sequence, the first of equals.\<close>

fun last_pointer :: "u16 \<Rightarrow> (nat \<times> byte list) list \<Rightarrow> (u32 \<times> u32) option \<Rightarrow> (u32 \<times> u32) option run" where
  "last_pointer rel [] best = Ret best"
| "last_pointer rel ((i, p) # ps) best =
     do {
       t \<leftarrow> rs_index p 0;
       h \<leftarrow> (if t = page_type_byte Pointer then decode_page_header p else Ret None);
       (if h = None then last_pointer rel ps best
        else do {
          r \<leftarrow> u16_at p 26;
          if r \<noteq> rel then last_pointer rel ps best
          else do {
            sq \<leftarrow> u32_at p 16;
            last_pointer rel ps
              (case best of None \<Rightarrow> Some (of_nat i, sq) | Some (_, s) \<Rightarrow> if s < sq then Some (of_nat i, sq) else best)
          }
        })
     }"

text \<open>The slot on the last pointer page: a hole, the next one, or none.\<close>

fun first_hole :: "byte list \<Rightarrow> nat list \<Rightarrow> nat option run" where
  "first_hole page [] = Ret None"
| "first_hole page (s # ss) = do { n \<leftarrow> u32_at page (32 + s * 4); if n = 0 then Ret (Some s) else first_hole page ss }"

definition pointer_slot :: "nat \<Rightarrow> u32 \<Rightarrow> byte list \<Rightarrow> nat option run" where
  "pointer_slot capacity pp_seq page =
     do {
       c \<leftarrow> u16_at page 24;
       let cnt = unat c;
       hole \<leftarrow> first_hole page [0..<min cnt capacity];
       (case hole of
          Some s \<Rightarrow> Ret (Some s)
        | None \<Rightarrow>
            if 0 < pp_seq then Ret (if cnt < capacity then Some cnt else None)
            else if capacity = 0 then Panic
            else Ret (if cnt < capacity - 1 then Some cnt else None))
     }"

definition format_pointer :: "u32 \<Rightarrow> u32 \<Rightarrow> u16 \<Rightarrow> byte list \<Rightarrow> byte list run" where
  "format_pointer page_no sq rel page =
     do {
       _ \<leftarrow> rs_index page 1;
       page1 \<leftarrow> put_u32 12 page_no ((replicate (length page) 0)[0 := page_type_byte Pointer, 1 := 1]);
       page2 \<leftarrow> put_u32 16 sq page1;
       put_u16 26 rel page2
     }"

definition unlink_last :: "u32 \<Rightarrow> byte list \<Rightarrow> byte list run" where
  "unlink_last new_pp page = do { b \<leftarrow> rs_index page 1; put_u32 20 new_pp (page[1 := b AND NOT 1]) }"

definition format_data :: "u32 \<Rightarrow> u32 \<Rightarrow> u16 \<Rightarrow> byte list \<Rightarrow> byte list run" where
  "format_data page_no sq rel page =
     do {
       _ \<leftarrow> rs_index page 0;
       page1 \<leftarrow> put_u32 12 page_no ((replicate (length page) 0)[0 := page_type_byte Data]);
       page2 \<leftarrow> put_u32 16 sq page1;
       put_u16 20 rel page2
     }"

definition hook_page :: "nat \<Rightarrow> nat \<Rightarrow> u32 \<Rightarrow> byte list \<Rightarrow> byte list run" where
  "hook_page capacity slot page_no page =
     do {
       page1 \<leftarrow> put_u32 (32 + slot * 4) page_no page;
       _ \<leftarrow> rs_index page1 (32 + capacity * 4 + slot);
       let page2 = page1[32 + capacity * 4 + slot := 0];
       c \<leftarrow> u16_at page2 24;
       page3 \<leftarrow> (if unat c < slot + 1 then put_u16 24 (of_nat slot + 1) page2 else Ret page2);
       mn \<leftarrow> u16_at page3 28;
       if (of_nat slot :: u16) < mn then put_u16 28 (of_nat slot) page3 else Ret page3
     }"

text \<open>The pointer page that takes the new slot: the last one, or a new one chained behind it.\<close>

definition pointer_for :: "sys_insert \<Rightarrow> nat \<Rightarrow> u16 \<Rightarrow> u32 \<times> u32 \<Rightarrow> image \<Rightarrow> (dml_error + (u32 \<times> u32 \<times> nat) \<times> image) run" where
  "pointer_for insert_row page_size rel lp file =
     (case lp of (pp, pp_seq) \<Rightarrow>
       let capacity = data_pages_per_pp page_size in
       (case page_at file page_size pp of
          None \<Rightarrow> Ret (Inl (Msg ''pointer page out of range''))
        | Some page \<Rightarrow>
            do {
              s \<leftarrow> pointer_slot capacity pp_seq page;
              (case s of
                 Some slot \<Rightarrow> Ret (Inr ((pp, pp_seq, slot), file))
               | None \<Rightarrow>
                   attempt (allocate_page page_size file) (\<lambda>(new_pp, file1).
                   if pp_seq = - 1 then Panic else
                   attempt (edit_page new_pp (Msg ''new pointer page out of range'') (format_pointer new_pp (pp_seq + 1) rel) file1) (\<lambda>file2.
                   attempt (edit_page pp (Msg ''pointer page out of range'') (unlink_last new_pp) file2) (\<lambda>file3.
                   if rel = 0 then Ret (Inr ((new_pp, pp_seq + 1, 0), file3))
                   else
                     (case insert_row page_size ''RDB$PAGES'' 0
                          [(''RDB$RELATION_ID'', uint rel), (''RDB$PAGE_NUMBER'', uint new_pp),
                           (''RDB$PAGE_SEQUENCE'', uint (pp_seq + 1)), (''RDB$PAGE_TYPE'', 4)] file3 of
                        Panic \<Rightarrow> Panic
                      | Ret (Inl e) \<Rightarrow> Ret (Inl (Catalogue e))
                      | Ret (Inr file4) \<Rightarrow> Ret (Inr ((new_pp, pp_seq + 1, 0), file4)))))))
            }))"

definition extend_relation :: "sys_insert \<Rightarrow> nat \<Rightarrow> u16 \<Rightarrow> image \<Rightarrow> (dml_error + u32 \<times> image) run" where
  "extend_relation insert_row page_size rel file =
     (let capacity = data_pages_per_pp page_size in
      if page_size < 32 then Panic else
      do {
        lp \<leftarrow> last_pointer rel (enumerate 0 (whole_pages file)) None;
        (case lp of
           None \<Rightarrow> Ret (Inl (Msg ''relation has no pointer page''))
         | Some lp \<Rightarrow>
             attempt (pointer_for insert_row page_size rel lp file) (\<lambda>((pp, pp_seq, slot), file1).
             if 2 ^ 32 \<le> unat pp_seq * capacity + slot then Panic
             else
               attempt (allocate_page page_size file1) (\<lambda>(page_no, file2).
               attempt (edit_page page_no (Msg ''new data page out of range'')
                      (format_data page_no (of_nat (unat pp_seq * capacity + slot)) rel) file2) (\<lambda>file3.
               attempt (edit_page pp (Msg ''pointer page out of range'') (hook_page capacity slot page_no) file3) (\<lambda>file4.
               Ret (Inr (page_no, file4)))))))
      })"

subsection \<open>Inserting\<close>

text \<open>A spot for the record, growing the relation when no page has room, and the record written there.\<close>

definition store_piece :: "sys_insert \<Rightarrow> nat \<Rightarrow> u16 \<Rightarrow> string \<Rightarrow> byte list \<Rightarrow> image \<Rightarrow> (dml_error + spot \<times> image) run" where
  "store_piece insert_row page_size rel msg rc file =
     do {
       s \<leftarrow> find_space page_size rel (length rc) file;
       (case s of
          Some sp \<Rightarrow> map_option (\<lambda>file'. Inr (sp, file')) (write_at_spot page_size sp rc file)
        | None \<Rightarrow>
            attempt (extend_relation insert_row page_size rel file) (\<lambda>(_, file1).
            do {
              s \<leftarrow> find_space page_size rel (length rc) file1;
              (case s of
                 None \<Rightarrow> Ret (Inl (Msg msg))
               | Some sp \<Rightarrow> map_option (\<lambda>file'. Inr (sp, file')) (write_at_spot page_size sp rc file1))
            }))
     }"

text \<open>The bookkeeping of a primary record: the page's secondary flag and its mirror are cleared.\<close>

definition mark_primary :: "nat \<Rightarrow> u32 \<Rightarrow> image \<Rightarrow> image run" where
  "mark_primary page_size page_no file =
     do {
       page \<leftarrow> img_page file page_no;
       b \<leftarrow> rs_index page 1;
       clear_fill_bits page_size page_no 0x08 (set_page page_no (page[1 := b AND NOT 0x10]) file)
     }"

record insert_outcome =
  out_tx :: u64
  out_page :: u32
  out_slot :: u16

definition store_primary :: "sys_insert \<Rightarrow> nat \<Rightarrow> u16 \<Rightarrow> string \<Rightarrow> u64 \<Rightarrow> byte list \<Rightarrow> image \<Rightarrow> (dml_error + insert_outcome \<times> image) run" where
  "store_primary insert_row page_size rel msg tx rc file =
     attempt (store_piece insert_row page_size rel msg rc file) (\<lambda>(sp, file1).
       map_option (\<lambda>file2. Inr (\<lparr>out_tx = tx, out_page = spot_page sp, out_slot = spot_slot sp\<rparr>, file2))
         (mark_primary page_size (spot_page sp) file1))"

text \<open>The fragments behind a head, last one first: each piece points at the one just placed.\<close>

fun store_fragments ::
    "sys_insert \<Rightarrow> nat \<Rightarrow> u16 \<Rightarrow> u32 \<Rightarrow> byte \<Rightarrow> byte list list \<Rightarrow> bool \<Rightarrow> (u32 \<times> u16) option \<Rightarrow> image \<Rightarrow>
      (dml_error + (u32 \<times> u16) option \<times> image) run" where
  "store_fragments insert_row page_size rel tx format_no [] is_last nxt file = Ret (Inr (nxt, file))"
| "store_fragments insert_row page_size rel tx format_no (pc # pcs) is_last nxt file =
     (let (pf, pdata) = packed_piece pc in
      if is_last then
        attempt (store_piece insert_row page_size rel ''no room for a fragment on a fresh page''
                   (fill_to_rhdf (rhd_bytes tx 0 0 (REC_FRAGMENT OR pf) format_no pdata)) file) (\<lambda>(sp, file1).
        store_fragments insert_row page_size rel tx format_no pcs False (Some (spot_page sp, spot_slot sp)) file1)
      else
        (case nxt of
           None \<Rightarrow> Ret (Inl (Msg ''fragment chain out of order''))
         | Some (np, nl) \<Rightarrow>
             attempt (store_piece insert_row page_size rel ''no room for a fragment on a fresh page''
                        (fill_to_rhdf (rhdf_bytes tx 0 0 (REC_FRAGMENT OR REC_INCOMPLETE OR pf) format_no np nl pdata)) file) (\<lambda>(sp, file1).
             store_fragments insert_row page_size rel tx format_no pcs False (Some (spot_page sp, spot_slot sp)) file1)))"

text \<open>\<^verbatim>\<open>(page_size - DPG_RPT_OFFSET - 4 - RHDF_DATA_OFFSET - 8) & !3\<close>; a smaller page panics.\<close>

definition fragment_cap :: "nat \<Rightarrow> nat run" where
  "fragment_cap page_size =
     (if page_size < DPG_RPT_OFFSET + 4 + RHDF_DATA_OFFSET + 8 then Panic
      else Ret (align_down (page_size - DPG_RPT_OFFSET - 4 - RHDF_DATA_OFFSET - 8)))"

definition insert_record_fragmented ::
    "sys_insert \<Rightarrow> nat \<Rightarrow> u16 \<Rightarrow> byte \<Rightarrow> byte list \<Rightarrow> u32 \<Rightarrow> image \<Rightarrow> (dml_error + insert_outcome \<times> image) run" where
  "insert_record_fragmented insert_row page_size rel format_no im tx file =
     do {
       cap \<leftarrow> fragment_cap page_size;
       if cap = 0 then Ret (Inl (Msg ''page too small to fragment into''))
       else
         attempt (store_fragments insert_row page_size rel tx format_no
                    (rev (chunks cap (drop (min (length im) cap) im))) True None file) (\<lambda>(nxt, file1).
         (case nxt of
            None \<Rightarrow> Ret (Inl (Msg ''a fragmented record with no fragments''))
          | Some (np, nl) \<Rightarrow>
              let (hpf, hdata) = packed_piece (take (min (length im) cap) im) in
              store_primary insert_row page_size rel ''no room for the fragment head'' (ucast tx)
                (rhdf_bytes tx 0 0 (REC_INCOMPLETE OR hpf) format_no np nl hdata) file1))
     }"

text \<open>A transaction id that does not fit 32 bits is refused.\<close>

definition committed_tx :: "sys_insert \<Rightarrow> nat \<Rightarrow> image \<Rightarrow> (dml_error + u64 \<times> image) run" where
  "committed_tx insert_row page_size file =
     attempt (allocate_committed_tx insert_row page_size file) (\<lambda>(tx, file1).
       if 2 ^ 32 \<le> unat tx then Ret (Inl (Msg ''64-bit transaction ids (rhde) not supported yet''))
       else Ret (Inr (tx, file1)))"

definition insert_record_as ::
    "sys_insert \<Rightarrow> nat \<Rightarrow> u16 \<Rightarrow> byte \<Rightarrow> byte list \<Rightarrow> u32 option \<Rightarrow> image \<Rightarrow> (dml_error + insert_outcome \<times> image) run" where
  "insert_record_as insert_row page_size rel format_no im fixed_tx file =
     attempt (case fixed_tx of Some t \<Rightarrow> Ret (Inr (ucast t, file)) | None \<Rightarrow> committed_tx insert_row page_size file) (\<lambda>(tx, file1).
       store_primary insert_row page_size rel ''no room even on a fresh data page'' tx
         (packed_rhd (ucast tx) 0 0 format_no im) file1)"

definition oversize :: "nat \<Rightarrow> byte list \<Rightarrow> bool" where
  "oversize page_size im \<longleftrightarrow> page_size < RHD_DATA_OFFSET + length im + DPG_RPT_OFFSET + 4"

definition insert_record ::
    "sys_insert \<Rightarrow> nat \<Rightarrow> u16 \<Rightarrow> byte \<Rightarrow> byte list \<Rightarrow> image \<Rightarrow> (dml_error + insert_outcome \<times> image) run" where
  "insert_record insert_row page_size rel format_no im file =
     (if oversize page_size im then
        attempt (committed_tx insert_row page_size file) (\<lambda>(tx, file1).
          insert_record_fragmented insert_row page_size rel format_no im (ucast tx) file1)
      else insert_record_as insert_row page_size rel format_no im None file)"

definition insert_record_under ::
    "sys_insert \<Rightarrow> nat \<Rightarrow> u16 \<Rightarrow> byte \<Rightarrow> byte list \<Rightarrow> u32 \<Rightarrow> image \<Rightarrow> (dml_error + insert_outcome \<times> image) run" where
  "insert_record_under insert_row page_size rel format_no im tx file =
     (if oversize page_size im then insert_record_fragmented insert_row page_size rel format_no im tx file
      else insert_record_as insert_row page_size rel format_no im (Some tx) file)"

definition insert_record_system ::
    "sys_insert \<Rightarrow> nat \<Rightarrow> u16 \<Rightarrow> byte \<Rightarrow> byte list \<Rightarrow> image \<Rightarrow> (dml_error + insert_outcome \<times> image) run" where
  "insert_record_system insert_row page_size rel format_no im file =
     insert_record_as insert_row page_size rel format_no im (Some 0) file"

subsection \<open>Updating and deleting\<close>

text \<open>The old version of a record as it joins the chain: the copy with the CHAIN flag; or, for a
  deleted head whose transaction is dead, the link behind the stub.\<close>

datatype old_version = Copied "byte list" byte | Behind u32 u16 byte

definition dead_head :: "nat \<Rightarrow> u32 \<Rightarrow> u16 \<Rightarrow> image \<Rightarrow> bool run" where
  "dead_head page_size page_no slot file =
     do {
       r \<leftarrow> fetch_record file page_size page_no slot;
       let head_tx = (case r of Some h \<Rightarrow> rh_transaction h | None \<Rightarrow> 0);
       if head_tx = 0 then Ret False
       else do {
         c \<leftarrow> tip_chain_read file page_size;
         (case c of None \<Rightarrow> Ret False | Some chain \<Rightarrow> map_option (\<lambda>s. s = Some Dead) (tip_chain_state chain head_tx))
       }
     }"

definition old_version_of :: "nat \<Rightarrow> u32 \<Rightarrow> u16 \<Rightarrow> image \<Rightarrow> (dml_error + old_version) run" where
  "old_version_of page_size page_no slot file =
     (case page_at file page_size page_no of
        None \<Rightarrow> Ret (Inl (Msg ''target page out of range''))
      | Some page \<Rightarrow>
          do {
            (off, len) \<leftarrow> dir_entry page (unat slot);
            if len < RHD_DATA_OFFSET \<or> length page < off + len then Ret (Inl (Msg ''target slot is empty or corrupt''))
            else do {
              rc \<leftarrow> rs_slice page off (off + len);
              rflags \<leftarrow> u16_at rc 10;
              if has_flag rflags (REC_CHAIN OR REC_BLOB OR REC_FRAGMENT)
              then Ret (Inl (Msg ''target is not a live primary record version''))
              else if has_flag rflags REC_DELETED then do {
                dead \<leftarrow> dead_head page_size page_no slot file;
                if \<not> dead then Ret (Inl (Msg ''target is not a live primary record version''))
                else do { p \<leftarrow> u32_at rc 4; l \<leftarrow> u16_at rc 8; fmt \<leftarrow> rs_index rc 12; Ret (Inr (Behind p l fmt)) }
              }
              else do {
                fmt \<leftarrow> rs_index rc 12;
                rc' \<leftarrow> put_u16 10 (rflags OR REC_CHAIN) rc;
                Ret (Inr (Copied (fill_to_rhdf rc') fmt))
              }
            }
          })"

definition push_back_version ::
    "sys_insert \<Rightarrow> nat \<Rightarrow> u16 \<Rightarrow> u32 \<Rightarrow> u16 \<Rightarrow> image \<Rightarrow> (dml_error + (u32 \<times> u16 \<times> byte) \<times> image) run" where
  "push_back_version insert_row page_size rel page_no slot file =
     attempt (old_version_of page_size page_no slot file) (\<lambda>v.
       case v of
         Behind p l fmt \<Rightarrow> Ret (Inr ((p, l, fmt), file))
       | Copied rc fmt \<Rightarrow>
           attempt (store_piece insert_row page_size rel ''no room for the back version even on a fresh page'' rc file)
             (\<lambda>(sp, file1). Ret (Inr ((spot_page sp, spot_slot sp, fmt), file1))))"

text \<open>The lowest offset in use by the other slots.\<close>

definition bottom_without :: "nat \<Rightarrow> nat \<Rightarrow> nat \<Rightarrow> byte list \<Rightarrow> nat run" where
  "bottom_without page_size cnt slot page =
     map_option fst (scan_slots page (filter (\<lambda>i. i \<noteq> slot) [0..<cnt]) (page_size, None))"

definition rewrite_primary :: "nat \<Rightarrow> u32 \<Rightarrow> u16 \<Rightarrow> byte list \<Rightarrow> image \<Rightarrow> (dml_error + image) run" where
  "rewrite_primary page_size page_no slot rc file =
     (case page_at file page_size page_no of
        None \<Rightarrow> Ret (Inl (Msg ''primary page out of range''))
      | Some page \<Rightarrow>
          do {
            c \<leftarrow> u16_at page 22;
            if c \<le> slot then Ret (Inl (Msg ''primary slot out of range''))
            else do {
              (old_off, old_len) \<leftarrow> dir_entry page (unat slot);
              let in_place = (\<lambda>offset. map_option Inr (write_at_spot page_size
                    \<lparr>spot_page = page_no, spot_slot = slot, spot_append = False, spot_offset = offset\<rparr> rc file));
              if length rc \<le> old_len \<and> old_off \<noteq> 0 then in_place old_off
              else do {
                let aligned = align_up (length rc);
                bottom \<leftarrow> bottom_without page_size (unat c) (unat slot) page;
                let dir_top = DPG_RPT_OFFSET + unat c * 4;
                if bottom < dir_top + aligned then Ret (Inl (NoRoom page_no aligned (bottom - dir_top)))
                else in_place (align_down (bottom - aligned))
              }
            }
          })"

record dml_outcome =
  dml_tx_id :: u64
  dml_affected :: nat

definition begin_committed_tx :: "sys_insert \<Rightarrow> nat \<Rightarrow> image \<Rightarrow> (dml_error + u32 \<times> image) run" where
  "begin_committed_tx insert_row page_size file =
     attempt (committed_tx insert_row page_size file) (\<lambda>(tx, file1). Ret (Inr (ucast tx, file1)))"

text \<open>The new version as a chain of fragments, its head in the fixed slot.\<close>

definition rewrite_fragmented ::
    "sys_insert \<Rightarrow> nat \<Rightarrow> u16 \<Rightarrow> u32 \<Rightarrow> u32 \<Rightarrow> u16 \<Rightarrow> byte list \<Rightarrow> byte \<Rightarrow> u32 \<Rightarrow> u16 \<Rightarrow> image \<Rightarrow> (dml_error + image) run" where
  "rewrite_fragmented insert_row page_size rel tx page_no slot im format_no b_page b_line file =
     (case page_at file page_size page_no of
        None \<Rightarrow> Ret (Inl (Msg ''primary page out of range''))
      | Some page \<Rightarrow>
          do {
            old_len \<leftarrow> u16_at page (DPG_RPT_OFFSET + unat slot * 4 + 2);
            let head_cap = align_down (unat old_len - RHDF_DATA_OFFSET);
            cap \<leftarrow> fragment_cap page_size;
            if cap = 0 then Ret (Inl (Msg ''page too small to fragment into''))
            else
              let head_len = min (length im) head_cap in
              attempt (store_fragments insert_row page_size rel tx format_no (rev (chunks cap (drop head_len im)))
                         True None file) (\<lambda>(nxt, file1).
              (case nxt of
                 None \<Rightarrow> Ret (Inl (Msg ''a fragmented update with no fragments''))
               | Some (np, nl) \<Rightarrow>
                   let (hpf, hdata) = packed_piece (take head_len im) in
                   rewrite_primary page_size page_no slot
                     (rhdf_bytes tx b_page b_line (REC_INCOMPLETE OR hpf) format_no np nl hdata) file1))
          })"

definition is_no_room :: "dml_error \<Rightarrow> bool" where
  "is_no_room e = (case e of NoRoom _ _ _ \<Rightarrow> True | _ \<Rightarrow> False)"

definition update_record_under ::
    "sys_insert \<Rightarrow> nat \<Rightarrow> u16 \<Rightarrow> u32 \<Rightarrow> u32 \<Rightarrow> u16 \<Rightarrow> byte list \<Rightarrow> byte \<Rightarrow> image \<Rightarrow> (dml_error + image) run" where
  "update_record_under insert_row page_size rel tx page_no slot im format_no file =
     attempt (push_back_version insert_row page_size rel page_no slot file) (\<lambda>((b_page, b_line, _), file1).
       let split = rewrite_fragmented insert_row page_size rel tx page_no slot im format_no b_page b_line file1 in
       if oversize page_size im then split
       else
         (case rewrite_primary page_size page_no slot (packed_rhd tx b_page b_line format_no im) file1 of
            Panic \<Rightarrow> Panic
          | Ret (Inl e) \<Rightarrow> if is_no_room e then split else Ret (Inl e)
          | Ret (Inr file2) \<Rightarrow> Ret (Inr file2)))"

fun update_each ::
    "sys_insert \<Rightarrow> nat \<Rightarrow> u16 \<Rightarrow> u32 \<Rightarrow> (u32 \<times> u16 \<times> byte list) list \<Rightarrow> byte \<Rightarrow> image \<Rightarrow> (dml_error + image) run" where
  "update_each insert_row page_size rel tx [] format_no file = Ret (Inr file)"
| "update_each insert_row page_size rel tx ((page_no, slot, im) # ts) format_no file =
     attempt (update_record_under insert_row page_size rel tx page_no slot im format_no file)
       (update_each insert_row page_size rel tx ts format_no)"

definition update_records ::
    "sys_insert \<Rightarrow> nat \<Rightarrow> u16 \<Rightarrow> (u32 \<times> u16 \<times> byte list) list \<Rightarrow> byte \<Rightarrow> image \<Rightarrow> (dml_error + dml_outcome \<times> image) run" where
  "update_records insert_row page_size rel targets format_no file =
     (if targets = [] then Ret (Inr (\<lparr>dml_tx_id = 0, dml_affected = 0\<rparr>, file))
      else
        attempt (begin_committed_tx insert_row page_size file) (\<lambda>(tx, file1).
        attempt (update_each insert_row page_size rel tx targets format_no file1) (\<lambda>file2.
        Ret (Inr (\<lparr>dml_tx_id = ucast tx, dml_affected = length targets\<rparr>, file2)))))"

text \<open>The header-only stub of a deleted record.\<close>

definition deleted_stub :: "u32 \<Rightarrow> u32 \<Rightarrow> u16 \<Rightarrow> byte \<Rightarrow> byte list" where
  "deleted_stub tx b_page b_line format = fill_to_rhdf (rhd_bytes tx b_page b_line REC_DELETED format [])"

fun delete_each :: "sys_insert \<Rightarrow> nat \<Rightarrow> u16 \<Rightarrow> (u32 \<times> u16) list \<Rightarrow> u32 \<Rightarrow> image \<Rightarrow> (dml_error + image) run" where
  "delete_each insert_row page_size rel [] tx file = Ret (Inr file)"
| "delete_each insert_row page_size rel ((page_no, slot) # ts) tx file =
     attempt (push_back_version insert_row page_size rel page_no slot file) (\<lambda>((b_page, b_line, format), file1).
     attempt (rewrite_primary page_size page_no slot (deleted_stub tx b_page b_line format) file1)
       (delete_each insert_row page_size rel ts tx))"

definition delete_records_under ::
    "sys_insert \<Rightarrow> nat \<Rightarrow> u16 \<Rightarrow> (u32 \<times> u16) list \<Rightarrow> u32 \<Rightarrow> image \<Rightarrow> (dml_error + dml_outcome \<times> image) run" where
  "delete_records_under insert_row page_size rel targets tx file =
     (if targets = [] then Ret (Inr (\<lparr>dml_tx_id = 0, dml_affected = 0\<rparr>, file))
      else attempt (delete_each insert_row page_size rel targets tx file) (\<lambda>file1.
        Ret (Inr (\<lparr>dml_tx_id = ucast tx, dml_affected = length targets\<rparr>, file1))))"

definition delete_records ::
    "sys_insert \<Rightarrow> nat \<Rightarrow> u16 \<Rightarrow> (u32 \<times> u16) list \<Rightarrow> image \<Rightarrow> (dml_error + dml_outcome \<times> image) run" where
  "delete_records insert_row page_size rel targets file =
     (if targets = [] then Ret (Inr (\<lparr>dml_tx_id = 0, dml_affected = 0\<rparr>, file))
      else attempt (committed_tx insert_row page_size file) (\<lambda>(tx, file1).
        delete_records_under insert_row page_size rel targets (ucast tx) file1))"

subsection \<open>A fragmented head patched\<close>

fun check_pokes :: "nat \<Rightarrow> (nat \<times> byte list) list \<Rightarrow> dml_error option" where
  "check_pokes n [] = None"
| "check_pokes n ((at, bytes) # ps) =
     (if 2 ^ 64 \<le> at + length bytes then Some (Msg ''poke range overflows'')
      else if n < at + length bytes then Some (Msg ''the field to patch lies past the record's first fragment;                  rewriting it would have to re-split the record across pages'')
      else check_pokes n ps)"

fun poke :: "(nat \<times> byte list) list \<Rightarrow> byte list \<Rightarrow> byte list run" where
  "poke [] head = Ret head"
| "poke ((at, bytes) # ps) head = Option.bind (copy_at head at bytes) (poke ps)"

definition patched_body :: "u16 \<Rightarrow> (nat \<times> byte list) list \<Rightarrow> byte list \<Rightarrow> (dml_error + byte list) run" where
  "patched_body rflags pokes packed =
     (case (if has_flag rflags REC_NOT_PACKED then Some packed else unpack packed) of
        None \<Rightarrow> Ret (Inl (Msg ''the head's payload does not decompress''))
      | Some head \<Rightarrow>
          (case check_pokes (length head) pokes of
             Some e \<Rightarrow> Ret (Inl e)
           | None \<Rightarrow> do { h \<leftarrow> poke pokes head;
                           Ret (Inr (if has_flag rflags REC_NOT_PACKED then h else pack h)) }))"

definition patch_page :: "nat \<Rightarrow> (nat \<times> byte list) list \<Rightarrow> byte list \<Rightarrow> (dml_error + byte list) run" where
  "patch_page dir pokes page =
     (if length page < dir + 4 then Ret (Inl (Msg ''slot directory beyond the file''))
      else do {
        off' \<leftarrow> u16_at page dir;
        len' \<leftarrow> u16_at page (dir + 2);
        let off = unat off'; len = unat len' in
        if len = 0 \<or> length page < off + len then Ret (Inl (Msg ''target slot is empty or corrupt''))
        else do {
          rflags \<leftarrow> u16_at page (off + 10);
          if \<not> has_flag rflags REC_INCOMPLETE
          then Ret (Inl (Msg ''not a fragmented record - use the ordinary update path''))
          else if len < RHDF_DATA_OFFSET then Ret (Inl (Msg ''fragmented head shorter than its own header''))
          else do {
            packed \<leftarrow> rs_slice page (off + RHDF_DATA_OFFSET) (off + len);
            attempt (patched_body rflags pokes packed) (\<lambda>body.
              if len < RHDF_DATA_OFFSET + length body
              then Ret (Inl (Msg ''the patched head no longer fits its slot; relocating it would              move a record whose tail points at this page''))
              else do {
                page1 \<leftarrow> copy_at page (off + RHDF_DATA_OFFSET) (body @ replicate (len - RHDF_DATA_OFFSET - length body) 0);
                page2 \<leftarrow> put_u16 (dir + 2) (of_nat (RHDF_DATA_OFFSET + length body)) page1;
                Ret (Inr page2)
              })
          }
        }
      })"

definition patch_head_in_place :: "nat \<Rightarrow> u32 \<Rightarrow> u16 \<Rightarrow> (nat \<times> byte list) list \<Rightarrow> image \<Rightarrow> (dml_error + image) run" where
  "patch_head_in_place page_size page_no slot pokes file =
     (case page_at file page_size page_no of
        None \<Rightarrow> Ret (Inl (Msg ''page number out of range''))
      | Some page \<Rightarrow>
          attempt (patch_page (DPG_RPT_OFFSET + unat slot * 4) pokes page) (\<lambda>page'.
            (case img_page file page_no of
               None \<Rightarrow> Ret (Inl (Msg ''page number out of range''))
             | Some _ \<Rightarrow> Ret (Inr (set_page page_no page' file)))))"

end
