(* ===== verification/Dml_Pages.thy ===== *)
theory Dml_Pages
  imports Dml_Tx
begin

unbundle bit_operations_syntax

text \<open>
  What page allocation promises: the page handed out was free, is taken afterwards, is no inventory
  page, and lies inside the file; pages in use stay in use, and only the inventory pages the search
  touched and pages that were free are written. A released page is free again.
\<close>

lemma div_range: "r < n \<Longrightarrow> (m * n + r) div n = m" "r < n \<Longrightarrow> (m * n + r) mod n = r" for n :: nat
  by simp_all

subsection \<open>Bits of an inventory page\<close>

lemma bit_cleared: "bit_set (b AND NOT (push_bit i 1)) j \<longleftrightarrow> bit_set b j \<and> j \<noteq> i" if "i < 8" "j < 8" for b :: byte
  using that by (auto simp: bit_set_bit bit_simps)

lemma bit_raised: "bit_set (b OR push_bit i 1) j \<longleftrightarrow> bit_set b j \<or> j = i" if "i < 8" "j < 8" for b :: byte
  using that by (auto simp: bit_set_bit bit_simps)

lemma free_bit_update:
  assumes "at = PIP_BITS_OFFSET + i div 8" "at < length page"
    and "\<And>j. j < 8 \<Longrightarrow> bit_set b j \<longleftrightarrow> (if j = i mod 8 then v else bit_set (page ! at) j)"
  shows "free_bit (page[at := b]) j \<longleftrightarrow> (if j = i then v else free_bit page j)"
proof (cases "j div 8 = i div 8")
  case True
  then have "j = i \<longleftrightarrow> j mod 8 = i mod 8" by (metis div_mult_mod_eq)
  then show ?thesis using assms True by (simp add: free_bit_def)
next
  case False
  then show ?thesis using assms by (auto simp: free_bit_def)
qed

lemma free_bit_splice:
  assumes "at + length ys \<le> PIP_BITS_OFFSET" "PIP_BITS_OFFSET \<le> length page"
  shows "free_bit (splice page at ys) j = free_bit page j"
  using assms by (auto simp: free_bit_def nth_splice)

lemma splice_first: "0 < at \<Longrightarrow> at + length ys \<le> length xs \<Longrightarrow> splice xs at ys ! 0 = xs ! 0"
  by (cases "xs = []") (auto simp: nth_splice)

lemma put_u32_ok: "at + 4 \<le> length page \<Longrightarrow> put_u32 at v page = Ret (splice page at (u32_bytes v))"
  by (simp add: put_u32_def copy_at_def)

lemma take_bit_of_spec:
  assumes "PIP_BITS_OFFSET + i div 8 < length page"
  shows "\<exists>page'. take_bit_of i page = Ret page' \<and> length page' = length page \<and> page' ! 0 = page ! 0 \<and>
    (\<forall>j. free_bit page' j \<longleftrightarrow> j \<noteq> i \<and> free_bit page j) \<and> u32_at page' 16 = Ret (of_nat i + 1)"
proof -
  define p1 where "p1 = page[PIP_BITS_OFFSET + i div 8 := page ! (PIP_BITS_OFFSET + i div 8) AND NOT (push_bit (i mod 8) 1)]"
  have len: "28 \<le> length p1" "length p1 = length page" using assms by (simp_all add: p1_def PIP_BITS_OFFSET_def)
  obtain used where used: "u32_at p1 24 = Ret used" using u_at_inside(2) [of 24 p1] len by auto
  define p2 where "p2 = (if used < of_nat i + 1 then splice p1 24 (u32_bytes (of_nat i + 1)) else p1)"
  define p3 where "p3 = splice p2 16 (u32_bytes (of_nat i + 1))"
  have "take_bit_of i page = Ret p3"
    using assms used len by (simp add: take_bit_of_def rs_index_def Let_def p1_def [symmetric] put_u32_ok p2_def p3_def
        del: push_bit_of_1)
  moreover have "length p3 = length page" using len by (simp add: p2_def p3_def)
  moreover have "p3 ! 0 = page ! 0"
  proof -
    have "length p2 = length p1" using len(1) by (simp add: p2_def)
    then have "p3 ! 0 = p2 ! 0" using len(1) by (simp add: p3_def splice_first)
    moreover have "p2 ! 0 = p1 ! 0" using len(1) by (simp add: p2_def splice_first)
    ultimately have "p3 ! 0 = p1 ! 0" by simp
    then show ?thesis by (simp add: p1_def PIP_BITS_OFFSET_def)
  qed
  moreover have "free_bit p3 j \<longleftrightarrow> j \<noteq> i \<and> free_bit page j" for j
  proof -
    have "free_bit p3 j = free_bit p1 j"
      using len by (simp add: p2_def p3_def free_bit_splice PIP_BITS_OFFSET_def)
    also have "\<dots> \<longleftrightarrow> (if j = i then False else free_bit page j)"
      unfolding p1_def using assms by (intro free_bit_update) (auto simp: bit_cleared simp del: push_bit_of_1)
    finally show ?thesis by auto
  qed
  moreover have "u32_at p3 16 = Ret (of_nat i + 1)"
    unfolding p3_def using len by (intro u32_at_splice) (simp add: p2_def)
  ultimately show ?thesis by blast
qed

subsection \<open>Growing the file\<close>

lemma img_page_grow_old: "img_page file p = Some page \<Longrightarrow> img_page (grow n file) p = Some page"
  by (auto simp: img_page_def grow_def Let_def nth_append split: if_splits)

lemma grow_pages:
  assumes "\<forall>p \<in> set (img_pages file). length p = img_page_size file"
  shows "(\<forall>p \<in> set (img_pages (grow n file)). length p = img_page_size file) \<and> img_page_size (grow n file) = img_page_size file"
  using assms by (auto simp: grow_def Let_def)

lemma byte_len_whole:
  "\<forall>p \<in> set (img_pages file). length p = img_page_size file \<Longrightarrow> byte_len file = length (img_pages file) * img_page_size file"
  by (simp add: byte_len_def sum_list_triv cong: map_cong)

lemma grow_reaches:
  fixes m :: nat
  assumes "\<forall>p \<in> set (img_pages file). length p = img_page_size file" "0 < img_page_size file"
  defines "file2 \<equiv> (if byte_len file < (m + 1) * img_page_size file then grow ((m + 1) * img_page_size file) file else file)"
  shows "m < length (img_pages file2) \<and> length (img_pages file2) = max (m + 1) (length (img_pages file))"
proof (cases "byte_len file < (m + 1) * img_page_size file")
  case False
  then have "(m + 1) * img_page_size file \<le> length (img_pages file) * img_page_size file"
    using byte_len_whole [OF assms(1)] by simp
  then have "m + 1 \<le> length (img_pages file)" using assms(2) by (metis mult_le_cancel2)
  then show ?thesis using False by (simp add: file2_def)
next
  case True
  then have "length (img_pages file) < m + 1" using byte_len_whole [OF assms(1)] mult_less_cancel2 [of "length (img_pages file)" "img_page_size file" "m + 1"]
    by simp
  moreover have "((m + 1) * img_page_size file + img_page_size file - 1) div img_page_size file = m + 1"
  proof -
    have "(m + 1) * img_page_size file + img_page_size file - 1 = (m + 1) * img_page_size file + (img_page_size file - 1)"
      using assms(2) by simp
    moreover have "img_page_size file - 1 < img_page_size file" using assms(2) by simp
    ultimately show ?thesis by (simp only: div_range)
  qed
  ultimately show ?thesis using True assms(2) by (simp add: file2_def grow_def Let_def)
qed


subsection \<open>The inventory of a file\<close>

text \<open>A bit of the inventory page of a sequence number. The first inventory page is there from the start;
  the next one is made when the last bit of its predecessor, which stands for its home, is taken. The
  pages an inventory page not yet made would govern are all free: the file grows into them.\<close>

definition pip_bit :: "nat \<Rightarrow> image \<Rightarrow> nat \<Rightarrow> nat \<Rightarrow> bool" where
  "pip_bit ps file sq i \<longleftrightarrow> (case img_page file (pip_page_no ps sq) of None \<Rightarrow> False | Some page \<Rightarrow> free_bit page i)"

primrec minted :: "nat \<Rightarrow> image \<Rightarrow> nat \<Rightarrow> bool" where
  "minted ps file 0 = True"
| "minted ps file (Suc sq) \<longleftrightarrow> minted ps file sq \<and> \<not> pip_bit ps file sq (pages_per_pip ps - 1)"

definition pip_free :: "nat \<Rightarrow> image \<Rightarrow> nat \<Rightarrow> nat \<Rightarrow> bool" where
  "pip_free ps file sq i \<longleftrightarrow> i < pages_per_pip ps \<and> (minted ps file sq \<longrightarrow> pip_bit ps file sq i)"

definition page_free :: "nat \<Rightarrow> image \<Rightarrow> u32 \<Rightarrow> bool" where
  "page_free ps file n \<longleftrightarrow> pip_free ps file (unat n div pages_per_pip ps) (unat n mod pages_per_pip ps)"

text \<open>The inventory pages made so far, up to k, are in place, and the first one marks its own page used. The size of
  a page is a multiple of 4; the page numbers up to those of inventory page k are 32-bit numbers.\<close>

definition inventory_ok :: "nat \<Rightarrow> image \<Rightarrow> nat \<Rightarrow> bool" where
  "inventory_ok ps file k \<longleftrightarrow>
     64 \<le> ps \<and> 4 dvd ps \<and> img_page_size file = ps \<and> (\<forall>p \<in> set (img_pages file). length p = ps) \<and>
     (k + 1) * pages_per_pip ps \<le> 2 ^ 32 \<and> k \<le> 2 ^ 20 \<and> \<not> pip_bit ps file 0 1 \<and>
     (\<forall>sq \<le> k. minted ps file sq \<longrightarrow>
        (\<exists>page. img_page file (pip_page_no ps sq) = Some page \<and> page ! 0 = page_type_byte PageInventory))"

lemma inventory_pip:
  assumes "inventory_ok ps file k" "minted ps file sq" "sq \<le> k"
  obtains page where "img_page file (pip_page_no ps sq) = Some page" "page ! 0 = page_type_byte PageInventory"
  using assms unfolding inventory_ok_def by blast

lemma minted_le: "minted ps file t \<Longrightarrow> s \<le> t \<Longrightarrow> minted ps file s"
  by (induction t) (auto simp: le_Suc_eq)

lemma per_pip_bound: "64 \<le> ps \<Longrightarrow> 288 \<le> pages_per_pip ps \<and> 9 \<le> pages_per_scn ps"
  by (simp add: pages_per_pip_def pages_per_scn_def PIP_BITS_OFFSET_def) arith

lemma per_scn_multiple: "64 \<le> ps \<Longrightarrow> 4 dvd ps \<Longrightarrow> pages_per_pip ps = 32 * pages_per_scn ps"
  by (auto simp: pages_per_pip_def pages_per_scn_def PIP_BITS_OFFSET_def elim!: dvdE)

lemma bits_inside: "i < pages_per_pip ps \<Longrightarrow> PIP_BITS_OFFSET + i div 8 < ps"
  by (simp add: pages_per_pip_def less_mult_imp_div_less less_diff_conv)

lemma small_page_no:
  assumes "inventory_ok ps file k" "sq \<le> k" "i < pages_per_pip ps"
  shows "sq * pages_per_pip ps + i < 2 ^ 32" "unat (of_nat (sq * pages_per_pip ps + i) :: u32) = sq * pages_per_pip ps + i"
proof -
  have "sq * pages_per_pip ps + i < (sq + 1) * pages_per_pip ps" using assms(3) by simp
  also have "\<dots> \<le> (k + 1) * pages_per_pip ps" using assms(2) by (intro mult_le_mono1) simp
  also have "\<dots> \<le> 2 ^ 32" using assms(1) by (simp add: inventory_ok_def)
  finally show "sq * pages_per_pip ps + i < 2 ^ 32" .
  then show "unat (of_nat (sq * pages_per_pip ps + i) :: u32) = sq * pages_per_pip ps + i"
    by (simp only: unat_of_nat) simp
qed

text \<open>Homes of inventory pages are page 1 and the last bit of each range.\<close>

lemma pip_home:
  assumes ok: "inventory_ok ps file k" and sq: "sq \<le> k" "sq' \<le> k" and i: "i < pages_per_pip ps"
    and eq: "pip_page_no ps sq' = of_nat (sq * pages_per_pip ps + i)"
  shows "sq' = 0 \<and> sq = 0 \<and> i = 1 \<or> sq' = Suc sq \<and> i = pages_per_pip ps - 1"
proof -
  let ?per = "pages_per_pip ps"
  have per: "288 \<le> ?per" using per_pip_bound ok by (simp add: inventory_ok_def)
  note n = small_page_no [OF ok sq(1) i]
  show ?thesis
  proof (cases sq')
    case 0
    then have "sq * ?per + i = 1" using eq n(2) by (simp add: pip_page_no_def)
    then show ?thesis using 0 per by (cases sq) auto
  next
    case (Suc m)
    have "m * ?per + (?per - 1) < 2 ^ 32" "unat (of_nat (m * ?per + (?per - 1)) :: u32) = m * ?per + (?per - 1)"
      using small_page_no [OF ok, of m "?per - 1"] sq(2) Suc per by auto
    moreover have "sq' * ?per - 1 = m * ?per + (?per - 1)" using Suc per by simp
    ultimately have "m * ?per + (?per - 1) = sq * ?per + i" using eq Suc n(2) by (simp add: pip_page_no_def)
    moreover have "?per - 1 < ?per" using per by simp
    then have "(m * ?per + (?per - 1)) div ?per = m" by (rule div_range)
    moreover have "(sq * ?per + i) div ?per = sq" using i by (rule div_range)
    ultimately show ?thesis using Suc by auto
  qed
qed

lemma pip_page_no_Suc: "64 \<le> ps \<Longrightarrow> pip_page_no ps (Suc sq) = of_nat (sq * pages_per_pip ps + (pages_per_pip ps - 1))"
  using per_pip_bound [of ps] by (simp add: pip_page_no_def add.commute del: of_nat_add of_nat_mult of_nat_diff)

lemma pip_page_no_inject:
  assumes "inventory_ok ps file k" "a \<le> k" "b \<le> k" "pip_page_no ps a = pip_page_no ps b"
  shows "a = b"
proof -
  have ps: "64 \<le> ps" and per: "288 \<le> pages_per_pip ps" using per_pip_bound assms(1) by (simp_all add: inventory_ok_def)
  show ?thesis
  proof (cases b)
    case 0
    then have "pip_page_no ps b = of_nat (0 * pages_per_pip ps + 1)" by (simp add: pip_page_no_def)
    then show ?thesis using pip_home [OF assms(1), of 0 a 1] assms(2,4) per 0 by auto
  next
    case (Suc m)
    then show ?thesis
      using pip_home [OF assms(1), of m a "pages_per_pip ps - 1"] assms(2-4) per pip_page_no_Suc [OF ps, of m] by auto
  qed
qed

subsection \<open>One turn of the search\<close>

lemma find_free_spec:
  "find_free page per mn = Some i \<Longrightarrow> i < per \<and> free_bit page i"
  "i < per \<Longrightarrow> free_bit page i \<Longrightarrow> find_free page per mn \<noteq> None"
proof -
  let ?start = "min mn per"
  have bits: "set ([?start..<per] @ [0..<?start]) = {0..<per}" by (auto simp: min_def)
  show "find_free page per mn = Some i \<Longrightarrow> i < per \<and> free_bit page i"
    unfolding find_free_def Let_def find_Some_iff using bits by (metis atLeastLessThan_iff nth_mem)
  show "i < per \<Longrightarrow> free_bit page i \<Longrightarrow> find_free page per mn \<noteq> None"
    unfolding find_free_def Let_def find_None_iff using bits by auto
qed

lemma find_free_first: "mn < per \<Longrightarrow> free_bit page mn \<Longrightarrow> find_free page per mn = Some mn"
  by (simp add: find_free_def Let_def upt_conv_Cons)

lemma decode_pip_page:
  assumes "64 \<le> length page" "page ! 0 = page_type_byte PageInventory"
  shows "\<exists>pip. decode_pip page = Ret (Some pip) \<and> u32_at page 16 = Ret (pip_min pip)"
  using assms u_at_inside(2) [of 4 page] u_at_inside(2) [of 8 page] u_at_inside(2) [of 12 page]
    u_at_inside(2) [of 16 page] u_at_inside(2) [of 20 page] u_at_inside(2) [of 24 page]
  by (auto simp: decode_pip_def decode_page_header_def PAGE_HEADER_SIZE_def rs_index_def rs_slice_from_def PIP_BITS_OFFSET_def)

lemma format_scn_ok:
  assumes "64 \<le> length page"
  shows "\<exists>page'. format_scn n sn page = Ret page' \<and> length page' = length page \<and> page' ! 0 = page_type_byte ScnInventory"
  using assms by (auto simp: format_scn_def format_page_def rs_index_def put_u32_ok nth_splice)

text \<open>A fresh inventory page: every bit set, the hint at the first.\<close>

definition fresh_bytes :: "nat \<Rightarrow> byte list \<Rightarrow> bool" where
  "fresh_bytes ps bs \<longleftrightarrow> length bs = ps \<and> bs ! 0 = page_type_byte PageInventory \<and> u32_at bs 16 = Ret 0 \<and>
     (\<forall>j < pages_per_pip ps. free_bit bs j)"

lemma format_pip_ok:
  assumes "64 \<le> length page"
  shows "\<exists>page'. format_pip n page = Ret page' \<and> fresh_bytes (length page) page'"
proof -
  let ?h = "splice ((replicate (length page) 0)[0 := page_type_byte PageInventory]) 12 (u32_bytes n)"
  let ?p = "take PIP_BITS_OFFSET ?h @ replicate (length page - PIP_BITS_OFFSET) 255"
  have len: "length ?h = length page" using assms by simp
  have ne: "page \<noteq> []" using assms by auto
  have "format_pip n page = Ret ?p"
    using assms len ne by (simp add: format_pip_def format_page_def rs_index_def put_u32_ok PIP_BITS_OFFSET_def)
  moreover have "?p ! 0 = page_type_byte PageInventory"
    using assms ne by (simp add: nth_append splice_first PIP_BITS_OFFSET_def)
  moreover have "u32_at ?p 16 = Ret 0"
  proof -
    have "get_range ?p 16 20 = Some (replicate 4 0)"
      using assms by (auto simp: get_range_def PIP_BITS_OFFSET_def nth_splice intro!: nth_equalityI)
    then show ?thesis by (simp add: u32_at_def rs_slice_def numeral_eq_Suc)
  qed
  moreover have "free_bit ?p j" if j: "j < pages_per_pip (length page)" for j
  proof -
    have "?p ! (PIP_BITS_OFFSET + j div 8) = 255" using bits_inside [OF j] len by (simp add: nth_append)
    moreover have "bit_set 255 (j mod 8)"
    proof -
      have "(255 :: byte) = - 1" by simp
      then show ?thesis by (simp only: bit_set_bit bit_minus_1_iff) simp
    qed
    ultimately show ?thesis using bits_inside [OF j] len by (simp add: free_bit_def)
  qed
  moreover have "length ?p = length page" using assms len by (simp add: PIP_BITS_OFFSET_def)
  ultimately show ?thesis by (auto simp: fresh_bytes_def)
qed

text \<open>The pages that change, or are new, are no index root pages.\<close>

definition keeps_types :: "image \<Rightarrow> image \<Rightarrow> bool" where
  "keeps_types file file' \<longleftrightarrow>
     (\<forall>m page. img_page file' m = Some page \<longrightarrow> img_page file m = Some page \<or> page ! 0 \<noteq> page_type_byte IndexRoot)"

lemma img_page_grow:
  "img_page (grow b file) m = Some page \<Longrightarrow> img_page file m = Some page \<or> page = replicate (img_page_size file) 0"
  by (auto simp: grow_def img_page_def Let_def nth_append split: if_splits)

text \<open>The pages that are not touched by taking bit \<^verbatim>\<open>i\<close> of inventory page \<^verbatim>\<open>sq\<close>.\<close>

definition turn_keeps :: "nat \<Rightarrow> nat \<Rightarrow> nat \<Rightarrow> image \<Rightarrow> image \<Rightarrow> bool" where
  "turn_keeps ps sq i file file' \<longleftrightarrow>
     (\<forall>m page. img_page file m = Some page \<longrightarrow> m \<noteq> pip_page_no ps sq \<longrightarrow> m \<noteq> of_nat (sq * pages_per_pip ps + i) \<longrightarrow>
        img_page file' m = Some page)"

text \<open>The file with the inventory page written, grown to hold the page taken.\<close>

definition taken_file :: "nat \<Rightarrow> u32 \<Rightarrow> byte list \<Rightarrow> u32 \<Rightarrow> image \<Rightarrow> image" where
  "taken_file ps pip_no page' n file =
     (let file1 = set_page pip_no page' file in if byte_len file1 < (unat n + 1) * ps then grow ((unat n + 1) * ps) file1 else file1)"

lemma taken_file_pages:
  fixes n :: u32
  assumes ps: "64 \<le> ps" "img_page_size file = ps" "\<forall>p \<in> set (img_pages file). length p = ps"
    and pip: "img_page file pp = Some page" "length page' = ps"
  defines "file2 \<equiv> taken_file ps pp page' n file"
  shows "img_page_size file2 = ps" "\<forall>p \<in> set (img_pages file2). length p = ps"
    "length (img_pages file2) = max (unat n + 1) (length (img_pages file))" "img_page file2 n \<noteq> None"
    "img_page file m = Some q \<Longrightarrow> img_page file2 m = Some (if m = pp then page' else q)"
    "img_page file2 m = Some pg \<Longrightarrow> img_page file m = Some pg \<or> pg = page' \<or> pg = replicate ps 0"
proof -
  define file1 where "file1 = set_page pp page' file"
  have f2: "file2 = (if byte_len file1 < (unat n + 1) * ps then grow ((unat n + 1) * ps) file1 else file1)"
    by (simp add: file2_def taken_file_def file1_def Let_def)
  have one: "img_page_size file1 = ps" "\<forall>p \<in> set (img_pages file1). length p = ps"
    "length (img_pages file1) = length (img_pages file)"
    using ps pip(2) set_update_subset_insert [of "img_pages file" "unat pp" page'] by (auto simp: file1_def set_page_def)
  show "img_page_size file2 = ps" "\<forall>p \<in> set (img_pages file2). length p = ps" and
    len: "length (img_pages file2) = max (unat n + 1) (length (img_pages file))"
    using grow_pages [of file1] grow_reaches [of file1 "unat n"] one ps(1) by (auto simp: f2)
  show "img_page file2 n \<noteq> None" using len by (simp add: img_page_def)
  show "img_page file2 m = Some (if m = pp then page' else q)" if "img_page file m = Some q"
    using that pip img_page_grow_old [of file1 m] by (auto simp: f2 file1_def page_set_page)
  show "img_page file m = Some pg \<or> pg = page' \<or> pg = replicate ps 0" if "img_page file2 m = Some pg"
  proof -
    have "img_page file1 m = Some pg \<or> pg = replicate ps 0"
      using that img_page_grow [of _ file1 m pg] one(1) unfolding f2 by (simp split: if_splits)
    then show ?thesis using pip by (auto simp: file1_def page_set_page split: if_splits)
  qed
qed

text \<open>What the page taken becomes: a fresh inventory page if it is the home of the next one, else itself
  or an SCN page.\<close>

definition page_taken :: "nat \<Rightarrow> bool \<Rightarrow> u32 \<Rightarrow> image \<Rightarrow> image \<Rightarrow> bool" where
  "page_taken ps home n file2 file3 \<longleftrightarrow>
     (if home then \<exists>bs. file3 = set_page n bs file2 \<and> fresh_bytes ps bs
      else file3 = file2 \<or> (\<exists>bs. file3 = set_page n bs file2 \<and> length bs = ps \<and> bs ! 0 = page_type_byte ScnInventory))"

lemma turn_pages:
  assumes ok: "inventory_ok ps file k" and sq: "sq \<le> k" "minted ps file sq"
    and pip: "img_page file (pip_page_no ps sq) = Some page" and i: "i < pages_per_pip ps" "free_bit page i"
    and taken: "take_bit_of i page = Ret page'"
  defines "n \<equiv> of_nat (sq * pages_per_pip ps + i) :: u32"
  assumes f3: "page_taken ps (i = pages_per_pip ps - 1) n (taken_file ps (pip_page_no ps sq) page' n file) file3"
  shows "inventory_ok ps file3 k" "turn_keeps ps sq i file file3"
    "\<forall>sq' \<le> k. \<forall>j. pip_free ps file3 sq' j \<longleftrightarrow> pip_free ps file sq' j \<and> \<not> (sq' = sq \<and> j = i)"
    "\<forall>s \<le> k. minted ps file3 s \<longleftrightarrow> minted ps file s \<or> i = pages_per_pip ps - 1 \<and> s = Suc sq"
    "length (img_pages file3) = max (unat n + 1) (length (img_pages file))" "keeps_types file file3"
    "img_page file3 (pip_page_no ps sq) = Some page'"
    "i = pages_per_pip ps - 1 \<Longrightarrow> \<exists>bs. img_page file3 (pip_page_no ps (Suc sq)) = Some bs \<and> fresh_bytes ps bs"
proof -
  let ?per = "pages_per_pip ps" and ?pp = "pip_page_no ps sq"
  define file2 where "file2 = taken_file ps ?pp page' n file"
  have basics: "64 \<le> ps" "img_page_size file = ps" "\<forall>p \<in> set (img_pages file). length p = ps"
    using ok by (auto simp: inventory_ok_def)
  have per: "288 \<le> ?per" using per_pip_bound [OF basics(1)] by simp
  have len: "length page = ps" using pip basics(3) by (auto simp: img_page_def split: if_splits)
  have p': "length page' = ps" "page' ! 0 = page ! 0" "\<And>j. free_bit page' j \<longleftrightarrow> j \<noteq> i \<and> free_bit page j"
    using take_bit_of_spec [of i page] bits_inside [OF i(1)] taken len by auto
  note two = taken_file_pages [OF basics pip p'(1), where n = n, folded file2_def]
  have f3: "page_taken ps (i = ?per - 1) n file2 file3" using f3 by (simp only: file2_def)
  have bit_i: "pip_bit ps file sq i" using pip i(2) by (simp add: pip_bit_def)
  have unmade: "i = ?per - 1 \<Longrightarrow> \<not> minted ps file (Suc sq)" using bit_i by simp
  have not_home: "n \<noteq> pip_page_no ps sq'" if "sq' \<le> k" "minted ps file sq'" for sq'
  proof
    assume "n = pip_page_no ps sq'"
    then have "sq' = 0 \<and> sq = 0 \<and> i = 1 \<or> sq' = Suc sq \<and> i = ?per - 1"
      using pip_home [OF ok sq(1) that(1) i(1)] by (simp add: n_def)
    then show False using bit_i ok that(2) unmade by (auto simp: inventory_ok_def)
  qed
  have three: "img_page file3 m = (if file3 \<noteq> file2 \<and> m = n then img_page file3 m else img_page file2 m)" for m
    using f3 two(4) by (auto simp: page_taken_def page_set_page split: if_splits)
  have keep: "img_page file3 m = Some (if m = ?pp then page' else q)" if "img_page file m = Some q" "m \<noteq> n" for m q
    using two(5) [OF that(1)] three [of m] that(2) by simp
  show pp: "img_page file3 ?pp = Some page'" using keep [OF pip] not_home [OF sq] by auto
  have pips: "\<exists>q. img_page file (pip_page_no ps sq') = Some q \<and> q ! 0 = page_type_byte PageInventory \<and>
      img_page file3 (pip_page_no ps sq') = Some (if sq' = sq then page' else q)" if k: "sq' \<le> k" "minted ps file sq'" for sq'
  proof -
    obtain q where q: "img_page file (pip_page_no ps sq') = Some q" "q ! 0 = page_type_byte PageInventory"
      by (rule inventory_pip [OF ok k(2,1)])
    have "pip_page_no ps sq' = ?pp \<longleftrightarrow> sq' = sq" using pip_page_no_inject [OF ok k(1) sq(1)] by auto
    then show ?thesis using q keep [OF q(1)] not_home [OF k] by auto
  qed
  have bits: "pip_bit ps file3 sq' j \<longleftrightarrow> pip_bit ps file sq' j \<and> \<not> (sq' = sq \<and> j = i)"
    if k: "sq' \<le> k" "minted ps file sq'" for sq' j
  proof -
    obtain q where q: "img_page file (pip_page_no ps sq') = Some q"
      "img_page file3 (pip_page_no ps sq') = Some (if sq' = sq then page' else q)" using pips [OF k] by blast
    show ?thesis
    proof (cases "sq' = sq")
      case True
      then show ?thesis using q pip p'(3) [of j] by (auto simp: pip_bit_def)
    next
      case False
      then show ?thesis using q by (simp add: pip_bit_def)
    qed
  qed
  show fresh: "\<exists>bs. img_page file3 (pip_page_no ps (Suc sq)) = Some bs \<and> fresh_bytes ps bs" if home: "i = ?per - 1"
  proof -
    obtain bs where bs: "file3 = set_page n bs file2" "fresh_bytes ps bs" using f3 home by (auto simp: page_taken_def)
    then show ?thesis using two(4) home pip_page_no_Suc [OF basics(1), of sq] by (auto simp: n_def page_set_page)
  qed
  have fresh_bits: "pip_bit ps file3 (Suc sq) j" if "i = ?per - 1" "j < ?per" for j
    using fresh [OF that(1)] that(2) by (auto simp: pip_bit_def fresh_bytes_def)
  have made: "minted ps file3 s \<longleftrightarrow> minted ps file s \<or> i = ?per - 1 \<and> s = Suc sq" if "s \<le> k" for s
    using that
  proof (induction s)
    case (Suc r)
    then have r: "r \<le> k" and ih: "minted ps file3 r \<longleftrightarrow> minted ps file r \<or> i = ?per - 1 \<and> r = Suc sq" by simp_all
    show ?case
    proof (cases "minted ps file r")
      case True
      then show ?thesis using ih bits [OF r True, of "?per - 1"] bit_i by auto
    next
      case False
      then have "r \<noteq> sq" using sq(2) by auto
      then show ?thesis using ih False fresh_bits [of "?per - 1"] per by auto
    qed
  qed simp
  then show "\<forall>s \<le> k. minted ps file3 s \<longleftrightarrow> minted ps file s \<or> i = ?per - 1 \<and> s = Suc sq" by blast
  show "\<forall>sq' \<le> k. \<forall>j. pip_free ps file3 sq' j \<longleftrightarrow> pip_free ps file sq' j \<and> \<not> (sq' = sq \<and> j = i)"
  proof (intro allI impI)
    fix sq' j assume k: "sq' \<le> k"
    show "pip_free ps file3 sq' j \<longleftrightarrow> pip_free ps file sq' j \<and> \<not> (sq' = sq \<and> j = i)"
    proof (cases "minted ps file sq'")
      case True
      then show ?thesis using made [OF k] bits [OF k True] by (auto simp: pip_free_def)
    next
      case False
      then have "sq' \<noteq> sq" using sq(2) by auto
      then show ?thesis using False made [OF k] fresh_bits by (auto simp: pip_free_def)
    qed
  qed
  have sizes: "img_page_size file3 = ps" "\<forall>p \<in> set (img_pages file3). length p = ps"
    "length (img_pages file3) = length (img_pages file2)"
    using f3 two(1,2) set_update_subset_insert [of "img_pages file2" "unat n"]
    by (fastforce simp: set_page_def page_taken_def fresh_bytes_def split: if_splits)+
  show "length (img_pages file3) = max (unat n + 1) (length (img_pages file))" using sizes(3) two(3) by simp
  have inv: "page' ! 0 = page_type_byte PageInventory" using pips [OF sq] pip p'(2) by auto
  show "inventory_ok ps file3 k"
    unfolding inventory_ok_def
  proof (intro conjI allI impI)
    show "\<not> pip_bit ps file3 0 1" using bits [of 0 1] ok by (simp add: inventory_ok_def)
    fix sq' assume k: "sq' \<le> k" "minted ps file3 sq'"
    show "\<exists>page. img_page file3 (pip_page_no ps sq') = Some page \<and> page ! 0 = page_type_byte PageInventory"
    proof (cases "minted ps file sq'")
      case True
      then show ?thesis using pips [OF k(1) True] inv by auto
    next
      case False
      then show ?thesis using made [OF k(1)] k(2) fresh by (auto simp: fresh_bytes_def)
    qed
  qed (use ok sizes in \<open>auto simp: inventory_ok_def\<close>)
  show "keeps_types file file3"
    unfolding keeps_types_def
  proof (intro allI impI)
    fix m pg assume m: "img_page file3 m = Some pg"
    have ty: "page_type_byte ScnInventory \<noteq> page_type_byte IndexRoot" "page_type_byte PageInventory \<noteq> page_type_byte IndexRoot"
      "(replicate ps 0 :: byte list) ! 0 \<noteq> page_type_byte IndexRoot"
      using basics(1) by simp_all
    show "img_page file m = Some pg \<or> pg ! 0 \<noteq> page_type_byte IndexRoot"
    proof (cases "file3 \<noteq> file2 \<and> m = n")
      case True
      then show ?thesis using f3 m two(4) ty by (auto simp: page_taken_def fresh_bytes_def page_set_page split: if_splits)
    next
      case False
      then have "img_page file2 m = Some pg" using three [of m] m by (metis (full_types))
      from two(6) [OF this] show ?thesis using inv ty by auto
    qed
  qed
  show "turn_keeps ps sq i file file3"
    using keep by (auto simp: turn_keeps_def n_def)
qed

text \<open>A turn that finds bit \<^verbatim>\<open>i\<close>: a page whose number is a multiple of \<^verbatim>\<open>pages_per_scn\<close> becomes an SCN
  page and the search goes on; the home of the next inventory page becomes that page, and the search
  goes on there; any other page is handed out.\<close>

definition turn_result :: "nat \<Rightarrow> nat \<Rightarrow> nat \<Rightarrow> image \<Rightarrow> alloc_turn" where
  "turn_result ps sq i file' =
     (let n = of_nat (sq * pages_per_pip ps + i) :: u32 in
      if n \<noteq> 0 \<and> unat n mod pages_per_scn ps = 0 then Again file' sq
      else if i = pages_per_pip ps - 1 then Again file' (sq + 1)
      else Allocated n file')"

lemma home_no_scn:
  assumes ok: "inventory_ok ps file k" and sq: "sq \<le> k"
  shows "unat (of_nat (sq * pages_per_pip ps + (pages_per_pip ps - 1)) :: u32) mod pages_per_scn ps \<noteq> 0"
proof -
  have ps: "64 \<le> ps" "4 dvd ps" using ok by (auto simp: inventory_ok_def)
  have per: "288 \<le> pages_per_pip ps" and scn: "9 \<le> pages_per_scn ps" using per_pip_bound [OF ps(1)] by simp_all
  have "sq * pages_per_pip ps + (pages_per_pip ps - 1) = (sq * 32 + 31) * pages_per_scn ps + (pages_per_scn ps - 1)"
    using per_scn_multiple [OF ps] scn by (simp add: algebra_simps)
  then have "(sq * pages_per_pip ps + (pages_per_pip ps - 1)) mod pages_per_scn ps = pages_per_scn ps - 1"
    using scn div_range(2) [of "pages_per_scn ps - 1" "pages_per_scn ps" "sq * 32 + 31"] by simp
  then show ?thesis using small_page_no(2) [OF ok sq, of "pages_per_pip ps - 1"] scn per
    by (simp del: of_nat_add of_nat_mult of_nat_diff)
qed

lemma alloc_turn_at:
  assumes ok: "inventory_ok ps file k" and sq: "sq \<le> k" "minted ps file sq"
    and pip: "img_page file (pip_page_no ps sq) = Some page" "u32_at page 16 = Ret mn"
    and found: "find_free page (pages_per_pip ps) (unat mn) = Some i"
  shows "\<exists>file' page'. alloc_turn ps file sq = Ret (Inr (turn_result ps sq i file')) \<and> take_bit_of i page = Ret page' \<and>
    page_taken ps (i = pages_per_pip ps - 1) (of_nat (sq * pages_per_pip ps + i))
      (taken_file ps (pip_page_no ps sq) page' (of_nat (sq * pages_per_pip ps + i)) file) file'"
proof -
  let ?per = "pages_per_pip ps" and ?pp = "pip_page_no ps sq"
  have ty: "page ! 0 = page_type_byte PageInventory" using inventory_pip [OF ok sq(2,1)] pip(1) by (metis option.inject)
  have ps: "64 \<le> ps" "img_page_size file = ps" "\<forall>p \<in> set (img_pages file). length p = ps"
    using ok by (auto simp: inventory_ok_def)
  have len: "length page = ps" using ps(3) pip(1) by (auto simp: img_page_def split: if_splits)
  have scn_pos: "(pages_per_scn ps = 0) = False" using per_pip_bound [OF ps(1)] by auto
  obtain d where d: "decode_pip page = Ret (Some d)" "pip_min d = mn"
    using decode_pip_page [of page] len ps(1) ty pip(2) by auto
  have i: "i < ?per" "free_bit page i" using find_free_spec(1) [OF found] by simp_all
  obtain page' where page': "take_bit_of i page = Ret page'" "length page' = ps"
    using take_bit_of_spec [of i page] bits_inside [OF i(1)] len by auto
  define n where "n = (of_nat (sq * ?per + i) :: u32)"
  define file2 where "file2 = taken_file ps ?pp page' n file"
  note two = taken_file_pages [OF ps pip(1) page'(2), where n = n, folded file2_def]
  obtain q where q: "img_page file2 n = Some q" "length q = ps"
    using two(2,4) by (auto simp: img_page_def split: if_splits)
  obtain bs where bs: "format_scn n (of_nat (unat n div pages_per_scn ps)) q = Ret bs" "length bs = ps"
    "bs ! 0 = page_type_byte ScnInventory"
    using format_scn_ok ps(1) q(2) by metis
  obtain fs where fs: "format_pip n q = Ret fs" "fresh_bytes ps fs" using format_pip_ok [of q n] ps(1) q(2) by auto
  let ?scn = "n \<noteq> 0 \<and> unat n mod pages_per_scn ps = 0"
  have home: "i = ?per - 1 \<Longrightarrow> \<not> ?scn" using home_no_scn [OF ok sq(1)] by (simp add: n_def)
  define file3 where "file3 = (if ?scn then set_page n bs file2 else if i = ?per - 1 then set_page n fs file2 else file2)"
  have "alloc_turn ps file sq =
      (if ?scn then attempt (edit_page n (Msg ''SCN page out of range'') (format_scn n (of_nat (unat n div pages_per_scn ps))) file2)
           (\<lambda>file3. Ret (Inr (Again file3 sq)))
       else if i = ?per - 1 then attempt (edit_page n (Msg ''PIP page out of range'') (format_pip n) file2)
           (\<lambda>file3. Ret (Inr (Again file3 (sq + 1))))
       else Ret (Inr (Allocated n file2)))"
    by (simp only: alloc_turn_def page_at_def Let_def pip(1) d option.case option.map Option.bind.simps found
        edit_page_def page'(1) attempt_simps n_def [symmetric] file2_def taken_file_def scn_pos simp_thms if_False)
  moreover have "edit_page n (Msg ''SCN page out of range'') (format_scn n (of_nat (unat n div pages_per_scn ps))) file2 =
      Ret (Inr (set_page n bs file2))"
    "edit_page n (Msg ''PIP page out of range'') (format_pip n) file2 = Ret (Inr (set_page n fs file2))"
    using q(1) bs(1) fs(1) by (simp_all add: edit_page_def)
  ultimately have "alloc_turn ps file sq = Ret (Inr (turn_result ps sq i file3))"
    by (simp only: attempt_simps file3_def turn_result_def n_def [symmetric] Let_def)
      (cases ?scn; cases "i = ?per - 1", simp_all only: simp_thms if_True if_False)
  moreover have "page_taken ps (i = ?per - 1) n file2 file3"
    using bs(2,3) fs(2) home by (auto simp: page_taken_def file3_def)
  ultimately show ?thesis using page'(1) unfolding n_def file2_def by blast
qed

lemma alloc_turn_spent:
  assumes ok: "inventory_ok ps file k" and sq: "sq < k" "minted ps file sq" and none: "\<forall>i. \<not> pip_free ps file sq i"
  shows "alloc_turn ps file sq = Ret (Inr (Again file (sq + 1)))" "minted ps file (Suc sq)"
proof -
  have k: "sq \<le> k" "k \<le> 2 ^ 20" "64 \<le> ps" using ok sq by (auto simp: inventory_ok_def)
  obtain page where pip: "img_page file (pip_page_no ps sq) = Some page" "page ! 0 = page_type_byte PageInventory"
    by (rule inventory_pip [OF ok sq(2) k(1)])
  have "64 \<le> length page" using ok pip(1) by (auto simp: inventory_ok_def img_page_def split: if_splits)
  then obtain d where d: "decode_pip page = Ret (Some d)" using decode_pip_page pip(2) by blast
  have "find_free page (pages_per_pip ps) (unat (pip_min d)) = None"
    using none pip(1) sq(2) find_free_spec(1) [where page = page and per = "pages_per_pip ps" and mn = "unat (pip_min d)"]
    unfolding pip_free_def pip_bit_def by (metis not_Some_eq option.simps(5))
  then show "alloc_turn ps file sq = Ret (Inr (Again file (sq + 1)))"
    using pip(1) d sq k(2) by (simp add: alloc_turn_def page_at_def Let_def)
  have "pages_per_pip ps - 1 < pages_per_pip ps" using per_pip_bound [OF k(3)] by simp
  then show "minted ps file (Suc sq)" using none sq(2) by (auto simp: pip_free_def)
qed

subsection \<open>The search\<close>

text \<open>May the page be handed out? It is no SCN page and not the home of an inventory page.\<close>

definition allocatable :: "nat \<Rightarrow> u32 \<Rightarrow> bool" where
  "allocatable ps n \<longleftrightarrow> \<not> (n \<noteq> 0 \<and> unat n mod pages_per_scn ps = 0) \<and> unat n mod pages_per_pip ps \<noteq> pages_per_pip ps - 1"

text \<open>What a run of the search may do to the file.\<close>

definition alloc_safe :: "nat \<Rightarrow> nat \<Rightarrow> image \<Rightarrow> image \<Rightarrow> bool" where
  "alloc_safe ps k file file' \<longleftrightarrow> inventory_ok ps file' k \<and> keeps_types file file' \<and>
     (\<forall>sq \<le> k. \<forall>i. pip_free ps file' sq i \<longrightarrow> pip_free ps file sq i) \<and>
     (\<forall>m page. img_page file m = Some page \<longrightarrow> (\<forall>sq \<le> k. m \<noteq> pip_page_no ps sq) \<longrightarrow> \<not> page_free ps file m \<longrightarrow>
        unat m div pages_per_pip ps \<le> k \<longrightarrow> img_page file' m = Some page)"

lemma page_free_bit:
  assumes "inventory_ok ps file k" "sq \<le> k" "i < pages_per_pip ps"
  shows "page_free ps f (of_nat (sq * pages_per_pip ps + i)) = pip_free ps f sq i"
  using small_page_no(2) [OF assms] div_range [OF assms(3), of sq] by (simp add: page_free_def del: of_nat_add of_nat_mult)

lemma alloc_safe_trans:
  assumes "alloc_safe ps k a b" "alloc_safe ps k b c"
  shows "alloc_safe ps k a c"
proof -
  have "\<not> page_free ps b m" if "\<not> page_free ps a m" "unat m div pages_per_pip ps \<le> k" for m
    using that assms(1) unfolding alloc_safe_def page_free_def by blast
  moreover have "keeps_types a c" using assms unfolding alloc_safe_def keeps_types_def by metis
  ultimately show ?thesis using assms unfolding alloc_safe_def by meson
qed

text \<open>Of the pages that may be handed out, only the one handed out is no longer free.\<close>

definition takes_only :: "nat \<Rightarrow> nat \<Rightarrow> image \<Rightarrow> image \<Rightarrow> u32 \<Rightarrow> bool" where
  "takes_only ps k file file' n \<longleftrightarrow>
     (\<forall>m. unat m div pages_per_pip ps \<le> k \<longrightarrow> allocatable ps m \<longrightarrow> (page_free ps file' m \<longleftrightarrow> page_free ps file m \<and> m \<noteq> n))"

lemma takes_only_trans: "takes_only ps k a b n \<Longrightarrow> \<not> allocatable ps n \<Longrightarrow> takes_only ps k b c m \<Longrightarrow> takes_only ps k a c m"
  unfolding takes_only_def by metis

text \<open>A page that was free and may be handed out is not the home of an inventory page.\<close>

lemma free_is_no_inventory:
  assumes ok: "inventory_ok ps file k" and n: "page_free ps file n" "allocatable ps n" "unat n div pages_per_pip ps \<le> k"
  shows "\<forall>sq \<le> k. n \<noteq> pip_page_no ps sq"
proof (intro allI impI notI)
  let ?per = "pages_per_pip ps"
  fix sq assume sq: "sq \<le> k" "n = pip_page_no ps sq"
  let ?s = "unat n div ?per" and ?i = "unat n mod ?per"
  have "288 \<le> ?per" using per_pip_bound ok by (simp add: inventory_ok_def)
  then have i: "?i < ?per" by simp
  have "n = of_nat (?s * ?per + ?i)" by simp
  then have "sq = 0 \<and> ?s = 0 \<and> ?i = 1 \<or> sq = Suc ?s \<and> ?i = ?per - 1"
    using pip_home [OF ok n(3) sq(1) i] sq(2) by metis
  then show False using n(1,2) ok by (auto simp: page_free_def pip_free_def inventory_ok_def allocatable_def)
qed

text \<open>The whole effect of a turn that finds a bit.\<close>

definition turned :: "nat \<Rightarrow> nat \<Rightarrow> nat \<Rightarrow> nat \<Rightarrow> image \<Rightarrow> image \<Rightarrow> bool" where
  "turned ps k sq i file file' \<longleftrightarrow> alloc_safe ps k file file' \<and> takes_only ps k file file' (of_nat (sq * pages_per_pip ps + i)) \<and>
     (\<forall>sq' \<le> k. \<forall>j. pip_free ps file' sq' j \<longleftrightarrow> pip_free ps file sq' j \<and> \<not> (sq' = sq \<and> j = i)) \<and>
     (\<forall>s \<le> k. minted ps file' s \<longleftrightarrow> minted ps file s \<or> i = pages_per_pip ps - 1 \<and> s = Suc sq) \<and>
     sq * pages_per_pip ps + i < num_pages file'"

lemma turned_pages:
  assumes ok: "inventory_ok ps file k" and sq: "sq \<le> k" "minted ps file sq"
    and pip: "img_page file (pip_page_no ps sq) = Some page" and i: "i < pages_per_pip ps" "free_bit page i"
    and taken: "take_bit_of i page = Ret page'"
    and f3: "page_taken ps (i = pages_per_pip ps - 1) (of_nat (sq * pages_per_pip ps + i))
      (taken_file ps (pip_page_no ps sq) page' (of_nat (sq * pages_per_pip ps + i)) file) file'"
  shows "turned ps k sq i file file'"
proof -
  let ?per = "pages_per_pip ps"
  note tp = turn_pages [OF ok sq pip i taken f3]
  have fi: "pip_free ps file sq i" using pip i by (simp add: pip_free_def pip_bit_def)
  have u: "unat (of_nat (sq * ?per + i) :: u32) = sq * ?per + i" by (rule small_page_no(2) [OF ok sq(1) i(1)])
  have "alloc_safe ps k file file'"
    unfolding alloc_safe_def
  proof (intro conjI allI impI)
    fix m page
    assume m: "img_page file m = Some page" "\<forall>sq \<le> k. m \<noteq> pip_page_no ps sq" "\<not> page_free ps file m"
    then have "m \<noteq> of_nat (sq * ?per + i)" using page_free_bit [OF ok sq(1) i(1)] fi by metis
    then show "img_page file' m = Some page" using m(1,2) tp(2) sq(1) unfolding turn_keeps_def by blast
  qed (use tp(1,3,6) in auto)
  moreover have "takes_only ps k file file' (of_nat (sq * ?per + i))"
    unfolding takes_only_def
  proof (intro allI impI)
    fix m :: u32 assume m: "unat m div ?per \<le> k"
    have "unat m div ?per = sq \<and> unat m mod ?per = i \<longleftrightarrow> unat m = sq * ?per + i"
      using div_range [OF i(1), of sq] by (metis mult_div_mod_eq mult.commute)
    also have "\<dots> \<longleftrightarrow> m = of_nat (sq * ?per + i)" using u by (metis word_unat_eq_iff)
    finally show "page_free ps file' m \<longleftrightarrow> page_free ps file m \<and> m \<noteq> of_nat (sq * ?per + i)"
      using tp(3) m unfolding page_free_def by blast
  qed
  ultimately show ?thesis using tp(3,4,5) u by (auto simp: turned_def num_pages_def)
qed

text \<open>What the search promises of its answer.\<close>

definition handed_out :: "nat \<Rightarrow> nat \<Rightarrow> image \<Rightarrow> u32 \<Rightarrow> image \<Rightarrow> bool" where
  "handed_out ps k f n f' \<longleftrightarrow> alloc_safe ps k f f' \<and> page_free ps f n \<and> \<not> page_free ps f' n \<and> allocatable ps n \<and>
     unat n < num_pages f' \<and> unat n div pages_per_pip ps \<le> k \<and> takes_only ps k f f' n"

lemma handed_out_turn:
  assumes ok: "inventory_ok ps f k" and sq: "sq \<le> k" "i < pages_per_pip ps" and free: "pip_free ps f sq i"
    and t: "turned ps k sq i f f'" and alloc: "allocatable ps (of_nat (sq * pages_per_pip ps + i))"
  shows "handed_out ps k f (of_nat (sq * pages_per_pip ps + i)) f'"
  using t free alloc page_free_bit [OF ok sq] small_page_no(2) [OF ok sq] div_range [OF sq(2), of sq] sq(1)
  unfolding handed_out_def turned_def by (simp del: of_nat_add of_nat_mult)

lemma handed_out_later:
  assumes t: "turned ps k sq i f f'" and no: "\<not> allocatable ps (of_nat (sq * pages_per_pip ps + i))"
    and later: "handed_out ps k f' n f''"
  shows "handed_out ps k f n f''"
proof -
  have T: "alloc_safe ps k f f'" "takes_only ps k f f' (of_nat (sq * pages_per_pip ps + i))"
    "\<forall>sq' \<le> k. \<forall>j. pip_free ps f' sq' j \<longleftrightarrow> pip_free ps f sq' j \<and> \<not> (sq' = sq \<and> j = i)"
    using t unfolding turned_def by blast+
  have L: "alloc_safe ps k f' f''" "takes_only ps k f' f'' n" "page_free ps f' n" "unat n div pages_per_pip ps \<le> k"
    using later unfolding handed_out_def by blast+
  have "alloc_safe ps k f f''" by (rule alloc_safe_trans [OF T(1) L(1)])
  moreover have "takes_only ps k f f'' n" by (rule takes_only_trans [OF T(2) no L(2)])
  moreover have "page_free ps f n" using L(3) T(3) L(4) unfolding page_free_def by metis
  ultimately show ?thesis using later by (simp only: handed_out_def simp_thms)
qed

lemma turn_result_cases:
  assumes ok: "inventory_ok ps f k" and sq: "sq \<le> k" "i < pages_per_pip ps"
  shows "if allocatable ps (of_nat (sq * pages_per_pip ps + i)) then turn_result ps sq i f' = Allocated (of_nat (sq * pages_per_pip ps + i)) f'
    else turn_result ps sq i f' = Again f' (if i = pages_per_pip ps - 1 then sq + 1 else sq)"
  using small_page_no(2) [OF ok sq] div_range [OF sq(2), of sq] home_no_scn [OF ok sq(1)]
  by (auto simp: turn_result_def allocatable_def Let_def simp del: of_nat_add of_nat_mult of_nat_diff)

text \<open>A fresh inventory page: its first bit is an SCN page, its second is handed out.\<close>

lemma alloc_fresh:
  assumes ok: "inventory_ok ps f k" and sq: "0 < sq" "sq \<le> k" "minted ps f sq"
    and fresh: "img_page f (pip_page_no ps sq) = Some bs" "fresh_bytes ps bs"
  shows "\<exists>n f'. alloc_loop ps f sq = Ret (Inr (n, f')) \<and> handed_out ps k f n f'"
proof -
  let ?per = "pages_per_pip ps" and ?n = "\<lambda>i. of_nat (sq * pages_per_pip ps + i) :: u32"
  have ps: "64 \<le> ps" "4 dvd ps" using ok by (auto simp: inventory_ok_def)
  have per: "288 \<le> ?per" and scn: "9 \<le> pages_per_scn ps" using per_pip_bound [OF ps(1)] by simp_all
  have b: "length bs = ps" "u32_at bs 16 = Ret 0" "\<And>j. j < ?per \<Longrightarrow> free_bit bs j" using fresh(2) by (auto simp: fresh_bytes_def)
  have "find_free bs ?per (unat 0) = Some 0" using find_free_first [of 0 ?per bs] b(3) per by simp
  from alloc_turn_at [OF ok sq(2,3) fresh(1) b(2) this] obtain f1 p1 where
    1: "alloc_turn ps f sq = Ret (Inr (turn_result ps sq 0 f1))" "take_bit_of 0 bs = Ret p1"
    "page_taken ps (0 = ?per - 1) (?n 0) (taken_file ps (pip_page_no ps sq) p1 (?n 0) f) f1" by blast
  have i0: "0 < ?per" "free_bit bs 0" using per b(3) by simp_all
  have t1: "turned ps k sq 0 f f1" by (rule turned_pages [OF ok sq(2,3) fresh(1) i0 1(2,3)])
  have p1: "img_page f1 (pip_page_no ps sq) = Some p1" by (rule turn_pages(7) [OF ok sq(2,3) fresh(1) i0 1(2,3)])
  have p1': "u32_at p1 16 = Ret 1" "free_bit p1 1"
    using take_bit_of_spec [of 0 bs] bits_inside [OF i0(1)] b(1) 1(2) b(3) [of 1] per by auto
  have mod0: "(sq * ?per) mod pages_per_scn ps = 0" using per_scn_multiple [OF ps] by simp
  have no0: "\<not> allocatable ps (?n 0)"
    using mod0 small_page_no(2) [OF ok sq(2) i0(1)] sq(1) per
    by (auto simp: allocatable_def word_unat_eq_iff simp del: of_nat_add of_nat_mult)
  have ok1: "inventory_ok ps f1 k" using t1 by (simp add: turned_def alloc_safe_def)
  have m1: "minted ps f1 sq" using t1 sq by (simp add: turned_def)
  have "find_free p1 ?per (unat 1) = Some 1" using find_free_first [of 1 ?per p1] p1'(2) per by simp
  from alloc_turn_at [OF ok1 sq(2) m1 p1 p1'(1) this] obtain f2 p2 where
    2: "alloc_turn ps f1 sq = Ret (Inr (turn_result ps sq 1 f2))" "take_bit_of 1 p1 = Ret p2"
    "page_taken ps (1 = ?per - 1) (?n 1) (taken_file ps (pip_page_no ps sq) p2 (?n 1) f1) f2" by blast
  have i1: "1 < ?per" using per by simp
  have t2: "turned ps k sq 1 f1 f2" by (rule turned_pages [OF ok1 sq(2) m1 p1 i1 p1'(2) 2(2,3)])
  have al: "allocatable ps (?n 1)"
  proof -
    have "(sq * ?per + 1) mod pages_per_scn ps = 1"
      using div_range(2) [of 1 "pages_per_scn ps" "sq * 32"] per_scn_multiple [OF ps] scn by (simp add: mult.assoc)
    then show ?thesis using small_page_no(2) [OF ok sq(2) i1] div_range(2) [OF i1, of sq] per
      by (simp add: allocatable_def del: of_nat_add of_nat_mult)
  qed
  have "pip_free ps f1 sq 1" using p1 p1'(2) i1 by (simp add: pip_free_def pip_bit_def)
  then have h: "handed_out ps k f (?n 1) f2"
    using handed_out_later [OF t1 no0] handed_out_turn [OF ok1 sq(2) i1 _ t2 al] by blast
  have "alloc_loop ps f sq = alloc_loop ps f1 sq"
    using 1(1) turn_result_cases [OF ok sq(2) i0(1), of f1] no0 per by (subst alloc_loop.simps) simp
  also have "\<dots> = Ret (Inr (?n 1, f2))"
    using 2(1) turn_result_cases [OF ok1 sq(2) i1, of f2] al by (subst alloc_loop.simps) simp
  finally show ?thesis using h by blast
qed

text \<open>The search succeeds while a page that may be handed out is free below the range of inventory page k.\<close>

lemma alloc_loop_total:
  assumes "inventory_ok ps f k" "sq \<le> sq0" "sq0 < k" "minted ps f sq" "pip_free ps f sq0 j"
    "allocatable ps (of_nat (sq0 * pages_per_pip ps + j))"
  shows "\<exists>n f'. alloc_loop ps f sq = Ret (Inr (n, f')) \<and> handed_out ps k f n f'"
  using assms
proof (induction "(sq0 - sq) * (pages_per_pip ps + 1) + card {i. pip_free ps f sq i}" arbitrary: f sq rule: less_induct)
  case less
  let ?per = "pages_per_pip ps" and ?n = "\<lambda>i. of_nat (sq * pages_per_pip ps + i) :: u32"
  note ok = less.prems(1)
  have sq: "sq \<le> k" "sq < k" using less.prems(2,3) by simp_all
  have sub: "{i. pip_free ps g s i} \<subseteq> {..<?per}" for g s by (auto simp: pip_free_def)
  have card_le: "card {i. pip_free ps g s i} \<le> ?per" for g s
    using card_mono [OF _ sub] by simp
  show ?case
  proof (cases "\<exists>i. pip_free ps f sq i")
    case False
    then have none: "\<forall>i. \<not> pip_free ps f sq i" by blast
    then have "sq \<noteq> sq0" using less.prems(5) by auto
    then have lt: "sq < sq0" using less.prems(2) by auto
    note spent = alloc_turn_spent [OF ok sq(2) less.prems(4) none]
    have "(sq0 - sq) * (?per + 1) = (sq0 - (sq + 1)) * (?per + 1) + (?per + 1)"
      using lt by (metis Suc_diff_Suc Suc_eq_plus1 mult_Suc add.commute)
    then have "(sq0 - (sq + 1)) * (?per + 1) + card {i. pip_free ps f (sq + 1) i} <
        (sq0 - sq) * (?per + 1) + card {i. pip_free ps f sq i}"
      using card_le [of f "sq + 1"] by linarith
    moreover have "alloc_loop ps f sq = alloc_loop ps f (sq + 1)"
      using spent(1) by (subst alloc_loop.simps) simp
    ultimately show ?thesis using less.hyps [of "sq + 1" f] less.prems lt spent(2) by simp
  next
    case True
    obtain page where pip: "img_page f (pip_page_no ps sq) = Some page" "page ! 0 = page_type_byte PageInventory"
      by (rule inventory_pip [OF ok less.prems(4) sq(1)])
    have "64 \<le> length page" using ok pip(1) by (auto simp: inventory_ok_def img_page_def split: if_splits)
    then obtain mn where mn: "u32_at page 16 = Ret mn" using decode_pip_page pip(2) by blast
    obtain j' where "j' < ?per" "free_bit page j'"
      using True pip(1) less.prems(4) by (auto simp: pip_free_def pip_bit_def)
    then obtain i where found: "find_free page ?per (unat mn) = Some i"
      using find_free_spec(2) [where page = page and per = ?per and mn = "unat mn"] by blast
    have i: "i < ?per" "free_bit page i" using find_free_spec(1) [OF found] by simp_all
    obtain f' page' where t: "alloc_turn ps f sq = Ret (Inr (turn_result ps sq i f'))" "take_bit_of i page = Ret page'"
      "page_taken ps (i = ?per - 1) (?n i) (taken_file ps (pip_page_no ps sq) page' (?n i) f) f'"
      using alloc_turn_at [OF ok sq(1) less.prems(4) pip(1) mn found] by blast
    have turn: "turned ps k sq i f f'" by (rule turned_pages [OF ok sq(1) less.prems(4) pip(1) i t(2,3)])
    have fi: "pip_free ps f sq i" using pip(1) i by (simp add: pip_free_def pip_bit_def)
    note res = turn_result_cases [OF ok sq(1) i(1), of f']
    have ok': "inventory_ok ps f' k" using turn by (simp add: turned_def alloc_safe_def)
    show ?thesis
    proof (cases "allocatable ps (?n i)")
      case True
      then have "alloc_loop ps f sq = Ret (Inr (?n i, f'))" using t(1) res by (subst alloc_loop.simps) simp
      then show ?thesis using handed_out_turn [OF ok sq(1) i(1) fi turn True] by blast
    next
      case no: False
      show ?thesis
      proof (cases "i = ?per - 1")
        case True
        then have "alloc_loop ps f sq = alloc_loop ps f' (sq + 1)" using t(1) res no by (subst alloc_loop.simps) simp
        moreover obtain bs where "img_page f' (pip_page_no ps (Suc sq)) = Some bs" "fresh_bytes ps bs"
          using turn_pages(8) [OF ok sq(1) less.prems(4) pip(1) i t(2,3) True] by blast
        moreover have "minted ps f' (Suc sq)" using turn True sq(2) unfolding turned_def by (metis Suc_leI)
        ultimately show ?thesis
          using alloc_fresh [OF ok', of "Suc sq"] sq(2) handed_out_later [OF turn no] by auto
      next
        case False
        then have next_: "alloc_loop ps f sq = alloc_loop ps f' sq" using t(1) res no by (subst alloc_loop.simps) simp
        have "\<not> (sq0 = sq \<and> j = i)" using no less.prems(6) by auto
        then have j: "pip_free ps f' sq0 j" using turn less.prems(3,5) by (simp add: turned_def)
        have m: "minted ps f' sq" using turn less.prems(4) sq(1) by (simp add: turned_def)
        have "{x. pip_free ps f' sq x} \<subset> {x. pip_free ps f sq x}"
          using turn fi sq(1) by (auto simp: turned_def)
        then have "card {x. pip_free ps f' sq x} < card {x. pip_free ps f sq x}"
          using finite_subset [OF sub] by (intro psubset_card_mono) auto
        then have "(sq0 - sq) * (?per + 1) + card {x. pip_free ps f' sq x} < (sq0 - sq) * (?per + 1) + card {x. pip_free ps f sq x}"
          by simp
        from less.hyps [OF this ok' less.prems(2,3) m j less.prems(6)]
        obtain n f'' where "alloc_loop ps f' sq = Ret (Inr (n, f''))" "handed_out ps k f' n f''" by blast
        then show ?thesis using next_ handed_out_later [OF turn no] by auto
      qed
    qed
  qed
qed

text \<open>C22: Page allocation succeeds while a page that may be handed out is free: a page that an inventory page
  marks free, or any page beyond the inventory pages made so far, where allocation makes the next
  inventory page on its way. It is safe: the page answered was free, is not free afterwards, is no SCN
  page and no inventory page, and lies inside the (grown) file; no page becomes free; the inventory
  pages stay in place; and every page in use keeps its bytes, the inventory pages themselves apart.\<close>

theorem allocation_is_safe:
  assumes "inventory_ok ps file k" "sq0 < k" "pip_free ps file sq0 j"
    and "allocatable ps (of_nat (sq0 * pages_per_pip ps + j))"
  shows "\<exists>n file'. allocate_page ps file = Ret (Inr (n, file')) \<and> page_free ps file n \<and> \<not> page_free ps file' n \<and>
    (n \<noteq> 0 \<longrightarrow> unat n mod pages_per_scn ps \<noteq> 0) \<and> (\<forall>sq \<le> k. n \<noteq> pip_page_no ps sq) \<and>
    unat n < num_pages file' \<and> inventory_ok ps file' k \<and>
    (\<forall>m. unat m div pages_per_pip ps \<le> k \<longrightarrow> page_free ps file' m \<longrightarrow> page_free ps file m) \<and>
    (\<forall>m page. img_page file m = Some page \<and> \<not> page_free ps file m \<and> unat m div pages_per_pip ps \<le> k \<and>
       (\<forall>sq \<le> k. m \<noteq> pip_page_no ps sq) \<longrightarrow> img_page file' m = Some page)"
proof -
  obtain n file' where r: "alloc_loop ps file 0 = Ret (Inr (n, file'))" "handed_out ps k file n file'"
    using alloc_loop_total [OF assms(1) _ assms(2) _ assms(3,4), of 0] by auto
  have "\<forall>sq \<le> k. n \<noteq> pip_page_no ps sq"
    using r(2) by (intro free_is_no_inventory [OF assms(1)]) (auto simp: handed_out_def)
  then show ?thesis using r unfolding allocate_page_def handed_out_def alloc_safe_def allocatable_def
    by (intro exI [of _ n] exI [of _ file']) (auto simp: page_free_def)
qed

text \<open>A 128-byte page file whose first inventory page is used up but for its last bit, the home of the
  next one: allocation makes that page and hands out a page of its range.\<close>

definition demo_pip_file :: image where
  "demo_pip_file = from_bytes (replicate 128 0 @ [2] @ replicate 126 0 @ [128] @ [10] @ replicate 127 0) 128"

lemma demo_pip_ok: "inventory_ok 128 demo_pip_file 2" "pip_free 128 demo_pip_file 1 1" "\<not> pip_free 128 demo_pip_file 0 798"
proof -
  have page: "img_page demo_pip_file 1 = Some ([2] @ replicate 126 0 @ [128])"
    unfolding demo_pip_file_def by code_simp
  have no: "pip_page_no 128 0 = 1" by (simp add: pip_page_no_def)
  have per: "pages_per_pip 128 = 800" by (simp add: pages_per_pip_def PIP_BITS_OFFSET_def)
  have f: "pip_bit 128 demo_pip_file 0 i \<longleftrightarrow> free_bit ([2] @ replicate 126 0 @ [128]) i" for i
    using page no by (simp add: pip_bit_def)
  have "\<forall>p \<in> set (img_pages demo_pip_file). length p = 128" "img_page_size demo_pip_file = 128"
    unfolding demo_pip_file_def by code_simp+
  moreover have b: "\<not> pip_bit 128 demo_pip_file 0 1" "pip_bit 128 demo_pip_file 0 799" "\<not> pip_bit 128 demo_pip_file 0 798"
    unfolding f by code_simp+
  moreover have "\<not> minted 128 demo_pip_file (Suc 0)" "\<not> minted 128 demo_pip_file 2" using b(2) per by (simp_all add: numeral_2_eq_2)
  moreover have upto: "sq = 0 \<or> sq = 1 \<or> sq = 2" if "sq \<le> 2" for sq :: nat using that by linarith
  ultimately show "inventory_ok 128 demo_pip_file 2" "pip_free 128 demo_pip_file 1 1" "\<not> pip_free 128 demo_pip_file 0 798"
    using page no per by (auto simp: inventory_ok_def pip_free_def dest!: upto)
qed

theorem allocation_is_safe_witness:
  "\<exists>n file'. allocate_page 128 demo_pip_file = Ret (Inr (n, file')) \<and> page_free 128 demo_pip_file n \<and> \<not> page_free 128 file' n"
proof -
  have "pages_per_pip 128 = 800" "pages_per_scn 128 = 25"
    by (simp_all add: pages_per_pip_def pages_per_scn_def PIP_BITS_OFFSET_def)
  then have "allocatable 128 (of_nat (1 * pages_per_pip 128 + 1))" by (simp add: allocatable_def)
  moreover have "(1 :: nat) < 2" by simp
  ultimately show ?thesis using allocation_is_safe [OF demo_pip_ok(1) _ demo_pip_ok(2)] by blast
qed

subsection \<open>Releasing a page\<close>

lemma release_bits_spec:
  assumes "28 \<le> length page" "PIP_BITS_OFFSET + i div 8 < length page"
  shows "\<exists>page'. release_bits i page = Ret page' \<and> length page' = length page \<and>
    (\<forall>j. free_bit page' j \<longleftrightarrow> j = i \<or> free_bit page j)"
proof -
  let ?at = "PIP_BITS_OFFSET + i div 8"
  define b' where "b' = page ! ?at OR push_bit (i mod 8) 1"
  define p1 where "p1 = page[?at := b']"
  have len: "28 \<le> length p1" "length p1 = length page" using assms by (simp_all add: p1_def)
  have p1: "free_bit p1 j \<longleftrightarrow> j = i \<or> free_bit page j" for j
  proof -
    have "free_bit p1 j \<longleftrightarrow> (if j = i then True else free_bit page j)"
      unfolding p1_def b'_def using assms(2) by (intro free_bit_update) (auto simp: bit_raised simp del: push_bit_of_1)
    then show ?thesis by simp
  qed
  show ?thesis
  proof (cases "bit_set (page ! ?at) (i mod 8)")
    case True
    then have "free_bit page i" using assms(2) by (simp add: free_bit_def)
    then show ?thesis using True assms(2) by (auto simp: release_bits_def rs_index_def Let_def)
  next
    case False
    obtain x where x: "u32_at p1 20 = Ret x" using u_at_inside(2) [of 20 p1] len by auto
    define p2 where "p2 = (if b' = 255 \<and> of_nat (i - i mod 8) < x then splice p1 20 (u32_bytes (of_nat (i - i mod 8))) else p1)"
    have len2: "28 \<le> length p2" "length p2 = length page" using len by (simp_all add: p2_def)
    obtain mn where mn: "u32_at p2 16 = Ret mn" using u_at_inside(2) [of 16 p2] len2 by auto
    define p3 where "p3 = (if of_nat i < mn then splice p2 16 (u32_bytes (of_nat i)) else p2)"
    have ext: "(if b' = 255 then do { x \<leftarrow> u32_at p1 20; if of_nat (i - i mod 8) < x then put_u32 20 (of_nat (i - i mod 8)) p1 else Ret p1 }
        else Ret p1) = Ret p2"
      using x len by (simp add: p2_def put_u32_ok)
    have "release_bits i page = do {
        pip2 \<leftarrow> (if b' = 255 then do { x \<leftarrow> u32_at p1 20; if of_nat (i - i mod 8) < x then put_u32 20 (of_nat (i - i mod 8)) p1 else Ret p1 }
          else Ret p1);
        mn \<leftarrow> u32_at pip2 16;
        if of_nat i < mn then put_u32 16 (of_nat i) pip2 else Ret pip2 }"
      unfolding release_bits_def Let_def rs_index_def p1_def b'_def using assms(2) False by (simp only: if_True if_False Option.bind.simps)
    also have "\<dots> = Ret p3" unfolding ext using mn len2 by (simp add: put_u32_ok p3_def)
    finally have "release_bits i page = Ret p3" .
    moreover have "free_bit p3 j = free_bit p1 j" for j
      using len len2 by (simp add: p2_def p3_def free_bit_splice PIP_BITS_OFFSET_def)
    ultimately show ?thesis using p1 len2 by (auto simp: p3_def)
  qed
qed

text \<open>Releasing a page that may be handed out, governed by an inventory page that is there, succeeds and frees
  exactly that page: it is free afterwards, every other page is as free as before, and only the inventory page that
  owns it is written.\<close>

lemma release_frees_the_page:
  assumes ok: "inventory_ok ps file k" and k: "unat n div pages_per_pip ps \<le> k" "minted ps file (unat n div pages_per_pip ps)"
    and al: "allocatable ps n"
  shows "\<exists>file'. release_page ps n file = Ret (Inr file') \<and>
    (\<forall>m. unat m div pages_per_pip ps \<le> k \<longrightarrow> page_free ps file' m \<longleftrightarrow> m = n \<or> page_free ps file m) \<and>
    (\<forall>m. m \<noteq> pip_page_no ps (unat n div pages_per_pip ps) \<longrightarrow> img_page file' m = img_page file m)"
proof -
  let ?per = "pages_per_pip ps"
  define sq where "sq = unat n div ?per"
  define i where "i = unat n mod ?per"
  have ps: "64 \<le> ps" using ok by (simp add: inventory_ok_def)
  have per: "0 < ?per" using per_pip_bound [OF ps] by simp
  have sq: "sq \<le> k" "minted ps file sq" using k by (simp_all add: sq_def)
  have last: "i \<noteq> ?per - 1" using al by (simp add: allocatable_def i_def)
  obtain page where pip: "img_page file (pip_page_no ps sq) = Some page" by (rule inventory_pip [OF ok sq(2,1)])
  have len: "length page = ps" using ok pip by (auto simp: inventory_ok_def img_page_def split: if_splits)
  have i: "i < ?per" using per by (simp add: i_def)
  then obtain page' where p': "release_bits i page = Ret page'" "length page' = length page"
    "\<forall>j. free_bit page' j \<longleftrightarrow> j = i \<or> free_bit page j"
    using release_bits_spec [of page i] bits_inside [of i ps] len ps by auto
  let ?f = "set_page (pip_page_no ps sq) page' file"
  have r: "release_page ps n file = Ret (Inr ?f)"
    using per pip p'(1) by (simp add: release_page_def Let_def edit_page_def sq_def i_def)
  have bits: "pip_bit ps ?f s j \<longleftrightarrow> s = sq \<and> j = i \<or> pip_bit ps file s j" if s: "s \<le> k" for s j
  proof (cases "s = sq")
    case True
    then show ?thesis using pip p'(3) by (simp add: pip_bit_def page_set_page)
  next
    case False
    then have "pip_page_no ps s \<noteq> pip_page_no ps sq" using pip_page_no_inject [OF ok s sq(1)] by blast
    then show ?thesis using False by (simp add: pip_bit_def page_set_page)
  qed
  have made: "minted ps ?f s \<longleftrightarrow> minted ps file s" if "s \<le> k" for s
    using that
  proof (induction s)
    case (Suc s)
    then have s: "s \<le> k" and ih: "minted ps ?f s \<longleftrightarrow> minted ps file s" by simp_all
    have "pip_bit ps ?f s (?per - 1) \<longleftrightarrow> pip_bit ps file s (?per - 1)" using bits [OF s, of "?per - 1"] last by auto
    then show ?case by (simp only: minted.simps ih)
  qed simp
  have "page_free ps ?f m \<longleftrightarrow> m = n \<or> page_free ps file m" if m: "unat m div ?per \<le> k" for m
  proof -
    have "m = n \<longleftrightarrow> unat m div ?per = sq \<and> unat m mod ?per = i"
      unfolding sq_def i_def by (metis div_mult_mod_eq word_unat_eq_iff)
    then show ?thesis using bits [OF m] made [OF m] sq(2) i by (auto simp: page_free_def pip_free_def)
  qed
  then show ?thesis using r by (auto simp: page_set_page sq_def)
qed

end
