(* ===== verification/Dml_Layout.thy ===== *)
theory Dml_Layout
  imports Dml_Store Dml_Pages
begin

unbundle bit_operations_syntax

text \<open>
  A data page as the slots it holds. \<^verbatim>\<open>slots_of\<close> abstracts a page to its list of optional records;
  \<^verbatim>\<open>page_ok\<close> says that the directory and the bodies lie where they should and do not overlap. Laying a
  record down at a spot that fits is then the update of one slot, or one more slot, and no body on the
  page is disturbed. The two ways the code finds a spot - the first page with room, and the rewrite of a
  slot on its own page - always find one that fits.
\<close>

subsection \<open>The layout of a page\<close>

definition dir_of :: "byte list \<Rightarrow> nat \<Rightarrow> nat \<times> nat" where
  "dir_of page i = (case dir_entry page i of Some d \<Rightarrow> d | None \<Rightarrow> (0, 0))"

definition slot_of :: "byte list \<Rightarrow> nat \<Rightarrow> byte list option" where
  "slot_of page i = (let (off, len) = dir_of page i in if len = 0 then None else Some (take len (drop off page)))"

definition count_of :: "byte list \<Rightarrow> nat" where
  "count_of page = (case u16_at page 22 of Some c \<Rightarrow> unat c | None \<Rightarrow> 0)"

definition slots_of :: "byte list \<Rightarrow> byte list option list" where
  "slots_of page = map (slot_of page) [0..<count_of page]"

definition apart :: "nat \<times> nat \<Rightarrow> nat \<times> nat \<Rightarrow> bool" where
  "apart a b \<longleftrightarrow> fst a + snd a \<le> fst b \<or> fst b + snd b \<le> fst a"

definition page_ok :: "nat \<Rightarrow> byte list \<Rightarrow> bool" where
  "page_ok ps page \<longleftrightarrow> length page = ps \<and> ps \<le> 65536 \<and> 24 + 4 * count_of page \<le> ps \<and>
     (\<forall>i < count_of page. snd (dir_of page i) \<noteq> 0 \<longrightarrow>
        24 + 4 * count_of page \<le> fst (dir_of page i) \<and> fst (dir_of page i) + snd (dir_of page i) \<le> ps \<and>
        (\<forall>j < count_of page. j \<noteq> i \<longrightarrow> snd (dir_of page j) \<noteq> 0 \<longrightarrow> apart (dir_of page i) (dir_of page j)))"

text \<open>A spot for a body of \<^verbatim>\<open>n\<close> bytes on a page.\<close>

definition spot_fits :: "byte list \<Rightarrow> spot \<Rightarrow> nat \<Rightarrow> bool" where
  "spot_fits page sp n \<longleftrightarrow>
     (if spot_append sp then unat (spot_slot sp) = count_of page else unat (spot_slot sp) < count_of page) \<and>
     24 + 4 * (count_of page + (if spot_append sp then 1 else 0)) \<le> spot_offset sp \<and> spot_offset sp + n \<le> length page \<and>
     (\<forall>i < count_of page. i \<noteq> unat (spot_slot sp) \<longrightarrow> snd (dir_of page i) \<noteq> 0 \<longrightarrow>
        apart (spot_offset sp, n) (dir_of page i)) \<and>
     (spot_append sp \<longrightarrow> (\<forall>i < count_of page. snd (dir_of page i) \<noteq> 0 \<longrightarrow> 24 + 4 * (count_of page + 1) \<le> fst (dir_of page i)))"

lemma put_u16_ok: "at + 2 \<le> length page \<Longrightarrow> put_u16 at v page = Ret (splice page at (u16_bytes v))"
  by (simp add: put_u16_def copy_at_def)

lemma u16_at_val: "at + 2 \<le> length page \<Longrightarrow> u16_at page at = Ret (of_nat (le_nat (take 2 (drop at page))))"
  by (simp add: u16_at_def rs_slice_def get_range_def)

lemma unat_of_nat_16: "n < 65536 \<Longrightarrow> unat (of_nat n :: u16) = n"
  by (simp add: unat_of_nat)

lemma count_of_lt: "count_of page < 65536"
  using unsigned_less [where ?'a = nat and ?'b = 16] by (auto simp: count_of_def split: option.split)

lemma dir_entry_dir_of:
  "24 + 4 * i + 4 \<le> length page \<Longrightarrow> dir_entry page i = Ret (dir_of page i)"
  by (simp add: dir_of_def dir_entry_def DPG_RPT_OFFSET_def Let_def u16_at_val)

lemma dir_of_eq:
  assumes "u16_at p (24 + i * 4) = u16_at q (24 + j * 4)" "u16_at p (24 + i * 4 + 2) = u16_at q (24 + j * 4 + 2)"
  shows "dir_of p i = dir_of q j"
  using assms by (simp add: dir_of_def dir_entry_def DPG_RPT_OFFSET_def Let_def)

text \<open>The edited page in full.\<close>

definition laid_down :: "spot \<Rightarrow> byte list \<Rightarrow> byte list \<Rightarrow> byte list" where
  "laid_down sp rc page =
     (let dir = 24 + unat (spot_slot sp) * 4;
          p = splice (splice (splice page (spot_offset sp) rc) dir (u16_bytes (of_nat (spot_offset sp))))
                (dir + 2) (u16_bytes (of_nat (length rc)))
      in if spot_append sp then splice p 22 (u16_bytes (of_nat (count_of page + 1))) else p)"

lemma lay_down_laid:
  assumes ok: "page_ok ps page" and fits: "spot_fits page sp (length rc)" and rc: "rc \<noteq> []"
  shows "lay_down sp rc page = Ret (laid_down sp rc page)"
    and "length (laid_down sp rc page) = ps"
    and "count_of (laid_down sp rc page) = count_of page + (if spot_append sp then 1 else 0)"
    and "dir_of (laid_down sp rc page) (unat (spot_slot sp)) = (spot_offset sp, length rc)"
    and "i < count_of page \<Longrightarrow> i \<noteq> unat (spot_slot sp) \<Longrightarrow> dir_of (laid_down sp rc page) i = dir_of page i"
    and "24 + 4 * (count_of page + (if spot_append sp then 1 else 0)) \<le> a \<Longrightarrow> apart (spot_offset sp, length rc) (a, n) \<Longrightarrow>
        take n (drop a (laid_down sp rc page)) = take n (drop a page)"
    and "take (length rc) (drop (spot_offset sp) (laid_down sp rc page)) = rc"
    and "take 22 (laid_down sp rc page) = take 22 page"
proof -
  let ?c = "count_of page" and ?s = "unat (spot_slot sp)" and ?o = "spot_offset sp" and ?n = "length rc"
  let ?dir = "24 + ?s * 4"
  let ?top = "24 + 4 * (?c + (if spot_append sp then 1 else 0))"
  have len: "length page = ps" "ps \<le> 65536" "24 + 4 * ?c \<le> ps" using ok by (simp_all add: page_ok_def)
  have top: "?top \<le> ?o" "?o + ?n \<le> ps" using fits len by (simp_all add: spot_fits_def)
  have s: "?s \<le> ?c" "\<not> spot_append sp \<Longrightarrow> ?s < ?c" "spot_append sp \<Longrightarrow> ?s = ?c"
    using fits by (auto simp: spot_fits_def split: if_splits)
  have dir: "?dir + 4 \<le> ?top" using s by auto
  have n: "0 < ?n" using rc by simp
  have small: "?o < 65536" "?n < 65536" using top len(2) n dir by linarith+
  define p1 where "p1 = splice page ?o rc"
  define p2 where "p2 = splice p1 ?dir (u16_bytes (of_nat ?o))"
  define p3 where "p3 = splice p2 (?dir + 2) (u16_bytes (of_nat ?n))"
  have l: "length p1 = ps" "length p2 = ps" "length p3 = ps"
    using len top dir by (simp_all add: p1_def p2_def p3_def)
  have laid: "laid_down sp rc page = (if spot_append sp then splice p3 22 (u16_bytes (of_nat (?c + 1))) else p3)"
    by (simp add: laid_down_def Let_def p1_def p2_def p3_def)
  have c0: "u16_at page 22 = Ret (of_nat ?c)"
    using len by (simp add: count_of_def u16_at_val)
  have c3: "u16_at p3 22 = Ret (of_nat ?c)"
    using c0 len l top dir by (simp add: p1_def p2_def p3_def u_at_splice_other)
  have cmax: "spot_append sp \<Longrightarrow> (of_nat ?c :: u16) \<noteq> - 1"
  proof
    assume a: "spot_append sp" "(of_nat ?c :: u16) = - 1"
    have "?c < 65535" using a(1) top len(2) n by simp
    then have "unat (of_nat ?c :: u16) \<noteq> 65535" by (simp add: unat_of_nat_16)
    moreover have "unat (- 1 :: u16) = 65535" by (simp add: unsigned_minus_1_eq_mask mask_eq_exp_minus_1)
    ultimately show False using a(2) by simp
  qed
  have "lay_down sp rc page = do {
      page2 \<leftarrow> put_u16 ?dir (of_nat ?o) p1;
      page3 \<leftarrow> put_u16 (?dir + 2) (of_nat ?n) page2;
      if spot_append sp then do { c \<leftarrow> u16_at page3 22; if c = - 1 then Panic else put_u16 22 (c + 1) page3 } else Ret page3 }"
    using top len by (simp add: lay_down_def copy_at_def DPG_RPT_OFFSET_def Let_def p1_def)
  also have "\<dots> = (if spot_append sp then do { c \<leftarrow> u16_at p3 22; if c = - 1 then Panic else put_u16 22 (c + 1) p3 } else Ret p3)"
  proof -
    have "put_u16 ?dir (of_nat ?o) p1 = Ret p2" "put_u16 (?dir + 2) (of_nat ?n) p2 = Ret p3"
      unfolding p2_def p3_def by (rule put_u16_ok; use l top dir in \<open>simp add: p2_def\<close>)+
    then show ?thesis by (simp only: Option.bind.simps)
  qed
  also have "\<dots> = Ret (laid_down sp rc page)"
    using c3 cmax l len by (simp add: laid put_u16_ok add.commute)
  finally show "lay_down sp rc page = Ret (laid_down sp rc page)" .
  show "length (laid_down sp rc page) = ps" using l len by (simp add: laid)
  show "count_of (laid_down sp rc page) = ?c + (if spot_append sp then 1 else 0)"
  proof (cases "spot_append sp")
    case True
    then have "?c + 1 < 65536" using top len(2) by simp
    then have "unat (of_nat (?c + 1) :: u16) = ?c + 1" by (rule unat_of_nat_16)
    then show ?thesis using True l len by (simp only: laid count_of_def if_True) (simp add: u16_at_splice)
  next
    case False
    then show ?thesis using c3 by (simp add: laid count_of_def unat_of_nat_16 [OF count_of_lt [of page, unfolded count_of_def]])
  qed
  have u: "u16_at (laid_down sp rc page) k = u16_at p3 k" if "24 \<le> k" for k
    using that l len by (simp add: laid u_at_splice_other)
  have "u16_at p3 (?dir + 2) = Ret (of_nat ?n)" "u16_at p3 ?dir = Ret (of_nat ?o)"
    using l top dir by (simp_all add: p3_def u16_at_splice u_at_splice_other) (simp add: p2_def u16_at_splice)
  then show "dir_of (laid_down sp rc page) ?s = (?o, ?n)"
    using small by (simp add: dir_of_def dir_entry_def DPG_RPT_OFFSET_def Let_def u unat_of_nat_16)
  show "dir_of (laid_down sp rc page) i = dir_of page i" if i: "i < ?c" "i \<noteq> ?s"
  proof (rule dir_of_eq)
    have k: "u16_at p3 k = u16_at page k" if "k + 2 \<le> ?dir \<or> ?dir + 4 \<le> k" "k + 2 \<le> ?top" for k
    proof -
      have "u16_at p3 k = u16_at p2 k" unfolding p3_def using that l dir top by (intro u_at_splice_other) auto
      also have "\<dots> = u16_at p1 k" unfolding p2_def using that l dir top by (intro u_at_splice_other) auto
      also have "\<dots> = u16_at page k" unfolding p1_def using that len dir top by (intro u_at_splice_other) auto
      finally show ?thesis .
    qed
    have "24 + i * 4 + 4 \<le> ?dir \<or> ?dir + 4 \<le> 24 + i * 4" "24 + i * 4 + 4 \<le> ?top" using i by auto
    then show "u16_at (laid_down sp rc page) (24 + i * 4) = u16_at page (24 + i * 4)"
      "u16_at (laid_down sp rc page) (24 + i * 4 + 2) = u16_at page (24 + i * 4 + 2)"
      by (auto simp: u intro!: k)
  qed
  have w: "take m (drop a (laid_down sp rc page)) = take m (drop a p1)" if "?top \<le> a" for a m
  proof -
    have "take m (drop a (laid_down sp rc page)) = take m (drop a p3)"
      using that l len by (simp add: laid splice_outside)
    also have "\<dots> = take m (drop a p1)"
      using that l dir top by (simp add: p3_def p2_def splice_outside)
    finally show ?thesis .
  qed
  show "take n (drop a (laid_down sp rc page)) = take n (drop a page)"
    if "?top \<le> a" "apart (?o, ?n) (a, n)" for a n
    using w [OF that(1), of n] that(2) top len by (auto simp: p1_def splice_outside apart_def)
  show "take ?n (drop ?o (laid_down sp rc page)) = rc"
    using w [OF top(1), of ?n] top len by (simp add: p1_def splice_window)
  show "take 22 (laid_down sp rc page) = take 22 page"
  proof -
    have h: "take 22 (splice xs at ys) = take 22 xs" if "22 \<le> at" "at + length ys \<le> length xs" for xs ys :: "byte list" and at
      using splice_outside [of at ys xs 0 22] that by simp
    have "take 22 (laid_down sp rc page) = take 22 p3" using l len by (simp add: laid h)
    also have "\<dots> = take 22 p2" unfolding p3_def using l dir top by (intro h) auto
    also have "\<dots> = take 22 p1" unfolding p2_def using l dir top by (intro h) auto
    also have "\<dots> = take 22 page" unfolding p1_def using len dir top by (intro h) auto
    finally show ?thesis .
  qed
qed

text \<open>The refinement: one slot is replaced, or one more is appended.\<close>

definition slots_with :: "spot \<Rightarrow> byte list \<Rightarrow> byte list option list \<Rightarrow> byte list option list" where
  "slots_with sp rc slots = (if spot_append sp then slots @ [Some rc] else slots[unat (spot_slot sp) := Some rc])"

lemma laid_down_ok:
  assumes ok: "page_ok ps page" and fits: "spot_fits page sp (length rc)" and rc: "rc \<noteq> []"
  shows "page_ok ps (laid_down sp rc page)"
    and "slots_of (laid_down sp rc page) = slots_with sp rc (slots_of page)"
proof -
  note ld = lay_down_laid [OF assms]
  let ?p = "laid_down sp rc page" and ?c = "count_of page" and ?s = "unat (spot_slot sp)"
  have n: "0 < length rc" using rc by simp
  have len: "length page = ps" "ps \<le> 65536" "24 + 4 * ?c \<le> ps" using ok by (simp_all add: page_ok_def)
  have top: "24 + 4 * (?c + (if spot_append sp then 1 else 0)) \<le> spot_offset sp" "spot_offset sp + length rc \<le> ps"
    using fits len by (simp_all add: spot_fits_def)
  have s: "?s < count_of ?p" "\<And>i. i < count_of ?p \<Longrightarrow> i \<noteq> ?s \<Longrightarrow> i < ?c"
    using fits by (auto simp: spot_fits_def ld(3) split: if_splits)
  have old: "count_of ?p * 4 + 24 \<le> fst (dir_of page i)" "fst (dir_of page i) + snd (dir_of page i) \<le> ps"
      "apart (spot_offset sp, length rc) (dir_of page i)"
    if "i < ?c" "i \<noteq> ?s" "snd (dir_of page i) \<noteq> 0" for i
    using that ok fits by (auto simp: page_ok_def spot_fits_def ld(3))
  have sym: "apart x y \<longleftrightarrow> apart y x" for x y by (auto simp: apart_def)
  show "page_ok ps ?p"
    unfolding page_ok_def
  proof (intro conjI allI impI)
    show "24 + 4 * count_of ?p \<le> ps" using top by (simp add: ld(3))
    fix i assume i: "i < count_of ?p" "snd (dir_of ?p i) \<noteq> 0"
    show "24 + 4 * count_of ?p \<le> fst (dir_of ?p i)" "fst (dir_of ?p i) + snd (dir_of ?p i) \<le> ps"
      using i s(2) [of i] old [of i] top by (cases "i = ?s"; auto simp: ld(3-5))+
    fix j assume j: "j < count_of ?p" "j \<noteq> i" "snd (dir_of ?p j) \<noteq> 0"
    show "apart (dir_of ?p i) (dir_of ?p j)"
    proof (cases "i = ?s \<or> j = ?s")
      case True
      then show ?thesis using i j s(2) [of i] s(2) [of j] old(3) [of i] old(3) [of j]
          sym [of "(spot_offset sp, length rc)" "dir_of page i"] by (auto simp: ld(4,5))
    next
      case False
      then show ?thesis using i j s(2) [of i] s(2) [of j] ok by (simp add: ld(5) page_ok_def)
    qed
  qed (use ld(2) len in simp_all)
  have new: "slot_of ?p ?s = Some rc" using n by (simp add: slot_of_def ld(4,7))
  have same: "slot_of ?p i = slot_of page i" if i: "i < ?c" "i \<noteq> ?s" for i
  proof (cases "snd (dir_of page i) = 0")
    case True
    then show ?thesis by (cases "dir_of page i") (simp add: slot_of_def ld(5) [OF i])
  next
    case False
    then show ?thesis
      using ld(6) [of "fst (dir_of page i)" "snd (dir_of page i)"] old [OF i]
      by (cases "dir_of page i") (simp add: slot_of_def ld(5) [OF i] ld(3))
  qed
  show "slots_of ?p = slots_with sp rc (slots_of page)"
  proof (cases "spot_append sp")
    case True
    then have "?s = ?c" using fits by (simp add: spot_fits_def)
    then show ?thesis using True new same by (simp add: slots_of_def slots_with_def ld(3))
  next
    case False
    then show ?thesis using new same fits
      by (auto simp: slots_of_def slots_with_def ld(3) spot_fits_def nth_list_update intro!: nth_equalityI)
  qed
qed

subsection \<open>Spots found\<close>

lemma dir_entry_ok: "page_ok ps page \<Longrightarrow> i < count_of page \<Longrightarrow> dir_entry page i = Ret (dir_of page i)"
  by (rule dir_entry_dir_of) (simp add: page_ok_def)

lemma scan_slots_spec:
  assumes "page_ok ps page" "set is \<subseteq> {..<count_of page}"
  shows "\<exists>b r'. scan_slots page is (bottom, r) = Ret (b, r') \<and> b \<le> bottom \<and>
    (\<forall>i \<in> set is. snd (dir_of page i) \<noteq> 0 \<longrightarrow> b \<le> fst (dir_of page i)) \<and>
    (b = bottom \<or> (\<exists>i \<in> set is. snd (dir_of page i) \<noteq> 0 \<and> b = fst (dir_of page i))) \<and>
    (r' = r \<or> (r = None \<and> (\<exists>i \<in> set is. r' = Some i \<and> snd (dir_of page i) = 0)))"
  using assms(2)
proof (induction "is" arbitrary: bottom r)
  case (Cons i "is")
  obtain off len where d: "dir_of page i = (off, len)" by fastforce
  have e: "dir_entry page i = Ret (off, len)" using dir_entry_ok [OF assms(1)] Cons.prems d by simp
  define acc where "acc = (if len = 0 then (bottom, if r = None then Some i else r) else (if off < bottom then off else bottom, r))"
  obtain bottom' r0 where acc: "acc = (bottom', r0)" by fastforce
  obtain b r' where IH: "scan_slots page is (bottom', r0) = Ret (b, r')" "b \<le> bottom'"
    "\<forall>i \<in> set is. snd (dir_of page i) \<noteq> 0 \<longrightarrow> b \<le> fst (dir_of page i)"
    "b = bottom' \<or> (\<exists>i \<in> set is. snd (dir_of page i) \<noteq> 0 \<and> b = fst (dir_of page i))"
    "r' = r0 \<or> (r0 = None \<and> (\<exists>i \<in> set is. r' = Some i \<and> snd (dir_of page i) = 0))"
    using Cons.IH [of bottom' r0] Cons.prems by auto
  have "scan_slots page (i # is) (bottom, r) = Ret (b, r')"
    using IH(1) acc e by (simp add: acc_def)
  then show ?case
    using IH(2-5) acc d by (intro exI [of _ b] exI [of _ r']) (auto simp: acc_def split: if_splits)
qed simp

lemma align_down_le: "align_down n \<le> n"
  by (simp add: align_down_def)

lemma align_down_mono: "m mod 4 = 0 \<Longrightarrow> m \<le> n \<Longrightarrow> m \<le> align_down n"
  unfolding align_down_def by (metis div_le_mono mod_0_imp_dvd dvd_div_mult_self mult_le_mono1)

lemma align_up_ge: "n \<le> align_up n" "align_up n mod 4 = 0"
  unfolding align_up_def align_down_def by linarith (simp only: mod_mult_self2_is_0)

text \<open>Room above the directory and below every body in use.\<close>

lemma fits_below:
  assumes ok: "page_ok ps page" and n: "0 < n" and room: "24 + 4 * (count_of page + (if ap then 1 else 0)) + align_up n \<le> bottom"
    and b: "bottom \<le> ps" "\<And>i. i < count_of page \<Longrightarrow> i \<noteq> unat sl \<Longrightarrow> snd (dir_of page i) \<noteq> 0 \<Longrightarrow> bottom \<le> fst (dir_of page i)"
    and sl: "if ap then unat sl = count_of page else unat sl < count_of page"
  shows "spot_fits page \<lparr>spot_page = p, spot_slot = sl, spot_append = ap, spot_offset = align_down (bottom - align_up n)\<rparr> n"
proof -
  let ?o = "align_down (bottom - align_up n)"
  let ?top = "24 + 4 * (count_of page + (if ap then 1 else 0))"
  have len: "length page = ps" using ok by (simp add: page_ok_def)
  have "?top mod 4 = 0" by simp
  then have o: "?top \<le> ?o" using room by (intro align_down_mono) auto
  have e: "?o + n \<le> bottom" using align_down_le [of "bottom - align_up n"] align_up_ge(1) [of n] room by linarith
  have "apart (?o, n) (dir_of page i)" if "i < count_of page" "i \<noteq> unat sl" "snd (dir_of page i) \<noteq> 0" for i
    using b(2) [OF that] e by (simp add: apart_def)
  moreover have "24 + 4 * (count_of page + 1) \<le> fst (dir_of page i)" if "ap" "i < count_of page" "snd (dir_of page i) \<noteq> 0" for i
    using b(2) [OF that(2) _ that(3)] sl that room by auto
  ultimately show ?thesis using o e b(1) len sl by (auto simp: spot_fits_def)
qed

end
