(* ===== verification/Dml_Records.thy ===== *)
theory Dml_Records
  imports Dml_Layout
begin

unbundle bit_operations_syntax

text \<open>
  The database file as a map from record addresses (page and line) to stored records. \<^verbatim>\<open>file_ok\<close> says
  that every data page is laid out well; \<^verbatim>\<open>record_at\<close> is the map, and agrees with what the reader
  decodes. Writing at a spot is then the update of the map at one address, the rewrite of a record at its
  own address likewise.
\<close>

subsection \<open>The map of records\<close>

definition is_data :: "byte list \<Rightarrow> bool" where
  "is_data page \<longleftrightarrow> page \<noteq> [] \<and> page ! 0 = page_type_byte Data"

definition file_ok :: "nat \<Rightarrow> image \<Rightarrow> bool" where
  "file_ok ps file \<longleftrightarrow> img_page_size file = ps \<and> 64 \<le> ps \<and> length (img_pages file) \<le> 2 ^ 32 \<and>
     (\<forall>page. img_page file 0 = Some page \<longrightarrow> \<not> is_data page) \<and>
     (\<forall>page \<in> set (img_pages file). length page = ps \<and> (is_data page \<longrightarrow> page_ok ps page))"

definition record_at :: "image \<Rightarrow> u32 \<times> u16 \<Rightarrow> byte list option" where
  "record_at file a =
     (case img_page file (fst a) of
        None \<Rightarrow> None
      | Some page \<Rightarrow> if is_data page \<and> unat (snd a) < count_of page then slot_of page (unat (snd a)) else None)"

lemma file_ok_page:
  assumes "file_ok ps file" "img_page file p = Some page"
  shows "length page = ps" "64 \<le> ps" "is_data page \<Longrightarrow> page_ok ps page" "page \<noteq> []"
proof -
  have "page \<in> set (img_pages file)" using assms(2) by (auto simp: img_page_def split: if_splits)
  then show "length page = ps" "64 \<le> ps" "is_data page \<Longrightarrow> page_ok ps page" using assms(1) by (auto simp: file_ok_def)
  then show "page \<noteq> []" by auto
qed

text \<open>What the reader decodes.\<close>

definition decode_record :: "u16 \<Rightarrow> byte list \<Rightarrow> record_header option run" where
  "decode_record i r =
     (if length r < RHD_DATA_OFFSET then Ret None
      else do {
        fl \<leftarrow> u16_at r 10;
        if has_flag fl REC_BLOB then Ret (Some (blob_header i fl))
        else do {
          (transaction, data_at) \<leftarrow> tranum r fl;
          if length r < data_at then Ret None
          else do {
            back_page \<leftarrow> u32_at r 4;
            back_line \<leftarrow> u16_at r 8;
            format \<leftarrow> rs_index r 12;
            packed \<leftarrow> rs_slice_from r data_at;
            frag \<leftarrow> (if has_flag fl REC_INCOMPLETE
                    then do { p \<leftarrow> u32_at r RHDF_F_PAGE_OFFSET; l \<leftarrow> u16_at r RHDF_F_LINE_OFFSET; Ret (Some (p, l)) }
                    else Ret None);
            Ret (Some \<lparr>rh_slot = i, rh_transaction = transaction, rh_back_page = back_page,
                       rh_back_line = back_line, rh_flags = fl, rh_format = format, rh_packed = packed, rh_frag = frag\<rparr>)
          }
        }
      })"

lemma dp_record_decode:
  "dp_record dp i = do { s \<leftarrow> slot_bytes dp i; case s of None \<Rightarrow> Ret None | Some r \<Rightarrow> decode_record i r }"
  unfolding dp_record_def decode_record_def by (rule refl)

lemma decode_data_page:
  assumes "24 \<le> length page"
  shows "\<exists>d. decode_data page = Ret (if is_data page then Some d else None) \<and> dp_page d = page \<and>
    unat (dp_count d) = count_of page"
proof -
  obtain c where c: "u16_at page 22 = Ret c" using u_at_inside(1) [of 22 page] assms by auto
  obtain sq rel where "u32_at page 16 = Ret sq" "u16_at page 20 = Ret rel"
    using u_at_inside(2) [of 16 page] u_at_inside(1) [of 20 page] assms by auto
  moreover obtain h where "decode_page_header page = Ret h" using decode_page_header_total by blast
  moreover from this have "\<exists>g. h = Some g \<and> pag_type g = page ! 0"
    using assms by (auto simp: decode_page_header_def PAGE_HEADER_SIZE_def rs_index_def split: Option.bind_splits if_splits)
  ultimately show ?thesis
    using c assms
    by (intro exI [of _ "\<lparr>dp_pag = the h, dp_sequence = sq, dp_relation = rel, dp_count = c, dp_page = page\<rparr>"])
      (auto simp: decode_data_def is_data_def count_of_def)
qed

lemma slot_bytes_slot_of:
  assumes ok: "page_ok ps page" and d: "dp_page d = page" "unat (dp_count d) = count_of page"
  shows "slot_bytes d i = Ret (if unat i < count_of page then slot_of page (unat i) else None)"
proof (cases "unat i < count_of page")
  case False
  then have "dp_count d \<le> i" using d(2) by (simp add: word_le_nat_alt)
  then show ?thesis using False by (simp add: slot_bytes_def dp_slot_def)
next
  case True
  then have lt: "\<not> dp_count d \<le> i" using d(2) by (simp add: word_le_nat_alt)
  have in_page: "24 + unat i * 4 + 4 \<le> length page" using True ok by (simp add: page_ok_def)
  obtain off len where u: "u16_at page (24 + unat i * 4) = Ret off" "u16_at page (24 + unat i * 4 + 2) = Ret len"
    using u_at_inside(1) [of "24 + unat i * 4" page] u_at_inside(1) [of "24 + unat i * 4 + 2" page] in_page by auto
  have dir: "dir_of page (unat i) = (unat off, unat len)"
    using u by (simp add: dir_of_def dir_entry_def DPG_RPT_OFFSET_def)
  have range: "unat len \<noteq> 0 \<Longrightarrow> 24 \<le> unat off \<and> unat off + unat len \<le> length page"
    using ok True dir unfolding page_ok_def by fastforce
  have "dp_slot d i = Ret (Some (off, len))" using u d lt by (simp add: dp_slot_def DPG_RPT_OFFSET_def)
  moreover have "len = 0 \<longleftrightarrow> unat len = 0" by (simp add: unat_eq_0)
  ultimately show ?thesis
    using True range d
    by (cases "len = 0") (auto simp: slot_bytes_def slot_of_def dir DPG_RPT_OFFSET_def Let_def rs_slice_def get_range_def)
qed

lemma fetch_record_at:
  assumes "file_ok ps file"
  shows "fetch_record file ps p i = (case record_at file (p, i) of None \<Rightarrow> Ret None | Some r \<Rightarrow> decode_record i r)"
proof (cases "img_page file p")
  case None
  then show ?thesis by (simp add: fetch_record_def page_at_def record_at_def)
next
  case (Some page)
  note ok = file_ok_page [OF assms Some]
  have "24 \<le> length page" using ok(1,2) by simp
  then obtain d where d: "decode_data page = Ret (if is_data page then Some d else None)" "dp_page d = page"
    "unat (dp_count d) = count_of page" using decode_data_page by blast
  show ?thesis
  proof (cases "is_data page")
    case True
    then show ?thesis
      using Some d slot_bytes_slot_of [OF ok(3) [OF True] d(2,3), of i]
      by (simp add: fetch_record_def page_at_def record_at_def dp_record_decode)
  next
    case False
    then show ?thesis using Some d by (simp add: fetch_record_def page_at_def record_at_def)
  qed
qed

subsection \<open>Fill bits\<close>

lemma clear_on_ok:
  assumes "\<forall>s \<in> set slots. 32 + s * 4 + 4 \<le> length page \<and> 32 + capacity * 4 + s < length page"
  shows "\<exists>r. clear_on capacity p bits slots page = Ret r \<and>
    (\<forall>page'. r = Some page' \<longrightarrow> (\<exists>k b. 32 \<le> k \<and> page' = page[k := b]))"
  using assms
proof (induction slots)
  case (Cons s ss)
  then obtain n where "u32_at page (32 + s * 4) = Ret n" using u_at_inside(2) [of "32 + s * 4" page] by auto
  then show ?case using Cons by (auto simp: rs_index_def intro: exI [of _ "32 + capacity * 4 + s"])
qed simp

lemma capacity_inside: "64 \<le> ps \<Longrightarrow> 32 + data_pages_per_pp ps * 5 \<le> ps"
proof -
  assume ps: "64 \<le> ps"
  have "data_pages_per_pp ps \<le> (ps - 32) * 8 div 40" unfolding data_pages_per_pp_def by simp
  also have "(ps - 32) * 8 div 40 = (ps - 32) div 5"
    using div_mult2_eq [of "(ps - 32) * 8" 8 5] by simp
  finally have "data_pages_per_pp ps * 5 \<le> ps - 32" by linarith
  then show ?thesis using ps by linarith
qed

text \<open>At most one page changes, a pointer page, behind its header.\<close>

definition bits_cleared :: "nat \<Rightarrow> image \<Rightarrow> image \<Rightarrow> bool" where
  "bits_cleared ps file file' \<longleftrightarrow> file' = file \<or>
     (\<exists>q page k b. img_page file q = Some page \<and> page ! 0 = page_type_byte Pointer \<and> 32 \<le> k \<and>
        file' = set_page q (page[k := b]) file)"

lemma clear_in_ok:
  assumes "file_ok ps file" "\<forall>q \<in> set pps. \<exists>page. img_page file (of_nat q) = Some page \<and> page ! 0 = page_type_byte Pointer"
  shows "\<exists>file'. clear_in (data_pages_per_pp ps) p bits pps file = Ret file' \<and> bits_cleared ps file file'"
  using assms(2)
proof (induction pps)
  case (Cons q pps)
  let ?cap = "data_pages_per_pp ps"
  obtain page where page: "img_page file (of_nat q) = Some page" "page ! 0 = page_type_byte Pointer"
    using Cons.prems by auto
  have "length page = ps" "64 \<le> ps" using file_ok_page [OF assms(1) page(1)] by auto
  then have "\<forall>s \<in> set [0..<?cap]. 32 + s * 4 + 4 \<le> length page \<and> 32 + ?cap * 4 + s < length page"
    using capacity_inside [of ps] by auto
  then obtain r where r: "clear_on ?cap p bits [0..<?cap] page = Ret r"
    "\<forall>page'. r = Some page' \<longrightarrow> (\<exists>k b. 32 \<le> k \<and> page' = page[k := b])" using clear_on_ok by blast
  show ?case
  proof (cases r)
    case None
    then show ?thesis using Cons page r(1) by simp
  next
    case (Some page')
    then show ?thesis using page r by (auto simp: bits_cleared_def)
  qed
qed (simp add: bits_cleared_def)

lemma filter_map_run_ok:
  assumes "\<forall>x \<in> set xs. \<exists>r. f x = Ret r"
  shows "\<exists>ys. filter_map_run f xs = Ret ys \<and> (\<forall>y \<in> set ys. \<exists>x \<in> set xs. f x = Ret (Some y))"
  using assms
proof (induction xs)
  case (Cons x xs)
  then obtain r ys where "f x = Ret r" "filter_map_run f xs = Ret ys" "\<forall>y \<in> set ys. \<exists>x \<in> set xs. f x = Ret (Some y)"
    by auto
  then show ?case by (cases r) auto
qed simp

lemma whole_pages_all: "file_ok ps file \<Longrightarrow> whole_pages file = img_pages file"
  by (simp add: file_ok_def whole_pages_def)

lemma img_page_of_nat: "file_ok ps file \<Longrightarrow> i < length (img_pages file) \<Longrightarrow> img_page file (of_nat i) = Some (img_pages file ! i)"
  by (simp add: img_page_def file_ok_def unat_of_nat)

lemma clear_fill_bits_ok:
  assumes ok: "file_ok ps file" and p: "img_page file p = Some page"
  shows "\<exists>file'. clear_fill_bits ps p bits file = Ret file' \<and> bits_cleared ps file file'"
proof -
  have len: "length page = ps" "64 \<le> ps" using file_ok_page [OF ok p] by auto
  obtain rel where rel: "u16_at page 20 = Ret rel" using u_at_inside(1) [of 20 page] len by auto
  define f where "f = (\<lambda>(i :: nat, p). do { t \<leftarrow> rs_index p 0;
         if t = page_type_byte Pointer then do { r \<leftarrow> u16_at p 26; Ret (if r = rel then Some i else None) }
         else Ret None })"
  have each: "i < length (img_pages file) \<and> img_pages file ! i = q" if "(i, q) \<in> set (enumerate 0 (img_pages file))" for i q
    using that by (auto simp: in_set_enumerate_eq)
  have "\<forall>x \<in> set (enumerate 0 (img_pages file)). \<exists>r. f x = Ret r"
  proof
    fix x assume "x \<in> set (enumerate 0 (img_pages file))"
    moreover obtain i q where x: "x = (i, q)" by fastforce
    ultimately have "length q = ps" using each [of i q] ok by (auto simp: file_ok_def)
    then show "\<exists>r. f x = Ret r" using u_at_inside(1) [of 26 q] len by (auto simp: x f_def rs_index_def)
  qed
  from filter_map_run_ok [OF this] obtain pps where pps: "filter_map_run f (enumerate 0 (img_pages file)) = Ret pps"
    "\<forall>y \<in> set pps. \<exists>x \<in> set (enumerate 0 (img_pages file)). f x = Ret (Some y)" by blast
  have "pointer_numbers file rel = Ret pps"
    using pps(1) by (simp add: pointer_numbers_def whole_pages_all [OF ok] f_def)
  moreover have "\<forall>q \<in> set pps. \<exists>page. img_page file (of_nat q) = Some page \<and> page ! 0 = page_type_byte Pointer"
  proof
    fix q assume "q \<in> set pps"
    then obtain i pg where x: "(i, pg) \<in> set (enumerate 0 (img_pages file))" "f (i, pg) = Ret (Some q)"
      using pps(2) by auto
    then have "q = i" "pg ! 0 = page_type_byte Pointer"
      by (auto simp: f_def rs_index_def split: Option.bind_splits if_splits)
    then show "\<exists>page. img_page file (of_nat q) = Some page \<and> page ! 0 = page_type_byte Pointer"
      using each [OF x(1)] img_page_of_nat [OF ok] by auto
  qed
  ultimately show ?thesis
    using clear_in_ok [OF ok] p rel len by (simp add: clear_fill_bits_def page_at_def)
qed

lemma set_page_ok:
  assumes "file_ok ps file" "img_page file p = Some page" "length page' = ps"
    "is_data page' \<Longrightarrow> is_data page \<and> page_ok ps page'"
  shows "file_ok ps (set_page p page' file)"
proof -
  have "\<not> is_data pg" if "img_page (set_page p page' file) 0 = Some pg" for pg
    using that assms by (auto simp: page_set_page file_ok_def split: if_splits)
  then show ?thesis
    using assms set_update_subset_insert [of "img_pages file" "unat p" page']
    by (auto simp: file_ok_def set_page_def)
qed

lemma bits_cleared_keeps:
  assumes "file_ok ps file" "bits_cleared ps file file'"
  shows "file_ok ps file'" "record_at file' = record_at file" "num_pages file' = num_pages file"
    "img_page file q = Some page \<Longrightarrow> page ! 0 \<noteq> page_type_byte Pointer \<Longrightarrow> img_page file' q = Some page"
proof -
  have "file_ok ps file' \<and> record_at file' = record_at file \<and> num_pages file' = num_pages file \<and>
      (img_page file q = Some page \<longrightarrow> page ! 0 \<noteq> page_type_byte Pointer \<longrightarrow> img_page file' q = Some page)"
  proof (cases "file' = file")
    case False
    then obtain r pg k b where r: "img_page file r = Some pg" "pg ! 0 = page_type_byte Pointer" "32 \<le> k"
      "file' = set_page r (pg[k := b]) file" using assms(2) by (auto simp: bits_cleared_def)
    have "(pg[k := b]) ! 0 = pg ! 0" using r(3) by (simp add: nth_list_update)
    then have nd: "\<not> is_data (pg[k := b])" "\<not> is_data pg" using r(2) by (auto simp: is_data_def)
    have "file_ok ps file'"
      unfolding r(4) using assms(1) r(1) nd file_ok_page(1) [OF assms(1) r(1)] by (intro set_page_ok) auto
    moreover have "num_pages file' = num_pages file" by (simp add: r(4))
    moreover have "record_at file' = record_at file"
      using r(1) nd by (auto simp: fun_eq_iff record_at_def r(4) page_set_page)
    moreover have "img_page file' q = Some page" if "img_page file q = Some page" "page ! 0 \<noteq> page_type_byte Pointer"
      using that r by (auto simp: page_set_page)
    ultimately show ?thesis by blast
  qed (use assms(1) in simp)
  then show "file_ok ps file'" "record_at file' = record_at file" "num_pages file' = num_pages file"
    "img_page file q = Some page \<Longrightarrow> page ! 0 \<noteq> page_type_byte Pointer \<Longrightarrow> img_page file' q = Some page"
    by blast+
qed

subsection \<open>The interface of a record store\<close>

text \<open>What the operations on records rely on: a body stored at a spot that fits is read back at the
  spot's address, and every other record is as it was.\<close>

locale record_store =
  fixes ok :: "'s \<Rightarrow> bool" and read :: "'s \<Rightarrow> 'a \<Rightarrow> byte list option"
    and fits :: "'s \<Rightarrow> 'p \<Rightarrow> nat \<Rightarrow> bool" and address :: "'p \<Rightarrow> 'a"
    and store :: "'p \<Rightarrow> byte list \<Rightarrow> 's \<Rightarrow> 's run"
  assumes store_read: "ok s \<Longrightarrow> fits s sp (length rc) \<Longrightarrow> rc \<noteq> [] \<Longrightarrow>
      \<exists>s'. store sp rc s = Ret s' \<and> ok s' \<and> read s' = (read s)(address sp \<mapsto> rc)"
begin

text \<open>A sequence of stores, each at a spot that fits by then.\<close>

inductive stores :: "'s \<Rightarrow> ('a \<times> byte list) list \<Rightarrow> 's \<Rightarrow> bool" where
  stores_done: "stores s [] s"
| stores_one: "fits s sp (length rc) \<Longrightarrow> rc \<noteq> [] \<Longrightarrow> store sp rc s = Ret s' \<Longrightarrow> stores s' ws t \<Longrightarrow>
    stores s ((address sp, rc) # ws) t"

lemma stores_read:
  assumes "stores s ws t" "ok s"
  shows "ok t \<and> read t = read s ++ map_of (rev ws)"
  using assms
proof induction
  case (stores_one s sp rc s' ws t)
  then have "ok s'" "read s' = (read s)(address sp \<mapsto> rc)" using store_read [of s sp rc] by auto
  then show ?case using stores_one.IH by (simp add: map_add_def fun_eq_iff split: option.split)
qed simp

lemma stores_untouched: "stores s ws t \<Longrightarrow> ok s \<Longrightarrow> a \<notin> fst ` set ws \<Longrightarrow> read t a = read s a"
  using stores_read [of s ws t] by (simp add: map_add_dom_app_simps(3) dom_map_of_conv_image_fst)

lemma stores_last: "stores s (ws @ [(a, rc)]) t \<Longrightarrow> ok s \<Longrightarrow> read t a = Some rc"
  using stores_read [of s "ws @ [(a, rc)]" t] by simp

lemma stores_append: "stores s ws t \<Longrightarrow> stores t vs u \<Longrightarrow> stores s (ws @ vs) u"
  by (induction rule: stores.induct) (auto intro: stores.intros)

end

subsection \<open>The file as a record store\<close>

definition file_fits :: "image \<Rightarrow> spot \<Rightarrow> nat \<Rightarrow> bool" where
  "file_fits file sp n \<longleftrightarrow>
     (case img_page file (spot_page sp) of None \<Rightarrow> False | Some page \<Rightarrow> is_data page \<and> spot_fits page sp n)"

definition spot_address :: "spot \<Rightarrow> u32 \<times> u16" where
  "spot_address sp = (spot_page sp, spot_slot sp)"

lemma record_at_laid:
  assumes ok: "page_ok ps page" and fits: "spot_fits page sp (length rc)" and rc: "rc \<noteq> []"
    and page: "img_page file (spot_page sp) = Some page" "is_data page"
  shows "record_at (set_page (spot_page sp) (laid_down sp rc page) file) = (record_at file)(spot_address sp \<mapsto> rc)"
    "is_data (laid_down sp rc page)"
proof -
  let ?p = "laid_down sp rc page" and ?s = "unat (spot_slot sp)"
  note ld = lay_down_laid [OF ok fits rc] laid_down_ok [OF ok fits rc]
  have "?p ! 0 = take 22 ?p ! 0" "take 22 page ! 0 = page ! 0" by simp_all
  then have "?p ! 0 = page ! 0" by (simp only: ld(8))
  moreover have "?p \<noteq> []" using ld(2) ok by (auto simp: page_ok_def)
  ultimately show d: "is_data ?p" using page(2) by (simp add: is_data_def)
  have len: "length (slots_of pg) = count_of pg" "i < count_of pg \<Longrightarrow> slots_of pg ! i = slot_of pg i" for pg i
    by (simp_all add: slots_of_def)
  have read: "(if i < count_of ?p then slot_of ?p i else None) =
      (if i = ?s then Some rc else if i < count_of page then slot_of page i else None)" for i
  proof -
    have "(if i < count_of ?p then slot_of ?p i else None) =
        (if i < length (slots_of ?p) then slots_of ?p ! i else None)" using len(1) [of ?p] len(2) [of i ?p] by simp
    also have "\<dots> = (if i = ?s then Some rc else if i < length (slots_of page) then slots_of page ! i else None)"
    proof (cases "spot_append sp")
      case True
      then have "?s = length (slots_of page)" using fits by (simp add: spot_fits_def len(1))
      then show ?thesis using True by (simp add: ld(10) slots_with_def nth_append)
    next
      case False
      then have "?s < length (slots_of page)" using fits by (simp add: spot_fits_def len(1))
      then show ?thesis using False by (simp add: ld(10) slots_with_def nth_list_update)
    qed
    finally show ?thesis using len(1) [of page] len(2) [of i page] by simp
  qed
  show "record_at (set_page (spot_page sp) ?p file) = (record_at file)(spot_address sp \<mapsto> rc)"
  proof (rule ext)
    fix a :: "u32 \<times> u16"
    obtain q i where a: "a = (q, i)" by fastforce
    show "record_at (set_page (spot_page sp) ?p file) a = ((record_at file)(spot_address sp \<mapsto> rc)) a"
    proof (cases "q = spot_page sp")
      case True
      have "unat i = ?s \<longleftrightarrow> i = spot_slot sp" by (simp add: word_unat_eq_iff)
      then show ?thesis using read [of "unat i"] page d True
        by (simp only: record_at_def a page_set_page spot_address_def fst_conv snd_conv fun_upd_apply prod.inject) simp
    next
      case False
      then show ?thesis by (simp add: record_at_def a page_set_page spot_address_def)
    qed
  qed
qed

lemma write_at_spot_ok:
  assumes ok: "file_ok ps file" and fits: "file_fits file sp (length rc)" and rc: "rc \<noteq> []"
  shows "\<exists>file'. write_at_spot ps sp rc file = Ret file' \<and> file_ok ps file' \<and> num_pages file' = num_pages file \<and>
    record_at file' = (record_at file)(spot_address sp \<mapsto> rc)"
proof -
  obtain page where page: "img_page file (spot_page sp) = Some page" "is_data page" "spot_fits page sp (length rc)"
    using fits by (auto simp: file_fits_def split: option.splits)
  have pok: "page_ok ps page" using file_ok_page [OF ok page(1)] page(2) by blast
  define file1 where "file1 = set_page (spot_page sp) (laid_down sp rc page) file"
  note laid = record_at_laid [OF pok page(3) rc page(1,2)]
  have ok1: "file_ok ps file1"
    unfolding file1_def using page(2) lay_down_laid(2) [OF pok page(3) rc] laid_down_ok(1) [OF pok page(3) rc]
    by (intro set_page_ok [OF ok page(1)]) auto
  have "img_page file1 (spot_page sp) = Some (laid_down sp rc page)" using page(1) by (simp add: file1_def page_set_page)
  from clear_fill_bits_ok [OF ok1 this] obtain file' where
    "clear_fill_bits ps (spot_page sp) 0x10 file1 = Ret file'" "bits_cleared ps file1 file'" by blast
  then show ?thesis
    using bits_cleared_keeps(1-3) [OF ok1] laid(1) page(1) lay_down_laid(1) [OF pok page(3) rc]
    by (simp add: write_at_spot_def file1_def)
qed

interpretation records: record_store "\<lambda>file. file_ok ps file \<and> num_pages file = n" record_at file_fits spot_address
    "write_at_spot ps" for ps n
  by unfold_locales (use write_at_spot_ok in blast)

subsection \<open>Finding a spot, rewriting in place\<close>

lemma first_run_Some: "first_run f xs = Ret (Some y) \<Longrightarrow> \<exists>x \<in> set xs. f x = Ret (Some y)"
  by (induction xs) (auto split: Option.bind_splits option.splits)

lemma scan_all:
  assumes "page_ok ps page"
  obtains b r where "scan_slots page [0..<count_of page] (ps, None) = Ret (b, r)" "b \<le> ps"
    "\<And>i. i < count_of page \<Longrightarrow> snd (dir_of page i) \<noteq> 0 \<Longrightarrow> b \<le> fst (dir_of page i)"
    "\<And>i. r = Some i \<Longrightarrow> i < count_of page \<and> snd (dir_of page i) = 0"
proof -
  have "set [0..<count_of page] \<subseteq> {..<count_of page}" by auto
  from scan_slots_spec [OF assms this, of ps None] show thesis by (auto intro: that)
qed

lemma spot_on_fits:
  assumes ok: "file_ok ps file" and n: "0 < n" and s: "spot_on ps (align_up n) file p = Ret (Some sp)"
  shows "file_fits file sp n \<and> record_at file (spot_address sp) = None \<and> spot_page sp = p"
proof -
  obtain page where page: "img_page file p = Some page" using s by (auto simp: spot_on_def page_at_def split: option.splits)
  note fok = file_ok_page [OF ok page]
  have "24 \<le> length page" using fok(1,2) by simp
  then obtain d where d: "decode_data page = Ret (if is_data page then Some d else None)" "unat (dp_count d) = count_of page"
    using decode_data_page by blast
  have data: "is_data page" using s page d(1) by (auto simp: spot_on_def page_at_def split: if_splits)
  note pok = fok(3) [OF data]
  obtain b r where br: "scan_slots page [0..<count_of page] (ps, None) = Ret (b, r)" "b \<le> ps"
    "\<And>i. i < count_of page \<Longrightarrow> snd (dir_of page i) \<noteq> 0 \<Longrightarrow> b \<le> fst (dir_of page i)"
    "\<And>i. r = Some i \<Longrightarrow> i < count_of page \<and> snd (dir_of page i) = 0"
    using scan_all [OF pok] by blast
  define sl where "sl = (case r of Some i \<Rightarrow> of_nat i | None \<Rightarrow> dp_count d)"
  define ap where "ap = (r = None)"
  have slot: "if ap then unat sl = count_of page else unat sl < count_of page \<and> snd (dir_of page (unat sl)) = 0"
    using br(4) d(2) count_of_lt [of page] by (cases r) (auto simp: sl_def ap_def unat_of_nat_16)
  have room: "24 + 4 * (count_of page + (if ap then 1 else 0)) + align_up n \<le> b"
    and sp: "sp = \<lparr>spot_page = p, spot_slot = sl, spot_append = ap, spot_offset = align_down (b - align_up n)\<rparr>"
    using s page d br(1) data
    by (auto simp: spot_on_def page_at_def sl_def ap_def Let_def DPG_RPT_OFFSET_def split: option.splits if_splits)
  have "spot_fits page sp n"
    unfolding sp using slot by (intro fits_below [OF pok n room br(2)] br(3)) (auto split: if_splits)
  moreover have "record_at file (spot_address sp) = None"
    using page slot by (auto simp: record_at_def spot_address_def sp slot_of_def split: if_splits prod.splits)
  ultimately show ?thesis using page data by (simp add: file_fits_def sp)
qed

lemma find_space_fits:
  assumes "file_ok ps file" "0 < n" "find_space ps rel n file = Ret (Some sp)"
  shows "file_fits file sp n \<and> record_at file (spot_address sp) = None"
  using assms(3) spot_on_fits [OF assms(1,2)]
  by (auto simp: find_space_def dest!: first_run_Some split: Option.bind_splits)

end
