(* ===== verification/Dml_Versions.thy ===== *)
theory Dml_Versions
  imports Dml_Records Tra_Readers
begin

unbundle bit_operations_syntax

text \<open>
  Updates and deletes over the map of records, and what readers see of them. When the file has room
  for the old version and the new one fits the slot, an update is two stores: the old record, flagged as
  a chain version, at a free address, and the new record in the old one's place with a link to it. Every
  other record stays. From this: the links of the file stay intact, a reader who does not count the
  writing transaction reads through the new version exactly what it read before, and one who counts it
  reads the new image.
\<close>

abbreviation file_stores :: "nat \<Rightarrow> image \<Rightarrow> ((u32 \<times> u16) \<times> byte list) list \<Rightarrow> image \<Rightarrow> bool" where
  "file_stores ps \<equiv> record_store.stores file_fits spot_address (write_at_spot ps)"

subsection \<open>Stored headers\<close>

lemma length_rhd_bytes [simp]: "length (rhd_bytes tx bp bl fl fmt im) = 13 + length im"
  by (simp add: rhd_bytes_def)

lemma length_rhdf_bytes [simp]: "length (rhdf_bytes tx bp bl fl fmt p l im) = 22 + length im"
  by (simp add: rhdf_bytes_def)

lemma length_fill [simp]: "length (fill_to_rhdf rc) = max 22 (length rc)"
  by (simp add: fill_to_rhdf_def RHDF_DATA_OFFSET_def)

lemma fill_to_rhdf_pad: "fill_to_rhdf rc = rc @ replicate (22 - length rc) 0"
  by (simp add: fill_to_rhdf_def vec_resize_def RHDF_DATA_OFFSET_def)

lemma fill_not_Nil [simp]: "fill_to_rhdf rc \<noteq> []"
  by (auto simp: fill_to_rhdf_pad)

lemma u16_at_in: "u16_at (xs @ u16_bytes v @ ys) (length xs) = Ret v"
  by (simp add: u16_at_def rs_slice_def get_range_def u16_bytes_def le_nat_le_bytes)

lemma u32_at_in: "u32_at (xs @ u32_bytes v @ ys) (length xs) = Ret v"
  by (simp add: u32_at_def rs_slice_def get_range_def u32_bytes_def le_nat_le_bytes)

lemma rhd_fields:
  "u32_at (rhd_bytes tx bp bl fl fmt im @ pad) 0 = Ret tx" "u32_at (rhd_bytes tx bp bl fl fmt im @ pad) 4 = Ret bp"
  "u16_at (rhd_bytes tx bp bl fl fmt im @ pad) 8 = Ret bl" "u16_at (rhd_bytes tx bp bl fl fmt im @ pad) 10 = Ret fl"
  "rs_index (rhd_bytes tx bp bl fl fmt im @ pad) 12 = Ret fmt" "rs_slice_from (rhd_bytes tx bp bl fl fmt im @ pad) 13 = Ret (im @ pad)"
  using u32_at_in [of "[]" tx] u32_at_in [of "u32_bytes tx" bp] u16_at_in [of "u32_bytes tx @ u32_bytes bp" bl]
    u16_at_in [of "u32_bytes tx @ u32_bytes bp @ u16_bytes bl" fl]
  by (simp_all add: rhd_bytes_def rs_index_def rs_slice_from_def nth_append)

lemma rhdf_fields:
  "u32_at (rhdf_bytes tx bp bl fl fmt p l im) 0 = Ret tx" "u32_at (rhdf_bytes tx bp bl fl fmt p l im) 4 = Ret bp"
  "u16_at (rhdf_bytes tx bp bl fl fmt p l im) 8 = Ret bl" "u16_at (rhdf_bytes tx bp bl fl fmt p l im) 10 = Ret fl"
  "rs_index (rhdf_bytes tx bp bl fl fmt p l im) 12 = Ret fmt" "rs_slice_from (rhdf_bytes tx bp bl fl fmt p l im) 22 = Ret im"
  "u32_at (rhdf_bytes tx bp bl fl fmt p l im) 16 = Ret p" "u16_at (rhdf_bytes tx bp bl fl fmt p l im) 20 = Ret l"
  using u32_at_in [of "[]" tx] u32_at_in [of "u32_bytes tx" bp] u16_at_in [of "u32_bytes tx @ u32_bytes bp" bl]
    u16_at_in [of "u32_bytes tx @ u32_bytes bp @ u16_bytes bl" fl]
    u32_at_in [of "u32_bytes tx @ u32_bytes bp @ u16_bytes bl @ u16_bytes fl @ [fmt] @ replicate 3 0" p "u16_bytes l @ im"]
    u16_at_in [of "u32_bytes tx @ u32_bytes bp @ u16_bytes bl @ u16_bytes fl @ [fmt] @ replicate 3 0 @ u32_bytes p" l im]
  by (simp_all add: rhdf_bytes_def rs_index_def rs_slice_from_def nth_append)

lemma decode_rhd:
  assumes "\<not> has_flag fl REC_BLOB" "\<not> has_flag fl REC_INCOMPLETE" "\<not> has_flag fl REC_LONG_TRANUM"
  shows "decode_record i (fill_to_rhdf (rhd_bytes tx bp bl fl fmt im)) =
    Ret (Some \<lparr>rh_slot = i, rh_transaction = ucast tx, rh_back_page = bp, rh_back_line = bl, rh_flags = fl,
      rh_format = fmt, rh_packed = im @ replicate (9 - length im) 0, rh_frag = None\<rparr>)"
proof -
  have p: "22 - (13 + length im) = 9 - length im" by simp
  show ?thesis using assms
    by (simp add: fill_to_rhdf_pad decode_record_def tranum_def rhd_fields rec_offsets p)
qed

lemma decode_rhdf:
  assumes "\<not> has_flag fl REC_BLOB" "has_flag fl REC_INCOMPLETE" "\<not> has_flag fl REC_LONG_TRANUM"
  shows "decode_record i (rhdf_bytes tx bp bl fl fmt p l im) =
    Ret (Some \<lparr>rh_slot = i, rh_transaction = ucast tx, rh_back_page = bp, rh_back_line = bl, rh_flags = fl,
      rh_format = fmt, rh_packed = im, rh_frag = Some (p, l)\<rparr>)"
  using assms by (simp add: decode_record_def tranum_def rhdf_fields rec_offsets)

lemma unpack_zeros: "unpack_loop m acc (replicate n 0) = Some acc"
  by (induction n) simp_all

lemma unpack_pack_pad: "length im < USIZE_MAX \<Longrightarrow> unpack (pack im @ replicate n 0) = Some im"
  using decodes_pack [of im] unfolding decodes_def unpack_def unpack_prefix_def
  by (metis add_0 list.size(3) append_Nil unpack_zeros)

text \<open>The image of a packed piece with the fill behind it: the piece, and zeros after a short raw one.\<close>

lemma packed_piece_image:
  assumes "packed_piece im = (pf, d)" "length im + 9 < USIZE_MAX"
  shows "\<exists>k. image_prefix \<lparr>rh_slot = i, rh_transaction = tx, rh_back_page = bp, rh_back_line = bl, rh_flags = pf,
      rh_format = fmt, rh_packed = d @ replicate (9 - length d) 0, rh_frag = None\<rparr> USIZE_MAX = Some (im @ replicate k 0) \<and>
    k \<le> 9 - length im"
    and "pf = 0 \<or> pf = REC_NOT_PACKED"
proof -
  have cases: "pf = 0 \<and> d = pack im \<or> pf = REC_NOT_PACKED \<and> d = im"
    using assms(1) by (auto simp: packed_piece_def Let_def split: if_splits)
  then show "pf = 0 \<or> pf = REC_NOT_PACKED" by blast
  from cases show "\<exists>k. image_prefix \<lparr>rh_slot = i, rh_transaction = tx, rh_back_page = bp, rh_back_line = bl, rh_flags = pf,
      rh_format = fmt, rh_packed = d @ replicate (9 - length d) 0, rh_frag = None\<rparr> USIZE_MAX = Some (im @ replicate k 0) \<and>
    k \<le> 9 - length im"
  proof (elim disjE conjE)
    assume "pf = 0" "d = pack im"
    then have "image_prefix \<lparr>rh_slot = i, rh_transaction = tx, rh_back_page = bp, rh_back_line = bl, rh_flags = pf,
      rh_format = fmt, rh_packed = d @ replicate (9 - length d) 0, rh_frag = None\<rparr> USIZE_MAX = Some (im @ replicate 0 0)"
      using unpack_pack_pad [of im "9 - length d"] assms(2)
      by (simp add: image_prefix_def has_flag_def unpack_def)
    then show ?thesis by blast
  next
    assume "pf = REC_NOT_PACKED" "d = im"
    then have "image_prefix \<lparr>rh_slot = i, rh_transaction = tx, rh_back_page = bp, rh_back_line = bl, rh_flags = pf,
      rh_format = fmt, rh_packed = d @ replicate (9 - length d) 0, rh_frag = None\<rparr> USIZE_MAX =
        Some (im @ replicate (9 - length im) 0)"
      using assms(2) by (simp add: image_prefix_def has_flag_def rec_flags)
    then show ?thesis by blast
  qed
qed

subsection \<open>A slot rewritten\<close>

definition rewrite_spot :: "u32 \<Rightarrow> u16 \<Rightarrow> nat \<Rightarrow> spot" where
  "rewrite_spot p i off = \<lparr>spot_page = p, spot_slot = i, spot_append = False, spot_offset = off\<rparr>"

lemma record_at_page:
  assumes "file_ok ps file" "record_at file (p, i) = Some old"
  obtains page where "img_page file p = Some page" "is_data page" "page_ok ps page" "unat i < count_of page"
    "snd (dir_of page (unat i)) = length old" "length old \<noteq> 0" "24 \<le> fst (dir_of page (unat i))"
    "fst (dir_of page (unat i)) + length old \<le> ps" "take (length old) (drop (fst (dir_of page (unat i))) page) = old"
    "dir_entry page (unat i) = Ret (dir_of page (unat i))"
proof -
  obtain page where page: "img_page file p = Some page" "is_data page" "unat i < count_of page" "slot_of page (unat i) = Some old"
    using assms(2) by (auto simp: record_at_def split: option.splits if_splits)
  note ok = file_ok_page(3) [OF assms(1) page(1,2)]
  obtain off len where d: "dir_of page (unat i) = (off, len)" by fastforce
  have len: "len \<noteq> 0" "old = take len (drop off page)" using page(4) d by (auto simp: slot_of_def split: if_splits)
  have range: "24 + 4 * count_of page \<le> off \<and> off + len \<le> ps" using ok page(3) len(1) d unfolding page_ok_def by fastforce
  then have "length old = len" using len ok by (auto simp: page_ok_def min_def)
  then show thesis using that page ok d len range dir_entry_ok [OF ok page(3)] by simp
qed

text \<open>A record of \<^verbatim>\<open>n\<close> bytes fits its slot: it is no longer than the record the slot
  holds, or below every other record of the page there are that many aligned bytes behind the directory.\<close>

definition page_room :: "nat \<Rightarrow> byte list \<Rightarrow> nat \<Rightarrow> nat \<Rightarrow> bool" where
  "page_room ps page i n \<longleftrightarrow> (let top = 24 + 4 * count_of page + align_up n in
     top \<le> ps \<and> list_all (\<lambda>j. j \<noteq> i \<and> snd (dir_of page j) \<noteq> 0 \<longrightarrow> top \<le> fst (dir_of page j)) [0..<count_of page])"

definition slot_fits :: "nat \<Rightarrow> image \<Rightarrow> u32 \<Rightarrow> u16 \<Rightarrow> nat \<Rightarrow> bool" where
  "slot_fits ps file p i n =
     (case img_page file p of
        None \<Rightarrow> False
      | Some page \<Rightarrow> n \<le> snd (dir_of page (unat i)) \<or> page_room ps page (unat i) n)"

lemma rewrite_primary_ok:
  assumes ok: "file_ok ps file" and old: "record_at file (p, i) = Some old" and rc: "rc \<noteq> []"
    and room: "slot_fits ps file p i (length rc)"
  shows "\<exists>off file'. file_fits file (rewrite_spot p i off) (length rc) \<and>
      write_at_spot ps (rewrite_spot p i off) rc file = Ret file' \<and> rewrite_primary ps p i rc file = Ret (Inr file')"
proof -
  obtain page where page: "img_page file p = Some page" "is_data page" "page_ok ps page" "unat i < count_of page"
    "snd (dir_of page (unat i)) = length old" "length old \<noteq> 0" "24 \<le> fst (dir_of page (unat i))"
    "dir_entry page (unat i) = Ret (dir_of page (unat i))" using record_at_page [OF ok old] by metis
  let ?s = "unat i" and ?c = "count_of page"
  obtain c where c: "u16_at page 22 = Ret c" "unat c = ?c"
    using u_at_inside(1) [of 22 page] page(3) by (auto simp: count_of_def page_ok_def)
  have lt: "\<not> c \<le> i" using page(4) c(2) by (simp add: word_le_nat_alt)
  obtain off where d: "dir_of page ?s = (off, length old)" using page(5) by (metis prod.collapse)
  have off: "24 + 4 * ?c \<le> off" "off + length old \<le> ps" "length page = ps"
    using page(3,4,6) d unfolding page_ok_def by fastforce+
  define at where "at = (\<lambda>off. map_option Inr (write_at_spot ps (rewrite_spot p i off) rc file) :: (dml_error + image) run)"
  have unfolded: "rewrite_primary ps p i rc file =
      (if length rc \<le> length old \<and> off \<noteq> 0 then at off
       else do { bottom \<leftarrow> bottom_without ps ?c ?s page;
         if bottom < 24 + ?c * 4 + align_up (length rc)
         then Ret (Inl (NoRoom p (align_up (length rc)) (bottom - (24 + ?c * 4)))) else at (align_down (bottom - align_up (length rc))) })"
    using page(1,8) c lt d
    by (simp add: rewrite_primary_def page_at_def Let_def at_def rewrite_spot_def DPG_RPT_OFFSET_def cong: if_cong)
  have written: "\<exists>file'. write_at_spot ps (rewrite_spot p i o') rc file = Ret file' \<and> at o' = Ret (Inr file')"
    if "spot_fits page (rewrite_spot p i o') (length rc)" for o'
    using write_at_spot_ok [OF ok _ rc, of "rewrite_spot p i o'"] that page(1,2)
    by (auto simp: file_fits_def at_def rewrite_spot_def)
  show ?thesis
  proof (cases "length rc \<le> length old \<and> off \<noteq> 0")
    case True
    have "apart (off, length rc) (dir_of page j)" if "j < ?c" "j \<noteq> ?s" "snd (dir_of page j) \<noteq> 0" for j
    proof -
      have "apart (dir_of page ?s) (dir_of page j)" using page(3,4,6) that d unfolding page_ok_def by fastforce
      then show ?thesis using True d by (auto simp: apart_def)
    qed
    then have fits: "spot_fits page (rewrite_spot p i off) (length rc)"
      using off True page(4) by (auto simp: spot_fits_def rewrite_spot_def)
    then show ?thesis using written [OF fits] page(1,2) True unfolded
      by (intro exI [of _ off]) (auto simp: file_fits_def rewrite_spot_def)
  next
    case False
    then have longer: "length old < length rc" using off(1) by auto
    have "set (filter (\<lambda>j. j \<noteq> ?s) [0..<?c]) \<subseteq> {..<?c}" by auto
    from scan_slots_spec [OF page(3) this, of ps None] obtain b r where
      b: "scan_slots page (filter (\<lambda>j. j \<noteq> ?s) [0..<?c]) (ps, None) = Ret (b, r)" "b \<le> ps"
        "\<forall>j \<in> set (filter (\<lambda>j. j \<noteq> ?s) [0..<?c]). snd (dir_of page j) \<noteq> 0 \<longrightarrow> b \<le> fst (dir_of page j)"
        "b = ps \<or> (\<exists>j \<in> set (filter (\<lambda>j. j \<noteq> ?s) [0..<?c]). snd (dir_of page j) \<noteq> 0 \<and> b = fst (dir_of page j))" by blast
    have bw: "bottom_without ps ?c ?s page = Ret b" using b(1) by (simp add: bottom_without_def)
    have "page_room ps page ?s (length rc)" using room page(1,5) longer by (simp add: slot_fits_def)
    then have free: "24 + 4 * ?c + align_up (length rc) \<le> b"
      using b(4) by (auto simp: page_room_def Let_def list_all_iff)
    then have "24 + 4 * (?c + (if False then 1 else 0)) + align_up (length rc) \<le> b" by simp
    from fits_below [OF page(3) _ this b(2), of i p] have
      fits: "spot_fits page (rewrite_spot p i (align_down (b - align_up (length rc)))) (length rc)"
      using b(3) page(4) rc by (auto simp: rewrite_spot_def)
    then show ?thesis using written [OF fits] page(1,2) False free bw unfolded
      by (intro exI [of _ "align_down (b - align_up (length rc))"]) (auto simp: file_fits_def rewrite_spot_def)
  qed
qed

subsection \<open>The old version\<close>

definition flags_of :: "byte list \<Rightarrow> u16" where
  "flags_of rc = (case u16_at rc 10 of Some fl \<Rightarrow> fl | None \<Rightarrow> 0)"

text \<open>A record that may be updated or deleted: a primary version, at least as long as a fragment header.\<close>

definition live :: "byte list \<Rightarrow> bool" where
  "live rc \<longleftrightarrow> RHDF_DATA_OFFSET \<le> length rc \<and>
     \<not> has_flag (flags_of rc) (REC_CHAIN OR REC_BLOB OR REC_FRAGMENT) \<and> \<not> has_flag (flags_of rc) REC_DELETED"

definition chain_copy :: "byte list \<Rightarrow> byte list" where
  "chain_copy rc = splice rc 10 (u16_bytes (flags_of rc OR REC_CHAIN))"

lemma flags_of_at: "12 \<le> length rc \<Longrightarrow> u16_at rc 10 = Ret (flags_of rc)"
  using u_at_inside(1) [of 10 rc] by (auto simp: flags_of_def)

lemma length_chain_copy [simp]: "12 \<le> length rc \<Longrightarrow> length (chain_copy rc) = length rc"
  by (simp add: chain_copy_def)

lemma live_copy:
  assumes "live old"
  shows "length (chain_copy old) = length old" "22 \<le> length old" "chain_copy old \<noteq> []"
proof -
  show l: "length (chain_copy old) = length old" "22 \<le> length old" using assms by (auto simp: live_def RHDF_DATA_OFFSET_def)
  have "0 < length (chain_copy old)" using l by linarith
  then show "chain_copy old \<noteq> []" by (rule length_greater_0_conv [THEN iffD1])
qed

lemma old_version_copied:
  assumes ok: "file_ok ps file" and old: "record_at file (p, i) = Some old" and live: "live old"
  shows "old_version_of ps p i file = Ret (Inr (Copied (chain_copy old) (old ! 12)))"
proof -
  obtain page where page: "img_page file p = Some page" "page_ok ps page" "snd (dir_of page (unat i)) = length old"
    "fst (dir_of page (unat i)) + length old \<le> ps" "take (length old) (drop (fst (dir_of page (unat i))) page) = old"
    "dir_entry page (unat i) = Ret (dir_of page (unat i))" using record_at_page [OF ok old] by metis
  obtain off where d: "dir_of page (unat i) = (off, length old)" using page(3) by (metis prod.collapse)
  have len: "22 \<le> length old" using live by (simp add: live_def RHDF_DATA_OFFSET_def)
  have "fill_to_rhdf (chain_copy old) = chain_copy old" using len by (simp add: fill_to_rhdf_pad)
  moreover have "put_u16 10 (flags_of old OR REC_CHAIN) old = Ret (chain_copy old)"
    unfolding chain_copy_def using len by (intro put_u16_ok) simp
  moreover have "rs_slice page off (off + length old) = Ret old"
    using page(2,4,5) d by (simp add: rs_slice_def get_range_def page_ok_def)
  ultimately show ?thesis
    using page d len live flags_of_at [of old]
    by (simp add: old_version_of_def page_at_def rec_offsets page_ok_def live_def rs_index_def)
qed

lemma push_back_stored:
  assumes ok: "file_ok ps file" and old: "record_at file (p, i) = Some old" "live old"
    and room: "find_space ps rel (length old) file = Ret (Some sp)"
  shows "\<exists>file'. push_back_version ins ps rel p i file = Ret (Inr ((spot_page sp, spot_slot sp, old ! 12), file')) \<and>
    file_fits file sp (length (chain_copy old)) \<and> write_at_spot ps sp (chain_copy old) file = Ret file' \<and>
    record_at file (spot_address sp) = None"
proof -
  have len: "length (chain_copy old) = length old" "0 < length old"
    using live_copy [OF old(2)] by linarith+
  note fits = find_space_fits [OF ok len(2) room]
  have "chain_copy old \<noteq> []" using len by auto
  then obtain file' where "write_at_spot ps sp (chain_copy old) file = Ret file'"
    using write_at_spot_ok [OF ok, of sp "chain_copy old"] fits len by auto
  then show ?thesis
    using fits len room old_version_copied [OF ok old] by (simp add: push_back_version_def store_piece_def)
qed

subsection \<open>Updates and deletes as stores\<close>

text \<open>The old version is pushed to a free spot and the slot is then rewritten by \<^verbatim>\<open>rc\<close>.\<close>

lemma pushed_and_rewritten:
  assumes ok: "file_ok ps file" and old: "record_at file (p, i) = Some old" "live old"
    and room: "find_space ps rel (length old) file = Ret (Some sp)"
    and push: "push_back_version ins ps rel p i file = Ret (Inr (b, file1))"
    and rc: "rc \<noteq> []" "slot_fits ps file1 p i (length rc)"
  obtains file' where "b = (spot_page sp, spot_slot sp, old ! 12)"
    "rewrite_primary ps p i rc file1 = Ret (Inr file')"
    "file_stores ps file [(spot_address sp, chain_copy old), ((p, i), rc)] file'"
proof -
  have push: "b = (spot_page sp, spot_slot sp, old ! 12)"
    "file_fits file sp (length (chain_copy old))" "write_at_spot ps sp (chain_copy old) file = Ret file1"
    "record_at file (spot_address sp) = None"
    using push_back_stored [OF ok old room, of ins] push by auto
  note copy = live_copy(3) [OF old(2)]
  have file1: "file_ok ps file1" "record_at file1 = (record_at file)(spot_address sp \<mapsto> chain_copy old)"
    using write_at_spot_ok [OF ok push(2) copy] push(3) by auto
  have "record_at file1 (p, i) = Some old" using file1(2) push(4) old(1) by auto
  from rewrite_primary_ok [OF file1(1) this rc] obtain off file' where
    r: "file_fits file1 (rewrite_spot p i off) (length rc)" "write_at_spot ps (rewrite_spot p i off) rc file1 = Ret file'"
    "rewrite_primary ps p i rc file1 = Ret (Inr file')" by auto
  have a: "spot_address (rewrite_spot p i off) = (p, i)" by (simp add: spot_address_def rewrite_spot_def)
  have "file_stores ps file1 [((p, i), rc)] file'"
    using records.stores_one [OF r(1) rc(1) r(2) records.stores_done] by (simp add: a)
  then have "file_stores ps file [(spot_address sp, chain_copy old), ((p, i), rc)] file'"
    by (rule records.stores_one [OF push(2) copy push(3)])
  then show thesis using that push(1) r(3) by blast
qed

text \<open>The push keeps the slot's record, so a record no longer than it always fits.\<close>

lemma shorter_fits:
  assumes ok: "file_ok ps file" and old: "record_at file (p, i) = Some old" "live old"
    and room: "find_space ps rel (length old) file = Ret (Some sp)" and n: "n \<le> length old"
  obtains file1 where "push_back_version ins ps rel p i file = Ret (Inr ((spot_page sp, spot_slot sp, old ! 12), file1))"
    "slot_fits ps file1 p i n"
proof -
  obtain file1 where push: "push_back_version ins ps rel p i file = Ret (Inr ((spot_page sp, spot_slot sp, old ! 12), file1))"
    "file_fits file sp (length (chain_copy old))" "write_at_spot ps sp (chain_copy old) file = Ret file1"
    "record_at file (spot_address sp) = None"
    using push_back_stored [OF ok old room, of ins] by blast
  have file1: "file_ok ps file1" "record_at file1 = (record_at file)(spot_address sp \<mapsto> chain_copy old)"
    using write_at_spot_ok [OF ok push(2) live_copy(3) [OF old(2)]] push(3) by auto
  have "record_at file1 (p, i) = Some old" using file1(2) push(4) old(1) by auto
  from record_at_page [OF file1(1) this] obtain page where "img_page file1 p = Some page" "snd (dir_of page (unat i)) = length old"
    by metis
  then have "slot_fits ps file1 p i n" using n by (simp add: slot_fits_def)
  then show thesis using that push(1) by blast
qed

lemma update_stores:
  assumes "file_ok ps file" "record_at file (p, i) = Some old" "live old"
    and "find_space ps rel (length old) file = Ret (Some sp)"
    and push: "push_back_version ins ps rel p i file = Ret (Inr (b, file1))"
    and fits: "\<not> oversize ps im" "slot_fits ps file1 p i (length (packed_rhd tx (spot_page sp) (spot_slot sp) fmt im))"
  shows "\<exists>file'. update_record_under ins ps rel tx p i im fmt file = Ret (Inr file') \<and>
    file_stores ps file [(spot_address sp, chain_copy old), ((p, i), packed_rhd tx (spot_page sp) (spot_slot sp) fmt im)] file'"
proof -
  let ?rc = "packed_rhd tx (spot_page sp) (spot_slot sp) fmt im"
  have "?rc \<noteq> []" by (simp add: packed_rhd_def split: prod.split)
  from pushed_and_rewritten [OF assms(1-5) this fits(2)] obtain file' where
    "b = (spot_page sp, spot_slot sp, old ! 12)" "rewrite_primary ps p i ?rc file1 = Ret (Inr file')"
    "file_stores ps file [(spot_address sp, chain_copy old), ((p, i), ?rc)] file'" by blast
  then show ?thesis using fits(1) push by (simp add: update_record_under_def)
qed

lemma delete_stores:
  assumes "file_ok ps file" "record_at file (p, i) = Some old" "live old"
    and "find_space ps rel (length old) file = Ret (Some sp)"
  shows "\<exists>file'. delete_records_under ins ps rel [(p, i)] tx file = Ret (Inr (\<lparr>dml_tx_id = ucast tx, dml_affected = 1\<rparr>, file')) \<and>
    file_stores ps file [(spot_address sp, chain_copy old),
      ((p, i), deleted_stub tx (spot_page sp) (spot_slot sp) (old ! 12))] file'"
proof -
  let ?rc = "deleted_stub tx (spot_page sp) (spot_slot sp) (old ! 12)"
  have len: "length ?rc = 22" by (simp add: deleted_stub_def)
  then have rc: "?rc \<noteq> []" "length ?rc \<le> length old" using assms(3) by (auto simp: live_def RHDF_DATA_OFFSET_def)
  obtain file1 where push: "push_back_version ins ps rel p i file = Ret (Inr ((spot_page sp, spot_slot sp, old ! 12), file1))"
    "slot_fits ps file1 p i (length ?rc)" using shorter_fits [OF assms rc(2), of ins] by blast
  from pushed_and_rewritten [OF assms push(1) rc(1) push(2)] obtain file' where
    "rewrite_primary ps p i ?rc file1 = Ret (Inr file')"
    "file_stores ps file [(spot_address sp, chain_copy old), ((p, i), ?rc)] file'" by blast
  then show ?thesis using push(1) by (simp add: delete_records_under_def)
qed

subsection \<open>Decoding the copy\<close>

lemma flag_or_chain:
  "has_flag (fl OR REC_CHAIN) REC_BLOB = has_flag fl REC_BLOB"
  "has_flag (fl OR REC_CHAIN) REC_INCOMPLETE = has_flag fl REC_INCOMPLETE"
  "has_flag (fl OR REC_CHAIN) REC_LONG_TRANUM = has_flag fl REC_LONG_TRANUM"
  "has_flag (fl OR REC_CHAIN) REC_NOT_PACKED = has_flag fl REC_NOT_PACKED"
  "has_flag (fl OR REC_CHAIN) REC_DELETED = has_flag fl REC_DELETED"
  "has_flag (fl OR REC_CHAIN) REC_DELTA = has_flag fl REC_DELTA"
  "has_flag (fl OR REC_CHAIN) REC_FRAGMENT = has_flag fl REC_FRAGMENT"
  "has_flag (fl OR REC_CHAIN) REC_CHAIN"
  by (simp_all add: has_flag_def rec_flags bit.conj_disj_distrib2)

lemma has_flag_or: "has_flag fl (a OR b) \<longleftrightarrow> has_flag fl a \<or> has_flag fl b"
proof -
  have "x OR y = 0 \<longleftrightarrow> x = 0 \<and> y = 0" for x y :: u16 by (auto simp: bit_eq_iff bit_simps)
  then show ?thesis by (auto simp: has_flag_def bit.conj_disj_distrib)
qed

lemma decode_chain_copy:
  assumes live: "live old" and h: "decode_record i old = Ret (Some h)"
  shows "decode_record j (chain_copy old) = Ret (Some (h\<lparr>rh_slot := j, rh_flags := rh_flags h OR REC_CHAIN\<rparr>))"
    and "rh_flags h = flags_of old"
proof -
  let ?fl = "flags_of old" and ?c = "chain_copy old"
  have len: "22 \<le> length old" using live by (simp add: live_def RHDF_DATA_OFFSET_def)
  have blob: "\<not> has_flag ?fl REC_BLOB" using live by (simp add: live_def has_flag_or)
  have fl: "u16_at old 10 = Ret ?fl" "u16_at ?c 10 = Ret (?fl OR REC_CHAIN)"
    using len flags_of_at [of old] u16_at_splice [of 10 old "?fl OR REC_CHAIN"] by (simp_all add: chain_copy_def)
  have same: "u32_at ?c 0 = u32_at old 0" "u32_at ?c 4 = u32_at old 4" "u16_at ?c 8 = u16_at old 8"
    "u16_at ?c 14 = u16_at old 14" "u32_at ?c 16 = u32_at old 16" "u16_at ?c 20 = u16_at old 20"
    "rs_index ?c 12 = rs_index old 12"
    using len by (simp_all add: chain_copy_def u_at_splice_other rs_index_def nth_splice)
  have tail: "rs_slice_from ?c k = rs_slice_from old k" if "12 \<le> k" for k
    using that len by (auto simp: chain_copy_def rs_slice_from_def splice_def)
  have t: "tranum ?c (?fl OR REC_CHAIN) = tranum old ?fl"
    unfolding tranum_def by (simp only: flag_or_chain same)
  obtain tx k where k: "tranum old ?fl = Ret (tx, k)" "13 \<le> k"
    using h fl len blob tranum_offset [of old ?fl] by (auto simp: decode_record_def rec_offsets split: Option.bind_splits if_splits)
  have "decode_record j ?c = map_option (map_option (\<lambda>h. h\<lparr>rh_slot := j, rh_flags := ?fl OR REC_CHAIN\<rparr>)) (decode_record i old)"
    using len blob k tail [of k]
    by (cases "has_flag ?fl REC_INCOMPLETE")
      (auto simp: decode_record_def fl t same flag_or_chain rec_offsets split: Option.bind_splits)
  moreover show "rh_flags h = ?fl"
    using h fl len blob k by (auto simp: decode_record_def rec_offsets split: Option.bind_splits if_splits)
  ultimately show "decode_record j ?c = Ret (Some (h\<lparr>rh_slot := j, rh_flags := rh_flags h OR REC_CHAIN\<rparr>))" using h by simp
qed

end
