(* ===== verification/Dml_Visibility.thy ===== *)
theory Dml_Visibility
  imports Dml_Versions
begin

unbundle bit_operations_syntax

text \<open>
  What readers see of an update or delete. The links of a file - back pointers and fragment pointers -
  lead to chain versions and fragments only, so overwriting a primary record and filling a free address
  changes no version and no fragment that another record reaches. The walk from the chain copy is then
  the walk from the old head, and the new head adds one step for the readers that pass it.
\<close>

subsection \<open>Links\<close>

definition linked :: "image \<Rightarrow> record_header \<Rightarrow> bool" where
  "linked file h \<longleftrightarrow>
     (rh_back_page h \<noteq> 0 \<longrightarrow> (\<exists>r. record_at file (rh_back_page h, rh_back_line h) = Some r \<and> has_flag (flags_of r) REC_CHAIN)) \<and>
     (\<forall>p l. rh_frag h = Some (p, l) \<longrightarrow> p \<noteq> 0 \<longrightarrow>
        (\<exists>r. record_at file (p, l) = Some r \<and> has_flag (flags_of r) REC_FRAGMENT))"

definition links_ok :: "image \<Rightarrow> bool" where
  "links_ok file \<longleftrightarrow>
     (\<forall>a r h. record_at file a = Some r \<longrightarrow> decode_record (snd a) r = Ret (Some h) \<longrightarrow> linked file h)"

text \<open>The chain versions and fragments of a file are those of another.\<close>

definition kept :: "image \<Rightarrow> image \<Rightarrow> bool" where
  "kept file file' \<longleftrightarrow>
     (\<forall>a r. record_at file a = Some r \<longrightarrow> has_flag (flags_of r) REC_CHAIN \<or> has_flag (flags_of r) REC_FRAGMENT \<longrightarrow>
        record_at file' a = Some r)"

lemma linked_kept: "linked file h \<Longrightarrow> kept file file' \<Longrightarrow> linked file' h"
  unfolding linked_def kept_def by blast

lemma fetch_linked:
  assumes "file_ok ps file" "links_ok file" "fetch_record file ps p l = Ret (Some h)"
  shows "linked file h"
  using assms(2,3) unfolding fetch_record_at [OF assms(1)] links_ok_def
  by (force split: option.splits)

lemma fetch_back:
  assumes "file_ok ps file" "file_ok ps file'" "kept file file'" "linked file h" "rh_back_page h \<noteq> 0"
  shows "fetch_record file' ps (rh_back_page h) (rh_back_line h) = fetch_record file ps (rh_back_page h) (rh_back_line h)"
proof -
  obtain r where "record_at file (rh_back_page h, rh_back_line h) = Some r" "has_flag (flags_of r) REC_CHAIN"
    using assms(4,5) unfolding linked_def by blast
  then show ?thesis using assms(3) unfolding kept_def
    by (simp add: fetch_record_at [OF assms(1)] fetch_record_at [OF assms(2)])
qed

lemma assemble_kept:
  assumes ok: "file_ok ps file" "file_ok ps file'" and links: "links_ok file" and kept: "kept file file'"
    and start: "\<And>p l. fr = Some (p, l) \<Longrightarrow> p \<noteq> 0 \<Longrightarrow> \<exists>r. record_at file (p, l) = Some r \<and> has_flag (flags_of r) REC_FRAGMENT"
  shows "assemble_loop file' ps n fr out = assemble_loop file ps n fr out"
  using start
proof (induction n arbitrary: fr out)
  case 0
  then show ?case by (cases fr) auto
next
  case (Suc n)
  show ?case
  proof (cases fr)
    case (Some pl)
    obtain p l where pl: "pl = (p, l)" by fastforce
    show ?thesis
    proof (cases "p = 0")
      case False
      then obtain r where r: "record_at file (p, l) = Some r" "has_flag (flags_of r) REC_FRAGMENT"
        using Suc.prems Some pl by blast
      then have "record_at file' (p, l) = Some r" using kept unfolding kept_def by blast
      then have same: "fetch_record file' ps p l = fetch_record file ps p l"
        using r(1) by (simp add: fetch_record_at [OF ok(1)] fetch_record_at [OF ok(2)])
      have step: "assemble_loop file' ps n (rh_frag h) o' = assemble_loop file ps n (rh_frag h) o'"
        if "fetch_record file ps p l = Ret (Some h)" for h o'
        using fetch_linked [OF ok(1) links that] unfolding linked_def by (intro Suc.IH) blast
      show ?thesis
        using False same step by (auto simp: Some pl split: option.split Option.bind_split)
    qed (simp add: Some pl)
  qed simp
qed

lemma byte_len_file: "file_ok ps file \<Longrightarrow> byte_len file = num_pages file * ps"
proof -
  assume "file_ok ps file"
  then have "map length (img_pages file) = replicate (length (img_pages file)) ps"
    by (auto simp: file_ok_def map_replicate_const [symmetric])
  then show ?thesis by (simp add: byte_len_def num_pages_def sum_list_replicate)
qed

lemma assembled_kept:
  assumes "file_ok ps file" "file_ok ps file'" "links_ok file" "kept file file'" "num_pages file' = num_pages file"
    and "linked file h"
  shows "assembled_image_prefix file' ps h m = assembled_image_prefix file ps h m"
proof -
  have "byte_len file' = byte_len file" using assms(5) byte_len_file [OF assms(1)] byte_len_file [OF assms(2)] by simp
  moreover have "assemble_loop file' ps n (rh_frag h) out = assemble_loop file ps n (rh_frag h) out" for n out
    using assms(6) unfolding linked_def by (intro assemble_kept [OF assms(1-4)]) blast
  ultimately show ?thesis by (simp add: assembled_image_prefix_def split: option.split)
qed

subsection \<open>The walk from the copy\<close>

text \<open>The same version under another slot number, as a chain version perhaps.\<close>

definition twin :: "record_header \<Rightarrow> record_header \<Rightarrow> bool" where
  "twin v v' \<longleftrightarrow> (\<exists>j fl. v' = v\<lparr>rh_slot := j, rh_flags := fl\<rparr> \<and> (fl = rh_flags v \<or> fl = rh_flags v OR REC_CHAIN))"

lemma twin_refl: "twin v v"
  unfolding twin_def by (intro exI [of _ "rh_slot v"] exI [of _ "rh_flags v"]) simp

lemma twin_fields:
  assumes "twin v v'"
  shows "rh_transaction v' = rh_transaction v" "rh_back_page v' = rh_back_page v" "rh_back_line v' = rh_back_line v"
    "has_flag (rh_flags v') REC_DELETED = has_flag (rh_flags v) REC_DELETED"
    "has_flag (rh_flags v') REC_DELTA = has_flag (rh_flags v) REC_DELTA"
    "rh_format v' = rh_format v" "rh_frag v' = rh_frag v"
    "assembled_image_prefix file ps v' m = assembled_image_prefix file ps v m"
    "linked file v' = linked file v"
  using assms by (auto simp: twin_def flag_or_chain linked_def assembled_image_prefix_def image_prefix_def piece_def cong: option.case_cong)

lemma exists_loop_twin:
  assumes ok: "file_ok ps file" "file_ok ps file'" and links: "links_ok file" and kept: "kept file file'"
  shows "exists_loop file ps tips own strict snap v = Ret r \<Longrightarrow> linked file v \<Longrightarrow> twin v v' \<Longrightarrow>
    exists_loop file' ps tips own strict snap v' = Ret r"
proof -
  have "\<forall>v'. f = file \<and> q = ps \<and> linked file v \<and> twin v v' \<longrightarrow> exists_loop file' ps tips own strict snap v' = Ret r"
    if "exists_loop f q tips own strict snap v = Ret r" for f q v r
    using that
  proof (induction rule: exists_loop.raw_induct [rotated 1, consumes 1, case_names step])
    case (step loop f q tips own strict snap v r)
    show ?case
    proof (intro allI impI, elim conjE)
      fix v' assume f: "f = file" "q = ps" and linked: "linked file v" and twin: "twin v v'"
      note tw = twin_fields(1-4) [OF twin]
      have link: "fetch_record file' ps (rh_back_page v) (rh_back_line v) = fetch_record file ps (rh_back_page v) (rh_back_line v)"
        if "rh_back_page v \<noteq> 0" by (rule fetch_back [OF ok kept linked that])
      have IH: "exists_loop file' ps tips own st snap b = Ret y"
        if "loop file ps tips own st snap b = Ret y" "fetch_record file ps p l = Ret (Some b)" for b y p l st
        using step(1) that fetch_linked [OF ok(1) links that(2)] twin_refl by blast
      show "exists_loop file' ps tips own strict snap v' = Ret r"
        using step(2) unfolding f
        by (subst exists_loop.simps) (auto simp: tw link IH split: Option.bind_splits if_splits option.splits)
    qed
  qed
  then show "exists_loop file ps tips own strict snap v = Ret r \<Longrightarrow> linked file v \<Longrightarrow> twin v v' \<Longrightarrow>
      exists_loop file' ps tips own strict snap v' = Ret r" by blast
qed

text \<open>The walk for rows, entered with the image in hand; the walked counter starts one step further.\<close>

definition one_further :: "u64 + visible_version option \<Rightarrow> u64 + visible_version option" where
  "one_further = map_sum id (map_option (\<lambda>vv. vv\<lparr>vv_walked := vv_walked vv + 1\<rparr>))"

lemma one_further_simps [simp]:
  "one_further (Inl t) = Inl t"
  "one_further (Inr r) = Inr (map_option (\<lambda>vv. vv\<lparr>vv_walked := vv_walked vv + 1\<rparr>) r)"
  by (simp_all add: one_further_def)

lemma found_further:
  assumes "twin v v'"
  shows "found_version v' img (w + 1) d = map_option (\<lambda>vv. vv\<lparr>vv_walked := vv_walked vv + 1\<rparr>) (found_version v img w d)"
  by (cases img) (simp_all add: found_version_def twin_fields [OF assms])

lemma version_loop_twin:
  assumes ok: "file_ok ps file" "file_ok ps file'" and links: "links_ok file" and kept: "kept file file'"
    and pages: "num_pages file' = num_pages file"
  shows "version_loop file ps tips own strict snap v img False w d = Ret r \<Longrightarrow> linked file v \<Longrightarrow> twin v v' \<Longrightarrow>
    version_loop file' ps tips own strict snap v' img False (w + 1) d = Ret (one_further r)"
proof -
  have two: "u + 1 + 1 = 2 + u" for u :: u32 by simp
  have "\<forall>v'. f = file \<and> q = ps \<and> \<not> pre \<and> linked file v \<and> twin v v' \<longrightarrow>
      version_loop file' ps tips own strict snap v' img False (w + 1) d = Ret (one_further r)"
    if "version_loop f q tips own strict snap v img pre w d = Ret r" for f q v img pre w d r
    using that
  proof (induction rule: version_loop.raw_induct [rotated 1, consumes 1, case_names step])
    case (step loop f q tips own strict snap v img pre w d r)
    show ?case
    proof (intro allI impI, elim conjE)
      fix v' assume f: "f = file" "q = ps" and pre: "\<not> pre" and linked: "linked file v" and twin: "twin v v'"
      note tw = twin_fields(1-5) [OF twin]
      have link: "fetch_record file' ps (rh_back_page v) (rh_back_line v) = fetch_record file ps (rh_back_page v) (rh_back_line v)"
        if "rh_back_page v \<noteq> 0" by (rule fetch_back [OF ok kept linked that])
      have image: "assembled_image file' ps b = assembled_image file ps b"
        if "fetch_record file ps p l = Ret (Some b)" for b p l
        unfolding assembled_image_def
        by (rule assembled_kept [OF ok links kept pages fetch_linked [OF ok(1) links that]])
      have IH: "version_loop file' ps tips own st snap b i False (2 + w') d' = Ret (one_further y)"
        if "loop file ps tips own st snap b i False (w' + 1) d' = Ret y" "fetch_record file ps p l = Ret (Some b)" for b i w' d' y p l st
        using step(1) that fetch_linked [OF ok(1) links that(2)] twin_refl [of b] two [of w'] by metis
      have stepi: "step_image v' i bd = step_image v i bd" for i bd by (simp add: step_image_def tw)
      show "version_loop file' ps tips own strict snap v' img False (w + 1) d = Ret (one_further r)"
        using step(2) pre unfolding f
        by (subst version_loop.simps)
          (auto simp: tw link image IH stepi found_further [OF twin] split: Option.bind_splits if_splits option.splits)
    qed
  qed
  then show "version_loop file ps tips own strict snap v img False w d = Ret r \<Longrightarrow> linked file v \<Longrightarrow> twin v v' \<Longrightarrow>
      version_loop file' ps tips own strict snap v' img False (w + 1) d = Ret (one_further r)" by blast
qed

end
