(* ===== verification/Dml_Guarantees.thy ===== *)
theory Dml_Guarantees
  imports Dml_Visibility
begin

unbundle bit_operations_syntax

text \<open>
  What inserts, updates and deletes guarantee: nothing stored is disturbed, the layout and the links of
  the file stay intact, and every reader sees either the old version or the new one.
\<close>

subsection \<open>After two stores\<close>

text \<open>The state an update or delete of \<^verbatim>\<open>(p, i)\<close> leaves: the copy of the old record at the spot and the
  new record in its place.\<close>

definition superseded ::
    "nat \<Rightarrow> image \<Rightarrow> image \<Rightarrow> u32 \<Rightarrow> u16 \<Rightarrow> spot \<Rightarrow> byte list \<Rightarrow> byte list \<Rightarrow> record_header \<Rightarrow> record_header \<Rightarrow> bool" where
  "superseded ps file file' p i sp old rc h h' \<longleftrightarrow>
     file_ok ps file \<and> links_ok file \<and>
     record_at file (p, i) = Some old \<and> live old \<and> decode_record i old = Ret (Some h) \<and>
     record_at file (spot_address sp) = None \<and> spot_page sp \<noteq> 0 \<and>
     file_stores ps file [(spot_address sp, chain_copy old), ((p, i), rc)] file' \<and>
     decode_record i rc = Ret (Some h') \<and> rh_back_page h' = spot_page sp \<and> rh_back_line h' = spot_slot sp \<and>
     rh_frag h' = None \<and> \<not> has_flag (rh_flags h') REC_DELTA \<and> \<not> has_flag (rh_flags h') REC_INCOMPLETE"

lemma supersededD:
  assumes "superseded ps f f' p i sp old rc h h'"
  shows "file_ok ps f" "links_ok f" "record_at f (p, i) = Some old" "live old" "decode_record i old = Ret (Some h)"
    "record_at f (spot_address sp) = None" "spot_page sp \<noteq> 0" "(p, i) \<noteq> spot_address sp"
    "decode_record i rc = Ret (Some h')" "rh_back_page h' = spot_page sp" "rh_back_line h' = spot_slot sp"
    "rh_frag h' = None" "\<not> has_flag (rh_flags h') REC_DELTA" "\<not> has_flag (rh_flags h') REC_INCOMPLETE"
  using assms by (auto simp: superseded_def)

lemma superseded_state:
  assumes "superseded ps f f' p i sp old rc h h'"
  shows "file_ok ps f'" "num_pages f' = num_pages f"
    "record_at f' = (record_at f)(spot_address sp \<mapsto> chain_copy old, (p, i) \<mapsto> rc)" "kept f f'"
proof -
  note D = supersededD [OF assms]
  have "file_stores ps f [(spot_address sp, chain_copy old), ((p, i), rc)] f'" using assms by (simp add: superseded_def)
  from records.stores_read [OF this, of "num_pages f"]
  show "file_ok ps f'" "num_pages f' = num_pages f" and r: "record_at f' = (record_at f)(spot_address sp \<mapsto> chain_copy old, (p, i) \<mapsto> rc)"
    using D(1,8) by (auto simp: fun_eq_iff map_add_def)
  show "kept f f'" using D(3,4,6) by (auto simp: kept_def r live_def has_flag_or)
qed

text \<open>The new head, and the old one behind it.\<close>

abbreviation copied :: "record_header \<Rightarrow> u16 \<Rightarrow> record_header" where
  "copied h j \<equiv> h\<lparr>rh_slot := j, rh_flags := rh_flags h OR REC_CHAIN\<rparr>"

lemma superseded_fetch:
  assumes "superseded ps f f' p i sp old rc h h'"
  shows "fetch_record f' ps p i = Ret (Some h')"
    "fetch_record f' ps (spot_page sp) (spot_slot sp) = Ret (Some (copied h (spot_slot sp)))"
    "linked f h" "linked f' h'" "twin h (copied h j)"
proof -
  note D = supersededD [OF assms] and R = superseded_state [OF assms]
  show "fetch_record f' ps p i = Ret (Some h')" using D(9) by (simp add: fetch_record_at [OF R(1)] R(3))
  show "fetch_record f' ps (spot_page sp) (spot_slot sp) = Ret (Some (copied h (spot_slot sp)))"
    using decode_chain_copy(1) [OF D(4,5), of "spot_slot sp"] D(8)
    by (auto simp: fetch_record_at [OF R(1)] R(3) spot_address_def)
  show "linked f h" using D(2,3,5) unfolding links_ok_def by fastforce
  have "u16_at (chain_copy old) 10 = Ret (flags_of old OR REC_CHAIN)"
    using live_copy [OF D(4)] unfolding chain_copy_def by (intro u16_at_splice) simp
  then have "has_flag (flags_of (chain_copy old)) REC_CHAIN" by (simp add: flags_of_def flag_or_chain)
  then show "linked f' h'" using D(8,10-12) by (auto simp: linked_def R(3) spot_address_def)
  show "twin h (copied h j)" unfolding twin_def by blast
qed

lemma superseded_links:
  assumes "superseded ps f f' p i sp old rc h h'"
  shows "links_ok f'"
  unfolding links_ok_def
proof (intro allI impI)
  note D = supersededD [OF assms] and R = superseded_state [OF assms] and F = superseded_fetch [OF assms]
  fix a r g assume r: "record_at f' a = Some r" "decode_record (snd a) r = Ret (Some g)"
  consider "a = (p, i)" "r = rc" | "a = spot_address sp" "r = chain_copy old" "a \<noteq> (p, i)" | "record_at f a = Some r"
    using r(1) unfolding R(3) by (cases "a = (p, i)"; cases "a = spot_address sp"; simp)
  then show "linked f' g"
  proof cases
    case 1
    then show ?thesis using r(2) D(9) F(4) by simp
  next
    case 2
    then have "g = copied h (snd a)" using r(2) decode_chain_copy(1) [OF D(4,5), of "snd a"] by simp
    then show ?thesis using linked_kept [OF F(3) R(4)] by (simp add: linked_def)
  next
    case 3
    then show ?thesis using r(2) D(2) linked_kept [OF _ R(4)] unfolding links_ok_def by blast
  qed
qed

text \<open>A reader who passes the new version reads what it read before, one step further; for counting
  the answer is the same.\<close>

lemma superseded_exists:
  assumes S: "superseded ps f f' p i sp old rc h h'"
    and "passed_version tips own strict snap h'" "exists_loop f ps tips own strict snap h = Ret r"
  shows "exists_loop f' ps tips own strict snap h' = Ret r"
proof -
  note D = supersededD [OF S] and R = superseded_state [OF S] and F = superseded_fetch [OF S]
  have "exists_loop f' ps tips own strict snap (copied h (spot_slot sp)) = Ret r"
    by (rule exists_loop_twin [OF D(1) R(1) D(2) R(4) assms(3) F(3,5)])
  then show ?thesis using exists_loop_passed [OF assms(2), of f' ps] D(7,10,11) F(2) by simp
qed

lemma superseded_walk:
  assumes S: "superseded ps f f' p i sp old rc h h'"
    and passed: "passed_version tips own strict snap h'"
    and img: "assembled_image f ps h = Ret (Some w)"
    and r: "version_loop f ps tips own strict snap h (Some w) False 0 0 = Ret r"
  shows "version_loop f' ps tips own strict snap h' img' False 0 0 = Ret (one_further r)"
proof -
  note D = supersededD [OF S] and R = superseded_state [OF S] and F = superseded_fetch [OF S]
  let ?c = "copied h (spot_slot sp)"
  have "version_loop f' ps tips own strict snap ?c (Some w) False (0 + 1) 0 = Ret (one_further r)"
    by (rule version_loop_twin [OF D(1) R(1) D(2) R(4,2) r F(3,5)])
  then have walk: "version_loop f' ps tips own strict snap ?c (Some w) False 1 0 = Ret (one_further r)" by simp
  have "linked f ?c" using F(3) by (simp add: linked_def)
  then have "assembled_image f' ps ?c = assembled_image f ps ?c"
    unfolding assembled_image_def by (rule assembled_kept [OF D(1) R(1) D(2) R(4,2)])
  also have "\<dots> = Ret (Some w)" using img twin_fields(8) [OF F(5)] by (simp add: assembled_image_def)
  finally have image: "assembled_image f' ps ?c = Ret (Some w)" .
  have limbo: "tx_counts tips own snap (rh_transaction h') = Ret False"
    "(if strict \<and> \<not> own_contains own (rh_transaction h') then tx_limbo tips (rh_transaction h') else Ret False) = Ret False"
    using passed by (auto simp: passed_version_def limbo_guard)
  show ?thesis
    by (subst version_loop.simps) (simp add: limbo D(7,10-14) F(2) image step_image_def walk)
qed

subsection \<open>Updates and deletes\<close>

text \<open>A live record of a sound file, with room in the relation for its old version.\<close>

definition updatable :: "nat \<Rightarrow> u16 \<Rightarrow> image \<Rightarrow> u32 \<Rightarrow> u16 \<Rightarrow> byte list \<Rightarrow> record_header \<Rightarrow> spot \<Rightarrow> bool" where
  "updatable ps rel file p i old h sp \<longleftrightarrow> file_ok ps file \<and> links_ok file \<and>
     record_at file (p, i) = Some old \<and> live old \<and> decode_record i old = Ret (Some h) \<and>
     find_space ps rel (length old) file = Ret (Some sp)"

text \<open>What a reader finds at a head: the rows of \<^verbatim>\<open>visible_version_2pc\<close>, and the count of \<^verbatim>\<open>visible_exists_2pc\<close>.
  \<^verbatim>\<open>behind f h f' h'\<close>: whoever passes the head \<^verbatim>\<open>h'\<close> finds what \<^verbatim>\<open>h\<close> gave before.\<close>

definition behind :: "nat \<Rightarrow> image \<Rightarrow> record_header \<Rightarrow> image \<Rightarrow> record_header \<Rightarrow> bool" where
  "behind ps f h f' h' \<longleftrightarrow>
     (\<forall>tips own strict snap. passed_version tips own strict snap h' \<longrightarrow>
        (\<forall>r. visible_exists_2pc f ps h tips own strict snap = Ret r \<longrightarrow>
           visible_exists_2pc f' ps h' tips own strict snap = Ret r) \<and>
        (\<forall>w r. assembled_image f ps h = Ret (Some w) \<longrightarrow> visible_version_2pc f ps h tips own strict snap = Ret r \<longrightarrow>
           visible_version_2pc f' ps h' tips own strict snap = Ret (one_further r)))"

lemma superseded_behind:
  assumes S: "superseded ps f f' p i sp old rc h h'"
    and kind: "\<not> has_flag (rh_flags h') (REC_CHAIN OR REC_FRAGMENT OR REC_BLOB)"
    and img': "has_flag (rh_flags h') REC_DELETED \<or> assembled_image f' ps h' = Ret img'"
  shows "behind ps f h f' h'"
proof -
  have h: "\<not> has_flag (rh_flags h) (REC_CHAIN OR REC_FRAGMENT OR REC_BLOB)" "\<not> has_flag (rh_flags h) REC_DELETED"
    using supersededD(4,5) [OF S] decode_chain_copy(2) by (auto simp: live_def has_flag_or)
  have one: "visible_exists_2pc f' ps h' tips own strict snap = Ret r"
    if "passed_version tips own strict snap h'" "visible_exists_2pc f ps h tips own strict snap = Ret r"
    for tips own strict snap r
    using that(2) superseded_exists [OF S that(1)] h(1) kind by (simp add: visible_exists_2pc_def)
  have two: "visible_version_2pc f' ps h' tips own strict snap = Ret (one_further r)"
    if "passed_version tips own strict snap h'" "assembled_image f ps h = Ret (Some w)"
      "visible_version_2pc f ps h tips own strict snap = Ret r" for tips own strict snap w r
  proof -
    have "version_loop f ps tips own strict snap h (Some w) False 0 0 = Ret r"
      using that(2,3) h(2) by (simp add: visible_version_2pc_def visible_version_2pc_prefix_def assembled_image_def)
    from superseded_walk [OF S that(1,2) this] show ?thesis
      using img' by (auto simp: visible_version_2pc_def visible_version_2pc_prefix_def assembled_image_def)
  qed
  show ?thesis unfolding behind_def using one two by blast
qed

lemma counted_reads:
  assumes "counted_version tips own snap h"
  shows "visible_version_2pc f ps h tips own strict snap =
    (if has_flag (rh_flags h) REC_DELETED then Ret (Inr None)
     else map_option (\<lambda>img. Inr (found_version h img 0 0)) (assembled_image f ps h))"
  using assms
  by (auto simp: visible_version_2pc_def visible_version_2pc_prefix_def assembled_image_def counted_version_def
      version_loop.simps [of f ps tips own strict snap h] found_version_def map_option_case split: option.split)

lemma updatable_spot:
  assumes "updatable ps rel file p i old h sp"
  shows "record_at file (spot_address sp) = None" "spot_page sp \<noteq> 0"
proof -
  have "0 < length old" "file_ok ps file" "find_space ps rel (length old) file = Ret (Some sp)"
    using assms live_copy(2) [of old] by (auto simp: updatable_def)
  note fits = find_space_fits [OF this(2,1,3)]
  then show "record_at file (spot_address sp) = None" by blast
  show "spot_page sp \<noteq> 0" using fits \<open>file_ok ps file\<close> by (auto simp: file_fits_def file_ok_def split: option.splits)
qed

lemma updated:
  assumes u: "updatable ps rel file p i old h sp"
    and push: "push_back_version ins ps rel p i file = Ret (Inr (b, file1))"
    and fits: "\<not> oversize ps im" "slot_fits ps file1 p i (length (packed_rhd tx (spot_page sp) (spot_slot sp) fmt im))"
  obtains file' h' k where "update_record_under ins ps rel tx p i im fmt file = Ret (Inr file')"
    "superseded ps file file' p i sp old (packed_rhd tx (spot_page sp) (spot_slot sp) fmt im) h h'"
    "rh_transaction h' = ucast tx" "rh_format h' = fmt" "\<not> has_flag (rh_flags h') (REC_CHAIN OR REC_FRAGMENT OR REC_BLOB)"
    "\<not> has_flag (rh_flags h') REC_DELETED" "assembled_image file' ps h' = Ret (Some (im @ replicate k 0))" "k \<le> 9 - length im"
proof -
  have U: "file_ok ps file" "links_ok file" "record_at file (p, i) = Some old" "live old" "decode_record i old = Ret (Some h)"
    "find_space ps rel (length old) file = Ret (Some sp)" using u by (simp_all add: updatable_def)
  obtain pf d where pc: "packed_piece im = (pf, d)" by fastforce
  have "ps \<le> 65536" using record_at_page [OF U(1,3)] by (metis page_ok_def)
  then have small: "length im + 9 < USIZE_MAX" using fits(1) by (auto simp: oversize_def USIZE_MAX_def)
  note pi = packed_piece_image [OF pc small]
  have pf: "\<not> has_flag pf REC_BLOB" "\<not> has_flag pf REC_INCOMPLETE" "\<not> has_flag pf REC_LONG_TRANUM" "\<not> has_flag pf REC_DELTA"
      "\<not> has_flag pf (REC_CHAIN OR REC_FRAGMENT OR REC_BLOB)" "\<not> has_flag pf REC_DELETED"
    using pi(2) by (auto simp: has_flag_def rec_flags)
  let ?h' = "\<lparr>rh_slot = i, rh_transaction = ucast tx, rh_back_page = spot_page sp, rh_back_line = spot_slot sp,
    rh_flags = pf, rh_format = fmt, rh_packed = d @ replicate (9 - length d) 0, rh_frag = None\<rparr>"
  have dec: "decode_record i (packed_rhd tx (spot_page sp) (spot_slot sp) fmt im) = Ret (Some ?h')"
    using decode_rhd [OF pf(1-3)] by (simp add: packed_rhd_def pc)
  obtain file' where file': "update_record_under ins ps rel tx p i im fmt file = Ret (Inr file')"
    "file_stores ps file [(spot_address sp, chain_copy old), ((p, i), packed_rhd tx (spot_page sp) (spot_slot sp) fmt im)] file'"
    using update_stores [OF U(1,3,4,6) push fits] by blast
  have S: "superseded ps file file' p i sp old (packed_rhd tx (spot_page sp) (spot_slot sp) fmt im) h ?h'"
    using U dec file'(2) updatable_spot [OF u] pf(2,4) by (simp add: superseded_def)
  obtain k where "image_prefix ?h' USIZE_MAX = Some (im @ replicate k 0)" "k \<le> 9 - length im" using pi(1) by blast
  moreover from this have "assembled_image file' ps ?h' = Ret (Some (im @ replicate k 0))"
    using pf(2) by (simp add: assembled_image_def assembled_image_prefix_def)
  ultimately show thesis using that [OF file'(1) S] pf by simp
qed

text \<open>C29: An update that fits its page always succeeds and separates the readers. It fits when,
  after the old version has been copied away, the new record is no longer than the slot's record or the
  page has room for it below its other records, to which it then moves. The file stays sound - its pages
  laid out without overlap, its links leading to chain versions and fragments - the new head carries the
  writing transaction, a reader who counts that transaction reads the new image (with at most the zero
  fill of a short record behind it), and a reader who passes it reads exactly what it read before, one
  version further down the chain.\<close>

theorem update_separates_readers:
  assumes "updatable ps rel file p i old h sp"
    and "push_back_version ins ps rel p i file = Ret (Inr (b, file1))"
    and "\<not> oversize ps im" "slot_fits ps file1 p i (length (packed_rhd tx (spot_page sp) (spot_slot sp) fmt im))"
  shows "\<exists>file' h' k. update_record_under ins ps rel tx p i im fmt file = Ret (Inr file') \<and>
    file_ok ps file' \<and> links_ok file' \<and>
    fetch_record file' ps p i = Ret (Some h') \<and> rh_transaction h' = ucast tx \<and> behind ps file h file' h' \<and> k \<le> 9 - length im \<and>
    (\<forall>tips own strict snap. counted_version tips own snap h' \<longrightarrow>
       visible_version_2pc file' ps h' tips own strict snap =
         Ret (Inr (Some \<lparr>vv_image = im @ replicate k 0, vv_format = fmt, vv_walked = 0, vv_deltas = 0, vv_txn = ucast tx\<rparr>)))"
proof -
  obtain file' h' k where U: "update_record_under ins ps rel tx p i im fmt file = Ret (Inr file')"
    and S: "superseded ps file file' p i sp old (packed_rhd tx (spot_page sp) (spot_slot sp) fmt im) h h'"
    and H: "rh_transaction h' = ucast tx" "rh_format h' = fmt" "\<not> has_flag (rh_flags h') (REC_CHAIN OR REC_FRAGMENT OR REC_BLOB)"
      "\<not> has_flag (rh_flags h') REC_DELETED" "assembled_image file' ps h' = Ret (Some (im @ replicate k 0))" "k \<le> 9 - length im"
    using updated [OF assms] by metis
  show ?thesis
    using U H superseded_state(1) [OF S] superseded_links [OF S] superseded_fetch(1) [OF S] superseded_behind [OF S H(3)]
    by (intro exI [of _ file'] exI [of _ h'] exI [of _ k]) (simp add: counted_reads found_version_def)
qed

text \<open>C30: A delete of a live record with room for its old version always succeeds: the file stays
  sound, a reader who counts the deleting transaction finds no row, and a reader who passes it reads
  exactly what it read before.\<close>

theorem delete_separates_readers:
  assumes "updatable ps rel file p i old h sp"
  shows "\<exists>file' h'. delete_records_under ins ps rel [(p, i)] tx file = Ret (Inr (\<lparr>dml_tx_id = ucast tx, dml_affected = 1\<rparr>, file')) \<and>
    file_ok ps file' \<and> links_ok file' \<and>
    fetch_record file' ps p i = Ret (Some h') \<and> rh_transaction h' = ucast tx \<and> behind ps file h file' h' \<and>
    (\<forall>tips own strict snap. counted_version tips own snap h' \<longrightarrow>
       visible_version_2pc file' ps h' tips own strict snap = Ret (Inr None) \<and>
       visible_exists_2pc file' ps h' tips own strict snap = Ret (Inr False))"
proof -
  have U: "file_ok ps file" "links_ok file" "record_at file (p, i) = Some old" "live old" "decode_record i old = Ret (Some h)"
    "find_space ps rel (length old) file = Ret (Some sp)" using assms by (simp_all add: updatable_def)
  let ?rc = "deleted_stub tx (spot_page sp) (spot_slot sp) (old ! 12)"
  let ?h' = "\<lparr>rh_slot = i, rh_transaction = ucast tx, rh_back_page = spot_page sp, rh_back_line = spot_slot sp,
    rh_flags = REC_DELETED, rh_format = old ! 12, rh_packed = replicate 9 0, rh_frag = None\<rparr>"
  have fl: "\<not> has_flag REC_DELETED REC_BLOB" "\<not> has_flag REC_DELETED REC_INCOMPLETE" "\<not> has_flag REC_DELETED REC_LONG_TRANUM"
    "\<not> has_flag REC_DELETED REC_DELTA" "\<not> has_flag REC_DELETED (REC_CHAIN OR REC_FRAGMENT OR REC_BLOB)" "has_flag REC_DELETED REC_DELETED"
    by (simp_all add: has_flag_def rec_flags)
  have dec: "decode_record i ?rc = Ret (Some ?h')"
    using decode_rhd [OF fl(1-3), of i tx "spot_page sp" "spot_slot sp" "old ! 12" "[]"] by (simp add: deleted_stub_def)
  obtain file' where file': "delete_records_under ins ps rel [(p, i)] tx file = Ret (Inr (\<lparr>dml_tx_id = ucast tx, dml_affected = 1\<rparr>, file'))"
    "file_stores ps file [(spot_address sp, chain_copy old), ((p, i), ?rc)] file'"
    using delete_stores [OF U(1,3,4,6), of ins] by blast
  have S: "superseded ps file file' p i sp old ?rc h ?h'"
    using U dec file'(2) updatable_spot [OF assms] fl(2,4) by (simp add: superseded_def)
  have "visible_exists_2pc file' ps ?h' tips own strict snap = Ret (Inr False)" if "counted_version tips own snap ?h'" for tips own strict snap
    using that fl(5,6) by (simp add: visible_exists_2pc_def exists_loop_counted)
  then show ?thesis
    using file'(1) superseded_state(1) [OF S] superseded_links [OF S] superseded_fetch(1) [OF S] superseded_behind [OF S] fl
    by (intro exI [of _ file'] exI [of _ ?h']) (simp add: counted_reads)
qed

subsection \<open>Inserts\<close>

lemma page_flag_update:
  assumes "page_ok ps page" "is_data page"
  shows "page_ok ps (page[1 := b])" "is_data (page[1 := b])" "count_of (page[1 := b]) = count_of page"
    "i < count_of page \<Longrightarrow> slot_of (page[1 := b]) i = slot_of page i"
proof -
  have d: "take n (drop off (page[1 := b])) = take n (drop off page)" if "2 \<le> off" for n off
    using that by (simp add: drop_update_cancel del: One_nat_def)
  have u: "u16_at (page[1 := b]) off = u16_at page off" if "2 \<le> off" for off
    using d [OF that] by (simp add: u16_at_def rs_slice_def get_range_def del: One_nat_def)
  show c: "count_of (page[1 := b]) = count_of page" by (simp add: count_of_def u del: One_nat_def)
  have dir: "dir_of (page[1 := b]) j = dir_of page j" for j by (rule dir_of_eq) (simp_all add: u del: One_nat_def)
  show "page_ok ps (page[1 := b])" using assms(1) by (simp add: page_ok_def c dir del: One_nat_def)
  show "is_data (page[1 := b])" using assms(2) by (simp add: is_data_def)
  show "slot_of (page[1 := b]) i = slot_of page i" if i: "i < count_of page"
  proof (cases "dir_of page i")
    case (Pair off len)
    then have "len \<noteq> 0 \<Longrightarrow> 2 \<le> off" using assms(1) i unfolding page_ok_def by fastforce
    then show ?thesis using Pair by (simp add: slot_of_def dir d del: One_nat_def)
  qed
qed

lemma mark_primary_ok:
  assumes ok: "file_ok ps file" and page: "img_page file p = Some page" "is_data page"
  shows "\<exists>file'. mark_primary ps p file = Ret file' \<and> file_ok ps file' \<and> record_at file' = record_at file"
proof -
  note fok = file_ok_page [OF ok page(1)]
  obtain b where b: "rs_index page 1 = Ret b" using fok(1,2) by (simp add: rs_index_def)
  define page' where "page' = page[1 := b AND NOT 0x10]"
  note pf = page_flag_update [OF fok(3) [OF page(2)] page(2), where b = "b AND NOT 0x10", folded page'_def]
  define file1 where "file1 = set_page p page' file"
  have ok1: "file_ok ps file1" unfolding file1_def using fok(1) pf(1) page(2)
    by (intro set_page_ok [OF ok page(1)]) (auto simp: page'_def)
  have "record_at file1 a = record_at file a" for a
    using page pf(2-4) by (cases "fst a = p") (simp_all add: record_at_def file1_def page_set_page)
  then have same: "record_at file1 = record_at file" by blast
  have "img_page file1 p = Some page'" using page(1) by (simp add: file1_def page_set_page)
  from clear_fill_bits_ok [OF ok1 this] obtain file' where
    "clear_fill_bits ps p 0x08 file1 = Ret file'" "bits_cleared ps file1 file'" by blast
  then show ?thesis using bits_cleared_keeps(1,2) [OF ok1] same page(1) b
    by (simp add: mark_primary_def file1_def page'_def)
qed

lemma u32_u64_u32: "ucast (ucast (tx :: u32) :: u64) = tx"
  by (rule ucast_up_ucast_id) (simp add: is_up_def source_size target_size)

lemma store_primary_ok:
  assumes ok: "file_ok ps file" and rc: "rc \<noteq> []" and room: "find_space ps rel (length rc) file = Ret (Some sp)"
  shows "\<exists>file'. store_primary ins ps rel msg tx rc file =
      Ret (Inr (\<lparr>out_tx = tx, out_page = spot_page sp, out_slot = spot_slot sp\<rparr>, file')) \<and>
    file_ok ps file' \<and> record_at file (spot_address sp) = None \<and>
    record_at file' = (record_at file)(spot_address sp \<mapsto> rc)"
proof -
  have "0 < length rc" using rc by simp
  note fits = find_space_fits [OF ok this room]
  obtain file1 where file1: "write_at_spot ps sp rc file = Ret file1" "file_ok ps file1"
    "record_at file1 = (record_at file)(spot_address sp \<mapsto> rc)"
    using write_at_spot_ok [OF ok _ rc] fits by blast
  have "record_at file1 (spot_page sp, spot_slot sp) = Some rc" using file1(3) by (simp add: spot_address_def)
  from record_at_page [OF file1(2) this] obtain page where "img_page file1 (spot_page sp) = Some page" "is_data page" by blast
  from mark_primary_ok [OF file1(2) this] file1 show ?thesis
    using fits room by (auto simp: store_primary_def store_piece_def)
qed

text \<open>C31: Inserting a record that fits a page of the relation always succeeds and disturbs nothing: the
  address it gets held no record, every other record and the soundness of the file are kept, and the
  record reads back with the writing transaction, its format and its image, up to the zero fill of a
  short record.\<close>

theorem insert_disturbs_nothing:
  assumes "file_ok ps file" "links_ok file" "\<not> oversize ps im" "ps \<le> 65536"
    and "find_space ps rel (length (packed_rhd tx 0 0 fmt im)) file = Ret (Some sp)"
  shows "\<exists>file' h k. insert_record_under ins ps rel fmt im tx file =
      Ret (Inr (\<lparr>out_tx = ucast tx, out_page = spot_page sp, out_slot = spot_slot sp\<rparr>, file')) \<and>
    file_ok ps file' \<and> links_ok file' \<and> record_at file (spot_address sp) = None \<and>
    (\<forall>a. a \<noteq> spot_address sp \<longrightarrow> record_at file' a = record_at file a) \<and>
    fetch_record file' ps (spot_page sp) (spot_slot sp) = Ret (Some h) \<and>
    rh_transaction h = ucast tx \<and> rh_format h = fmt \<and> is_primary_record h \<and>
    assembled_image file' ps h = Ret (Some (im @ replicate k 0)) \<and> k \<le> 9 - length im"
proof -
  let ?rc = "packed_rhd tx 0 0 fmt im"
  obtain pf d where pc: "packed_piece im = (pf, d)" by fastforce
  have small: "length im + 9 < USIZE_MAX" using assms(3,4) by (auto simp: oversize_def USIZE_MAX_def)
  note pi = packed_piece_image [OF pc small]
  have pf: "\<not> has_flag pf REC_BLOB" "\<not> has_flag pf REC_INCOMPLETE" "\<not> has_flag pf REC_LONG_TRANUM"
      "pf AND (REC_CHAIN OR REC_FRAGMENT OR REC_BLOB OR REC_DELETED) = 0"
    using pi(2) by (auto simp: has_flag_def rec_flags)
  let ?h = "\<lparr>rh_slot = spot_slot sp, rh_transaction = ucast tx, rh_back_page = 0, rh_back_line = 0,
    rh_flags = pf, rh_format = fmt, rh_packed = d @ replicate (9 - length d) 0, rh_frag = None\<rparr>"
  have dec: "decode_record i ?rc = Ret (Some (?h\<lparr>rh_slot := i\<rparr>))" for i
    using decode_rhd [OF pf(1-3)] by (simp add: packed_rhd_def pc)
  have "?rc \<noteq> []" by (simp add: packed_rhd_def split: prod.split)
  from store_primary_ok [OF assms(1) this assms(5), of ins "''no room even on a fresh data page''" "ucast tx"]
  obtain file' where file': "insert_record_under ins ps rel fmt im tx file =
      Ret (Inr (\<lparr>out_tx = ucast tx, out_page = spot_page sp, out_slot = spot_slot sp\<rparr>, file'))"
    "file_ok ps file'" "record_at file (spot_address sp) = None" "record_at file' = (record_at file)(spot_address sp \<mapsto> ?rc)"
    using assms(3) u32_u64_u32 by (auto simp: insert_record_under_def insert_record_as_def)
  have kept: "kept file file'" using file'(3) by (auto simp: kept_def file'(4))
  have "links_ok file'"
    unfolding links_ok_def
  proof (intro allI impI)
    fix a r g assume r: "record_at file' a = Some r" "decode_record (snd a) r = Ret (Some g)"
    show "linked file' g"
    proof (cases "a = spot_address sp")
      case True
      then have "g = ?h\<lparr>rh_slot := snd a\<rparr>" using r dec [of "snd a"] by (simp add: file'(4))
      then show ?thesis by (simp add: linked_def)
    next
      case False
      then have "record_at file a = Some r" using r(1) by (simp add: file'(4))
      then have "linked file g" using r(2) assms(2) unfolding links_ok_def by blast
      then show ?thesis by (rule linked_kept [OF _ kept])
    qed
  qed
  moreover have "fetch_record file' ps (spot_page sp) (spot_slot sp) = Ret (Some ?h)"
    using dec [of "spot_slot sp"] by (simp add: fetch_record_at [OF file'(2)] file'(4) spot_address_def)
  moreover obtain k where "image_prefix ?h USIZE_MAX = Some (im @ replicate k 0)" "k \<le> 9 - length im" using pi(1) by blast
  moreover from this have "assembled_image file' ps ?h = Ret (Some (im @ replicate k 0))"
    using pf(2) by (simp add: assembled_image_def assembled_image_prefix_def)
  ultimately show ?thesis using file' pf(4)
    by (intro exI [of _ file'] exI [of _ ?h] exI [of _ k]) (simp add: is_primary_record_def)
qed

subsection \<open>A small database\<close>

text \<open>Three pages of 128 bytes: a header, the pointer page of relation 7, and its data page with one
  record of 24 bytes in slot 0.\<close>

definition demo_old :: "byte list" where
  "demo_old = rhd_bytes 5 0 0 REC_NOT_PACKED 1 (replicate 11 9)"

definition demo_data_page :: "byte list" where
  "demo_data_page = [5] @ replicate 19 0 @ [7, 0, 1, 0, 104, 0, 24, 0] @ replicate 76 0 @ demo_old"

definition demo_pages :: "byte list list" where
  "demo_pages = [[1] @ replicate 127 0,
     [4, 1] @ replicate 22 0 @ [1, 0, 7, 0] @ replicate 4 0 @ [2, 0, 0, 0] @ replicate 92 0,
     demo_data_page]"

definition demo_db :: image where
  "demo_db = \<lparr>img_pages = demo_pages, img_page_size = 128, ddl_tx = None, img_residue = [], img_deferred = []\<rparr>"

definition demo_spot :: spot where
  "demo_spot = \<lparr>spot_page = 2, spot_slot = 1, spot_append = True, spot_offset = 80\<rparr>"

definition demo_header :: record_header where
  "demo_header = \<lparr>rh_slot = 0, rh_transaction = 5, rh_back_page = 0, rh_back_line = 0, rh_flags = REC_NOT_PACKED,
     rh_format = 1, rh_packed = replicate 11 9, rh_frag = None\<rparr>"

lemma demo_page: "img_page demo_db p = (if p = 0 then Some (demo_pages ! 0) else if p = 1 then Some (demo_pages ! 1)
    else if p = 2 then Some demo_data_page else None)"
proof -
  have "unat p < 3 \<longleftrightarrow> unat p = 0 \<or> unat p = 1 \<or> unat p = 2" by auto
  moreover have "unat p = 0 \<longleftrightarrow> p = 0" "unat p = 1 \<longleftrightarrow> p = 1" "unat p = 2 \<longleftrightarrow> p = 2"
    using word_unat_eq_iff [of p 0] word_unat_eq_iff [of p 1] word_unat_eq_iff [of p 2] by simp_all
  ultimately show ?thesis by (auto simp: img_page_def demo_db_def demo_pages_def)
qed

lemma demo_layout:
  "\<not> is_data (demo_pages ! 0)" "\<not> is_data (demo_pages ! 1)" "is_data demo_data_page" "count_of demo_data_page = 1"
  "dir_of demo_data_page 0 = (104, 24)" "slot_of demo_data_page 0 = Some demo_old"
  "length (demo_pages ! 0) = 128" "length (demo_pages ! 1) = 128" "length demo_data_page = 128"
  by code_simp+

lemma demo_file_ok: "file_ok 128 demo_db"
proof -
  have "page_ok 128 demo_data_page" using demo_layout by (simp add: page_ok_def)
  moreover have "set (img_pages demo_db) = {demo_pages ! 0, demo_pages ! 1, demo_data_page}"
    by (simp add: demo_db_def demo_pages_def)
  ultimately show ?thesis using demo_layout demo_page [of 0]
    by (simp add: file_ok_def) (simp add: demo_db_def demo_pages_def)
qed

lemma demo_record_at: "record_at demo_db a = (if a = (2, 0) then Some demo_old else None)"
proof -
  obtain p i where a: "a = (p, i)" by fastforce
  have "unat i = 0 \<longleftrightarrow> i = 0" using word_unat_eq_iff [of i 0] by simp
  then show ?thesis using demo_layout by (auto simp: a record_at_def demo_page)
qed

lemma demo_decoded: "decode_record 0 demo_old = Ret (Some demo_header)" "live demo_old"
  "find_space 128 7 (length demo_old) demo_db = Ret (Some demo_spot)" "length demo_old = 24"
  by code_simp+

lemma demo_links: "links_ok demo_db"
  using demo_decoded(1) by (auto simp: links_ok_def demo_record_at linked_def demo_header_def)

lemma demo_updatable: "updatable 128 7 demo_db 2 0 demo_old demo_header demo_spot"
  using demo_file_ok demo_links demo_decoded by (simp add: updatable_def demo_record_at)

text \<open>The new record has 34 bytes, ten more than the old one: it moves below the copy of the old.\<close>

definition demo_image :: "byte list" where
  "demo_image = [1, 2, 3, 4, 5, 6, 7, 8, 9, 10, 11, 12, 13, 14, 15, 16, 17, 18, 19, 20]"

theorem update_separates_readers_witness:
  "\<exists>file'. update_record_under (\<lambda>_ _ _ _ f. Ret (Inr f)) 128 7 9 2 0 demo_image 1 demo_db = Ret (Inr file') \<and>
     links_ok file' \<and> length demo_old < length (packed_rhd 9 2 1 1 demo_image)"
proof -
  have "case push_back_version (\<lambda>_ _ _ _ f. Ret (Inr f)) 128 7 2 0 demo_db of
      Ret (Inr (b, file1)) \<Rightarrow> slot_fits 128 file1 2 0 (length (packed_rhd 9 (spot_page demo_spot) (spot_slot demo_spot) 1 demo_image))
    | _ \<Rightarrow> False" by code_simp
  then obtain b file1 where push: "push_back_version (\<lambda>_ _ _ _ f. Ret (Inr f)) 128 7 2 0 demo_db = Ret (Inr (b, file1))"
    "slot_fits 128 file1 2 0 (length (packed_rhd 9 (spot_page demo_spot) (spot_slot demo_spot) 1 demo_image))"
    by (auto split: option.splits sum.splits)
  have "\<not> oversize 128 demo_image" "length demo_old < length (packed_rhd 9 2 1 1 demo_image)" by code_simp+
  with update_separates_readers [OF demo_updatable push(1) _ push(2)] show ?thesis by blast
qed

theorem delete_separates_readers_witness:
  "\<exists>file'. delete_records_under (\<lambda>_ _ _ _ f. Ret (Inr f)) 128 7 [(2, 0)] 9 demo_db =
     Ret (Inr (\<lparr>dml_tx_id = 9, dml_affected = 1\<rparr>, file')) \<and> links_ok file'"
proof -
  have "(ucast (9 :: u32) :: u64) = 9" by simp
  with delete_separates_readers [OF demo_updatable, of "\<lambda>_ _ _ _ f. Ret (Inr f)" 9] show ?thesis by metis
qed

theorem insert_disturbs_nothing_witness:
  "\<exists>file'. insert_record_under (\<lambda>_ _ _ _ f. Ret (Inr f)) 128 7 1 [1, 2, 3] 9 demo_db =
     Ret (Inr (\<lparr>out_tx = 9, out_page = 2, out_slot = 1\<rparr>, file')) \<and> links_ok file'"
proof -
  have o: "\<not> oversize 128 [1, 2, 3]" by code_simp
  have s: "find_space 128 7 (length (packed_rhd 9 0 0 1 [1, 2, 3])) demo_db = Ret (Some demo_spot)" by code_simp
  have "(ucast (9 :: u32) :: u64) = 9" "spot_page demo_spot = 2" "spot_slot demo_spot = 1"
    by (simp_all add: demo_spot_def)
  with insert_disturbs_nothing [OF demo_file_ok demo_links o _ s, of "\<lambda>_ _ _ _ f. Ret (Inr f)"] show ?thesis by auto
qed

end
