(* ===== verification/Btn.thy ===== *)
theory Btn
  imports Prelude
begin

unbundle bit_operations_syntax

text \<open>
  Index nodes and keys: the node format of a B-tree page (\<^verbatim>\<open>crates/ods/src/btr.rs\<close>, \<^verbatim>\<open>read_node\<close>, and
  \<^verbatim>\<open>crates/ods/src/btw.rs\<close>, \<^verbatim>\<open>write_node\<close>), and the orders on keys. The reader and the writer agree: a
  node written anywhere in a page is the node read there, for record numbers below \<^verbatim>\<open>2^40\<close> and
  prefixes and suffixes below \<^verbatim>\<open>2^14\<close> bytes.
\<close>

subsection \<open>Reading a node\<close>

text \<open>\<^verbatim>\<open>page.get(i)\<close>.\<close>

definition get_at :: "'a list \<Rightarrow> nat \<Rightarrow> 'a option" where
  "get_at xs i = (if i < length xs then Some (xs ! i) else None)"

record index_node =
  is_end_bucket :: bool
  is_end_level :: bool
  nd_prefix :: u16
  nd_length :: u16
  nd_record :: u64
  nd_page :: u32
  data_at :: nat
  next_at :: nat

function recno_loop :: "byte list \<Rightarrow> nat \<Rightarrow> nat \<Rightarrow> u64 \<Rightarrow> (u64 \<times> nat) option" where
  "recno_loop page p shift number =
     (case get_at page p of
        None \<Rightarrow> None
      | Some b \<Rightarrow>
          let number' = number OR push_bit shift (ucast b AND 0x7F) in
          if b < 128 \<or> 33 \<le> shift then Some (number', p + 1) else recno_loop page (p + 1) (shift + 7) number')"
  by pat_completeness auto
termination
  by (relation "measure (\<lambda>(page, p, shift, number). length page - p)") (auto simp: get_at_def split: if_splits)

function pageno_loop :: "byte list \<Rightarrow> nat \<Rightarrow> nat \<Rightarrow> u32 \<Rightarrow> (u32 \<times> nat) option" where
  "pageno_loop page p shift pn =
     (case get_at page p of
        None \<Rightarrow> None
      | Some b \<Rightarrow>
          if shift = 28 then Some (pn OR push_bit 28 (ucast b AND 0x0F), p + 1)
          else let pn' = pn OR push_bit shift (ucast b AND 0x7F) in
            if b < 128 then Some (pn', p + 1) else pageno_loop page (p + 1) (shift + 7) pn')"
  by pat_completeness auto
termination
  by (relation "measure (\<lambda>(page, p, shift, pn). length page - p)") (auto simp: get_at_def split: if_splits)

declare recno_loop.simps [simp del] pageno_loop.simps [simp del]

text \<open>A field of up to 14 bits.\<close>

definition read_14 :: "byte list \<Rightarrow> nat \<Rightarrow> (u16 \<times> nat) option" where
  "read_14 page p =
     do {
       b \<leftarrow> get_at page p;
       if b AND 0x80 \<noteq> 0
       then do { b2 \<leftarrow> get_at page (p + 1); Some (ucast b AND 0x7F OR push_bit 7 (ucast b2 AND 0x7F), p + 2) }
       else Some (ucast b AND 0x7F, p + 1)
     }"

definition read_node :: "byte list \<Rightarrow> nat \<Rightarrow> bool \<Rightarrow> index_node option" where
  "read_node page at leaf =
     do {
       first \<leftarrow> get_at page at;
       let internal = drop_bit 5 (first AND 0xE0);
       let end_level = (internal = 1);
       let end_bucket = (internal = 2);
       if end_level
       then Some \<lparr>is_end_bucket = end_bucket, is_end_level = True, nd_prefix = 0, nd_length = 0, nd_record = 0,
                  nd_page = 0, data_at = at + 1, next_at = at + 1\<rparr>
       else do {
         (number, p1) \<leftarrow> recno_loop page (at + 1) 5 (ucast first AND 0x1F);
         (pn, p2) \<leftarrow> (if leaf then Some (0, p1) else pageno_loop page p1 0 0);
         (prefix, p3) \<leftarrow> (if internal = 3 then Some (0, p2) else read_14 page p2);
         (len, p4) \<leftarrow> (if internal = 4 \<or> internal = 3 then Some (0, p3)
                        else if internal = 5 then Some (1, p3) else read_14 page p3);
         if length page < p4 + unat len then None
         else Some \<lparr>is_end_bucket = end_bucket, is_end_level = False, nd_prefix = prefix, nd_length = len,
                    nd_record = number, nd_page = pn, data_at = p4, next_at = p4 + unat len\<rparr>
       }
     }"

subsection \<open>Writing a node\<close>

lemma unat_drop_bit_7: "unat (drop_bit 7 (n :: u64)) = unat n div 128"
  unfolding unat_drop_bit_eq by (simp add: drop_bit_eq_div)

lemma drop_bit_smaller:
  assumes "drop_bit 7 (n :: u64) \<noteq> 0"
  shows "unat (drop_bit 7 n) < unat n"
proof -
  have "unat n \<noteq> 0" using assms by (metis drop_bit_of_0 unat_eq_0)
  then show ?thesis unfolding unat_drop_bit_7 by (intro div_less_dividend) simp_all
qed

function varint :: "u64 \<Rightarrow> byte list" where
  "varint n =
     (let b = ucast (n AND 0x7F); rest = drop_bit 7 n in
      if rest \<noteq> 0 then (b OR 0x80) # varint rest else [b])"
  by pat_completeness auto
termination
  by (relation "measure unat") (auto intro: drop_bit_smaller)

declare varint.simps [simp del]

definition write_14 :: "nat \<Rightarrow> byte list" where
  "write_14 n =
     (let b = of_nat (n mod 128); rest = n div 128 in
      if 0 < rest then [b OR 0x80, of_nat (rest mod 128)] else [b])"

definition node_flag :: "bool \<Rightarrow> nat \<Rightarrow> nat \<Rightarrow> byte" where
  "node_flag end_bucket prefix len =
     (if end_bucket then 2 else if len = 0 then (if prefix = 0 then 3 else 4) else if len = 1 then 5 else 0)"

text \<open>The bytes \<^verbatim>\<open>write_node\<close> appends.\<close>

definition write_node :: "bool \<Rightarrow> bool \<Rightarrow> nat \<Rightarrow> byte list \<Rightarrow> u64 \<Rightarrow> u32 \<Rightarrow> byte list" where
  "write_node leaf end_bucket prefix suffix recno pg =
     (let len = length suffix; internal = node_flag end_bucket prefix len in
      [push_bit 5 internal OR ucast (recno AND 0x1F)] @ varint (drop_bit 5 recno) @
      (if leaf then [] else varint (ucast pg)) @
      (if internal \<noteq> 3 then write_14 prefix else []) @
      (if internal \<noteq> 3 \<and> internal \<noteq> 4 \<and> internal \<noteq> 5 then write_14 len else []) @ suffix)"

definition common_prefix :: "byte list \<Rightarrow> byte list \<Rightarrow> nat" where
  "common_prefix a b = length (takeWhile (\<lambda>(x, y). x = y) (zip a b))"

subsection \<open>Orders on keys\<close>

text \<open>\<^verbatim>\<open>[u8]::cmp\<close>, and the order of the complemented keys of a descending index, where the shorter
  key is continued with 0xFF.\<close>

fun bytes_cmp :: "byte list \<Rightarrow> byte list \<Rightarrow> ordering" where
  "bytes_cmp [] [] = Equal"
| "bytes_cmp [] (y # ys) = Less"
| "bytes_cmp (x # xs) [] = Greater"
| "bytes_cmp (x # xs) (y # ys) = (if x = y then bytes_cmp xs ys else word_cmp x y)"

fun cmp_desc_from :: "byte list \<Rightarrow> byte list \<Rightarrow> nat list \<Rightarrow> ordering" where
  "cmp_desc_from a b [] = Equal"
| "cmp_desc_from a b (i # is) =
     (let x = (case get_at a i of Some x \<Rightarrow> x | None \<Rightarrow> 0xFF); y = (case get_at b i of Some y \<Rightarrow> y | None \<Rightarrow> 0xFF) in
      if x \<noteq> y then word_cmp x y else cmp_desc_from a b is)"

definition key_cmp_desc :: "byte list \<Rightarrow> byte list \<Rightarrow> ordering" where
  "key_cmp_desc a b = cmp_desc_from a b [0..<max (length a) (length b)]"

text \<open>\<^verbatim>\<open>a.then(b)\<close>.\<close>

definition and_then :: "ordering \<Rightarrow> ordering \<Rightarrow> ordering" where
  "and_then a b = (if a = Equal then b else a)"

subsection \<open>The round trip of a node\<close>

lemma get_at_append: "get_at (xs @ y # ys) (length xs) = Some y"
  by (simp add: get_at_def)

lemma bit_80: "bit (0x80 :: byte) k \<longleftrightarrow> k = 7"
proof -
  have "(0x80 :: byte) = 2 ^ 7" by simp
  then show ?thesis by (simp only: bit_exp_iff) auto
qed

lemma byte_high: "(b :: byte) < 128 \<longleftrightarrow> \<not> bit b 7"
proof -
  have "bit b 7 \<longleftrightarrow> bit (unat b) 7" by (simp add: bit_unsigned_iff)
  also have "\<dots> \<longleftrightarrow> odd (unat b div 128)" by (simp add: bit_iff_odd)
  also have "\<dots> \<longleftrightarrow> \<not> unat b < 128"
  proof (cases "unat b < 128")
    case False
    then have "unat b div 128 = 1" using unat_byte_lt [of b] by (intro div_nat_eqI) simp_all
    then show ?thesis using False by simp
  qed simp
  finally show ?thesis by (simp add: word_less_nat_alt)
qed

lemma mask_7: "(0x7F :: u64) = mask 7" "(0x7F :: u32) = mask 7"
  by (simp_all add: mask_eq_exp_minus_1)

lemma bit_low: "bit (ucast (n AND 0x7F :: u64) :: byte) k \<longleftrightarrow> k < 7 \<and> bit n k"
  unfolding mask_7 by (auto simp: bit_simps)

lemma low_bits:
  "ucast (ucast (n AND 0x7F :: u64) OR 0x80 :: byte) AND (0x7F :: u64) = n AND 0x7F"
  "ucast (ucast (n AND 0x7F :: u64) :: byte) AND (0x7F :: u64) = n AND 0x7F"
  by (rule bit_word_eqI; unfold bit_and_iff bit_or_iff bit_unsigned_iff bit_low bit_80 mask_7; auto simp: bit_simps)+

lemma high_bit:
  "\<not> ucast (n AND 0x7F :: u64) OR 0x80 < (128 :: byte)" "ucast (n AND 0x7F :: u64) < (128 :: byte)"
  unfolding byte_high bit_or_iff bit_low bit_80 by auto

lemma join_7: "(n AND 0x7F) OR push_bit 7 (drop_bit 7 n) = (n :: u64)"
  unfolding mask_7
proof (rule bit_word_eqI)
  fix k assume "k < LENGTH(64)"
  then show "bit ((n AND mask 7) OR push_bit 7 (drop_bit 7 n)) k \<longleftrightarrow> bit n k"
    by (cases "k < 7") (simp_all add: bit_simps)
qed

lemma varint_head:
  "varint n = (if drop_bit 7 n \<noteq> 0 then (ucast (n AND 0x7F) OR 0x80) # varint (drop_bit 7 n) else [ucast (n AND 0x7F)])"
  by (subst varint.simps) (simp add: Let_def)

lemma recno_loop_varint:
  assumes "unat n < 2 ^ (40 - shift)" "shift \<le> 33" "33 - shift = 7 * j"
  shows "recno_loop (pre @ varint n @ post) (length pre) shift acc =
    Some (acc OR push_bit shift n, length pre + length (varint n))"
  using assms
proof (induction n arbitrary: pre shift acc j rule: varint.induct)
  case (1 n)
  show ?case
  proof (cases "drop_bit 7 n = 0")
    case True
    then have n: "n AND 0x7F = n" using join_7 [of n] by simp
    have v: "varint n = [ucast n]" using True n by (subst varint_head) simp
    have "(ucast n :: byte) < 128" "ucast (ucast n :: byte) AND (0x7F :: u64) = n"
      using high_bit(2) [of n] low_bits(2) [of n] n by simp_all
    then show ?thesis
      by (subst recno_loop.simps) (simp add: v get_at_append Let_def)
  next
    case False
    let ?b = "ucast (n AND 0x7F) OR 0x80 :: byte" and ?m = "drop_bit 7 n"
    have v: "varint n = ?b # varint ?m" using False by (subst varint_head) simp
    have "shift \<noteq> 33"
    proof
      assume "shift = 33"
      then have "unat n < 128" using 1(2) by simp
      then have "unat ?m = 0" unfolding unat_drop_bit_7 by simp
      then show False using False by (simp only: unat_eq_0)
    qed
    then have "shift < 33" using 1(3) by simp
    then have shift: "shift < 33" "33 - (shift + 7) = 7 * (j - 1)" "shift + 7 \<le> 33"
      using 1(4) by arith+
    have "unat n < 128 * 2 ^ (40 - (shift + 7))"
    proof -
      have "(2 :: nat) ^ (40 - shift) = 2 ^ (7 + (40 - (shift + 7)))" using shift by simp
      then show ?thesis using 1(2) by (simp add: power_add)
    qed
    then have m: "unat ?m < 2 ^ (40 - (shift + 7))" unfolding unat_drop_bit_7 by (simp add: less_mult_imp_div_less mult.commute)
    have "(acc OR push_bit shift (n AND 0x7F)) OR push_bit (shift + 7) ?m = acc OR push_bit shift n"
    proof -
      have "push_bit shift (n AND 0x7F) OR push_bit (shift + 7) ?m = push_bit shift ((n AND 0x7F) OR push_bit 7 ?m)"
        by (simp add: push_bit_or)
      then show ?thesis unfolding join_7 by (simp add: or.assoc)
    qed
    moreover have "recno_loop ((pre @ [?b]) @ varint ?m @ post) (length (pre @ [?b])) (shift + 7) (acc OR push_bit shift (n AND 0x7F)) =
        Some ((acc OR push_bit shift (n AND 0x7F)) OR push_bit (shift + 7) ?m, length (pre @ [?b]) + length (varint ?m))"
      by (rule 1(1) [OF refl refl False m shift(3,2)])
    ultimately show ?thesis
      using shift(1) high_bit(1) [of n] low_bits(1) [of n]
      by (subst recno_loop.simps) (simp add: v get_at_append Let_def)
  qed
qed

lemma low_bits_32:
  "ucast (ucast (n AND 0x7F :: u64) OR 0x80 :: byte) AND (0x7F :: u32) = ucast (n AND 0x7F)"
  "ucast (ucast (n AND 0x7F :: u64) :: byte) AND (0x7F :: u32) = ucast (n AND 0x7F)"
  by (rule bit_word_eqI; unfold bit_and_iff bit_or_iff bit_unsigned_iff bit_low bit_80 mask_7; auto simp: bit_simps)+

lemma join_32: "ucast (n AND 0x7F :: u64) OR push_bit 7 (ucast (drop_bit 7 n)) = (ucast n :: u32)"
  unfolding mask_7
proof (rule bit_word_eqI)
  fix k assume "k < LENGTH(32)"
  then show "bit (ucast (n AND mask 7) OR push_bit 7 (ucast (drop_bit 7 n)) :: u32) k \<longleftrightarrow> bit (ucast n :: u32) k"
    by (cases "k < 7") (auto simp: bit_simps)
qed

lemma low_4:
  assumes "unat (n :: u64) < 16"
  shows "ucast (ucast n :: byte) AND (0x0F :: u32) = ucast n"
proof -
  have m: "(0x0F :: u32) = mask 4" by (simp add: mask_eq_exp_minus_1)
  have "take_bit 4 (unat n) = unat n" using assms by (simp add: take_bit_nat_eq_self)
  then have "take_bit 4 n = n" by (metis unsigned_take_bit_eq word_unat_eq_iff)
  then have low: "bit n k \<Longrightarrow> k < 4" for k by (metis bit_take_bit_iff)
  show ?thesis unfolding m by (rule bit_word_eqI) (auto simp: bit_simps dest: low)
qed

lemma pageno_loop_varint:
  assumes "unat n < 2 ^ (32 - shift)" "shift \<le> 28" "28 - shift = 7 * j"
  shows "pageno_loop (pre @ varint n @ post) (length pre) shift acc =
    Some (acc OR push_bit shift (ucast n), length pre + length (varint n))"
  using assms
proof (induction n arbitrary: pre shift acc j rule: varint.induct)
  case (1 n)
  show ?case
  proof (cases "drop_bit 7 n = 0")
    case True
    then have n: "n AND 0x7F = n" using join_7 [of n] by simp
    have v: "varint n = [ucast n]" using True n by (subst varint_head) simp
    have b: "(ucast n :: byte) < 128" "ucast (ucast n :: byte) AND (0x7F :: u32) = ucast n"
      using high_bit(2) [of n] low_bits_32(2) [of n] n by simp_all
    have "shift = 28 \<Longrightarrow> ucast (ucast n :: byte) AND (0x0F :: u32) = ucast n" using 1(2) by (intro low_4) simp
    then show ?thesis using b
      by (subst pageno_loop.simps) (simp add: v get_at_append Let_def)
  next
    case False
    let ?b = "ucast (n AND 0x7F) OR 0x80 :: byte" and ?m = "drop_bit 7 n"
    have v: "varint n = ?b # varint ?m" using False by (subst varint_head) simp
    have "shift \<noteq> 28"
    proof
      assume "shift = 28"
      then have "unat n < 128" using 1(2) by simp
      then have "unat ?m = 0" unfolding unat_drop_bit_7 by simp
      then show False using False by (simp only: unat_eq_0)
    qed
    then have "shift < 28" using 1(3) by simp
    then have shift: "shift < 28" "28 - (shift + 7) = 7 * (j - 1)" "shift + 7 \<le> 28"
      using 1(4) by arith+
    have "unat n < 128 * 2 ^ (32 - (shift + 7))"
    proof -
      have "(2 :: nat) ^ (32 - shift) = 2 ^ (7 + (32 - (shift + 7)))" using shift by simp
      then show ?thesis using 1(2) by (simp add: power_add)
    qed
    then have m: "unat ?m < 2 ^ (32 - (shift + 7))" unfolding unat_drop_bit_7 by (simp add: less_mult_imp_div_less mult.commute)
    have "(acc OR push_bit shift (ucast (n AND 0x7F))) OR push_bit (shift + 7) (ucast ?m) = acc OR push_bit shift (ucast n)"
    proof -
      have "push_bit shift (ucast (n AND 0x7F)) OR push_bit (shift + 7) (ucast ?m) =
          push_bit shift (ucast (n AND 0x7F) OR push_bit 7 (ucast ?m) :: u32)"
        by (simp add: push_bit_or)
      then show ?thesis unfolding join_32 by (simp add: or.assoc)
    qed
    moreover have "pageno_loop ((pre @ [?b]) @ varint ?m @ post) (length (pre @ [?b])) (shift + 7)
          (acc OR push_bit shift (ucast (n AND 0x7F))) =
        Some ((acc OR push_bit shift (ucast (n AND 0x7F))) OR push_bit (shift + 7) (ucast ?m), length (pre @ [?b]) + length (varint ?m))"
      by (rule 1(1) [OF refl refl False m shift(3,2)])
    ultimately show ?thesis
      using shift(1) high_bit(1) [of n] low_bits_32(1) [of n]
      by (subst pageno_loop.simps) (simp add: v get_at_append Let_def)
  qed
qed

lemma byte_split:
  assumes "n < 128"
  shows "(of_nat n OR 0x80 :: byte) AND 0x80 \<noteq> 0" "(of_nat n :: byte) AND 0x80 = 0"
    "ucast (of_nat n OR 0x80 :: byte) AND (0x7F :: u16) = of_nat n" "ucast (of_nat n :: byte) AND (0x7F :: u16) = of_nat n"
proof -
  have "take_bit 7 n = n" using assms by (simp add: take_bit_nat_eq_self)
  then have h: "bit n k \<longleftrightarrow> k < 7 \<and> bit n k" for k by (metis bit_take_bit_iff)
  have w: "bit (of_nat n :: byte) k \<longleftrightarrow> k < 7 \<and> bit n k" for k
    using h [of k] by (auto simp: bit_of_nat_iff)
  have v: "bit (of_nat n :: u16) k \<longleftrightarrow> k < 7 \<and> bit n k" for k
    using h [of k] by (auto simp: bit_of_nat_iff)
  have m: "(0x7F :: u16) = mask 7" by (simp add: mask_eq_exp_minus_1)
  have "bit ((of_nat n OR 0x80 :: byte) AND 0x80) 7" unfolding bit_and_iff bit_or_iff bit_80 by simp
  then show "(of_nat n OR 0x80 :: byte) AND 0x80 \<noteq> 0" by (metis bit_0_eq bot_apply bot_bool_def)
  show "(of_nat n :: byte) AND 0x80 = 0"
    by (rule bit_word_eqI) (unfold bit_and_iff bit_80 w, simp)
  show "ucast (of_nat n OR 0x80 :: byte) AND (0x7F :: u16) = of_nat n" "ucast (of_nat n :: byte) AND (0x7F :: u16) = of_nat n"
    unfolding m by (rule bit_word_eqI; unfold bit_and_iff bit_unsigned_iff bit_or_iff bit_80 w v; auto simp: bit_simps)+
qed

lemma read_14_two:
  "get_at page p = Some b \<Longrightarrow> b AND 0x80 \<noteq> 0 \<Longrightarrow> get_at page (p + 1) = Some b2 \<Longrightarrow>
   read_14 page p = Some (ucast b AND 0x7F OR push_bit 7 (ucast b2 AND 0x7F), p + 2)"
  by (simp add: read_14_def)

lemma read_14_write_14:
  assumes "n < 2 ^ 14"
  shows "read_14 (pre @ write_14 n @ post) (length pre) = Some (of_nat n, length pre + length (write_14 n))"
proof (cases "n div 128 = 0")
  case True
  then have n: "n < 128" by (simp add: div_eq_0_iff)
  then have "write_14 n = [of_nat n]" by (simp add: write_14_def)
  then show ?thesis using byte_split(2,4) [OF n] by (simp add: read_14_def get_at_append)
next
  case False
  let ?lo = "n mod 128" and ?hi = "n div 128"
  have hi: "?hi < 128" using assms by (intro less_mult_imp_div_less) simp
  have lo: "?lo < 128" by simp
  have w: "write_14 n = [of_nat ?lo OR 0x80, of_nat ?hi]" using False hi by (simp add: write_14_def Let_def)
  have at1: "get_at (pre @ [a, b] @ post) (length pre + 1) = Some b" for a b :: byte
    using get_at_append [of "pre @ [a]" b post] by simp
  have at0: "get_at (pre @ [a, b] @ post) (length pre) = Some a" for a b :: byte
    using get_at_append [of pre a "b # post"] by simp
  have "(of_nat ?lo OR push_bit 7 (of_nat ?hi) :: u16) = of_nat n"
  proof (rule bit_word_eqI)
    fix k assume k: "k < LENGTH(16)"
    have "bit ?lo k \<longleftrightarrow> k < 7 \<and> bit n k"
      using bit_take_bit_iff [of 7 n k] by (simp add: take_bit_eq_mod)
    moreover have "7 \<le> k \<Longrightarrow> bit ?hi (k - 7) \<longleftrightarrow> bit n k"
      using bit_drop_bit_eq [of 7 n] by (simp add: drop_bit_eq_div)
    ultimately show "bit (of_nat ?lo OR push_bit 7 (of_nat ?hi) :: u16) k \<longleftrightarrow> bit (of_nat n :: u16) k"
      using k by (auto simp: bit_or_iff bit_push_bit_iff bit_of_nat_iff)
  qed
  then have "ucast (of_nat ?lo OR 0x80 :: byte) AND (0x7F :: u16) OR push_bit 7 (ucast (of_nat ?hi :: byte) AND (0x7F :: u16)) = of_nat n"
    unfolding byte_split(3) [OF lo] byte_split(4) [OF hi] .
  then show ?thesis
    unfolding w read_14_two [OF at0 byte_split(1) [OF lo] at1] by simp
qed

text \<open>The head byte keeps the flag and the five low bits of the record number apart.\<close>

lemma mask_5: "(0x1F :: u64) = mask 5" "(0x1F :: byte) = mask 5"
  by (simp_all add: mask_eq_exp_minus_1)

lemma bits_E0: "bit (0xE0 :: byte) k \<longleftrightarrow> 5 \<le> k \<and> k < 8"
proof -
  have "(0xE0 :: byte) = push_bit 5 (mask 3)" by (simp add: mask_eq_exp_minus_1 push_bit_eq_mult)
  then have "bit (0xE0 :: byte) k \<longleftrightarrow> bit (push_bit 5 (mask 3) :: byte) k" by (rule arg_cong)
  then show ?thesis by (auto simp only: bit_push_bit_iff bit_mask_iff) auto
qed

lemma head_byte:
  assumes "internal < (8 :: byte)"
  shows "drop_bit 5 ((push_bit 5 internal OR ucast (recno AND 0x1F :: u64)) AND 0xE0) = internal"
    "ucast (push_bit 5 internal OR ucast (recno AND 0x1F) :: byte) AND (0x1F :: u64) = recno AND 0x1F"
proof -
  have "unat internal < 8" using assms by (simp add: word_less_nat_alt)
  then have "take_bit 3 (unat internal) = unat internal" by (simp add: take_bit_nat_eq_self)
  then have "take_bit 3 internal = internal" by (metis unsigned_take_bit_eq word_unat_eq_iff)
  then have i: "bit internal k \<Longrightarrow> k < 3" for k by (metis bit_take_bit_iff)
  show "drop_bit 5 ((push_bit 5 internal OR ucast (recno AND 0x1F :: u64)) AND 0xE0) = internal"
    unfolding mask_5
    by (rule bit_word_eqI;
        unfold bit_drop_bit_eq comp_def bit_and_iff bit_or_iff bit_push_bit_iff bit_unsigned_iff bit_mask_iff bits_E0;
        auto dest: i)
  show "ucast (push_bit 5 internal OR ucast (recno AND 0x1F) :: byte) AND (0x1F :: u64) = recno AND 0x1F"
    unfolding mask_5 by (rule bit_word_eqI)
      (auto simp: bit_drop_bit_eq bit_and_iff bit_or_iff bit_push_bit_iff bit_unsigned_iff bit_mask_iff dest: i)
qed

lemma node_flag_bound: "node_flag eb prefix len < 8"
  by (simp add: node_flag_def)

text \<open>Reading a node that \<^verbatim>\<open>write_node\<close> put anywhere in a page gives its fields back, and its
  suffix is the last bytes of the node.\<close>

lemma write_node_length: "length (write_node leaf eb prefix suffix recno pg) = 1 + length (varint (drop_bit 5 recno)) +
    (if leaf then 0 else length (varint (ucast pg))) +
    (if node_flag eb prefix (length suffix) \<noteq> 3 then length (write_14 prefix) else 0) +
    (if node_flag eb prefix (length suffix) \<in> {3, 4, 5} then 0 else length (write_14 (length suffix))) + length suffix"
  by (simp add: write_node_def Let_def)

lemma recno_split:
  assumes "unat (recno :: u64) < 2 ^ 40"
  shows "unat (drop_bit 5 recno) < 2 ^ 35" "(recno AND 0x1F) OR push_bit 5 (drop_bit 5 recno) = recno"
proof -
  show "unat (drop_bit 5 recno) < 2 ^ 35"
    using assms unfolding unat_drop_bit_eq by (simp add: drop_bit_eq_div less_mult_imp_div_less)
  show "(recno AND 0x1F) OR push_bit 5 (drop_bit 5 recno) = recno"
    unfolding mask_5
  proof (rule bit_word_eqI)
    fix k assume "k < LENGTH(64)"
    then show "bit ((recno AND mask 5) OR push_bit 5 (drop_bit 5 recno)) k \<longleftrightarrow> bit recno k"
      by (cases "k < 5") (simp_all add: bit_simps)
  qed
qed

definition written :: "bool \<Rightarrow> bool \<Rightarrow> nat \<Rightarrow> byte list \<Rightarrow> u64 \<Rightarrow> u32 \<Rightarrow> nat \<Rightarrow> index_node" where
  "written leaf eb prefix suffix recno pg at =
     \<lparr>is_end_bucket = eb, is_end_level = False, nd_prefix = of_nat prefix, nd_length = of_nat (length suffix),
      nd_record = recno, nd_page = (if leaf then 0 else pg),
      data_at = at + length (write_node leaf eb prefix suffix recno pg) - length suffix,
      next_at = at + length (write_node leaf eb prefix suffix recno pg)\<rparr>"

lemma read_write_node:
  assumes "unat recno < 2 ^ 40" "prefix < 2 ^ 14" "length suffix < 2 ^ 14"
  shows "read_node (pre @ write_node leaf eb prefix suffix recno pg @ post) (length pre) leaf =
    Some (written leaf eb prefix suffix recno pg (length pre))"
proof -
  define internal where "internal = node_flag eb prefix (length suffix)"
  define h :: byte where "h = push_bit 5 internal OR ucast (recno AND 0x1F)"
  define R where "R = varint (drop_bit 5 recno)"
  define P where "P = (if leaf then [] else varint (ucast pg))"
  define X where "X = (if internal \<noteq> 3 then write_14 prefix else [])"
  define L where "L = (if internal \<noteq> 3 \<and> internal \<noteq> 4 \<and> internal \<noteq> 5 then write_14 (length suffix) else [])"
  have w: "write_node leaf eb prefix suffix recno pg = [h] @ R @ P @ X @ L @ suffix"
    by (simp add: write_node_def Let_def internal_def h_def R_def P_def X_def L_def)
  let ?page = "pre @ write_node leaf eb prefix suffix recno pg @ post"
  have hd0: "get_at ?page (length pre) = Some h" using get_at_append [of pre h] by (simp add: w)
  have flag: "drop_bit 5 (h AND 0xE0) = internal" "ucast h AND (0x1F :: u64) = recno AND 0x1F"
    unfolding h_def by (rule head_byte; simp add: internal_def node_flag_bound)+
  have rec: "recno_loop ?page (length pre + 1) 5 (recno AND 0x1F) = Some (recno, length (pre @ [h] @ R))"
  proof -
    have "recno_loop ((pre @ [h]) @ varint (drop_bit 5 recno) @ P @ X @ L @ suffix @ post) (length (pre @ [h])) 5 (recno AND 0x1F) =
        Some ((recno AND 0x1F) OR push_bit 5 (drop_bit 5 recno), length (pre @ [h]) + length (varint (drop_bit 5 recno)))"
      by (rule recno_loop_varint [where j = 4]) (use recno_split(1) [OF assms(1)] in simp_all)
    then show ?thesis unfolding recno_split(2) [OF assms(1)] by (simp add: w R_def)
  qed
  have pn: "(if leaf then Some (0, length (pre @ [h] @ R)) else pageno_loop ?page (length (pre @ [h] @ R)) 0 0) =
      Some (if leaf then 0 else pg, length (pre @ [h] @ R @ P))"
  proof (cases leaf)
    case False
    have "pageno_loop ((pre @ [h] @ R) @ varint (ucast pg) @ X @ L @ suffix @ post) (length (pre @ [h] @ R)) 0 0 =
        Some (0 OR push_bit 0 (ucast (ucast pg :: u64)), length (pre @ [h] @ R) + length (varint (ucast pg)))"
    proof (rule pageno_loop_varint [where j = 4])
      have "unat pg < 2 ^ LENGTH(32)" by (rule unsigned_less)
      then show "unat (ucast pg :: u64) < 2 ^ (32 - 0)" by (simp add: unsigned_ucast_eq take_bit_nat_eq_self)
    qed simp_all
    moreover have "ucast (ucast pg :: u64) = pg"
      by (rule bit_word_eqI) (simp add: bit_unsigned_iff)
    ultimately show ?thesis unfolding w using False by (simp add: P_def)
  qed (simp add: P_def)
  have pre14: "(if internal = 3 then Some (0, length (pre @ [h] @ R @ P)) else read_14 ?page (length (pre @ [h] @ R @ P))) =
      Some (of_nat prefix, length (pre @ [h] @ R @ P @ X))"
  proof (cases "internal = 3")
    case True
    then have "prefix = 0" by (auto simp: internal_def node_flag_def split: if_splits)
    then show ?thesis using True by (simp add: X_def)
  next
    case False
    then show ?thesis
      using read_14_write_14 [OF assms(2), of "pre @ [h] @ R @ P" "L @ suffix @ post"] by (simp add: w X_def)
  qed
  have len14: "(if internal = 4 \<or> internal = 3 then Some (0, length (pre @ [h] @ R @ P @ X))
      else if internal = 5 then Some (1, length (pre @ [h] @ R @ P @ X)) else read_14 ?page (length (pre @ [h] @ R @ P @ X))) =
      Some (of_nat (length suffix), length (pre @ [h] @ R @ P @ X @ L))"
  proof (cases "internal \<in> {3, 4, 5}")
    case True
    then show ?thesis by (auto simp: internal_def node_flag_def L_def split: if_splits)
  next
    case False
    then show ?thesis
      using read_14_write_14 [OF assms(3), of "pre @ [h] @ R @ P @ X" "suffix @ post"] by (simp add: w L_def)
  qed
  have "unat (of_nat (length suffix) :: u16) = length suffix" using assms(3) by (simp add: unat_of_nat)
  moreover have "internal \<noteq> 1" "internal = 2 \<longleftrightarrow> eb" by (auto simp: internal_def node_flag_def)
  ultimately show ?thesis
    unfolding read_node_def hd0 Option.bind.bind_lunit Let_def flag rec pn pre14 len14 prod.case
    by (simp add: written_def w)
qed

end
