(* ===== verification/Btr.thy ===== *)
theory Btr
  imports Btn Tra
begin

unbundle bit_operations_syntax

text \<open>
  Index pages read (\<^verbatim>\<open>crates/ods/src/btr.rs\<close>): the index root page of a relation, the buckets of a
  tree, the walk over the leaf level and the range lookup. A page number that names no B-tree page
  answers None; a page too short for the fields its decoder indexes panics.
\<close>

subsection \<open>The index root page\<close>

definition IRT_UNUSED :: byte where "IRT_UNUSED = 0"
definition IRT_NORMAL :: byte where "IRT_NORMAL = 3"
definition IRT_DROP :: byte where "IRT_DROP = 6"
definition IRT_COMMIT :: byte where "IRT_COMMIT = 5"

definition IRT_UNIQUE :: u16 where "IRT_UNIQUE = 1"
definition IRT_DESCENDING :: u16 where "IRT_DESCENDING = 2"
definition IRT_FOREIGN :: u16 where "IRT_FOREIGN = 4"
definition IRT_PRIMARY :: u16 where "IRT_PRIMARY = 8"
definition IRT_EXPRESSION :: u16 where "IRT_EXPRESSION = 16"
definition IRT_CONDITION :: u16 where "IRT_CONDITION = 32"

record index_root_entry =
  ie_id :: byte
  ie_transaction :: u64
  ie_root_page :: u32
  ie_flags :: u16
  ie_state :: byte
  ie_key_count :: byte

record index_root_page =
  ir_pag :: page_header
  ir_relation :: u16
  ir_count :: u16
  ir_page :: "byte list"

definition decode_index_root :: "byte list \<Rightarrow> index_root_page option run" where
  "decode_index_root page =
     do {
       h \<leftarrow> decode_page_header page;
       (case h of None \<Rightarrow> Ret None
        | Some pag \<Rightarrow>
            if pag_type pag \<noteq> page_type_byte IndexRoot then Ret None
            else do {
              rel \<leftarrow> u16_at page 16;
              cnt \<leftarrow> u16_at page 18;
              Ret (Some \<lparr>ir_pag = pag, ir_relation = rel, ir_count = cnt, ir_page = page\<rparr>)
            })
     }"

definition irt_entry :: "index_root_page \<Rightarrow> byte \<Rightarrow> index_root_entry option run" where
  "irt_entry irt ix =
     (if ir_count irt \<le> ucast ix then Ret None
      else let at = 24 + unat ix * 24 in
        (case get_range (ir_page irt) at (at + 24) of
           None \<Rightarrow> Ret None
         | Some e \<Rightarrow>
             do {
               tr \<leftarrow> u64_at e 0;
               root \<leftarrow> u32_at e 8;
               fl \<leftarrow> u16_at e 18;
               st \<leftarrow> rs_index e 20;
               ks \<leftarrow> rs_index e 21;
               Ret (Some \<lparr>ie_id = ix, ie_transaction = tr, ie_root_page = root, ie_flags = fl, ie_state = st, ie_key_count = ks\<rparr>)
             }))"

definition irt_entries :: "index_root_page \<Rightarrow> index_root_entry list run" where
  "irt_entries irt = filter_map_run (irt_entry irt) (map of_nat [0..<min (unat (ir_count irt)) 255])"

definition live_entries :: "index_root_page \<Rightarrow> index_root_entry list run" where
  "live_entries irt = map_option (filter (\<lambda>e. ie_root_page e \<noteq> 0 \<and> ie_state e \<noteq> IRT_UNUSED)) (irt_entries irt)"

definition is_dropping :: "index_root_entry \<Rightarrow> tip_chain option \<Rightarrow> bool run" where
  "is_dropping e tips =
     (if ie_state e = IRT_DROP then Ret True
      else if ie_state e = IRT_COMMIT then
        (case tips of
           None \<Rightarrow> Ret False
         | Some t \<Rightarrow> map_option (\<lambda>st. st = Some Committed) (tip_chain_state t (ie_transaction e)))
      else Ret False)"

definition set_irt_drop :: "byte list \<Rightarrow> nat \<Rightarrow> byte list run" where
  "set_irt_drop page at =
     do {
       fl \<leftarrow> u16_at page (at + 18);
       page' \<leftarrow> copy_at page (at + 18) (u16_bytes (fl AND NOT (IRT_UNIQUE OR IRT_FOREIGN OR IRT_PRIMARY)));
       if at + 20 < length page' then Ret (page'[at + 20 := IRT_DROP]) else Panic
     }"

text \<open>\<^verbatim>\<open>find_index_root\<close>: the first page of the relation, nothing after it is decoded.\<close>

definition find_index_root :: "image \<Rightarrow> nat \<Rightarrow> u16 \<Rightarrow> index_root_page option run" where
  "find_index_root file page_size relation =
     first_run (\<lambda>p. do {
         t \<leftarrow> rs_index p 0;
         if t = page_type_byte IndexRoot
         then map_option (\<lambda>d. case d of None \<Rightarrow> None | Some irt \<Rightarrow> if ir_relation irt = relation then Some irt else None)
                (decode_index_root p)
         else Ret None }) (whole_pages file)"

subsection \<open>Buckets\<close>

record btree_page =
  bt_pag :: page_header
  bt_sibling :: u32
  bt_left :: u32
  bt_relation :: u16
  bt_length :: u16
  bt_index_id :: byte
  bt_level :: byte
  bt_jump_size :: u16
  bt_bytes :: "byte list"

definition BTR_NODES_OFFSET :: nat where "BTR_NODES_OFFSET = 39"

definition decode_btree :: "byte list \<Rightarrow> btree_page option run" where
  "decode_btree page =
     do {
       h \<leftarrow> decode_page_header page;
       (case h of None \<Rightarrow> Ret None
        | Some pag \<Rightarrow>
            if pag_type pag \<noteq> page_type_byte Index then Ret None
            else do {
              sib \<leftarrow> u32_at page 16;
              left \<leftarrow> u32_at page 20;
              rel \<leftarrow> u16_at page 28;
              len \<leftarrow> u16_at page 30;
              ix \<leftarrow> rs_index page 32;
              level \<leftarrow> rs_index page 33;
              jump \<leftarrow> u16_at page 36;
              Ret (Some \<lparr>bt_pag = pag, bt_sibling = sib, bt_left = left, bt_relation = rel, bt_length = len,
                         bt_index_id = ix, bt_level = level, bt_jump_size = jump, bt_bytes = page\<rparr>)
            })
     }"

definition first_node :: "btree_page \<Rightarrow> nat" where
  "first_node bp = BTR_NODES_OFFSET + unat (bt_jump_size bp)"

definition get_btree :: "image \<Rightarrow> nat \<Rightarrow> u32 \<Rightarrow> btree_page option run" where
  "get_btree file page_size no =
     (case page_at file page_size no of None \<Rightarrow> Ret None | Some page \<Rightarrow> decode_btree page)"

text \<open>The root page of an index: \<^verbatim>\<open>find_index_root(..)?.entry(id)?.root_page\<close>.\<close>

definition index_root_no :: "image \<Rightarrow> nat \<Rightarrow> u16 \<Rightarrow> byte \<Rightarrow> u32 option run" where
  "index_root_no file page_size relation index_id =
     or_none (find_index_root file page_size relation) (\<lambda>irt.
     or_none (irt_entry irt index_id) (\<lambda>e. Ret (Some (ie_root_page e))))"

subsection \<open>The nodes of a page\<close>

text \<open>The key after a node: \<^verbatim>\<open>truncate(prefix)\<close> and the suffix bytes.\<close>

definition next_key :: "byte list \<Rightarrow> byte list \<Rightarrow> index_node \<Rightarrow> byte list" where
  "next_key bytes key n = take (unat (nd_prefix n)) key @ take (unat (nd_length n)) (drop (data_at n) bytes)"

lemma recno_loop_bounds: "recno_loop page p shift acc = Some (v, q) \<Longrightarrow> p < q \<and> q \<le> length page"
proof (induction page p shift acc rule: recno_loop.induct)
  case (1 page p shift number)
  from 1(2) obtain b where b: "get_at page p = Some b" by (subst (asm) recno_loop.simps) (auto split: option.splits)
  then have "p < length page" by (auto simp: get_at_def split: if_splits)
  then show ?case
    using 1(2) 1(1) [OF b refl] b by (subst (asm) recno_loop.simps) (force simp: Let_def split: if_splits)
qed

lemma pageno_loop_bounds: "pageno_loop page p shift acc = Some (v, q) \<Longrightarrow> p < q \<and> q \<le> length page"
proof (induction page p shift acc rule: pageno_loop.induct)
  case (1 page p shift pn)
  from 1(2) obtain b where b: "get_at page p = Some b" by (subst (asm) pageno_loop.simps) (auto split: option.splits)
  then have "p < length page" by (auto simp: get_at_def split: if_splits)
  then show ?case
    using 1(2) 1(1) [OF b _ refl] b by (subst (asm) pageno_loop.simps) (force simp: Let_def split: if_splits)
qed

lemma read_14_bounds: "read_14 page p = Some (v, q) \<Longrightarrow> p < q \<and> q \<le> length page"
  by (auto simp: read_14_def get_at_def split: Option.bind_splits if_splits)

lemma read_node_advances: "read_node page at leaf = Some n \<Longrightarrow> at < next_at n \<and> next_at n \<le> length page"
proof -
  assume r: "read_node page at leaf = Some n"
  then obtain b where b: "get_at page at = Some b" by (auto simp: read_node_def split: Option.bind_splits)
  then have at: "at < length page" by (auto simp: get_at_def split: if_splits)
  show "at < next_at n \<and> next_at n \<le> length page"
    using r b at
    by (auto simp: read_node_def Let_def split: Option.bind_splits if_splits
        dest!: recno_loop_bounds pageno_loop_bounds read_14_bounds)
qed

subsection \<open>The walk over the leaf level\<close>

text \<open>How the nodes of one leaf end: undecodable, the walk is over, or the sibling continues.\<close>

datatype page_end = PageFails | PageOver | PageNext

type_synonym index_entries = "(byte list \<times> u64) list"

function walk_page :: "byte list \<Rightarrow> nat \<Rightarrow> byte list \<Rightarrow> index_entries \<Rightarrow> page_end \<times> byte list \<times> index_entries" where
  "walk_page bytes at key out =
     (case read_node bytes at True of
        None \<Rightarrow> (PageFails, key, out)
      | Some n \<Rightarrow>
          if is_end_level n then (PageOver, key, out)
          else if is_end_bucket n then (PageNext, key, out)
          else let key' = next_key bytes key n in
            walk_page bytes (next_at n) key' (out @ [(key', nd_record n)]))"
  by pat_completeness auto
termination
  by (relation "measure (\<lambda>(bytes, at, key, out). length bytes - at)") (fastforce dest: read_node_advances)+

declare walk_page.simps [simp del]

partial_function (option) leftmost_leaf :: "image \<Rightarrow> nat \<Rightarrow> btree_page \<Rightarrow> btree_page option option" where
  "leftmost_leaf file page_size page =
     (if bt_level page = 0 then Ret (Some page)
      else (case read_node (bt_bytes page) (first_node page) False of
              None \<Rightarrow> Ret None
            | Some node \<Rightarrow>
                (case get_btree file page_size (nd_page node) of
                   Panic \<Rightarrow> Panic
                 | Ret None \<Rightarrow> Ret None
                 | Ret (Some page') \<Rightarrow> leftmost_leaf file page_size page')))"

partial_function (option) walk_leaves ::
    "image \<Rightarrow> nat \<Rightarrow> btree_page \<Rightarrow> byte list \<Rightarrow> index_entries \<Rightarrow> index_entries option option" where
  "walk_leaves file page_size page key out =
     (case walk_page (bt_bytes page) (first_node page) key out of
        (PageFails, key', out') \<Rightarrow> Ret None
      | (PageOver, key', out') \<Rightarrow> Ret (Some out')
      | (PageNext, key', out') \<Rightarrow>
          if bt_sibling page = 0 then Ret (Some out')
          else (case get_btree file page_size (bt_sibling page) of
                  Panic \<Rightarrow> Panic
                | Ret None \<Rightarrow> Ret None
                | Ret (Some page') \<Rightarrow> walk_leaves file page_size page' key' out'))"

definition walk_index_leaves :: "image \<Rightarrow> nat \<Rightarrow> u16 \<Rightarrow> byte \<Rightarrow> index_entries option run" where
  "walk_index_leaves file page_size relation index_id =
     or_none (index_root_no file page_size relation index_id) (\<lambda>root_no.
       if root_no = 0 then Ret None
       else
         or_none (get_btree file page_size root_no) (\<lambda>page.
         or_none (leftmost_leaf file page_size page) (\<lambda>leaf. walk_leaves file page_size leaf [] [])))"

subsection \<open>The range lookup\<close>

text \<open>The order of the keys, and the two bounds: a key and whether it belongs to the range.\<close>

definition kcmp :: "bool \<Rightarrow> byte list \<Rightarrow> byte list \<Rightarrow> ordering" where
  "kcmp descending a b = (if descending then key_cmp_desc a b else bytes_cmp a b)"

type_synonym bound = "(byte list \<times> bool) option"

text \<open>The child an interior page sends the search to: the last node whose key is below the lower
  bound, or the first one; \<^verbatim>\<open>None\<close> inside is a page of no nodes.\<close>

function choose_child :: "bool \<Rightarrow> bound \<Rightarrow> byte list \<Rightarrow> nat \<Rightarrow> byte list \<Rightarrow> u32 option \<Rightarrow> u32 option option" where
  "choose_child descending lo bytes at key chosen =
     (case read_node bytes at False of
        None \<Rightarrow> None
      | Some n \<Rightarrow>
          if is_end_level n \<or> is_end_bucket n then Some chosen
          else let key' = next_key bytes key n in
            if chosen \<noteq> None \<and> (case lo of None \<Rightarrow> True | Some (lo_key, _) \<Rightarrow> kcmp descending key' lo_key \<noteq> Less)
            then Some chosen
            else choose_child descending lo bytes (next_at n) key' (Some (nd_page n)))"
  by pat_completeness auto
termination
  by (relation "measure (\<lambda>(descending, lo, bytes, at, key, chosen). length bytes - at)") (fastforce dest: read_node_advances)+

declare choose_child.simps [simp del]

text \<open>The descent answers the leaf, or that there is nothing to walk (\<^verbatim>\<open>return Some(())\<close>).\<close>

datatype descent = AtLeaf btree_page | NothingThere

partial_function (option) descend_to :: "image \<Rightarrow> nat \<Rightarrow> bool \<Rightarrow> bound \<Rightarrow> btree_page \<Rightarrow> descent option option" where
  "descend_to file page_size descending lo page =
     (if bt_level page = 0 then Ret (Some (AtLeaf page))
      else (case choose_child descending lo (bt_bytes page) (first_node page) [] None of
              None \<Rightarrow> Ret None
            | Some (Some next) \<Rightarrow>
                (case get_btree file page_size next of
                   Panic \<Rightarrow> Panic
                 | Ret None \<Rightarrow> Ret None
                 | Ret (Some page') \<Rightarrow> descend_to file page_size descending lo page')
            | Some None \<Rightarrow>
                if bt_sibling page \<noteq> 0 then
                  (case get_btree file page_size (bt_sibling page) of
                     Panic \<Rightarrow> Panic
                   | Ret None \<Rightarrow> Ret None
                   | Ret (Some page') \<Rightarrow> descend_to file page_size descending lo page')
                else Ret (Some NothingThere)))"

definition past_upper :: "bool \<Rightarrow> bound \<Rightarrow> byte list \<Rightarrow> bool" where
  "past_upper descending hi key =
     (case hi of
        None \<Rightarrow> False
      | Some (hi_key, incl) \<Rightarrow>
          (case kcmp descending key hi_key of Greater \<Rightarrow> True | Equal \<Rightarrow> \<not> incl | Less \<Rightarrow> False))"

definition admitted :: "bool \<Rightarrow> bound \<Rightarrow> byte list \<Rightarrow> bool" where
  "admitted descending lo key =
     (case lo of
        None \<Rightarrow> True
      | Some (lo_key, incl) \<Rightarrow>
          (case kcmp descending key lo_key of Less \<Rightarrow> False | Equal \<Rightarrow> incl | Greater \<Rightarrow> True))"

text \<open>The callback changes its own state and answers whether the walk goes on.\<close>

type_synonym 's visitor = "byte list \<Rightarrow> u64 \<Rightarrow> 's \<Rightarrow> bool \<times> 's"

function range_page :: "bool \<Rightarrow> bound \<Rightarrow> bound \<Rightarrow> 's visitor \<Rightarrow> byte list \<Rightarrow> nat \<Rightarrow> byte list \<Rightarrow> 's \<Rightarrow> page_end \<times> byte list \<times> 's" where
  "range_page descending lo hi f bytes at key s =
     (case read_node bytes at True of
        None \<Rightarrow> (PageFails, key, s)
      | Some n \<Rightarrow>
          if is_end_level n then (PageOver, key, s)
          else if is_end_bucket n then (PageNext, key, s)
          else let key' = next_key bytes key n in
            if past_upper descending hi key' then (PageOver, key', s)
            else if admitted descending lo key' then
              (let (go, s') = f key' (nd_record n) s in
               if go then range_page descending lo hi f bytes (next_at n) key' s' else (PageOver, key', s'))
            else range_page descending lo hi f bytes (next_at n) key' s)"
  by pat_completeness auto
termination
  by (relation "measure (\<lambda>(descending, lo, hi, f, bytes, at, key, s). length bytes - at)") (fastforce dest: read_node_advances)+

declare range_page.simps [simp del]

text \<open>Whether the walk came to its end (\<^verbatim>\<open>Some(())\<close>), and the callback's state.\<close>

partial_function (option) range_leaves ::
    "image \<Rightarrow> nat \<Rightarrow> bool \<Rightarrow> bound \<Rightarrow> bound \<Rightarrow> 's visitor \<Rightarrow> btree_page \<Rightarrow> byte list \<Rightarrow> 's \<Rightarrow> (bool \<times> 's) option" where
  "range_leaves file page_size descending lo hi f page key s =
     (case range_page descending lo hi f (bt_bytes page) (first_node page) key s of
        (PageFails, key', s') \<Rightarrow> Ret (False, s')
      | (PageOver, key', s') \<Rightarrow> Ret (True, s')
      | (PageNext, key', s') \<Rightarrow>
          if bt_sibling page = 0 then Ret (True, s')
          else (case get_btree file page_size (bt_sibling page) of
                  Panic \<Rightarrow> Panic
                | Ret None \<Rightarrow> Ret (False, s')
                | Ret (Some page') \<Rightarrow> range_leaves file page_size descending lo hi f page' key' s'))"

definition for_each_in_range ::
    "image \<Rightarrow> nat \<Rightarrow> u16 \<Rightarrow> byte \<Rightarrow> bound \<Rightarrow> bound \<Rightarrow> bool \<Rightarrow> 's visitor \<Rightarrow> 's \<Rightarrow> (bool \<times> 's) run" where
  "for_each_in_range file page_size relation index_id lo hi descending f s =
     (case or_none (index_root_no file page_size relation index_id) (\<lambda>root_no.
             if root_no = 0 then Ret None
             else or_none (get_btree file page_size root_no) (descend_to file page_size descending lo)) of
        Panic \<Rightarrow> Panic
      | Ret None \<Rightarrow> Ret (False, s)
      | Ret (Some NothingThere) \<Rightarrow> Ret (True, s)
      | Ret (Some (AtLeaf page)) \<Rightarrow> range_leaves file page_size descending lo hi f page [] s)"

definition lookup_range :: "image \<Rightarrow> nat \<Rightarrow> u16 \<Rightarrow> byte \<Rightarrow> bound \<Rightarrow> bound \<Rightarrow> bool \<Rightarrow> index_entries option run" where
  "lookup_range file page_size relation index_id lo hi descending =
     map_option (\<lambda>(ended, out). if ended then Some out else None)
       (for_each_in_range file page_size relation index_id lo hi descending
          (\<lambda>key recno out. (True, out @ [(key, recno)])) [])"

definition lookup_key :: "image \<Rightarrow> nat \<Rightarrow> u16 \<Rightarrow> byte \<Rightarrow> byte list \<Rightarrow> bool \<Rightarrow> index_entries option run" where
  "lookup_key file page_size relation index_id key descending =
     lookup_range file page_size relation index_id (Some (key, True)) (Some (key, True)) descending"

end
