(* ===== verification/Btw.thy ===== *)
theory Btw
  imports Btr Dml_Tx
begin

unbundle bit_operations_syntax

text \<open>
  Index maintenance (\<^verbatim>\<open>crates/ods/src/btw.rs\<close>): the nodes of a page decoded whole and encoded
  canonically, the insert of one entry with page splits up to a new root, the bulk build of a tree
  from sorted entries, and the segment descriptors of an index. The caller's test of a conflicting
  entry (\<^verbatim>\<open>still_keys\<close>) is a parameter.
\<close>

subsection \<open>Pages as lists of nodes\<close>

record bt_node =
  bn_key :: "byte list"
  bn_recno :: u64
  bn_page :: u32

datatype terminator = LevelEnd | BucketEnd bt_node

record page_content =
  pc_level :: byte
  pc_sibling :: u32
  pc_left :: u32
  pc_nodes :: "bt_node list"
  pc_term :: terminator

text \<open>The loop of \<^verbatim>\<open>decode_content\<close>: the nodes from a position on and the terminator.\<close>

function content_loop :: "byte list \<Rightarrow> bool \<Rightarrow> nat \<Rightarrow> byte list \<Rightarrow> (bt_node list \<times> terminator) option" where
  "content_loop bytes leaf at key =
     (case read_node bytes at leaf of
        None \<Rightarrow> None
      | Some n \<Rightarrow>
          if is_end_level n then Some ([], LevelEnd)
          else (case get_range bytes (data_at n) (data_at n + unat (nd_length n)) of
                  None \<Rightarrow> None
                | Some suffix \<Rightarrow>
                    let key' = take (unat (nd_prefix n)) key @ suffix;
                        node = \<lparr>bn_key = key', bn_recno = nd_record n, bn_page = nd_page n\<rparr> in
                    if is_end_bucket n then Some ([], BucketEnd node)
                    else map_option (\<lambda>(ns, t). (node # ns, t)) (content_loop bytes leaf (next_at n) key')))"
  by pat_completeness auto
termination
  by (relation "measure (\<lambda>(bytes, leaf, at, key). length bytes - at)") (fastforce dest: read_node_advances)+

declare content_loop.simps [simp del]

definition decode_content :: "btree_page \<Rightarrow> page_content option" where
  "decode_content bp =
     map_option (\<lambda>(ns, t). \<lparr>pc_level = bt_level bp, pc_sibling = bt_sibling bp, pc_left = bt_left bp,
                            pc_nodes = ns, pc_term = t\<rparr>)
       (content_loop (bt_bytes bp) (bt_level bp = 0) (first_node bp) [])"

text \<open>The bytes of the nodes, and the sum of the prefixes.\<close>

fun nodes_bytes :: "bool \<Rightarrow> byte list \<Rightarrow> bt_node list \<Rightarrow> byte list \<times> nat" where
  "nodes_bytes leaf prev [] = ([], 0)"
| "nodes_bytes leaf prev (n # ns) =
     (let p = common_prefix prev (bn_key n); (rest, total) = nodes_bytes leaf (bn_key n) ns in
      (write_node leaf False p (drop p (bn_key n)) (bn_recno n) (bn_page n) @ rest, p + total))"

definition last_key :: "bt_node list \<Rightarrow> byte list" where
  "last_key ns = (if ns = [] then [] else bn_key (last ns))"

definition page_body :: "page_content \<Rightarrow> byte list \<times> nat" where
  "page_body c =
     (let leaf = (pc_level c = 0); (body, total) = nodes_bytes leaf [] (pc_nodes c) in
      case pc_term c of
        LevelEnd \<Rightarrow> (body @ [push_bit 5 1], total)
      | BucketEnd n \<Rightarrow>
          let p = common_prefix (last_key (pc_nodes c)) (bn_key n) in
          (body @ write_node leaf True p (drop p (bn_key n)) (bn_recno n) (bn_page n), total + p))"

text \<open>The page after \<^verbatim>\<open>fill(0)\<close> and the field writes, in the order of their offsets.\<close>

definition page_bytes :: "u32 \<Rightarrow> u16 \<Rightarrow> byte \<Rightarrow> page_content \<Rightarrow> nat \<Rightarrow> byte list" where
  "page_bytes page_no relation index_id c len =
     (let (body, prefix_total) = page_body c; total = BTR_NODES_OFFSET + length body in
      [page_type_byte Index] @ replicate 11 0 @ u32_bytes page_no @ u32_bytes (pc_sibling c) @ u32_bytes (pc_left c) @
      u32_bytes (of_nat prefix_total) @ u16_bytes relation @ u16_bytes (of_nat total) @ [index_id, pc_level c] @
      u16_bytes 0 @ u16_bytes 0 @ [0] @ body @ replicate (len - total) 0)"

text \<open>Inner None: \<^verbatim>\<open>Err(())\<close>, the page does not fit.\<close>

definition encode_page :: "image \<Rightarrow> nat \<Rightarrow> u32 \<Rightarrow> u16 \<Rightarrow> byte \<Rightarrow> page_content \<Rightarrow> image option run" where
  "encode_page file page_size page_no relation index_id c =
     (let total = BTR_NODES_OFFSET + length (fst (page_body c)) in
      if page_size < total then Ret None
      else (case img_page file page_no of
              None \<Rightarrow> Panic
            | Some page \<Rightarrow>
                if length page < total then Panic
                else Ret (Some (set_page page_no (page_bytes page_no relation index_id c (length page)) file))))"

subsection \<open>The order of nodes\<close>

definition node_cmp :: "byte list \<Rightarrow> u64 \<Rightarrow> bt_node \<Rightarrow> ordering" where
  "node_cmp key recno n = and_then (bytes_cmp key (bn_key n)) (word_cmp recno (bn_recno n))"

definition node_cmp_desc :: "byte list \<Rightarrow> u64 \<Rightarrow> bt_node \<Rightarrow> ordering" where
  "node_cmp_desc key recno n = and_then (key_cmp_desc key (bn_key n)) (word_cmp recno (bn_recno n))"

definition cmp_node :: "bool \<Rightarrow> byte list \<Rightarrow> u64 \<Rightarrow> bt_node \<Rightarrow> ordering" where
  "cmp_node descending key recno n = (if descending then node_cmp_desc key recno n else node_cmp key recno n)"

subsection \<open>Is the record of an entry alive?\<close>

definition max_recs_per_dp :: "nat \<Rightarrow> nat run" where
  "max_recs_per_dp page_size = (if page_size < 28 then Panic else Ret ((page_size - 28) div 17))"

text \<open>The loop over the data pages: the first decodable one of the sequence decides.\<close>

fun live_on :: "image \<Rightarrow> nat \<Rightarrow> tip_chain option \<Rightarrow> u32 \<Rightarrow> u16 \<Rightarrow> u32 list \<Rightarrow> bool run" where
  "live_on file page_size tips sq slot [] = Ret False"
| "live_on file page_size tips sq slot (dp_no # dps) =
     (case page_at file page_size dp_no of
        None \<Rightarrow> live_on file page_size tips sq slot dps
      | Some page \<Rightarrow>
          do {
            d \<leftarrow> decode_data page;
            (case d of
               None \<Rightarrow> live_on file page_size tips sq slot dps
             | Some dp \<Rightarrow>
                 if dp_sequence dp \<noteq> sq then live_on file page_size tips sq slot dps
                 else do {
                   r \<leftarrow> dp_record dp slot;
                   (case r of
                      None \<Rightarrow> Ret False
                    | Some rh \<Rightarrow>
                        if has_flag (rh_flags rh) (REC_CHAIN OR REC_FRAGMENT OR REC_BLOB) then Ret False
                        else (case tips of
                                Some t \<Rightarrow> map_option (\<lambda>v. v \<noteq> None) (visible_version file page_size rh t own_catalog)
                              | None \<Rightarrow> Ret (is_primary_record rh)))
                 })
          })"

definition recno_is_live :: "image \<Rightarrow> nat \<Rightarrow> u16 \<Rightarrow> u64 \<Rightarrow> bool run" where
  "recno_is_live file page_size rel recno =
     do {
       recs \<leftarrow> max_recs_per_dp page_size;
       if recs = 0 then Ret False
       else do {
         tips \<leftarrow> tip_chain_read file page_size;
         dps \<leftarrow> relation_data_pages file page_size rel;
         live_on file page_size tips (of_nat (unat recno div recs)) (of_nat (unat recno mod recs)) dps
       }
     }"

subsection \<open>The descent of an insert\<close>

text \<open>\<^verbatim>\<open>ok_or\<close>.\<close>

definition ok_or :: "string \<Rightarrow> 'a option run \<Rightarrow> (dml_error + 'a) run" where
  "ok_or msg r = map_option (\<lambda>x. case x of None \<Rightarrow> Inl (Msg msg) | Some y \<Rightarrow> Inr y) r"

definition index_root_for :: "image \<Rightarrow> nat \<Rightarrow> u16 \<Rightarrow> byte \<Rightarrow> (dml_error + u32) run" where
  "index_root_for file page_size rel index_id =
     attempt (ok_or ''no index root'' (find_index_root file page_size rel)) (\<lambda>irt.
     attempt (ok_or ''no such index'' (irt_entry irt index_id)) (\<lambda>e.
       if ie_root_page e = 0 then Ret (Inl (Msg ''index has no root page'')) else Ret (Inr (ie_root_page e))))"

text \<open>A page loaded and decoded, with the two messages of the place.\<close>

definition load_content :: "string \<Rightarrow> string \<Rightarrow> image \<Rightarrow> nat \<Rightarrow> u32 \<Rightarrow> (dml_error + page_content) run" where
  "load_content bad undecodable file page_size no =
     attempt (ok_or bad (get_btree file page_size no)) (\<lambda>bp. ok_or undecodable (Ret (decode_content bp)))"

text \<open>The last node not above the entry; the first node is taken unseen.\<close>

fun child_after :: "bool \<Rightarrow> byte list \<Rightarrow> u64 \<Rightarrow> u32 \<Rightarrow> bt_node list \<Rightarrow> u32" where
  "child_after descending key recno child [] = child"
| "child_after descending key recno child (n # ns) =
     (if cmp_node descending key recno n = Less then child
      else child_after descending key recno (bn_page n) ns)"

definition continues :: "bool \<Rightarrow> byte list \<Rightarrow> u64 \<Rightarrow> terminator \<Rightarrow> bool" where
  "continues descending key recno t =
     (case t of LevelEnd \<Rightarrow> False | BucketEnd n \<Rightarrow> cmp_node descending key recno n \<noteq> Less)"

text \<open>The leaf and the interior pages above it, the nearest first (\<^verbatim>\<open>path\<close> popped from its end).\<close>

partial_function (option) find_leaf ::
    "image \<Rightarrow> nat \<Rightarrow> bool \<Rightarrow> byte list \<Rightarrow> u64 \<Rightarrow> u32 list \<Rightarrow> u32 \<Rightarrow> (dml_error + u32 list \<times> u32) option" where
  "find_leaf file page_size descending key recno path cur =
     (case load_content ''bad btree page'' ''undecodable btree page'' file page_size cur of
        Panic \<Rightarrow> Panic
      | Ret (Inl e) \<Rightarrow> Ret (Inl e)
      | Ret (Inr c) \<Rightarrow>
          if continues descending key recno (pc_term c) then
            find_leaf file page_size descending key recno path (pc_sibling c)
          else if pc_level c = 0 then Ret (Inr (path, cur))
          else (case pc_nodes c of
                  [] \<Rightarrow> Ret (Inl (Msg ''empty interior page''))
                | n # ns \<Rightarrow>
                    find_leaf file page_size descending key recno (cur # path)
                      (child_after descending key recno (bn_page n) ns)))"

subsection \<open>The insert\<close>

definition list_insert :: "nat \<Rightarrow> 'a \<Rightarrow> 'a list \<Rightarrow> 'a list" where
  "list_insert pos x xs = take pos xs @ x # drop pos xs"

definition leaf_position :: "bool \<Rightarrow> byte list \<Rightarrow> u64 \<Rightarrow> bt_node list \<Rightarrow> nat" where
  "leaf_position descending key recno ns =
     (case rs_position (\<lambda>n. cmp_node descending key recno n = Less) ns of Some i \<Rightarrow> i | None \<Rightarrow> length ns)"

definition parent_position :: "bool \<Rightarrow> byte list \<Rightarrow> u64 \<Rightarrow> bt_node list \<Rightarrow> nat" where
  "parent_position descending key recno ns =
     (case rs_position (\<lambda>n. cmp_node descending key recno n = Less) (drop 1 ns) of Some i \<Rightarrow> i + 1 | None \<Rightarrow> length ns)"

text \<open>The unique check of the leaf: the first conflicting live entry ends the scan.\<close>

fun conflict_in :: "(image \<Rightarrow> u64 \<Rightarrow> bool) \<Rightarrow> image \<Rightarrow> nat \<Rightarrow> u16 \<Rightarrow> byte list \<Rightarrow> u64 \<Rightarrow> bt_node list \<Rightarrow> bool run" where
  "conflict_in still_keys file page_size rel key recno [] = Ret False"
| "conflict_in still_keys file page_size rel key recno (n # ns) =
     (if bn_key n = key \<and> bn_recno n \<noteq> recno then
        do {
          live \<leftarrow> recno_is_live file page_size rel (bn_recno n);
          if live \<and> still_keys file (bn_recno n) then Ret True
          else conflict_in still_keys file page_size rel key recno ns
        }
      else conflict_in still_keys file page_size rel key recno ns)"

text \<open>The number of the index root page, among the whole pages.\<close>

fun position_run :: "('a \<Rightarrow> bool run) \<Rightarrow> 'a list \<Rightarrow> nat option run" where
  "position_run f [] = Ret None"
| "position_run f (x # xs) =
     do { b \<leftarrow> f x; if b then Ret (Some 0) else map_option (map_option Suc) (position_run f xs) }"

definition index_root_position :: "image \<Rightarrow> u16 \<Rightarrow> nat option run" where
  "index_root_position file rel =
     position_run (\<lambda>p. do {
         t \<leftarrow> rs_index p 0;
         if t = page_type_byte IndexRoot then map_option (\<lambda>r. r = rel) (u16_at p 16) else Ret False })
       (whole_pages file)"

definition repoint_root :: "u16 \<Rightarrow> byte \<Rightarrow> u32 \<Rightarrow> image \<Rightarrow> (dml_error + image) run" where
  "repoint_root rel index_id new_root file =
     attempt (ok_or ''no index root page'' (index_root_position file rel)) (\<lambda>irt_page.
       edit_page (of_nat irt_page) (Msg ''irt page out of range'')
         (put_u32 (24 + unat index_id * 24 + 8) new_root) file)"

text \<open>A split: the right half on a new page, its right neighbour's back link, the left half.\<close>

definition split_page ::
    "nat \<Rightarrow> u16 \<Rightarrow> byte \<Rightarrow> u32 \<Rightarrow> page_content \<Rightarrow> image \<Rightarrow> (dml_error + (bt_node \<times> page_content) \<times> image) run" where
  "split_page page_size rel index_id level_page c file =
     (let m = length (pc_nodes c) div 2 in
      if m = 0 \<or> length (pc_nodes c) \<le> m then Ret (Inl (Msg ''btree node too large to split''))
      else
        let mid = pc_nodes c ! m in
        attempt (allocate_page page_size file) (\<lambda>(new_page, file1).
        let right = \<lparr>pc_level = pc_level c, pc_sibling = pc_sibling c, pc_left = level_page,
                     pc_nodes = drop m (pc_nodes c), pc_term = pc_term c\<rparr>;
            left = c\<lparr>pc_nodes := take m (pc_nodes c), pc_term := BucketEnd mid, pc_sibling := new_page\<rparr> in
        attempt (ok_or ''split right half does not fit'' (encode_page file1 page_size new_page rel index_id right)) (\<lambda>file2.
        attempt (if pc_sibling right = 0 then Ret (Inr file2)
                 else (case img_page file2 (pc_sibling right) of
                         None \<Rightarrow> Panic
                       | Some page \<Rightarrow>
                           map_option (\<lambda>page'. Inr (set_page (pc_sibling right) page' file2)) (put_u32 20 new_page page))) (\<lambda>file3.
        attempt (ok_or ''split left half does not fit'' (encode_page file3 page_size level_page rel index_id left)) (\<lambda>file4.
          Ret (Inr ((\<lparr>bn_key = bn_key mid, bn_recno = bn_recno mid, bn_page = new_page\<rparr>, left), file4)))))))"

definition new_root_content :: "page_content \<Rightarrow> u32 \<Rightarrow> bt_node \<Rightarrow> page_content" where
  "new_root_content c level_page parent_node =
     \<lparr>pc_level = pc_level c + 1, pc_sibling = 0, pc_left = 0,
      pc_nodes = [\<lparr>bn_key = [], bn_recno = 0, bn_page = level_page\<rparr>, parent_node], pc_term = LevelEnd\<rparr>"

text \<open>The loop that writes the page and splits up the path. \<^verbatim>\<open>level + 1\<close> on a byte panics at 255.\<close>

fun settle :: "nat \<Rightarrow> u16 \<Rightarrow> byte \<Rightarrow> bool \<Rightarrow> u32 list \<Rightarrow> u32 \<Rightarrow> page_content \<Rightarrow> image \<Rightarrow> (dml_error + image) run" where
  "settle page_size rel index_id descending path level_page c file =
     do {
       r \<leftarrow> encode_page file page_size level_page rel index_id c;
       (case r of
          Some file' \<Rightarrow> Ret (Inr file')
        | None \<Rightarrow>
            attempt (split_page page_size rel index_id level_page c file) (\<lambda>((parent_node, left), file1).
              (case path of
                 parent # path' \<Rightarrow>
                   attempt (load_content ''bad parent page'' ''undecodable parent'' file1 page_size parent) (\<lambda>pc.
                     settle page_size rel index_id descending path' parent
                       (pc\<lparr>pc_nodes := list_insert (parent_position descending (bn_key parent_node) (bn_recno parent_node) (pc_nodes pc))
                             parent_node (pc_nodes pc)\<rparr>) file1)
               | [] \<Rightarrow>
                   attempt (allocate_page page_size file1) (\<lambda>(new_root, file2).
                   if pc_level left = 255 then Panic
                   else
                   attempt (ok_or ''new root does not fit''
                        (encode_page file2 page_size new_root rel index_id (new_root_content left level_page parent_node))) (\<lambda>file3.
                     repoint_root rel index_id new_root file3)))))
     }"

declare settle.simps [simp del]

definition insert_index_entry_checked ::
    "(image \<Rightarrow> u64 \<Rightarrow> bool) \<Rightarrow> nat \<Rightarrow> u16 \<Rightarrow> byte \<Rightarrow> byte list \<Rightarrow> u64 \<Rightarrow> bool \<Rightarrow> bool \<Rightarrow> image \<Rightarrow> (dml_error + image) run" where
  "insert_index_entry_checked still_keys page_size rel index_id key recno unique descending file =
     attempt (index_root_for file page_size rel index_id) (\<lambda>root_page.
     attempt (find_leaf file page_size descending key recno [] root_page) (\<lambda>(path, cur).
     attempt (load_content ''bad leaf page'' ''undecodable leaf'' file page_size cur) (\<lambda>content.
       if list_ex (\<lambda>n. bn_key n = key \<and> bn_recno n = recno) (pc_nodes content) then Ret (Inr file)
       else do {
         conflict \<leftarrow> (if unique \<and> key \<noteq> [] then conflict_in still_keys file page_size rel key recno (pc_nodes content)
                     else Ret False);
         if conflict then Ret (Inl (Msg ''duplicate key in unique index''))
         else
           settle page_size rel index_id descending path cur
             (content\<lparr>pc_nodes := list_insert (leaf_position descending key recno (pc_nodes content))
                \<lparr>bn_key = key, bn_recno = recno, bn_page = 0\<rparr> (pc_nodes content)\<rparr>) file
       })))"

definition insert_index_entry ::
    "nat \<Rightarrow> u16 \<Rightarrow> byte \<Rightarrow> byte list \<Rightarrow> u64 \<Rightarrow> bool \<Rightarrow> bool \<Rightarrow> image \<Rightarrow> (dml_error + image) run" where
  "insert_index_entry = insert_index_entry_checked (\<lambda>_ _. True)"

subsection \<open>The bulk build\<close>

text \<open>One level filled: the pages closed so far (number and content, links still 0), the nodes of the
  open page, its body length and its last key.\<close>

fun fill_level ::
    "nat \<Rightarrow> byte \<Rightarrow> nat \<Rightarrow> bt_node list \<Rightarrow> (u32 \<times> page_content) list \<Rightarrow> bt_node list \<Rightarrow> nat \<Rightarrow> byte list \<Rightarrow> image \<Rightarrow>
     (dml_error + ((u32 \<times> page_content) list \<times> bt_node list) \<times> image) run" where
  "fill_level page_size level cap [] pages cur body prev file = Ret (Inr ((pages, cur), file))"
| "fill_level page_size level cap (n # ns) pages cur body prev file =
     (let leaf = (level = 0); p = common_prefix prev (bn_key n);
          size = length (write_node leaf False p (drop p (bn_key n)) (bn_recno n) (bn_page n)) in
      if cur \<noteq> [] \<and> cap < body + 2 * size + 2 then
        attempt (allocate_page page_size file) (\<lambda>(page_no, file').
          let closed = \<lparr>pc_level = level, pc_sibling = 0, pc_left = 0, pc_nodes = cur, pc_term = BucketEnd n\<rparr>;
              size' = length (write_node leaf False 0 (bn_key n) (bn_recno n) (bn_page n)) in
          fill_level page_size level cap ns (pages @ [(page_no, closed)]) [n] size' (bn_key n) file')
      else fill_level page_size level cap ns pages (cur @ [n]) (body + size) (bn_key n) file)"

text \<open>The pages linked and written, each remembered by its first node.\<close>

fun link_level ::
    "nat \<Rightarrow> u16 \<Rightarrow> byte \<Rightarrow> byte \<Rightarrow> bool \<Rightarrow> u32 \<Rightarrow> (u32 \<times> page_content) list \<Rightarrow> image \<Rightarrow> (dml_error + bt_node list \<times> image) run" where
  "link_level page_size rel index_id level first left [] file = Ret (Inr ([], file))"
| "link_level page_size rel index_id level first left ((no, c) # pages) file =
     (let c' = c\<lparr>pc_sibling := (case pages of [] \<Rightarrow> 0 | (next, _) # _ \<Rightarrow> next), pc_left := left\<rparr> in
      case pc_nodes c of
        [] \<Rightarrow> Ret (Inl (Msg ''empty index page in a bulk build''))
      | n # _ \<Rightarrow>
          let degenerate = (first \<and> level \<noteq> 0);
              up = \<lparr>bn_key = (if degenerate then [] else bn_key n), bn_recno = (if degenerate then 0 else bn_recno n), bn_page = no\<rparr> in
          attempt (ok_or ''bulk-built index page does not fit'' (encode_page file page_size no rel index_id c')) (\<lambda>file'.
          attempt (link_level page_size rel index_id level False no pages file') (\<lambda>(ups, file'').
            Ret (Inr (up # ups, file'')))))"

definition write_level ::
    "nat \<Rightarrow> u16 \<Rightarrow> byte \<Rightarrow> byte \<Rightarrow> bt_node list \<Rightarrow> u32 \<Rightarrow> image \<Rightarrow> (dml_error + bt_node list \<times> image) run" where
  "write_level page_size rel index_id level nodes root_page file =
     (if page_size < BTR_NODES_OFFSET + 1 then Panic
      else
        attempt (fill_level page_size level (page_size - BTR_NODES_OFFSET - 1) nodes [] [] 0 [] file) (\<lambda>((pages, cur), file1).
        attempt (if pages = [] then Ret (Inr (root_page, file1)) else allocate_page page_size file1) (\<lambda>(last_no, file2).
          link_level page_size rel index_id level True 0
            (pages @ [(last_no, \<lparr>pc_level = level, pc_sibling = 0, pc_left = 0, pc_nodes = cur, pc_term = LevelEnd\<rparr>)]) file2)))"

partial_function (option) build_levels ::
    "nat \<Rightarrow> u16 \<Rightarrow> byte \<Rightarrow> u32 \<Rightarrow> byte \<Rightarrow> bt_node list \<Rightarrow> image \<Rightarrow> (dml_error + image) option" where
  "build_levels page_size rel index_id root_page level nodes file =
     (case write_level page_size rel index_id level nodes root_page file of
        Panic \<Rightarrow> Panic
      | Ret (Inl e) \<Rightarrow> Ret (Inl e)
      | Ret (Inr (firsts, file')) \<Rightarrow>
          if length firsts = 1 then Ret (Inr file')
          else if level = 255 then Panic
          else
            build_levels page_size rel index_id root_page (level + 1)
              (case firsts of [] \<Rightarrow> [] | f # fs \<Rightarrow> f\<lparr>bn_key := [], bn_recno := 0\<rparr> # fs) file')"

text \<open>The first pair of neighbours that violates uniqueness: the record the build met second.\<close>

fun first_duplicate :: "bool \<Rightarrow> bool \<Rightarrow> (byte list \<times> u64 \<times> bool) list \<Rightarrow> u64 option" where
  "first_duplicate unique primary ((k, r, null) # (k', r', null') # rest) =
     (let dup_counts = (unique \<and> k \<noteq> [] \<and> \<not> null \<and> \<not> null') \<or> primary in
      if dup_counts \<and> k = k' \<and> r \<noteq> r' then Some r'
      else first_duplicate unique primary ((k', r', null') # rest))"
| "first_duplicate unique primary _ = None"

definition build_index_bulk ::
    "nat \<Rightarrow> u16 \<Rightarrow> byte \<Rightarrow> (byte list \<times> u64 \<times> bool) list \<Rightarrow> bool \<Rightarrow> bool \<Rightarrow> image \<Rightarrow> (dml_error + image) run" where
  "build_index_bulk page_size rel index_id entries unique primary file =
     attempt (index_root_for file page_size rel index_id) (\<lambda>root_page.
       if entries = [] then Ret (Inr file)
       else (case (if unique \<or> primary then first_duplicate unique primary entries else None) of
               Some r \<Rightarrow> Ret (Inl (DuplicateRecord r))
             | None \<Rightarrow>
                 build_levels page_size rel index_id root_page 0
                   (map (\<lambda>(k, r, _). \<lparr>bn_key = k, bn_recno = r, bn_page = 0\<rparr>) entries) file))"

definition empty_leaf :: page_content where
  "empty_leaf = \<lparr>pc_level = 0, pc_sibling = 0, pc_left = 0, pc_nodes = [], pc_term = LevelEnd\<rparr>"

definition write_empty_root :: "nat \<Rightarrow> u32 \<Rightarrow> u16 \<Rightarrow> byte \<Rightarrow> image \<Rightarrow> (dml_error + image) run" where
  "write_empty_root page_size page_no relation index_id file =
     ok_or ''empty root does not fit'' (encode_page file page_size page_no relation index_id empty_leaf)"

subsection \<open>Segment descriptors\<close>

text \<open>The index root page of a relation by number; a page too short for its header answers None.\<close>

definition index_root_bytes :: "image \<Rightarrow> nat \<Rightarrow> u16 \<Rightarrow> byte list option run" where
  "index_root_bytes file page_size rel =
     or_none (index_root_position file rel) (\<lambda>i.
       (case page_at file page_size (of_nat i) of
          None \<Rightarrow> Ret None
        | Some page \<Rightarrow> map_option (map_option (\<lambda>_. page)) (decode_page_header page)))"

definition index_segment :: "image \<Rightarrow> nat \<Rightarrow> u16 \<Rightarrow> byte \<Rightarrow> (u16 \<times> u16 \<times> u16) option run" where
  "index_segment file page_size rel index_id =
     or_none (index_root_bytes file page_size rel) (\<lambda>page.
       do {
         let entry_at = 24 + unat index_id * 24;
         desc_off \<leftarrow> u16_at page (entry_at + 16);
         fl \<leftarrow> u16_at page (entry_at + 18);
         field \<leftarrow> u16_at page (unat desc_off);
         itype \<leftarrow> u16_at page (unat desc_off + 2);
         _ \<leftarrow> u32_at page (unat desc_off + 4);
         Ret (Some (field, itype, fl))
       })"

fun segment_list :: "byte list \<Rightarrow> nat \<Rightarrow> nat list \<Rightarrow> (u16 \<times> u16) list option run" where
  "segment_list page desc_off [] = Ret (Some [])"
| "segment_list page desc_off (i # is) =
     (let at = desc_off + i * 8 in
      if length page < at + 8 then Ret None
      else do {
        field \<leftarrow> u16_at page at;
        itype \<leftarrow> u16_at page (at + 2);
        map_option (map_option ((#) (field, itype))) (segment_list page desc_off is)
      })"

definition index_segments :: "image \<Rightarrow> nat \<Rightarrow> u16 \<Rightarrow> byte \<Rightarrow> nat \<Rightarrow> ((u16 \<times> u16) list \<times> u16) option run" where
  "index_segments file page_size rel index_id cnt =
     or_none (index_root_bytes file page_size rel) (\<lambda>page.
       do {
         let entry_at = 24 + unat index_id * 24;
         desc_off \<leftarrow> u16_at page (entry_at + 16);
         fl \<leftarrow> u16_at page (entry_at + 18);
         or_none (segment_list page (unat desc_off) [0..<cnt]) (\<lambda>segs. Ret (Some (segs, fl)))
       })"

end
