(* ===== verification/Bt_Order.thy ===== *)
theory Bt_Order
  imports Btw
begin

unbundle bit_operations_syntax

text \<open>
  The orders of index keys as total preorders. The interface \<^verbatim>\<open>key_order\<close> is what the tree needs
  of a comparison; both comparisons of the code provide it, and with them the order of entries (key,
  then record number). On keys that end in no zero byte, as the encoders chop them, the order of the
  complemented keys of a descending index is the reverse of the ascending order.
\<close>

subsection \<open>The interface\<close>

fun flip :: "ordering \<Rightarrow> ordering" where
  "flip Less = Greater"
| "flip Equal = Equal"
| "flip Greater = Less"

definition entry_cmp :: "(byte list \<Rightarrow> byte list \<Rightarrow> ordering) \<Rightarrow> byte list \<times> u64 \<Rightarrow> byte list \<times> u64 \<Rightarrow> ordering" where
  "entry_cmp cmp x y = and_then (cmp (fst x) (fst y)) (word_cmp (snd x) (snd y))"

definition key_le :: "(byte list \<Rightarrow> byte list \<Rightarrow> ordering) \<Rightarrow> byte list \<Rightarrow> byte list \<Rightarrow> bool" where
  "key_le cmp a b \<longleftrightarrow> cmp a b \<noteq> Greater"

definition entry_le :: "(byte list \<Rightarrow> byte list \<Rightarrow> ordering) \<Rightarrow> byte list \<times> u64 \<Rightarrow> byte list \<times> u64 \<Rightarrow> bool" where
  "entry_le cmp x y \<longleftrightarrow> entry_cmp cmp x y \<noteq> Greater"

lemma flip_flip [simp]: "flip (flip r) = r"
  by (cases r) auto

lemma flip_eq [simp]: "flip r = Less \<longleftrightarrow> r = Greater" "flip r = Equal \<longleftrightarrow> r = Equal" "flip r = Greater \<longleftrightarrow> r = Less"
  by (cases r; simp)+

lemma word_cmp_flip: "word_cmp b a = flip (word_cmp a b)"
  by (auto simp: word_cmp_def)

lemma word_cmp_eq [simp]:
  "word_cmp a b = Less \<longleftrightarrow> a < b" "word_cmp a b = Equal \<longleftrightarrow> a = b" "word_cmp a b = Greater \<longleftrightarrow> b < a"
  by (auto simp: word_cmp_def)

locale key_order =
  fixes cmp :: "byte list \<Rightarrow> byte list \<Rightarrow> ordering"
  assumes cmp_flip: "cmp b a = flip (cmp a b)"
    and cmp_trans: "cmp a b \<noteq> Greater \<Longrightarrow> cmp b c \<noteq> Greater \<Longrightarrow> cmp a c \<noteq> Greater"
begin

lemma refl: "cmp a a = Equal"
  using cmp_flip [of a a] by (cases "cmp a a") auto

lemma less_le: "cmp a b = Less \<longleftrightarrow> \<not> key_le cmp b a"
  by (simp add: key_le_def cmp_flip [of b a])

lemma le_trans: "key_le cmp a b \<Longrightarrow> key_le cmp b c \<Longrightarrow> key_le cmp a c"
  unfolding key_le_def by (rule cmp_trans)

lemma le_total: "key_le cmp a b \<or> key_le cmp b a"
  using cmp_flip [of a b] by (cases "cmp a b") (auto simp: key_le_def)

lemma less_trans: "cmp a b = Less \<Longrightarrow> key_le cmp b c \<Longrightarrow> cmp a c = Less"
  "key_le cmp a b \<Longrightarrow> cmp b c = Less \<Longrightarrow> cmp a c = Less"
  unfolding less_le by (meson le_trans)+

lemma equal_le: "cmp a b = Equal \<longleftrightarrow> key_le cmp a b \<and> key_le cmp b a"
  using cmp_flip [of b a] by (cases "cmp a b") (auto simp: key_le_def)

lemma entry_le_iff: "entry_le cmp x y \<longleftrightarrow>
    key_le cmp (fst x) (fst y) \<and> (key_le cmp (fst y) (fst x) \<longrightarrow> snd x \<le> snd y)"
  using cmp_flip [of "fst y" "fst x"]
  by (cases "cmp (fst x) (fst y)") (auto simp: entry_le_def entry_cmp_def and_then_def key_le_def not_less)

lemma entry_trans: "entry_le cmp x y \<Longrightarrow> entry_le cmp y z \<Longrightarrow> entry_le cmp x z"
  unfolding entry_le_iff by (meson le_trans order_trans)

lemma entry_flip: "entry_cmp cmp y x = flip (entry_cmp cmp x y)"
  using cmp_flip [of "fst x" "fst y"] word_cmp_flip [of "snd x" "snd y"]
  by (auto simp: entry_cmp_def and_then_def)

lemma entry_less: "entry_cmp cmp x y = Less \<longleftrightarrow> \<not> entry_le cmp y x"
  by (simp add: entry_le_def entry_flip [of y x])

lemma entry_refl: "entry_le cmp x x"
  by (simp add: entry_le_iff le_total [of "fst x" "fst x", simplified])

lemma entry_total: "entry_le cmp x y \<or> entry_le cmp y x"
  using entry_flip [of x y] by (cases "entry_cmp cmp x y") (auto simp: entry_le_def)

lemma entry_key: "entry_le cmp x y \<Longrightarrow> key_le cmp (fst x) (fst y)"
  by (simp add: entry_le_iff)

end

subsection \<open>The ascending order\<close>

lemma bytes_cmp_Equal: "bytes_cmp a b = Equal \<longleftrightarrow> a = b"
  by (induction a b rule: bytes_cmp.induct) (auto simp: word_cmp_def)

lemma bytes_cmp_flip: "bytes_cmp b a = flip (bytes_cmp a b)"
  by (induction a b rule: bytes_cmp.induct) (auto simp: word_cmp_def)

lemma bytes_cmp_trans: "bytes_cmp a b \<noteq> Greater \<Longrightarrow> bytes_cmp b c \<noteq> Greater \<Longrightarrow> bytes_cmp a c \<noteq> Greater"
proof (induction a b arbitrary: c rule: bytes_cmp.induct)
  case 1
  then show ?case by simp
next
  case (2 y ys)
  then show ?case by (cases c) auto
next
  case (3 x xs)
  then show ?case by simp
next
  case (4 x xs y ys)
  then show ?case by (cases c) (auto split: if_splits)
qed

subsection \<open>The order of complemented keys\<close>

text \<open>A key continued with 0xFF to a length.\<close>

definition padded :: "nat \<Rightarrow> byte \<Rightarrow> byte list \<Rightarrow> byte list" where
  "padded n fill a = a @ replicate (n - length a) fill"

definition byte_or_ff :: "byte list \<Rightarrow> nat \<Rightarrow> byte" where
  "byte_or_ff a i = (case get_at a i of Some x \<Rightarrow> x | None \<Rightarrow> 0xFF)"

lemma cmp_desc_from_map: "cmp_desc_from a b is = bytes_cmp (map (byte_or_ff a) is) (map (byte_or_ff b) is)"
  by (induction "is") (simp_all add: Let_def byte_or_ff_def)

lemma padded_map: "length a \<le> n \<Longrightarrow> map (byte_or_ff a) [0..<n] = padded n 0xFF a"
  by (rule nth_equalityI) (auto simp: padded_def byte_or_ff_def get_at_def nth_append)

lemma key_cmp_desc_padded_max:
  "key_cmp_desc a b = bytes_cmp (padded (max (length a) (length b)) 0xFF a) (padded (max (length a) (length b)) 0xFF b)"
  by (simp add: key_cmp_desc_def cmp_desc_from_map padded_map)

lemma bytes_cmp_append: "length a = length b \<Longrightarrow> bytes_cmp (a @ c) (b @ c) = bytes_cmp a b"
proof (induction a b rule: list_induct2)
  case Nil
  show ?case by (simp add: bytes_cmp_Equal)
qed auto

lemma padded_more: "length a \<le> m \<Longrightarrow> m \<le> n \<Longrightarrow> padded n x a = padded m x a @ replicate (n - m) x"
  by (simp add: padded_def flip: replicate_add)

lemma key_cmp_desc_padded:
  assumes "length a \<le> n" "length b \<le> n"
  shows "key_cmp_desc a b = bytes_cmp (padded n 0xFF a) (padded n 0xFF b)"
proof -
  let ?m = "max (length a) (length b)"
  have "?m \<le> n" using assms by simp
  then have "padded n 0xFF a = padded ?m 0xFF a @ replicate (n - ?m) 0xFF" "padded n 0xFF b = padded ?m 0xFF b @ replicate (n - ?m) 0xFF"
    by (intro padded_more; simp)+
  moreover have "length (padded ?m 0xFF a) = length (padded ?m 0xFF b)" by (simp add: padded_def)
  ultimately show ?thesis by (simp add: key_cmp_desc_padded_max bytes_cmp_append)
qed

lemma key_cmp_desc_trans:
  assumes "key_cmp_desc a b \<noteq> Greater" "key_cmp_desc b c \<noteq> Greater"
  shows "key_cmp_desc a c \<noteq> Greater"
proof -
  let ?n = "max (length a) (max (length b) (length c))"
  have e: "key_cmp_desc a b = bytes_cmp (padded ?n 0xFF a) (padded ?n 0xFF b)"
    "key_cmp_desc b c = bytes_cmp (padded ?n 0xFF b) (padded ?n 0xFF c)"
    "key_cmp_desc a c = bytes_cmp (padded ?n 0xFF a) (padded ?n 0xFF c)"
    by (intro key_cmp_desc_padded; simp)+
  show ?thesis using assms bytes_cmp_trans unfolding e by blast
qed

lemma key_cmp_desc_flip: "key_cmp_desc b a = flip (key_cmp_desc a b)"
proof -
  let ?n = "max (length a) (length b)"
  have "key_cmp_desc b a = bytes_cmp (padded ?n 0xFF b) (padded ?n 0xFF a)" by (rule key_cmp_desc_padded) simp_all
  also have "\<dots> = flip (bytes_cmp (padded ?n 0xFF a) (padded ?n 0xFF b))" by (rule bytes_cmp_flip)
  finally show ?thesis unfolding key_cmp_desc_padded_max [of a b] .
qed

interpretation keys: key_order "kcmp descending" for descending
proof
  show "kcmp descending b a = flip (kcmp descending a b)" for a b
    unfolding kcmp_def by (cases descending) (simp_all only: if_True if_False, rule key_cmp_desc_flip, rule bytes_cmp_flip)
  show "kcmp descending a b \<noteq> Greater \<Longrightarrow> kcmp descending b c \<noteq> Greater \<Longrightarrow> kcmp descending a c \<noteq> Greater" for a b c
    using bytes_cmp_trans [of a b c] key_cmp_desc_trans [of a b c] by (cases descending) (simp_all add: kcmp_def)
qed

text \<open>The order of the nodes in the code is the order of their entries.\<close>

definition entry_of :: "bt_node \<Rightarrow> byte list \<times> u64" where
  "entry_of n = (bn_key n, bn_recno n)"

lemma cmp_node_entry: "cmp_node descending key recno n = entry_cmp (kcmp descending) (key, recno) (entry_of n)"
  by (simp add: cmp_node_def node_cmp_def node_cmp_desc_def entry_cmp_def entry_of_def kcmp_def)

subsection \<open>Descending is the reverse of ascending\<close>

lemma unat_not_byte: "unat (NOT x :: byte) = 255 - unat x"
proof -
  have "NOT x = - 1 - x" by (simp add: not_eq_complement)
  moreover have "unat (- 1 - x :: byte) = unat (- 1 :: byte) - unat x" by (rule unat_sub) simp
  moreover have "unat (- 1 :: byte) = 255" by (simp add: unsigned_minus_1_eq_mask mask_eq_exp_minus_1)
  ultimately show ?thesis by simp
qed

lemma not_less_not: "NOT x < NOT y \<longleftrightarrow> (y :: byte) < x"
  unfolding word_less_nat_alt unat_not_byte using unat_byte_lt [of x] unat_byte_lt [of y] by linarith

lemma bytes_cmp_not:
  "length a = length b \<Longrightarrow> bytes_cmp (map (\<lambda>x. NOT x) a) (map (\<lambda>x. NOT x) b) = flip (bytes_cmp a b)"
proof (induction a b rule: list_induct2)
  case (Cons x xs y ys)
  then show ?case by (auto simp: word_cmp_def not_less_not)
qed simp

text \<open>Chopped keys: no zero byte at the end, the single zero byte apart.\<close>

definition chopped :: "byte list \<Rightarrow> bool" where
  "chopped a \<longleftrightarrow> a \<noteq> [] \<and> (last a = 0 \<longrightarrow> a = [0])"

definition complement_key :: "byte list \<Rightarrow> byte list" where
  "complement_key a = map (\<lambda>x. NOT x) a"

text \<open>Keys of one length compare alike after their last nonzero byte.\<close>

lemma zeros_below:
  assumes "a \<noteq> []" "last a \<noteq> 0" "length a \<le> n"
  shows "bytes_cmp (replicate n 0) (padded n 0 a) = Less"
  using assms
proof (induction a arbitrary: n)
  case (Cons x a)
  then obtain m where n: "n = Suc m" by (cases n) auto
  show ?case
  proof (cases "x = 0")
    case True
    then have "a \<noteq> []" using Cons.prems by auto
    then show ?thesis using Cons n True by (simp add: padded_def)
  next
    case False
    then show ?thesis by (simp add: n padded_def word_gt_0)
  qed
qed simp

lemma padded_zero_cmp:
  assumes "length a \<le> n" "length b \<le> n" "a \<noteq> [] \<longrightarrow> last a \<noteq> 0" "b \<noteq> [] \<longrightarrow> last b \<noteq> 0"
  shows "bytes_cmp (padded n 0 a) (padded n 0 b) = bytes_cmp a b"
  using assms
proof (induction a b arbitrary: n rule: bytes_cmp.induct)
  case 1
  then show ?case by (simp add: padded_def bytes_cmp_Equal)
next
  case (2 y ys)
  then show ?case using zeros_below [of "y # ys" n] by (simp add: padded_def)
next
  case (3 x xs)
  then have "bytes_cmp (replicate n 0) (padded n 0 (x # xs)) = Less" by (intro zeros_below) simp_all
  then show ?case using bytes_cmp_flip [of "padded n 0 (x # xs)" "replicate n 0"] by (simp add: padded_def)
next
  case (4 x xs y ys)
  then obtain m where n: "n = Suc m" by (cases n) auto
  then show ?case using 4 by (auto simp: padded_def split: if_splits)
qed

lemma complement_padded: "complement_key (padded n 0 a) = padded n 0xFF (complement_key a)"
proof -
  have "NOT (0 :: byte) = 0xFF" by (simp add: mask_eq_exp_minus_1)
  then show ?thesis by (simp add: complement_key_def padded_def)
qed

text \<open>A descending index stores its entries in exactly the reverse order of the ascending one: for
  keys that end in no zero byte (the encoders chop them), the complemented keys compare the other way
  round, keys that are prefixes of each other included.\<close>

lemma descending_reverses:
  assumes "a \<noteq> [] \<longrightarrow> last a \<noteq> 0" "b \<noteq> [] \<longrightarrow> last b \<noteq> 0"
  shows "key_cmp_desc (complement_key a) (complement_key b) = bytes_cmp b a"
proof -
  let ?n = "max (length a) (length b)"
  have "key_cmp_desc (complement_key a) (complement_key b) =
      bytes_cmp (complement_key (padded ?n 0 a)) (complement_key (padded ?n 0 b))"
    unfolding complement_padded by (rule key_cmp_desc_padded) (simp_all add: complement_key_def)
  also have "\<dots> = flip (bytes_cmp (padded ?n 0 a) (padded ?n 0 b))"
    unfolding complement_key_def by (rule bytes_cmp_not) (simp add: padded_def)
  also have "\<dots> = flip (bytes_cmp a b)" using assms by (simp add: padded_zero_cmp)
  finally show ?thesis by (simp flip: bytes_cmp_flip)
qed

end
