(* ===== verification/Btw_Pages.thy ===== *)
theory Btw_Pages
  imports Btw
begin

unbundle bit_operations_syntax

text \<open>
  An index page written and read back: \<^verbatim>\<open>decode_content\<close> of the page \<^verbatim>\<open>encode_page\<close> wrote gives
  the content again, for record numbers of 40 bits and keys below \<^verbatim>\<open>2^14\<close> bytes, and the encoder
  touches no other page.
\<close>

subsection \<open>Fields of a page given by its parts\<close>

lemma u16_at_append: "length pre = at \<Longrightarrow> u16_at (pre @ u16_bytes v @ post) at = Ret v"
  by (simp add: u16_at_def rs_slice_def get_range_def u16_bytes_def le_nat_le_bytes)

lemma u32_at_append: "length pre = at \<Longrightarrow> u32_at (pre @ u32_bytes v @ post) at = Ret v"
  by (simp add: u32_at_def rs_slice_def get_range_def u32_bytes_def le_nat_le_bytes)

subsection \<open>The nodes\<close>

definition node_ok :: "bool \<Rightarrow> bt_node \<Rightarrow> bool" where
  "node_ok leaf n \<longleftrightarrow> unat (bn_recno n) < 2 ^ 40 \<and> length (bn_key n) < 2 ^ 14 \<and> (leaf \<longrightarrow> bn_page n = 0)"

definition term_ok :: "bool \<Rightarrow> terminator \<Rightarrow> bool" where
  "term_ok leaf t = (case t of LevelEnd \<Rightarrow> True | BucketEnd n \<Rightarrow> node_ok leaf n)"

definition content_ok :: "page_content \<Rightarrow> bool" where
  "content_ok c \<longleftrightarrow> (\<forall>n \<in> set (pc_nodes c). node_ok (pc_level c = 0) n) \<and> term_ok (pc_level c = 0) (pc_term c)"

lemma common_prefix_Nil [simp]: "common_prefix [] b = 0" "common_prefix a [] = 0"
  by (simp_all add: common_prefix_def)

lemma common_prefix_Cons [simp]: "common_prefix (x # a) (y # b) = (if x = y then Suc (common_prefix a b) else 0)"
  by (simp add: common_prefix_def)

lemma common_prefix_agrees: "take (common_prefix a b) a = take (common_prefix a b) b"
proof (induction a arbitrary: b)
  case (Cons x a)
  then show ?case by (cases b) auto
qed simp

lemma common_prefix_le: "common_prefix a b \<le> length a" "common_prefix a b \<le> length b"
proof (induction a arbitrary: b)
  case (Cons x a)
  { case 1 then show ?case using Cons by (cases b) auto }
  { case 2 then show ?case using Cons by (cases b) auto }
qed simp_all

text \<open>The node written for a key against its predecessor.\<close>

definition node_bytes :: "bool \<Rightarrow> bool \<Rightarrow> byte list \<Rightarrow> bt_node \<Rightarrow> byte list" where
  "node_bytes leaf eb prev n =
     write_node leaf eb (common_prefix prev (bn_key n)) (drop (common_prefix prev (bn_key n)) (bn_key n)) (bn_recno n) (bn_page n)"

definition term_bytes :: "bool \<Rightarrow> byte list \<Rightarrow> terminator \<Rightarrow> byte list" where
  "term_bytes leaf prev t = (case t of LevelEnd \<Rightarrow> [push_bit 5 1] | BucketEnd n \<Rightarrow> node_bytes leaf True prev n)"

fun body_bytes :: "bool \<Rightarrow> byte list \<Rightarrow> bt_node list \<Rightarrow> terminator \<Rightarrow> byte list" where
  "body_bytes leaf prev [] t = term_bytes leaf prev t"
| "body_bytes leaf prev (n # ns) t = node_bytes leaf False prev n @ body_bytes leaf (bn_key n) ns t"

lemma nodes_bytes_body:
  "body_bytes leaf prev ns t = fst (nodes_bytes leaf prev ns) @ term_bytes leaf (if ns = [] then prev else bn_key (last ns)) t"
  by (induction ns arbitrary: prev) (auto simp: node_bytes_def Let_def split: prod.splits)

lemma page_body_bytes: "fst (page_body c) = body_bytes (pc_level c = 0) [] (pc_nodes c) (pc_term c)"
  by (auto simp: page_body_def nodes_bytes_body term_bytes_def node_bytes_def last_key_def Let_def
      split: prod.splits terminator.splits)

text \<open>Reading a node that was written against the key before it.\<close>

lemma read_node_bytes:
  assumes "node_ok leaf n"
  shows "\<exists>nd. read_node (pre @ node_bytes leaf eb prev n @ post) (length pre) leaf = Some nd \<and>
    \<not> is_end_level nd \<and> is_end_bucket nd = eb \<and> nd_record nd = bn_recno n \<and> nd_page nd = bn_page n \<and>
    unat (nd_prefix nd) = common_prefix prev (bn_key n) \<and>
    next_at nd = length (pre @ node_bytes leaf eb prev n) \<and>
    get_range (pre @ node_bytes leaf eb prev n @ post) (data_at nd) (data_at nd + unat (nd_length nd)) =
      Some (drop (common_prefix prev (bn_key n)) (bn_key n))"
proof -
  let ?p = "common_prefix prev (bn_key n)" and ?sfx = "drop (common_prefix prev (bn_key n)) (bn_key n)"
  have k: "length (bn_key n) < 2 ^ 14" and r: "unat (bn_recno n) < 2 ^ 40" using assms by (simp_all add: node_ok_def)
  have p: "?p < 2 ^ 14" using common_prefix_le(2) [of prev "bn_key n"] k by linarith
  have s: "length ?sfx < 2 ^ 14" using k by simp
  have u: "unat (of_nat ?p :: u16) = ?p" "unat (of_nat (length ?sfx) :: u16) = length ?sfx"
    using p s by (simp_all add: unat_of_nat del: length_drop)
  obtain hd where hd: "node_bytes leaf eb prev n = hd @ ?sfx"
    by (auto simp: node_bytes_def write_node_def Let_def simp del: drop_drop)
  have "get_range (pre @ node_bytes leaf eb prev n @ post) (length pre + length hd) (length pre + length hd + length ?sfx) = Some ?sfx"
    unfolding hd by (simp add: get_range_def)
  moreover have "length (write_node leaf eb ?p ?sfx (bn_recno n) (bn_page n)) = length hd + length ?sfx"
    using hd unfolding node_bytes_def by simp
  ultimately show ?thesis
    using read_write_node [OF r p s, of pre leaf eb "bn_page n" post] u assms
    unfolding node_bytes_def by (auto simp: written_def node_ok_def simp del: length_drop)
qed

lemma read_level_end: "\<exists>nd. read_node (pre @ [push_bit 5 1] @ post) (length pre) leaf = Some nd \<and> is_end_level nd"
proof -
  have g: "get_at (pre @ [push_bit 5 1] @ post) (length pre) = Some (push_bit 5 1)"
    using get_at_append [of pre "push_bit 5 1 :: byte" post] by simp
  have "drop_bit 5 (push_bit 5 1 AND 0xE0 :: byte) = 1"
    using head_byte(1) [of 1 0] by simp
  then show ?thesis using g by (simp add: read_node_def Let_def)
qed

lemma content_loop_body:
  assumes "\<forall>n \<in> set ns. node_ok leaf n" "term_ok leaf t"
  shows "content_loop (pre @ body_bytes leaf prev ns t @ post) leaf (length pre) prev = Some (ns, t)"
  using assms
proof (induction ns arbitrary: pre prev)
  case Nil
  show ?case
  proof (cases t)
    case LevelEnd
    then show ?thesis using read_level_end [of pre post leaf]
      by (subst content_loop.simps) (auto simp: term_bytes_def)
  next
    case (BucketEnd n)
    then have "node_ok leaf n" using Nil by (simp add: term_ok_def)
    from read_node_bytes [OF this, of pre True prev post] show ?thesis
      using common_prefix_agrees [of prev "bn_key n"] BucketEnd
      by (subst content_loop.simps) (auto simp: term_bytes_def)
  qed
next
  case (Cons n ns)
  have "node_ok leaf n" using Cons.prems by simp
  from read_node_bytes [OF this, of pre False prev "body_bytes leaf (bn_key n) ns t @ post"]
  obtain nd where nd: "read_node (pre @ node_bytes leaf False prev n @ body_bytes leaf (bn_key n) ns t @ post) (length pre) leaf = Some nd"
    "\<not> is_end_level nd" "\<not> is_end_bucket nd" "nd_record nd = bn_recno n" "nd_page nd = bn_page n"
    "unat (nd_prefix nd) = common_prefix prev (bn_key n)" "next_at nd = length (pre @ node_bytes leaf False prev n)"
    "get_range (pre @ node_bytes leaf False prev n @ body_bytes leaf (bn_key n) ns t @ post) (data_at nd) (data_at nd + unat (nd_length nd)) =
      Some (drop (common_prefix prev (bn_key n)) (bn_key n))"
    by auto
  have key: "take (common_prefix prev (bn_key n)) prev @ drop (common_prefix prev (bn_key n)) (bn_key n) = bn_key n"
    by (metis common_prefix_agrees append_take_drop_id)
  have IH: "content_loop ((pre @ node_bytes leaf False prev n) @ body_bytes leaf (bn_key n) ns t @ post) leaf
      (length (pre @ node_bytes leaf False prev n)) (bn_key n) = Some (ns, t)"
    by (rule Cons.IH) (use Cons.prems in simp_all)
  show ?case
    using nd IH key by (subst content_loop.simps) (simp add: Let_def)
qed

text \<open>The room a node can take: a record number of 40 bits takes six bytes with its head, a page
  number five, a prefix and a length two each.\<close>

lemma varint_length: "unat n < 128 ^ k \<Longrightarrow> 1 \<le> k \<Longrightarrow> length (varint n) \<le> k"
proof (induction n arbitrary: k rule: varint.induct)
  case (1 n)
  show ?case
  proof (cases "drop_bit 7 n = 0")
    case True
    then show ?thesis using 1(3) by (subst varint_head) simp
  next
    case False
    have "k \<noteq> 1"
    proof
      assume "k = 1"
      then have "unat (drop_bit 7 n) = 0" using 1(2) unfolding unat_drop_bit_7 by simp
      then show False using False by (simp only: unat_eq_0)
    qed
    then obtain j where k: "k = Suc j" "1 \<le> j" using 1(3) by (cases k) auto
    have "unat (drop_bit 7 n) < 128 ^ j"
      using 1(2) unfolding unat_drop_bit_7 k by (simp add: less_mult_imp_div_less mult.commute)
    then have "length (varint (drop_bit 7 n)) \<le> j" by (rule 1(1) [OF refl refl False _ k(2)])
    then show ?thesis using False k by (subst varint_head) simp
  qed
qed

definition node_room :: "bt_node \<Rightarrow> nat" where
  "node_room n = 15 + length (bn_key n)"

lemma node_bytes_length:
  assumes "node_ok leaf n"
  shows "length (node_bytes leaf eb prev n) \<le> node_room n"
proof -
  have "unat (drop_bit 5 (bn_recno n)) < 128 ^ 5"
    using recno_split(1) [of "bn_recno n"] assms by (simp add: node_ok_def)
  then have r: "length (varint (drop_bit 5 (bn_recno n))) \<le> 5" by (rule varint_length) simp
  have "unat (ucast (bn_page n) :: u64) < 128 ^ 5"
  proof -
    have "unat (bn_page n) < 2 ^ LENGTH(32)" by (rule unsigned_less)
    then show ?thesis by (simp add: unsigned_ucast_eq take_bit_nat_eq_self)
  qed
  then have "length (varint (ucast (bn_page n))) \<le> 5" by (rule varint_length) simp
  then have p: "(if leaf then 0 else length (varint (ucast (bn_page n)))) \<le> 5" by simp
  have w: "(if b then length (write_14 m) else 0) \<le> 2" "(if b then 0 else length (write_14 m)) \<le> 2" for m b
    by (simp_all add: write_14_def Let_def)
  show ?thesis
    unfolding node_bytes_def write_node_length node_room_def length_drop
    using r p w(1) [of "node_flag eb (common_prefix prev (bn_key n)) (length (bn_key n) - common_prefix prev (bn_key n)) \<noteq> 3"
        "common_prefix prev (bn_key n)"]
      w(2) [of "node_flag eb (common_prefix prev (bn_key n)) (length (bn_key n) - common_prefix prev (bn_key n)) \<in> {3, 4, 5}"
        "length (bn_key n) - common_prefix prev (bn_key n)"]
    by linarith
qed

lemma body_length:
  assumes "content_ok c"
  shows "length (fst (page_body c)) \<le>
    sum_list (map node_room (pc_nodes c)) + (case pc_term c of LevelEnd \<Rightarrow> 1 | BucketEnd n \<Rightarrow> node_room n)"
proof -
  have "length (body_bytes leaf prev ns t) \<le> sum_list (map node_room ns) + (case t of LevelEnd \<Rightarrow> 1 | BucketEnd n \<Rightarrow> node_room n)"
    if "\<forall>n \<in> set ns. node_ok leaf n" "term_ok leaf t" for leaf prev ns t
    using that
  proof (induction ns arbitrary: prev)
    case Nil
    then show ?case by (auto simp: term_bytes_def term_ok_def node_bytes_length split: terminator.splits)
  next
    case (Cons n ns)
    have "length (node_bytes leaf False prev n) \<le> node_room n" using Cons.prems by (simp add: node_bytes_length)
    then show ?case using Cons.IH [of "bn_key n"] Cons.prems by simp
  qed
  then show ?thesis using assms by (simp add: page_body_bytes content_ok_def)
qed

subsection \<open>The page\<close>

text \<open>A page of the tree: decodable, of this relation and index, and its first node (whose prefix
  every reader takes relative to an empty key) carries no prefix.\<close>

definition starts_clean :: "btree_page \<Rightarrow> bool" where
  "starts_clean bp \<longleftrightarrow>
     (\<forall>nd. read_node (bt_bytes bp) (first_node bp) (bt_level bp = 0) = Some nd \<longrightarrow> \<not> is_end_level nd \<longrightarrow> nd_prefix nd = 0)"

definition page_holds :: "u16 \<Rightarrow> byte \<Rightarrow> byte list \<Rightarrow> page_content \<Rightarrow> bool" where
  "page_holds rel ix page c \<longleftrightarrow>
     (\<exists>bp. decode_btree page = Ret (Some bp) \<and> decode_content bp = Some c \<and> starts_clean bp \<and>
       bt_relation bp = rel \<and> bt_index_id bp = ix)"

definition page_head :: "u32 \<Rightarrow> u16 \<Rightarrow> byte \<Rightarrow> page_content \<Rightarrow> byte list" where
  "page_head page_no relation index_id c =
     [page_type_byte Index] @ replicate 11 0 @ u32_bytes page_no @ u32_bytes (pc_sibling c) @ u32_bytes (pc_left c) @
      u32_bytes (of_nat (snd (page_body c))) @ u16_bytes relation @ u16_bytes (of_nat (BTR_NODES_OFFSET + length (fst (page_body c)))) @
      [index_id, pc_level c] @ u16_bytes 0 @ u16_bytes 0 @ [0]"

lemma page_bytes_head:
  "page_bytes no rel ix c len = page_head no rel ix c @ fst (page_body c) @
     replicate (len - (BTR_NODES_OFFSET + length (fst (page_body c)))) 0"
  by (simp add: page_bytes_def page_head_def split: prod.splits)

lemma length_page_head: "length (page_head no rel ix c) = BTR_NODES_OFFSET"
  by (simp add: page_head_def BTR_NODES_OFFSET_def)

lemma page_head_fields:
  fixes no rel ix c rest
  defines "page \<equiv> page_head no rel ix c @ rest"
  shows "u32_at page 16 = Ret (pc_sibling c)" "u32_at page 20 = Ret (pc_left c)" "u16_at page 28 = Ret rel"
    "u16_at page 36 = Ret 0" "rs_index page 32 = Ret ix" "rs_index page 33 = Ret (pc_level c)"
    "rs_index page 0 = Ret (page_type_byte Index)"
proof -
  let ?a = "[page_type_byte Index] @ replicate 11 0 @ u32_bytes no"
  let ?t = "u32_bytes (of_nat (snd (page_body c)))"
  let ?l = "u16_bytes (of_nat (BTR_NODES_OFFSET + length (fst (page_body c))))"
  have p: "page = ?a @ u32_bytes (pc_sibling c) @ u32_bytes (pc_left c) @ ?t @ u16_bytes rel @ ?l @
      [ix, pc_level c] @ u16_bytes 0 @ u16_bytes 0 @ [0] @ rest"
    unfolding page_def page_head_def by simp
  show "u32_at page 16 = Ret (pc_sibling c)"
    using u32_at_append [of ?a 16 "pc_sibling c"] unfolding p by simp
  show "u32_at page 20 = Ret (pc_left c)"
    using u32_at_append [of "?a @ u32_bytes (pc_sibling c)" 20 "pc_left c"] unfolding p by simp
  show "u16_at page 28 = Ret rel"
    using u16_at_append [of "?a @ u32_bytes (pc_sibling c) @ u32_bytes (pc_left c) @ ?t" 28 rel] unfolding p by simp
  show "u16_at page 36 = Ret 0"
    using u16_at_append [of "?a @ u32_bytes (pc_sibling c) @ u32_bytes (pc_left c) @ ?t @ u16_bytes rel @ ?l @ [ix, pc_level c] @ u16_bytes 0" 36 0]
    unfolding p by simp
  show "rs_index page 32 = Ret ix" "rs_index page 33 = Ret (pc_level c)" "rs_index page 0 = Ret (page_type_byte Index)"
    unfolding p by (simp_all add: rs_index_def nth_append)
qed

lemma page_bytes_hold:
  assumes "content_ok c" "BTR_NODES_OFFSET + length (fst (page_body c)) \<le> len"
  shows "page_holds rel ix (page_bytes no rel ix c len) c" "length (page_bytes no rel ix c len) = len"
proof -
  let ?body = "fst (page_body c)" and ?fill = "replicate (len - (BTR_NODES_OFFSET + length (fst (page_body c)))) 0"
  let ?page = "page_bytes no rel ix c len"
  show len: "length ?page = len" using assms(2) by (simp add: page_bytes_head length_page_head)
  note f = page_head_fields [of no rel ix c "?body @ ?fill", folded page_bytes_head]
  obtain h where h: "decode_page_header ?page = Ret (Some h)" "pag_type h = page_type_byte Index"
  proof -
    have "16 \<le> length ?page" using assms(2) len by (simp add: BTR_NODES_OFFSET_def)
    moreover obtain x1 x2 x3 x4 where "u32_at ?page 4 = Ret x1" "u32_at ?page 8 = Ret x2" "u32_at ?page 12 = Ret x3" "rs_index ?page 1 = Ret x4"
      using u_at_inside(2) [of 4 ?page] u_at_inside(2) [of 8 ?page] u_at_inside(2) [of 12 ?page] calculation
      by (auto simp: rs_index_def)
    ultimately show ?thesis using f(7) that by (simp add: decode_page_header_def PAGE_HEADER_SIZE_def)
  qed
  obtain ln where ln: "u16_at ?page 30 = Ret ln"
    using u_at_inside(1) [of 30 ?page] assms(2) len by (auto simp: BTR_NODES_OFFSET_def)
  define bp where "bp = \<lparr>bt_pag = h, bt_sibling = pc_sibling c, bt_left = pc_left c, bt_relation = rel, bt_length = ln,
    bt_index_id = ix, bt_level = pc_level c, bt_jump_size = 0, bt_bytes = ?page\<rparr>"
  have d: "decode_btree ?page = Ret (Some bp)"
    using h f ln by (simp add: decode_btree_def bp_def)
  have first: "first_node bp = length (page_head no rel ix c)"
    by (simp add: first_node_def bp_def length_page_head)
  have body: "?body = body_bytes (pc_level c = 0) [] (pc_nodes c) (pc_term c)" by (rule page_body_bytes)
  have ok: "\<forall>n \<in> set (pc_nodes c). node_ok (pc_level c = 0) n" "term_ok (pc_level c = 0) (pc_term c)"
    using assms(1) by (simp_all add: content_ok_def)
  have "decode_content bp = Some c"
    using content_loop_body [OF ok, of "page_head no rel ix c" "[]" ?fill] first
    by (simp add: decode_content_def bp_def page_bytes_head body)
  moreover have "starts_clean bp"
    unfolding starts_clean_def
  proof (intro allI impI)
    fix nd
    assume nd: "read_node (bt_bytes bp) (first_node bp) (bt_level bp = 0) = Some nd" "\<not> is_end_level nd"
    have at: "bt_bytes bp = page_head no rel ix c @ body_bytes (pc_level c = 0) [] (pc_nodes c) (pc_term c) @ ?fill" "bt_level bp = pc_level c"
      by (simp_all add: bp_def page_bytes_head body)
    show "nd_prefix nd = 0"
    proof (cases "pc_nodes c")
      case (Cons n ns)
      then have "node_ok (pc_level c = 0) n" using ok by simp
      from read_node_bytes [OF this, of "page_head no rel ix c" False "[]" "body_bytes (pc_level c = 0) (bn_key n) ns (pc_term c) @ ?fill"] nd(1)
      show ?thesis unfolding at first Cons by (auto simp: unat_eq_0)
    next
      case Nil
      show ?thesis
      proof (cases "pc_term c")
        case LevelEnd
        then show ?thesis using nd read_level_end [of "page_head no rel ix c" ?fill "pc_level c = 0"]
          unfolding at first Nil by (auto simp: term_bytes_def)
      next
        case (BucketEnd n)
        then have "node_ok (pc_level c = 0) n" using ok by (simp add: term_ok_def)
        from read_node_bytes [OF this, of "page_head no rel ix c" True "[]" ?fill] nd(1)
        show ?thesis unfolding at first Nil BucketEnd by (auto simp: unat_eq_0 term_bytes_def)
      qed
    qed
  qed
  ultimately show "page_holds rel ix ?page c"
    using d unfolding page_holds_def by (intro exI [of _ bp]) (simp add: bp_def)
qed

text \<open>A page of the file: on its number, decodable to its content.\<close>

definition file_holds :: "u16 \<Rightarrow> byte \<Rightarrow> image \<Rightarrow> u32 \<Rightarrow> page_content \<Rightarrow> bool" where
  "file_holds rel ix file no c \<longleftrightarrow> (\<exists>page. img_page file no = Some page \<and> page_holds rel ix page c)"

definition page_fits :: "nat \<Rightarrow> page_content \<Rightarrow> bool" where
  "page_fits page_size c \<longleftrightarrow> BTR_NODES_OFFSET + length (fst (page_body c)) \<le> page_size"

lemma encode_page_eq:
  assumes "img_page file no = Some page" "length page = ps"
  shows "encode_page file ps no rel ix c =
    Ret (if page_fits ps c then Some (set_page no (page_bytes no rel ix c ps) file) else None)"
  using assms by (simp add: encode_page_def page_fits_def Let_def)

lemma load_content_holds:
  assumes "file_holds rel ix file no c"
  shows "load_content bad und file ps no = Ret (Inr c)"
  using assms
  by (auto simp: file_holds_def page_holds_def load_content_def get_btree_def page_at_def ok_or_def)

text \<open>C35: An index page written with \<^verbatim>\<open>encode_page\<close> is read back as it was: every node with its
  full key, record number and child, the terminator, level and both links, for record numbers of 40
  bits and keys below 2^14 bytes. The encoder refuses exactly the contents that do not fit the page,
  never panics, and touches no other page.\<close>

theorem index_page_round_trip:
  assumes "img_page file no = Some page" "length page = ps" "content_ok c"
  shows "\<exists>r. encode_page file ps no rel ix c = Ret r \<and> (r = None \<longleftrightarrow> ps < BTR_NODES_OFFSET + length (fst (page_body c))) \<and>
    (\<forall>file'. r = Some file' \<longrightarrow> load_content bad und file' ps no = Ret (Inr c) \<and>
       (\<forall>q. q \<noteq> no \<longrightarrow> img_page file' q = img_page file q))"
proof (cases "page_fits ps c")
  case True
  then have "page_holds rel ix (page_bytes no rel ix c ps) c"
    using page_bytes_hold(1) [OF assms(3)] by (simp add: page_fits_def)
  then have "file_holds rel ix (set_page no (page_bytes no rel ix c ps) file) no c"
    using assms(1) by (simp add: file_holds_def page_set_page)
  from load_content_holds [OF this] show ?thesis
    using encode_page_eq [OF assms(1,2), of rel ix c] True
    by (auto simp: page_fits_def page_set_page)
next
  case False
  then show ?thesis using encode_page_eq [OF assms(1,2), of rel ix c] by (auto simp: page_fits_def)
qed

text \<open>An interior page of two children and a bucket end, on a page of 128 bytes.\<close>

definition demo_content :: page_content where
  "demo_content = \<lparr>pc_level = 1, pc_sibling = 9, pc_left = 0,
     pc_nodes = [\<lparr>bn_key = [], bn_recno = 0, bn_page = 5\<rparr>, \<lparr>bn_key = [0xC0, 8], bn_recno = 300, bn_page = 70000\<rparr>],
     pc_term = BucketEnd \<lparr>bn_key = [0xC0, 9], bn_recno = 2, bn_page = 8\<rparr>\<rparr>"

theorem index_page_round_trip_witness:
  "\<exists>file'. encode_page (from_bytes (replicate 256 0) 128) 128 1 200 0 demo_content = Ret (Some file') \<and>
    load_content ''bad leaf page'' ''undecodable leaf'' file' 128 1 = Ret (Inr demo_content)"
proof -
  have page: "img_page (from_bytes (replicate 256 0) 128) 1 = Some (replicate 128 0)" by code_simp
  have ok: "content_ok demo_content" by (simp add: content_ok_def demo_content_def node_ok_def term_ok_def)
  have "BTR_NODES_OFFSET + length (fst (page_body demo_content)) \<le> 128"
    using body_length [OF ok] by (simp add: demo_content_def BTR_NODES_OFFSET_def node_room_def)
  then show ?thesis
    using index_page_round_trip [OF page length_replicate ok, of 200 0 "''bad leaf page''" "''undecodable leaf''"] by auto
qed

end
