(* ===== verification/Bt_Tree.thy ===== *)
theory Bt_Tree
  imports Bt_Order Btw_Pages
begin

unbundle bit_operations_syntax

text \<open>
  A tree of index pages as rows of pages, the leaf row first: the links along a row, the order of
  the entries between the fences, and the child pointers of each row as the pages of the row below.
  On such a tree the walk of the reader answers every entry in order, and the range lookup exactly
  the entries inside its bounds.
\<close>

subsection \<open>Rows\<close>

type_synonym entry = "byte list \<times> u64"
type_synonym row = "(u32 \<times> page_content) list"

definition fence :: "page_content \<Rightarrow> entry option" where
  "fence c = (case pc_term c of LevelEnd \<Rightarrow> None | BucketEnd b \<Rightarrow> Some (entry_of b))"

fun row_linked :: "byte \<Rightarrow> u32 \<Rightarrow> row \<Rightarrow> bool" where
  "row_linked level left [] = False"
| "row_linked level left [(p, c)] \<longleftrightarrow>
     p \<noteq> 0 \<and> pc_level c = level \<and> pc_left c = left \<and> pc_sibling c = 0 \<and> pc_term c = LevelEnd"
| "row_linked level left ((p, c) # (q, d) # row) \<longleftrightarrow>
     p \<noteq> 0 \<and> pc_level c = level \<and> pc_left c = left \<and> pc_sibling c = q \<and> pc_term c \<noteq> LevelEnd \<and>
     row_linked level p ((q, d) # row)"

definition entry_less :: "bool \<Rightarrow> entry \<Rightarrow> entry \<Rightarrow> bool" where
  "entry_less descending x y \<longleftrightarrow> entry_cmp (kcmp descending) x y = Less"

abbreviation entry_leq :: "bool \<Rightarrow> entry \<Rightarrow> entry \<Rightarrow> bool" where
  "entry_leq descending \<equiv> entry_le (kcmp descending)"

definition above :: "bool \<Rightarrow> entry option \<Rightarrow> entry \<Rightarrow> bool" where
  "above descending lo x = (case lo of None \<Rightarrow> True | Some l \<Rightarrow> entry_leq descending l x)"

definition under :: "bool \<Rightarrow> entry option \<Rightarrow> entry \<Rightarrow> bool" where
  "under descending hi x = (case hi of None \<Rightarrow> True | Some h \<Rightarrow> entry_less descending x h)"

text \<open>The entries a page compares: all of a leaf; in an interior page the first node stands for the
  lower fence, and in the leftmost page of a row its key means nothing.\<close>

definition ranked :: "bool \<Rightarrow> entry option \<Rightarrow> page_content \<Rightarrow> entry list" where
  "ranked leaf lo c = map entry_of (if leaf \<or> lo \<noteq> None then pc_nodes c else tl (pc_nodes c))"

definition page_sorted :: "bool \<Rightarrow> bool \<Rightarrow> entry option \<Rightarrow> page_content \<Rightarrow> bool" where
  "page_sorted descending leaf lo c \<longleftrightarrow>
     sorted_wrt (entry_less descending) (ranked leaf lo c) \<and>
     (\<forall>x \<in> set (ranked leaf lo c). above descending lo x \<and> under descending (fence c) x) \<and>
     (\<forall>l. lo = Some l \<longrightarrow> under descending (fence c) l) \<and>
     (\<not> leaf \<longrightarrow> pc_nodes c \<noteq> [] \<and> (\<forall>l. lo = Some l \<longrightarrow> entry_of (hd (pc_nodes c)) = l))"

fun row_sorted :: "bool \<Rightarrow> bool \<Rightarrow> entry option \<Rightarrow> row \<Rightarrow> bool" where
  "row_sorted descending leaf lo [] = True"
| "row_sorted descending leaf lo ((p, c) # row) \<longleftrightarrow>
     page_sorted descending leaf lo c \<and> row_sorted descending leaf (fence c) row"

fun places :: "entry option \<Rightarrow> row \<Rightarrow> (u32 \<times> entry option) list" where
  "places lo [] = []"
| "places lo ((p, c) # row) = (p, lo) # places (fence c) row"

definition page_pointers :: "entry option \<Rightarrow> bt_node list \<Rightarrow> (u32 \<times> entry option) list" where
  "page_pointers lo ns =
     (case ns of [] \<Rightarrow> [] | n # ns' \<Rightarrow> (bn_page n, lo) # map (\<lambda>m. (bn_page m, Some (entry_of m))) ns')"

fun pointers :: "entry option \<Rightarrow> row \<Rightarrow> (u32 \<times> entry option) list" where
  "pointers lo [] = []"
| "pointers lo ((p, c) # row) = page_pointers lo (pc_nodes c) @ pointers (fence c) row"

definition tree_ok :: "bool \<Rightarrow> row list \<Rightarrow> bool" where
  "tree_ok descending rows \<longleftrightarrow>
     rows \<noteq> [] \<and> length rows \<le> 256 \<and> length (last rows) = 1 \<and>
     (\<forall>k < length rows. row_linked (of_nat k) 0 (rows ! k) \<and> row_sorted descending (k = 0) None (rows ! k)) \<and>
     (\<forall>k. Suc k < length rows \<longrightarrow> pointers None (rows ! Suc k) = places None (rows ! k))"

definition leaf_entries :: "row list \<Rightarrow> index_entries" where
  "leaf_entries rows = concat (map (\<lambda>(p, c). map entry_of (pc_nodes c)) (hd rows))"

definition tree_pages :: "row list \<Rightarrow> u32 list" where
  "tree_pages rows = map fst (concat rows)"

definition tree_root :: "row list \<Rightarrow> u32" where
  "tree_root rows = fst (hd (last rows))"

definition file_has :: "u16 \<Rightarrow> byte \<Rightarrow> image \<Rightarrow> row list \<Rightarrow> bool" where
  "file_has rel ix file rows \<longleftrightarrow> (\<forall>row \<in> set rows. \<forall>(p, c) \<in> set row. file_holds rel ix file p c)"

subsection \<open>The readers of one page\<close>

text \<open>The nodes of a page under any key carried over from the page before.\<close>

lemma content_loop_any_key:
  assumes "starts_clean bp" "decode_content bp = Some c"
  shows "content_loop (bt_bytes bp) (bt_level bp = 0) (first_node bp) key = Some (pc_nodes c, pc_term c)"
    "pc_level c = bt_level bp" "pc_sibling c = bt_sibling bp" "pc_left c = bt_left bp"
proof -
  let ?leaf = "bt_level bp = 0"
  obtain ns t where loop: "content_loop (bt_bytes bp) ?leaf (first_node bp) [] = Some (ns, t)"
    and c: "c = \<lparr>pc_level = bt_level bp, pc_sibling = bt_sibling bp, pc_left = bt_left bp, pc_nodes = ns, pc_term = t\<rparr>"
    using assms(2) by (auto simp: decode_content_def)
  show "pc_level c = bt_level bp" "pc_sibling c = bt_sibling bp" "pc_left c = bt_left bp" using c by simp_all
  obtain nd where nd: "read_node (bt_bytes bp) (first_node bp) ?leaf = Some nd"
    using loop by (subst (asm) content_loop.simps) (auto split: option.splits)
  have "\<not> is_end_level nd \<Longrightarrow> nd_prefix nd = 0" using assms(1) nd by (simp add: starts_clean_def)
  then have "content_loop (bt_bytes bp) ?leaf (first_node bp) key = content_loop (bt_bytes bp) ?leaf (first_node bp) []"
    using nd by (subst (1 2) content_loop.simps) (auto split: option.splits)
  then show "content_loop (bt_bytes bp) ?leaf (first_node bp) key = Some (pc_nodes c, pc_term c)"
    using loop c by simp
qed

definition end_of :: "terminator \<Rightarrow> page_end" where
  "end_of t = (case t of LevelEnd \<Rightarrow> PageOver | BucketEnd _ \<Rightarrow> PageNext)"

definition carried :: "byte list \<Rightarrow> bt_node list \<Rightarrow> byte list" where
  "carried key ns = (if ns = [] then key else bn_key (last ns))"

text \<open>One turn of \<^verbatim>\<open>content_loop\<close>, as the other readers take it.\<close>

lemma content_loop_turn:
  assumes "content_loop bytes leaf at key = Some (ns, t)"
  obtains nd where "read_node bytes at leaf = Some nd" "is_end_level nd" "ns = []" "t = LevelEnd"
  | nd b where "read_node bytes at leaf = Some nd" "\<not> is_end_level nd" "is_end_bucket nd" "ns = []" "t = BucketEnd b"
  | nd n ns' where "read_node bytes at leaf = Some nd" "\<not> is_end_level nd" "\<not> is_end_bucket nd" "ns = n # ns'"
      "n = \<lparr>bn_key = next_key bytes key nd, bn_recno = nd_record nd, bn_page = nd_page nd\<rparr>"
      "content_loop bytes leaf (next_at nd) (next_key bytes key nd) = Some (ns', t)"
proof -
  obtain nd where nd: "read_node bytes at leaf = Some nd"
    using assms by (subst (asm) content_loop.simps) (auto split: option.splits)
  show thesis
  proof (cases "is_end_level nd")
    case True
    then show thesis using that(1) [OF nd] assms nd by (subst (asm) content_loop.simps) simp
  next
    case False
    then obtain suffix where s: "get_range bytes (data_at nd) (data_at nd + unat (nd_length nd)) = Some suffix"
      using assms nd by (subst (asm) content_loop.simps) (auto split: option.splits)
    then have key: "take (unat (nd_prefix nd)) key @ suffix = next_key bytes key nd"
      by (simp add: next_key_def byte_simps)
    show thesis
    proof (cases "is_end_bucket nd")
      case True
      then show thesis using that(2) [OF nd False True] assms nd False s
        by (subst (asm) content_loop.simps) (auto simp: Let_def)
    next
      case nb: False
      then show thesis using that(3) [OF nd False nb _ refl] assms nd False s key
        by (subst (asm) content_loop.simps) (auto simp: Let_def)
    qed
  qed
qed

lemma walk_page_content:
  assumes "content_loop bytes True at key = Some (ns, t)"
  shows "walk_page bytes at key out = (end_of t, carried key ns, out @ map entry_of ns)"
  using assms
proof (induction ns arbitrary: at key out)
  case Nil
  from Nil show ?case
    by (rule content_loop_turn) (subst walk_page.simps; simp add: end_of_def carried_def)+
next
  case (Cons n ns)
  from Cons.prems show ?case
    by (rule content_loop_turn) (subst walk_page.simps; auto simp: Cons.IH carried_def entry_of_def Let_def)+
qed

text \<open>The callback over the nodes of a page: whether it or the upper bound ended the walk.\<close>

fun visit :: "bool \<Rightarrow> bound \<Rightarrow> bound \<Rightarrow> 's visitor \<Rightarrow> index_entries \<Rightarrow> 's \<Rightarrow> bool \<times> 's" where
  "visit descending lo hi f [] s = (False, s)"
| "visit descending lo hi f ((key, recno) # es) s =
     (if past_upper descending hi key then (True, s)
      else if admitted descending lo key then
        (let (go, s') = f key recno s in if go then visit descending lo hi f es s' else (True, s'))
      else visit descending lo hi f es s)"

lemma range_page_content:
  assumes "content_loop bytes True at key = Some (ns, t)"
    and "visit descending lo hi f (map entry_of ns) s = (over, s')"
  shows "\<exists>key'. range_page descending lo hi f bytes at key s = (if over then PageOver else end_of t, key', s')"
  using assms
proof (induction ns arbitrary: at key s)
  case Nil
  have v: "\<not> over" "s' = s" using Nil.prems(2) by simp_all
  from Nil.prems(1) show ?case
    by (rule content_loop_turn) (subst range_page.simps; simp add: end_of_def v)+
next
  case (Cons n ns)
  from Cons.prems(1) show ?case
  proof (rule content_loop_turn)
    fix nd n' ns'
    assume nd: "read_node bytes at True = Some nd" "\<not> is_end_level nd" "\<not> is_end_bucket nd" "n # ns = n' # ns'"
      "n' = \<lparr>bn_key = next_key bytes key nd, bn_recno = nd_record nd, bn_page = nd_page nd\<rparr>"
      "content_loop bytes True (next_at nd) (next_key bytes key nd) = Some (ns', t)"
    note IH = Cons.IH [of "next_at nd" "next_key bytes key nd"]
    show ?thesis
      using Cons.prems(2) nd IH
      by (subst range_page.simps) (auto simp: entry_of_def Let_def split: if_splits prod.splits)
  qed simp_all
qed

fun pick_child :: "bool \<Rightarrow> bound \<Rightarrow> u32 option \<Rightarrow> bt_node list \<Rightarrow> u32 option" where
  "pick_child descending lo chosen [] = chosen"
| "pick_child descending lo chosen (n # ns) =
     (if chosen \<noteq> None \<and> (case lo of None \<Rightarrow> True | Some (lo_key, _) \<Rightarrow> kcmp descending (bn_key n) lo_key \<noteq> Less)
      then chosen else pick_child descending lo (Some (bn_page n)) ns)"

lemma choose_child_content:
  assumes "content_loop bytes False at key = Some (ns, t)"
  shows "choose_child descending lo bytes at key chosen = Some (pick_child descending lo chosen ns)"
  using assms
proof (induction ns arbitrary: at key chosen)
  case Nil
  from Nil show ?case by (rule content_loop_turn) (subst choose_child.simps; simp)+
next
  case (Cons n ns)
  from Cons.prems show ?case
    by (rule content_loop_turn) (subst choose_child.simps; auto simp: Cons.IH Let_def split: option.splits)+
qed

subsection \<open>Rows and their fences\<close>

lemma holds_page:
  assumes "file_holds rel ix file p c"
  shows "\<exists>bp. get_btree file ps p = Ret (Some bp) \<and> bt_level bp = pc_level c \<and> bt_sibling bp = pc_sibling c \<and>
    (\<forall>key. content_loop (bt_bytes bp) (pc_level c = 0) (first_node bp) key = Some (pc_nodes c, pc_term c))"
proof -
  from assms obtain page bp where bp: "img_page file p = Some page" "decode_btree page = Ret (Some bp)"
    "decode_content bp = Some c" "starts_clean bp"
    by (auto simp: file_holds_def page_holds_def)
  note f = content_loop_any_key [OF bp(4,3)]
  show ?thesis using bp f by (auto simp: get_btree_def page_at_def)
qed

definition row_entries :: "row \<Rightarrow> index_entries" where
  "row_entries row = concat (map (\<lambda>(p, c). map entry_of (pc_nodes c)) row)"

definition after_row :: "entry option \<Rightarrow> row \<Rightarrow> entry option" where
  "after_row lo row = (if row = [] then lo else fence (snd (last row)))"

lemma row_entries_simps [simp]:
  "row_entries [] = []" "row_entries ((p, c) # row) = map entry_of (pc_nodes c) @ row_entries row"
  "row_entries (row1 @ row2) = row_entries row1 @ row_entries row2"
  by (simp_all add: row_entries_def)

lemma after_row_simps [simp]: "after_row lo [] = lo" "after_row lo ((p, c) # row) = after_row (fence c) row"
  by (simp_all add: after_row_def)

lemma row_sorted_append:
  "row_sorted descending leaf lo (row1 @ row2) \<longleftrightarrow>
     row_sorted descending leaf lo row1 \<and> row_sorted descending leaf (after_row lo row1) row2"
  by (induction descending leaf lo row1 rule: row_sorted.induct) auto

lemma places_append: "places lo (row1 @ row2) = places lo row1 @ places (after_row lo row1) row2"
  by (induction lo row1 rule: places.induct) auto

lemma pointers_append: "pointers lo (row1 @ row2) = pointers lo row1 @ pointers (after_row lo row1) row2"
  by (induction lo row1 rule: pointers.induct) auto

lemma places_split:
  "(p, l) \<in> set (places lo row) \<Longrightarrow> \<exists>pre c post. row = pre @ (p, c) # post \<and> l = after_row lo pre"
proof (induction lo row rule: places.induct)
  case (2 lo q d row)
  show ?case
  proof (cases "(p, l) = (q, lo)")
    case True
    then show ?thesis by (intro exI [of _ "[]"] exI [of _ d] exI [of _ row]) simp
  next
    case False
    then obtain pre c post where "row = pre @ (p, c) # post" "l = after_row (fence d) pre" using 2 by auto
    then show ?thesis by (intro exI [of _ "(q, d) # pre"] exI [of _ c] exI [of _ post]) simp
  qed
qed simp

lemma places_fst: "map fst (places lo row) = map fst row"
  by (induction lo row rule: places.induct) auto

lemma row_linked_append:
  "row_linked level left (row1 @ (p, c) # row2) \<Longrightarrow> \<exists>left'. row_linked level left' ((p, c) # row2)"
proof (induction row1 arbitrary: left)
  case (Cons x row1)
  then show ?case by (cases x; cases row1; cases "hd row1") auto
qed auto

lemma row_linked_fences: "row_linked level left row \<Longrightarrow> (p, c) \<in> set (butlast row) \<Longrightarrow> fence c \<noteq> None"
  by (induction level left row rule: row_linked.induct) (auto simp: fence_def split: terminator.splits)

lemma row_linked_level: "row_linked level left row \<Longrightarrow> (p, c) \<in> set row \<Longrightarrow> pc_level c = level \<and> p \<noteq> 0"
  by (induction level left row rule: row_linked.induct) auto

lemma entry_less_trans:
  "entry_less d x y \<Longrightarrow> entry_less d y z \<Longrightarrow> entry_less d x z"
  "entry_less d x y \<Longrightarrow> entry_leq d y z \<Longrightarrow> entry_less d x z"
  "entry_leq d x y \<Longrightarrow> entry_less d y z \<Longrightarrow> entry_less d x z"
  unfolding entry_less_def keys.entry_less by (meson keys.entry_trans keys.entry_total)+

lemma entry_less_leq: "entry_less d x y \<Longrightarrow> entry_leq d x y"
  unfolding entry_less_def keys.entry_less using keys.entry_total by blast

text \<open>Every entry of a stretch of leaves, and its lower fence, lies below the fence at its end.\<close>

lemma stretch_below:
  assumes "row_sorted descending True lo row" "\<forall>(p, c) \<in> set row. fence c \<noteq> None" "after_row lo row = Some h"
  shows "(\<forall>x \<in> set (row_entries row). entry_less descending x h) \<and> (row \<noteq> [] \<longrightarrow> (\<forall>l. lo = Some l \<longrightarrow> entry_less descending l h))"
  using assms
proof (induction descending True lo row rule: row_sorted.induct)
  case (2 descending lo p c row)
  then obtain f where f: "fence c = Some f" by auto
  have IH: "\<forall>x \<in> set (row_entries row). entry_less descending x h" "row \<noteq> [] \<longrightarrow> entry_less descending f h"
    using 2 f by auto
  have fh: "f = h \<or> entry_less descending f h" using IH(2) 2(4) f by (cases row) auto
  have s: "\<forall>x \<in> set (map entry_of (pc_nodes c)). entry_less descending x f" "\<forall>l. lo = Some l \<longrightarrow> entry_less descending l f"
    using 2(2) f by (auto simp: page_sorted_def ranked_def under_def)
  have step: "entry_less descending x f \<Longrightarrow> entry_less descending x h" for x using fh entry_less_trans(1) by blast
  show ?case using s IH(1) step by (simp del: split_paired_All) blast
qed simp

lemma row_entries_above:
  assumes "row_sorted descending True lo row" "lo = Some l" "\<forall>(p, c) \<in> set (butlast row). fence c \<noteq> None"
  shows "\<forall>x \<in> set (row_entries row). entry_leq descending l x"
  using assms
proof (induction descending True lo row arbitrary: l rule: row_sorted.induct)
  case (2 descending lo p c row)
  have here: "\<forall>x \<in> set (map entry_of (pc_nodes c)). entry_leq descending l x"
    using 2(2,3) by (auto simp: page_sorted_def ranked_def above_def)
  show ?case
  proof (cases "row = []")
    case True
    then show ?thesis using here by auto
  next
    case False
    then obtain f where f: "fence c = Some f" using 2(4) by auto
    have "entry_less descending l f" using 2(2,3) f by (auto simp: page_sorted_def under_def)
    moreover have "\<forall>x \<in> set (row_entries row). entry_leq descending f x"
      using 2(1) [of f] 2(2,4) f False by auto
    ultimately have "\<forall>x \<in> set (row_entries row). entry_leq descending l x" using entry_less_leq keys.entry_trans by blast
    then show ?thesis using here by auto
  qed
qed simp

lemma row_entries_sorted:
  assumes "row_sorted descending True lo row" "\<forall>(p, c) \<in> set (butlast row). fence c \<noteq> None"
  shows "sorted_wrt (entry_less descending) (row_entries row)"
  using assms
proof (induction descending True lo row rule: row_sorted.induct)
  case (2 descending lo p c row)
  have p: "sorted_wrt (entry_less descending) (map entry_of (pc_nodes c))"
    "\<forall>x \<in> set (map entry_of (pc_nodes c)). under descending (fence c) x"
    using 2(2) by (auto simp: page_sorted_def ranked_def)
  show ?case
  proof (cases "row = []")
    case True
    then show ?thesis using p by simp
  next
    case False
    then obtain f where f: "fence c = Some f" using 2(3) by auto
    have b: "\<forall>(p, c) \<in> set (butlast row). fence c \<noteq> None" using 2(3) False by simp
    have "\<forall>x \<in> set (row_entries row). entry_leq descending f x"
      by (rule row_entries_above [OF _ f b]) (use 2(2) in simp)
    then show ?thesis using p 2 b f False by (auto simp: sorted_wrt_append under_def intro: entry_less_trans)
  qed
qed simp

subsection \<open>The walk\<close>

lemma file_has_page: "file_has rel ix file rows \<Longrightarrow> k < length rows \<Longrightarrow> (p, c) \<in> set (rows ! k) \<Longrightarrow> file_holds rel ix file p c"
  unfolding file_has_def using nth_mem by fastforce

lemma end_of_term: "end_of t = (if t = LevelEnd then PageOver else PageNext)"
  by (cases t) (simp_all add: end_of_def)

lemma walk_leaves_row:
  assumes "row_linked 0 left ((p, c) # row)" "\<forall>(q, d) \<in> set ((p, c) # row). file_holds rel ix file q d"
    and "get_btree file ps p = Ret (Some bp)"
  shows "walk_leaves file ps bp key out = Ret (Some (out @ row_entries ((p, c) # row)))"
  using assms
proof (induction row arbitrary: left p c bp key out)
  case Nil
  obtain bp' where bp': "get_btree file ps p = Ret (Some bp')"
    "\<And>key. content_loop (bt_bytes bp') (pc_level c = 0) (first_node bp') key = Some (pc_nodes c, pc_term c)"
    using Nil.prems(2) holds_page [of rel ix "file" p c ps] by auto
  have "walk_page (bt_bytes bp) (first_node bp) key out = (PageOver, carried key (pc_nodes c), out @ map entry_of (pc_nodes c))"
    using bp' Nil.prems(1,3) walk_page_content [of "bt_bytes bp" "first_node bp" key "pc_nodes c" LevelEnd out]
    by (simp add: end_of_def)
  then show ?case by (subst walk_leaves.simps) simp
next
  case (Cons e row)
  obtain q d where e: "e = (q, d)" by fastforce
  obtain bp' where bp': "get_btree file ps p = Ret (Some bp')" "bt_sibling bp' = pc_sibling c"
    "\<And>key. content_loop (bt_bytes bp') (pc_level c = 0) (first_node bp') key = Some (pc_nodes c, pc_term c)"
    using Cons.prems(2) holds_page [of rel ix "file" p c ps] by auto
  obtain bq where bq: "get_btree file ps q = Ret (Some bq)" using Cons.prems(2) e holds_page [of rel ix "file" q d ps] by auto
  have link: "pc_sibling c = q" "q \<noteq> 0" "row_linked 0 p ((q, d) # row)" "pc_term c \<noteq> LevelEnd" "pc_level c = 0"
    using Cons.prems(1) row_linked_level [of 0 p "(q, d) # row" q d] by (auto simp: e)
  have "walk_page (bt_bytes bp) (first_node bp) key out = (PageNext, carried key (pc_nodes c), out @ map entry_of (pc_nodes c))"
    using bp' Cons.prems(3) link walk_page_content [of "bt_bytes bp" "first_node bp" key "pc_nodes c" "pc_term c" out]
    by (simp add: end_of_term)
  moreover have "walk_leaves file ps bq (carried key (pc_nodes c)) (out @ map entry_of (pc_nodes c)) =
      Ret (Some ((out @ map entry_of (pc_nodes c)) @ row_entries ((q, d) # row)))"
    by (rule Cons.IH [OF link(3) _ bq]) (use Cons.prems(2) e in simp)
  ultimately show ?case using bp' Cons.prems(3) link bq e
    by (subst walk_leaves.simps) simp
qed

text \<open>Level numbers of the rows.\<close>

lemma level_zero: "k < 256 \<Longrightarrow> (of_nat k :: byte) = 0 \<longleftrightarrow> k = 0"
proof -
  assume k: "k < 256"
  have "unat (of_nat k :: byte) = k" using k by (simp add: unat_of_nat)
  moreover have "(of_nat k :: byte) = 0 \<longleftrightarrow> unat (of_nat k :: byte) = 0" by (rule unat_eq_0 [symmetric])
  ultimately show ?thesis by simp
qed

lemma tree_rowD:
  assumes "tree_ok descending rows" "k < length rows"
  shows "row_linked (of_nat k) 0 (rows ! k)" "row_sorted descending (k = 0) None (rows ! k)" "k < 256"
  using assms by (simp_all add: tree_ok_def)

lemma row_not_Nil: "row_linked level left row \<Longrightarrow> row \<noteq> []"
  by auto

lemma leftmost_leaf_row:
  assumes tree: "tree_ok descending rows" and has: "file_has rel ix file rows" and k: "k < length rows"
    and p: "rows ! k = (p, c) # row" and bp: "get_btree file ps p = Ret (Some bp)"
  shows "\<exists>bq. get_btree file ps (fst (hd (rows ! 0))) = Ret (Some bq) \<and> leftmost_leaf file ps bp = Ret (Some bq)"
  using k p bp
proof (induction k arbitrary: p c row bp)
  case 0
  have "file_holds rel ix file p c" using file_has_page [OF has 0(1)] 0(2) by simp
  then have "bt_level bp = pc_level c" using 0(3) holds_page [of rel ix "file" p c ps] by auto
  moreover have "pc_level c = 0" using tree_rowD(1) [OF tree 0(1)] 0(2) row_linked_level by fastforce
  ultimately show ?case using 0 by (subst leftmost_leaf.simps) simp
next
  case (Suc k)
  have "file_holds rel ix file p c" using file_has_page [OF has Suc.prems(1)] Suc.prems(2) by simp
  then obtain bp' where bp': "get_btree file ps p = Ret (Some bp')" "bt_level bp' = pc_level c"
    "\<And>key. content_loop (bt_bytes bp') (pc_level c = 0) (first_node bp') key = Some (pc_nodes c, pc_term c)"
    using holds_page [of rel ix "file" p c ps] by auto
  have lev: "pc_level c \<noteq> 0"
    using tree_rowD(1,3) [OF tree Suc.prems(1)] Suc.prems(2) row_linked_level [of "of_nat (Suc k)" 0 "rows ! Suc k" p c]
      level_zero [of "Suc k"] by simp
  have "pc_nodes c \<noteq> []" using tree_rowD(2) [OF tree Suc.prems(1)] Suc.prems(2) by (simp add: page_sorted_def)
  then obtain n ns where n: "pc_nodes c = n # ns" by (cases "pc_nodes c") auto
  have k: "k < length rows" using Suc.prems(1) by simp
  have "rows ! k \<noteq> []" using tree_rowD(1) [OF tree k] row_not_Nil by blast
  then obtain q d row' where q: "rows ! k = (q, d) # row'" by (cases "rows ! k") auto
  have "pointers None (rows ! Suc k) = places None (rows ! k)" using tree Suc.prems(1) by (simp add: tree_ok_def)
  then have q_n: "bn_page n = q" by (simp add: q Suc.prems(2) n page_pointers_def)
  obtain bq where bq: "get_btree file ps q = Ret (Some bq)"
    using file_has_page [OF has k] q holds_page [of rel ix "file" q d ps] by auto
  have "content_loop (bt_bytes bp) False (first_node bp) [] = Some (n # ns, pc_term c)"
    using bp'(3) [of "[]"] lev n Suc.prems(3) bp'(1) by simp
  then obtain nd where "read_node (bt_bytes bp) (first_node bp) False = Some nd" "nd_page nd = bn_page n"
    by (rule content_loop_turn) auto
  then have "leftmost_leaf file ps bp = leftmost_leaf file ps bq"
    using bp' lev bq q_n Suc.prems(3) by (subst leftmost_leaf.simps) simp
  then show ?case using Suc.IH [OF k q bq] by simp
qed

lemma leaf_row_fences:
  assumes "tree_ok descending rows"
  shows "row_linked 0 0 (hd rows)" "row_sorted descending True None (hd rows)" "\<forall>(p, c) \<in> set (butlast (hd rows)). fence c \<noteq> None"
proof -
  have ne: "rows \<noteq> []" using assms by (simp add: tree_ok_def)
  show "row_linked 0 0 (hd rows)" "row_sorted descending True None (hd rows)"
    using tree_rowD [OF assms, of 0] ne by (simp_all add: hd_conv_nth)
  then show "\<forall>(p, c) \<in> set (butlast (hd rows)). fence c \<noteq> None" using row_linked_fences by fast
qed

lemma leaf_entries_row: "leaf_entries rows = row_entries (hd rows)"
  by (simp add: leaf_entries_def row_entries_def)

lemma leaf_entries_sorted: "tree_ok descending rows \<Longrightarrow> sorted_wrt (entry_less descending) (leaf_entries rows)"
  unfolding leaf_entries_row by (rule row_entries_sorted [OF leaf_row_fences(2,3)])

lemma walk_leaf_entries:
  assumes "tree_ok descending rows" "file_has rel ix file rows"
    and "index_root_no file ps rel ix = Ret (Some (tree_root rows))"
  shows "walk_index_leaves file ps rel ix = Ret (Some (leaf_entries rows))"
proof -
  let ?k = "length rows - 1"
  have k: "?k < length rows" "rows \<noteq> []" "length (last rows) = 1" using assms(1) by (auto simp: tree_ok_def)
  then obtain r c where r: "rows ! ?k = [(r, c)]" by (cases "last rows") (auto simp: last_conv_nth)
  then have root: "tree_root rows = r" using k by (simp add: tree_root_def last_conv_nth)
  have "r \<noteq> 0" using tree_rowD(1) [OF assms(1) k(1)] r by simp
  obtain bp where bp: "get_btree file ps r = Ret (Some bp)"
    using file_has_page [OF assms(2) k(1)] r holds_page [of rel ix "file" r c ps] by auto
  obtain bq where bq: "get_btree file ps (fst (hd (rows ! 0))) = Ret (Some bq)" "leftmost_leaf file ps bp = Ret (Some bq)"
    using leftmost_leaf_row [OF assms(1,2) k(1) r bp] by blast
  obtain p d row where leaf: "hd rows = (p, d) # row"
    using leaf_row_fences(1) [OF assms(1)] row_not_Nil by (cases "hd rows") auto
  have "\<forall>(q, e) \<in> set (hd rows). file_holds rel ix file q e"
    using assms(2) k(2) by (auto simp: file_has_def)
  then have "walk_leaves file ps bq [] [] = Ret (Some (leaf_entries rows))"
    using walk_leaves_row [of 0 p d row rel ix "file" ps bq "[]" "[]"] leaf_row_fences(1) [OF assms(1)] leaf bq(1) k(2)
    by (simp add: leaf_entries_row hd_conv_nth)
  then show ?thesis
    using assms(3) root \<open>r \<noteq> 0\<close> bp bq by (simp add: walk_index_leaves_def)
qed

text \<open>On a tree whose rows are linked, ordered between their fences and fed by the row above, the
  walk over the leaf level answers every entry of the tree, and answers them strictly ascending in
  the order of the index (key, then record number); it returns, whatever the number of levels.\<close>

lemma walk_answers_all_in_order:
  assumes "tree_ok descending rows" "file_has rel ix file rows"
    and "index_root_no file ps rel ix = Ret (Some (tree_root rows))"
  shows "walk_index_leaves file ps rel ix = Ret (Some (leaf_entries rows)) \<and>
    sorted_wrt (entry_less descending) (leaf_entries rows)"
  using walk_leaf_entries [OF assms] leaf_entries_sorted [OF assms(1)] by blast

subsection \<open>The range lookup\<close>

text \<open>What the lookup means: the callback over the entries inside the bounds, until it stops.\<close>

definition in_range :: "bool \<Rightarrow> bound \<Rightarrow> bound \<Rightarrow> entry \<Rightarrow> bool" where
  "in_range descending lo hi e \<longleftrightarrow> admitted descending lo (fst e) \<and> \<not> past_upper descending hi (fst e)"

fun feed :: "'s visitor \<Rightarrow> index_entries \<Rightarrow> 's \<Rightarrow> 's" where
  "feed f [] s = s"
| "feed f ((key, recno) # es) s = (let (go, s') = f key recno s in if go then feed f es s' else s')"

lemma visit_append:
  "visit d lo hi f (es @ es') s =
     (let (over, s') = visit d lo hi f es s in if over then (True, s') else visit d lo hi f es' s')"
  by (induction d lo hi f es s rule: visit.induct) (auto simp: Let_def split: prod.splits)

lemma past_upper_up: "past_upper d hi a \<Longrightarrow> key_le (kcmp d) a b \<Longrightarrow> past_upper d hi b"
proof -
  assume p: "past_upper d hi a" and le: "key_le (kcmp d) a b"
  obtain h incl where hi: "hi = Some (h, incl)" using p by (auto simp: past_upper_def split: option.splits)
  show "past_upper d hi b"
  proof (cases "kcmp d a h")
    case Greater
    then have "kcmp d h a = Less" using keys.cmp_flip [of d h a] by simp
    then have "kcmp d h b = Less" using keys.less_trans(1) le by blast
    then show ?thesis using keys.cmp_flip [of d b h] by (simp add: past_upper_def hi)
  next
    case Equal
    then have "\<not> incl" using p by (simp add: past_upper_def hi)
    moreover have "key_le (kcmp d) h a" using Equal keys.equal_le by blast
    then have "key_le (kcmp d) h b" using le keys.le_trans by blast
    then have "kcmp d b h \<noteq> Less" unfolding keys.less_le by simp
    ultimately show ?thesis by (cases "kcmp d b h") (simp_all add: past_upper_def hi)
  next
    case Less
    then show ?thesis using p by (simp add: past_upper_def hi)
  qed
qed

lemma visit_feed:
  assumes "sorted_wrt (\<lambda>x y. key_le (kcmp d) (fst x) (fst y)) es"
  shows "snd (visit d lo hi f es s) = feed f (filter (in_range d lo hi) es) s"
  using assms
proof (induction d lo hi f es s rule: visit.induct)
  case (2 d lo hi f key recno es s)
  show ?case
  proof (cases "past_upper d hi key")
    case True
    then have "filter (in_range d lo hi) es = []"
      using 2(3) past_upper_up by (fastforce simp: in_range_def filter_empty_conv)
    moreover have "\<not> in_range d lo hi (key, recno)" using True by (simp add: in_range_def)
    ultimately show ?thesis using True by simp
  next
    case False
    then show ?thesis using 2 by (auto simp: in_range_def Let_def split: prod.splits)
  qed
qed simp

lemma range_leaves_row:
  assumes "row_linked 0 left ((p, c) # row)" "\<forall>(q, d) \<in> set ((p, c) # row). file_holds rel ix file q d"
    and "get_btree file ps p = Ret (Some bp)"
  shows "range_leaves file ps descending lo hi f bp key s = Ret (True, snd (visit descending lo hi f (row_entries ((p, c) # row)) s))"
  using assms
proof (induction row arbitrary: left p c bp key s)
  case Nil
  obtain bp' where bp': "get_btree file ps p = Ret (Some bp')"
    "\<And>key. content_loop (bt_bytes bp') (pc_level c = 0) (first_node bp') key = Some (pc_nodes c, pc_term c)"
    using Nil.prems(2) holds_page [of rel ix "file" p c ps] by auto
  obtain over s' where v: "visit descending lo hi f (map entry_of (pc_nodes c)) s = (over, s')" by fastforce
  have "content_loop (bt_bytes bp) True (first_node bp) key = Some (pc_nodes c, LevelEnd)"
    using bp' Nil.prems(1,3) by simp
  from range_page_content [OF this v] show ?case
    using v by (subst range_leaves.simps) (auto simp: end_of_def)
next
  case (Cons e row)
  obtain q d where e: "e = (q, d)" by fastforce
  obtain bp' where bp': "get_btree file ps p = Ret (Some bp')" "bt_sibling bp' = pc_sibling c"
    "\<And>key. content_loop (bt_bytes bp') (pc_level c = 0) (first_node bp') key = Some (pc_nodes c, pc_term c)"
    using Cons.prems(2) holds_page [of rel ix "file" p c ps] by auto
  obtain bq where bq: "get_btree file ps q = Ret (Some bq)" using Cons.prems(2) e holds_page [of rel ix "file" q d ps] by auto
  have link: "pc_sibling c = q" "q \<noteq> 0" "row_linked 0 p ((q, d) # row)" "pc_term c \<noteq> LevelEnd" "pc_level c = 0"
    using Cons.prems(1) row_linked_level [of 0 p "(q, d) # row" q d] by (auto simp: e)
  obtain over s' where v: "visit descending lo hi f (map entry_of (pc_nodes c)) s = (over, s')" by fastforce
  have "content_loop (bt_bytes bp) True (first_node bp) key = Some (pc_nodes c, pc_term c)"
    using bp' Cons.prems(3) link by simp
  from range_page_content [OF this v] obtain key' where
    r: "range_page descending lo hi f (bt_bytes bp) (first_node bp) key s = (if over then PageOver else PageNext, key', s')"
    using link by (auto simp: end_of_term)
  have "range_leaves file ps descending lo hi f bq key' s' =
      Ret (True, snd (visit descending lo hi f (row_entries ((q, d) # row)) s'))"
    by (rule Cons.IH [OF link(3) _ bq]) (use Cons.prems(2) e in simp)
  then show ?case using r v bp' Cons.prems(3) link bq e
    by (subst range_leaves.simps) (auto simp: visit_append)
qed

text \<open>A place the search may start from: its lower fence is below the lower bound.\<close>

definition starts_below :: "bool \<Rightarrow> bound \<Rightarrow> entry option \<Rightarrow> bool" where
  "starts_below descending lo l =
     (case l of None \<Rightarrow> True
      | Some x \<Rightarrow> (case lo of None \<Rightarrow> False | Some (lo_key, _) \<Rightarrow> kcmp descending (fst x) lo_key = Less))"

lemma pick_child_below:
  "\<exists>q l. pick_child descending lo (Some p) ns = Some q \<and>
     (q = p \<or> ((q, l) \<in> set (map (\<lambda>m. (bn_page m, Some (entry_of m))) ns) \<and> starts_below descending lo l))"
proof (induction ns arbitrary: p)
  case (Cons n ns)
  show ?case
  proof (cases "case lo of None \<Rightarrow> True | Some (lo_key, _) \<Rightarrow> kcmp descending (bn_key n) lo_key \<noteq> Less")
    case True
    then show ?thesis by simp
  next
    case False
    then have "starts_below descending lo (Some (entry_of n))"
      by (auto simp: starts_below_def entry_of_def split: option.splits)
    moreover have "pick_child descending lo (Some p) (n # ns) = pick_child descending lo (Some (bn_page n)) ns"
      using False by simp
    ultimately show ?thesis using Cons.IH [of "bn_page n"] by auto
  qed
qed simp

lemma pick_child_pointer:
  assumes "ns \<noteq> []" "starts_below descending lo l"
  shows "\<exists>q l'. pick_child descending lo None ns = Some q \<and> (q, l') \<in> set (page_pointers l ns) \<and> starts_below descending lo l'"
proof -
  obtain n ns' where ns: "ns = n # ns'" using assms(1) by (cases ns) auto
  show ?thesis
    using pick_child_below [of descending lo "bn_page n" ns'] assms(2) by (auto simp: ns page_pointers_def)
qed

lemma descend_to_row:
  assumes tree: "tree_ok descending rows" and has: "file_has rel ix file rows" and k: "k < length rows"
    and p: "(p, l) \<in> set (places None (rows ! k))" "starts_below descending lo l" and bp: "get_btree file ps p = Ret (Some bp)"
  shows "\<exists>q l' bq. (q, l') \<in> set (places None (rows ! 0)) \<and> starts_below descending lo l' \<and>
    get_btree file ps q = Ret (Some bq) \<and> descend_to file ps descending lo bp = Ret (Some (AtLeaf bq))"
  using k p bp
proof (induction k arbitrary: p l bp)
  case 0
  obtain c where c: "(p, c) \<in> set (rows ! 0)" using places_split [OF 0(2)] in_set_conv_decomp by fast
  have "file_holds rel ix file p c" using file_has_page [OF has 0(1)] c by simp
  then have "bt_level bp = pc_level c" using 0(4) holds_page [of rel ix "file" p c ps] by auto
  moreover have "pc_level c = 0" using tree_rowD(1) [OF tree 0(1)] row_linked_level c by fastforce
  ultimately show ?case using 0 by (subst descend_to.simps) auto
next
  case (Suc k)
  obtain pre c post where row: "rows ! Suc k = pre @ (p, c) # post" "l = after_row None pre"
    using places_split [OF Suc.prems(2)] by blast
  have "file_holds rel ix file p c" using file_has_page [OF has Suc.prems(1)] row(1) by simp
  then obtain bp' where bp': "get_btree file ps p = Ret (Some bp')" "bt_level bp' = pc_level c"
    "\<And>key. content_loop (bt_bytes bp') (pc_level c = 0) (first_node bp') key = Some (pc_nodes c, pc_term c)"
    using holds_page [of rel ix "file" p c ps] by auto
  have lev: "pc_level c \<noteq> 0"
    using tree_rowD(1,3) [OF tree Suc.prems(1)] row(1) row_linked_level [of "of_nat (Suc k)" 0 "rows ! Suc k" p c]
      level_zero [of "Suc k"] by simp
  have "pc_nodes c \<noteq> []" using tree_rowD(2) [OF tree Suc.prems(1)] row(1) by (simp add: row_sorted_append page_sorted_def)
  from pick_child_pointer [OF this Suc.prems(3)] obtain q l' where
    q: "pick_child descending lo None (pc_nodes c) = Some q" "(q, l') \<in> set (page_pointers l (pc_nodes c))" "starts_below descending lo l'"
    by blast
  have "(q, l') \<in> set (pointers None (rows ! Suc k))" using q(2) row by (simp add: pointers_append)
  then have pl: "(q, l') \<in> set (places None (rows ! k))" using tree Suc.prems(1) by (simp add: tree_ok_def)
  have k: "k < length rows" using Suc.prems(1) by simp
  obtain d where "(q, d) \<in> set (rows ! k)" using places_split [OF pl] in_set_conv_decomp by fast
  then obtain bq where bq: "get_btree file ps q = Ret (Some bq)"
    using file_has_page [OF has k] holds_page [of rel ix "file" q d ps] by auto
  have "choose_child descending lo (bt_bytes bp) (first_node bp) [] None = Some (Some q)"
    using bp'(3) [of "[]"] lev Suc.prems(4) bp'(1) q(1) choose_child_content by simp
  then have "descend_to file ps descending lo bp = descend_to file ps descending lo bq"
    using bp' lev bq Suc.prems(4) by (subst descend_to.simps) simp
  then show ?case using Suc.IH [OF k pl q(3) bq] by simp
qed

text \<open>C34: The range lookup on such a tree calls its callback on exactly the entries whose keys lie
  inside the bounds, in the order of the index and until the callback stops the walk, and it always
  comes to its end: no entry is lost to the descent, whose leaf may start before the range, and none is
  passed beyond the upper bound.\<close>

theorem range_lookup_exact:
  assumes "tree_ok descending rows" "file_has rel ix file rows"
    and "index_root_no file ps rel ix = Ret (Some (tree_root rows))"
  shows "for_each_in_range file ps rel ix lo hi descending f s =
    Ret (True, feed f (filter (in_range descending lo hi) (leaf_entries rows)) s)"
proof -
  let ?k = "length rows - 1"
  have k: "?k < length rows" "rows \<noteq> []" "length (last rows) = 1" using assms(1) by (auto simp: tree_ok_def)
  then obtain r c where r: "rows ! ?k = [(r, c)]" by (cases "last rows") (auto simp: last_conv_nth)
  then have root: "tree_root rows = r" using k by (simp add: tree_root_def last_conv_nth)
  have "r \<noteq> 0" using tree_rowD(1) [OF assms(1) k(1)] r by simp
  obtain bp where bp: "get_btree file ps r = Ret (Some bp)"
    using file_has_page [OF assms(2) k(1)] r holds_page [of rel ix "file" r c ps] by auto
  have "(r, None) \<in> set (places None (rows ! ?k))" "starts_below descending lo None"
    using r by (simp_all add: starts_below_def)
  from descend_to_row [OF assms(1,2) k(1) this bp] obtain q l bq where
    q: "(q, l) \<in> set (places None (hd rows))" "starts_below descending lo l" "get_btree file ps q = Ret (Some bq)"
    "descend_to file ps descending lo bp = Ret (Some (AtLeaf bq))"
    using k(2) by (auto simp: hd_conv_nth)
  obtain pre d post where row: "hd rows = pre @ (q, d) # post" "l = after_row None pre" using places_split [OF q(1)] by blast
  note leaf = leaf_row_fences [OF assms(1)]
  have fences: "\<forall>(p, c) \<in> set pre. fence c \<noteq> None" using leaf(3) by (auto simp: row(1) butlast_append)
  have "filter (in_range descending lo hi) (row_entries pre) = []"
  proof (cases pre)
    case (Cons x pre')
    have "l \<noteq> None" using fences row(2) Cons last_in_set [of pre] by (auto simp: after_row_def)
    then obtain h where h: "after_row None pre = Some h" "l = Some h" using row(2) by auto
    then obtain lo_key incl where lo: "lo = Some (lo_key, incl)" "kcmp descending (fst h) lo_key = Less"
      using q(2) by (auto simp: starts_below_def split: option.splits)
    have below: "\<forall>x \<in> set (row_entries pre). entry_less descending x h"
      using stretch_below [OF _ fences h(1)] leaf(2) row(1) by (simp add: row_sorted_append)
    have "kcmp descending (fst x) lo_key = Less" if "x \<in> set (row_entries pre)" for x
      using below that lo(2) entry_less_leq keys.entry_key keys.less_trans(2) by blast
    then show ?thesis by (auto simp: filter_empty_conv in_range_def admitted_def lo(1))
  qed simp
  then have all: "filter (in_range descending lo hi) (leaf_entries rows) =
      filter (in_range descending lo hi) (row_entries ((q, d) # post))"
    by (simp add: leaf_entries_row row(1))
  obtain left where "row_linked 0 left ((q, d) # post)" using row_linked_append leaf(1) row(1) by metis
  moreover have "\<forall>(q, e) \<in> set ((q, d) # post). file_holds rel ix file q e"
    using assms(2) k(2) row(1) unfolding file_has_def by (metis hd_in_set UnCI set_append)
  ultimately have "range_leaves file ps descending lo hi f bq [] s =
      Ret (True, snd (visit descending lo hi f (row_entries ((q, d) # post)) s))"
    using q(3) by (rule range_leaves_row)
  moreover have "sorted_wrt (\<lambda>x y. key_le (kcmp descending) (fst x) (fst y)) (row_entries ((q, d) # post))"
  proof -
    have "sorted_wrt (entry_less descending) (row_entries ((q, d) # post))"
      using leaf_entries_sorted [OF assms(1)] by (simp add: leaf_entries_row row(1) sorted_wrt_append)
    then show ?thesis by (rule sorted_wrt_mono_rel [rotated]) (use entry_less_leq keys.entry_key in blast)
  qed
  ultimately have "range_leaves file ps descending lo hi f bq [] s =
      Ret (True, feed f (filter (in_range descending lo hi) (leaf_entries rows)) s)"
    by (simp only: visit_feed all)
  then show ?thesis using assms(3) root \<open>r \<noteq> 0\<close> bp q(4) by (simp add: for_each_in_range_def)
qed

end
