(* ===== verification/Bt_Split.thy ===== *)
theory Bt_Split
  imports Bt_Tree
begin

unbundle bit_operations_syntax

text \<open>
  What an insert does to the rows of a tree: an entry placed in its leaf, a page split in its row,
  and the pointer to the new page placed in the parent keep the tree's order, links and pointers; a
  split adds no entry and loses none.
\<close>

subsection \<open>The halves of a page\<close>

definition left_half :: "page_content \<Rightarrow> nat \<Rightarrow> u32 \<Rightarrow> page_content" where
  "left_half c m q = c\<lparr>pc_nodes := take m (pc_nodes c), pc_term := BucketEnd (pc_nodes c ! m), pc_sibling := q\<rparr>"

definition right_half :: "page_content \<Rightarrow> nat \<Rightarrow> u32 \<Rightarrow> page_content" where
  "right_half c m p =
     \<lparr>pc_level = pc_level c, pc_sibling = pc_sibling c, pc_left = p, pc_nodes = drop m (pc_nodes c), pc_term = pc_term c\<rparr>"

definition relink :: "u32 \<Rightarrow> row \<Rightarrow> row" where
  "relink q row = (case row of [] \<Rightarrow> [] | (s, d) # row' \<Rightarrow> (s, d\<lparr>pc_left := q\<rparr>) # row')"

definition split_row :: "row \<Rightarrow> u32 \<Rightarrow> page_content \<Rightarrow> row \<Rightarrow> nat \<Rightarrow> u32 \<Rightarrow> row" where
  "split_row pre p c post m q = pre @ (p, left_half c m q) # (q, right_half c m p) # relink q post"

lemma half_simps [simp]:
  "pc_nodes (left_half c m q) = take m (pc_nodes c)" "pc_nodes (right_half c m p) = drop m (pc_nodes c)"
  "fence (left_half c m q) = Some (entry_of (pc_nodes c ! m))" "fence (right_half c m p) = fence c"
  "pc_level (left_half c m q) = pc_level c" "pc_level (right_half c m p) = pc_level c"
  by (simp_all add: left_half_def right_half_def fence_def)

lemma fence_left [simp]: "fence (d\<lparr>pc_left := q\<rparr>) = fence d" "fence (d\<lparr>pc_nodes := ns\<rparr>) = fence d"
  by (simp_all add: fence_def)

lemma relink_linked: "row_linked level p ((s, d) # post) \<Longrightarrow> row_linked level q (relink q ((s, d) # post))"
  by (cases post) (auto simp: relink_def)

lemma relink_unchanged [simp]:
  "places lo (relink q post) = places lo post" "pointers lo (relink q post) = pointers lo post"
  "row_sorted descending leaf lo (relink q post) = row_sorted descending leaf lo post"
  "row_entries (relink q post) = row_entries post" "map fst (relink q post) = map fst post"
  by (auto simp: relink_def page_sorted_def ranked_def split: list.splits)

lemma linked_here:
  assumes "row_linked level left ((p, c) # post)" "q \<noteq> 0"
  shows "row_linked level left ((p, left_half c m q) # (q, right_half c m p) # relink q post)"
proof (cases post)
  case Nil
  then show ?thesis using assms by (simp add: relink_def left_half_def right_half_def)
next
  case (Cons x post')
  obtain s d where x: "x = (s, d)" by fastforce
  have l: "p \<noteq> 0" "pc_level c = level" "pc_left c = left" "pc_sibling c = s" "pc_term c \<noteq> LevelEnd"
    "row_linked level p ((s, d) # post')"
    using assms(1) by (simp_all add: Cons x)
  have "row_linked level q ((s, d\<lparr>pc_left := q\<rparr>) # post')" using relink_linked [OF l(6), of q] by (simp add: relink_def)
  then show ?thesis using l assms(2) by (simp add: Cons x relink_def left_half_def right_half_def)
qed

lemma row_linked_replace:
  assumes "row_linked level left (pre @ (p, c) # post)"
    and "\<And>left'. row_linked level left' ((p, c) # post) \<Longrightarrow> row_linked level left' ((p, c') # post')"
  shows "row_linked level left (pre @ (p, c') # post')"
  using assms(1)
proof (induction pre arbitrary: left)
  case Nil
  then show ?case using assms(2) by simp
next
  case (Cons x pre)
  obtain s d where x: "x = (s, d)" by fastforce
  have "row_linked level s (pre @ (p, c) # post)"
    using Cons.prems by (cases pre; cases "hd pre") (auto simp: x)
  then have "row_linked level s (pre @ (p, c') # post')" by (rule Cons.IH)
  then show ?case using Cons.prems by (cases pre; cases "hd pre") (auto simp: x)
qed

lemma split_row_linked:
  "row_linked level left (pre @ (p, c) # post) \<Longrightarrow> q \<noteq> 0 \<Longrightarrow> row_linked level left (split_row pre p c post m q)"
  unfolding split_row_def by (rule row_linked_replace, assumption, rule linked_here)

text \<open>A page with other nodes.\<close>

lemma nodes_linked:
  "row_linked level left (pre @ (p, c) # post) \<Longrightarrow> row_linked level left (pre @ (p, c\<lparr>pc_nodes := ns\<rparr>) # post)"
proof (rule row_linked_replace)
  fix left' assume "row_linked level left' ((p, c) # post)"
  then show "row_linked level left' ((p, c\<lparr>pc_nodes := ns\<rparr>) # post)" by (cases post; cases "hd post") auto
qed

subsection \<open>The order of the halves\<close>

lemma sorted_entries_split:
  assumes "page_sorted descending leaf lo c" "1 \<le> m" "m < length (pc_nodes c)"
  shows "page_sorted descending leaf lo (left_half c m q)"
    "page_sorted descending leaf (Some (entry_of (pc_nodes c ! m))) (right_half c m p)"
proof -
  let ?mid = "entry_of (pc_nodes c ! m)"
  define all where "all = (leaf \<or> lo \<noteq> None)"
  obtain n ns where ns: "pc_nodes c = n # ns" using assms(3) by (cases "pc_nodes c") auto
  have r: "ranked leaf lo c = map entry_of (if all then n # ns else ns)" by (simp add: ranked_def all_def ns)
  have m: "m - 1 < length ns" "pc_nodes c ! m = ns ! (m - 1)" "drop m (pc_nodes c) = drop (m - 1) ns"
    "take m (pc_nodes c) = n # take (m - 1) ns"
    using assms(2,3) by (simp_all add: ns nth_Cons' drop_Cons' take_Cons')
  have split: "ns = take (m - 1) ns @ drop (m - 1) ns" by simp
  have dr: "drop (m - 1) ns = pc_nodes c ! m # drop m ns" using Cons_nth_drop_Suc [OF m(1)] m(2) assms(2) by simp
  have ord: "sorted_wrt (entry_less descending) (map entry_of ns)"
    "all \<Longrightarrow> \<forall>x \<in> set ns. entry_less descending (entry_of n) (entry_of x)"
    using assms(1) r unfolding page_sorted_def by (auto split: if_splits)
  have bounds: "\<forall>x \<in> set ns. above descending lo (entry_of x) \<and> under descending (fence c) (entry_of x)"
    "all \<Longrightarrow> above descending lo (entry_of n)"
    using assms(1) r unfolding page_sorted_def by (auto split: if_splits)
  have mid: "pc_nodes c ! m \<in> set ns" using m(1,2) by simp
  have ord1: "sorted_wrt (entry_less descending) (map entry_of (take (m - 1) ns) @ map entry_of (drop (m - 1) ns))"
    using ord(1) by (simp flip: map_append)
  have below: "\<forall>x \<in> set (take (m - 1) ns). entry_less descending (entry_of x) ?mid"
    and right: "sorted_wrt (entry_less descending) (map entry_of (drop (m - 1) ns))"
    and left: "sorted_wrt (entry_less descending) (map entry_of (take (m - 1) ns))"
    and after: "\<forall>x \<in> set (drop m ns). entry_less descending ?mid (entry_of x)"
    using ord1 unfolding dr by (simp_all add: sorted_wrt_append)
  have lo_mid: "lo = Some l \<Longrightarrow> entry_less descending l ?mid" for l
    using bounds(2) ord(2) mid entry_less_trans(3) by (auto simp: all_def above_def)
  have interior: "\<not> leaf \<Longrightarrow> lo = Some l \<Longrightarrow> entry_of n = l" for l
    using assms(1) by (simp add: page_sorted_def ns)
  show "page_sorted descending leaf lo (left_half c m q)"
    unfolding page_sorted_def
  proof (intro conjI)
    show "sorted_wrt (entry_less descending) (ranked leaf lo (left_half c m q))"
      using left ord(2) by (auto simp: ranked_def m(4) all_def dest: in_set_takeD)
    show "\<forall>x \<in> set (ranked leaf lo (left_half c m q)). above descending lo x \<and> under descending (fence (left_half c m q)) x"
      using below bounds ord(2) mid by (auto simp: ranked_def m(4) under_def all_def dest: in_set_takeD)
  qed (use lo_mid interior in \<open>auto simp: under_def m(4)\<close>)
  show "page_sorted descending leaf (Some ?mid) (right_half c m p)"
    unfolding page_sorted_def
  proof (intro conjI)
    show "sorted_wrt (entry_less descending) (ranked leaf (Some ?mid) (right_half c m p))"
      using right by (simp add: ranked_def m(3))
    show "\<forall>x \<in> set (ranked leaf (Some ?mid) (right_half c m p)).
        above descending (Some ?mid) x \<and> under descending (fence (right_half c m p)) x"
    proof -
      have "x \<in> set (drop (m - 1) ns) \<Longrightarrow> entry_leq descending ?mid (entry_of x)" for x
        using after unfolding dr by (auto simp: keys.entry_refl entry_less_leq)
      then show ?thesis using bounds(1) by (auto simp: ranked_def m(3) above_def dest: in_set_dropD)
    qed
  qed (use bounds(1) mid trans [OF m(3) dr] in \<open>auto\<close>)
qed

lemma split_row_sorted:
  assumes "row_sorted descending leaf lo (pre @ (p, c) # post)" "1 \<le> m" "m < length (pc_nodes c)"
  shows "row_sorted descending leaf lo (split_row pre p c post m q)"
  using assms(1) sorted_entries_split [OF _ assms(2,3)] by (auto simp: split_row_def row_sorted_append)

lemma split_row_pointers:
  assumes "1 \<le> m" "m < length (pc_nodes c)"
  shows "pointers lo (split_row pre p c post m q) = pointers lo (pre @ (p, c) # post)"
proof -
  obtain n ns where ns: "pc_nodes c = n # ns" using assms(2) by (cases "pc_nodes c") auto
  have dr: "drop m (pc_nodes c) = pc_nodes c ! m # drop (Suc m) (pc_nodes c)" using assms by (simp add: Cons_nth_drop_Suc)
  have "page_pointers l (take m (pc_nodes c)) @ page_pointers (Some (entry_of (pc_nodes c ! m))) (drop m (pc_nodes c)) =
      page_pointers l (pc_nodes c)" for l
  proof -
    have "page_pointers (Some (entry_of (pc_nodes c ! m))) (drop m (pc_nodes c)) =
        map (\<lambda>k. (bn_page k, Some (entry_of k))) (drop m (pc_nodes c))"
      unfolding dr by (simp add: page_pointers_def)
    moreover have "take m (pc_nodes c) = n # take (m - 1) ns" "drop m (pc_nodes c) = drop (m - 1) ns"
      using assms(1) by (simp_all add: ns take_Cons' drop_Cons')
    ultimately show ?thesis by (simp add: page_pointers_def ns flip: map_append)
  qed
  then show ?thesis by (simp add: split_row_def pointers_append flip: append_assoc)
qed

lemma split_row_entries:
  "row_entries (split_row pre p c post m q) = row_entries (pre @ (p, c) # post)"
  by (simp add: split_row_def flip: append_assoc map_append)

lemma split_row_places:
  "places lo (split_row pre p c post m q) =
     places lo pre @ (p, after_row lo pre) # (q, Some (entry_of (pc_nodes c ! m))) # places (fence c) post"
  by (simp add: split_row_def places_append)

subsection \<open>The pointer in the parent\<close>

text \<open>The position the parent finds for the new pointer is the one after the child that was split.\<close>

lemma rs_position_append:
  "\<forall>x \<in> set xs. \<not> P x \<Longrightarrow>
   rs_position P (xs @ ys) = (case rs_position P ys of None \<Rightarrow> None | Some i \<Rightarrow> Some (length xs + i))"
  by (induction xs) (auto split: option.splits)

lemma parent_position_after:
  assumes "\<forall>n \<in> set (tl (us @ [x])). cmp_node descending key recno n \<noteq> Less"
    and "vs \<noteq> [] \<Longrightarrow> cmp_node descending key recno (hd vs) = Less"
  shows "parent_position descending key recno (us @ x # vs) = length us + 1"
proof -
  have "drop 1 (us @ x # vs) = tl (us @ [x]) @ vs" by (cases us) auto
  moreover have "length (tl (us @ [x])) = length us" by simp
  ultimately show ?thesis
    using assms rs_position_append [of "tl (us @ [x])" "\<lambda>n. cmp_node descending key recno n = Less" vs]
    by (cases vs) (auto simp: parent_position_def)
qed

lemma cmp_node_less: "cmp_node descending (bn_key a) (bn_recno a) n = Less \<longleftrightarrow> entry_less descending (entry_of a) (entry_of n)"
  by (simp add: cmp_node_entry entry_less_def entry_of_def)

lemma distinct_fst_split:
  "distinct (map fst xs) \<Longrightarrow> xs = as @ (p, l) # bs \<Longrightarrow> xs = as' @ (p, l') # bs' \<Longrightarrow> as = as' \<and> l = l' \<and> bs = bs'"
proof (induction xs arbitrary: as as')
  case (Cons x xs)
  have other: "(p, k) \<in> set xs \<Longrightarrow> x \<noteq> (p, k')" for k k' using Cons.prems(1) by (auto simp: image_iff)
  show ?case
  proof (cases as)
    case Nil
    then have x: "x = (p, l)" "xs = bs" using Cons.prems(2) by simp_all
    have "as' = []"
    proof (rule ccontr)
      assume "as' \<noteq> []"
      then have "(p, l') \<in> set xs" using Cons.prems(3) by (cases as') auto
      then show False using other x(1) by blast
    qed
    then show ?thesis using Nil x Cons.prems(3) by simp
  next
    case c: (Cons a as2)
    then have xs: "x = a" "xs = as2 @ (p, l) # bs" using Cons.prems(2) by simp_all
    have "as' \<noteq> []"
    proof
      assume "as' = []"
      then have "x = (p, l')" using Cons.prems(3) by simp
      moreover have "(p, l) \<in> set xs" using xs(2) by simp
      ultimately show False using other by blast
    qed
    then obtain as2' where as': "as' = x # as2'" "xs = as2' @ (p, l') # bs'" using Cons.prems(3) by (cases as') auto
    then show ?thesis using Cons.IH [of as2 as2'] Cons.prems(1) xs c by simp
  qed
qed simp

lemma page_pointers_append:
  "page_pointers lo (us @ vs) =
     page_pointers lo us @ (if us = [] then page_pointers lo vs else map (\<lambda>m. (bn_page m, Some (entry_of m))) vs)"
  by (cases us) (auto simp: page_pointers_def)

lemma page_pointers_Nil [simp]: "page_pointers lo [] = []"
  by (simp add: page_pointers_def)

lemma page_pointers_Cons [simp]: "page_pointers lo (n # ns) = (bn_page n, lo) # map (\<lambda>m. (bn_page m, Some (entry_of m))) ns"
  by (simp add: page_pointers_def)

text \<open>Where the child \<^verbatim>\<open>p\<close> of a row stands in the row above.\<close>

lemma child_place:
  assumes feeds: "pointers None (pre' @ (pp, pc) # post') = places None (pre @ (p, c) # post)"
    and distinct: "distinct (map fst (pre @ (p, c) # post))"
    and nodes: "pc_nodes pc = us @ x # vs" "bn_page x = p"
  defines "lo' \<equiv> after_row None pre'"
  shows "(if us = [] then lo' else Some (entry_of x)) = after_row None pre"
    "pointers None pre' @ page_pointers lo' (us @ [x]) = places None pre @ [(p, after_row None pre)]"
    "map (\<lambda>m. (bn_page m, Some (entry_of m))) vs @ pointers (fence pc) post' = places (fence c) post"
proof -
  let ?lx = "if us = [] then lo' else Some (entry_of x)" and ?vs = "map (\<lambda>m. (bn_page m, Some (entry_of m))) vs"
  have pp: "page_pointers lo' (us @ x # vs) = page_pointers lo' us @ (p, ?lx) # ?vs"
    "page_pointers lo' (us @ [x]) = page_pointers lo' us @ [(p, ?lx)]"
    using nodes(2) page_pointers_append [of lo' us "x # vs"] page_pointers_append [of lo' us "[x]"] by simp_all
  have eq: "places None (pre @ (p, c) # post) = (pointers None pre' @ page_pointers lo' us) @ (p, ?lx) # (?vs @ pointers (fence pc) post')"
    unfolding feeds [symmetric] pointers_append pointers.simps nodes(1) lo'_def [symmetric] pp(1) by simp
  have eq': "places None (pre @ (p, c) # post) = places None pre @ (p, after_row None pre) # places (fence c) post"
    by (simp add: places_append)
  have "distinct (map fst (places None (pre @ (p, c) # post)))" using distinct by (simp only: places_fst)
  from distinct_fst_split [OF this eq eq']
  show "?lx = after_row None pre" "pointers None pre' @ page_pointers lo' (us @ [x]) = places None pre @ [(p, after_row None pre)]"
    "?vs @ pointers (fence pc) post' = places (fence c) post"
    by (auto simp: pp(2))
qed

text \<open>The parent with the pointer to the new page right after its left half.\<close>

lemma parent_with_pointer:
  assumes feeds: "pointers None (pre' @ (pp, pc) # post') = places None (pre @ (p, c) # post)"
    and distinct: "distinct (map fst (pre @ (p, c) # post))"
    and nodes: "pc_nodes pc = us @ x # vs" "bn_page x = p"
    and parent: "row_sorted descending False None (pre' @ (pp, pc) # post')" "row_linked level left (pre' @ (pp, pc) # post')"
    and mid: "above descending (after_row None pre) (entry_of y)" "after_row None pre \<noteq> Some (entry_of y)"
      "\<And>l. after_row None pre = Some l \<Longrightarrow> entry_less descending l (entry_of y)" "under descending (fence c) (entry_of y)"
  shows "parent_position descending (bn_key y) (bn_recno y) (pc_nodes pc) = length us + 1"
    "row_sorted descending False None (pre' @ (pp, pc\<lparr>pc_nodes := us @ x # y # vs\<rparr>) # post')"
    "pointers None (pre' @ (pp, pc\<lparr>pc_nodes := us @ x # y # vs\<rparr>) # post') =
      places None pre @ (p, after_row None pre) # (bn_page y, Some (entry_of y)) # places (fence c) post"
proof -
  define lo' where "lo' = after_row None pre'"
  note place = child_place [OF feeds distinct nodes, folded lo'_def]
  have ps: "page_sorted descending False lo' pc" using parent(1) by (simp add: row_sorted_append lo'_def)
  have vs: "v \<in> set vs \<Longrightarrow> entry_less descending (entry_of y) (entry_of v)" for v
  proof -
    assume v: "v \<in> set vs"
    then obtain w ws where w: "vs = w # ws" by (cases vs) auto
    have "fence c = Some (entry_of w)"
      using place(3) w by (cases post) auto
    then have yw: "entry_less descending (entry_of y) (entry_of w)" using mid(4) by (simp add: under_def)
    moreover have "w = v \<or> entry_less descending (entry_of w) (entry_of v)"
      using ps v by (cases us) (auto simp: page_sorted_def ranked_def nodes(1) w sorted_wrt_append split: if_splits)
    ultimately show ?thesis using entry_less_trans(1) by blast
  qed
  have us: "n \<in> set (tl (us @ [x])) \<Longrightarrow> entry_less descending (entry_of n) (entry_of y)" for n
  proof -
    assume n: "n \<in> set (tl (us @ [x]))"
    then have ne: "us \<noteq> []" by auto
    then have xy: "entry_less descending (entry_of x) (entry_of y)" using place(1) mid(3) by auto
    have "n = x \<or> entry_less descending (entry_of n) (entry_of x)"
      using ps n ne by (cases us) (auto simp: page_sorted_def ranked_def nodes(1) sorted_wrt_append split: if_splits)
    then show ?thesis using xy entry_less_trans(1) by blast
  qed
  have "cmp_node descending (bn_key y) (bn_recno y) n \<noteq> Less" if "n \<in> set (tl (us @ [x]))" for n
    using us [OF that] entry_less_trans(1) keys.entry_refl unfolding cmp_node_less entry_less_def keys.entry_less by blast
  then show "parent_position descending (bn_key y) (bn_recno y) (pc_nodes pc) = length us + 1"
    unfolding nodes(1) using vs by (intro parent_position_after) (auto simp: cmp_node_less)
  have hd_less: "entry_less descending (entry_of (hd (us @ [x]))) (entry_of y)" if "lo' \<noteq> None"
  proof -
    from that obtain l where l: "lo' = Some l" by blast
    have hd: "entry_of (hd (us @ [x])) = l" using ps l nodes(1) by (cases us) (auto simp: page_sorted_def)
    show ?thesis
    proof (cases "us = []")
      case True
      then show ?thesis using place(1) l hd mid(3) by simp
    next
      case False
      then have "entry_less descending (entry_of x) (entry_of y)" using place(1) mid(3) by auto
      moreover have "entry_less descending l (entry_of x)"
        using ps l nodes(1) hd False by (cases us) (auto simp: page_sorted_def ranked_def)
      ultimately show ?thesis using hd entry_less_trans(1) by metis
    qed
  qed
  have under_y: "under descending (fence pc) (entry_of y)"
  proof (cases vs)
    case (Cons w ws)
    then have "under descending (fence pc) (entry_of w)"
      using ps by (cases us) (auto simp: page_sorted_def ranked_def nodes(1) split: if_splits)
    moreover have "entry_less descending (entry_of y) (entry_of w)" using vs [of w] Cons by simp
    ultimately show ?thesis by (cases "fence pc") (simp_all add: under_def entry_less_trans(1) [of _ "entry_of y" "entry_of w"] del: split_paired_All)
  next
    case Nil
    show ?thesis
    proof (cases post')
      case Nil
      then have "fence pc = None"
        using parent(2) by (auto dest: row_linked_append simp: fence_def)
      then show ?thesis by (simp add: under_def)
    next
      case (Cons z zs)
      obtain s d where z: "z = (s, d)" by fastforce
      have "pc_nodes d \<noteq> []" using parent(1) by (simp add: Cons z row_sorted_append page_sorted_def)
      then have "fence pc = fence c" using place(3) Nil by (cases "pc_nodes d"; cases post) (auto simp: Cons z page_pointers_def)
      then show ?thesis using mid(4) by simp
    qed
  qed
  let ?pc = "pc\<lparr>pc_nodes := us @ x # y # vs\<rparr>"
  have "page_sorted descending False lo' ?pc"
  proof -
    have tl: "tl (us @ x # vs) = tl (us @ [x]) @ vs" "tl (us @ x # y # vs) = tl (us @ [x]) @ y # vs" by (cases us; simp)+
    define us' where "us' = (if lo' = None then tl (us @ [x]) else us @ [x])"
    have r: "ranked False lo' pc = map entry_of us' @ map entry_of vs" "ranked False lo' ?pc = map entry_of us' @ entry_of y # map entry_of vs"
      by (auto simp: ranked_def nodes(1) tl us'_def)
    have us': "n \<in> set us' \<Longrightarrow> entry_less descending (entry_of n) (entry_of y)" for n
    proof -
      assume n: "n \<in> set us'"
      show ?thesis
      proof (cases "n \<in> set (tl (us @ [x]))")
        case False
        then have "lo' \<noteq> None" "n = hd (us @ [x])" using n by (auto simp: us'_def split: if_splits; cases us; auto)+
        then show ?thesis using hd_less by simp
      qed (rule us)
    qed
    have above_y: "above descending lo' (entry_of y)"
      using hd_less ps nodes(1) by (cases lo'; cases us) (auto simp: above_def page_sorted_def entry_less_leq)
    have "pc_nodes pc \<noteq> []" "\<forall>l. lo' = Some l \<longrightarrow> entry_of (hd (us @ x # vs)) = l" "\<forall>l. lo' = Some l \<longrightarrow> under descending (fence pc) l"
      using ps nodes(1) by (auto simp: page_sorted_def)
    moreover have "hd (us @ x # y # vs) = hd (us @ x # vs)" by (cases us) auto
    ultimately show ?thesis
      using ps us' vs above_y under_y unfolding page_sorted_def r by (auto simp: sorted_wrt_append)
  qed
  then show "row_sorted descending False None (pre' @ (pp, ?pc) # post')"
    using parent(1) by (simp add: row_sorted_append lo'_def)
  have "page_pointers lo' (us @ x # y # vs) = page_pointers lo' (us @ [x]) @ (bn_page y, Some (entry_of y)) # map (\<lambda>m. (bn_page m, Some (entry_of m))) vs"
    by (cases us) (auto simp: page_pointers_def)
  then show "pointers None (pre' @ (pp, ?pc) # post') =
      places None pre @ (p, after_row None pre) # (bn_page y, Some (entry_of y)) # places (fence c) post"
    using place(2,3) by (simp add: pointers_append lo'_def flip: append_assoc) simp
qed

end
