(* ===== verification/Bt_Alloc.thy ===== *)
theory Bt_Alloc
  imports Dml_Pages Btw_Pages
begin

unbundle bit_operations_syntax

text \<open>
  The page allocator as the tree writer sees it: an interface \<^verbatim>\<open>allocator\<close> (a sound file, the pages
  in use, a lower bound of the pages left to hand out) with what a granted page and a write to a page in
  use guarantee, provided by the page inventory. And the index root page found by a scan.
\<close>

subsection \<open>The interface\<close>

locale allocator =
  fixes page_size :: nat and sound :: "image \<Rightarrow> bool" and used :: "image \<Rightarrow> u32 \<Rightarrow> bool" and room :: "image \<Rightarrow> nat"
  assumes sound_pages: "sound f \<Longrightarrow> 64 \<le> page_size \<and> img_page_size f = page_size \<and> (\<forall>p \<in> set (img_pages f). length p = page_size)"
    and used_page: "sound f \<Longrightarrow> used f m \<Longrightarrow> img_page f m \<noteq> None"
    and set_used: "sound f \<Longrightarrow> used f m \<Longrightarrow> length bs = page_size \<Longrightarrow>
      sound (set_page m bs f) \<and> used (set_page m bs f) = used f \<and> room (set_page m bs f) = room f"
    and grants: "sound f \<Longrightarrow> 0 < room f \<Longrightarrow>
      \<exists>n f'. allocate_page page_size f = Ret (Inr (n, f')) \<and> sound f' \<and> room f \<le> Suc (room f') \<and> n \<noteq> 0 \<and>
        \<not> used f n \<and> used f' n \<and> (\<forall>m. used f m \<longrightarrow> used f' m \<and> img_page f' m = img_page f m) \<and> keeps_types f f'"
begin

lemma page_in_use: "sound f \<Longrightarrow> used f m \<Longrightarrow> \<exists>page. img_page f m = Some page \<and> length page = page_size"
  using used_page [of f m] sound_pages [of f] by (auto simp: img_page_def split: if_splits)

text \<open>An index page written to a page in use.\<close>

lemma encode_in_use:
  assumes "sound f" "used f no" "content_ok c"
  shows "encode_page f page_size no rel ix c = Ret None \<and> \<not> page_fits page_size c \<or>
    (\<exists>bs. encode_page f page_size no rel ix c = Ret (Some (set_page no bs f)) \<and> page_holds rel ix bs c \<and>
       length bs = page_size \<and> bs ! 0 = page_type_byte Index)"
proof -
  obtain page where page: "img_page f no = Some page" "length page = page_size" using page_in_use assms(1,2) by blast
  show ?thesis
  proof (cases "page_fits page_size c")
    case True
    have "page_bytes no rel ix c page_size ! 0 = page_type_byte Index"
      by (simp add: page_bytes_head page_head_def)
    then show ?thesis
      using True page_bytes_hold [OF assms(3), where len = page_size and no = no and rel = rel and ix = ix] encode_page_eq [OF page, of rel ix c]
      by (auto simp: page_fits_def)
  next
    case False
    then show ?thesis using encode_page_eq [OF page, of rel ix c] by simp
  qed
qed

end

subsection \<open>The page inventory provides it\<close>

definition store_sound :: "nat \<Rightarrow> nat \<Rightarrow> image \<Rightarrow> bool" where
  "store_sound ps k file \<longleftrightarrow> inventory_ok ps file k \<and> \<not> pip_free ps file 0 0"

definition in_use :: "nat \<Rightarrow> nat \<Rightarrow> image \<Rightarrow> u32 \<Rightarrow> bool" where
  "in_use ps k file m \<longleftrightarrow> img_page file m \<noteq> None \<and> unat m div pages_per_pip ps \<le> k \<and> \<not> page_free ps file m \<and>
     (\<forall>sq \<le> k. m \<noteq> pip_page_no ps sq)"

text \<open>The pages that may be handed out and are free, below the range of inventory page k: allocation may make
  one inventory page beyond the last that has such a page.\<close>

definition free_pages :: "nat \<Rightarrow> nat \<Rightarrow> image \<Rightarrow> u32 set" where
  "free_pages ps k file = {m. unat m div pages_per_pip ps < k \<and> allocatable ps m \<and> page_free ps file m}"

definition pages_left :: "nat \<Rightarrow> nat \<Rightarrow> image \<Rightarrow> nat" where
  "pages_left ps k file = card (free_pages ps k file)"

lemma pip_bit_set_page:
  "m \<noteq> pip_page_no ps sq \<Longrightarrow> pip_bit ps (set_page m bs file) sq i \<longleftrightarrow> pip_bit ps file sq i"
  by (simp add: pip_bit_def page_set_page)

lemma minted_set_page:
  "\<forall>sq \<le> k. m \<noteq> pip_page_no ps sq \<Longrightarrow> sq \<le> k \<Longrightarrow> minted ps (set_page m bs file) sq \<longleftrightarrow> minted ps file sq"
  by (induction sq) (simp_all add: pip_bit_set_page)

lemma pip_free_set_page:
  assumes "\<forall>sq \<le> k. m \<noteq> pip_page_no ps sq" "sq \<le> k"
  shows "pip_free ps (set_page m bs file) sq i \<longleftrightarrow> pip_free ps file sq i"
  using assms minted_set_page [OF assms] by (simp add: pip_free_def pip_bit_set_page)

lemma inventory_ok_set_page:
  assumes "inventory_ok ps file k" "\<forall>sq \<le> k. m \<noteq> pip_page_no ps sq" "length bs = ps"
  shows "inventory_ok ps (set_page m bs file) k"
proof -
  have "\<forall>p \<in> set (img_pages (set_page m bs file)). length p = ps"
    using assms(1,3) set_update_subset_insert [of "img_pages file" "unat m" bs] by (auto simp: inventory_ok_def set_page_def)
  moreover have "img_page (set_page m bs file) (pip_page_no ps sq) = img_page file (pip_page_no ps sq)" if "sq \<le> k" for sq
    using assms(2) that by (auto simp: page_set_page)
  ultimately show ?thesis
    using assms(1) minted_set_page [OF assms(2)] assms(2) by (simp add: inventory_ok_def pip_bit_set_page)
qed

lemma first_page_used: "store_sound ps k file \<Longrightarrow> page_free ps file n \<Longrightarrow> n \<noteq> 0"
  by (auto simp: store_sound_def page_free_def)

interpretation inventory: allocator ps "store_sound ps k" "in_use ps k" "pages_left ps k" for ps k
proof
  fix f
  show "store_sound ps k f \<Longrightarrow> 64 \<le> ps \<and> img_page_size f = ps \<and> (\<forall>p \<in> set (img_pages f). length p = ps)"
    by (auto simp: store_sound_def inventory_ok_def)
  show "store_sound ps k f \<Longrightarrow> in_use ps k f m \<Longrightarrow> img_page f m \<noteq> None" for m
    by (simp add: in_use_def)
next
  fix f m and bs :: "byte list"
  assume ok: "store_sound ps k f" and use: "in_use ps k f m" and len: "length bs = ps"
  have m: "\<forall>sq \<le> k. m \<noteq> pip_page_no ps sq" using use by (simp add: in_use_def)
  have free: "unat x div pages_per_pip ps \<le> k \<Longrightarrow> page_free ps (set_page m bs f) x \<longleftrightarrow> page_free ps f x" for x
    using pip_free_set_page [OF m] by (simp add: page_free_def)
  have "in_use ps k (set_page m bs f) = in_use ps k f"
    using free use by (auto simp: in_use_def fun_eq_iff page_set_page)
  moreover have "free_pages ps k (set_page m bs f) = free_pages ps k f" using free by (auto simp: free_pages_def)
  ultimately show "store_sound ps k (set_page m bs f) \<and> in_use ps k (set_page m bs f) = in_use ps k f \<and>
      pages_left ps k (set_page m bs f) = pages_left ps k f"
    using ok inventory_ok_set_page [OF _ m len] pip_free_set_page [OF m]
    by (simp add: store_sound_def pages_left_def)
next
  fix f
  assume ok: "store_sound ps k f" and left: "0 < pages_left ps k f"
  have inv: "inventory_ok ps f k" using ok by (simp add: store_sound_def)
  then have per: "0 < pages_per_pip ps" using per_pip_bound [of ps] by (auto simp: inventory_ok_def)
  have "free_pages ps k f \<noteq> {}" using left by (auto simp: pages_left_def)
  then obtain m where m: "unat m div pages_per_pip ps < k" "allocatable ps m" "page_free ps f m"
    by (auto simp: free_pages_def)
  let ?s = "unat m div pages_per_pip ps" and ?i = "unat m mod pages_per_pip ps"
  have num: "(of_nat (?s * pages_per_pip ps + ?i) :: u32) = m" by simp
  have "pip_free ps f ?s ?i" using m(3) by (simp add: page_free_def)
  from alloc_loop_total [OF inv _ m(1) _ this, of 0] obtain n f' where
    r: "alloc_loop ps f 0 = Ret (Inr (n, f'))" "handed_out ps k f n f'"
    using m(2) unfolding num by auto
  then have h: "alloc_safe ps k f f'" "page_free ps f n" "\<not> page_free ps f' n"
    "allocatable ps n" "unat n < num_pages f'" "unat n div pages_per_pip ps \<le> k" "takes_only ps k f f' n"
    by (simp_all add: handed_out_def)
  have "inventory_ok ps f' k" "\<forall>sq \<le> k. \<forall>i. pip_free ps f' sq i \<longrightarrow> pip_free ps f sq i" "keeps_types f f'"
    using h(1) by (simp_all add: alloc_safe_def)
  then have ok': "store_sound ps k f'" using ok by (auto simp: store_sound_def)
  have n: "\<forall>sq \<le> k. n \<noteq> pip_page_no ps sq" "n \<noteq> 0"
    using free_is_no_inventory [OF inv h(2,4,6)] first_page_used [OF ok h(2)] by simp_all
  have "free_pages ps k f \<subseteq> insert n (free_pages ps k f')"
    using h(7) by (auto simp: free_pages_def takes_only_def)
  then have "pages_left ps k f \<le> Suc (pages_left ps k f')"
    unfolding pages_left_def
    using card_mono [of "insert n (free_pages ps k f')" "free_pages ps k f"] card_insert_if [of "free_pages ps k f'" n]
    by (simp split: if_splits)
  moreover have "in_use ps k f' n" "\<not> in_use ps k f n"
    using n(1) h(2,3,5,6) by (auto simp: in_use_def img_page_def num_pages_def)
  moreover have "in_use ps k f' m \<and> img_page f' m = img_page f m" if use: "in_use ps k f m" for m
  proof -
    obtain page where "img_page f m = Some page" using use by (auto simp: in_use_def)
    then have "img_page f' m = Some page" using use h(1) by (auto simp: in_use_def alloc_safe_def)
    moreover have "\<not> page_free ps f' m" using use h(1) unfolding in_use_def alloc_safe_def page_free_def by blast
    ultimately show ?thesis using use by (simp add: in_use_def \<open>img_page f m = Some page\<close>)
  qed
  ultimately show "\<exists>n f'. allocate_page ps f = Ret (Inr (n, f')) \<and> store_sound ps k f' \<and>
      pages_left ps k f \<le> Suc (pages_left ps k f') \<and> n \<noteq> 0 \<and> \<not> in_use ps k f n \<and> in_use ps k f' n \<and>
      (\<forall>m. in_use ps k f m \<longrightarrow> in_use ps k f' m \<and> img_page f' m = img_page f m) \<and> keeps_types f f'"
    using r(1) ok' n(2) \<open>keeps_types f f'\<close> by (auto simp: allocate_page_def)
qed

subsection \<open>The index root page\<close>

definition is_root_page :: "u16 \<Rightarrow> byte list \<Rightarrow> bool" where
  "is_root_page rel page \<longleftrightarrow> page ! 0 = page_type_byte IndexRoot \<and> u16_at page 16 = Ret rel"

definition root_slot :: "byte \<Rightarrow> nat" where
  "root_slot ix = 24 + unat ix * 24 + 8"

text \<open>The first index root page of the relation is page \<^verbatim>\<open>i\<close>, and its slot names the root.\<close>

definition root_at :: "image \<Rightarrow> u16 \<Rightarrow> byte \<Rightarrow> u32 \<Rightarrow> u32 \<Rightarrow> bool" where
  "root_at file rel ix i root \<longleftrightarrow>
     (\<exists>page cnt. img_page file i = Some page \<and> is_root_page rel page \<and> u16_at page 18 = Ret cnt \<and> ucast ix < cnt \<and>
        root_slot ix + 16 \<le> length page \<and> u32_at page (root_slot ix) = Ret root) \<and>
     (\<forall>j page. unat j < unat i \<longrightarrow> img_page file j = Some page \<longrightarrow> \<not> is_root_page rel page)"

lemma decode_index_root_page:
  assumes "64 \<le> length page"
  shows "\<exists>r. decode_index_root page = Ret r \<and>
    (page ! 0 = page_type_byte IndexRoot \<longrightarrow>
      (\<exists>irt. r = Some irt \<and> u16_at page 16 = Ret (ir_relation irt) \<and> u16_at page 18 = Ret (ir_count irt) \<and> ir_page irt = page))"
proof -
  obtain h where h: "decode_page_header page = Ret (Some h)" "pag_type h = page ! 0"
    using assms u_at_inside(2) [of 4 page] u_at_inside(2) [of 8 page] u_at_inside(2) [of 12 page]
    by (cases "page = []") (auto simp: decode_page_header_def PAGE_HEADER_SIZE_def rs_index_def)
  obtain a b where "u16_at page 16 = Ret a" "u16_at page 18 = Ret b"
    using assms u_at_inside(1) [of 16 page] u_at_inside(1) [of 18 page] by auto
  then show ?thesis using h by (simp add: decode_index_root_def)
qed

lemma first_run_at:
  assumes "i < length xs" "f (xs ! i) = Ret (Some y)" "\<forall>j < i. f (xs ! j) = Ret None"
  shows "first_run f xs = Ret (Some y)"
  using assms
proof (induction xs arbitrary: i)
  case (Cons x xs)
  show ?case
  proof (cases i)
    case 0
    then show ?thesis using Cons.prems by simp
  next
    case (Suc k)
    have "f x = Ret None" using Cons.prems(3) Suc by force
    moreover have "first_run f xs = Ret (Some y)"
      using Cons.IH [of k] Cons.prems Suc by (metis Suc_less_eq length_Cons nth_Cons_Suc)
    ultimately show ?thesis by simp
  qed
qed simp

lemma position_run_at:
  assumes "i < length xs" "f (xs ! i) = Ret True" "\<forall>j < i. f (xs ! j) = Ret False"
  shows "position_run f xs = Ret (Some i)"
  using assms
proof (induction xs arbitrary: i)
  case (Cons x xs)
  show ?case
  proof (cases i)
    case 0
    then show ?thesis using Cons.prems by simp
  next
    case (Suc k)
    have "f x = Ret False" using Cons.prems(3) Suc by force
    moreover have "position_run f xs = Ret (Some k)"
      using Cons.IH [of k] Cons.prems Suc by (metis Suc_less_eq length_Cons nth_Cons_Suc)
    ultimately show ?thesis using Suc by simp
  qed
qed simp

text \<open>The scans find it.\<close>

lemma root_at_found:
  assumes pages: "64 \<le> ps" "img_page_size file = ps" "\<forall>p \<in> set (img_pages file). length p = ps"
    and root: "root_at file rel ix i root"
  shows "index_root_no file ps rel ix = Ret (Some root)" "index_root_position file rel = Ret (Some (unat i))"
proof -
  obtain page cnt where p: "img_page file i = Some page" "is_root_page rel page" "u16_at page 18 = Ret cnt" "ucast ix < cnt"
    "root_slot ix + 16 \<le> length page" "u32_at page (root_slot ix) = Ret root"
    using root by (auto simp: root_at_def)
  have whole: "whole_pages file = img_pages file" using pages by (simp add: whole_pages_def)
  have i: "unat i < length (img_pages file)" "img_pages file ! unat i = page"
    using p(1) by (auto simp: img_page_def split: if_splits)
  have len: "length (img_pages file ! j) = ps" if "j < length (img_pages file)" for j using that pages(3) by simp
  have before: "\<not> is_root_page rel (img_pages file ! j)" if j: "j < unat i" for j
  proof -
    have "j < 2 ^ LENGTH(32)" using j unsigned_less [of i] by (meson less_trans)
    then have u: "unat (of_nat j :: u32) = j" by (simp add: unat_of_nat)
    then have "img_page file (of_nat j) = Some (img_pages file ! j)" using j i(1) by (simp add: img_page_def)
    then show ?thesis using root u j unfolding root_at_def by metis
  qed
  obtain irt where irt: "decode_index_root page = Ret (Some irt)" "u16_at page 16 = Ret (ir_relation irt)"
    "u16_at page 18 = Ret (ir_count irt)" "ir_page irt = page"
    using decode_index_root_page [of page] len [OF i(1)] i(2) pages(1) p(2) by (auto simp: is_root_page_def)
  have rel: "ir_relation irt = rel" "ir_count irt = cnt" using irt(2,3) p(2,3) by (auto simp: is_root_page_def)
  have idx: "rs_index (img_pages file ! j) 0 = Ret (img_pages file ! j ! 0)" if "j < length (img_pages file)" for j
    using len [OF that] pages(1) by (simp add: rs_index_def)
  define f where "f = (\<lambda>p. do {
         t \<leftarrow> rs_index p 0;
         if t = page_type_byte IndexRoot
         then map_option (\<lambda>d. case d of None \<Rightarrow> None | Some irt \<Rightarrow> if ir_relation irt = rel then Some irt else None)
                (decode_index_root p)
         else Ret None })"
  have "first_run f (img_pages file) = Ret (Some irt)"
  proof (rule first_run_at [OF i(1)])
    show "f (img_pages file ! unat i) = Ret (Some irt)"
      using idx [OF i(1)] i(2) irt(1) rel p(2) by (simp add: f_def is_root_page_def)
    show "\<forall>j < unat i. f (img_pages file ! j) = Ret None"
    proof (intro allI impI)
      fix j assume j: "j < unat i"
      then have j': "j < length (img_pages file)" using i(1) by simp
      obtain r where r: "decode_index_root (img_pages file ! j) = Ret r"
        "img_pages file ! j ! 0 = page_type_byte IndexRoot \<longrightarrow> (\<exists>irt. r = Some irt \<and> u16_at (img_pages file ! j) 16 = Ret (ir_relation irt))"
        using decode_index_root_page [of "img_pages file ! j"] len [OF j'] pages(1) by auto
      then show "f (img_pages file ! j) = Ret None"
        using idx [OF j'] before [OF j] by (auto simp: f_def is_root_page_def)
    qed
  qed
  then have found: "find_index_root file ps rel = Ret (Some irt)" by (simp add: find_index_root_def whole f_def)
  let ?e = "take 24 (drop (24 + unat ix * 24) page)"
  have range: "get_range page (24 + unat ix * 24) (24 + unat ix * 24 + 24) = Some ?e" "length ?e = 24"
    using p(5) by (simp_all add: get_range_def root_slot_def)
  have "u32_at ?e 8 = u32_at page (root_slot ix)"
    using range(2) p(5) by (simp add: u32_at_def rs_slice_def get_range_def root_slot_def drop_take add.commute)
  moreover obtain a b where "u64_at ?e 0 = Ret a" "u16_at ?e 18 = Ret b"
    using u_at_inside(3) [of 0 ?e, unfolded range(2)] u_at_inside(1) [of 18 ?e, unfolded range(2)] by auto
  ultimately show "index_root_no file ps rel ix = Ret (Some root)"
    using found rel irt(4) p(4,6) range by (simp add: index_root_no_def irt_entry_def rs_index_def not_le [symmetric])
  have "position_run (\<lambda>p. do {
         t \<leftarrow> rs_index p 0;
         if t = page_type_byte IndexRoot then map_option (\<lambda>r. r = rel) (u16_at p 16) else Ret False }) (img_pages file) =
      Ret (Some (unat i))"
  proof (rule position_run_at [OF i(1)])
    show "\<forall>j < unat i. (do { t \<leftarrow> rs_index (img_pages file ! j) 0;
        if t = page_type_byte IndexRoot then map_option (\<lambda>r. r = rel) (u16_at (img_pages file ! j) 16) else Ret False }) = Ret False"
    proof (intro allI impI)
      fix j assume j: "j < unat i"
      then have j': "j < length (img_pages file)" using i(1) by simp
      obtain r where "u16_at (img_pages file ! j) 16 = Ret r" using u_at_inside(1) [of 16 "img_pages file ! j"] len [OF j'] pages(1) by auto
      then show "(do { t \<leftarrow> rs_index (img_pages file ! j) 0;
          if t = page_type_byte IndexRoot then map_option (\<lambda>r. r = rel) (u16_at (img_pages file ! j) 16) else Ret False }) = Ret False"
        using idx [OF j'] before [OF j] by (auto simp: is_root_page_def)
    qed
  qed (use idx [OF i(1)] i(2) p(2) in \<open>simp add: is_root_page_def\<close>)
  then show "index_root_position file rel = Ret (Some (unat i))" by (simp add: index_root_position_def whole)
qed

lemma root_at_keeps:
  assumes "root_at file rel ix i root" "img_page file' i = img_page file i" "keeps_types file file'"
  shows "root_at file' rel ix i root"
  using assms unfolding root_at_def keeps_types_def is_root_page_def by metis

lemma keeps_types_set_page: "bs ! 0 \<noteq> page_type_byte IndexRoot \<Longrightarrow> keeps_types file (set_page m bs file)"
  by (auto simp: keeps_types_def page_set_page)

lemma keeps_types_trans: "keeps_types a b \<Longrightarrow> keeps_types b c \<Longrightarrow> keeps_types a c"
  unfolding keeps_types_def by metis

lemma keeps_types_refl: "keeps_types a a"
  by (simp add: keeps_types_def)

text \<open>The slot repointed.\<close>

lemma repoint_root_ok:
  assumes pages: "64 \<le> ps" "img_page_size file = ps" "\<forall>p \<in> set (img_pages file). length p = ps"
    and root: "root_at file rel ix i root"
  shows "\<exists>page'. repoint_root rel ix new_root file = Ret (Inr (set_page i page' file)) \<and> length page' = ps \<and>
    root_at (set_page i page' file) rel ix i new_root"
proof -
  obtain page cnt where p: "img_page file i = Some page" "is_root_page rel page" "u16_at page 18 = Ret cnt" "ucast ix < cnt"
    "root_slot ix + 16 \<le> length page" and before: "\<forall>j page. unat j < unat i \<longrightarrow> img_page file j = Some page \<longrightarrow> \<not> is_root_page rel page"
    using root by (auto simp: root_at_def)
  have len: "length page = ps" using p(1) pages(3) by (auto simp: img_page_def split: if_splits)
  let ?page' = "splice page (root_slot ix) (u32_bytes new_root)"
  have put: "put_u32 (root_slot ix) new_root page = Ret ?page'" using p(5) by (simp add: put_u32_def copy_at_def)
  have slot: "32 \<le> root_slot ix" by (simp add: root_slot_def)
  have room: "root_slot ix + length (u32_bytes new_root) \<le> length page" using p(5) by simp
  have "u16_at ?page' 16 = u16_at page 16" "u16_at ?page' 18 = u16_at page 18"
    using u_at_splice_other(1) [OF room, of 16] u_at_splice_other(1) [OF room, of 18] slot by simp_all
  moreover have "?page' ! 0 = page ! 0" using room slot by (subst nth_splice) auto
  moreover have "u32_at ?page' (root_slot ix) = Ret new_root" using p(5) by (intro u32_at_splice) simp
  moreover have "length ?page' = length page" using room by simp
  ultimately have "root_at (set_page i ?page' file) rel ix i new_root"
    using p before by (auto simp: root_at_def is_root_page_def page_set_page split: if_splits)
  moreover have "repoint_root rel ix new_root file = Ret (Inr (set_page i ?page' file))"
    using root_at_found(2) [OF pages root] put p(1)
    by (simp add: repoint_root_def ok_or_def edit_page_def root_slot_def)
  ultimately show ?thesis using len room by auto
qed

subsection \<open>The back link of a right neighbour\<close>

lemma get_at_drop: "drop a xs = drop a ys \<Longrightarrow> length xs = length ys \<Longrightarrow> a \<le> i \<Longrightarrow> get_at xs i = get_at ys i"
  using nth_drop [of a xs "i - a"] nth_drop [of a ys "i - a"] by (simp add: get_at_def)

text \<open>The readers of a node look at nothing before it.\<close>

lemma recno_loop_drop:
  "drop a xs = drop a ys \<Longrightarrow> length xs = length ys \<Longrightarrow> a \<le> p \<Longrightarrow> recno_loop xs p shift acc = recno_loop ys p shift acc"
proof (induction xs p shift acc rule: recno_loop.induct)
  case (1 xs p shift number)
  have g: "get_at xs p = get_at ys p" using 1(2-4) by (rule get_at_drop)
  show ?case
  proof (cases "get_at ys p")
    case (Some b)
    note IH = 1(1) [OF trans [OF g Some] refl]
    show ?thesis
    proof (cases "b < 128 \<or> 33 \<le> shift")
      case True
      then show ?thesis
        by (subst recno_loop.simps [of xs p], subst recno_loop.simps [of ys p]) (auto simp: g Some Let_def)
    next
      case False
      then show ?thesis
        using IH [OF False] 1(2-4) by (subst recno_loop.simps [of xs p], subst recno_loop.simps [of ys p]) (simp add: g Some Let_def)
    qed
  next
    case None
    then show ?thesis by (subst recno_loop.simps [of xs p], subst recno_loop.simps [of ys p]) (simp add: g)
  qed
qed

lemma pageno_loop_drop:
  "drop a xs = drop a ys \<Longrightarrow> length xs = length ys \<Longrightarrow> a \<le> p \<Longrightarrow> pageno_loop xs p shift acc = pageno_loop ys p shift acc"
proof (induction xs p shift acc rule: pageno_loop.induct)
  case (1 xs p shift pn)
  have g: "get_at xs p = get_at ys p" using 1(2-4) by (rule get_at_drop)
  show ?case
  proof (cases "get_at ys p")
    case (Some b)
    note IH = 1(1) [OF trans [OF g Some] _ refl]
    show ?thesis
    proof (cases "shift = 28 \<or> b < 128")
      case True
      then show ?thesis
        by (subst pageno_loop.simps [of xs p], subst pageno_loop.simps [of ys p]) (auto simp: g Some Let_def)
    next
      case False
      then show ?thesis
        using IH 1(2-4) by (subst pageno_loop.simps [of xs p], subst pageno_loop.simps [of ys p]) (simp add: g Some Let_def)
    qed
  next
    case None
    then show ?thesis by (subst pageno_loop.simps [of xs p], subst pageno_loop.simps [of ys p]) (simp add: g)
  qed
qed

lemma read_14_drop:
  assumes "drop a xs = drop a ys" "length xs = length ys" "a \<le> p"
  shows "read_14 xs p = read_14 ys p"
proof -
  have "get_at xs p = get_at ys p" "get_at xs (p + 1) = get_at ys (p + 1)"
    using get_at_drop [OF assms(1,2)] assms(3) by simp_all
  then show ?thesis by (simp only: read_14_def)
qed

lemma read_node_drop:
  assumes "drop a xs = drop a ys" "length xs = length ys" "a \<le> at"
  shows "read_node xs at leaf = read_node ys at leaf"
proof -
  have loop: "recno_loop xs (at + 1) sh ac = recno_loop ys (at + 1) sh ac" for sh ac
    using recno_loop_drop [OF assms(1,2)] assms(3) by simp
  have pn: "(if leaf then Some (0, p1) else pageno_loop xs p1 0 0) = (if leaf then Some (0, p1) else pageno_loop ys p1 0 0)"
    if "a \<le> p1" for p1 using pageno_loop_drop [OF assms(1,2) that] by simp
  have r14: "(if b then Some (0, p2) else read_14 xs p2) = (if b then Some (0, p2) else read_14 ys p2)"
    if "a \<le> p2" for b p2 using read_14_drop [OF assms(1,2) that] by simp
  have l14: "(if b then Some (0, p2) else if b' then Some (1, p2) else read_14 xs p2) = (if b then Some (0, p2) else if b' then Some (1, p2) else read_14 ys p2)"
    if "a \<le> p2" for b b' p2 using read_14_drop [OF assms(1,2) that] by simp
  have up: "recno_loop ys (at + 1) sh ac = Some (v, p1) \<Longrightarrow> a \<le> p1"
    "(if leaf then Some (0, p1) else pageno_loop ys p1 0 0) = Some (v', p2) \<Longrightarrow> a \<le> p1 \<Longrightarrow> a \<le> p2"
    "(if b then Some (0, p2) else read_14 ys p2) = Some (v'', p3) \<Longrightarrow> a \<le> p2 \<Longrightarrow> a \<le> p3"
    for sh ac v p1 v' p2 b v'' p3
    using assms(3) recno_loop_bounds [of ys "at + 1" sh ac v p1] pageno_loop_bounds [of ys p1 0 0 v' p2] read_14_bounds [of ys p2 v'' p3]
    by (auto split: if_splits)
  show ?thesis
  proof (cases "get_at ys at")
    case None
    then show ?thesis by (simp add: read_node_def get_at_drop [OF assms])
  next
    case (Some first)
    note head = this
    define int where "int = drop_bit 5 (first AND 0xE0)"
    show ?thesis
    proof (cases "recno_loop ys (at + 1) 5 (ucast first AND 0x1F)")
      case None
      then show ?thesis unfolding read_node_def get_at_drop [OF assms] head Option.bind.bind_lunit Let_def loop assms(2) by simp
    next
      case (Some r)
      obtain number p1 where r: "recno_loop ys (at + 1) 5 (ucast first AND 0x1F) = Some (number, p1)" using Some by (cases r) auto
      have p1: "a \<le> p1" by (rule up(1) [OF r])
      note unfold1 = read_node_def get_at_drop [OF assms] head Option.bind.bind_lunit Let_def loop assms(2) r prod.case pn [OF p1]
      show ?thesis
      proof (cases "if leaf then Some (0, p1) else pageno_loop ys p1 0 0")
        case None
        show ?thesis unfolding unfold1 None by simp
      next
        case (Some q)
        obtain pg p2 where q: "(if leaf then Some (0, p1) else pageno_loop ys p1 0 0) = Some (pg, p2)" using Some by (cases q) auto
        have p2: "a \<le> p2" by (rule up(2) [OF q p1])
        show ?thesis
        proof (cases "if drop_bit 5 (first AND 0xE0) = 3 then Some (0, p2) else read_14 ys p2")
          case None
          show ?thesis unfolding unfold1 q Option.bind.bind_lunit prod.case r14 [OF p2] None by simp
        next
          case (Some x)
          obtain pf p3 where x: "(if drop_bit 5 (first AND 0xE0) = 3 then Some (0, p2) else read_14 ys p2) = Some (pf, p3)"
            using Some by (cases x) auto
          have p3: "a \<le> p3" by (rule up(3) [OF x p2])
          show ?thesis unfolding unfold1 q Option.bind.bind_lunit prod.case r14 [OF p2] x l14 [OF p3] by (rule refl)
        qed
      qed
    qed
  qed
qed

lemma read_node_data: "read_node page at leaf = Some n \<Longrightarrow> at < data_at n"
proof -
  assume r: "read_node page at leaf = Some n"
  then obtain b where b: "get_at page at = Some b" by (auto simp: read_node_def split: Option.bind_splits)
  show "at < data_at n"
    using r b
    by (auto simp: read_node_def Let_def split: Option.bind_splits if_splits
        dest!: recno_loop_bounds pageno_loop_bounds read_14_bounds)
qed

lemma content_loop_drop:
  assumes "drop a xs = drop a ys" "length xs = length ys"
  shows "a \<le> at \<Longrightarrow> content_loop xs leaf at key = Some (ns, t) \<Longrightarrow> content_loop ys leaf at key = Some (ns, t)"
proof (induction ns arbitrary: at key)
  case Nil
  note r = read_node_drop [OF assms Nil(1)]
  have range: "get_range ys i j = get_range xs i j" if "a \<le> i" for i j
    using assms that by (simp add: get_range_def) (metis le_add_diff_inverse add.commute drop_drop)
  have data: "read_node xs at leaf = Some nd \<Longrightarrow> a \<le> data_at nd" for nd
    using read_node_data [of xs at leaf nd] Nil(1) by simp
  from Nil(2) show ?case
    by (subst (asm) content_loop.simps, subst content_loop.simps) (auto simp: r [symmetric] range data Let_def split: option.splits if_splits)
next
  case (Cons n ns)
  note r = read_node_drop [OF assms Cons(2)]
  have range: "get_range ys i j = get_range xs i j" if "a \<le> i" for i j
    using assms that by (simp add: get_range_def) (metis le_add_diff_inverse add.commute drop_drop)
  have data: "read_node xs at leaf = Some nd \<Longrightarrow> a \<le> data_at nd \<and> a \<le> next_at nd" for nd
    using read_node_data [of xs at leaf nd] read_node_advances [of xs at leaf nd] Cons(2) by simp
  from Cons(3) show ?case
    by (subst (asm) content_loop.simps, subst content_loop.simps)
      (auto simp: r [symmetric] range data Cons(1) Let_def split: option.splits if_splits)
qed

lemma relinked_page:
  fixes q :: u32
  assumes holds: "page_holds rel ix page c" and len: "64 \<le> length page"
  defines "page' \<equiv> splice page 20 (u32_bytes q)"
  shows "put_u32 20 q page = Ret page'" "page_holds rel ix page' (c\<lparr>pc_left := q\<rparr>)" "length page' = length page" "page' ! 0 = page ! 0"
proof -
  have room: "20 + length (u32_bytes q) \<le> length page" using len by simp
  show "put_u32 20 q page = Ret page'" using room by (simp add: put_u32_def copy_at_def page'_def)
  show l: "length page' = length page" using room by (simp add: page'_def)
  have byte: "i < 20 \<or> 24 \<le> i \<Longrightarrow> i < length page \<Longrightarrow> page' ! i = page ! i" for i
    unfolding page'_def using room by (subst nth_splice) auto
  show "page' ! 0 = page ! 0" by (rule byte) (simp, use len in linarith)
  note u16 = u_at_splice_other(1) [OF room, folded page'_def] and u32 = u_at_splice_other(2) [OF room, folded page'_def]
  have tail: "drop 39 page' = drop 39 page" using room by (simp add: page'_def splice_def)
  obtain bp where bp: "decode_btree page = Ret (Some bp)" "decode_content bp = Some c" "starts_clean bp"
    "bt_relation bp = rel" "bt_index_id bp = ix"
    using holds by (auto simp: page_holds_def)
  let ?bp = "bp\<lparr>bt_left := q, bt_bytes := page'\<rparr>"
  have bytes: "bt_bytes bp = page" using bp(1) by (auto simp: decode_btree_def split: option.splits if_splits Option.bind_splits)
  have hdr: "decode_page_header page' = decode_page_header page"
    using l len u32 [of 4] u32 [of 8] u32 [of 12] byte [of 0] byte [of 1]
    by (simp add: decode_page_header_def rs_index_def)
  have "u32_at page' 20 = Ret q" unfolding page'_def using len by (intro u32_at_splice) simp
  then have d: "decode_btree page' = Ret (Some ?bp)"
    using bp(1) hdr l len u32 [of 16] u16 [of 28] u16 [of 30] u16 [of 36] byte [of 32] byte [of 33]
    by (auto simp: decode_btree_def rs_index_def split: option.splits if_splits Option.bind_splits)
  have first: "first_node ?bp = first_node bp" "39 \<le> first_node bp" by (simp_all add: first_node_def BTR_NODES_OFFSET_def)
  have loop: "content_loop page (bt_level bp = 0) (first_node bp) [] = Some (pc_nodes c, pc_term c)"
    using bp(2) bytes by (auto simp: decode_content_def)
  have "content_loop page' (bt_level bp = 0) (first_node bp) [] = Some (pc_nodes c, pc_term c)"
    by (rule content_loop_drop [OF tail [symmetric] l [symmetric] first(2) loop])
  then have "decode_content ?bp = Some (c\<lparr>pc_left := q\<rparr>)"
    using bp(2) bytes loop first(1) by (cases c) (auto simp: decode_content_def)
  moreover have "starts_clean ?bp"
    using bp(3) read_node_drop [OF tail l first(2)] bytes first(1) by (simp add: starts_clean_def)
  ultimately show "page_holds rel ix page' (c\<lparr>pc_left := q\<rparr>)"
    using d bp(4,5) unfolding page_holds_def by (intro exI [of _ ?bp]) simp
qed

end
