(* ===== verification/Bt_Insert.thy ===== *)
theory Bt_Insert
  imports Bt_Split Bt_Alloc "HOL-Library.Multiset"
begin

unbundle bit_operations_syntax

text \<open>
  The insert of one entry into a stored tree: the descent reaches the leaf whose fences enclose the
  entry, the entry takes its place, and the writing loop, page splits and a new root included, leaves
  a tree of the same kind with exactly that entry more, touching no page outside the tree.
\<close>

subsection \<open>The rows as a stack\<close>

fun stacked :: "bool \<Rightarrow> nat \<Rightarrow> row list \<Rightarrow> bool" where
  "stacked descending k [] = True"
| "stacked descending k (row # rows) \<longleftrightarrow>
     row_linked (of_nat k) 0 row \<and> row_sorted descending (k = 0) None row \<and>
     (case rows of [] \<Rightarrow> length row = 1 | up # _ \<Rightarrow> pointers None up = places None row) \<and>
     stacked descending (Suc k) rows"

lemma stacked_nth:
  "stacked descending k rows \<longleftrightarrow>
     (rows \<noteq> [] \<longrightarrow> length (last rows) = 1) \<and>
     (\<forall>j < length rows. row_linked (of_nat (k + j)) 0 (rows ! j) \<and> row_sorted descending (k + j = 0) None (rows ! j)) \<and>
     (\<forall>j. Suc j < length rows \<longrightarrow> pointers None (rows ! Suc j) = places None (rows ! j))"
proof (induction descending k rows rule: stacked.induct)
  case (2 descending k row rows)
  have split: "(\<forall>j < Suc n. P j) \<longleftrightarrow> P 0 \<and> (\<forall>j < n. P (Suc j))" for P :: "nat \<Rightarrow> bool" and n
    by (simp add: less_Suc_eq_0_disj) blast
  have split': "(\<forall>j. Suc j < Suc n \<longrightarrow> P j) \<longleftrightarrow> (n > 0 \<longrightarrow> P 0) \<and> (\<forall>j. Suc j < n \<longrightarrow> P (Suc j))" for P :: "nat \<Rightarrow> bool" and n
    by (cases n) (auto simp: less_Suc_eq_0_disj)
  show ?case
    unfolding stacked.simps 2 length_Cons split split'
    by (cases rows) auto
qed simp

lemma tree_ok_stacked: "tree_ok descending rows \<longleftrightarrow> rows \<noteq> [] \<and> length rows \<le> 256 \<and> stacked descending 0 rows"
  unfolding tree_ok_def stacked_nth by auto

lemma stacked_replace:
  assumes "stacked descending k (rows @ row # up)" "stacked descending (k + length rows) (row' # up')"
    and "pointers None row' = pointers None row"
  shows "stacked descending k (rows @ row' # up')"
  using assms
proof (induction rows arbitrary: k)
  case (Cons r rows)
  have "stacked descending (Suc k) (rows @ row' # up')"
    by (rule Cons.IH) (use Cons.prems in simp_all)
  then show ?case using Cons.prems by (cases rows) auto
qed simp

lemma stacked_append: "stacked descending k (rows @ up) \<Longrightarrow> stacked descending (k + length rows) up"
proof (induction rows arbitrary: k)
  case (Cons r rows)
  then show ?case using Cons.IH [of "Suc k"] by simp
qed simp

subsection \<open>The entry in its leaf\<close>

lemma continues_under: "continues descending key recno (pc_term c) \<longleftrightarrow> \<not> under descending (fence c) (key, recno)"
  by (auto simp: continues_def fence_def under_def cmp_node_entry entry_less_def split: terminator.splits)

text \<open>Keys the order does not tell apart are equal: always so in an ascending index, and for the
  chopped keys of a descending one.\<close>

definition told_apart :: "bool \<Rightarrow> byte list \<Rightarrow> byte list set \<Rightarrow> bool" where
  "told_apart descending key keys \<longleftrightarrow> (\<forall>k \<in> keys. kcmp descending key k = Equal \<longrightarrow> k = key)"

lemma told_apart_ascending: "told_apart False key keys"
  by (simp add: told_apart_def kcmp_def bytes_cmp_Equal)

lemma leaf_position_split:
  obtains us vs where "ns = us @ vs" "leaf_position descending key recno ns = length us"
    "\<forall>n \<in> set us. cmp_node descending key recno n \<noteq> Less" "vs \<noteq> [] \<Longrightarrow> cmp_node descending key recno (hd vs) = Less"
proof (cases "rs_position (\<lambda>n. cmp_node descending key recno n = Less) ns")
  case None
  then have "\<forall>n \<in> set ns. cmp_node descending key recno n \<noteq> Less" by (simp only: rs_position_None)
  then show thesis using that [of ns "[]"] None by (simp add: leaf_position_def)
next
  case (Some i)
  note p = rs_position_Some [OF Some]
  show thesis
  proof (rule that [of "take i ns" "drop i ns"])
    show "\<forall>n \<in> set (take i ns). cmp_node descending key recno n \<noteq> Less"
      using p by (auto simp: in_set_conv_nth)
    show "cmp_node descending key recno (hd (drop i ns)) = Less" using p by (simp add: hd_drop_conv_nth)
  qed (use Some p in \<open>simp_all add: leaf_position_def\<close>)
qed

lemma leaf_with_entry:
  assumes sorted: "page_sorted descending True lo c" and between: "above descending lo (key, recno)" "under descending (fence c) (key, recno)"
    and fresh: "\<forall>n \<in> set (pc_nodes c). entry_of n \<noteq> (key, recno)" and told: "told_apart descending key (bn_key ` set (pc_nodes c))"
  defines "c' \<equiv> c\<lparr>pc_nodes := list_insert (leaf_position descending key recno (pc_nodes c)) \<lparr>bn_key = key, bn_recno = recno, bn_page = 0\<rparr> (pc_nodes c)\<rparr>"
  shows "page_sorted descending True lo c'" "fence c' = fence c"
    "mset (map entry_of (pc_nodes c')) = add_mset (key, recno) (mset (map entry_of (pc_nodes c)))"
proof -
  let ?n = "\<lparr>bn_key = key, bn_recno = recno, bn_page = 0\<rparr>"
  obtain us vs where ns: "pc_nodes c = us @ vs" "leaf_position descending key recno (pc_nodes c) = length us"
    "\<forall>n \<in> set us. cmp_node descending key recno n \<noteq> Less" "vs \<noteq> [] \<Longrightarrow> cmp_node descending key recno (hd vs) = Less"
    using leaf_position_split by blast
  have nodes': "pc_nodes c' = us @ ?n # vs" by (simp add: c'_def list_insert_def ns(2)) (simp add: ns(1))
  have ord: "sorted_wrt (entry_less descending) (map entry_of us @ map entry_of vs)"
    using sorted by (simp add: page_sorted_def ranked_def ns(1))
  have before: "entry_less descending (entry_of n) (key, recno)" if n: "n \<in> set us" for n
  proof -
    have le: "entry_leq descending (entry_of n) (key, recno)"
      using ns(3) n by (simp add: cmp_node_entry keys.entry_less)
    have "\<not> entry_leq descending (key, recno) (entry_of n)"
    proof
      assume "entry_leq descending (key, recno) (entry_of n)"
      with le have "key_le (kcmp descending) key (bn_key n) \<and> key_le (kcmp descending) (bn_key n) key" "bn_recno n = recno"
        unfolding keys.entry_le_iff by (auto simp: entry_of_def)
      then have "bn_key n = key" using told n keys.equal_le unfolding told_apart_def ns(1) by auto
      then show False using fresh n \<open>bn_recno n = recno\<close> by (auto simp: entry_of_def ns(1))
    qed
    then show ?thesis by (simp add: entry_less_def keys.entry_less)
  qed
  have after: "entry_less descending (key, recno) (entry_of n)" if n: "n \<in> set vs" for n
  proof -
    obtain w ws where w: "vs = w # ws" using n by (cases vs) auto
    have "entry_less descending (key, recno) (entry_of w)" using ns(4) w by (simp add: cmp_node_entry entry_less_def)
    moreover have "n = w \<or> entry_less descending (entry_of w) (entry_of n)" using ord n w by (auto simp: sorted_wrt_append)
    ultimately show ?thesis using entry_less_trans(1) by blast
  qed
  have e: "entry_of ?n = (key, recno)" by (simp add: entry_of_def)
  show "fence c' = fence c" by (simp add: c'_def)
  then show "page_sorted descending True lo c'"
    using sorted between ord before after unfolding page_sorted_def ranked_def nodes' ns(1)
    by (auto simp: sorted_wrt_append e)
  show "mset (map entry_of (pc_nodes c')) = add_mset (key, recno) (mset (map entry_of (pc_nodes c)))"
    by (simp add: nodes' ns(1) e)
qed

subsection \<open>The descent\<close>

text \<open>The pages above a page, nearest first, each naming the one before it.\<close>

fun route :: "u32 \<Rightarrow> u32 list \<Rightarrow> row list \<Rightarrow> bool" where
  "route p [] rows \<longleftrightarrow> rows = []"
| "route p (pp # path) [] \<longleftrightarrow> False"
| "route p (pp # path) (row # rows) \<longleftrightarrow>
     (\<exists>c n. (pp, c) \<in> set row \<and> n \<in> set (pc_nodes c) \<and> bn_page n = p) \<and> route pp path rows"

lemma child_after_split:
  "\<exists>us y vs. n # ns = us @ y # vs \<and> child_after descending key recno (bn_page n) ns = bn_page y \<and>
     (us \<noteq> [] \<longrightarrow> entry_leq descending (entry_of y) (key, recno)) \<and>
     (vs \<noteq> [] \<longrightarrow> entry_less descending (key, recno) (entry_of (hd vs)))"
proof (induction ns arbitrary: n)
  case Nil
  show ?case by (intro exI [of _ "[]"] exI [of _ n]) simp
next
  case (Cons m ns)
  show ?case
  proof (cases "cmp_node descending key recno m = Less")
    case True
    then show ?thesis
      by (intro exI [of _ "[]"] exI [of _ n] exI [of _ "m # ns"]) (simp add: cmp_node_entry entry_less_def)
  next
    case False
    obtain us y vs where IH: "m # ns = us @ y # vs" "child_after descending key recno (bn_page m) ns = bn_page y"
      "us \<noteq> [] \<longrightarrow> entry_leq descending (entry_of y) (key, recno)" "vs \<noteq> [] \<longrightarrow> entry_less descending (key, recno) (entry_of (hd vs))"
      using Cons.IH [of m] by blast
    have "us = [] \<Longrightarrow> entry_leq descending (entry_of y) (key, recno)"
      using False IH(1) by (auto simp: cmp_node_entry keys.entry_less)
    then have "entry_leq descending (entry_of y) (key, recno)" using IH(3) by blast
    moreover have "child_after descending key recno (bn_page n) (m # ns) = bn_page y" using IH(2) False by simp
    moreover have "n # m # ns = (n # us) @ y # vs" using IH(1) by simp
    ultimately show ?thesis using IH(4) by blast
  qed
qed

lemma load_row_page:
  assumes "file_has rel ix file rows" "(pre @ (p, c) # post) \<in> set rows"
  shows "load_content bad und file ps p = Ret (Inr c)"
  using assms by (intro load_content_holds) (fastforce simp: file_has_def)

text \<open>The fence of the chosen child lies above the entry.\<close>

lemma child_encloses:
  assumes feeds: "pointers None (pre' @ (pp, pc) # post') = places None (pre @ (p, c) # post)"
    and distinct: "distinct (map fst (pre @ (p, c) # post))"
    and nodes: "pc_nodes pc = us @ y # vs" "bn_page y = p"
    and rows: "row_sorted descending False None (pre' @ (pp, pc) # post')" "row_linked level left (pre' @ (pp, pc) # post')"
      "row_linked level' left' (pre @ (p, c) # post)"
    and entry: "above descending (after_row None pre') x" "under descending (fence pc) x"
      "us \<noteq> [] \<Longrightarrow> entry_leq descending (entry_of y) x" "vs \<noteq> [] \<Longrightarrow> entry_less descending x (entry_of (hd vs))"
  shows "above descending (after_row None pre) x" "under descending (fence c) x"
proof -
  note place = child_place [OF feeds distinct nodes]
  show "above descending (after_row None pre) x"
  proof (cases "us = []")
    case True
    then show ?thesis using place(1) entry(1) by simp
  next
    case False
    then have "after_row None pre = Some (entry_of y)" using place(1) by simp
    then show ?thesis using entry(3) [OF False] by (simp add: above_def)
  qed
  show "under descending (fence c) x"
  proof (cases vs)
    case (Cons w ws)
    then have "fence c = Some (entry_of w)" using place(3) by (cases post) auto
    then show ?thesis using entry(4) Cons by (simp add: under_def)
  next
    case Nil
    show ?thesis
    proof (cases post)
      case Nil
      then have "fence c = None" using rows(3) by (auto dest: row_linked_append simp: fence_def)
      then show ?thesis by (simp add: under_def)
    next
      case (Cons z zs)
      then obtain z' zs' where post': "post' = z' # zs'" using place(3) Nil by (cases post'; cases z) auto
      obtain s d where z: "z' = (s, d)" by fastforce
      have "pc_nodes d \<noteq> []" using rows(1) by (simp add: post' z row_sorted_append page_sorted_def)
      then have "fence pc = fence c" using place(3) Nil Cons by (cases "pc_nodes d"; cases z) (auto simp: post' z)
      then show ?thesis using entry(2) by simp
    qed
  qed
qed

lemma find_leaf_ok:
  assumes "stacked descending 0 (rows @ (pre @ (p, c) # post) # up)" "file_has rel ix file (rows @ (pre @ (p, c) # post) # up)"
    and "\<forall>row \<in> set rows. distinct (map fst row)" "length rows < 256"
    and "above descending (after_row None pre) (key, recno)" "under descending (fence c) (key, recno)" "route p path up"
  shows "\<exists>q cq preq postq path' upq. rows @ (pre @ (p, c) # post) # up = (preq @ (q, cq) # postq) # upq \<and>
    find_leaf file ps descending key recno path p = Ret (Inr (path', q)) \<and> route q path' upq \<and>
    above descending (after_row None preq) (key, recno) \<and> under descending (fence cq) (key, recno)"
  using assms
proof (induction rows arbitrary: pre p c post up path rule: rev_induct)
  case Nil
  have "pc_level c = 0" using Nil(1) row_linked_level [of 0 0 "pre @ (p, c) # post" p c] by simp
  moreover have "load_content bad und file ps p = Ret (Inr c)" for bad und
    by (rule load_row_page [OF Nil(2), of pre p c post]) simp
  ultimately have "find_leaf file ps descending key recno path p = Ret (Inr (path, p))"
    using Nil(6) by (subst find_leaf.simps) (simp add: continues_under)
  then show ?case using Nil by auto
next
  case (snoc below rows)
  let ?row = "pre @ (p, c) # post"
  have st: "stacked descending (length rows) (below # ?row # up)"
    using stacked_append [of descending 0 rows "below # ?row # up"] snoc.prems(1) by simp
  then have row: "row_linked (of_nat (Suc (length rows))) 0 ?row" "row_sorted descending False None ?row"
    "pointers None ?row = places None below" "row_linked (of_nat (length rows)) 0 below"
    by simp_all
  have "pc_level c = of_nat (Suc (length rows))" using row_linked_level [OF row(1), of p c] by simp
  then have lev: "pc_level c \<noteq> 0" using level_zero [of "Suc (length rows)"] snoc.prems(4) by simp
  have "pc_nodes c \<noteq> []" using row(2) by (simp add: row_sorted_append page_sorted_def)
  then obtain n ns where n: "pc_nodes c = n # ns" by (cases "pc_nodes c") auto
  obtain us y vs where y: "n # ns = us @ y # vs" "child_after descending key recno (bn_page n) ns = bn_page y"
    "us \<noteq> [] \<longrightarrow> entry_leq descending (entry_of y) (key, recno)" "vs \<noteq> [] \<longrightarrow> entry_less descending (key, recno) (entry_of (hd vs))"
    using child_after_split by blast
  have nodes: "pc_nodes c = us @ y # vs" using n y(1) by simp
  have "bn_page y \<in> fst ` set (pointers None ?row)"
    by (cases us) (force simp: pointers_append nodes page_pointers_append)+
  then have "bn_page y \<in> fst ` set (places None below)" using row(3) by simp
  then obtain l where "(bn_page y, l) \<in> set (places None below)" by auto
  then obtain preb cb postb where below: "below = preb @ (bn_page y, cb) # postb" using places_split by blast
  have dist: "distinct (map fst (preb @ (bn_page y, cb) # postb))" using snoc.prems(3) below by simp
  have enc: "above descending (after_row None preb) (key, recno)" "under descending (fence cb) (key, recno)"
    using child_encloses [OF row(3) [unfolded below] dist nodes refl row(2,1) row(4) [unfolded below] snoc.prems(5,6)] y(3,4)
    by blast+
  have "load_content bad und file ps p = Ret (Inr c)" for bad und
    by (rule load_row_page [OF snoc.prems(2), of pre p c post]) simp
  then have "find_leaf file ps descending key recno path p = find_leaf file ps descending key recno (p # path) (bn_page y)"
    using snoc.prems(6) lev n y(2)
    by (subst find_leaf.simps) (simp add: continues_under)
  moreover have "route (bn_page y) (p # path) (?row # up)"
    unfolding route.simps using snoc.prems(7) nodes by (intro conjI exI [of _ c] exI [of _ y]) simp_all
  moreover have "(rows @ [below]) @ ?row # up = rows @ (preb @ (bn_page y, cb) # postb) # ?row # up" by (simp add: below)
  ultimately show ?case
    using snoc.IH [of preb "bn_page y" cb postb "?row # up" "p # path"] snoc.prems(1-4) enc by simp
qed

subsection \<open>The pages of a tree in the file\<close>

text \<open>The pages of the list are in use and hold their contents, those of the set \<^verbatim>\<open>X\<close> apart, and the
  index root page (number \<^verbatim>\<open>i\<close>, none of them) names the root.\<close>

definition stored :: "(image \<Rightarrow> u32 \<Rightarrow> bool) \<Rightarrow> u16 \<Rightarrow> byte \<Rightarrow> u32 \<Rightarrow> u32 \<Rightarrow> image \<Rightarrow> u32 set \<Rightarrow> row \<Rightarrow> bool" where
  "stored used rel ix i root file X pages \<longleftrightarrow>
     (\<forall>(p, c) \<in> set pages. used file p \<and> p \<noteq> i \<and> content_ok c \<and> (p \<notin> X \<longrightarrow> file_holds rel ix file p c)) \<and>
     distinct (map fst pages) \<and> used file i \<and> root_at file rel ix i root"

text \<open>What a step may not touch: the pages in use stay in use, and those outside \<^verbatim>\<open>T\<close> keep their bytes.\<close>

definition spares :: "(image \<Rightarrow> u32 \<Rightarrow> bool) \<Rightarrow> u32 set \<Rightarrow> image \<Rightarrow> image \<Rightarrow> bool" where
  "spares used T file file' \<longleftrightarrow>
     (\<forall>m. used file m \<longrightarrow> used file' m \<and> (m \<notin> T \<longrightarrow> img_page file' m = img_page file m))"

lemma spares_trans:
  assumes "spares used T a b" "spares used T' b c" "\<And>m. m \<in> T' \<Longrightarrow> used a m \<Longrightarrow> m \<in> T"
  shows "spares used T a c"
  using assms unfolding spares_def by metis

lemma stored_permute:
  assumes "stored used rel ix i root file X pages" "mset pages = mset pages'"
  shows "stored used rel ix i root file X pages'"
proof -
  have "set pages = set pages'" "distinct (map fst pages) = distinct (map fst pages')"
    using assms(2) mset_eq_setD mset_eq_imp_distinct_iff [of "map fst pages" "map fst pages'"] by (auto simp: )
  then show ?thesis using assms(1) by (simp add: stored_def)
qed

lemma stored_change:
  "stored used rel ix i root file X ((p, c) # pages) \<Longrightarrow> content_ok c' \<Longrightarrow> p \<in> X' \<Longrightarrow> X \<subseteq> X' \<Longrightarrow>
   stored used rel ix i root file X' ((p, c') # pages)"
  unfolding stored_def by auto

lemma file_holds_set_page:
  "file_holds rel ix (set_page p bs file) q c \<longleftrightarrow>
     (if p = q \<and> img_page file p \<noteq> None then page_holds rel ix bs c else file_holds rel ix file q c)"
  by (auto simp: file_holds_def page_set_page)

context allocator
begin

lemma stored_write:
  assumes "stored used rel ix i root f X ((p, c) # pages)" "sound f"
    and "page_holds rel ix bs c'" "content_ok c'" "length bs = page_size" "bs ! 0 = page_type_byte Index"
  shows "stored used rel ix i root (set_page p bs f) (X - {p}) ((p, c') # pages)"
    "sound (set_page p bs f)" "room (set_page p bs f) = room f" "spares used {p} f (set_page p bs f)"
proof -
  have "p \<notin> fst ` set pages" using assms(1) by (simp add: stored_def)
  then have p: "used f p" "p \<noteq> i" "\<forall>(q, d) \<in> set pages. q \<noteq> p" using assms(1) by (simp_all add: stored_def, force)
  obtain page where page: "img_page f p = Some page" using page_in_use [OF assms(2) p(1)] by blast
  note set = set_used [OF assms(2) p(1) assms(5)]
  then show "sound (set_page p bs f)" "room (set_page p bs f) = room f" by simp_all
  show "spares used {p} f (set_page p bs f)" using set by (auto simp: spares_def page_set_page)
  have "root_at (set_page p bs f) rel ix i root"
  proof (rule root_at_keeps)
    show "keeps_types f (set_page p bs f)" by (rule keeps_types_set_page) (simp add: assms(6))
  qed (use assms(1) p(2) in \<open>simp_all add: stored_def page_set_page\<close>)
  then show "stored used rel ix i root (set_page p bs f) (X - {p}) ((p, c') # pages)"
    using assms(1,3,4) set p page by (auto simp: stored_def file_holds_set_page)
qed

lemma stored_grow:
  assumes "stored used rel ix i root f X pages" "sound f" "0 < room f"
  obtains n f' where "allocate_page page_size f = Ret (Inr (n, f'))" "sound f'" "room f \<le> Suc (room f')" "n \<noteq> 0" "\<not> used f n"
    "spares used {} f f'" "\<And>c. content_ok c \<Longrightarrow> stored used rel ix i root f' (insert n X) ((n, c) # pages)"
proof -
  obtain n f' where g: "allocate_page page_size f = Ret (Inr (n, f'))" "sound f'" "room f \<le> Suc (room f')" "n \<noteq> 0"
    "\<not> used f n" "used f' n" "\<forall>m. used f m \<longrightarrow> used f' m \<and> img_page f' m = img_page f m" "keeps_types f f'"
    using grants [OF assms(2,3)] by blast
  have same: "used f m \<Longrightarrow> img_page f' m = img_page f m" for m using g(7) by blast
  have i: "used f i" "root_at f rel ix i root" using assms(1) by (simp_all add: stored_def)
  have "root_at f' rel ix i root" by (rule root_at_keeps [OF i(2) same [OF i(1)] g(8)])
  then have "stored used rel ix i root f' (insert n X) ((n, c) # pages)" if "content_ok c" for c
    using assms(1) g(5-7) that by (auto simp: stored_def file_holds_def same)
  then show thesis using that g by (simp add: spares_def)
qed

end

definition split_errors :: "dml_error set" where
  "split_errors = Msg ` {''btree node too large to split'', ''split right half does not fit'', ''split left half does not fit'',
     ''new root does not fit''}"

lemma halves_ok:
  assumes "content_ok c" "m < length (pc_nodes c)"
  shows "content_ok (left_half c m q)" "content_ok (right_half c m p)" "node_ok (pc_level c = 0) (pc_nodes c ! m)"
  using assms by (auto simp: content_ok_def term_ok_def left_half_def right_half_def dest: in_set_takeD in_set_dropD)

context allocator
begin

text \<open>The split of a page in its row.\<close>

lemma split_page_ok:
  assumes st: "stored used rel ix i root f {p} ((p, c) # post @ rest)" and ok: "sound f" "0 < room f"
    and row: "row_linked level left ((p, c) # post)"
  defines "m \<equiv> length (pc_nodes c) div 2"
  shows "\<exists>r. split_page page_size rel ix p c f = Ret r \<and> (\<forall>e. r = Inl e \<longrightarrow> e \<in> split_errors) \<and>
    (\<forall>y left f'. r = Inr ((y, left), f') \<longrightarrow> 1 \<le> m \<and> m < length (pc_nodes c) \<and>
      (\<exists>q. left = left_half c m q \<and> y = (pc_nodes c ! m)\<lparr>bn_page := q\<rparr> \<and> q \<noteq> 0 \<and> \<not> used f q \<and>
        stored used rel ix i root f' {} ((p, left_half c m q) # (q, right_half c m p) # relink q post @ rest) \<and>
        sound f' \<and> room f \<le> Suc (room f') \<and> spares used (insert p (fst ` set post)) f f'))"
proof (cases "m = 0 \<or> length (pc_nodes c) \<le> m")
  case True
  then have "split_page page_size rel ix p c f = Ret (Inl (Msg ''btree node too large to split''))"
    unfolding split_page_def m_def Let_def by simp
  then show ?thesis by (simp add: split_errors_def)
next
  case False
  then have m: "1 \<le> m" "m < length (pc_nodes c)" by simp_all
  have c: "content_ok c" "used f p" using st by (simp_all add: stored_def)
  note half = halves_ok [OF c(1) m(2)]
  obtain q f1 where q: "allocate_page page_size f = Ret (Inr (q, f1))" "sound f1" "room f \<le> Suc (room f1)" "q \<noteq> 0"
    "\<not> used f q" "spares used {} f f1" "\<And>d. content_ok d \<Longrightarrow> stored used rel ix i root f1 (insert q {p}) ((q, d) # (p, c) # post @ rest)"
    using stored_grow [OF st ok] by metis
  define rgt where "rgt = right_half c m p"
  define lft where "lft = left_half c m q"
  define write_left where "write_left = (\<lambda>file3. attempt (ok_or ''split left half does not fit'' (encode_page file3 page_size p rel ix lft)) (\<lambda>file4.
          Ret (Inr (((pc_nodes c ! m)\<lparr>bn_page := q\<rparr>, lft), file4))))"
  define link where "link = (\<lambda>file2. if pc_sibling c = 0 then Ret (Inr file2)
                 else (case img_page file2 (pc_sibling c) of
                         None \<Rightarrow> Panic
                       | Some page \<Rightarrow> map_option (\<lambda>page'. Inr (set_page (pc_sibling c) page' file2)) (put_u32 20 q page)) :: (dml_error + image) run)"
  have mid: "(pc_nodes c ! m)\<lparr>bn_page := q\<rparr> = \<lparr>bn_key = bn_key (pc_nodes c ! m), bn_recno = bn_recno (pc_nodes c ! m), bn_page = q\<rparr>"
    by simp
  have eq: "split_page page_size rel ix p c f =
      attempt (ok_or ''split right half does not fit'' (encode_page f1 page_size q rel ix rgt)) (\<lambda>file2. attempt (link file2) write_left)"
    using False q(1) unfolding split_page_def m_def [symmetric] Let_def mid link_def write_left_def
    by (simp add: rgt_def lft_def right_half_def left_half_def cong: if_cong option.case_cong)
  have st1: "stored used rel ix i root f1 (insert q {p}) ((q, rgt) # (p, c) # post @ rest)" using q(7) half(2) by (simp add: rgt_def)
  then have uq: "used f1 q" by (simp add: stored_def)
  consider "encode_page f1 page_size q rel ix rgt = Ret None"
    | bs where "encode_page f1 page_size q rel ix rgt = Ret (Some (set_page q bs f1))" "page_holds rel ix bs rgt"
      "length bs = page_size" "bs ! 0 = page_type_byte Index"
    using encode_in_use [OF q(2) uq half(2) [of p, folded rgt_def], of rel ix] by blast
  then show ?thesis
  proof cases
    case 1
    then show ?thesis unfolding eq by (simp add: ok_or_def split_errors_def)
  next
    case (2 bs)
    define f2 where "f2 = set_page q bs f1"
    note w2 = stored_write [OF st1 q(2) 2(2) half(2) [of p, folded rgt_def] 2(3,4), folded f2_def]
    have X: "insert q {p} - {q} = {p}" using q(5) c(2) by auto
    obtain f3 where f3: "link f2 = Ret (Inr f3)" "sound f3" "room f3 = room f2" "spares used (fst ` set post) f2 f3"
      "stored used rel ix i root f3 {p} ((q, rgt) # (p, c) # relink q post @ rest)"
    proof (cases post)
      case Nil
      then have "pc_sibling c = 0" using row by simp
      then show thesis using that [of f2] w2(1,2) X by (simp add: link_def Nil relink_def spares_def)
    next
      case (Cons z post')
      obtain s d where z: "z = (s, d)" by fastforce
      have sib: "pc_sibling c = s" "s \<noteq> 0"
        using row row_linked_level [of level p "(s, d) # post'" s d] by (simp_all add: Cons z)
      have perm: "stored used rel ix i root f2 {p} ((s, d) # (q, rgt) # (p, c) # post' @ rest)"
        by (rule stored_permute [OF w2(1) [unfolded X]]) (simp add: Cons z)
      have s: "used f2 s" "s \<noteq> p" "content_ok d" "file_holds rel ix f2 s d" using perm by (auto simp: stored_def)
      obtain page where page: "img_page f2 s = Some page" "length page = page_size" using page_in_use [OF w2(2) s(1)] by blast
      have "page_holds rel ix page d" using s(4) page(1) by (simp add: file_holds_def)
      moreover have "64 \<le> length page" using sound_pages [OF w2(2)] page(2) by simp
      ultimately have rl: "put_u32 20 q page = Ret (splice page 20 (u32_bytes q))"
        "page_holds rel ix (splice page 20 (u32_bytes q)) (d\<lparr>pc_left := q\<rparr>)"
        "length (splice page 20 (u32_bytes q)) = page_size" "splice page 20 (u32_bytes q) ! 0 = page ! 0"
        using relinked_page [where q = q] page(2) by simp_all
      have "page ! 0 = page_type_byte Index"
        using \<open>page_holds rel ix page d\<close> \<open>64 \<le> length page\<close>
        by (auto simp: page_holds_def decode_btree_def decode_page_header_def rs_index_def split: Option.bind_splits option.splits if_splits)
      then have i: "splice page 20 (u32_bytes q) ! 0 = page_type_byte Index" using rl(4) by simp
      have ok': "content_ok (d\<lparr>pc_left := q\<rparr>)" using s(3) by (simp add: content_ok_def)
      note w3 = stored_write [OF perm w2(2) rl(2) ok' rl(3) i]
      have "{p} - {s} = {p}" using s(2) by auto
      then have "stored used rel ix i root (set_page s (splice page 20 (u32_bytes q)) f2) {p} ((q, rgt) # (p, c) # relink q post @ rest)"
        using stored_permute [OF w3(1), of "(q, rgt) # (p, c) # relink q post @ rest"] by (simp add: Cons z relink_def)
      moreover have "link f2 = Ret (Inr (set_page s (splice page 20 (u32_bytes q)) f2))"
        using sib page(1) rl(1) by (simp add: link_def)
      moreover have "spares used (fst ` set post) f2 (set_page s (splice page 20 (u32_bytes q)) f2)"
        using w3(4) by (auto simp: spares_def Cons z)
      ultimately show thesis using that w3(2,3) by blast
    qed
    have perm: "stored used rel ix i root f3 {p} ((p, c) # (q, rgt) # relink q post @ rest)"
      by (rule stored_permute [OF f3(5)]) simp
    then have up: "used f3 p" by (simp add: stored_def)
    consider "encode_page f3 page_size p rel ix lft = Ret None"
      | bs' where "encode_page f3 page_size p rel ix lft = Ret (Some (set_page p bs' f3))" "page_holds rel ix bs' lft"
        "length bs' = page_size" "bs' ! 0 = page_type_byte Index"
      using encode_in_use [OF f3(2) up half(1) [of q, folded lft_def], of rel ix] by blast
    then show ?thesis
    proof cases
      case 1
      then show ?thesis unfolding eq using 2(1) f3(1) by (simp add: ok_or_def split_errors_def write_left_def f2_def)
    next
      case (2 bs')
      note w4 = stored_write [OF perm f3(2) 2(2) half(1) [of q, folded lft_def] 2(3,4)]
      have run: "split_page page_size rel ix p c f = Ret (Inr (((pc_nodes c ! m)\<lparr>bn_page := q\<rparr>, lft), set_page p bs' f3))"
        unfolding eq using \<open>encode_page f1 page_size q rel ix rgt = Ret (Some (set_page q bs f1))\<close> f3(1) 2(1)
        by (simp add: ok_or_def write_left_def f2_def)
      have "spares used {} f f2" using q(5,6) w2(4) by (auto simp: spares_def)
      then have "spares used (insert p (fst ` set post)) f (set_page p bs' f3)"
        using f3(4) w4(4) by (auto simp: spares_def)
      then show ?thesis
        using run m w4(1-3) f3(3) w2(3) q(3-5) by (auto simp: lft_def rgt_def)
    qed
  qed
qed

end

subsection \<open>The writing loop\<close>

text \<open>The outcome: a tree of the same kind, with the same entries, stored whole.\<close>

definition settled :: "bool \<Rightarrow> (image \<Rightarrow> u32 \<Rightarrow> bool) \<Rightarrow> u16 \<Rightarrow> byte \<Rightarrow> u32 \<Rightarrow> row list \<Rightarrow> image \<Rightarrow> image \<Rightarrow> row list \<Rightarrow> bool" where
  "settled descending used rel ix i rows file file' rows' \<longleftrightarrow>
     tree_ok descending rows' \<and> stored used rel ix i (tree_root rows') file' {} (concat rows') \<and>
     leaf_entries rows' = leaf_entries rows \<and> spares used (insert i (set (tree_pages rows))) file file'"

lemma mid_facts:
  assumes "page_sorted descending leaf lo c" "1 \<le> m" "m < length (pc_nodes c)"
  shows "\<And>l. lo = Some l \<Longrightarrow> entry_less descending l (entry_of (pc_nodes c ! m))" "under descending (fence c) (entry_of (pc_nodes c ! m))"
proof -
  show "entry_less descending l (entry_of (pc_nodes c ! m))" if "lo = Some l" for l
    using sorted_entries_split(1) [OF assms, of 0] that by (simp add: page_sorted_def under_def)
  show "under descending (fence c) (entry_of (pc_nodes c ! m))"
    using sorted_entries_split(2) [OF assms, of 0] by (simp add: page_sorted_def)
qed

lemma entry_less_irrefl: "\<not> entry_less descending x x"
  by (simp add: entry_less_def keys.entry_less keys.entry_refl)

text \<open>The split row below its parent with the new pointer.\<close>

lemma stacked_split:
  assumes st: "stacked descending k ((pre @ (p, c) # post) # (pre' @ (pp, pc) # post') # up)"
    and m: "1 \<le> m" "m < length (pc_nodes c)" and q: "q \<noteq> 0"
    and distinct: "distinct (map fst (pre @ (p, c) # post))" and nodes: "pc_nodes pc = us @ x # vs" "bn_page x = p"
  defines "y \<equiv> (pc_nodes c ! m)\<lparr>bn_page := q\<rparr>"
  defines "pc' \<equiv> pc\<lparr>pc_nodes := list_insert (parent_position descending (bn_key y) (bn_recno y) (pc_nodes pc)) y (pc_nodes pc)\<rparr>"
  shows "pc' = pc\<lparr>pc_nodes := us @ x # y # vs\<rparr>"
    "stacked descending k (split_row pre p c post m q # (pre' @ (pp, pc') # post') # up)"
proof -
  let ?row = "pre @ (p, c) # post" and ?par = "pre' @ (pp, pc) # post'"
  have row: "row_linked (of_nat k) 0 ?row" "row_sorted descending (k = 0) None ?row" "pointers None ?par = places None ?row"
    and par: "row_linked (of_nat (Suc k)) 0 ?par" "row_sorted descending False None ?par"
      "case up of [] \<Rightarrow> length ?par = 1 | up # _ \<Rightarrow> pointers None up = places None ?par" "stacked descending (Suc (Suc k)) up"
    using st by simp_all
  have e: "entry_of y = entry_of (pc_nodes c ! m)" "bn_page y = q" by (simp_all add: y_def entry_of_def)
  have ps: "page_sorted descending (k = 0) (after_row None pre) c" using row(2) by (simp add: row_sorted_append)
  note mid = mid_facts [OF ps m, folded e(1)]
  have lo: "above descending (after_row None pre) (entry_of y)" "after_row None pre \<noteq> Some (entry_of y)"
    using mid(1) [of "entry_of y"] entry_less_irrefl [of descending "entry_of y"] mid(1) entry_less_leq
    by (auto simp: above_def split: option.splits)
  have pw: "parent_position descending (bn_key y) (bn_recno y) (pc_nodes pc) = length us + 1"
    "row_sorted descending False None (pre' @ (pp, pc\<lparr>pc_nodes := us @ x # y # vs\<rparr>) # post')"
    "pointers None (pre' @ (pp, pc\<lparr>pc_nodes := us @ x # y # vs\<rparr>) # post') =
      places None pre @ (p, after_row None pre) # (bn_page y, Some (entry_of y)) # places (fence c) post"
    by (rule parent_with_pointer [OF row(3) distinct nodes par(2,1) lo _ mid(2)]; rule mid(1); assumption)+
  show pc': "pc' = pc\<lparr>pc_nodes := us @ x # y # vs\<rparr>"
  proof -
    have "list_insert (parent_position descending (bn_key y) (bn_recno y) (pc_nodes pc)) y (pc_nodes pc) = us @ x # y # vs"
      by (subst pw(1)) (simp add: nodes(1) list_insert_def)
    then show ?thesis by (simp only: pc'_def)
  qed
  have "row_linked (of_nat k) 0 (split_row pre p c post m q)" by (rule split_row_linked [OF row(1) q])
  moreover have "row_sorted descending (k = 0) None (split_row pre p c post m q)" by (rule split_row_sorted [OF row(2) m])
  moreover have "pointers None (pre' @ (pp, pc') # post') = places None (split_row pre p c post m q)"
    unfolding pc' pw(3) split_row_places e by simp
  moreover have "row_linked (of_nat (Suc k)) 0 (pre' @ (pp, pc') # post')" unfolding pc' by (rule nodes_linked [OF par(1)])
  moreover have "row_sorted descending False None (pre' @ (pp, pc') # post')" using pw(2) unfolding pc' .
  moreover have "places None (pre' @ (pp, pc') # post') = places None ?par" by (simp add: places_append pc')
  ultimately show "stacked descending k (split_row pre p c post m q # (pre' @ (pp, pc') # post') # up)"
    using par(3,4) by (auto split: list.splits)
qed

lemma content_ok_insert: "content_ok pc \<Longrightarrow> node_ok (pc_level pc = 0) y \<Longrightarrow> content_ok (pc\<lparr>pc_nodes := list_insert j y (pc_nodes pc)\<rparr>)"
  by (auto simp: content_ok_def list_insert_def dest: in_set_takeD in_set_dropD)

lemma leaf_entries_replace:
  assumes "row_entries row' = row_entries row"
  shows "leaf_entries (rows @ row' # up') = leaf_entries (rows @ row # up)"
  using assms by (cases rows) (simp_all add: leaf_entries_row)

lemma tree_root_top: "tree_root (rows @ (pre @ (p, c') # post) # up) = tree_root (rows @ (pre @ (p, c) # post) # up)"
  by (cases up; cases pre) (simp_all add: tree_root_def)

text \<open>The new root above a split top row.\<close>

lemma new_root_ok:
  assumes st: "stacked descending k [[(p, c)]]" and k: "k < 255" and m: "1 \<le> m" "m < length (pc_nodes c)" and q: "q \<noteq> 0" and r: "r \<noteq> 0"
  defines "y \<equiv> (pc_nodes c ! m)\<lparr>bn_page := q\<rparr>"
  shows "stacked descending k [split_row [] p c [] m q, [(r, new_root_content (left_half c m q) p y)]]"
proof -
  have row: "row_linked (of_nat k) 0 [(p, c)]" "row_sorted descending (k = 0) None [(p, c)]" using st by simp_all
  have "row_linked (of_nat k) 0 (split_row [] p c [] m q)" using split_row_linked [of "of_nat k" 0 "[]" p c "[]" q] row(1) q by simp
  moreover have "row_sorted descending (k = 0) None (split_row [] p c [] m q)"
    using split_row_sorted [of descending "k = 0" None "[]" p c "[]" m q] row(2) m by simp
  moreover have "fence c = None" "pc_level c = of_nat k" using row(1) by (simp_all add: fence_def)
  moreover have "entry_of y = entry_of (pc_nodes c ! m)" by (simp add: y_def entry_of_def)
  moreover have "fence (new_root_content (left_half c m q) p y) = None" by (simp add: new_root_content_def fence_def)
  ultimately show ?thesis
    using r by (auto simp: new_root_content_def page_sorted_def ranked_def split_row_def relink_def above_def under_def y_def)
qed

text \<open>The pages of the rows, one of them first.\<close>

lemma rows_mset:
  "mset (concat (rows @ (pre @ (p, c) # post) # up)) = mset ((p, c) # post @ concat rows @ pre @ concat up)"
  by simp

lemma tree_pages_rows: "set (tree_pages rows) = fst ` set (concat rows)"
  by (simp add: tree_pages_def)

text \<open>A page that fits settles the insertion; a split that fails ends it.\<close>

lemma settle_fits:
  assumes "encode_page f ps p rel ix c = Ret (Some f')"
  shows "settle ps rel ix descending path p c f = Ret (Inr f')"
  unfolding settle.simps [of ps rel ix descending path p c f] using assms by simp

lemma settle_fails:
  assumes "encode_page f ps p rel ix c = Ret None" "split_page ps rel ix p c f = Ret (Inl e)"
  shows "settle ps rel ix descending path p c f = Ret (Inl e)"
  unfolding settle.simps [of ps rel ix descending path p c f] using assms by simp

subsection \<open>The leaf of an entry\<close>

text \<open>Between the fences of a leaf, its own nodes decide whether the tree holds the entry.\<close>

lemma entry_on_leaf:
  assumes rows: "row_sorted descending True None (pre @ (p, c) # post)"
    and fences: "\<forall>(p, c) \<in> set (butlast (pre @ (p, c) # post)). fence c \<noteq> None"
    and lies: "above descending (after_row None pre) x" "under descending (fence c) x"
  shows "x \<in> set (row_entries (pre @ (p, c) # post)) \<longleftrightarrow> x \<in> entry_of ` set (pc_nodes c)"
proof -
  have s: "row_sorted descending True None pre" "row_sorted descending True (fence c) post"
    using rows by (simp_all add: row_sorted_append)
  have "x \<notin> set (row_entries pre)"
  proof
    assume x: "x \<in> set (row_entries pre)"
    then obtain l where l: "after_row None pre = Some l"
      using fences by (cases pre rule: rev_exhaust) (auto simp: butlast_append after_row_def)
    have "\<forall>(p, c) \<in> set pre. fence c \<noteq> None" using fences by (auto simp: butlast_append)
    then have "entry_less descending x l" using stretch_below [OF s(1) _ l] x by blast
    moreover have "entry_leq descending l x" using lies(1) l by (simp add: above_def)
    ultimately show False by (simp add: entry_less_def keys.entry_less)
  qed
  moreover have "x \<notin> set (row_entries post)"
  proof
    assume x: "x \<in> set (row_entries post)"
    then have "post \<noteq> []" by auto
    then obtain h where h: "fence c = Some h" using fences by (auto simp: butlast_append)
    have "\<forall>(p, c) \<in> set (butlast post). fence c \<noteq> None" using fences \<open>post \<noteq> []\<close> by (auto simp: butlast_append)
    then have "entry_leq descending h x" using row_entries_above [OF s(2) h] x by blast
    moreover have "entry_less descending x h" using lies(2) h by (simp add: under_def)
    ultimately show False by (simp add: entry_less_def keys.entry_less)
  qed
  ultimately show ?thesis by (auto simp: row_entries_def)
qed

text \<open>The whole tree descended: the leaf and the pages above it.\<close>

lemma leaf_found:
  assumes tree: "tree_ok descending rows" and has: "file_has rel ix file rows" and dist: "distinct (map fst (concat rows))"
  obtains pre p c post up path where "rows = (pre @ (p, c) # post) # up"
    "find_leaf file ps descending key recno [] (tree_root rows) = Ret (Inr (path, p))" "route p path up"
    "above descending (after_row None pre) (key, recno)" "under descending (fence c) (key, recno)"
proof -
  have t: "rows \<noteq> []" "length rows \<le> 256" "stacked descending 0 rows" "length (last rows) = 1"
    using tree by (simp_all add: tree_ok_stacked) (use tree in \<open>simp add: tree_ok_def\<close>)
  then obtain r c where top: "last rows = [(r, c)]" by (cases "last rows") auto
  define below where "below = butlast rows"
  have rows: "rows = below @ ([] @ (r, c) # []) # []" unfolding below_def using t(1) top append_butlast_last_id [of rows] by simp
  have "stacked descending (0 + length below) [[(r, c)]]"
    using t(3) rows stacked_append [of descending 0 below "[[(r, c)]]"] by simp
  then have "fence c = None" by (simp add: fence_def)
  then have here: "above descending (after_row None []) (key, recno)" "under descending (fence c) (key, recno)"
    by (simp_all add: above_def under_def)
  have "\<forall>row \<in> set below. distinct (map fst row)"
    using dist unfolding rows by (auto simp: map_concat distinct_concat_iff)
  then obtain q cq preq postq path upq where
    q: "rows = (preq @ (q, cq) # postq) # upq" "find_leaf file ps descending key recno [] r = Ret (Inr (path, q))"
      "route q path upq" "above descending (after_row None preq) (key, recno)" "under descending (fence cq) (key, recno)"
    using find_leaf_ok [of descending below "[]" r c "[]" "[]" rel ix "file" key recno "[]" ps] t(2,3) has here rows by auto
  moreover have "tree_root rows = r" using top by (simp add: tree_root_def)
  ultimately show thesis using that by blast
qed

context allocator
begin

text \<open>The index root page set to another page number.\<close>

lemma stored_repoint:
  assumes "stored used rel ix i root f X pages" "sound f"
  obtains f' where "repoint_root rel ix n f = Ret (Inr f')" "stored used rel ix i n f' X pages" "sound f'" "room f' = room f"
    "spares used {i} f f'"
proof -
  have i: "root_at f rel ix i root" "used f i" using assms(1) by (simp_all add: stored_def)
  obtain page' where rp: "repoint_root rel ix n f = Ret (Inr (set_page i page' f))" "length page' = page_size"
    "root_at (set_page i page' f) rel ix i n"
    using repoint_root_ok [of page_size f rel ix i root n] sound_pages [OF assms(2)] i(1) by blast
  note set = set_used [OF assms(2) i(2) rp(2)]
  have "\<forall>(p, c) \<in> set pages. used f p \<and> p \<noteq> i \<and> content_ok c \<and> (p \<notin> X \<longrightarrow> file_holds rel ix f p c)"
    using assms(1) by (simp add: stored_def)
  then have "stored used rel ix i n (set_page i page' f) X pages"
    using assms(1) set rp(3) by (auto simp: stored_def file_holds_def page_set_page)
  moreover have "spares used {i} f (set_page i page' f)" using set by (auto simp: spares_def page_set_page)
  ultimately show thesis using that [of "set_page i page' f"] rp(1) set by simp
qed

text \<open>The new root taken, written and pointed to.\<close>

lemma grow_root:
  fixes msg :: string
  assumes "stored used rel ix i root f {} pages" "sound f" "0 < room f" "content_ok c"
  defines "run \<equiv> attempt (allocate_page page_size f) (\<lambda>(n, f2).
      attempt (ok_or msg (encode_page f2 page_size n rel ix c)) (\<lambda>f3. repoint_root rel ix n f3))"
  obtains "run = Ret (Inl (Msg msg))"
  | n f' where "run = Ret (Inr f')" "stored used rel ix i n f' {} ((n, c) # pages)" "n \<noteq> 0" "sound f'" "spares used {i} f f'"
proof -
  obtain n f2 where n: "allocate_page page_size f = Ret (Inr (n, f2))" "sound f2" "n \<noteq> 0" "\<not> used f n" "spares used {} f f2"
    "stored used rel ix i root f2 {n} ((n, c) # pages)"
    using stored_grow [OF assms(1-3)] assms(4) by (metis insert_is_Un sup_bot_right)
  have un: "used f2 n" using n(6) by (simp add: stored_def)
  consider "encode_page f2 page_size n rel ix c = Ret None"
    | bs where "encode_page f2 page_size n rel ix c = Ret (Some (set_page n bs f2))" "page_holds rel ix bs c"
      "length bs = page_size" "bs ! 0 = page_type_byte Index"
    using encode_in_use [OF n(2) un assms(4), of rel ix] by blast
  then show thesis
  proof cases
    case 1
    then show thesis using that(1) n(1) by (simp add: run_def ok_or_def)
  next
    case (2 bs)
    note w = stored_write [OF n(6,2) 2(2) assms(4) 2(3,4)]
    obtain f' where r: "repoint_root rel ix n (set_page n bs f2) = Ret (Inr f')"
      "stored used rel ix i n f' ({n} - {n}) ((n, c) # pages)" "sound f'" "spares used {i} (set_page n bs f2) f'"
      using stored_repoint [OF w(1,2)] by metis
    have "spares used {} f (set_page n bs f2)" by (rule spares_trans [OF n(5) w(4)]) (simp add: n(4))
    then have "spares used {i} f f'" using r(4) by (auto simp: spares_def)
    then show thesis using that(2) [of f' n] n(1,3) 2(1) r(1-3) by (simp add: run_def ok_or_def)
  qed
qed

text \<open>The page fits, or it is split.\<close>

lemma settle_here:
  assumes stack: "stacked descending 0 (rows @ (pre @ (p, c) # post) # up)"
    and st: "stored used rel ix i (tree_root (rows @ (pre @ (p, c) # post) # up)) f {p} (concat (rows @ (pre @ (p, c) # post) # up))"
    and ok: "sound f" "0 < room f" and len: "length rows + length up < 255"
  obtains f' where "encode_page f page_size p rel ix c = Ret (Some f')" "sound f'"
      "settled descending used rel ix i (rows @ (pre @ (p, c) # post) # up) f f' (rows @ (pre @ (p, c) # post) # up)"
  | e where "encode_page f page_size p rel ix c = Ret None" "split_page page_size rel ix p c f = Ret (Inl e)" "e \<in> split_errors"
  | m q f' where "encode_page f page_size p rel ix c = Ret None"
      "split_page page_size rel ix p c f = Ret (Inr (((pc_nodes c ! m)\<lparr>bn_page := q\<rparr>, left_half c m q), f'))"
      "1 \<le> m" "m < length (pc_nodes c)" "q \<noteq> 0" "\<not> used f q" "sound f'" "room f \<le> Suc (room f')" "spares used (insert p (fst ` set post)) f f'"
      "stored used rel ix i (tree_root (rows @ (pre @ (p, c) # post) # up)) f' {} (concat (rows @ split_row pre p c post m q # up))"
proof -
  let ?rows = "rows @ (pre @ (p, c) # post) # up"
  have flat: "stored used rel ix i (tree_root ?rows) f {p} ((p, c) # post @ concat rows @ pre @ concat up)"
    by (rule stored_permute [OF st rows_mset])
  have up: "used f p" "content_ok c" using flat by (simp_all add: stored_def)
  consider "encode_page f page_size p rel ix c = Ret None"
    | bs where "encode_page f page_size p rel ix c = Ret (Some (set_page p bs f))" "page_holds rel ix bs c"
      "length bs = page_size" "bs ! 0 = page_type_byte Index"
    using encode_in_use [OF ok(1) up, of rel ix] by blast
  then show thesis
  proof cases
    case (2 bs)
    note w = stored_write [OF flat ok(1) 2(2) up(2) 2(3,4)]
    have "stored used rel ix i (tree_root ?rows) (set_page p bs f) {} (concat ?rows)"
      using stored_permute [OF w(1)] rows_mset [of rows pre p c post up] by simp
    moreover have "tree_ok descending ?rows" using stack len by (simp add: tree_ok_stacked)
    moreover have "spares used (insert i (set (tree_pages ?rows))) f (set_page p bs f)"
      using w(4) by (auto simp: spares_def tree_pages_rows)
    ultimately show thesis using that(1) [OF 2(1) w(2)] by (simp add: settled_def)
  next
    case 1
    have "stacked descending (length rows) ((pre @ (p, c) # post) # up)" using stacked_append [OF stack] by simp
    then obtain left where row: "row_linked (of_nat (length rows)) left ((p, c) # post)"
      using row_linked_append [of "of_nat (length rows)" 0 pre p c post] by auto
    define m where "m = length (pc_nodes c) div 2"
    obtain r where r: "split_page page_size rel ix p c f = Ret r" "\<forall>e. r = Inl e \<longrightarrow> e \<in> split_errors"
      "\<forall>y left f'. r = Inr ((y, left), f') \<longrightarrow> 1 \<le> m \<and> m < length (pc_nodes c) \<and>
        (\<exists>q. left = left_half c m q \<and> y = (pc_nodes c ! m)\<lparr>bn_page := q\<rparr> \<and> q \<noteq> 0 \<and> \<not> used f q \<and>
        stored used rel ix i (tree_root ?rows) f' {} ((p, left_half c m q) # (q, right_half c m p) # relink q post @ concat rows @ pre @ concat up) \<and>
        sound f' \<and> room f \<le> Suc (room f') \<and> spares used (insert p (fst ` set post)) f f')"
      using split_page_ok [OF flat ok row] unfolding m_def [symmetric] by blast
    show thesis
    proof (cases r)
      case (Inl e)
      then show thesis using that(2) 1 r by blast
    next
      case (Inr x)
      obtain y left f' where x: "x = ((y, left), f')" by (cases x) auto
      obtain q where q: "left = left_half c m q" "y = (pc_nodes c ! m)\<lparr>bn_page := q\<rparr>" "q \<noteq> 0" "\<not> used f q" "sound f'" "room f \<le> Suc (room f')"
        "spares used (insert p (fst ` set post)) f f'" "1 \<le> m" "m < length (pc_nodes c)"
        "stored used rel ix i (tree_root ?rows) f' {} ((p, left_half c m q) # (q, right_half c m p) # relink q post @ concat rows @ pre @ concat up)"
        using r(3) Inr x by blast
      have "stored used rel ix i (tree_root ?rows) f' {} (concat (rows @ split_row pre p c post m q # up))"
        by (rule stored_permute [OF q(10)]) (simp add: split_row_def)
      then show thesis using that(3) [OF 1 _ q(8,9,3,4,5,6,7)] r(1) Inr x q(1,2) by simp
    qed
  qed
qed

text \<open>The root split: its two halves get a root above them.\<close>

lemma settle_root:
  assumes stack: "stacked descending 0 (rows @ [[(p, c)]])" and len: "length rows < 255"
    and m: "1 \<le> m" "m < length (pc_nodes c)" and q: "q \<noteq> 0" and cok: "content_ok c"
    and st: "stored used rel ix i root f {} (concat (rows @ [split_row [] p c [] m q]))" and f: "sound f" "0 < room f"
    and enc: "encode_page f0 page_size p rel ix c = Ret None"
    and split: "split_page page_size rel ix p c f0 = Ret (Inr (((pc_nodes c ! m)\<lparr>bn_page := q\<rparr>, left_half c m q), f))"
  obtains e where "settle page_size rel ix descending [] p c f0 = Ret (Inl e)" "e \<in> split_errors"
  | f' rows' where "settle page_size rel ix descending [] p c f0 = Ret (Inr f')" "tree_ok descending rows'"
      "stored used rel ix i (tree_root rows') f' {} (concat rows')" "leaf_entries rows' = leaf_entries (rows @ [[(p, c)]])"
      "sound f'" "spares used {i} f f'"
proof -
  let ?y = "(pc_nodes c ! m)\<lparr>bn_page := q\<rparr>" and ?row = "split_row [] p c [] m q"
  define d where "d = new_root_content (left_half c m q) p ?y"
  have row: "stacked descending (length rows) [[(p, c)]]" using stacked_append [OF stack] by simp
  have lev: "pc_level c = of_nat (length rows)" using row by simp
  have lev255: "pc_level c \<noteq> 255"
  proof
    assume "pc_level c = 255"
    then have "unat (of_nat (length rows) :: byte) = 255" using lev by simp
    then show False using len by (simp add: unat_of_nat)
  qed
  have "node_ok False ?y" using halves_ok(3) [OF cok m(2)] by (simp add: node_ok_def)
  moreover have "pc_level c + 1 \<noteq> 0" using lev level_zero [of "Suc (length rows)"] len by (simp add: add.commute)
  ultimately have dok: "content_ok d" by (simp add: d_def content_ok_def new_root_content_def term_ok_def node_ok_def)
  have run: "settle page_size rel ix descending [] p c f0 =
      attempt (allocate_page page_size f) (\<lambda>(n, f2).
        attempt (ok_or ''new root does not fit'' (encode_page f2 page_size n rel ix d)) (\<lambda>f3. repoint_root rel ix n f3))"
    using enc split lev255 unfolding settle.simps [of page_size rel ix descending "[]" p c f0] by (simp add: d_def)
  show thesis
  proof (rule grow_root [OF st f dok, where msg = "''new root does not fit''", folded run])
    assume "settle page_size rel ix descending [] p c f0 = Ret (Inl (Msg ''new root does not fit''))"
    then show thesis by (rule that(1)) (simp add: split_errors_def)
  next
    fix n f' assume res: "settle page_size rel ix descending [] p c f0 = Ret (Inr f')"
      and st': "stored used rel ix i n f' {} ((n, d) # concat (rows @ [?row]))" and n: "n \<noteq> 0" "sound f'" "spares used {i} f f'"
    let ?rows' = "rows @ [?row, [(n, d)]]"
    have "stacked descending (length rows) [?row, [(n, d)]]" using new_root_ok [OF row _ m q n(1)] len unfolding d_def by simp
    moreover have "pointers None ?row = pointers None [(p, c)]" using split_row_pointers [OF m, of None "[]" p "[]" q] by simp
    ultimately have "stacked descending 0 ?rows'"
      using stacked_replace [of descending 0 rows "[(p, c)]" "[]" ?row "[[(n, d)]]"] stack by simp
    then have tree: "tree_ok descending ?rows'" using len by (simp add: tree_ok_stacked)
    have "tree_root ?rows' = n" by (simp add: tree_root_def)
    then have "stored used rel ix i (tree_root ?rows') f' {} (concat ?rows')"
      using stored_permute [OF st', of "concat ?rows'"] by simp
    moreover have "leaf_entries ?rows' = leaf_entries (rows @ [[(p, c)]])"
      using leaf_entries_replace [of ?row "[(p, c)]" rows "[[(n, d)]]"] split_row_entries [of "[]" p c "[]" m q]
      by (cases rows) (simp_all add: leaf_entries_row)
    ultimately show thesis using that(2) [OF res tree] n(2,3) by blast
  qed
qed

lemma settle_ok:
  assumes "stacked descending 0 (rows @ (pre @ (p, c) # post) # up)"
    and "stored used rel ix i (tree_root (rows @ (pre @ (p, c) # post) # up)) f {p} (concat (rows @ (pre @ (p, c) # post) # up))"
    and "sound f" "length up + 2 \<le> room f" "length rows + length up < 255" "route p path up"
  shows "\<exists>r. settle page_size rel ix descending path p c f = Ret r \<and> (\<forall>e. r = Inl e \<longrightarrow> e \<in> split_errors) \<and>
    (\<forall>f'. r = Inr f' \<longrightarrow> sound f' \<and> (\<exists>rows'. settled descending used rel ix i (rows @ (pre @ (p, c) # post) # up) f f' rows'))"
  using assms
proof (induction path arbitrary: rows pre p c post up f)
  case (Nil rows pre p c post up f)
  let ?rows = "rows @ (pre @ (p, c) # post) # up"
  have up: "up = []" using Nil(6) by simp
  have "stacked descending (length rows) [pre @ (p, c) # post]" using stacked_append [OF Nil(1)] unfolding up by (simp only: add_0)
  then have row: "pre = []" "post = []" by auto
  have room: "0 < room f" using Nil(4) by simp
  show ?case
  proof (rule settle_here [OF Nil(1-3) room Nil(5)])
    fix m q f1
    assume enc: "encode_page f page_size p rel ix c = Ret None"
      and split: "split_page page_size rel ix p c f = Ret (Inr (((pc_nodes c ! m)\<lparr>bn_page := q\<rparr>, left_half c m q), f1))"
      and m: "1 \<le> m" "m < length (pc_nodes c)" and q: "q \<noteq> 0" "\<not> used f q" and f1: "sound f1" "room f \<le> Suc (room f1)"
      and sp: "spares used (insert p (fst ` set post)) f f1"
      and st: "stored used rel ix i (tree_root ?rows) f1 {} (concat (rows @ split_row pre p c post m q # up))"
    have cok: "content_ok c" using Nil(2) by (simp add: stored_def)
    show ?thesis
    proof (rule settle_root [where rows = rows and rel = rel and ix = ix and descending = descending and p = p and c = c
        and m = m and q = q and f = f1 and ?f0.0 = f and i = i and root = "tree_root ?rows"])
      fix f' rows' assume res: "settle page_size rel ix descending [] p c f = Ret (Inr f')" and tree: "tree_ok descending rows'"
        and st': "stored used rel ix i (tree_root rows') f' {} (concat rows')"
        and ents: "leaf_entries rows' = leaf_entries (rows @ [[(p, c)]])" and f': "sound f'" "spares used {i} f1 f'"
      have "spares used (insert i (set (tree_pages ?rows))) f f'"
      proof (rule spares_trans [OF _ f'(2)])
        show "spares used (insert i (set (tree_pages ?rows))) f f1" using sp row by (auto simp: spares_def tree_pages_rows)
      qed simp
      then show ?thesis using res tree st' ents f'(1) up row by (auto simp: settled_def)
    qed (use Nil row up m q f1 st enc split cok in auto)
  next
    fix f' assume "encode_page f page_size p rel ix c = Ret (Some f')" "sound f'"
      "settled descending used rel ix i ?rows f f' ?rows"
    then show ?thesis using settle_fits [of f page_size p rel ix c f' descending "[]"] by auto
  next
    fix e assume "encode_page f page_size p rel ix c = Ret None" "split_page page_size rel ix p c f = Ret (Inl e)" "e \<in> split_errors"
    then show ?thesis using settle_fails [of f page_size p rel ix c e descending "[]"] by auto
  qed
next
  case (Cons pp path rows pre p c post up f)
  let ?row = "pre @ (p, c) # post" and ?rows = "rows @ (pre @ (p, c) # post) # up"
  obtain par up' where up: "up = par # up'" using Cons.prems(6) by (cases up) auto
  obtain pc x where x: "(pp, pc) \<in> set par" "x \<in> set (pc_nodes pc)" "bn_page x = p" and route: "route pp path up'"
    using Cons.prems(6) up by auto
  obtain pre' post' where par: "par = pre' @ (pp, pc) # post'" using split_list [OF x(1)] by blast
  obtain us vs where nodes: "pc_nodes pc = us @ x # vs" using split_list [OF x(2)] by blast
  have room: "0 < room f" using Cons.prems(4) by simp
  show ?case
  proof (rule settle_here [OF Cons.prems(1-3) room Cons.prems(5)])
    fix m q f1
    assume enc: "encode_page f page_size p rel ix c = Ret None"
      and split: "split_page page_size rel ix p c f = Ret (Inr (((pc_nodes c ! m)\<lparr>bn_page := q\<rparr>, left_half c m q), f1))"
      and m: "1 \<le> m" "m < length (pc_nodes c)" and q: "q \<noteq> 0" "\<not> used f q" and f1: "sound f1" "room f \<le> Suc (room f1)"
      and sp: "spares used (insert p (fst ` set post)) f f1"
      and st: "stored used rel ix i (tree_root ?rows) f1 {} (concat (rows @ split_row pre p c post m q # up))"
    let ?y = "(pc_nodes c ! m)\<lparr>bn_page := q\<rparr>" and ?row' = "split_row pre p c post m q"
    define pc' where "pc' = pc\<lparr>pc_nodes := list_insert (parent_position descending (bn_key ?y) (bn_recno ?y) (pc_nodes pc)) ?y (pc_nodes pc)\<rparr>"
    let ?par' = "pre' @ (pp, pc') # post'"
    let ?rows' = "(rows @ [?row']) @ ?par' # up'"
    have stack: "stacked descending (length rows) (?row # par # up')" using stacked_append [OF Cons.prems(1)] up by simp
    have dist: "distinct (map fst ?row)" using Cons.prems(2) by (auto simp: stored_def)
    note ss = stacked_split [OF stack [unfolded par] m q(1) dist nodes x(3), folded pc'_def]
    have stack': "stacked descending 0 ?rows'"
      using stacked_replace [of descending 0 rows ?row up ?row' "?par' # up'"] Cons.prems(1) ss(2) split_row_pointers [OF m]
      by simp
    have plev: "pc_level pc \<noteq> 0"
    proof -
      have "pc_level pc = of_nat (Suc (length rows))"
        using stack row_linked_level [of "of_nat (Suc (length rows))" 0 par pp pc] x(1) by simp
      then show ?thesis using level_zero [of "Suc (length rows)"] Cons.prems(5) by simp
    qed
    have flat: "stored used rel ix i (tree_root ?rows) f1 {} ((pp, pc) # concat rows @ ?row' @ pre' @ post' @ concat up')"
      by (rule stored_permute [OF st]) (simp add: up par)
    have load: "load_content bad und f1 page_size pp = Ret (Inr pc)" for bad und
      using flat by (intro load_content_holds) (auto simp: stored_def)
    have cok: "content_ok c" using Cons.prems(2) by (auto simp: stored_def)
    have "node_ok False ?y" using halves_ok(3) [OF cok m(2)] by (simp add: node_ok_def)
    then have "content_ok pc'" using flat plev unfolding pc'_def by (intro content_ok_insert) (simp_all add: stored_def)
    then have "stored used rel ix i (tree_root ?rows) f1 {pp} ((pp, pc') # concat rows @ ?row' @ pre' @ post' @ concat up')"
      using stored_change [OF flat, of pc' "{pp}"] by simp
    then have st': "stored used rel ix i (tree_root ?rows) f1 {pp} (concat ?rows')"
      by (rule stored_permute) simp
    have root: "tree_root ?rows = tree_root ?rows'"
      using tree_root_top [of "rows @ [?row]" pre' pp pc' post' up' pc]
      by (simp add: up par tree_root_def)
    have IH: "\<exists>r. settle page_size rel ix descending path pp pc' f1 = Ret r \<and> (\<forall>e. r = Inl e \<longrightarrow> e \<in> split_errors) \<and>
        (\<forall>f'. r = Inr f' \<longrightarrow> sound f' \<and> (\<exists>rows''. settled descending used rel ix i ?rows' f1 f' rows''))"
      using Cons.IH [OF stack' st' [unfolded root] f1(1) _ _ route] Cons.prems(4,5) f1(2) up by simp
    have run: "settle page_size rel ix descending (pp # path) p c f = settle page_size rel ix descending path pp pc' f1"
      using enc split load by (subst settle.simps) (simp add: pc'_def)
    have ents: "leaf_entries ?rows' = leaf_entries ?rows"
      using leaf_entries_replace [of ?row' ?row rows "?par' # up'"] split_row_entries [of pre p c post m q]
      by (cases rows) (simp_all add: leaf_entries_row)
    have "settled descending used rel ix i ?rows f f' rows''" if "settled descending used rel ix i ?rows' f1 f' rows''" for f' rows''
    proof -
      have "spares used (insert i (set (tree_pages ?rows))) f f'"
      proof (rule spares_trans)
        show "spares used (insert i (set (tree_pages ?rows))) f f1" using sp by (auto simp: spares_def tree_pages_rows)
        show "spares used (insert i (set (tree_pages ?rows'))) f1 f'" using that by (simp add: settled_def)
        show "k \<in> insert i (set (tree_pages ?rows'))  \<Longrightarrow> used f k \<Longrightarrow> k \<in> insert i (set (tree_pages ?rows))" for k
          using q(2) by (auto simp: tree_pages_rows up par split_row_def relink_def image_Un split: list.splits)
      qed
      then show ?thesis using that ents by (simp add: settled_def)
    qed
    then show ?thesis unfolding run using IH by blast
  next
    fix f' assume "encode_page f page_size p rel ix c = Ret (Some f')" "sound f'"
      "settled descending used rel ix i ?rows f f' ?rows"
    then show ?thesis using settle_fits [of f page_size p rel ix c f' descending "pp # path"] by auto
  next
    fix e assume "encode_page f page_size p rel ix c = Ret None" "split_page page_size rel ix p c f = Ret (Inl e)" "e \<in> split_errors"
    then show ?thesis using settle_fails [of f page_size p rel ix c e descending "pp # path"] by auto
  qed
qed

end

end
