(* ===== verification/Bt_Properties.thy ===== *)
theory Bt_Properties
  imports Bt_Insert
begin

text \<open>
  The insert of an entry as a whole: the root looked up on the index root page, the leaf found, the
  entry refused, found again or put into its place, and the tree settled, under the page inventory of
  the data store. With it the trees of the witnesses, built page by page with the writer's own
  encoder.
\<close>

subsection \<open>The unique check answers\<close>

lemma conflict_in_answers:
  assumes "\<forall>r. \<exists>b. recno_is_live file ps rel r = Ret b"
  shows "\<exists>b. conflict_in still_keys file ps rel key recno ns = Ret b"
proof (induction ns)
  case (Cons n ns)
  obtain b where "recno_is_live file ps rel (bn_recno n) = Ret b" using assms by blast
  then show ?case using Cons.IH by (cases "bn_key n = key \<and> bn_recno n \<noteq> recno"; cases "b \<and> still_keys file (bn_recno n)") auto
qed auto

text \<open>The insert once its leaf is known.\<close>

lemma insert_at_leaf:
  assumes "index_root_for file ps rel ix = Ret (Inr root)"
    and "find_leaf file ps descending key recno [] root = Ret (Inr (path, p))"
    and "\<And>bad und. load_content bad und file ps p = Ret (Inr c)"
    and "(if unique \<and> key \<noteq> [] then conflict_in still_keys file ps rel key recno (pc_nodes c) else Ret False) = Ret b"
  shows "insert_index_entry_checked still_keys ps rel ix key recno unique descending file =
    (if (key, recno) \<in> entry_of ` set (pc_nodes c) then Ret (Inr file)
     else if b then Ret (Inl (Msg ''duplicate key in unique index''))
     else settle ps rel ix descending path p
       (c\<lparr>pc_nodes := list_insert (leaf_position descending key recno (pc_nodes c)) \<lparr>bn_key = key, bn_recno = recno, bn_page = 0\<rparr> (pc_nodes c)\<rparr>) file)"
proof -
  have "list_ex (\<lambda>n. bn_key n = key \<and> bn_recno n = recno) (pc_nodes c) \<longleftrightarrow> (key, recno) \<in> entry_of ` set (pc_nodes c)"
    by (auto simp: list_ex_iff entry_of_def image_iff)
  then show ?thesis using assms by (simp add: insert_index_entry_checked_def cong: if_cong)
qed

lemma stacked_leaf:
  assumes "stacked descending 0 ((pre @ (p, c) # post) # up)"
    and "page_sorted descending True (after_row None pre) (c\<lparr>pc_nodes := ns\<rparr>)"
  shows "stacked descending 0 ((pre @ (p, c\<lparr>pc_nodes := ns\<rparr>) # post) # up)"
proof -
  have "row_linked 0 0 (pre @ (p, c\<lparr>pc_nodes := ns\<rparr>) # post)" by (rule nodes_linked) (use assms(1) in simp)
  moreover have "row_sorted descending True None (pre @ (p, c\<lparr>pc_nodes := ns\<rparr>) # post)"
    using assms by (simp add: row_sorted_append)
  moreover have "places None (pre @ (p, c\<lparr>pc_nodes := ns\<rparr>) # post) = places None (pre @ (p, c) # post)"
    by (simp add: places_append)
  ultimately show ?thesis using assms(1) by (auto split: list.splits)
qed

lemma root_for_found:
  assumes "index_root_no file ps rel ix = Ret (Some root)" "root \<noteq> 0"
  shows "index_root_for file ps rel ix = Ret (Inr root)"
proof -
  obtain irt e where "find_index_root file ps rel = Ret (Some irt)" "irt_entry irt ix = Ret (Some e)" "ie_root_page e = root"
    using assms(1) by (auto simp: index_root_no_def or_none_def Option.bind_eq_Some_conv split: option.splits)
  then show ?thesis using assms(2) by (simp add: index_root_for_def ok_or_def)
qed

context allocator
begin

lemma insert_settles:
  fixes still_keys :: "image \<Rightarrow> u64 \<Rightarrow> bool"
  assumes tree: "tree_ok descending rows" "length rows < 256"
    and st: "stored used rel ix i (tree_root rows) f {} (concat rows)" and f: "sound f" "length rows < room f"
    and entry: "length key < 2 ^ 14" "unat recno < 2 ^ 40" "told_apart descending key (fst ` set (leaf_entries rows))"
    and live: "unique \<Longrightarrow> \<forall>r. \<exists>b. recno_is_live f page_size rel r = Ret b"
  defines "run \<equiv> insert_index_entry_checked still_keys page_size rel ix key recno unique descending f"
  obtains "(key, recno) \<in> set (leaf_entries rows)" "run = Ret (Inr f)"
  | e where "(key, recno) \<notin> set (leaf_entries rows)" "run = Ret (Inl e)"
      "e = Msg ''duplicate key in unique index'' \<and> unique \<or> e \<in> split_errors"
  | f' rows' where "(key, recno) \<notin> set (leaf_entries rows)" "run = Ret (Inr f')" "sound f'" "tree_ok descending rows'"
      "stored used rel ix i (tree_root rows') f' {} (concat rows')"
      "mset (leaf_entries rows') = add_mset (key, recno) (mset (leaf_entries rows))"
      "spares used (insert i (set (tree_pages rows))) f f'"
proof -
  have has: "file_has rel ix f rows" and dist: "distinct (map fst (concat rows))" and root: "root_at f rel ix i (tree_root rows)"
    using st by (auto simp: stored_def file_has_def)
  obtain pre p c post up path where leaf: "rows = (pre @ (p, c) # post) # up"
    "find_leaf f page_size descending key recno [] (tree_root rows) = Ret (Inr (path, p))" "route p path up"
    "above descending (after_row None pre) (key, recno)" "under descending (fence c) (key, recno)"
    using leaf_found [OF tree(1) has dist] by blast
  have load: "load_content bad und f page_size p = Ret (Inr c)" for bad und
    by (rule load_row_page [OF has, of pre p c post]) (simp add: leaf(1))
  have r0: "tree_root rows \<noteq> 0"
    using tree_rowD(1) [OF tree(1), of "length rows - 1"] tree(1)
    by (cases "last rows") (auto simp: tree_ok_def tree_root_def last_conv_nth split: if_splits)
  have rf: "index_root_for f page_size rel ix = Ret (Inr (tree_root rows))"
    using root_for_found root_at_found(1) [OF _ _ _ root] sound_pages [OF f(1)] r0 by blast
  obtain b where b: "(if unique \<and> key \<noteq> [] then conflict_in still_keys f page_size rel key recno (pc_nodes c) else Ret False) = Ret b"
    "b \<Longrightarrow> unique"
    using conflict_in_answers live by (cases "unique \<and> key \<noteq> []") (auto, metis)
  define c' where "c' = c\<lparr>pc_nodes := list_insert (leaf_position descending key recno (pc_nodes c)) \<lparr>bn_key = key, bn_recno = recno, bn_page = 0\<rparr> (pc_nodes c)\<rparr>"
  have run: "run = (if (key, recno) \<in> entry_of ` set (pc_nodes c) then Ret (Inr f)
     else if b then Ret (Inl (Msg ''duplicate key in unique index'')) else settle page_size rel ix descending path p c' f)"
    unfolding run_def c'_def by (rule insert_at_leaf [OF rf leaf(2) load b(1)])
  note row = leaf_row_fences [OF tree(1), unfolded leaf(1) list.sel]
  have mem: "(key, recno) \<in> set (leaf_entries rows) \<longleftrightarrow> (key, recno) \<in> entry_of ` set (pc_nodes c)"
    using entry_on_leaf [OF row(2,3) leaf(4,5)] by (simp add: leaf(1) leaf_entries_row)
  show thesis
  proof (cases "(key, recno) \<in> entry_of ` set (pc_nodes c) \<or> b")
    case True
    then show thesis using that(1,2) run mem b(2) by (cases "(key, recno) \<in> entry_of ` set (pc_nodes c)") auto
  next
    case False
    let ?rows' = "(pre @ (p, c') # post) # up"
    have page: "page_sorted descending True (after_row None pre) c" using row(2) by (simp add: row_sorted_append)
    have "told_apart descending key (bn_key ` set (pc_nodes c))"
      using entry(3) by (force simp: told_apart_def leaf(1) leaf_entries_row row_entries_def entry_of_def image_iff)
    moreover have fresh: "\<forall>n \<in> set (pc_nodes c). entry_of n \<noteq> (key, recno)" using False by (metis imageI)
    ultimately have l: "page_sorted descending True (after_row None pre) c'" "fence c' = fence c"
      "mset (map entry_of (pc_nodes c')) = add_mset (key, recno) (mset (map entry_of (pc_nodes c)))"
      using leaf_with_entry [OF page leaf(4,5)] unfolding c'_def by blast+
    have lev: "pc_level c = 0" using row_linked_level [OF row(1), of p c] by simp
    have stack: "stacked descending 0 ((pre @ (p, c) # post) # up)" using tree(1) by (simp add: tree_ok_stacked leaf(1))
    have "stacked descending 0 ?rows'"
      using stacked_leaf [OF stack] l(1,2) unfolding c'_def by blast
    then have tree': "tree_ok descending ?rows'" using tree(2) by (simp add: tree_ok_stacked leaf(1))
    have root': "tree_root rows = tree_root ?rows'" using tree_root_top [of "[]" pre p c' post up c] by (simp add: leaf(1))
    have flat: "stored used rel ix i (tree_root rows) f {} ((p, c) # post @ pre @ concat up)"
      by (rule stored_permute [OF st]) (simp add: leaf(1))
    have "content_ok c'" unfolding c'_def
      using flat lev entry(1,2) by (intro content_ok_insert) (simp_all add: stored_def node_ok_def)
    then have "stored used rel ix i (tree_root rows) f {p} ((p, c') # post @ pre @ concat up)"
      using stored_change [OF flat, of c' "{p}"] by simp
    then have st': "stored used rel ix i (tree_root rows) f {p} (concat ?rows')" by (rule stored_permute) simp
    have "\<exists>r. settle page_size rel ix descending path p c' f = Ret r \<and> (\<forall>e. r = Inl e \<longrightarrow> e \<in> split_errors) \<and>
      (\<forall>f'. r = Inr f' \<longrightarrow> sound f' \<and> (\<exists>rows'. settled descending used rel ix i ?rows' f f' rows'))"
      using settle_ok [of descending "[]" pre p c' post up rel ix i f path] \<open>stacked descending 0 ?rows'\<close> st' root' f leaf(3) tree(2)
      by (simp add: leaf(1))
    then obtain r where r: "settle page_size rel ix descending path p c' f = Ret r" "\<forall>e. r = Inl e \<longrightarrow> e \<in> split_errors"
      "\<forall>f'. r = Inr f' \<longrightarrow> sound f' \<and> (\<exists>rows'. settled descending used rel ix i ?rows' f f' rows')" by blast
    have ents: "mset (leaf_entries ?rows') = add_mset (key, recno) (mset (leaf_entries rows))"
      using l(3) by (simp add: leaf(1) leaf_entries_row row_entries_def)
    have pages: "set (tree_pages ?rows') = set (tree_pages rows)" by (simp add: tree_pages_rows leaf(1) image_Un)
    show thesis
    proof (cases r)
      case (Inl e)
      then show thesis using that(2) [of e] run r False mem by simp
    next
      case (Inr f')
      then obtain rows' where s: "sound f'" "settled descending used rel ix i ?rows' f f' rows'" using r(3) by blast
      show thesis
        by (rule that(3) [of f' rows']) (use run r(1) Inr False mem s ents pages in \<open>simp_all add: settled_def\<close>)
    qed
  qed
qed

end

subsection \<open>The insert on the data store\<close>

lemma stored_reads:
  assumes "store_sound ps k file" "stored used rel ix i root file {} pages"
  shows "index_root_no file ps rel ix = Ret (Some root)"
  using root_at_found(1) [of ps "file" rel ix i root] inventory.sound_pages [OF assms(1)] assms(2) by (simp add: stored_def)

text \<open>C32: The insert of an entry into a stored index tree never aborts while more pages can be had than the
  tree has levels: pages that an inventory page marks free, or pages beyond the inventory pages made
  so far, which allocation makes as it needs them. An entry the tree holds already leaves the
  file alone; an insert that errs errs as a unique index does on a duplicate or because a page cannot
  be split in the middle; and one that succeeds, whatever pages it splits and whether or not it grows
  a new root, leaves a tree that is linked, ordered and fed as before, holds exactly that entry more,
  is the one the index root page names, and has changed no page in use outside the tree but the
  index root page.\<close>

theorem index_insert_keeps_tree:
  assumes "tree_ok descending rows" "length rows < 256"
    and "stored (in_use ps k) rel ix i (tree_root rows) file {} (concat rows)"
    and "store_sound ps k file" "length rows < pages_left ps k file"
    and "length key < 2 ^ 14" "unat recno < 2 ^ 40" "told_apart descending key (fst ` set (leaf_entries rows))"
    and "unique \<Longrightarrow> \<forall>r. \<exists>b. recno_is_live file ps rel r = Ret b"
  shows "\<exists>r. insert_index_entry_checked still_keys ps rel ix key recno unique descending file = Ret r \<and>
    (\<forall>e. r = Inl e \<longrightarrow> unique \<and> e = Msg ''duplicate key in unique index'' \<or> e \<in> split_errors) \<and>
    (\<forall>file'. r = Inr file' \<longrightarrow>
      (if (key, recno) \<in> set (leaf_entries rows) then file' = file
       else store_sound ps k file' \<and> (\<exists>rows'. tree_ok descending rows' \<and>
         stored (in_use ps k) rel ix i (tree_root rows') file' {} (concat rows') \<and>
         mset (leaf_entries rows') = add_mset (key, recno) (mset (leaf_entries rows)) \<and>
         spares (in_use ps k) (insert i (set (tree_pages rows))) file file')))"
  by (rule inventory.insert_settles [OF assms, where still_keys = still_keys]) auto

text \<open>C33: Reader and writer agree, under the same conditions on the file: when an entry not yet in the tree is inserted with success, the walk over the index
  answers afterwards every entry it answered before and the new one, in the order of the index.\<close>

theorem walk_after_insert:
  assumes "tree_ok descending rows" "length rows < 256"
    and "stored (in_use ps k) rel ix i (tree_root rows) file {} (concat rows)"
    and "store_sound ps k file" "length rows < pages_left ps k file"
    and "length key < 2 ^ 14" "unat recno < 2 ^ 40" "told_apart descending key (fst ` set (leaf_entries rows))"
    and "unique \<Longrightarrow> \<forall>r. \<exists>b. recno_is_live file ps rel r = Ret b"
    and "insert_index_entry_checked still_keys ps rel ix key recno unique descending file = Ret (Inr file')"
    and "(key, recno) \<notin> set (leaf_entries rows)"
  shows "\<exists>es es'. walk_index_leaves file ps rel ix = Ret (Some es) \<and> walk_index_leaves file' ps rel ix = Ret (Some es') \<and>
    mset es' = add_mset (key, recno) (mset es) \<and> sorted_wrt (entry_less descending) es'"
proof (rule inventory.insert_settles [OF assms(1-9), where still_keys = still_keys])
  fix f rows' assume r: "insert_index_entry_checked still_keys ps rel ix key recno unique descending file = Ret (Inr f)"
    and sound: "store_sound ps k f" and tree: "tree_ok descending rows'"
    and st: "stored (in_use ps k) rel ix i (tree_root rows') f {} (concat rows')"
    and ents: "mset (leaf_entries rows') = add_mset (key, recno) (mset (leaf_entries rows))"
  have f: "f = file'" using r assms(10) by simp
  have has: "file_has rel ix file rows" "file_has rel ix file' rows'"
    using assms(3) st f by (auto simp: stored_def file_has_def)
  show ?thesis
    using walk_leaf_entries [OF assms(1) has(1) stored_reads [OF assms(4,3)]]
      walk_leaf_entries [OF tree has(2) stored_reads [OF sound [unfolded f] st [unfolded f]]]
      leaf_entries_sorted [OF tree] ents by blast
qed (use assms in simp_all)

subsection \<open>A tree of two levels\<close>

text \<open>A root and two leaves over three entries, on pages of 128 bytes: the inventory page, the index root
  page of relation 200 and the pages the writer makes of the three contents.\<close>

definition tree_demo_leaf1 :: page_content where
  "tree_demo_leaf1 = \<lparr>pc_level = 0, pc_sibling = 6, pc_left = 0, pc_nodes = [\<lparr>bn_key = [7], bn_recno = 1, bn_page = 0\<rparr>],
     pc_term = BucketEnd \<lparr>bn_key = [8, 2], bn_recno = 2, bn_page = 0\<rparr>\<rparr>"

definition tree_demo_leaf2 :: page_content where
  "tree_demo_leaf2 = \<lparr>pc_level = 0, pc_sibling = 0, pc_left = 5,
     pc_nodes = [\<lparr>bn_key = [8, 2], bn_recno = 2, bn_page = 0\<rparr>, \<lparr>bn_key = [8, 2], bn_recno = 9, bn_page = 0\<rparr>], pc_term = LevelEnd\<rparr>"

definition tree_demo_root :: page_content where
  "tree_demo_root = \<lparr>pc_level = 1, pc_sibling = 0, pc_left = 0,
     pc_nodes = [\<lparr>bn_key = [], bn_recno = 0, bn_page = 5\<rparr>, \<lparr>bn_key = [8, 2], bn_recno = 2, bn_page = 6\<rparr>], pc_term = LevelEnd\<rparr>"

definition tree_demo_rows :: "row list" where
  "tree_demo_rows = [[(5, tree_demo_leaf1), (6, tree_demo_leaf2)], [(4, tree_demo_root)]]"

definition tree_demo_pip :: "byte list" where
  "tree_demo_pip = [2] @ replicate 30 0 @ [0xFE] @ replicate 95 0 @ [0x80]"

definition tree_demo_irt :: "byte list" where
  "tree_demo_irt = [6] @ replicate 15 0 @ [200, 0, 1, 0] @ replicate 12 0 @ [4, 0, 0, 0] @ replicate 92 0"

definition tree_demo_pages :: "byte list list" where
  "tree_demo_pages = [replicate 128 0, tree_demo_pip, replicate 128 0, tree_demo_irt, page_bytes 4 200 0 tree_demo_root 128,
     page_bytes 5 200 0 tree_demo_leaf1 128, page_bytes 6 200 0 tree_demo_leaf2 128]"

definition tree_demo_tree_file :: image where
  "tree_demo_tree_file = \<lparr>img_pages = tree_demo_pages, img_page_size = 128, ddl_tx = None, img_residue = [], img_deferred = []\<rparr>"

lemma tree_demo_contents: "content_ok tree_demo_root" "content_ok tree_demo_leaf1" "content_ok tree_demo_leaf2"
  by (simp_all add: content_ok_def tree_demo_root_def tree_demo_leaf1_def tree_demo_leaf2_def node_ok_def term_ok_def)

lemma tree_demo_fit:
  "BTR_NODES_OFFSET + length (fst (page_body tree_demo_root)) \<le> 128" "BTR_NODES_OFFSET + length (fst (page_body tree_demo_leaf1)) \<le> 128"
  "BTR_NODES_OFFSET + length (fst (page_body tree_demo_leaf2)) \<le> 128"
  using body_length [OF tree_demo_contents(1)] body_length [OF tree_demo_contents(2)] body_length [OF tree_demo_contents(3)]
  by (simp_all add: tree_demo_root_def tree_demo_leaf1_def tree_demo_leaf2_def BTR_NODES_OFFSET_def node_room_def)

lemma tree_page_of: "img_page tree_demo_tree_file n = (if unat n < 7 then Some (tree_demo_pages ! unat n) else None)"
  by (simp add: img_page_def tree_demo_tree_file_def tree_demo_pages_def)

lemma tree_demo_tree: "tree_ok False tree_demo_rows" "tree_root tree_demo_rows = 4" "leaf_entries tree_demo_rows = [([7], 1), ([8, 2], 2), ([8, 2], 9)]"
proof -
  show "tree_root tree_demo_rows = 4" "leaf_entries tree_demo_rows = [([7], 1), ([8, 2], 2), ([8, 2], 9)]"
    by (simp_all add: tree_demo_rows_def tree_root_def leaf_entries_def tree_demo_leaf1_def tree_demo_leaf2_def entry_of_def)
  have "stacked False 0 tree_demo_rows"
    by (simp add: tree_demo_rows_def tree_demo_leaf1_def tree_demo_leaf2_def tree_demo_root_def fence_def entry_of_def page_sorted_def ranked_def
        above_def under_def entry_less_def entry_cmp_def entry_le_def kcmp_def word_cmp_def and_then_def)
  then show "tree_ok False tree_demo_rows" by (simp add: tree_ok_stacked tree_demo_rows_def)
qed

lemma tree_demo_file_has: "file_has 200 0 tree_demo_tree_file tree_demo_rows"
  using page_bytes_hold(1) [OF tree_demo_contents(1) tree_demo_fit(1), of 200 0 4] page_bytes_hold(1) [OF tree_demo_contents(2) tree_demo_fit(2), of 200 0 5]
    page_bytes_hold(1) [OF tree_demo_contents(3) tree_demo_fit(3), of 200 0 6]
  by (simp add: file_has_def tree_demo_rows_def file_holds_def tree_page_of tree_demo_pages_def)

lemma tree_demo_root_at: "root_at tree_demo_tree_file 200 0 3 4"
proof -
  have p3: "img_page tree_demo_tree_file 3 = Some tree_demo_irt" by (simp add: tree_page_of tree_demo_pages_def)
  have irt: "is_root_page 200 tree_demo_irt" "u16_at tree_demo_irt 18 = Ret 1" "u32_at tree_demo_irt (root_slot 0) = Ret 4" "length tree_demo_irt = 128"
    unfolding is_root_page_def root_slot_def tree_demo_irt_def by code_simp+
  have others: "\<not> is_root_page 200 page" if j: "unat j < unat (3 :: u32)" "img_page tree_demo_tree_file j = Some page" for j :: u32 and page
  proof -
    have "unat j < 3" using j(1) by simp
    then have "unat j = 0 \<or> unat j = 1 \<or> unat j = 2" by linarith
    then have "page = replicate 128 0 \<or> page = tree_demo_pip"
      using j(2) by (auto simp: tree_page_of tree_demo_pages_def numeral_2_eq_2)
    moreover have "\<not> is_root_page 200 (replicate 128 0)" "\<not> is_root_page 200 tree_demo_pip"
      unfolding is_root_page_def tree_demo_pip_def by code_simp+
    ultimately show ?thesis by blast
  qed
  show ?thesis unfolding root_at_def using p3 irt others by (auto simp: root_slot_def)
qed

lemma tree_demo_sound: "store_sound 128 1 tree_demo_tree_file" "3 \<le> pages_left 128 1 tree_demo_tree_file"
  "\<And>n. n \<in> {3, 4, 5, 6} \<Longrightarrow> in_use 128 1 tree_demo_tree_file n"
proof -
  have page: "img_page tree_demo_tree_file 1 = Some tree_demo_pip" by (simp add: tree_page_of tree_demo_pages_def)
  have no: "pip_page_no 128 0 = 1" by (simp add: pip_page_no_def)
  have per: "pages_per_pip 128 = 800" "pages_per_scn 128 = 25" by (simp_all add: pages_per_pip_def pages_per_scn_def PIP_BITS_OFFSET_def)
  have len: "\<forall>p \<in> set (img_pages tree_demo_tree_file). length p = 128" "img_page_size tree_demo_tree_file = 128"
    using page_bytes_hold(2) [OF tree_demo_contents(1) tree_demo_fit(1), of 4 200 0] page_bytes_hold(2) [OF tree_demo_contents(2) tree_demo_fit(2), of 5 200 0]
      page_bytes_hold(2) [OF tree_demo_contents(3) tree_demo_fit(3), of 6 200 0]
    by (simp_all add: tree_demo_tree_file_def tree_demo_pages_def tree_demo_pip_def tree_demo_irt_def)
  have f: "pip_bit 128 tree_demo_tree_file 0 i \<longleftrightarrow> free_bit tree_demo_pip i" for i using page no by (simp add: pip_bit_def)
  have bit: "\<not> pip_bit 128 tree_demo_tree_file 0 0" "\<not> pip_bit 128 tree_demo_tree_file 0 1" "pip_bit 128 tree_demo_tree_file 0 799"
    "tree_demo_pip ! 0 = page_type_byte PageInventory"
    unfolding f tree_demo_pip_def by code_simp+
  have one: "\<not> minted 128 tree_demo_tree_file (Suc 0)" using bit(3) per by simp
  have upto: "sq = 0 \<or> sq = Suc 0" if "sq \<le> Suc 0" for sq using that by linarith
  then show "store_sound 128 1 tree_demo_tree_file"
    using page no per len bit one by (auto simp: store_sound_def inventory_ok_def pip_free_def dest!: upto)
  have bits: "free_bit tree_demo_pip 26" "free_bit tree_demo_pip 27" "free_bit tree_demo_pip 28" "\<not> free_bit tree_demo_pip 3" "\<not> free_bit tree_demo_pip 4"
    "\<not> free_bit tree_demo_pip 5" "\<not> free_bit tree_demo_pip 6"
    unfolding tree_demo_pip_def by code_simp+
  have "{26, 27, 28} \<subseteq> free_pages 128 1 tree_demo_tree_file"
    using bits by (simp add: free_pages_def allocatable_def page_free_def pip_free_def f per)
  then have "card {26, 27, 28 :: u32} \<le> pages_left 128 1 tree_demo_tree_file" unfolding pages_left_def by (intro card_mono) simp_all
  then show "3 \<le> pages_left 128 1 tree_demo_tree_file" by simp
  have home: "pip_page_no 128 (Suc 0) = 799" by (simp add: pip_page_no_def per)
  show "in_use 128 1 tree_demo_tree_file n" if "n \<in> {3, 4, 5, 6}" for n
    using that bits home by (auto simp: in_use_def page_free_def pip_free_def f per no tree_page_of dest!: upto)
qed

lemma tree_demo_stored: "stored (in_use 128 1) 200 0 3 (tree_root tree_demo_rows) tree_demo_tree_file {} (concat tree_demo_rows)"
  using tree_demo_file_has tree_demo_root_at tree_demo_sound(3) tree_demo_contents
  by (simp add: stored_def tree_demo_tree(2)) (simp add: tree_demo_rows_def file_has_def)

theorem index_insert_keeps_tree_witness:
  "\<exists>r. insert_index_entry_checked (\<lambda>_ _. True) 128 200 0 [8, 1] 5 False False tree_demo_tree_file = Ret r \<and>
    (\<forall>e. r = Inl e \<longrightarrow> e \<in> split_errors) \<and>
    (\<forall>file'. r = Inr file' \<longrightarrow> (\<exists>rows'. tree_ok False rows' \<and> mset (leaf_entries rows') = {#([7], 1), ([8, 1], 5), ([8, 2], 2), ([8, 2], 9)#}))"
proof -
  have len: "length tree_demo_rows < 256" "length tree_demo_rows < pages_left 128 1 tree_demo_tree_file"
    using tree_demo_sound(2) by (simp_all add: tree_demo_rows_def)
  obtain r where "insert_index_entry_checked (\<lambda>_ _. True) 128 200 0 [8, 1] 5 False False tree_demo_tree_file = Ret r"
    "\<forall>e. r = Inl e \<longrightarrow> e \<in> split_errors"
    "\<forall>file'. r = Inr file' \<longrightarrow> (\<exists>rows'. tree_ok False rows' \<and>
      mset (leaf_entries rows') = add_mset ([8, 1], 5) (mset [([7], 1), ([8, 2], 2), ([8, 2], 9)]))"
    using index_insert_keeps_tree [OF tree_demo_tree(1) len(1) tree_demo_stored tree_demo_sound(1) len(2), of "[8, 1]" 5 False "\<lambda>_ _. True"]
    by (simp add: told_apart_ascending tree_demo_tree(3) del: mset.simps) blast
  then show ?thesis by (auto simp: add_mset_commute)
qed

lemma tree_demo_walks: "index_root_no tree_demo_tree_file 128 200 0 = Ret (Some (tree_root tree_demo_rows))"
  using stored_reads [OF tree_demo_sound(1) tree_demo_stored] .

theorem range_lookup_exact_witness:
  "for_each_in_range tree_demo_tree_file 128 200 0 (Some ([8], True)) (Some ([8, 2], True)) False (\<lambda>k r s. (True, s @ [r])) [] = Ret (True, [2, 9])"
proof -
  have "filter (in_range False (Some ([8], True)) (Some ([8, 2], True))) (leaf_entries tree_demo_rows) = [([8, 2], 2), ([8, 2], 9)]"
    unfolding tree_demo_tree(3) by code_simp
  then show ?thesis
    using range_lookup_exact [OF tree_demo_tree(1) tree_demo_file_has tree_demo_walks, of "Some ([8], True)" "Some ([8, 2], True)" "\<lambda>k r s. (True, s @ [r])" "[]"]
    by simp
qed

text \<open>The insert of the witness goes to the first leaf, which has room for it.\<close>

lemma tree_insert_succeeds:
  "\<exists>file'. insert_index_entry_checked still_keys 128 200 0 [8, 1] 5 False False tree_demo_tree_file = Ret (Inr file')"
proof -
  have load: "load_content bad und tree_demo_tree_file ps p = Ret (Inr c)" if "(p, c) \<in> set (concat tree_demo_rows)" for bad und ps p c
    using tree_demo_file_has that by (intro load_content_holds) (auto simp: file_has_def)
  have l: "load_content bad und tree_demo_tree_file ps 4 = Ret (Inr tree_demo_root)" "load_content bad und tree_demo_tree_file ps 5 = Ret (Inr tree_demo_leaf1)"
    for bad und ps by (rule load, simp add: tree_demo_rows_def)+
  define c where "c = tree_demo_leaf1\<lparr>pc_nodes := list_insert (leaf_position False [8, 1] 5 (pc_nodes tree_demo_leaf1))
      \<lparr>bn_key = [8, 1], bn_recno = 5, bn_page = 0\<rparr> (pc_nodes tree_demo_leaf1)\<rparr>"
  have cok: "content_ok c" unfolding c_def using tree_demo_contents(2) by (intro content_ok_insert) (simp_all add: node_ok_def)
  have nodes: "list_insert (leaf_position False [8, 1] 5 [\<lparr>bn_key = [7], bn_recno = 1, bn_page = 0\<rparr>])
      \<lparr>bn_key = [8, 1], bn_recno = 5, bn_page = 0\<rparr> [\<lparr>bn_key = [7], bn_recno = 1, bn_page = 0\<rparr>] =
      [\<lparr>bn_key = [7], bn_recno = 1, bn_page = 0\<rparr>, \<lparr>bn_key = [8, 1], bn_recno = 5, bn_page = 0\<rparr>]"
    by code_simp
  have "BTR_NODES_OFFSET + length (fst (page_body c)) \<le> 128"
    using body_length [OF cok] nodes by (simp add: c_def tree_demo_leaf1_def BTR_NODES_OFFSET_def node_room_def)
  then have enc: "encode_page tree_demo_tree_file 128 5 200 0 c = Ret (Some (set_page 5 (page_bytes 5 200 0 c 128) tree_demo_tree_file))"
    using encode_page_eq [of tree_demo_tree_file 5 "page_bytes 5 200 0 tree_demo_leaf1 128" 128 200 0 c]
      page_bytes_hold(2) [OF tree_demo_contents(2) tree_demo_fit(2), of 5 200 0]
    by (simp add: tree_page_of tree_demo_pages_def page_fits_def)
  have leaf: "find_leaf tree_demo_tree_file 128 False [8, 1] 5 [4] 5 = Ret (Inr ([4], 5))"
    using l by (subst find_leaf.simps)
      (simp add: tree_demo_leaf1_def continues_def cmp_node_def node_cmp_def word_cmp_def and_then_def)
  have "find_leaf tree_demo_tree_file 128 False [8, 1] 5 [] 4 = Ret (Inr ([4], 5))"
    using l leaf by (subst find_leaf.simps)
      (simp add: tree_demo_root_def continues_def cmp_node_def node_cmp_def word_cmp_def and_then_def)
  with root_for_found [OF tree_demo_walks] tree_demo_tree(2)
  have "insert_index_entry_checked still_keys 128 200 0 [8, 1] 5 False False tree_demo_tree_file =
      (if ([8, 1], 5) \<in> entry_of ` set (pc_nodes tree_demo_leaf1) then Ret (Inr tree_demo_tree_file)
       else if False then Ret (Inl (Msg ''duplicate key in unique index'')) else settle 128 200 0 False [4] 5 c tree_demo_tree_file)"
    unfolding c_def by (intro insert_at_leaf) (simp_all add: l(2))
  then show ?thesis using settle_fits [OF enc, of False "[4]"] by simp
qed

theorem walk_after_insert_witness:
  "\<exists>es' file'. insert_index_entry_checked (\<lambda>_ _. True) 128 200 0 [8, 1] 5 False False tree_demo_tree_file = Ret (Inr file') \<and>
    walk_index_leaves file' 128 200 0 = Ret (Some es') \<and> mset es' = {#([8, 1], 5), ([7], 1), ([8, 2], 2), ([8, 2], 9)#}"
proof -
  have len: "length tree_demo_rows < 256" "length tree_demo_rows < pages_left 128 1 tree_demo_tree_file"
    using tree_demo_sound(2) by (simp_all add: tree_demo_rows_def)
  obtain file' where ins: "insert_index_entry_checked (\<lambda>_ _. True) 128 200 0 [8, 1] 5 False False tree_demo_tree_file = Ret (Inr file')"
    using tree_insert_succeeds by blast
  obtain es es' where w: "walk_index_leaves tree_demo_tree_file 128 200 0 = Ret (Some es)" "walk_index_leaves file' 128 200 0 = Ret (Some es')"
    "mset es' = add_mset ([8, 1], 5) (mset es)"
    using walk_after_insert [OF tree_demo_tree(1) len(1) tree_demo_stored tree_demo_sound(1) len(2) _ _ _ _ ins]
    by (auto simp: told_apart_ascending tree_demo_tree(3))
  have "es = [([7], 1), ([8, 2], 2), ([8, 2], 9)]"
    using w(1) walk_leaf_entries [OF tree_demo_tree(1) tree_demo_file_has tree_demo_walks] by (simp add: tree_demo_tree(3))
  then show ?thesis using ins w(2,3) by auto
qed

end
