(* ===== verification/Big.thy ===== *)
theory Big
  imports Prelude
begin

unbundle bit_operations_syntax

text \<open>
  The big integers of \<^verbatim>\<open>crates/auth/src/crypto.rs\<close> (\<^verbatim>\<open>BigUint\<close>): base-2^32 limbs, least significant
  first, no trailing zero limb. Addition, subtraction, schoolbook multiplication, the long division of
  \<^verbatim>\<open>rem\<close> (Knuth's algorithm D), Montgomery multiplication and modular exponentiation, limb by limb as
  the code does them. Limbs are 32-bit words; the 64-bit intermediates (u64, and i64 where a borrow is
  carried) are numbers, with the truncations and shifts of the code written out, and their bounds are
  lemmas. A loop over a vector is a recursion over its limbs.
\<close>

subsection \<open>Limbs\<close>

type_synonym biguint = "u32 list"

definition BASE :: nat where "BASE = 2 ^ 32"

text \<open>\<^verbatim>\<open>as u32\<close> of a u64, and of an i64.\<close>

definition lo :: "nat \<Rightarrow> u32" where "lo k = of_nat k"

definition lo_int :: "int \<Rightarrow> u32" where "lo_int t = of_int t"

lemma unat_lo [simp]: "unat (lo k) = k mod BASE"
  by (simp add: lo_def BASE_def unat_of_nat)

lemma unat_lo_int: "int (unat (lo_int t)) = t mod int BASE"
  by (simp add: lo_int_def BASE_def uint_word_of_int flip: uint_nat)

lemma BASE_pos [simp]: "0 < BASE" "BASE \<noteq> 0" "1 < BASE" "Suc 0 < BASE"
  by (simp_all add: BASE_def)

lemma unat_limb [simp]: "unat (x :: u32) < BASE"
  using unsigned_less [of x, where ?'a = nat] by (simp add: BASE_def)

lemma uint_limb [simp]: "uint (x :: u32) < int BASE"
  using unsigned_less [of x, where ?'a = int] by (simp add: BASE_def)

text \<open>The number a limb list stands for.\<close>

fun val :: "u32 list \<Rightarrow> nat" where
  "val [] = 0"
| "val (x # xs) = unat x + BASE * val xs"

definition trimmed :: "u32 list \<Rightarrow> bool" where
  "trimmed xs \<longleftrightarrow> xs = [] \<or> last xs \<noteq> 0"

lemma val_append: "val (xs @ ys) = val xs + BASE ^ length xs * val ys"
  by (induction xs) (simp_all add: algebra_simps)

lemma val_less: "val xs < BASE ^ length xs"
proof (induction xs)
  case (Cons x xs)
  have "unat x + BASE * val xs < BASE + BASE * val xs" using unat_limb [of x] by simp
  also have "\<dots> = BASE * Suc (val xs)" by simp
  also have "\<dots> \<le> BASE * BASE ^ length xs" using Cons by (intro mult_le_mono2) simp
  finally show ?case by simp
qed simp

lemma val_zeros [simp]: "val (replicate n 0) = 0"
  by (induction n) simp_all

lemma val_inject: "length xs = length ys \<Longrightarrow> val xs = val ys \<Longrightarrow> xs = ys"
proof (induction xs arbitrary: ys)
  case (Cons x xs)
  then obtain y ys' where y: "ys = y # ys'" by (cases ys) auto
  have "unat x = (unat x + BASE * val xs) mod BASE" by simp
  also have "\<dots> = (unat y + BASE * val ys') mod BASE" using Cons.prems(2) y by simp
  also have "\<dots> = unat y" by simp
  finally have xy: "unat x = unat y" .
  then have "val xs = val ys'" using Cons.prems(2) y by simp
  then show ?case using Cons.IH [of ys'] Cons.prems(1) y xy by (simp add: word_unat_eq_iff)
qed simp

subsection \<open>The small operations\<close>

definition big_trim :: "u32 list \<Rightarrow> biguint" where
  "big_trim xs = rev (dropWhile (\<lambda>l. l = 0) (rev xs))"

definition big_zero :: biguint where "big_zero = []"

definition is_zero :: "biguint \<Rightarrow> bool" where "is_zero x \<longleftrightarrow> x = []"

text \<open>The value of up to four bytes, and the limbs of a byte string, from its end.\<close>

definition limb_of_bytes :: "byte list \<Rightarrow> u32" where
  "limb_of_bytes bs = foldl (\<lambda>v b. push_bit 8 v OR ucast b) 0 bs"

function from_bytes_loop :: "byte list \<Rightarrow> nat \<Rightarrow> u32 list \<Rightarrow> u32 list" where
  "from_bytes_loop b i limbs =
     (if i = 0 then limbs
      else from_bytes_loop b (i - 4) (limbs @ [limb_of_bytes (take (i - (i - 4)) (drop (i - 4) b))]))"
  by pat_completeness auto
termination by (relation "measure (\<lambda>(b, i, limbs). i)") auto

declare from_bytes_loop.simps [simp del]

definition from_bytes_be :: "byte list \<Rightarrow> biguint" where
  "from_bytes_be b = big_trim (from_bytes_loop b (length b) [])"

text \<open>\<^verbatim>\<open>u32::to_be_bytes\<close>.\<close>

definition be4 :: "u32 \<Rightarrow> byte list" where
  "be4 l = [ucast (drop_bit 24 l), ucast (drop_bit 16 l), ucast (drop_bit 8 l), ucast l]"

definition to_bytes_be :: "biguint \<Rightarrow> byte list" where
  "to_bytes_be x = (if x = [] then [] else dropWhile (\<lambda>b. b = 0) (concat (map be4 (rev x))))"

definition big_bit :: "biguint \<Rightarrow> nat \<Rightarrow> bool" where
  "big_bit x i = (if i div 32 < length x then drop_bit (i mod 32) (x ! (i div 32)) AND 1 = 1 else False)"

text \<open>\<^verbatim>\<open>u32::leading_zeros\<close>: the number of zero bits above the highest one.\<close>

definition leading_zeros :: "u32 \<Rightarrow> nat" where
  "leading_zeros l = length (takeWhile (\<lambda>i. \<not> bit l i) (rev [0..<32]))"

definition bits_of :: "biguint \<Rightarrow> nat" where
  "bits_of x = (if x = [] then 0 else (length x - 1) * 32 + (32 - leading_zeros (last x)))"

fun cmp_down :: "u32 list \<Rightarrow> u32 list \<Rightarrow> ordering" where
  "cmp_down (x # xs) (y # ys) = (if word_cmp x y = Equal then cmp_down xs ys else word_cmp x y)"
| "cmp_down _ _ = Equal"

definition big_cmp :: "biguint \<Rightarrow> biguint \<Rightarrow> ordering" where
  "big_cmp x y = (if length x \<noteq> length y then word_cmp (length x) (length y) else cmp_down (rev x) (rev y))"

fun sub_loop :: "u32 list \<Rightarrow> u32 list \<Rightarrow> int \<Rightarrow> u32 list" where
  "sub_loop [] ys borrow = []"
| "sub_loop (x # xs) ys borrow =
     (let d = int (unat x) - (case ys of [] \<Rightarrow> 0 | y # _ \<Rightarrow> int (unat y)) - borrow in
      if d < 0 then lo_int (d + 2 ^ 32) # sub_loop xs (tl ys) 1
      else lo_int d # sub_loop xs (tl ys) 0)"

definition big_sub :: "biguint \<Rightarrow> biguint \<Rightarrow> biguint" where
  "big_sub x y = big_trim (sub_loop x y 0)"

fun add_loop :: "nat \<Rightarrow> u32 list \<Rightarrow> u32 list \<Rightarrow> nat \<Rightarrow> u32 list" where
  "add_loop 0 xs ys carry = []"
| "add_loop (Suc n) xs ys carry =
     (let s = (case xs of [] \<Rightarrow> 0 | x # _ \<Rightarrow> unat x) + (case ys of [] \<Rightarrow> 0 | y # _ \<Rightarrow> unat y) + carry in
      lo s # add_loop n (tl xs) (tl ys) (s div BASE))"

definition big_add :: "biguint \<Rightarrow> biguint \<Rightarrow> biguint" where
  "big_add x y = big_trim (add_loop (max (length x) (length y) + 1) x y 0)"

text \<open>One row of the schoolbook product: \<^verbatim>\<open>out[i..i+k] += a * b\<close> with the carry out.\<close>

fun mul_row :: "u32 \<Rightarrow> u32 list \<Rightarrow> u32 list \<Rightarrow> nat \<Rightarrow> u32 list \<times> nat" where
  "mul_row a (b # bs) (out # outs) carry =
     (let cur = unat out + unat a * unat b + carry; (rest, c) = mul_row a bs outs (cur div BASE)
      in (lo cur # rest, c))"
| "mul_row a bs outs carry = ([], carry)"

fun mul_rows :: "u32 list \<Rightarrow> u32 list \<Rightarrow> nat \<Rightarrow> u32 list \<Rightarrow> u32 list" where
  "mul_rows [] bs i out = out"
| "mul_rows (a # as) bs i out =
     (let (row, carry) = mul_row a bs (take (length bs) (drop i out)) 0
      in mul_rows as bs (i + 1) (splice out i (row @ [lo carry])))"

definition big_mul :: "biguint \<Rightarrow> biguint \<Rightarrow> biguint" where
  "big_mul x y =
     (if is_zero x \<or> is_zero y then big_zero
      else big_trim (mul_rows x y 0 (replicate (length x + length y) 0)))"

subsection \<open>Long division\<close>

fun rem_one_limb :: "nat \<Rightarrow> u32 list \<Rightarrow> nat \<Rightarrow> nat" where
  "rem_one_limb d [] r = r"
| "rem_one_limb d (l # ls) r = rem_one_limb d ls ((r * BASE + unat l) mod d mod BASE)"

text \<open>\<^verbatim>\<open>(hi << sh) | (lo >> (32 - sh))\<close> over the limbs, upwards from the limb below.\<close>

fun shift_left :: "nat \<Rightarrow> u32 \<Rightarrow> u32 list \<Rightarrow> u32 list" where
  "shift_left sh below [] = [drop_bit (32 - sh) below]"
| "shift_left sh below (x # xs) = (push_bit sh x OR drop_bit (32 - sh) below) # shift_left sh x xs"

fun shift_right :: "nat \<Rightarrow> u32 list \<Rightarrow> u32 list" where
  "shift_right sh [] = []"
| "shift_right sh [x] = [drop_bit sh x]"
| "shift_right sh (x # y # ys) = (drop_bit sh x OR push_bit (32 - sh) y) # shift_right sh (y # ys)"

text \<open>The quotient digit: the estimate from the top two limbs, corrected against the third.\<close>

function qhat_loop :: "nat \<Rightarrow> nat \<Rightarrow> nat \<Rightarrow> nat \<Rightarrow> nat \<Rightarrow> nat" where
  "qhat_loop v1 v2 u2 qhat rhat =
     (if BASE \<le> qhat \<or> rhat * BASE + u2 < qhat * v2 then
        (if BASE \<le> rhat + v1 then qhat - 1 else qhat_loop v1 v2 u2 (qhat - 1) (rhat + v1))
      else qhat)"
  by pat_completeness auto
termination
  by (relation "measure (\<lambda>(v1, v2, u2, qhat, rhat). qhat)") (auto simp: BASE_def intro!: diff_less Nat.gr0I)

declare qhat_loop.simps [simp del]

fun mul_sub :: "nat \<Rightarrow> u32 list \<Rightarrow> u32 list \<Rightarrow> nat \<Rightarrow> int \<Rightarrow> u32 list \<times> nat \<times> int" where
  "mul_sub qhat (v # vs) (u # us) carry borrow =
     (let p = qhat * unat v + carry;
          t = int (unat u) - borrow - int (p mod BASE);
          (rest, c, b) = mul_sub qhat vs us (p div BASE) (if t < 0 then 1 else 0)
      in (lo_int t # rest, c, b))"
| "mul_sub qhat vs us carry borrow = ([], carry, borrow)"

fun add_back :: "u32 list \<Rightarrow> u32 list \<Rightarrow> nat \<Rightarrow> u32 list \<times> nat" where
  "add_back (v # vs) (u # us) carry =
     (let s = unat u + unat v + carry; (rest, c) = add_back vs us (s div BASE) in (lo s # rest, c))"
| "add_back vs us carry = ([], carry)"

text \<open>One digit: the window \<^verbatim>\<open>u[j..j+n+1]\<close> with its top limb last.\<close>

definition div_digit :: "u32 list \<Rightarrow> u32 list \<Rightarrow> u32 list" where
  "div_digit v w =
     (let n = length v;
          num = unat (w ! n) * BASE + unat (w ! (n - 1));
          qhat = qhat_loop (unat (v ! (n - 1))) (unat (v ! (n - 2))) (unat (w ! (n - 2)))
                   (num div unat (v ! (n - 1))) (num mod unat (v ! (n - 1)));
          (low, carry, borrow) = mul_sub qhat v (take n w) 0 0;
          t = int (unat (w ! n)) - int carry - borrow
      in if t < 0 then
           let (low', carry') = add_back v low 0 in low' @ [lo (unat (lo_int t) + carry')]
         else low @ [lo_int t])"

fun div_loop :: "u32 list \<Rightarrow> nat \<Rightarrow> u32 list \<Rightarrow> u32 list" where
  "div_loop v j u =
     (let u' = splice u j (div_digit v (take (length v + 1) (drop j u)))
      in case j of 0 \<Rightarrow> u' | Suc j' \<Rightarrow> div_loop v j' u')"

declare div_loop.simps [simp del]

definition big_rem :: "biguint \<Rightarrow> biguint \<Rightarrow> biguint" where
  "big_rem x m =
     (if m = [] \<or> big_cmp x m = Less then x
      else if length m = 1 then big_trim [lo (rem_one_limb (unat (hd m)) (rev x) 0)]
      else
        let n = length m;
            sh = leading_zeros (last m);
            v = (if sh = 0 then m else butlast (shift_left sh 0 m));
            u = (if sh = 0 then x @ [0] else shift_left sh 0 x);
            u' = div_loop v (length x - n) u;
            r = (if sh = 0 then take n u' else shift_right sh (take n u'))
        in big_trim r)"

subsection \<open>Montgomery multiplication\<close>

text \<open>\<^verbatim>\<open>t += a[i] * b\<close> over the low n limbs is \<^verbatim>\<open>mul_row\<close>; the second pass adds \<^verbatim>\<open>mp * m\<close> and drops the
  lowest limb.\<close>

fun mont_red :: "u32 \<Rightarrow> u32 list \<Rightarrow> u32 list \<Rightarrow> nat \<Rightarrow> u32 list \<times> nat" where
  "mont_red mp (m # ms) (t # ts) carry =
     (let cur = unat t + unat mp * unat m + carry; (rest, c) = mont_red mp ms ts (cur div BASE)
      in (lo cur # rest, c))"
| "mont_red mp ms ts carry = ([], carry)"

text \<open>One limb of \<^verbatim>\<open>a\<close>: from \<^verbatim>\<open>t[0..n]\<close> and \<^verbatim>\<open>t[n]\<close> to the next ones.\<close>

definition mont_step :: "u32 list \<Rightarrow> u32 list \<Rightarrow> u32 \<Rightarrow> u32 \<Rightarrow> u32 list \<times> u32 \<Rightarrow> u32 list \<times> u32" where
  "mont_step b m n0 ai tt =
     (case tt of (t, tn) \<Rightarrow>
        let (t1, carry1) = mul_row ai b t 0;
            cur = unat tn + carry1;
            tn1 = lo cur;
            tn2 = lo (cur div BASE);
            mp = hd t1 * n0;
            carry2 = (unat (hd t1) + unat mp * unat (hd m)) div BASE;
            (t2, carry3) = mont_red mp (tl m) (tl t1) carry2;
            cur2 = unat tn1 + carry3
        in (t2 @ [lo cur2], tn2 + lo (cur2 div BASE)))"

text \<open>Is \<^verbatim>\<open>t\<close> at least \<^verbatim>\<open>m\<close>, compared from the top; and the subtraction.\<close>

fun ge_down :: "u32 list \<Rightarrow> u32 list \<Rightarrow> bool" where
  "ge_down (t # ts) (m # ms) = (if t \<noteq> m then m < t else ge_down ts ms)"
| "ge_down _ _ = True"

fun sub_limbs :: "u32 list \<Rightarrow> u32 list \<Rightarrow> int \<Rightarrow> u32 list" where
  "sub_limbs (t # ts) (m # ms) borrow =
     (let d = int (unat t) - int (unat m) - borrow in lo_int d # sub_limbs ts ms (if d < 0 then 1 else 0))"
| "sub_limbs _ _ borrow = []"

definition mont_mul :: "u32 list \<Rightarrow> u32 list \<Rightarrow> u32 list \<Rightarrow> u32 \<Rightarrow> u32 list" where
  "mont_mul a b m n0 =
     (let n = length m;
          (t, tn) = fold (mont_step b m n0) (take n a) (replicate n 0, 0)
      in if tn \<noteq> 0 \<or> ge_down (rev t) (rev m) then sub_limbs t m 0 else t)"

subsection \<open>Modular arithmetic\<close>

fun square_multiply :: "biguint \<Rightarrow> biguint \<Rightarrow> nat list \<Rightarrow> biguint \<Rightarrow> biguint \<Rightarrow> biguint" where
  "square_multiply ex m [] result b = result"
| "square_multiply ex m (i # is) result b =
     square_multiply ex m is (if big_bit ex i then big_rem (big_mul result b) m else result) (big_rem (big_mul b b) m)"

definition newton_step :: "u32 \<Rightarrow> u32 \<Rightarrow> u32" where
  "newton_step m0 iv = iv * (2 - m0 * iv)"

fun mont_power :: "biguint \<Rightarrow> u32 list \<Rightarrow> u32 \<Rightarrow> nat list \<Rightarrow> u32 list \<Rightarrow> u32 list \<Rightarrow> u32 list" where
  "mont_power ex m n0 [] cur b = cur"
| "mont_power ex m n0 (i # is) cur b =
     mont_power ex m n0 is (if big_bit ex i then mont_mul cur b m n0 else cur) (mont_mul b b m n0)"

definition modpow_odd :: "biguint \<Rightarrow> biguint \<Rightarrow> biguint \<Rightarrow> biguint" where
  "modpow_odd bs ex m =
     (let n = length m;
          iv = (newton_step (hd m) ^^ 5) 1;
          n0 = - iv;
          r_mod = big_rem (replicate n 0 @ [1]) m;
          base_mont = big_rem (big_trim (replicate n 0 @ big_rem bs m)) m;
          cur = mont_power ex m n0 [0..<bits_of ex] (vec_resize r_mod n 0) (vec_resize base_mont n 0)
      in big_trim (mont_mul cur ((replicate n 0)[0 := 1]) m n0))"

definition modpow :: "biguint \<Rightarrow> biguint \<Rightarrow> biguint \<Rightarrow> biguint" where
  "modpow bs ex m =
     (if 2 \<le> length m \<and> hd m AND 1 = 1 then modpow_odd bs ex m
      else square_multiply ex m [0..<bits_of ex] (big_rem (from_bytes_be [1]) m) (big_rem bs m))"

definition add_mod :: "biguint \<Rightarrow> biguint \<Rightarrow> biguint \<Rightarrow> biguint" where
  "add_mod x y m = big_rem (big_add x y) m"

definition sub_mod :: "biguint \<Rightarrow> biguint \<Rightarrow> biguint \<Rightarrow> biguint" where
  "sub_mod x y m =
     (let a = big_rem x m; b = big_rem y m in
      if big_cmp a b \<noteq> Less then big_sub a b else big_sub (big_add a m) b)"

definition mul_mod :: "biguint \<Rightarrow> biguint \<Rightarrow> biguint \<Rightarrow> biguint" where
  "mul_mod x y m = big_rem (big_mul x y) m"

definition rem_pub :: "biguint \<Rightarrow> biguint \<Rightarrow> biguint" where
  "rem_pub x m = add_mod x big_zero m"

end
