(* ===== verification/Big_Arith.thy ===== *)
theory Big_Arith
  imports Big
begin

unbundle bit_operations_syntax

text \<open>
  The limb loops against the numbers: trimming, comparison, addition, subtraction, multiplication,
  bytes and bits. The 64-bit intermediates fit their width.
\<close>

subsection \<open>Trimming and comparison\<close>

lemma val_snoc: "val (xs @ [x]) = val xs + BASE ^ length xs * unat x"
  by (simp add: val_append)

lemma val_snoc_zero: "val (xs @ [0]) = val xs"
  by (simp add: val_append)

lemma big_trim_snoc: "big_trim (xs @ [x]) = (if x = 0 then big_trim xs else xs @ [x])"
  by (simp add: big_trim_def)

lemma val_trim [simp]: "val (big_trim xs) = val xs"
  by (induction xs rule: rev_induct) (auto simp: big_trim_snoc val_snoc big_trim_def [of "[]"])

lemma trimmed_trim [simp]: "trimmed (big_trim xs)"
  by (induction xs rule: rev_induct) (auto simp: big_trim_snoc trimmed_def big_trim_def [of "[]"])

lemma trim_trimmed: "trimmed xs \<Longrightarrow> big_trim xs = xs"
  by (cases xs rule: rev_cases) (auto simp: big_trim_snoc trimmed_def big_trim_def [of "[]"])

lemma trimmed_val_ge: "trimmed xs \<Longrightarrow> xs \<noteq> [] \<Longrightarrow> BASE ^ (length xs - 1) \<le> val xs"
proof (cases xs rule: rev_cases)
  case (snoc ys y)
  assume "trimmed xs"
  then have "0 < unat y" using snoc by (simp add: trimmed_def unat_gt_0)
  then have "BASE ^ length ys * 1 \<le> BASE ^ length ys * unat y" by (intro mult_le_mono2) simp
  then have "BASE ^ length ys \<le> BASE ^ length ys * unat y" by simp
  then show ?thesis using snoc by (simp add: val_append trans_le_add2 del: mult_le_cancel1)
qed simp

lemma trimmed_shorter:
  assumes "trimmed ys" "length xs < length ys"
  shows "val xs < val ys"
proof -
  have "val xs < BASE ^ length xs" by (rule val_less)
  also have "\<dots> \<le> BASE ^ (length ys - 1)" using assms(2) by (intro power_increasing) (auto simp: Suc_leI)
  also have "ys \<noteq> []" using assms(2) by auto
  then have "BASE ^ (length ys - 1) \<le> val ys" by (rule trimmed_val_ge [OF assms(1)])
  finally show ?thesis .
qed

lemma trimmed_unique: "trimmed xs \<Longrightarrow> trimmed ys \<Longrightarrow> val xs = val ys \<Longrightarrow> xs = ys"
  using trimmed_shorter [of ys xs] trimmed_shorter [of xs ys] val_inject [of xs ys]
  by (metis linorder_neqE_nat nat_less_le)

lemma unat_cmp: "word_cmp (x :: u32) y = word_cmp (unat x) (unat y)"
  by (auto simp: word_cmp_def word_less_nat_alt word_unat_eq_iff)

lemma val_top_less:
  assumes "length xs = length ys" "unat x < unat y"
  shows "val (xs @ [x]) < val (ys @ [y])"
proof -
  have "val (xs @ [x]) < BASE ^ length xs + BASE ^ length xs * unat x" using val_less [of xs] by (simp add: val_snoc)
  also have "\<dots> = BASE ^ length xs * (unat x + 1)" by simp
  also have "\<dots> \<le> BASE ^ length xs * unat y" using assms(2) by (intro mult_le_mono2) simp
  finally show ?thesis using assms(1) by (simp add: val_snoc)
qed

lemma cmp_down_val: "length xs = length ys \<Longrightarrow> cmp_down (rev xs) (rev ys) = word_cmp (val xs) (val ys)"
proof (induction xs arbitrary: ys rule: rev_induct)
  case Nil
  then show ?case by (simp add: word_cmp_def)
next
  case (snoc x xs)
  then obtain ys' y where y: "ys = ys' @ [y]" "length xs = length ys'" by (cases ys rule: rev_cases) auto
  consider "unat x < unat y" | "unat y < unat x" | "unat x = unat y" by linarith
  then show ?case
  proof cases
    case 1
    then show ?thesis using val_top_less [OF y(2) 1] y by (simp add: unat_cmp word_cmp_def)
  next
    case 2
    then show ?thesis using val_top_less [OF y(2) [symmetric] 2] y by (simp add: unat_cmp word_cmp_def)
  next
    case 3
    then show ?thesis using snoc.IH [OF y(2)] y by (simp add: unat_cmp word_cmp_def val_snoc)
  qed
qed

lemma big_cmp_val:
  assumes "trimmed x" "trimmed y"
  shows "big_cmp x y = word_cmp (val x) (val y)"
proof -
  consider "length x < length y" | "length y < length x" | "length x = length y" by linarith
  then show ?thesis
    using trimmed_shorter [OF assms(2), of x] trimmed_shorter [OF assms(1), of y] cmp_down_val [of x y]
    by cases (auto simp: big_cmp_def word_cmp_def)
qed

subsection \<open>Addition and subtraction\<close>

lemma mod_carry: "s mod BASE + BASE * ((s div BASE + r) mod BASE ^ n) = (s + BASE * r) mod BASE ^ Suc n"
proof -
  have "(s + BASE * r) div BASE = s div BASE + r" by simp
  moreover have "(s + BASE * r) mod BASE = s mod BASE" by simp
  ultimately show ?thesis by (simp add: mod_mult2_eq add.commute)
qed

lemma val_add_loop:
  "length xs \<le> n \<Longrightarrow> length ys \<le> n \<Longrightarrow> val (add_loop n xs ys c) = (val xs + val ys + c) mod BASE ^ n"
proof (induction n xs ys c rule: add_loop.induct)
  case (2 n xs ys c)
  define s where "s = (case xs of [] \<Rightarrow> 0 | x # _ \<Rightarrow> unat x) + (case ys of [] \<Rightarrow> 0 | y # _ \<Rightarrow> unat y) + c"
  have IH: "val (add_loop n (tl xs) (tl ys) (s div BASE)) = (val (tl xs) + val (tl ys) + s div BASE) mod BASE ^ n"
    using 2 by (intro "2.IH") (auto simp: s_def)
  have "add_loop (Suc n) xs ys c = lo s # add_loop n (tl xs) (tl ys) (s div BASE)"
    unfolding add_loop.simps Let_def s_def ..
  then have "val (add_loop (Suc n) xs ys c) = s mod BASE + BASE * ((s div BASE + (val (tl xs) + val (tl ys))) mod BASE ^ n)"
    using IH by (simp add: ac_simps)
  also have "\<dots> = (s + BASE * (val (tl xs) + val (tl ys))) mod BASE ^ Suc n" by (rule mod_carry)
  also have "s + BASE * (val (tl xs) + val (tl ys)) = val xs + val ys + c"
    by (cases xs; cases ys) (simp_all add: s_def algebra_simps)
  finally show ?case .
qed simp

lemma val_big_add [simp]: "val (big_add x y) = val x + val y"
proof -
  let ?n = "max (length x) (length y)"
  have "val x < BASE ^ ?n" "val y < BASE ^ ?n"
    using val_less [of x] val_less [of y] power_increasing [of "length x" ?n BASE] power_increasing [of "length y" ?n BASE]
    by (auto intro: less_le_trans simp: Suc_leI)
  then have "val x + val y < 2 * BASE ^ ?n" by simp
  also have "\<dots> \<le> BASE ^ (?n + 1)" by (simp add: BASE_def)
  finally show ?thesis by (simp add: big_add_def val_add_loop del: add_loop.simps)
qed

lemma trimmed_big_add [simp]: "trimmed (big_add x y)" by (simp add: big_add_def)

lemma lo_int_borrow:
  assumes "- int BASE \<le> d" "d < int BASE"
  shows "int (unat (lo_int d)) = d + (if d < 0 then int BASE else 0)"
proof (cases "d < 0")
  case True
  have "d mod int BASE = (d + int BASE) mod int BASE" by simp
  also have "\<dots> = d + int BASE" using True assms by (intro mod_pos_pos_trivial) auto
  finally show ?thesis using True by (simp only: unat_lo_int if_True)
next
  case False
  then show ?thesis using assms by (simp only: unat_lo_int mod_pos_pos_trivial if_False)
qed

lemma val_sub_loop:
  assumes "length ys \<le> length xs" "0 \<le> b" "b \<le> 1"
  shows "\<exists>b'. 0 \<le> b' \<and> b' \<le> 1 \<and>
    int (val (sub_loop xs ys b)) = int (val xs) - int (val ys) - b + b' * int BASE ^ length xs"
  using assms
proof (induction xs ys b rule: sub_loop.induct)
  case (1 ys b)
  then show ?case by (auto intro!: exI [of _ b])
next
  case (2 x xs ys b)
  define y where "y = (case ys of [] \<Rightarrow> 0 | y # _ \<Rightarrow> int (unat y))"
  define d where "d = int (unat x) - y - b"
  have y: "0 \<le> y" "y < int BASE" by (simp_all add: y_def split: list.splits)
  have d: "- int BASE \<le> d" "d < int BASE"
    unfolding d_def of_nat_unat using y "2.prems"(2,3) uint_limb [of x] uint_ge_0 [of x] by linarith+
  define b1 where "b1 = (if d < 0 then 1 else 0 :: int)"
  have two32: "(2 :: int) ^ 32 = int BASE" by (simp add: BASE_def)
  have plus: "lo_int (d + int BASE) = lo_int d" by (simp add: lo_int_def BASE_def)
  have step: "sub_loop (x # xs) ys b = lo_int d # sub_loop xs (tl ys) b1"
    unfolding sub_loop.simps Let_def y_def [symmetric] d_def [symmetric] two32 plus b1_def by simp
  have IH: "\<exists>b'. 0 \<le> b' \<and> b' \<le> 1 \<and>
      int (val (sub_loop xs (tl ys) b1)) = int (val xs) - int (val (tl ys)) - b1 + b' * int BASE ^ length xs"
  proof (cases "d < 0")
    case True
    then show ?thesis using "2.IH"(1) [OF d_def [unfolded y_def]] "2.prems"(1) by (simp add: b1_def)
  next
    case False
    then show ?thesis using "2.IH"(2) [OF d_def [unfolded y_def]] "2.prems"(1) by (simp add: b1_def)
  qed
  then obtain b' where b': "0 \<le> b'" "b' \<le> 1"
    "int (val (sub_loop xs (tl ys) b1)) = int (val xs) - int (val (tl ys)) - b1 + b' * int BASE ^ length xs" by blast
  have "int (val ys) = y + int BASE * int (val (tl ys))" by (cases ys) (simp_all add: y_def)
  moreover have "int (unat (lo_int d)) = d + int BASE * b1" using lo_int_borrow [OF d] by (simp add: b1_def)
  ultimately have "int (val (sub_loop (x # xs) ys b)) = int (val (x # xs)) - int (val ys) - b + b' * int BASE ^ length (x # xs)"
    unfolding step val.simps of_nat_add of_nat_mult b'(3) by (simp add: d_def algebra_simps)
  then show ?case using b' by blast
qed

lemma length_sub_loop [simp]: "length (sub_loop xs ys b) = length xs"
  by (induction xs ys b rule: sub_loop.induct) (simp_all add: Let_def)

lemma sub_loop_exact:
  assumes "length ys \<le> length xs" "0 \<le> b" "b \<le> 1" "int (val ys) + b \<le> int (val xs)"
  shows "int (val (sub_loop xs ys b)) = int (val xs) - int (val ys) - b"
proof -
  obtain b' where b': "0 \<le> b'" "b' \<le> 1"
    "int (val (sub_loop xs ys b)) = int (val xs) - int (val ys) - b + b' * int BASE ^ length xs"
    using val_sub_loop [OF assms(1-3)] by blast
  have "int (val (sub_loop xs ys b)) < int BASE ^ length xs"
    using val_less [of "sub_loop xs ys b"] by (metis length_sub_loop of_nat_less_iff of_nat_power)
  then have "b' \<noteq> 1" using b'(3) assms(4) by auto
  then have "b' = 0" using b'(1,2) by simp
  then show ?thesis using b'(3) by simp
qed

lemma val_big_sub:
  assumes "trimmed x" "trimmed y" "val y \<le> val x"
  shows "val (big_sub x y) = val x - val y"
proof -
  have "length y \<le> length x" using trimmed_shorter [OF assms(2), of x] assms(3) by linarith
  then have "int (val (sub_loop x y 0)) = int (val x) - int (val y)" using sub_loop_exact [of y x 0] assms(3) by simp
  then show ?thesis by (simp add: big_sub_def)
qed

lemma trimmed_big_sub [simp]: "trimmed (big_sub x y)" by (simp add: big_sub_def)


subsection \<open>Multiplication\<close>

text \<open>A digit product with two more digits stays below 2^64.\<close>

lemma u64_fits: "x < BASE \<Longrightarrow> a < BASE \<Longrightarrow> b < BASE \<Longrightarrow> c < BASE \<Longrightarrow> x + a * b + c < BASE * BASE"
proof -
  assume h: "x < BASE" "a < BASE" "b < BASE" "c < BASE"
  obtain B where B: "BASE = Suc B" using BASE_pos(1) gr0_conv_Suc by blast
  have "a * b \<le> B * B" using h B by (intro mult_le_mono) auto
  moreover have "x \<le> B" "c \<le> B" using h B by simp_all
  moreover have "BASE * BASE = B * B + B + B + 1" unfolding B by simp
  ultimately show ?thesis by linarith
qed

lemma u64_carry: "x < BASE \<Longrightarrow> a < BASE \<Longrightarrow> b < BASE \<Longrightarrow> c < BASE \<Longrightarrow> (x + a * b + c) div BASE < BASE"
  using u64_fits [of x a b c] by (simp add: less_mult_imp_div_less)

lemma digit_split: "cur mod BASE + BASE * (cur div BASE) = cur"
  by simp

lemma mul_row_spec:
  assumes "length outs = length bs" "c < BASE" "mul_row a bs outs c = (row, c')"
  shows "length row = length bs \<and> c' < BASE \<and> val row + BASE ^ length bs * c' = val outs + unat a * val bs + c"
  using assms
proof (induction a bs outs c arbitrary: row c' rule: mul_row.induct)
  case (1 a b bs out outs carry)
  define cur where "cur = unat out + unat a * unat b + carry"
  obtain rest c1 where r: "mul_row a bs outs (cur div BASE) = (rest, c1)" by fastforce
  then have row: "row = lo cur # rest" "c' = c1" using "1.prems"(3) by (simp_all add: Let_def cur_def)
  have "cur div BASE < BASE" using "1.prems"(2) by (simp add: cur_def u64_carry)
  then have IH: "length rest = length bs" "c1 < BASE" "val rest + BASE ^ length bs * c1 = val outs + unat a * val bs + cur div BASE"
    using "1.IH" [OF cur_def _ _ r] "1.prems"(1) by auto
  have "val row + BASE ^ length (b # bs) * c' = cur mod BASE + BASE * (val rest + BASE ^ length bs * c1)"
    by (simp add: row algebra_simps)
  also have "\<dots> = cur mod BASE + BASE * (cur div BASE) + BASE * (val outs + unat a * val bs)"
    unfolding IH(3) by (simp add: algebra_simps)
  also have "\<dots> = val (out # outs) + unat a * val (b # bs) + carry"
    unfolding digit_split by (simp add: cur_def algebra_simps)
  finally show ?case using IH row by simp
qed auto

lemma val_take_drop: "k \<le> length xs \<Longrightarrow> val xs = val (take k xs) + BASE ^ k * val (drop k xs)"
  using val_append [of "take k xs" "drop k xs"] by (simp add: min_absorb2)

lemma val_splice:
  assumes "i + length ys \<le> length xs"
  shows "int (val (splice xs i ys)) = int (val xs) + int BASE ^ i * (int (val ys) - int (val (take (length ys) (drop i xs))))"
proof -
  have "val xs = val (take i xs) + BASE ^ i * (val (take (length ys) (drop i xs)) + BASE ^ length ys * val (drop (i + length ys) xs))"
    using assms val_take_drop [of i xs] val_take_drop [of "length ys" "drop i xs"] by (simp add: add.commute)
  moreover have "val (splice xs i ys) = val (take i xs) + BASE ^ i * (val ys + BASE ^ length ys * val (drop (i + length ys) xs))"
    using assms by (simp add: splice_def val_append min_absorb2)
  ultimately show ?thesis by (simp add: algebra_simps)
qed

lemma val_mul_rows:
  assumes "length out = i + length as + length bs" "\<forall>k. i + length bs \<le> k \<and> k < length out \<longrightarrow> out ! k = 0"
  shows "val (mul_rows as bs i out) = val out + BASE ^ i * val as * val bs"
  using assms
proof (induction as bs i out rule: mul_rows.induct)
  case (2 a as bs i out)
  obtain row c where r: "mul_row a bs (take (length bs) (drop i out)) 0 = (row, c)" by fastforce
  have spec: "length row = length bs" "c < BASE"
    "val row + BASE ^ length bs * c = val (take (length bs) (drop i out)) + unat a * val bs"
    using mul_row_spec [OF _ _ r] "2.prems"(1) by auto
  let ?out = "splice out i (row @ [lo c])"
  have fits: "i + length (row @ [lo c]) \<le> length out" using "2.prems"(1) spec(1) by simp
  have "take (Suc (length bs)) (drop i out) = take (length bs) (drop i out) @ [out ! (i + length bs)]"
    using "2.prems"(1) by (simp add: take_Suc_conv_app_nth)
  moreover have "out ! (i + length bs) = 0" using "2.prems" by simp
  ultimately have old: "val (take (length (row @ [lo c])) (drop i out)) = val (take (length bs) (drop i out))"
    using spec(1) by (simp add: val_snoc)
  have "int (val (row @ [lo c])) = int (val (take (length bs) (drop i out))) + int (unat a) * int (val bs)"
    using arg_cong [OF spec(3), of int] spec(1,2) by (simp add: val_snoc)
  then have out: "int (val ?out) = int (val out) + int BASE ^ i * (int (unat a) * int (val bs))"
    using val_splice [OF fits] old by simp
  have "\<forall>k. i + 1 + length bs \<le> k \<and> k < length ?out \<longrightarrow> ?out ! k = 0"
    using "2.prems" fits spec(1) by (auto simp: nth_splice)
  then have "val (mul_rows as bs (i + 1) ?out) = val ?out + BASE ^ (i + 1) * val as * val bs"
    using "2.IH" [OF r [symmetric] refl] "2.prems"(1) fits by simp
  then have "int (val (mul_rows (a # as) bs i out)) = int (val out + BASE ^ i * val (a # as) * val bs)"
    using r out by (simp add: algebra_simps)
  then show ?case using of_nat_eq_iff by blast
qed simp

lemma val_big_mul [simp]: "val (big_mul x y) = val x * val y"
  using val_mul_rows [of "replicate (length x + length y) 0" 0 x y]
  by (auto simp: big_mul_def is_zero_def big_zero_def)

lemma trimmed_big_mul [simp]: "trimmed (big_mul x y)"
  by (simp add: big_mul_def big_zero_def trimmed_def [of "[]"])


subsection \<open>Bytes\<close>

definition be_nat :: "byte list \<Rightarrow> nat" where
  "be_nat bs = le_nat (rev bs)"

lemma le_nat_append: "le_nat (xs @ ys) = le_nat xs + 256 ^ length xs * le_nat ys"
  by (induction xs) (simp_all add: algebra_simps)

lemma be_nat_append: "be_nat (xs @ ys) = 256 ^ length ys * be_nat xs + be_nat ys"
  by (simp add: be_nat_def le_nat_append)

lemma be_nat_simps [simp]: "be_nat [] = 0" "be_nat [b] = unat b"
  by (simp_all add: be_nat_def)

lemma be_nat_less: "be_nat bs < 256 ^ length bs"
  using le_nat_bound [of "rev bs"] by (simp add: be_nat_def)

lemma unat_push_or:
  fixes b :: byte
  assumes "unat (v :: u32) < 2 ^ 24"
  shows "unat (push_bit 8 v OR ucast b) = 256 * unat v + unat b"
proof -
  have "push_bit 8 v OR ucast b = push_bit 8 v + (ucast b :: u32)"
  proof (rule disjunctive_add [symmetric])
    fix n
    have "bit (b :: byte) n \<Longrightarrow> n < 8" using bit_imp_le_length [of b n] by simp
    then show "\<not> bit (push_bit 8 v) n \<or> \<not> bit (ucast b :: u32) n" by (auto simp: bit_push_bit_iff bit_ucast_iff)
  qed
  moreover have "unat (push_bit 8 v) = 256 * unat v"
    using assms by (simp add: push_bit_eq_mult unat_word_ariths mult.commute)
  moreover have "unat (ucast b :: u32) = unat b" by (simp add: unsigned_ucast_eq take_bit_eq_mod mod_less less_trans [OF unat_byte_lt])
  moreover have "256 * unat v + unat b < 4294967296"
  proof -
    have "unat v < 16777216" using assms by simp
    then show ?thesis using unat_byte_lt [of b] by linarith
  qed
  ultimately show ?thesis by (simp add: unat_word_ariths)
qed

lemma limb_of_bytes_val: "length bs \<le> 4 \<Longrightarrow> unat (limb_of_bytes bs) = be_nat bs"
proof (induction bs rule: rev_induct)
  case Nil
  then show ?case by (simp add: limb_of_bytes_def)
next
  case (snoc b bs)
  then have IH: "unat (limb_of_bytes bs) = be_nat bs" "length bs \<le> 3" by simp_all
  have "be_nat bs < 256 ^ length bs" by (rule be_nat_less)
  also have "\<dots> \<le> 256 ^ 3" using IH(2) by (intro power_increasing) auto
  finally have "unat (limb_of_bytes bs) < 2 ^ 24" using IH(1) by simp
  then show ?case using unat_push_or [of "limb_of_bytes bs" b] IH(1) by (simp add: limb_of_bytes_def be_nat_append)
qed

lemma val_from_bytes_loop:
  "i \<le> length b \<Longrightarrow> val (from_bytes_loop b i limbs) = val limbs + BASE ^ length limbs * be_nat (take i b)"
proof (induction b i limbs rule: from_bytes_loop.induct)
  case (1 b i limbs)
  show ?case
  proof (cases "i = 0")
    case True
    then show ?thesis by (simp add: from_bytes_loop.simps)
  next
    case False
    define j where "j = i - 4"
    define chunk where "chunk = take (i - j) (drop j b)"
    have j: "j \<le> length b" "length chunk \<le> 4" "length chunk = i - j" "j \<le> i" using "1.prems" by (auto simp: j_def chunk_def)
    have split: "take i b = take j b @ chunk" using j(4) by (metis chunk_def take_add le_add_diff_inverse)
    have "val (from_bytes_loop b i limbs) = val (from_bytes_loop b j (limbs @ [limb_of_bytes chunk]))"
      using False by (subst from_bytes_loop.simps) (simp add: j_def chunk_def)
    also have "\<dots> = val limbs + BASE ^ length limbs * (be_nat chunk + BASE * be_nat (take j b))"
      using "1.IH" [OF False] j(1,2) by (simp add: j_def [symmetric] chunk_def [symmetric] val_snoc limb_of_bytes_val algebra_simps)
    also have "be_nat chunk + BASE * be_nat (take j b) = be_nat (take i b)"
    proof (cases "4 \<le> i")
      case True
      then show ?thesis using j(3) unfolding split be_nat_append by (simp add: j_def BASE_def)
    next
      case False
      then show ?thesis unfolding split be_nat_append by (simp add: j_def)
    qed
    finally show ?thesis .
  qed
qed

lemma val_from_bytes [simp]: "val (from_bytes_be b) = be_nat b"
  by (simp add: from_bytes_be_def val_from_bytes_loop)

lemma trimmed_from_bytes [simp]: "trimmed (from_bytes_be b)"
  by (simp add: from_bytes_be_def)

lemma four_bytes:
  fixes u :: nat
  assumes "u < 2 ^ 32"
  shows "u mod 256 + 256 * (u div 2 ^ 8 mod 256 + 256 * (u div 2 ^ 16 mod 256 + 256 * (u div 2 ^ 24 mod 256))) = u"
proof -
  have "u div 2 ^ 24 < 256" using assms by (simp add: div_less_iff_less_mult)
  then have top: "u div 2 ^ 24 mod 256 = u div 2 ^ 24" by simp
  have "u div 2 ^ 24 = u div 2 ^ 16 div 256" "u div 2 ^ 16 = u div 2 ^ 8 div 256" "u div 2 ^ 8 = u div 256"
    by (simp_all flip: div_mult2_eq)
  then show ?thesis unfolding top by (simp only: mod_mult_div_eq)
qed

lemma be_nat_be4: "be_nat (be4 l) = unat l"
proof -
  have b: "unat (ucast (drop_bit n l) :: byte) = unat l div 2 ^ n mod 256" for n
  proof -
    have "unat (ucast (drop_bit n l) :: byte) = take_bit 8 (unat (drop_bit n l))" by (simp add: unsigned_ucast_eq)
    also have "unat (drop_bit n l) = drop_bit n (unat l)" by (rule unat_drop_bit_eq)
    finally show ?thesis by (simp only: take_bit_eq_mod drop_bit_eq_div) simp
  qed
  have "unat (ucast l :: byte) = unat l mod 256" using b [of 0] by simp
  moreover have "unat l < 2 ^ 32" using unat_limb [of l] by (simp add: BASE_def)
  ultimately show ?thesis using four_bytes [of "unat l"] unfolding be4_def be_nat_def by (simp only: b rev.simps append.simps le_nat.simps) simp
qed

lemma be_nat_dropWhile [simp]: "be_nat (dropWhile (\<lambda>b. b = 0) bs) = be_nat bs"
proof -
  have zeros: "be_nat (x # xs) = be_nat xs" if "x = 0" for x xs
    using that be_nat_append [of "[x]" xs] by simp
  show ?thesis by (induction bs) (auto simp: zeros)
qed

lemma be_nat_to_bytes [simp]: "be_nat (to_bytes_be x) = val x"
proof -
  have "be_nat (concat (map be4 (rev x))) = val x"
    by (induction x) (simp_all add: be_nat_append be_nat_be4 BASE_def be4_def [THEN arg_cong, of length])
  then show ?thesis by (simp add: to_bytes_be_def)
qed

lemma from_to_bytes: "trimmed x \<Longrightarrow> from_bytes_be (to_bytes_be x) = x"
  by (rule trimmed_unique) simp_all

lemma to_bytes_minimal: "to_bytes_be x = [] \<or> hd (to_bytes_be x) \<noteq> 0"
proof (cases "to_bytes_be x = []")
  case False
  then have "to_bytes_be x = dropWhile (\<lambda>b. b = 0) (concat (map be4 (rev x)))" by (simp add: to_bytes_be_def split: if_splits)
  then show ?thesis using hd_dropWhile [of "\<lambda>b. b = 0" "concat (map be4 (rev x))"] False by metis
qed simp

subsection \<open>Bits\<close>

lemma odd_digits:
  fixes a b :: nat
  assumes "a < 2 ^ 32"
  shows "odd ((a + 2 ^ 32 * b) div 2 ^ i) = (if i < 32 then odd (a div 2 ^ i) else odd (b div 2 ^ (i - 32)))"
proof (cases "i < 32")
  case True
  then have "i + Suc (31 - i) = 32" by simp
  then have "(2 :: nat) ^ 32 = 2 ^ i * (2 * 2 ^ (31 - i))" by (metis power_add power_Suc)
  then have "a + 2 ^ 32 * b = a + 2 ^ i * (2 * (2 ^ (31 - i) * b))" by (simp only: mult.assoc)
  then have "(a + 2 ^ 32 * b) div 2 ^ i = 2 * (2 ^ (31 - i) * b) + a div 2 ^ i"
    by (simp only: div_mult_self2) simp
  then show ?thesis using True by simp
next
  case False
  then have "32 + (i - 32) = i" by simp
  then have "(2 :: nat) ^ i = 2 ^ 32 * 2 ^ (i - 32)" by (metis power_add)
  then have "(a + 2 ^ 32 * b) div 2 ^ i = (a + 2 ^ 32 * b) div 2 ^ 32 div 2 ^ (i - 32)" by (simp only: div_mult2_eq)
  then show ?thesis using False assms by simp
qed

lemma bit_limb: "bit (l :: u32) i \<longleftrightarrow> odd (unat l div 2 ^ i)"
proof -
  have "bit (unat l) i \<longleftrightarrow> bit l i" using bit_imp_le_length [of l i] by (auto simp: bit_unsigned_iff)
  then show ?thesis by (simp add: bit_iff_odd [of "unat l"])
qed

lemma big_bit_val: "big_bit x i \<longleftrightarrow> odd (val x div 2 ^ i)"
proof (induction x arbitrary: i)
  case Nil
  then show ?case by (simp add: big_bit_def)
next
  case (Cons l ls)
  have one: "drop_bit k l AND 1 = 1 \<longleftrightarrow> bit l k" for k
    by (simp add: and_one_eq bit_iff_odd_drop_bit odd_iff_mod_2_eq_one)
  have "unat l < 2 ^ 32" using unat_limb [of l] by (simp add: BASE_def)
  from odd_digits [OF this, of "val ls" i] show ?case
    using Cons.IH [of "i - 32"] one [of i]
    by (auto simp: big_bit_def BASE_def bit_limb nth_Cons' le_div_geq le_mod_geq)
qed

text \<open>The position of the highest bit.\<close>

lemma leading_zeros_bounds:
  assumes "l \<noteq> 0"
  shows "leading_zeros l < 32" "2 ^ (31 - leading_zeros l) \<le> unat l" "unat l < 2 ^ (32 - leading_zeros l)"
proof -
  let ?P = "\<lambda>i. \<not> bit l i"
  let ?xs = "rev [0..<32]"
  let ?k = "leading_zeros l"
  have nth: "?xs ! j = 31 - j" if "j < 32" for j using that by (simp add: rev_nth)
  have bits: "bit (unat l) i \<longleftrightarrow> bit l i" for i using bit_imp_le_length [of l i] by (auto simp: bit_unsigned_iff)
  have len: "length (takeWhile ?P ?xs) \<le> 32" using length_takeWhile_le [of ?P ?xs] by simp
  show less: "?k < 32"
  proof (rule ccontr)
    assume "\<not> ?thesis"
    then have "length (takeWhile ?P ?xs) = length ?xs" using len by (simp add: leading_zeros_def)
    then have "takeWhile ?P ?xs = ?xs" by (metis takeWhile_eq_take take_all order_refl)
    then have none: "\<forall>i\<in>set ?xs. \<not> bit l i" by (simp only: takeWhile_eq_all_conv)
    have "l = 0"
    proof (rule bit_eqI)
      fix n
      assume "possible_bit TYPE(u32) n"
      then have "n < 32" by simp
      then show "bit l n \<longleftrightarrow> bit (0 :: u32) n" using none by simp
    qed
    then show False using assms by simp
  qed
  have "\<not> ?P (?xs ! ?k)" using less unfolding leading_zeros_def by (intro nth_length_takeWhile) simp
  then have top: "bit (unat l) (31 - ?k)" using nth [OF less] bits by simp
  show "2 ^ (31 - ?k) \<le> unat l"
  proof (rule ccontr)
    assume "\<not> ?thesis"
    then have "take_bit (31 - ?k) (unat l) = unat l" by (simp add: take_bit_nat_eq_self)
    then have "bit (take_bit (31 - ?k) (unat l)) (31 - ?k)" using top by simp
    then show False by (simp add: bit_take_bit_iff)
  qed
  have zero: "\<not> bit (unat l) i" if i: "32 - ?k \<le> i" for i
  proof (cases "i < 32")
    case True
    then have j: "31 - i < ?k" "?xs ! (31 - i) = i" using i less nth [of "31 - i"] by auto
    then have "takeWhile ?P ?xs ! (31 - i) = i" using takeWhile_nth [of "31 - i" ?P ?xs] by (simp add: leading_zeros_def)
    moreover have "takeWhile ?P ?xs ! (31 - i) \<in> set (takeWhile ?P ?xs)" using j(1) by (intro nth_mem) (simp add: leading_zeros_def)
    ultimately have "?P i" using set_takeWhileD [of _ ?P ?xs] by metis
    then show ?thesis using bits by simp
  next
    case False
    then show ?thesis using bits bit_imp_le_length [of l i] by auto
  qed
  have "take_bit (32 - ?k) (unat l) = unat l"
    using zero by (intro bit_eqI) (metis bit_take_bit_iff not_le)
  then show "unat l < 2 ^ (32 - ?k)" by (simp add: take_bit_nat_eq_self_iff)
qed

lemma BASE_power: "BASE ^ k = 2 ^ (k * 32)"
  unfolding BASE_def by (simp only: mult.commute [of k 32] power_mult)

lemma val_less_bits:
  assumes "trimmed x"
  shows "val x < 2 ^ bits_of x"
proof (cases x rule: rev_cases)
  case (snoc ys l)
  then have "l \<noteq> 0" using assms by (simp add: trimmed_def)
  have "val x < BASE ^ length ys + BASE ^ length ys * unat l" using val_less [of ys] snoc by (simp add: val_snoc)
  also have "\<dots> = BASE ^ length ys * Suc (unat l)" by simp
  also have "\<dots> \<le> BASE ^ length ys * 2 ^ (32 - leading_zeros l)"
    using leading_zeros_bounds(3) [OF \<open>l \<noteq> 0\<close>] by (intro mult_le_mono2) simp
  also have "\<dots> = 2 ^ bits_of x" using snoc by (simp add: bits_of_def BASE_power power_add)
  finally show ?thesis .
qed (simp add: bits_of_def)

end
