(* ===== verification/Big_Division.thy ===== *)
theory Big_Division
  imports Big_Arith
begin

unbundle bit_operations_syntax

text \<open>
  Long division computes the remainder: \<^verbatim>\<open>rem\<close> of \<^verbatim>\<open>crates/auth/src/crypto.rs\<close> against \<^verbatim>\<open>mod\<close>. The
  quotient estimate is never below the quotient digit and at most one above it, the multiply-subtract
  leaves a negative top limb exactly when it was one above, and the add-back repairs that.
\<close>

subsection \<open>Shifts\<close>

lemma unat_or_disjoint:
  assumes "\<And>n. \<not> bit (a :: u32) n \<or> \<not> bit b n"
  shows "unat (a OR b) = unat a + unat b"
proof -
  have "unat (a OR b) = unat a OR unat b" by (rule unsigned_or_eq)
  also have "\<dots> = unat a + unat b"
    using assms by (intro disjunctive_add [symmetric]) (auto simp: bit_unsigned_iff)
  finally show ?thesis .
qed

lemma unat_push_bit: "unat (push_bit sh (x :: u32)) = 2 ^ sh * unat x mod BASE"
  unfolding unsigned_push_bit_eq push_bit_eq_mult [of sh "unat x"] take_bit_eq_mod by (simp add: BASE_def mult.commute)

lemma unat_drop_bit: "unat (drop_bit sh (x :: u32)) = unat x div 2 ^ sh"
  using unat_drop_bit_eq [of sh x] by (simp only: drop_bit_eq_div)

lemma BASE_split: "sh < 32 \<Longrightarrow> 2 ^ sh * 2 ^ (32 - sh) = BASE"
  by (simp add: BASE_def flip: power_add)

lemma unat_shl_limb:
  assumes "0 < sh" "sh < 32"
  shows "unat (push_bit sh x OR drop_bit (32 - sh) (y :: u32)) = 2 ^ sh * unat x mod BASE + unat y div 2 ^ (32 - sh)"
proof -
  have "\<not> bit (push_bit sh x) n \<or> \<not> bit (drop_bit (32 - sh) y) n" for n
    using assms bit_imp_le_length [of y "32 - sh + n"] by (auto simp: bit_push_bit_iff bit_drop_bit_eq)
  from unat_or_disjoint [OF this] show ?thesis by (simp only: unat_push_bit unat_drop_bit)
qed

lemma unat_shr_limb:
  assumes "0 < sh" "sh < 32"
  shows "unat (drop_bit sh x OR push_bit (32 - sh) (y :: u32)) = unat x div 2 ^ sh + 2 ^ (32 - sh) * unat y mod BASE"
proof -
  have "\<not> bit (drop_bit sh x) n \<or> \<not> bit (push_bit (32 - sh) y) n" for n
    using assms bit_imp_le_length [of x "sh + n"] by (auto simp: bit_push_bit_iff bit_drop_bit_eq)
  from unat_or_disjoint [OF this] show ?thesis by (simp only: unat_push_bit unat_drop_bit)
qed

lemma length_shift_left [simp]: "length (shift_left sh below xs) = Suc (length xs)"
  by (induction xs arbitrary: below) simp_all

lemma val_shift_left:
  assumes "0 < sh" "sh < 32"
  shows "val (shift_left sh below xs) = 2 ^ sh * val xs + unat below div 2 ^ (32 - sh)"
proof (induction xs arbitrary: below)
  case Nil
  then show ?case by (simp add: unat_drop_bit)
next
  case (Cons x xs)
  have "unat x div 2 ^ (32 - sh) = 2 ^ sh * unat x div (2 ^ sh * 2 ^ (32 - sh))" by simp
  also have "\<dots> = 2 ^ sh * unat x div BASE" using assms by (simp only: BASE_split)
  finally have carry: "unat x div 2 ^ (32 - sh) = 2 ^ sh * unat x div BASE" .
  have "val (shift_left sh below (x # xs)) =
      2 ^ sh * unat x mod BASE + BASE * (2 ^ sh * unat x div BASE) + (unat below div 2 ^ (32 - sh) + BASE * (2 ^ sh * val xs))"
    using Cons assms by (simp add: unat_shl_limb carry algebra_simps)
  also have "\<dots> = 2 ^ sh * unat x + (unat below div 2 ^ (32 - sh) + BASE * (2 ^ sh * val xs))" by (simp only: mod_mult_div_eq)
  finally show ?case by (simp add: algebra_simps)
qed

lemma length_shift_right [simp]: "length (shift_right sh xs) = length xs"
  by (induction sh xs rule: shift_right.induct) simp_all

lemma val_shift_right:
  assumes "0 < sh" "sh < 32"
  shows "val (shift_right sh xs) = val xs div 2 ^ sh"
  using assms
proof (induction sh xs rule: shift_right.induct)
  case (3 sh x y ys)
  let ?T = "val (y # ys)"
  have split: "2 ^ sh * 2 ^ (32 - sh) = BASE" using 3 by (simp add: BASE_split)
  have "?T mod 2 ^ sh = unat y mod 2 ^ sh"
    unfolding val.simps split [symmetric] by (simp add: mult.assoc)
  then have "2 ^ (32 - sh) * unat y mod BASE = 2 ^ (32 - sh) * (?T mod 2 ^ sh)"
    unfolding split [symmetric] mult.commute [of "2 ^ sh"] by (simp only: mult_mod_right [symmetric])
  then have "2 ^ (32 - sh) * unat y mod BASE + BASE * (?T div 2 ^ sh) = 2 ^ (32 - sh) * (?T mod 2 ^ sh + 2 ^ sh * (?T div 2 ^ sh))"
    unfolding split [symmetric] by (simp only: distrib_left ac_simps)
  also have "\<dots> = 2 ^ (32 - sh) * ?T" by (simp only: mod_mult_div_eq)
  finally have tail: "2 ^ (32 - sh) * unat y mod BASE + BASE * (?T div 2 ^ sh) = 2 ^ (32 - sh) * ?T" .
  have "val (x # y # ys) div 2 ^ sh = (unat x + 2 ^ sh * (2 ^ (32 - sh) * ?T)) div 2 ^ sh"
    unfolding val.simps(2) [of x] split [symmetric] by (simp only: mult.assoc)
  also have "\<dots> = unat x div 2 ^ sh + 2 ^ (32 - sh) * ?T" by simp
  finally show ?case using 3 tail by (simp add: unat_shr_limb del: val.simps(2)) (simp only: val.simps(2) [of _ "shift_right sh (y # ys)"] unat_shr_limb)
qed (simp_all add: unat_drop_bit)

subsection \<open>The quotient estimate\<close>

text \<open>
  The estimate for the top three limbs: never below a digit whose product with the top two divisor
  limbs fits, and its own product fits.
\<close>

lemma qhat_loop_spec:
  assumes "qhat * v1 + rhat = num" "num < BASE * (v1 + 1)" "v2 < BASE" "q \<le> qhat" "q < BASE"
    "q * (v1 * BASE + v2) \<le> num * BASE + u2"
  shows "q \<le> qhat_loop v1 v2 u2 qhat rhat" "qhat_loop v1 v2 u2 qhat rhat < BASE"
    "qhat_loop v1 v2 u2 qhat rhat * (v1 * BASE + v2) \<le> num * BASE + u2"
proof -
  have "q \<le> qhat_loop v1 v2 u2 qhat rhat \<and> qhat_loop v1 v2 u2 qhat rhat < BASE \<and>
    qhat_loop v1 v2 u2 qhat rhat * (v1 * BASE + v2) \<le> num * BASE + u2"
    using assms
  proof (induction v1 v2 u2 qhat rhat rule: qhat_loop.induct)
    case (1 v1 v2 u2 qhat rhat)
    have test: "rhat * BASE + u2 < qhat * v2 \<longleftrightarrow> num * BASE + u2 < qhat * (v1 * BASE + v2)"
      using "1.prems"(1) by (auto simp: algebra_simps)
    show ?case
    proof (cases "BASE \<le> qhat \<or> rhat * BASE + u2 < qhat * v2")
      case False
      then show ?thesis using "1.prems" test by (subst (1 2 3) qhat_loop.simps) auto
    next
      case True
      have q: "q \<le> qhat - 1" "0 < qhat"
      proof -
        have "q < qhat"
        proof (rule ccontr)
          assume "\<not> q < qhat"
          then have "q = qhat" using "1.prems"(4) by simp
          then show False using True test "1.prems"(5,6) by auto
        qed
        then show "q \<le> qhat - 1" "0 < qhat" by simp_all
      qed
      have num: "(qhat - 1) * v1 + (rhat + v1) = num" using "1.prems"(1) q(2) by (cases qhat) auto
      show ?thesis
      proof (cases "BASE \<le> rhat + v1")
        case stop: True
        have small: "qhat - 1 < BASE"
        proof (rule ccontr)
          assume "\<not> ?thesis"
          then have "BASE * v1 \<le> (qhat - 1) * v1" by (intro mult_le_mono1) simp
          moreover have "num < BASE * v1 + BASE" using "1.prems"(2) by (simp add: algebra_simps)
          ultimately show False using num stop by linarith
        qed
        have "(qhat - 1) * v2 \<le> BASE * BASE" using small "1.prems"(3) by (intro mult_le_mono) auto
        also have "\<dots> \<le> (rhat + v1) * BASE" using stop by (intro mult_le_mono1) simp
        finally have "(qhat - 1) * v2 \<le> (rhat + v1) * BASE + u2" by linarith
        then have "(qhat - 1) * (v1 * BASE + v2) \<le> num * BASE + u2" unfolding num [symmetric] by (simp add: algebra_simps)
        then show ?thesis using True stop small q by (subst (1 2 3) qhat_loop.simps) auto
      next
        case False
        have "qhat_loop v1 v2 u2 qhat rhat = qhat_loop v1 v2 u2 (qhat - 1) (rhat + v1)"
          using True False by (subst qhat_loop.simps) simp
        then show ?thesis using "1.IH" [OF True False num "1.prems"(2,3) q(1) "1.prems"(5,6)] by simp
      qed
    qed
  qed
  then show "q \<le> qhat_loop v1 v2 u2 qhat rhat" "qhat_loop v1 v2 u2 qhat rhat < BASE"
    "qhat_loop v1 v2 u2 qhat rhat * (v1 * BASE + v2) \<le> num * BASE + u2" by blast+
qed

subsection \<open>Multiply and subtract, add back\<close>

lemma mul_sub_spec:
  assumes "length us = length vs" "0 \<le> b" "b \<le> 1" "mul_sub qhat vs us c b = (low, c', b')"
  shows "length low = length vs \<and> 0 \<le> b' \<and> b' \<le> 1 \<and>
    int (val low) = int (val us) - int qhat * int (val vs) - int c - b + int BASE ^ length vs * (int c' + b')"
  using assms
proof (induction qhat vs us c b arbitrary: low c' b' rule: mul_sub.induct)
  case (1 qhat v vs u us c b)
  define p where "p = qhat * unat v + c"
  define t where "t = int (unat u) - b - int (p mod BASE)"
  define b1 where "b1 = (if t < 0 then 1 else 0 :: int)"
  obtain rest c1 b2 where r: "mul_sub qhat vs us (p div BASE) b1 = (rest, c1, b2)" by (metis prod_cases3)
  have "mul_sub qhat (v # vs) (u # us) c b = (lo_int t # rest, c1, b2)"
    using r unfolding mul_sub.simps Let_def t_def p_def b1_def by simp
  then have low: "low = lo_int t # rest" "c' = c1" "b' = b2" using "1.prems"(4) by simp_all
  have t: "- int BASE \<le> t" "t < int BASE"
  proof -
    have "int (p mod BASE) < int BASE" by simp
    moreover have "0 \<le> int (p mod BASE)" by simp
    ultimately show "- int BASE \<le> t" "t < int BASE"
      unfolding t_def of_nat_unat using "1.prems"(2,3) uint_limb [of u] uint_ge_0 [of u] by linarith+
  qed
  have IH: "length rest = length vs \<and> 0 \<le> b2 \<and> b2 \<le> 1 \<and>
    int (val rest) = int (val us) - int qhat * int (val vs) - int (p div BASE) - b1 + int BASE ^ length vs * (int c1 + b2)"
    using "1.IH" [OF p_def t_def _ _ _ r [unfolded b1_def]] "1.prems"(1) by (simp add: b1_def)
  have digit: "int (unat (lo_int t)) = t + int BASE * b1" using lo_int_borrow [OF t] by (simp add: b1_def)
  have p: "int p = int (p mod BASE) + int BASE * int (p div BASE)"
    by (metis mod_mult_div_eq of_nat_add of_nat_mult)
  have "int (val (lo_int t # rest)) = t + int BASE * b1 + int BASE * (int (val us) - int qhat * int (val vs) - int (p div BASE) - b1 + int BASE ^ length vs * (int c1 + b2))"
    unfolding val.simps of_nat_add of_nat_mult digit using IH by simp
  also have "\<dots> = int (unat u) - b - int p + int BASE * (int (val us) - int qhat * int (val vs)) + int BASE ^ length (v # vs) * (int c1 + b2)"
    unfolding p t_def by (simp add: algebra_simps)
  also have "\<dots> = int (val (u # us)) - int qhat * int (val (v # vs)) - int c - b + int BASE ^ length (v # vs) * (int c1 + b2)"
    unfolding p_def val.simps of_nat_add of_nat_mult by (simp only: algebra_simps)
  finally show ?case using IH low by simp
qed auto

lemma add_back_spec:
  assumes "length us = length vs" "add_back vs us c = (low, c')"
  shows "length low = length vs \<and> val low + BASE ^ length vs * c' = val us + val vs + c"
  using assms
proof (induction vs us c arbitrary: low c' rule: add_back.induct)
  case (1 v vs u us c)
  define s where "s = unat u + unat v + c"
  obtain rest c1 where r: "add_back vs us (s div BASE) = (rest, c1)" by fastforce
  then have low: "low = lo s # rest" "c' = c1" using "1.prems"(2) by (simp_all add: Let_def s_def)
  have IH: "length rest = length vs" "val rest + BASE ^ length vs * c1 = val us + val vs + s div BASE"
    using "1.IH" [OF s_def _ r] "1.prems"(1) by auto
  have "val low + BASE ^ length (v # vs) * c' = s mod BASE + BASE * (val rest + BASE ^ length vs * c1)"
    by (simp add: low algebra_simps)
  also have "\<dots> = s mod BASE + BASE * (s div BASE) + BASE * (val us + val vs)" unfolding IH(2) by (simp add: algebra_simps)
  also have "\<dots> = val (u # us) + val (v # vs) + c" unfolding digit_split by (simp add: s_def algebra_simps)
  finally show ?case using IH low by simp
qed auto

subsection \<open>One digit\<close>

lemma high_part_zero: "a + c * b < (c :: nat) \<Longrightarrow> b = 0"
  by (cases b) auto

lemma list_top2:
  assumes "2 \<le> length v"
  shows "val v = val (take (length v - 2) v) + BASE ^ (length v - 2) * (unat (v ! (length v - 1)) * BASE + unat (v ! (length v - 2)))"
proof -
  have "drop (length v - 2) v = [v ! (length v - 2), v ! (length v - 1)]"
    using assms Cons_nth_drop_Suc [of "length v - 2" v] Cons_nth_drop_Suc [of "length v - 1" v]
    by (simp add: numeral_2_eq_2 Suc_diff_Suc)
  then show ?thesis using val_take_drop [of "length v - 2" v] by simp
qed

lemma list_top3:
  assumes "length w = n + 1" "2 \<le> n"
  shows "val w = val (take (n - 2) w)
    + BASE ^ (n - 2) * ((unat (w ! n) * BASE + unat (w ! (n - 1))) * BASE + unat (w ! (n - 2)))"
proof -
  have "drop (n - 2) w = [w ! (n - 2), w ! (n - 1), w ! n]"
    using assms Cons_nth_drop_Suc [of "n - 2" w] Cons_nth_drop_Suc [of "n - 1" w] Cons_nth_drop_Suc [of n w]
    by (simp add: numeral_2_eq_2 Suc_diff_Suc)
  then show ?thesis using val_take_drop [of "n - 2" w] assms by (simp add: algebra_simps)
qed

text \<open>The estimate for a window below the divisor times the base is the digit or one above it.\<close>

lemma qhat_bounds:
  assumes "2 \<le> length v" "last v \<noteq> 0" "length w = length v + 1" "val w < val v * BASE"
  defines "n \<equiv> length v"
  defines "num \<equiv> unat (w ! n) * BASE + unat (w ! (n - 1))"
  defines "qhat \<equiv> qhat_loop (unat (v ! (n - 1))) (unat (v ! (n - 2))) (unat (w ! (n - 2)))
      (num div unat (v ! (n - 1))) (num mod unat (v ! (n - 1)))"
  shows "val w div val v \<le> qhat" "qhat \<le> val w div val v + 1" "qhat < BASE"
proof -
  define v1 v2 u2 where "v1 = unat (v ! (n - 1))" "v2 = unat (v ! (n - 2))" "u2 = unat (w ! (n - 2))"
  define P where "P = BASE ^ (n - 2)"
  define q where "q = val w div val v"
  have "v ! (n - 1) = last v" using assms(1) by (metis n_def last_conv_nth list.size(3) not_numeral_le_zero)
  then have v1: "0 < v1" using assms(2) by (simp add: v1_v2_u2_def unat_gt_0)
  have P: "0 < P" by (simp add: P_def)
  obtain vl where V: "val v = vl + P * (v1 * BASE + v2)" "vl < P"
    using list_top2 [OF assms(1)] val_less [of "take (n - 2) v"] assms(1)
    by (auto simp: n_def v1_v2_u2_def P_def min_absorb2)
  obtain wl where W: "val w = wl + P * (num * BASE + u2)" "wl < P"
    using list_top3 [OF assms(3)] assms(1) val_less [of "take (n - 2) w"] assms(3)
    by (auto simp: n_def v1_v2_u2_def P_def num_def min_absorb2)
  have small: "v1 < BASE" "v2 < BASE" "u2 < BASE" by (simp_all add: v1_v2_u2_def)
  have "val v < P * (v1 * BASE + v2 + 1)" using V by simp
  also have "\<dots> \<le> P * (BASE * (v1 + 1))" using small by (intro mult_le_mono2) simp
  finally have "val v * BASE < P * (BASE * (v1 + 1)) * BASE" by simp
  then have "P * (num * BASE) < P * (BASE * (v1 + 1) * BASE)" using W assms(4) by (simp add: algebra_simps)
  then have num: "num < BASE * (v1 + 1)" using P by simp
  have "0 < val v" using V P v1 by simp
  then have qB: "q < BASE" using assms(4) by (simp add: q_def div_less_iff_less_mult mult.commute)
  have qV: "q * val v \<le> val w" by (simp add: q_def)
  have fits: "q * (v1 * BASE + v2) \<le> num * BASE + u2"
  proof -
    have "P * (q * (v1 * BASE + v2)) \<le> q * val v" unfolding V(1) by (simp add: algebra_simps)
    also have "\<dots> < P * (num * BASE + u2 + 1)" using qV W by simp
    finally have "q * (v1 * BASE + v2) < num * BASE + u2 + 1" by (simp only: mult_less_cancel1)
    then show ?thesis by simp
  qed
  have qnum: "q \<le> num div v1"
  proof -
    have "q * v1 * BASE \<le> num * BASE + u2" using fits by (simp add: algebra_simps)
    also have "\<dots> < (num + 1) * BASE" using small by simp
    finally have "q * v1 < num + 1" by (simp only: mult_less_cancel2)
    then show ?thesis using v1 by (simp add: less_eq_div_iff_mult_less_eq)
  qed
  have start: "num div v1 * v1 + num mod v1 = num" by simp
  have qhat: "qhat = qhat_loop v1 v2 u2 (num div v1) (num mod v1)" unfolding qhat_def v1_v2_u2_def ..
  note spec = qhat_loop_spec [OF start num small(2) qnum qB fits, folded qhat]
  show "val w div val v \<le> qhat" "qhat < BASE" using spec by (simp_all add: q_def)
  have "qhat * val v = qhat * vl + P * (qhat * (v1 * BASE + v2))" unfolding V(1) by (simp add: algebra_simps)
  also have "\<dots> \<le> qhat * vl + val w" using spec(3) W(1) by (simp add: trans_le_add2)
  also have "qhat * vl < val v"
  proof -
    have "qhat * vl \<le> BASE * vl" using spec(2) by simp
    also have "\<dots> < BASE * P" using V(2) by simp
    also have "\<dots> \<le> P * (v1 * BASE + v2)" using v1 by (cases v1) (simp_all add: algebra_simps)
    also have "\<dots> \<le> val v" using V(1) by simp
    finally show ?thesis .
  qed
  finally have "qhat * val v < val w + val v" by simp
  also have "\<dots> < (q + 2) * val v"
    using \<open>0 < val v\<close> dividend_less_div_times [of "val v" "val w"] by (simp add: q_def algebra_simps)
  finally have "qhat < q + 2" by (simp only: mult_less_cancel2)
  then show "qhat \<le> val w div val v + 1" unfolding q_def by linarith
qed

lemma div_digit_spec:
  assumes "2 \<le> length v" "last v \<noteq> 0" "length w = length v + 1" "val w < val v * BASE"
  shows "length (div_digit v w) = length w \<and> val (div_digit v w) = val w mod val v"
proof -
  let ?n = "length v"
  let ?B = "int BASE ^ ?n"
  define num where "num = unat (w ! ?n) * BASE + unat (w ! (?n - 1))"
  define qhat where "qhat = qhat_loop (unat (v ! (?n - 1))) (unat (v ! (?n - 2))) (unat (w ! (?n - 2)))
      (num div unat (v ! (?n - 1))) (num mod unat (v ! (?n - 1)))"
  have q: "val w div val v \<le> qhat" "qhat \<le> val w div val v + 1" "qhat < BASE"
    using qhat_bounds [OF assms] by (simp_all only: qhat_def num_def)
  obtain low c b where ms: "mul_sub qhat v (take ?n w) 0 0 = (low, c, b)" by (metis prod_cases3)
  have low: "length low = ?n" "int (val low) = int (val (take ?n w)) - int qhat * int (val v) + ?B * (int c + b)"
    using mul_sub_spec [OF _ _ _ ms] assms(3) by auto
  define t where "t = int (unat (w ! ?n)) - int c - b"
  have "drop ?n w = [w ! ?n]" using Cons_nth_drop_Suc [of ?n w] assms(3) by simp
  then have "val w = val (take ?n w) + BASE ^ ?n * unat (w ! ?n)" using val_take_drop [of ?n w] assms(3) by simp
  then have W: "int (val w) = int (val (take ?n w)) + ?B * int (unat (w ! ?n))" by (simp only: of_nat_add of_nat_mult of_nat_power)
  have total: "int (val low) + ?B * t = int (val w) - int qhat * int (val v)"
    unfolding low(2) W t_def by (simp add: algebra_simps)
  have bounds: "0 \<le> int (val low)" "int (val low) < ?B"
    using val_less [of low] low(1) by (simp_all flip: of_nat_power)
  have V: "0 < val v" using assms(4) by (cases "val v") simp_all
  have Vlt: "int (val v) < ?B" using val_less [of v] by (simp flip: of_nat_power)
  define r where "r = val w mod val v"
  have r: "r < val v" "int (val w) = int (val w div val v) * int (val v) + int r"
    using V div_mult_mod_eq [of "val w" "val v"] by (simp_all add: r_def flip: of_nat_mult of_nat_add)
  have digit: "div_digit v w = (if t < 0 then let (low', carry') = add_back v low 0 in low' @ [lo (unat (lo_int t) + carry')] else low @ [lo_int t])"
    unfolding div_digit_def Let_def num_def [symmetric] qhat_def [symmetric] ms t_def by simp
  show ?thesis
  proof (cases "qhat = val w div val v")
    case True
    then have eq: "int (val low) + ?B * t = int r" using total r(2) by simp
    have "t = 0"
    proof (rule ccontr)
      assume "t \<noteq> 0"
      then consider "?B * t \<le> - ?B" | "?B \<le> ?B * t" using mult_left_mono [of t "- 1" ?B] mult_left_mono [of 1 t ?B] by linarith
      then show False using eq bounds r(1) Vlt by cases linarith+
    qed
    then show ?thesis using eq digit low(1) assms(3) by (simp add: r_def lo_int_def val_snoc)
  next
    case False
    then have "qhat = val w div val v + 1" using q(1,2) by linarith
    then have "int qhat * int (val v) = int (val w div val v) * int (val v) + int (val v)"
      by (simp only: of_nat_add distrib_right of_nat_1 mult_1_left)
    then have eq: "int (val low) + ?B * t = int r - int (val v)" using total r(2) by simp
    have t: "t = - 1"
    proof (rule ccontr)
      assume "t \<noteq> - 1"
      then consider "?B * t \<le> ?B * - 2" | "0 \<le> ?B * t" using mult_left_mono [of t "- 2" ?B] by (cases "0 \<le> t") auto
      then show False using eq bounds r(1) Vlt by cases linarith+
    qed
    obtain low' c' where ab: "add_back v low 0 = (low', c')" by fastforce
    have added: "length low' = ?n" "val low' + BASE ^ ?n * c' = val low + val v" using add_back_spec [OF low(1) ab] by auto
    have "int (val low') + ?B * int c' = ?B + int r" using eq t arg_cong [OF added(2), of int] by simp
    then have "val low' + BASE ^ ?n * c' = BASE ^ ?n + r" by (simp flip: of_nat_power of_nat_mult of_nat_add)
    moreover have "val low' < BASE ^ ?n" "r < BASE ^ ?n" using val_less [of low'] added(1) r(1) val_less [of v] by simp_all
    ultimately have c': "c' = 1" "val low' = r" by (cases c'; simp; cases "c' - 1"; simp)+
    have "int (unat (lo_int t)) = int (BASE - 1)" unfolding unat_lo_int t by (simp add: BASE_def)
    then have "unat (lo_int t) = BASE - 1" by (simp only: of_nat_eq_iff)
    then have "unat (lo_int t) + c' = BASE" using c' by simp
    then have "lo (unat (lo_int t) + c') = 0" by (simp add: word_unat_eq_iff)
    then show ?thesis using digit t ab c' added(1) assms(3) by (simp add: r_def val_snoc_zero)
  qed
qed

subsection \<open>The digits together\<close>

lemma val_div_loop:
  assumes "2 \<le> length v" "last v \<noteq> 0" "j + length v + 1 \<le> length u" "val (drop j u) < val v * BASE"
  shows "length (div_loop v j u) = length u \<and> val (div_loop v j u) = val u mod val v"
  using assms
proof (induction v j u rule: div_loop.induct)
  case (1 v j u)
  let ?n = "length v"
  let ?W = "val (drop j u)"
  define w where "w = take (?n + 1) (drop j u)"
  define d where "d = div_digit v w"
  define u' where "u' = splice u j d"
  have w: "length w = ?n + 1" using "1.prems"(3) by (simp add: w_def)
  have W: "?W = val w + BASE ^ (?n + 1) * val (drop (?n + 1) (drop j u))"
    unfolding w_def using "1.prems"(3) by (intro val_take_drop) simp
  have "val v * BASE < BASE ^ (?n + 1)" using val_less [of v] by simp
  then have "val w + BASE ^ (?n + 1) * val (drop (?n + 1) (drop j u)) < BASE ^ (?n + 1)" using W "1.prems"(4) by linarith
  then have above: "val (drop (?n + 1) (drop j u)) = 0" by (rule high_part_zero)
  then have wW: "val w = ?W" using W by simp
  then have d: "length d = ?n + 1" "val d = ?W mod val v"
    using div_digit_spec [OF "1.prems"(1,2) w] "1.prems"(4) w by (simp_all add: d_def)
  have len: "length u' = length u" using d(1) "1.prems"(3) by (simp add: u'_def)
  have drop': "drop j u' = d @ drop (?n + 1) (drop j u)"
    using d(1) "1.prems"(3) by (simp add: u'_def splice_def min_absorb2 add.commute)
  then have Wr: "val (drop j u') = ?W mod val v" using above d by (simp add: val_append)
  have take': "take j u' = take j u" using "1.prems"(3) by (simp add: u'_def splice_def min_absorb2)
  have "val u' = val (take j u) + BASE ^ j * (?W mod val v)"
    using val_take_drop [of j u'] len "1.prems"(3) Wr take' by simp
  moreover have "val u = val (take j u) + BASE ^ j * ?W" using "1.prems"(3) by (intro val_take_drop) simp
  ultimately have cong: "val u' mod val v = val u mod val v" by (metis mod_add_right_eq mod_mult_right_eq)
  have V: "0 < val v" using "1.prems"(4) by (cases "val v") simp_all
  have step: "div_loop v j u = (case j of 0 \<Rightarrow> u' | Suc j' \<Rightarrow> div_loop v j' u')"
    unfolding u'_def d_def w_def by (subst div_loop.simps) (simp only: Let_def)
  show ?case
  proof (cases j)
    case 0
    then have "val u' = val u mod val v" using Wr by simp
    then show ?thesis using step 0 len by simp
  next
    case (Suc j')
    have "drop j' u' = u' ! j' # drop j u'" using Suc len "1.prems"(3) by (simp add: Cons_nth_drop_Suc)
    then have "val (drop j' u') = unat (u' ! j') + BASE * (?W mod val v)" using Wr by simp
    also have "\<dots> < BASE + BASE * (?W mod val v)" by simp
    also have "\<dots> = BASE * Suc (?W mod val v)" by simp
    also have "\<dots> \<le> BASE * val v" using V by (intro mult_le_mono2) (simp add: Suc_leI)
    finally have next_window: "val (drop j' u') < val v * BASE" by (simp add: mult.commute)
    have "length (div_loop v j' u') = length u' \<and> val (div_loop v j' u') = val u' mod val v"
      using "1.IH" [OF _ Suc "1.prems"(1,2) _ next_window] len "1.prems"(3) Suc
      by (simp add: u'_def d_def w_def)
    then show ?thesis using step Suc len cong by simp
  qed
qed

lemma rem_one_limb_spec:
  "0 < d \<Longrightarrow> d < BASE \<Longrightarrow> r < d \<Longrightarrow> rem_one_limb d ls r = (r * BASE ^ length ls + val (rev ls)) mod d"
proof (induction d ls r rule: rem_one_limb.induct)
  case (2 d l ls r)
  let ?r = "(r * BASE + unat l) mod d"
  have "?r mod BASE = ?r" using "2.prems" by (simp add: less_trans [OF mod_less_divisor])
  then have "rem_one_limb d (l # ls) r = (?r * BASE ^ length ls + val (rev ls)) mod d" using "2.IH" "2.prems" by simp
  also have "\<dots> = ((r * BASE + unat l) * BASE ^ length ls + val (rev ls)) mod d" by (metis mod_add_left_eq mod_mult_left_eq)
  also have "(r * BASE + unat l) * BASE ^ length ls + val (rev ls) = r * BASE ^ length (l # ls) + val (rev (l # ls))"
    by (simp add: val_append algebra_simps)
  finally show ?case .
qed simp

text \<open>The normalised divisor and dividend.\<close>

lemma normalised_divisor:
  assumes "trimmed m" "2 \<le> length m"
  defines "sh \<equiv> leading_zeros (last m)"
  defines "v \<equiv> (if sh = 0 then m else butlast (shift_left sh 0 m))"
  shows "sh < 32" "length v = length m" "val v = 2 ^ sh * val m" "last v \<noteq> 0" "BASE ^ length m \<le> 2 * val v"
proof -
  have ne: "m \<noteq> []" "last m \<noteq> 0" using assms(1,2) by (auto simp: trimmed_def)
  note lz = leading_zeros_bounds [OF ne(2), folded sh_def]
  show "sh < 32" by (rule lz(1))
  let ?k = "length m - 1"
  have M: "val m = val (butlast m) + BASE ^ ?k * unat (last m)"
    using val_snoc [of "butlast m" "last m"] ne(1) by simp
  have lowm: "val (butlast m) < BASE ^ ?k" using val_less [of "butlast m"] by simp
  have Bm: "BASE ^ length m = BASE ^ ?k * BASE" using ne(1) by (cases m) simp_all
  have "val m < BASE ^ ?k * (unat (last m) + 1)" using M lowm by simp
  also have "\<dots> \<le> BASE ^ ?k * 2 ^ (32 - sh)" using lz(3) by (intro mult_le_mono2) simp
  finally have "2 ^ sh * val m < 2 ^ sh * (BASE ^ ?k * 2 ^ (32 - sh))" by simp
  also have "\<dots> = BASE ^ length m" using BASE_split [OF lz(1)] unfolding Bm by (simp add: algebra_simps)
  finally have upper: "2 ^ sh * val m < BASE ^ length m" .
  show v: "length v = length m" by (simp add: v_def)
  show V: "val v = 2 ^ sh * val m"
  proof (cases "sh = 0")
    case False
    let ?s = "shift_left sh 0 m"
    have s: "val ?s = 2 ^ sh * val m" using val_shift_left [of sh 0 m] False lz(1) by simp
    moreover have "val ?s = val (butlast ?s) + BASE ^ length m * unat (last ?s)"
    proof -
      have "?s \<noteq> []" by (metis length_shift_left list.size(3) nat.distinct(1))
      then show ?thesis using val_snoc [of "butlast ?s" "last ?s"] by simp
    qed
    ultimately have "val (butlast ?s) + BASE ^ length m * unat (last ?s) < BASE ^ length m" using upper by linarith
    then have "unat (last ?s) = 0" by (rule high_part_zero)
    then show ?thesis using s \<open>val ?s = val (butlast ?s) + _\<close> False by (simp add: v_def)
  qed (simp add: v_def)
  have "BASE = 2 * (2 ^ sh * 2 ^ (31 - sh))"
    using BASE_split [OF lz(1)] lz(1) by (simp flip: power_add power_Suc)
  then have "BASE ^ ?k * BASE = BASE ^ ?k * (2 * (2 ^ sh * 2 ^ (31 - sh)))" by (rule arg_cong)
  then have "BASE ^ length m = 2 * (2 ^ sh * (BASE ^ ?k * 2 ^ (31 - sh)))" unfolding Bm by (simp only: ac_simps)
  also have "\<dots> \<le> 2 * (2 ^ sh * (BASE ^ ?k * unat (last m)))" using lz(2) by (intro mult_le_mono2) simp
  also have "\<dots> \<le> 2 * val v" unfolding V M by (intro mult_le_mono2) simp
  finally show half: "BASE ^ length m \<le> 2 * val v" .
  show "last v \<noteq> 0"
  proof
    assume "last v = 0"
    moreover have "v \<noteq> []" using v ne(1) by auto
    ultimately have "butlast v @ [0] = v" by (metis append_butlast_last_id)
    then have "val v = val (butlast v)" by (metis val_snoc_zero)
    then have "val v < BASE ^ ?k" using val_less [of "butlast v"] v by simp
    moreover have "2 * BASE ^ ?k \<le> BASE ^ length m" unfolding Bm by (simp add: BASE_def)
    ultimately show False using half by linarith
  qed
qed

lemma normalised_dividend:
  fixes x :: "u32 list"
  assumes "sh < 32"
  defines "u \<equiv> (if sh = 0 then x @ [0] else shift_left sh 0 x)"
  shows "length u = length x + 1" "val u = 2 ^ sh * val x"
  using assms val_shift_left [of sh 0 x] by (auto simp: val_snoc_zero)

lemma big_rem_spec:
  assumes "trimmed x" "trimmed m" "m \<noteq> []"
  shows "trimmed (big_rem x m) \<and> val (big_rem x m) = val x mod val m"
proof -
  consider "big_cmp x m = Less" | "big_cmp x m \<noteq> Less" "length m = 1" | "big_cmp x m \<noteq> Less" "2 \<le> length m"
  proof -
    have "length m \<noteq> 0" using assms(3) by simp
    then have "length m = 1 \<or> 2 \<le> length m" by linarith
    then show ?thesis using that by blast
  qed
  then show ?thesis
  proof cases
    case 1
    then have "val x < val m" using big_cmp_val [OF assms(1,2)] by (auto simp: word_cmp_def split: if_splits)
    then show ?thesis using 1 assms(1) by (simp add: big_rem_def)
  next
    case 2
    then obtain l where m: "m = [l]" "l \<noteq> 0" using assms(2) by (cases m) (auto simp: trimmed_def)
    then have l: "0 < unat l" by (simp add: unat_gt_0)
    then have "rem_one_limb (unat l) (rev x) 0 = val x mod unat l" by (simp add: rem_one_limb_spec)
    moreover have "val x mod unat l < BASE" using l unat_limb [of l] by (metis mod_less_divisor less_trans)
    ultimately show ?thesis using 2 m by (simp add: big_rem_def)
  next
    case 3
    have ge: "val m \<le> val x" using 3(1) big_cmp_val [OF assms(1,2)] by (auto simp: word_cmp_def split: if_splits)
    have len: "length m \<le> length x" using trimmed_shorter [OF assms(2), of x] ge by linarith
    define sh where "sh = leading_zeros (last m)"
    define v where "v = (if sh = 0 then m else butlast (shift_left sh 0 m))"
    define u where "u = (if sh = 0 then x @ [0] else shift_left sh 0 x)"
    define u' where "u' = div_loop v (length x - length m) u"
    define r where "r = (if sh = 0 then take (length m) u' else shift_right sh (take (length m) u'))"
    note nv = normalised_divisor [OF assms(2) 3(2), folded sh_def, folded v_def]
    note nu = normalised_dividend [OF nv(1), of x, folded u_def]
    let ?j = "length x - length m"
    have U: "val u = val (take ?j u) + BASE ^ ?j * val (drop ?j u)" using nu(1) by (intro val_take_drop) simp
    have "BASE ^ ?j * val (drop ?j u) \<le> 2 ^ sh * val x" using U nu(2) by simp
    also have "\<dots> < 2 ^ sh * BASE ^ length x" using val_less [of x] by simp
    also have "\<dots> = 2 ^ sh * (BASE ^ ?j * BASE ^ length m)" using len by (simp flip: power_add)
    finally have "BASE ^ ?j * val (drop ?j u) < BASE ^ ?j * (2 ^ sh * BASE ^ length m)" by (simp add: ac_simps)
    then have "val (drop ?j u) < 2 ^ sh * BASE ^ length m" by (simp only: mult_less_cancel1)
    also have "\<dots> \<le> 2 ^ sh * (2 * val v)" using nv(5) by (intro mult_le_mono2)
    also have "\<dots> \<le> BASE * val v"
    proof -
      have "2 * 2 ^ sh * 2 ^ (31 - sh) = BASE" using nv(1) by (simp add: BASE_def flip: power_add power_Suc)
      then have "2 * 2 ^ sh \<le> BASE" by (metis le_add1 mult.right_neutral mult_le_mono2 one_le_numeral one_le_power)
      then show ?thesis by (metis mult.assoc mult.commute mult_le_mono1)
    qed
    finally have "val (drop ?j u) < val v * BASE" by (simp add: mult.commute)
    then have u': "length u' = length u" "val u' = val u mod val v"
      using val_div_loop [of v ?j u] nv(2,4) 3(2) nu(1) len by (auto simp: u'_def)
    have V: "0 < val v" using \<open>val (drop ?j u) < val v * BASE\<close> by (cases "val v") simp_all
    have "val u' < BASE ^ length m"
    proof -
      have "val u' < val v" using u'(2) V by simp
      then show ?thesis using val_less [of v] nv(2) by simp
    qed
    moreover have "val u' = val (take (length m) u') + BASE ^ length m * val (drop (length m) u')"
      using u'(1) nu(1) len by (intro val_take_drop) simp
    ultimately have "val (take (length m) u') + BASE ^ length m * val (drop (length m) u') < BASE ^ length m" by linarith
    then have "val (drop (length m) u') = 0" by (rule high_part_zero)
    then have "val (take (length m) u') = val u'" using \<open>val u' = val (take _ _) + _\<close> by simp
    then have low: "val (take (length m) u') = 2 ^ sh * (val x mod val m)"
      by (simp only: u'(2) nu(2) nv(3) mult_mod_right [symmetric])
    then have "val r = val x mod val m" using nv(1) by (simp add: r_def val_shift_right)
    moreover have "big_rem x m = big_trim r"
      using 3 assms(3) by (simp add: big_rem_def Let_def sh_def v_def u_def u'_def r_def)
    ultimately show ?thesis by simp
  qed
qed

lemma trimmed_zero_iff: "trimmed x \<Longrightarrow> val x = 0 \<longleftrightarrow> x = []"
proof (cases "x = []")
  case False
  assume "trimmed x"
  then have "BASE ^ (length x - 1) \<le> val x" using False by (rule trimmed_val_ge)
  moreover have "0 < BASE ^ (length x - 1)" by simp
  ultimately have "0 < val x" by linarith
  then show ?thesis using False by simp
qed simp

lemma val_big_rem: "trimmed x \<Longrightarrow> trimmed m \<Longrightarrow> val (big_rem x m) = val x mod val m"
  using big_rem_spec [of x m] by (cases "m = []") (auto simp: big_rem_def)

lemma trimmed_big_rem: "trimmed x \<Longrightarrow> trimmed m \<Longrightarrow> trimmed (big_rem x m)"
  using big_rem_spec [of x m] by (cases "m = []") (auto simp: big_rem_def)

end
