(* ===== verification/Big_Montgomery.thy ===== *)
theory Big_Montgomery
  imports Big_Division
begin

unbundle bit_operations_syntax

text \<open>
  Modular exponentiation of \<^verbatim>\<open>crates/auth/src/crypto.rs\<close>: one Montgomery step divides exactly by the base,
  the interleaved multiplication keeps its accumulator below twice the modulus, Newton's iteration gives
  the inverse of the lowest limb, and both exponentiation loops compute the power.
\<close>

subsection \<open>One step\<close>

lemma mont_red_eq: "mont_red mp ms ts c = mul_row mp ms ts c"
  by (induction mp ms ts c rule: mont_red.induct) (simp_all add: Let_def)

definition acc :: "u32 list \<times> u32 \<Rightarrow> nat" where
  "acc tt = val (fst tt) + BASE ^ length (fst tt) * unat (snd tt)"

text \<open>The reduction multiple clears the lowest limb.\<close>

lemma mont_digit:
  assumes "n0 * m0 = (- 1 :: u32)"
  shows "BASE dvd unat t0 + unat (t0 * n0) * unat m0"
proof -
  have "t0 + t0 * n0 * m0 = t0 + t0 * (n0 * m0)" by (simp only: mult.assoc)
  also have "\<dots> = 0" unfolding assms by simp
  finally have zero: "t0 + t0 * n0 * m0 = 0" .
  have "(of_nat (unat t0 + unat (t0 * n0) * unat m0) :: u32) = t0 + t0 * n0 * m0" by simp
  then have "unat (of_nat (unat t0 + unat (t0 * n0) * unat m0) :: u32) = 0" unfolding zero by simp
  then show ?thesis unfolding unat_of_nat by (simp add: BASE_def dvd_eq_mod_eq_0)
qed

lemma mont_step_spec:
  assumes "n0 * hd m = (- 1 :: u32)" "m \<noteq> []" "length b = length m" "length t = length m"
    "val b < val m" "acc (t, tn) < 2 * val m"
  shows "\<exists>k. BASE * acc (mont_step b m n0 ai (t, tn)) = acc (t, tn) + unat ai * val b + k * val m"
    "acc (mont_step b m n0 ai (t, tn)) < 2 * val m"
    "length (fst (mont_step b m n0 ai (t, tn))) = length m"
proof -
  let ?n = "length m"
  obtain m0 ms where m: "m = m0 # ms" using assms(2) by (cases m) auto
  obtain t1 c1 where r1: "mul_row ai b t 0 = (t1, c1)" by fastforce
  have t1: "length t1 = ?n" "c1 < BASE" "val t1 + BASE ^ ?n * c1 = val t + unat ai * val b"
    using mul_row_spec [OF _ _ r1] assms(3,4) by auto
  obtain h hs where h: "t1 = h # hs" using t1(1) m by (cases t1) auto
  define mp where "mp = h * n0"
  define z where "z = unat h + unat mp * unat m0"
  have z: "z = BASE * (z div BASE)" using mont_digit [of n0 m0 h] assms(1) m by (simp add: z_def mp_def)
  obtain t2 c3 where r2: "mul_row mp ms hs (z div BASE) = (t2, c3)" by fastforce
  have zB: "z div BASE < BASE" using u64_carry [of "unat h" "unat mp" "unat m0" 0] by (simp add: z_def)
  have t2: "length t2 = length ms" "c3 < BASE" "val t2 + BASE ^ length ms * c3 = val hs + unat mp * val ms + z div BASE"
    using mul_row_spec [OF _ zB r2] t1(1) m h by auto
  define cur cur2 where "cur = unat tn + c1" "cur2 = unat (lo cur) + c3"
  have out: "mont_step b m n0 ai (t, tn) = (t2 @ [lo cur2], lo (cur div BASE) + lo (cur2 div BASE))"
    using r1 r2 by (simp add: mont_step_def m h mont_red_eq mp_def z_def cur_cur2_def Let_def)
  have small: "cur < 2 * BASE" "cur2 < 2 * BASE"
    using t1(2) t2(2) unat_limb [of tn] unat_limb [of "lo cur"] unfolding cur_cur2_def by linarith+
  then have "cur div BASE < 2" "cur2 div BASE < 2" by (simp_all add: less_mult_imp_div_less)
  then have carry: "cur div BASE \<le> 1" "cur2 div BASE \<le> 1" by simp_all
  have top: "unat (lo (cur div BASE) + lo (cur2 div BASE)) = cur div BASE + cur2 div BASE"
  proof -
    have "lo (cur div BASE) + lo (cur2 div BASE) = lo (cur div BASE + cur2 div BASE)" by (simp add: lo_def)
    moreover have "cur div BASE + cur2 div BASE < BASE" using carry by (simp add: BASE_def)
    ultimately show ?thesis by simp
  qed
  let ?A = "acc (mont_step b m n0 ai (t, tn))"
  let ?P = "BASE ^ length ms"
  have "?A = val t2 + ?P * (cur2 mod BASE) + ?P * BASE * (cur div BASE + cur2 div BASE)"
    unfolding out acc_def using t2(1) top by (simp add: val_snoc)
  also have "\<dots> = val t2 + ?P * (cur2 mod BASE + BASE * (cur2 div BASE)) + ?P * BASE * (cur div BASE)"
    by (simp only: distrib_left ac_simps)
  also have "\<dots> = (val t2 + ?P * c3) + ?P * (cur mod BASE + BASE * (cur div BASE))"
    unfolding mod_mult_div_eq [of cur2] by (simp only: cur_cur2_def(2) unat_lo distrib_left ac_simps)
  also have "\<dots> = val hs + unat mp * val ms + z div BASE + ?P * cur"
    unfolding mod_mult_div_eq t2(3) ..
  finally have "BASE * ?A = z + BASE * (val hs + unat mp * val ms + ?P * cur)"
    using z by (simp add: algebra_simps)
  also have "\<dots> = val t1 + unat mp * val m + BASE ^ ?n * cur"
    unfolding m h z_def by (simp add: algebra_simps)
  also have "\<dots> = (val t1 + BASE ^ ?n * c1) + BASE ^ ?n * unat tn + unat mp * val m"
    by (simp add: cur_cur2_def algebra_simps)
  also have "\<dots> = acc (t, tn) + unat ai * val b + unat mp * val m"
    unfolding t1(3) using assms(4) by (simp add: acc_def)
  finally have step: "BASE * ?A = acc (t, tn) + unat ai * val b + unat mp * val m" .
  then show "\<exists>k. BASE * ?A = acc (t, tn) + unat ai * val b + k * val m" by blast
  show "length (fst (mont_step b m n0 ai (t, tn))) = ?n" unfolding out using t2(1) m by simp
  obtain B where B: "BASE = Suc B" using BASE_pos(1) gr0_conv_Suc by blast
  have "unat ai * val b \<le> B * val m" "unat mp * val m \<le> B * val m"
    using unat_limb [of ai] unat_limb [of mp] assms(5) by (intro mult_le_mono; simp add: B less_Suc_eq_le)+
  then have "BASE * ?A < 2 * val m + B * val m + B * val m" unfolding step using assms(6) by linarith
  also have "\<dots> = BASE * (2 * val m)" unfolding B by simp
  finally show "?A < 2 * val m" by (simp only: mult_less_cancel1)
qed

lemma mont_fold_spec:
  assumes "n0 * hd m = (- 1 :: u32)" "m \<noteq> []" "length b = length m" "val b < val m"
  shows "length (fst tt) = length m \<Longrightarrow> acc tt < 2 * val m \<Longrightarrow>
    (\<exists>k. BASE ^ length as * acc (fold (mont_step b m n0) as tt) = acc tt + val as * val b + k * val m) \<and>
    acc (fold (mont_step b m n0) as tt) < 2 * val m \<and> length (fst (fold (mont_step b m n0) as tt)) = length m"
proof (induction as arbitrary: tt)
  case Nil
  then show ?case by auto
next
  case (Cons a as)
  obtain t tn where tt: "tt = (t, tn)" by fastforce
  let ?s = "mont_step b m n0 a tt"
  note step = mont_step_spec [OF assms(1-3) _ assms(4), of t tn a, folded tt]
  have s: "length (fst ?s) = length m" "acc ?s < 2 * val m" using step Cons.prems tt by simp_all
  obtain k1 where k1: "BASE * acc ?s = acc tt + unat a * val b + k1 * val m" using step(1) Cons.prems tt by auto
  obtain k2 where k2: "BASE ^ length as * acc (fold (mont_step b m n0) as ?s) = acc ?s + val as * val b + k2 * val m"
    using Cons.IH [OF s] by blast
  have "BASE ^ length (a # as) * acc (fold (mont_step b m n0) (a # as) tt) = BASE * acc ?s + BASE * (val as * val b + k2 * val m)"
    using k2 by (simp add: algebra_simps)
  also have "\<dots> = acc tt + val (a # as) * val b + (k1 + BASE * k2) * val m" unfolding k1 by (simp add: algebra_simps)
  finally show ?case using Cons.IH [OF s] by auto
qed

subsection \<open>The multiplication\<close>

lemma ge_down_val: "length t = length m \<Longrightarrow> ge_down (rev t) (rev m) \<longleftrightarrow> val m \<le> val t"
proof (induction t arbitrary: m rule: rev_induct)
  case (snoc x t)
  then obtain ms y where m: "m = ms @ [y]" "length t = length ms" by (cases m rule: rev_cases) auto
  consider "unat x < unat y" | "unat y < unat x" | "x = y" by (metis linorder_neqE_nat word_unat_eq_iff)
  then show ?case
    using val_top_less [OF m(2), of x y] val_top_less [OF m(2) [symmetric], of y x] snoc.IH [OF m(2)] m
    by cases (auto simp: val_snoc word_less_nat_alt)
qed simp

lemma sub_limbs_eq: "length t = length m \<Longrightarrow> sub_limbs t m b = sub_loop t m b"
proof (induction t m b rule: sub_limbs.induct)
  case (1 t ts m ms b)
  have plus: "lo_int (d + 4294967296) = lo_int d" for d by (simp add: lo_int_def)
  show ?case using 1 by (simp add: Let_def plus)
qed auto

lemma mont_mul_spec:
  assumes "n0 * hd m = (- 1 :: u32)" "m \<noteq> []" "length a = length m" "length b = length m" "val b < val m"
  shows "length (mont_mul a b m n0) = length m" "val (mont_mul a b m n0) < val m"
    "val (mont_mul a b m n0) * BASE ^ length m mod val m = val a * val b mod val m"
proof -
  let ?n = "length m"
  let ?R = "BASE ^ ?n"
  obtain t tn where f: "fold (mont_step b m n0) a (replicate ?n 0, 0) = (t, tn)" by fastforce
  have m: "0 < val m" using assms(5) by simp
  have "acc (replicate ?n 0, 0) = 0" by (simp add: acc_def)
  then obtain k where k: "?R * acc (t, tn) = val a * val b + k * val m" "acc (t, tn) < 2 * val m" "length t = ?n"
    using mont_fold_spec [OF assms(1,2,4,5), of "(replicate ?n 0, 0)" a] m f assms(3) by auto
  have out: "mont_mul a b m n0 = (if tn \<noteq> 0 \<or> ge_down (rev t) (rev m) then sub_limbs t m 0 else t)"
    using f assms(3) by (simp add: mont_mul_def)
  have mR: "val m < ?R" by (rule val_less)
  have accT: "acc (t, tn) = val t + ?R * unat tn" using k(3) by (simp add: acc_def)
  have ge: "tn \<noteq> 0 \<or> ge_down (rev t) (rev m) \<longleftrightarrow> val m \<le> acc (t, tn)"
  proof (cases "tn = 0")
    case True
    then show ?thesis using ge_down_val [OF k(3)] accT by simp
  next
    case False
    then have "?R * 1 \<le> ?R * unat tn" by (intro mult_le_mono2) (simp add: Suc_leI unat_gt_0)
    then have "val m \<le> acc (t, tn)" unfolding accT using mR by linarith
    then show ?thesis using False by simp
  qed
  have res: "length (mont_mul a b m n0) = ?n \<and>
    val (mont_mul a b m n0) = (if val m \<le> acc (t, tn) then acc (t, tn) - val m else acc (t, tn))"
  proof (cases "val m \<le> acc (t, tn)")
    case True
    then have s: "mont_mul a b m n0 = sub_loop t m 0" using out ge sub_limbs_eq [OF k(3)] by simp
    obtain b' where b': "0 \<le> b'" "b' \<le> 1" "int (val (sub_loop t m 0)) = int (val t) - int (val m) + b' * int ?R"
      using val_sub_loop [of m t 0] k(3) by auto
    have "int (val t) = int (acc (t, tn)) - int ?R * int (unat tn)" unfolding accT by simp
    then have eq: "int (val (sub_loop t m 0)) = int (acc (t, tn) - val m) + int ?R * (b' - int (unat tn))"
      using b'(3) True by (simp add: of_nat_diff algebra_simps)
    have "val (sub_loop t m 0) < ?R" using val_less [of "sub_loop t m 0"] k(3) by simp
    moreover have "acc (t, tn) - val m < ?R" using k(2) mR by linarith
    ultimately have "val (sub_loop t m 0) = acc (t, tn) - val m"
      using arg_cong [OF eq, of "\<lambda>x. x mod int ?R"] by (metis mod_mult_self2 of_nat_mod mod_less of_nat_eq_iff)
    then show ?thesis using True s k(3) by simp
  next
    case False
    then have "tn = 0" using ge by blast
    then show ?thesis using False out ge k(3) accT by auto
  qed
  show "length (mont_mul a b m n0) = ?n" using res by blast
  show "val (mont_mul a b m n0) < val m" using res k(2) by auto
  have "val (mont_mul a b m n0) mod val m = acc (t, tn) mod val m"
    using res by (auto simp: le_mod_geq)
  then have "val (mont_mul a b m n0) * ?R mod val m = ?R * acc (t, tn) mod val m"
    by (metis mod_mult_left_eq mult.commute)
  then show "val (mont_mul a b m n0) * ?R mod val m = val a * val b mod val m" unfolding k(1) by simp
qed

subsection \<open>The inverse of the lowest limb\<close>

lemma newton_error:
  fixes m0 iv :: u32
  shows "1 - m0 * newton_step m0 iv = (1 - m0 * iv) * (1 - m0 * iv)"
  by (simp add: newton_step_def algebra_simps)

lemma newton_inverse:
  fixes m0 :: u32
  assumes "odd m0"
  shows "- ((newton_step m0 ^^ 5) 1) * m0 = - 1"
proof -
  have err: "1 - m0 * (newton_step m0 ^^ k) 1 = (1 - m0) ^ (2 ^ k)" for k
  proof (induction k)
    case (Suc k)
    have "1 - m0 * (newton_step m0 ^^ Suc k) 1 = (1 - m0 * (newton_step m0 ^^ k) 1) * (1 - m0 * (newton_step m0 ^^ k) 1)"
      by (simp add: newton_error)
    also have "\<dots> = (1 - m0) ^ (2 ^ k) * (1 - m0) ^ (2 ^ k)" unfolding Suc.IH ..
    also have "\<dots> = (1 - m0) ^ (2 ^ Suc k)" by (simp flip: power_add add: mult_2)
    finally show ?case .
  qed simp
  have "even (1 - m0)" using assms by simp
  then obtain f where f: "1 - m0 = 2 * f" by (rule evenE)
  have "(2 :: u32) ^ 32 = 0" by simp
  moreover have "(1 - m0) ^ (2 ^ 5) = 2 ^ 32 * f ^ 32" unfolding f power_mult_distrib by simp
  ultimately have "(1 - m0) ^ (2 ^ 5) = 0" by (simp only: mult_zero_left)
  then have "m0 * (newton_step m0 ^^ 5) 1 = 1" unfolding err [symmetric] by (simp only: right_minus_eq)
  then show ?thesis by (simp add: mult.commute)
qed

subsection \<open>The exponentiation loops\<close>

text \<open>Square and multiply over the bits from \<open>i\<close> up multiplies by the power of the remaining exponent.\<close>

lemma exponent_step: "(e :: nat) div 2 ^ i = (if odd (e div 2 ^ i) then 1 else 0) + 2 * (e div 2 ^ Suc i)"
proof -
  have "e div 2 ^ Suc i = e div 2 ^ i div 2" by (simp only: power_Suc2 div_mult2_eq)
  then show ?thesis using mod_mult_div_eq [of "e div 2 ^ i" 2] by (auto simp: odd_iff_mod_2_eq_one even_iff_mod_2_eq_zero)
qed

lemma power_step:
  fixes x y :: nat
  shows "x * y ^ (e div 2 ^ i) = (if odd (e div 2 ^ i) then x * y else x) * (y * y) ^ (e div 2 ^ Suc i)"
  by (subst exponent_step) (simp add: power_add power_mult power2_eq_square flip: power_mult_distrib)

lemma square_multiply_spec:
  assumes "trimmed m" "0 < val m" "val ex < 2 ^ k" "i \<le> k" "trimmed r" "trimmed b" "val r < val m"
  shows "trimmed (square_multiply ex m [i..<k] r b) \<and> val (square_multiply ex m [i..<k] r b) < val m \<and>
    val (square_multiply ex m [i..<k] r b) mod val m = val r * val b ^ (val ex div 2 ^ i) mod val m"
  using assms(4-7)
proof (induction i arbitrary: r b rule: inc_induct)
  case base
  then show ?case using assms(3) by simp
next
  case (step i)
  let ?r = "if big_bit ex i then big_rem (big_mul r b) m else r"
  let ?b = "big_rem (big_mul b b) m"
  have t: "trimmed ?r" "trimmed ?b" "val ?r < val m"
    using step.prems assms(1,2) by (simp_all add: trimmed_big_rem val_big_rem)
  have v: "val ?r mod val m = (if odd (val ex div 2 ^ i) then val r * val b else val r) mod val m"
    "val ?b mod val m = val b * val b mod val m"
    using assms(1) by (simp_all add: val_big_rem big_bit_val)
  have "val (square_multiply ex m [i..<k] r b) mod val m = val ?r * val ?b ^ (val ex div 2 ^ Suc i) mod val m"
    using step.IH [OF t] step.hyps by (simp add: upt_conv_Cons)
  also have "\<dots> = (if odd (val ex div 2 ^ i) then val r * val b else val r) * (val b * val b) ^ (val ex div 2 ^ Suc i) mod val m"
    by (metis v mod_mult_left_eq mod_mult_right_eq power_mod)
  also have "\<dots> = val r * val b ^ (val ex div 2 ^ i) mod val m" by (simp only: power_step [symmetric])
  finally show ?case using step.IH [OF t] step.hyps by (simp add: upt_conv_Cons)
qed

definition mont_form :: "u32 list \<Rightarrow> u32 list \<Rightarrow> nat \<Rightarrow> bool" where
  "mont_form m a x \<longleftrightarrow> length a = length m \<and> val a = BASE ^ length m * x mod val m"

lemma cancel_R:
  fixes a b :: nat
  assumes "odd (val m)" "a * BASE ^ n mod val m = b * BASE ^ n mod val m"
  shows "a mod val m = b mod val m"
proof -
  have "int BASE ^ n = 2 ^ (32 * n)" by (simp add: BASE_def power_mult)
  then have "coprime (int (val m)) (int BASE ^ n)" using assms(1) by (simp add: coprime_power_right_iff)
  moreover have "int (val m) dvd int (a * BASE ^ n) - int (b * BASE ^ n)"
    using arg_cong [OF assms(2), of int] by (simp only: of_nat_mod mod_eq_dvd_iff)
  then have "int (val m) dvd (int a - int b) * int BASE ^ n" by (simp add: left_diff_distrib)
  ultimately have "int (val m) dvd int a - int b" using coprime_dvd_mult_left_iff by blast
  then have "int a mod int (val m) = int b mod int (val m)" by (simp only: mod_eq_dvd_iff)
  then show ?thesis by (metis of_nat_mod of_nat_eq_iff)
qed

lemma mont_form_mul:
  assumes "n0 * hd m = (- 1 :: u32)" "m \<noteq> []" "odd (val m)" "mont_form m a x" "mont_form m b y"
  shows "mont_form m (mont_mul a b m n0) (x * y)"
proof -
  let ?R = "BASE ^ length m"
  have m: "0 < val m" using assms(3) by (cases "val m") simp_all
  then have b: "val b < val m" using assms(5) by (simp add: mont_form_def)
  have len: "length a = length m" "length b = length m" using assms(4,5) by (simp_all add: mont_form_def)
  note mm = mont_mul_spec [OF assms(1,2) len b]
  have "val (mont_mul a b m n0) * ?R mod val m = (?R * x mod val m) * (?R * y mod val m) mod val m"
    using mm(3) assms(4,5) by (simp add: mont_form_def)
  also have "\<dots> = (?R * (x * y)) * ?R mod val m" unfolding mod_mult_eq by (simp only: ac_simps)
  finally have "val (mont_mul a b m n0) mod val m = ?R * (x * y) mod val m" by (rule cancel_R [OF assms(3)])
  then show ?thesis using mm(1,2) by (simp add: mont_form_def)
qed

lemma mont_power_spec:
  assumes "n0 * hd m = (- 1 :: u32)" "m \<noteq> []" "odd (val m)" "val ex < 2 ^ k" "i \<le> k"
    "mont_form m c x" "mont_form m b y"
  shows "mont_form m (mont_power ex m n0 [i..<k] c b) (x * y ^ (val ex div 2 ^ i))"
  using assms(5-7)
proof (induction i arbitrary: c b x y rule: inc_induct)
  case base
  then show ?case using assms(4) by simp
next
  case (step i)
  let ?c = "if big_bit ex i then mont_mul c b m n0 else c"
  have "mont_form m ?c (if odd (val ex div 2 ^ i) then x * y else x)"
    using mont_form_mul [OF assms(1-3) step.prems] step.prems by (simp add: big_bit_val)
  moreover have "mont_form m (mont_mul b b m n0) (y * y)" using mont_form_mul [OF assms(1-3)] step.prems by blast
  ultimately have "mont_form m (mont_power ex m n0 [Suc i..<k] ?c (mont_mul b b m n0))
      ((if odd (val ex div 2 ^ i) then x * y else x) * (y * y) ^ (val ex div 2 ^ Suc i))" by (rule step.IH)
  then show ?case using step.hyps unfolding power_step [of x y "val ex" i] by (simp only: upt_conv_Cons mont_power.simps)
qed

subsection \<open>Modular exponentiation\<close>

lemma vec_resize_limbs:
  assumes "trimmed x" "trimmed m" "val x < val m"
  shows "length (vec_resize x (length m) 0) = length m" "val (vec_resize x (length m) 0) = val x"
proof -
  have "length x \<le> length m" using trimmed_shorter [OF assms(1), of m] assms(3) by (meson leI less_asym)
  then show "val (vec_resize x (length m) 0) = val x"
    by (auto simp: vec_resize_def val_append not_le)
qed simp

lemma trimmed_R [simp]: "trimmed (replicate n 0 @ [1])"
  by (simp add: trimmed_def)

lemma modpow_odd_spec:
  assumes "trimmed b" "trimmed ex" "trimmed m" "m \<noteq> []" "odd (hd m)" "2 \<le> length m"
  shows "val (modpow_odd b ex m) = val b ^ val ex mod val m"
proof -
  let ?n = "length m"
  let ?R = "BASE ^ ?n"
  define n0 where "n0 = - ((newton_step (hd m) ^^ 5) 1)"
  have n0: "n0 * hd m = - 1" unfolding n0_def by (rule newton_inverse [OF assms(5)])
  have odd: "odd (val m)"
  proof -
    obtain h t where "m = h # t" using assms(4) by (cases m) auto
    moreover have "even BASE" by (simp add: BASE_def)
    ultimately show ?thesis using assms(5) bit_limb [of h 0] by (simp add: bit_0)
  qed
  then have m: "0 < val m" by (cases "val m") simp_all
  define r where "r = big_rem (replicate ?n 0 @ [1]) m"
  have r: "trimmed r" "val r = ?R * 1 mod val m" using assms(3) by (simp_all add: r_def trimmed_big_rem val_big_rem val_append)
  then have rf: "mont_form m (vec_resize r ?n 0) 1"
    using vec_resize_limbs [OF r(1) assms(3)] m by (simp add: mont_form_def)
  define bm where "bm = big_rem (big_trim (replicate ?n 0 @ big_rem b m)) m"
  have bm: "trimmed bm" "val bm = ?R * val b mod val m"
    using assms(1,3) by (simp_all add: bm_def trimmed_big_rem val_big_rem val_append mod_mult_right_eq)
  then have bf: "mont_form m (vec_resize bm ?n 0) (val b)"
    using vec_resize_limbs [OF bm(1) assms(3)] m by (simp add: mont_form_def)
  define c where "c = mont_power ex m n0 [0..<bits_of ex] (vec_resize r ?n 0) (vec_resize bm ?n 0)"
  have c: "mont_form m c (val b ^ val ex)"
    using mont_power_spec [OF n0 assms(4) odd val_less_bits [OF assms(2)] le0 rf bf] by (simp add: c_def)
  define one where "one = (replicate ?n 0)[0 := 1 :: u32]"
  have one: "length one = ?n" "val one = 1" using assms(4) by (cases m; simp add: one_def)+
  have out: "modpow_odd b ex m = big_trim (mont_mul c one m n0)"
    by (simp add: modpow_odd_def Let_def n0_def r_def bm_def c_def one_def)
  have "BASE ^ 1 \<le> BASE ^ (?n - 1)" using assms(6) by (intro power_increasing) (auto simp: Suc_leI)
  also have "\<dots> \<le> val m" using assms(3,4) by (intro trimmed_val_ge) auto
  finally have "1 < val m" using BASE_pos(3) unfolding power_one_right by linarith
  then have lt: "val one < val m" using one by simp
  have lenc: "length c = ?n" using c by (simp add: mont_form_def)
  note fin = mont_mul_spec [OF n0 assms(4) lenc one(1) lt]
  have "val (mont_mul c one m n0) * ?R mod val m = ?R * val b ^ val ex mod val m"
    using fin(3) c one by (simp add: mont_form_def)
  then have "val (mont_mul c one m n0) * ?R mod val m = val b ^ val ex * ?R mod val m" by (simp only: mult.commute)
  then have "val (mont_mul c one m n0) mod val m = val b ^ val ex mod val m" by (rule cancel_R [OF odd])
  then show ?thesis using out fin(2) by simp
qed

lemma val_modpow:
  assumes "trimmed b" "trimmed ex" "trimmed m" "m \<noteq> []"
  shows "val (modpow b ex m) = val b ^ val ex mod val m" "trimmed (modpow b ex m)"
proof -
  have "val (modpow b ex m) = val b ^ val ex mod val m \<and> trimmed (modpow b ex m)"
  proof (cases "2 \<le> length m \<and> hd m AND 1 = 1")
    case True
    then have "odd (hd m)" by (simp add: and_one_eq odd_iff_mod_2_eq_one)
    then show ?thesis using modpow_odd_spec [OF assms] True by (simp add: modpow_def modpow_odd_def Let_def)
  next
    case False
    let ?r = "square_multiply ex m [0..<bits_of ex] (big_rem (from_bytes_be [1]) m) (big_rem b m)"
    have r: "modpow b ex m = ?r" using False by (simp only: modpow_def if_False)
    have m: "0 < val m" using trimmed_zero_iff [OF assms(3)] assms(4) by simp
    have "trimmed ?r \<and> val ?r < val m \<and> val ?r mod val m = (1 mod val m) * (val b mod val m) ^ val ex mod val m"
    proof -
      have r1: "trimmed (big_rem (from_bytes_be [1]) m)" "val (big_rem (from_bytes_be [1]) m) = 1 mod val m"
        and rb: "trimmed (big_rem b m)" "val (big_rem b m) = val b mod val m"
        using assms(1,3) by (simp_all add: trimmed_big_rem val_big_rem del: mod_less mod2_eq_if)
      have "val (big_rem (from_bytes_be [1]) m) < val m" unfolding r1(2) using m by (rule mod_less_divisor)
      from square_multiply_spec [OF assms(3) m val_less_bits [OF assms(2)] le0 r1(1) rb(1) this]
      show ?thesis unfolding r1(2) rb(2) by (simp only: power_0 div_by_1)
    qed
    moreover have "(1 mod val m) * (val b mod val m) ^ val ex mod val m = val b ^ val ex mod val m"
      by (metis mod_mult_left_eq mult_1_left power_mod)
    ultimately have t: "trimmed ?r" "val ?r < val m" "val ?r mod val m = val b ^ val ex mod val m" by simp_all
    then show ?thesis using r t by simp
  qed
  then show "val (modpow b ex m) = val b ^ val ex mod val m" "trimmed (modpow b ex m)" by blast+
qed

subsection \<open>What the long division and the exponentiation compute\<close>

text \<open>C23: \<^verbatim>\<open>rem\<close> is the remainder: for every dividend and every nonzero modulus without trailing zero
  limbs, the single-limb loop and Knuth's long division (with its normalising shift, its two-limb
  quotient estimates and its add-back) return the limbs of \<open>x mod m\<close>, trimmed.\<close>

theorem long_division_is_mod:
  assumes "trimmed x" "trimmed m" "m \<noteq> []"
  shows "val (big_rem x m) = val x mod val m \<and> trimmed (big_rem x m)"
  using assms by (simp add: val_big_rem trimmed_big_rem)

theorem long_division_is_mod_witness:
  "val (big_rem [7, 8, 9] [5, 6]) = val [7, 8, 9] mod val [5, 6]"
  using long_division_is_mod [of "[7, 8, 9]" "[5, 6]"] by (simp only: trimmed_def) simp

text \<open>C24: \<^verbatim>\<open>modpow\<close> is the power modulo \<open>m\<close>: both the Montgomery loop, taken for odd moduli of two limbs
  or more, and the square-and-multiply loop compute \<open>b ^ e mod m\<close> for every base, exponent and nonzero
  modulus.\<close>

theorem modpow_is_power:
  assumes "trimmed b" "trimmed e" "trimmed m" "m \<noteq> []"
  shows "val (modpow b e m) = val b ^ val e mod val m"
  using assms by (rule val_modpow)

theorem modpow_is_power_witness:
  "val (modpow [2, 3] [4] [5, 6]) = val [2, 3] ^ val [4] mod val [5, 6] \<and>
   val (modpow [2, 3] [4] [6]) = val [2, 3] ^ val [4] mod val [6]"
  using modpow_is_power [of "[2, 3]" "[4]" "[5, 6]"] modpow_is_power [of "[2, 3]" "[4]" "[6]"]
  by (simp only: trimmed_def) simp

text \<open>C25: No operation leaves a leading zero limb: every constructor and operation of \<^verbatim>\<open>BigUint\<close> returns
  limbs that are empty or end in a nonzero one, which is what \<^verbatim>\<open>cmp\<close>, \<^verbatim>\<open>is_zero\<close>, \<^verbatim>\<open>bits\<close> and the
  derived equality rely on; and limbs of that form are equal exactly when their numbers are.\<close>

theorem biguint_stays_trimmed:
  assumes "trimmed x" "trimmed y" "trimmed m" "m \<noteq> []"
  shows "trimmed (from_bytes_be bs) \<and> trimmed (big_add x y) \<and> trimmed (big_sub x y) \<and> trimmed (big_mul x y) \<and>
    trimmed (big_rem x m) \<and> trimmed (modpow x y m) \<and> trimmed (add_mod x y m) \<and> trimmed (sub_mod x y m) \<and>
    trimmed (mul_mod x y m) \<and> (big_cmp x y = Equal \<longleftrightarrow> x = y) \<and> (x = y \<longleftrightarrow> val x = val y)"
proof -
  have eq: "x = y \<longleftrightarrow> val x = val y" using assms(1,2) trimmed_unique by blast
  then have "big_cmp x y = Equal \<longleftrightarrow> x = y" using big_cmp_val [OF assms(1,2)] by (auto simp: word_cmp_def)
  then show ?thesis using assms eq val_modpow(2) [OF assms]
    by (simp add: trimmed_big_rem add_mod_def sub_mod_def mul_mod_def Let_def)
qed

theorem biguint_stays_trimmed_witness:
  "trimmed (modpow [2, 3] [4] [5, 6]) \<and> trimmed (big_sub [4, 5] [4, 5])"
  using biguint_stays_trimmed [of "[2, 3]" "[4]" "[5, 6]"] biguint_stays_trimmed [of "[4, 5]" "[4, 5]" "[1]"]
  by (simp only: trimmed_def) simp

end
