(* ===== verification/Hash.thy ===== *)
theory Hash
  imports Big
begin

unbundle bit_operations_syntax

text \<open>
  The digests of \<^verbatim>\<open>crates/auth/src/crypto.rs\<close>: \<^verbatim>\<open>sha1\<close>, \<^verbatim>\<open>sha256\<close>, \<^verbatim>\<open>sha512\<close> and \<^verbatim>\<open>sha3\<close>, at word level.
  A message is padded, cut into blocks, and folded into a state of 32- or 64-bit words; \<^verbatim>\<open>wrapping_add\<close>
  is addition on words and \<^verbatim>\<open>rotate_left\<close> a rotation of the word. The message schedule, an array filled
  from its front, is a list that grows. (\<^verbatim>\<open>md5\<close> computes its table with a floating-point sine and is not
  modelled.)
\<close>

subsection \<open>Padding and blocks\<close>

text \<open>\<^verbatim>\<open>while msg.len() % block != rest { msg.push(0) }\<close>: the zeros that the loop pushes.\<close>

definition push_zeros :: "nat \<Rightarrow> nat \<Rightarrow> byte list \<Rightarrow> byte list" where
  "push_zeros block rest msg = msg @ replicate ((rest + (block - length msg mod block)) mod block) 0"

lemma push_zeros_mod: "rest < block \<Longrightarrow> length (push_zeros block rest msg) mod block = rest"
proof -
  assume h: "rest < block"
  let ?l = "length msg mod block"
  have "length (push_zeros block rest msg) mod block = (length msg + (rest + (block - ?l))) mod block"
    by (simp add: push_zeros_def mod_add_right_eq)
  also have "\<dots> = (?l + (rest + (block - ?l))) mod block" by (simp add: mod_add_left_eq)
  also have "?l + (rest + (block - ?l)) = rest + block" using mod_less_divisor [of block "length msg"] h by linarith
  finally show ?thesis using h by simp
qed

function chunks_exact :: "nat \<Rightarrow> 'a list \<Rightarrow> 'a list list" where
  "chunks_exact n xs = (if n = 0 \<or> length xs < n then [] else take n xs # chunks_exact n (drop n xs))"
  by pat_completeness auto
termination by (relation "measure (\<lambda>(n, xs). length xs)") auto

declare chunks_exact.simps [simp del]

text \<open>\<^verbatim>\<open>u64::to_be_bytes\<close> and \<^verbatim>\<open>u64::from_be_bytes\<close>; the 16-byte length of \<^verbatim>\<open>sha512\<close> is a u128.\<close>

definition be_bytes :: "nat \<Rightarrow> nat \<Rightarrow> byte list" where
  "be_bytes n v = rev (le_bytes n v)"

definition word_of_be :: "byte list \<Rightarrow> 'w::len word" where
  "word_of_be bs = of_nat (le_nat (rev bs))"

definition word_of_le :: "byte list \<Rightarrow> 'w::len word" where
  "word_of_le bs = of_nat (le_nat bs)"

text \<open>The padded message of \<^verbatim>\<open>sha1\<close> and \<^verbatim>\<open>sha256\<close>, and of \<^verbatim>\<open>sha512\<close>.\<close>

definition sha_pad :: "byte list \<Rightarrow> byte list" where
  "sha_pad data = push_zeros 64 56 (data @ [0x80]) @ be_bytes 8 (8 * length data mod 2 ^ 64)"

definition sha512_pad :: "byte list \<Rightarrow> byte list" where
  "sha512_pad data = push_zeros 128 112 (data @ [0x80]) @ be_bytes 16 (8 * length data mod 2 ^ 128)"

subsection \<open>SHA-1\<close>

definition sha1_init :: "u32 list" where
  "sha1_init = [0x67452301, 0xEFCDAB89, 0x98BADCFE, 0x10325476, 0xC3D2E1F0]"

definition sha1_schedule :: "byte list \<Rightarrow> u32 list" where
  "sha1_schedule block =
     fold (\<lambda>i w. w @ [word_rotl 1 (w ! (i - 3) XOR w ! (i - 8) XOR w ! (i - 14) XOR w ! (i - 16))])
       [16..<80] (map word_of_be (chunks_exact 4 block))"

definition sha1_round :: "nat \<times> u32 \<Rightarrow> u32 \<times> u32 \<times> u32 \<times> u32 \<times> u32 \<Rightarrow> u32 \<times> u32 \<times> u32 \<times> u32 \<times> u32" where
  "sha1_round iw v =
     (case (iw, v) of ((i, wi), a, b, c, d, e) \<Rightarrow>
        let (f, k) =
              (if i \<le> 19 then ((b AND c) OR ((NOT b) AND d), 0x5A827999)
               else if i \<le> 39 then (b XOR c XOR d, 0x6ED9EBA1)
               else if i \<le> 59 then ((b AND c) OR (b AND d) OR (c AND d), 0x8F1BBCDC)
               else (b XOR c XOR d, 0xCA62C1D6));
            t = word_rotl 5 a + f + e + k + wi
        in (t, a, word_rotl 30 b, c, d))"

definition sha1_block :: "byte list \<Rightarrow> u32 list \<Rightarrow> u32 list" where
  "sha1_block block h =
     (case fold sha1_round (enumerate 0 (sha1_schedule block)) (h ! 0, h ! 1, h ! 2, h ! 3, h ! 4) of
        (a, b, c, d, e) \<Rightarrow> [h ! 0 + a, h ! 1 + b, h ! 2 + c, h ! 3 + d, h ! 4 + e])"

definition sha1 :: "byte list \<Rightarrow> byte list" where
  "sha1 data = concat (map (\<lambda>v. be_bytes 4 (unat v)) (fold sha1_block (chunks_exact 64 (sha_pad data)) sha1_init))"

subsection \<open>SHA-256 and SHA-512\<close>

text \<open>The tables of the standard, one list per line of the source.\<close>

definition sha256_k :: "u32 list" where
  "sha256_k = concat
    [[0x428a2f98, 0x71374491, 0xb5c0fbcf, 0xe9b5dba5, 0x3956c25b, 0x59f111f1, 0x923f82a4],
     [0xab1c5ed5, 0xd807aa98, 0x12835b01, 0x243185be, 0x550c7dc3, 0x72be5d74, 0x80deb1fe],
     [0x9bdc06a7, 0xc19bf174, 0xe49b69c1, 0xefbe4786, 0x0fc19dc6, 0x240ca1cc, 0x2de92c6f],
     [0x4a7484aa, 0x5cb0a9dc, 0x76f988da, 0x983e5152, 0xa831c66d, 0xb00327c8, 0xbf597fc7],
     [0xc6e00bf3, 0xd5a79147, 0x06ca6351, 0x14292967, 0x27b70a85, 0x2e1b2138, 0x4d2c6dfc],
     [0x53380d13, 0x650a7354, 0x766a0abb, 0x81c2c92e, 0x92722c85, 0xa2bfe8a1, 0xa81a664b],
     [0xc24b8b70, 0xc76c51a3, 0xd192e819, 0xd6990624, 0xf40e3585, 0x106aa070, 0x19a4c116],
     [0x1e376c08, 0x2748774c, 0x34b0bcb5, 0x391c0cb3, 0x4ed8aa4a, 0x5b9cca4f, 0x682e6ff3],
     [0x748f82ee, 0x78a5636f, 0x84c87814, 0x8cc70208, 0x90befffa, 0xa4506ceb, 0xbef9a3f7],
     [0xc67178f2]]"

definition sha256_init :: "u32 list" where
  "sha256_init =
    [0x6a09e667, 0xbb67ae85, 0x3c6ef372, 0xa54ff53a, 0x510e527f, 0x9b05688c, 0x1f83d9ab, 0x5be0cd19]"

definition sha256_schedule :: "byte list \<Rightarrow> u32 list" where
  "sha256_schedule block =
     fold (\<lambda>i w.
         let s0 = word_rotr 7 (w ! (i - 15)) XOR word_rotr 18 (w ! (i - 15)) XOR drop_bit 3 (w ! (i - 15));
             s1 = word_rotr 17 (w ! (i - 2)) XOR word_rotr 19 (w ! (i - 2)) XOR drop_bit 10 (w ! (i - 2))
         in w @ [w ! (i - 16) + s0 + w ! (i - 7) + s1])
       [16..<64] (map word_of_be (chunks_exact 4 block))"

text \<open>One round over the eight working words; both hashes share its shape.\<close>

fun sha2_shift :: "'w::len word \<Rightarrow> 'w word \<Rightarrow> 'w word list \<Rightarrow> 'w word list" where
  "sha2_shift t1 t2 [a, b, c, d, e, f, g, h] = [t1 + t2, a, b, c, d + t1, e, f, g]"
| "sha2_shift t1 t2 v = v"

definition sha256_round :: "u32 list \<Rightarrow> nat \<Rightarrow> u32 list \<Rightarrow> u32 list" where
  "sha256_round w i v =
     (let s1 = word_rotr 6 (v ! 4) XOR word_rotr 11 (v ! 4) XOR word_rotr 25 (v ! 4);
          ch = (v ! 4 AND v ! 5) XOR ((NOT (v ! 4)) AND v ! 6);
          t1 = v ! 7 + s1 + ch + sha256_k ! i + w ! i;
          s0 = word_rotr 2 (v ! 0) XOR word_rotr 13 (v ! 0) XOR word_rotr 22 (v ! 0);
          maj = (v ! 0 AND v ! 1) XOR (v ! 0 AND v ! 2) XOR (v ! 1 AND v ! 2);
          t2 = s0 + maj
      in sha2_shift t1 t2 v)"

definition sha256_block :: "byte list \<Rightarrow> u32 list \<Rightarrow> u32 list" where
  "sha256_block block h = map2 (+) h (fold (sha256_round (sha256_schedule block)) [0..<64] h)"

definition sha256 :: "byte list \<Rightarrow> byte list" where
  "sha256 data = concat (map (\<lambda>v. be_bytes 4 (unat v)) (fold sha256_block (chunks_exact 64 (sha_pad data)) sha256_init))"

definition sha512_k :: "u64 list" where
  "sha512_k = concat
    [[0x428a2f98d728ae22, 0x7137449123ef65cd, 0xb5c0fbcfec4d3b2f, 0xe9b5dba58189dbbc],
     [0x3956c25bf348b538, 0x59f111f1b605d019, 0x923f82a4af194f9b, 0xab1c5ed5da6d8118],
     [0xd807aa98a3030242, 0x12835b0145706fbe, 0x243185be4ee4b28c, 0x550c7dc3d5ffb4e2],
     [0x72be5d74f27b896f, 0x80deb1fe3b1696b1, 0x9bdc06a725c71235, 0xc19bf174cf692694],
     [0xe49b69c19ef14ad2, 0xefbe4786384f25e3, 0x0fc19dc68b8cd5b5, 0x240ca1cc77ac9c65],
     [0x2de92c6f592b0275, 0x4a7484aa6ea6e483, 0x5cb0a9dcbd41fbd4, 0x76f988da831153b5],
     [0x983e5152ee66dfab, 0xa831c66d2db43210, 0xb00327c898fb213f, 0xbf597fc7beef0ee4],
     [0xc6e00bf33da88fc2, 0xd5a79147930aa725, 0x06ca6351e003826f, 0x142929670a0e6e70],
     [0x27b70a8546d22ffc, 0x2e1b21385c26c926, 0x4d2c6dfc5ac42aed, 0x53380d139d95b3df],
     [0x650a73548baf63de, 0x766a0abb3c77b2a8, 0x81c2c92e47edaee6, 0x92722c851482353b],
     [0xa2bfe8a14cf10364, 0xa81a664bbc423001, 0xc24b8b70d0f89791, 0xc76c51a30654be30],
     [0xd192e819d6ef5218, 0xd69906245565a910, 0xf40e35855771202a, 0x106aa07032bbd1b8],
     [0x19a4c116b8d2d0c8, 0x1e376c085141ab53, 0x2748774cdf8eeb99, 0x34b0bcb5e19b48a8],
     [0x391c0cb3c5c95a63, 0x4ed8aa4ae3418acb, 0x5b9cca4f7763e373, 0x682e6ff3d6b2b8a3],
     [0x748f82ee5defb2fc, 0x78a5636f43172f60, 0x84c87814a1f0ab72, 0x8cc702081a6439ec],
     [0x90befffa23631e28, 0xa4506cebde82bde9, 0xbef9a3f7b2c67915, 0xc67178f2e372532b],
     [0xca273eceea26619c, 0xd186b8c721c0c207, 0xeada7dd6cde0eb1e, 0xf57d4f7fee6ed178],
     [0x06f067aa72176fba, 0x0a637dc5a2c898a6, 0x113f9804bef90dae, 0x1b710b35131c471b],
     [0x28db77f523047d84, 0x32caab7b40c72493, 0x3c9ebe0a15c9bebc, 0x431d67c49c100d4c],
     [0x4cc5d4becb3e42b6, 0x597f299cfc657e2a, 0x5fcb6fab3ad6faec, 0x6c44198c4a475817]]"

definition sha512_init :: "u64 list" where
  "sha512_init =
    [0x6a09e667f3bcc908, 0xbb67ae8584caa73b, 0x3c6ef372fe94f82b, 0xa54ff53a5f1d36f1,
     0x510e527fade682d1, 0x9b05688c2b3e6c1f, 0x1f83d9abfb41bd6b, 0x5be0cd19137e2179]"

definition sha512_schedule :: "byte list \<Rightarrow> u64 list" where
  "sha512_schedule block =
     fold (\<lambda>i w.
         let s0 = word_rotr 1 (w ! (i - 15)) XOR word_rotr 8 (w ! (i - 15)) XOR drop_bit 7 (w ! (i - 15));
             s1 = word_rotr 19 (w ! (i - 2)) XOR word_rotr 61 (w ! (i - 2)) XOR drop_bit 6 (w ! (i - 2))
         in w @ [w ! (i - 16) + s0 + w ! (i - 7) + s1])
       [16..<80] (map word_of_be (chunks_exact 8 block))"

definition sha512_round :: "u64 list \<Rightarrow> nat \<Rightarrow> u64 list \<Rightarrow> u64 list" where
  "sha512_round w i v =
     (let s1 = word_rotr 14 (v ! 4) XOR word_rotr 18 (v ! 4) XOR word_rotr 41 (v ! 4);
          ch = (v ! 4 AND v ! 5) XOR ((NOT (v ! 4)) AND v ! 6);
          t1 = v ! 7 + s1 + ch + sha512_k ! i + w ! i;
          s0 = word_rotr 28 (v ! 0) XOR word_rotr 34 (v ! 0) XOR word_rotr 39 (v ! 0);
          maj = (v ! 0 AND v ! 1) XOR (v ! 0 AND v ! 2) XOR (v ! 1 AND v ! 2);
          t2 = s0 + maj
      in sha2_shift t1 t2 v)"

definition sha512_block :: "byte list \<Rightarrow> u64 list \<Rightarrow> u64 list" where
  "sha512_block block h = map2 (+) h (fold (sha512_round (sha512_schedule block)) [0..<80] h)"

definition sha512 :: "byte list \<Rightarrow> byte list" where
  "sha512 data = concat (map (\<lambda>v. be_bytes 8 (unat v)) (fold sha512_block (chunks_exact 128 (sha512_pad data)) sha512_init))"

subsection \<open>SHA-3\<close>

definition keccak_rc :: "u64 list" where
  "keccak_rc =
    [0x0000000000000001, 0x0000000000008082, 0x800000000000808a, 0x8000000080008000,
     0x000000000000808b, 0x0000000080000001, 0x8000000080008081, 0x8000000000008009,
     0x000000000000008a, 0x0000000000000088, 0x0000000080008009, 0x000000008000000a,
     0x000000008000808b, 0x800000000000008b, 0x8000000000008089, 0x8000000000008003,
     0x8000000000008002, 0x8000000000000080, 0x000000000000800a, 0x800000008000000a,
     0x8000000080008081, 0x8000000000008080, 0x0000000080000001, 0x8000000080008008]"

definition keccak_rot :: "nat list" where
  "keccak_rot = [0, 1, 62, 28, 27, 36, 44, 6, 55, 20, 3, 10, 43, 25, 39, 41, 45, 15, 21, 8, 18, 2, 61, 56, 14]"

text \<open>The lanes are indexed \<open>x + 5 * y\<close>; each pass of the round fills its array by index.\<close>

definition keccak_theta :: "u64 list \<Rightarrow> u64 list" where
  "keccak_theta a =
     (let c = map (\<lambda>x. a ! x XOR a ! (x + 5) XOR a ! (x + 10) XOR a ! (x + 15) XOR a ! (x + 20)) [0..<5]
      in map (\<lambda>k. a ! k XOR (c ! ((k mod 5 + 4) mod 5) XOR word_rotl 1 (c ! ((k mod 5 + 1) mod 5)))) [0..<25])"

definition keccak_rho_pi :: "u64 list \<Rightarrow> u64 list" where
  "keccak_rho_pi a =
     fold (\<lambda>(x, y) b. b[y + 5 * ((2 * x + 3 * y) mod 5) := word_rotl (keccak_rot ! (x + 5 * y)) (a ! (x + 5 * y))])
       (List.product [0..<5] [0..<5]) (replicate 25 0)"

definition keccak_chi :: "u64 list \<Rightarrow> u64 list" where
  "keccak_chi b =
     map (\<lambda>k. b ! k XOR ((NOT (b ! ((k mod 5 + 1) mod 5 + 5 * (k div 5)))) AND b ! ((k mod 5 + 2) mod 5 + 5 * (k div 5))))
       [0..<25]"

definition keccak_round :: "u64 \<Rightarrow> u64 list \<Rightarrow> u64 list" where
  "keccak_round rc a = (let b = keccak_chi (keccak_rho_pi (keccak_theta a)) in b[0 := b ! 0 XOR rc])"

definition keccak_f :: "u64 list \<Rightarrow> u64 list" where
  "keccak_f a = fold keccak_round keccak_rc a"

definition sha3_pad :: "nat \<Rightarrow> byte list \<Rightarrow> byte list" where
  "sha3_pad rate data =
     (let msg = push_zeros rate 0 (data @ [0x06]); l = length msg - 1 in msg[l := msg ! l OR 0x80])"

definition sha3_absorb :: "byte list \<Rightarrow> u64 list \<Rightarrow> u64 list" where
  "sha3_absorb block st =
     keccak_f (fold (\<lambda>(i, lane) st. st[i := st ! i XOR word_of_le lane]) (enumerate 0 (chunks_exact 8 block)) st)"

text \<open>The loop that writes lanes until the output is long enough, then truncates it.\<close>

fun sha3_squeeze :: "nat \<Rightarrow> u64 list \<Rightarrow> byte list \<Rightarrow> byte list" where
  "sha3_squeeze out_len [] out = out"
| "sha3_squeeze out_len (lane # st) out =
     (let out = out @ u64_bytes lane in if out_len \<le> length out then out else sha3_squeeze out_len st out)"

definition sha3 :: "byte list \<Rightarrow> nat \<Rightarrow> byte list" where
  "sha3 data out_len =
     (let rate = 200 - 2 * out_len;
          st = fold sha3_absorb (chunks_exact rate (sha3_pad rate data)) (replicate 25 0)
      in take out_len (sha3_squeeze out_len st []))"

subsection \<open>Lengths and padding\<close>

lemma length_be_bytes [simp]: "length (be_bytes n v) = n"
  by (simp add: be_bytes_def)

lemma be_bytes_inject: "a < 256 ^ n \<Longrightarrow> b < 256 ^ n \<Longrightarrow> be_bytes n a = be_bytes n b \<longleftrightarrow> a = b"
  unfolding be_bytes_def rev_is_rev_conv by (metis le_nat_le_bytes mod_less)

lemma length_fold: "(\<And>x s. length s = n \<Longrightarrow> length (f x s) = n) \<Longrightarrow> length s = n \<Longrightarrow> length (fold f xs s) = n"
  by (induction xs arbitrary: s) simp_all

lemma length_concat_be: "length (concat (map (\<lambda>v. be_bytes n (g v)) vs)) = n * length vs"
  by (induction vs) simp_all

lemma length_sha1 [simp]: "length (sha1 data) = 20"
proof -
  have "length (fold sha1_block (chunks_exact 64 (sha_pad data)) sha1_init) = 5"
    by (rule length_fold) (simp_all add: sha1_block_def sha1_init_def split: prod.splits)
  then show ?thesis by (simp add: sha1_def length_concat_be)
qed

lemma length_sha2_shift [simp]: "length (sha2_shift t1 t2 v) = length v"
  by (induction t1 t2 v rule: sha2_shift.induct) simp_all

lemma length_sha256 [simp]: "length (sha256 data) = 32"
proof -
  have "length (fold (sha256_round w) is v) = 8" if "length v = 8" for w "is" v
    using that by (intro length_fold) (simp_all add: sha256_round_def Let_def)
  then have "length (fold sha256_block (chunks_exact 64 (sha_pad data)) sha256_init) = 8"
    by (intro length_fold) (simp_all add: sha256_block_def sha256_init_def)
  then show ?thesis by (simp add: sha256_def length_concat_be)
qed

lemma sha_pad_blocks: "64 dvd length (sha_pad data)"
proof -
  have "length (push_zeros 64 56 (data @ [0x80])) mod 64 = 56" by (rule push_zeros_mod) simp
  then have "(length (push_zeros 64 56 (data @ [0x80])) + 8) mod 64 = 0" by presburger
  then show ?thesis by (simp add: sha_pad_def dvd_eq_mod_eq_0)
qed

text \<open>Padding is injective on messages whose bit length fits a u64.\<close>

lemma pad_inject:
  assumes "push_zeros n r (a @ [x]) @ be_bytes k la = push_zeros n r (b @ [x]) @ be_bytes k lb"
    "la < 256 ^ k" "lb < 256 ^ k" "la = lb \<Longrightarrow> length a = length b"
  shows "a = b"
proof -
  have "push_zeros n r (a @ [x]) = push_zeros n r (b @ [x]) \<and> be_bytes k la = be_bytes k lb"
    using assms(1) by simp
  moreover from this have "length a = length b" using assms(2-4) be_bytes_inject by blast
  ultimately show ?thesis by (simp add: push_zeros_def)
qed

lemma sha_pad_inject:
  assumes "8 * length a < 2 ^ 64" "8 * length b < 2 ^ 64" "sha_pad a = sha_pad b"
  shows "a = b"
proof (rule pad_inject)
  show "push_zeros 64 56 (a @ [0x80]) @ be_bytes 8 (8 * length a mod 2 ^ 64) =
      push_zeros 64 56 (b @ [0x80]) @ be_bytes 8 (8 * length b mod 2 ^ 64)"
    using assms(3) by (simp only: sha_pad_def)
  show "8 * length a mod 2 ^ 64 < 256 ^ 8" "8 * length b mod 2 ^ 64 < 256 ^ 8"
    using mod_less_divisor [of "2 ^ 64" "8 * length a"] mod_less_divisor [of "2 ^ 64" "8 * length b"] by simp_all
  show "8 * length a mod 2 ^ 64 = 8 * length b mod 2 ^ 64 \<Longrightarrow> length a = length b"
    using assms(1,2) by simp
qed

end
