(* ===== verification/Cipher.thy ===== *)
theory Cipher
  imports Hash
begin

unbundle bit_operations_syntax

text \<open>
  The wire ciphers of \<^verbatim>\<open>crates/auth/src/crypto.rs\<close>: Arc4 and the two ChaCha20 layouts behind the one
  \<^verbatim>\<open>Rc4\<close> type the connection holds per direction. A cipher is its state; \<^verbatim>\<open>transform\<close> returns the bytes
  and the state after them. The theorems: the box of Arc4 stays a permutation of the 256 bytes, the
  receiving side started from the same state recovers what was sent however the two sides cut the
  stream into calls, and the ChaCha block counter runs through 2^32 (or 2^64) values before it repeats.
\<close>

subsection \<open>State\<close>

record chacha20 =
  cstate :: "u32 list"
  cblock :: "byte list"
  used :: nat
  wide_counter :: bool

datatype cipher =
    Arc4 "byte list" byte byte
  | ChaCha chacha20

datatype nonce = Ietf "byte list" u32 | Original "byte list"

subsection \<open>Arc4\<close>

definition swap_at :: "'a list \<Rightarrow> nat \<Rightarrow> nat \<Rightarrow> 'a list" where
  "swap_at s i j = s[i := s ! j, j := s ! i]"

definition rc4_mix :: "byte list \<Rightarrow> nat \<Rightarrow> byte list \<times> byte \<Rightarrow> byte list \<times> byte" where
  "rc4_mix key i sj = (case sj of (s, j) \<Rightarrow> let j = j + s ! i + key ! (i mod length key) in (swap_at s i (unat j), j))"

text \<open>An empty key divides by zero.\<close>

definition rc4_new :: "byte list \<Rightarrow> cipher run" where
  "rc4_new key =
     (if key = [] then Panic
      else Ret (Arc4 (fst (fold (rc4_mix key) [0..<256] (map of_nat [0..<256], 0))) 0 0))"

fun arc4_transform :: "byte list \<Rightarrow> byte list \<times> byte \<times> byte \<Rightarrow> byte list \<times> byte list \<times> byte \<times> byte" where
  "arc4_transform [] st = ([], st)"
| "arc4_transform (b # buf) (s, i, j) =
     (let i = i + 1;
          j = j + s ! unat i;
          s = swap_at s (unat i) (unat j);
          k = s ! unat (s ! unat i + s ! unat j);
          (out, st) = arc4_transform buf (s, i, j)
      in ((b XOR k) # out, st))"

subsection \<open>ChaCha20\<close>

definition chacha_new :: "byte list \<Rightarrow> nonce \<Rightarrow> chacha20" where
  "chacha_new key nonce =
     (let front = [0x61707865, 0x3320646e, 0x79622d32, 0x6b206574] @ map word_of_le (chunks_exact 4 key) in
      case nonce of
        Ietf n ctr \<Rightarrow>
          \<lparr>cstate = front @ [ctr] @ map word_of_le (chunks_exact 4 n), cblock = replicate 64 0, used = 64, wide_counter = False\<rparr>
      | Original n \<Rightarrow>
          \<lparr>cstate = front @ [0, 0] @ map word_of_le (chunks_exact 4 n), cblock = replicate 64 0, used = 64, wide_counter = True\<rparr>)"

definition quarter :: "nat \<Rightarrow> nat \<Rightarrow> nat \<Rightarrow> nat \<Rightarrow> u32 list \<Rightarrow> u32 list" where
  "quarter a b c d x =
     (let x = x[a := x ! a + x ! b];
          x = x[d := word_rotl 16 (x ! d XOR x ! a)];
          x = x[c := x ! c + x ! d];
          x = x[b := word_rotl 12 (x ! b XOR x ! c)];
          x = x[a := x ! a + x ! b];
          x = x[d := word_rotl 8 (x ! d XOR x ! a)];
          x = x[c := x ! c + x ! d];
          x = x[b := word_rotl 7 (x ! b XOR x ! c)]
      in x)"

definition double_round :: "u32 list \<Rightarrow> u32 list" where
  "double_round x =
     quarter 3 4 9 14 (quarter 2 7 8 13 (quarter 1 6 11 12 (quarter 0 5 10 15
       (quarter 3 7 11 15 (quarter 2 6 10 14 (quarter 1 5 9 13 (quarter 0 4 8 12 x)))))))"

definition next_block :: "chacha20 \<Rightarrow> chacha20" where
  "next_block c =
     (let x = (double_round ^^ 10) (cstate c);
          block = concat (map (\<lambda>i. u32_bytes (x ! i + cstate c ! i)) [0..<16]);
          st = (cstate c)[12 := cstate c ! 12 + 1];
          st = (if wide_counter c \<and> st ! 12 = 0 then st[13 := st ! 13 + 1] else st)
      in c\<lparr>cstate := st, cblock := block, used := 0\<rparr>)"

fun chacha_transform :: "byte list \<Rightarrow> chacha20 \<Rightarrow> byte list \<times> chacha20" where
  "chacha_transform [] c = ([], c)"
| "chacha_transform (b # buf) c =
     (let c = (if used c = 64 then next_block c else c);
          (out, c') = chacha_transform buf (c\<lparr>used := used c + 1\<rparr>)
      in ((b XOR cblock c ! used c) # out, c'))"

subsection \<open>The connection's cipher\<close>

definition rc4_chacha :: "byte list \<Rightarrow> byte list \<Rightarrow> cipher" where
  "rc4_chacha session_key iv =
     ChaCha (chacha_new (sha256 session_key) (Ietf (take 12 iv) (word_of_be (take 4 (drop 12 iv)))))"

definition rc4_chacha64 :: "byte list \<Rightarrow> byte list \<Rightarrow> cipher" where
  "rc4_chacha64 session_key iv = ChaCha (chacha_new (sha256 session_key) (Original iv))"

definition cipher_transform :: "byte list \<Rightarrow> cipher \<Rightarrow> byte list \<times> cipher" where
  "cipher_transform buf c =
     (case c of
        Arc4 s i j \<Rightarrow> (case arc4_transform buf (s, i, j) of (out, s, i, j) \<Rightarrow> (out, Arc4 s i j))
      | ChaCha cc \<Rightarrow> (case chacha_transform buf cc of (out, cc) \<Rightarrow> (out, ChaCha cc)))"

text \<open>The bytes of consecutive calls on one connection.\<close>

fun transform_calls :: "byte list list \<Rightarrow> cipher \<Rightarrow> byte list \<times> cipher" where
  "transform_calls [] c = ([], c)"
| "transform_calls (buf # bufs) c =
     (let (out, c) = cipher_transform buf c; (outs, c) = transform_calls bufs c in (out @ outs, c))"

subsection \<open>Streams\<close>

lemma arc4_append:
  "arc4_transform (a @ b) st =
     (let (out, st) = arc4_transform a st; (out', st) = arc4_transform b st in (out @ out', st))"
  by (induction a st rule: arc4_transform.induct) (simp_all add: Let_def split: prod.splits)

lemma chacha_append:
  "chacha_transform (a @ b) c =
     (let (out, c) = chacha_transform a c; (out', c) = chacha_transform b c in (out @ out', c))"
  by (induction a c rule: chacha_transform.induct) (simp_all add: Let_def split: prod.splits)

lemma transform_append:
  "cipher_transform (a @ b) c =
     (let (out, c) = cipher_transform a c; (out', c) = cipher_transform b c in (out @ out', c))"
  by (cases c) (simp_all add: cipher_transform_def arc4_append chacha_append split: prod.splits)

lemma transform_calls_concat: "transform_calls bufs c = cipher_transform (concat bufs) c"
proof (induction bufs arbitrary: c)
  case Nil
  then show ?case by (cases c) (simp_all add: cipher_transform_def)
qed (simp add: transform_append split: prod.splits)

lemma xor_twice: "(b XOR k) XOR k = (b :: 'a::len word)"
  by (simp add: xor.assoc)

lemma arc4_twice: "arc4_transform buf st = (out, st') \<Longrightarrow> arc4_transform out st = (buf, st')"
  by (induction buf st arbitrary: out rule: arc4_transform.induct)
    (auto simp: Let_def xor_twice split: prod.splits)

lemma chacha_twice: "chacha_transform buf c = (out, c') \<Longrightarrow> chacha_transform out c = (buf, c')"
  by (induction buf c arbitrary: out rule: chacha_transform.induct)
    (auto simp: Let_def xor_twice split: prod.splits)

lemma transform_twice: "cipher_transform buf c = (out, c') \<Longrightarrow> cipher_transform out c = (buf, c')"
  by (cases c) (auto simp: cipher_transform_def split: prod.splits dest: arc4_twice chacha_twice)

text \<open>C26: The two directions of an encrypted connection stay in step: the receiving side, started from the
  sender's state, decrypts the stream to exactly the bytes that were sent, and ends in the sender's
  state, however differently the two sides cut the stream into \<^verbatim>\<open>transform\<close> calls - for Arc4 and both
  ChaCha layouts.\<close>

theorem receiver_recovers_stream:
  assumes "transform_calls sent c = (wire, c')" "concat received = wire"
  shows "transform_calls received c = (concat sent, c')"
  using assms transform_twice [of "concat sent" c wire c'] by (simp add: transform_calls_concat)

definition sample_cipher :: cipher where
  "sample_cipher = Arc4 (map of_nat [0..<256]) 0 0"

theorem receiver_recovers_stream_witness:
  "\<exists>wire c'. transform_calls [[1, 2], [3]] sample_cipher = (wire, c') \<and> transform_calls [wire] sample_cipher = ([1, 2, 3], c')"
proof -
  obtain wire c' where t: "transform_calls [[1, 2], [3]] sample_cipher = (wire, c')" by fastforce
  from receiver_recovers_stream [OF t, of "[wire]"] t show ?thesis by auto
qed

subsection \<open>The Arc4 box\<close>

definition box_ok :: "byte list \<Rightarrow> bool" where
  "box_ok s \<longleftrightarrow> length s = 256 \<and> distinct s"

lemma swap_box: "box_ok s \<Longrightarrow> i < 256 \<Longrightarrow> j < 256 \<Longrightarrow> box_ok (swap_at s i j)"
  by (simp add: box_ok_def swap_at_def)

lemma start_box: "box_ok (map of_nat [0..<256])"
proof -
  have "inj_on (of_nat :: nat \<Rightarrow> byte) {0..<256}"
  proof (rule inj_onI)
    fix x y
    assume "x \<in> {0..<256}" "y \<in> {0..<256}" "(of_nat x :: byte) = of_nat y"
    then have xy: "x < 256" "y < 256" and "unat (of_nat x :: byte) = unat (of_nat y :: byte)" by simp_all
    then have "x mod 2 ^ LENGTH(8) = y mod 2 ^ LENGTH(8)" by (simp only: unat_of_nat)
    then show "x = y" using xy by simp
  qed
  then show ?thesis by (simp add: box_ok_def distinct_map)
qed

lemma mix_box: "box_ok (fst sj) \<Longrightarrow> set is \<subseteq> {..<256} \<Longrightarrow> box_ok (fst (fold (rc4_mix key) is sj))"
proof (induction "is" arbitrary: sj)
  case (Cons i "is")
  then have "box_ok (fst (rc4_mix key i sj))" by (auto simp: rc4_mix_def Let_def swap_box split: prod.splits)
  then show ?case using Cons by simp
qed simp

lemma arc4_box: "box_ok (fst st) \<Longrightarrow> box_ok (fst (snd (arc4_transform buf st)))"
  by (induction buf st rule: arc4_transform.induct) (simp_all add: Let_def swap_box case_prod_unfold)

text \<open>The state of Arc4 is a permutation of the 256 byte values at key setup and after every call.\<close>

lemma arc4_box_is_permutation:
  assumes "rc4_new key = Ret c" "cipher_transform buf c = (out, c')"
  shows "\<exists>s i j. c' = Arc4 s i j \<and> length s = 256 \<and> distinct s \<and> set s = UNIV"
proof -
  obtain s where c: "c = Arc4 s 0 0" "box_ok s"
    using assms(1) mix_box [of "(map of_nat [0..<256], 0)" "[0..<256]" key] start_box
    by (auto simp: rc4_new_def lessThan_atLeast0 split: if_splits)
  obtain s' i j where c': "arc4_transform buf (s, 0, 0) = (out, s', i, j)" "c' = Arc4 s' i j"
    using assms(2) c(1) by (auto simp: cipher_transform_def split: prod.splits)
  then have box: "length s' = 256" "distinct s'" using arc4_box [of "(s, 0, 0)" buf] c(2) by (simp_all add: box_ok_def)
  then have "card (set s') = card (UNIV :: byte set)" by (simp add: distinct_card card_word)
  then have "set s' = UNIV" by (intro card_subset_eq) simp_all
  then show ?thesis using c'(2) box by blast
qed

subsection \<open>The ChaCha counter\<close>

definition block_counter :: "chacha20 \<Rightarrow> nat" where
  "block_counter c =
     unat (cstate c ! 12) + (if wide_counter c then 2 ^ 32 * unat (cstate c ! 13) else 0)"

definition counter_period :: "chacha20 \<Rightarrow> nat" where
  "counter_period c = (if wide_counter c then 2 ^ 64 else 2 ^ 32)"

lemma unat_inc: "unat (x + 1 :: u32) = (if x = - 1 then 0 else unat x + 1)"
  by (metis add.commute add_eq_0_iff unat_0 unatSuc Suc_eq_plus1 add_eq_0_iff2)

lemma unat_minus1: "unat (- 1 :: u32) = 2 ^ 32 - 1"
  by (simp add: unsigned_minus_1_eq_mask mask_eq_exp_minus_1)

lemma next_counter:
  assumes "length (cstate c) = 16"
  shows "block_counter (next_block c) = (block_counter c + 1) mod counter_period c"
    "length (cstate (next_block c)) = 16" "wide_counter (next_block c) = wide_counter c"
    "\<forall>i. i \<noteq> 12 \<and> i \<noteq> 13 \<longrightarrow> cstate (next_block c) ! i = cstate c ! i"
proof -
  let ?x = "cstate c ! 12" and ?y = "cstate c ! 13"
  have lt: "unat ?x < 2 ^ 32" "unat ?y < 2 ^ 32" using unat_limb [of ?x] unat_limb [of ?y] by (simp_all add: BASE_def)
  show "block_counter (next_block c) = (block_counter c + 1) mod counter_period c"
  proof (cases "?x = - 1")
    case True
    have "?y \<noteq> - 1 \<Longrightarrow> unat ?y \<noteq> 2 ^ 32 - 1" using unat_minus1 by (metis word_unat_eq_iff)
    then have "?y \<noteq> - 1 \<Longrightarrow> 4294967296 + 4294967296 * unat ?y < 18446744073709551616" using lt(2) by simp
    then show ?thesis
      using True assms lt unat_minus1 unat_inc [of ?y]
      by (cases "?y = - 1") (auto simp: next_block_def Let_def block_counter_def counter_period_def)
  next
    case False
    then have "?x + 1 \<noteq> 0" "unat ?x \<noteq> 2 ^ 32 - 1"
      using unat_minus1 by (metis add.right_inverse add_right_cancel eq_neg_iff_add_eq_0, metis word_unat_eq_iff)
    then show ?thesis using False assms lt unat_inc [of ?x]
      by (auto simp: next_block_def Let_def block_counter_def counter_period_def)
  qed
qed (use assms in \<open>auto simp: next_block_def Let_def\<close>)

lemma counter_after:
  assumes "length (cstate c) = 16" "block_counter c < counter_period c"
  shows "block_counter ((next_block ^^ n) c) = (block_counter c + n) mod counter_period c \<and>
    length (cstate ((next_block ^^ n) c)) = 16 \<and> wide_counter ((next_block ^^ n) c) = wide_counter c"
proof (induction n)
  case (Suc n)
  let ?c = "(next_block ^^ n) c"
  have "counter_period ?c = counter_period c" using Suc by (simp add: counter_period_def)
  then show ?case using Suc next_counter [of ?c] by (simp add: mod_Suc_eq)
qed (use assms in simp)

lemma counter_bound: "block_counter c < counter_period c"
  using unat_limb [of "cstate c ! 12"] unat_limb [of "cstate c ! 13"]
  unfolding block_counter_def counter_period_def BASE_def by simp

text \<open>The ChaCha20 keystream blocks of one connection are generated from distinct states for as long as
  the counter runs: 2^32 blocks in the IETF layout, 2^64 in the original one, whatever counter the
  connection starts from (it wraps around through zero).\<close>

lemma chacha_blocks_are_fresh:
  assumes "length (cstate c) = 16" "i < j" "j - i < counter_period c"
  shows "cstate ((next_block ^^ i) c) \<noteq> cstate ((next_block ^^ j) c)"
proof
  assume eq: "cstate ((next_block ^^ i) c) = cstate ((next_block ^^ j) c)"
  let ?p = "counter_period c"
  note at = counter_after [OF assms(1) counter_bound]
  have "block_counter ((next_block ^^ i) c) = block_counter ((next_block ^^ j) c)"
    using eq at [of i] at [of j] by (simp add: block_counter_def)
  then have "(block_counter c + i) mod ?p = (block_counter c + j) mod ?p" using at [of i] at [of j] by simp
  then have "?p dvd (block_counter c + j) - (block_counter c + i)"
    using mod_eq_dvd_iff_nat [of "block_counter c + i" "block_counter c + j" ?p] assms(2) by simp
  then have "?p dvd j - i" by simp
  then have "?p \<le> j - i" using assms(2) by (intro dvd_imp_le) simp_all
  then show False using assms(3) by simp
qed

end
