(* ===== verification/Srp_Properties.thy ===== *)
theory Srp_Properties
  imports Srp
begin

unbundle bit_operations_syntax

text \<open>
  What the SRP-6a exchange of \<^verbatim>\<open>crates/auth/src/srp.rs\<close> promises: the texts the parties send denote the
  numbers they hold, both sides reach the same secret, and what happens with a client key the group does
  not allow.
\<close>

subsection \<open>Hex texts denote their numbers\<close>

fun hex_number :: "byte list \<Rightarrow> nat \<Rightarrow> nat" where
  "hex_number [] n = n"
| "hex_number (c # cs) n = hex_number cs (16 * n + (case hex_digit_value c of Some d \<Rightarrow> d | None \<Rightarrow> 0))"

definition hex_digits :: "byte list \<Rightarrow> bool" where
  "hex_digits cs \<longleftrightarrow> (\<forall>c \<in> set cs. hex_digit_value c \<noteq> None)"

lemma hex_digit_value_less: "hex_digit_value c = Some d \<Longrightarrow> d < 16"
  by (auto simp: hex_digit_value_def Let_def split: if_splits)

lemma hex_digit_plain: "hex_digit_value c \<noteq> None \<Longrightarrow> c \<noteq> 0x2B \<and> \<not> continuation_byte c"
proof
  assume h: "hex_digit_value c \<noteq> None"
  show "c \<noteq> 0x2B" using h by (auto simp: hex_digit_value_def)
  have "unat c < 128" using h by (auto simp: hex_digit_value_def Let_def split: if_splits)
  then have "unat c div 2 ^ 7 = 0" by simp
  then have "\<not> bit (unat c) 7" unfolding bit_iff_odd [of "unat c"] by simp
  then have "\<not> bit c 7" by (simp add: bit_unsigned_iff)
  then have low: "\<not> bit (c AND 0xC0) 7" by (simp only: bit_and_iff simp_thms)
  have "bit (0x80 :: byte) 7" by simp
  then show "\<not> continuation_byte c" using low unfolding continuation_byte_def by metis
qed

lemma hex_digit_of:
  assumes "d < 16"
  shows "hex_digit_value (hex_digit d) = Some d"
proof -
  have "unat (hex_digit d) = (if d < 10 then 48 + d else 55 + d) mod 2 ^ LENGTH(8)"
    unfolding hex_digit_def unat_of_nat ..
  then have "unat (hex_digit d) = (if d < 10 then 48 + d else 55 + d)" using assms by auto
  then show ?thesis using assms unfolding hex_digit_value_def Let_def by auto
qed

lemma hex_pairs_number:
  "hex_digits cs \<Longrightarrow> even (length cs) \<Longrightarrow>
    \<exists>bs. hex_pairs cs = Ret bs \<and> length bs = length cs div 2 \<and> hex_number cs n = 256 ^ length bs * n + be_nat bs"
proof (induction cs arbitrary: n rule: hex_pairs.induct)
  case (1 a b rest)
  obtain x y where d: "hex_digit_value a = Some x" "hex_digit_value b = Some y"
    using "1.prems"(1) by (auto simp: hex_digits_def)
  have small: "x < 16" "y < 16" using d hex_digit_value_less by auto
  have head: "\<not> (rest \<noteq> [] \<and> continuation_byte (hd rest))"
    using "1.prems"(1) hex_digit_plain [of "hd rest"] by (cases rest) (auto simp: hex_digits_def)
  have pair: "parse_hex2 a b = Some (of_nat (16 * x + y))" using d hex_digit_plain [of a] by (simp add: parse_hex2_def)
  have num: "unat (of_nat (16 * x + y) :: byte) = 16 * x + y" using small unfolding unat_of_nat by simp
  obtain bs where bs: "hex_pairs rest = Ret bs" "length bs = length rest div 2"
    "hex_number rest (16 * (16 * n + x) + y) = 256 ^ length bs * (16 * (16 * n + x) + y) + be_nat bs"
    using "1.IH" [OF head, of "16 * (16 * n + x) + y"] "1.prems" by (auto simp: hex_digits_def)
  have "be_nat ((of_nat (16 * x + y) :: byte) # bs) = 256 ^ length bs * (16 * x + y) + be_nat bs"
    using be_nat_append [of "[of_nat (16 * x + y)]" bs] num by simp
  then show ?case using head pair bs d by (auto simp: algebra_simps)
qed (auto simp: hex_digits_def)

lemma hex_to_bytes_number:
  assumes "hex_digits cs"
  shows "\<exists>bs. hex_to_bytes cs = Ret bs \<and> be_nat bs = hex_number cs 0"
proof -
  let ?h = "if length cs mod 2 = 1 then 0x30 # cs else cs"
  have zero: "hex_digit_value 0x30 = Some 0" by (simp add: hex_digit_value_def Let_def)
  have "hex_digits ?h" "even (length ?h)" using assms zero by (auto simp: hex_digits_def)
  then obtain bs where "hex_pairs ?h = Ret bs" "hex_number ?h 0 = be_nat bs"
    using hex_pairs_number [of ?h 0] by auto
  moreover have "hex_number ?h 0 = hex_number cs 0" by (simp add: zero)
  ultimately show ?thesis by (auto simp: hex_to_bytes_def)
qed

lemma hex_of_bytes: "hex_digits (bytes_to_hex_upper bs) \<and> hex_number (bytes_to_hex_upper bs) n = 256 ^ length bs * n + be_nat bs"
proof (induction bs arbitrary: n)
  case (Cons b bs)
  have d: "unat b div 16 < 16" "unat b mod 16 < 16" using unat_byte_lt [of b] by (auto simp: less_mult_imp_div_less)
  have "be_nat (b # bs) = 256 ^ length bs * unat b + be_nat bs" using be_nat_append [of "[b]" bs] by simp
  moreover have "16 * (16 * n + unat b div 16) + unat b mod 16 = 256 * n + unat b"
    using mult_div_mod_eq [of 16 "unat b"] by (simp add: algebra_simps)
  ultimately show ?case using Cons d
    by (simp add: bytes_to_hex_upper_def hex_digits_def hex_digit_of algebra_simps)
qed (simp add: bytes_to_hex_upper_def hex_digits_def)

lemma hex_zeros: "hex_number (replicate k 0x30 @ cs) 0 = hex_number cs 0"
  by (induction k) (simp_all add: hex_digit_value_def Let_def)

lemma hex_text_number: "hex_digits (hex_text bs) \<and> hex_number (hex_text bs) 0 = be_nat bs"
proof -
  let ?h = "bytes_to_hex_upper bs"
  have h: "hex_digits ?h" "hex_number ?h 0 = be_nat bs" using hex_of_bytes [of bs 0] by simp_all
  show ?thesis
  proof (cases "rs_position (\<lambda>c. c \<noteq> 0x30) ?h")
    case None
    then have "\<forall>c \<in> set ?h. c = 0x30" by (simp add: rs_position_None)
    then have "?h = replicate (length ?h) 0x30 @ []" using replicate_length_same [of ?h "0x30"] by simp
    then have "hex_number ?h 0 = 0" by (metis hex_zeros hex_number.simps(1))
    then show ?thesis using None h(2) by (simp add: hex_text_def hex_digits_def hex_digit_value_def Let_def)
  next
    case (Some at)
    then have at: "at < length ?h" "\<forall>c \<in> set (take at ?h). c = 0x30"
      using rs_position_Some [OF Some] by (auto simp: in_set_conv_nth)
    then have "?h = replicate at 0x30 @ drop at ?h"
      by (metis append_take_drop_id length_take less_imp_le min_absorb2 replicate_length_same)
    then have "hex_number ?h 0 = hex_number (drop at ?h) 0" by (metis hex_zeros)
    moreover have "hex_digits (drop at ?h)" using h(1) by (auto simp: hex_digits_def dest: in_set_dropD)
    ultimately show ?thesis using Some h(2) by (simp add: hex_text_def)
  qed
qed

lemma hex_round_trip: "\<exists>bs. hex_to_bytes (hex_text v) = Ret bs \<and> be_nat bs = be_nat v"
  using hex_to_bytes_number [of "hex_text v"] hex_text_number [of v] by auto

lemma number_round_trip:
  assumes "trimmed x"
  shows "\<exists>bs. hex_to_bytes (hex_text (to_bytes_be x)) = Ret bs \<and> from_bytes_be bs = x"
proof -
  obtain bs where "hex_to_bytes (hex_text (to_bytes_be x)) = Ret bs" "be_nat bs = val x"
    using hex_round_trip [of "to_bytes_be x"] by auto
  moreover from this have "from_bytes_be bs = x" by (intro trimmed_unique) (simp_all add: assms)
  ultimately show ?thesis by blast
qed

subsection \<open>Proofs are compared as numbers\<close>

lemma be_nat_same_length: "length a = length b \<Longrightarrow> be_nat a = be_nat b \<Longrightarrow> a = b"
  unfolding be_nat_def using le_bytes_le_nat [of "rev a"] le_bytes_le_nat [of "rev b"] by (metis length_rev rev_rev_ident)

lemma be_nat_leading:
  assumes "b \<noteq> 0"
  shows "256 ^ length bs \<le> be_nat (b # bs)"
proof -
  have "256 ^ length bs * 1 \<le> 256 ^ length bs * unat b" using assms by (intro mult_le_mono2) (simp add: Suc_leI unat_gt_0)
  then have "256 ^ length bs \<le> 256 ^ length bs * unat b" by linarith
  then show ?thesis using be_nat_append [of "[b]" bs] by (simp del: mult_le_cancel1 add: trans_le_add1)
qed

lemma be_nat_shorter:
  assumes "length a < length b" "hd b \<noteq> 0"
  shows "be_nat a < be_nat b"
proof -
  obtain y ys where b: "b = y # ys" using assms(1) by (cases b) auto
  have "be_nat a < 256 ^ length a" by (rule be_nat_less)
  also have "\<dots> \<le> 256 ^ length ys" using assms(1) b by (intro power_increasing) auto
  also have "\<dots> \<le> be_nat b" using be_nat_leading [of y ys] assms(2) b by simp
  finally show ?thesis .
qed

lemma minimal_unique:
  "a = [] \<or> hd a \<noteq> 0 \<Longrightarrow> b = [] \<or> hd b \<noteq> 0 \<Longrightarrow> be_nat a = be_nat b \<Longrightarrow> a = b"
  using be_nat_shorter [of a b] be_nat_shorter [of b a] be_nat_same_length [of a b]
  by (metis length_0_conv less_irrefl linorder_neqE_nat not_less_zero)

lemma trim_zeros_eq: "trim_zeros b = dropWhile (\<lambda>x. x = 0) b"
proof (induction b)
  case (Cons x b)
  then show ?case by (auto simp: trim_zeros_def split: option.splits)
qed (simp add: trim_zeros_def)

lemma trim_zeros_minimal: "trim_zeros b = [] \<or> hd (trim_zeros b) \<noteq> 0"
  unfolding trim_zeros_eq using hd_dropWhile [of "\<lambda>x. x = 0" b] by auto

lemma proof_matches_number:
  assumes "hex_to_bytes h = Ret got"
  shows "proof_matches expected h = Ret (be_nat expected = be_nat got)"
proof -
  have "be_nat (trim_zeros b) = be_nat b" for b unfolding trim_zeros_eq by simp
  then have "trim_zeros expected = trim_zeros got \<longleftrightarrow> be_nat expected = be_nat got"
    using minimal_unique [OF trim_zeros_minimal trim_zeros_minimal] by metis
  then show ?thesis using assms by (simp add: proof_matches_def)
qed

lemma proof_matches_own: "proof_matches m (hex_text m) = Ret True"
proof -
  obtain got where "hex_to_bytes (hex_text m) = Ret got" "be_nat got = be_nat m" using hex_round_trip by blast
  then show ?thesis using proof_matches_number by simp
qed

subsection \<open>The group\<close>

lemma srp_n_bytes: "\<exists>bs. hex_to_bytes N_HEX = Ret (0xE6 # bs) \<and> length bs = 127"
proof -
  have "(case hex_to_bytes N_HEX of Some bs \<Rightarrow> hd bs = 0xE6 \<and> length bs = 128 | None \<Rightarrow> False)" by code_simp
  then obtain bs where bs: "hex_to_bytes N_HEX = Some bs" "hd bs = 0xE6" "length bs = 128" by (auto split: option.splits)
  then obtain b tl where "bs = b # tl" by (cases bs) auto
  then show ?thesis using bs by auto
qed

lemma trimmed_Nil [simp]: "trimmed []"
  by (simp add: trimmed_def)

lemma trimmed_n [simp]: "trimmed srp_n"
  using srp_n_bytes by (auto simp: srp_n_def)

lemma srp_n_large: "256 ^ 127 \<le> val srp_n"
proof -
  obtain bs where bs: "hex_to_bytes N_HEX = Ret (0xE6 # bs)" "length bs = 127" using srp_n_bytes by blast
  have "256 ^ length bs \<le> be_nat (0xE6 # bs)" by (rule be_nat_leading) simp
  then show ?thesis using bs by (simp add: srp_n_def)
qed

lemma srp_n_pos [simp]: "0 < val srp_n" "srp_n \<noteq> []"
proof -
  have "(0 :: nat) < 256 ^ 127" by simp
  then show "0 < val srp_n" using srp_n_large by linarith
  then show "srp_n \<noteq> []" by auto
qed

lemma trimmed_srp [simp]: "trimmed srp_g" "trimmed (user_hash user password salt)" "trimmed (scramble a b)" "trimmed k_param"
  by (simp_all add: srp_g_def user_hash_def scramble_def k_param_def)

lemma hash_number_less: "val (from_bytes_be (sha1 d)) < 2 ^ 160"
  using be_nat_less [of "sha1 d"] by simp

lemma val_hash_less: "val (user_hash user password salt) < 2 ^ 160" "val (scramble a b) < 2 ^ 160"
  unfolding user_hash_def scramble_def by (rule hash_number_less)+

lemma modpow_n:
  assumes "trimmed b" "trimmed e"
  shows "val (modpow b e srp_n) = val b ^ val e mod val srp_n" "trimmed (modpow b e srp_n)"
  using val_modpow [OF assms trimmed_n srp_n_pos(2)] by simp_all

lemma mod_ops_n:
  assumes "trimmed x" "trimmed y"
  shows "val (add_mod x y srp_n) = (val x + val y) mod val srp_n" "trimmed (add_mod x y srp_n)"
    "val (mul_mod x y srp_n) = val x * val y mod val srp_n" "trimmed (mul_mod x y srp_n)"
    "val (rem_pub x srp_n) = val x mod val srp_n" "trimmed (rem_pub x srp_n)"
  using assms by (simp_all add: add_mod_def mul_mod_def rem_pub_def big_zero_def val_big_rem trimmed_big_rem)

lemma sub_mod_n:
  assumes "trimmed x" "trimmed y"
  shows "trimmed (sub_mod x y srp_n)" "val (sub_mod x y srp_n) < val srp_n"
    "(val (sub_mod x y srp_n) + val y) mod val srp_n = val x mod val srp_n"
proof -
  let ?N = "val srp_n" and ?a = "val x mod val srp_n" and ?b = "val y mod val srp_n"
  have t: "trimmed (big_rem x srp_n)" "trimmed (big_rem y srp_n)" "val (big_rem x srp_n) = ?a" "val (big_rem y srp_n) = ?b"
    using assms by (simp_all add: trimmed_big_rem val_big_rem)
  have lt: "?a < ?N" "?b < ?N" by simp_all
  have res: "trimmed (sub_mod x y srp_n) \<and> val (sub_mod x y srp_n) = (if ?b \<le> ?a then ?a - ?b else ?a + ?N - ?b)"
  proof -
    have "?b \<le> ?a + ?N" using lt by linarith
    then show ?thesis
      using t big_cmp_val [OF t(1,2)] val_big_sub [OF t(1,2)]
        val_big_sub [of "big_add (big_rem x srp_n) srp_n" "big_rem y srp_n"]
      by (auto simp: sub_mod_def Let_def word_cmp_def split: if_splits)
  qed
  then show "trimmed (sub_mod x y srp_n)" by blast
  show "val (sub_mod x y srp_n) < ?N" using res lt by (cases "?b \<le> ?a"; simp only: if_True if_False; linarith)
  have "val (sub_mod x y srp_n) + ?b = ?a \<or> val (sub_mod x y srp_n) + ?b = ?a + ?N"
    using res lt by (cases "?b \<le> ?a"; simp only: if_True if_False; linarith)
  then have "(val (sub_mod x y srp_n) + ?b) mod ?N = ?a" by auto
  then show "(val (sub_mod x y srp_n) + val y) mod ?N = ?a" by (simp add: mod_add_right_eq)
qed

lemma mod_cancel_add:
  fixes r g k N :: nat
  assumes "(r + k) mod N = (k + g) mod N" "r < N"
  shows "r = g mod N"
proof -
  have "int N dvd (int r + int k) - (int k + int g)"
    using arg_cong [OF assms(1), of int] by (simp only: of_nat_mod of_nat_add mod_eq_dvd_iff)
  then have "int N dvd int r - int g" by simp
  then have "int r mod int N = int g mod int N" by (simp only: mod_eq_dvd_iff)
  then have "r mod N = g mod N" by (metis of_nat_mod of_nat_eq_iff)
  then show ?thesis using assms(2) by simp
qed

subsection \<open>Agreement\<close>

text \<open>The secret of both sides is the power to the product of the exponents.\<close>

lemma secrets_agree:
  fixes g a b x u N :: nat
  shows "((g ^ b) mod N) ^ (a + u * x) mod N = (((g ^ a) mod N) * (((g ^ x mod N) ^ u) mod N) mod N) ^ b mod N"
proof -
  have "(((g ^ a) mod N) * (((g ^ x mod N) ^ u) mod N) mod N) ^ b mod N = (g ^ a * (g ^ x) ^ u) ^ b mod N"
    by (metis mod_mult_eq power_mod)
  also have "(g ^ a * (g ^ x) ^ u) ^ b = (g ^ b) ^ (a + u * x)"
    by (simp add: power_mult_distrib power_add mult.commute flip: power_mult)
  finally show ?thesis by (metis power_mod)
qed

text \<open>The server's public value and the client's base.\<close>

lemma server_public_val:
  assumes "trimmed (v_value sv)"
  shows "\<exists>B. server_public sv b_bytes = (rem_pub (from_bytes_be b_bytes) srp_n, hex_text (to_bytes_be B)) \<and> trimmed B \<and>
    val B = (val k_param * val (v_value sv) + val srp_g ^ (be_nat b_bytes mod val srp_n)) mod val srp_n"
proof -
  let ?b = "rem_pub (from_bytes_be b_bytes) srp_n"
  let ?B = "add_mod (mul_mod k_param (v_value sv) srp_n) (modpow srp_g ?b srp_n) srp_n"
  have b: "trimmed ?b" "val ?b = be_nat b_bytes mod val srp_n" using mod_ops_n [of "from_bytes_be b_bytes" "[]"] by simp_all
  have "trimmed ?B \<and> val ?B = (val k_param * val (v_value sv) + val srp_g ^ val ?b) mod val srp_n"
    using assms b(1) by (simp add: mod_ops_n modpow_n mod_add_eq)
  then show ?thesis unfolding b(2) by (auto simp: server_public_def Let_def)
qed

lemma client_base:
  assumes "trimmed B" "trimmed v" "val B = (val k_param * val v + g) mod val srp_n"
  shows "val (sub_mod B (mul_mod k_param v srp_n) srp_n) = g mod val srp_n"
    "trimmed (sub_mod B (mul_mod k_param v srp_n) srp_n)"
proof -
  have k: "trimmed (mul_mod k_param v srp_n)" "val (mul_mod k_param v srp_n) = val k_param * val v mod val srp_n"
    using assms(2) by (simp_all add: mod_ops_n)
  note sub = sub_mod_n [OF assms(1) k(1)]
  have "(val (sub_mod B (mul_mod k_param v srp_n) srp_n) + val k_param * val v) mod val srp_n = (val k_param * val v + g) mod val srp_n"
    using sub(3) unfolding k(2) assms(3) by (simp add: mod_add_right_eq)
  then show "val (sub_mod B (mul_mod k_param v srp_n) srp_n) = g mod val srp_n" using sub(2) by (rule mod_cancel_add)
  show "trimmed (sub_mod B (mul_mod k_param v srp_n) srp_n)" by (rule sub(1))
qed

lemma to_bytes_cong: "trimmed x \<Longrightarrow> trimmed y \<Longrightarrow> val x = val y \<Longrightarrow> to_bytes_be x = to_bytes_be y"
  using trimmed_unique by blast

lemma stored_verifier: "from_stored user salt (compute_verifier user password salt) = verifier_new user password salt"
  using modpow_n(2) by (simp add: from_stored_def compute_verifier_def verifier_new_def from_to_bytes)

text \<open>C27: An honest client and a server that holds only the stored verifier agree: for both plugins, any user,
  password and salt and any randomness, the texts they exchange parse, the client's proof is accepted,
  and the server derives exactly the client's session key - provided the client's private key leaves
  room for u * x below the prime, since the code reduces the exponent a + u * x modulo the prime
  itself (2^320 of the 2^1024 keys are not covered).\<close>

theorem handshake_agrees:
  assumes "be_nat a_bytes mod val srp_n + 2 ^ 320 \<le> val srp_n"
    "server_public (from_stored user salt (compute_verifier user password salt)) b_bytes = (b_priv, b_hex)"
  shows "\<exists>p. proof_with (client_start a_bytes) algo user password salt b_hex = Ret p \<and>
    verify_with (from_stored user salt (compute_verifier user password salt)) algo
      (a_hex (client_start a_bytes)) b_priv b_hex (m_hex p) = Ret (Some (proof_key p))"
proof -
  let ?N = "val srp_n"
  let ?c = "client_start a_bytes"
  let ?sv = "verifier_new user password salt"
  define x where "x = user_hash user password salt"
  define v where "v = modpow srp_g x srp_n"
  have x: "trimmed x" by (simp add: x_def)
  have v: "v_value ?sv = v" "trimmed v" "val v = val srp_g ^ val x mod ?N"
    using modpow_n [OF _ x] by (simp_all add: verifier_new_def x_def v_def)
  obtain B where B: "b_priv = rem_pub (from_bytes_be b_bytes) srp_n" "b_hex = hex_text (to_bytes_be B)" "trimmed B"
    "val B = (val k_param * val v + val srp_g ^ (be_nat b_bytes mod ?N)) mod ?N"
    using server_public_val [of ?sv b_bytes] assms(2) v by (auto simp: stored_verifier)
  have bp: "trimmed b_priv" "val b_priv = be_nat b_bytes mod ?N"
    using mod_ops_n [of "from_bytes_be b_bytes" "[]"] B(1) by simp_all
  have ap: "trimmed (a_priv ?c)" "val (a_priv ?c) = be_nat a_bytes mod ?N"
    using mod_ops_n [of "from_bytes_be a_bytes" "[]"] by (simp_all add: client_start_def Let_def)
  have A: "a_pub ?c = modpow srp_g (a_priv ?c) srp_n" "a_hex ?c = hex_text (to_bytes_be (a_pub ?c))"
    by (simp_all add: client_start_def Let_def)
  have Av: "trimmed (a_pub ?c)" "val (a_pub ?c) = val srp_g ^ val (a_priv ?c) mod ?N" using modpow_n [OF _ ap(1)] A(1) by simp_all
  obtain bb where bb: "hex_to_bytes b_hex = Ret bb" "from_bytes_be bb = B" using number_round_trip [OF B(3)] B(2) by blast
  obtain ab where ab: "hex_to_bytes (a_hex ?c) = Ret ab" "from_bytes_be ab = a_pub ?c"
    using number_round_trip [OF Av(1)] A(2) by auto
  define u where "u = scramble (a_pub ?c) B"
  have u: "trimmed u" by (simp add: u_def)
  define ex where "ex = add_mod (a_priv ?c) (mul_mod u x srp_n) srp_n"
  have "val u * val x < 2 ^ 160 * 2 ^ 160" using val_hash_less unfolding u_def x_def by (intro mult_strict_mono') simp_all
  then have ux: "val u * val x < 2 ^ 320" by simp
  then have room: "val u * val x < ?N" "val (a_priv ?c) + val u * val x < ?N" using assms(1) ap(2) by linarith+
  have ex: "trimmed ex" "val ex = val (a_priv ?c) + val u * val x"
    using u x ap(1) room by (simp_all add: ex_def mod_ops_n)
  define bs where "bs = sub_mod B (mul_mod k_param v srp_n) srp_n"
  have bs: "trimmed bs" "val bs = val srp_g ^ val b_priv mod ?N"
    using client_base [OF B(3) v(2), of "val srp_g ^ val b_priv"] B(4) bp(2) by (simp_all add: bs_def)
  define s where "s = modpow bs ex srp_n"
  define s' where "s' = modpow (mul_mod (a_pub ?c) (modpow v u srp_n) srp_n) b_priv srp_n"
  have s: "trimmed s" "val s = (val srp_g ^ val b_priv mod ?N) ^ (val (a_priv ?c) + val u * val x) mod ?N"
    using modpow_n [OF bs(1) ex(1)] bs(2) ex(2) by (simp_all add: s_def)
  have s': "trimmed s'" "val s' = ((val srp_g ^ val (a_priv ?c) mod ?N) * ((val srp_g ^ val x mod ?N) ^ val u mod ?N) mod ?N) ^ val b_priv mod ?N"
    using u v bp(1) Av by (simp_all add: s'_def modpow_n mod_ops_n)
  have "val s = val s'" unfolding s(2) s'(2) by (rule secrets_agree)
  then have key: "to_bytes_be s = to_bytes_be s'" by (rule to_bytes_cong [OF s(1) s'(1)])
  define K where "K = sha1 (to_bytes_be s)"
  define m where "m = make_proof algo user salt (a_pub ?c) B K"
  have client: "proof_with ?c algo user password salt b_hex = Ret \<lparr>m_hex = hex_text m, proof_key = K,
      scramble_hex = hex_text (to_bytes_be u), x_hex = hex_text (to_bytes_be x), secret_hex = hex_text (to_bytes_be s)\<rparr>"
    using bb by (simp add: proof_with_def Let_def m_def K_def s_def bs_def ex_def u_def v_def x_def)
  have "session_key ?sv (a_hex ?c) b_priv b_hex = Ret K"
    using ab bb key v(1) by (simp add: session_key_def Let_def K_def s'_def u_def)
  then have "verify_with ?sv algo (a_hex ?c) b_priv b_hex (hex_text m) = Ret (Some K)"
    using ab bb proof_matches_own [of m] by (simp add: verify_with_def Let_def m_def verifier_new_def)
  then show ?thesis using client by (simp add: stored_verifier)
qed

theorem handshake_agrees_witness:
  "\<exists>b_priv b_hex p. server_public (from_stored [65] [66] (compute_verifier [65] [67] [66])) [5] = (b_priv, b_hex) \<and>
    proof_with (client_start [3]) Srp256 [65] [67] [66] b_hex = Ret p \<and>
    verify_with (from_stored [65] [66] (compute_verifier [65] [67] [66])) Srp256
      (a_hex (client_start [3])) b_priv b_hex (m_hex p) = Ret (Some (proof_key p))"
proof -
  have large: "2 ^ 320 + 3 \<le> val srp_n"
  proof -
    have "(2 :: nat) ^ 320 + 3 \<le> 256 ^ 127" by simp
    then show ?thesis using srp_n_large by linarith
  qed
  then have "be_nat [3] mod val srp_n = 3" by (simp add: be_nat_def)
  then have room: "be_nat [3] mod val srp_n + 2 ^ 320 \<le> val srp_n" using large by simp
  obtain b_priv b_hex where sp: "server_public (from_stored [65] [66] (compute_verifier [65] [67] [66])) [5] = (b_priv, b_hex)"
    by fastforce
  from handshake_agrees [OF room sp, of Srp256] sp show ?thesis by blast
qed

text \<open>C28: A client key that is a multiple of the prime is accepted without the password: the server checks
  neither A nor its residue, so with such a key the secret is zero whatever the verifier is, the session
  key is the digest of nothing, and a proof computed from the user name, the salt and the public values
  alone is accepted - for every verifier and every private key of the server but zero.\<close>

theorem zero_client_key_is_accepted:
  assumes "trimmed (v_value sv)" "trimmed b_priv" "0 < val b_priv"
    "hex_to_bytes client_hex = Ret a_bytes" "val srp_n dvd be_nat a_bytes" "hex_to_bytes b_hex = Ret b_bytes"
  shows "verify_with sv algo client_hex b_priv b_hex
      (hex_text (make_proof algo (v_user sv) (v_salt sv) (from_bytes_be a_bytes) (from_bytes_be b_bytes) (sha1 [])))
    = Ret (Some (sha1 []))"
proof -
  let ?A = "from_bytes_be a_bytes"
  let ?vu = "modpow (v_value sv) (scramble ?A (from_bytes_be b_bytes)) srp_n"
  let ?s = "modpow (mul_mod ?A ?vu srp_n) b_priv srp_n"
  have "val (mul_mod ?A ?vu srp_n) = 0" using assms(1,5) by (auto simp: mod_ops_n modpow_n)
  then have "trimmed ?s \<and> val ?s = 0" using assms(1-3) by (simp add: mod_ops_n modpow_n zero_power)
  then have "?s = []" using trimmed_zero_iff [of ?s] by blast
  then have "session_key sv client_hex b_priv b_hex = Ret (sha1 [])"
    using assms(4,6) by (simp add: session_key_def Let_def to_bytes_be_def)
  then show ?thesis using assms(4,6) proof_matches_own by (simp add: verify_with_def Let_def)
qed

theorem zero_client_key_is_accepted_witness:
  "verify_with (from_stored [65] [66] (compute_verifier [65] [67] [66])) Srp256 [0x30] [5] [0x32]
     (hex_text (make_proof Srp256 [65] [66] (from_bytes_be [0]) (from_bytes_be [2]) (sha1 [])))
   = Ret (Some (sha1 []))"
proof -
  let ?sv = "from_stored [65] [66] (compute_verifier [65] [67] [66])"
  have sv: "v_user ?sv = [65]" "v_salt ?sv = [66]" "trimmed (v_value ?sv)" by (simp_all add: from_stored_def)
  have hex: "hex_to_bytes [0x30] = Ret [0]" "hex_to_bytes [0x32] = Ret [2]"
    by (simp_all add: hex_to_bytes_def parse_hex2_def hex_digit_value_def Let_def)
  have dvd: "val srp_n dvd be_nat [0]" by simp
  have b: "trimmed [5]" "0 < val [5]" by (simp_all add: trimmed_def)
  show ?thesis using zero_client_key_is_accepted [OF sv(3) b hex(1) dvd hex(2), of Srp256] sv by simp
qed

end
