(* ===== verification/Intl_Cases.thy ===== *)
theory Intl_Cases
  imports Intl_Tables
begin

text \<open>
  The case tables of \<^verbatim>\<open>intl.rs\<close>: for every single-byte set the upper and the lower case of each byte
  from 0x80 on, \<^verbatim>\<open>CASE_ERR\<close> where the cased character has no image in the set.
\<close>

definition CASE_ERR :: rchar where
  "CASE_ERR = 0xFFFF"

definition WIN1250_CASE :: "(rchar \<times> rchar) list" where
  "WIN1250_CASE = concat [
     [(0x20AC, 0x20AC), (0x0000, 0x0000), (0x201A, 0x201A), (0x0000, 0x0000), (0x201E, 0x201E), (0x2026, 0x2026), (0x2020, 0x2020), (0x2021, 0x2021)],
     [(0x0000, 0x0000), (0x2030, 0x2030), (0x0160, 0x0161), (0x2039, 0x2039), (0x015A, 0x015B), (0x0164, 0x0165), (0x017D, 0x017E), (0x0179, 0x017A)],
     [(0x0000, 0x0000), (0x2018, 0x2018), (0x2019, 0x2019), (0x201C, 0x201C), (0x201D, 0x201D), (0x2022, 0x2022), (0x2013, 0x2013), (0x2014, 0x2014)],
     [(0x0000, 0x0000), (0x2122, 0x2122), (0x0160, 0x0161), (0x203A, 0x203A), (0x015A, 0x015B), (0x0164, 0x0165), (0x017D, 0x017E), (0x0179, 0x017A)],
     [(0x00A0, 0x00A0), (0x02C7, 0x02C7), (0x02D8, 0x02D8), (0x0141, 0x0142), (0x00A4, 0x00A4), (0x0104, 0x0105), (0x00A6, 0x00A6), (0x00A7, 0x00A7)],
     [(0x00A8, 0x00A8), (0x00A9, 0x00A9), (0x015E, 0x015F), (0x00AB, 0x00AB), (0x00AC, 0x00AC), (0x00AD, 0x00AD), (0x00AE, 0x00AE), (0x017B, 0x017C)],
     [(0x00B0, 0x00B0), (0x00B1, 0x00B1), (0x02DB, 0x02DB), (0x0141, 0x0142), (0x00B4, 0x00B4), (0x00B5, 0x00B5), (0x00B6, 0x00B6), (0x00B7, 0x00B7)],
     [(0x00B8, 0x00B8), (0x0104, 0x0105), (0x015E, 0x015F), (0x00BB, 0x00BB), (0x013D, 0x013E), (0x02DD, 0x02DD), (0x013D, 0x013E), (0x017B, 0x017C)],
     [(0x0154, 0x0155), (0x00C1, 0x00E1), (0x00C2, 0x00E2), (0x0102, 0x0103), (0x00C4, 0x00E4), (0x0139, 0x013A), (0x0106, 0x0107), (0x00C7, 0x00E7)],
     [(0x010C, 0x010D), (0x00C9, 0x00E9), (0x0118, 0x0119), (0x00CB, 0x00EB), (0x011A, 0x011B), (0x00CD, 0x00ED), (0x00CE, 0x00EE), (0x010E, 0x010F)],
     [(0x0110, 0x0111), (0x0143, 0x0144), (0x0147, 0x0148), (0x00D3, 0x00F3), (0x00D4, 0x00F4), (0x0150, 0x0151), (0x00D6, 0x00F6), (0x00D7, 0x00D7)],
     [(0x0158, 0x0159), (0x016E, 0x016F), (0x00DA, 0x00FA), (0x0170, 0x0171), (0x00DC, 0x00FC), (0x00DD, 0x00FD), (0x0162, 0x0163), (0x00DF, 0x00DF)],
     [(0x0154, 0x0155), (0x00C1, 0x00E1), (0x00C2, 0x00E2), (0x0102, 0x0103), (0x00C4, 0x00E4), (0x0139, 0x013A), (0x0106, 0x0107), (0x00C7, 0x00E7)],
     [(0x010C, 0x010D), (0x00C9, 0x00E9), (0x0118, 0x0119), (0x00CB, 0x00EB), (0x011A, 0x011B), (0x00CD, 0x00ED), (0x00CE, 0x00EE), (0x010E, 0x010F)],
     [(0x0110, 0x0111), (0x0143, 0x0144), (0x0147, 0x0148), (0x00D3, 0x00F3), (0x00D4, 0x00F4), (0x0150, 0x0151), (0x00D6, 0x00F6), (0x00F7, 0x00F7)],
     [(0x0158, 0x0159), (0x016E, 0x016F), (0x00DA, 0x00FA), (0x0170, 0x0171), (0x00DC, 0x00FC), (0x00DD, 0x00FD), (0x0162, 0x0163), (0x02D9, 0x02D9)]]"

definition WIN1251_CASE :: "(rchar \<times> rchar) list" where
  "WIN1251_CASE = concat [
     [(0x0402, 0x0452), (0x0403, 0x0453), (0x201A, 0x201A), (0x0403, 0x0453), (0x201E, 0x201E), (0x2026, 0x2026), (0x2020, 0x2020), (0x2021, 0x2021)],
     [(0x20AC, 0x20AC), (0x2030, 0x2030), (0x0409, 0x0459), (0x2039, 0x2039), (0x040A, 0x045A), (0x040C, 0x045C), (0x040B, 0x045B), (0x040F, 0x045F)],
     [(0x0402, 0x0452), (0x2018, 0x2018), (0x2019, 0x2019), (0x201C, 0x201C), (0x201D, 0x201D), (0x2022, 0x2022), (0x2013, 0x2013), (0x2014, 0x2014)],
     [(0x0000, 0x0000), (0x2122, 0x2122), (0x0409, 0x0459), (0x203A, 0x203A), (0x040A, 0x045A), (0x040C, 0x045C), (0x040B, 0x045B), (0x040F, 0x045F)],
     [(0x00A0, 0x00A0), (0x040E, 0x045E), (0x040E, 0x045E), (0x0408, 0x0458), (0x00A4, 0x00A4), (0x0490, 0x0491), (0x00A6, 0x00A6), (0x00A7, 0x00A7)],
     [(0x0401, 0x0451), (0x00A9, 0x00A9), (0x0404, 0x0454), (0x00AB, 0x00AB), (0x00AC, 0x00AC), (0x00AD, 0x00AD), (0x00AE, 0x00AE), (0x0407, 0x0457)],
     [(0x00B0, 0x00B0), (0x00B1, 0x00B1), (0x0406, 0x0456), (0x0406, 0x0456), (0x0490, 0x0491), (0x00B5, 0x00B5), (0x00B6, 0x00B6), (0x00B7, 0x00B7)],
     [(0x0401, 0x0451), (0x2116, 0x2116), (0x0404, 0x0454), (0x00BB, 0x00BB), (0x0408, 0x0458), (0x0405, 0x0455), (0x0405, 0x0455), (0x0407, 0x0457)],
     [(0x0410, 0x0430), (0x0411, 0x0431), (0x0412, 0x0432), (0x0413, 0x0433), (0x0414, 0x0434), (0x0415, 0x0435), (0x0416, 0x0436), (0x0417, 0x0437)],
     [(0x0418, 0x0438), (0x0419, 0x0439), (0x041A, 0x043A), (0x041B, 0x043B), (0x041C, 0x043C), (0x041D, 0x043D), (0x041E, 0x043E), (0x041F, 0x043F)],
     [(0x0420, 0x0440), (0x0421, 0x0441), (0x0422, 0x0442), (0x0423, 0x0443), (0x0424, 0x0444), (0x0425, 0x0445), (0x0426, 0x0446), (0x0427, 0x0447)],
     [(0x0428, 0x0448), (0x0429, 0x0449), (0x042A, 0x044A), (0x042B, 0x044B), (0x042C, 0x044C), (0x042D, 0x044D), (0x042E, 0x044E), (0x042F, 0x044F)],
     [(0x0410, 0x0430), (0x0411, 0x0431), (0x0412, 0x0432), (0x0413, 0x0433), (0x0414, 0x0434), (0x0415, 0x0435), (0x0416, 0x0436), (0x0417, 0x0437)],
     [(0x0418, 0x0438), (0x0419, 0x0439), (0x041A, 0x043A), (0x041B, 0x043B), (0x041C, 0x043C), (0x041D, 0x043D), (0x041E, 0x043E), (0x041F, 0x043F)],
     [(0x0420, 0x0440), (0x0421, 0x0441), (0x0422, 0x0442), (0x0423, 0x0443), (0x0424, 0x0444), (0x0425, 0x0445), (0x0426, 0x0446), (0x0427, 0x0447)],
     [(0x0428, 0x0448), (0x0429, 0x0449), (0x042A, 0x044A), (0x042B, 0x044B), (0x042C, 0x044C), (0x042D, 0x044D), (0x042E, 0x044E), (0x042F, 0x044F)]]"

definition WIN1252_CASE :: "(rchar \<times> rchar) list" where
  "WIN1252_CASE = concat [
     [(0x20AC, 0x20AC), (0x0000, 0x0000), (0x201A, 0x201A), (CASE_ERR, 0x0192), (0x201E, 0x201E), (0x2026, 0x2026), (0x2020, 0x2020), (0x2021, 0x2021)],
     [(0x02C6, 0x02C6), (0x2030, 0x2030), (0x0160, 0x0161), (0x2039, 0x2039), (0x0152, 0x0153), (0x0000, 0x0000), (0x017D, 0x017E), (0x0000, 0x0000)],
     [(0x0000, 0x0000), (0x2018, 0x2018), (0x2019, 0x2019), (0x201C, 0x201C), (0x201D, 0x201D), (0x2022, 0x2022), (0x2013, 0x2013), (0x2014, 0x2014)],
     [(0x02DC, 0x02DC), (0x2122, 0x2122), (0x0160, 0x0161), (0x203A, 0x203A), (0x0152, 0x0153), (0x0000, 0x0000), (0x017D, 0x017E), (0x0178, 0x00FF)],
     [(0x00A0, 0x00A0), (0x00A1, 0x00A1), (0x00A2, 0x00A2), (0x00A3, 0x00A3), (0x00A4, 0x00A4), (0x00A5, 0x00A5), (0x00A6, 0x00A6), (0x00A7, 0x00A7)],
     [(0x00A8, 0x00A8), (0x00A9, 0x00A9), (0x00AA, 0x00AA), (0x00AB, 0x00AB), (0x00AC, 0x00AC), (0x00AD, 0x00AD), (0x00AE, 0x00AE), (0x00AF, 0x00AF)],
     [(0x00B0, 0x00B0), (0x00B1, 0x00B1), (0x00B2, 0x00B2), (0x00B3, 0x00B3), (0x00B4, 0x00B4), (0x00B5, 0x00B5), (0x00B6, 0x00B6), (0x00B7, 0x00B7)],
     [(0x00B8, 0x00B8), (0x00B9, 0x00B9), (0x00BA, 0x00BA), (0x00BB, 0x00BB), (0x00BC, 0x00BC), (0x00BD, 0x00BD), (0x00BE, 0x00BE), (0x00BF, 0x00BF)],
     [(0x00C0, 0x00E0), (0x00C1, 0x00E1), (0x00C2, 0x00E2), (0x00C3, 0x00E3), (0x00C4, 0x00E4), (0x00C5, 0x00E5), (0x00C6, 0x00E6), (0x00C7, 0x00E7)],
     [(0x00C8, 0x00E8), (0x00C9, 0x00E9), (0x00CA, 0x00EA), (0x00CB, 0x00EB), (0x00CC, 0x00EC), (0x00CD, 0x00ED), (0x00CE, 0x00EE), (0x00CF, 0x00EF)],
     [(0x00D0, 0x00F0), (0x00D1, 0x00F1), (0x00D2, 0x00F2), (0x00D3, 0x00F3), (0x00D4, 0x00F4), (0x00D5, 0x00F5), (0x00D6, 0x00F6), (0x00D7, 0x00D7)],
     [(0x00D8, 0x00F8), (0x00D9, 0x00F9), (0x00DA, 0x00FA), (0x00DB, 0x00FB), (0x00DC, 0x00FC), (0x00DD, 0x00FD), (0x00DE, 0x00FE), (0x00DF, 0x00DF)],
     [(0x00C0, 0x00E0), (0x00C1, 0x00E1), (0x00C2, 0x00E2), (0x00C3, 0x00E3), (0x00C4, 0x00E4), (0x00C5, 0x00E5), (0x00C6, 0x00E6), (0x00C7, 0x00E7)],
     [(0x00C8, 0x00E8), (0x00C9, 0x00E9), (0x00CA, 0x00EA), (0x00CB, 0x00EB), (0x00CC, 0x00EC), (0x00CD, 0x00ED), (0x00CE, 0x00EE), (0x00CF, 0x00EF)],
     [(0x00D0, 0x00F0), (0x00D1, 0x00F1), (0x00D2, 0x00F2), (0x00D3, 0x00F3), (0x00D4, 0x00F4), (0x00D5, 0x00F5), (0x00D6, 0x00F6), (0x00F7, 0x00F7)],
     [(0x00D8, 0x00F8), (0x00D9, 0x00F9), (0x00DA, 0x00FA), (0x00DB, 0x00FB), (0x00DC, 0x00FC), (0x00DD, 0x00FD), (0x00DE, 0x00FE), (0x0178, 0x00FF)]]"

definition ISO8859_1_CASE :: "(rchar \<times> rchar) list" where
  "ISO8859_1_CASE = concat [
     [(0x0080, 0x0080), (0x0081, 0x0081), (0x0082, 0x0082), (0x0083, 0x0083), (0x0084, 0x0084), (0x0085, 0x0085), (0x0086, 0x0086), (0x0087, 0x0087)],
     [(0x0088, 0x0088), (0x0089, 0x0089), (0x008A, 0x008A), (0x008B, 0x008B), (0x008C, 0x008C), (0x008D, 0x008D), (0x008E, 0x008E), (0x008F, 0x008F)],
     [(0x0090, 0x0090), (0x0091, 0x0091), (0x0092, 0x0092), (0x0093, 0x0093), (0x0094, 0x0094), (0x0095, 0x0095), (0x0096, 0x0096), (0x0097, 0x0097)],
     [(0x0098, 0x0098), (0x0099, 0x0099), (0x009A, 0x009A), (0x009B, 0x009B), (0x009C, 0x009C), (0x009D, 0x009D), (0x009E, 0x009E), (0x009F, 0x009F)],
     [(0x00A0, 0x00A0), (0x00A1, 0x00A1), (0x00A2, 0x00A2), (0x00A3, 0x00A3), (0x00A4, 0x00A4), (0x00A5, 0x00A5), (0x00A6, 0x00A6), (0x00A7, 0x00A7)],
     [(0x00A8, 0x00A8), (0x00A9, 0x00A9), (0x00AA, 0x00AA), (0x00AB, 0x00AB), (0x00AC, 0x00AC), (0x00AD, 0x00AD), (0x00AE, 0x00AE), (0x00AF, 0x00AF)],
     [(0x00B0, 0x00B0), (0x00B1, 0x00B1), (0x00B2, 0x00B2), (0x00B3, 0x00B3), (0x00B4, 0x00B4), (0x00B5, 0x00B5), (0x00B6, 0x00B6), (0x00B7, 0x00B7)],
     [(0x00B8, 0x00B8), (0x00B9, 0x00B9), (0x00BA, 0x00BA), (0x00BB, 0x00BB), (0x00BC, 0x00BC), (0x00BD, 0x00BD), (0x00BE, 0x00BE), (0x00BF, 0x00BF)],
     [(0x00C0, 0x00E0), (0x00C1, 0x00E1), (0x00C2, 0x00E2), (0x00C3, 0x00E3), (0x00C4, 0x00E4), (0x00C5, 0x00E5), (0x00C6, 0x00E6), (0x00C7, 0x00E7)],
     [(0x00C8, 0x00E8), (0x00C9, 0x00E9), (0x00CA, 0x00EA), (0x00CB, 0x00EB), (0x00CC, 0x00EC), (0x00CD, 0x00ED), (0x00CE, 0x00EE), (0x00CF, 0x00EF)],
     [(0x00D0, 0x00F0), (0x00D1, 0x00F1), (0x00D2, 0x00F2), (0x00D3, 0x00F3), (0x00D4, 0x00F4), (0x00D5, 0x00F5), (0x00D6, 0x00F6), (0x00D7, 0x00D7)],
     [(0x00D8, 0x00F8), (0x00D9, 0x00F9), (0x00DA, 0x00FA), (0x00DB, 0x00FB), (0x00DC, 0x00FC), (0x00DD, 0x00FD), (0x00DE, 0x00FE), (0x00DF, 0x00DF)],
     [(0x00C0, 0x00E0), (0x00C1, 0x00E1), (0x00C2, 0x00E2), (0x00C3, 0x00E3), (0x00C4, 0x00E4), (0x00C5, 0x00E5), (0x00C6, 0x00E6), (0x00C7, 0x00E7)],
     [(0x00C8, 0x00E8), (0x00C9, 0x00E9), (0x00CA, 0x00EA), (0x00CB, 0x00EB), (0x00CC, 0x00EC), (0x00CD, 0x00ED), (0x00CE, 0x00EE), (0x00CF, 0x00EF)],
     [(0x00D0, 0x00F0), (0x00D1, 0x00F1), (0x00D2, 0x00F2), (0x00D3, 0x00F3), (0x00D4, 0x00F4), (0x00D5, 0x00F5), (0x00D6, 0x00F6), (0x00F7, 0x00F7)],
     [(0x00D8, 0x00F8), (0x00D9, 0x00F9), (0x00DA, 0x00FA), (0x00DB, 0x00FB), (0x00DC, 0x00FC), (0x00DD, 0x00FD), (0x00DE, 0x00FE), (0x00FF, 0x00FF)]]"

definition ISO8859_2_CASE :: "(rchar \<times> rchar) list" where
  "ISO8859_2_CASE = concat [
     [(0x0080, 0x0080), (0x0081, 0x0081), (0x0082, 0x0082), (0x0083, 0x0083), (0x0084, 0x0084), (0x0085, 0x0085), (0x0086, 0x0086), (0x0087, 0x0087)],
     [(0x0088, 0x0088), (0x0089, 0x0089), (0x008A, 0x008A), (0x008B, 0x008B), (0x008C, 0x008C), (0x008D, 0x008D), (0x008E, 0x008E), (0x008F, 0x008F)],
     [(0x0090, 0x0090), (0x0091, 0x0091), (0x0092, 0x0092), (0x0093, 0x0093), (0x0094, 0x0094), (0x0095, 0x0095), (0x0096, 0x0096), (0x0097, 0x0097)],
     [(0x0098, 0x0098), (0x0099, 0x0099), (0x009A, 0x009A), (0x009B, 0x009B), (0x009C, 0x009C), (0x009D, 0x009D), (0x009E, 0x009E), (0x009F, 0x009F)],
     [(0x00A0, 0x00A0), (0x0104, 0x0105), (0x02D8, 0x02D8), (0x0141, 0x0142), (0x00A4, 0x00A4), (0x013D, 0x013E), (0x015A, 0x015B), (0x00A7, 0x00A7)],
     [(0x00A8, 0x00A8), (0x0160, 0x0161), (0x015E, 0x015F), (0x0164, 0x0165), (0x0179, 0x017A), (0x00AD, 0x00AD), (0x017D, 0x017E), (0x017B, 0x017C)],
     [(0x00B0, 0x00B0), (0x0104, 0x0105), (0x02DB, 0x02DB), (0x0141, 0x0142), (0x00B4, 0x00B4), (0x013D, 0x013E), (0x015A, 0x015B), (0x02C7, 0x02C7)],
     [(0x00B8, 0x00B8), (0x0160, 0x0161), (0x015E, 0x015F), (0x0164, 0x0165), (0x0179, 0x017A), (0x02DD, 0x02DD), (0x017D, 0x017E), (0x017B, 0x017C)],
     [(0x0154, 0x0155), (0x00C1, 0x00E1), (0x00C2, 0x00E2), (0x0102, 0x0103), (0x00C4, 0x00E4), (0x0139, 0x013A), (0x0106, 0x0107), (0x00C7, 0x00E7)],
     [(0x010C, 0x010D), (0x00C9, 0x00E9), (0x0118, 0x0119), (0x00CB, 0x00EB), (0x011A, 0x011B), (0x00CD, 0x00ED), (0x00CE, 0x00EE), (0x010E, 0x010F)],
     [(0x0110, 0x0111), (0x0143, 0x0144), (0x0147, 0x0148), (0x00D3, 0x00F3), (0x00D4, 0x00F4), (0x0150, 0x0151), (0x00D6, 0x00F6), (0x00D7, 0x00D7)],
     [(0x0158, 0x0159), (0x016E, 0x016F), (0x00DA, 0x00FA), (0x0170, 0x0171), (0x00DC, 0x00FC), (0x00DD, 0x00FD), (0x0162, 0x0163), (0x00DF, 0x00DF)],
     [(0x0154, 0x0155), (0x00C1, 0x00E1), (0x00C2, 0x00E2), (0x0102, 0x0103), (0x00C4, 0x00E4), (0x0139, 0x013A), (0x0106, 0x0107), (0x00C7, 0x00E7)],
     [(0x010C, 0x010D), (0x00C9, 0x00E9), (0x0118, 0x0119), (0x00CB, 0x00EB), (0x011A, 0x011B), (0x00CD, 0x00ED), (0x00CE, 0x00EE), (0x010E, 0x010F)],
     [(0x0110, 0x0111), (0x0143, 0x0144), (0x0147, 0x0148), (0x00D3, 0x00F3), (0x00D4, 0x00F4), (0x0150, 0x0151), (0x00D6, 0x00F6), (0x00F7, 0x00F7)],
     [(0x0158, 0x0159), (0x016E, 0x016F), (0x00DA, 0x00FA), (0x0170, 0x0171), (0x00DC, 0x00FC), (0x00DD, 0x00FD), (0x0162, 0x0163), (0x02D9, 0x02D9)]]"

definition DOS737_CASE :: "(rchar \<times> rchar) list" where
  "DOS737_CASE = concat [
     [(0x0391, 0x03B1), (0x0392, 0x03B2), (0x0393, 0x03B3), (0x0394, 0x03B4), (0x0395, 0x03B5), (0x0396, 0x03B6), (0x0397, 0x03B7), (0x0398, 0x03B8)],
     [(0x0399, 0x03B9), (0x039A, 0x03BA), (0x039B, 0x03BB), (0x039C, 0x03BC), (0x039D, 0x03BD), (0x039E, 0x03BE), (0x039F, 0x03BF), (0x03A0, 0x03C0)],
     [(0x03A1, 0x03C1), (0x03A3, 0x03C3), (0x03A4, 0x03C4), (0x03A5, 0x03C5), (0x03A6, 0x03C6), (0x03A7, 0x03C7), (0x03A8, 0x03C8), (0x03A9, 0x03C9)],
     [(0x0391, 0x03B1), (0x0392, 0x03B2), (0x0393, 0x03B3), (0x0394, 0x03B4), (0x0395, 0x03B5), (0x0396, 0x03B6), (0x0397, 0x03B7), (0x0398, 0x03B8)],
     [(0x0399, 0x03B9), (0x039A, 0x03BA), (0x039B, 0x03BB), (0x039C, 0x03BC), (0x039D, 0x03BD), (0x039E, 0x03BE), (0x039F, 0x03BF), (0x03A0, 0x03C0)],
     [(0x03A1, 0x03C1), (0x03A3, 0x03C3), (0x03A3, 0x03C2), (0x03A4, 0x03C4), (0x03A5, 0x03C5), (0x03A6, 0x03C6), (0x03A7, 0x03C7), (0x03A8, 0x03C8)],
     [(0x2591, 0x2591), (0x2592, 0x2592), (0x2593, 0x2593), (0x2502, 0x2502), (0x2524, 0x2524), (0x2561, 0x2561), (0x2562, 0x2562), (0x2556, 0x2556)],
     [(0x2555, 0x2555), (0x2563, 0x2563), (0x2551, 0x2551), (0x2557, 0x2557), (0x255D, 0x255D), (0x255C, 0x255C), (0x255B, 0x255B), (0x2510, 0x2510)],
     [(0x2514, 0x2514), (0x2534, 0x2534), (0x252C, 0x252C), (0x251C, 0x251C), (0x2500, 0x2500), (0x253C, 0x253C), (0x255E, 0x255E), (0x255F, 0x255F)],
     [(0x255A, 0x255A), (0x2554, 0x2554), (0x2569, 0x2569), (0x2566, 0x2566), (0x2560, 0x2560), (0x2550, 0x2550), (0x256C, 0x256C), (0x2567, 0x2567)],
     [(0x2568, 0x2568), (0x2564, 0x2564), (0x2565, 0x2565), (0x2559, 0x2559), (0x2558, 0x2558), (0x2552, 0x2552), (0x2553, 0x2553), (0x256B, 0x256B)],
     [(0x256A, 0x256A), (0x2518, 0x2518), (0x250C, 0x250C), (0x2588, 0x2588), (0x2584, 0x2584), (0x258C, 0x258C), (0x2590, 0x2590), (0x2580, 0x2580)],
     [(0x03A9, 0x03C9), (0x0386, 0x03AC), (0x0388, 0x03AD), (0x0389, 0x03AE), (0x03AA, 0x03CA), (0x038A, 0x03AF), (0x038C, 0x03CC), (0x038E, 0x03CD)],
     [(0x03AB, 0x03CB), (0x038F, 0x03CE), (0x0386, 0x03AC), (0x0388, 0x03AD), (0x0389, 0x03AE), (0x038A, 0x03AF), (0x038C, 0x03CC), (0x038E, 0x03CD)],
     [(0x038F, 0x03CE), (0x00B1, 0x00B1), (0x2265, 0x2265), (0x2264, 0x2264), (0x03AA, 0x03CA), (0x03AB, 0x03CB), (0x00F7, 0x00F7), (0x2248, 0x2248)],
     [(0x00B0, 0x00B0), (0x2219, 0x2219), (0x00B7, 0x00B7), (0x221A, 0x221A), (0x207F, 0x207F), (0x00B2, 0x00B2), (0x25A0, 0x25A0), (0x00A0, 0x00A0)]]"

definition DOS437_CASE :: "(rchar \<times> rchar) list" where
  "DOS437_CASE = concat [
     [(0x00C7, 0x00E7), (0x00DC, 0x00FC), (0x00C9, 0x00E9), (CASE_ERR, 0x00E2), (0x00C4, 0x00E4), (CASE_ERR, 0x00E0), (0x00C5, 0x00E5), (0x00C7, 0x00E7)],
     [(CASE_ERR, 0x00EA), (CASE_ERR, 0x00EB), (CASE_ERR, 0x00E8), (CASE_ERR, 0x00EF), (CASE_ERR, 0x00EE), (CASE_ERR, 0x00EC), (0x00C4, 0x00E4), (0x00C5, 0x00E5)],
     [(0x00C9, 0x00E9), (0x00C6, 0x00E6), (0x00C6, 0x00E6), (CASE_ERR, 0x00F4), (0x00D6, 0x00F6), (CASE_ERR, 0x00F2), (CASE_ERR, 0x00FB), (CASE_ERR, 0x00F9)],
     [(0x00FF, 0x00FF), (0x00D6, 0x00F6), (0x00DC, 0x00FC), (0x00A2, 0x00A2), (0x00A3, 0x00A3), (0x00A5, 0x00A5), (0x20A7, 0x20A7), (CASE_ERR, 0x0192)],
     [(CASE_ERR, 0x00E1), (CASE_ERR, 0x00ED), (CASE_ERR, 0x00F3), (CASE_ERR, 0x00FA), (0x00D1, 0x00F1), (0x00D1, 0x00F1), (0x00AA, 0x00AA), (0x00BA, 0x00BA)],
     [(0x00BF, 0x00BF), (0x2310, 0x2310), (0x00AC, 0x00AC), (0x00BD, 0x00BD), (0x00BC, 0x00BC), (0x00A1, 0x00A1), (0x00AB, 0x00AB), (0x00BB, 0x00BB)],
     [(0x2591, 0x2591), (0x2592, 0x2592), (0x2593, 0x2593), (0x2502, 0x2502), (0x2524, 0x2524), (0x2561, 0x2561), (0x2562, 0x2562), (0x2556, 0x2556)],
     [(0x2555, 0x2555), (0x2563, 0x2563), (0x2551, 0x2551), (0x2557, 0x2557), (0x255D, 0x255D), (0x255C, 0x255C), (0x255B, 0x255B), (0x2510, 0x2510)],
     [(0x2514, 0x2514), (0x2534, 0x2534), (0x252C, 0x252C), (0x251C, 0x251C), (0x2500, 0x2500), (0x253C, 0x253C), (0x255E, 0x255E), (0x255F, 0x255F)],
     [(0x255A, 0x255A), (0x2554, 0x2554), (0x2569, 0x2569), (0x2566, 0x2566), (0x2560, 0x2560), (0x2550, 0x2550), (0x256C, 0x256C), (0x2567, 0x2567)],
     [(0x2568, 0x2568), (0x2564, 0x2564), (0x2565, 0x2565), (0x2559, 0x2559), (0x2558, 0x2558), (0x2552, 0x2552), (0x2553, 0x2553), (0x256B, 0x256B)],
     [(0x256A, 0x256A), (0x2518, 0x2518), (0x250C, 0x250C), (0x2588, 0x2588), (0x2584, 0x2584), (0x258C, 0x258C), (0x2590, 0x2590), (0x2580, 0x2580)],
     [(CASE_ERR, 0x03B1), (0x00DF, 0x00DF), (0x0393, CASE_ERR), (CASE_ERR, 0x03C0), (0x03A3, 0x03C3), (0x03A3, 0x03C3), (0x00B5, 0x00B5), (CASE_ERR, 0x03C4)],
     [(0x03A6, 0x03C6), (0x0398, CASE_ERR), (0x03A9, CASE_ERR), (CASE_ERR, 0x03B4), (0x221E, 0x221E), (0x03A6, 0x03C6), (CASE_ERR, 0x03B5), (0x2229, 0x2229)],
     [(0x2261, 0x2261), (0x00B1, 0x00B1), (0x2265, 0x2265), (0x2264, 0x2264), (0x2320, 0x2320), (0x2321, 0x2321), (0x00F7, 0x00F7), (0x2248, 0x2248)],
     [(0x00B0, 0x00B0), (0x2219, 0x2219), (0x00B7, 0x00B7), (0x221A, 0x221A), (0x207F, 0x207F), (0x00B2, 0x00B2), (0x25A0, 0x25A0), (0x00A0, 0x00A0)]]"

definition DOS850_CASE :: "(rchar \<times> rchar) list" where
  "DOS850_CASE = concat [
     [(0x00C7, 0x00E7), (0x00DC, 0x00FC), (0x00C9, 0x00E9), (0x00C2, 0x00E2), (0x00C4, 0x00E4), (0x00C0, 0x00E0), (0x00C5, 0x00E5), (0x00C7, 0x00E7)],
     [(0x00CA, 0x00EA), (0x00CB, 0x00EB), (0x00C8, 0x00E8), (0x00CF, 0x00EF), (0x00CE, 0x00EE), (0x00CC, 0x00EC), (0x00C4, 0x00E4), (0x00C5, 0x00E5)],
     [(0x00C9, 0x00E9), (0x00C6, 0x00E6), (0x00C6, 0x00E6), (0x00D4, 0x00F4), (0x00D6, 0x00F6), (0x00D2, 0x00F2), (0x00DB, 0x00FB), (0x00D9, 0x00F9)],
     [(0x00FF, 0x00FF), (0x00D6, 0x00F6), (0x00DC, 0x00FC), (0x00D8, 0x00F8), (0x00A3, 0x00A3), (0x00D8, 0x00F8), (0x00D7, 0x00D7), (CASE_ERR, 0x0192)],
     [(0x00C1, 0x00E1), (0x00CD, 0x00ED), (0x00D3, 0x00F3), (0x00DA, 0x00FA), (0x00D1, 0x00F1), (0x00D1, 0x00F1), (0x00AA, 0x00AA), (0x00BA, 0x00BA)],
     [(0x00BF, 0x00BF), (0x00AE, 0x00AE), (0x00AC, 0x00AC), (0x00BD, 0x00BD), (0x00BC, 0x00BC), (0x00A1, 0x00A1), (0x00AB, 0x00AB), (0x00BB, 0x00BB)],
     [(0x2591, 0x2591), (0x2592, 0x2592), (0x2593, 0x2593), (0x2502, 0x2502), (0x2524, 0x2524), (0x00C1, 0x00E1), (0x00C2, 0x00E2), (0x00C0, 0x00E0)],
     [(0x00A9, 0x00A9), (0x2563, 0x2563), (0x2551, 0x2551), (0x2557, 0x2557), (0x255D, 0x255D), (0x00A2, 0x00A2), (0x00A5, 0x00A5), (0x2510, 0x2510)],
     [(0x2514, 0x2514), (0x2534, 0x2534), (0x252C, 0x252C), (0x251C, 0x251C), (0x2500, 0x2500), (0x253C, 0x253C), (0x00C3, 0x00E3), (0x00C3, 0x00E3)],
     [(0x255A, 0x255A), (0x2554, 0x2554), (0x2569, 0x2569), (0x2566, 0x2566), (0x2560, 0x2560), (0x2550, 0x2550), (0x256C, 0x256C), (0x00A4, 0x00A4)],
     [(0x00D0, 0x00F0), (0x00D0, 0x00F0), (0x00CA, 0x00EA), (0x00CB, 0x00EB), (0x00C8, 0x00E8), (0x0049, 0x0131), (0x00CD, 0x00ED), (0x00CE, 0x00EE)],
     [(0x00CF, 0x00EF), (0x2518, 0x2518), (0x250C, 0x250C), (0x2588, 0x2588), (0x2584, 0x2584), (0x00A6, 0x00A6), (0x00CC, 0x00EC), (0x2580, 0x2580)],
     [(0x00D3, 0x00F3), (0x00DF, 0x00DF), (0x00D4, 0x00F4), (0x00D2, 0x00F2), (0x00D5, 0x00F5), (0x00D5, 0x00F5), (0x00B5, 0x00B5), (0x00DE, 0x00FE)],
     [(0x00DE, 0x00FE), (0x00DA, 0x00FA), (0x00DB, 0x00FB), (0x00D9, 0x00F9), (0x00DD, 0x00FD), (0x00DD, 0x00FD), (0x00AF, 0x00AF), (0x00B4, 0x00B4)],
     [(0x00AD, 0x00AD), (0x00B1, 0x00B1), (0x2017, 0x2017), (0x00BE, 0x00BE), (0x00B6, 0x00B6), (0x00A7, 0x00A7), (0x00F7, 0x00F7), (0x00B8, 0x00B8)],
     [(0x00B0, 0x00B0), (0x00A8, 0x00A8), (0x00B7, 0x00B7), (0x00B9, 0x00B9), (0x00B3, 0x00B3), (0x00B2, 0x00B2), (0x25A0, 0x25A0), (0x00A0, 0x00A0)]]"

definition DOS865_CASE :: "(rchar \<times> rchar) list" where
  "DOS865_CASE = concat [
     [(0x00C7, 0x00E7), (0x00DC, 0x00FC), (0x00C9, 0x00E9), (CASE_ERR, 0x00E2), (0x00C4, 0x00E4), (CASE_ERR, 0x00E0), (0x00C5, 0x00E5), (0x00C7, 0x00E7)],
     [(CASE_ERR, 0x00EA), (CASE_ERR, 0x00EB), (CASE_ERR, 0x00E8), (CASE_ERR, 0x00EF), (CASE_ERR, 0x00EE), (CASE_ERR, 0x00EC), (0x00C4, 0x00E4), (0x00C5, 0x00E5)],
     [(0x00C9, 0x00E9), (0x00C6, 0x00E6), (0x00C6, 0x00E6), (CASE_ERR, 0x00F4), (0x00D6, 0x00F6), (CASE_ERR, 0x00F2), (CASE_ERR, 0x00FB), (CASE_ERR, 0x00F9)],
     [(0x00FF, 0x00FF), (0x00D6, 0x00F6), (0x00DC, 0x00FC), (0x00D8, 0x00F8), (0x00A3, 0x00A3), (0x00D8, 0x00F8), (0x20A7, 0x20A7), (CASE_ERR, 0x0192)],
     [(CASE_ERR, 0x00E1), (CASE_ERR, 0x00ED), (CASE_ERR, 0x00F3), (CASE_ERR, 0x00FA), (0x00D1, 0x00F1), (0x00D1, 0x00F1), (0x00AA, 0x00AA), (0x00BA, 0x00BA)],
     [(0x00BF, 0x00BF), (0x2310, 0x2310), (0x00AC, 0x00AC), (0x00BD, 0x00BD), (0x00BC, 0x00BC), (0x00A1, 0x00A1), (0x00AB, 0x00AB), (0x00A4, 0x00A4)],
     [(0x2591, 0x2591), (0x2592, 0x2592), (0x2593, 0x2593), (0x2502, 0x2502), (0x2524, 0x2524), (0x2561, 0x2561), (0x2562, 0x2562), (0x2556, 0x2556)],
     [(0x2555, 0x2555), (0x2563, 0x2563), (0x2551, 0x2551), (0x2557, 0x2557), (0x255D, 0x255D), (0x255C, 0x255C), (0x255B, 0x255B), (0x2510, 0x2510)],
     [(0x2514, 0x2514), (0x2534, 0x2534), (0x252C, 0x252C), (0x251C, 0x251C), (0x2500, 0x2500), (0x253C, 0x253C), (0x255E, 0x255E), (0x255F, 0x255F)],
     [(0x255A, 0x255A), (0x2554, 0x2554), (0x2569, 0x2569), (0x2566, 0x2566), (0x2560, 0x2560), (0x2550, 0x2550), (0x256C, 0x256C), (0x2567, 0x2567)],
     [(0x2568, 0x2568), (0x2564, 0x2564), (0x2565, 0x2565), (0x2559, 0x2559), (0x2558, 0x2558), (0x2552, 0x2552), (0x2553, 0x2553), (0x256B, 0x256B)],
     [(0x256A, 0x256A), (0x2518, 0x2518), (0x250C, 0x250C), (0x2588, 0x2588), (0x2584, 0x2584), (0x258C, 0x258C), (0x2590, 0x2590), (0x2580, 0x2580)],
     [(CASE_ERR, 0x03B1), (0x00DF, 0x00DF), (0x0393, CASE_ERR), (CASE_ERR, 0x03C0), (0x03A3, 0x03C3), (0x03A3, 0x03C3), (0x00B5, 0x00B5), (CASE_ERR, 0x03C4)],
     [(0x03A6, 0x03C6), (0x0398, CASE_ERR), (0x03A9, CASE_ERR), (CASE_ERR, 0x03B4), (0x221E, 0x221E), (0x03A6, 0x03C6), (CASE_ERR, 0x03B5), (0x2229, 0x2229)],
     [(0x2261, 0x2261), (0x00B1, 0x00B1), (0x2265, 0x2265), (0x2264, 0x2264), (0x2320, 0x2320), (0x2321, 0x2321), (0x00F7, 0x00F7), (0x2248, 0x2248)],
     [(0x00B0, 0x00B0), (0x2219, 0x2219), (0x00B7, 0x00B7), (0x221A, 0x221A), (0x207F, 0x207F), (0x00B2, 0x00B2), (0x25A0, 0x25A0), (0x00A0, 0x00A0)]]"

definition DOS860_CASE :: "(rchar \<times> rchar) list" where
  "DOS860_CASE = concat [
     [(0x00C7, 0x00E7), (0x00DC, 0x00FC), (0x00C9, 0x00E9), (0x00C2, 0x00E2), (0x00C3, 0x00E3), (0x00C0, 0x00E0), (0x00C1, 0x00E1), (0x00C7, 0x00E7)],
     [(0x00CA, 0x00EA), (0x00CA, 0x00EA), (0x00C8, 0x00E8), (0x00CD, 0x00ED), (0x00D4, 0x00F4), (0x00CC, 0x00EC), (0x00C3, 0x00E3), (0x00C2, 0x00E2)],
     [(0x00C9, 0x00E9), (0x00C0, 0x00E0), (0x00C8, 0x00E8), (0x00D4, 0x00F4), (0x00D5, 0x00F5), (0x00D2, 0x00F2), (0x00DA, 0x00FA), (0x00D9, 0x00F9)],
     [(0x00CC, 0x00EC), (0x00D5, 0x00F5), (0x00DC, 0x00FC), (0x00A2, 0x00A2), (0x00A3, 0x00A3), (0x00D9, 0x00F9), (0x20A7, 0x20A7), (0x00D3, 0x00F3)],
     [(0x00C1, 0x00E1), (0x00CD, 0x00ED), (0x00D3, 0x00F3), (0x00DA, 0x00FA), (0x00D1, 0x00F1), (0x00D1, 0x00F1), (0x00AA, 0x00AA), (0x00BA, 0x00BA)],
     [(0x00BF, 0x00BF), (0x00D2, 0x00F2), (0x00AC, 0x00AC), (0x00BD, 0x00BD), (0x00BC, 0x00BC), (0x00A1, 0x00A1), (0x00AB, 0x00AB), (0x00BB, 0x00BB)],
     [(0x2591, 0x2591), (0x2592, 0x2592), (0x2593, 0x2593), (0x2502, 0x2502), (0x2524, 0x2524), (0x2561, 0x2561), (0x2562, 0x2562), (0x2556, 0x2556)],
     [(0x2555, 0x2555), (0x2563, 0x2563), (0x2551, 0x2551), (0x2557, 0x2557), (0x255D, 0x255D), (0x255C, 0x255C), (0x255B, 0x255B), (0x2510, 0x2510)],
     [(0x2514, 0x2514), (0x2534, 0x2534), (0x252C, 0x252C), (0x251C, 0x251C), (0x2500, 0x2500), (0x253C, 0x253C), (0x255E, 0x255E), (0x255F, 0x255F)],
     [(0x255A, 0x255A), (0x2554, 0x2554), (0x2569, 0x2569), (0x2566, 0x2566), (0x2560, 0x2560), (0x2550, 0x2550), (0x256C, 0x256C), (0x2567, 0x2567)],
     [(0x2568, 0x2568), (0x2564, 0x2564), (0x2565, 0x2565), (0x2559, 0x2559), (0x2558, 0x2558), (0x2552, 0x2552), (0x2553, 0x2553), (0x256B, 0x256B)],
     [(0x256A, 0x256A), (0x2518, 0x2518), (0x250C, 0x250C), (0x2588, 0x2588), (0x2584, 0x2584), (0x258C, 0x258C), (0x2590, 0x2590), (0x2580, 0x2580)],
     [(CASE_ERR, 0x03B1), (0x00DF, 0x00DF), (0x0393, CASE_ERR), (CASE_ERR, 0x03C0), (0x03A3, 0x03C3), (0x03A3, 0x03C3), (0x00B5, 0x00B5), (CASE_ERR, 0x03C4)],
     [(0x03A6, 0x03C6), (0x0398, CASE_ERR), (0x03A9, CASE_ERR), (CASE_ERR, 0x03B4), (0x221E, 0x221E), (0x03A6, 0x03C6), (CASE_ERR, 0x03B5), (0x2229, 0x2229)],
     [(0x2261, 0x2261), (0x00B1, 0x00B1), (0x2265, 0x2265), (0x2264, 0x2264), (0x2320, 0x2320), (0x2321, 0x2321), (0x00F7, 0x00F7), (0x2248, 0x2248)],
     [(0x00B0, 0x00B0), (0x2219, 0x2219), (0x00B7, 0x00B7), (0x221A, 0x221A), (0x207F, 0x207F), (0x00B2, 0x00B2), (0x25A0, 0x25A0), (0x00A0, 0x00A0)]]"

definition DOS863_CASE :: "(rchar \<times> rchar) list" where
  "DOS863_CASE = concat [
     [(0x00C7, 0x00E7), (0x00DC, 0x00FC), (0x00C9, 0x00E9), (0x00C2, 0x00E2), (0x00C2, 0x00E2), (0x00C0, 0x00E0), (0x00B6, 0x00B6), (0x00C7, 0x00E7)],
     [(0x00CA, 0x00EA), (0x00CB, 0x00EB), (0x00C8, 0x00E8), (0x00CF, 0x00EF), (0x00CE, 0x00EE), (0x2017, 0x2017), (0x00C0, 0x00E0), (0x00A7, 0x00A7)],
     [(0x00C9, 0x00E9), (0x00C8, 0x00E8), (0x00CA, 0x00EA), (0x00D4, 0x00F4), (0x00CB, 0x00EB), (0x00CF, 0x00EF), (0x00DB, 0x00FB), (0x00D9, 0x00F9)],
     [(0x00A4, 0x00A4), (0x00D4, 0x00F4), (0x00DC, 0x00FC), (0x00A2, 0x00A2), (0x00A3, 0x00A3), (0x00D9, 0x00F9), (0x00DB, 0x00FB), (CASE_ERR, 0x0192)],
     [(0x00A6, 0x00A6), (0x00B4, 0x00B4), (CASE_ERR, 0x00F3), (CASE_ERR, 0x00FA), (0x00A8, 0x00A8), (0x00B8, 0x00B8), (0x00B3, 0x00B3), (0x00AF, 0x00AF)],
     [(0x00CE, 0x00EE), (0x2310, 0x2310), (0x00AC, 0x00AC), (0x00BD, 0x00BD), (0x00BC, 0x00BC), (0x00BE, 0x00BE), (0x00AB, 0x00AB), (0x00BB, 0x00BB)],
     [(0x2591, 0x2591), (0x2592, 0x2592), (0x2593, 0x2593), (0x2502, 0x2502), (0x2524, 0x2524), (0x2561, 0x2561), (0x2562, 0x2562), (0x2556, 0x2556)],
     [(0x2555, 0x2555), (0x2563, 0x2563), (0x2551, 0x2551), (0x2557, 0x2557), (0x255D, 0x255D), (0x255C, 0x255C), (0x255B, 0x255B), (0x2510, 0x2510)],
     [(0x2514, 0x2514), (0x2534, 0x2534), (0x252C, 0x252C), (0x251C, 0x251C), (0x2500, 0x2500), (0x253C, 0x253C), (0x255E, 0x255E), (0x255F, 0x255F)],
     [(0x255A, 0x255A), (0x2554, 0x2554), (0x2569, 0x2569), (0x2566, 0x2566), (0x2560, 0x2560), (0x2550, 0x2550), (0x256C, 0x256C), (0x2567, 0x2567)],
     [(0x2568, 0x2568), (0x2564, 0x2564), (0x2565, 0x2565), (0x2559, 0x2559), (0x2558, 0x2558), (0x2552, 0x2552), (0x2553, 0x2553), (0x256B, 0x256B)],
     [(0x256A, 0x256A), (0x2518, 0x2518), (0x250C, 0x250C), (0x2588, 0x2588), (0x2584, 0x2584), (0x258C, 0x258C), (0x2590, 0x2590), (0x2580, 0x2580)],
     [(CASE_ERR, 0x03B1), (0x00DF, 0x00DF), (0x0393, CASE_ERR), (CASE_ERR, 0x03C0), (0x03A3, 0x03C3), (0x03A3, 0x03C3), (0x00B5, 0x00B5), (CASE_ERR, 0x03C4)],
     [(0x03A6, 0x03C6), (0x0398, CASE_ERR), (0x03A9, CASE_ERR), (CASE_ERR, 0x03B4), (0x221E, 0x221E), (0x03A6, 0x03C6), (CASE_ERR, 0x03B5), (0x2229, 0x2229)],
     [(0x2261, 0x2261), (0x00B1, 0x00B1), (0x2265, 0x2265), (0x2264, 0x2264), (0x2320, 0x2320), (0x2321, 0x2321), (0x00F7, 0x00F7), (0x2248, 0x2248)],
     [(0x00B0, 0x00B0), (0x2219, 0x2219), (0x00B7, 0x00B7), (0x221A, 0x221A), (0x207F, 0x207F), (0x00B2, 0x00B2), (0x25A0, 0x25A0), (0x00A0, 0x00A0)]]"

definition DOS775_CASE :: "(rchar \<times> rchar) list" where
  "DOS775_CASE = concat [
     [(0x0106, 0x0107), (0x00DC, 0x00FC), (0x00C9, 0x00E9), (0x0100, 0x0101), (0x00C4, 0x00E4), (0x0122, 0x0123), (0x00C5, 0x00E5), (0x0106, 0x0107)],
     [(0x0141, 0x0142), (0x0112, 0x0113), (0x0156, 0x0157), (0x0156, 0x0157), (0x012A, 0x012B), (0x0179, 0x017A), (0x00C4, 0x00E4), (0x00C5, 0x00E5)],
     [(0x00C9, 0x00E9), (0x00C6, 0x00E6), (0x00C6, 0x00E6), (0x014C, 0x014D), (0x00D6, 0x00F6), (0x0122, 0x0123), (0x00A2, 0x00A2), (0x015A, 0x015B)],
     [(0x015A, 0x015B), (0x00D6, 0x00F6), (0x00DC, 0x00FC), (0x00D8, 0x00F8), (0x00A3, 0x00A3), (0x00D8, 0x00F8), (0x00D7, 0x00D7), (0x00A4, 0x00A4)],
     [(0x0100, 0x0101), (0x012A, 0x012B), (0x00D3, 0x00F3), (0x017B, 0x017C), (0x017B, 0x017C), (0x0179, 0x017A), (0x201D, 0x201D), (0x00A6, 0x00A6)],
     [(0x00A9, 0x00A9), (0x00AE, 0x00AE), (0x00AC, 0x00AC), (0x00BD, 0x00BD), (0x00BC, 0x00BC), (0x0141, 0x0142), (0x00AB, 0x00AB), (0x00BB, 0x00BB)],
     [(0x2591, 0x2591), (0x2592, 0x2592), (0x2593, 0x2593), (0x2502, 0x2502), (0x2524, 0x2524), (0x0104, 0x0105), (0x010C, 0x010D), (0x0118, 0x0119)],
     [(0x0116, 0x0117), (0x2563, 0x2563), (0x2551, 0x2551), (0x2557, 0x2557), (0x255D, 0x255D), (0x012E, 0x012F), (0x0160, 0x0161), (0x2510, 0x2510)],
     [(0x2514, 0x2514), (0x2534, 0x2534), (0x252C, 0x252C), (0x251C, 0x251C), (0x2500, 0x2500), (0x253C, 0x253C), (0x0172, 0x0173), (0x016A, 0x016B)],
     [(0x255A, 0x255A), (0x2554, 0x2554), (0x2569, 0x2569), (0x2566, 0x2566), (0x2560, 0x2560), (0x2550, 0x2550), (0x256C, 0x256C), (0x017D, 0x017E)],
     [(0x0104, 0x0105), (0x010C, 0x010D), (0x0118, 0x0119), (0x0116, 0x0117), (0x012E, 0x012F), (0x0160, 0x0161), (0x0172, 0x0173), (0x016A, 0x016B)],
     [(0x017D, 0x017E), (0x2518, 0x2518), (0x250C, 0x250C), (0x2588, 0x2588), (0x2584, 0x2584), (0x258C, 0x258C), (0x2590, 0x2590), (0x2580, 0x2580)],
     [(0x00D3, 0x00F3), (0x00DF, 0x00DF), (0x014C, 0x014D), (0x0143, 0x0144), (0x00D5, 0x00F5), (0x00D5, 0x00F5), (0x00B5, 0x00B5), (0x0143, 0x0144)],
     [(0x0136, 0x0137), (0x0136, 0x0137), (0x013B, 0x013C), (0x013B, 0x013C), (0x0145, 0x0146), (0x0112, 0x0113), (0x0145, 0x0146), (0x2019, 0x2019)],
     [(0x00AD, 0x00AD), (0x00B1, 0x00B1), (0x201C, 0x201C), (0x00BE, 0x00BE), (0x00B6, 0x00B6), (0x00A7, 0x00A7), (0x00F7, 0x00F7), (0x201E, 0x201E)],
     [(0x00B0, 0x00B0), (0x2219, 0x2219), (0x00B7, 0x00B7), (0x00B9, 0x00B9), (0x00B3, 0x00B3), (0x00B2, 0x00B2), (0x25A0, 0x25A0), (0x00A0, 0x00A0)]]"

definition DOS858_CASE :: "(rchar \<times> rchar) list" where
  "DOS858_CASE = concat [
     [(0x00C7, 0x00E7), (0x00DC, 0x00FC), (0x00C9, 0x00E9), (0x00C2, 0x00E2), (0x00C4, 0x00E4), (0x00C0, 0x00E0), (0x00C5, 0x00E5), (0x00C7, 0x00E7)],
     [(0x00CA, 0x00EA), (0x00CB, 0x00EB), (0x00C8, 0x00E8), (0x00CF, 0x00EF), (0x00CE, 0x00EE), (0x00CC, 0x00EC), (0x00C4, 0x00E4), (0x00C5, 0x00E5)],
     [(0x00C9, 0x00E9), (0x00C6, 0x00E6), (0x00C6, 0x00E6), (0x00D4, 0x00F4), (0x00D6, 0x00F6), (0x00D2, 0x00F2), (0x00DB, 0x00FB), (0x00D9, 0x00F9)],
     [(0x00FF, 0x00FF), (0x00D6, 0x00F6), (0x00DC, 0x00FC), (0x00D8, 0x00F8), (0x00A3, 0x00A3), (0x00D8, 0x00F8), (0x00D7, 0x00D7), (CASE_ERR, 0x0192)],
     [(0x00C1, 0x00E1), (0x00CD, 0x00ED), (0x00D3, 0x00F3), (0x00DA, 0x00FA), (0x00D1, 0x00F1), (0x00D1, 0x00F1), (0x00AA, 0x00AA), (0x00BA, 0x00BA)],
     [(0x00BF, 0x00BF), (0x00AE, 0x00AE), (0x00AC, 0x00AC), (0x00BD, 0x00BD), (0x00BC, 0x00BC), (0x00A1, 0x00A1), (0x00AB, 0x00AB), (0x00BB, 0x00BB)],
     [(0x2591, 0x2591), (0x2592, 0x2592), (0x2593, 0x2593), (0x2502, 0x2502), (0x2524, 0x2524), (0x00C1, 0x00E1), (0x00C2, 0x00E2), (0x00C0, 0x00E0)],
     [(0x00A9, 0x00A9), (0x2563, 0x2563), (0x2551, 0x2551), (0x2557, 0x2557), (0x255D, 0x255D), (0x00A2, 0x00A2), (0x00A5, 0x00A5), (0x2510, 0x2510)],
     [(0x2514, 0x2514), (0x2534, 0x2534), (0x252C, 0x252C), (0x251C, 0x251C), (0x2500, 0x2500), (0x253C, 0x253C), (0x00C3, 0x00E3), (0x00C3, 0x00E3)],
     [(0x255A, 0x255A), (0x2554, 0x2554), (0x2569, 0x2569), (0x2566, 0x2566), (0x2560, 0x2560), (0x2550, 0x2550), (0x256C, 0x256C), (0x00A4, 0x00A4)],
     [(0x00D0, 0x00F0), (0x00D0, 0x00F0), (0x00CA, 0x00EA), (0x00CB, 0x00EB), (0x00C8, 0x00E8), (0x20AC, 0x20AC), (0x00CD, 0x00ED), (0x00CE, 0x00EE)],
     [(0x00CF, 0x00EF), (0x2518, 0x2518), (0x250C, 0x250C), (0x2588, 0x2588), (0x2584, 0x2584), (0x00A6, 0x00A6), (0x00CC, 0x00EC), (0x2580, 0x2580)],
     [(0x00D3, 0x00F3), (0x00DF, 0x00DF), (0x00D4, 0x00F4), (0x00D2, 0x00F2), (0x00D5, 0x00F5), (0x00D5, 0x00F5), (0x00B5, 0x00B5), (0x00DE, 0x00FE)],
     [(0x00DE, 0x00FE), (0x00DA, 0x00FA), (0x00DB, 0x00FB), (0x00D9, 0x00F9), (0x00DD, 0x00FD), (0x00DD, 0x00FD), (0x00AF, 0x00AF), (0x00B4, 0x00B4)],
     [(0x00AD, 0x00AD), (0x00B1, 0x00B1), (0x2017, 0x2017), (0x00BE, 0x00BE), (0x00B6, 0x00B6), (0x00A7, 0x00A7), (0x00F7, 0x00F7), (0x00B8, 0x00B8)],
     [(0x00B0, 0x00B0), (0x00A8, 0x00A8), (0x00B7, 0x00B7), (0x00B9, 0x00B9), (0x00B3, 0x00B3), (0x00B2, 0x00B2), (0x25A0, 0x25A0), (0x00A0, 0x00A0)]]"

definition DOS862_CASE :: "(rchar \<times> rchar) list" where
  "DOS862_CASE = concat [
     [(0x05D0, 0x05D0), (0x05D1, 0x05D1), (0x05D2, 0x05D2), (0x05D3, 0x05D3), (0x05D4, 0x05D4), (0x05D5, 0x05D5), (0x05D6, 0x05D6), (0x05D7, 0x05D7)],
     [(0x05D8, 0x05D8), (0x05D9, 0x05D9), (0x05DA, 0x05DA), (0x05DB, 0x05DB), (0x05DC, 0x05DC), (0x05DD, 0x05DD), (0x05DE, 0x05DE), (0x05DF, 0x05DF)],
     [(0x05E0, 0x05E0), (0x05E1, 0x05E1), (0x05E2, 0x05E2), (0x05E3, 0x05E3), (0x05E4, 0x05E4), (0x05E5, 0x05E5), (0x05E6, 0x05E6), (0x05E7, 0x05E7)],
     [(0x05E8, 0x05E8), (0x05E9, 0x05E9), (0x05EA, 0x05EA), (0x00A2, 0x00A2), (0x00A3, 0x00A3), (0x00A5, 0x00A5), (0x20A7, 0x20A7), (CASE_ERR, 0x0192)],
     [(CASE_ERR, 0x00E1), (CASE_ERR, 0x00ED), (CASE_ERR, 0x00F3), (CASE_ERR, 0x00FA), (0x00D1, 0x00F1), (0x00D1, 0x00F1), (0x00AA, 0x00AA), (0x00BA, 0x00BA)],
     [(0x00BF, 0x00BF), (0x2310, 0x2310), (0x00AC, 0x00AC), (0x00BD, 0x00BD), (0x00BC, 0x00BC), (0x00A1, 0x00A1), (0x00AB, 0x00AB), (0x00BB, 0x00BB)],
     [(0x2591, 0x2591), (0x2592, 0x2592), (0x2593, 0x2593), (0x2502, 0x2502), (0x2524, 0x2524), (0x2561, 0x2561), (0x2562, 0x2562), (0x2556, 0x2556)],
     [(0x2555, 0x2555), (0x2563, 0x2563), (0x2551, 0x2551), (0x2557, 0x2557), (0x255D, 0x255D), (0x255C, 0x255C), (0x255B, 0x255B), (0x2510, 0x2510)],
     [(0x2514, 0x2514), (0x2534, 0x2534), (0x252C, 0x252C), (0x251C, 0x251C), (0x2500, 0x2500), (0x253C, 0x253C), (0x255E, 0x255E), (0x255F, 0x255F)],
     [(0x255A, 0x255A), (0x2554, 0x2554), (0x2569, 0x2569), (0x2566, 0x2566), (0x2560, 0x2560), (0x2550, 0x2550), (0x256C, 0x256C), (0x2567, 0x2567)],
     [(0x2568, 0x2568), (0x2564, 0x2564), (0x2565, 0x2565), (0x2559, 0x2559), (0x2558, 0x2558), (0x2552, 0x2552), (0x2553, 0x2553), (0x256B, 0x256B)],
     [(0x256A, 0x256A), (0x2518, 0x2518), (0x250C, 0x250C), (0x2588, 0x2588), (0x2584, 0x2584), (0x258C, 0x258C), (0x2590, 0x2590), (0x2580, 0x2580)],
     [(CASE_ERR, 0x03B1), (0x00DF, 0x00DF), (0x0393, CASE_ERR), (CASE_ERR, 0x03C0), (0x03A3, 0x03C3), (0x03A3, 0x03C3), (0x00B5, 0x00B5), (CASE_ERR, 0x03C4)],
     [(0x03A6, 0x03C6), (0x0398, CASE_ERR), (0x03A9, CASE_ERR), (CASE_ERR, 0x03B4), (0x221E, 0x221E), (0x03A6, 0x03C6), (CASE_ERR, 0x03B5), (0x2229, 0x2229)],
     [(0x2261, 0x2261), (0x00B1, 0x00B1), (0x2265, 0x2265), (0x2264, 0x2264), (0x2320, 0x2320), (0x2321, 0x2321), (0x00F7, 0x00F7), (0x2248, 0x2248)],
     [(0x00B0, 0x00B0), (0x2219, 0x2219), (0x00B7, 0x00B7), (0x221A, 0x221A), (0x207F, 0x207F), (0x00B2, 0x00B2), (0x25A0, 0x25A0), (0x00A0, 0x00A0)]]"

definition DOS864_CASE :: "(rchar \<times> rchar) list" where
  "DOS864_CASE = concat [
     [(0x00B0, 0x00B0), (0x00B7, 0x00B7), (0x2219, 0x2219), (0x221A, 0x221A), (0x2592, 0x2592), (0x2500, 0x2500), (0x2502, 0x2502), (0x253C, 0x253C)],
     [(0x2524, 0x2524), (0x252C, 0x252C), (0x251C, 0x251C), (0x2534, 0x2534), (0x2510, 0x2510), (0x250C, 0x250C), (0x2514, 0x2514), (0x2518, 0x2518)],
     [(CASE_ERR, 0x03B2), (0x221E, 0x221E), (CASE_ERR, 0x03C6), (0x00B1, 0x00B1), (0x00BD, 0x00BD), (0x00BC, 0x00BC), (0x2248, 0x2248), (0x00AB, 0x00AB)],
     [(0x00BB, 0x00BB), (0xFEF7, 0xFEF7), (0xFEF8, 0xFEF8), (0x009B, 0x009B), (0x009C, 0x009C), (0xFEFB, 0xFEFB), (0xFEFC, 0xFEFC), (0x009F, 0x009F)],
     [(0x00A0, 0x00A0), (0x00AD, 0x00AD), (0xFE82, 0xFE82), (0x00A3, 0x00A3), (0x00A4, 0x00A4), (0xFE84, 0xFE84), (0xE0A6, 0xE0A6), (0x00A7, 0x00A7)],
     [(0xFE8E, 0xFE8E), (0xFE8F, 0xFE8F), (0xFE95, 0xFE95), (0xFE99, 0xFE99), (0x060C, 0x060C), (0xFE9D, 0xFE9D), (0xFEA1, 0xFEA1), (0xFEA5, 0xFEA5)],
     [(0x0660, 0x0660), (0x0661, 0x0661), (0x0662, 0x0662), (0x0663, 0x0663), (0x0664, 0x0664), (0x0665, 0x0665), (0x0666, 0x0666), (0x0667, 0x0667)],
     [(0x0668, 0x0668), (0x0669, 0x0669), (0xFED1, 0xFED1), (0x061B, 0x061B), (0xFEB1, 0xFEB1), (0xFEB5, 0xFEB5), (0xFEB9, 0xFEB9), (0x061F, 0x061F)],
     [(0x00A2, 0x00A2), (0xFE80, 0xFE80), (0xFE81, 0xFE81), (0xFE83, 0xFE83), (0xFE85, 0xFE85), (0xFECA, 0xFECA), (0xFE8B, 0xFE8B), (0xFE8D, 0xFE8D)],
     [(0xFE91, 0xFE91), (0xFE93, 0xFE93), (0xFE97, 0xFE97), (0xFE9B, 0xFE9B), (0xFE9F, 0xFE9F), (0xFEA3, 0xFEA3), (0xFEA7, 0xFEA7), (0xFEA9, 0xFEA9)],
     [(0xFEAB, 0xFEAB), (0xFEAD, 0xFEAD), (0xFEAF, 0xFEAF), (0xFEB3, 0xFEB3), (0xFEB7, 0xFEB7), (0xFEBB, 0xFEBB), (0xFEBF, 0xFEBF), (0xFEC1, 0xFEC1)],
     [(0xFEC5, 0xFEC5), (0xFECB, 0xFECB), (0xFECF, 0xFECF), (0x00A6, 0x00A6), (0x00AC, 0x00AC), (0x00F7, 0x00F7), (0x00D7, 0x00D7), (0xFEC9, 0xFEC9)],
     [(0x0640, 0x0640), (0xFED3, 0xFED3), (0xFED7, 0xFED7), (0xFEDB, 0xFEDB), (0xFEDF, 0xFEDF), (0xFEE3, 0xFEE3), (0xFEE7, 0xFEE7), (0xFEEB, 0xFEEB)],
     [(0xFEED, 0xFEED), (0xFEEF, 0xFEEF), (0xFEF3, 0xFEF3), (0xFEBD, 0xFEBD), (0xFECC, 0xFECC), (0xFECE, 0xFECE), (0xFECD, 0xFECD), (0xFEE1, 0xFEE1)],
     [(0xFE7D, 0xFE7D), (0x0651, 0x0651), (0xFEE5, 0xFEE5), (0xFEE9, 0xFEE9), (0xFEEC, 0xFEEC), (0xFEF0, 0xFEF0), (0xFEF2, 0xFEF2), (0xFED0, 0xFED0)],
     [(0xFED5, 0xFED5), (0xFEF5, 0xFEF5), (0xFEF6, 0xFEF6), (0xFEDD, 0xFEDD), (0xFED9, 0xFED9), (0xFEF1, 0xFEF1), (0x25A0, 0x25A0), (0x00FF, 0x00FF)]]"

definition NEXT_CASE :: "(rchar \<times> rchar) list" where
  "NEXT_CASE = concat [
     [(0x00A0, 0x00A0), (0x00C0, 0x00E0), (0x00C1, 0x00E1), (0x00C2, 0x00E2), (0x00C3, 0x00E3), (0x00C4, 0x00E4), (0x00C5, 0x00E5), (0x00C7, 0x00E7)],
     [(0x00C8, 0x00E8), (0x00C9, 0x00E9), (0x00CA, 0x00EA), (0x00CB, 0x00EB), (0x00CC, 0x00EC), (0x00CD, 0x00ED), (0x00CE, 0x00EE), (0x00CF, 0x00EF)],
     [(0x00D0, 0x00F0), (0x00D1, 0x00F1), (0x00D2, 0x00F2), (0x00D3, 0x00F3), (0x00D4, 0x00F4), (0x00D5, 0x00F5), (0x00D6, 0x00F6), (0x00D9, 0x00F9)],
     [(0x00DA, 0x00FA), (0x00DB, 0x00FB), (0x00DC, 0x00FC), (0x00DD, 0x00FD), (0x00DE, 0x00FE), (0x00B5, 0x00B5), (0x00D7, 0x00D7), (0x00F7, 0x00F7)],
     [(0x00A9, 0x00A9), (0x00A1, 0x00A1), (0x00A2, 0x00A2), (0x00A3, 0x00A3), (0x2044, 0x2044), (0x00A5, 0x00A5), (CASE_ERR, 0x0192), (0x00A7, 0x00A7)],
     [(0x00A4, 0x00A4), (0x2019, 0x2019), (0x201C, 0x201C), (0x00AB, 0x00AB), (0x2039, 0x2039), (0x203A, 0x203A), (0xFB01, 0xFB01), (0xFB02, 0xFB02)],
     [(0x00AE, 0x00AE), (0x2013, 0x2013), (0x2020, 0x2020), (0x2021, 0x2021), (0x00B7, 0x00B7), (0x00A6, 0x00A6), (0x00B6, 0x00B6), (0x2022, 0x2022)],
     [(0x201A, 0x201A), (0x201E, 0x201E), (0x201D, 0x201D), (0x00BB, 0x00BB), (0x2026, 0x2026), (0x2030, 0x2030), (0x00AC, 0x00AC), (0x00BF, 0x00BF)],
     [(0x00B9, 0x00B9), (0x02CB, 0x02CB), (0x00B4, 0x00B4), (0x02C6, 0x02C6), (0x02DC, 0x02DC), (0x00AF, 0x00AF), (0x02D8, 0x02D8), (0x02D9, 0x02D9)],
     [(0x00A8, 0x00A8), (0x00B2, 0x00B2), (0x02DA, 0x02DA), (0x00B8, 0x00B8), (0x00B3, 0x00B3), (0x02DD, 0x02DD), (0x02DB, 0x02DB), (0x02C7, 0x02C7)],
     [(0x2014, 0x2014), (0x00B1, 0x00B1), (0x00BC, 0x00BC), (0x00BD, 0x00BD), (0x00BE, 0x00BE), (0x00C0, 0x00E0), (0x00C1, 0x00E1), (0x00C2, 0x00E2)],
     [(0x00C3, 0x00E3), (0x00C4, 0x00E4), (0x00C5, 0x00E5), (0x00C7, 0x00E7), (0x00C8, 0x00E8), (0x00C9, 0x00E9), (0x00CA, 0x00EA), (0x00CB, 0x00EB)],
     [(0x00CC, 0x00EC), (0x00C6, 0x00E6), (0x00CD, 0x00ED), (0x00AA, 0x00AA), (0x00CE, 0x00EE), (0x00CF, 0x00EF), (0x00D0, 0x00F0), (0x00D1, 0x00F1)],
     [(0x0141, 0x0142), (0x00D8, 0x00F8), (0x0152, 0x0153), (0x00BA, 0x00BA), (0x00D2, 0x00F2), (0x00D3, 0x00F3), (0x00D4, 0x00F4), (0x00D5, 0x00F5)],
     [(0x00D6, 0x00F6), (0x00C6, 0x00E6), (0x00D9, 0x00F9), (0x00DA, 0x00FA), (0x00DB, 0x00FB), (0x0049, 0x0131), (0x00DC, 0x00FC), (0x00DD, 0x00FD)],
     [(0x0141, 0x0142), (0x00D8, 0x00F8), (0x0152, 0x0153), (0x00DF, 0x00DF), (0x00DE, 0x00FE), (0x00FF, 0x00FF), (0xFFFD, 0xFFFD), (0xE0FF, 0xE0FF)]]"

definition ISO8859_3_CASE :: "(rchar \<times> rchar) list" where
  "ISO8859_3_CASE = concat [
     [(0x0080, 0x0080), (0x0081, 0x0081), (0x0082, 0x0082), (0x0083, 0x0083), (0x0084, 0x0084), (0x0085, 0x0085), (0x0086, 0x0086), (0x0087, 0x0087)],
     [(0x0088, 0x0088), (0x0089, 0x0089), (0x008A, 0x008A), (0x008B, 0x008B), (0x008C, 0x008C), (0x008D, 0x008D), (0x008E, 0x008E), (0x008F, 0x008F)],
     [(0x0090, 0x0090), (0x0091, 0x0091), (0x0092, 0x0092), (0x0093, 0x0093), (0x0094, 0x0094), (0x0095, 0x0095), (0x0096, 0x0096), (0x0097, 0x0097)],
     [(0x0098, 0x0098), (0x0099, 0x0099), (0x009A, 0x009A), (0x009B, 0x009B), (0x009C, 0x009C), (0x009D, 0x009D), (0x009E, 0x009E), (0x009F, 0x009F)],
     [(0x00A0, 0x00A0), (0x0126, 0x0127), (0x02D8, 0x02D8), (0x00A3, 0x00A3), (0x00A4, 0x00A4), (0x00A5, 0x00A5), (0x0124, 0x0125), (0x00A7, 0x00A7)],
     [(0x00A8, 0x00A8), (0x0130, 0x0069), (0x015E, 0x015F), (0x011E, 0x011F), (0x0134, 0x0135), (0x00AD, 0x00AD), (0x00AE, 0x00AE), (0x017B, 0x017C)],
     [(0x00B0, 0x00B0), (0x0126, 0x0127), (0x00B2, 0x00B2), (0x00B3, 0x00B3), (0x00B4, 0x00B4), (0x00B5, 0x00B5), (0x0124, 0x0125), (0x00B7, 0x00B7)],
     [(0x00B8, 0x00B8), (0x0049, 0x0131), (0x015E, 0x015F), (0x011E, 0x011F), (0x0134, 0x0135), (0x00BD, 0x00BD), (0x00BE, 0x00BE), (0x017B, 0x017C)],
     [(0x00C0, 0x00E0), (0x00C1, 0x00E1), (0x00C2, 0x00E2), (0x00C3, 0x00C3), (0x00C4, 0x00E4), (0x010A, 0x010B), (0x0108, 0x0109), (0x00C7, 0x00E7)],
     [(0x00C8, 0x00E8), (0x00C9, 0x00E9), (0x00CA, 0x00EA), (0x00CB, 0x00EB), (0x00CC, 0x00EC), (0x00CD, 0x00ED), (0x00CE, 0x00EE), (0x00CF, 0x00EF)],
     [(0x00D0, 0x00D0), (0x00D1, 0x00F1), (0x00D2, 0x00F2), (0x00D3, 0x00F3), (0x00D4, 0x00F4), (0x0120, 0x0121), (0x00D6, 0x00F6), (0x00D7, 0x00D7)],
     [(0x011C, 0x011D), (0x00D9, 0x00F9), (0x00DA, 0x00FA), (0x00DB, 0x00FB), (0x00DC, 0x00FC), (0x016C, 0x016D), (0x015C, 0x015D), (0x00DF, 0x00DF)],
     [(0x00C0, 0x00E0), (0x00C1, 0x00E1), (0x00C2, 0x00E2), (0x00E3, 0x00E3), (0x00C4, 0x00E4), (0x010A, 0x010B), (0x0108, 0x0109), (0x00C7, 0x00E7)],
     [(0x00C8, 0x00E8), (0x00C9, 0x00E9), (0x00CA, 0x00EA), (0x00CB, 0x00EB), (0x00CC, 0x00EC), (0x00CD, 0x00ED), (0x00CE, 0x00EE), (0x00CF, 0x00EF)],
     [(0x00F0, 0x00F0), (0x00D1, 0x00F1), (0x00D2, 0x00F2), (0x00D3, 0x00F3), (0x00D4, 0x00F4), (0x0120, 0x0121), (0x00D6, 0x00F6), (0x00F7, 0x00F7)],
     [(0x011C, 0x011D), (0x00D9, 0x00F9), (0x00DA, 0x00FA), (0x00DB, 0x00FB), (0x00DC, 0x00FC), (0x016C, 0x016D), (0x015C, 0x015D), (0x02D9, 0x02D9)]]"

definition ISO8859_4_CASE :: "(rchar \<times> rchar) list" where
  "ISO8859_4_CASE = concat [
     [(0x0080, 0x0080), (0x0081, 0x0081), (0x0082, 0x0082), (0x0083, 0x0083), (0x0084, 0x0084), (0x0085, 0x0085), (0x0086, 0x0086), (0x0087, 0x0087)],
     [(0x0088, 0x0088), (0x0089, 0x0089), (0x008A, 0x008A), (0x008B, 0x008B), (0x008C, 0x008C), (0x008D, 0x008D), (0x008E, 0x008E), (0x008F, 0x008F)],
     [(0x0090, 0x0090), (0x0091, 0x0091), (0x0092, 0x0092), (0x0093, 0x0093), (0x0094, 0x0094), (0x0095, 0x0095), (0x0096, 0x0096), (0x0097, 0x0097)],
     [(0x0098, 0x0098), (0x0099, 0x0099), (0x009A, 0x009A), (0x009B, 0x009B), (0x009C, 0x009C), (0x009D, 0x009D), (0x009E, 0x009E), (0x009F, 0x009F)],
     [(0x00A0, 0x00A0), (0x0104, 0x0105), (0x0138, 0x0138), (0x0156, 0x0157), (0x00A4, 0x00A4), (0x0128, 0x0129), (0x013B, 0x013C), (0x00A7, 0x00A7)],
     [(0x00A8, 0x00A8), (0x0160, 0x0161), (0x0112, 0x0113), (0x0122, 0x0123), (0x0166, 0x0167), (0x00AD, 0x00AD), (0x017D, 0x017E), (0x00AF, 0x00AF)],
     [(0x00B0, 0x00B0), (0x0104, 0x0105), (0x02DB, 0x02DB), (0x0156, 0x0157), (0x00B4, 0x00B4), (0x0128, 0x0129), (0x013B, 0x013C), (0x02C7, 0x02C7)],
     [(0x00B8, 0x00B8), (0x0160, 0x0161), (0x0112, 0x0113), (0x0122, 0x0123), (0x0166, 0x0167), (0x014A, 0x014B), (0x017D, 0x017E), (0x014A, 0x014B)],
     [(0x0100, 0x0101), (0x00C1, 0x00E1), (0x00C2, 0x00E2), (0x00C3, 0x00E3), (0x00C4, 0x00E4), (0x00C5, 0x00E5), (0x00C6, 0x00E6), (0x012E, 0x012F)],
     [(0x010C, 0x010D), (0x00C9, 0x00E9), (0x0118, 0x0119), (0x00CB, 0x00EB), (0x0116, 0x0117), (0x00CD, 0x00ED), (0x00CE, 0x00EE), (0x012A, 0x012B)],
     [(0x0110, 0x0111), (0x0145, 0x0146), (0x014C, 0x014D), (0x0136, 0x0137), (0x00D4, 0x00F4), (0x00D5, 0x00F5), (0x00D6, 0x00F6), (0x00D7, 0x00D7)],
     [(0x00D8, 0x00F8), (0x0172, 0x0173), (0x00DA, 0x00FA), (0x00DB, 0x00FB), (0x00DC, 0x00FC), (0x0168, 0x0169), (0x016A, 0x016B), (0x00DF, 0x00DF)],
     [(0x0100, 0x0101), (0x00C1, 0x00E1), (0x00C2, 0x00E2), (0x00C3, 0x00E3), (0x00C4, 0x00E4), (0x00C5, 0x00E5), (0x00C6, 0x00E6), (0x012E, 0x012F)],
     [(0x010C, 0x010D), (0x00C9, 0x00E9), (0x0118, 0x0119), (0x00CB, 0x00EB), (0x0116, 0x0117), (0x00CD, 0x00ED), (0x00CE, 0x00EE), (0x012A, 0x012B)],
     [(0x0110, 0x0111), (0x0145, 0x0146), (0x014C, 0x014D), (0x0136, 0x0137), (0x00D4, 0x00F4), (0x00D5, 0x00F5), (0x00D6, 0x00F6), (0x00F7, 0x00F7)],
     [(0x00D8, 0x00F8), (0x0172, 0x0173), (0x00DA, 0x00FA), (0x00DB, 0x00FB), (0x00DC, 0x00FC), (0x0168, 0x0169), (0x016A, 0x016B), (0x02D9, 0x02D9)]]"

definition ISO8859_5_CASE :: "(rchar \<times> rchar) list" where
  "ISO8859_5_CASE = concat [
     [(0x0080, 0x0080), (0x0081, 0x0081), (0x0082, 0x0082), (0x0083, 0x0083), (0x0084, 0x0084), (0x0085, 0x0085), (0x0086, 0x0086), (0x0087, 0x0087)],
     [(0x0088, 0x0088), (0x0089, 0x0089), (0x008A, 0x008A), (0x008B, 0x008B), (0x008C, 0x008C), (0x008D, 0x008D), (0x008E, 0x008E), (0x008F, 0x008F)],
     [(0x0090, 0x0090), (0x0091, 0x0091), (0x0092, 0x0092), (0x0093, 0x0093), (0x0094, 0x0094), (0x0095, 0x0095), (0x0096, 0x0096), (0x0097, 0x0097)],
     [(0x0098, 0x0098), (0x0099, 0x0099), (0x009A, 0x009A), (0x009B, 0x009B), (0x009C, 0x009C), (0x009D, 0x009D), (0x009E, 0x009E), (0x009F, 0x009F)],
     [(0x00A0, 0x00A0), (0x0401, 0x0451), (0x0402, 0x0452), (0x0403, 0x0453), (0x0404, 0x0454), (0x0405, 0x0455), (0x0406, 0x0456), (0x0407, 0x0457)],
     [(0x0408, 0x0458), (0x0409, 0x0459), (0x040A, 0x045A), (0x040B, 0x045B), (0x040C, 0x045C), (0x00AD, 0x00AD), (0x040E, 0x045E), (0x040F, 0x045F)],
     [(0x0410, 0x0430), (0x0411, 0x0431), (0x0412, 0x0432), (0x0413, 0x0433), (0x0414, 0x0434), (0x0415, 0x0435), (0x0416, 0x0436), (0x0417, 0x0437)],
     [(0x0418, 0x0438), (0x0419, 0x0439), (0x041A, 0x043A), (0x041B, 0x043B), (0x041C, 0x043C), (0x041D, 0x043D), (0x041E, 0x043E), (0x041F, 0x043F)],
     [(0x0420, 0x0440), (0x0421, 0x0441), (0x0422, 0x0442), (0x0423, 0x0443), (0x0424, 0x0444), (0x0425, 0x0445), (0x0426, 0x0446), (0x0427, 0x0447)],
     [(0x0428, 0x0448), (0x0429, 0x0449), (0x042A, 0x044A), (0x042B, 0x044B), (0x042C, 0x044C), (0x042D, 0x044D), (0x042E, 0x044E), (0x042F, 0x044F)],
     [(0x0410, 0x0430), (0x0411, 0x0431), (0x0412, 0x0432), (0x0413, 0x0433), (0x0414, 0x0434), (0x0415, 0x0435), (0x0416, 0x0436), (0x0417, 0x0437)],
     [(0x0418, 0x0438), (0x0419, 0x0439), (0x041A, 0x043A), (0x041B, 0x043B), (0x041C, 0x043C), (0x041D, 0x043D), (0x041E, 0x043E), (0x041F, 0x043F)],
     [(0x0420, 0x0440), (0x0421, 0x0441), (0x0422, 0x0442), (0x0423, 0x0443), (0x0424, 0x0444), (0x0425, 0x0445), (0x0426, 0x0446), (0x0427, 0x0447)],
     [(0x0428, 0x0448), (0x0429, 0x0449), (0x042A, 0x044A), (0x042B, 0x044B), (0x042C, 0x044C), (0x042D, 0x044D), (0x042E, 0x044E), (0x042F, 0x044F)],
     [(0x2116, 0x2116), (0x0401, 0x0451), (0x0402, 0x0452), (0x0403, 0x0453), (0x0404, 0x0454), (0x0405, 0x0455), (0x0406, 0x0456), (0x0407, 0x0457)],
     [(0x0408, 0x0458), (0x0409, 0x0459), (0x040A, 0x045A), (0x040B, 0x045B), (0x040C, 0x045C), (0x00A7, 0x00A7), (0x040E, 0x045E), (0x040F, 0x045F)]]"

definition ISO8859_6_CASE :: "(rchar \<times> rchar) list" where
  "ISO8859_6_CASE = concat [
     [(0x0080, 0x0080), (0x0081, 0x0081), (0x0082, 0x0082), (0x0083, 0x0083), (0x0084, 0x0084), (0x0085, 0x0085), (0x0086, 0x0086), (0x0087, 0x0087)],
     [(0x0088, 0x0088), (0x0089, 0x0089), (0x008A, 0x008A), (0x008B, 0x008B), (0x008C, 0x008C), (0x008D, 0x008D), (0x008E, 0x008E), (0x008F, 0x008F)],
     [(0x0090, 0x0090), (0x0091, 0x0091), (0x0092, 0x0092), (0x0093, 0x0093), (0x0094, 0x0094), (0x0095, 0x0095), (0x0096, 0x0096), (0x0097, 0x0097)],
     [(0x0098, 0x0098), (0x0099, 0x0099), (0x009A, 0x009A), (0x009B, 0x009B), (0x009C, 0x009C), (0x009D, 0x009D), (0x009E, 0x009E), (0x009F, 0x009F)],
     [(0x00A0, 0x00A0), (0x00A1, 0x00A1), (0x00A2, 0x00A2), (0x00A3, 0x00A3), (0x00A4, 0x00A4), (0x00A5, 0x00A5), (0x00A6, 0x00A6), (0x00A7, 0x00A7)],
     [(0x00A8, 0x00A8), (0x00A9, 0x00A9), (0x00AA, 0x00AA), (0x00AB, 0x00AB), (0x060C, 0x060C), (0x00AD, 0x00AD), (0x00AE, 0x00AE), (0x00AF, 0x00AF)],
     [(0x00B0, 0x00B0), (0x00B1, 0x00B1), (0x00B2, 0x00B2), (0x00B3, 0x00B3), (0x00B4, 0x00B4), (0x00B5, 0x00B5), (0x00B6, 0x00B6), (0x00B7, 0x00B7)],
     [(0x00B8, 0x00B8), (0x00B9, 0x00B9), (0x00BA, 0x00BA), (0x061B, 0x061B), (0x00BC, 0x00BC), (0x00BD, 0x00BD), (0x00BE, 0x00BE), (0x061F, 0x061F)],
     [(0x00C0, 0x00C0), (0x0621, 0x0621), (0x0622, 0x0622), (0x0623, 0x0623), (0x0624, 0x0624), (0x0625, 0x0625), (0x0626, 0x0626), (0x0627, 0x0627)],
     [(0x0628, 0x0628), (0x0629, 0x0629), (0x062A, 0x062A), (0x062B, 0x062B), (0x062C, 0x062C), (0x062D, 0x062D), (0x062E, 0x062E), (0x062F, 0x062F)],
     [(0x0630, 0x0630), (0x0631, 0x0631), (0x0632, 0x0632), (0x0633, 0x0633), (0x0634, 0x0634), (0x0635, 0x0635), (0x0636, 0x0636), (0x0637, 0x0637)],
     [(0x0638, 0x0638), (0x0639, 0x0639), (0x063A, 0x063A), (0x00DB, 0x00DB), (0x00DC, 0x00DC), (0x00DD, 0x00DD), (0x00DE, 0x00DE), (0x00DF, 0x00DF)],
     [(0x0640, 0x0640), (0x0641, 0x0641), (0x0642, 0x0642), (0x0643, 0x0643), (0x0644, 0x0644), (0x0645, 0x0645), (0x0646, 0x0646), (0x0647, 0x0647)],
     [(0x0648, 0x0648), (0x0649, 0x0649), (0x064A, 0x064A), (0x064B, 0x064B), (0x064C, 0x064C), (0x064D, 0x064D), (0x064E, 0x064E), (0x064F, 0x064F)],
     [(0x0650, 0x0650), (0x0651, 0x0651), (0x0652, 0x0652), (0x00F3, 0x00F3), (0x00F4, 0x00F4), (0x00F5, 0x00F5), (0x00F6, 0x00F6), (0x00F7, 0x00F7)],
     [(0x00F8, 0x00F8), (0x00F9, 0x00F9), (0x00FA, 0x00FA), (0x00FB, 0x00FB), (0x00FC, 0x00FC), (0x00FD, 0x00FD), (0x00FE, 0x00FE), (0x00FF, 0x00FF)]]"

definition ISO8859_7_CASE :: "(rchar \<times> rchar) list" where
  "ISO8859_7_CASE = concat [
     [(0x0080, 0x0080), (0x0081, 0x0081), (0x0082, 0x0082), (0x0083, 0x0083), (0x0084, 0x0084), (0x0085, 0x0085), (0x0086, 0x0086), (0x0087, 0x0087)],
     [(0x0088, 0x0088), (0x0089, 0x0089), (0x008A, 0x008A), (0x008B, 0x008B), (0x008C, 0x008C), (0x008D, 0x008D), (0x008E, 0x008E), (0x008F, 0x008F)],
     [(0x0090, 0x0090), (0x0091, 0x0091), (0x0092, 0x0092), (0x0093, 0x0093), (0x0094, 0x0094), (0x0095, 0x0095), (0x0096, 0x0096), (0x0097, 0x0097)],
     [(0x0098, 0x0098), (0x0099, 0x0099), (0x009A, 0x009A), (0x009B, 0x009B), (0x009C, 0x009C), (0x009D, 0x009D), (0x009E, 0x009E), (0x009F, 0x009F)],
     [(0x00A0, 0x00A0), (0x02BD, 0x02BD), (0x02BC, 0x02BC), (0x00A3, 0x00A3), (0x00A4, 0x00A4), (0x00A5, 0x00A5), (0x00A6, 0x00A6), (0x00A7, 0x00A7)],
     [(0x00A8, 0x00A8), (0x00A9, 0x00A9), (0x00AA, 0x00AA), (0x00AB, 0x00AB), (0x00AC, 0x00AC), (0x00AD, 0x00AD), (0x00AE, 0x00AE), (0x2015, 0x2015)],
     [(0x00B0, 0x00B0), (0x00B1, 0x00B1), (0x00B2, 0x00B2), (0x00B3, 0x00B3), (0x0384, 0x0384), (0x0385, 0x0385), (0x0386, 0x03AC), (0x00B7, 0x00B7)],
     [(0x0388, 0x03AD), (0x0389, 0x03AE), (0x038A, 0x03AF), (0x00BB, 0x00BB), (0x038C, 0x03CC), (0x00BD, 0x00BD), (0x038E, 0x03CD), (0x038F, 0x03CE)],
     [(0x0390, 0x0390), (0x0391, 0x03B1), (0x0392, 0x03B2), (0x0393, 0x03B3), (0x0394, 0x03B4), (0x0395, 0x03B5), (0x0396, 0x03B6), (0x0397, 0x03B7)],
     [(0x0398, 0x03B8), (0x0399, 0x03B9), (0x039A, 0x03BA), (0x039B, 0x03BB), (0x039C, 0x03BC), (0x039D, 0x03BD), (0x039E, 0x03BE), (0x039F, 0x03BF)],
     [(0x03A0, 0x03C0), (0x03A1, 0x03C1), (0x00D2, 0x00D2), (0x03A3, 0x03C3), (0x03A4, 0x03C4), (0x03A5, 0x03C5), (0x03A6, 0x03C6), (0x03A7, 0x03C7)],
     [(0x03A8, 0x03C8), (0x03A9, 0x03C9), (0x03AA, 0x03CA), (0x03AB, 0x03CB), (0x0386, 0x03AC), (0x0388, 0x03AD), (0x0389, 0x03AE), (0x038A, 0x03AF)],
     [(0x03B0, 0x03B0), (0x0391, 0x03B1), (0x0392, 0x03B2), (0x0393, 0x03B3), (0x0394, 0x03B4), (0x0395, 0x03B5), (0x0396, 0x03B6), (0x0397, 0x03B7)],
     [(0x0398, 0x03B8), (0x0399, 0x03B9), (0x039A, 0x03BA), (0x039B, 0x03BB), (0x039C, 0x03BC), (0x039D, 0x03BD), (0x039E, 0x03BE), (0x039F, 0x03BF)],
     [(0x03A0, 0x03C0), (0x03A1, 0x03C1), (0x03A3, 0x03C2), (0x03A3, 0x03C3), (0x03A4, 0x03C4), (0x03A5, 0x03C5), (0x03A6, 0x03C6), (0x03A7, 0x03C7)],
     [(0x03A8, 0x03C8), (0x03A9, 0x03C9), (0x03AA, 0x03CA), (0x03AB, 0x03CB), (0x038C, 0x03CC), (0x038E, 0x03CD), (0x038F, 0x03CE), (0x00FF, 0x00FF)]]"

definition ISO8859_8_CASE :: "(rchar \<times> rchar) list" where
  "ISO8859_8_CASE = concat [
     [(0x0080, 0x0080), (0x0081, 0x0081), (0x0082, 0x0082), (0x0083, 0x0083), (0x0084, 0x0084), (0x0085, 0x0085), (0x0086, 0x0086), (0x0087, 0x0087)],
     [(0x0088, 0x0088), (0x0089, 0x0089), (0x008A, 0x008A), (0x008B, 0x008B), (0x008C, 0x008C), (0x008D, 0x008D), (0x008E, 0x008E), (0x008F, 0x008F)],
     [(0x0090, 0x0090), (0x0091, 0x0091), (0x0092, 0x0092), (0x0093, 0x0093), (0x0094, 0x0094), (0x0095, 0x0095), (0x0096, 0x0096), (0x0097, 0x0097)],
     [(0x0098, 0x0098), (0x0099, 0x0099), (0x009A, 0x009A), (0x009B, 0x009B), (0x009C, 0x009C), (0x009D, 0x009D), (0x009E, 0x009E), (0x009F, 0x009F)],
     [(0x00A0, 0x00A0), (0x00A1, 0x00A1), (0x00A2, 0x00A2), (0x00A3, 0x00A3), (0x00A4, 0x00A4), (0x00A5, 0x00A5), (0x00A6, 0x00A6), (0x00A7, 0x00A7)],
     [(0x00A8, 0x00A8), (0x00A9, 0x00A9), (0x00D7, 0x00D7), (0x00AB, 0x00AB), (0x00AC, 0x00AC), (0x00AD, 0x00AD), (0x00AE, 0x00AE), (0x203E, 0x203E)],
     [(0x00B0, 0x00B0), (0x00B1, 0x00B1), (0x00B2, 0x00B2), (0x00B3, 0x00B3), (0x00B4, 0x00B4), (0x00B5, 0x00B5), (0x00B6, 0x00B6), (0x00B7, 0x00B7)],
     [(0x00B8, 0x00B8), (0x00B9, 0x00B9), (0x00F7, 0x00F7), (0x00BB, 0x00BB), (0x00BC, 0x00BC), (0x00BD, 0x00BD), (0x00BE, 0x00BE), (0x00BF, 0x00BF)],
     [(0x00C0, 0x00C0), (0x00C1, 0x00C1), (0x00C2, 0x00C2), (0x00C3, 0x00C3), (0x00C4, 0x00C4), (0x00C5, 0x00C5), (0x00C6, 0x00C6), (0x00C7, 0x00C7)],
     [(0x00C8, 0x00C8), (0x00C9, 0x00C9), (0x00CA, 0x00CA), (0x00CB, 0x00CB), (0x00CC, 0x00CC), (0x00CD, 0x00CD), (0x00CE, 0x00CE), (0x00CF, 0x00CF)],
     [(0x00D0, 0x00D0), (0x00D1, 0x00D1), (0x00D2, 0x00D2), (0x00D3, 0x00D3), (0x00D4, 0x00D4), (0x00D5, 0x00D5), (0x00D6, 0x00D6), (0xE0D7, 0xE0D7)],
     [(0x00D8, 0x00D8), (0x00D9, 0x00D9), (0x00DA, 0x00DA), (0x00DB, 0x00DB), (0x00DC, 0x00DC), (0x00DD, 0x00DD), (0x00DE, 0x00DE), (0x2017, 0x2017)],
     [(0x05D0, 0x05D0), (0x05D1, 0x05D1), (0x05D2, 0x05D2), (0x05D3, 0x05D3), (0x05D4, 0x05D4), (0x05D5, 0x05D5), (0x05D6, 0x05D6), (0x05D7, 0x05D7)],
     [(0x05D8, 0x05D8), (0x05D9, 0x05D9), (0x05DA, 0x05DA), (0x05DB, 0x05DB), (0x05DC, 0x05DC), (0x05DD, 0x05DD), (0x05DE, 0x05DE), (0x05DF, 0x05DF)],
     [(0x05E0, 0x05E0), (0x05E1, 0x05E1), (0x05E2, 0x05E2), (0x05E3, 0x05E3), (0x05E4, 0x05E4), (0x05E5, 0x05E5), (0x05E6, 0x05E6), (0x05E7, 0x05E7)],
     [(0x05E8, 0x05E8), (0x05E9, 0x05E9), (0x05EA, 0x05EA), (0x00FB, 0x00FB), (0x00FC, 0x00FC), (0x00FD, 0x00FD), (0x00FE, 0x00FE), (0x00FF, 0x00FF)]]"

definition ISO8859_9_CASE :: "(rchar \<times> rchar) list" where
  "ISO8859_9_CASE = concat [
     [(0x0080, 0x0080), (0x0081, 0x0081), (0x0082, 0x0082), (0x0083, 0x0083), (0x0084, 0x0084), (0x0085, 0x0085), (0x0086, 0x0086), (0x0087, 0x0087)],
     [(0x0088, 0x0088), (0x0089, 0x0089), (0x008A, 0x008A), (0x008B, 0x008B), (0x008C, 0x008C), (0x008D, 0x008D), (0x008E, 0x008E), (0x008F, 0x008F)],
     [(0x0090, 0x0090), (0x0091, 0x0091), (0x0092, 0x0092), (0x0093, 0x0093), (0x0094, 0x0094), (0x0095, 0x0095), (0x0096, 0x0096), (0x0097, 0x0097)],
     [(0x0098, 0x0098), (0x0099, 0x0099), (0x009A, 0x009A), (0x009B, 0x009B), (0x009C, 0x009C), (0x009D, 0x009D), (0x009E, 0x009E), (0x009F, 0x009F)],
     [(0x00A0, 0x00A0), (0x00A1, 0x00A1), (0x00A2, 0x00A2), (0x00A3, 0x00A3), (0x00A4, 0x00A4), (0x00A5, 0x00A5), (0x00A6, 0x00A6), (0x00A7, 0x00A7)],
     [(0x00A8, 0x00A8), (0x00A9, 0x00A9), (0x00AA, 0x00AA), (0x00AB, 0x00AB), (0x00AC, 0x00AC), (0x00AD, 0x00AD), (0x00AE, 0x00AE), (0x00AF, 0x00AF)],
     [(0x00B0, 0x00B0), (0x00B1, 0x00B1), (0x00B2, 0x00B2), (0x00B3, 0x00B3), (0x00B4, 0x00B4), (0x00B5, 0x00B5), (0x00B6, 0x00B6), (0x00B7, 0x00B7)],
     [(0x00B8, 0x00B8), (0x00B9, 0x00B9), (0x00BA, 0x00BA), (0x00BB, 0x00BB), (0x00BC, 0x00BC), (0x00BD, 0x00BD), (0x00BE, 0x00BE), (0x00BF, 0x00BF)],
     [(0x00C0, 0x00E0), (0x00C1, 0x00E1), (0x00C2, 0x00E2), (0x00C3, 0x00E3), (0x00C4, 0x00E4), (0x00C5, 0x00E5), (0x00C6, 0x00E6), (0x00C7, 0x00E7)],
     [(0x00C8, 0x00E8), (0x00C9, 0x00E9), (0x00CA, 0x00EA), (0x00CB, 0x00EB), (0x00CC, 0x00EC), (0x00CD, 0x00ED), (0x00CE, 0x00EE), (0x00CF, 0x00EF)],
     [(0x011E, 0x011F), (0x00D1, 0x00F1), (0x00D2, 0x00F2), (0x00D3, 0x00F3), (0x00D4, 0x00F4), (0x00D5, 0x00F5), (0x00D6, 0x00F6), (0x00D7, 0x00D7)],
     [(0x00D8, 0x00F8), (0x00D9, 0x00F9), (0x00DA, 0x00FA), (0x00DB, 0x00FB), (0x00DC, 0x00FC), (0x0130, 0x0069), (0x015E, 0x015F), (0x00DF, 0x00DF)],
     [(0x00C0, 0x00E0), (0x00C1, 0x00E1), (0x00C2, 0x00E2), (0x00C3, 0x00E3), (0x00C4, 0x00E4), (0x00C5, 0x00E5), (0x00C6, 0x00E6), (0x00C7, 0x00E7)],
     [(0x00C8, 0x00E8), (0x00C9, 0x00E9), (0x00CA, 0x00EA), (0x00CB, 0x00EB), (0x00CC, 0x00EC), (0x00CD, 0x00ED), (0x00CE, 0x00EE), (0x00CF, 0x00EF)],
     [(0x011E, 0x011F), (0x00D1, 0x00F1), (0x00D2, 0x00F2), (0x00D3, 0x00F3), (0x00D4, 0x00F4), (0x00D5, 0x00F5), (0x00D6, 0x00F6), (0x00F7, 0x00F7)],
     [(0x00D8, 0x00F8), (0x00D9, 0x00F9), (0x00DA, 0x00FA), (0x00DB, 0x00FB), (0x00DC, 0x00FC), (0x0049, 0x0131), (0x015E, 0x015F), (0x00FF, 0x00FF)]]"

definition ISO8859_13_CASE :: "(rchar \<times> rchar) list" where
  "ISO8859_13_CASE = concat [
     [(0x0080, 0x0080), (0x0081, 0x0081), (0x0082, 0x0082), (0x0083, 0x0083), (0x0084, 0x0084), (0x0085, 0x0085), (0x0086, 0x0086), (0x0087, 0x0087)],
     [(0x0088, 0x0088), (0x0089, 0x0089), (0x008A, 0x008A), (0x008B, 0x008B), (0x008C, 0x008C), (0x008D, 0x008D), (0x008E, 0x008E), (0x008F, 0x008F)],
     [(0x0090, 0x0090), (0x0091, 0x0091), (0x0092, 0x0092), (0x0093, 0x0093), (0x0094, 0x0094), (0x0095, 0x0095), (0x0096, 0x0096), (0x0097, 0x0097)],
     [(0x0098, 0x0098), (0x0099, 0x0099), (0x009A, 0x009A), (0x009B, 0x009B), (0x009C, 0x009C), (0x009D, 0x009D), (0x009E, 0x009E), (0x009F, 0x009F)],
     [(0x00A0, 0x00A0), (0x201D, 0x201D), (0x00A2, 0x00A2), (0x00A3, 0x00A3), (0x00A4, 0x00A4), (0x201E, 0x201E), (0x00A6, 0x00A6), (0x00A7, 0x00A7)],
     [(0x00D8, 0x00F8), (0x00A9, 0x00A9), (0x0156, 0x0157), (0x00AB, 0x00AB), (0x00AC, 0x00AC), (0x00AD, 0x00AD), (0x00AE, 0x00AE), (0x00C6, 0x00E6)],
     [(0x00B0, 0x00B0), (0x00B1, 0x00B1), (0x00B2, 0x00B2), (0x00B3, 0x00B3), (0x201C, 0x201C), (CASE_ERR, 0x00B5), (0x00B6, 0x00B6), (0x00B7, 0x00B7)],
     [(0x00D8, 0x00F8), (0x00B9, 0x00B9), (0x0156, 0x0157), (0x00BB, 0x00BB), (0x00BC, 0x00BC), (0x00BD, 0x00BD), (0x00BE, 0x00BE), (0x00C6, 0x00E6)],
     [(0x0104, 0x0105), (0x012E, 0x012F), (0x0100, 0x0101), (0x0106, 0x0107), (0x00C4, 0x00E4), (0x00C5, 0x00E5), (0x0118, 0x0119), (0x0112, 0x0113)],
     [(0x010C, 0x010D), (0x00C9, 0x00E9), (0x0179, 0x017A), (0x0116, 0x0117), (0x0122, 0x0123), (0x0136, 0x0137), (0x012A, 0x012B), (0x013B, 0x013C)],
     [(0x0160, 0x0161), (0x0143, 0x0144), (0x0145, 0x0146), (0x00D3, 0x00F3), (0x014C, 0x014D), (0x00D5, 0x00F5), (0x00D6, 0x00F6), (0x00D7, 0x00D7)],
     [(0x0172, 0x0173), (0x0141, 0x0142), (0x015A, 0x015B), (0x016A, 0x016B), (0x00DC, 0x00FC), (0x017B, 0x017C), (0x017D, 0x017E), (0x00DF, 0x00DF)],
     [(0x0104, 0x0105), (0x012E, 0x012F), (0x0100, 0x0101), (0x0106, 0x0107), (0x00C4, 0x00E4), (0x00C5, 0x00E5), (0x0118, 0x0119), (0x0112, 0x0113)],
     [(0x010C, 0x010D), (0x00C9, 0x00E9), (0x0179, 0x017A), (0x0116, 0x0117), (0x0122, 0x0123), (0x0136, 0x0137), (0x012A, 0x012B), (0x013B, 0x013C)],
     [(0x0160, 0x0161), (0x0143, 0x0144), (0x0145, 0x0146), (0x00D3, 0x00F3), (0x014C, 0x014D), (0x00D5, 0x00F5), (0x00D6, 0x00F6), (0x00F7, 0x00F7)],
     [(0x0172, 0x0173), (0x0141, 0x0142), (0x015A, 0x015B), (0x016A, 0x016B), (0x00DC, 0x00FC), (0x017B, 0x017C), (0x017D, 0x017E), (0x2019, 0x2019)]]"

definition DOS852_CASE :: "(rchar \<times> rchar) list" where
  "DOS852_CASE = concat [
     [(0x00C7, 0x00E7), (0x00DC, 0x00FC), (0x00C9, 0x00E9), (0x00C2, 0x00E2), (0x00C4, 0x00E4), (0x016E, 0x016F), (0x0106, 0x0107), (0x00C7, 0x00E7)],
     [(0x0141, 0x0142), (0x00CB, 0x00EB), (0x0150, 0x0151), (0x0150, 0x0151), (0x00CE, 0x00EE), (0x0179, 0x017A), (0x00C4, 0x00E4), (0x0106, 0x0107)],
     [(0x00C9, 0x00E9), (0x0139, 0x013A), (0x0139, 0x013A), (0x00D4, 0x00F4), (0x00D6, 0x00F6), (0x013D, 0x013E), (0x013D, 0x013E), (0x015A, 0x015B)],
     [(0x015A, 0x015B), (0x00D6, 0x00F6), (0x00DC, 0x00FC), (0x0164, 0x0165), (0x0164, 0x0165), (0x0141, 0x0142), (0x00D7, 0x00D7), (0x010C, 0x010D)],
     [(0x00C1, 0x00E1), (0x00CD, 0x00ED), (0x00D3, 0x00F3), (0x00DA, 0x00FA), (0x0104, 0x0105), (0x0104, 0x0105), (0x017D, 0x017E), (0x017D, 0x017E)],
     [(0x0118, 0x0119), (0x0118, 0x0119), (0x00AC, 0x00AC), (0x0179, 0x017A), (0x010C, 0x010D), (0x015E, 0x015F), (0x00AB, 0x00AB), (0x00BB, 0x00BB)],
     [(0x2591, 0x2591), (0x2592, 0x2592), (0x2593, 0x2593), (0x2502, 0x2502), (0x2524, 0x2524), (0x00C1, 0x00E1), (0x00C2, 0x00E2), (0x011A, 0x011B)],
     [(0x015E, 0x015F), (0x2563, 0x2563), (0x2551, 0x2551), (0x2557, 0x2557), (0x255D, 0x255D), (0x017B, 0x017C), (0x017B, 0x017C), (0x2510, 0x2510)],
     [(0x2514, 0x2514), (0x2534, 0x2534), (0x252C, 0x252C), (0x251C, 0x251C), (0x2500, 0x2500), (0x253C, 0x253C), (0x0102, 0x0103), (0x0102, 0x0103)],
     [(0x255A, 0x255A), (0x2554, 0x2554), (0x2569, 0x2569), (0x2566, 0x2566), (0x2560, 0x2560), (0x2550, 0x2550), (0x256C, 0x256C), (0x00A4, 0x00A4)],
     [(0x0110, 0x0111), (0x0110, 0x0111), (0x010E, 0x010F), (0x00CB, 0x00EB), (0x010E, 0x010F), (0x0147, 0x0148), (0x00CD, 0x00ED), (0x00CE, 0x00EE)],
     [(0x011A, 0x011B), (0x2518, 0x2518), (0x250C, 0x250C), (0x2588, 0x2588), (0x2584, 0x2584), (0x0162, 0x0163), (0x016E, 0x016F), (0x2580, 0x2580)],
     [(0x00D3, 0x00F3), (0x00DF, 0x00DF), (0x00D4, 0x00F4), (0x0143, 0x0144), (0x0143, 0x0144), (0x0147, 0x0148), (0x0160, 0x0161), (0x0160, 0x0161)],
     [(0x0154, 0x0155), (0x00DA, 0x00FA), (0x0154, 0x0155), (0x0170, 0x0171), (0x00DD, 0x00FD), (0x00DD, 0x00FD), (0x0162, 0x0163), (0x00B4, 0x00B4)],
     [(0x00AD, 0x00AD), (0x02DD, 0x02DD), (0x02DB, 0x02DB), (0x02C7, 0x02C7), (0x02D8, 0x02D8), (0x00A7, 0x00A7), (0x00F7, 0x00F7), (0x00B8, 0x00B8)],
     [(0x00B0, 0x00B0), (0x00A8, 0x00A8), (0x02D9, 0x02D9), (0x0170, 0x0171), (0x0158, 0x0159), (0x0158, 0x0159), (0x25A0, 0x25A0), (0x00A0, 0x00A0)]]"

definition DOS857_CASE :: "(rchar \<times> rchar) list" where
  "DOS857_CASE = concat [
     [(0x00C7, 0x00E7), (0x00DC, 0x00FC), (0x00C9, 0x00E9), (0x00C2, 0x00E2), (0x00C4, 0x00E4), (0x00C0, 0x00E0), (0x00C5, 0x00E5), (0x00C7, 0x00E7)],
     [(0x00CA, 0x00EA), (0x00CB, 0x00EB), (0x00C8, 0x00E8), (0x00CF, 0x00EF), (0x00CE, 0x00EE), (0x0049, 0x0131), (0x00C4, 0x00E4), (0x00C5, 0x00E5)],
     [(0x00C9, 0x00E9), (0x00C6, 0x00E6), (0x00C6, 0x00E6), (0x00D4, 0x00F4), (0x00D6, 0x00F6), (0x00D2, 0x00F2), (0x00DB, 0x00FB), (0x00D9, 0x00F9)],
     [(0x0130, 0x0069), (0x00D6, 0x00F6), (0x00DC, 0x00FC), (0x00D8, 0x00F8), (0x00A3, 0x00A3), (0x00D8, 0x00F8), (0x015E, 0x015F), (0x015E, 0x015F)],
     [(0x00C1, 0x00E1), (0x00CD, 0x00ED), (0x00D3, 0x00F3), (0x00DA, 0x00FA), (0x00D1, 0x00F1), (0x00D1, 0x00F1), (0x011E, 0x011F), (0x011E, 0x011F)],
     [(0x00BF, 0x00BF), (0x00AE, 0x00AE), (0x00AC, 0x00AC), (0x00BD, 0x00BD), (0x00BC, 0x00BC), (0x00A1, 0x00A1), (0x00AB, 0x00AB), (0x00BB, 0x00BB)],
     [(0x2591, 0x2591), (0x2592, 0x2592), (0x2593, 0x2593), (0x2502, 0x2502), (0x2524, 0x2524), (0x00C1, 0x00E1), (0x00C2, 0x00E2), (0x00C0, 0x00E0)],
     [(0x00A9, 0x00A9), (0x2563, 0x2563), (0x2551, 0x2551), (0x2557, 0x2557), (0x255D, 0x255D), (0x00A2, 0x00A2), (0x00A5, 0x00A5), (0x2510, 0x2510)],
     [(0x2514, 0x2514), (0x2534, 0x2534), (0x252C, 0x252C), (0x251C, 0x251C), (0x2500, 0x2500), (0x253C, 0x253C), (0x00C3, 0x00E3), (0x00C3, 0x00E3)],
     [(0x255A, 0x255A), (0x2554, 0x2554), (0x2569, 0x2569), (0x2566, 0x2566), (0x2560, 0x2560), (0x2550, 0x2550), (0x256C, 0x256C), (0x00A4, 0x00A4)],
     [(0x00BA, 0x00BA), (0x00AA, 0x00AA), (0x00CA, 0x00EA), (0x00CB, 0x00EB), (0x00C8, 0x00E8), (0xE0D5, 0xE0D5), (0x00CD, 0x00ED), (0x00CE, 0x00EE)],
     [(0x00CF, 0x00EF), (0x2518, 0x2518), (0x250C, 0x250C), (0x2588, 0x2588), (0x2584, 0x2584), (0x00A6, 0x00A6), (0x00CC, 0x00EC), (0x2580, 0x2580)],
     [(0x00D3, 0x00F3), (0x00DF, 0x00DF), (0x00D4, 0x00F4), (0x00D2, 0x00F2), (0x00D5, 0x00F5), (0x00D5, 0x00F5), (0x00B5, 0x00B5), (0xE0E7, 0xE0E7)],
     [(0x00D7, 0x00D7), (0x00DA, 0x00FA), (0x00DB, 0x00FB), (0x00D9, 0x00F9), (0x00CC, 0x00EC), (0x00FF, 0x00FF), (0x00AF, 0x00AF), (0x00B4, 0x00B4)],
     [(0x00AD, 0x00AD), (0x00B1, 0x00B1), (0xE0F2, 0xE0F2), (0x00BE, 0x00BE), (0x00B6, 0x00B6), (0x00A7, 0x00A7), (0x00F7, 0x00F7), (0x00B8, 0x00B8)],
     [(0x00B0, 0x00B0), (0x00A8, 0x00A8), (0x00B7, 0x00B7), (0x00B9, 0x00B9), (0x00B3, 0x00B3), (0x00B2, 0x00B2), (0x25A0, 0x25A0), (0x00A0, 0x00A0)]]"

definition DOS861_CASE :: "(rchar \<times> rchar) list" where
  "DOS861_CASE = concat [
     [(0x00C7, 0x00E7), (0x00DC, 0x00FC), (0x00C9, 0x00E9), (CASE_ERR, 0x00E2), (0x00C4, 0x00E4), (CASE_ERR, 0x00E0), (0x00C5, 0x00E5), (0x00C7, 0x00E7)],
     [(CASE_ERR, 0x00EA), (CASE_ERR, 0x00EB), (CASE_ERR, 0x00E8), (0x00D0, 0x00F0), (0x00D0, 0x00F0), (0x00DE, 0x00FE), (0x00C4, 0x00E4), (0x00C5, 0x00E5)],
     [(0x00C9, 0x00E9), (0x00C6, 0x00E6), (0x00C6, 0x00E6), (CASE_ERR, 0x00F4), (0x00D6, 0x00F6), (0x00DE, 0x00FE), (CASE_ERR, 0x00FB), (0x00DD, 0x00FD)],
     [(0x00DD, 0x00FD), (0x00D6, 0x00F6), (0x00DC, 0x00FC), (0x00D8, 0x00F8), (0x00A3, 0x00A3), (0x00D8, 0x00F8), (0x20A7, 0x20A7), (CASE_ERR, 0x0192)],
     [(0x00C1, 0x00E1), (0x00CD, 0x00ED), (0x00D3, 0x00F3), (0x00DA, 0x00FA), (0x00C1, 0x00E1), (0x00CD, 0x00ED), (0x00D3, 0x00F3), (0x00DA, 0x00FA)],
     [(0x00BF, 0x00BF), (0x2310, 0x2310), (0x00AC, 0x00AC), (0x00BD, 0x00BD), (0x00BC, 0x00BC), (0x00A1, 0x00A1), (0x00AB, 0x00AB), (0x00BB, 0x00BB)],
     [(0x2591, 0x2591), (0x2592, 0x2592), (0x2593, 0x2593), (0x2502, 0x2502), (0x2524, 0x2524), (0x2561, 0x2561), (0x2562, 0x2562), (0x2556, 0x2556)],
     [(0x2555, 0x2555), (0x2563, 0x2563), (0x2551, 0x2551), (0x2557, 0x2557), (0x255D, 0x255D), (0x255C, 0x255C), (0x255B, 0x255B), (0x2510, 0x2510)],
     [(0x2514, 0x2514), (0x2534, 0x2534), (0x252C, 0x252C), (0x251C, 0x251C), (0x2500, 0x2500), (0x253C, 0x253C), (0x255E, 0x255E), (0x255F, 0x255F)],
     [(0x255A, 0x255A), (0x2554, 0x2554), (0x2569, 0x2569), (0x2566, 0x2566), (0x2560, 0x2560), (0x2550, 0x2550), (0x256C, 0x256C), (0x2567, 0x2567)],
     [(0x2568, 0x2568), (0x2564, 0x2564), (0x2565, 0x2565), (0x2559, 0x2559), (0x2558, 0x2558), (0x2552, 0x2552), (0x2553, 0x2553), (0x256B, 0x256B)],
     [(0x256A, 0x256A), (0x2518, 0x2518), (0x250C, 0x250C), (0x2588, 0x2588), (0x2584, 0x2584), (0x258C, 0x258C), (0x2590, 0x2590), (0x2580, 0x2580)],
     [(CASE_ERR, 0x03B1), (0x00DF, 0x00DF), (0x0393, CASE_ERR), (CASE_ERR, 0x03C0), (0x03A3, 0x03C3), (0x03A3, 0x03C3), (0x00B5, 0x00B5), (CASE_ERR, 0x03C4)],
     [(0x03A6, 0x03C6), (0x0398, CASE_ERR), (0x03A9, CASE_ERR), (CASE_ERR, 0x03B4), (0x221E, 0x221E), (0x03A6, 0x03C6), (CASE_ERR, 0x03B5), (0x2229, 0x2229)],
     [(0x2261, 0x2261), (0x00B1, 0x00B1), (0x2265, 0x2265), (0x2264, 0x2264), (0x2320, 0x2320), (0x2321, 0x2321), (0x00F7, 0x00F7), (0x2248, 0x2248)],
     [(0x00B0, 0x00B0), (0x2219, 0x2219), (0x00B7, 0x00B7), (0x221A, 0x221A), (0x207F, 0x207F), (0x00B2, 0x00B2), (0x25A0, 0x25A0), (0x00A0, 0x00A0)]]"

definition DOS866_CASE :: "(rchar \<times> rchar) list" where
  "DOS866_CASE = concat [
     [(0x0410, 0x0430), (0x0411, 0x0431), (0x0412, 0x0432), (0x0413, 0x0433), (0x0414, 0x0434), (0x0415, 0x0435), (0x0416, 0x0436), (0x0417, 0x0437)],
     [(0x0418, 0x0438), (0x0419, 0x0439), (0x041A, 0x043A), (0x041B, 0x043B), (0x041C, 0x043C), (0x041D, 0x043D), (0x041E, 0x043E), (0x041F, 0x043F)],
     [(0x0420, 0x0440), (0x0421, 0x0441), (0x0422, 0x0442), (0x0423, 0x0443), (0x0424, 0x0444), (0x0425, 0x0445), (0x0426, 0x0446), (0x0427, 0x0447)],
     [(0x0428, 0x0448), (0x0429, 0x0449), (0x042A, 0x044A), (0x042B, 0x044B), (0x042C, 0x044C), (0x042D, 0x044D), (0x042E, 0x044E), (0x042F, 0x044F)],
     [(0x0410, 0x0430), (0x0411, 0x0431), (0x0412, 0x0432), (0x0413, 0x0433), (0x0414, 0x0434), (0x0415, 0x0435), (0x0416, 0x0436), (0x0417, 0x0437)],
     [(0x0418, 0x0438), (0x0419, 0x0439), (0x041A, 0x043A), (0x041B, 0x043B), (0x041C, 0x043C), (0x041D, 0x043D), (0x041E, 0x043E), (0x041F, 0x043F)],
     [(0x2591, 0x2591), (0x2592, 0x2592), (0x2593, 0x2593), (0x2502, 0x2502), (0x2524, 0x2524), (0x2561, 0x2561), (0x2562, 0x2562), (0x2556, 0x2556)],
     [(0x2555, 0x2555), (0x2563, 0x2563), (0x2551, 0x2551), (0x2557, 0x2557), (0x255D, 0x255D), (0x255C, 0x255C), (0x255B, 0x255B), (0x2510, 0x2510)],
     [(0x2514, 0x2514), (0x2534, 0x2534), (0x252C, 0x252C), (0x251C, 0x251C), (0x2500, 0x2500), (0x253C, 0x253C), (0x255E, 0x255E), (0x255F, 0x255F)],
     [(0x255A, 0x255A), (0x2554, 0x2554), (0x2569, 0x2569), (0x2566, 0x2566), (0x2560, 0x2560), (0x2550, 0x2550), (0x256C, 0x256C), (0x2567, 0x2567)],
     [(0x2568, 0x2568), (0x2564, 0x2564), (0x2565, 0x2565), (0x2559, 0x2559), (0x2558, 0x2558), (0x2552, 0x2552), (0x2553, 0x2553), (0x256B, 0x256B)],
     [(0x256A, 0x256A), (0x2518, 0x2518), (0x250C, 0x250C), (0x2588, 0x2588), (0x2584, 0x2584), (0x258C, 0x258C), (0x2590, 0x2590), (0x2580, 0x2580)],
     [(0x0420, 0x0440), (0x0421, 0x0441), (0x0422, 0x0442), (0x0423, 0x0443), (0x0424, 0x0444), (0x0425, 0x0445), (0x0426, 0x0446), (0x0427, 0x0447)],
     [(0x0428, 0x0448), (0x0429, 0x0449), (0x042A, 0x044A), (0x042B, 0x044B), (0x042C, 0x044C), (0x042D, 0x044D), (0x042E, 0x044E), (0x042F, 0x044F)],
     [(0x0401, 0x0451), (0x0401, 0x0451), (0x0404, 0x0454), (0x0404, 0x0454), (0x0407, 0x0457), (0x0407, 0x0457), (0x040E, 0x045E), (0x040E, 0x045E)],
     [(0x00B0, 0x00B0), (0x2219, 0x2219), (0x00B7, 0x00B7), (0x221A, 0x221A), (0x2116, 0x2116), (0x00A4, 0x00A4), (0x25A0, 0x25A0), (0x00A0, 0x00A0)]]"

definition DOS869_CASE :: "(rchar \<times> rchar) list" where
  "DOS869_CASE = concat [
     [(0x0080, 0x0080), (0x0081, 0x0081), (0x0082, 0x0082), (0x0083, 0x0083), (0x0084, 0x0084), (0x0085, 0x0085), (0x0386, 0x03AC), (0x0087, 0x0087)],
     [(0x00B7, 0x00B7), (0x00AC, 0x00AC), (0x00A6, 0x00A6), (0x2018, 0x2018), (0x2019, 0x2019), (0x0388, 0x03AD), (0x2015, 0x2015), (0x0389, 0x03AE)],
     [(0x038A, 0x03AF), (0x03AA, 0x03CA), (0x038C, 0x03CC), (0x0093, 0x0093), (0x0094, 0x0094), (0x038E, 0x03CD), (0x03AB, 0x03CB), (0x00A9, 0x00A9)],
     [(0x038F, 0x03CE), (0x00B2, 0x00B2), (0x00B3, 0x00B3), (0x0386, 0x03AC), (0x00A3, 0x00A3), (0x0388, 0x03AD), (0x0389, 0x03AE), (0x038A, 0x03AF)],
     [(0x03AA, 0x03CA), (0x0390, 0x0390), (0x038C, 0x03CC), (0x038E, 0x03CD), (0x0391, 0x03B1), (0x0392, 0x03B2), (0x0393, 0x03B3), (0x0394, 0x03B4)],
     [(0x0395, 0x03B5), (0x0396, 0x03B6), (0x0397, 0x03B7), (0x00BD, 0x00BD), (0x0398, 0x03B8), (0x0399, 0x03B9), (0x00AB, 0x00AB), (0x00BB, 0x00BB)],
     [(0x2591, 0x2591), (0x2592, 0x2592), (0x2593, 0x2593), (0x2502, 0x2502), (0x2524, 0x2524), (0x039A, 0x03BA), (0x039B, 0x03BB), (0x039C, 0x03BC)],
     [(0x039D, 0x03BD), (0x2563, 0x2563), (0x2551, 0x2551), (0x2557, 0x2557), (0x255D, 0x255D), (0x039E, 0x03BE), (0x039F, 0x03BF), (0x2510, 0x2510)],
     [(0x2514, 0x2514), (0x2534, 0x2534), (0x252C, 0x252C), (0x251C, 0x251C), (0x2500, 0x2500), (0x253C, 0x253C), (0x03A0, 0x03C0), (0x03A1, 0x03C1)],
     [(0x255A, 0x255A), (0x2554, 0x2554), (0x2569, 0x2569), (0x2566, 0x2566), (0x2560, 0x2560), (0x2550, 0x2550), (0x256C, 0x256C), (0x03A3, 0x03C3)],
     [(0x03A4, 0x03C4), (0x03A5, 0x03C5), (0x03A6, 0x03C6), (0x03A7, 0x03C7), (0x03A8, 0x03C8), (0x03A9, 0x03C9), (0x0391, 0x03B1), (0x0392, 0x03B2)],
     [(0x0393, 0x03B3), (0x2518, 0x2518), (0x250C, 0x250C), (0x2588, 0x2588), (0x2584, 0x2584), (0x0394, 0x03B4), (0x0395, 0x03B5), (0x2580, 0x2580)],
     [(0x0396, 0x03B6), (0x0397, 0x03B7), (0x0398, 0x03B8), (0x0399, 0x03B9), (0x039A, 0x03BA), (0x039B, 0x03BB), (0x039C, 0x03BC), (0x039D, 0x03BD)],
     [(0x039E, 0x03BE), (0x039F, 0x03BF), (0x03A0, 0x03C0), (0x03A1, 0x03C1), (0x03A3, 0x03C3), (0x03A3, 0x03C2), (0x03A4, 0x03C4), (0x0384, 0x0384)],
     [(0x00AD, 0x00AD), (0x00B1, 0x00B1), (0x03A5, 0x03C5), (0x03A6, 0x03C6), (0x03A7, 0x03C7), (0x00A7, 0x00A7), (0x03A8, 0x03C8), (0x0385, 0x0385)],
     [(0x00B0, 0x00B0), (0x00A8, 0x00A8), (0x03A9, 0x03C9), (0x03AB, 0x03CB), (0x03B0, 0x03B0), (0x038F, 0x03CE), (0x25A0, 0x25A0), (0x00A0, 0x00A0)]]"

definition CYRL_CASE :: "(rchar \<times> rchar) list" where
  "CYRL_CASE = concat [
     [(0x0402, 0x0452), (0x0403, 0x0453), (0x201A, 0x201A), (0x0403, 0x0453), (0x201E, 0x201E), (0x2026, 0x2026), (0x2020, 0x2020), (0x2021, 0x2021)],
     [(0x20AC, 0x20AC), (0x2030, 0x2030), (0x0409, 0x0459), (0x2039, 0x2039), (0x040A, 0x045A), (0x040C, 0x045C), (0x040B, 0x045B), (0x040F, 0x045F)],
     [(0x0402, 0x0452), (0x2018, 0x2018), (0x2019, 0x2019), (0x201C, 0x201C), (0x201D, 0x201D), (0x2022, 0x2022), (0x2013, 0x2013), (0x2014, 0x2014)],
     [(0x0098, 0x0098), (0x2122, 0x2122), (0x0409, 0x0459), (0x203A, 0x203A), (0x040A, 0x045A), (0x040C, 0x045C), (0x040B, 0x045B), (0x040F, 0x045F)],
     [(0x00A0, 0x00A0), (0x040E, 0x045E), (0x040E, 0x045E), (0x0408, 0x0458), (0x00A4, 0x00A4), (0x0490, 0x0491), (0x00A6, 0x00A6), (0x00A7, 0x00A7)],
     [(0x0401, 0x0451), (0x00A9, 0x00A9), (0x0404, 0x0454), (0x00AB, 0x00AB), (0x00AC, 0x00AC), (0x00AD, 0x00AD), (0x00AE, 0x00AE), (0x0407, 0x0457)],
     [(0x00B0, 0x00B0), (0x00B1, 0x00B1), (0x0406, 0x0456), (0x0406, 0x0456), (0x0490, 0x0491), (0x00B5, 0x00B5), (0x00B6, 0x00B6), (0x00B7, 0x00B7)],
     [(0x0401, 0x0451), (0x2116, 0x2116), (0x0404, 0x0454), (0x00BB, 0x00BB), (0x0408, 0x0458), (0x0405, 0x0455), (0x0405, 0x0455), (0x0407, 0x0457)],
     [(0x0410, 0x0430), (0x0411, 0x0431), (0x0412, 0x0432), (0x0413, 0x0433), (0x0414, 0x0434), (0x0415, 0x0435), (0x0416, 0x0436), (0x0417, 0x0437)],
     [(0x0418, 0x0438), (0x0419, 0x0439), (0x041A, 0x043A), (0x041B, 0x043B), (0x041C, 0x043C), (0x041D, 0x043D), (0x041E, 0x043E), (0x041F, 0x043F)],
     [(0x0420, 0x0440), (0x0421, 0x0441), (0x0422, 0x0442), (0x0423, 0x0443), (0x0424, 0x0444), (0x0425, 0x0445), (0x0426, 0x0446), (0x0427, 0x0447)],
     [(0x0428, 0x0448), (0x0429, 0x0449), (0x042A, 0x044A), (0x042B, 0x044B), (0x042C, 0x044C), (0x042D, 0x044D), (0x042E, 0x044E), (0x042F, 0x044F)],
     [(0x0410, 0x0430), (0x0411, 0x0431), (0x0412, 0x0432), (0x0413, 0x0433), (0x0414, 0x0434), (0x0415, 0x0435), (0x0416, 0x0436), (0x0417, 0x0437)],
     [(0x0418, 0x0438), (0x0419, 0x0439), (0x041A, 0x043A), (0x041B, 0x043B), (0x041C, 0x043C), (0x041D, 0x043D), (0x041E, 0x043E), (0x041F, 0x043F)],
     [(0x0420, 0x0440), (0x0421, 0x0441), (0x0422, 0x0442), (0x0423, 0x0443), (0x0424, 0x0444), (0x0425, 0x0445), (0x0426, 0x0446), (0x0427, 0x0447)],
     [(0x0428, 0x0448), (0x0429, 0x0449), (0x042A, 0x044A), (0x042B, 0x044B), (0x042C, 0x044C), (0x042D, 0x044D), (0x042E, 0x044E), (0x042F, 0x044F)]]"

definition WIN1253_CASE :: "(rchar \<times> rchar) list" where
  "WIN1253_CASE = concat [
     [(0x20AC, 0x20AC), (0x0081, 0x0081), (0x201A, 0x201A), (CASE_ERR, 0x0192), (0x201E, 0x201E), (0x2026, 0x2026), (0x2020, 0x2020), (0x2021, 0x2021)],
     [(0x0088, 0x0088), (0x2030, 0x2030), (0x008A, 0x008A), (0x2039, 0x2039), (0x008C, 0x008C), (0x008D, 0x008D), (0x008E, 0x008E), (0x008F, 0x008F)],
     [(0x0090, 0x0090), (0x2018, 0x2018), (0x2019, 0x2019), (0x201C, 0x201C), (0x201D, 0x201D), (0x2022, 0x2022), (0x2013, 0x2013), (0x2014, 0x2014)],
     [(0x0098, 0x0098), (0x2122, 0x2122), (0x009A, 0x009A), (0x203A, 0x203A), (0x009C, 0x009C), (0x009D, 0x009D), (0x009E, 0x009E), (0x009F, 0x009F)],
     [(0x00A0, 0x00A0), (0x0385, 0x0385), (0x0386, 0x03AC), (0x00A3, 0x00A3), (0x00A4, 0x00A4), (0x00A5, 0x00A5), (0x00A6, 0x00A6), (0x00A7, 0x00A7)],
     [(0x00A8, 0x00A8), (0x00A9, 0x00A9), (0x00AA, 0x00AA), (0x00AB, 0x00AB), (0x00AC, 0x00AC), (0x00AD, 0x00AD), (0x00AE, 0x00AE), (0x2015, 0x2015)],
     [(0x00B0, 0x00B0), (0x00B1, 0x00B1), (0x00B2, 0x00B2), (0x00B3, 0x00B3), (0x0384, 0x0384), (0x039C, 0x00B5), (0x00B6, 0x00B6), (0x00B7, 0x00B7)],
     [(0x0388, 0x03AD), (0x0389, 0x03AE), (0x038A, 0x03AF), (0x00BB, 0x00BB), (0x038C, 0x03CC), (0x00BD, 0x00BD), (0x038E, 0x03CD), (0x038F, 0x03CE)],
     [(0x0390, 0x0390), (0x0391, 0x03B1), (0x0392, 0x03B2), (0x0393, 0x03B3), (0x0394, 0x03B4), (0x0395, 0x03B5), (0x0396, 0x03B6), (0x0397, 0x03B7)],
     [(0x0398, 0x03B8), (0x0399, 0x03B9), (0x039A, 0x03BA), (0x039B, 0x03BB), (0x039C, 0x03BC), (0x039D, 0x03BD), (0x039E, 0x03BE), (0x039F, 0x03BF)],
     [(0x03A0, 0x03C0), (0x03A1, 0x03C1), (0x00D2, 0x00D2), (0x03A3, 0x03C3), (0x03A4, 0x03C4), (0x03A5, 0x03C5), (0x03A6, 0x03C6), (0x03A7, 0x03C7)],
     [(0x03A8, 0x03C8), (0x03A9, 0x03C9), (0x03AA, 0x03CA), (0x03AB, 0x03CB), (0x0386, 0x03AC), (0x0388, 0x03AD), (0x0389, 0x03AE), (0x038A, 0x03AF)],
     [(0x03B0, 0x03B0), (0x0391, 0x03B1), (0x0392, 0x03B2), (0x0393, 0x03B3), (0x0394, 0x03B4), (0x0395, 0x03B5), (0x0396, 0x03B6), (0x0397, 0x03B7)],
     [(0x0398, 0x03B8), (0x0399, 0x03B9), (0x039A, 0x03BA), (0x039B, 0x03BB), (0x039C, 0x03BC), (0x039D, 0x03BD), (0x039E, 0x03BE), (0x039F, 0x03BF)],
     [(0x03A0, 0x03C0), (0x03A1, 0x03C1), (0x03A3, 0x03C2), (0x03A3, 0x03C3), (0x03A4, 0x03C4), (0x03A5, 0x03C5), (0x03A6, 0x03C6), (0x03A7, 0x03C7)],
     [(0x03A8, 0x03C8), (0x03A9, 0x03C9), (0x03AA, 0x03CA), (0x03AB, 0x03CB), (0x038C, 0x03CC), (0x038E, 0x03CD), (0x038F, 0x03CE), (0x00FF, 0x00FF)]]"

definition WIN1254_CASE :: "(rchar \<times> rchar) list" where
  "WIN1254_CASE = concat [
     [(0x20AC, 0x20AC), (0x0081, 0x0081), (0x201A, 0x201A), (CASE_ERR, 0x0192), (0x201E, 0x201E), (0x2026, 0x2026), (0x2020, 0x2020), (0x2021, 0x2021)],
     [(0x02C6, 0x02C6), (0x2030, 0x2030), (0x0160, 0x0161), (0x2039, 0x2039), (0x0152, 0x0153), (0x008D, 0x008D), (0x008E, 0x008E), (0x008F, 0x008F)],
     [(0x0090, 0x0090), (0x2018, 0x2018), (0x2019, 0x2019), (0x201C, 0x201C), (0x201D, 0x201D), (0x2022, 0x2022), (0x2013, 0x2013), (0x2014, 0x2014)],
     [(0x02DC, 0x02DC), (0x2122, 0x2122), (0x0160, 0x0161), (0x203A, 0x203A), (0x0152, 0x0153), (0x009D, 0x009D), (0x009E, 0x009E), (0x0178, 0x00FF)],
     [(0x00A0, 0x00A0), (0x00A1, 0x00A1), (0x00A2, 0x00A2), (0x00A3, 0x00A3), (0x00A4, 0x00A4), (0x00A5, 0x00A5), (0x00A6, 0x00A6), (0x00A7, 0x00A7)],
     [(0x00A8, 0x00A8), (0x00A9, 0x00A9), (0x00AA, 0x00AA), (0x00AB, 0x00AB), (0x00AC, 0x00AC), (0x00AD, 0x00AD), (0x00AE, 0x00AE), (0x00AF, 0x00AF)],
     [(0x00B0, 0x00B0), (0x00B1, 0x00B1), (0x00B2, 0x00B2), (0x00B3, 0x00B3), (0x00B4, 0x00B4), (0x00B5, 0x00B5), (0x00B6, 0x00B6), (0x00B7, 0x00B7)],
     [(0x00B8, 0x00B8), (0x00B9, 0x00B9), (0x00BA, 0x00BA), (0x00BB, 0x00BB), (0x00BC, 0x00BC), (0x00BD, 0x00BD), (0x00BE, 0x00BE), (0x00BF, 0x00BF)],
     [(0x00C0, 0x00E0), (0x00C1, 0x00E1), (0x00C2, 0x00E2), (0x00C3, 0x00E3), (0x00C4, 0x00E4), (0x00C5, 0x00E5), (0x00C6, 0x00E6), (0x00C7, 0x00E7)],
     [(0x00C8, 0x00E8), (0x00C9, 0x00E9), (0x00CA, 0x00EA), (0x00CB, 0x00EB), (0x00CC, 0x00EC), (0x00CD, 0x00ED), (0x00CE, 0x00EE), (0x00CF, 0x00EF)],
     [(0x011E, 0x011F), (0x00D1, 0x00F1), (0x00D2, 0x00F2), (0x00D3, 0x00F3), (0x00D4, 0x00F4), (0x00D5, 0x00F5), (0x00D6, 0x00F6), (0x00D7, 0x00D7)],
     [(0x00D8, 0x00F8), (0x00D9, 0x00F9), (0x00DA, 0x00FA), (0x00DB, 0x00FB), (0x00DC, 0x00FC), (0x0130, 0x0069), (0x015E, 0x015F), (0x00DF, 0x00DF)],
     [(0x00C0, 0x00E0), (0x00C1, 0x00E1), (0x00C2, 0x00E2), (0x00C3, 0x00E3), (0x00C4, 0x00E4), (0x00C5, 0x00E5), (0x00C6, 0x00E6), (0x00C7, 0x00E7)],
     [(0x00C8, 0x00E8), (0x00C9, 0x00E9), (0x00CA, 0x00EA), (0x00CB, 0x00EB), (0x00CC, 0x00EC), (0x00CD, 0x00ED), (0x00CE, 0x00EE), (0x00CF, 0x00EF)],
     [(0x011E, 0x011F), (0x00D1, 0x00F1), (0x00D2, 0x00F2), (0x00D3, 0x00F3), (0x00D4, 0x00F4), (0x00D5, 0x00F5), (0x00D6, 0x00F6), (0x00F7, 0x00F7)],
     [(0x00D8, 0x00F8), (0x00D9, 0x00F9), (0x00DA, 0x00FA), (0x00DB, 0x00FB), (0x00DC, 0x00FC), (0x0049, 0x0131), (0x015E, 0x015F), (0x0178, 0x00FF)]]"

definition WIN1255_CASE :: "(rchar \<times> rchar) list" where
  "WIN1255_CASE = concat [
     [(0x20AC, 0x20AC), (0x0081, 0x0081), (0x201A, 0x201A), (CASE_ERR, 0x0192), (0x201E, 0x201E), (0x2026, 0x2026), (0x2020, 0x2020), (0x2021, 0x2021)],
     [(0x02C6, 0x02C6), (0x2030, 0x2030), (0x008A, 0x008A), (0x2039, 0x2039), (0x008C, 0x008C), (0x008D, 0x008D), (0x008E, 0x008E), (0x008F, 0x008F)],
     [(0x0090, 0x0090), (0x2018, 0x2018), (0x2019, 0x2019), (0x201C, 0x201C), (0x201D, 0x201D), (0x2022, 0x2022), (0x2013, 0x2013), (0x2014, 0x2014)],
     [(0x02DC, 0x02DC), (0x2122, 0x2122), (0x009A, 0x009A), (0x203A, 0x203A), (0x009C, 0x009C), (0x009D, 0x009D), (0x009E, 0x009E), (0x009F, 0x009F)],
     [(0x00A0, 0x00A0), (0x00A1, 0x00A1), (0x00A2, 0x00A2), (0x00A3, 0x00A3), (0x20AA, 0x20AA), (0x00A5, 0x00A5), (0x00A6, 0x00A6), (0x00A7, 0x00A7)],
     [(0x00A8, 0x00A8), (0x00A9, 0x00A9), (0x00D7, 0x00D7), (0x00AB, 0x00AB), (0x00AC, 0x00AC), (0x00AD, 0x00AD), (0x00AE, 0x00AE), (0x00AF, 0x00AF)],
     [(0x00B0, 0x00B0), (0x00B1, 0x00B1), (0x00B2, 0x00B2), (0x00B3, 0x00B3), (0x00B4, 0x00B4), (0x00B5, 0x00B5), (0x00B6, 0x00B6), (0x00B7, 0x00B7)],
     [(0x00B8, 0x00B8), (0x00B9, 0x00B9), (0x00F7, 0x00F7), (0x00BB, 0x00BB), (0x00BC, 0x00BC), (0x00BD, 0x00BD), (0x00BE, 0x00BE), (0x00BF, 0x00BF)],
     [(0x05B0, 0x05B0), (0x05B1, 0x05B1), (0x05B2, 0x05B2), (0x05B3, 0x05B3), (0x05B4, 0x05B4), (0x05B5, 0x05B5), (0x05B6, 0x05B6), (0x05B7, 0x05B7)],
     [(0x05B8, 0x05B8), (0x05B9, 0x05B9), (0x00CA, 0x00CA), (0x05BB, 0x05BB), (0x05BC, 0x05BC), (0x05BD, 0x05BD), (0x05BE, 0x05BE), (0x05BF, 0x05BF)],
     [(0x05C0, 0x05C0), (0x05C1, 0x05C1), (0x05C2, 0x05C2), (0x05C3, 0x05C3), (0x05F0, 0x05F0), (0x05F1, 0x05F1), (0x05F2, 0x05F2), (0x05F3, 0x05F3)],
     [(0x05F4, 0x05F4), (0x00D9, 0x00D9), (0x00DA, 0x00DA), (0x00DB, 0x00DB), (0x00DC, 0x00DC), (0x00DD, 0x00DD), (0x00DE, 0x00DE), (0x00DF, 0x00DF)],
     [(0x05D0, 0x05D0), (0x05D1, 0x05D1), (0x05D2, 0x05D2), (0x05D3, 0x05D3), (0x05D4, 0x05D4), (0x05D5, 0x05D5), (0x05D6, 0x05D6), (0x05D7, 0x05D7)],
     [(0x05D8, 0x05D8), (0x05D9, 0x05D9), (0x05DA, 0x05DA), (0x05DB, 0x05DB), (0x05DC, 0x05DC), (0x05DD, 0x05DD), (0x05DE, 0x05DE), (0x05DF, 0x05DF)],
     [(0x05E0, 0x05E0), (0x05E1, 0x05E1), (0x05E2, 0x05E2), (0x05E3, 0x05E3), (0x05E4, 0x05E4), (0x05E5, 0x05E5), (0x05E6, 0x05E6), (0x05E7, 0x05E7)],
     [(0x05E8, 0x05E8), (0x05E9, 0x05E9), (0x05EA, 0x05EA), (0x00FB, 0x00FB), (0x00FC, 0x00FC), (0x200E, 0x200E), (0x200F, 0x200F), (0x00FF, 0x00FF)]]"

definition WIN1256_CASE :: "(rchar \<times> rchar) list" where
  "WIN1256_CASE = concat [
     [(0x20AC, 0x20AC), (0x067E, 0x067E), (0x201A, 0x201A), (CASE_ERR, 0x0192), (0x201E, 0x201E), (0x2026, 0x2026), (0x2020, 0x2020), (0x2021, 0x2021)],
     [(0x02C6, 0x02C6), (0x2030, 0x2030), (0x0679, 0x0679), (0x2039, 0x2039), (0x0152, 0x0153), (0x0686, 0x0686), (0x0698, 0x0698), (0x0688, 0x0688)],
     [(0x06AF, 0x06AF), (0x2018, 0x2018), (0x2019, 0x2019), (0x201C, 0x201C), (0x201D, 0x201D), (0x2022, 0x2022), (0x2013, 0x2013), (0x2014, 0x2014)],
     [(0x06A9, 0x06A9), (0x2122, 0x2122), (0x0691, 0x0691), (0x203A, 0x203A), (0x0152, 0x0153), (0x200C, 0x200C), (0x200D, 0x200D), (0x06BA, 0x06BA)],
     [(0x00A0, 0x00A0), (0x060C, 0x060C), (0x00A2, 0x00A2), (0x00A3, 0x00A3), (0x00A4, 0x00A4), (0x00A5, 0x00A5), (0x00A6, 0x00A6), (0x00A7, 0x00A7)],
     [(0x00A8, 0x00A8), (0x00A9, 0x00A9), (0x06BE, 0x06BE), (0x00AB, 0x00AB), (0x00AC, 0x00AC), (0x00AD, 0x00AD), (0x00AE, 0x00AE), (0x00AF, 0x00AF)],
     [(0x00B0, 0x00B0), (0x00B1, 0x00B1), (0x00B2, 0x00B2), (0x00B3, 0x00B3), (0x00B4, 0x00B4), (0x00B5, 0x00B5), (0x00B6, 0x00B6), (0x00B7, 0x00B7)],
     [(0x00B8, 0x00B8), (0x00B9, 0x00B9), (0x061B, 0x061B), (0x00BB, 0x00BB), (0x00BC, 0x00BC), (0x00BD, 0x00BD), (0x00BE, 0x00BE), (0x061F, 0x061F)],
     [(0x06C1, 0x06C1), (0x0621, 0x0621), (0x0622, 0x0622), (0x0623, 0x0623), (0x0624, 0x0624), (0x0625, 0x0625), (0x0626, 0x0626), (0x0627, 0x0627)],
     [(0x0628, 0x0628), (0x0629, 0x0629), (0x062A, 0x062A), (0x062B, 0x062B), (0x062C, 0x062C), (0x062D, 0x062D), (0x062E, 0x062E), (0x062F, 0x062F)],
     [(0x0630, 0x0630), (0x0631, 0x0631), (0x0632, 0x0632), (0x0633, 0x0633), (0x0634, 0x0634), (0x0635, 0x0635), (0x0636, 0x0636), (0x00D7, 0x00D7)],
     [(0x0637, 0x0637), (0x0638, 0x0638), (0x0639, 0x0639), (0x063A, 0x063A), (0x0640, 0x0640), (0x0641, 0x0641), (0x0642, 0x0642), (0x0643, 0x0643)],
     [(CASE_ERR, 0x00E0), (0x0644, 0x0644), (CASE_ERR, 0x00E2), (0x0645, 0x0645), (0x0646, 0x0646), (0x0647, 0x0647), (0x0648, 0x0648), (CASE_ERR, 0x00E7)],
     [(CASE_ERR, 0x00E8), (CASE_ERR, 0x00E9), (CASE_ERR, 0x00EA), (CASE_ERR, 0x00EB), (0x0649, 0x0649), (0x064A, 0x064A), (CASE_ERR, 0x00EE), (CASE_ERR, 0x00EF)],
     [(0x064B, 0x064B), (0x064C, 0x064C), (0x064D, 0x064D), (0x064E, 0x064E), (CASE_ERR, 0x00F4), (0x064F, 0x064F), (0x0650, 0x0650), (0x00F7, 0x00F7)],
     [(0x0651, 0x0651), (CASE_ERR, 0x00F9), (0x0652, 0x0652), (CASE_ERR, 0x00FB), (CASE_ERR, 0x00FC), (0x200E, 0x200E), (0x200F, 0x200F), (0x06D2, 0x06D2)]]"

definition WIN1257_CASE :: "(rchar \<times> rchar) list" where
  "WIN1257_CASE = concat [
     [(0x20AC, 0x20AC), (0x0081, 0x0081), (0x201A, 0x201A), (0x0083, 0x0083), (0x201E, 0x201E), (0x2026, 0x2026), (0x2020, 0x2020), (0x2021, 0x2021)],
     [(0x0088, 0x0088), (0x2030, 0x2030), (0x008A, 0x008A), (0x2039, 0x2039), (0x008C, 0x008C), (0x00A8, 0x00A8), (0x02C7, 0x02C7), (0x00B8, 0x00B8)],
     [(0x0090, 0x0090), (0x2018, 0x2018), (0x2019, 0x2019), (0x201C, 0x201C), (0x201D, 0x201D), (0x2022, 0x2022), (0x2013, 0x2013), (0x2014, 0x2014)],
     [(0x0098, 0x0098), (0x2122, 0x2122), (0x009A, 0x009A), (0x203A, 0x203A), (0x009C, 0x009C), (0x00AF, 0x00AF), (0x02DB, 0x02DB), (0x009F, 0x009F)],
     [(0x00A0, 0x00A0), (0x00A1, 0x00A1), (0x00A2, 0x00A2), (0x00A3, 0x00A3), (0x00A4, 0x00A4), (0x00A5, 0x00A5), (0x00A6, 0x00A6), (0x00A7, 0x00A7)],
     [(0x00D8, 0x00F8), (0x00A9, 0x00A9), (0x0156, 0x0157), (0x00AB, 0x00AB), (0x00AC, 0x00AC), (0x00AD, 0x00AD), (0x00AE, 0x00AE), (0x00C6, 0x00E6)],
     [(0x00B0, 0x00B0), (0x00B1, 0x00B1), (0x00B2, 0x00B2), (0x00B3, 0x00B3), (0x00B4, 0x00B4), (0x00B5, 0x00B5), (0x00B6, 0x00B6), (0x00B7, 0x00B7)],
     [(0x00D8, 0x00F8), (0x00B9, 0x00B9), (0x0156, 0x0157), (0x00BB, 0x00BB), (0x00BC, 0x00BC), (0x00BD, 0x00BD), (0x00BE, 0x00BE), (0x00C6, 0x00E6)],
     [(0x0104, 0x0105), (0x012E, 0x012F), (0x0100, 0x0101), (0x0106, 0x0107), (0x00C4, 0x00E4), (0x00C5, 0x00E5), (0x0118, 0x0119), (0x0112, 0x0113)],
     [(0x010C, 0x010D), (0x00C9, 0x00E9), (0x0179, 0x017A), (0x0116, 0x0117), (0x0122, 0x0123), (0x0136, 0x0137), (0x012A, 0x012B), (0x013B, 0x013C)],
     [(0x0160, 0x0161), (0x0143, 0x0144), (0x0145, 0x0146), (0x00D3, 0x00F3), (0x014C, 0x014D), (0x00D5, 0x00F5), (0x00D6, 0x00F6), (0x00D7, 0x00D7)],
     [(0x0172, 0x0173), (0x0141, 0x0142), (0x015A, 0x015B), (0x016A, 0x016B), (0x00DC, 0x00FC), (0x017B, 0x017C), (0x017D, 0x017E), (0x00DF, 0x00DF)],
     [(0x0104, 0x0105), (0x012E, 0x012F), (0x0100, 0x0101), (0x0106, 0x0107), (0x00C4, 0x00E4), (0x00C5, 0x00E5), (0x0118, 0x0119), (0x0112, 0x0113)],
     [(0x010C, 0x010D), (0x00C9, 0x00E9), (0x0179, 0x017A), (0x0116, 0x0117), (0x0122, 0x0123), (0x0136, 0x0137), (0x012A, 0x012B), (0x013B, 0x013C)],
     [(0x0160, 0x0161), (0x0143, 0x0144), (0x0145, 0x0146), (0x00D3, 0x00F3), (0x014C, 0x014D), (0x00D5, 0x00F5), (0x00D6, 0x00F6), (0x00F7, 0x00F7)],
     [(0x0172, 0x0173), (0x0141, 0x0142), (0x015A, 0x015B), (0x016A, 0x016B), (0x00DC, 0x00FC), (0x017B, 0x017C), (0x017D, 0x017E), (0x02D9, 0x02D9)]]"

definition KOI8R_CASE :: "(rchar \<times> rchar) list" where
  "KOI8R_CASE = concat [
     [(0x2500, 0x2500), (0x2502, 0x2502), (0x250C, 0x250C), (0x2510, 0x2510), (0x2514, 0x2514), (0x2518, 0x2518), (0x251C, 0x251C), (0x2524, 0x2524)],
     [(0x252C, 0x252C), (0x2534, 0x2534), (0x253C, 0x253C), (0x2580, 0x2580), (0x2584, 0x2584), (0x2588, 0x2588), (0x258C, 0x258C), (0x2590, 0x2590)],
     [(0x2591, 0x2591), (0x2592, 0x2592), (0x2593, 0x2593), (0x2320, 0x2320), (0x25A0, 0x25A0), (0x2219, 0x2219), (0x221A, 0x221A), (0x2248, 0x2248)],
     [(0x2264, 0x2264), (0x2265, 0x2265), (0x00A0, 0x00A0), (0x2321, 0x2321), (0x00B0, 0x00B0), (0x00B2, 0x00B2), (0x00B7, 0x00B7), (0x00F7, 0x00F7)],
     [(0x2550, 0x2550), (0x2551, 0x2551), (0x2552, 0x2552), (0x0401, 0x0451), (0x2553, 0x2553), (0x2554, 0x2554), (0x2555, 0x2555), (0x2556, 0x2556)],
     [(0x2557, 0x2557), (0x2558, 0x2558), (0x2559, 0x2559), (0x255A, 0x255A), (0x255B, 0x255B), (0x255C, 0x255C), (0x255D, 0x255D), (0x255E, 0x255E)],
     [(0x255F, 0x255F), (0x2560, 0x2560), (0x2561, 0x2561), (0x0401, 0x0451), (0x2562, 0x2562), (0x2563, 0x2563), (0x2564, 0x2564), (0x2565, 0x2565)],
     [(0x2566, 0x2566), (0x2567, 0x2567), (0x2568, 0x2568), (0x2569, 0x2569), (0x256A, 0x256A), (0x256B, 0x256B), (0x256C, 0x256C), (0x00A9, 0x00A9)],
     [(0x042E, 0x044E), (0x0410, 0x0430), (0x0411, 0x0431), (0x0426, 0x0446), (0x0414, 0x0434), (0x0415, 0x0435), (0x0424, 0x0444), (0x0413, 0x0433)],
     [(0x0425, 0x0445), (0x0418, 0x0438), (0x0419, 0x0439), (0x041A, 0x043A), (0x041B, 0x043B), (0x041C, 0x043C), (0x041D, 0x043D), (0x041E, 0x043E)],
     [(0x041F, 0x043F), (0x042F, 0x044F), (0x0420, 0x0440), (0x0421, 0x0441), (0x0422, 0x0442), (0x0423, 0x0443), (0x0416, 0x0436), (0x0412, 0x0432)],
     [(0x042C, 0x044C), (0x042B, 0x044B), (0x0417, 0x0437), (0x0428, 0x0448), (0x042D, 0x044D), (0x0429, 0x0449), (0x0427, 0x0447), (0x042A, 0x044A)],
     [(0x042E, 0x044E), (0x0410, 0x0430), (0x0411, 0x0431), (0x0426, 0x0446), (0x0414, 0x0434), (0x0415, 0x0435), (0x0424, 0x0444), (0x0413, 0x0433)],
     [(0x0425, 0x0445), (0x0418, 0x0438), (0x0419, 0x0439), (0x041A, 0x043A), (0x041B, 0x043B), (0x041C, 0x043C), (0x041D, 0x043D), (0x041E, 0x043E)],
     [(0x041F, 0x043F), (0x042F, 0x044F), (0x0420, 0x0440), (0x0421, 0x0441), (0x0422, 0x0442), (0x0423, 0x0443), (0x0416, 0x0436), (0x0412, 0x0432)],
     [(0x042C, 0x044C), (0x042B, 0x044B), (0x0417, 0x0437), (0x0428, 0x0448), (0x042D, 0x044D), (0x0429, 0x0449), (0x0427, 0x0447), (0x042A, 0x044A)]]"

definition KOI8U_CASE :: "(rchar \<times> rchar) list" where
  "KOI8U_CASE = concat [
     [(0x2500, 0x2500), (0x2502, 0x2502), (0x250C, 0x250C), (0x2510, 0x2510), (0x2514, 0x2514), (0x2518, 0x2518), (0x251C, 0x251C), (0x2524, 0x2524)],
     [(0x252C, 0x252C), (0x2534, 0x2534), (0x253C, 0x253C), (0x2580, 0x2580), (0x2584, 0x2584), (0x2588, 0x2588), (0x258C, 0x258C), (0x2590, 0x2590)],
     [(0x2591, 0x2591), (0x2592, 0x2592), (0x2593, 0x2593), (0x2320, 0x2320), (0x25A0, 0x25A0), (0x2219, 0x2219), (0x221A, 0x221A), (0x2248, 0x2248)],
     [(0x2264, 0x2264), (0x2265, 0x2265), (0x00A0, 0x00A0), (0x2321, 0x2321), (0x00B0, 0x00B0), (0x00B2, 0x00B2), (0x00B7, 0x00B7), (0x00F7, 0x00F7)],
     [(0x2550, 0x2550), (0x2551, 0x2551), (0x2552, 0x2552), (0x0401, 0x0451), (0x0404, 0x0454), (0x2554, 0x2554), (0x0406, 0x0456), (0x0407, 0x0457)],
     [(0x2557, 0x2557), (0x2558, 0x2558), (0x2559, 0x2559), (0x255A, 0x255A), (0x255B, 0x255B), (0x0490, 0x0491), (0x040E, 0x045E), (0x255E, 0x255E)],
     [(0x255F, 0x255F), (0x2560, 0x2560), (0x2561, 0x2561), (0x0401, 0x0451), (0x0404, 0x0454), (0x2563, 0x2563), (0x0406, 0x0456), (0x0407, 0x0457)],
     [(0x2566, 0x2566), (0x2567, 0x2567), (0x2568, 0x2568), (0x2569, 0x2569), (0x256A, 0x256A), (0x0490, 0x0491), (0x040E, 0x045E), (0x00A9, 0x00A9)],
     [(0x042E, 0x044E), (0x0410, 0x0430), (0x0411, 0x0431), (0x0426, 0x0446), (0x0414, 0x0434), (0x0415, 0x0435), (0x0424, 0x0444), (0x0413, 0x0433)],
     [(0x0425, 0x0445), (0x0418, 0x0438), (0x0419, 0x0439), (0x041A, 0x043A), (0x041B, 0x043B), (0x041C, 0x043C), (0x041D, 0x043D), (0x041E, 0x043E)],
     [(0x041F, 0x043F), (0x042F, 0x044F), (0x0420, 0x0440), (0x0421, 0x0441), (0x0422, 0x0442), (0x0423, 0x0443), (0x0416, 0x0436), (0x0412, 0x0432)],
     [(0x042C, 0x044C), (0x042B, 0x044B), (0x0417, 0x0437), (0x0428, 0x0448), (0x042D, 0x044D), (0x0429, 0x0449), (0x0427, 0x0447), (0x042A, 0x044A)],
     [(0x042E, 0x044E), (0x0410, 0x0430), (0x0411, 0x0431), (0x0426, 0x0446), (0x0414, 0x0434), (0x0415, 0x0435), (0x0424, 0x0444), (0x0413, 0x0433)],
     [(0x0425, 0x0445), (0x0418, 0x0438), (0x0419, 0x0439), (0x041A, 0x043A), (0x041B, 0x043B), (0x041C, 0x043C), (0x041D, 0x043D), (0x041E, 0x043E)],
     [(0x041F, 0x043F), (0x042F, 0x044F), (0x0420, 0x0440), (0x0421, 0x0441), (0x0422, 0x0442), (0x0423, 0x0443), (0x0416, 0x0436), (0x0412, 0x0432)],
     [(0x042C, 0x044C), (0x042B, 0x044B), (0x0417, 0x0437), (0x0428, 0x0448), (0x042D, 0x044D), (0x0429, 0x0449), (0x0427, 0x0447), (0x042A, 0x044A)]]"

definition WIN1258_CASE :: "(rchar \<times> rchar) list" where
  "WIN1258_CASE = concat [
     [(CASE_ERR, CASE_ERR), (0x0081, 0x0081), (CASE_ERR, CASE_ERR), (CASE_ERR, 0x0192), (CASE_ERR, CASE_ERR), (CASE_ERR, CASE_ERR), (CASE_ERR, CASE_ERR), (CASE_ERR, CASE_ERR)],
     [(0x02C6, 0x02C6), (CASE_ERR, CASE_ERR), (0x008A, 0x008A), (CASE_ERR, CASE_ERR), (0x0152, 0x0153), (0x008D, 0x008D), (0x008E, 0x008E), (0x008F, 0x008F)],
     [(0x0090, 0x0090), (CASE_ERR, CASE_ERR), (CASE_ERR, CASE_ERR), (CASE_ERR, CASE_ERR), (CASE_ERR, CASE_ERR), (CASE_ERR, CASE_ERR), (CASE_ERR, CASE_ERR), (CASE_ERR, CASE_ERR)],
     [(0x02DC, 0x02DC), (0x2022, 0x2022), (0x009A, 0x009A), (CASE_ERR, CASE_ERR), (0x0152, 0x0153), (0x009D, 0x009D), (0x009E, 0x009E), (0x0178, 0x00FF)],
     [(0x00A0, 0x00A0), (0x00A1, 0x00A1), (0x00A2, 0x00A2), (0x00A3, 0x00A3), (0x00A4, 0x00A4), (0x00A5, 0x00A5), (0x00A6, 0x00A6), (0x00A7, 0x00A7)],
     [(0x00A8, 0x00A8), (0x00A9, 0x00A9), (0x00AA, 0x00AA), (0x00AB, 0x00AB), (0x00AC, 0x00AC), (0x00AD, 0x00AD), (0x00AE, 0x00AE), (0x00AF, 0x00AF)],
     [(0x00B0, 0x00B0), (0x00B1, 0x00B1), (0x00B2, 0x00B2), (0x00B3, 0x00B3), (0x00B4, 0x00B4), (0x00B5, 0x00B5), (0x00B6, 0x00B6), (0x00B7, 0x00B7)],
     [(0x00B8, 0x00B8), (0x00B9, 0x00B9), (0x00BA, 0x00BA), (0x00BB, 0x00BB), (0x00BC, 0x00BC), (0x00BD, 0x00BD), (0x00BE, 0x00BE), (0x00BF, 0x00BF)],
     [(0x00C0, 0x00E0), (0x00C1, 0x00E1), (0x00C2, 0x00E2), (0x0102, 0x0103), (0x00C4, 0x00E4), (0x00C5, 0x00E5), (0x00C6, 0x00E6), (0x00C7, 0x00E7)],
     [(0x00C8, 0x00E8), (0x00C9, 0x00E9), (0x00CA, 0x00EA), (0x00CB, 0x00EB), (0x0300, 0x0300), (0x00CD, 0x00ED), (0x00CE, 0x00EE), (0x00CF, 0x00EF)],
     [(0x0110, 0x0111), (0x00D1, 0x00F1), (0x0309, 0x0309), (0x00D3, 0x00F3), (0x00D4, 0x00F4), (0x01A0, 0x01A1), (0x00D6, 0x00F6), (0x00D7, 0x00D7)],
     [(0x00D8, 0x00F8), (0x00D9, 0x00F9), (0x00DA, 0x00FA), (0x00DB, 0x00FB), (0x00DC, 0x00FC), (0x01AF, 0x01B0), (0x0303, 0x0303), (0x00DF, 0x00DF)],
     [(0x00C0, 0x00E0), (0x00C1, 0x00E1), (0x00C2, 0x00E2), (0x0102, 0x0103), (0x00C4, 0x00E4), (0x00C5, 0x00E5), (0x00C6, 0x00E6), (0x00C7, 0x00E7)],
     [(0x00C8, 0x00E8), (0x00C9, 0x00E9), (0x00CA, 0x00EA), (0x00CB, 0x00EB), (0x0301, 0x0301), (0x00CD, 0x00ED), (0x00CE, 0x00EE), (0x00CF, 0x00EF)],
     [(0x0110, 0x0111), (0x00D1, 0x00F1), (0x0323, 0x0323), (0x00D3, 0x00F3), (0x00D4, 0x00F4), (0x01A0, 0x01A1), (0x00D6, 0x00F6), (0x00F7, 0x00F7)],
     [(0x00D8, 0x00F8), (0x00D9, 0x00F9), (0x00DA, 0x00FA), (0x00DB, 0x00FB), (0x00DC, 0x00FC), (0x01AF, 0x01B0), (CASE_ERR, CASE_ERR), (0x0178, 0x00FF)]]"

definition TIS620_CASE :: "(rchar \<times> rchar) list" where
  "TIS620_CASE = concat [
     [(0x20AC, 0x20AC), (0x0081, 0x0081), (0x0082, 0x0082), (0x0083, 0x0083), (0x0084, 0x0084), (0x2026, 0x2026), (0x0086, 0x0086), (0x0087, 0x0087)],
     [(0x0088, 0x0088), (0x0089, 0x0089), (0x008A, 0x008A), (0x008B, 0x008B), (0x008C, 0x008C), (0x008D, 0x008D), (0x008E, 0x008E), (0x008F, 0x008F)],
     [(0x0090, 0x0090), (0x2018, 0x2018), (0x2019, 0x2019), (0x201C, 0x201C), (0x201D, 0x201D), (0x2022, 0x2022), (0x2013, 0x2013), (0x2014, 0x2014)],
     [(0x0098, 0x0098), (0x0099, 0x0099), (0x009A, 0x009A), (0x009B, 0x009B), (0x009C, 0x009C), (0x009D, 0x009D), (0x009E, 0x009E), (0x009F, 0x009F)],
     [(0x00A0, 0x00A0), (0x0E01, 0x0E01), (0x0E02, 0x0E02), (0x0E03, 0x0E03), (0x0E04, 0x0E04), (0x0E05, 0x0E05), (0x0E06, 0x0E06), (0x0E07, 0x0E07)],
     [(0x0E08, 0x0E08), (0x0E09, 0x0E09), (0x0E0A, 0x0E0A), (0x0E0B, 0x0E0B), (0x0E0C, 0x0E0C), (0x0E0D, 0x0E0D), (0x0E0E, 0x0E0E), (0x0E0F, 0x0E0F)],
     [(0x0E10, 0x0E10), (0x0E11, 0x0E11), (0x0E12, 0x0E12), (0x0E13, 0x0E13), (0x0E14, 0x0E14), (0x0E15, 0x0E15), (0x0E16, 0x0E16), (0x0E17, 0x0E17)],
     [(0x0E18, 0x0E18), (0x0E19, 0x0E19), (0x0E1A, 0x0E1A), (0x0E1B, 0x0E1B), (0x0E1C, 0x0E1C), (0x0E1D, 0x0E1D), (0x0E1E, 0x0E1E), (0x0E1F, 0x0E1F)],
     [(0x0E20, 0x0E20), (0x0E21, 0x0E21), (0x0E22, 0x0E22), (0x0E23, 0x0E23), (0x0E24, 0x0E24), (0x0E25, 0x0E25), (0x0E26, 0x0E26), (0x0E27, 0x0E27)],
     [(0x0E28, 0x0E28), (0x0E29, 0x0E29), (0x0E2A, 0x0E2A), (0x0E2B, 0x0E2B), (0x0E2C, 0x0E2C), (0x0E2D, 0x0E2D), (0x0E2E, 0x0E2E), (0x0E2F, 0x0E2F)],
     [(0x0E30, 0x0E30), (0x0E31, 0x0E31), (0x0E32, 0x0E32), (0x0E33, 0x0E33), (0x0E34, 0x0E34), (0x0E35, 0x0E35), (0x0E36, 0x0E36), (0x0E37, 0x0E37)],
     [(0x0E38, 0x0E38), (0x0E39, 0x0E39), (0x0E3A, 0x0E3A), (0xF8C1, 0xF8C1), (0xF8C2, 0xF8C2), (0xF8C3, 0xF8C3), (0xF8C4, 0xF8C4), (0x0E3F, 0x0E3F)],
     [(0x0E40, 0x0E40), (0x0E41, 0x0E41), (0x0E42, 0x0E42), (0x0E43, 0x0E43), (0x0E44, 0x0E44), (0x0E45, 0x0E45), (0x0E46, 0x0E46), (0x0E47, 0x0E47)],
     [(0x0E48, 0x0E48), (0x0E49, 0x0E49), (0x0E4A, 0x0E4A), (0x0E4B, 0x0E4B), (0x0E4C, 0x0E4C), (0x0E4D, 0x0E4D), (0x0E4E, 0x0E4E), (0x0E4F, 0x0E4F)],
     [(0x0E50, 0x0E50), (0x0E51, 0x0E51), (0x0E52, 0x0E52), (0x0E53, 0x0E53), (0x0E54, 0x0E54), (0x0E55, 0x0E55), (0x0E56, 0x0E56), (0x0E57, 0x0E57)],
     [(0x0E58, 0x0E58), (0x0E59, 0x0E59), (0x0E5A, 0x0E5A), (0x0E5B, 0x0E5B), (0xF8C5, 0xF8C5), (0xF8C6, 0xF8C6), (0xF8C7, 0xF8C7), (0xF8C8, 0xF8C8)]]"

end
