(* ===== verification/Intl.thy ===== *)
theory Intl
  imports Intl_Cases
begin

unbundle bit_operations_syntax

text \<open>
  Character sets (\<^verbatim>\<open>intl.rs\<close>): the set of a text descriptor, widths in bytes and characters, the tabled
  single-byte sets in both directions, the byte carrier of the sets without characters, the case
  mapping by a set's own table. The Unicode case mapping \<^verbatim>\<open>simple_case\<close> rests on the tables of the Rust
  standard library and is left out.
\<close>

subsection \<open>The set of a descriptor\<close>

definition CS_OCTETS :: byte where "CS_OCTETS = 1"
definition CS_NONE :: byte where "CS_NONE = 0"
definition CS_UTF8 :: byte where "CS_UTF8 = 4"
definition CS_ISO8859_1 :: byte where "CS_ISO8859_1 = 21"
definition CS_WIN1252 :: byte where "CS_WIN1252 = 53"
definition CS_ISO8859_2 :: byte where "CS_ISO8859_2 = 22"
definition CS_WIN1250 :: byte where "CS_WIN1250 = 51"
definition CS_WIN1251 :: byte where "CS_WIN1251 = 52"
definition CS_ASCII :: byte where "CS_ASCII = 2"
definition CS_DOS737 :: byte where "CS_DOS737 = 9"
definition CS_DOS437 :: byte where "CS_DOS437 = 10"
definition CS_DOS850 :: byte where "CS_DOS850 = 11"
definition CS_DOS865 :: byte where "CS_DOS865 = 12"
definition CS_DOS860 :: byte where "CS_DOS860 = 13"
definition CS_DOS863 :: byte where "CS_DOS863 = 14"
definition CS_DOS775 :: byte where "CS_DOS775 = 15"
definition CS_DOS858 :: byte where "CS_DOS858 = 16"
definition CS_DOS862 :: byte where "CS_DOS862 = 17"
definition CS_DOS864 :: byte where "CS_DOS864 = 18"
definition CS_NEXT :: byte where "CS_NEXT = 19"
definition CS_ISO8859_3 :: byte where "CS_ISO8859_3 = 23"
definition CS_ISO8859_4 :: byte where "CS_ISO8859_4 = 34"
definition CS_ISO8859_5 :: byte where "CS_ISO8859_5 = 35"
definition CS_ISO8859_6 :: byte where "CS_ISO8859_6 = 36"
definition CS_ISO8859_7 :: byte where "CS_ISO8859_7 = 37"
definition CS_ISO8859_8 :: byte where "CS_ISO8859_8 = 38"
definition CS_ISO8859_9 :: byte where "CS_ISO8859_9 = 39"
definition CS_ISO8859_13 :: byte where "CS_ISO8859_13 = 40"
definition CS_DOS852 :: byte where "CS_DOS852 = 45"
definition CS_DOS857 :: byte where "CS_DOS857 = 46"
definition CS_DOS861 :: byte where "CS_DOS861 = 47"
definition CS_DOS866 :: byte where "CS_DOS866 = 48"
definition CS_DOS869 :: byte where "CS_DOS869 = 49"
definition CS_CYRL :: byte where "CS_CYRL = 50"
definition CS_WIN1253 :: byte where "CS_WIN1253 = 54"
definition CS_WIN1254 :: byte where "CS_WIN1254 = 55"
definition CS_WIN1255 :: byte where "CS_WIN1255 = 58"
definition CS_WIN1256 :: byte where "CS_WIN1256 = 59"
definition CS_WIN1257 :: byte where "CS_WIN1257 = 60"
definition CS_KOI8R :: byte where "CS_KOI8R = 63"
definition CS_KOI8U :: byte where "CS_KOI8U = 64"
definition CS_WIN1258 :: byte where "CS_WIN1258 = 65"
definition CS_TIS620 :: byte where "CS_TIS620 = 66"

lemmas charset_ids = CS_OCTETS_def CS_NONE_def CS_UTF8_def CS_ISO8859_1_def CS_WIN1252_def CS_ISO8859_2_def CS_WIN1250_def CS_WIN1251_def CS_ASCII_def CS_DOS737_def CS_DOS437_def CS_DOS850_def CS_DOS865_def CS_DOS860_def CS_DOS863_def CS_DOS775_def CS_DOS858_def CS_DOS862_def CS_DOS864_def CS_NEXT_def CS_ISO8859_3_def CS_ISO8859_4_def CS_ISO8859_5_def CS_ISO8859_6_def CS_ISO8859_7_def CS_ISO8859_8_def CS_ISO8859_9_def CS_ISO8859_13_def CS_DOS852_def CS_DOS857_def CS_DOS861_def CS_DOS866_def CS_DOS869_def CS_CYRL_def CS_WIN1253_def CS_WIN1254_def CS_WIN1255_def CS_WIN1256_def CS_WIN1257_def CS_KOI8R_def CS_KOI8U_def CS_WIN1258_def CS_TIS620_def

definition charset_id :: "u16 \<Rightarrow> byte" where
  "charset_id sub_type = ucast (sub_type AND 0xFF)"

definition collation_id :: "u16 \<Rightarrow> byte" where
  "collation_id sub_type = ucast (drop_bit 8 sub_type AND 0xFF)"

definition bytes_per_char :: "byte \<Rightarrow> nat" where
  "bytes_per_char charset =
     (if charset = 3 then 3 else if charset = 4 \<or> charset = 69 then 4
      else if charset \<in> {5, 6, 44, 56, 57, 67, 68} then 2 else 1)"

text \<open>\<^verbatim>\<open>dtype::VARYING\<close> is 3; its length counts the count word.\<close>

definition char_length :: "byte \<Rightarrow> u16 \<Rightarrow> u16 \<Rightarrow> nat" where
  "char_length dtype len sub_type =
     (if dtype = 3 then unat len - 2 else unat len) div bytes_per_char (charset_id sub_type)"

definition fit_char :: "rstring \<Rightarrow> nat \<Rightarrow> rstring" where
  "fit_char s char_len = take char_len s @ replicate (char_len - length s) 32"

subsection \<open>The tabled sets\<close>

definition high_tables :: "(byte \<times> rchar list) list" where
  "high_tables = [
     (CS_WIN1250, WIN1250_HIGH), (CS_WIN1251, WIN1251_HIGH), (CS_ISO8859_2, ISO8859_2_HIGH),
     (CS_DOS737, DOS737_HIGH), (CS_DOS437, DOS437_HIGH), (CS_DOS850, DOS850_HIGH),
     (CS_DOS865, DOS865_HIGH), (CS_DOS860, DOS860_HIGH), (CS_DOS863, DOS863_HIGH),
     (CS_DOS775, DOS775_HIGH), (CS_DOS858, DOS858_HIGH), (CS_DOS862, DOS862_HIGH),
     (CS_DOS864, DOS864_HIGH), (CS_NEXT, NEXT_HIGH), (CS_ISO8859_3, ISO8859_3_HIGH),
     (CS_ISO8859_4, ISO8859_4_HIGH), (CS_ISO8859_5, ISO8859_5_HIGH), (CS_ISO8859_6, ISO8859_6_HIGH),
     (CS_ISO8859_7, ISO8859_7_HIGH), (CS_ISO8859_8, ISO8859_8_HIGH), (CS_ISO8859_9, ISO8859_9_HIGH),
     (CS_ISO8859_13, ISO8859_13_HIGH), (CS_DOS852, DOS852_HIGH), (CS_DOS857, DOS857_HIGH),
     (CS_DOS861, DOS861_HIGH), (CS_DOS866, DOS866_HIGH), (CS_DOS869, DOS869_HIGH),
     (CS_CYRL, CYRL_HIGH), (CS_WIN1253, WIN1253_HIGH), (CS_WIN1254, WIN1254_HIGH),
     (CS_WIN1255, WIN1255_HIGH), (CS_WIN1256, WIN1256_HIGH), (CS_WIN1257, WIN1257_HIGH),
     (CS_KOI8R, KOI8R_HIGH), (CS_KOI8U, KOI8U_HIGH), (CS_WIN1258, WIN1258_HIGH),
     (CS_TIS620, TIS620_HIGH)]"

definition high_table :: "byte \<Rightarrow> rchar list option" where
  "high_table charset = map_of high_tables charset"

definition byte_char :: "byte \<Rightarrow> rchar" where
  "byte_char b = uint b"

definition single_byte_char :: "byte \<Rightarrow> byte \<Rightarrow> rchar option" where
  "single_byte_char charset b =
     (if charset = CS_ISO8859_1 then Some (byte_char b)
      else if charset = CS_WIN1252 then
        Some (if 0x80 \<le> b \<and> b \<le> 0x9F then WIN1252_HIGH ! unat (b - 0x80) else byte_char b)
      else (case high_table charset of
              Some t \<Rightarrow> Some (if 0x80 \<le> b then t ! unat (b - 0x80) else byte_char b)
            | None \<Rightarrow> None))"

text \<open>The position of a character in the upper half, as its byte.\<close>

definition high_byte :: "rchar list \<Rightarrow> rchar \<Rightarrow> unit + byte option" where
  "high_byte t c = (case rs_position (\<lambda>h. h = c) t of Some i \<Rightarrow> Inr (Some (0x80 + of_nat i)) | None \<Rightarrow> Inl ())"

definition single_byte_of :: "byte \<Rightarrow> rchar \<Rightarrow> unit + byte option" where
  "single_byte_of charset c =
     (if charset = CS_ISO8859_1 then (if c \<le> 0xFF then Inr (Some (of_int c)) else Inl ())
      else if charset = CS_WIN1252 then
        (if (0x80 \<le> c \<and> c \<le> 0x9F) \<or> 0xFF < c then high_byte WIN1252_HIGH c else Inr (Some (of_int c)))
      else (case high_table charset of
              Some t \<Rightarrow> if c < 0x80 then Inr (Some (of_int c)) else high_byte t c
            | None \<Rightarrow> Inr None))"

definition tabled :: "byte \<Rightarrow> bool" where
  "tabled charset \<longleftrightarrow>
     charset \<in> {CS_ISO8859_1, CS_WIN1252, CS_ISO8859_2, CS_WIN1250, CS_WIN1251} \<or> high_table charset \<noteq> None"

definition decode_text :: "byte \<Rightarrow> byte list \<Rightarrow> rstring option" where
  "decode_text charset bytes =
     (if tabled charset then Some (map (\<lambda>b. the (single_byte_char charset b)) bytes) else None)"

text \<open>The loop of \<^verbatim>\<open>encode_text\<close>: the first character without an image is the error.\<close>

fun encode_chars :: "byte \<Rightarrow> rstring \<Rightarrow> rchar + byte list" where
  "encode_chars charset [] = Inr []"
| "encode_chars charset (c # s) =
     (case single_byte_of charset c of
        Inl _ \<Rightarrow> Inl c
      | Inr b \<Rightarrow> (case encode_chars charset s of Inl e \<Rightarrow> Inl e | Inr bs \<Rightarrow> Inr (the b # bs)))"

definition encode_text :: "byte \<Rightarrow> rstring \<Rightarrow> rchar + byte list option" where
  "encode_text charset s =
     (if tabled charset then (case encode_chars charset s of Inl e \<Rightarrow> Inl e | Inr bs \<Rightarrow> Inr (Some bs)) else Inr None)"

definition tabled_name :: "byte \<Rightarrow> string option" where
  "tabled_name charset = map_of [
     (CS_DOS737, ''DOS737''), (CS_DOS437, ''DOS437''), (CS_DOS850, ''DOS850''), (CS_DOS865, ''DOS865''),
     (CS_DOS860, ''DOS860''), (CS_DOS863, ''DOS863''), (CS_DOS775, ''DOS775''), (CS_DOS858, ''DOS858''),
     (CS_DOS862, ''DOS862''), (CS_DOS864, ''DOS864''), (CS_NEXT, ''NEXT''), (CS_ISO8859_3, ''ISO8859_3''),
     (CS_ISO8859_4, ''ISO8859_4''), (CS_ISO8859_5, ''ISO8859_5''), (CS_ISO8859_6, ''ISO8859_6''), (CS_ISO8859_7, ''ISO8859_7''),
     (CS_ISO8859_8, ''ISO8859_8''), (CS_ISO8859_9, ''ISO8859_9''), (CS_ISO8859_13, ''ISO8859_13''), (CS_DOS852, ''DOS852''),
     (CS_DOS857, ''DOS857''), (CS_DOS861, ''DOS861''), (CS_DOS866, ''DOS866''), (CS_DOS869, ''DOS869''),
     (CS_CYRL, ''CYRL''), (CS_WIN1253, ''WIN1253''), (CS_WIN1254, ''WIN1254''), (CS_WIN1255, ''WIN1255''),
     (CS_WIN1256, ''WIN1256''), (CS_WIN1257, ''WIN1257''), (CS_KOI8R, ''KOI8R''), (CS_KOI8U, ''KOI8U''),
     (CS_WIN1258, ''WIN1258''), (CS_TIS620, ''TIS620'')] charset"

subsection \<open>The byte carrier\<close>

definition byte_carrier :: "byte \<Rightarrow> bool" where
  "byte_carrier charset \<longleftrightarrow> charset = CS_NONE \<or> charset = CS_OCTETS \<or> charset = CS_ASCII"

definition pad_byte :: "byte \<Rightarrow> byte" where
  "pad_byte charset = (if charset = CS_OCTETS then 0 else 32)"

definition carrier_decode :: "byte list \<Rightarrow> rstring" where
  "carrier_decode bytes = map byte_char bytes"

definition carrier_encode :: "rstring \<Rightarrow> byte list option" where
  "carrier_encode s = those (map (\<lambda>c. if c \<le> 0xFF then Some (of_int c) else None) s)"

subsection \<open>Case\<close>

definition case_tables :: "(byte \<times> (rchar \<times> rchar) list) list" where
  "case_tables = [
     (CS_WIN1250, WIN1250_CASE), (CS_WIN1251, WIN1251_CASE), (CS_WIN1252, WIN1252_CASE),
     (CS_ISO8859_1, ISO8859_1_CASE), (CS_ISO8859_2, ISO8859_2_CASE), (CS_DOS737, DOS737_CASE),
     (CS_DOS437, DOS437_CASE), (CS_DOS850, DOS850_CASE), (CS_DOS865, DOS865_CASE),
     (CS_DOS860, DOS860_CASE), (CS_DOS863, DOS863_CASE), (CS_DOS775, DOS775_CASE),
     (CS_DOS858, DOS858_CASE), (CS_DOS862, DOS862_CASE), (CS_DOS864, DOS864_CASE),
     (CS_NEXT, NEXT_CASE), (CS_ISO8859_3, ISO8859_3_CASE), (CS_ISO8859_4, ISO8859_4_CASE),
     (CS_ISO8859_5, ISO8859_5_CASE), (CS_ISO8859_6, ISO8859_6_CASE), (CS_ISO8859_7, ISO8859_7_CASE),
     (CS_ISO8859_8, ISO8859_8_CASE), (CS_ISO8859_9, ISO8859_9_CASE), (CS_ISO8859_13, ISO8859_13_CASE),
     (CS_DOS852, DOS852_CASE), (CS_DOS857, DOS857_CASE), (CS_DOS861, DOS861_CASE),
     (CS_DOS866, DOS866_CASE), (CS_DOS869, DOS869_CASE), (CS_CYRL, CYRL_CASE),
     (CS_WIN1253, WIN1253_CASE), (CS_WIN1254, WIN1254_CASE), (CS_WIN1255, WIN1255_CASE),
     (CS_WIN1256, WIN1256_CASE), (CS_WIN1257, WIN1257_CASE), (CS_KOI8R, KOI8R_CASE),
     (CS_KOI8U, KOI8U_CASE), (CS_WIN1258, WIN1258_CASE), (CS_TIS620, TIS620_CASE)]"

definition case_table :: "byte \<Rightarrow> (rchar \<times> rchar) list option" where
  "case_table charset = map_of case_tables charset"

definition ascii_case :: "bool \<Rightarrow> rchar \<Rightarrow> rchar" where
  "ascii_case upper c =
     (if upper then (if 97 \<le> c \<and> c \<le> 122 then c - 32 else c) else (if 65 \<le> c \<and> c \<le> 90 then c + 32 else c))"

definition case_char :: "byte \<Rightarrow> rchar \<Rightarrow> bool \<Rightarrow> (unit + rchar) option" where
  "case_char charset c upper =
     (case case_table charset of
        None \<Rightarrow> None
      | Some t \<Rightarrow>
          if c < 0x80 then Some (Inr (ascii_case upper c))
          else (case single_byte_of charset c of
                  Inr (Some b) \<Rightarrow>
                    if 0x80 \<le> b then
                      (let p = t ! unat (b - 0x80); m = (if upper then fst p else snd p) in
                       Some (if m = CASE_ERR then Inl () else Inr m))
                    else Some (Inr c)
                | _ \<Rightarrow> Some (Inr c)))"

end
