(* ===== verification/Intl_Properties.thy ===== *)
theory Intl_Properties
  imports Intl
begin

text \<open>
  The tabled character sets are bijections between their 256 bytes and the characters they hold: what
  is decoded encodes back to the same bytes, and what encodes decodes back to the same text. The case
  mapping of a set never leaves the set.
\<close>

subsection \<open>The tables\<close>

definition table_ok :: "rchar list \<Rightarrow> bool" where
  "table_ok t \<longleftrightarrow> length t = 128 \<and> distinct t \<and> list_all (\<lambda>c. 0x80 \<le> c) t"

lemma tables_0_ok:
  "table_ok WIN1250_HIGH" "table_ok WIN1251_HIGH" "table_ok ISO8859_2_HIGH" "table_ok DOS737_HIGH"
  unfolding table_ok_def WIN1250_HIGH_def WIN1251_HIGH_def ISO8859_2_HIGH_def DOS737_HIGH_def by simp_all

lemma tables_1_ok:
  "table_ok DOS437_HIGH" "table_ok DOS850_HIGH" "table_ok DOS865_HIGH" "table_ok DOS860_HIGH"
  unfolding table_ok_def DOS437_HIGH_def DOS850_HIGH_def DOS865_HIGH_def DOS860_HIGH_def by simp_all

lemma tables_2_ok:
  "table_ok DOS863_HIGH" "table_ok DOS775_HIGH" "table_ok DOS858_HIGH" "table_ok DOS862_HIGH"
  unfolding table_ok_def DOS863_HIGH_def DOS775_HIGH_def DOS858_HIGH_def DOS862_HIGH_def by simp_all

lemma tables_3_ok:
  "table_ok DOS864_HIGH" "table_ok NEXT_HIGH" "table_ok ISO8859_3_HIGH" "table_ok ISO8859_4_HIGH"
  unfolding table_ok_def DOS864_HIGH_def NEXT_HIGH_def ISO8859_3_HIGH_def ISO8859_4_HIGH_def by simp_all

lemma tables_4_ok:
  "table_ok ISO8859_5_HIGH" "table_ok ISO8859_6_HIGH" "table_ok ISO8859_7_HIGH" "table_ok ISO8859_8_HIGH"
  unfolding table_ok_def ISO8859_5_HIGH_def ISO8859_6_HIGH_def ISO8859_7_HIGH_def ISO8859_8_HIGH_def by simp_all

lemma tables_5_ok:
  "table_ok ISO8859_9_HIGH" "table_ok ISO8859_13_HIGH" "table_ok DOS852_HIGH" "table_ok DOS857_HIGH"
  unfolding table_ok_def ISO8859_9_HIGH_def ISO8859_13_HIGH_def DOS852_HIGH_def DOS857_HIGH_def by simp_all

lemma tables_6_ok:
  "table_ok DOS861_HIGH" "table_ok DOS866_HIGH" "table_ok DOS869_HIGH" "table_ok CYRL_HIGH"
  unfolding table_ok_def DOS861_HIGH_def DOS866_HIGH_def DOS869_HIGH_def CYRL_HIGH_def by simp_all

lemma tables_7_ok:
  "table_ok WIN1253_HIGH" "table_ok WIN1254_HIGH" "table_ok WIN1255_HIGH" "table_ok WIN1256_HIGH"
  unfolding table_ok_def WIN1253_HIGH_def WIN1254_HIGH_def WIN1255_HIGH_def WIN1256_HIGH_def by simp_all

lemma tables_8_ok:
  "table_ok WIN1257_HIGH" "table_ok KOI8R_HIGH" "table_ok KOI8U_HIGH" "table_ok WIN1258_HIGH"
  unfolding table_ok_def WIN1257_HIGH_def KOI8R_HIGH_def KOI8U_HIGH_def WIN1258_HIGH_def by simp_all

lemma tables_9_ok:
  "table_ok TIS620_HIGH"
  unfolding table_ok_def TIS620_HIGH_def by simp_all

lemmas tables_ok = tables_0_ok tables_1_ok tables_2_ok tables_3_ok tables_4_ok tables_5_ok tables_6_ok tables_7_ok tables_8_ok tables_9_ok

lemma high_table_ok: "high_table charset = Some t \<Longrightarrow> table_ok t"
  unfolding high_table_def high_tables_def by (drule map_of_SomeD) (auto intro: tables_ok)

lemma win1252_ok:
  "length WIN1252_HIGH = 32" "distinct WIN1252_HIGH" "list_all (\<lambda>c. (0x80 \<le> c \<and> c \<le> 0x9F) \<or> 0xFF < c) WIN1252_HIGH"
  unfolding WIN1252_HIGH_def by code_simp+

subsection \<open>One byte, one character\<close>

lemma rs_position_nth: "distinct t \<Longrightarrow> i < length t \<Longrightarrow> rs_position (\<lambda>h. h = t ! i) t = Some i"
proof (induction t arbitrary: i)
  case (Cons x t)
  then show ?case by (cases i) auto
qed simp

lemma high_byte_nth:
  assumes "distinct t" "i < length t" "i < 128"
  shows "high_byte t (t ! i) = Inr (Some (0x80 + of_nat i))"
  using assms by (simp add: high_byte_def rs_position_nth)

lemma byte_from_high: "i < 128 \<Longrightarrow> unat (0x80 + of_nat i - 0x80 :: byte) = i" "i < 128 \<Longrightarrow> 0x80 \<le> (0x80 + of_nat i :: byte)"
proof -
  assume i: "i < 128"
  have u: "unat (0x80 + of_nat i :: byte) = 128 + i" using i by (simp add: unat_word_ariths unat_of_nat)
  then show "0x80 \<le> (0x80 + of_nat i :: byte)" by (simp add: word_le_nat_alt)
  show "unat (0x80 + of_nat i - 0x80 :: byte) = i" using i by (simp add: unat_of_nat)
qed

lemma high_from_byte: "0x80 \<le> b \<Longrightarrow> unat (b - 0x80) < 128 \<and> 0x80 + of_nat (unat (b - 0x80)) = (b :: byte)"
  using unat_byte_lt [of b] by (simp add: unat_sub word_le_nat_alt less_diff_conv2 del: unat_byte_lt)

lemma byte_char_back: "of_int (byte_char b) = b" "byte_char b < 0x100" "0 \<le> byte_char b" "byte_char b < 0x80 \<longleftrightarrow> b < 0x80"
  using uint_bounded [of b] by (simp_all add: byte_char_def word_less_def)

lemma char_of_byte: "0 \<le> c \<Longrightarrow> c < 0x100 \<Longrightarrow> byte_char (of_int c) = c"
  by (simp add: byte_char_def uint_word_of_int take_bit_eq_mod)

lemma high_byte_Inr:
  assumes "high_byte t c = Inr (Some b)" "length t \<le> 128"
  shows "0x80 \<le> b" "unat (b - 0x80) < length t" "t ! unat (b - 0x80) = c"
proof -
  obtain i where i: "rs_position (\<lambda>h. h = c) t = Some i" "b = 0x80 + of_nat i"
    using assms(1) by (auto simp: high_byte_def split: option.splits)
  note p = rs_position_Some [OF i(1)]
  have "i < 128" using p(1) assms(2) by simp
  then show "0x80 \<le> b" "unat (b - 0x80) < length t" "t ! unat (b - 0x80) = c"
    using byte_from_high [of i] p unfolding i(2) by simp_all
qed

lemma table_nth_high: "table_ok t \<Longrightarrow> i < 128 \<Longrightarrow> 0x80 \<le> t ! i"
  by (simp add: table_ok_def list_all_length)

lemma tabled_cases:
  assumes "tabled charset"
  obtains "charset = CS_ISO8859_1" | "charset = CS_WIN1252"
    | t where "charset \<noteq> CS_ISO8859_1" "charset \<noteq> CS_WIN1252" "high_table charset = Some t"
proof -
  have "high_table CS_ISO8859_2 = Some ISO8859_2_HIGH" "high_table CS_WIN1250 = Some WIN1250_HIGH" "high_table CS_WIN1251 = Some WIN1251_HIGH"
    by (simp_all add: high_table_def high_tables_def charset_ids)
  then have "charset = CS_ISO8859_1 \<or> charset = CS_WIN1252 \<or> high_table charset \<noteq> None"
    using assms unfolding tabled_def by auto
  then show thesis using that by blast
qed

text \<open>A byte of a tabled set is a character of the set, and encodes back.\<close>

lemma single_byte_there:
  assumes "tabled charset"
  shows "\<exists>c. single_byte_char charset b = Some c \<and> 0 \<le> c \<and> single_byte_of charset c = Inr (Some b)"
  using assms
proof (cases rule: tabled_cases)
    case 1
    then show ?thesis using byte_char_back [of b] by (simp add: single_byte_char_def single_byte_of_def)
  next
    case 2
    have ne: "CS_WIN1252 \<noteq> CS_ISO8859_1" by (simp add: charset_ids)
    show ?thesis
    proof (cases "0x80 \<le> b \<and> b \<le> 0x9F")
      case True
      define i where "i = unat (b - 0x80)"
      have i: "i < 32" "0x80 + of_nat i = b"
        using True high_from_byte [of b] unfolding i_def by (simp_all add: unat_sub word_le_nat_alt less_diff_conv2)
      have h: "(0x80 \<le> WIN1252_HIGH ! i \<and> WIN1252_HIGH ! i \<le> 0x9F) \<or> 0xFF < WIN1252_HIGH ! i"
        using win1252_ok i(1) by (simp add: list_all_length)
      moreover have "high_byte WIN1252_HIGH (WIN1252_HIGH ! i) = Inr (Some b)"
        using high_byte_nth [OF win1252_ok(2), of i] i win1252_ok(1) by simp
      moreover have "0 \<le> WIN1252_HIGH ! i" using h by auto
      ultimately show ?thesis using True ne 2 by (simp add: single_byte_char_def single_byte_of_def i_def)
    next
      case False
      have "\<not> (0x80 \<le> byte_char b \<and> byte_char b \<le> 0x9F)" using False by (auto simp: byte_char_def word_le_def)
      then show ?thesis using False ne 2 byte_char_back [of b] by (auto simp: single_byte_char_def single_byte_of_def)
    qed
  next
    case (3 t)
    note ok = high_table_ok [OF 3(3)]
    show ?thesis
    proof (cases "0x80 \<le> b")
      case True
      note i = high_from_byte [OF True]
      have "high_byte t (t ! unat (b - 0x80)) = Inr (Some b)"
        using high_byte_nth [of t "unat (b - 0x80)"] ok i by (simp add: table_ok_def)
      moreover have "0x80 \<le> t ! unat (b - 0x80)" using table_nth_high [OF ok] i by blast
      ultimately show ?thesis using True 3 by (simp add: single_byte_char_def single_byte_of_def)
    next
      case False
      then have "byte_char b < 0x80" using byte_char_back(4) [of b] by (simp add: not_le)
      then show ?thesis using False 3 byte_char_back(1,3) [of b] by (auto simp: single_byte_char_def single_byte_of_def)
    qed
qed

text \<open>A character that encodes is the character of its byte.\<close>

lemma single_byte_back:
  assumes "tabled charset" "0 \<le> c" "single_byte_of charset c = Inr (Some b)"
  shows "single_byte_char charset b = Some c"
  using assms(1)
proof (cases rule: tabled_cases)
    case 1
    then show ?thesis using assms(2,3) char_of_byte [of c]
      by (auto simp: single_byte_char_def single_byte_of_def split: if_splits)
  next
    case 2
    have ne: "CS_WIN1252 \<noteq> CS_ISO8859_1" by (simp add: charset_ids)
    show ?thesis
    proof (cases "(0x80 \<le> c \<and> c \<le> 0x9F) \<or> 0xFF < c")
      case True
      then have hb: "high_byte WIN1252_HIGH c = Inr (Some b)" using assms(3) 2 ne by (simp add: single_byte_of_def)
      have h: "0x80 \<le> b" "unat (b - 0x80) < 32" "WIN1252_HIGH ! unat (b - 0x80) = c"
        using high_byte_Inr [OF hb] by (simp_all add: win1252_ok(1))
      have "b \<le> 0x9F" using h(1,2) by (simp add: unat_sub word_le_nat_alt)
      then show ?thesis using h 2 ne by (simp add: single_byte_char_def)
    next
      case False
      then have b: "b = of_int c" using assms(3) 2 ne by (auto simp: single_byte_of_def split: if_splits)
      have c: "byte_char b = c" unfolding b using False assms(2) by (intro char_of_byte) auto
      then have "\<not> (0x80 \<le> b \<and> b \<le> 0x9F)" using False by (auto simp: byte_char_def word_le_def)
      then show ?thesis using c 2 ne by (auto simp: single_byte_char_def)
    qed
  next
    case (3 t)
    note ok = high_table_ok [OF 3(3)]
    show ?thesis
    proof (cases "c < 0x80")
      case True
      then have b: "b = of_int c" using assms(3) 3 by (simp add: single_byte_of_def)
      have c: "byte_char b = c" unfolding b using True assms(2) by (intro char_of_byte) auto
      then have "\<not> 0x80 \<le> b" using True byte_char_back(4) [of b] by (simp add: not_le)
      then show ?thesis using c 3 by (simp add: single_byte_char_def)
    next
      case False
      then have hb: "high_byte t c = Inr (Some b)" using assms(3) 3 by (simp add: single_byte_of_def)
      show ?thesis using high_byte_Inr [OF hb] ok 3 by (simp add: table_ok_def single_byte_char_def)
    qed
qed

subsection \<open>Whole texts\<close>

lemma encode_chars_decoded:
  assumes "tabled charset"
  shows "encode_chars charset (map (\<lambda>b. the (single_byte_char charset b)) bytes) = Inr bytes"
proof (induction bytes)
  case (Cons b bytes)
  obtain c where "single_byte_char charset b = Some c" "single_byte_of charset c = Inr (Some b)"
    using single_byte_there [OF assms] by blast
  then show ?case using Cons.IH by simp
qed simp

lemma single_byte_of_tabled: "tabled charset \<Longrightarrow> single_byte_of charset c \<noteq> Inr None"
  by (erule tabled_cases) (auto simp: single_byte_of_def high_byte_def split: option.splits)

lemma decode_encoded:
  assumes "tabled charset" "list_all (\<lambda>c. 0 \<le> c) s" "encode_chars charset s = Inr bytes"
  shows "map (\<lambda>b. the (single_byte_char charset b)) bytes = s"
  using assms(2,3)
proof (induction s arbitrary: bytes)
  case (Cons c s)
  obtain b bs where b: "single_byte_of charset c = Inr (Some b)" "encode_chars charset s = Inr bs" "bytes = b # bs"
    using Cons.prems(2) single_byte_of_tabled [OF assms(1), of c] by (auto split: sum.splits option.splits)
  then show ?case using single_byte_back [OF assms(1) _ b(1)] Cons by simp
qed simp

text \<open>C36: Every tabled character set is a bijection: any bytes decode to a text that encodes to the same bytes, and
  a text that encodes decodes to the same text, so nothing stored in such a column is lost on the way
  through the server.\<close>

theorem charset_bijection:
  assumes "tabled charset"
  shows "(\<exists>s. decode_text charset bytes = Some s \<and> encode_text charset s = Inr (Some bytes)) \<and>
    (list_all (\<lambda>c. 0 \<le> c) t \<longrightarrow> encode_text charset t = Inr (Some bs) \<longrightarrow> decode_text charset bs = Some t)"
  using assms encode_chars_decoded [OF assms, of bytes] decode_encoded [OF assms, of t bs]
  by (auto simp: decode_text_def encode_text_def split: sum.splits)

theorem charset_bijection_witness:
  "\<exists>s. decode_text CS_WIN1252 [0x80, 0x41, 0xE9] = Some s \<and> encode_text CS_WIN1252 s = Inr (Some [0x80, 0x41, 0xE9])"
  using charset_bijection [of CS_WIN1252 "[0x80, 0x41, 0xE9]"] by (simp add: tabled_def)

subsection \<open>Case stays in the set\<close>

definition case_ok :: "rchar list \<Rightarrow> rchar \<Rightarrow> rchar \<Rightarrow> bool" where
  "case_ok t h m \<longleftrightarrow> m = h \<or> (0 \<le> m \<and> m < 0x80) \<or> m = CASE_ERR \<or> m \<in> set t"

definition cases_ok :: "rchar list \<Rightarrow> (rchar \<times> rchar) list \<Rightarrow> bool" where
  "cases_ok t v \<longleftrightarrow> list_all2 (\<lambda>h p. case_ok t h (fst p) \<and> case_ok t h (snd p)) t v"

text \<open>The upper half of each cased set.\<close>

definition upper_half :: "byte \<Rightarrow> rchar list" where
  "upper_half charset = map (\<lambda>i. the (single_byte_char charset (0x80 + of_nat i))) [0..<128]"

lemma case_ok_image:
  fixes b :: byte
  assumes ok: "cases_ok (upper_half charset) v" "tabled charset" and b: "0x80 \<le> b" and m: "m = fst (v ! unat (b - 0x80)) \<or> m = snd (v ! unat (b - 0x80))"
    and e: "m \<noteq> CASE_ERR" and low: "\<And>c. 0 \<le> c \<Longrightarrow> c < 0x80 \<Longrightarrow> \<exists>b'. single_byte_of charset c = Inr (Some b')"
  shows "\<exists>b'. single_byte_of charset m = Inr (Some b')"
proof -
  note i = high_from_byte [OF b]
  have len: "length (upper_half charset) = 128" by (simp add: upper_half_def)
  have c: "upper_half charset ! i = the (single_byte_char charset (0x80 + of_nat i))" if "i < 128" for i
    using that by (simp add: upper_half_def)
  have "case_ok (upper_half charset) (upper_half charset ! unat (b - 0x80)) m"
    using ok(1) i m len by (auto simp: cases_ok_def list_all2_conv_all_nth)
  then consider "m = upper_half charset ! unat (b - 0x80)" | "0 \<le> m" "m < 0x80" | "m \<in> set (upper_half charset)"
    using e by (auto simp: case_ok_def)
  then show ?thesis
  proof cases
    case 1
    then show ?thesis using single_byte_there [OF ok(2), of b] c [of "unat (b - 0x80)"] i by auto
  next
    case 2
    then show ?thesis by (rule low)
  next
    case 3
    then obtain j where "j < 128" "m = upper_half charset ! j" using len by (metis in_set_conv_nth)
    then show ?thesis using single_byte_there [OF ok(2), of "0x80 + of_nat j"] c [of j] by auto
  qed
qed

lemma low_encodes:
  assumes "tabled charset" "0 \<le> c" "c < 0x80"
  shows "\<exists>b. single_byte_of charset c = Inr (Some b)"
  using assms(1) by (cases rule: tabled_cases) (use assms(2,3) in \<open>auto simp: single_byte_of_def charset_ids\<close>)

lemma upper_half_table:
  assumes "charset \<noteq> CS_ISO8859_1" "charset \<noteq> CS_WIN1252" "high_table charset = Some t"
  shows "upper_half charset = t"
proof (rule nth_equalityI)
  have len: "length t = 128" using high_table_ok [OF assms(3)] by (simp add: table_ok_def)
  then show "length (upper_half charset) = length t" by (simp add: upper_half_def)
  fix i assume "i < length (upper_half charset)"
  then have i: "i < 128" by (simp add: upper_half_def)
  then show "upper_half charset ! i = t ! i"
    using byte_from_high [OF i] assms by (simp add: upper_half_def single_byte_char_def)
qed

lemma cased_0_ok:
  "cases_ok WIN1250_HIGH WIN1250_CASE" "cases_ok WIN1251_HIGH WIN1251_CASE" "cases_ok ISO8859_2_HIGH ISO8859_2_CASE" "cases_ok DOS737_HIGH DOS737_CASE"
  unfolding cases_ok_def case_ok_def CASE_ERR_def WIN1250_CASE_def WIN1250_HIGH_def WIN1251_CASE_def WIN1251_HIGH_def ISO8859_2_CASE_def ISO8859_2_HIGH_def DOS737_CASE_def DOS737_HIGH_def
  by code_simp+

lemma cased_1_ok:
  "cases_ok DOS437_HIGH DOS437_CASE" "cases_ok DOS850_HIGH DOS850_CASE" "cases_ok DOS865_HIGH DOS865_CASE" "cases_ok DOS860_HIGH DOS860_CASE"
  unfolding cases_ok_def case_ok_def CASE_ERR_def DOS437_CASE_def DOS437_HIGH_def DOS850_CASE_def DOS850_HIGH_def DOS865_CASE_def DOS865_HIGH_def DOS860_CASE_def DOS860_HIGH_def
  by code_simp+

lemma cased_2_ok:
  "cases_ok DOS863_HIGH DOS863_CASE" "cases_ok DOS775_HIGH DOS775_CASE" "cases_ok DOS858_HIGH DOS858_CASE" "cases_ok DOS862_HIGH DOS862_CASE"
  unfolding cases_ok_def case_ok_def CASE_ERR_def DOS863_CASE_def DOS863_HIGH_def DOS775_CASE_def DOS775_HIGH_def DOS858_CASE_def DOS858_HIGH_def DOS862_CASE_def DOS862_HIGH_def
  by code_simp+

lemma cased_3_ok:
  "cases_ok DOS864_HIGH DOS864_CASE" "cases_ok NEXT_HIGH NEXT_CASE" "cases_ok ISO8859_3_HIGH ISO8859_3_CASE" "cases_ok ISO8859_4_HIGH ISO8859_4_CASE"
  unfolding cases_ok_def case_ok_def CASE_ERR_def DOS864_CASE_def DOS864_HIGH_def NEXT_CASE_def NEXT_HIGH_def ISO8859_3_CASE_def ISO8859_3_HIGH_def ISO8859_4_CASE_def ISO8859_4_HIGH_def
  by code_simp+

lemma cased_4_ok:
  "cases_ok ISO8859_5_HIGH ISO8859_5_CASE" "cases_ok ISO8859_6_HIGH ISO8859_6_CASE" "cases_ok ISO8859_7_HIGH ISO8859_7_CASE" "cases_ok ISO8859_8_HIGH ISO8859_8_CASE"
  unfolding cases_ok_def case_ok_def CASE_ERR_def ISO8859_5_CASE_def ISO8859_5_HIGH_def ISO8859_6_CASE_def ISO8859_6_HIGH_def ISO8859_7_CASE_def ISO8859_7_HIGH_def ISO8859_8_CASE_def ISO8859_8_HIGH_def
  by code_simp+

lemma cased_5_ok:
  "cases_ok ISO8859_9_HIGH ISO8859_9_CASE" "cases_ok ISO8859_13_HIGH ISO8859_13_CASE" "cases_ok DOS852_HIGH DOS852_CASE" "cases_ok DOS857_HIGH DOS857_CASE"
  unfolding cases_ok_def case_ok_def CASE_ERR_def ISO8859_9_CASE_def ISO8859_9_HIGH_def ISO8859_13_CASE_def ISO8859_13_HIGH_def DOS852_CASE_def DOS852_HIGH_def DOS857_CASE_def DOS857_HIGH_def
  by code_simp+

lemma cased_6_ok:
  "cases_ok DOS861_HIGH DOS861_CASE" "cases_ok DOS866_HIGH DOS866_CASE" "cases_ok DOS869_HIGH DOS869_CASE" "cases_ok CYRL_HIGH CYRL_CASE"
  unfolding cases_ok_def case_ok_def CASE_ERR_def DOS861_CASE_def DOS861_HIGH_def DOS866_CASE_def DOS866_HIGH_def DOS869_CASE_def DOS869_HIGH_def CYRL_CASE_def CYRL_HIGH_def
  by code_simp+

lemma cased_7_ok:
  "cases_ok WIN1253_HIGH WIN1253_CASE" "cases_ok WIN1254_HIGH WIN1254_CASE" "cases_ok WIN1255_HIGH WIN1255_CASE" "cases_ok WIN1256_HIGH WIN1256_CASE"
  unfolding cases_ok_def case_ok_def CASE_ERR_def WIN1253_CASE_def WIN1253_HIGH_def WIN1254_CASE_def WIN1254_HIGH_def WIN1255_CASE_def WIN1255_HIGH_def WIN1256_CASE_def WIN1256_HIGH_def
  by code_simp+

lemma cased_8_ok:
  "cases_ok WIN1257_HIGH WIN1257_CASE" "cases_ok KOI8R_HIGH KOI8R_CASE" "cases_ok KOI8U_HIGH KOI8U_CASE" "cases_ok WIN1258_HIGH WIN1258_CASE"
  unfolding cases_ok_def case_ok_def CASE_ERR_def WIN1257_CASE_def WIN1257_HIGH_def KOI8R_CASE_def KOI8R_HIGH_def KOI8U_CASE_def KOI8U_HIGH_def WIN1258_CASE_def WIN1258_HIGH_def
  by code_simp+

lemma cased_9_ok:
  "cases_ok TIS620_HIGH TIS620_CASE"
  unfolding cases_ok_def case_ok_def CASE_ERR_def TIS620_CASE_def TIS620_HIGH_def
  by code_simp+

lemmas cased_ok = cased_0_ok cased_1_ok cased_2_ok cased_3_ok cased_4_ok cased_5_ok cased_6_ok cased_7_ok cased_8_ok cased_9_ok

lemma cased_halves:
  "cases_ok (upper_half CS_ISO8859_1) ISO8859_1_CASE" "cases_ok (upper_half CS_WIN1252) WIN1252_CASE"
  unfolding ISO8859_1_CASE_def WIN1252_CASE_def WIN1252_HIGH_def by code_simp+

lemma case_table_ok:
  assumes "case_table charset = Some v"
  shows "tabled charset \<and> cases_ok (upper_half charset) v"
proof -
  have v: "(charset, v) \<in> set case_tables" using assms unfolding case_table_def by (rule map_of_SomeD)
  show ?thesis
  proof (cases "charset = CS_ISO8859_1 \<or> charset = CS_WIN1252")
    case True
    then have "charset = CS_ISO8859_1 \<and> v = ISO8859_1_CASE \<or> charset = CS_WIN1252 \<and> v = WIN1252_CASE"
      using assms by (auto simp: case_table_def case_tables_def charset_ids)
    then show ?thesis using cased_halves by (auto simp: tabled_def)
  next
    case False
    have "list_all (\<lambda>(cs, v). cs = CS_ISO8859_1 \<or> cs = CS_WIN1252 \<or> (\<exists>t. high_table cs = Some t \<and> cases_ok t v)) case_tables"
      unfolding case_tables_def by (simp add: high_table_def high_tables_def charset_ids cased_ok)
    then obtain t where t: "high_table charset = Some t" "cases_ok t v"
      using v False by (auto simp: list_all_iff)
    then show ?thesis using upper_half_table [of charset t] False by (simp add: tabled_def)
  qed
qed

text \<open>C37: Upper and lower case never leave the character set: a character of a cased set either has a cased character
  that the set can store again, or the mapping is refused.\<close>

theorem case_stays_in_set:
  assumes "single_byte_of charset c = Inr (Some b)" "0 \<le> c" "case_char charset c upper = Some (Inr m)"
  shows "\<exists>b'. single_byte_of charset m = Inr (Some b')"
proof -
  obtain v where v: "case_table charset = Some v" using assms(3) by (auto simp: case_char_def split: option.splits)
  note ok = case_table_ok [OF v]
  show ?thesis
  proof (cases "c < 0x80")
    case True
    then have m: "m = ascii_case upper c" using assms(3) v by (simp add: case_char_def)
    have "0 \<le> m" "m < 0x80" using True assms(2) unfolding m by (auto simp: ascii_case_def)
    then show ?thesis using low_encodes ok by blast
  next
    case False
    show ?thesis
    proof (cases "0x80 \<le> b")
      case True
      define m' where "m' = (if upper then fst (v ! unat (b - 0x80)) else snd (v ! unat (b - 0x80)))"
      have m: "m' \<noteq> CASE_ERR" "m = m'"
        using assms(1,3) v False True by (auto simp: case_char_def Let_def m'_def split: if_splits)
      show ?thesis unfolding m(2)
        by (rule case_ok_image [of charset v b]) (use ok True m(1) low_encodes in \<open>auto simp: m'_def\<close>)
    next
      case b: False
      then have "m = c" using assms(1,3) v False by (simp add: case_char_def)
      then show ?thesis using assms(1) by blast
    qed
  qed
qed

theorem case_stays_in_set_witness:
  "case_char CS_WIN1250 0x15F True = Some (Inr 0x15E) \<and> (\<exists>b. single_byte_of CS_WIN1250 0x15E = Inr (Some b))"
proof -
  have c: "case_char CS_WIN1250 0x15F True = Some (Inr 0x15E)" "single_byte_of CS_WIN1250 0x15F = Inr (Some 0xBA)"
    by code_simp+
  then show ?thesis using case_stays_in_set [OF c(2) _ c(1)] by simp
qed

end
