(* ===== verification/Utf.thy ===== *)
theory Utf
  imports Intl_Tables
begin

text \<open>
  UTF-8 as the Rust standard library has it: the bytes of a \<^verbatim>\<open>String\<close> (\<^verbatim>\<open>as_bytes\<close>) and
  \<^verbatim>\<open>String::from_utf8_lossy\<close>, which reads one replacement character for every maximal piece of an
  invalid sequence. What a string is written as reads back.
\<close>

definition utf8_char :: "rchar \<Rightarrow> byte list" where
  "utf8_char c =
     (if c < 0x80 then [of_int c]
      else if c < 0x800 then [of_int (0xC0 + c div 64), of_int (0x80 + c mod 64)]
      else if c < 0x10000 then [of_int (0xE0 + c div 4096), of_int (0x80 + c div 64 mod 64), of_int (0x80 + c mod 64)]
      else [of_int (0xF0 + c div 262144), of_int (0x80 + c div 4096 mod 64), of_int (0x80 + c div 64 mod 64), of_int (0x80 + c mod 64)])"

definition utf8 :: "rstring \<Rightarrow> byte list" where
  "utf8 s = concat (map utf8_char s)"

text \<open>A scalar value: no surrogate.\<close>

definition scalar :: "rchar \<Rightarrow> bool" where
  "scalar c \<longleftrightarrow> (0 \<le> c \<and> c < 0xD800) \<or> (0xE000 \<le> c \<and> c < 0x110000)"

definition REPLACEMENT :: rchar where "REPLACEMENT = 0xFFFD"

definition utf8_width :: "int \<Rightarrow> nat" where
  "utf8_width b =
     (if b < 0x80 then 1 else if 0xC2 \<le> b \<and> b \<le> 0xDF then 2 else if 0xE0 \<le> b \<and> b \<le> 0xEF then 3
      else if 0xF0 \<le> b \<and> b \<le> 0xF4 then 4 else 0)"

definition continuation :: "int \<Rightarrow> bool" where
  "continuation b \<longleftrightarrow> 0x80 \<le> b \<and> b \<le> 0xBF"

text \<open>The second byte a first byte of a three or four byte sequence allows.\<close>

definition second_ok :: "int \<Rightarrow> int \<Rightarrow> bool" where
  "second_ok b b2 \<longleftrightarrow>
     (if b = 0xE0 then 0xA0 \<le> b2 \<and> b2 \<le> 0xBF
      else if b = 0xED then 0x80 \<le> b2 \<and> b2 \<le> 0x9F
      else if b = 0xF0 then 0x90 \<le> b2 \<and> b2 \<le> 0xBF
      else if b = 0xF4 then 0x80 \<le> b2 \<and> b2 \<le> 0x8F
      else continuation b2)"

text \<open>The character at the head of the bytes and the number of bytes it takes; past the end \<^verbatim>\<open>safe_get\<close>
  answers 0.\<close>

definition safe_get :: "byte list \<Rightarrow> nat \<Rightarrow> int" where
  "safe_get bs i = (if i < length bs then uint (bs ! i) else 0)"

definition utf8_sequence :: "nat \<Rightarrow> int \<Rightarrow> int \<Rightarrow> int \<Rightarrow> int \<Rightarrow> rchar \<times> nat" where
  "utf8_sequence width b b2 b3 b4 =
     (if width = 1 then (b, 1)
      else if width = 2 then (if continuation b2 then ((b - 0xC0) * 64 + (b2 - 0x80), 2) else (REPLACEMENT, 1))
      else if width = 3 then
        (if \<not> second_ok b b2 then (REPLACEMENT, 1)
         else if \<not> continuation b3 then (REPLACEMENT, 2)
         else ((b - 0xE0) * 4096 + (b2 - 0x80) * 64 + (b3 - 0x80), 3))
      else if width = 4 then
        (if \<not> second_ok b b2 then (REPLACEMENT, 1)
         else if \<not> continuation b3 then (REPLACEMENT, 2)
         else if \<not> continuation b4 then (REPLACEMENT, 3)
         else ((b - 0xF0) * 262144 + (b2 - 0x80) * 4096 + (b3 - 0x80) * 64 + (b4 - 0x80), 4))
      else (REPLACEMENT, 1))"

definition utf8_next :: "byte list \<Rightarrow> rchar \<times> nat" where
  "utf8_next bs = utf8_sequence (utf8_width (safe_get bs 0)) (safe_get bs 0) (safe_get bs 1) (safe_get bs 2) (safe_get bs 3)"

lemma utf8_next_advances: "0 < snd (utf8_next bs)"
  unfolding utf8_next_def utf8_sequence_def by simp

function from_utf8_lossy :: "byte list \<Rightarrow> rstring" where
  "from_utf8_lossy bs = (if bs = [] then [] else fst (utf8_next bs) # from_utf8_lossy (drop (snd (utf8_next bs)) bs))"
  by pat_completeness auto
termination
proof (relation "measure length")
  fix bs :: "byte list" assume "bs \<noteq> []"
  then show "(drop (snd (utf8_next bs)) bs, bs) \<in> measure length" using utf8_next_advances [of bs] by simp
qed simp

declare from_utf8_lossy.simps [simp del]

subsection \<open>Round trip\<close>

lemma uint_of_int_byte: "0 \<le> x \<Longrightarrow> x < 256 \<Longrightarrow> uint (of_int x :: byte) = x"
  by (simp add: uint_word_of_int take_bit_eq_mod)

lemma six_bits:
  fixes c :: int
  shows "c = c div 4096 * 4096 + c div 64 mod 64 * 64 + c mod 64"
    "c = c div 262144 * 262144 + c div 4096 mod 64 * 4096 + c div 64 mod 64 * 64 + c mod 64"
proof -
  have "c div 4096 = c div 64 div 64" "c div 262144 = c div 4096 div 64" by (simp_all add: div_mult2_eq [symmetric])
  then show "c = c div 4096 * 4096 + c div 64 mod 64 * 64 + c mod 64"
    "c = c div 262144 * 262144 + c div 4096 mod 64 * 4096 + c div 64 mod 64 * 64 + c mod 64"
    using div_mult_mod_eq [of c 64] div_mult_mod_eq [of "c div 64" 64] div_mult_mod_eq [of "c div 4096" 64] by linarith+
qed

lemma utf8_next_char:
  assumes "scalar c"
  shows "utf8_next (utf8_char c @ bs) = (c, length (utf8_char c))"
proof -
  have c: "0 \<le> c" "c < 0x110000" using assms by (auto simp: scalar_def)
  consider (1) "c < 0x80" | (2) "0x80 \<le> c" "c < 0x800" | (3) "0x800 \<le> c" "c < 0x10000" | (4) "0x10000 \<le> c" by linarith
  then show ?thesis
  proof cases
    case 1
    then show ?thesis using c by (simp add: utf8_char_def utf8_next_def utf8_sequence_def utf8_width_def safe_get_def uint_of_int_byte)
  next
    case 2
    define x y where "x = c div 64" and "y = c mod 64"
    have xy: "0 \<le> y" "y < 64" "c = x * 64 + y" "2 \<le> x" "x < 32"
    proof -
      show y: "0 \<le> y" "y < 64" and cxy: "c = x * 64 + y" by (simp_all add: x_def y_def)
      show "2 \<le> x" "x < 32" using 2 y cxy by linarith+
    qed
    obtain b1 b2 where b: "utf8_char c = [b1, b2]" "uint b1 = 0xC0 + x" "uint b2 = 0x80 + y"
    proof
      show "utf8_char c = [of_int (0xC0 + x), of_int (0x80 + y)]" using 2 by (simp add: utf8_char_def x_def y_def)
    qed ((rule uint_of_int_byte; use xy in linarith)+)
    then show ?thesis using xy by (simp add: utf8_next_def utf8_sequence_def utf8_width_def continuation_def safe_get_def)
  next
    case 3
    define x y z where "x = c div 4096" and "y = c div 64 mod 64" and "z = c mod 64"
    have xyz: "0 \<le> y" "y < 64" "0 \<le> z" "z < 64" "c = x * 4096 + y * 64 + z" "0 \<le> x" "x < 16"
    proof -
      show yz: "0 \<le> y" "y < 64" "0 \<le> z" "z < 64" by (simp_all add: y_def z_def)
      show cxyz: "c = x * 4096 + y * 64 + z" unfolding x_def y_def z_def by (rule six_bits)
      show "0 \<le> x" "x < 16" using 3 yz cxyz by linarith+
    qed
    have ok: "x = 0 \<longrightarrow> 32 \<le> y" "x = 13 \<longrightarrow> y < 32" using xyz 3 assms unfolding scalar_def by linarith+
    obtain b1 b2 b3 where b: "utf8_char c = [b1, b2, b3]" "uint b1 = 0xE0 + x" "uint b2 = 0x80 + y" "uint b3 = 0x80 + z"
    proof
      show "utf8_char c = [of_int (0xE0 + x), of_int (0x80 + y), of_int (0x80 + z)]" using 3 by (simp add: utf8_char_def x_def y_def z_def)
    qed ((rule uint_of_int_byte; use xyz in linarith)+)
    moreover have "second_ok (224 + x) (128 + y)" using xyz ok by (auto simp: second_ok_def continuation_def)
    ultimately show ?thesis using xyz by (simp add: utf8_next_def utf8_sequence_def utf8_width_def continuation_def safe_get_def)
  next
    case 4
    define w x y z where "w = c div 262144" and "x = c div 4096 mod 64" and "y = c div 64 mod 64" and "z = c mod 64"
    have wxyz: "0 \<le> x" "x < 64" "0 \<le> y" "y < 64" "0 \<le> z" "z < 64" "c = w * 262144 + x * 4096 + y * 64 + z" "0 \<le> w" "w < 5"
    proof -
      show xyz: "0 \<le> x" "x < 64" "0 \<le> y" "y < 64" "0 \<le> z" "z < 64" by (simp_all add: x_def y_def z_def)
      show cw: "c = w * 262144 + x * 4096 + y * 64 + z" unfolding w_def x_def y_def z_def by (rule six_bits)
      show "0 \<le> w" "w < 5" using 4 c xyz cw by linarith+
    qed
    have ok: "w = 0 \<longrightarrow> 16 \<le> x" "w = 4 \<longrightarrow> x < 16" using wxyz 4 c by linarith+
    obtain b1 b2 b3 b4 where b: "utf8_char c = [b1, b2, b3, b4]" "uint b1 = 0xF0 + w" "uint b2 = 0x80 + x" "uint b3 = 0x80 + y" "uint b4 = 0x80 + z"
    proof
      show "utf8_char c = [of_int (0xF0 + w), of_int (0x80 + x), of_int (0x80 + y), of_int (0x80 + z)]"
        using 4 by (simp add: utf8_char_def w_def x_def y_def z_def)
    qed ((rule uint_of_int_byte; use wxyz in linarith)+)
    moreover have "second_ok (240 + w) (128 + x)" using wxyz ok by (auto simp: second_ok_def continuation_def)
    ultimately show ?thesis using wxyz by (simp add: utf8_next_def utf8_sequence_def utf8_width_def continuation_def safe_get_def)
  qed
qed

lemma utf8_char_not_Nil: "utf8_char c \<noteq> []"
  by (simp add: utf8_char_def)

lemma lossy_utf8 [simp]: "list_all scalar s \<Longrightarrow> from_utf8_lossy (utf8 s) = s"
proof (induction s)
  case Nil
  show ?case by (subst from_utf8_lossy.simps) (simp add: utf8_def)
next
  case (Cons c s)
  have n: "utf8_next (utf8 (c # s)) = (c, length (utf8_char c))" using Cons.prems by (simp add: utf8_def utf8_next_char)
  have "from_utf8_lossy (utf8 (c # s)) = c # from_utf8_lossy (drop (length (utf8_char c)) (utf8 (c # s)))"
    by (subst from_utf8_lossy.simps) (simp add: n, simp add: utf8_def utf8_char_not_Nil)
  then show ?case using Cons by (simp add: utf8_def)
qed

end
