(* ===== verification/Rows.thy ===== *)
theory Rows
  imports Utf
begin

text \<open>
  Field values (\<^verbatim>\<open>format.rs\<close>, \<^verbatim>\<open>Value\<close>) and the row encoding of the sort and of the row store
  (\<^verbatim>\<open>crates/wire/src/extsort.rs\<close>): one tag byte for each value, little-endian fields. Signed integers
  are words in two's complement, a float is its bit pattern. A row written is read back.
\<close>

type_synonym u128 = "128 word"
type_synonym i8 = "8 word"
type_synonym i32 = "32 word"
type_synonym i64 = "64 word"
type_synonym i128 = "128 word"

datatype field_value =
    Null
  | TextValue rstring
  | IntValue i64
  | Scaled i64 i8
  | Double f64
  | Float f32
  | Rounded i64 i8
  | Bool bool
  | Date i32
  | Time u32
  | Timestamp i32 u32
  | BlobId u16 u64
  | Int128 i128 i8
  | DecFloat16 u64
  | DecFloat34 u128
  | TimeTz u32 u16
  | TimestampTz i32 u32 u16
  | Unsupported rstring
  | OutOfRange

type_synonym row_values = "field_value list"

subsection \<open>Encoding\<close>

definition u128_bytes :: "u128 \<Rightarrow> byte list" where
  "u128_bytes v = le_bytes 16 (unat v)"

text \<open>\<^verbatim>\<open>row_bytes\<close>: what a row costs in memory, near enough.\<close>

definition row_bytes :: "row_values \<Rightarrow> nat" where
  "row_bytes row = 24 + length row * 32 + sum_list (map (\<lambda>v. case v of TextValue t \<Rightarrow> length (utf8 t) | _ \<Rightarrow> 0) row)"

fun value_bytes :: "field_value \<Rightarrow> byte list" where
  "value_bytes Null = [0]"
| "value_bytes (TextValue t) = 1 # u32_bytes (of_nat (length (utf8 t))) @ utf8 t"
| "value_bytes (IntValue i) = 2 # u64_bytes i"
| "value_bytes (Scaled i s) = 3 # u64_bytes i @ [s]"
| "value_bytes (Double d) = 4 # u64_bytes d"
| "value_bytes (Float f) = 5 # u32_bytes f"
| "value_bytes (Rounded i s) = 18 # u64_bytes i @ [s]"
| "value_bytes (Bool b) = [6, if b then 1 else 0]"
| "value_bytes (Date d) = 7 # u32_bytes d"
| "value_bytes (Time t) = 8 # u32_bytes t"
| "value_bytes (Timestamp d t) = 9 # u32_bytes d @ u32_bytes t"
| "value_bytes (BlobId r n) = 10 # u16_bytes r @ u64_bytes n"
| "value_bytes (Int128 i s) = 11 # u128_bytes i @ [s]"
| "value_bytes (DecFloat16 b) = 12 # u64_bytes b"
| "value_bytes (DecFloat34 b) = 13 # u128_bytes b"
| "value_bytes (TimeTz t z) = 14 # u32_bytes t @ u16_bytes z"
| "value_bytes (TimestampTz d t z) = 15 # u32_bytes d @ u32_bytes t @ u16_bytes z"
| "value_bytes (Unsupported t) = 16 # u32_bytes (of_nat (length (utf8 t))) @ utf8 t"
| "value_bytes OutOfRange = [17]"

definition encode_row :: "row_values \<Rightarrow> byte list" where
  "encode_row row = u32_bytes (of_nat (length row)) @ concat (map value_bytes row)"

subsection \<open>Decoding\<close>

text \<open>The cursor is the bytes still to come; each step answers what it read and the rest.\<close>

datatype io_error = UnexpectedEof string | InvalidData byte | InvalidInput string

type_synonym 'a reads = "io_error + 'a \<times> byte list"

definition and_read :: "'a reads \<Rightarrow> ('a \<Rightarrow> byte list \<Rightarrow> io_error + 'b) \<Rightarrow> io_error + 'b" where
  "and_read r k = (case r of Inl e \<Rightarrow> Inl e | Inr (x, bs) \<Rightarrow> k x bs)"

lemma and_read_simps [simp]: "and_read (Inl e) k = Inl e" "and_read (Inr (x, bs)) k = k x bs"
  by (simp_all add: and_read_def)

definition cursor_take :: "nat \<Rightarrow> byte list \<Rightarrow> byte list reads" where
  "cursor_take n bs = (if n \<le> length bs then Inr (take n bs, drop n bs) else Inl (UnexpectedEof ''run row truncated''))"

definition get_word :: "nat \<Rightarrow> byte list \<Rightarrow> 'a::len word reads" where
  "get_word n bs = and_read (cursor_take n bs) (\<lambda>xs bs'. Inr (of_nat (le_nat xs), bs'))"

definition get_byte :: "byte list \<Rightarrow> byte reads" where
  "get_byte bs = and_read (cursor_take 1 bs) (\<lambda>xs bs'. Inr (xs ! 0, bs'))"

definition get_text :: "byte list \<Rightarrow> rstring reads" where
  "get_text bs = and_read (get_word 4 bs :: u32 reads) (\<lambda>n bs1.
     and_read (cursor_take (unat n) bs1) (\<lambda>xs bs2. Inr (from_utf8_lossy xs, bs2)))"

definition get_one :: "('a \<Rightarrow> field_value) \<Rightarrow> (byte list \<Rightarrow> 'a reads) \<Rightarrow> byte list \<Rightarrow> field_value reads" where
  "get_one f g bs = and_read (g bs) (\<lambda>x bs1. Inr (f x, bs1))"

definition get_two :: "('a \<Rightarrow> 'b \<Rightarrow> field_value) \<Rightarrow> (byte list \<Rightarrow> 'a reads) \<Rightarrow> (byte list \<Rightarrow> 'b reads) \<Rightarrow> byte list \<Rightarrow> field_value reads" where
  "get_two f g h bs = and_read (g bs) (\<lambda>x bs1. and_read (h bs1) (\<lambda>y bs2. Inr (f x y, bs2)))"

definition get_three ::
    "('a \<Rightarrow> 'b \<Rightarrow> 'c \<Rightarrow> field_value) \<Rightarrow> (byte list \<Rightarrow> 'a reads) \<Rightarrow> (byte list \<Rightarrow> 'b reads) \<Rightarrow> (byte list \<Rightarrow> 'c reads) \<Rightarrow>
     byte list \<Rightarrow> field_value reads" where
  "get_three f g h k bs =
     and_read (g bs) (\<lambda>x bs1. and_read (h bs1) (\<lambda>y bs2. and_read (k bs2) (\<lambda>z bs3. Inr (f x y z, bs3))))"

definition get_value :: "byte \<Rightarrow> byte list \<Rightarrow> field_value reads" where
  "get_value tag bs =
     (if tag = 0 then Inr (Null, bs)
      else if tag = 1 then get_one TextValue get_text bs
      else if tag = 2 then get_one IntValue (get_word 8) bs
      else if tag = 3 then get_two Scaled (get_word 8) get_byte bs
      else if tag = 4 then get_one Double (get_word 8) bs
      else if tag = 5 then get_one Float (get_word 4) bs
      else if tag = 6 then get_one (\<lambda>b. Bool (b \<noteq> 0)) get_byte bs
      else if tag = 7 then get_one Date (get_word 4) bs
      else if tag = 8 then get_one Time (get_word 4) bs
      else if tag = 9 then get_two Timestamp (get_word 4) (get_word 4) bs
      else if tag = 10 then get_two BlobId (get_word 2) (get_word 8) bs
      else if tag = 11 then get_two Int128 (get_word 16) get_byte bs
      else if tag = 12 then get_one DecFloat16 (get_word 8) bs
      else if tag = 13 then get_one DecFloat34 (get_word 16) bs
      else if tag = 14 then get_two TimeTz (get_word 4) (get_word 2) bs
      else if tag = 15 then get_three TimestampTz (get_word 4) (get_word 4) (get_word 2) bs
      else if tag = 16 then get_one Unsupported get_text bs
      else if tag = 17 then Inr (OutOfRange, bs)
      else if tag = 18 then get_two Rounded (get_word 8) get_byte bs
      else Inl (InvalidData tag))"

fun get_values :: "nat \<Rightarrow> byte list \<Rightarrow> io_error + row_values" where
  "get_values 0 bs = Inr []"
| "get_values (Suc n) bs =
     and_read (get_byte bs) (\<lambda>tag bs1.
     and_read (get_value tag bs1) (\<lambda>v bs2.
       (case get_values n bs2 of Inl e \<Rightarrow> Inl e | Inr vs \<Rightarrow> Inr (v # vs))))"

definition decode_row :: "byte list \<Rightarrow> io_error + row_values" where
  "decode_row bs = and_read (get_word 4 bs :: u32 reads) (\<lambda>n bs1. get_values (unat n) bs1)"

subsection \<open>What is written is read\<close>

text \<open>A row that exists in memory: its texts hold scalar values and every length fits its count word.\<close>

fun value_ok :: "field_value \<Rightarrow> bool" where
  "value_ok (TextValue t) \<longleftrightarrow> list_all scalar t \<and> length (utf8 t) < 2 ^ 32"
| "value_ok (Unsupported t) \<longleftrightarrow> list_all scalar t \<and> length (utf8 t) < 2 ^ 32"
| "value_ok _ \<longleftrightarrow> True"

definition row_ok :: "row_values \<Rightarrow> bool" where
  "row_ok row \<longleftrightarrow> length row < 2 ^ 32 \<and> list_all value_ok row"

lemma cursor_take_append [simp]: "n = length xs \<Longrightarrow> cursor_take n (xs @ bs) = Inr (xs, bs)"
  by (simp add: cursor_take_def)

lemma get_word_append:
  "length xs = n \<Longrightarrow> get_word n (xs @ bs) = Inr (of_nat (le_nat xs), bs)"
  by (simp add: get_word_def)

lemma get_word_bytes [simp]:
  "get_word 2 (u16_bytes a @ bs) = Inr (a :: u16, bs)"
  "get_word 4 (u32_bytes b @ bs) = Inr (b :: u32, bs)"
  "get_word 8 (u64_bytes c @ bs) = Inr (c :: u64, bs)"
  "get_word 16 (u128_bytes d @ bs) = Inr (d :: u128, bs)"
  "get_byte (e # bs) = Inr (e, bs)"
proof -
  have d: "unat d mod 256 ^ 16 = unat d" using unsigned_less [of d] by (intro mod_less) simp
  show "get_word 2 (u16_bytes a @ bs) = Inr (a, bs)" "get_word 4 (u32_bytes b @ bs) = Inr (b, bs)"
    "get_word 8 (u64_bytes c @ bs) = Inr (c, bs)"
    by (simp_all add: get_word_append u16_bytes_def u32_bytes_def u64_bytes_def le_nat_le_bytes)
  show "get_word 16 (u128_bytes d @ bs) = Inr (d, bs)"
    using d by (simp add: get_word_append u128_bytes_def le_nat_le_bytes)
  show "get_byte (e # bs) = Inr (e, bs)" by (simp add: get_byte_def cursor_take_def)
qed

lemma get_text_bytes [simp]:
  assumes "list_all scalar t" "length (utf8 t) < 2 ^ 32"
  shows "get_text (u32_bytes (of_nat (length (utf8 t))) @ utf8 t @ bs) = Inr (t, bs)"
  using assms by (simp add: get_text_def unat_of_nat)

lemma get_value_bytes:
  assumes "value_ok v"
  obtains tag where "value_bytes v = tag # tl (value_bytes v)" "get_value tag (tl (value_bytes v) @ bs) = Inr (v, bs)"
  using assms by (cases v) (auto simp: get_value_def get_one_def get_two_def get_three_def)

lemma get_values_bytes: "list_all value_ok row \<Longrightarrow> get_values (length row) (concat (map value_bytes row) @ bs) = Inr row"
proof (induction row arbitrary: bs)
  case (Cons v row)
  let ?rest = "concat (map value_bytes row) @ bs"
  obtain tag where t: "value_bytes v = tag # tl (value_bytes v)" "get_value tag (tl (value_bytes v) @ ?rest) = Inr (v, ?rest)"
    using get_value_bytes [of v ?rest] Cons.prems by auto
  obtain ys where ys: "value_bytes v = tag # ys" using t(1) by blast
  show ?case using t(2) Cons by (simp add: ys)
qed simp

lemma decode_encode_row [simp]: "row_ok row \<Longrightarrow> decode_row (encode_row row @ bs) = Inr row"
  using get_values_bytes [of row bs] by (simp add: decode_row_def encode_row_def row_ok_def unat_of_nat)

end
