(* ===== verification/Srt.thy ===== *)
theory Srt
  imports Rows
begin

text \<open>
  The external sort and the row store of \<^verbatim>\<open>crates/wire/src/extsort.rs\<close>. A file is the bytes
  written to it; creating, writing and reading files is taken to succeed (a read past the end is
  the error it is in the code). \<^verbatim>\<open>Vec::sort_by\<close> is the stable sort the standard library documents.
\<close>

type_synonym row_cmp = "row_values \<Rightarrow> row_values \<Rightarrow> ordering"

fun insert_by :: "('a \<Rightarrow> 'a \<Rightarrow> ordering) \<Rightarrow> 'a \<Rightarrow> 'a list \<Rightarrow> 'a list" where
  "insert_by cmp x [] = [x]"
| "insert_by cmp x (y # ys) = (if cmp x y = Greater then y # insert_by cmp x ys else x # y # ys)"

definition rs_sort_by :: "('a \<Rightarrow> 'a \<Rightarrow> ordering) \<Rightarrow> 'a list \<Rightarrow> 'a list" where
  "rs_sort_by cmp xs = foldr (insert_by cmp) xs []"

subsection \<open>The sort\<close>

text \<open>A row in a run file: \<^verbatim>\<open>[u32 len][row bytes]\<close>.\<close>

definition frame :: "row_values \<Rightarrow> byte list" where
  "frame row = u32_bytes (of_nat (length (encode_row row))) @ encode_row row"

record ext_sort =
  es_cmp :: row_cmp
  es_budget :: nat
  es_used :: nat
  es_buf :: "row_values list"
  es_runs :: "byte list list"
  es_total :: nat
  es_spilled :: nat

definition with_budget :: "row_cmp \<Rightarrow> nat \<Rightarrow> ext_sort" where
  "with_budget cmp b =
     \<lparr> es_cmp = cmp, es_budget = b, es_used = 0, es_buf = [], es_runs = [], es_total = 0, es_spilled = 0 \<rparr>"

definition spill_run :: "ext_sort \<Rightarrow> ext_sort" where
  "spill_run s =
     (if es_buf s = [] then s
      else s \<lparr> es_buf := [], es_spilled := es_spilled s + es_used s, es_used := 0,
               es_runs := es_runs s @ [concat (map frame (rs_sort_by (es_cmp s) (es_buf s)))] \<rparr>)"

definition put_row :: "row_values \<Rightarrow> ext_sort \<Rightarrow> ext_sort" where
  "put_row row s =
     (let s1 = s \<lparr> es_used := es_used s + row_bytes row, es_total := es_total s + 1, es_buf := es_buf s @ [row] \<rparr>
      in if es_used s1 > es_budget s1 then spill_run s1 else s1)"

record sort_run =
  run_reader :: "byte list"
  run_head :: "row_values option"
  run_seq :: u64

definition run_advance :: "sort_run \<Rightarrow> io_error + sort_run" where
  "run_advance r =
     (if length (run_reader r) < 4 then Inr (r \<lparr> run_reader := [], run_head := None \<rparr>)
      else
        let len = le_nat (take 4 (run_reader r)); rest = drop 4 (run_reader r)
        in if length rest < len then Inl (UnexpectedEof ''failed to fill whole buffer'')
           else (case decode_row (take len rest) of
                   Inl e \<Rightarrow> Inl e
                 | Inr row \<Rightarrow> Inr (r \<lparr> run_reader := drop len rest, run_head := Some row, run_seq := run_seq r + 1 \<rparr>)))"

record sort_cursor =
  cur_cmp :: row_cmp
  cur_mem :: "row_values list option"
  cur_runs :: "sort_run list"
  cur_stats :: "nat \<times> nat \<times> nat"

fun open_runs :: "byte list list \<Rightarrow> io_error + sort_run list" where
  "open_runs [] = Inr []"
| "open_runs (f # fs) =
     (case run_advance \<lparr> run_reader = f, run_head = None, run_seq = 0 \<rparr> of
        Inl e \<Rightarrow> Inl e
      | Inr r \<Rightarrow> (case open_runs fs of Inl e \<Rightarrow> Inl e | Inr rs \<Rightarrow> Inr (r # rs)))"

definition finish_sort :: "ext_sort \<Rightarrow> io_error + sort_cursor" where
  "finish_sort s =
     (if es_runs s = [] then
        Inr \<lparr> cur_cmp = es_cmp s, cur_mem = Some (rs_sort_by (es_cmp s) (es_buf s)), cur_runs = [],
              cur_stats = (es_total s, 0, 0) \<rparr>
      else
        let s1 = spill_run s
        in (case open_runs (es_runs s1) of
              Inl e \<Rightarrow> Inl e
            | Inr rs \<Rightarrow> Inr \<lparr> cur_cmp = es_cmp s1, cur_mem = None, cur_runs = rs,
                             cur_stats = (es_total s1, length (es_runs s1), es_spilled s1) \<rparr>))"

text \<open>The least head; an equal pair goes to the lower run.\<close>

definition better_head :: "row_cmp \<Rightarrow> sort_run list \<Rightarrow> nat \<Rightarrow> nat option \<Rightarrow> nat option" where
  "better_head cmp rs i best =
     (case run_head (rs ! i) of
        None \<Rightarrow> best
      | Some h \<Rightarrow>
          (case best of
             None \<Rightarrow> Some i
           | Some b \<Rightarrow> if cmp h (the (run_head (rs ! b))) = Less then Some i else best))"

definition best_run :: "row_cmp \<Rightarrow> sort_run list \<Rightarrow> nat option" where
  "best_run cmp rs = fold (better_head cmp rs) [0..<length rs] None"

definition next_row :: "sort_cursor \<Rightarrow> io_error + row_values option \<times> sort_cursor" where
  "next_row c =
     (case cur_mem c of
        Some [] \<Rightarrow> Inr (None, c)
      | Some (row # rows) \<Rightarrow> Inr (Some row, c \<lparr> cur_mem := Some rows \<rparr>)
      | None \<Rightarrow>
          (case best_run (cur_cmp c) (cur_runs c) of
             None \<Rightarrow> Inr (None, c)
           | Some b \<Rightarrow>
               let r = cur_runs c ! b
               in (case run_advance (r \<lparr> run_head := None \<rparr>) of
                     Inl e \<Rightarrow> Inl e
                   | Inr r1 \<Rightarrow> Inr (run_head r, c \<lparr> cur_runs := (cur_runs c)[b := r1] \<rparr>))))"

text \<open>What a cursor has still to give, in bytes read and heads held.\<close>

definition run_left :: "sort_run \<Rightarrow> nat" where
  "run_left r = length (run_reader r) + (if run_head r = None then 0 else 1)"

definition cursor_left :: "sort_cursor \<Rightarrow> nat" where
  "cursor_left c = (case cur_mem c of Some rows \<Rightarrow> length rows | None \<Rightarrow> sum_list (map run_left (cur_runs c)))"

lemma advance_left: "run_advance r = Inr r1 \<Longrightarrow> run_left r1 \<le> length (run_reader r)"
  by (auto simp: run_advance_def run_left_def Let_def split: if_splits sum.splits)

lemma better_head_some:
  assumes "\<And>b. best = Some b \<Longrightarrow> b < length rs \<and> run_head (rs ! b) \<noteq> None" "i < length rs"
  shows "better_head cmp rs i best = Some b \<Longrightarrow> b < length rs \<and> run_head (rs ! b) \<noteq> None"
  using assms by (auto simp: better_head_def split: option.splits if_splits)

lemma best_run_some: "best_run cmp rs = Some b \<Longrightarrow> b < length rs \<and> run_head (rs ! b) \<noteq> None"
proof -
  have "fold (better_head cmp rs) [0..<n] None = Some b \<Longrightarrow> n \<le> length rs \<Longrightarrow> b < length rs \<and> run_head (rs ! b) \<noteq> None" for n b
  proof (induction n arbitrary: b)
    case (Suc n)
    show ?case
      by (rule better_head_some [of "fold (better_head cmp rs) [0..<n] None" rs n cmp]) (use Suc in auto)
  qed simp
  then show "best_run cmp rs = Some b \<Longrightarrow> b < length rs \<and> run_head (rs ! b) \<noteq> None"
    by (simp add: best_run_def)
qed

lemma sum_list_smaller: "i < length xs \<Longrightarrow> y < xs ! i \<Longrightarrow> sum_list (xs[i := y]) < (sum_list xs :: nat)"
  by (induction xs arbitrary: i) (auto simp: nth_Cons split: nat.splits)

lemma next_row_left: "next_row c = Inr (Some row, c1) \<Longrightarrow> cursor_left c1 < cursor_left c"
proof -
  assume n: "next_row c = Inr (Some row, c1)"
  show ?thesis
  proof (cases "cur_mem c")
    case None
    then obtain b r1 where b: "best_run (cur_cmp c) (cur_runs c) = Some b"
      and r1: "run_advance ((cur_runs c ! b) \<lparr> run_head := None \<rparr>) = Inr r1"
      and c1: "c1 = c \<lparr> cur_runs := (cur_runs c)[b := r1] \<rparr>"
      using n by (auto simp: next_row_def Let_def split: option.splits sum.splits)
    have h: "b < length (cur_runs c)" "run_head (cur_runs c ! b) \<noteq> None" using best_run_some [OF b] by auto
    have "run_left r1 < run_left (cur_runs c ! b)" using advance_left [OF r1] h(2) by (auto simp: run_left_def split: if_splits)
    then have "sum_list (map run_left ((cur_runs c)[b := r1])) < sum_list (map run_left (cur_runs c))"
      using h(1) by (simp add: map_update sum_list_smaller)
    then show ?thesis using None c1 by (simp add: cursor_left_def)
  qed (use n in \<open>auto simp: next_row_def cursor_left_def split: list.splits\<close>)
qed

function collect_all :: "sort_cursor \<Rightarrow> io_error + row_values list" where
  "collect_all c =
     (case next_row c of
        Inl e \<Rightarrow> Inl e
      | Inr (None, c1) \<Rightarrow> Inr []
      | Inr (Some row, c1) \<Rightarrow> (case collect_all c1 of Inl e \<Rightarrow> Inl e | Inr rows \<Rightarrow> Inr (row # rows)))"
  by auto
termination by (relation "measure cursor_left") (auto intro: next_row_left)

declare collect_all.simps [simp del]

text \<open>Every row put, then the sort finished and read to its end.\<close>

definition sort_rows :: "row_cmp \<Rightarrow> nat \<Rightarrow> row_values list \<Rightarrow> io_error + row_values list" where
  "sort_rows cmp b rows =
     (case finish_sort (fold put_row rows (with_budget cmp b)) of Inl e \<Rightarrow> Inl e | Inr c \<Rightarrow> collect_all c)"

subsection \<open>The row store\<close>

record row_store =
  rs_budget :: nat
  rs_mem :: "byte list"
  rs_spilled :: nat
  rs_file :: "byte list option"
  rs_count :: nat

definition store_with_budget :: "nat \<Rightarrow> row_store" where
  "store_with_budget b = \<lparr> rs_budget = b, rs_mem = [], rs_spilled = 0, rs_file = None, rs_count = 0 \<rparr>"

text \<open>\<^verbatim>\<open>write_all_at\<close>: a gap past the end of the file reads as zeros.\<close>

definition write_all_at :: "byte list \<Rightarrow> nat \<Rightarrow> byte list \<Rightarrow> byte list" where
  "write_all_at f off bs = take off (f @ replicate (off - length f) 0) @ bs @ drop (off + length bs) f"

definition read_exact_at :: "byte list \<Rightarrow> nat \<Rightarrow> nat \<Rightarrow> io_error + byte list" where
  "read_exact_at f off n =
     (if off + n \<le> length f then Inr (take n (drop off f)) else Inl (UnexpectedEof ''failed to fill whole buffer''))"

definition spill_store :: "row_store \<Rightarrow> row_store" where
  "spill_store s =
     (let f = (case rs_file s of None \<Rightarrow> [] | Some f \<Rightarrow> f)
      in s \<lparr> rs_file := Some (write_all_at f (rs_spilled s) (rs_mem s)),
             rs_spilled := rs_spilled s + length (rs_mem s), rs_mem := [] \<rparr>)"

definition push_row :: "row_values \<Rightarrow> row_store \<Rightarrow> nat \<times> row_store" where
  "push_row row s =
     (let off = rs_spilled s + length (rs_mem s);
          at = length (rs_mem s);
          mem = rs_mem s @ [0, 0, 0, 0] @ encode_row row;
          len = of_nat (length mem - at - 4) :: u32;
          s1 = s \<lparr> rs_mem := splice mem at (u32_bytes len), rs_count := rs_count s + 1 \<rparr>
      in (off, if length (rs_mem s1) > rs_budget s1 then spill_store s1 else s1))"

definition get_row :: "row_store \<Rightarrow> nat \<Rightarrow> (io_error + row_values) run" where
  "get_row s off =
     (if off \<ge> rs_spilled s then
        let at = off - rs_spilled s
        in (case get_range (rs_mem s) at (at + 4) of
              None \<Rightarrow> Ret (Inl (InvalidInput ''row store offset''))
            | Some l \<Rightarrow> map_option decode_row (rs_slice (rs_mem s) (at + 4) (at + 4 + le_nat l)))
      else
        (case rs_file s of
           None \<Rightarrow> Ret (Inl (InvalidInput ''row store file''))
         | Some f \<Rightarrow>
             Ret (case read_exact_at f off 4 of
                    Inl e \<Rightarrow> Inl e
                  | Inr l \<Rightarrow> (case read_exact_at f (off + 4) (le_nat l) of Inl e \<Rightarrow> Inl e | Inr b \<Rightarrow> decode_row b))))"

fun push_rows :: "row_values list \<Rightarrow> row_store \<Rightarrow> nat list \<times> row_store" where
  "push_rows [] s = ([], s)"
| "push_rows (row # rows) s = (let (off, s1) = push_row row s; (offs, s2) = push_rows rows s1 in (off # offs, s2))"

end
