(* ===== verification/Srt_Properties.thy ===== *)
theory Srt_Properties
  imports Srt "HOL-Library.Multiset"
begin

text \<open>
  What the external sort and the row store promise: the rows come back in the order of the
  in-memory stable sort whatever the budget, and a stored row is found at its offset whether it
  was spilled or not.
\<close>

subsection \<open>The stable sort\<close>

text \<open>A comparator that is a total preorder on the rows at hand.\<close>

definition orders :: "'a set \<Rightarrow> ('a \<Rightarrow> 'a \<Rightarrow> ordering) \<Rightarrow> bool" where
  "orders A cmp \<longleftrightarrow>
     (\<forall>a \<in> A. \<forall>b \<in> A. (cmp a b = Less \<longleftrightarrow> cmp b a = Greater) \<and>
        (\<forall>c \<in> A. cmp a b \<noteq> Greater \<longrightarrow> cmp b c \<noteq> Greater \<longrightarrow> cmp a c \<noteq> Greater))"

abbreviation ascending :: "('a \<Rightarrow> 'a \<Rightarrow> ordering) \<Rightarrow> 'a list \<Rightarrow> bool" where
  "ascending cmp \<equiv> sorted_wrt (\<lambda>a b. cmp a b \<noteq> Greater)"

lemma orders_subset: "orders A cmp \<Longrightarrow> B \<subseteq> A \<Longrightarrow> orders B cmp"
  unfolding orders_def by blast

lemma orders_flip: "orders A cmp \<Longrightarrow> a \<in> A \<Longrightarrow> b \<in> A \<Longrightarrow> cmp a b = Less \<longleftrightarrow> cmp b a = Greater"
  unfolding orders_def by blast

lemma orders_trans:
  "orders A cmp \<Longrightarrow> a \<in> A \<Longrightarrow> b \<in> A \<Longrightarrow> c \<in> A \<Longrightarrow> cmp a b \<noteq> Greater \<Longrightarrow> cmp b c \<noteq> Greater \<Longrightarrow> cmp a c \<noteq> Greater"
  unfolding orders_def by blast

lemma orders_less_trans:
  assumes o: "orders A cmp" and a: "a \<in> A" and b: "b \<in> A" and c: "c \<in> A"
  shows "cmp a b = Less \<Longrightarrow> cmp b c \<noteq> Greater \<Longrightarrow> cmp a c = Less"
    and "cmp a b \<noteq> Greater \<Longrightarrow> cmp b c = Less \<Longrightarrow> cmp a c = Less"
proof -
  note flip = orders_flip [OF o a b] orders_flip [OF o b c] orders_flip [OF o a c]
  show "cmp a b = Less \<Longrightarrow> cmp b c \<noteq> Greater \<Longrightarrow> cmp a c = Less"
    using orders_trans [OF o b c a] flip(1,3) by auto
  show "cmp a b \<noteq> Greater \<Longrightarrow> cmp b c = Less \<Longrightarrow> cmp a c = Less"
    using orders_trans [OF o c a b] flip(2,3) by auto
qed

lemma orders_equal_trans:
  assumes o: "orders A cmp" and a: "a \<in> A" and b: "b \<in> A" and c: "c \<in> A"
    and ab: "cmp a b = Equal" and ac: "cmp a c = Equal"
  shows "cmp b c = Equal"
proof -
  have "cmp b a \<noteq> Greater" "cmp c a \<noteq> Greater"
    using orders_flip [OF o a b] orders_flip [OF o a c] ab ac by simp_all
  then have "cmp b c \<noteq> Greater" "cmp c b \<noteq> Greater"
    using orders_trans [OF o b a c] orders_trans [OF o c a b] ab ac by simp_all
  then show ?thesis using orders_flip [OF o b c] by (cases "cmp b c") simp_all
qed

lemma set_insert_by [simp]: "set (insert_by cmp x ys) = insert x (set ys)"
  by (induction ys) auto

lemma mset_insert_by [simp]: "mset (insert_by cmp x ys) = add_mset x (mset ys)"
  by (induction ys) auto

lemma sort_by_simps [simp]:
  "rs_sort_by cmp [] = []" "rs_sort_by cmp (x # xs) = insert_by cmp x (rs_sort_by cmp xs)"
  by (simp_all add: rs_sort_by_def)

lemma mset_sort_by [simp]: "mset (rs_sort_by cmp xs) = mset xs"
  by (induction xs) auto

lemma set_sort_by [simp]: "set (rs_sort_by cmp xs) = set xs"
  using mset_sort_by [of cmp xs] by (metis set_mset_mset)

lemma insert_by_ascending:
  assumes "orders (insert x (set ys)) cmp" "ascending cmp ys"
  shows "ascending cmp (insert_by cmp x ys)"
  using assms
proof (induction ys)
  case (Cons y ys)
  have ih: "ascending cmp (insert_by cmp x ys)"
    using Cons.IH Cons.prems orders_subset [OF Cons.prems(1)] by (simp add: subset_insertI2 insert_commute)
  show ?case
  proof (cases "cmp x y = Greater")
    case True
    then have "cmp y x = Less" using orders_flip [OF Cons.prems(1), of y x] by simp
    then show ?thesis using ih Cons.prems(2) True by simp
  next
    case False
    then have "cmp x z \<noteq> Greater" if "z \<in> set ys" for z
      using orders_trans [OF Cons.prems(1), of x y z] Cons.prems(2) that by simp
    then show ?thesis using False Cons.prems(2) by auto
  qed
qed simp

lemma sort_by_ascending: "orders (set xs) cmp \<Longrightarrow> ascending cmp (rs_sort_by cmp xs)"
proof (induction xs)
  case (Cons x xs)
  have "ascending cmp (rs_sort_by cmp xs)" by (rule Cons.IH) (rule orders_subset [OF Cons.prems], auto)
  then show ?case using insert_by_ascending [of x "rs_sort_by cmp xs" cmp] Cons.prems by simp
qed simp

lemma insert_by_stable:
  assumes "orders (insert z (insert x (set ys))) cmp"
  shows "filter (\<lambda>y. cmp z y = Equal) (insert_by cmp x ys) = filter (\<lambda>y. cmp z y = Equal) (x # ys)"
  using assms
proof (induction ys)
  case (Cons y ys)
  have ih: "filter (\<lambda>y. cmp z y = Equal) (insert_by cmp x ys) = filter (\<lambda>y. cmp z y = Equal) (x # ys)"
    by (rule Cons.IH) (rule orders_subset [OF Cons.prems], auto)
  have "\<not> (cmp x y = Greater \<and> cmp z x = Equal \<and> cmp z y = Equal)"
    using orders_equal_trans [OF Cons.prems, of z x y] by auto
  then show ?case using ih by auto
qed simp

lemma sort_by_stable:
  "orders (insert z (set xs)) cmp \<Longrightarrow> filter (\<lambda>y. cmp z y = Equal) (rs_sort_by cmp xs) = filter (\<lambda>y. cmp z y = Equal) xs"
proof (induction xs)
  case (Cons x xs)
  have "filter (\<lambda>y. cmp z y = Equal) (rs_sort_by cmp xs) = filter (\<lambda>y. cmp z y = Equal) xs"
    by (rule Cons.IH) (rule orders_subset [OF Cons.prems], auto)
  then show ?case using insert_by_stable [of z x "rs_sort_by cmp xs" cmp] Cons.prems by simp
qed simp

lemma insert_by_commute:
  assumes "orders (insert x (insert y (set zs))) cmp" "cmp x y = Greater"
  shows "insert_by cmp x (insert_by cmp y zs) = insert_by cmp y (insert_by cmp x zs)"
  using assms
proof (induction zs)
  case Nil
  then show ?case using orders_flip [OF Nil.prems(1), of y x] by simp
next
  case (Cons z zs)
  have yx: "cmp y x = Less" using orders_flip [OF Cons.prems(1), of y x] Cons.prems(2) by simp
  show ?case
  proof (cases "cmp y z = Greater")
    case True
    have "cmp x z = Greater"
    proof (rule ccontr)
      assume "cmp x z \<noteq> Greater"
      moreover have "cmp z y = Less" using True orders_flip [OF Cons.prems(1), of z y] by simp
      ultimately show False using orders_trans [OF Cons.prems(1), of x z y] Cons.prems(2) by simp
    qed
    moreover have "orders (insert x (insert y (set zs))) cmp" by (rule orders_subset [OF Cons.prems(1)]) auto
    then have "insert_by cmp x (insert_by cmp y zs) = insert_by cmp y (insert_by cmp x zs)"
      using Cons.prems(2) by (rule Cons.IH)
    ultimately show ?thesis using True by simp
  next
    case False
    then show ?thesis using yx Cons.prems(2) by simp
  qed
qed

lemma foldr_insert_by:
  assumes "orders (insert x (set xs \<union> set ys)) cmp"
  shows "foldr (insert_by cmp) (insert_by cmp x xs) ys = insert_by cmp x (foldr (insert_by cmp) xs ys)"
  using assms
proof (induction xs)
  case (Cons y xs)
  let ?f = "foldr (insert_by cmp) xs ys"
  have s: "set ?f \<subseteq> set xs \<union> set ys" by (induction xs) auto
  have "foldr (insert_by cmp) (insert_by cmp x xs) ys = insert_by cmp x ?f"
    by (rule Cons.IH) (rule orders_subset [OF Cons.prems], auto)
  moreover have "insert_by cmp x (insert_by cmp y ?f) = insert_by cmp y (insert_by cmp x ?f)" if "cmp x y = Greater"
  proof (rule insert_by_commute)
    show "orders (insert x (insert y (set ?f))) cmp" by (rule orders_subset [OF Cons.prems]) (use s in auto)
  qed (rule that)
  ultimately show ?case by simp
qed simp

text \<open>Sorting a part first changes nothing.\<close>

lemma sort_by_absorb:
  assumes "orders (set xs \<union> set ys) cmp"
  shows "rs_sort_by cmp (rs_sort_by cmp xs @ ys) = rs_sort_by cmp (xs @ ys)"
  using assms
proof (induction xs)
  case (Cons x xs)
  have "rs_sort_by cmp (rs_sort_by cmp xs @ ys) = rs_sort_by cmp (xs @ ys)"
    by (rule Cons.IH) (rule orders_subset [OF Cons.prems], auto)
  moreover have "foldr (insert_by cmp) (insert_by cmp x (rs_sort_by cmp xs)) (rs_sort_by cmp ys) =
      insert_by cmp x (foldr (insert_by cmp) (rs_sort_by cmp xs) (rs_sort_by cmp ys))"
    by (rule foldr_insert_by) (use Cons.prems in simp)
  ultimately show ?case by (simp add: rs_sort_by_def)
qed simp

lemma sort_by_append: "rs_sort_by cmp (xs @ ys) = foldr (insert_by cmp) xs (rs_sort_by cmp ys)"
  by (simp add: rs_sort_by_def)

lemma sort_by_chunks:
  assumes "orders (set (concat chunks)) cmp"
  shows "rs_sort_by cmp (concat (map (rs_sort_by cmp) chunks)) = rs_sort_by cmp (concat chunks)"
  using assms
proof (induction chunks)
  case (Cons xs chunks)
  have "rs_sort_by cmp (concat (map (rs_sort_by cmp) chunks)) = rs_sort_by cmp (concat chunks)"
    by (rule Cons.IH) (rule orders_subset [OF Cons.prems], auto)
  moreover have "set (concat (map (rs_sort_by cmp) chunks)) = set (concat chunks)" by simp
  ultimately show ?case
    using sort_by_absorb [of xs "concat chunks" cmp] Cons.prems by (simp add: sort_by_append)
qed simp

text \<open>A row before everything ahead of it, and not after what follows, comes first.\<close>

lemma sort_by_first:
  assumes "orders (set (xs @ x # ys)) cmp" "\<forall>y \<in> set xs. cmp x y = Less" "\<forall>y \<in> set ys. cmp x y \<noteq> Greater"
  shows "rs_sort_by cmp (xs @ x # ys) = x # rs_sort_by cmp (xs @ ys)"
  using assms
proof (induction xs)
  case Nil
  then have "\<forall>y \<in> set (rs_sort_by cmp ys). cmp x y \<noteq> Greater" by simp
  then show ?case by (cases "rs_sort_by cmp ys") auto
next
  case (Cons a xs)
  have "rs_sort_by cmp (xs @ x # ys) = x # rs_sort_by cmp (xs @ ys)"
    by (rule Cons.IH) (rule orders_subset [OF Cons.prems(1)], use Cons.prems in auto)
  moreover have "cmp a x = Greater" using Cons.prems orders_flip [OF Cons.prems(1), of x a] by simp
  ultimately show ?case by simp
qed

subsection \<open>The merge\<close>

text \<open>A row whose text lengths, value count and encoded length fit their 32-bit fields.\<close>

definition storable :: "row_values \<Rightarrow> bool" where
  "storable row \<longleftrightarrow> row_ok row \<and> length (encode_row row) < 2 ^ 32"

text \<open>The rows a run has still to give.\<close>

definition holds :: "sort_run \<Rightarrow> row_values list \<Rightarrow> bool" where
  "holds r rows \<longleftrightarrow> list_all storable rows \<and>
     (case rows of
        [] \<Rightarrow> run_head r = None \<and> run_reader r = []
      | row # rest \<Rightarrow> run_head r = Some row \<and> run_reader r = concat (map frame rest))"

lemma holds_head: "holds r rows \<Longrightarrow> run_head r = (if rows = [] then None else Some (hd rows))"
  by (cases rows) (auto simp: holds_def)

lemma frame_parts:
  assumes "storable row"
  shows "le_nat (take 4 (frame row @ bs)) = length (encode_row row)" "drop 4 (frame row @ bs) = encode_row row @ bs"
    "4 \<le> length (frame row @ bs)"
  using assms by (simp_all add: frame_def u32_bytes_def le_nat_le_bytes storable_def unat_of_nat)

lemma decode_row_encoded [simp]: "storable row \<Longrightarrow> decode_row (encode_row row) = Inr row"
  using decode_encode_row [of row "[]"] by (simp add: storable_def)

lemma advance_frames:
  assumes "run_reader r = concat (map frame rows)" "list_all storable rows"
  obtains r1 where "run_advance r = Inr r1" "holds r1 rows"
proof (cases rows)
  case Nil
  then show ?thesis using that [of "r \<lparr> run_reader := [], run_head := None \<rparr>"] assms
    by (simp add: run_advance_def holds_def)
next
  case (Cons row rest)
  let ?r = "r \<lparr> run_reader := concat (map frame rest), run_head := Some row, run_seq := run_seq r + 1 \<rparr>"
  have row: "storable row" and rd: "run_reader r = frame row @ concat (map frame rest)" using assms Cons by simp_all
  have "run_advance r = Inr ?r"
    using frame_parts [OF row, of "concat (map frame rest)"] row by (simp add: run_advance_def rd Let_def)
  then show ?thesis using that [of ?r] assms Cons by (simp add: holds_def)
qed

lemma open_runs_hold:
  assumes "list_all (list_all storable) rss"
  obtains rs where "open_runs (map (\<lambda>rows. concat (map frame rows)) rss) = Inr rs" "list_all2 holds rs rss"
  using assms
proof (induction rss arbitrary: thesis)
  case (Cons rows rss)
  obtain r where r: "run_advance \<lparr> run_reader = concat (map frame rows), run_head = None, run_seq = 0 \<rparr> = Inr r" "holds r rows"
    using advance_frames [of "\<lparr> run_reader = concat (map frame rows), run_head = None, run_seq = 0 \<rparr>" rows] Cons.prems
    by auto
  obtain rs where rs: "open_runs (map (\<lambda>rows. concat (map frame rows)) rss) = Inr rs" "list_all2 holds rs rss"
    using Cons by auto
  show ?case by (rule Cons.prems(1) [of "r # rs"]) (use r rs in simp_all)
qed simp

text \<open>The head chosen is the first of the least.\<close>

definition least_upto :: "row_cmp \<Rightarrow> row_values list list \<Rightarrow> nat \<Rightarrow> nat option \<Rightarrow> bool" where
  "least_upto cmp rss n best \<longleftrightarrow>
     (case best of
        None \<Rightarrow> \<forall>i < n. rss ! i = []
      | Some b \<Rightarrow> b < n \<and> rss ! b \<noteq> [] \<and>
          (\<forall>i < n. rss ! i \<noteq> [] \<longrightarrow>
             (i < b \<longrightarrow> cmp (hd (rss ! b)) (hd (rss ! i)) = Less) \<and>
             (b < i \<longrightarrow> cmp (hd (rss ! b)) (hd (rss ! i)) \<noteq> Greater)))"

lemma better_head_least:
  assumes rs: "list_all2 holds rs rss" and o: "orders (set (concat rss)) cmp" and n: "n < length rss"
    and best: "least_upto cmp rss n best"
  shows "least_upto cmp rss (Suc n) (better_head cmp rs n best)"
proof -
  have head: "run_head (rs ! i) = (if rss ! i = [] then None else Some (hd (rss ! i)))" if "i < length rss" for i
    using rs that holds_head by (simp add: list_all2_conv_all_nth)
  have mem: "hd (rss ! i) \<in> set (concat rss)" if "i < length rss" "rss ! i \<noteq> []" for i
    using that by (auto intro!: bexI [of _ "rss ! i"])
  show ?thesis
  proof (cases "rss ! n = []")
    case True
    then show ?thesis using best head [OF n] by (auto simp: least_upto_def better_head_def less_Suc_eq split: option.splits)
  next
    case ne: False
    show ?thesis
    proof (cases best)
      case None
      then show ?thesis using best head [OF n] ne by (auto simp: least_upto_def better_head_def less_Suc_eq)
    next
      case (Some b)
      then have b: "b < n" "rss ! b \<noteq> []" using best by (auto simp: least_upto_def)
      have hb: "hd (rss ! b) \<in> set (concat rss)" "hd (rss ! n) \<in> set (concat rss)" using mem b n ne by auto
      show ?thesis
      proof (cases "cmp (hd (rss ! n)) (hd (rss ! b)) = Less")
        case less: True
        have "cmp (hd (rss ! n)) (hd (rss ! i)) = Less" if i: "i < n" "rss ! i \<noteq> []" for i
        proof (cases "i = b")
          case False
          then have "cmp (hd (rss ! b)) (hd (rss ! i)) \<noteq> Greater"
            using best Some i by (cases "i < b") (auto simp: least_upto_def)
          then show ?thesis using orders_less_trans(1) [OF o hb(2,1) mem] less i n by simp
        qed (simp add: less)
        then show ?thesis using less Some head [OF n] head [of b] b ne n
          by (auto simp: least_upto_def better_head_def less_Suc_eq)
      next
        case False
        then have "cmp (hd (rss ! b)) (hd (rss ! n)) \<noteq> Greater" using orders_flip [OF o hb(2,1)] by simp
        then show ?thesis using False Some best head [OF n] head [of b] b ne n
          by (auto simp: least_upto_def better_head_def less_Suc_eq)
      qed
    qed
  qed
qed

lemma best_run_least:
  assumes "list_all2 holds rs rss" "orders (set (concat rss)) cmp"
  shows "least_upto cmp rss (length rss) (best_run cmp rs)"
proof -
  have "n \<le> length rss \<Longrightarrow> least_upto cmp rss n (fold (better_head cmp rs) [0..<n] None)" for n
  proof (induction n)
    case 0
    show ?case by (simp add: least_upto_def)
  next
    case (Suc n)
    then show ?case using better_head_least [OF assms, of n] by simp
  qed
  then show ?thesis using assms(1) by (simp add: best_run_def list_all2_lengthD)
qed

lemma merge_first:
  assumes o: "orders (set (concat rss)) cmp" and asc: "list_all (ascending cmp) rss"
    and l: "least_upto cmp rss (length rss) (Some b)"
  shows "rs_sort_by cmp (concat rss) = hd (rss ! b) # rs_sort_by cmp (concat (rss[b := tl (rss ! b)]))"
proof -
  have b: "b < length rss" "rss ! b \<noteq> []" using l by (auto simp: least_upto_def)
  let ?x = "hd (rss ! b)" and ?P = "concat (take b rss)" and ?Q = "tl (rss ! b) @ concat (drop (Suc b) rss)"
  have eq: "concat rss = ?P @ ?x # ?Q" using b by (subst id_take_nth_drop [OF b(1)]) simp
  have upd: "concat (rss[b := tl (rss ! b)]) = ?P @ ?Q" using b by (simp add: upd_conv_take_nth_drop)
  have x: "?x \<in> set (concat rss)" by (simp only: eq) simp
  have tail: "cmp (hd (rss ! i)) y \<noteq> Greater \<or> y = hd (rss ! i)" if "i < length rss" "y \<in> set (rss ! i)" for i y
    using asc that by (cases "rss ! i") (auto simp: list_all_length)
  have mem: "y \<in> set (concat rss)" "hd (rss ! i) \<in> set (concat rss)" if "i < length rss" "y \<in> set (rss ! i)" for i y
    using that hd_in_set [of "rss ! i"] by (fastforce intro!: bexI [of _ "rss ! i"])+
  have "cmp ?x y = Less" if y: "y \<in> set ?P" for y
  proof -
    obtain ys where "ys \<in> set (take b rss)" "y \<in> set ys" using y by auto
    then obtain i where i: "i < b" "y \<in> set (rss ! i)" using b by (auto simp: in_set_conv_nth [where x = ys])
    then have "rss ! i \<noteq> []" by auto
    then have "cmp ?x (hd (rss ! i)) = Less" using l i b by (auto simp: least_upto_def)
    moreover have il: "i < length rss" using i b by simp
    ultimately show ?thesis using tail [OF il i(2)] orders_less_trans(1) [OF o x mem(2) [OF il i(2)] mem(1) [OF il i(2)]] by auto
  qed
  moreover have "cmp ?x y \<noteq> Greater" if y: "y \<in> set ?Q" for y
  proof (cases "y \<in> set (tl (rss ! b))")
    case True
    then show ?thesis using asc b by (cases "rss ! b") (auto simp: list_all_length)
  next
    case False
    then obtain ys where "ys \<in> set (drop (Suc b) rss)" "y \<in> set ys" using y by auto
    then obtain k where "k < length (drop (Suc b) rss)" "drop (Suc b) rss ! k = ys" "y \<in> set ys" by (auto simp: in_set_conv_nth [where x = ys])
    then have i: "b < Suc b + k" "Suc b + k < length rss" "y \<in> set (rss ! (Suc b + k))" using b by auto
    define i where "i = Suc b + k"
    note i = i [folded i_def]
    then have "rss ! i \<noteq> []" by auto
    then have "cmp ?x (hd (rss ! i)) \<noteq> Greater" using l i b by (auto simp: least_upto_def)
    then show ?thesis using tail [OF i(2,3)] orders_trans [OF o x mem(2) [OF i(2,3)] mem(1) [OF i(2,3)]] by auto
  qed
  ultimately show ?thesis using sort_by_first [of ?P ?x ?Q cmp] o by (simp add: eq upd)
qed

lemma next_row_merge:
  assumes "cur_mem c = None" "list_all2 holds (cur_runs c) rss" "orders (set (concat rss)) (cur_cmp c)"
    "least_upto (cur_cmp c) rss (length rss) (Some b)" "best_run (cur_cmp c) (cur_runs c) = Some b"
  obtains r1 where "next_row c = Inr (Some (hd (rss ! b)), c \<lparr> cur_runs := (cur_runs c)[b := r1] \<rparr>)"
    "list_all2 holds ((cur_runs c)[b := r1]) (rss[b := tl (rss ! b)])"
proof -
  have b: "b < length rss" "rss ! b \<noteq> []" using assms(4) by (auto simp: least_upto_def)
  have h: "holds (cur_runs c ! b) (rss ! b)" using assms(2) b by (simp add: list_all2_conv_all_nth)
  have "run_reader ((cur_runs c ! b) \<lparr> run_head := None \<rparr>) = concat (map frame (tl (rss ! b)))"
    "list_all storable (tl (rss ! b))"
    using h b(2) by (auto simp: holds_def neq_Nil_conv)
  then obtain r1 where r1: "run_advance ((cur_runs c ! b) \<lparr> run_head := None \<rparr>) = Inr r1" "holds r1 (tl (rss ! b))"
    by (rule advance_frames)
  show ?thesis
  proof (rule that)
    show "next_row c = Inr (Some (hd (rss ! b)), c \<lparr> cur_runs := (cur_runs c)[b := r1] \<rparr>)"
      using assms(1,5) r1(1) holds_head [OF h] b(2) by (simp add: next_row_def Let_def)
    show "list_all2 holds ((cur_runs c)[b := r1]) (rss[b := tl (rss ! b)])"
      using assms(2) r1(2) by (rule list_all2_update_cong)
  qed
qed

lemma collect_all_memory: "cur_mem c = Some rows \<Longrightarrow> collect_all c = Inr rows"
proof (induction rows arbitrary: c)
  case Nil
  then show ?case by (subst collect_all.simps) (simp add: next_row_def)
next
  case (Cons row rows)
  have "collect_all (c \<lparr> cur_mem := Some rows \<rparr>) = Inr rows" by (rule Cons.IH) simp
  then show ?case using Cons.prems by (subst collect_all.simps) (simp add: next_row_def)
qed

lemma collect_all_merge:
  assumes "cur_mem c = None" "list_all2 holds (cur_runs c) rss" "orders (set (concat rss)) (cur_cmp c)"
    "list_all (ascending (cur_cmp c)) rss"
  shows "collect_all c = Inr (rs_sort_by (cur_cmp c) (concat rss))"
  using assms
proof (induction "length (concat rss)" arbitrary: c rss)
  case less: 0
  then have ne: "\<forall>rows \<in> set rss. rows = []" by simp
  have l: "least_upto (cur_cmp c) rss (length rss) (best_run (cur_cmp c) (cur_runs c))"
    by (rule best_run_least [OF less(3,4)])
  then have "best_run (cur_cmp c) (cur_runs c) = None"
    using ne by (auto simp: least_upto_def split: option.splits)
  moreover have e: "concat rss = []" using ne by simp
  ultimately show ?case using less(2) by (subst collect_all.simps) (simp add: next_row_def e del: concat_eq_Nil_conv)
next
  case (Suc n)
  have l: "least_upto (cur_cmp c) rss (length rss) (best_run (cur_cmp c) (cur_runs c))"
    by (rule best_run_least [OF Suc.prems(2,3)])
  obtain b where b: "best_run (cur_cmp c) (cur_runs c) = Some b"
  proof (cases "best_run (cur_cmp c) (cur_runs c)")
    case None
    then have "\<forall>rows \<in> set rss. rows = []" using l by (auto simp: least_upto_def in_set_conv_nth)
    then have "concat rss = []" by simp
    then show ?thesis using Suc.hyps(2) by (simp del: concat_eq_Nil_conv)
  qed
  note l = l [unfolded b]
  have lt: "b < length rss" "rss ! b \<noteq> []" using l by (auto simp: least_upto_def)
  obtain r1 where r1: "next_row c = Inr (Some (hd (rss ! b)), c \<lparr> cur_runs := (cur_runs c)[b := r1] \<rparr>)"
    "list_all2 holds ((cur_runs c)[b := r1]) (rss[b := tl (rss ! b)])"
    by (rule next_row_merge [OF Suc.prems(1-3) l b])
  let ?rss = "rss[b := tl (rss ! b)]" and ?c = "c \<lparr> cur_runs := (cur_runs c)[b := r1] \<rparr>"
  have m: "rs_sort_by (cur_cmp c) (concat rss) = hd (rss ! b) # rs_sort_by (cur_cmp c) (concat ?rss)"
    by (rule merge_first [OF Suc.prems(3,4) l])
  have "mset (concat rss) = add_mset (hd (rss ! b)) (mset (concat ?rss))"
    using arg_cong [OF m, of mset] by simp
  then have n: "n = length (concat ?rss)" and sub: "set (concat ?rss) \<subseteq> set (concat rss)"
    using Suc.hyps(2) by (auto simp flip: size_mset set_mset_mset)
  have "ascending (cur_cmp c) (tl (rss ! b))"
    using Suc.prems(4) lt by (cases "rss ! b") (auto simp: list_all_length)
  then have "list_all (ascending (cur_cmp c)) ?rss"
    using Suc.prems(4) lt by (auto simp: list_all_length nth_list_update)
  then have "collect_all ?c = Inr (rs_sort_by (cur_cmp c) (concat ?rss))"
    using Suc.hyps(1) [OF n, of ?c] Suc.prems r1(2) orders_subset [OF Suc.prems(3) sub] by simp
  then show ?case by (subst collect_all.simps) (simp add: r1(1) m)
qed

subsection \<open>Putting\<close>

text \<open>The runs written so far, as the chunks of rows they hold.\<close>

definition put_state :: "row_cmp \<Rightarrow> nat \<Rightarrow> row_values list list \<Rightarrow> row_values list \<Rightarrow> ext_sort \<Rightarrow> bool" where
  "put_state cmp b chunks rows s \<longleftrightarrow>
     es_cmp s = cmp \<and> es_budget s = b \<and> es_buf s = rows \<and>
     es_runs s = map (\<lambda>chunk. concat (map frame (rs_sort_by cmp chunk))) chunks \<and>
     es_total s = length (concat chunks @ rows)"

lemma spill_run_state:
  "put_state cmp b chunks rows s \<Longrightarrow> rows \<noteq> [] \<Longrightarrow> put_state cmp b (chunks @ [rows]) [] (spill_run s)"
  by (auto simp: put_state_def spill_run_def)

lemma put_row_state:
  assumes "put_state cmp b chunks rows s"
  obtains chunks1 rows1 where "put_state cmp b chunks1 rows1 (put_row row s)" "concat chunks1 @ rows1 = concat chunks @ rows @ [row]"
proof -
  let ?s = "s \<lparr> es_used := es_used s + row_bytes row, es_total := es_total s + 1, es_buf := es_buf s @ [row] \<rparr>"
  have st: "put_state cmp b chunks (rows @ [row]) ?s" using assms by (auto simp: put_state_def)
  show ?thesis
  proof (cases "es_used ?s > es_budget ?s")
    case True
    then have "put_row row s = spill_run ?s" by (simp add: put_row_def Let_def)
    then show ?thesis using that [of "chunks @ [rows @ [row]]" "[]"] spill_run_state [OF st] by simp
  next
    case False
    then have "put_row row s = ?s" by (simp add: put_row_def Let_def)
    then show ?thesis using that [of chunks "rows @ [row]"] st by simp
  qed
qed

lemma put_rows_state:
  assumes "put_state cmp b chunks rows s"
  obtains chunks1 rows1 where "put_state cmp b chunks1 rows1 (fold put_row more_rows s)"
    "concat chunks1 @ rows1 = concat chunks @ rows @ more_rows"
  using assms
proof (induction more_rows arbitrary: s chunks rows thesis)
  case (Cons row more_rows)
  obtain chunks1 rows1 where s1: "put_state cmp b chunks1 rows1 (put_row row s)"
    and c1: "concat chunks1 @ rows1 = concat chunks @ rows @ [row]"
    by (rule put_row_state [OF Cons.prems(2)])
  obtain chunks2 rows2 where s2: "put_state cmp b chunks2 rows2 (fold put_row more_rows (put_row row s))"
    and c2: "concat chunks2 @ rows2 = concat chunks1 @ rows1 @ more_rows"
    by (rule Cons.IH [OF _ s1])
  have "concat chunks2 @ rows2 = concat chunks @ rows @ row # more_rows"
    using c2 arg_cong [OF c1, of "\<lambda>xs. xs @ more_rows"] by simp
  then show ?case using Cons.prems(1) [of chunks2 rows2] s2 by simp
qed simp

lemma runs_merge:
  assumes o: "orders (set (concat chunks)) cmp" and st: "list_all storable (concat chunks)"
    and c: "cur_mem c = None" "cur_cmp c = cmp"
    and r: "list_all2 holds (cur_runs c) (map (rs_sort_by cmp) chunks)"
  shows "collect_all c = Inr (rs_sort_by cmp (concat chunks))"
proof -
  have "set (concat (map (rs_sort_by cmp) chunks)) = set (concat chunks)" by simp
  then have "orders (set (concat (map (rs_sort_by cmp) chunks))) cmp" using o by simp
  moreover have "list_all (ascending cmp) (map (rs_sort_by cmp) chunks)"
  proof (clarsimp simp: list_all_iff)
    fix chunk assume "chunk \<in> set chunks"
    then show "ascending cmp (rs_sort_by cmp chunk)"
      by (intro sort_by_ascending orders_subset [OF o]) auto
  qed
  ultimately have "collect_all c = Inr (rs_sort_by cmp (concat (map (rs_sort_by cmp) chunks)))"
    using collect_all_merge [OF c(1) r] c(2) by simp
  then show ?thesis using sort_by_chunks [OF o] by simp
qed

lemma finish_sort_state:
  assumes s: "put_state cmp b chunks rows s" and o: "orders (set (concat chunks @ rows)) cmp"
    and st: "list_all storable (concat chunks @ rows)"
  obtains c where "finish_sort s = Inr c" "collect_all c = Inr (rs_sort_by cmp (concat chunks @ rows))"
proof (cases "chunks = []")
  case True
  let ?c = "\<lparr> cur_cmp = cmp, cur_mem = Some (rs_sort_by cmp rows), cur_runs = [], cur_stats = (es_total s, 0, 0) \<rparr>"
  have "finish_sort s = Inr ?c" using s True by (simp add: finish_sort_def put_state_def)
  then show ?thesis using that [of ?c] True by (simp add: collect_all_memory)
next
  case False
  define chunks1 where "chunks1 = (if rows = [] then chunks else chunks @ [rows])"
  have c1: "concat chunks1 = concat chunks @ rows" "chunks1 \<noteq> []" using False by (auto simp: chunks1_def)
  have s1: "put_state cmp b chunks1 [] (spill_run s)"
    using s spill_run_state [OF s] by (auto simp: chunks1_def spill_run_def put_state_def)
  let ?rss = "map (rs_sort_by cmp) chunks1"
  have "list_all (list_all storable) ?rss" using st by (auto simp: c1(1) [symmetric] list_all_iff)
  then obtain rs where rs: "open_runs (map (\<lambda>rows. concat (map frame rows)) ?rss) = Inr rs" "list_all2 holds rs ?rss"
    by (rule open_runs_hold)
  let ?c = "\<lparr> cur_cmp = cmp, cur_mem = None, cur_runs = rs,
              cur_stats = (es_total (spill_run s), length (es_runs (spill_run s)), es_spilled (spill_run s)) \<rparr>"
  have "finish_sort s = Inr ?c"
    using s s1 rs(1) False by (simp add: finish_sort_def put_state_def comp_def)
  moreover have "collect_all ?c = Inr (rs_sort_by cmp (concat chunks @ rows))"
    using runs_merge [of chunks1 cmp ?c] o st rs(2) by (simp add: c1(1))
  ultimately show ?thesis by (rule that)
qed

lemma sort_rows_stable:
  assumes "orders (set rows) cmp" "list_all storable rows"
  shows "sort_rows cmp b rows = Inr (rs_sort_by cmp rows)"
proof -
  have "put_state cmp b [] [] (with_budget cmp b)" by (simp add: put_state_def with_budget_def)
  then obtain chunks1 rows1 where s: "put_state cmp b chunks1 rows1 (fold put_row rows (with_budget cmp b))"
    "concat chunks1 @ rows1 = concat [] @ [] @ rows"
    by (rule put_rows_state)
  then have c: "concat chunks1 @ rows1 = rows" by simp
  obtain c where "finish_sort (fold put_row rows (with_budget cmp b)) = Inr c" "collect_all c = Inr (rs_sort_by cmp rows)"
    by (rule finish_sort_state [OF s(1)]) (use assms c in simp_all)
  then show ?thesis by (simp add: sort_rows_def)
qed

text \<open>C38: the external sort answers, for every memory budget, every row exactly once, in the
  comparator's order, rows that compare equal in the order they were put. It never fails on the
  rows it wrote, and whether anything was spilled cannot be seen in the answer.\<close>

theorem external_sort_is_stable_sort:
  assumes "orders (set rows) cmp" "list_all storable rows"
  shows "sort_rows cmp b rows = Inr (rs_sort_by cmp rows) \<and>
    sorted_wrt (\<lambda>x y. cmp x y \<noteq> Greater) (rs_sort_by cmp rows) \<and>
    mset (rs_sort_by cmp rows) = mset rows \<and>
    (\<forall>x \<in> set rows. filter (\<lambda>y. cmp x y = Equal) (rs_sort_by cmp rows) = filter (\<lambda>y. cmp x y = Equal) rows)"
  using sort_rows_stable [OF assms] sort_by_ascending [OF assms(1)] assms(1)
  by (auto simp: sort_by_stable insert_absorb)

definition first_cmp :: row_cmp where
  "first_cmp a b = (case (a, b) of (IntValue x # _, IntValue y # _) \<Rightarrow> word_cmp (sint x) (sint y) | _ \<Rightarrow> Equal)"

definition demo_rows :: "row_values list" where
  "demo_rows = [[IntValue 3, IntValue 0], [IntValue 1, TextValue [104, 233]], [IntValue 3, IntValue 2], [IntValue (- 2), Null]]"

lemma external_sort_is_stable_sort_witness:
  "sort_rows first_cmp 150 demo_rows =
   Inr [[IntValue (- 2), Null], [IntValue 1, TextValue [104, 233]], [IntValue 3, IntValue 0], [IntValue 3, IntValue 2]]"
proof -
  have o: "orders (set demo_rows) first_cmp"
    by (simp add: orders_def demo_rows_def first_cmp_def word_cmp_def)
  have st: "list_all storable demo_rows"
    by (simp add: demo_rows_def storable_def row_ok_def scalar_def utf8_def utf8_char_def encode_row_def)
  have "rs_sort_by first_cmp demo_rows =
      [[IntValue (- 2), Null], [IntValue 1, TextValue [104, 233]], [IntValue 3, IntValue 0], [IntValue 3, IntValue 2]]"
    by (simp add: demo_rows_def first_cmp_def word_cmp_def)
  then show ?thesis using external_sort_is_stable_sort [OF o st, of 150] by simp
qed

subsection \<open>The row store\<close>

definition store_state :: "nat \<Rightarrow> row_values list \<Rightarrow> row_values list \<Rightarrow> row_store \<Rightarrow> bool" where
  "store_state b spilled held s \<longleftrightarrow>
     rs_budget s = b \<and> rs_count s = length (spilled @ held) \<and>
     rs_mem s = concat (map frame held) \<and> rs_spilled s = length (concat (map frame spilled)) \<and>
     (case rs_file s of None \<Rightarrow> spilled = [] | Some f \<Rightarrow> f = concat (map frame spilled))"

lemma push_frame:
  assumes "storable row"
  shows "splice (mem @ [0, 0, 0, 0] @ encode_row row) (length mem)
      (u32_bytes (of_nat (length (mem @ [0, 0, 0, 0] @ encode_row row) - length mem - 4))) = mem @ frame row"
  by (simp add: splice_def frame_def)

lemma spill_store_state: "store_state b spilled held s \<Longrightarrow> store_state b (spilled @ held) [] (spill_store s)"
  by (auto simp: store_state_def spill_store_def write_all_at_def Let_def split: option.splits)

lemma push_row_state:
  assumes s: "store_state b spilled held s" and "storable row"
  obtains spilled1 held1 s1 where
    "push_row row s = (length (concat (map frame (spilled @ held))), s1)"
    "store_state b spilled1 held1 s1" "spilled1 @ held1 = spilled @ held @ [row]"
proof -
  let ?s = "s \<lparr> rs_mem := rs_mem s @ frame row, rs_count := rs_count s + 1 \<rparr>"
  have st: "store_state b spilled (held @ [row]) ?s" using s by (simp add: store_state_def split: option.splits)
  have p: "push_row row s = (rs_spilled s + length (rs_mem s), if length (rs_mem ?s) > rs_budget ?s then spill_store ?s else ?s)"
    unfolding push_row_def Let_def push_frame [OF assms(2)] by simp
  show ?thesis
  proof (cases "length (rs_mem ?s) > rs_budget ?s")
    case True
    then show ?thesis
      using that [of "spill_store ?s" "spilled @ held @ [row]" "[]"] p spill_store_state [OF st] s by (simp add: store_state_def)
  next
    case False
    then show ?thesis using that [of ?s spilled "held @ [row]"] p st s by (simp add: store_state_def)
  qed
qed

lemma frame_in_buffer:
  assumes "storable row" "buf = concat (map frame us) @ frame row @ rest" "at = length (concat (map frame us))"
  defines "l \<equiv> u32_bytes (of_nat (length (encode_row row)))"
  shows "get_range buf at (at + 4) = Some l" "le_nat l = length (encode_row row)" "take 4 (drop at buf) = l"
    "get_range buf (at + 4) (at + 4 + length (encode_row row)) = Some (encode_row row)"
    "take (length (encode_row row)) (drop (at + 4) buf) = encode_row row"
    "at + 4 + length (encode_row row) \<le> length buf"
proof -
  show "get_range buf at (at + 4) = Some l" "take 4 (drop at buf) = l"
    "get_range buf (at + 4) (at + 4 + length (encode_row row)) = Some (encode_row row)"
    "take (length (encode_row row)) (drop (at + 4) buf) = encode_row row"
    "at + 4 + length (encode_row row) \<le> length buf"
    using assms(2,3) by (simp_all add: get_range_def frame_def l_def)
  show "le_nat l = length (encode_row row)"
    using assms(1) by (simp add: l_def storable_def u32_bytes_def le_nat_le_bytes unat_of_nat)
qed

lemma get_row_state:
  assumes s: "store_state b spilled held s" and rows: "spilled @ held = us @ row # vs" and ok: "storable row"
  shows "get_row s (length (concat (map frame us))) = Ret (Inr row)"
proof (cases "length us < length spilled")
  case True
  then obtain xs where xs: "spilled = us @ xs" "xs @ held = row # vs" using rows by (auto simp: append_eq_append_conv2)
  then obtain ws where sp: "spilled = us @ row # ws" using True by (cases xs) auto
  obtain f where f: "rs_file s = Some f" "f = concat (map frame us) @ frame row @ concat (map frame ws)"
    using s sp by (auto simp: store_state_def split: option.splits)
  have "length (concat (map frame us)) < rs_spilled s" using s sp by (simp add: store_state_def frame_def)
  then show ?thesis
    using f(1) frame_in_buffer [OF ok f(2) refl] ok
    by (simp add: get_row_def read_exact_at_def)
next
  case False
  then obtain hs where h: "us = spilled @ hs" "held = hs @ row # vs" using rows by (auto simp: append_eq_append_conv2)
  have m: "rs_mem s = concat (map frame hs) @ frame row @ concat (map frame vs)" using s h by (simp add: store_state_def)
  have "length (concat (map frame us)) = rs_spilled s + length (concat (map frame hs))"
    using s h by (simp add: store_state_def)
  then show ?thesis
    using frame_in_buffer [OF ok m refl] ok by (simp add: get_row_def rs_slice_def Let_def)
qed

lemma push_rows_state:
  assumes "store_state b spilled held s" "list_all storable rows"
  obtains offs s1 spilled1 held1 where "push_rows rows s = (offs, s1)" "store_state b spilled1 held1 s1"
    "spilled1 @ held1 = spilled @ held @ rows"
    "offs = map (\<lambda>i. length (concat (map frame (spilled @ held @ take i rows)))) [0..<length rows]"
  using assms
proof (induction rows arbitrary: spilled held s thesis)
  case (Cons row rows)
  have row: "storable row" "list_all storable rows" using Cons.prems(3) by simp_all
  obtain spilled1 held1 s1 where s1: "push_row row s = (length (concat (map frame (spilled @ held))), s1)"
    "store_state b spilled1 held1 s1" "spilled1 @ held1 = spilled @ held @ [row]"
    by (rule push_row_state [OF Cons.prems(2) row(1)])
  obtain offs s2 spilled2 held2 where s2: "push_rows rows s1 = (offs, s2)" "store_state b spilled2 held2 s2"
    "spilled2 @ held2 = spilled1 @ held1 @ rows"
    "offs = map (\<lambda>i. length (concat (map frame (spilled1 @ held1 @ take i rows)))) [0..<length rows]"
    by (rule Cons.IH [OF _ s1(2) row(2)])
  have e: "spilled1 @ held1 @ ys = spilled @ held @ row # ys" for ys
    using arg_cong [OF s1(3), of "\<lambda>xs. xs @ ys"] by simp
  show ?case
  proof (rule Cons.prems(1))
    show "push_rows (row # rows) s = (length (concat (map frame (spilled @ held))) # offs, s2)" using s1(1) s2(1) by simp
    show "store_state b spilled2 held2 s2" by (rule s2(2))
    show "spilled2 @ held2 = spilled @ held @ row # rows" using s2(3) e by simp
    show "length (concat (map frame (spilled @ held))) # offs =
        map (\<lambda>i. length (concat (map frame (spilled @ held @ take i (row # rows))))) [0..<length (row # rows)]"
      using s2(4) by (simp add: e upt_rec [of 0] map_Suc_upt [symmetric] comp_def del: upt_Suc)
  qed
qed simp

text \<open>C39: a row stored is found at the offset it was given, whatever the budget and however many
  rows were stored after it: the store reads it from the file when it was spilled and from memory
  otherwise.\<close>

theorem row_store_finds_rows:
  assumes "list_all storable rows" "push_rows rows (store_with_budget b) = (offs, s)" "i < length rows"
  shows "length offs = length rows \<and> rs_count s = length rows \<and> get_row s (offs ! i) = Ret (Inr (rows ! i))"
proof -
  have "store_state b [] [] (store_with_budget b)" by (simp add: store_state_def store_with_budget_def)
  then obtain spilled held where s: "store_state b spilled held s" "spilled @ held = rows"
    and offs: "offs = map (\<lambda>i. length (concat (map frame (take i rows)))) [0..<length rows]"
  proof (rule push_rows_state [OF _ assms(1)])
    fix offs1 s1 spilled1 held1
    assume "push_rows rows (store_with_budget b) = (offs1, s1)" "store_state b spilled1 held1 s1"
      "spilled1 @ held1 = [] @ [] @ rows"
      "offs1 = map (\<lambda>i. length (concat (map frame ([] @ [] @ take i rows)))) [0..<length rows]"
    then show thesis using that [of spilled1 held1] assms(2) by simp
  qed
  have "spilled @ held = take i rows @ rows ! i # drop (Suc i) rows" using s(2) assms(3) by (simp add: id_take_nth_drop)
  then have "get_row s (length (concat (map frame (take i rows)))) = Ret (Inr (rows ! i))"
    using assms(1,3) by (intro get_row_state [OF s(1)]) (auto simp: list_all_length)
  then show ?thesis using s offs assms(3) by (simp add: store_state_def)
qed

lemma row_store_finds_rows_witness:
  "get_row (snd (push_rows demo_rows (store_with_budget 20))) (fst (push_rows demo_rows (store_with_budget 20)) ! 1) =
   Ret (Inr [IntValue 1, TextValue [104, 233]])"
proof -
  have st: "list_all storable demo_rows"
    by (simp add: demo_rows_def storable_def row_ok_def scalar_def utf8_def utf8_char_def encode_row_def)
  show ?thesis
    using row_store_finds_rows [OF st prod.collapse [symmetric], of 1 20] by (simp add: demo_rows_def)
qed

end
