(* ===== verification/Coll.thy ===== *)
theory Coll
  imports Intl
begin

text \<open>
  The narrow collation driver of \<^verbatim>\<open>crates/ods/src/coll.rs\<close> with the tables of \<^verbatim>\<open>PXW_INTL\<close>: the sort key,
  the streaming comparison and the case mapping. A weight row is primary, secondary, tertiary, the
  expansion flag and the compression flag. The Unicode collations of the file call the crate
  \<^verbatim>\<open>icu_collator\<close> and are not modelled.
\<close>

type_synonym weights = "int \<times> int \<times> int \<times> int \<times> int"

definition PXW_INTL_ORDER :: "weights list" where
  "PXW_INTL_ORDER = concat [
    [(15, 0, 0, 0, 0), (16, 0, 0, 0, 0), (17, 0, 0, 0, 0), (18, 0, 0, 0, 0), (19, 0, 0, 0, 0), (20, 0, 0, 0, 0), (21, 0, 0, 0, 0), (22, 0, 0, 0, 0)],
    [(23, 0, 0, 0, 0), (24, 0, 0, 0, 0), (25, 0, 0, 0, 0), (26, 0, 0, 0, 0), (27, 0, 0, 0, 0), (28, 0, 0, 0, 0), (29, 0, 0, 0, 0), (30, 0, 0, 0, 0)],
    [(31, 0, 0, 0, 0), (32, 0, 0, 0, 0), (33, 0, 0, 0, 0), (34, 0, 0, 0, 0), (35, 0, 0, 0, 0), (36, 0, 0, 0, 0), (37, 0, 0, 0, 0), (38, 0, 0, 0, 0)],
    [(39, 0, 0, 0, 0), (40, 0, 0, 0, 0), (41, 0, 0, 0, 0), (42, 0, 0, 0, 0), (43, 0, 0, 0, 0), (44, 0, 0, 0, 0), (45, 0, 0, 0, 0), (46, 0, 0, 0, 0)],
    [(47, 0, 0, 0, 0), (48, 0, 0, 0, 0), (49, 0, 0, 0, 0), (50, 0, 0, 0, 0), (51, 0, 0, 0, 0), (52, 0, 0, 0, 0), (53, 0, 0, 0, 0), (54, 0, 0, 0, 0)],
    [(55, 0, 0, 0, 0), (56, 0, 0, 0, 0), (57, 0, 0, 0, 0), (58, 0, 0, 0, 0), (59, 0, 0, 0, 0), (60, 0, 0, 0, 0), (61, 0, 0, 0, 0), (62, 0, 0, 0, 0)],
    [(63, 0, 0, 0, 0), (64, 0, 0, 0, 0), (65, 0, 0, 0, 0), (66, 0, 0, 0, 0), (67, 0, 0, 0, 0), (68, 0, 0, 0, 0), (69, 0, 0, 0, 0), (70, 0, 0, 0, 0)],
    [(71, 0, 0, 0, 0), (72, 0, 0, 0, 0), (73, 0, 0, 0, 0), (74, 0, 0, 0, 0), (75, 0, 0, 0, 0), (76, 0, 0, 0, 0), (77, 0, 0, 0, 0), (78, 0, 0, 0, 0)],
    [(79, 0, 0, 0, 0), (80, 7, 0, 0, 0), (81, 3, 0, 0, 0), (82, 4, 0, 0, 0), (83, 4, 0, 0, 0), (84, 7, 0, 0, 0), (85, 3, 0, 0, 0), (86, 3, 0, 0, 0)],
    [(87, 3, 0, 0, 0), (88, 7, 0, 0, 0), (89, 3, 0, 0, 0), (90, 3, 0, 0, 0), (91, 3, 0, 0, 0), (92, 3, 0, 0, 0), (93, 4, 0, 0, 0), (94, 8, 0, 0, 0)],
    [(95, 3, 0, 0, 0), (96, 3, 0, 0, 0), (97, 3, 0, 0, 0), (98, 3, 0, 0, 0), (99, 3, 0, 0, 0), (100, 6, 0, 0, 0), (101, 3, 0, 0, 0), (102, 3, 0, 0, 0)],
    [(103, 3, 0, 0, 0), (104, 5, 0, 0, 0), (105, 3, 0, 0, 0), (108, 0, 0, 0, 0), (109, 0, 0, 0, 0), (110, 0, 0, 0, 0), (111, 0, 0, 0, 0), (112, 0, 0, 0, 0)],
    [(113, 0, 0, 0, 0), (80, 2, 0, 0, 0), (81, 2, 0, 0, 0), (82, 2, 0, 0, 0), (83, 2, 0, 0, 0), (84, 2, 0, 0, 0), (85, 2, 0, 0, 0), (86, 2, 0, 0, 0)],
    [(87, 2, 0, 0, 0), (88, 2, 0, 0, 0), (89, 2, 0, 0, 0), (90, 2, 0, 0, 0), (91, 2, 0, 0, 0), (92, 2, 0, 0, 0), (93, 2, 0, 0, 0), (94, 2, 0, 0, 0)],
    [(95, 2, 0, 0, 0), (96, 2, 0, 0, 0), (97, 2, 0, 0, 0), (98, 2, 0, 0, 0), (99, 2, 0, 0, 0), (100, 2, 0, 0, 0), (101, 2, 0, 0, 0), (102, 2, 0, 0, 0)],
    [(103, 2, 0, 0, 0), (104, 2, 0, 0, 0), (105, 2, 0, 0, 0), (114, 0, 0, 0, 0), (115, 0, 0, 0, 0), (116, 0, 0, 0, 0), (117, 0, 0, 0, 0), (118, 0, 0, 0, 0)],
    [(121, 0, 0, 0, 0), (122, 0, 0, 0, 0), (123, 0, 0, 0, 0), (124, 0, 0, 0, 0), (125, 0, 0, 0, 0), (126, 0, 0, 0, 0), (127, 0, 0, 0, 0), (128, 0, 0, 0, 0)],
    [(129, 0, 0, 0, 0), (130, 0, 0, 0, 0), (131, 0, 0, 0, 0), (132, 0, 0, 0, 0), (133, 0, 0, 0, 0), (134, 0, 0, 0, 0), (135, 0, 0, 0, 0), (136, 0, 0, 0, 0)],
    [(137, 0, 0, 0, 0), (138, 0, 0, 0, 0), (139, 0, 0, 0, 0), (140, 0, 0, 0, 0), (141, 0, 0, 0, 0), (142, 0, 0, 0, 0), (143, 0, 0, 0, 0), (144, 0, 0, 0, 0)],
    [(145, 0, 0, 0, 0), (146, 0, 0, 0, 0), (147, 0, 0, 0, 0), (148, 0, 0, 0, 0), (149, 0, 0, 0, 0), (150, 0, 0, 0, 0), (151, 0, 0, 0, 0), (152, 0, 0, 0, 0)],
    [(153, 0, 0, 0, 0), (154, 0, 0, 0, 0), (155, 0, 0, 0, 0), (156, 0, 0, 0, 0), (157, 0, 0, 0, 0), (158, 0, 0, 0, 0), (159, 0, 0, 0, 0), (160, 0, 0, 0, 0)],
    [(161, 0, 0, 0, 0), (162, 0, 0, 0, 0), (163, 0, 0, 0, 0), (164, 0, 0, 0, 0), (165, 0, 0, 0, 0), (166, 0, 0, 0, 0), (167, 0, 0, 0, 0), (168, 0, 0, 0, 0)],
    [(169, 0, 0, 0, 0), (170, 0, 0, 0, 0), (171, 0, 0, 0, 0), (172, 0, 0, 0, 0), (173, 0, 0, 0, 0), (174, 0, 0, 0, 0), (175, 0, 0, 0, 0), (176, 0, 0, 0, 0)],
    [(177, 0, 0, 0, 0), (178, 0, 0, 0, 0), (179, 0, 0, 0, 0), (180, 0, 0, 0, 0), (181, 0, 0, 0, 0), (182, 0, 0, 0, 0), (183, 0, 0, 0, 0), (184, 0, 0, 0, 0)],
    [(80, 9, 0, 0, 0), (80, 8, 0, 0, 0), (80, 10, 0, 0, 0), (80, 11, 0, 0, 0), (80, 12, 0, 1, 0), (107, 0, 0, 0, 0), (120, 0, 0, 0, 0), (82, 5, 0, 0, 0)],
    [(84, 10, 0, 0, 0), (84, 9, 0, 0, 0), (84, 11, 0, 0, 0), (84, 8, 0, 0, 0), (88, 10, 0, 0, 0), (88, 9, 0, 0, 0), (88, 11, 0, 0, 0), (88, 8, 0, 0, 0)],
    [(83, 5, 0, 0, 0), (93, 5, 0, 0, 0), (94, 10, 0, 0, 0), (94, 9, 0, 0, 0), (94, 11, 0, 0, 0), (94, 12, 0, 0, 0), (94, 14, 0, 1, 0), (185, 0, 0, 0, 0)],
    [(94, 13, 0, 0, 0), (100, 8, 0, 0, 0), (100, 7, 0, 0, 0), (100, 9, 0, 0, 0), (100, 10, 0, 1, 0), (104, 6, 0, 0, 0), (99, 4, 0, 1, 0), (98, 4, 0, 1, 0)],
    [(80, 4, 0, 0, 0), (80, 3, 0, 0, 0), (80, 5, 0, 0, 0), (80, 6, 0, 0, 0), (80, 12, 0, 1, 0), (106, 0, 0, 0, 0), (119, 0, 0, 0, 0), (82, 3, 0, 0, 0)],
    [(84, 5, 0, 0, 0), (84, 4, 0, 0, 0), (84, 6, 0, 0, 0), (84, 3, 0, 0, 0), (88, 5, 0, 0, 0), (88, 4, 0, 0, 0), (88, 6, 0, 0, 0), (88, 3, 0, 0, 0)],
    [(83, 3, 0, 0, 0), (93, 3, 0, 0, 0), (94, 4, 0, 0, 0), (94, 3, 0, 0, 0), (94, 5, 0, 0, 0), (94, 6, 0, 0, 0), (94, 14, 0, 1, 0), (186, 0, 0, 0, 0)],
    [(94, 7, 0, 0, 0), (100, 4, 0, 0, 0), (100, 3, 0, 0, 0), (100, 5, 0, 0, 0), (100, 10, 0, 1, 0), (104, 4, 0, 0, 0), (99, 4, 0, 1, 0), (104, 3, 0, 0, 0)]]"

definition PXW_INTL_EXPAND :: "(int \<times> int \<times> int) list" where
  "PXW_INTL_EXPAND = [
    (228, 97, 101), (196, 65, 69), (246, 111, 101), (214, 79, 69), (223, 115, 115), (254, 116, 104), (222, 84, 72), (252, 117, 101), (220, 85, 69), (198, 65, 69), (230, 97, 101)]"

definition PXW_INTL_UPPER :: "int list" where
  "PXW_INTL_UPPER = concat [
    [0, 1, 2, 3, 4, 5, 6, 7, 8, 9, 10, 11, 12, 13, 14, 15],
    [16, 17, 18, 19, 20, 21, 22, 23, 24, 25, 26, 27, 28, 29, 30, 31],
    [32, 33, 34, 35, 36, 37, 38, 39, 40, 41, 42, 43, 44, 45, 46, 47],
    [48, 49, 50, 51, 52, 53, 54, 55, 56, 57, 58, 59, 60, 61, 62, 63],
    [64, 65, 66, 67, 68, 69, 70, 71, 72, 73, 74, 75, 76, 77, 78, 79],
    [80, 81, 82, 83, 84, 85, 86, 87, 88, 89, 90, 91, 92, 93, 94, 95],
    [96, 65, 66, 67, 68, 69, 70, 71, 72, 73, 74, 75, 76, 77, 78, 79],
    [80, 81, 82, 83, 84, 85, 86, 87, 88, 89, 90, 123, 124, 125, 126, 127],
    [128, 129, 130, 131, 132, 133, 134, 135, 136, 137, 138, 139, 140, 141, 142, 143],
    [144, 145, 146, 147, 148, 149, 150, 151, 152, 153, 154, 155, 156, 157, 158, 159],
    [160, 161, 162, 163, 164, 165, 166, 167, 168, 169, 170, 171, 172, 173, 174, 175],
    [176, 177, 178, 179, 180, 181, 182, 183, 184, 185, 186, 187, 188, 189, 190, 191],
    [192, 193, 194, 195, 196, 197, 198, 199, 200, 201, 202, 203, 204, 205, 206, 207],
    [208, 209, 210, 211, 212, 213, 214, 215, 216, 217, 218, 219, 220, 221, 222, 223],
    [65, 65, 65, 195, 196, 197, 198, 199, 69, 69, 69, 69, 73, 73, 73, 73],
    [208, 209, 79, 79, 79, 213, 214, 247, 216, 85, 85, 85, 220, 89, 222, 89]]"

definition PXW_INTL_LOWER :: "int list" where
  "PXW_INTL_LOWER = concat [
    [0, 1, 2, 3, 4, 5, 6, 7, 8, 9, 10, 11, 12, 13, 14, 15],
    [16, 17, 18, 19, 20, 21, 22, 23, 24, 25, 26, 27, 28, 29, 30, 31],
    [32, 33, 34, 35, 36, 37, 38, 39, 40, 41, 42, 43, 44, 45, 46, 47],
    [48, 49, 50, 51, 52, 53, 54, 55, 56, 57, 58, 59, 60, 61, 62, 63],
    [64, 97, 98, 99, 100, 101, 102, 103, 104, 105, 106, 107, 108, 109, 110, 111],
    [112, 113, 114, 115, 116, 117, 118, 119, 120, 121, 122, 91, 92, 93, 94, 95],
    [96, 97, 98, 99, 100, 101, 102, 103, 104, 105, 106, 107, 108, 109, 110, 111],
    [112, 113, 114, 115, 116, 117, 118, 119, 120, 121, 122, 123, 124, 125, 126, 127],
    [128, 129, 130, 131, 132, 133, 134, 135, 136, 137, 138, 139, 140, 141, 142, 143],
    [144, 145, 146, 147, 148, 149, 150, 151, 152, 153, 154, 155, 156, 157, 158, 159],
    [160, 161, 162, 163, 164, 165, 166, 167, 168, 169, 170, 171, 172, 173, 174, 175],
    [176, 177, 178, 179, 180, 181, 182, 183, 184, 185, 186, 187, 188, 189, 190, 191],
    [224, 225, 226, 227, 228, 229, 230, 231, 232, 233, 234, 235, 236, 237, 238, 239],
    [240, 241, 242, 243, 244, 245, 246, 215, 248, 249, 250, 251, 252, 253, 254, 223],
    [224, 225, 226, 227, 228, 229, 230, 231, 232, 233, 234, 235, 236, 237, 238, 239],
    [240, 241, 242, 243, 244, 245, 246, 247, 248, 249, 250, 251, 252, 253, 254, 255]]"

definition TTYPE_PXW_INTL :: u16 where "TTYPE_PXW_INTL = 0x0135"
definition TTYPE_UCS_BASIC :: u16 where "TTYPE_UCS_BASIC = 0x0104"

definition keyable_ttype :: "u16 \<Rightarrow> bool" where
  "keyable_ttype ttype \<longleftrightarrow> collation_id ttype = 0 \<or> ttype = TTYPE_PXW_INTL \<or> ttype = TTYPE_UCS_BASIC"

definition pxw_row :: "byte \<Rightarrow> weights" where
  "pxw_row b = PXW_INTL_ORDER ! unat b"

definition expand_of :: "byte \<Rightarrow> int \<times> int" where
  "expand_of b = (case find (\<lambda>(c, _). c = uint b) PXW_INTL_EXPAND of Some (_, e1, e2) \<Rightarrow> (e1, e2) | None \<Rightarrow> (uint b, 0))"

definition pxw_intl_case :: "byte \<Rightarrow> bool \<Rightarrow> byte" where
  "pxw_intl_case b upper = of_int (if upper then PXW_INTL_UPPER ! unat b else PXW_INTL_LOWER ! unat b)"

text \<open>The bytes without the blanks at their end.\<close>

definition trim_end :: "byte \<Rightarrow> byte list \<Rightarrow> byte list" where
  "trim_end b bytes = rev (dropWhile (\<lambda>x. x = b) (rev bytes))"

subsection \<open>The key\<close>

definition push_weight :: "int \<Rightarrow> byte list \<Rightarrow> byte list" where
  "push_weight w bs = (if w \<noteq> 0 then bs @ [of_int w] else bs)"

definition key_step :: "nat \<times> byte \<Rightarrow> byte list \<times> byte list \<times> byte list \<Rightarrow> byte list \<times> byte list \<times> byte list" where
  "key_step x st = (case (x, st) of ((i, b), prim, sec, spec) \<Rightarrow>
     (case pxw_row b of (p, s, _, ex, co) \<Rightarrow>
        if ex = 1 \<and> co = 1 then (prim, sec, spec @ [of_nat (i + 1), of_int p])
        else if ex = 1 then
          (case PXW_INTL_ORDER ! nat (snd (expand_of b)) of (p2, s2, _) \<Rightarrow>
             (push_weight p2 (push_weight p prim), push_weight s2 (push_weight s sec), spec))
        else (push_weight p prim, push_weight s sec, spec)))"

definition pxw_intl_key :: "byte list \<Rightarrow> bool \<Rightarrow> byte list" where
  "pxw_intl_key bytes only_primaries =
     (case fold key_step (enumerate 0 (trim_end 0x20 bytes)) ([], [], []) of
        (prim, sec, spec) \<Rightarrow>
          if only_primaries then prim
          else prim @ sec @ (if spec \<noteq> [] then 0 # spec else []))"

subsection \<open>The comparison\<close>

record col_stream =
  cs_inp :: "byte list"
  cs_pos :: nat
  cs_waiting :: "int option"
  cs_special :: bool

definition col_new :: "byte list \<Rightarrow> col_stream" where
  "col_new bytes = \<lparr> cs_inp = trim_end 0x20 bytes, cs_pos = 0, cs_waiting = None, cs_special = False \<rparr>"

type_synonym element = "int \<times> int \<times> bool"

text \<open>The loop of \<^verbatim>\<open>next\<close>, over the input from the position.\<close>

fun next_from :: "byte list \<Rightarrow> col_stream \<Rightarrow> element option \<times> col_stream" where
  "next_from [] s = (None, s)"
| "next_from (b # bs) s =
     (case pxw_row b of (p, q, _, ex, co) \<Rightarrow>
        if ex = 1 \<and> co = 1 then next_from bs (s \<lparr> cs_pos := cs_pos s + 1, cs_special := True \<rparr>)
        else if ex = 1 then (Some (p, q, True), s \<lparr> cs_waiting := Some (snd (expand_of b)) \<rparr>)
        else (Some (p, q, False), s \<lparr> cs_pos := cs_pos s + 1 \<rparr>))"

definition col_next :: "col_stream \<Rightarrow> element option \<times> col_stream" where
  "col_next s =
     (case cs_waiting s of
        Some w \<Rightarrow> (case PXW_INTL_ORDER ! nat w of (p, q, _) \<Rightarrow> (Some (p, q, False), s \<lparr> cs_waiting := None, cs_pos := cs_pos s + 1 \<rparr>))
      | None \<Rightarrow> next_from (drop (cs_pos s) (cs_inp s)) s)"

text \<open>The positional comparison of specials: the next special of a text, as what is left of the
  text from it on and its position.\<close>

fun to_special :: "byte list \<Rightarrow> nat \<Rightarrow> byte list \<times> nat" where
  "to_special [] x = ([], x)"
| "to_special (b # bs) x =
     (case pxw_row b of (_, _, _, ex, co) \<Rightarrow> if ex = 1 \<and> co = 1 then (b # bs, x) else to_special bs (x + 1))"

lemma to_special_length: "length (fst (to_special bs x)) \<le> length bs"
  by (induction bs arbitrary: x) (auto split: prod.splits intro: le_SucI)

function special_from :: "byte list \<Rightarrow> nat \<Rightarrow> byte list \<Rightarrow> nat \<Rightarrow> ordering" where
  "special_from a x1 b x2 =
     (case (to_special a x1, to_special b x2) of
        (([], _), ([], _)) \<Rightarrow> Equal
      | ((_ # _, _), ([], _)) \<Rightarrow> Greater
      | (([], _), (_ # _, _)) \<Rightarrow> Less
      | ((c # a', y1), (d # b', y2)) \<Rightarrow>
          if y1 \<noteq> y2 then word_cmp y1 y2
          else if fst (pxw_row c) \<noteq> fst (pxw_row d) then word_cmp (fst (pxw_row c)) (fst (pxw_row d))
          else special_from a' (y1 + 1) b' (y2 + 1))"
  by auto
termination
proof (relation "measure (\<lambda>(a, _). length a)", simp)
  fix a x1 b x2 x y xa ya x21 x22 x21a x22a
  assume "(x, y) = (to_special a x1, to_special b x2)" "(xa, ya) = x" "xa = x21 # x22"
  then have "length (x21 # x22) \<le> length a" using to_special_length [of a x1] by (metis fst_conv)
  then show "((x22, ya + 1, x22a, x21a + 1), a, x1, b, x2) \<in> measure (\<lambda>(a, _). length a)" by simp
qed

declare special_from.simps [simp del]

definition special_scan :: "byte list \<Rightarrow> byte list \<Rightarrow> ordering" where
  "special_scan a b = special_from (trim_end 0x20 a) 0 (trim_end 0x20 b) 0"

definition col_left :: "col_stream \<Rightarrow> nat" where
  "col_left s =
     (let k = length (cs_inp s) - cs_pos s in if cs_waiting s = None then 2 * k else max 1 (2 * k - 1))"

lemma next_from_left:
  "next_from (drop (cs_pos s) (cs_inp s)) s = (Some e, s1) \<Longrightarrow> cs_waiting s = None \<Longrightarrow> col_left s1 < col_left s"
proof (induction "drop (cs_pos s) (cs_inp s)" arbitrary: s)
  case (Cons b bs)
  note d = Cons.hyps(2)
  have k: "cs_pos s < length (cs_inp s)" using arg_cong [OF d, of length] by simp
  have bs: "drop (cs_pos s + 1) (cs_inp s) = bs" using arg_cong [OF d, of tl] by (simp add: tl_drop drop_Suc)
  obtain p q t ex co where w: "pxw_row b = (p, q, t, ex, co)" by (cases "pxw_row b") auto
  show ?case
  proof (cases "ex = 1 \<and> co = 1")
    case True
    let ?s = "s \<lparr> cs_pos := cs_pos s + 1, cs_special := True \<rparr>"
    have "next_from (drop (cs_pos ?s) (cs_inp ?s)) ?s = (Some e, s1)"
      using Cons.prems(1) True bs by (simp add: d [symmetric] w)
    then have "col_left s1 < col_left ?s" using Cons.hyps(1) [of ?s] bs Cons.prems(2) by simp
    then show ?thesis using k Cons.prems(2) by (auto simp: col_left_def Let_def)
  next
    case False
    then have "s1 = s \<lparr> cs_waiting := Some (snd (expand_of b)) \<rparr> \<or> s1 = s \<lparr> cs_pos := cs_pos s + 1 \<rparr>"
      using Cons.prems(1) by (auto simp: d [symmetric] w split: if_splits)
    then show ?thesis using k Cons.prems(2) by (auto simp: col_left_def Let_def)
  qed
qed (simp add: Cons_eq_append_conv)

lemma col_next_left: "col_next s = (Some e, s1) \<Longrightarrow> col_left s1 < col_left s"
proof (cases "cs_waiting s")
  case None
  then show "col_next s = (Some e, s1) \<Longrightarrow> col_left s1 < col_left s"
    using next_from_left [of s e s1] by (simp add: col_next_def)
qed (auto simp: col_next_def col_left_def Let_def split: prod.splits)

definition int_cmp :: "int \<Rightarrow> int \<Rightarrow> ordering" where
  "int_cmp a b = (if a < b then Less else if a = b then Equal else Greater)"

function compare_loop :: "byte list \<Rightarrow> byte list \<Rightarrow> col_stream \<Rightarrow> col_stream \<Rightarrow> int \<Rightarrow> int \<Rightarrow> ordering" where
  "compare_loop a b sa sb save_secondary save_quandary =
     (case (col_next sa, col_next sb) of
        ((Some (pa, seca, wa), sa'), (Some (pb, secb, wb), sb')) \<Rightarrow>
          if pa \<noteq> pb then int_cmp pa pb
          else if seca \<noteq> secb then
            compare_loop a b sa' sb' (if save_secondary = 0 then seca - secb else save_secondary) save_quandary
          else if wa \<noteq> wb \<and> save_quandary = 0 then compare_loop a b sa' sb' save_secondary (if wa then 1 else - 1)
          else compare_loop a b sa' sb' save_secondary save_quandary
      | ((Some _, _), (None, _)) \<Rightarrow> Greater
      | ((None, _), (Some _, _)) \<Rightarrow> Less
      | ((None, sa'), (None, sb')) \<Rightarrow>
          if save_secondary \<noteq> 0 then int_cmp save_secondary 0
          else if save_quandary \<noteq> 0 then int_cmp save_quandary 0
          else if cs_special sa' \<or> cs_special sb' then special_scan a b
          else Equal)"
  by auto
termination by (relation "measure (\<lambda>(_, _, sa, _). col_left sa)") (auto intro: col_next_left [OF sym])

declare compare_loop.simps [simp del]

definition pxw_intl_compare :: "byte list \<Rightarrow> byte list \<Rightarrow> ordering" where
  "pxw_intl_compare a b = compare_loop a b (col_new a) (col_new b) 0 0"

end
