(* ===== verification/Coll_Properties.thy ===== *)
theory Coll_Properties
  imports Coll Btn
begin

text \<open>
  The sort key of \<^verbatim>\<open>PXW_INTL\<close> against its comparison: the order of the keys, byte by byte, is the
  order the comparison gives, on all texts.
\<close>

subsection \<open>The tables\<close>

text \<open>Primary weights are bytes above every secondary weight; the primary weight tells whether there is
  a secondary one, the two together whether the character expands; there are no specials.\<close>

definition row_sound :: "weights \<Rightarrow> bool" where
  "row_sound r \<longleftrightarrow>
     (case r of (p, s, _, ex, co) \<Rightarrow>
        15 \<le> p \<and> p < 256 \<and> 0 \<le> s \<and> s < 15 \<and> co = 0 \<and> (s \<noteq> 0 \<longleftrightarrow> 80 \<le> p \<and> p \<le> 105) \<and>
        (ex = 1 \<longleftrightarrow> (p, s) \<in> {(80, 12), (94, 14), (100, 10), (99, 4), (98, 4)}))"

lemma order_length: "length PXW_INTL_ORDER = 256"
  by code_simp

lemma rows_sound: "list_all row_sound PXW_INTL_ORDER"
  by code_simp

text \<open>The second character of an expansion does not expand itself.\<close>

lemma expansions_sound:
  "list_all (\<lambda>(_, _, e2). 0 \<le> e2 \<and> e2 < 256 \<and> fst (snd (snd (snd (PXW_INTL_ORDER ! nat e2)))) = 0) PXW_INTL_EXPAND"
  by code_simp

lemma zero_row: "fst (snd (snd (snd (PXW_INTL_ORDER ! 0)))) = 0"
  by code_simp

lemma row_sound_nth: "i < 256 \<Longrightarrow> row_sound (PXW_INTL_ORDER ! i)"
  using rows_sound by (simp add: list_all_length order_length)

lemma pxw_row_sound: "row_sound (pxw_row b)"
  by (simp add: pxw_row_def row_sound_nth)

lemma expand_sound:
  "nat (snd (expand_of b)) < 256 \<and> fst (snd (snd (snd (PXW_INTL_ORDER ! nat (snd (expand_of b)))))) = 0"
proof (cases "find (\<lambda>(c, _). c = uint b) PXW_INTL_EXPAND")
  case None
  then show ?thesis by (simp add: expand_of_def zero_row)
next
  case (Some x)
  then have "x \<in> set PXW_INTL_EXPAND" by (metis find_Some_iff nth_mem)
  then have "case x of (_, _, e2) \<Rightarrow> 0 \<le> e2 \<and> e2 < 256 \<and> fst (snd (snd (snd (PXW_INTL_ORDER ! nat e2)))) = 0"
    using bspec [OF expansions_sound [unfolded list_all_iff]] by blast
  moreover obtain c e1 e2 where x: "x = (c, e1, e2)" by (cases x) auto
  moreover have "expand_of b = (e1, e2)" by (simp add: expand_of_def Some x)
  ultimately show ?thesis by (simp add: nat_less_iff)
qed

subsection \<open>Collation elements\<close>

definition element_of :: "weights \<Rightarrow> bool \<Rightarrow> element" where
  "element_of r w = (case r of (p, s, _) \<Rightarrow> (p, s, w))"

definition elements_of :: "byte \<Rightarrow> element list" where
  "elements_of b =
     (if fst (snd (snd (snd (pxw_row b)))) = 1
      then [element_of (pxw_row b) True, element_of (PXW_INTL_ORDER ! nat (snd (expand_of b))) False]
      else [element_of (pxw_row b) False])"

text \<open>What the tables say of an element.\<close>

definition element_sound :: "element \<Rightarrow> bool" where
  "element_sound e \<longleftrightarrow>
     (case e of (p, s, w) \<Rightarrow>
        15 \<le> p \<and> p < 256 \<and> 0 \<le> s \<and> s < 15 \<and> (s \<noteq> 0 \<longleftrightarrow> 80 \<le> p \<and> p \<le> 105) \<and>
        (w \<longleftrightarrow> (p, s) \<in> {(80, 12), (94, 14), (100, 10), (99, 4), (98, 4)}))"

lemma element_of_sound:
  "row_sound r \<Longrightarrow> (w \<longleftrightarrow> fst (snd (snd (snd r))) = 1) \<Longrightarrow> element_sound (element_of r w)"
  by (cases r) (simp add: row_sound_def element_sound_def element_of_def)

lemma elements_sound: "list_all element_sound (elements_of b)"
proof -
  have "element_sound (element_of (PXW_INTL_ORDER ! nat (snd (expand_of b))) False)"
    using expand_sound [of b] row_sound_nth by (intro element_of_sound) auto
  then show ?thesis by (simp add: elements_of_def element_of_sound pxw_row_sound)
qed

lemma all_elements_sound: "list_all element_sound (concat (map elements_of bs))"
  using elements_sound by (induction bs) auto

definition primaries :: "element list \<Rightarrow> byte list" where
  "primaries es = map (\<lambda>(p, _, _). of_int p) es"

definition secondaries :: "element list \<Rightarrow> byte list" where
  "secondaries es = map (\<lambda>(_, s, _). of_int s) (filter (\<lambda>(_, s, _). s \<noteq> 0) es)"

lemma weights_append [simp]:
  "primaries (es @ fs) = primaries es @ primaries fs" "secondaries (es @ fs) = secondaries es @ secondaries fs"
  by (simp_all add: primaries_def secondaries_def)

subsection \<open>The key\<close>

lemma pxw_row_parts:
  obtains p s t ex where "pxw_row b = (p, s, t, ex, 0)" "p \<noteq> 0"
  using pxw_row_sound [of b] by (cases "pxw_row b") (auto simp: row_sound_def)

lemma key_step_elements:
  "key_step (i, b) (prim, sec, spec) = (prim @ primaries (elements_of b), sec @ secondaries (elements_of b), spec)"
proof -
  obtain p s t ex where r: "pxw_row b = (p, s, t, ex, 0)" "p \<noteq> 0" by (rule pxw_row_parts)
  obtain p2 s2 t2 ex2 co2 where r2: "PXW_INTL_ORDER ! nat (snd (expand_of b)) = (p2, s2, t2, ex2, co2)"
    by (cases "PXW_INTL_ORDER ! nat (snd (expand_of b))") auto
  have "p2 \<noteq> 0" using row_sound_nth [of "nat (snd (expand_of b))"] expand_sound [of b] r2 by (auto simp: row_sound_def)
  then show ?thesis using r r2
    by (simp add: key_step_def elements_of_def element_of_def push_weight_def primaries_def secondaries_def)
qed

lemma key_fold_elements:
  "fold key_step (enumerate n bs) (prim, sec, spec) =
   (prim @ primaries (concat (map elements_of bs)), sec @ secondaries (concat (map elements_of bs)), spec)"
  by (induction bs arbitrary: n prim sec) (simp_all add: key_step_elements, simp_all add: primaries_def secondaries_def)

lemma key_elements:
  "pxw_intl_key bytes False =
   (let es = concat (map elements_of (trim_end 0x20 bytes)) in primaries es @ secondaries es)"
  by (simp add: pxw_intl_key_def key_fold_elements Let_def)

subsection \<open>The stream\<close>

definition stream_rest :: "col_stream \<Rightarrow> element list" where
  "stream_rest s =
     (case cs_waiting s of
        Some w \<Rightarrow> element_of (PXW_INTL_ORDER ! nat w) False # concat (map elements_of (drop (cs_pos s + 1) (cs_inp s)))
      | None \<Rightarrow> concat (map elements_of (drop (cs_pos s) (cs_inp s))))"

lemma stream_new: "stream_rest (col_new bytes) = concat (map elements_of (trim_end 0x20 bytes))" "\<not> cs_special (col_new bytes)"
  by (simp_all add: stream_rest_def col_new_def)

lemma col_next_rest:
  assumes "\<not> cs_special s"
  shows "\<exists>s1. \<not> cs_special s1 \<and>
    (case stream_rest s of [] \<Rightarrow> col_next s = (None, s1) | e # es \<Rightarrow> col_next s = (Some e, s1) \<and> stream_rest s1 = es)"
proof (cases "cs_waiting s")
  case (Some w)
  then show ?thesis using assms
    by (cases "PXW_INTL_ORDER ! nat w") (simp add: stream_rest_def col_next_def element_of_def)
next
  case None
  show ?thesis
  proof (cases "drop (cs_pos s) (cs_inp s)")
    case Nil
    then show ?thesis using None assms by (simp add: stream_rest_def col_next_def)
  next
    case (Cons b bs)
    have bs: "drop (Suc (cs_pos s)) (cs_inp s) = bs" using arg_cong [OF Cons, of tl] by (simp add: tl_drop drop_Suc)
    obtain p q t ex where r: "pxw_row b = (p, q, t, ex, 0)" by (rule pxw_row_parts)
    show ?thesis
      using None assms Cons bs r by (simp add: stream_rest_def col_next_def elements_of_def element_of_def)
  qed
qed

subsection \<open>The comparison\<close>

fun element_cmp :: "element list \<Rightarrow> element list \<Rightarrow> int \<Rightarrow> ordering" where
  "element_cmp [] [] sec = int_cmp sec 0"
| "element_cmp [] (f # fs) sec = Less"
| "element_cmp (e # es) [] sec = Greater"
| "element_cmp ((p, s, w) # es) ((p', s', w') # fs) sec =
     (if p \<noteq> p' then int_cmp p p'
      else element_cmp es fs (if s \<noteq> s' \<and> sec = 0 then s - s' else sec))"

lemma compare_loop_elements:
  assumes "stream_rest sa = es" "stream_rest sb = fs" "\<not> cs_special sa" "\<not> cs_special sb"
    "list_all element_sound es" "list_all element_sound fs"
  shows "compare_loop a b sa sb sec 0 = element_cmp es fs sec"
  using assms
proof (induction es fs sec arbitrary: sa sb rule: element_cmp.induct)
  case (1 sec)
  then show ?case using col_next_rest [of sa] col_next_rest [of sb]
    by (subst compare_loop.simps) (auto simp: int_cmp_def)
next
  case (2 f fs sec)
  then show ?case using col_next_rest [of sa] col_next_rest [of sb] by (subst compare_loop.simps) auto
next
  case (3 e es sec)
  then show ?case using col_next_rest [of sa] col_next_rest [of sb] by (subst compare_loop.simps) auto
next
  case (4 p s w es p' s' w' fs sec)
  obtain sa1 where a: "\<not> cs_special sa1" "col_next sa = (Some (p, s, w), sa1)" "stream_rest sa1 = es"
    using col_next_rest [OF 4(4)] 4(2) by auto
  obtain sb1 where b: "\<not> cs_special sb1" "col_next sb = (Some (p', s', w'), sb1)" "stream_rest sb1 = fs"
    using col_next_rest [OF 4(5)] 4(3) by auto
  show ?case
  proof (cases "p = p'")
    case True
    have w: "s = s' \<Longrightarrow> w = w'" using True 4(6,7) by (simp add: element_sound_def)
    have "compare_loop a b sa1 sb1 (if s \<noteq> s' \<and> sec = 0 then s - s' else sec) 0 =
        element_cmp es fs (if s \<noteq> s' \<and> sec = 0 then s - s' else sec)"
      by (rule 4(1)) (use True a b 4(6,7) in simp_all)
    then show ?thesis using True w by (subst compare_loop.simps) (auto simp: a(2) b(2))
  next
    case False
    then show ?thesis by (subst compare_loop.simps) (simp add: a(2) b(2))
  qed
qed

lemma byte_order: "0 \<le> a \<Longrightarrow> a < 256 \<Longrightarrow> 0 \<le> b \<Longrightarrow> b < 256 \<Longrightarrow> word_cmp (of_int a :: byte) (of_int b) = int_cmp a b"
  "0 \<le> a \<Longrightarrow> a < 256 \<Longrightarrow> 0 \<le> b \<Longrightarrow> b < 256 \<Longrightarrow> (of_int a :: byte) = of_int b \<longleftrightarrow> a = b"
proof -
  assume "0 \<le> a" "a < 256" "0 \<le> b" "b < 256"
  then have u: "uint (of_int a :: byte) = a" "uint (of_int b :: byte) = b"
    by (simp_all add: uint_word_of_int take_bit_eq_mod)
  show e: "(of_int a :: byte) = of_int b \<longleftrightarrow> a = b" using u by (metis word_uint_eq_iff)
  have "(of_int a :: byte) < of_int b \<longleftrightarrow> a < b" by (simp only: word_less_def u)
  then show "word_cmp (of_int a :: byte) (of_int b) = int_cmp a b" by (simp add: word_cmp_def int_cmp_def e)
qed

text \<open>With equal primaries the secondaries decide.\<close>

lemma element_cmp_secondaries:
  assumes "map fst es = map fst fs" "list_all element_sound es" "list_all element_sound fs"
  shows "element_cmp es fs sec = (if sec \<noteq> 0 then int_cmp sec 0 else bytes_cmp (secondaries es) (secondaries fs))"
  using assms
proof (induction es fs sec rule: element_cmp.induct)
  case (4 p s w es p' s' w' fs sec)
  have p: "p = p'" and z: "s = 0 \<longleftrightarrow> s' = 0" and r: "0 \<le> s" "s < 15" "0 \<le> s'" "s' < 15"
    using 4(2-4) by (auto simp: element_sound_def)
  have ih: "element_cmp es fs sec' = (if sec' \<noteq> 0 then int_cmp sec' 0 else bytes_cmp (secondaries es) (secondaries fs))"
    if "sec' = (if s \<noteq> s' \<and> sec = 0 then s - s' else sec)" for sec'
    using 4(1) p that 4(2-4) by simp
  have "(of_int s :: byte) = of_int s' \<longleftrightarrow> s = s'" "word_cmp (of_int s :: byte) (of_int s') = int_cmp s s'"
    using byte_order [of s s'] r by simp_all
  moreover have "int_cmp (s - s') 0 = int_cmp s s'" by (simp add: int_cmp_def)
  ultimately show ?case using ih [OF refl] p z by (simp add: secondaries_def)
qed (simp_all add: secondaries_def int_cmp_def)

text \<open>Where the primaries differ, they decide, whatever small weights follow them.\<close>

lemma element_cmp_primaries:
  assumes "map fst es \<noteq> map fst fs" "list_all element_sound es" "list_all element_sound fs"
    and "\<forall>x \<in> set xs. x < 15" "\<forall>y \<in> set ys. y < 15"
  shows "element_cmp es fs sec = bytes_cmp (primaries es @ xs) (primaries fs @ ys)"
  using assms
proof (induction es fs sec rule: element_cmp.induct)
  case (2 f fs sec)
  obtain p s w where f: "f = (p, s, w)" by (cases f) auto
  have "15 \<le> p" "p < 256" using 2(3) by (auto simp: f element_sound_def)
  then have "x < of_int p" if "x \<in> set xs" for x
    using that 2(4) byte_order(1) [of 15 p] by (fastforce simp: word_cmp_def int_cmp_def split: if_splits)
  then show ?case by (cases xs) (auto simp: primaries_def f word_cmp_def)
next
  case (3 e es sec)
  obtain p s w where e: "e = (p, s, w)" by (cases e) auto
  have "15 \<le> p" "p < 256" using 3(2) by (auto simp: e element_sound_def)
  then have "y < of_int p" if "y \<in> set ys" for y
    using that 3(5) byte_order(1) [of 15 p] by (fastforce simp: word_cmp_def int_cmp_def split: if_splits)
  then show ?case by (cases ys) (fastforce simp: primaries_def e word_cmp_def)+
next
  case (4 p s w es p' s' w' fs sec)
  have r: "0 \<le> p" "p < 256" "0 \<le> p'" "p' < 256" using 4(3,4) by (auto simp: element_sound_def)
  show ?case
  proof (cases "p = p'")
    case True
    then have "element_cmp es fs (if s \<noteq> s' \<and> sec = 0 then s - s' else sec) = bytes_cmp (primaries es @ xs) (primaries fs @ ys)"
      by (intro 4(1)) (use True 4(2-6) in simp_all)
    then show ?thesis using True by (simp add: primaries_def)
  next
    case False
    then show ?thesis using byte_order [OF r] by (simp add: primaries_def)
  qed
qed simp

lemma secondaries_small: "list_all element_sound es \<Longrightarrow> x \<in> set (secondaries es) \<Longrightarrow> x < 15"
proof -
  assume es: "list_all element_sound es" and "x \<in> set (secondaries es)"
  then obtain p s w where e: "(p, s, w) \<in> set es" "x = of_int s" by (auto simp: secondaries_def)
  have "element_sound (p, s, w)" using es e(1) by (simp add: list_all_iff)
  then have "0 \<le> s" "s < 15" by (simp_all add: element_sound_def)
  then have "word_cmp x 15 = Less" using byte_order(1) [of s 15] e(2) by (simp add: int_cmp_def)
  then show "x < 15" by (simp add: word_cmp_def split: if_splits)
qed

lemma bytes_cmp_prefix: "bytes_cmp (zs @ xs) (zs @ ys) = bytes_cmp xs ys"
  by (induction zs) simp_all

lemma element_cmp_key:
  assumes "list_all element_sound es" "list_all element_sound fs"
  shows "element_cmp es fs 0 = bytes_cmp (primaries es @ secondaries es) (primaries fs @ secondaries fs)"
proof (cases "map fst es = map fst fs")
  case True
  then have "map (\<lambda>p. of_int p :: byte) (map fst es) = map of_int (map fst fs)" by (rule arg_cong)
  then have "primaries es = primaries fs" by (simp add: primaries_def comp_def case_prod_unfold)
  then show ?thesis using element_cmp_secondaries [OF True assms] by (simp add: bytes_cmp_prefix)
next
  case False
  then show ?thesis using element_cmp_primaries [OF False assms] secondaries_small assms by blast
qed

text \<open>C40: For any two texts the byte order of their full \<^verbatim>\<open>PXW_INTL\<close> sort keys is what
  \<^verbatim>\<open>pxw_intl_compare\<close> answers for the texts: an index built from the keys is in the order
  the comparison sorts by, and two texts have one key exactly when they compare equal.\<close>

theorem sort_key_orders_as_compare:
  "bytes_cmp (pxw_intl_key a False) (pxw_intl_key b False) = pxw_intl_compare a b"
  by (simp add: key_elements pxw_intl_compare_def Let_def stream_new all_elements_sound element_cmp_key
      compare_loop_elements [OF refl refl])

end
