(* ===== verification/F64.thy ===== *)
theory F64
  imports Prelude "HOL-Library.Log_Nat"
begin

unbundle bit_operations_syntax

text \<open>
  The binary64 arithmetic the sources use (\<^verbatim>\<open>f64\<close>): a float is its bit pattern, its magnitude the low
  63 bits as a number. Products, quotients and conversions of integers are exact ratios rounded once,
  to the nearest float and to even in a tie. A NaN that an operation makes is the quiet NaN without a
  payload. \<^verbatim>\<open>f64::powi\<close> is the squaring loop of the compiler's run-time library.
\<close>

subsection \<open>Patterns\<close>

definition f64_neg :: "f64 \<Rightarrow> bool" where "f64_neg a = bit a 63"
definition f64_mag :: "f64 \<Rightarrow> nat" where "f64_mag a = unat a mod 2 ^ 63"

definition INF_MAG :: nat where "INF_MAG = 2047 * 2 ^ 52"

definition f64_make :: "bool \<Rightarrow> nat \<Rightarrow> f64" where
  "f64_make neg mag = of_nat (if neg then 2 ^ 63 + mag else mag)"

definition f64_nan :: f64 where "f64_nan = 0x7FF8000000000000"

text \<open>Significand and exponent of a finite magnitude, and its value as a ratio.\<close>

definition mag_parts :: "nat \<Rightarrow> nat \<times> int" where
  "mag_parts mag =
     (let ex = mag div 2 ^ 52; frac = mag mod 2 ^ 52
      in if ex = 0 then (frac, - 1074) else (frac + 2 ^ 52, int ex - 1075))"

definition mag_ratio :: "nat \<Rightarrow> nat \<times> nat" where
  "mag_ratio mag = (case mag_parts mag of (m, e) \<Rightarrow> (m * 2 ^ nat e, 2 ^ nat (- e)))"

subsection \<open>Rounding\<close>

definition round_even :: "nat \<Rightarrow> nat \<Rightarrow> nat" where
  "round_even n d =
     (let q = n div d; r = n mod d
      in if 2 * r < d then q else if 2 * r > d then q + 1 else if even q then q else q + 1)"

text \<open>The exponent of the lowest bit of a significand for \<^verbatim>\<open>n / d\<close>.\<close>

definition ratio_log :: "nat \<Rightarrow> nat \<Rightarrow> int" where
  "ratio_log n d =
     (let k = int (floorlog 2 n) - int (floorlog 2 d)
      in if d * 2 ^ nat k \<le> n * 2 ^ nat (- k) then k else k - 1)"

definition ratio_exp :: "nat \<Rightarrow> nat \<Rightarrow> int" where
  "ratio_exp n d = max (- 1074) (ratio_log n d - 52)"

definition round_mag :: "nat \<Rightarrow> nat \<Rightarrow> nat" where
  "round_mag n d =
     (if n = 0 then 0
      else
        let e = ratio_exp n d
        in min INF_MAG (nat (e + 1074) * 2 ^ 52 + round_even (n * 2 ^ nat (- e)) (d * 2 ^ nat e)))"

subsection \<open>Operations\<close>

definition f64_is_nan :: "f64 \<Rightarrow> bool" where "f64_is_nan a \<longleftrightarrow> f64_mag a > INF_MAG"
definition f64_is_inf :: "f64 \<Rightarrow> bool" where "f64_is_inf a \<longleftrightarrow> f64_mag a = INF_MAG"
definition f64_is_zero :: "f64 \<Rightarrow> bool" where "f64_is_zero a \<longleftrightarrow> f64_mag a = 0"
definition f64_below_zero :: "f64 \<Rightarrow> bool" where "f64_below_zero a \<longleftrightarrow> f64_neg a \<and> f64_mag a \<noteq> 0 \<and> \<not> f64_is_nan a"

definition f64_of_int :: "int \<Rightarrow> f64" where
  "f64_of_int i = f64_make (i < 0) (round_mag (nat \<bar>i\<bar>) 1)"

definition f64_mul :: "f64 \<Rightarrow> f64 \<Rightarrow> f64" where
  "f64_mul a b =
     (let neg = (f64_neg a \<noteq> f64_neg b) in
      if f64_is_nan a \<or> f64_is_nan b then f64_nan
      else if f64_is_inf a \<or> f64_is_inf b then
        (if f64_is_zero a \<or> f64_is_zero b then f64_nan else f64_make neg INF_MAG)
      else (case (mag_ratio (f64_mag a), mag_ratio (f64_mag b)) of
              ((n, d), (n', d')) \<Rightarrow> f64_make neg (round_mag (n * n') (d * d'))))"

definition f64_div :: "f64 \<Rightarrow> f64 \<Rightarrow> f64" where
  "f64_div a b =
     (let neg = (f64_neg a \<noteq> f64_neg b) in
      if f64_is_nan a \<or> f64_is_nan b then f64_nan
      else if f64_is_inf a then (if f64_is_inf b then f64_nan else f64_make neg INF_MAG)
      else if f64_is_inf b then f64_make neg 0
      else if f64_is_zero b then (if f64_is_zero a then f64_nan else f64_make neg INF_MAG)
      else (case (mag_ratio (f64_mag a), mag_ratio (f64_mag b)) of
              ((n, d), (n', d')) \<Rightarrow> f64_make neg (round_mag (n * d') (d * n'))))"

text \<open>\<^verbatim>\<open>f32 as f64\<close>, exact.\<close>

definition f64_of_f32 :: "f32 \<Rightarrow> f64" where
  "f64_of_f32 a =
     (let neg = bit a 31; mag = unat a mod 2 ^ 31; ex = mag div 2 ^ 23; frac = mag mod 2 ^ 23
      in if ex = 255 then f64_make neg (INF_MAG + (if frac = 0 then 0 else 2 ^ 51 + frac mod 2 ^ 22 * 2 ^ 29))
         else
           let (m, e) = (if ex = 0 then (frac, - 149) else (frac + 2 ^ 23, int ex - 150))
           in f64_make neg (round_mag (m * 2 ^ nat e) (2 ^ nat (- e))))"

function powi_loop :: "nat \<Rightarrow> f64 \<Rightarrow> f64 \<Rightarrow> f64" where
  "powi_loop n a r =
     (let r = (if odd n then f64_mul r a else r)
      in if n div 2 = 0 then r else powi_loop (n div 2) (f64_mul a a) r)"
  by auto
termination by (relation "measure (\<lambda>(n, _). n)") auto

declare powi_loop.simps [simp del]

definition f64_powi :: "f64 \<Rightarrow> int \<Rightarrow> f64" where
  "f64_powi a n =
     (let r = powi_loop (nat \<bar>n\<bar>) a (f64_of_int 1) in if n < 0 then f64_div (f64_of_int 1) r else r)"

subsection \<open>The value of a magnitude\<close>

definition mag_value :: "nat \<Rightarrow> real" where
  "mag_value mag = (case mag_parts mag of (m, e) \<Rightarrow> real m * 2 powi e)"

definition f64_value :: "f64 \<Rightarrow> real" where
  "f64_value a = (if f64_neg a then - mag_value (f64_mag a) else mag_value (f64_mag a))"

lemma two_powi: "(2 :: real) powi e = 2 ^ nat e / 2 ^ nat (- e)"
  by (cases "0 \<le> e") (simp_all add: power_int_def field_simps)

lemma two_powi_diff: "(2 :: real) powi (int a - int b) = 2 ^ a / 2 ^ b"
  by (simp add: power_int_diff)

lemma mag_ratio_value: "mag_ratio mag = (n, d) \<Longrightarrow> mag_value mag = real n / real d \<and> d > 0"
  by (auto simp: mag_ratio_def mag_value_def two_powi split: prod.splits)

text \<open>Rounding a ratio is rounding its real value.\<close>

definition round_unit :: "real \<Rightarrow> nat" where
  "round_unit x =
     (let q = nat \<lfloor>x\<rfloor>; r = x - \<lfloor>x\<rfloor>
      in if 2 * r < 1 then q else if 2 * r > 1 then q + 1 else if even q then q else q + 1)"

lemma round_even_real:
  assumes "0 < d"
  shows "round_even n d = round_unit (real n / real d)"
proof -
  have fl: "\<lfloor>real n / real d\<rfloor> = int (n div d)" by (rule floor_divide_of_nat_eq)
  have "real n = real (n div d) * real d + real (n mod d)"
    by (metis div_mult_mod_eq of_nat_add of_nat_mult)
  then have r: "real n / real d - real (n div d) = real (n mod d) / real d" using assms by (simp add: field_simps)
  have c: "2 * (real (n mod d) / real d) < 1 \<longleftrightarrow> 2 * (n mod d) < d" "2 * (real (n mod d) / real d) > 1 \<longleftrightarrow> 2 * (n mod d) > d"
    using assms by (simp_all add: field_simps) linarith+
  show ?thesis unfolding round_even_def round_unit_def Let_def fl using r c by simp
qed

lemma round_unit_near: "0 \<le> x \<Longrightarrow> \<bar>real (round_unit x) - x\<bar> \<le> 1 / 2"
proof -
  assume "0 \<le> x"
  then have q: "real (nat \<lfloor>x\<rfloor>) = \<lfloor>x\<rfloor>" by simp
  have b: "\<lfloor>x\<rfloor> \<le> x" "x < real_of_int \<lfloor>x\<rfloor> + 1" by linarith+
  define f where "f = real_of_int \<lfloor>x\<rfloor>"
  have "real (round_unit x) = f \<and> 2 * (x - f) \<le> 1 \<or> real (round_unit x) = f + 1 \<and> 1 \<le> 2 * (x - f)"
    unfolding round_unit_def Let_def f_def using q by auto
  then have "real (round_unit x) - x \<le> 1 / 2" "- (real (round_unit x) - x) \<le> 1 / 2"
    using b [folded f_def] by auto
  then show ?thesis by (rule abs_leI)
qed

lemma round_unit_mono:
  assumes "0 \<le> x" "x \<le> y"
  shows "round_unit x \<le> round_unit y"
proof (cases "\<lfloor>x\<rfloor> = \<lfloor>y\<rfloor>")
  case True
  then show ?thesis using assms unfolding round_unit_def Let_def by auto
next
  case False
  then have "\<lfloor>x\<rfloor> < \<lfloor>y\<rfloor>" using floor_mono [OF assms(2)] by simp
  moreover have "round_unit x \<le> nat \<lfloor>x\<rfloor> + 1" "nat \<lfloor>y\<rfloor> \<le> round_unit y" by (auto simp: round_unit_def Let_def)
  moreover have "0 \<le> \<lfloor>x\<rfloor>" using assms(1) by simp
  ultimately show ?thesis by linarith
qed

lemma round_unit_nat: "round_unit (real n) = n"
  by (simp add: round_unit_def)

text \<open>The logarithm of a ratio.\<close>

lemma ratio_log_bounds:
  assumes "0 < n" "0 < d"
  shows "2 powi ratio_log n d \<le> real n / real d" "real n / real d < 2 powi (ratio_log n d + 1)"
proof -
  define i j where "i = floorlog 2 n - 1" and "j = floorlog 2 d - 1"
  have n: "2 ^ i \<le> n" "n < 2 ^ (i + 1)" and fi: "int (floorlog 2 n) = int i + 1"
    using floorlog_bounds [of n 2] assms floorlog_eq_zero_iff [of 2 n] by (auto simp: i_def)
  have d: "2 ^ j \<le> d" "d < 2 ^ (j + 1)" and fj: "int (floorlog 2 d) = int j + 1"
    using floorlog_bounds [of d 2] assms floorlog_eq_zero_iff [of 2 d] by (auto simp: j_def)
  let ?k = "int i - int j"
  have k: "int (floorlog 2 n) - int (floorlog 2 d) = ?k" using fi fj by simp
  have "real n < 2 ^ (i + 1)" "2 ^ i \<le> real n" "real d < 2 ^ (j + 1)" "2 ^ j \<le> real d"
    using n d by (simp_all only: of_nat_less_numeral_power_cancel_iff numeral_power_le_of_nat_cancel_iff)
  note nd = this
  have up: "real n / real d < 2 powi (?k + 1)"
  proof -
    have "real n / real d < 2 ^ (i + 1) / 2 ^ j" using nd by (intro frac_less) auto
    also have "\<dots> = 2 powi (?k + 1)"
      using two_powi_diff [of "i + 1" j] by (simp add: algebra_simps del: power_Suc)
    finally show ?thesis .
  qed
  have low: "2 powi (?k - 1) < real n / real d"
  proof -
    have "2 powi (?k - 1) = (2 :: real) ^ i / 2 ^ (j + 1)"
      using two_powi_diff [of i "j + 1"] by (simp add: algebra_simps del: power_Suc)
    also have "\<dots> < real n / real d" using nd assms by (intro frac_less2) auto
    finally show ?thesis .
  qed
  have t: "d * 2 ^ nat ?k \<le> n * 2 ^ nat (- ?k) \<longleftrightarrow> 2 powi ?k \<le> real n / real d"
  proof -
    have "d * 2 ^ nat ?k \<le> n * 2 ^ nat (- ?k) \<longleftrightarrow> real (d * 2 ^ nat ?k) \<le> real (n * 2 ^ nat (- ?k))"
      by (rule of_nat_le_iff [symmetric])
    also have "\<dots> \<longleftrightarrow> real d * 2 ^ nat ?k \<le> real n * 2 ^ nat (- ?k)" by simp
    also have "\<dots> \<longleftrightarrow> 2 powi ?k \<le> real n / real d" using assms unfolding two_powi by (simp add: field_simps)
    finally show ?thesis .
  qed
  show "2 powi ratio_log n d \<le> real n / real d" "real n / real d < 2 powi (ratio_log n d + 1)"
    using up low t unfolding ratio_log_def Let_def k by (auto simp: not_le)
qed

subsection \<open>Rounding to a float\<close>

text \<open>The exponent a positive value gets, and its scaled value: below \<^verbatim>\<open>2^53\<close>, and at least \<^verbatim>\<open>2^52\<close>
  unless the exponent is the least one.\<close>

definition scaled :: "real \<Rightarrow> int \<Rightarrow> bool" where
  "scaled x e \<longleftrightarrow> - 1074 \<le> e \<and> x < 2 ^ 53 * 2 powi e \<and> (e = - 1074 \<or> 2 ^ 52 * 2 powi e \<le> x)"

lemma two_powi_shift: "(2 :: real) ^ k * 2 powi e = 2 powi (e + int k)"
  by (simp add: power_int_add)

lemma ratio_exp_scaled:
  assumes "0 < n" "0 < d"
  shows "scaled (real n / real d) (ratio_exp n d)"
proof -
  let ?l = "ratio_log n d" and ?x = "real n / real d"
  note b = ratio_log_bounds [OF assms]
  show ?thesis
  proof (cases "- 1074 \<le> ?l - 52")
    case True
    then have e: "ratio_exp n d = ?l - 52" by (simp add: ratio_exp_def)
    show ?thesis using b True unfolding scaled_def e two_powi_shift by (simp add: add.commute)
  next
    case False
    then have e: "ratio_exp n d = - 1074" by (simp add: ratio_exp_def)
    have "2 powi (?l + 1) \<le> (2 :: real) powi (- 1074 + int 53)" using False by (intro power_int_increasing) auto
    from less_le_trans [OF b(2) this] show ?thesis unfolding scaled_def e two_powi_shift by blast
  qed
qed

definition float_bits :: "real \<Rightarrow> int \<Rightarrow> nat" where
  "float_bits x e = nat (e + 1074) * 2 ^ 52 + round_unit (x / 2 powi e)"

lemma round_mag_bits:
  assumes "0 < n" "0 < d"
  shows "round_mag n d = min INF_MAG (float_bits (real n / real d) (ratio_exp n d))"
proof -
  let ?e = "ratio_exp n d"
  have "real (n * 2 ^ nat (- ?e)) / real (d * 2 ^ nat ?e) = real n / real d / 2 powi ?e"
    by (simp add: two_powi field_simps)
  then show ?thesis using assms by (simp add: round_mag_def float_bits_def Let_def round_even_real)
qed

lemma scaled_unit:
  assumes "scaled x e" "0 < x"
  shows "0 < x / 2 powi e" "x / 2 powi e < 2 ^ 53" "e \<noteq> - 1074 \<Longrightarrow> 2 ^ 52 \<le> x / 2 powi e"
  using assms by (auto simp: scaled_def field_simps)

lemma round_unit_bounds:
  assumes "scaled x e" "0 < x"
  shows "round_unit (x / 2 powi e) \<le> 2 ^ 53" "e \<noteq> - 1074 \<Longrightarrow> 2 ^ 52 \<le> round_unit (x / 2 powi e)"
proof -
  note b = scaled_unit [OF assms]
  show "round_unit (x / 2 powi e) \<le> 2 ^ 53"
    using round_unit_mono [of "x / 2 powi e" "real (2 ^ 53)"] b round_unit_nat [of "2 ^ 53"] by simp
  show "2 ^ 52 \<le> round_unit (x / 2 powi e)" if "e \<noteq> - 1074"
    using round_unit_mono [of "real (2 ^ 52)" "x / 2 powi e"] b(3) [OF that] round_unit_nat [of "2 ^ 52"] by simp
qed

lemma scaled_exp_mono:
  assumes "scaled x e" "scaled y f" "0 < x" "x \<le> y"
  shows "e \<le> f"
proof (rule ccontr)
  assume "\<not> e \<le> f"
  then have "f + 1 \<le> e" "e \<noteq> - 1074" using assms(2) by (auto simp: scaled_def)
  then have "(2 :: real) powi (f + 1) \<le> 2 powi e" by (intro power_int_increasing) auto
  moreover have "y < 2 ^ 53 * 2 powi f" "2 ^ 52 * 2 powi e \<le> x" using assms \<open>e \<noteq> - 1074\<close> by (auto simp: scaled_def)
  moreover have "(2 :: real) powi (f + 1) = 2 * 2 powi f" by (simp add: power_int_add)
  ultimately show False using assms(4) by simp
qed

lemma float_bits_mono:
  assumes "scaled x e" "scaled y f" "0 < x" "x \<le> y"
  shows "float_bits x e \<le> float_bits y f"
proof (cases "e = f")
  case True
  have "x / 2 powi e \<le> y / 2 powi e" using assms(4) by (simp add: divide_right_mono)
  then have "round_unit (x / 2 powi e) \<le> round_unit (y / 2 powi e)"
    using scaled_unit(1) [OF assms(1,3)] by (intro round_unit_mono) auto
  then show ?thesis using True by (simp add: float_bits_def)
next
  case False
  then have ef: "e + 1 \<le> f" using scaled_exp_mono [OF assms] by simp
  have e: "- 1074 \<le> e" using assms(1) by (simp add: scaled_def)
  have "2 ^ 52 \<le> round_unit (y / 2 powi f)" using round_unit_bounds(2) [OF assms(2)] assms(3,4) ef e by auto
  moreover have "round_unit (x / 2 powi e) \<le> 2 ^ 53" by (rule round_unit_bounds(1) [OF assms(1,3)])
  moreover have "(nat (e + 1074) + 1) * 2 ^ 52 \<le> nat (f + 1074) * 2 ^ 52" using ef e by (intro mult_right_mono) auto
  ultimately show ?thesis by (simp add: float_bits_def)
qed

text \<open>A gap of two units in the last place survives rounding.\<close>

lemma float_bits_strict:
  assumes "scaled x e" "scaled y f" "0 < x" "e \<noteq> - 1074" "x * (1 + 1 / 2 ^ 50) \<le> y"
  shows "float_bits x e < float_bits y f"
proof -
  have xy: "x \<le> y" using assms(3,5) by (simp add: field_simps)
  let ?u = "x / 2 powi e"
  note u = scaled_unit [OF assms(1,3)]
  have un: "real (round_unit ?u) \<le> ?u + 1 / 2" using round_unit_near [of ?u] u(1) by linarith
  have gap: "?u + 4 \<le> y / 2 powi e"
  proof -
    have "?u * (1 + 1 / 2 ^ 50) \<le> y / 2 powi e" using assms(5) by (simp add: field_simps)
    moreover have "4 \<le> ?u / 2 ^ 50" using u(3) [OF assms(4)] by simp
    moreover have "?u * (1 + 1 / 2 ^ 50) = ?u + ?u / 2 ^ 50" by (simp add: algebra_simps)
    ultimately show ?thesis by linarith
  qed
  show ?thesis
  proof (cases "e = f")
    case True
    have "real (round_unit (y / 2 powi e)) \<ge> y / 2 powi e - 1 / 2"
      using round_unit_near [of "y / 2 powi e"] gap u(1) by linarith
    then have "real (round_unit ?u) < real (round_unit (y / 2 powi e))" using un gap by linarith
    then show ?thesis using True by (simp add: float_bits_def)
  next
    case False
    then have ef: "e + 1 \<le> f" using scaled_exp_mono [OF assms(1,2,3) xy] by simp
    have e: "- 1074 \<le> e" using assms(1) by (simp add: scaled_def)
    have v: "2 ^ 52 \<le> round_unit (y / 2 powi f)" using round_unit_bounds(2) [OF assms(2)] assms(3) xy ef e by auto
    have ru: "round_unit ?u \<le> 2 ^ 53" by (rule round_unit_bounds(1) [OF assms(1,3)])
    show ?thesis
    proof (cases "f = e + 1")
      case False
      then have "nat (e + 1074) + 2 \<le> nat (f + 1074)" using ef e by linarith
      then have "(nat (e + 1074) + 2) * 2 ^ 52 \<le> nat (f + 1074) * 2 ^ 52" by (rule mult_right_mono) simp
      then show ?thesis using v ru by (simp add: float_bits_def)
    next
      case True
      have y: "y / 2 powi f = y / 2 powi e / 2" using True by (simp add: power_int_add field_simps)
      have "round_unit ?u < 2 ^ 53 \<or> 2 ^ 52 + 1 \<le> round_unit (y / 2 powi f)"
      proof (rule disjCI)
        assume "\<not> 2 ^ 52 + 1 \<le> round_unit (y / 2 powi f)"
        then have "real (round_unit (y / 2 powi f)) \<le> 2 ^ 52" using v by simp
        moreover have "y / 2 powi f - 1 / 2 \<le> real (round_unit (y / 2 powi f))"
        proof -
          have "0 \<le> y / 2 powi e" using gap u(1) by linarith
          then have "0 \<le> y / 2 powi f" by (simp add: y)
          from round_unit_near [OF this] show ?thesis by linarith
        qed
        ultimately have "y / 2 powi e \<le> 2 ^ 53 + 1" using y by simp
        then have "real (round_unit ?u) < 2 ^ 53" using gap un by linarith
        then show "round_unit ?u < 2 ^ 53" by simp
      qed
      moreover have "nat (f + 1074) = nat (e + 1074) + 1" using True e by simp
      ultimately show ?thesis using v ru by (auto simp: float_bits_def)
    qed
  qed
qed

text \<open>The value of a rounded magnitude.\<close>

lemma field_split: "r < n \<Longrightarrow> (m * n + r) div n = m" "r < n \<Longrightarrow> (m * n + r) mod n = r" for n :: nat
  by simp_all

lemma float_bits_value:
  assumes "scaled x e" "0 < x"
  shows "mag_value (float_bits x e) = real (round_unit (x / 2 powi e)) * 2 powi e"
proof -
  let ?q = "round_unit (x / 2 powi e)"
  have e: "- 1074 \<le> e" using assms(1) by (simp add: scaled_def)
  have E: "int (nat (e + 1074)) = e + 1074" using e by simp
  consider "?q < 2 ^ 52" "e = - 1074" | "2 ^ 52 \<le> ?q" "?q < 2 ^ 53" | "?q = 2 ^ 53"
    using round_unit_bounds [OF assms] by linarith
  then show ?thesis
  proof cases
    case 1
    then show ?thesis by (simp add: mag_value_def mag_parts_def float_bits_def Let_def)
  next
    case 2
    let ?r = "?q - 2 ^ 52"
    have b: "float_bits x e = (nat (e + 1074) + 1) * 2 ^ 52 + ?r" "?r < 2 ^ 52" using 2 by (simp_all add: float_bits_def)
    have "float_bits x e div 2 ^ 52 = nat (e + 1074) + 1" "float_bits x e mod 2 ^ 52 = ?r"
      unfolding b(1) by (rule field_split [OF b(2)])+
    then have "mag_parts (float_bits x e) = (?q, e)" using 2 E by (simp add: mag_parts_def Let_def)
    then show ?thesis by (simp add: mag_value_def)
  next
    case 3
    have b: "float_bits x e = (nat (e + 1074) + 2) * 2 ^ 52" using 3 by (simp add: float_bits_def)
    have "float_bits x e div 2 ^ 52 = nat (e + 1074) + 2" "float_bits x e mod 2 ^ 52 = 0"
      using field_split [of 0 "2 ^ 52" "nat (e + 1074) + 2"] unfolding b by simp_all
    then have "mag_parts (float_bits x e) = (2 ^ 52, e + 1)" using E by (simp add: mag_parts_def Let_def)
    then show ?thesis using 3 by (simp add: mag_value_def power_int_add)
  qed
qed

end
