(* ===== verification/Btk.thy ===== *)
theory Btk
  imports Coll Rows F64 Btn "HOL-Library.Signed_Division"
begin

text \<open>
  Index keys (\<^verbatim>\<open>crates/ods/src/btw.rs\<close>): a column value as the bytes the index compares, for every key
  type the code builds, and the compound key of several segments with its marker bytes. Floats are
  those of \<^verbatim>\<open>F64\<close>, character sets those of \<^verbatim>\<open>Intl\<close>, the one collation that has a key that of \<^verbatim>\<open>Coll\<close>.
\<close>

definition IDX_NUMERIC :: u16 where "IDX_NUMERIC = 0"
definition IDX_STRING :: u16 where "IDX_STRING = 1"
definition IDX_BYTE_ARRAY :: u16 where "IDX_BYTE_ARRAY = 3"
definition IDX_METADATA :: u16 where "IDX_METADATA = 4"
definition IDX_SQL_DATE :: u16 where "IDX_SQL_DATE = 5"
definition IDX_SQL_TIME :: u16 where "IDX_SQL_TIME = 6"
definition IDX_TIMESTAMP :: u16 where "IDX_TIMESTAMP = 7"
definition IDX_NUMERIC2 :: u16 where "IDX_NUMERIC2 = 8"
definition IDX_BOOLEAN :: u16 where "IDX_BOOLEAN = 9"
definition IDX_BCD :: u16 where "IDX_BCD = 13"
definition IDX_OFFSET_INTL :: u16 where "IDX_OFFSET_INTL = 0x7FFF + 64"
definition IDX_UNICODE_FSS :: u16 where "IDX_UNICODE_FSS = IDX_OFFSET_INTL + 3"

lemmas itypes = IDX_NUMERIC_def IDX_STRING_def IDX_BYTE_ARRAY_def IDX_METADATA_def IDX_SQL_DATE_def IDX_SQL_TIME_def
  IDX_TIMESTAMP_def IDX_NUMERIC2_def IDX_BOOLEAN_def IDX_BCD_def IDX_OFFSET_INTL_def IDX_UNICODE_FSS_def

definition intl_binary_charset :: "u16 \<Rightarrow> byte option" where
  "intl_binary_charset itype =
     (if itype < IDX_OFFSET_INTL then None
      else
        let ttype = itype - IDX_OFFSET_INTL; charset = ucast (ttype AND 0xFF); collation = drop_bit 8 ttype
        in if collation = 0 \<and> tabled charset then Some charset else None)"

subsection \<open>Numbers\<close>

text \<open>\<^verbatim>\<open>to_be_bytes\<close>, and the loop that pops zero bytes while more than one byte is left.\<close>

definition be_bytes :: "nat \<Rightarrow> nat \<Rightarrow> byte list" where
  "be_bytes n v = rev (le_bytes n v)"

definition chop_zeros :: "byte list \<Rightarrow> byte list" where
  "chop_zeros k = (case k of [] \<Rightarrow> [] | b # bs \<Rightarrow> b # trim_end 0 bs)"

definition flip_first :: "byte list \<Rightarrow> byte list" where
  "flip_first k = k[0 := (k ! 0) XOR 0x80]"

definition flipped_int_key :: "byte list \<Rightarrow> byte list" where
  "flipped_int_key be = chop_zeros (flip_first be)"

definition double_key :: "f64 \<Rightarrow> byte list" where
  "double_key d =
     (let d = (if f64_is_zero d then 0 else d); k = be_bytes 8 (unat d)
      in chop_zeros (if f64_below_zero d then map (\<lambda>b. NOT b) k else flip_first k))"

text \<open>\<^verbatim>\<open>powerof10\<close>.\<close>

definition power_of_10 :: "int \<Rightarrow> f64" where
  "power_of_10 index =
     (if index \<le> 0 then f64_powi (f64_of_int 10) (- index)
      else f64_div (f64_of_int 1) (f64_powi (f64_of_int 10) index))"

definition INT64_SCALE_CONTROL :: "(nat \<times> int \<times> int) list" where
  "INT64_SCALE_CONTROL = [
     (922337203685470000, 1, 0), (92233720368547000, 10, 1), (9223372036854700, 100, 2),
     (922337203685470, 1000, 3), (92233720368548, 10000, 4), (9223372036855, 100000, 5),
     (922337203686, 1000000, 6), (92233720369, 10000000, 7), (9223372035, 100000000, 8),
     (922337204, 1000000000, 9), (92233721, 10000000000, 10), (9223373, 100000000000, 11),
     (922338, 1000000000000, 12), (92234, 10000000000000, 13), (9224, 100000000000000, 14),
     (923, 1000000000000000, 15), (93, 10000000000000000, 16), (10, 100000000000000000, 17),
     (1, 1000000000000000000, 18), (0, 0, 0)]"

text \<open>The first row whose limit the value reaches; the last row has limit 0.\<close>

definition scale_row :: "nat \<Rightarrow> nat \<times> int \<times> int" where
  "scale_row uq = the (find (\<lambda>(limit, _). limit \<le> uq) INT64_SCALE_CONTROL)"

definition i64_min :: i64 where "i64_min = 0x8000000000000000"

definition int64_key :: "i64 \<Rightarrow> int \<Rightarrow> byte list option" where
  "int64_key raw sc =
     (let raw = (if raw = i64_min then 0 else raw)
      in (case scale_row (nat \<bar>sint raw\<bar>) of
            (_, factor, change) \<Rightarrow>
              let q = sint (raw * of_int factor);
                  d_part = f64_div (f64_of_int (q sdiv 10000)) (power_of_10 (sc - change));
                  s_part = of_int (q smod 10000) :: u16;
                  d = be_bytes 8 (unat d_part);
                  s = be_bytes 2 (unat s_part)
              in Some (chop_zeros ((if f64_below_zero d_part then map (\<lambda>b. NOT b) d else flip_first d) @ flip_first s))))"

subsection \<open>128-bit integers\<close>

definition BCD_PMAX :: nat where "BCD_PMAX = 39"
definition BCD_BIAS :: int where "BCD_BIAS = 128"

text \<open>The digits written from the right end of the coefficient; digits are numbers below ten.\<close>

fun bcd_fill :: "nat \<Rightarrow> nat \<Rightarrow> nat list \<Rightarrow> nat list" where
  "bcd_fill 0 u coeff = coeff"
| "bcd_fill (Suc c) u coeff = (if u > 0 then bcd_fill c (u div 10) (coeff[c := u mod 10]) else coeff)"

text \<open>Leading zeros shifted out, the exponent compensated, trailing zeros counted off: coefficient,
  exponent and the number of digits.\<close>

definition bcd_normal :: "nat list \<Rightarrow> int \<Rightarrow> nat list \<times> int \<times> nat" where
  "bcd_normal coeff e =
     (case rs_position (\<lambda>d. d \<noteq> 0) (take BCD_PMAX coeff) of
        None \<Rightarrow> (coeff, e, 0)
      | Some i \<Rightarrow>
          let coeff' = (if i > 0 then take (BCD_PMAX - i) (drop i coeff) @ replicate i 0 @ drop BCD_PMAX coeff else coeff)
          in (coeff', e - int i, length (dropWhile (\<lambda>d. d = 0) (rev (take (BCD_PMAX - i) coeff')))))"

text \<open>Three digits to ten bits, the bits to bytes.\<close>

definition bcd_shifts :: "(nat \<times> nat) list" where
  "bcd_shifts = [(2, 6), (4, 4), (6, 2), (8, 0)]"

function bcd_pack :: "nat list \<Rightarrow> nat \<Rightarrow> nat \<Rightarrow> nat \<Rightarrow> byte \<Rightarrow> byte list" where
  "bcd_pack coeff dig p t cur =
     (if p < dig then
        let val = coeff ! p * 100 + coeff ! (p + 1) * 10 + coeff ! (p + 2);
            (right, left) = bcd_shifts ! t;
            out = cur OR of_nat (val div 2 ^ right);
            cur' = of_nat (val * 2 ^ left) :: byte
        in if left = 0 then
             out # (if cur' \<noteq> 0 \<or> p + 3 < dig then [cur'] else []) @ bcd_pack coeff dig (p + 3) 0 0
           else out # bcd_pack coeff dig (p + 3) (t + 1) cur'
      else if cur \<noteq> 0 then [cur] else [])"
  by auto
termination by (relation "measure (\<lambda>(_, dig, p, _). dig - p)") auto

declare bcd_pack.simps [simp del]

definition int128_bcd_key :: "i128 \<Rightarrow> int \<Rightarrow> byte list" where
  "int128_bcd_key v sc =
     (let coeff = bcd_fill BCD_PMAX (nat \<bar>sint v\<bar>) (replicate (BCD_PMAX + 2) 0);
          (coeff, sc, dig) = bcd_normal coeff sc;
          neg = (sint v < 0);
          e = (if dig = 0 then 0 else sc + (BCD_BIAS + 1));
          e = (if neg then - e else e) + 2 * (BCD_BIAS + 1);
          coeff = (if neg \<and> dig > 0 then
                     let c = coeff[dig - 1 := coeff ! (dig - 1) - 1] in map (\<lambda>d. 9 - d) (take dig c) @ drop dig c
                   else coeff);
          coeff = coeff[dig := 0, dig + 1 := 0]
      in [of_int (e div 256), of_int (e mod 256)] @ bcd_pack coeff dig 0 0 0)"

subsection \<open>One value\<close>

text \<open>The bytes of a text, its blanks at the end stripped; an empty key is one byte.\<close>

definition text_key :: "byte \<Rightarrow> byte list \<Rightarrow> byte list" where
  "text_key pad bytes = (let t = trim_end 32 bytes in if t = [] then [pad] else t)"

definition numeric_double :: "field_value \<Rightarrow> f64 option" where
  "numeric_double v =
     (case v of
        IntValue i \<Rightarrow> Some (f64_of_int (sint i))
      | Scaled raw s \<Rightarrow>
          if sint s < 0 then Some (f64_div (f64_of_int (sint raw)) (f64_powi (f64_of_int 10) (- sint s)))
          else Some (f64_mul (f64_of_int (sint raw)) (f64_powi (f64_of_int 10) (sint s)))
      | Double d \<Rightarrow> Some d
      | Float f \<Rightarrow> Some (f64_of_f32 f)
      | Rounded raw s \<Rightarrow> Some (f64_div (f64_of_int (sint raw)) (f64_powi (f64_of_int 10) (- sint s)))
      | _ \<Rightarrow> None)"

definition string_bytes :: "byte \<Rightarrow> rstring \<Rightarrow> byte list option" where
  "string_bytes charset s =
     (if byte_carrier charset then carrier_encode s
      else (case encode_text charset s of Inl _ \<Rightarrow> None | Inr (Some v) \<Rightarrow> Some v | Inr None \<Rightarrow> Some (utf8 s)))"

definition with_text :: "field_value \<Rightarrow> (rstring \<Rightarrow> byte list option) \<Rightarrow> byte list option" where
  "with_text v k = (case v of TextValue s \<Rightarrow> k s | _ \<Rightarrow> None)"

definition encoded :: "byte \<Rightarrow> rstring \<Rightarrow> byte list option" where
  "encoded charset s = (case encode_text charset s of Inr (Some v) \<Rightarrow> Some v | _ \<Rightarrow> None)"

definition index_key :: "u16 \<Rightarrow> field_value \<Rightarrow> i8 \<Rightarrow> byte \<Rightarrow> byte list option" where
  "index_key itype v sc charset =
     (if v = Null then Some []
      else if itype = IDX_STRING then with_text v (\<lambda>s. map_option (text_key 32) (string_bytes charset s))
      else if itype = IDX_BYTE_ARRAY then
        with_text v (\<lambda>s. map_option (\<lambda>b. let t = trim_end 0 b in if t = [] then [0] else t) (carrier_encode s))
      else if itype = IDX_METADATA \<or> itype = IDX_UNICODE_FSS then with_text v (\<lambda>s. Some (text_key 0 (utf8 s)))
      else if itype = IDX_OFFSET_INTL + TTYPE_PXW_INTL then
        with_text v (\<lambda>s. map_option (\<lambda>b. let k = pxw_intl_key b False in if k = [] then [0] else k) (encoded CS_WIN1252 s))
      else if intl_binary_charset itype \<noteq> None then
        with_text v (\<lambda>s. map_option (text_key 0) (encoded (the (intl_binary_charset itype)) s))
      else if itype = IDX_NUMERIC then map_option double_key (numeric_double v)
      else if itype = IDX_NUMERIC2 then
        (case v of IntValue i \<Rightarrow> int64_key i (sint sc) | Scaled raw s \<Rightarrow> int64_key raw (sint s) | _ \<Rightarrow> None)
      else if itype = IDX_SQL_DATE then
        (case v of Date d \<Rightarrow> Some (flipped_int_key (be_bytes 4 (unat d))) | _ \<Rightarrow> None)
      else if itype = IDX_SQL_TIME then
        (case v of Time t \<Rightarrow> Some (flipped_int_key (be_bytes 4 (unat t))) | _ \<Rightarrow> None)
      else if itype = IDX_TIMESTAMP then
        (case v of
           Timestamp d t \<Rightarrow> Some (flipped_int_key (be_bytes 8 (unat (of_int (sint d * 86400 * 10000 + uint t) :: i64))))
         | _ \<Rightarrow> None)
      else if itype = IDX_BOOLEAN then (case v of Bool b \<Rightarrow> Some [if b then 0x81 else 0x80] | _ \<Rightarrow> None)
      else if itype = IDX_BCD then
        (case v of
           IntValue i \<Rightarrow> Some (int128_bcd_key (scast i) (sint sc))
         | Scaled raw s \<Rightarrow> Some (int128_bcd_key (scast raw) (sint s))
         | Int128 raw s \<Rightarrow> Some (int128_bcd_key raw (sint s))
         | _ \<Rightarrow> None)
      else None)"

subsection \<open>Segments\<close>

definition STUFF_COUNT :: nat where "STUFF_COUNT = 4"

record key_seg =
  seg_itype :: u16
  seg_value :: field_value
  seg_scale :: i8
  seg_charset :: byte

definition compress_seg :: "key_seg \<Rightarrow> bool \<Rightarrow> byte list option" where
  "compress_seg s descending =
     (if seg_value s = Null then Some (if descending then [0] else [])
      else
        map_option (\<lambda>k. if descending \<and> (case k of b # _ \<Rightarrow> b = 0 \<or> b = 1 | [] \<Rightarrow> False) then 1 # k else k)
          (index_key (seg_itype s) (seg_value s) (seg_scale s) (seg_charset s)))"

text \<open>The bytes of a segment in groups behind its marker: the output so far and the room left in
  the group.\<close>

definition stuff_byte :: "byte \<Rightarrow> byte \<Rightarrow> byte list \<times> nat \<Rightarrow> byte list \<times> nat" where
  "stuff_byte marker b st =
     (case st of (out, stuff) \<Rightarrow> if stuff = 0 then (out @ [marker, b], STUFF_COUNT - 1) else (out @ [b], stuff - 1))"

fun stuff_segments :: "nat \<Rightarrow> nat \<Rightarrow> key_seg list \<Rightarrow> bool \<Rightarrow> byte list \<times> nat \<Rightarrow> byte list option" where
  "stuff_segments all n [] descending st = Some (fst st)"
| "stuff_segments all n (s # segs) descending (out, stuff) =
     (case compress_seg s descending of
        None \<Rightarrow> None
      | Some temp \<Rightarrow>
          stuff_segments all (n + 1) segs descending
            (fold (stuff_byte (of_nat (all - n))) temp (out @ replicate stuff 0, 0)))"

definition build_index_key :: "key_seg list \<Rightarrow> bool \<Rightarrow> (byte list \<times> bool) option" where
  "build_index_key segs descending =
     (let all_null = list_all (\<lambda>s. seg_value s = Null) segs;
          out = (case segs of
                   [s] \<Rightarrow> compress_seg s descending
                 | _ \<Rightarrow> stuff_segments (length segs) 0 segs descending ([], 0))
      in map_option (\<lambda>k. (if descending then map (\<lambda>b. NOT b) k else k, all_null)) out)"

end
