(* ===== verification/Btk_Order.thy ===== *)
theory Btk_Order
  imports Btk Bt_Order
begin

text \<open>
  The order of compound index keys. A key of several segments cuts the bytes of each into groups of
  four behind a marker byte, and fills the last group of a segment with zeros before the next one
  begins. The keys compare as the tuples of their segments, for the ascending and, complemented, for
  the descending order.
\<close>

subsection \<open>Comparisons that may not see zeros at an end\<close>

text \<open>What the groups need of a comparison: it decides at the first difference, and a key continued by
  zeros may pass for the key itself.\<close>

locale zero_blind =
  fixes cmp :: "byte list \<Rightarrow> byte list \<Rightarrow> ordering"
  assumes cmp_nil: "cmp [] [] = Equal"
    and cmp_cons: "cmp (x # xs) (y # ys) = (if x = y then cmp xs ys else word_cmp x y)"
    and cmp_short: "y \<noteq> 0 \<Longrightarrow> cmp [] (y # ys) = Less"
    and cmp_long: "x \<noteq> 0 \<Longrightarrow> cmp (x # xs) [] = Greater"
    and cmp_short_zero: "cmp [] (0 # ys) = Less \<or> cmp [] (0 # ys) = cmp [] ys"
    and cmp_long_zero: "cmp (0 # xs) [] = Greater \<or> cmp (0 # xs) [] = cmp xs []"

text \<open>The comparison of keys continued with zeros.\<close>

fun zero_cmp :: "byte list \<Rightarrow> byte list \<Rightarrow> ordering" where
  "zero_cmp [] [] = Equal"
| "zero_cmp [] (y # ys) = (if y = 0 then zero_cmp [] ys else Less)"
| "zero_cmp (x # xs) [] = (if x = 0 then zero_cmp xs [] else Greater)"
| "zero_cmp (x # xs) (y # ys) = (if x = y then zero_cmp xs ys else word_cmp x y)"

interpretation plain: zero_blind bytes_cmp
  by unfold_locales simp_all

interpretation extended: zero_blind zero_cmp
  by unfold_locales simp_all

lemma zero_cmp_padded:
  "length a + i = length b + j \<Longrightarrow> bytes_cmp (a @ replicate i 0) (b @ replicate j 0) = zero_cmp a b"
proof (induction a b arbitrary: i j rule: zero_cmp.induct)
  case 1
  then show ?case by (simp add: bytes_cmp_Equal)
next
  case (2 y ys)
  then obtain k where i: "i = Suc k" "k = length ys + j" by (cases i) auto
  then show ?case using 2(1) [of k j] by (auto simp: word_cmp_def word_gt_0)
next
  case (3 x xs)
  then obtain k where j: "j = Suc k" "length xs + i = k" by (cases j) auto
  then show ?case using 3(1) [of i k] by (auto simp: word_cmp_def word_gt_0)
qed simp

lemma key_cmp_desc_complement:
  "key_cmp_desc (complement_key a) (complement_key b) = zero_cmp b a"
proof -
  let ?n = "max (length a) (length b)"
  have "key_cmp_desc (complement_key a) (complement_key b) =
      bytes_cmp (complement_key (padded ?n 0 a)) (complement_key (padded ?n 0 b))"
    unfolding complement_padded by (rule key_cmp_desc_padded) (simp_all add: complement_key_def)
  also have "\<dots> = flip (bytes_cmp (padded ?n 0 a) (padded ?n 0 b))"
    unfolding complement_key_def by (rule bytes_cmp_not) (simp add: padded_def)
  also have "\<dots> = bytes_cmp (padded ?n 0 b) (padded ?n 0 a)" by (rule bytes_cmp_flip [symmetric])
  also have "\<dots> = zero_cmp b a" unfolding padded_def by (rule zero_cmp_padded) simp
  finally show ?thesis .
qed

subsection \<open>Groups\<close>

text \<open>The groups of a segment behind its marker, with \<^verbatim>\<open>k\<close> bytes of room left, and the room after them.\<close>

fun groups :: "byte \<Rightarrow> nat \<Rightarrow> byte list \<Rightarrow> byte list" where
  "groups m k [] = []"
| "groups m k (b # bs) = (if k = 0 then m # b # groups m (STUFF_COUNT - 1) bs else b # groups m (k - 1) bs)"

fun room_after :: "nat \<Rightarrow> byte list \<Rightarrow> nat" where
  "room_after k [] = k"
| "room_after k (b # bs) = (if k = 0 then room_after (STUFF_COUNT - 1) bs else room_after (k - 1) bs)"

lemma fold_stuff_byte: "fold (stuff_byte m) bs (out, k) = (out @ groups m k bs, room_after k bs)"
  by (induction bs arbitrary: out k) (simp_all add: stuff_byte_def)

text \<open>A whole key, with the number of segments left as the marker.\<close>

fun compound :: "byte list list \<Rightarrow> byte list" where
  "compound [] = []"
| "compound (s # ss) =
     groups (of_nat (length (s # ss))) 0 s @ (if ss = [] then [] else replicate (room_after 0 s) 0 @ compound ss)"

lemma those_length: "those xs = Some ys \<Longrightarrow> length ys = length xs"
  by (induction xs arbitrary: ys) (auto split: option.splits)

lemma stuff_segments_compound:
  assumes "those (map (\<lambda>s. compress_seg s descending) segs) = Some ks" "all = n + length segs"
  shows "stuff_segments all n segs descending (out, stuff) =
    Some (out @ (if ks = [] then [] else replicate stuff 0 @ compound ks))"
  using assms
proof (induction segs arbitrary: n ks out stuff)
  case (Cons s segs)
  obtain k ks' where k: "compress_seg s descending = Some k" "those (map (\<lambda>s. compress_seg s descending) segs) = Some ks'"
    "ks = k # ks'" using Cons.prems(1) by (auto split: option.splits)
  have "length ks' = length segs" using those_length [OF k(2)] by simp
  then have l: "length ks = all - n" using Cons.prems(2) k(3) by simp
  show ?case
    using Cons.IH [OF k(2), of "n + 1"] Cons.prems(2) l
    by (simp add: k(1,3) fold_stuff_byte)
qed simp

subsection \<open>Segments compared\<close>

lemma trim_end_Nil [simp]: "trim_end b [] = []"
  by (simp add: trim_end_def)

lemma trim_end_zero_Cons: "trim_end 0 (x # xs) = (if x = 0 \<and> trim_end 0 xs = [] then [] else x # trim_end 0 xs)"
proof (cases "\<forall>y \<in> set xs. y = 0")
  case True
  then have "dropWhile (\<lambda>y. y = 0) (rev xs) = []" by (simp add: dropWhile_eq_Nil_conv)
  moreover have "dropWhile (\<lambda>y. y = 0) (rev xs @ [x]) = dropWhile (\<lambda>y. y = 0) [x]"
    using True by (intro dropWhile_append2) simp
  ultimately show ?thesis by (simp add: trim_end_def)
next
  case False
  then obtain y where y: "y \<in> set (rev xs)" "y \<noteq> 0" by auto
  then have "dropWhile (\<lambda>y. y = 0) (rev xs @ [x]) = dropWhile (\<lambda>y. y = 0) (rev xs) @ [x]"
    by (intro dropWhile_append1 [of y]) simp_all
  moreover have "dropWhile (\<lambda>y. y = 0) (rev xs) \<noteq> []" using False by (auto simp: dropWhile_eq_Nil_conv)
  ultimately show ?thesis by (simp add: trim_end_def)
qed

lemma trim_end_differ: "trim_end 0 (x # a) \<noteq> trim_end 0 (x # b) \<Longrightarrow> trim_end 0 a \<noteq> trim_end 0 b"
  by (metis trim_end_zero_Cons)

text \<open>What follows a group: the end of the key, or the marker of a later segment.\<close>

definition marks_below :: "byte \<Rightarrow> byte list \<Rightarrow> bool" where
  "marks_below m xs \<longleftrightarrow> (case xs of [] \<Rightarrow> True | x # _ \<Rightarrow> 0 < x \<and> x < m)"

context zero_blind begin

lemma cmp_prefix: "cmp (zs @ xs) (zs @ ys) = cmp xs ys"
  by (induction zs) (simp_all add: cmp_cons)

lemma room_against_groups:
  assumes "marks_below m xs" "0 < m" "b \<noteq> []" "k = 0 \<or> trim_end 0 b \<noteq> []"
  shows "cmp (replicate k 0 @ xs) (groups m k b @ ys) = Less \<and> cmp (groups m k b @ ys) (replicate k 0 @ xs) = Greater"
  using assms
proof (induction b arbitrary: k)
  case (Cons y b)
  show ?case
  proof (cases k)
    case 0
    then show ?thesis using Cons.prems(1,2)
      by (cases xs) (auto simp: marks_below_def cmp_cons cmp_short cmp_long word_cmp_def)
  next
    case (Suc j)
    show ?thesis
    proof (cases "y = 0")
      case True
      then have "trim_end 0 b \<noteq> []" "b \<noteq> []" using Cons.prems(4) Suc by (auto simp: trim_end_zero_Cons)
      then show ?thesis using Cons.IH [of j] Cons.prems(1,2) True Suc by (simp add: cmp_cons)
    next
      case False
      then show ?thesis using Suc by (simp add: cmp_cons word_cmp_def word_gt_0)
    qed
  qed
qed simp

lemma groups_cmp:
  assumes "marks_below m xs" "marks_below m ys" "0 < m" "a \<noteq> b"
    and "(k = 0 \<and> (a = [] \<or> b = [])) \<or> trim_end 0 a \<noteq> trim_end 0 b"
  shows "cmp (groups m k a @ replicate (room_after k a) 0 @ xs) (groups m k b @ replicate (room_after k b) 0 @ ys) = bytes_cmp a b"
  using assms(4,5)
proof (induction a b arbitrary: k rule: bytes_cmp.induct)
  case (2 y b)
  then show ?case using room_against_groups [OF assms(1,3), of "y # b" k "replicate (room_after k (y # b)) 0 @ ys"] by auto
next
  case (3 x a)
  then show ?case using room_against_groups [OF assms(2,3), of "x # a" k "replicate (room_after k (x # a)) 0 @ xs"] by auto
next
  case (4 x a y b)
  show ?case
  proof (cases "x = y")
    case True
    then have "a \<noteq> b" "trim_end 0 a \<noteq> trim_end 0 b" using 4(2,3) trim_end_differ by auto
    then show ?thesis using 4(1) [OF True] True by (simp add: cmp_cons)
  next
    case False
    then show ?thesis by (simp add: cmp_cons)
  qed
qed simp

text \<open>The last segment is not filled.\<close>

lemma nothing_against_groups:
  assumes "0 < m" "b \<noteq> []" "k = 0 \<or> trim_end 0 b \<noteq> []"
  shows "cmp [] (groups m k b) = Less \<and> cmp (groups m k b) [] = Greater"
  using assms
proof (induction b arbitrary: k)
  case (Cons y b)
  show ?case
  proof (cases "k = 0 \<or> y \<noteq> 0")
    case True
    then show ?thesis using Cons.prems(1) by (auto simp: cmp_short cmp_long)
  next
    case False
    then have "trim_end 0 b \<noteq> []" "b \<noteq> []" using Cons.prems(3) by (auto simp: trim_end_zero_Cons)
    then show ?thesis using Cons.IH [of "k - 1"] Cons.prems(1) False cmp_short_zero cmp_long_zero by (auto; metis)
  qed
qed simp

lemma last_groups_cmp:
  assumes "0 < m" "a = b \<or> (k = 0 \<and> (a = [] \<or> b = [])) \<or> trim_end 0 a \<noteq> trim_end 0 b"
  shows "cmp (groups m k a) (groups m k b) = bytes_cmp a b"
  using assms(2)
proof (induction a b arbitrary: k rule: bytes_cmp.induct)
  case 1
  then show ?case by (simp add: cmp_nil)
next
  case (2 y b)
  then show ?case using nothing_against_groups [OF assms(1), of "y # b" k] by auto
next
  case (3 x a)
  then show ?case using nothing_against_groups [OF assms(1), of "x # a" k] by auto
next
  case (4 x a y b)
  show ?case
  proof (cases "x = y")
    case True
    then have "a = b \<or> trim_end 0 a \<noteq> trim_end 0 b" using 4(2) trim_end_differ by auto
    then have "cmp (groups m j a) (groups m j b) = bytes_cmp a b" for j using 4(1) [OF True] by blast
    then show ?thesis using True by (simp add: cmp_cons)
  next
    case False
    then show ?thesis by (simp add: cmp_cons)
  qed
qed

end

subsection \<open>Compound keys compared\<close>

fun segments_cmp :: "byte list list \<Rightarrow> byte list list \<Rightarrow> ordering" where
  "segments_cmp (a # as) (b # bs) = and_then (bytes_cmp a b) (segments_cmp as bs)"
| "segments_cmp _ _ = Equal"

text \<open>Two segments are told apart when they differ by more than zeros at their ends; an empty one is told
  apart by its missing marker.\<close>

definition apart :: "byte list \<Rightarrow> byte list \<Rightarrow> bool" where
  "apart a b \<longleftrightarrow> a = b \<or> a = [] \<or> b = [] \<or> trim_end 0 a \<noteq> trim_end 0 b"

lemma of_nat_byte: "n < 256 \<Longrightarrow> unat (of_nat n :: byte) = n"
  by (simp add: unat_of_nat)

lemma compound_marks:
  assumes "length ss < n" "n < 256"
  shows "marks_below (of_nat n) (compound ss)"
  using assms(1)
proof (induction ss)
  case (Cons s ss)
  have "length (s # ss) < 256" using Cons.prems assms(2) by simp
  then have "0 < (of_nat (length (s # ss)) :: byte)" "(of_nat (length (s # ss)) :: byte) < of_nat n"
    using Cons.prems assms(2) by (simp_all only: word_less_nat_alt of_nat_byte) simp_all
  then show ?case using Cons by (cases s) (auto simp: marks_below_def)
qed (simp add: marks_below_def)

context zero_blind begin

lemma compound_cmp:
  assumes "list_all2 apart as bs" "length as < 256"
  shows "cmp (compound as) (compound bs) = segments_cmp as bs"
  using assms
proof (induction as bs rule: list_all2_induct)
  case Nil
  then show ?case by (simp add: cmp_nil)
next
  case (Cons a as b bs)
  have l: "length as = length bs" using Cons.hyps(2) by (rule list_all2_lengthD)
  let ?m = "of_nat (length (a # as)) :: byte"
  have m: "0 < ?m" using Cons.prems by (simp only: word_less_nat_alt of_nat_byte) simp
  have ap: "a = b \<or> a = [] \<or> b = [] \<or> trim_end 0 a \<noteq> trim_end 0 b" using Cons.hyps(1) by (simp add: apart_def)
  show ?case
  proof (cases "as = []")
    case True
    then show ?thesis using last_groups_cmp [OF m, of a b 0] ap l by (auto simp: and_then_def)
  next
    case False
    have below: "marks_below ?m (compound as)" "marks_below ?m (compound bs)"
      using compound_marks [of as "length (a # as)"] compound_marks [of bs "length (a # as)"] Cons.prems l by simp_all
    have ne: "bs \<noteq> []" using False l by auto
    show ?thesis
    proof (cases "a = b")
      case True
      then show ?thesis using False ne l Cons by (simp add: cmp_prefix and_then_def bytes_cmp_Equal)
    next
      case diff: False
      then have "cmp (groups ?m 0 a @ replicate (room_after 0 a) 0 @ compound as)
          (groups ?m 0 b @ replicate (room_after 0 b) 0 @ compound bs) = bytes_cmp a b"
        using groups_cmp [OF below m, of a b 0] ap by auto
      then show ?thesis using False ne l diff by (simp add: and_then_def bytes_cmp_Equal)
    qed
  qed
qed

end

subsection \<open>The key of a row\<close>

text \<open>A segment whose bytes end in no zero byte, one zero byte alone apart: what the number encoders chop
  and the text encoders strip, unless a text ends in a zero character.\<close>

definition seg_chopped :: "key_seg \<Rightarrow> bool" where
  "seg_chopped s \<longleftrightarrow> seg_value s = Null \<or>
     (case index_key (seg_itype s) (seg_value s) (seg_scale s) (seg_charset s) of None \<Rightarrow> False | Some k \<Rightarrow> chopped k)"

definition seg_key :: "bool \<Rightarrow> key_seg \<Rightarrow> byte list" where
  "seg_key descending s = the (compress_seg s descending)"

lemma chopped_trim: "chopped k \<Longrightarrow> trim_end 0 k = (if k = [0] then [] else k)"
  by (cases k rule: rev_cases) (auto simp: chopped_def trim_end_def)

text \<open>The keys of one segment of a descending index: the zero byte of NULL, or the value's bytes behind a
  guard where they begin with 0 or 1.\<close>

definition guarded :: "bool \<Rightarrow> byte list \<Rightarrow> byte list" where
  "guarded descending k = (if descending \<and> hd k \<in> {0, 1} then 1 # k else k)"

lemma seg_key_cases:
  assumes "seg_chopped s"
  obtains "compress_seg s descending = Some (if descending then [0] else [])" |
    k where "compress_seg s descending = Some (guarded descending k)" "chopped k"
proof (cases "seg_value s = Null")
  case True
  then show ?thesis using that(1) by (simp add: compress_seg_def)
next
  case False
  then obtain k where k: "index_key (seg_itype s) (seg_value s) (seg_scale s) (seg_charset s) = Some k" "chopped k"
    using assms by (auto simp: seg_chopped_def split: option.splits)
  obtain b bs where b: "k = b # bs" using k(2) by (cases k) (simp_all add: chopped_def)
  have "compress_seg s descending = Some (guarded descending k)"
    using False by (simp add: compress_seg_def k(1) guarded_def b)
  then show ?thesis using that(2) k(2) by blast
qed

lemma guarded_trim:
  assumes "chopped k"
  shows "trim_end 0 (guarded True k) = (if k = [0] then [1] else guarded True k)" "guarded True k \<noteq> []"
proof -
  have ne: "k \<noteq> []" using assms by (simp add: chopped_def)
  show "guarded True k \<noteq> []" using ne by (simp add: guarded_def)
  show "trim_end 0 (guarded True k) = (if k = [0] then [1] else guarded True k)"
  proof (cases "hd k \<in> {0, 1}")
    case True
    then have "trim_end 0 (guarded True k) = 1 # trim_end 0 k" by (simp add: guarded_def trim_end_zero_Cons)
    then show ?thesis using True unfolding chopped_trim [OF assms] by (simp add: guarded_def)
  next
    case False
    then have "k \<noteq> [0]" by auto
    then show ?thesis using False chopped_trim [OF assms] by (simp add: guarded_def)
  qed
qed

lemma guarded_not_guard: "chopped k \<Longrightarrow> guarded True k \<noteq> [1]"
proof
  assume k: "chopped k" "guarded True k = [1]"
  show False
  proof (cases "hd k \<in> {0, 1}")
    case True
    then have "k = []" using k(2) by (simp add: guarded_def)
    then show False using k(1) by (simp add: chopped_def)
  next
    case False
    then have "k = [1]" using k(2) by (simp add: guarded_def)
    then show False using False by simp
  qed
qed

lemma guarded_apart:
  assumes "chopped k" "chopped l" "guarded True k \<noteq> guarded True l"
  shows "trim_end 0 (guarded True k) \<noteq> trim_end 0 (guarded True l)"
proof (cases "k = [0] \<or> l = [0]")
  case True
  then show ?thesis
    using assms(3) guarded_not_guard [OF assms(1)] guarded_not_guard [OF assms(2)]
    unfolding guarded_trim(1) [OF assms(1)] guarded_trim(1) [OF assms(2)]
    by (cases "k = [0]"; cases "l = [0]") simp_all
next
  case False
  then show ?thesis using assms(3) unfolding guarded_trim(1) [OF assms(1)] guarded_trim(1) [OF assms(2)] by simp
qed

lemma guarded_not_null: "chopped k \<Longrightarrow> trim_end 0 (guarded True k) \<noteq> []"
  using guarded_trim [of k] by simp

lemma trim_zero: "trim_end 0 [0] = []"
  by (simp add: trim_end_def)

lemma seg_keys_apart:
  assumes "seg_chopped s" "seg_chopped t"
  shows "apart (seg_key descending s) (seg_key descending t)"
    and "seg_key True s = seg_key True t \<or> trim_end 0 (seg_key True s) \<noteq> trim_end 0 (seg_key True t)"
proof -
  have cases_of: "seg_key True x = [0] \<or> (\<exists>k. chopped k \<and> seg_key True x = guarded True k)" if "seg_chopped x" for x
    using that by (rule seg_key_cases [of _ True]) (auto simp: seg_key_def)
  show d: "seg_key True s = seg_key True t \<or> trim_end 0 (seg_key True s) \<noteq> trim_end 0 (seg_key True t)"
    using cases_of [OF assms(1)] cases_of [OF assms(2)] guarded_apart guarded_not_null trim_zero by metis
  have cases_of': "seg_key False x = [] \<or> chopped (seg_key False x)" if "seg_chopped x" for x
    using that by (rule seg_key_cases [of _ False]) (auto simp: seg_key_def guarded_def)
  have "apart (seg_key False s) (seg_key False t)"
  proof (cases "seg_key False s = [] \<or> seg_key False t = []")
    case False
    then have k: "chopped (seg_key False s)" "chopped (seg_key False t)"
      using cases_of' [OF assms(1)] cases_of' [OF assms(2)] by simp_all
    then have "seg_key False s \<noteq> [0] \<Longrightarrow> seg_key False s \<noteq> []" "seg_key False t \<noteq> []" by (simp_all add: chopped_def)
    then show ?thesis unfolding apart_def chopped_trim [OF k(1)] chopped_trim [OF k(2)] by auto
  qed (auto simp: apart_def)
  then show "apart (seg_key descending s) (seg_key descending t)" using d by (cases descending) (auto simp: apart_def)
qed

lemma seg_chopped_compress: "seg_chopped s \<Longrightarrow> compress_seg s descending = Some (seg_key descending s)"
  by (erule seg_key_cases [of s descending]) (simp_all add: seg_key_def)

lemma build_index_key_compound:
  fixes descending :: bool
  assumes "list_all seg_chopped segs" "segs \<noteq> []"
  defines "ks \<equiv> map (seg_key descending) segs"
  defines "key \<equiv> (if length segs = 1 then hd ks else compound ks)"
  shows "build_index_key segs descending =
    Some (if descending then complement_key key else key, list_all (\<lambda>s. seg_value s = Null) segs)"
proof (cases "length segs = 1")
  case True
  then obtain s where s: "segs = [s]" by (cases segs) auto
  then show ?thesis using assms(1) by (simp add: build_index_key_def seg_chopped_compress key_def ks_def complement_key_def)
next
  case False
  have "those (map (\<lambda>s. compress_seg s descending) segs) = Some ks"
    using assms(1) unfolding ks_def by (induction segs) (auto simp: seg_chopped_compress)
  then have "stuff_segments (length segs) 0 segs descending ([], 0) = Some (compound ks)"
    using assms(2) by (simp add: stuff_segments_compound ks_def)
  moreover obtain s t rest where "segs = s # t # rest" using False assms(2) by (cases segs; cases "tl segs") auto
  ultimately show ?thesis using False by (simp add: build_index_key_def key_def complement_key_def)
qed

lemma zero_cmp_nonzero: "trim_end 0 b \<noteq> [] \<Longrightarrow> zero_cmp [] b = Less \<and> zero_cmp b [] = Greater"
  by (induction b) (auto simp: trim_end_zero_Cons split: if_splits)

lemma single_zero_cmp: "a = b \<or> trim_end 0 a \<noteq> trim_end 0 b \<Longrightarrow> zero_cmp a b = bytes_cmp a b"
proof (induction a b rule: bytes_cmp.induct)
  case (2 y b)
  then show ?case using zero_cmp_nonzero [of "y # b"] by simp
next
  case (3 x a)
  then show ?case using zero_cmp_nonzero [of "x # a"] by simp
next
  case (4 x a y b)
  then show ?case using trim_end_differ [of x a b] by auto
qed simp

lemma segments_cmp_single: "segments_cmp [a] [b] = bytes_cmp a b"
  by (simp add: and_then_def)

text \<open>The index keys of two rows compare as the rows' segments do, first segment first, each by the
  order of its own bytes, for any number of segments; NULL is the least value of a segment; in a
  descending index, whose keys are complemented as a whole, the comparison is exactly reversed. The
  markers and fillers of a compound key never change the outcome.\<close>

lemma index_keys_compare_as_segments:
  assumes "list_all seg_chopped segs" "list_all seg_chopped segs'"
    and "length segs = length segs'" "segs \<noteq> []" "length segs < 256"
  shows "\<exists>key n key' n'. build_index_key segs descending = Some (key, n) \<and>
    build_index_key segs' descending = Some (key', n') \<and>
    kcmp descending key key' =
      (if descending then segments_cmp (map (seg_key True) segs') (map (seg_key True) segs)
       else segments_cmp (map (seg_key False) segs) (map (seg_key False) segs'))"
proof -
  let ?ks = "map (seg_key descending) segs" and ?ks' = "map (seg_key descending) segs'"
  have ap: "list_all2 apart (map (seg_key d) as) (map (seg_key d) bs)"
    if "list_all seg_chopped as" "list_all seg_chopped bs" "length as = length bs" for d as bs
    using that by (simp add: list_all2_conv_all_nth list_all_length seg_keys_apart)
  note b = build_index_key_compound [OF assms(1,4), of descending]
  have ne: "segs' \<noteq> []" using assms(3,4) by auto
  note b' = build_index_key_compound [OF assms(2) ne, of descending]
  have asc: "bytes_cmp (if length segs = 1 then hd (map (seg_key False) segs) else compound (map (seg_key False) segs))
      (if length segs' = 1 then hd (map (seg_key False) segs') else compound (map (seg_key False) segs')) =
    segments_cmp (map (seg_key False) segs) (map (seg_key False) segs')"
  proof (cases "length segs = 1")
    case True
    then obtain s s' where "segs = [s]" "segs' = [s']" using assms(3) by (cases segs; cases segs') auto
    then show ?thesis by (simp only: list.size list.map list.sel segments_cmp_single) simp
  next
    case False
    then show ?thesis using plain.compound_cmp [OF ap [OF assms(1-3), of False]] assms(3,5) by simp
  qed
  have desc: "zero_cmp (if length segs' = 1 then hd (map (seg_key True) segs') else compound (map (seg_key True) segs'))
      (if length segs = 1 then hd (map (seg_key True) segs) else compound (map (seg_key True) segs)) =
    segments_cmp (map (seg_key True) segs') (map (seg_key True) segs)"
  proof (cases "length segs = 1")
    case True
    then obtain s s' where s: "segs = [s]" "segs' = [s']" using assms(3) by (cases segs; cases segs') auto
    have "zero_cmp (seg_key True s') (seg_key True s) = bytes_cmp (seg_key True s') (seg_key True s)"
      by (rule single_zero_cmp) (use seg_keys_apart(2) [of s' s] assms(1,2) s in simp)
    then show ?thesis by (simp only: s list.size list.map list.sel segments_cmp_single) simp
  next
    case False
    then show ?thesis using extended.compound_cmp [OF ap [OF assms(2,1) assms(3) [symmetric], of True]] assms(3,5) by simp
  qed
  let ?key = "\<lambda>d as. if length as = 1 then hd (map (seg_key d) as) else compound (map (seg_key d) as)"
  let ?whole = "\<lambda>as. if descending then complement_key (?key descending as) else ?key descending as"
  have "kcmp descending (?whole segs) (?whole segs') =
      (if descending then zero_cmp (?key True segs') (?key True segs) else bytes_cmp (?key False segs) (?key False segs'))"
    by (cases descending) (simp_all only: kcmp_def key_cmp_desc_complement if_True if_False)
  then have "kcmp descending (?whole segs) (?whole segs') =
      (if descending then segments_cmp (map (seg_key True) segs') (map (seg_key True) segs)
       else segments_cmp (map (seg_key False) segs) (map (seg_key False) segs'))"
    by (simp only: asc desc)
  then show ?thesis using b b' by blast
qed

text \<open>Two rows of a name and a number; the second row has the lesser number.\<close>

definition demo_seg :: "field_value \<Rightarrow> key_seg" where
  "demo_seg v =
     \<lparr>seg_itype = (case v of TextValue _ \<Rightarrow> IDX_METADATA | _ \<Rightarrow> IDX_SQL_DATE), seg_value = v, seg_scale = 0, seg_charset = 0\<rparr>"

lemma index_keys_compare_as_segments_witness:
  "\<exists>key n key' n'. build_index_key [demo_seg (TextValue [97]), demo_seg (Date 5)] True = Some (key, n) \<and>
    build_index_key [demo_seg (TextValue [97]), demo_seg Null] True = Some (key', n') \<and>
    kcmp True key key' = Less"
proof -
  have k: "index_key IDX_METADATA (TextValue [97]) 0 0 = Some [97]" "index_key IDX_SQL_DATE (Date 5) 0 0 = Some [0x80, 0, 0, 5]"
    by code_simp+
  have c: "list_all seg_chopped [demo_seg (TextValue [97]), demo_seg (Date 5)]"
    "list_all seg_chopped [demo_seg (TextValue [97]), demo_seg Null]"
    using k by (simp_all add: seg_chopped_def demo_seg_def chopped_def)
  have s: "segments_cmp (map (seg_key True) [demo_seg (TextValue [97]), demo_seg Null])
      (map (seg_key True) [demo_seg (TextValue [97]), demo_seg (Date 5)]) = Less"
    using k by (simp add: seg_key_def compress_seg_def demo_seg_def and_then_def word_cmp_def)
  show ?thesis using index_keys_compare_as_segments [OF c, of True] unfolding if_True s by simp
qed

end
