(* ===== verification/Btk_Bytes.thy ===== *)
theory Btk_Bytes
  imports Btk_Order
begin

unbundle bit_operations_syntax

text \<open>
  Big-endian keys as numbers: their byte order is the order of the numbers, chopping zero bytes from
  the end keeps it, flipping the top bit orders signed numbers, and complementing reverses.
\<close>

subsection \<open>Numbers\<close>

lemma length_key_be_bytes [simp]: "length (be_bytes n v) = n"
  by (simp add: be_bytes_def)

lemma be_bytes_Suc: "be_bytes (Suc n) v = be_bytes n (v div 256) @ [of_nat (v mod 256)]"
  by (simp add: be_bytes_def)

lemma be_bytes_append: "b < 256 ^ n \<Longrightarrow> be_bytes (m + n) (a * 256 ^ n + b) = be_bytes m a @ be_bytes n b"
proof (induction n arbitrary: b)
  case 0
  then show ?case by (simp add: be_bytes_def)
next
  case (Suc n)
  have "b div 256 < 256 ^ n" using Suc.prems by (simp add: less_mult_imp_div_less mult.commute)
  then have ih: "be_bytes (m + n) (a * 256 ^ n + b div 256) = be_bytes m a @ be_bytes n (b div 256)" by (rule Suc.IH)
  have d: "a * 256 ^ Suc n + b = (a * 256 ^ n + b div 256) * 256 + b mod 256"
    by (simp add: algebra_simps)
  have "(a * 256 ^ Suc n + b) div 256 = a * 256 ^ n + b div 256" "(a * 256 ^ Suc n + b) mod 256 = b mod 256"
    unfolding d by simp_all
  then show ?case by (simp only: add_Suc_right be_bytes_Suc ih) simp
qed

lemma bytes_cmp_snoc:
  "length xs = length ys \<Longrightarrow> bytes_cmp (xs @ [x]) (ys @ [y]) = and_then (bytes_cmp xs ys) (word_cmp x y)"
  by (induction xs ys rule: list_induct2) (auto simp: and_then_def word_cmp_def)

lemma bytes_cmp_be_bytes:
  "u < 256 ^ n \<Longrightarrow> v < 256 ^ n \<Longrightarrow> bytes_cmp (be_bytes n u) (be_bytes n v) = word_cmp u v"
proof (induction n arbitrary: u v)
  case 0
  then show ?case by (simp add: be_bytes_def word_cmp_def)
next
  case (Suc n)
  have "bytes_cmp (be_bytes n (u div 256)) (be_bytes n (v div 256)) = word_cmp (u div 256) (v div 256)"
    by (rule Suc.IH) (use Suc.prems in \<open>simp_all add: less_mult_imp_div_less mult.commute\<close>)
  moreover have "word_cmp (of_nat (u mod 256) :: byte) (of_nat (v mod 256)) = word_cmp (u mod 256) (v mod 256)"
    by (simp add: word_cmp_def word_less_nat_alt word_unat_eq_iff unat_of_nat)
  moreover have "and_then (word_cmp (u div 256) (v div 256)) (word_cmp (u mod 256) (v mod 256)) = word_cmp u v"
  proof -
    have u: "u = u div 256 * 256 + u mod 256" "u mod 256 < 256" and v: "v = v div 256 * 256 + v mod 256" "v mod 256 < 256"
      by simp_all
    consider "u div 256 < v div 256" | "u div 256 = v div 256" | "v div 256 < u div 256" by linarith
    then show ?thesis
    proof cases
      case 1
      then have "u < v" using u v by linarith
      then show ?thesis using 1 by (simp add: and_then_def word_cmp_def)
    next
      case 2
      then have "u < v \<longleftrightarrow> u mod 256 < v mod 256" "u = v \<longleftrightarrow> u mod 256 = v mod 256" using u v by linarith+
      then show ?thesis using 2 by (simp add: and_then_def word_cmp_def)
    next
      case 3
      then have "v < u" using u v by linarith
      then show ?thesis using 3 by (simp add: and_then_def word_cmp_def)
    qed
  qed
  ultimately show ?case by (simp add: be_bytes_Suc bytes_cmp_snoc)
qed

subsection \<open>Chopping\<close>

lemma trim_end_split: "\<exists>k. xs = trim_end 0 xs @ replicate k 0"
proof (induction xs)
  case (Cons x xs)
  then obtain k where k: "xs = trim_end 0 xs @ replicate k 0" by blast
  show ?case
  proof (cases "x = 0 \<and> trim_end 0 xs = []")
    case True
    then have "xs = replicate k 0" using k by simp
    then have "x # xs = trim_end 0 (x # xs) @ replicate (Suc k) 0" using True by (simp add: trim_end_zero_Cons)
    then show ?thesis by blast
  next
    case False
    then have "trim_end 0 (x # xs) = x # trim_end 0 xs" by (auto simp: trim_end_zero_Cons)
    then show ?thesis using k by (metis append_Cons)
  qed
qed simp

lemma trim_end_idem: "trim_end 0 (trim_end 0 xs) = trim_end 0 xs"
proof (induction xs)
  case (Cons x xs)
  show ?case
  proof (cases "x = 0 \<and> trim_end 0 xs = []")
    case True
    then show ?thesis by (simp add: trim_end_zero_Cons)
  next
    case False
    then have "trim_end 0 (x # xs) = x # trim_end 0 xs" by (auto simp: trim_end_zero_Cons)
    then show ?thesis using False Cons by (simp add: trim_end_zero_Cons)
  qed
qed simp

lemma trim_end_cmp:
  assumes "length a = length b"
  shows "bytes_cmp (trim_end 0 a) (trim_end 0 b) = bytes_cmp a b"
proof -
  obtain i j where a: "a = trim_end 0 a @ replicate i 0" and b: "b = trim_end 0 b @ replicate j 0"
    using trim_end_split by blast
  have "length (trim_end 0 a) + i = length (trim_end 0 b) + j"
    using arg_cong [OF a, of length] arg_cong [OF b, of length] assms by simp
  then have "bytes_cmp a b = zero_cmp (trim_end 0 a) (trim_end 0 b)" using zero_cmp_padded a b by metis
  also have "\<dots> = bytes_cmp (trim_end 0 a) (trim_end 0 b)" by (rule single_zero_cmp) (simp add: trim_end_idem)
  finally show ?thesis by simp
qed

lemma chop_zeros_cmp: "length a = length b \<Longrightarrow> bytes_cmp (chop_zeros a) (chop_zeros b) = bytes_cmp a b"
  by (cases a; cases b) (simp_all add: chop_zeros_def trim_end_cmp)

lemma trim_end_last: "trim_end 0 xs \<noteq> [] \<Longrightarrow> last (trim_end 0 xs) \<noteq> 0"
  by (induction xs) (auto simp: trim_end_zero_Cons split: if_splits)

lemma chop_zeros_chopped: "a \<noteq> [] \<Longrightarrow> chopped (chop_zeros a)"
  using trim_end_last by (cases a) (auto simp: chopped_def chop_zeros_def)

subsection \<open>Signs\<close>

lemma xor_byte: "(x :: byte) XOR 0x80 = x + 0x80"
proof -
  have "x XOR 0x80 = flip_bit 7 x" by (simp add: flip_bit_eq_xor)
  also have "\<dots> = (if bit x 7 then x - 0x80 else x + 0x80)"
    by (simp add: flip_bit_eq_if unset_bit_eq set_bit_eq)
  also have "\<dots> = x + 0x80"
  proof -
    have "x - 0x80 = x + 0x80" by (simp add: diff_eq_eq)
    then show ?thesis by simp
  qed
  finally show ?thesis .
qed

lemma be_bytes_mod: "be_bytes n (v mod 256 ^ n) = be_bytes n v"
proof (induction n arbitrary: v)
  case (Suc n)
  have m: "v mod 256 ^ Suc n = (v div 256 mod 256 ^ n) * 256 + v mod 256"
    using mod_mult2_eq [of v 256 "256 ^ n"] by simp
  have "v mod 256 ^ Suc n div 256 = v div 256 mod 256 ^ n" "v mod 256 ^ Suc n mod 256 = v mod 256"
    unfolding m by (rule field_split, simp)+
  then show ?case by (simp only: be_bytes_Suc Suc)
qed (simp add: be_bytes_def)

lemma be_bytes_one: "be_bytes 1 v = [of_nat (v mod 256)]"
  by (simp add: be_bytes_def)

lemma be_bytes_first: "be_bytes (Suc n) v = of_nat (v div 256 ^ n mod 256) # be_bytes n v"
proof -
  have "be_bytes (1 + n) (v div 256 ^ n * 256 ^ n + v mod 256 ^ n) = be_bytes 1 (v div 256 ^ n) @ be_bytes n (v mod 256 ^ n)"
    by (rule be_bytes_append) simp
  then show ?thesis by (simp only: div_mult_mod_eq be_bytes_mod be_bytes_one append_Cons append_Nil plus_1_eq_Suc)
qed

lemma of_nat_mod_byte: "(of_nat (v mod 256) :: byte) = of_nat v"
  by (simp add: word_unat_eq_iff unat_of_nat)

lemma flip_first_be_bytes: "flip_first (be_bytes (Suc n) v) = be_bytes (Suc n) (v + 128 * 256 ^ n)"
proof -
  have d: "(v + 128 * 256 ^ n) div 256 ^ n = v div 256 ^ n + 128" by (simp add: add.commute)
  have m: "be_bytes n (v + 128 * 256 ^ n) = be_bytes n v"
    using be_bytes_mod [of n "v + 128 * 256 ^ n"] be_bytes_mod [of n v] by (simp add: add.commute)
  show ?thesis
    unfolding be_bytes_first [of n v] be_bytes_first [of n "v + 128 * 256 ^ n"] d m of_nat_mod_byte
    by (simp add: flip_first_def xor_byte)
qed

lemma complement_be_bytes: "v < 256 ^ n \<Longrightarrow> map (\<lambda>b. NOT b) (be_bytes n v) = be_bytes n (256 ^ n - 1 - v)"
proof (induction n arbitrary: v)
  case (Suc n)
  have lt: "v div 256 < 256 ^ n" using Suc.prems by (simp add: less_mult_imp_div_less mult.commute)
  have v: "v = v div 256 * 256 + v mod 256" "v mod 256 < 256" by simp_all
  have e: "256 ^ Suc n - 1 - v = (256 ^ n - 1 - v div 256) * 256 + (255 - v mod 256)"
    using lt v by (simp only: power_Suc diff_mult_distrib) linarith
  have l: "255 - v mod 256 < 256" by simp
  note q = field_split [OF l, of "256 ^ n - 1 - v div 256", folded e]
  have "NOT (of_nat (v mod 256) :: byte) = of_nat (255 - v mod 256)"
    using unat_not_byte [of "of_nat (v mod 256)"] unfolding word_unat_eq_iff
    by (simp only: of_nat_byte [OF v(2)] of_nat_byte [OF l])
  then show ?case using Suc.IH [OF lt] by (simp only: be_bytes_Suc q map_append) simp
qed (simp add: be_bytes_def)

text \<open>A signed number in two's complement, its top bit flipped, is the number moved up by half the range.\<close>

lemma flipped_signed:
  assumes "- (128 * 256 ^ n) \<le> i" "i < 128 * 256 ^ n" "int u = i mod (256 ^ Suc n)"
  shows "flip_first (be_bytes (Suc n) u) = be_bytes (Suc n) (nat (i + 128 * 256 ^ n))"
proof -
  have "int ((u + 128 * 256 ^ n) mod 256 ^ Suc n) = (i + 128 * 256 ^ n) mod 256 ^ Suc n"
    using assms(3) by (simp add: zmod_int mod_add_left_eq)
  also have "\<dots> = i + 128 * 256 ^ n" using assms(1,2) by (intro mod_pos_pos_trivial) simp_all
  finally have "(u + 128 * 256 ^ n) mod 256 ^ Suc n = nat (i + 128 * 256 ^ n)" by linarith
  then show ?thesis using be_bytes_mod [of "Suc n" "u + 128 * 256 ^ n"] by (simp only: flip_first_be_bytes)
qed

lemma flipped_signed_cmp:
  assumes "- (128 * 256 ^ n) \<le> i" "i < 128 * 256 ^ n" "int u = i mod (256 ^ Suc n)"
    and "- (128 * 256 ^ n) \<le> j" "j < 128 * 256 ^ n" "int v = j mod (256 ^ Suc n)"
  shows "bytes_cmp (flipped_int_key (be_bytes (Suc n) u)) (flipped_int_key (be_bytes (Suc n) v)) = int_cmp i j"
proof -
  have b: "nat (i + 128 * 256 ^ n) < 256 ^ Suc n" "nat (j + 128 * 256 ^ n) < 256 ^ Suc n"
    using assms by (simp_all add: nat_less_iff)
  have "word_cmp (nat (i + 128 * 256 ^ n)) (nat (j + 128 * 256 ^ n)) = int_cmp i j"
    using assms(1,4) by (auto simp: word_cmp_def int_cmp_def)
  then show ?thesis
    unfolding flipped_int_key_def flipped_signed [OF assms(1-3)] flipped_signed [OF assms(4-6)]
    using bytes_cmp_be_bytes [OF b] by (simp add: chop_zeros_cmp)
qed

end
