(* ===== verification/Btk_Double.thy ===== *)
theory Btk_Double
  imports Btk_Bytes
begin

unbundle bit_operations_syntax

text \<open>
  Keys of floats: the magnitude of a float as a number grows with its value, so the key of a float is a
  64-bit number that grows with the value, negative floats complemented.
\<close>

subsection \<open>Magnitudes in the order of their values\<close>

lemma field_cases:
  fixes m :: nat
  obtains ex fr where "m = ex * 2 ^ 52 + fr" "fr < 2 ^ 52"
  by (metis div_mult_mod_eq mod_less_divisor zero_less_numeral zero_less_power)

lemma mag_value_field:
  assumes "fr < 2 ^ 52"
  shows "mag_value (ex * 2 ^ 52 + fr) =
    (if ex = 0 then real fr * 2 powi (- 1074) else (real fr + 2 ^ 52) * 2 powi (int ex - 1075))"
  unfolding mag_value_def mag_parts_def Let_def field_split [OF assms] by simp

lemma mag_value_Suc: "mag_value m < mag_value (Suc m)"
proof -
  obtain ex fr where m: "m = ex * 2 ^ 52 + fr" "fr < 2 ^ 52" by (rule field_cases)
  show ?thesis
  proof (cases "fr + 1 < 2 ^ 52")
    case True
    have s: "Suc m = ex * 2 ^ 52 + (fr + 1)" using m(1) by simp
    show ?thesis using mag_value_field [OF m(2), of ex] mag_value_field [OF True, of ex] unfolding s [symmetric] m(1) [symmetric] by simp
  next
    case False
    then have f: "fr = 2 ^ 52 - 1" using m(2) by simp
    have s: "Suc m = (ex + 1) * 2 ^ 52 + 0" using m(1) f by simp
    have z: "(0 :: nat) < 2 ^ 52" by simp
    have rf: "real fr = 2 ^ 52 - 1" using f by simp
    show ?thesis
    proof (cases "ex = 0")
      case True
      then show ?thesis using mag_value_field [OF m(2), of ex] mag_value_field [OF z, of "ex + 1"]
        unfolding s [symmetric] m(1) [symmetric] rf by simp
    next
      case False
      have "(2 :: real) powi (int (ex + 1) - 1075) = 2 * 2 powi (int ex - 1075)"
        using power_int_add [of "2 :: real" "int ex - 1075" 1] by (simp add: algebra_simps)
      then show ?thesis using False mag_value_field [OF m(2), of ex] mag_value_field [OF z, of "ex + 1"]
        unfolding s [symmetric] m(1) [symmetric] rf by simp
    qed
  qed
qed

lemma mag_value_less [simp]: "mag_value m < mag_value n \<longleftrightarrow> m < n"
proof -
  have "strict_mono mag_value" by (simp add: strict_mono_Suc_iff mag_value_Suc)
  then show ?thesis by (rule strict_mono_less)
qed

lemma mag_value_eq [simp]: "mag_value m = mag_value n \<longleftrightarrow> m = n"
  by (metis mag_value_less linorder_neq_iff order_less_irrefl)

lemma mag_value_zero [simp]: "mag_value 0 = 0"
  by (simp add: mag_value_def mag_parts_def)

lemma mag_value_nonneg [simp]: "0 \<le> mag_value m"
  using mag_value_less [of 0 m] by (cases m) auto

lemma mag_value_pos [simp]: "0 < mag_value m \<longleftrightarrow> 0 < m"
  using mag_value_less [of 0 m] by simp

subsection \<open>The number a float is keyed as\<close>

definition double_number :: "f64 \<Rightarrow> nat" where
  "double_number d = (if f64_below_zero d then 2 ^ 63 - 1 - f64_mag d else 2 ^ 63 + f64_mag d)"

lemma f64_mag_less: "f64_mag d < 2 ^ 63"
  by (simp add: f64_mag_def)

lemma f64_neg_iff: "f64_neg d \<longleftrightarrow> 2 ^ 63 \<le> unat d"
proof -
  have "bit (unat d) 63 = bit d 63" by (simp add: bit_unsigned_iff)
  then have "f64_neg d \<longleftrightarrow> odd (unat d div 2 ^ 63)" unfolding f64_neg_def by (simp add: bit_iff_odd [of "unat d"])
  moreover have "unat d div 2 ^ 63 < 2" using unsigned_less [of d] by (simp add: div_less_iff_less_mult)
  ultimately show ?thesis by (cases "unat d div 2 ^ 63 = 0") (auto simp: div_eq_0_iff)
qed

lemma unat_f64: "unat d = (if f64_neg d then 2 ^ 63 + f64_mag d else f64_mag d)"
proof (cases "f64_neg d")
  case True
  then have "2 ^ 63 \<le> unat d" "unat d < 2 ^ 64" using f64_neg_iff unsigned_less [of d] by simp_all
  then have "unat d mod 2 ^ 63 = unat d - 2 ^ 63" by (simp add: mod_if)
  then show ?thesis using True \<open>2 ^ 63 \<le> unat d\<close> by (simp add: f64_mag_def)
next
  case False
  then show ?thesis by (simp add: f64_neg_iff f64_mag_def)
qed

lemma double_number_less: "double_number d < 256 ^ 8"
  using f64_mag_less [of d] by (auto simp: double_number_def)

text \<open>The bytes of a float whose sign decides between complement and flip.\<close>

definition float_bytes :: "f64 \<Rightarrow> byte list" where
  "float_bytes d = (if f64_below_zero d then map (\<lambda>b. NOT b) (be_bytes 8 (unat d)) else flip_first (be_bytes 8 (unat d)))"

lemma flip_first_8: "flip_first (be_bytes 8 v) = be_bytes 8 (v + 2 ^ 63)"
  using flip_first_be_bytes [of 7 v] by simp

lemma float_bytes_number:
  assumes "\<not> f64_is_nan d" "d = 0 \<or> \<not> f64_is_zero d"
  shows "float_bytes d = be_bytes 8 (double_number d)"
proof (cases "f64_below_zero d")
  case True
  then have u: "unat d = 2 ^ 63 + f64_mag d" by (simp add: unat_f64 f64_below_zero_def)
  have "unat d < 256 ^ 8" using unsigned_less [of d] by simp
  from complement_be_bytes [OF this] show ?thesis using True f64_mag_less [of d]
    by (simp add: float_bytes_def double_number_def u)
next
  case False
  then have "\<not> f64_neg d" using assms by (auto simp: f64_below_zero_def f64_is_zero_def f64_neg_def)
  then have "unat d = f64_mag d" by (simp add: unat_f64)
  then show ?thesis using False by (simp add: float_bytes_def double_number_def flip_first_8 add.commute)
qed

lemma double_key_number:
  assumes "\<not> f64_is_nan d"
  shows "double_key d = chop_zeros (be_bytes 8 (double_number d))"
proof -
  let ?d = "if f64_is_zero d then 0 else d"
  have z: "\<not> f64_is_nan ?d" "?d = 0 \<or> \<not> f64_is_zero ?d" using assms by (auto simp: f64_is_nan_def f64_mag_def)
  have "double_number ?d = double_number d"
    by (auto simp: double_number_def f64_below_zero_def f64_is_zero_def f64_mag_def)
  then show ?thesis using float_bytes_number [OF z] by (simp add: double_key_def float_bytes_def Let_def)
qed

lemma double_number_order:
  assumes "\<not> f64_is_nan a" "\<not> f64_is_nan b"
  shows "word_cmp (double_number a) (double_number b) = word_cmp (f64_value a) (f64_value b)"
proof -
  have v: "f64_value x = (if f64_below_zero x then - mag_value (f64_mag x) else mag_value (f64_mag x))"
    if "\<not> f64_is_nan x" for x using that by (auto simp: f64_value_def f64_below_zero_def)
  have s: "f64_below_zero x \<Longrightarrow> 0 < f64_mag x" for x by (simp add: f64_below_zero_def)
  have n: "mag_value (f64_mag b) = - mag_value (f64_mag a) \<Longrightarrow> f64_mag a = 0 \<and> f64_mag b = 0"
    "- mag_value (f64_mag a) < mag_value (f64_mag b) \<longleftrightarrow> \<not> (f64_mag a = 0 \<and> f64_mag b = 0)"
    "\<not> mag_value (f64_mag a) < - mag_value (f64_mag b)" "mag_value (f64_mag a) = - mag_value (f64_mag b) \<Longrightarrow> f64_mag a = 0 \<and> f64_mag b = 0"
    using mag_value_nonneg [of "f64_mag a"] mag_value_nonneg [of "f64_mag b"]
      mag_value_pos [of "f64_mag a"] mag_value_pos [of "f64_mag b"] by linarith+
  show ?thesis
    using v [OF assms(1)] v [OF assms(2)] s [of a] s [of b] n f64_mag_less [of a] f64_mag_less [of b]
    by (cases "f64_below_zero a"; cases "f64_below_zero b") (auto simp: double_number_def word_cmp_def)
qed

lemma double_key_order:
  assumes "\<not> f64_is_nan a" "\<not> f64_is_nan b"
  shows "bytes_cmp (double_key a) (double_key b) = word_cmp (f64_value a) (f64_value b)"
  using double_number_order [OF assms] bytes_cmp_be_bytes [OF double_number_less double_number_less]
  by (simp add: double_key_number assms chop_zeros_cmp)

end
