(* ===== verification/Spec2Isabelle.thy ===== *)
theory Spec2Isabelle
  imports Lck_Properties Cch_Properties Evt Gen Tra_Readers Dml_Properties Dml_Guarantees Bt_Properties Srp_Properties
    Intl_Properties Srt_Properties Coll_Properties Btk_Double
begin

text \<open>
  A verification library for fire-crab, a conversion of the Firebird database engine to Rust.

  Parts of the program. The crate \<^verbatim>\<open>crates/ods\<close> reads and writes database files of the on-disk structure 14:
  an image of pages, page inventories, transaction inventories, pointer and data pages with compressed
  record versions, B-tree indexes, generators. \<^verbatim>\<open>crates/cch\<close> keeps dirty pages and orders their writes,
  \<^verbatim>\<open>crates/lck\<close> is the lock table, \<^verbatim>\<open>crates/evt\<close> the event table, \<^verbatim>\<open>crates/auth\<close> the digests, ciphers and the
  SRP-6a login. \<^verbatim>\<open>crates/wire\<close>, \<^verbatim>\<open>crates/dsql\<close>, \<^verbatim>\<open>crates/exe\<close>, \<^verbatim>\<open>crates/opt\<close> and others build a SQL server on them.
  This library models the storage, the concurrency and the login core, translated function by
  function; most definitions keep the name of the Rust function.

  Conventions (\<^verbatim>\<open>Prelude\<close>). A Rust panic is None of the type \<^verbatim>\<open>'a run\<close>; an optional answer of code that can
  panic is \<^verbatim>\<open>'a option run\<close>; an error of the code is the left of a sum. Values of pages are words of their
  width; lengths and offsets, which index memory that exists, are natural numbers. Loops are structural
  recursions, functions with a termination proof, or, where the code can loop for ever, partial
  functions into option, so that None is a run that never returns. Where the code does I/O, the model
  has the bytes.

  Theories and the code they model.

  Storage.
  \<^item> \<^verbatim>\<open>Sqz\<close> (\<^verbatim>\<open>sqz.rs\<close>): \<^verbatim>\<open>pack\<close>, \<^verbatim>\<open>unpack\<close>, \<^verbatim>\<open>unpack_prefix\<close>. What is packed unpacks; the decoder accepts exactly the
    well-formed streams; the stream stays inside the capacity the code reserves.
  \<^item> \<^verbatim>\<open>Image\<close> (\<^verbatim>\<open>lib.rs\<close>): the image of pages, plain and behind reference counts. The interface \<^verbatim>\<open>page_store\<close> has
    both as providers; copy-on-write refines plain assignment and never disturbs another image.
  \<^item> \<^verbatim>\<open>Pages\<close>, \<^verbatim>\<open>Inventory\<close>, \<^verbatim>\<open>Gen\<close>, \<^verbatim>\<open>Data\<close> (\<^verbatim>\<open>pages.rs, pip.rs, tip.rs, pointer.rs, gen.rs, data.rs\<close>): page headers and
    the decoders of each page kind, generators, slot directories, record headers and fragment chains.
  \<^item> \<^verbatim>\<open>Tra\<close>, \<^verbatim>\<open>Tra_Visibility\<close>, \<^verbatim>\<open>Tra_Properties\<close>, \<^verbatim>\<open>Tra_Readers\<close> (\<^verbatim>\<open>tra.rs\<close>): transaction states along the chain of
    inventory pages, difference records, snapshots, and the walk that finds the version a reader sees.
    The walk answers the newest version the reader counts, counting agrees with reading, a snapshot is
    not moved by later commits, whether or not it stops at transactions in limbo; a cyclic chain of
    versions nobody counts never returns.
  \<^item> \<^verbatim>\<open>Dml_Tx\<close>, \<^verbatim>\<open>Dml_Chain\<close>, \<^verbatim>\<open>Dml_Pages\<close>, \<^verbatim>\<open>Dml_Properties\<close> (\<^verbatim>\<open>dml.rs\<close>): page allocation, transaction states as they are
    written, the header's transaction numbers. A state set is the state read; the oldest fields are exact and
    do not move back; a page handed out was free, whether the inventory page in use had it or was exhausted
    and its last page became the next inventory page.
  \<^item> \<^verbatim>\<open>Dml_Store\<close>, \<^verbatim>\<open>Dml_Layout\<close>, \<^verbatim>\<open>Dml_Records\<close>, \<^verbatim>\<open>Dml_Versions\<close>, \<^verbatim>\<open>Dml_Visibility\<close>, \<^verbatim>\<open>Dml_Guarantees\<close> (\<^verbatim>\<open>dml.rs\<close>): records laid
    down, moved and chained. A data page is abstracted to its slots, a file to a map from addresses to
    records (interface \<^verbatim>\<open>record_store\<close>); inserts, updates and deletes are updates of that map, and readers
    on either side of the writer see either the old or the new version. An update may grow its record:
    it then moves below the other records of its page. The fragmented form of a record that does not
    fit its page is modelled, without theorems of its own.

  Indexes.
  \<^item> \<^verbatim>\<open>Btn\<close>, \<^verbatim>\<open>Btr\<close>, \<^verbatim>\<open>Btw\<close> (\<^verbatim>\<open>btr.rs, btw.rs\<close>): nodes, pages, the walk, the range lookup, the insert with splits and a
    new root, the bulk build.
  \<^item> \<^verbatim>\<open>Bt_Order\<close>, \<^verbatim>\<open>Btw_Pages\<close>, \<^verbatim>\<open>Bt_Tree\<close>, \<^verbatim>\<open>Bt_Split\<close>, \<^verbatim>\<open>Bt_Alloc\<close>, \<^verbatim>\<open>Bt_Insert\<close>, \<^verbatim>\<open>Bt_Properties\<close>: the orders of keys
    (interface \<^verbatim>\<open>key_order\<close>), the page allocator as the tree needs it (interface \<^verbatim>\<open>allocator\<close>), a stored tree as
    rows of pages, and the insert of an entry: always an answer, and on success a sound tree with exactly
    that entry more.
  \<^item> \<^verbatim>\<open>F64\<close>, \<^verbatim>\<open>Btk\<close>, \<^verbatim>\<open>Btk_Order\<close>, \<^verbatim>\<open>Btk_Bytes\<close>, \<^verbatim>\<open>Btk_Double\<close> (\<^verbatim>\<open>btw.rs\<close>, the key encoders): binary64 with exact
    ratios rounded once, the key of every column type, and compound keys. Keys of floats order as their
    values, and compound keys as the tuples of their segments (interface \<^verbatim>\<open>zero_blind\<close>).
  \<^item> \<^verbatim>\<open>Intl_Tables\<close>, \<^verbatim>\<open>Intl_Cases\<close>, \<^verbatim>\<open>Intl\<close>, \<^verbatim>\<open>Intl_Properties\<close> (\<^verbatim>\<open>intl.rs\<close>): the character sets. Each is a bijection of its
    bytes, and its case mapping stays in the set.
  \<^item> \<^verbatim>\<open>Coll\<close>, \<^verbatim>\<open>Coll_Properties\<close> (\<^verbatim>\<open>coll.rs\<close>): the narrow collation. Sort keys order as the comparison does.

  Rows and sorting.
  \<^item> \<^verbatim>\<open>Utf\<close>, \<^verbatim>\<open>Rows\<close>, \<^verbatim>\<open>Srt\<close>, \<^verbatim>\<open>Srt_Properties\<close> (\<^verbatim>\<open>wire/extsort.rs\<close>, \<^verbatim>\<open>format.rs\<close>, \<^verbatim>\<open>Value\<close>): the row codec, the external sort,
    which answers what an in-memory stable sort answers for every budget, and the row store.

  Concurrency.
  \<^item> \<^verbatim>\<open>Ordered_Map\<close>: \<^verbatim>\<open>BTreeMap\<close> as an association list in key order (interface \<^verbatim>\<open>ordered_map\<close>).
  \<^item> \<^verbatim>\<open>Lck\<close>, \<^verbatim>\<open>Lck_Grants\<close>, \<^verbatim>\<open>Lck_Table\<close>, \<^verbatim>\<open>Lck_Properties\<close> (\<^verbatim>\<open>lck/lib.rs\<close>): the lock table, as a state machine of owners.
    Granted modes are compatible, the wait-for relation of reachable tables is acyclic, the deadlock scan
    is exact, a release loses no wake-up.
  \<^item> \<^verbatim>\<open>Cch\<close>, \<^verbatim>\<open>Cch_Flush\<close>, \<^verbatim>\<open>Cch_Plan\<close>, \<^verbatim>\<open>Cch_Properties\<close> (\<^verbatim>\<open>cch/lib.rs\<close>): the page cache. A flush writes every dirty page
    once and respects the precedence graph, whose bounded search either orders two pages or gives up. A
    careful-write plan writes every changed page once, in order unless it is so large that the search can give up.
  \<^item> \<^verbatim>\<open>Evt\<close> (\<^verbatim>\<open>evt/lib.rs\<close>): events. A commit delivers exactly what its counts reach, in order.

  Login.
  \<^item> \<^verbatim>\<open>Big\<close>, \<^verbatim>\<open>Big_Arith\<close>, \<^verbatim>\<open>Big_Division\<close>, \<^verbatim>\<open>Big_Montgomery\<close> (\<^verbatim>\<open>auth/crypto.rs\<close>): limb arithmetic against the integers.
  \<^item> \<^verbatim>\<open>Hash\<close>, \<^verbatim>\<open>Cipher\<close> (\<^verbatim>\<open>auth/crypto.rs\<close>): digests and wire ciphers; the receiver recovers the stream.
  \<^item> \<^verbatim>\<open>Srp\<close>, \<^verbatim>\<open>Srp_Properties\<close> (\<^verbatim>\<open>auth/srp.rs\<close>): both sides of the login agree on the session key.

  Bounds. No definition runs on fuel of the model's own. The loops that follow page numbers or record
  addresses found in the file (the version walk, the descents and walks of an index, the inventory chain, the
  allocator, the drain of the cache) are partial functions: on a file whose links form a cycle the code does
  not return and neither does the model. That they return is a theorem where it holds: for trees with at most
  256 levels, which is what a level byte can number, for version chains that end, for sound inventories, and
  for acyclic precedence graphs. The search of the cache for a path is cut off where the code cuts it off.

  Parameters. \<^verbatim>\<open>ddl::sys_insert\<close> (one row of the catalogue, \<^verbatim>\<open>ddl.rs\<close>) and the caller's closure \<^verbatim>\<open>still_keys\<close> are
  arguments of the definitions that call them, and so are the random bytes of the login. The modular
  exponentiation and the digests of the login are modelled.

  Not modelled. The SQL server, compiler, interpreter and optimizer, the DDL writer, backup, services,
  the command lines: code on top of the storage core, each far larger than it, whose specification is
  the SQL dialect of the engine. In the storage crate: field formats (\<^verbatim>\<open>format.rs\<close> beyond the values and the
  descriptors of an index), garbage collection, the difference file, BLR, decimal floating point, time zones,
  validation. \<^verbatim>\<open>md5\<close> (its table is a sine), the Unicode case folding of \<^verbatim>\<open>intl.rs\<close> and the Unicode collations of
  \<^verbatim>\<open>coll.rs\<close> rest on library code outside the repository.
\<close>

end
